(* ===== verification/Wwiv_Prelude.thy ===== *)
theory Wwiv_Prelude
  imports Main "HOL-Library.Word" "HOL-Library.Char_ord" "HOL-Library.List_Lexorder"
begin

text \<open>
  The vocabulary the component theories share.

  \<^item> C++ values: a byte of a \<open>char\<close> array or a \<open>std::string\<close> is a \<open>char\<close>, a
    \<open>std::string\<close> or a file's contents a \<open>string\<close>, the fixed-width integers of
    \<open>cstdint\<close> are words.
  \<^item> C++ failures: exceptions the source throws (or lets the standard library throw) and
    undefined behaviour are values of \<open>cpp_error\<close>; a fallible operation returns
    \<open>cpp_error + 'a\<close>.
  \<^item> C library functions the sources call (\<open>isspace\<close>, \<open>toupper\<close>, \<open>strcasecmp\<close>,
    \<open>strtol\<close>, \<open>stoi\<close>, \<open>stoul\<close>, \<open>atoi\<close>) in the "C" locale on an LP64 platform.
  \<^item> the generic lemmas on lists and option values used by more than one component.
\<close>

named_theorems wwiv_defs \<comment> \<open>definitions unfolded when a concrete input is evaluated\<close>

type_synonym u8 = "8 word"
type_synonym u16 = "16 word"
type_synonym u32 = "32 word"
type_synonym bytes = string

lemma sint_area: "x < 32768 \<Longrightarrow> sint (word_of_nat x :: u16) = int x"
  by (simp add: signed_of_nat signed_take_bit_int_eq_self)

section \<open>Failures\<close>

datatype cpp_error =
    UndefinedBehaviour     \<comment> \<open>out-of-bounds access, dereference of end() or of a null pointer\<close>
  | OutOfRange             \<comment> \<open>\<open>std::out_of_range\<close>\<close>
  | InvalidArgument        \<comment> \<open>\<open>std::invalid_argument\<close>\<close>

definition bind_res :: "'e + 'a \<Rightarrow> ('a \<Rightarrow> 'e + 'b) \<Rightarrow> 'e + 'b" where
  "bind_res r f = (case r of Inl e \<Rightarrow> Inl e | Inr x \<Rightarrow> f x)"

lemma bind_res_simps [simp]:
  "bind_res (Inl e) f = Inl e"
  "bind_res (Inr x) f = f x"
  by (simp_all add: bind_res_def)

lemma bind_res_Inr_iff: "bind_res r f = Inr y \<longleftrightarrow> (\<exists>x. r = Inr x \<and> f x = Inr y)"
  by (cases r) auto

section \<open>Characters of the "C" locale\<close>

abbreviation ord :: "char \<Rightarrow> nat" where
  "ord c \<equiv> of_char c"

definition NUL :: char where
  "NUL = CHR 0x00"

definition isspace :: "char \<Rightarrow> bool" where
  "isspace c \<longleftrightarrow> c = CHR '' '' \<or> (9 \<le> ord c \<and> ord c \<le> 13)"

definition isdigit :: "char \<Rightarrow> bool" where
  "isdigit c \<longleftrightarrow> 48 \<le> ord c \<and> ord c \<le> 57"

definition isupper :: "char \<Rightarrow> bool" where
  "isupper c \<longleftrightarrow> 65 \<le> ord c \<and> ord c \<le> 90"

definition islower :: "char \<Rightarrow> bool" where
  "islower c \<longleftrightarrow> 97 \<le> ord c \<and> ord c \<le> 122"

definition isalnum :: "char \<Rightarrow> bool" where
  "isalnum c \<longleftrightarrow> isdigit c \<or> isupper c \<or> islower c"

definition toupper :: "char \<Rightarrow> char" where
  "toupper c = (if islower c then char_of (ord c - 32) else c)"

definition tolower :: "char \<Rightarrow> char" where
  "tolower c = (if isupper c then char_of (ord c + 32) else c)"

lemmas ctype_defs = isspace_def isdigit_def isupper_def islower_def isalnum_def
  toupper_def tolower_def

lemma ord_eq_iff: "ord c = ord d \<longleftrightarrow> c = d"
  by (simp)

lemma ord_toupper: "ord (toupper c) = (if islower c then ord c - 32 else ord c)"
  by (auto simp: toupper_def islower_def)

lemma ord_tolower: "ord (tolower c) = (if isupper c then ord c + 32 else ord c)"
  by (auto simp: tolower_def isupper_def)

lemma not_islower_toupper [simp]: "\<not> islower (toupper c)"
proof (cases "islower c")
  case True
  then have "ord (toupper c) < 97" by (auto simp: ord_toupper islower_def)
  then show ?thesis by (simp add: islower_def)
qed (simp add: toupper_def)

lemma not_isupper_tolower [simp]: "\<not> isupper (tolower c)"
proof (cases "isupper c")
  case True
  then have "90 < ord (tolower c)" by (auto simp: ord_tolower isupper_def)
  then show ?thesis by (simp add: isupper_def)
qed (simp add: tolower_def)

lemma toupper_idem [simp]: "toupper (toupper c) = toupper c"
  by (simp add: toupper_def [of "toupper c"])

lemma tolower_idem [simp]: "tolower (tolower c) = tolower c"
  by (simp add: tolower_def [of "tolower c"])

lemma toupper_tolower [simp]: "toupper (tolower c) = toupper c"
proof (rule of_char_eqI)
  show "ord (toupper (tolower c)) = ord (toupper c)"
    by (auto simp: ord_toupper ord_tolower islower_def isupper_def simp del: of_char_eq_iff)
qed

lemma tolower_toupper [simp]: "tolower (toupper c) = tolower c"
proof (rule of_char_eqI)
  show "ord (tolower (toupper c)) = ord (tolower c)"
    by (auto simp: ord_toupper ord_tolower islower_def isupper_def simp del: of_char_eq_iff)
qed

lemma tolower_eq_iff_toupper_eq: "tolower c = tolower d \<longleftrightarrow> toupper c = toupper d"
  by (metis tolower_toupper toupper_tolower)


section \<open>C strings\<close>

text \<open>
  \<open>c_str\<close> is the content of a NUL-terminated array: what a \<open>const char*\<close> taken from a
  \<open>std::string\<close> denotes. \<open>strcmp\<close> and \<open>strcasecmp\<close> compare such contents as unsigned
  bytes; only the sign of their result is specified.
\<close>

definition c_str :: "string \<Rightarrow> string" where
  "c_str s = takeWhile (\<lambda>c. c \<noteq> NUL) s"

fun strcmp :: "string \<Rightarrow> string \<Rightarrow> int" where
  "strcmp [] [] = 0"
| "strcmp (c # s) [] = 1"
| "strcmp [] (d # t) = -1"
| "strcmp (c # s) (d # t) = (if c = d then strcmp s t else int (ord c) - int (ord d))"

definition strcasecmp :: "string \<Rightarrow> string \<Rightarrow> int" where
  "strcasecmp s t = strcmp (map tolower s) (map tolower t)"

lemma c_str_idem [simp]: "c_str (c_str s) = c_str s"
  by (simp add: c_str_def)

lemma NUL_notin_c_str [simp]: "NUL \<notin> set (c_str s)"
  by (auto simp: c_str_def dest: set_takeWhileD)

lemma c_str_id: "NUL \<notin> set s \<Longrightarrow> c_str s = s"
  by (induction s) (auto simp: c_str_def)

lemma c_str_append_NUL: "NUL \<notin> set s \<Longrightarrow> c_str (s @ NUL # t) = s"
  by (induction s) (auto simp: c_str_def)

lemma length_c_str: "length (c_str s) \<le> length s"
  by (simp add: c_str_def length_takeWhile_le)

lemma strcmp_eq_0_iff [simp]: "strcmp s t = 0 \<longleftrightarrow> s = t"
  by (induction s t rule: strcmp.induct) auto

lemma strcmp_pos_iff: "0 < strcmp s t \<longleftrightarrow> t < s"
  by (induction s t rule: strcmp.induct) (auto simp: less_char_def)

lemma strcmp_neg_iff: "strcmp s t < 0 \<longleftrightarrow> s < t"
  by (induction s t rule: strcmp.induct) (auto simp: less_char_def)

lemma strcasecmp_eq_0_iff: "strcasecmp s t = 0 \<longleftrightarrow> map tolower s = map tolower t"
  by (simp add: strcasecmp_def)

section \<open>Reading numbers\<close>

text \<open>
  The common part of \<open>strtol\<close> and \<open>strtoul\<close> in base 10: leading white space, an optional
  sign, then the longest run of digits; \<open>None\<close> when there is no digit.
\<close>

definition digit_val :: "char \<Rightarrow> nat" where
  "digit_val c = ord c - 48"

definition digits_val :: "string \<Rightarrow> nat" where
  "digits_val ds = foldl (\<lambda>n c. 10 * n + digit_val c) 0 ds"

definition scan_number :: "string \<Rightarrow> (bool \<times> nat) option" where
  "scan_number s =
     (let t = dropWhile isspace s;
          neg = (t \<noteq> [] \<and> hd t = CHR ''-'');
          u = (if t \<noteq> [] \<and> (hd t = CHR ''-'' \<or> hd t = CHR ''+'') then tl t else t);
          ds = takeWhile isdigit u
      in if ds = [] then None else Some (neg, digits_val ds))"

definition signed_val :: "bool \<times> nat \<Rightarrow> int" where
  "signed_val p = (if fst p then - int (snd p) else int (snd p))"

text \<open>\<open>std::stoi\<close>, \<open>std::stol\<close> and \<open>std::stoul\<close>; \<open>long\<close> has 64 bits.\<close>

definition stoi :: "string \<Rightarrow> cpp_error + int" where
  "stoi s = (case scan_number s of None \<Rightarrow> Inl InvalidArgument
     | Some p \<Rightarrow> if signed_val p < - (2 ^ 31) \<or> 2 ^ 31 - 1 < signed_val p then Inl OutOfRange
                 else Inr (signed_val p))"

definition stol :: "string \<Rightarrow> cpp_error + int" where
  "stol s = (case scan_number s of None \<Rightarrow> Inl InvalidArgument
     | Some p \<Rightarrow> if signed_val p < - (2 ^ 63) \<or> 2 ^ 63 - 1 < signed_val p then Inl OutOfRange
                 else Inr (signed_val p))"

definition stoul :: "string \<Rightarrow> cpp_error + int" where
  "stoul s = (case scan_number s of None \<Rightarrow> Inl InvalidArgument
     | Some p \<Rightarrow> if 2 ^ 64 \<le> snd p then Inl OutOfRange
                 else Inr (signed_val p mod 2 ^ 64))"

text \<open>\<open>atol\<close> is \<open>strtol\<close>, which saturates; \<open>atoi\<close> converts its result to 32 bits.\<close>

definition atol :: "string \<Rightarrow> int" where
  "atol s = (case scan_number s of None \<Rightarrow> 0
     | Some p \<Rightarrow> max (- (2 ^ 63)) (min (2 ^ 63 - 1) (signed_val p)))"

definition atoi :: "string \<Rightarrow> int" where
  "atoi s = sint (word_of_int (atol s) :: 32 word)"

lemmas number_defs = digit_val_def digits_val_def scan_number_def signed_val_def
  stoi_def stol_def stoul_def atol_def atoi_def

text \<open>Printing: \<open>"%d"\<close> and \<open>"%u"\<close> without a width.\<close>

fun show_nat :: "nat \<Rightarrow> string" where
  "show_nat n = (if n < 10 then [char_of (48 + n)] else show_nat (n div 10) @ [char_of (48 + n mod 10)])"

declare show_nat.simps [simp del]

definition show_int :: "int \<Rightarrow> string" where
  "show_int i = (if i < 0 then CHR ''-'' # show_nat (nat (- i)) else show_nat (nat i))"

lemma digits_val_snoc: "digits_val (ds @ [c]) = 10 * digits_val ds + digit_val c"
  by (simp add: digits_val_def)

lemma isdigit_show_nat: "c \<in> set (show_nat n) \<Longrightarrow> isdigit c"
proof (induction n rule: show_nat.induct)
  case (1 n)
  then show ?case
    by (subst (asm) (2) show_nat.simps) (auto simp: isdigit_def split: if_splits)
qed

lemma show_nat_nonempty [simp]: "show_nat n \<noteq> []"
  by (subst show_nat.simps) simp

lemma length_show_nat_le: "n < 10 ^ k \<Longrightarrow> 0 < k \<Longrightarrow> length (show_nat n) \<le> k"
proof (induction n arbitrary: k rule: show_nat.induct)
  case (1 n)
  show ?case
  proof (cases "n < 10")
    case False
    with "1.prems" obtain j where k: "k = Suc j" "0 < j" by (cases k; cases "k - 1") auto
    then have "n div 10 < 10 ^ j" using "1.prems" by (simp add: less_mult_imp_div_less mult.commute)
    with "1.IH" [OF False this k(2)] False k show ?thesis by (subst show_nat.simps) simp
  qed (use "1.prems" in \<open>simp add: show_nat.simps\<close>)
qed

lemma digits_val_show_nat: "digits_val (show_nat n) = n"
proof (induction n rule: show_nat.induct)
  case (1 n)
  show ?case
  proof (cases "n < 10")
    case True
    then show ?thesis by (simp add: show_nat.simps [of n] digits_val_def digit_val_def)
  next
    case False
    with 1 show ?thesis
      by (simp add: show_nat.simps [of n] digits_val_snoc digit_val_def)
  qed
qed

lemma isdigit_not_isspace: "isdigit c \<Longrightarrow> \<not> isspace c"
  by (auto simp: isdigit_def isspace_def)

lemma scan_number_show_nat:
  assumes "rest = [] \<or> \<not> isdigit (hd rest)"
  shows "scan_number (show_nat n @ rest) = Some (False, n)"
proof -
  obtain c cs where c: "show_nat n = c # cs" by (cases "show_nat n") auto
  have dig: "isdigit d" if "d \<in> set (show_nat n)" for d using that by (rule isdigit_show_nat)
  have "takeWhile isdigit (show_nat n @ rest) = show_nat n"
    using assms dig by (cases rest) (auto simp: takeWhile_append)
  moreover have "isdigit c" using dig c by simp
  moreover from this have "c \<noteq> CHR ''-''" "c \<noteq> CHR ''+''" "\<not> isspace c"
    by (auto simp: isdigit_def isspace_def)
  ultimately show ?thesis
    by (simp add: scan_number_def c digits_val_show_nat [of n, unfolded c] Let_def)
qed

text \<open>\<open>std::string::find_last_of\<close> of one character.\<close>

definition find_last_of :: "string \<Rightarrow> char \<Rightarrow> nat option" where
  "find_last_of s c =
     (let p = length (takeWhile (\<lambda>d. d \<noteq> c) (rev s))
      in if p < length s then Some (length s - 1 - p) else None)"

lemma find_last_of_None: "find_last_of s c = None \<longleftrightarrow> c \<notin> set s"
proof -
  have less: "length (takeWhile (\<lambda>d. d \<noteq> c) r) < length r \<longleftrightarrow> c \<in> set r" for r
    by (induction r) auto
  from less [of "rev s"] have "length (takeWhile (\<lambda>d. d \<noteq> c) (rev s)) < length s \<longleftrightarrow> c \<in> set s" by simp
  then show ?thesis by (simp add: find_last_of_def Let_def)
qed

lemma find_last_of_Some: "find_last_of s c = Some p \<Longrightarrow> p < length s"
  by (auto simp: find_last_of_def Let_def split: if_splits)

section \<open>Maps\<close>

text \<open>\<open>std::map::emplace\<close>: a key that is there keeps its value.\<close>

definition map_emplace :: "'k \<Rightarrow> 'v \<Rightarrow> ('k \<rightharpoonup> 'v) \<Rightarrow> 'k \<rightharpoonup> 'v" where
  "map_emplace k v m = (if m k = None then m(k \<mapsto> v) else m)"

lemma map_emplace_add: "map_of kvs ++ map_emplace k v m = map_of ((k, v) # kvs) ++ m"
  by (auto simp: map_emplace_def map_add_def fun_eq_iff split: option.splits)

lemma foldl_map_emplace: "foldl (\<lambda>m (k, v). map_emplace k v m) m kvs = map_of kvs ++ m"
  by (induction kvs arbitrary: m) (auto simp: map_emplace_add simp del: map_of.simps(2))

lemma map_of_find: "map_of (map (\<lambda>e. (f e, g e)) es) k = map_option g (find (\<lambda>e. f e = k) es)"
  by (induction es) auto

text \<open>A node number looked up in a map keyed by 16-bit words is narrowed first.\<close>

lemma node_key:
  assumes "n \<le> 65535"
  shows "(word_of_nat n :: u16) = word_of_int node \<longleftrightarrow> int n = node mod 65536"
proof -
  have "(word_of_nat n :: u16) = word_of_int node \<longleftrightarrow> uint (word_of_nat n :: u16) = uint (word_of_int node :: u16)"
    by (rule word_uint_eq_iff)
  also have "\<dots> \<longleftrightarrow> int n mod 65536 = node mod 65536"
    by (simp add: uint_word_of_int unsigned_of_nat take_bit_eq_mod zmod_int)
  finally show ?thesis using assms by simp
qed

lemma find_node_key:
  assumes "\<forall>e \<in> set es. f e \<le> 65535"
  shows "find (\<lambda>e. word_of_nat (f e) = (word_of_int node :: u16)) es = find (\<lambda>e. int (f e) = node mod 65536) es"
  using assms by (intro find_cong) (auto simp: node_key)

text \<open>A \<open>std::map\<close> with string keys whose order or emptiness matters: an association list in the order
  of its keys.\<close>

fun emplace :: "string \<Rightarrow> 'v \<Rightarrow> (string \<times> 'v) list \<Rightarrow> (string \<times> 'v) list" where
  "emplace k v [] = [(k, v)]"
| "emplace k v ((k', v') # m) =
     (if k < k' then (k, v) # (k', v') # m
      else if k = k' then (k', v') # m
      else (k', v') # emplace k v m)"

definition erase_key :: "string \<Rightarrow> (string \<times> 'v) list \<Rightarrow> (string \<times> 'v) list" where
  "erase_key k m = filter (\<lambda>e. fst e \<noteq> k) m"

definition assign_key :: "string \<Rightarrow> 'v \<Rightarrow> (string \<times> 'v) list \<Rightarrow> (string \<times> 'v) list" where
  "assign_key k v m = emplace k v (erase_key k m)"

abbreviation sorted_keys :: "(string \<times> 'v) list \<Rightarrow> bool" where
  "sorted_keys m \<equiv> sorted_wrt (<) (map fst m)"

lemma map_of_emplace [simp]:
  "sorted_keys m \<Longrightarrow> map_of (emplace k v m) x = (if x = k \<and> map_of m k = None then Some v else map_of m x)"
proof (induction m)
  case (Cons e m)
  obtain k' v' where e: "e = (k', v')" by (cases e)
  show ?case
  proof (cases "k < k'")
    case True
    have "k \<notin> fst ` set m" using Cons.prems True by (force simp: e)
    with True have "map_of m k = None" by (simp add: map_of_eq_None_iff)
    with True show ?thesis by (auto simp: e)
  next
    case False
    with Cons show ?thesis by (auto simp: e)
  qed
qed simp

lemma fst_set_emplace [simp]: "set (map fst (emplace k v m)) = insert k (set (map fst m))"
  by (induction k v m rule: emplace.induct) auto

lemma sorted_emplace [simp]: "sorted_keys m \<Longrightarrow> sorted_keys (emplace k v m)"
proof (induction m)
  case (Cons e m)
  obtain k' v' where e: "e = (k', v')" by (cases e)
  have gt: "\<forall>x \<in> set (map fst m). k' < x" and sm: "sorted_keys m" using Cons.prems by (simp_all add: e)
  consider "k < k'" | "k = k'" | "k' < k" by (cases k k' rule: linorder_cases)
  then show ?case
  proof cases
    case 1
    then have "\<forall>x \<in> set (map fst m). k < x" using gt by (meson less_trans)
    with 1 gt sm show ?thesis by (simp add: e)
  next
    case 2
    then show ?thesis using Cons.prems by (simp add: e)
  next
    case 3
    then have "\<forall>x \<in> set (map fst (emplace k v m)). k' < x" unfolding fst_set_emplace using gt by simp
    moreover have "\<not> k < k'" "k \<noteq> k'" using 3 by auto
    ultimately show ?thesis using Cons.IH [OF sm] by (simp add: e)
  qed
qed simp

lemma sorted_erase [simp]: "sorted_keys m \<Longrightarrow> sorted_keys (erase_key k m)"
  by (induction m) (auto simp: erase_key_def)

lemma map_of_erase [simp]: "map_of (erase_key k m) x = (if x = k then None else map_of m x)"
  by (induction m) (auto simp: erase_key_def)

lemma map_of_assign [simp]: "sorted_keys m \<Longrightarrow> map_of (assign_key k v m) = (map_of m)(k \<mapsto> v)"
  by (auto simp: assign_key_def)

lemma sorted_assign [simp]: "sorted_keys m \<Longrightarrow> sorted_keys (assign_key k v m)"
  by (simp add: assign_key_def)

end
