(* ===== verification/Core_File.thy ===== *)
theory Core_File
  imports Wwiv_Prelude
begin

text \<open>
  \<open>core/file.cpp\<close> and \<open>core/datafile.h\<close>: an open \<open>File\<close> is its bytes and its position,
  with the POSIX meaning of \<open>lseek\<close>, \<open>read\<close>, \<open>write\<close> (which fills a gap behind the end with
  zero bytes) and \<open>ftruncate\<close>; the disk does not fail. \<open>DataFile<RECORD>\<close> is a \<open>File\<close> seen as
  an array of fixed-size records: its operations take the record's encoder, decoder and size,
  and the locale \<open>record_codec\<close> states what a record type promises. Inside it they are shown
  to implement the operations on the list of records (\<open>recs\<close>).
\<close>

section \<open>Files\<close>

record wfile =
  contents :: bytes
  fpos :: nat

definition opened :: "bytes \<Rightarrow> wfile" where
  "opened c = \<lparr>contents = c, fpos = 0\<rparr>"

definition File_Seek :: "nat \<Rightarrow> wfile \<Rightarrow> wfile" where
  "File_Seek lOffset f = f\<lparr>fpos := lOffset\<rparr>"

definition File_Read :: "nat \<Rightarrow> wfile \<Rightarrow> bytes \<times> wfile" where
  "File_Read nCount f =
     (let b = take nCount (drop (fpos f) (contents f)) in (b, f\<lparr>fpos := fpos f + length b\<rparr>))"

definition File_Write :: "bytes \<Rightarrow> wfile \<Rightarrow> wfile" where
  "File_Write pBuffer f =
     (if pBuffer = [] then f
      else f\<lparr>contents := take (fpos f) (contents f) @ replicate (fpos f - length (contents f)) NUL
                          @ pBuffer @ drop (fpos f + length pBuffer) (contents f),
             fpos := fpos f + length pBuffer\<rparr>)"

definition File_SetLength :: "nat \<Rightarrow> wfile \<Rightarrow> wfile" where
  "File_SetLength lNewLength f =
     f\<lparr>contents := take lNewLength (contents f) @ replicate (lNewLength - length (contents f)) NUL\<rparr>"

definition File_GetLength :: "wfile \<Rightarrow> nat" where
  "File_GetLength f = length (contents f)"

text \<open>Their effect on the bytes: reading and overwriting a range.\<close>

definition read_at :: "nat \<Rightarrow> nat \<Rightarrow> bytes \<Rightarrow> bytes" where
  "read_at p n c = take n (drop p c)"

definition overwrite :: "bytes \<Rightarrow> nat \<Rightarrow> bytes \<Rightarrow> bytes" where
  "overwrite c p d = take p c @ replicate (p - length c) NUL @ d @ drop (p + length d) c"

lemma contents_File_Seek [simp]: "contents (File_Seek p f) = contents f"
  by (simp add: File_Seek_def)

lemma contents_opened [simp]: "contents (opened c) = c"
  by (simp add: opened_def)

lemma fpos_opened [simp]: "fpos (opened c) = 0"
  by (simp add: opened_def)

lemma File_Read_Seek: "fst (File_Read n (File_Seek p f)) = read_at p n (contents f)"
  by (simp add: File_Read_def File_Seek_def read_at_def Let_def)

lemma contents_File_Read [simp]: "contents (snd (File_Read n f)) = contents f"
  by (simp add: File_Read_def Let_def)

lemma contents_File_Write_Seek:
  "contents (File_Write d (File_Seek p f)) = (if d = [] then contents f else overwrite (contents f) p d)"
  by (simp add: File_Write_def File_Seek_def overwrite_def)

lemma length_overwrite: "length (overwrite c p d) = max (length c) (p + length d)"
  by (auto simp: overwrite_def max_def)

lemma length_read_at: "length (read_at p n c) = min n (length c - p)"
  by (simp add: read_at_def)

lemma length_read_at_full: "p + n \<le> length c \<Longrightarrow> length (read_at p n c) = n"
  by (simp add: read_at_def)

lemma nth_overwrite:
  assumes "i < max (length c) (p + length d)"
  shows "overwrite c p d ! i =
    (if p \<le> i \<and> i < p + length d then d ! (i - p) else if i < length c then c ! i else NUL)"
  using assms by (auto simp: overwrite_def nth_append min_def)

lemma nth_read_at: "i < n \<Longrightarrow> p + i < length c \<Longrightarrow> read_at p n c ! i = c ! (p + i)"
  by (simp add: read_at_def add.commute)

lemma read_at_overwrite_same: "read_at p (length d) (overwrite c p d) = d"
  by (rule nth_equalityI) (auto simp: length_read_at length_overwrite nth_read_at nth_overwrite)

lemma read_at_overwrite_before:
  assumes "q + n \<le> p" "q + n \<le> length c"
  shows "read_at q n (overwrite c p d) = read_at q n c"
  using assms
  by (intro nth_equalityI) (auto simp: length_read_at length_overwrite nth_read_at nth_overwrite)

lemma read_at_overwrite_after:
  assumes "p + length d \<le> q"
  shows "read_at q n (overwrite c p d) = read_at q n c"
  using assms
  by (intro nth_equalityI) (auto simp: length_read_at length_overwrite nth_read_at nth_overwrite)

section \<open>Little-endian integers\<close>

fun le_bytes :: "nat \<Rightarrow> nat \<Rightarrow> bytes" where
  "le_bytes 0 k = []"
| "le_bytes (Suc n) k = char_of (k mod 256) # le_bytes n (k div 256)"

fun le_val :: "bytes \<Rightarrow> nat" where
  "le_val [] = 0"
| "le_val (c # cs) = ord c + 256 * le_val cs"

lemma length_le_bytes [simp]: "length (le_bytes n k) = n"
  by (induction n arbitrary: k) auto

lemma le_val_less: "le_val bs < 256 ^ length bs"
proof (induction bs)
  case (Cons c cs)
  have "ord c < 256" by simp
  then have "ord c + 256 * le_val cs < 256 * Suc (le_val cs)" by (simp del: nat_of_char_less_256)
  also have "\<dots> \<le> 256 * 256 ^ length cs" using Cons.IH by (intro mult_le_mono2 Suc_leI)
  finally show ?case by simp
qed simp

lemma le_val_le_bytes: "le_val (le_bytes n k) = k mod 256 ^ n"
proof (induction n arbitrary: k)
  case (Suc n)
  have "k mod (256 * 256 ^ n) = 256 * (k div 256 mod 256 ^ n) + k mod 256"
    by (rule mod_mult2_eq)
  with Suc show ?case by simp
qed simp

lemma le_bytes_le_val: "length bs = n \<Longrightarrow> le_bytes n (le_val bs) = bs"
proof (induction bs arbitrary: n)
  case (Cons c cs)
  have "(ord c + 256 * le_val cs) div 256 = le_val cs" by simp
  with Cons show ?case by auto
qed simp

definition enc_u16 :: "u16 \<Rightarrow> bytes" where
  "enc_u16 w = le_bytes 2 (unat w)"

definition dec_u16 :: "bytes \<Rightarrow> u16" where
  "dec_u16 b = word_of_nat (le_val b)"

definition enc_u32 :: "u32 \<Rightarrow> bytes" where
  "enc_u32 w = le_bytes 4 (unat w)"

definition dec_u32 :: "bytes \<Rightarrow> u32" where
  "dec_u32 b = word_of_nat (le_val b)"

lemma length_enc_u16 [simp]: "length (enc_u16 w) = 2"
  by (simp add: enc_u16_def)

lemma length_enc_u32 [simp]: "length (enc_u32 w) = 4"
  by (simp add: enc_u32_def)

lemma dec_enc_u16 [simp]: "dec_u16 (enc_u16 w) = w"
  using unsigned_less [of w, where ?'a = nat]
  by (simp add: dec_u16_def enc_u16_def le_val_le_bytes)

lemma dec_enc_u32 [simp]: "dec_u32 (enc_u32 w) = w"
  using unsigned_less [of w, where ?'a = nat]
  by (simp add: dec_u32_def enc_u32_def le_val_le_bytes)

lemma enc_dec_u16: "length b = 2 \<Longrightarrow> enc_u16 (dec_u16 b) = b"
  using le_val_less [of b]
  by (simp add: dec_u16_def enc_u16_def unat_of_nat le_bytes_le_val)

lemma enc_dec_u32: "length b = 4 \<Longrightarrow> enc_u32 (dec_u32 b) = b"
  using le_val_less [of b]
  by (simp add: dec_u32_def enc_u32_def unat_of_nat le_bytes_le_val)

definition enc_u8 :: "u8 \<Rightarrow> bytes" where
  "enc_u8 w = le_bytes 1 (unat w)"

definition dec_u8 :: "bytes \<Rightarrow> u8" where
  "dec_u8 b = word_of_nat (le_val b)"

lemma length_enc_u8 [simp]: "length (enc_u8 w) = 1"
  by (simp add: enc_u8_def)

lemma dec_enc_u8 [simp]: "dec_u8 (enc_u8 w) = w"
  using unsigned_less [of w, where ?'a = nat]
  by (simp add: dec_u8_def enc_u8_def le_val_le_bytes del: le_bytes.simps One_nat_def)

lemma enc_dec_u8: "length b = 1 \<Longrightarrow> enc_u8 (dec_u8 b) = b"
  using le_val_less [of b]
  by (simp add: dec_u8_def enc_u8_def unat_of_nat le_bytes_le_val del: le_bytes.simps One_nat_def)

lemma read_at_append_drop: "q = p + n \<Longrightarrow> read_at p n b @ drop q b = drop p b"
  by (metis add.commute append_take_drop_id drop_drop read_at_def)

lemma read_at_append_drop_assoc: "q = p + n \<Longrightarrow> read_at p n b @ drop q b @ x = drop p b @ x"
  by (metis append_assoc read_at_append_drop)

lemma read_at_last: "length b = p + n \<Longrightarrow> read_at p n b = drop p b"
  by (simp add: read_at_def)

section \<open>DataFile\<close>

definition DataFile_number_of_records :: "nat \<Rightarrow> wfile \<Rightarrow> nat" where
  "DataFile_number_of_records SIZE f = File_GetLength f div SIZE"

definition DataFile_Seek :: "nat \<Rightarrow> nat \<Rightarrow> wfile \<Rightarrow> wfile" where
  "DataFile_Seek SIZE record_number f = File_Seek (record_number * SIZE) f"

text \<open>
  \<open>Read\<close> fills caller memory; here it returns the records, \<open>None\<close> when it returns \<open>false\<close>
  because fewer bytes were there (the caller's memory is then not what the caller expects).
\<close>

definition DataFile_Read :: "(bytes \<Rightarrow> 'r) \<Rightarrow> nat \<Rightarrow> nat \<Rightarrow> wfile \<Rightarrow> 'r list option \<times> wfile" where
  "DataFile_Read dec SIZE num_records f =
     (if num_records = 0 then (Some [], f)
      else (let (b, f') = File_Read (num_records * SIZE) f
            in (if length b = num_records * SIZE
                then Some (map (\<lambda>i. dec (read_at (i * SIZE) SIZE b)) [0..<num_records])
                else None, f')))"

definition DataFile_Read_record :: "(bytes \<Rightarrow> 'r) \<Rightarrow> nat \<Rightarrow> nat \<Rightarrow> wfile \<Rightarrow> 'r option \<times> wfile" where
  "DataFile_Read_record dec SIZE record_number f =
     (let (rs, f') = DataFile_Read dec SIZE 1 (DataFile_Seek SIZE record_number f)
      in (map_option hd rs, f'))"

definition DataFile_ReadVector ::
  "(bytes \<Rightarrow> 'r) \<Rightarrow> nat \<Rightarrow> nat \<Rightarrow> wfile \<Rightarrow> 'r list option \<times> wfile" where
  "DataFile_ReadVector dec SIZE max_records f =
     (let num = DataFile_number_of_records SIZE f
      in if num = 0 then (Some [], f)
         else DataFile_Read dec SIZE
                (if max_records \<noteq> 0 \<and> max_records < num then max_records else num) f)"

definition DataFile_Write :: "('r \<Rightarrow> bytes) \<Rightarrow> 'r list \<Rightarrow> wfile \<Rightarrow> wfile" where
  "DataFile_Write enc records f = File_Write (concat (map enc records)) f"

definition DataFile_Write_record :: "('r \<Rightarrow> bytes) \<Rightarrow> nat \<Rightarrow> nat \<Rightarrow> 'r \<Rightarrow> wfile \<Rightarrow> wfile" where
  "DataFile_Write_record enc SIZE record_number r f =
     DataFile_Write enc [r] (DataFile_Seek SIZE record_number f)"

definition DataFile_WriteVector :: "('r \<Rightarrow> bytes) \<Rightarrow> nat \<Rightarrow> 'r list \<Rightarrow> wfile \<Rightarrow> wfile" where
  "DataFile_WriteVector enc max_records records f =
     (let num = (if max_records \<noteq> 0 \<and> max_records < length records then max_records
                 else length records)
      in DataFile_Write enc (take num records) f)"

text \<open>The array of records the bytes denote.\<close>

definition recs :: "(bytes \<Rightarrow> 'r) \<Rightarrow> nat \<Rightarrow> bytes \<Rightarrow> 'r list" where
  "recs dec SIZE c = map (\<lambda>i. dec (read_at (i * SIZE) SIZE c)) [0..<length c div SIZE]"

lemma length_recs [simp]: "length (recs dec SIZE c) = length c div SIZE"
  by (simp add: recs_def)

lemma nth_recs: "i < length c div SIZE \<Longrightarrow> recs dec SIZE c ! i = dec (read_at (i * SIZE) SIZE c)"
  by (simp add: recs_def)

lemma record_range: "i < m div k \<Longrightarrow> i * k + k \<le> (m::nat)"
  by (metis Suc_leI add.commute mult_Suc div_times_less_eq_dividend mult_le_mono1 le_trans)

lemma div_diff_mult: "0 < k \<Longrightarrow> (m - n * k) div k = m div k - (n::nat)"
proof -
  assume "0 < k"
  have "m - n * k = (m div k - n) * k + m mod k" if "n * k \<le> m" using that \<open>0 < k\<close>
    by (metis add_diff_assoc2 div_mult_mod_eq diff_mult_distrib less_eq_div_iff_mult_less_eq mult_le_mono1)
  moreover have "m div k \<le> n" if "m < n * k" using that by (metis div_le_mono less_imp_le nonzero_mult_div_cancel_right \<open>0 < k\<close> not_less0)
  ultimately show ?thesis using \<open>0 < k\<close> by (cases "n * k \<le> m") auto
qed

lemma recs_append: "0 < SIZE \<Longrightarrow> SIZE dvd length a \<Longrightarrow> recs dec SIZE (a @ b) = recs dec SIZE a @ recs dec SIZE b"
proof (rule nth_equalityI)
  assume S: "0 < SIZE" "SIZE dvd length a"
  then obtain k where k: "length a = SIZE * k" by blast
  show len: "length (recs dec SIZE (a @ b)) = length (recs dec SIZE a @ recs dec SIZE b)" using S k by (simp add: div_mult_self3)
  fix i assume "i < length (recs dec SIZE (a @ b))"
  then have i: "i < length (a @ b) div SIZE" by simp
  have e: "length (a @ b) div SIZE = k + length b div SIZE" using S(1) k by simp
  show "recs dec SIZE (a @ b) ! i = (recs dec SIZE a @ recs dec SIZE b) ! i"
  proof (cases "i < k")
    case True
    have "i * SIZE + SIZE \<le> length a" using record_range [of i "length a" SIZE] True S(1) k by simp
    then have "read_at (i * SIZE) SIZE (a @ b) = read_at (i * SIZE) SIZE a" by (simp add: read_at_def)
    then show ?thesis using True i S(1) k by (simp add: nth_append nth_recs)
  next
    case False
    then obtain j where j: "i = k + j" using le_Suc_ex not_less by blast
    have "read_at (i * SIZE) SIZE (a @ b) = read_at (j * SIZE) SIZE b" by (simp add: read_at_def j k algebra_simps)
    then show ?thesis using i S(1) k j e by (simp add: nth_append nth_recs)
  qed
qed

lemma recs_take: "0 < SIZE \<Longrightarrow> recs dec SIZE (take (n * SIZE) c) = take n (recs dec SIZE c)"
proof (rule nth_equalityI)
  assume S: "0 < SIZE"
  then have "n * SIZE \<le> length c \<longleftrightarrow> n \<le> length c div SIZE" by (simp add: less_eq_div_iff_mult_less_eq)
  then show "length (recs dec SIZE (take (n * SIZE) c)) = length (take n (recs dec SIZE c))"
    using S by (cases "n * SIZE \<le> length c") (simp_all add: min_absorb1 min_absorb2)
  fix i assume "i < length (recs dec SIZE (take (n * SIZE) c))"
  then have i: "i < length (take (n * SIZE) c) div SIZE" by simp
  from record_range [OF this] have r: "i * SIZE + SIZE \<le> n * SIZE" "i * SIZE + SIZE \<le> length c" by simp_all
  have "i < n" using r(1) S by (metis add_leE less_add_same_cancel1 mult_less_cancel2 order_less_le_trans)
  moreover have "i < length c div SIZE" using r(2) S by (simp add: less_eq_div_iff_mult_less_eq less_eq_Suc_le add.commute)
  moreover have "read_at (i * SIZE) SIZE (take (n * SIZE) c) = read_at (i * SIZE) SIZE c"
    using r(1) by (simp add: read_at_def drop_take min_def)
  ultimately show "recs dec SIZE (take (n * SIZE) c) ! i = take n (recs dec SIZE c) ! i" using i by (simp add: nth_recs)
qed

lemma recs_drop: "0 < SIZE \<Longrightarrow> recs dec SIZE (drop (n * SIZE) c) = drop n (recs dec SIZE c)"
proof (rule nth_equalityI)
  assume S: "0 < SIZE"
  then show "length (recs dec SIZE (drop (n * SIZE) c)) = length (drop n (recs dec SIZE c))" by (simp add: div_diff_mult)
  fix i assume "i < length (recs dec SIZE (drop (n * SIZE) c))"
  then have "i < (length c - n * SIZE) div SIZE" by simp
  moreover from this have "n + i < length c div SIZE" using S by (simp add: div_diff_mult)
  ultimately show "recs dec SIZE (drop (n * SIZE) c) ! i = drop n (recs dec SIZE c) ! i"
    by (simp add: nth_recs read_at_def algebra_simps)
qed

locale record_codec =
  fixes enc :: "'r \<Rightarrow> bytes"
    and dec :: "bytes \<Rightarrow> 'r"
    and valid :: "'r \<Rightarrow> bool"
    and SIZE :: nat
  assumes SIZE_pos: "0 < SIZE"
    and length_enc: "valid r \<Longrightarrow> length (enc r) = SIZE"
    and dec_enc: "valid r \<Longrightarrow> dec (enc r) = r"
    and valid_dec: "length b = SIZE \<Longrightarrow> valid (dec b)"
    and enc_dec: "length b = SIZE \<Longrightarrow> enc (dec b) = b"
begin

lemma valid_recs: "r \<in> set (recs dec SIZE c) \<Longrightarrow> valid r"
  by (auto simp: recs_def intro!: valid_dec length_read_at_full record_range)

lemma length_concat_enc: "(\<And>r. r \<in> set rs \<Longrightarrow> valid r) \<Longrightarrow> length (concat (map enc rs)) = length rs * SIZE"
  by (induction rs) (auto simp: length_enc)

lemma enc_nonempty: "valid r \<Longrightarrow> enc r \<noteq> []"
  using length_enc [of r] SIZE_pos by auto

lemma read_at_concat_enc:
  "(\<And>r. r \<in> set rs \<Longrightarrow> valid r) \<Longrightarrow> i < length rs \<Longrightarrow>
    read_at (i * SIZE) SIZE (concat (map enc rs)) = enc (rs ! i)"
proof (induction rs arbitrary: i)
  case (Cons r rs)
  then show ?case
    by (cases i) (auto simp: read_at_def length_enc add.commute)
qed simp

lemma recs_concat_enc:
  assumes "\<And>r. r \<in> set rs \<Longrightarrow> valid r"
  shows "recs dec SIZE (concat (map enc rs)) = rs"
proof (rule nth_equalityI)
  show len: "length (recs dec SIZE (concat (map enc rs))) = length rs"
    using SIZE_pos assms by (simp add: length_concat_enc)
  fix i assume "i < length (recs dec SIZE (concat (map enc rs)))"
  with len assms show "recs dec SIZE (concat (map enc rs)) ! i = rs ! i"
    by (simp add: nth_recs read_at_concat_enc dec_enc del: length_recs) (simp add: read_at_concat_enc dec_enc recs_def)
qed

lemma recs_overwrite:
  assumes r: "valid r" and c: "SIZE dvd length c" and n: "n \<le> length c div SIZE"
  shows "recs dec SIZE (overwrite c (n * SIZE) (enc r))
    = take n (recs dec SIZE c) @ r # drop (Suc n) (recs dec SIZE c)"
proof (rule nth_equalityI)
  let ?c = "overwrite c (n * SIZE) (enc r)"
  obtain k where k: "length c = k * SIZE" using c by (metis dvd_div_mult_self)
  have nk: "n \<le> k" using n k SIZE_pos by simp
  have len: "length ?c = (max k (Suc n)) * SIZE"
    by (simp add: length_overwrite length_enc r k nat_mult_max_left add.commute)
  show "length (recs dec SIZE ?c) = length (take n (recs dec SIZE c) @ r # drop (Suc n) (recs dec SIZE c))"
    using len k nk SIZE_pos by (simp add: max_def)
  fix i assume "i < length (recs dec SIZE ?c)"
  then have i: "i < max k (Suc n)" using len SIZE_pos by simp
  have get: "recs dec SIZE ?c ! i = dec (read_at (i * SIZE) SIZE ?c)"
    using i len SIZE_pos by (simp add: nth_recs)
  consider "i < n" | "i = n" | "n < i" "i < k" using i by linarith
  then show "recs dec SIZE ?c ! i = (take n (recs dec SIZE c) @ r # drop (Suc n) (recs dec SIZE c)) ! i"
  proof cases
    case 1
    have "i * SIZE + SIZE \<le> n * SIZE" using 1 by (metis Suc_leI add.commute mult_Suc mult_le_mono1)
    then have "read_at (i * SIZE) SIZE ?c = read_at (i * SIZE) SIZE c"
      using nk k by (intro read_at_overwrite_before) (auto intro: order_trans mult_le_mono1)
    with 1 get k nk SIZE_pos show ?thesis by (simp add: nth_append nth_recs)
  next
    case 2
    then show ?thesis
      using get read_at_overwrite_same [of "n * SIZE" "enc r" c] k nk SIZE_pos
      by (simp add: nth_append length_enc r dec_enc)
  next
    case 3
    have "n * SIZE + SIZE \<le> i * SIZE" using 3 by (metis Suc_leI add.commute mult_Suc mult_le_mono1)
    then have "read_at (i * SIZE) SIZE ?c = read_at (i * SIZE) SIZE c"
      by (intro read_at_overwrite_after) (simp add: length_enc r)
    with 3 get k SIZE_pos show ?thesis by (simp add: nth_append nth_recs)
  qed
qed

lemma dvd_length_overwrite:
  assumes "valid r" "SIZE dvd length c"
  shows "SIZE dvd length (overwrite c (n * SIZE) (enc r))"
  using assms by (auto simp: length_overwrite length_enc max_def)

text \<open>The operations of \<open>DataFile\<close>, on the list of records.\<close>

lemma DataFile_Read_record_eq:
  assumes "n < length c div SIZE" "c = contents f"
  shows "fst (DataFile_Read_record dec SIZE n f) = Some (recs dec SIZE c ! n)"
  using assms record_range [of n "length c" SIZE]
  by (auto simp: DataFile_Read_record_def DataFile_Read_def DataFile_Seek_def File_Read_def
      File_Seek_def Let_def nth_recs read_at_def min_def split: prod.splits)

lemma DataFile_Read_record_None:
  assumes "length c div SIZE \<le> n" "c = contents f"
  shows "fst (DataFile_Read_record dec SIZE n f) = None"
proof -
  have "length c < Suc n * SIZE" using assms(1) SIZE_pos
    by (metis less_Suc_eq_le div_less_iff_less_mult)
  then have "length (take SIZE (drop (n * SIZE) c)) \<noteq> SIZE" using SIZE_pos by auto
  with assms(2) show ?thesis
    by (auto simp: DataFile_Read_record_def DataFile_Read_def DataFile_Seek_def File_Read_def
        File_Seek_def Let_def split: prod.splits)
qed

lemma contents_DataFile_Read_record [simp]:
  "contents (snd (DataFile_Read_record dec SIZE n f)) = contents f"
  by (auto simp: DataFile_Read_record_def DataFile_Read_def DataFile_Seek_def File_Read_def
      File_Seek_def Let_def split: prod.splits)

lemma contents_DataFile_Write_record:
  assumes "valid r"
  shows "contents (DataFile_Write_record enc SIZE n r f) = overwrite (contents f) (n * SIZE) (enc r)"
  using enc_nonempty [OF assms]
  by (simp add: DataFile_Write_record_def DataFile_Write_def DataFile_Seek_def contents_File_Write_Seek)

lemma recs_DataFile_Write_record:
  assumes "valid r" "SIZE dvd length (contents f)" "n \<le> length (contents f) div SIZE"
  shows "recs dec SIZE (contents (DataFile_Write_record enc SIZE n r f))
    = take n (recs dec SIZE (contents f)) @ r # drop (Suc n) (recs dec SIZE (contents f))"
  using assms by (simp add: contents_DataFile_Write_record recs_overwrite)

lemma dvd_DataFile_Write_record:
  assumes "valid r" "SIZE dvd length (contents f)"
  shows "SIZE dvd length (contents (DataFile_Write_record enc SIZE n r f))"
  using assms by (simp add: contents_DataFile_Write_record dvd_length_overwrite)

text \<open>Saving a vector into a new file and loading it back.\<close>

lemma DataFile_WriteVector_ReadVector:
  assumes "\<And>r. r \<in> set rs \<Longrightarrow> valid r"
  shows "fst (DataFile_ReadVector dec SIZE 0 (opened (contents
    (DataFile_WriteVector enc 0 rs (opened []))))) = Some rs"
proof -
  let ?c = "concat (map enc rs)"
  have c: "contents (DataFile_WriteVector enc 0 rs (opened [])) = ?c"
    by (auto simp: DataFile_WriteVector_def DataFile_Write_def File_Write_def opened_def Let_def)
  have len: "length ?c = length rs * SIZE" using assms by (rule length_concat_enc)
  show ?thesis
  proof (cases "rs = []")
    case True
    then show ?thesis
      unfolding c by (simp add: DataFile_ReadVector_def DataFile_number_of_records_def File_GetLength_def Let_def)
  next
    case False
    have take_c: "take (length rs * SIZE) ?c = ?c" using len by simp
    have "recs dec SIZE ?c = rs" using assms by (rule recs_concat_enc)
    then have "map (\<lambda>i. dec (read_at (i * SIZE) SIZE ?c)) [0..<length rs] = rs"
      using len SIZE_pos by (simp add: recs_def)
    with False show ?thesis
      using len SIZE_pos
      by (simp add: c DataFile_ReadVector_def DataFile_number_of_records_def File_GetLength_def
          DataFile_Read_def File_Read_def Let_def take_c)
  qed
qed

end

interpretation u16_codec: record_codec enc_u16 dec_u16 "\<lambda>_. True" 2
  by unfold_locales (simp_all add: enc_dec_u16)

end
