(* ===== verification/Core_Strings.thy ===== *)
theory Core_Strings
  imports Wwiv_Prelude
begin

text \<open>
  \<open>core/strings.cpp\<close>: the string helpers every other part of WWIV calls.

  Iterator and \<open>size_type\<close> positions are \<open>nat\<close>, \<open>string::npos\<close> is \<open>None\<close>. The functions
  that work in place on a \<open>std::string*\<close> return the new string; those on a \<open>char*\<close> buffer
  take the buffer, NUL byte included, and return it updated. Static result buffers of the
  code have their size written out, an overrun is \<open>Inl UndefinedBehaviour\<close>.
\<close>

section \<open>Numbers\<close>

definition StringToT :: "int \<Rightarrow> int \<Rightarrow> (string \<Rightarrow> cpp_error + int) \<Rightarrow> string \<Rightarrow> int" where
  "StringToT tmin tmax f s =
     (case f s of
        Inr ret \<Rightarrow> if ret > tmax then tmax else if ret < tmin then tmin else ret
      | Inl _ \<Rightarrow> 0)"

definition StringToShort :: "string \<Rightarrow> int" where
  "StringToShort s = StringToT (- 32768) 32767 stoi s"

definition StringToUnsignedShort :: "string \<Rightarrow> int" where
  "StringToUnsignedShort s = StringToT 0 65535 stoul s"

definition StringToChar :: "string \<Rightarrow> int" where
  "StringToChar s = StringToT (- 128) 127 stoi s"

definition StringToUnsignedChar :: "string \<Rightarrow> int" where
  "StringToUnsignedChar s = StringToT 0 255 stoul s"

definition StringToUnsignedInt :: "string \<Rightarrow> int" where
  "StringToUnsignedInt s = StringToT 0 4294967295 stoul s"

definition StringToInt :: "string \<Rightarrow> int" where
  "StringToInt s = StringToT (- 2147483648) 2147483647 stoi s"

lemmas StringTo_defs [wwiv_defs] = StringToT_def StringToShort_def StringToUnsignedShort_def
  StringToChar_def StringToUnsignedChar_def StringToUnsignedInt_def StringToInt_def

lemma StringToT_bounds: "tmin \<le> 0 \<Longrightarrow> 0 \<le> tmax \<Longrightarrow> tmin \<le> StringToT tmin tmax f s \<and> StringToT tmin tmax f s \<le> tmax"
  by (auto simp: StringToT_def split: sum.splits)

lemma StringToUnsignedShort_bounds: "0 \<le> StringToUnsignedShort s \<and> StringToUnsignedShort s \<le> 65535"
  by (simp add: StringToUnsignedShort_def StringToT_bounds)

lemma StringToUnsignedChar_bounds: "0 \<le> StringToUnsignedChar s \<and> StringToUnsignedChar s \<le> 255"
  by (simp add: StringToUnsignedChar_def StringToT_bounds)

lemma StringToChar_bounds: "-128 \<le> StringToChar s \<and> StringToChar s \<le> 127"
  by (simp add: StringToChar_def StringToT_bounds)

lemma stoul_show_nat:
  assumes "n < 2 ^ 64" "rest = [] \<or> \<not> isdigit (hd rest)"
  shows "stoul (show_nat n @ rest) = Inr (int n)"
  using assms by (simp add: stoul_def scan_number_show_nat signed_val_def)

lemma stoi_show_nat:
  assumes "n < 2 ^ 31" "rest = [] \<or> \<not> isdigit (hd rest)"
  shows "stoi (show_nat n @ rest) = Inr (int n)"
  using assms by (simp add: stoi_def scan_number_show_nat signed_val_def)

lemma StringToUnsignedShort_show_nat:
  assumes "n \<le> 65535" "rest = [] \<or> \<not> isdigit (hd rest)"
  shows "StringToUnsignedShort (show_nat n @ rest) = int n"
  using assms by (simp add: StringToUnsignedShort_def StringToT_def stoul_show_nat)

section \<open>Searching and replacing\<close>

text \<open>\<open>std::string::find\<close> from a position.\<close>

fun find_sub :: "string \<Rightarrow> string \<Rightarrow> nat option" where
  "find_sub pat [] = (if pat = [] then Some 0 else None)"
| "find_sub pat (c # s) =
     (if take (length pat) (c # s) = pat then Some 0 else map_option Suc (find_sub pat s))"

definition str_find :: "string \<Rightarrow> string \<Rightarrow> nat \<Rightarrow> nat option" where
  "str_find s pat pos = (if length s < pos then None else map_option ((+) pos) (find_sub pat (drop pos s)))"

text \<open>\<open>std::string::replace\<close>.\<close>

definition str_replace :: "string \<Rightarrow> nat \<Rightarrow> nat \<Rightarrow> string \<Rightarrow> string" where
  "str_replace s pos n new = take pos s @ new @ drop (pos + n) s"

partial_function (option) StringReplace_loop ::
  "string \<Rightarrow> string \<Rightarrow> string \<Rightarrow> nat option \<Rightarrow> string option" where
  "StringReplace_loop old_string new_string orig pos =
     (if pos = None then Some orig
      else StringReplace_loop old_string new_string
             (str_replace orig (the pos) (length old_string) new_string)
             (str_find (str_replace orig (the pos) (length old_string) new_string) old_string
                (the pos + length new_string)))"

definition StringReplace :: "string \<Rightarrow> string \<Rightarrow> string \<Rightarrow> string option" where
  "StringReplace orig old_string new_string =
     StringReplace_loop old_string new_string orig (str_find orig old_string 0)"

text \<open>What it computes: every occurrence, left to right and not overlapping, is replaced.\<close>

function replace_all :: "string \<Rightarrow> string \<Rightarrow> string \<Rightarrow> string" where
  "replace_all old new s =
     (if s = [] \<or> old = [] then s
      else if take (length old) s = old then new @ replace_all old new (drop (length old) s)
      else hd s # replace_all old new (tl s))"
  by pat_completeness auto
termination
  by (relation "measure (\<lambda>(old, new, s). length s)") auto

declare replace_all.simps [simp del]

lemma find_sub_None: "old \<noteq> [] \<Longrightarrow> find_sub old s = None \<Longrightarrow> replace_all old new s = s"
  by (induction s) (auto simp: replace_all.simps [of old new "_ # _"] replace_all.simps [of old new "[]"] split: if_splits)

lemma find_sub_Some:
  assumes "old \<noteq> []" "find_sub old s = Some n"
  shows "replace_all old new s = take n s @ new @ replace_all old new (drop (n + length old) s)
    \<and> n + length old \<le> length s"
  using assms(2)
proof (induction s arbitrary: n)
  case Nil
  then show ?case using assms(1) by simp
next
  case (Cons c s)
  show ?case
  proof (cases "take (length old) (c # s) = old")
    case True
    then have "length old \<le> length (c # s)" by (metis length_take min.cobounded1 min_def take_all_iff)
    with True Cons.prems assms(1) show ?thesis
      by (auto simp: replace_all.simps [of old new "c # s"])
  next
    case False
    with Cons.prems obtain m where "find_sub old s = Some m" "n = Suc m" by auto
    with Cons.IH [of m] False assms(1) show ?thesis
      by (auto simp: replace_all.simps [of old new "c # s"])
  qed
qed

lemma StringReplace_loop_eq:
  assumes old: "old \<noteq> []"
  shows "pos \<le> length orig \<Longrightarrow>
    StringReplace_loop old new orig (str_find orig old pos)
    = Some (take pos orig @ replace_all old new (drop pos orig))"
proof (induction "length orig - pos" arbitrary: orig pos rule: less_induct)
  case less
  show ?case
  proof (cases "find_sub old (drop pos orig)")
    case None
    then show ?thesis
      using less.prems old
      by (simp add: str_find_def StringReplace_loop.simps find_sub_None)
  next
    case (Some n)
    let ?p = "pos + n"
    let ?orig' = "take ?p orig @ new @ drop (?p + length old) orig"
    let ?pos' = "?p + length new"
    from find_sub_Some [OF old Some, of new]
    have rep: "replace_all old new (drop pos orig)
        = take n (drop pos orig) @ new @ replace_all old new (drop (?p + length old) orig)"
      and len: "?p + length old \<le> length orig"
      using less.prems by (auto simp: ac_simps)
    have "length ?orig' - ?pos' < length orig - pos"
      using len old by (cases old) auto
    moreover have "?pos' \<le> length ?orig'" using len by simp
    ultimately have "StringReplace_loop old new ?orig' (str_find ?orig' old ?pos')
        = Some (take ?pos' ?orig' @ replace_all old new (drop ?pos' ?orig'))"
      using less.hyps [of ?orig' ?pos'] by blast
    moreover have "take ?pos' ?orig' = take ?p orig @ new" "drop ?pos' ?orig' = drop (?p + length old) orig"
      using len by simp_all
    ultimately show ?thesis
      using less.prems Some
      by (simp add: str_find_def [of orig old pos] StringReplace_loop.simps [of _ _ orig] str_replace_def rep take_add)
  qed
qed

lemma StringReplace_eq:
  assumes "old_string \<noteq> []"
  shows "StringReplace orig old_string new_string = Some (replace_all old_string new_string orig)"
  using StringReplace_loop_eq [OF assms, of 0 orig new_string] by (simp add: StringReplace_def)

text \<open>With an empty \<open>old_string\<close> the loop never ends: \<open>find\<close> succeeds at every position.\<close>

lemma find_sub_Nil [simp]: "find_sub [] s = Some 0"
  by (cases s) auto

lemma StringReplace_loop_empty:
  assumes "StringReplace_loop old new orig pos = Some r" "old = []" "pos = Some p" "p \<le> length orig"
  shows False
  using assms(2-4)
proof (induction arbitrary: p rule: StringReplace_loop.raw_induct [OF _ assms(1)])
  case (1 loop old new orig pos r)
  let ?orig' = "take p orig @ new @ drop p orig"
  from 1 have "loop old new ?orig' (str_find ?orig' old (p + length new)) = Some r"
    by (simp add: str_replace_def)
  moreover have "str_find ?orig' old (p + length new) = Some (p + length new)"
    using 1 by (simp add: str_find_def)
  ultimately show ?case
    using 1 by (metis length_append length_take min.absorb2 add_le_mono le_add1 order_refl)
qed

lemma StringReplace_empty_diverges: "StringReplace orig [] new_string = None"
  using StringReplace_loop_empty [of "[]" new_string orig "Some 0" _ 0]
  by (cases "StringReplace orig [] new_string") (auto simp: StringReplace_def str_find_def)

section \<open>Splitting\<close>

text \<open>
  The loop of \<open>SplitString\<close>: find the first delimiter, keep what precedes it unless it is
  empty, go on behind it; what remains after the last delimiter is kept unless it is empty.
\<close>

function SplitString :: "string \<Rightarrow> string \<Rightarrow> string list" where
  "SplitString s delims =
     (let found = length (takeWhile (\<lambda>c. c \<notin> set delims) s)
      in if found < length s
         then (if found \<noteq> 0 then [take found s] else []) @ SplitString (drop (found + 1) s) delims
         else if s \<noteq> [] then [s] else [])"
  by pat_completeness auto
termination
  by (relation "measure (\<lambda>(s, delims). length s)") auto

declare SplitString.simps [simp del]

lemma takeWhile_eq_take_len: "take (length (takeWhile P s)) s = takeWhile P s"
  by (metis takeWhile_eq_take)

lemma SplitString_Nil [simp]: "SplitString [] delims = []"
  by (simp add: SplitString.simps)

lemma SplitString_no_delim:
  assumes "set t \<inter> set delims = {}" "t \<noteq> []"
  shows "SplitString t delims = [t]"
proof -
  have t: "takeWhile (\<lambda>c. c \<notin> set delims) t = t"
    using assms(1) by (auto simp: takeWhile_eq_all_conv)
  show ?thesis
    by (subst SplitString.simps) (simp add: t Let_def assms(2))
qed

lemma SplitString_append_delim:
  assumes "set t \<inter> set delims = {}" "d \<in> set delims"
  shows "SplitString (t @ d # s) delims = (if t = [] then [] else [t]) @ SplitString s delims"
proof -
  have t: "takeWhile (\<lambda>c. c \<notin> set delims) (t @ d # s) = t"
    using assms by (auto simp: takeWhile_append takeWhile_eq_all_conv)
  show ?thesis
    by (subst SplitString.simps) (simp add: t Let_def)
qed

lemma SplitString_cases [case_names Nil last step]:
  obtains "s = []"
  | "s \<noteq> []" "set s \<inter> set delims = {}"
  | t d s' where "s = t @ d # s'" "set t \<inter> set delims = {}" "d \<in> set delims"
proof (cases "set s \<inter> set delims = {}")
  case True
  with that(1,2) show ?thesis by blast
next
  case False
  then have "\<exists>x \<in> set s. x \<in> set delims" by blast
  from split_list_first_prop [OF this] show ?thesis
    using that(3) by blast
qed

lemma SplitString_tokens: "t \<in> set (SplitString s delims) \<Longrightarrow> t \<noteq> [] \<and> set t \<inter> set delims = {}"
proof (induction "length s" arbitrary: s rule: less_induct)
  case less
  show ?case
  proof (cases rule: SplitString_cases [where s = s and delims = delims])
    case (step u d s')
    with less.prems consider "t = u" "u \<noteq> []" | "t \<in> set (SplitString s' delims)"
      by (auto simp: SplitString_append_delim split: if_splits)
    then show ?thesis
      using less.hyps [of s'] step by cases auto
  qed (use less.prems in \<open>auto simp: SplitString_no_delim\<close>)
qed

lemma concat_SplitString: "concat (SplitString s delims) = filter (\<lambda>c. c \<notin> set delims) s"
proof (induction "length s" arbitrary: s rule: less_induct)
  case less
  show ?case
  proof (cases rule: SplitString_cases [where s = s and delims = delims])
    case last
    then have "filter (\<lambda>c. c \<notin> set delims) s = s" by (auto simp: filter_id_conv)
    with last show ?thesis by (simp add: SplitString_no_delim)
  next
    case (step u d s')
    then have "filter (\<lambda>c. c \<notin> set delims) u = u" by (auto simp: filter_id_conv)
    with step less.hyps [of s'] show ?thesis by (simp add: SplitString_append_delim)
  qed simp
qed

text \<open>Joining with one delimiter character, the inverse of splitting.\<close>

fun join :: "char \<Rightarrow> string list \<Rightarrow> string" where
  "join d [] = []"
| "join d [t] = t"
| "join d (t # ts) = t @ d # join d ts"

lemma SplitString_join:
  assumes "\<And>t. t \<in> set ts \<Longrightarrow> t \<noteq> [] \<and> set t \<inter> set delims = {}" "d \<in> set delims"
  shows "SplitString (join d ts) delims = ts"
  using assms
  by (induction d ts rule: join.induct) (auto simp: SplitString_no_delim SplitString_append_delim)

section \<open>Prefixes, suffixes, padding\<close>

definition starts_with :: "string \<Rightarrow> string \<Rightarrow> bool" where
  "starts_with input match \<longleftrightarrow> length match \<le> length input \<and> take (length match) input = match"

definition ends_with :: "string \<Rightarrow> string \<Rightarrow> bool" where
  "ends_with input match \<longleftrightarrow>
     length match \<le> length input \<and> take (length match) (rev input) = rev match"

lemma starts_with_iff: "starts_with input match \<longleftrightarrow> (\<exists>rest. input = match @ rest)"
  unfolding starts_with_def by (metis append_eq_conv_conj append_take_drop_id length_append le_add1)

lemma ends_with_iff: "ends_with input match \<longleftrightarrow> (\<exists>front. input = front @ match)"
proof -
  have "ends_with input match \<longleftrightarrow> starts_with (rev input) (rev match)"
    by (simp add: ends_with_def starts_with_def)
  also have "\<dots> \<longleftrightarrow> (\<exists>front. input = front @ match)"
    by (auto simp: starts_with_iff) (metis rev_append rev_rev_ident)
  finally show ?thesis .
qed

datatype JustificationType = JUSTIFY_LEFT | JUSTIFY_RIGHT

definition StringJustify :: "string \<Rightarrow> nat \<Rightarrow> char \<Rightarrow> JustificationType \<Rightarrow> string" where
  "StringJustify s len bg just_type =
     (if len < length s then take len s
      else if length s = len then s
      else (let delta = len - length s
            in case just_type of
                 JUSTIFY_LEFT \<Rightarrow> s @ replicate delta bg
               | JUSTIFY_RIGHT \<Rightarrow> replicate delta bg @ s))"

lemma length_StringJustify [simp]: "length (StringJustify s len bg j) = len"
  by (simp add: StringJustify_def Let_def split: JustificationType.splits)

definition charstr :: "nat \<Rightarrow> char \<Rightarrow> string" where
  "charstr len fill = c_str (replicate (min len 160) fill)"

section \<open>Trimming and white space\<close>

definition DELIMS_WHITE :: string where
  "DELIMS_WHITE = [CHR '' '', CHR 0x09, CHR 0x0D, CHR 0x0A]"

definition find_first_not_of :: "string \<Rightarrow> string \<Rightarrow> nat option" where
  "find_first_not_of s cs =
     (let p = length (takeWhile (\<lambda>c. c \<in> set cs) s) in if p < length s then Some p else None)"

definition find_last_not_of :: "string \<Rightarrow> string \<Rightarrow> nat option" where
  "find_last_not_of s cs =
     (let p = length (takeWhile (\<lambda>c. c \<in> set cs) (rev s))
      in if p < length s then Some (length s - 1 - p) else None)"

text \<open>\<open>s.erase(0, pos)\<close> with \<open>pos = npos\<close> and \<open>s.erase(npos + 1)\<close> erase everything.\<close>

definition StringTrimBegin :: "string \<Rightarrow> string" where
  "StringTrimBegin s =
     (case find_first_not_of s DELIMS_WHITE of None \<Rightarrow> [] | Some pos \<Rightarrow> drop pos s)"

definition StringTrimEnd :: "string \<Rightarrow> string" where
  "StringTrimEnd s =
     (case find_last_not_of s DELIMS_WHITE of None \<Rightarrow> [] | Some pos \<Rightarrow> take (pos + 1) s)"

definition StringTrim :: "string \<Rightarrow> string" where
  "StringTrim s =
     (let s1 = (case find_first_not_of s DELIMS_WHITE of None \<Rightarrow> [] | Some pos \<Rightarrow> drop pos s)
      in case find_last_not_of s1 DELIMS_WHITE of None \<Rightarrow> [] | Some pos \<Rightarrow> take (pos + 1) s1)"

abbreviation is_white :: "char \<Rightarrow> bool" where
  "is_white c \<equiv> c \<in> set DELIMS_WHITE"

lemma takeWhile_less_iff: "length (takeWhile P s) < length s \<longleftrightarrow> (\<exists>c \<in> set s. \<not> P c)"
  by (induction s) auto

lemma takeWhile_ge_iff: "length s \<le> length (takeWhile P s) \<longleftrightarrow> (\<forall>c \<in> set s. P c)"
  using takeWhile_less_iff [of P s] by auto

lemma StringTrimBegin_eq: "StringTrimBegin s = dropWhile is_white s"
  by (auto simp: StringTrimBegin_def find_first_not_of_def Let_def takeWhile_less_iff takeWhile_ge_iff
      dropWhile_eq_drop dropWhile_eq_Nil_conv)

lemma StringTrimEnd_eq: "StringTrimEnd s = rev (dropWhile is_white (rev s))"
proof (cases "\<exists>c \<in> set s. \<not> is_white c")
  case True
  let ?p = "length (takeWhile is_white (rev s))"
  have p: "?p < length s" using True takeWhile_less_iff [of is_white "rev s"] by simp
  then have "StringTrimEnd s = take (length s - ?p) s"
    by (simp add: StringTrimEnd_def find_last_not_of_def Let_def Suc_diff_Suc)
  also have "\<dots> = rev (drop ?p (rev s))" by (simp add: rev_drop)
  finally show ?thesis by (simp add: dropWhile_eq_drop)
next
  case False
  then have "takeWhile is_white (rev s) = rev s" by (simp add: takeWhile_eq_all_conv)
  then have "\<not> length (takeWhile is_white (rev s)) < length s"
    using takeWhile_ge_iff [of "rev s" is_white] by simp
  with False show ?thesis
    by (simp add: StringTrimEnd_def find_last_not_of_def Let_def dropWhile_eq_Nil_conv)
qed

lemma StringTrim_comp: "StringTrim s = StringTrimEnd (StringTrimBegin s)"
  by (simp add: StringTrim_def StringTrimEnd_def StringTrimBegin_def Let_def)

lemma StringTrim_eq: "StringTrim s = rev (dropWhile is_white (rev (dropWhile is_white s)))"
  by (simp add: StringTrim_comp StringTrimBegin_eq StringTrimEnd_eq)

lemma rev_dropWhile_split: "\<exists>u. s = rev (dropWhile P (rev s)) @ u \<and> (\<forall>c \<in> set u. P c)"
proof (intro exI conjI)
  have "rev s = takeWhile P (rev s) @ dropWhile P (rev s)" by simp
  then show "s = rev (dropWhile P (rev s)) @ rev (takeWhile P (rev s))"
    by (metis rev_append rev_rev_ident)
  show "\<forall>c \<in> set (rev (takeWhile P (rev s))). P c" by (auto dest: set_takeWhileD)
qed

text \<open>The specification of trimming: white space, the result, white space, and no more to trim.\<close>

lemma StringTrim_split:
  "\<exists>u v. s = u @ StringTrim s @ v \<and> (\<forall>c \<in> set (u @ v). is_white c)"
proof -
  obtain v where v: "dropWhile is_white s = StringTrim s @ v" "\<forall>c \<in> set v. is_white c"
    using rev_dropWhile_split [of "dropWhile is_white s" is_white] unfolding StringTrim_eq by blast
  have "s = takeWhile is_white s @ StringTrim s @ v" by (metis v(1) takeWhile_dropWhile_id)
  moreover have "\<forall>c \<in> set (takeWhile is_white s). is_white c" by (auto dest: set_takeWhileD)
  ultimately show ?thesis using v(2) by (metis Un_iff set_append)
qed

lemma StringTrim_last: "StringTrim s \<noteq> [] \<Longrightarrow> \<not> is_white (last (StringTrim s))"
  unfolding StringTrim_eq by (metis hd_dropWhile last_rev rev_is_Nil_conv)

lemma StringTrim_hd:
  assumes "StringTrim s \<noteq> []"
  shows "\<not> is_white (hd (StringTrim s))"
proof -
  obtain v where v: "dropWhile is_white s = StringTrim s @ v"
    using rev_dropWhile_split [of "dropWhile is_white s" is_white] unfolding StringTrim_eq by blast
  with assms have "hd (StringTrim s) = hd (dropWhile is_white s)" "dropWhile is_white s \<noteq> []" by auto
  then show ?thesis by (metis hd_dropWhile)
qed

lemma StringTrim_id:
  assumes "s = [] \<or> \<not> is_white (hd s) \<and> \<not> is_white (last s)"
  shows "StringTrim s = s"
proof (cases "s = []")
  case False
  with assms have "dropWhile is_white s = s" by (cases s) auto
  moreover from False assms have "dropWhile is_white (rev s) = rev s"
    by (cases s rule: rev_cases) auto
  ultimately show ?thesis by (simp add: StringTrim_eq)
qed (simp add: StringTrim_eq)

lemma StringTrim_Nil [simp]: "StringTrim [] = []"
  by (simp add: StringTrim_eq)

definition RemoveWhitespace :: "string \<Rightarrow> string" where
  "RemoveWhitespace s = filter (\<lambda>c. \<not> isspace c) s"

text \<open>
  The \<open>char*\<close> version compacts the buffer in place with a read index \<open>obuf\<close> and a write
  index \<open>nbuf\<close>. Running off the end of a buffer that holds no NUL is undefined.
\<close>

function StringRemoveWhitespace_loop :: "string \<Rightarrow> nat \<Rightarrow> nat \<Rightarrow> cpp_error + string" where
  "StringRemoveWhitespace_loop str obuf nbuf =
     (if length str \<le> obuf then Inl UndefinedBehaviour
      else if str ! obuf = NUL then Inr (str[nbuf := NUL])
      else if \<not> isspace (str ! obuf)
           then StringRemoveWhitespace_loop (str[nbuf := str ! obuf]) (Suc obuf) (Suc nbuf)
           else StringRemoveWhitespace_loop str (Suc obuf) nbuf)"
  by pat_completeness auto
termination
  by (relation "measure (\<lambda>(str, obuf, nbuf). length str - obuf)") auto

declare StringRemoveWhitespace_loop.simps [simp del]

definition StringRemoveWhitespace :: "string \<Rightarrow> cpp_error + string" where
  "StringRemoveWhitespace str = StringRemoveWhitespace_loop str 0 0"

lemma StringRemoveWhitespace_loop_eq:
  assumes "nbuf \<le> obuf" "NUL \<in> set (drop obuf str)" "NUL \<notin> set (take nbuf str)"
  shows "\<exists>str'. StringRemoveWhitespace_loop str obuf nbuf = Inr str' \<and>
    c_str str' = take nbuf str @ RemoveWhitespace (c_str (drop obuf str)) \<and> length str' = length str"
  using assms
proof (induction str obuf nbuf rule: StringRemoveWhitespace_loop.induct)
  case (1 str obuf nbuf)
  then have len: "obuf < length str" by (metis drop_eq_Nil empty_iff empty_set not_le)
  then have d: "drop obuf str = str ! obuf # drop (Suc obuf) str" by (simp add: Cons_nth_drop_Suc)
  consider "str ! obuf = NUL" | "str ! obuf \<noteq> NUL" "isspace (str ! obuf)"
    | "str ! obuf \<noteq> NUL" "\<not> isspace (str ! obuf)" by blast
  then show ?case
  proof cases
    case 1
    have "str[nbuf := NUL] = take nbuf str @ NUL # drop (Suc nbuf) str"
      using len \<open>nbuf \<le> obuf\<close> by (simp add: upd_conv_take_nth_drop)
    then have "c_str (str[nbuf := NUL]) = take nbuf str"
      using \<open>NUL \<notin> set (take nbuf str)\<close> by (simp add: c_str_append_NUL)
    with 1 len show ?thesis
      by (simp add: StringRemoveWhitespace_loop.simps [of str] d c_str_def RemoveWhitespace_def)
  next
    case 2
    with "1.IH"(2) [OF _ 2(1)] "1.prems" len d show ?thesis
      by (simp add: StringRemoveWhitespace_loop.simps [of str] c_str_def RemoveWhitespace_def)
  next
    case 3
    let ?str = "str[nbuf := str ! obuf]"
    have "nbuf < length str" using len "1.prems" by simp
    then have tk: "take (Suc nbuf) ?str = take nbuf str @ [str ! obuf]"
      by (simp add: take_Suc_conv_app_nth)
    have dr: "drop (Suc obuf) ?str = drop (Suc obuf) str" using "1.prems" by simp
    have "\<exists>str'. StringRemoveWhitespace_loop ?str (Suc obuf) (Suc nbuf) = Inr str' \<and>
      c_str str' = take (Suc nbuf) ?str @ RemoveWhitespace (c_str (drop (Suc obuf) ?str)) \<and>
      length str' = length ?str"
      using 3 "1.prems" len d by (intro "1.IH"(1)) (auto simp: tk dr)
    with 3 len d show ?thesis
      by (simp add: StringRemoveWhitespace_loop.simps [of str] tk dr c_str_def RemoveWhitespace_def)
  qed
qed

text \<open>\<open>StringPrintf\<close> keeps 1023 characters of the text that the C library has formatted.\<close>

definition StringPrintf :: "string \<Rightarrow> string" where
  "StringPrintf s = take 1023 s"

definition StringUpperCase :: "string \<Rightarrow> string" where
  "StringUpperCase s = map toupper s"

definition StringLowerCase :: "string \<Rightarrow> string" where
  "StringLowerCase s = map tolower s"

definition IsEquals :: "string \<Rightarrow> string \<Rightarrow> bool" where
  "IsEquals str1 str2 \<longleftrightarrow> strcmp (c_str str1) (c_str str2) = 0"

definition IsEqualsIgnoreCase :: "string \<Rightarrow> string \<Rightarrow> bool" where
  "IsEqualsIgnoreCase str1 str2 \<longleftrightarrow> strcasecmp (c_str str1) (c_str str2) = 0"

definition StringCompare :: "string \<Rightarrow> string \<Rightarrow> int" where
  "StringCompare str1 str2 = strcmp (c_str str1) (c_str str2)"

lemma IsEquals_iff: "IsEquals s t \<longleftrightarrow> c_str s = c_str t"
  by (simp add: IsEquals_def)

lemma IsEqualsIgnoreCase_iff:
  "IsEqualsIgnoreCase s t \<longleftrightarrow> map tolower (c_str s) = map tolower (c_str t)"
  by (simp add: IsEqualsIgnoreCase_def strcasecmp_eq_0_iff)

text \<open>
  \<open>StringRemoveChar\<close> copies into a static buffer of 255 bytes up to the first \<open>ch\<close>, then
  looks at the last byte copied, which is \<open>s_strip_string[-1]\<close> when nothing was.
\<close>

fun StringRemoveChar_copy :: "char \<Rightarrow> string \<Rightarrow> string \<Rightarrow> cpp_error + string" where
  "StringRemoveChar_copy ch [] copied = Inr copied"
| "StringRemoveChar_copy ch (c # str) copied =
     (if 255 \<le> length copied then Inl UndefinedBehaviour
      else if c \<noteq> ch then StringRemoveChar_copy ch str (copied @ [c])
      else Inr copied)"

definition StringRemoveChar :: "string \<Rightarrow> char \<Rightarrow> cpp_error + string" where
  "StringRemoveChar str ch =
     bind_res (StringRemoveChar_copy ch (c_str str) []) (\<lambda>copied.
       if copied = [] then Inl UndefinedBehaviour
       else let r = (if last copied = CHR '' '' then butlast copied else copied)
            in if 255 \<le> length r then Inl UndefinedBehaviour else Inr r)"

lemma StringRemoveChar_copy_eq:
  assumes "length copied + length str < 255"
  shows "StringRemoveChar_copy ch str copied = Inr (copied @ takeWhile (\<lambda>c. c \<noteq> ch) str)"
  using assms by (induction ch str copied rule: StringRemoveChar_copy.induct) auto

lemma StringRemoveChar_eq:
  assumes "length (c_str str) < 255"
  shows "StringRemoveChar str ch =
    (let t = takeWhile (\<lambda>c. c \<noteq> ch) (c_str str)
     in if t = [] then Inl UndefinedBehaviour
        else Inr (if last t = CHR '' '' then butlast t else t))"
proof -
  have "length (takeWhile (\<lambda>c. c \<noteq> ch) (c_str str)) < 255"
    using assms length_takeWhile_le [of "\<lambda>c. c \<noteq> ch" "c_str str"] by simp
  with assms show ?thesis
    by (auto simp: StringRemoveChar_def StringRemoveChar_copy_eq Let_def)
qed

section \<open>Colour codes\<close>

definition IsColorCode :: "char \<Rightarrow> bool" where
  "IsColorCode c \<longleftrightarrow> (if c = NUL then False else c = CHR ''#'' \<or> c = CHR ''B'' \<or> isdigit c)"

fun stripcolors :: "string \<Rightarrow> string" where
  "stripcolors [] = []"
| "stripcolors (c # s) =
     (if c = CHR ''|'' \<and> 1 \<le> length s \<and> 2 \<le> length s \<and> IsColorCode (s ! 0) \<and> IsColorCode (s ! 1)
      then stripcolors (drop 2 s)
      else if c = CHR 0x03 \<and> 1 \<le> length s \<and> isdigit (s ! 0) then stripcolors (drop 1 s)
      else c # stripcolors s)"

definition stripcolors_chars :: "string \<Rightarrow> cpp_error + string" where
  "stripcolors_chars pszOrig =
     (let result = stripcolors (c_str pszOrig)
      in if length (c_str result) < 255 then Inr (c_str result) else Inl UndefinedBehaviour)"

lemma stripcolors_length: "length (stripcolors s) \<le> length s"
  by (induction s rule: stripcolors.induct) auto

lemma stripcolors_subset: "set (stripcolors s) \<subseteq> set s"
  by (induction s rule: stripcolors.induct) (auto dest: in_set_dropD)

lemma stripcolors_plain: "CHR ''|'' \<notin> set s \<Longrightarrow> CHR 0x03 \<notin> set s \<Longrightarrow> stripcolors s = s"
  by (induction s rule: stripcolors.induct) auto

lemma stripcolors_plain_append:
  "CHR ''|'' \<notin> set s \<Longrightarrow> CHR 0x03 \<notin> set s \<Longrightarrow> stripcolors (s @ t) = s @ stripcolors t"
  by (induction s) auto

section \<open>WWIV's own case tables\<close>

definition lower_letters :: string where
  "lower_letters = ''abcdefghijklmnopqrstuvwxyz'' @
     [CHR 0x87, CHR 0x84, CHR 0x86, CHR 0x82, CHR 0x81, CHR 0x94, CHR 0xA4]"

definition upper_letters :: string where
  "upper_letters = ''ABCDEFGHIJKLMNOPQRSTUVWXYZ'' @
     [CHR 0x80, CHR 0x8E, CHR 0x8F, CHR 0x90, CHR 0x9A, CHR 0x99, CHR 0xA5]"

text \<open>\<open>strchr\<close> on a C string: it finds the terminating NUL too.\<close>

definition strchr :: "string \<Rightarrow> char \<Rightarrow> nat option" where
  "strchr s c = (let i = length (takeWhile (\<lambda>d. d \<noteq> c) (s @ [NUL]))
                 in if i \<le> length s then Some i else None)"

definition upcase :: "char \<Rightarrow> char" where
  "upcase ch = (case strchr lower_letters ch of None \<Rightarrow> ch | Some i \<Rightarrow> (upper_letters @ [NUL]) ! i)"

definition locase :: "char \<Rightarrow> char" where
  "locase ch = (case strchr upper_letters ch of None \<Rightarrow> ch | Some i \<Rightarrow> (lower_letters @ [NUL]) ! i)"

section \<open>Proper case\<close>

definition is_word_sep :: "char \<Rightarrow> bool" where
  "is_word_sep c \<longleftrightarrow> c = CHR '' '' \<or> c = CHR ''-'' \<or> c = CHR ''.''"

text \<open>The \<open>char*\<close> version rewrites the text (here without its NUL) index by index.\<close>

function properize_loop :: "string \<Rightarrow> nat \<Rightarrow> string" where
  "properize_loop buf i =
     (if i < length buf
      then properize_loop
        (buf[i := if i = 0 \<or> (0 < i \<and> is_word_sep (buf ! (i - 1))) then toupper (buf ! i)
                   else tolower (buf ! i)]) (Suc i)
      else buf)"
  by pat_completeness auto
termination
  by (relation "measure (\<lambda>(buf, i). length buf - i)") auto

declare properize_loop.simps [simp del]

definition properize_chars :: "string \<Rightarrow> string" where
  "properize_chars buf = properize_loop buf 0"

fun properize_go :: "char \<Rightarrow> string \<Rightarrow> string" where
  "properize_go prev [] = []"
| "properize_go prev (ch # buf) =
     (if is_word_sep prev then toupper ch else tolower ch) # properize_go ch buf"

definition properize :: "string \<Rightarrow> string" where
  "properize buf = (if buf = [] then [] else properize_go (CHR '' '') buf)"

lemma is_word_sep_ord: "is_word_sep c \<longleftrightarrow> ord c = 32 \<or> ord c = 45 \<or> ord c = 46"
  unfolding is_word_sep_def by (simp flip: of_char_eq_iff [where ?'a = nat])

lemma is_word_sep_case [simp]:
  "is_word_sep (toupper c) = is_word_sep c" "is_word_sep (tolower c) = is_word_sep c"
  by (auto simp: is_word_sep_ord ord_toupper ord_tolower islower_def isupper_def)

lemma properize_go_cong: "is_word_sep a = is_word_sep b \<Longrightarrow> properize_go a t = properize_go b t"
  by (cases t) auto

lemma properize_loop_eq:
  assumes "i \<le> length buf"
  shows "properize_loop buf i =
    take i buf @ properize_go (if i = 0 then CHR '' '' else buf ! (i - 1)) (drop i buf)"
  using assms
proof (induction buf i rule: properize_loop.induct)
  case (1 buf i)
  show ?case
  proof (cases "i < length buf")
    case False
    with "1.prems" show ?thesis by (subst properize_loop.simps) simp
  next
    case True
    let ?c = "if i = 0 \<or> (0 < i \<and> is_word_sep (buf ! (i - 1))) then toupper (buf ! i) else tolower (buf ! i)"
    have "properize_loop buf i = properize_loop (buf[i := ?c]) (Suc i)"
      using True by (subst properize_loop.simps) simp
    also have "\<dots> = take (Suc i) (buf[i := ?c]) @ properize_go ?c (drop (Suc i) buf)"
      using "1.IH" True by simp
    also have "take (Suc i) (buf[i := ?c]) = take i buf @ [?c]"
      using True by (simp add: take_Suc_conv_app_nth)
    also have "properize_go ?c (drop (Suc i) buf) = properize_go (buf ! i) (drop (Suc i) buf)"
      by (rule properize_go_cong) simp
    finally have loop: "properize_loop buf i = take i buf @ ?c # properize_go (buf ! i) (drop (Suc i) buf)"
      by simp
    have d: "drop i buf = buf ! i # drop (Suc i) buf" using True by (simp add: Cons_nth_drop_Suc)
    have "is_word_sep (CHR '' '')" by (simp add: is_word_sep_def)
    then show ?thesis unfolding loop by (simp only: d) auto
  qed
qed

lemma properize_go_idem: "is_word_sep a = is_word_sep b \<Longrightarrow> properize_go a (properize_go b t) = properize_go b t"
  by (induction b t arbitrary: a rule: properize_go.induct) auto

section \<open>In-place case change and reversal\<close>

definition strupr :: "string \<Rightarrow> string" where
  "strupr s = map toupper (c_str s)"

definition strlwr :: "string \<Rightarrow> string" where
  "strlwr s = map tolower (c_str s)"

text \<open>
  \<open>strrev\<close> fills the buffer backwards from \<open>szTempBuffer\<close>, which nothing has written, and
  then copies \<open>szTempBuffer\<close> over it. \<open>temp\<close> is what the stack happened to hold.
\<close>

definition strrev :: "string \<Rightarrow> string \<Rightarrow> string" where
  "strrev temp pszBufer =
     (let str = length (c_str pszBufer);
          buf = map (\<lambda>i. temp ! (str - i)) [0..<Suc str];
          copied = c_str temp @ [NUL]
      in c_str (copied @ drop (length copied) buf))"

lemma strrev_ignores_input: "strrev temp s = c_str temp"
  by (simp add: strrev_def Let_def c_str_append_NUL)

end
