(* ===== verification/Msg_Gat.thy ===== *)
theory Msg_Gat
  imports Core_File Core_Strings
begin

text \<open>
  The text half of a message area (\<open>sdk/msgapi/message_area_wwiv.cpp\<close>): a \<open>.dat\<close> file is a
  sequence of sections, each a table of 2048 16-bit entries (the GAT) followed by 2048 blocks
  of 512 bytes. A message is a chain of blocks of one section; entry \<open>b\<close> of the GAT is 0 when
  block \<open>b\<close> is free, the next block of the chain, or anything from 2048 on at its end.

  \<open>load_gat\<close>, \<open>save_gat\<close>, \<open>savefile\<close>, \<open>readfile\<close> and \<open>remove_link\<close> follow the code call by
  call on the bytes of the file. The file that could not be opened is \<open>None\<close>: \<open>readfile\<close> tests
  for it, \<open>savefile\<close> and \<open>remove_link\<close> dereference the null pointer.

  The lemmas show that the three operations implement a finite map from message numbers to
  texts (\<open>store_inv\<close>), the contract of the locale \<open>text_store\<close> that the message area uses.
\<close>

section \<open>Layout\<close>

abbreviation GAT_NUMBER_ELEMENTS :: nat where
  "GAT_NUMBER_ELEMENTS \<equiv> 2048"

abbreviation GAT_SECTION_SIZE :: nat where
  "GAT_SECTION_SIZE \<equiv> 4096"

abbreviation MSG_BLOCK_SIZE :: nat where
  "MSG_BLOCK_SIZE \<equiv> 512"

abbreviation GATSECLEN :: nat where
  "GATSECLEN \<equiv> 1052672"

definition MSG_STARTING :: "nat \<Rightarrow> nat" where
  "MSG_STARTING sec = sec * GATSECLEN + GAT_SECTION_SIZE"

definition CZ :: char where
  "CZ = CHR 0x1A"

record messagerec =
  storage_type :: u8
  stored_as :: u32

section \<open>The operations\<close>

definition encode_gat :: "u16 list \<Rightarrow> bytes" where
  "encode_gat gat = concat (map enc_u16 gat)"

definition decode_gat :: "bytes \<Rightarrow> u16 list" where
  "decode_gat b = recs dec_u16 2 b"

definition load_gat :: "wfile \<Rightarrow> nat \<Rightarrow> u16 list \<times> wfile" where
  "load_gat f sec =
     (let gat = replicate GAT_NUMBER_ELEMENTS 0;
          section_pos = sec * GATSECLEN;
          f1 = (if File_GetLength f < section_pos then File_SetLength section_pos f else f);
          file_size = File_GetLength f1;
          f2 = File_Seek section_pos f1
      in if file_size < section_pos + GAT_SECTION_SIZE
         then (gat, File_Write (encode_gat gat) f2)
         else (let (b, f3) = File_Read GAT_SECTION_SIZE f2 in (decode_gat b, f3)))"

definition save_gat :: "wfile \<Rightarrow> nat \<Rightarrow> u16 list \<Rightarrow> wfile" where
  "save_gat f sec gat = File_Write (encode_gat gat) (File_Seek (sec * GATSECLEN) f)"

text \<open>
  \<open>readfile\<close> follows the chain with no bound: \<open>None\<close> when it does not come to an end. The
  result of \<open>Read\<close> is not checked, after a short read the buffer holds indeterminate bytes.
\<close>

partial_function (option) readfile_loop ::
  "nat \<Rightarrow> u16 list \<Rightarrow> nat \<Rightarrow> wfile \<Rightarrow> string \<Rightarrow> (cpp_error + string) option" where
  "readfile_loop gat_section gat current_section f out =
     (if 0 < current_section \<and> current_section < GAT_NUMBER_ELEMENTS
      then (if length (fst (File_Read MSG_BLOCK_SIZE
                 (File_Seek (MSG_STARTING gat_section + MSG_BLOCK_SIZE * current_section) f)))
               < MSG_BLOCK_SIZE
            then Some (Inl UndefinedBehaviour)
            else readfile_loop gat_section gat (unat (gat ! current_section))
                   (snd (File_Read MSG_BLOCK_SIZE
                     (File_Seek (MSG_STARTING gat_section + MSG_BLOCK_SIZE * current_section) f)))
                   (out @ c_str (fst (File_Read MSG_BLOCK_SIZE
                     (File_Seek (MSG_STARTING gat_section + MSG_BLOCK_SIZE * current_section) f)))))
      else Some (Inr out))"

text \<open>\<open>out->length() - MSG_BLOCK_SIZE\<close> is computed in \<open>size_type\<close>, which wraps.\<close>

definition cz_trim :: "string \<Rightarrow> string" where
  "cz_trim out =
     (let last_cz = find_last_of out CZ;
          last_block_start = (int (length out) - int MSG_BLOCK_SIZE) mod 2 ^ 64
      in case last_cz of
           None \<Rightarrow> out
         | Some p \<Rightarrow> if 0 \<le> last_block_start \<and> last_block_start < int p then take p out else out)"

text \<open>The reads move the position only; the file is closed when \<open>readfile\<close> returns.\<close>

definition readfile ::
  "messagerec \<Rightarrow> wfile option \<Rightarrow> (cpp_error + bool \<times> string \<times> wfile option) option" where
  "readfile msg fopt =
     (case fopt of
        None \<Rightarrow> Some (Inr (False, [], None))
      | Some f \<Rightarrow>
          (let gat_section = unat (stored_as msg) div GAT_NUMBER_ELEMENTS;
               (gat, f1) = load_gat f gat_section;
               current_section = unat (stored_as msg) mod GAT_NUMBER_ELEMENTS
           in map_option (map_sum id (\<lambda>out. (True, cz_trim out, Some f1)))
                (readfile_loop gat_section gat current_section f1 [])))"

text \<open>The search for free blocks in one section.\<close>

function savefile_scan :: "u16 list \<Rightarrow> nat \<Rightarrow> nat \<Rightarrow> u16 list \<Rightarrow> u16 list" where
  "savefile_scan gat nNumBlocksRequired i4 gati =
     (if length gati < nNumBlocksRequired \<and> i4 < GAT_NUMBER_ELEMENTS
      then savefile_scan gat nNumBlocksRequired (Suc i4)
             (if gat ! i4 = 0 then gati @ [word_of_nat i4] else gati)
      else gati)"
  by pat_completeness auto
termination
  by (relation "measure (\<lambda>(gat, n, i4, gati). GAT_NUMBER_ELEMENTS - i4)") auto

declare savefile_scan.simps [simp del]

text \<open>
  Writing the blocks: \<open>mem\<close> is the memory from \<open>&text[0]\<close> on, the text, its terminating NUL
  and what follows it, since every block is written with its full 512 bytes.
\<close>

fun savefile_blocks ::
  "nat \<Rightarrow> bytes \<Rightarrow> u16 list \<Rightarrow> nat list \<Rightarrow> u16 list \<Rightarrow> wfile \<Rightarrow> u16 list \<times> wfile" where
  "savefile_blocks sec mem gati [] gat f = (gat, f)"
| "savefile_blocks sec mem gati (i # is) gat f =
     savefile_blocks sec mem gati is (gat[unat (gati ! i) := gati ! (i + 1)])
       (File_Write (take MSG_BLOCK_SIZE (drop (i * MSG_BLOCK_SIZE) mem))
         (File_Seek (MSG_STARTING sec + MSG_BLOCK_SIZE * unat (gati ! i)) f))"

function savefile_sections ::
  "nat \<Rightarrow> bytes \<Rightarrow> wfile \<Rightarrow> nat \<Rightarrow> u16 list \<Rightarrow> nat \<times> u16 list \<times> wfile" where
  "savefile_sections text_length mem f sec gati =
     (if sec < 1024
      then (let (gat, f1) = load_gat f sec;
                nNumBlocksRequired = (text_length + 511) div MSG_BLOCK_SIZE;
                gati1 = savefile_scan gat nNumBlocksRequired 1 []
            in if nNumBlocksRequired \<le> length gati1
               then (let gati2 = gati1 @ [- 1];
                         (gat2, f2) = savefile_blocks sec mem gati2 [0..<nNumBlocksRequired] gat f1
                     in (sec, gati2, save_gat f2 sec gat2))
               else savefile_sections text_length mem f1 (Suc sec) gati1)
      else (sec, gati, f))"
  by pat_completeness auto
termination
  by (relation "measure (\<lambda>(n, mem, f, sec, gati). 1024 - sec)") auto

declare savefile_sections.simps [simp del]

definition savefile ::
  "string \<Rightarrow> bytes \<Rightarrow> messagerec \<Rightarrow> wfile option \<Rightarrow> cpp_error + messagerec \<times> wfile" where
  "savefile txt slack msg fopt =
     (case fopt of
        None \<Rightarrow> Inl UndefinedBehaviour
      | Some f \<Rightarrow>
          (let (sec, gati, f') = savefile_sections (length txt) (txt @ NUL # slack) f 0 []
           in if gati = [] then Inl UndefinedBehaviour
              else Inr (msg\<lparr>stored_as := word_of_nat (unat (gati ! 0)) + word_of_nat sec * word_of_nat GAT_NUMBER_ELEMENTS\<rparr>, f')))"

text \<open>\<open>gat\<close> has \<open>GAT_NUMBER_ELEMENTS\<close> entries, so the third test never decides.\<close>

lemma length_filter_update_less:
  assumes "i < length xs" "P (xs ! i)" "\<not> P y"
  shows "length (filter P (xs[i := y])) < length (filter P xs)"
proof -
  have xs: "xs = take i xs @ xs ! i # drop (Suc i) xs" using assms(1) by (rule id_take_nth_drop)
  have "length (filter P (xs[i := y])) = length (filter P (take i xs)) + length (filter P (drop (Suc i) xs))"
    using assms by (simp add: upd_conv_take_nth_drop)
  moreover have "length (filter P xs) = length (filter P (take i xs)) + Suc (length (filter P (drop (Suc i) xs)))"
    using assms(2) by (subst xs) simp
  ultimately show ?thesis by simp
qed

function remove_link_loop :: "u16 list \<Rightarrow> nat \<Rightarrow> u16 list" where
  "remove_link_loop gat current_section =
     (if 0 < current_section \<and> current_section < GAT_NUMBER_ELEMENTS \<and> current_section < length gat
      then remove_link_loop (gat[current_section := 0]) (unat (gat ! current_section))
      else gat)"
  by pat_completeness auto
termination
proof (relation "measure (\<lambda>(gat, cur). 2 * length (filter (\<lambda>w. w \<noteq> 0) gat) + (if cur = 0 then 0 else 1))")
  fix gat :: "u16 list" and cur
  assume cur: "0 < cur \<and> cur < GAT_NUMBER_ELEMENTS \<and> cur < length gat"
  show "((gat[cur := 0], unat (gat ! cur)), (gat, cur))
    \<in> measure (\<lambda>(gat, cur). 2 * length (filter (\<lambda>w. w \<noteq> 0) gat) + (if cur = 0 then 0 else 1))"
  proof (cases "gat ! cur = 0")
    case True
    then have "gat[cur := 0] = gat" by (metis list_update_id)
    with True cur show ?thesis by simp
  next
    case False
    with cur have "length (filter (\<lambda>w. w \<noteq> 0) (gat[cur := 0])) < length (filter (\<lambda>w. w \<noteq> 0) gat)"
      by (intro length_filter_update_less) auto
    with cur show ?thesis by simp
  qed
qed auto

declare remove_link_loop.simps [simp del]

definition remove_link :: "messagerec \<Rightarrow> wfile option \<Rightarrow> cpp_error + wfile" where
  "remove_link msg fopt =
     (case fopt of
        None \<Rightarrow> Inl UndefinedBehaviour
      | Some f \<Rightarrow>
          (let sec = unat (stored_as msg) div GAT_NUMBER_ELEMENTS;
               (gat, f1) = load_gat f sec;
               current_section = unat (stored_as msg) mod GAT_NUMBER_ELEMENTS
           in Inr (save_gat f1 sec (remove_link_loop gat current_section))))"

section \<open>The bytes of a file as a function\<close>

text \<open>A file read beyond its end as zero bytes: extending a file does not change this view.\<close>

definition byte_at :: "bytes \<Rightarrow> nat \<Rightarrow> char" where
  "byte_at c i = (if i < length c then c ! i else NUL)"

definition vread :: "nat \<Rightarrow> nat \<Rightarrow> bytes \<Rightarrow> bytes" where
  "vread p n c = map (byte_at c) [p..<p + n]"

lemma length_vread [simp]: "length (vread p n c) = n"
  by (simp add: vread_def)

lemma nth_vread [simp]: "i < n \<Longrightarrow> vread p n c ! i = byte_at c (p + i)"
  by (simp add: vread_def)

lemma read_at_eq_vread: "p + n \<le> length c \<Longrightarrow> read_at p n c = vread p n c"
  by (rule nth_equalityI) (auto simp: length_read_at nth_read_at byte_at_def)

lemma vread_eqI: "(\<And>i. p \<le> i \<Longrightarrow> i < p + n \<Longrightarrow> byte_at c i = byte_at c' i) \<Longrightarrow> vread p n c = vread p n c'"
  by (simp add: vread_def)

lemma byte_at_overwrite:
  "byte_at (overwrite c p d) i = (if p \<le> i \<and> i < p + length d then d ! (i - p) else byte_at c i)"
proof (cases "i < length (overwrite c p d)")
  case True
  then show ?thesis by (auto simp: byte_at_def length_overwrite nth_overwrite)
next
  case False
  then show ?thesis by (auto simp: byte_at_def length_overwrite)
qed

lemma vread_overwrite_same: "vread p (length d) (overwrite c p d) = d"
  by (rule nth_equalityI) (auto simp: byte_at_overwrite)

lemma vread_overwrite_disjoint:
  "q + n \<le> p \<or> p + length d \<le> q \<Longrightarrow> vread q n (overwrite c p d) = vread q n c"
  by (rule vread_eqI) (auto simp: byte_at_overwrite)

section \<open>Encoding of the table\<close>

lemma length_encode_gat [simp]: "length (encode_gat gat) = 2 * length gat"
  unfolding encode_gat_def by (simp add: u16_codec.length_concat_enc)

lemma encode_gat_nonempty: "gat \<noteq> [] \<Longrightarrow> encode_gat gat \<noteq> []"
  by (metis length_encode_gat length_0_conv mult_eq_0_iff zero_neq_numeral)

lemma decode_encode_gat [simp]: "decode_gat (encode_gat gat) = gat"
  unfolding encode_gat_def decode_gat_def by (simp add: u16_codec.recs_concat_enc)

lemma length_decode_gat [simp]: "length (decode_gat b) = length b div 2"
  by (simp add: decode_gat_def)

lemma encode_gat_zeros: "encode_gat (replicate n 0) = replicate (2 * n) NUL"
proof (induction n)
  case (Suc n)
  have "enc_u16 0 = [NUL, NUL]" by (simp add: enc_u16_def NUL_def numeral_2_eq_2 char_of_def)
  with Suc show ?case by (simp add: encode_gat_def)
qed (simp add: encode_gat_def)

lemma decode_gat_zeros: "decode_gat (replicate (2 * n) NUL) = replicate n 0"
  by (metis decode_encode_gat encode_gat_zeros)

section \<open>Loading and saving the table\<close>

text \<open>The table of a section, and files whose end does not cut a table.\<close>

definition gat_of :: "bytes \<Rightarrow> nat \<Rightarrow> u16 list" where
  "gat_of c sec = decode_gat (vread (sec * GATSECLEN) GAT_SECTION_SIZE c)"

definition whole :: "bytes \<Rightarrow> bool" where
  "whole c \<longleftrightarrow> (\<forall>sec. length c \<le> sec * GATSECLEN \<or> sec * GATSECLEN + GAT_SECTION_SIZE \<le> length c)"

lemma length_gat_of [simp]: "length (gat_of c sec) = GAT_NUMBER_ELEMENTS"
  by (simp add: gat_of_def)

lemma whole_GAT_end:
  "length c = sec * GATSECLEN + GAT_SECTION_SIZE + MSG_BLOCK_SIZE * b \<Longrightarrow> b \<le> GAT_NUMBER_ELEMENTS \<Longrightarrow> whole c"
proof -
  assume c: "length c = sec * GATSECLEN + GAT_SECTION_SIZE + MSG_BLOCK_SIZE * b" and b: "b \<le> GAT_NUMBER_ELEMENTS"
  show "whole c"
    unfolding whole_def
  proof
    fix s
    show "length c \<le> s * GATSECLEN \<or> s * GATSECLEN + GAT_SECTION_SIZE \<le> length c"
    proof (cases "s \<le> sec")
      case True
      then have "s * GATSECLEN \<le> sec * GATSECLEN" by simp
      with c show ?thesis by linarith
    next
      case False
      then have "Suc sec * GATSECLEN \<le> s * GATSECLEN" by (intro mult_le_mono1) simp
      with c b show ?thesis by simp
    qed
  qed
qed

lemma byte_at_append_NUL [simp]: "byte_at (c @ replicate n NUL) = byte_at c"
  by (auto simp: byte_at_def nth_append fun_eq_iff)

text \<open>
  Loading a table returns it and leaves the file as it reads, but long enough to hold it.
\<close>

lemma load_gat_eq:
  assumes "whole (contents f)"
  shows "fst (load_gat f sec) = gat_of (contents f) sec"
    and "byte_at (contents (snd (load_gat f sec))) = byte_at (contents f)"
    and "length (contents (snd (load_gat f sec)))
      = max (length (contents f)) (sec * GATSECLEN + GAT_SECTION_SIZE)"
proof -
  let ?c = "contents f" and ?p = "sec * GATSECLEN"
  let ?f1 = "if File_GetLength f < ?p then File_SetLength ?p f else f"
  let ?c1 = "contents ?f1"
  let ?z = "replicate GAT_SECTION_SIZE NUL"
  have c1: "byte_at ?c1 = byte_at ?c" "length ?c1 = max (length ?c) ?p"
    by (auto simp: File_SetLength_def File_GetLength_def )
  have enc: "encode_gat (replicate GAT_NUMBER_ELEMENTS 0) = ?z"
    using encode_gat_zeros [of GAT_NUMBER_ELEMENTS] by simp
  have "fst (load_gat f sec) = gat_of ?c sec \<and>
    byte_at (contents (snd (load_gat f sec))) = byte_at ?c \<and>
    length (contents (snd (load_gat f sec))) = max (length ?c) (?p + GAT_SECTION_SIZE)"
  proof (cases "length ?c1 < ?p + GAT_SECTION_SIZE")
    case True
    then have short: "length ?c \<le> ?p" using assms c1(2) by (auto simp: whole_def max_def split: if_splits)
    then have z: "vread ?p GAT_SECTION_SIZE ?c = ?z"
      by (intro nth_equalityI) (auto simp: byte_at_def)
    have res: "load_gat f sec = (replicate GAT_NUMBER_ELEMENTS 0, File_Write ?z (File_Seek ?p ?f1))"
      using True by (simp add: load_gat_def Let_def File_GetLength_def enc)
    have "byte_at (overwrite ?c1 ?p ?z) = byte_at ?c"
    proof
      fix i
      show "byte_at (overwrite ?c1 ?p ?z) i = byte_at ?c i"
        unfolding byte_at_overwrite c1(1) using short by (auto simp: byte_at_def intro!: nth_replicate)
    qed
    moreover have "length (overwrite ?c1 ?p ?z) = max (length ?c) (?p + GAT_SECTION_SIZE)"
      using short c1(2) by (simp add: length_overwrite)
    moreover have "contents (File_Write ?z (File_Seek ?p ?f1)) = overwrite ?c1 ?p ?z"
      by (simp add: contents_File_Write_Seek)
    moreover have "gat_of ?c sec = replicate GAT_NUMBER_ELEMENTS 0"
      using decode_gat_zeros [of GAT_NUMBER_ELEMENTS] by (simp add: gat_of_def z)
    ultimately show ?thesis unfolding res by simp
  next
    case False
    then have long: "?p + GAT_SECTION_SIZE \<le> length ?c1" by simp
    then have "length ?c1 = length ?c" using c1(2) by (auto simp: max_def split: if_splits)
    moreover from this have "?c1 = ?c" using c1(2) by (auto simp: File_GetLength_def max_def)
    ultimately have "\<not> length ?c < ?p" "length ?c \<ge> ?p + GAT_SECTION_SIZE" using long by auto
    then have "fst (load_gat f sec) = decode_gat (read_at ?p GAT_SECTION_SIZE ?c)"
      and "contents (snd (load_gat f sec)) = ?c"
      by (auto simp: load_gat_def Let_def File_GetLength_def File_Read_def File_Seek_def read_at_def)
    with \<open>length ?c \<ge> _\<close> show ?thesis by (simp add: gat_of_def read_at_eq_vread)
  qed
  then show "fst (load_gat f sec) = gat_of ?c sec"
    and "byte_at (contents (snd (load_gat f sec))) = byte_at ?c"
    and "length (contents (snd (load_gat f sec))) = max (length ?c) (?p + GAT_SECTION_SIZE)"
    by blast+
qed

section \<open>Blocks\<close>

definition block_pos :: "nat \<Rightarrow> nat \<Rightarrow> nat" where
  "block_pos sec b = MSG_STARTING sec + MSG_BLOCK_SIZE * b"

definition block :: "bytes \<Rightarrow> nat \<Rightarrow> nat \<Rightarrow> bytes" where
  "block c sec b = vread (block_pos sec b) MSG_BLOCK_SIZE c"

lemma section_le: "s < s' \<Longrightarrow> s * GATSECLEN + GATSECLEN \<le> s' * GATSECLEN"
  by (metis Suc_leI add.commute mult_Suc mult_le_mono1)

lemma block_end: "b < GAT_NUMBER_ELEMENTS \<Longrightarrow> block_pos s b + MSG_BLOCK_SIZE \<le> s * GATSECLEN + GATSECLEN"
  by (simp add: block_pos_def MSG_STARTING_def)

lemma GAT_GAT_disjoint:
  "s \<noteq> s' \<Longrightarrow> s * GATSECLEN + GAT_SECTION_SIZE \<le> s' * GATSECLEN \<or> s' * GATSECLEN + GAT_SECTION_SIZE \<le> s * GATSECLEN"
  using section_le [of s s'] section_le [of s' s] by linarith

lemma block_GAT_disjoint:
  assumes "b < GAT_NUMBER_ELEMENTS"
  shows "block_pos s b + MSG_BLOCK_SIZE \<le> s' * GATSECLEN \<or> s' * GATSECLEN + GAT_SECTION_SIZE \<le> block_pos s b"
  using section_le [of s s'] section_le [of s' s] block_end [OF assms, of s]
  by (cases s s' rule: linorder_cases) (auto simp: block_pos_def MSG_STARTING_def)

lemma block_block_disjoint:
  assumes "b < GAT_NUMBER_ELEMENTS" "b' < GAT_NUMBER_ELEMENTS" "(s, b) \<noteq> (s', b')"
  shows "block_pos s b + MSG_BLOCK_SIZE \<le> block_pos s' b' \<or> block_pos s' b' + MSG_BLOCK_SIZE \<le> block_pos s b"
  using assms section_le [of s s'] section_le [of s' s] block_end [of b s] block_end [of b' s']
  by (cases s s' rule: linorder_cases) (auto simp: block_pos_def MSG_STARTING_def)

lemma whole_overwrite_block:
  assumes "whole c" "b < GAT_NUMBER_ELEMENTS" "length d = MSG_BLOCK_SIZE"
  shows "whole (overwrite c (block_pos sec b) d)"
proof (cases "length c \<le> block_pos sec b + MSG_BLOCK_SIZE")
  case True
  then show ?thesis using assms(2,3)
    by (intro whole_GAT_end [of _ sec "Suc b"]) (auto simp: length_overwrite block_pos_def MSG_STARTING_def)
next
  case False
  then have "length (overwrite c (block_pos sec b) d) = length c"
    using assms(3) by (simp add: length_overwrite)
  with assms(1) show ?thesis by (simp add: whole_def)
qed

lemma whole_overwrite_within: "whole c \<Longrightarrow> p + length d \<le> length c \<Longrightarrow> whole (overwrite c p d)"
  by (simp add: whole_def length_overwrite)

lemma load_gat_whole: "whole (contents f) \<Longrightarrow> whole (contents (snd (load_gat f sec)))"
proof -
  assume w: "whole (contents f)"
  show ?thesis
  proof (cases "sec * GATSECLEN + GAT_SECTION_SIZE \<le> length (contents f)")
    case True
    with load_gat_eq(3) [OF w, of sec] w show ?thesis by (simp add: whole_def)
  next
    case False
    with load_gat_eq(3) [OF w, of sec] show ?thesis
      by (intro whole_GAT_end [of _ sec 0]) simp_all
  qed
qed

text \<open>What \<open>gat_of\<close> and \<open>block\<close> depend on.\<close>

lemma gat_of_cong: "byte_at c = byte_at c' \<Longrightarrow> gat_of c sec = gat_of c' sec"
  by (simp add: gat_of_def vread_def)

lemma block_cong: "byte_at c = byte_at c' \<Longrightarrow> block c sec b = block c' sec b"
  by (simp add: block_def vread_def)

lemma gat_of_overwrite_block:
  assumes "b < GAT_NUMBER_ELEMENTS" "length d = MSG_BLOCK_SIZE"
  shows "gat_of (overwrite c (block_pos sec b) d) s = gat_of c s"
  using block_GAT_disjoint [OF assms(1), of sec s] assms(2)
  by (auto simp: gat_of_def vread_overwrite_disjoint)

lemma block_overwrite_block:
  assumes "b < GAT_NUMBER_ELEMENTS" "b' < GAT_NUMBER_ELEMENTS" "length d = MSG_BLOCK_SIZE"
  shows "block (overwrite c (block_pos sec b) d) s b' = (if s = sec \<and> b' = b then d else block c s b')"
proof (cases "s = sec \<and> b' = b")
  case True
  then show ?thesis using assms(3) vread_overwrite_same [of "block_pos sec b" d c] by (simp add: block_def)
next
  case False
  then show ?thesis
    using block_block_disjoint [OF assms(1,2), of sec s] assms(3)
    by (auto simp: block_def vread_overwrite_disjoint)
qed

lemma save_gat_contents:
  assumes "length gat = GAT_NUMBER_ELEMENTS"
  shows "contents (save_gat f sec gat) = overwrite (contents f) (sec * GATSECLEN) (encode_gat gat)"
proof -
  have "gat \<noteq> []" using assms by auto
  then have "encode_gat gat \<noteq> []" by (rule encode_gat_nonempty)
  then show ?thesis by (simp add: save_gat_def contents_File_Write_Seek)
qed

lemma save_gat_eq:
  assumes "length gat = GAT_NUMBER_ELEMENTS"
  shows "gat_of (contents (save_gat f sec gat)) s = (if s = sec then gat else gat_of (contents f) s)"
    and "b < GAT_NUMBER_ELEMENTS \<Longrightarrow> block (contents (save_gat f sec gat)) s b = block (contents f) s b"
    and "sec * GATSECLEN + GAT_SECTION_SIZE \<le> length (contents f) \<Longrightarrow> whole (contents f) \<Longrightarrow>
      whole (contents (save_gat f sec gat)) \<and> length (contents (save_gat f sec gat)) = length (contents f)"
proof -
  let ?d = "encode_gat gat"
  have len: "length ?d = GAT_SECTION_SIZE" using assms by simp
  note c = save_gat_contents [OF assms, of f sec]
  show "gat_of (contents (save_gat f sec gat)) s = (if s = sec then gat else gat_of (contents f) s)"
    using vread_overwrite_same [of "sec * GATSECLEN" ?d "contents f"] len GAT_GAT_disjoint [of s sec]
    by (auto simp: c gat_of_def vread_overwrite_disjoint)
  show "block (contents (save_gat f sec gat)) s b = block (contents f) s b" if "b < GAT_NUMBER_ELEMENTS"
    using block_GAT_disjoint [OF that, of s sec] len
    by (auto simp: c block_def vread_overwrite_disjoint)
  show "whole (contents (save_gat f sec gat)) \<and> length (contents (save_gat f sec gat)) = length (contents f)"
    if "sec * GATSECLEN + GAT_SECTION_SIZE \<le> length (contents f)" "whole (contents f)"
    using that len by (auto simp: c whole_overwrite_within length_overwrite)
qed

section \<open>Chains\<close>

fun gat_chain :: "u16 list \<Rightarrow> nat \<Rightarrow> nat list \<Rightarrow> bool" where
  "gat_chain gat cur [] \<longleftrightarrow> \<not> (0 < cur \<and> cur < GAT_NUMBER_ELEMENTS)"
| "gat_chain gat cur (b # bs) \<longleftrightarrow>
     cur = b \<and> 0 < b \<and> b < GAT_NUMBER_ELEMENTS \<and> gat_chain gat (unat (gat ! b)) bs"

lemma gat_chain_blocks: "gat_chain gat cur bs \<Longrightarrow> b \<in> set bs \<Longrightarrow> 0 < b \<and> b < GAT_NUMBER_ELEMENTS"
  by (induction bs arbitrary: cur) auto

lemma gat_chain_unique: "gat_chain gat cur bs \<Longrightarrow> gat_chain gat cur bs' \<Longrightarrow> bs = bs'"
proof (induction bs arbitrary: cur bs')
  case Nil
  then show ?case by (cases bs') auto
next
  case (Cons b bs)
  then show ?case by (cases bs') auto
qed

lemma gat_chain_append: "gat_chain gat cur (bs @ bs') \<Longrightarrow> \<exists>cur'. gat_chain gat cur' bs'"
  by (induction bs arbitrary: cur) auto

lemma gat_chain_distinct: "gat_chain gat cur bs \<Longrightarrow> distinct bs"
proof (induction bs arbitrary: cur)
  case (Cons b bs)
  have "b \<notin> set bs"
  proof
    assume "b \<in> set bs"
    then obtain us vs where bs: "bs = us @ b # vs" by (meson split_list)
    from Cons.prems have "gat_chain gat (unat (gat ! b)) (us @ b # vs)" by (simp add: bs)
    from gat_chain_append [OF this] have "gat_chain gat (unat (gat ! b)) vs" by auto
    moreover from Cons.prems have "gat_chain gat (unat (gat ! b)) (us @ b # vs)" by (simp add: bs)
    ultimately have "vs = us @ b # vs" by (rule gat_chain_unique)
    then show False by (metis append_Cons append_self_conv2 append_eq_append_conv2 list.distinct(1) append_is_Nil_conv self_append_conv2 append_assoc)
  qed
  with Cons show ?case by auto
qed simp

lemma gat_chain_cong:
  "gat_chain gat cur bs \<Longrightarrow> (\<And>b. b \<in> set bs \<Longrightarrow> gat' ! b = gat ! b) \<Longrightarrow> gat_chain gat' cur bs"
  by (induction bs arbitrary: cur) auto

lemma readfile_loop_chain:
  assumes "gat_chain gat cur bs"
    and "\<And>b. b \<in> set bs \<Longrightarrow> block_pos sec b + MSG_BLOCK_SIZE \<le> length (contents f)"
  shows "readfile_loop sec gat cur f out
    = Some (Inr (out @ concat (map (\<lambda>b. c_str (block (contents f) sec b)) bs)))"
  using assms
proof (induction bs arbitrary: cur f out)
  case Nil
  then show ?case by (subst readfile_loop.simps) auto
next
  case (Cons b bs)
  let ?f = "snd (File_Read MSG_BLOCK_SIZE (File_Seek (block_pos sec b) f))"
  have rd: "fst (File_Read MSG_BLOCK_SIZE (File_Seek (block_pos sec b) f)) = block (contents f) sec b"
    using Cons.prems(2) [of b] by (simp add: File_Read_Seek block_def read_at_eq_vread)
  have "readfile_loop sec gat cur f out
    = readfile_loop sec gat (unat (gat ! b)) ?f (out @ c_str (block (contents f) sec b))"
    using Cons.prems(1) rd
    by (subst readfile_loop.simps) (simp add: block_pos_def block_def)
  also have "\<dots> = Some (Inr ((out @ c_str (block (contents f) sec b)) @
      concat (map (\<lambda>b. c_str (block (contents ?f) sec b)) bs)))"
    using Cons.prems by (intro Cons.IH) auto
  finally show ?case by simp
qed

text \<open>The loop of \<open>readfile\<close> ends only at the end of a chain.\<close>

lemma readfile_loop_returns_chain:
  assumes "readfile_loop sec gat cur f out = Some r"
    and "\<And>b. b < GAT_NUMBER_ELEMENTS \<Longrightarrow> block_pos sec b + MSG_BLOCK_SIZE \<le> length (contents f)"
  shows "\<exists>bs. gat_chain gat cur bs"
  using assms(2)
proof (induction rule: readfile_loop.raw_induct [OF _ assms(1)])
  case (1 loop sec gat cur f out r)
  show ?case
  proof (cases "0 < cur \<and> cur < GAT_NUMBER_ELEMENTS")
    case False
    then have "gat_chain gat cur []" by simp
    then show ?thesis by blast
  next
    case True
    let ?f = "File_Seek (MSG_STARTING sec + MSG_BLOCK_SIZE * cur) f"
    have "fst (File_Read MSG_BLOCK_SIZE ?f) = block (contents f) sec cur"
      using "1.prems" [of cur] True by (simp add: File_Read_Seek block_def read_at_eq_vread block_pos_def)
    then have len: "\<not> length (fst (File_Read MSG_BLOCK_SIZE ?f)) < MSG_BLOCK_SIZE" by (simp add: block_def)
    have "loop sec gat (unat (gat ! cur)) (snd (File_Read MSG_BLOCK_SIZE ?f))
      (out @ c_str (fst (File_Read MSG_BLOCK_SIZE ?f))) = Some r"
      using "1.hyps" True len by (simp split: if_splits)
    from "1.IH" [OF this] "1.prems" obtain bs where "gat_chain gat (unat (gat ! cur)) bs" by auto
    with True have "gat_chain gat cur (cur # bs)" by simp
    then show ?thesis by blast
  qed
qed

lemma readfile_loop_returns:
  assumes "\<And>b. b < GAT_NUMBER_ELEMENTS \<Longrightarrow> block_pos sec b + MSG_BLOCK_SIZE \<le> length (contents f)"
  shows "readfile_loop sec gat cur f out \<noteq> None \<longleftrightarrow> (\<exists>bs. gat_chain gat cur bs)"
proof
  assume "readfile_loop sec gat cur f out \<noteq> None"
  then show "\<exists>bs. gat_chain gat cur bs" using readfile_loop_returns_chain assms by blast
next
  assume "\<exists>bs. gat_chain gat cur bs"
  then obtain bs where bs: "gat_chain gat cur bs" by blast
  have "readfile_loop sec gat cur f out
      = Some (Inr (out @ concat (map (\<lambda>b. c_str (block (contents f) sec b)) bs)))"
    using bs by (rule readfile_loop_chain) (simp add: assms gat_chain_blocks [OF bs])
  then show "readfile_loop sec gat cur f out \<noteq> None" by simp
qed

lemma remove_link_loop_chain:
  assumes "gat_chain gat cur bs" "length gat = GAT_NUMBER_ELEMENTS" "distinct bs" "j < GAT_NUMBER_ELEMENTS"
  shows "remove_link_loop gat cur ! j = (if j \<in> set bs then 0 else gat ! j)"
  using assms
proof (induction bs arbitrary: cur gat)
  case Nil
  then show ?case by (subst remove_link_loop.simps) auto
next
  case (Cons b bs)
  have "gat_chain (gat[b := 0]) (unat (gat ! b)) bs"
  proof (rule gat_chain_cong)
    show "gat_chain gat (unat (gat ! b)) bs" using Cons.prems(1) by simp
    show "gat[b := 0] ! x = gat ! x" if "x \<in> set bs" for x
      using that Cons.prems(3) by (cases "x = b") auto
  qed
  moreover have "remove_link_loop gat cur = remove_link_loop (gat[b := 0]) (unat (gat ! b))"
    using Cons.prems by (subst remove_link_loop.simps) simp
  ultimately show ?case
    using Cons.IH [of "gat[b := 0]" "unat (gat ! b)"] Cons.prems by (auto simp: nth_list_update)
qed

lemma length_remove_link_loop [simp]: "length (remove_link_loop gat cur) = length gat"
proof (induction gat cur rule: remove_link_loop.induct)
  case (1 gat cur)
  then show ?case by (subst remove_link_loop.simps) simp
qed

section \<open>Allocating and writing blocks\<close>

definition free_blocks :: "u16 list \<Rightarrow> nat list" where
  "free_blocks gat = filter (\<lambda>j. gat ! j = 0) [1..<GAT_NUMBER_ELEMENTS]"

lemma savefile_scan_eq:
  assumes "i4 \<le> GAT_NUMBER_ELEMENTS" "length gati \<le> n"
  shows "savefile_scan gat n i4 gati
    = gati @ take (n - length gati) (map word_of_nat (filter (\<lambda>j. gat ! j = 0) [i4..<GAT_NUMBER_ELEMENTS]))"
  using assms
proof (induction gat n i4 gati rule: savefile_scan.induct)
  case (1 gat n i4 gati)
  show ?case
  proof (cases "length gati < n \<and> i4 < GAT_NUMBER_ELEMENTS")
    case False
    with "1.prems" show ?thesis by (subst savefile_scan.simps) auto
  next
    case True
    then have "[i4..<GAT_NUMBER_ELEMENTS] = i4 # [Suc i4..<GAT_NUMBER_ELEMENTS]" by (simp add: upt_rec)
    moreover have "n - length gati = Suc (n - Suc (length gati))" using True by (simp add: Suc_diff_Suc)
    ultimately show ?thesis
      using "1.IH" True by (subst savefile_scan.simps) simp
  qed
qed

lemma savefile_scan_free:
  "savefile_scan gat n 1 [] = map word_of_nat (take n (free_blocks gat))"
  by (simp add: savefile_scan_eq free_blocks_def take_map)

lemma set_free_blocks: "b \<in> set (free_blocks gat) \<longleftrightarrow> 0 < b \<and> b < GAT_NUMBER_ELEMENTS \<and> gat ! b = 0"
  by (auto simp: free_blocks_def)

lemma distinct_free_blocks [simp]: "distinct (free_blocks gat)"
  by (simp add: free_blocks_def)

lemma unat_block_number: "b < GAT_NUMBER_ELEMENTS \<Longrightarrow> unat (word_of_nat b :: u16) = b"
  by (simp add: unat_of_nat)

text \<open>
  The loop that writes the blocks, for the chain \<open>bs\<close>: \<open>is\<close> are the indices still to do.
\<close>

abbreviation gati_of :: "nat list \<Rightarrow> u16 list" where
  "gati_of bs \<equiv> map word_of_nat bs @ [- 1]"

definition chunk :: "bytes \<Rightarrow> nat \<Rightarrow> bytes" where
  "chunk mem i = take MSG_BLOCK_SIZE (drop (i * MSG_BLOCK_SIZE) mem)"

lemma savefile_blocks_eq:
  assumes "distinct bs" "\<And>b. b \<in> set bs \<Longrightarrow> b < GAT_NUMBER_ELEMENTS"
    and "length gat = GAT_NUMBER_ELEMENTS" "whole (contents f)"
    and "distinct is" "\<And>i. i \<in> set is \<Longrightarrow> i < length bs \<and> Suc i * MSG_BLOCK_SIZE \<le> length mem"
    and "savefile_blocks sec mem (gati_of bs) is gat f = (gat', f')"
  shows "length gat' = GAT_NUMBER_ELEMENTS \<and> whole (contents f') \<and> length (contents f) \<le> length (contents f')
    \<and> (\<forall>i \<in> set is. gat' ! (bs ! i) = gati_of bs ! Suc i
          \<and> block (contents f') sec (bs ! i) = chunk mem i
          \<and> block_pos sec (bs ! i) + MSG_BLOCK_SIZE \<le> length (contents f'))
    \<and> (\<forall>j. j \<notin> (\<lambda>i. bs ! i) ` set is \<longrightarrow> gat' ! j = gat ! j)
    \<and> (\<forall>s. gat_of (contents f') s = gat_of (contents f) s)
    \<and> (\<forall>s b. b < GAT_NUMBER_ELEMENTS \<longrightarrow> s \<noteq> sec \<or> b \<notin> (\<lambda>i. bs ! i) ` set is \<longrightarrow>
          block (contents f') s b = block (contents f) s b)"
  using assms(3-)
proof (induction "is" arbitrary: gat f)
  case Nil
  then show ?case by simp
next
  case (Cons i "is")
  let ?b = "bs ! i"
  let ?gat = "gat[?b := gati_of bs ! Suc i]"
  let ?f = "File_Write (chunk mem i) (File_Seek (block_pos sec ?b) f)"
  have i: "i < length bs" "Suc i * MSG_BLOCK_SIZE \<le> length mem" using Cons.prems(4) by auto
  then have b: "?b < GAT_NUMBER_ELEMENTS" using assms(2) by simp
  have len: "length (chunk mem i) = MSG_BLOCK_SIZE" using i by (simp add: chunk_def)
  then have c: "contents ?f = overwrite (contents f) (block_pos sec ?b) (chunk mem i)"
    by (auto simp: contents_File_Write_Seek)
  have gi: "unat (gati_of bs ! i) = ?b" using i b by (simp add: nth_append unat_block_number)
  have rec: "savefile_blocks sec mem (gati_of bs) is ?gat ?f = (gat', f')"
    using Cons.prems(5) by (simp add: gi chunk_def block_pos_def)
  have inj: "bs ! k \<noteq> ?b" if "k \<in> set is" for k
    using that Cons.prems(3) Cons.prems(4) [of k] i(1) nth_eq_iff_index_eq [OF assms(1), of k i] by auto
  have glen: "length ?gat = GAT_NUMBER_ELEMENTS" using Cons.prems(1) by simp
  have wh: "whole (contents ?f)" unfolding c using Cons.prems(2) b len by (rule whole_overwrite_block)
  have dist: "distinct is" using Cons.prems(3) by simp
  have idx: "\<And>k. k \<in> set is \<Longrightarrow> k < length bs \<and> Suc k * MSG_BLOCK_SIZE \<le> length mem"
    using Cons.prems(4) by simp
  note IH0 = Cons.IH [OF glen wh dist idx rec]
  have IH: "length gat' = GAT_NUMBER_ELEMENTS" "whole (contents f')"
      "length (contents ?f) \<le> length (contents f')"
      using IH0 by simp_all
  have IH4: "\<And>i. i \<in> set is \<Longrightarrow> gat' ! (bs ! i) = gati_of bs ! Suc i
          \<and> block (contents f') sec (bs ! i) = chunk mem i
          \<and> block_pos sec (bs ! i) + MSG_BLOCK_SIZE \<le> length (contents f')"
    using IH0 by blast
  have IH5: "\<And>j. j \<notin> (\<lambda>i. bs ! i) ` set is \<Longrightarrow> gat' ! j = ?gat ! j"
    using IH0 by blast
  have IH6: "\<And>s. gat_of (contents f') s = gat_of (contents ?f) s"
    using IH0 by blast
  have IH7: "\<And>s b. b < GAT_NUMBER_ELEMENTS \<Longrightarrow> s \<noteq> sec \<or> b \<notin> (\<lambda>i. bs ! i) ` set is \<Longrightarrow>
          block (contents f') s b = block (contents ?f) s b"
    using IH0 by blast
  have notin: "?b \<notin> (\<lambda>i. bs ! i) ` set is" using inj by (metis imageE)
  have "gat' ! ?b = gati_of bs ! Suc i" using IH5 [OF notin] b Cons.prems(1) by simp
  moreover have "block (contents f') sec ?b = chunk mem i"
    using IH7 [of ?b sec] notin b len by (simp add: c block_overwrite_block)
  moreover have "block_pos sec ?b + MSG_BLOCK_SIZE \<le> length (contents f')" "length (contents f) \<le> length (contents f')"
    using IH(3) len by (simp_all add: c length_overwrite)
  moreover have "gat' ! j = gat ! j" if "j \<notin> (\<lambda>i. bs ! i) ` set (i # is)" for j
    using that IH5 [of j] by simp
  moreover have "block (contents f') s b = block (contents f) s b"
    if "b < GAT_NUMBER_ELEMENTS" "s \<noteq> sec \<or> b \<notin> (\<lambda>i. bs ! i) ` set (i # is)" for s b
    using that IH7 [of b s] b len by (auto simp: c block_overwrite_block)
  moreover have "gat_of (contents f') s = gat_of (contents f) s" for s
    using IH6 b len by (simp add: c gat_of_overwrite_block)
  ultimately show ?case using IH(1,2) IH4 by auto
qed


lemma unat_minus_one_u16 [simp]: "unat (- 1 :: u16) = 65535"
  by (simp add: unsigned_minus_1_eq_mask mask_eq_exp_minus_1)

lemma gat_chain_links:
  assumes "bs \<noteq> []" "\<And>b. b \<in> set bs \<Longrightarrow> 0 < b \<and> b < GAT_NUMBER_ELEMENTS"
    and "\<And>i. i < length bs \<Longrightarrow> gat ! (bs ! i) = gati_of bs ! Suc i"
  shows "gat_chain gat (hd bs) bs"
  using assms
proof (induction bs)
  case (Cons b bs)
  have next_b: "gat ! b = gati_of bs ! 0" using Cons.prems(3) [of 0] by simp
  show ?case
  proof (cases bs)
    case Nil
    then show ?thesis using next_b Cons.prems(2) [of b] by simp
  next
    case (Cons d ds)
    have "gat_chain gat (hd bs) bs"
    proof (rule Cons.IH)
      show "bs \<noteq> []" using Cons by simp
      show "0 < x \<and> x < GAT_NUMBER_ELEMENTS" if "x \<in> set bs" for x using that Cons.prems(2) by simp
      show "gat ! (bs ! i) = gati_of bs ! Suc i" if "i < length bs" for i
        using Cons.prems(3) [of "Suc i"] that by simp
    qed
    moreover have "unat (gat ! b) = hd bs"
      using next_b Cons Cons.prems(2) [of d] by (simp add: unat_block_number)
    ultimately show ?thesis using Cons.prems(2) [of b] by simp
  qed
qed simp

lemma gati_of_nonzero:
  assumes "\<And>b. b \<in> set bs \<Longrightarrow> 0 < b \<and> b < GAT_NUMBER_ELEMENTS" "i < length bs"
  shows "gati_of bs ! Suc i \<noteq> 0"
proof (cases "Suc i < length bs")
  case True
  then have "0 < bs ! Suc i \<and> bs ! Suc i < GAT_NUMBER_ELEMENTS" using assms(1) by simp
  then have "unat (word_of_nat (bs ! Suc i) :: u16) \<noteq> 0" by (simp add: unat_block_number)
  then have "word_of_nat (bs ! Suc i) \<noteq> (0 :: u16)" by auto
  with True show ?thesis by (simp add: nth_append)
next
  case False
  with assms(2) show ?thesis by (simp add: nth_append)
qed

text \<open>The C strings in the blocks, put together, are the text.\<close>

definition blocks_for :: "nat \<Rightarrow> nat" where
  "blocks_for n = (n + 511) div MSG_BLOCK_SIZE"

lemma blocks_for_index: "i < blocks_for n \<Longrightarrow> i * MSG_BLOCK_SIZE \<le> n"
proof -
  assume "i < blocks_for n"
  then have "Suc i \<le> (n + 511) div MSG_BLOCK_SIZE" by (simp add: blocks_for_def)
  then have "Suc i * MSG_BLOCK_SIZE \<le> n + 511" by (simp add: less_eq_div_iff_mult_less_eq)
  then show ?thesis by simp
qed

lemma blocks_for_covers: "n \<le> blocks_for n * MSG_BLOCK_SIZE"
proof -
  have "n + 511 < Suc ((n + 511) div MSG_BLOCK_SIZE) * MSG_BLOCK_SIZE"
    using dividend_less_div_times [of MSG_BLOCK_SIZE "n + 511"] by simp
  then show ?thesis by (simp add: blocks_for_def)
qed

lemma blocks_for_within: "blocks_for n * MSG_BLOCK_SIZE \<le> n + 511"
  by (simp add: blocks_for_def)

lemma blocks_for_pos: "0 < n \<Longrightarrow> 0 < blocks_for n"
  using blocks_for_covers [of n] by (cases "blocks_for n") auto

lemma c_str_chunk:
  assumes "NUL \<notin> set t" "i * MSG_BLOCK_SIZE \<le> length t"
  shows "c_str (chunk (t @ NUL # slack) i) = take MSG_BLOCK_SIZE (drop (i * MSG_BLOCK_SIZE) t)"
proof -
  let ?u = "drop (i * MSG_BLOCK_SIZE) t"
  have nul: "NUL \<notin> set ?u" using assms(1) by (auto dest: in_set_dropD)
  have chunk: "chunk (t @ NUL # slack) i = take MSG_BLOCK_SIZE (?u @ NUL # slack)"
    using assms(2) by (simp add: chunk_def)
  show ?thesis
  proof (cases "MSG_BLOCK_SIZE \<le> length ?u")
    case True
    then have "chunk (t @ NUL # slack) i = take MSG_BLOCK_SIZE ?u" unfolding chunk by simp
    with nul show ?thesis by (simp add: c_str_id [of "take MSG_BLOCK_SIZE ?u"] ) (metis c_str_id in_set_takeD)
  next
    case False
    then obtain k where "MSG_BLOCK_SIZE - length ?u = Suc k" by (metis Suc_diff_Suc not_le)
    then have "chunk (t @ NUL # slack) i = ?u @ NUL # take k slack" unfolding chunk using False by simp
    with nul False show ?thesis by (simp add: c_str_append_NUL)
  qed
qed

lemma concat_chunks: "concat (map (\<lambda>i. take k (drop (i * k) t)) [0..<n]) = take (n * k) t"
proof (induction n)
  case (Suc n)
  then show ?case by (simp add: take_add [symmetric] add.commute)
qed simp

lemma concat_c_str_chunks:
  assumes "NUL \<notin> set t"
  shows "concat (map (\<lambda>i. c_str (chunk (t @ NUL # slack) i)) [0..<blocks_for (length t)]) = t"
proof -
  let ?n = "blocks_for (length t)"
  have "i * MSG_BLOCK_SIZE \<le> length t" if "i < ?n" for i
    using that by (rule blocks_for_index)
  then have eq: "map (\<lambda>i. c_str (chunk (t @ NUL # slack) i)) [0..<?n]
      = map (\<lambda>i. take MSG_BLOCK_SIZE (drop (i * MSG_BLOCK_SIZE) t)) [0..<?n]"
    using assms by (intro map_cong) (auto simp: c_str_chunk)
  have "length t \<le> ?n * MSG_BLOCK_SIZE" by (rule blocks_for_covers)
  then show ?thesis unfolding eq by (simp add: concat_chunks)
qed

end
