(* ===== verification/Msg_Store.thy ===== *)
theory Msg_Store
  imports Msg_Gat
begin

text \<open>
  The \<open>.dat\<close> file as a finite map from \<open>stored_as\<close> values to texts: \<open>store_inv c M\<close> relates the
  bytes \<open>c\<close> of the file to the map \<open>M\<close>, and \<open>savefile\<close>, \<open>readfile\<close> and \<open>remove_link\<close> act on
  them as insertion of a fresh key, lookup and deletion. The locale \<open>text_store\<close> is this
  contract as the message area uses it, interpreted here on the operations of \<open>Msg_Gat\<close>.
\<close>

section \<open>Saving\<close>

text \<open>One step of the search over the sections.\<close>

lemma savefile_sections_step:
  assumes "sec < 1024" "load_gat f sec = (gat, f1)"
  shows "blocks_for n \<le> length (free_blocks gat) \<Longrightarrow> bs = take (blocks_for n) (free_blocks gat) \<Longrightarrow>
      savefile_blocks sec mem (gati_of bs) [0..<blocks_for n] gat f1 = (gat2, f2) \<Longrightarrow>
      savefile_sections n mem f sec gati = (sec, gati_of bs, save_gat f2 sec gat2)"
    and "\<not> blocks_for n \<le> length (free_blocks gat) \<Longrightarrow>
      \<exists>gati'. savefile_sections n mem f sec gati = savefile_sections n mem f1 (Suc sec) gati'"
  using assms savefile_scan_free [of gat "blocks_for n"]
  by (auto simp: savefile_sections.simps [of n mem f sec gati] blocks_for_def simp del: One_nat_def)

text \<open>
  What saving changed: the blocks \<open>bs\<close> of section \<open>s\<close> hold the chunks of \<open>mem\<close> and are linked,
  everything else reads as before.
\<close>

definition saved_in :: "bytes \<Rightarrow> bytes \<Rightarrow> nat \<Rightarrow> nat list \<Rightarrow> bytes \<Rightarrow> bool" where
  "saved_in c mem s bs c' \<longleftrightarrow> whole c' \<and> length c \<le> length c' \<and>
     (\<forall>i < length bs. gat_of c' s ! (bs ! i) = gati_of bs ! Suc i \<and> block c' s (bs ! i) = chunk mem i
        \<and> block_pos s (bs ! i) + MSG_BLOCK_SIZE \<le> length c') \<and>
     (\<forall>j. j \<notin> set bs \<longrightarrow> gat_of c' s ! j = gat_of c s ! j) \<and>
     (\<forall>r. r \<noteq> s \<longrightarrow> gat_of c' r = gat_of c r) \<and>
     (\<forall>r b. b < GAT_NUMBER_ELEMENTS \<longrightarrow> r \<noteq> s \<or> b \<notin> set bs \<longrightarrow> block c' r b = block c r b)"

lemma saved_in_here:
  assumes "load_gat f sec = (gat, f1)" "whole (contents f)"
    and bs: "bs = take (blocks_for n) (free_blocks gat)" and lbs: "length bs = blocks_for n"
    and sb: "savefile_blocks sec mem (gati_of bs) [0..<blocks_for n] gat f1 = (gat2, f2)"
    and mem: "blocks_for n * MSG_BLOCK_SIZE \<le> length mem"
  shows "saved_in (contents f) mem sec bs (contents (save_gat f2 sec gat2))"
proof -
  let ?c' = "contents (save_gat f2 sec gat2)"
  have gat: "gat = gat_of (contents f) sec"
    and same: "byte_at (contents f1) = byte_at (contents f)"
    and len1: "length (contents f) \<le> length (contents f1)" "sec * GATSECLEN + GAT_SECTION_SIZE \<le> length (contents f1)"
    and wh1: "whole (contents f1)"
    using load_gat_eq [OF assms(2), of sec] load_gat_whole [OF assms(2), of sec] by (simp_all add: assms(1))
  have d: "distinct bs" unfolding bs by (rule distinct_take) simp
  have bnd: "\<And>b. b \<in> set bs \<Longrightarrow> b < GAT_NUMBER_ELEMENTS"
    by (auto dest!: in_set_takeD simp: set_free_blocks bs)
  have lgat: "length gat = GAT_NUMBER_ELEMENTS" by (simp add: gat)
  have idx: "i < length bs \<and> Suc i * MSG_BLOCK_SIZE \<le> length mem" if "i \<in> set [0..<blocks_for n]" for i
  proof -
    have i: "i < blocks_for n" using that by simp
    then have "Suc i * MSG_BLOCK_SIZE \<le> blocks_for n * MSG_BLOCK_SIZE" by (intro mult_le_mono1) simp
    then show ?thesis using i lbs mem by linarith
  qed
  note B = savefile_blocks_eq [OF d bnd lgat wh1 distinct_upt idx sb]
  have img: "(\<lambda>i. bs ! i) ` set [0..<blocks_for n] = set bs"
    using nth_image [of "blocks_for n" bs] lbs by simp
  have g2: "length gat2 = GAT_NUMBER_ELEMENTS" and w2: "whole (contents f2)"
    and l2: "length (contents f1) \<le> length (contents f2)" using B by blast+
  note S = save_gat_eq [OF g2, where f = f2 and sec = sec]
  have wl: "whole ?c' \<and> length ?c' = length (contents f2)" using S(3) len1 l2 w2 by simp
  have "gat_of ?c' sec ! (bs ! i) = gati_of bs ! Suc i \<and> block ?c' sec (bs ! i) = chunk mem i
      \<and> block_pos sec (bs ! i) + MSG_BLOCK_SIZE \<le> length ?c'" if "i < length bs" for i
  proof -
    have i: "i \<in> set [0..<blocks_for n]" using that lbs by simp
    then have "gat2 ! (bs ! i) = gati_of bs ! Suc i" "block (contents f2) sec (bs ! i) = chunk mem i"
      "block_pos sec (bs ! i) + MSG_BLOCK_SIZE \<le> length (contents f2)" using B by blast+
    moreover have "bs ! i < GAT_NUMBER_ELEMENTS" using that by (intro bnd nth_mem)
    ultimately show ?thesis using S(1,2) wl by simp
  qed
  moreover have "gat_of ?c' sec ! j = gat_of (contents f) sec ! j" if "j \<notin> set bs" for j
  proof -
    have "gat2 ! j = gat ! j" using B that unfolding img by blast
    then show ?thesis using S(1) [where s = sec] by (simp add: gat)
  qed
  moreover have "gat_of ?c' r = gat_of (contents f) r" if "r \<noteq> sec" for r
  proof -
    have "gat_of (contents f2) r = gat_of (contents f1) r" using B by blast
    then show ?thesis using S(1) [where s = r] that gat_of_cong [OF same, of r] by simp
  qed
  moreover have "block ?c' r b = block (contents f) r b"
    if "b < GAT_NUMBER_ELEMENTS" "r \<noteq> sec \<or> b \<notin> set bs" for r b
  proof -
    have "block (contents f2) r b = block (contents f1) r b" using B that unfolding img by blast
    then show ?thesis using S(2) [OF that(1), where s = r] block_cong [OF same, of r b] by simp
  qed
  ultimately show ?thesis using wl len1 l2 unfolding saved_in_def by simp
qed

text \<open>The search ends in the first section with room, if one of the 1024 has it.\<close>

lemma savefile_sections_ok:
  assumes "whole (contents f)" "sec \<le> s" "s < 1024"
    and "blocks_for n \<le> length (free_blocks (gat_of (contents f) s))"
    and "blocks_for n * MSG_BLOCK_SIZE \<le> length mem"
  shows "\<exists>s' bs f'. savefile_sections n mem f sec gati = (s', gati_of bs, f') \<and> s' \<le> s
    \<and> bs = take (blocks_for n) (free_blocks (gat_of (contents f) s')) \<and> length bs = blocks_for n
    \<and> saved_in (contents f) mem s' bs (contents f')"
  using assms
proof (induction "s - sec" arbitrary: f sec gati)
  case (0 sec f gati)
  then have [simp]: "s = sec" by simp
  obtain gat f1 where lg: "load_gat f sec = (gat, f1)" by (cases "load_gat f sec")
  have gat: "gat = gat_of (contents f) sec" using load_gat_eq(1) [OF 0(2), of sec] by (simp add: lg)
  let ?bs = "take (blocks_for n) (free_blocks gat)"
  obtain gat2 f2 where sb: "savefile_blocks sec mem (gati_of ?bs) [0..<blocks_for n] gat f1 = (gat2, f2)"
    by (cases "savefile_blocks sec mem (gati_of ?bs) [0..<blocks_for n] gat f1")
  have room: "blocks_for n \<le> length (free_blocks gat)" using 0 gat by simp
  then have "length ?bs = blocks_for n" by simp
  with saved_in_here [OF lg 0(2) refl _ sb 0(6)] room sb lg 0(4) gat show ?case
    by (intro exI conjI) (rule savefile_sections_step(1) [OF _ lg], simp_all)
next
  case (Suc k sec f gati)
  obtain gat f1 where lg: "load_gat f sec = (gat, f1)" by (cases "load_gat f sec")
  have gat: "gat = gat_of (contents f) sec"
    and same: "byte_at (contents f1) = byte_at (contents f)"
    and len1: "length (contents f) \<le> length (contents f1)"
    and wh1: "whole (contents f1)"
    using load_gat_eq [OF Suc.prems(1), of sec] load_gat_whole [OF Suc.prems(1), of sec] by (simp_all add: lg)
  have cong: "gat_of (contents f1) = gat_of (contents f)" "block (contents f1) = block (contents f)"
    using gat_of_cong [OF same] block_cong [OF same] by (simp_all add: fun_eq_iff)
  have sec: "sec < 1024" using Suc.prems by simp
  show ?case
  proof (cases "blocks_for n \<le> length (free_blocks gat)")
    case True
    let ?bs = "take (blocks_for n) (free_blocks gat)"
    obtain gat2 f2 where sb: "savefile_blocks sec mem (gati_of ?bs) [0..<blocks_for n] gat f1 = (gat2, f2)"
      by (cases "savefile_blocks sec mem (gati_of ?bs) [0..<blocks_for n] gat f1")
    have "length ?bs = blocks_for n" using True by simp
    with saved_in_here [OF lg Suc.prems(1) refl _ sb Suc.prems(5)] True sb lg Suc.prems(2) gat sec show ?thesis
      by (intro exI conjI) (rule savefile_sections_step(1) [OF _ lg], simp_all)
  next
    case False
    then obtain gati' where step: "savefile_sections n mem f sec gati = savefile_sections n mem f1 (Suc sec) gati'"
      using savefile_sections_step(2) [OF sec lg] by blast
    have "\<exists>s' bs f'. savefile_sections n mem f1 (Suc sec) gati' = (s', gati_of bs, f') \<and> s' \<le> s
      \<and> bs = take (blocks_for n) (free_blocks (gat_of (contents f1) s')) \<and> length bs = blocks_for n
      \<and> saved_in (contents f1) mem s' bs (contents f')"
      using Suc.hyps(2) Suc.prems wh1 by (intro Suc.hyps(1)) (auto simp: cong)
    then show ?thesis
      unfolding step cong saved_in_def using len1 by fastforce
  qed
qed

section \<open>The abstract store\<close>

abbreviation section_of :: "u32 \<Rightarrow> nat" where
  "section_of k \<equiv> unat k div GAT_NUMBER_ELEMENTS"

text \<open>Key \<open>k\<close> holds text \<open>t\<close> in the blocks \<open>bs\<close>.\<close>

definition entry :: "bytes \<Rightarrow> u32 \<Rightarrow> string \<Rightarrow> nat list \<Rightarrow> bool" where
  "entry c k t bs \<longleftrightarrow> section_of k < 1024 \<and> bs \<noteq> [] \<and> length bs = blocks_for (length t)
     \<and> gat_chain (gat_of c (section_of k)) (unat k mod GAT_NUMBER_ELEMENTS) bs
     \<and> (\<forall>b \<in> set bs. gat_of c (section_of k) ! b \<noteq> 0
          \<and> block_pos (section_of k) b + MSG_BLOCK_SIZE \<le> length c)
     \<and> t = concat (map (\<lambda>b. c_str (block c (section_of k) b)) bs)"

definition store_rel :: "bytes \<Rightarrow> (u32 \<rightharpoonup> string) \<Rightarrow> (u32 \<Rightarrow> nat list) \<Rightarrow> bool" where
  "store_rel c M B \<longleftrightarrow> (\<forall>k t. M k = Some t \<longrightarrow> entry c k t (B k))
     \<and> (\<forall>k \<in> dom M. \<forall>k' \<in> dom M. k \<noteq> k' \<longrightarrow> section_of k = section_of k' \<longrightarrow>
          set (B k) \<inter> set (B k') = {})"

definition store_inv :: "bytes \<Rightarrow> (u32 \<rightharpoonup> string) \<Rightarrow> bool" where
  "store_inv c M \<longleftrightarrow> whole c \<and> (\<exists>B. store_rel c M B)"

text \<open>Some section has the blocks for a text of \<open>n\<close> bytes.\<close>

definition has_room :: "bytes \<Rightarrow> nat \<Rightarrow> bool" where
  "has_room c n \<longleftrightarrow> (\<exists>s < 1024. blocks_for n \<le> length (free_blocks (gat_of c s)))"

lemma store_inv_empty: "whole c \<Longrightarrow> store_inv c Map.empty"
  by (simp add: store_inv_def store_rel_def)

lemma entry_blocks: "entry c k t bs \<Longrightarrow> b \<in> set bs \<Longrightarrow> 0 < b \<and> b < GAT_NUMBER_ELEMENTS"
  by (auto simp: entry_def dest: gat_chain_blocks)

lemma entry_head: "entry c k t bs \<Longrightarrow> unat k mod GAT_NUMBER_ELEMENTS \<in> set bs"
  by (cases bs) (auto simp: entry_def)

lemma entry_frame:
  assumes e: "entry c k t bs" and len: "length c \<le> length c'"
    and gat: "\<And>b. b \<in> set bs \<Longrightarrow> gat_of c' (section_of k) ! b = gat_of c (section_of k) ! b"
    and blk: "\<And>b. b \<in> set bs \<Longrightarrow> block c' (section_of k) b = block c (section_of k) b"
  shows "entry c' k t bs"
proof -
  have "gat_chain (gat_of c' (section_of k)) (unat k mod GAT_NUMBER_ELEMENTS) bs"
  proof (rule gat_chain_cong)
    show "gat_chain (gat_of c (section_of k)) (unat k mod GAT_NUMBER_ELEMENTS) bs"
      using e by (simp add: entry_def)
  qed (rule gat)
  moreover have eq: "map (\<lambda>b. c_str (block c' (section_of k) b)) bs = map (\<lambda>b. c_str (block c (section_of k) b)) bs"
    using blk by simp
  moreover have "gat_of c' (section_of k) ! b \<noteq> 0
      \<and> block_pos (section_of k) b + MSG_BLOCK_SIZE \<le> length c'" if "b \<in> set bs" for b
  proof -
    have "gat_of c (section_of k) ! b \<noteq> 0" "block_pos (section_of k) b + MSG_BLOCK_SIZE \<le> length c"
      using e that unfolding entry_def by blast+
    then show ?thesis using gat [OF that] len by simp
  qed
  ultimately show ?thesis using e unfolding entry_def eq by blast
qed

text \<open>A saved text is an entry of the new file.\<close>

lemma saved_in_entry:
  assumes s: "saved_in c (t @ NUL # slack) s bs c'" and k: "section_of k = s" "unat k mod GAT_NUMBER_ELEMENTS = hd bs"
    and bs: "bs = take (blocks_for (length t)) (free_blocks (gat_of c s))" "length bs = blocks_for (length t)"
    and t: "t \<noteq> []" "NUL \<notin> set t" and "s < 1024"
  shows "entry c' k t bs"
proof -
  have b: "0 < b \<and> b < GAT_NUMBER_ELEMENTS" if "b \<in> set bs" for b
    using that unfolding bs(1) by (auto dest!: in_set_takeD simp: set_free_blocks)
  have ne: "bs \<noteq> []" using blocks_for_pos [of "length t"] t(1) bs(2) by auto
  have links: "\<And>i. i < length bs \<Longrightarrow> gat_of c' s ! (bs ! i) = gati_of bs ! Suc i
      \<and> block c' s (bs ! i) = chunk (t @ NUL # slack) i \<and> block_pos s (bs ! i) + MSG_BLOCK_SIZE \<le> length c'"
    using s unfolding saved_in_def by blast
  have chain: "gat_chain (gat_of c' s) (hd bs) bs"
    using links by (intro gat_chain_links [OF ne]) (auto dest: b)
  have nz: "gat_of c' s ! b \<noteq> 0 \<and> block_pos s b + MSG_BLOCK_SIZE \<le> length c'" if "b \<in> set bs" for b
  proof -
    obtain i where i: "i < length bs" "b = bs ! i" using \<open>b \<in> set bs\<close> by (metis in_set_conv_nth)
    have "gati_of bs ! Suc i \<noteq> 0" using b i(1) by (rule gati_of_nonzero)
    with links [OF i(1)] i(2) show ?thesis by simp
  qed
  have "map (\<lambda>b. c_str (block c' s b)) bs = map (\<lambda>i. c_str (chunk (t @ NUL # slack) i)) [0..<blocks_for (length t)]"
    by (rule nth_equalityI) (use links bs(2) in auto)
  with concat_c_str_chunks [OF t(2), of slack]
  have "t = concat (map (\<lambda>b. c_str (block c' s b)) bs)" by simp
  with ne chain nz bs(2) \<open>s < 1024\<close> show ?thesis unfolding entry_def k by simp
qed

section \<open>The operations on the abstract store\<close>

lemma saved_key:
  assumes "s < 1024" "b < GAT_NUMBER_ELEMENTS"
  defines "k \<equiv> word_of_nat (unat (word_of_nat b :: u16)) + word_of_nat s * word_of_nat GAT_NUMBER_ELEMENTS :: u32"
  shows "section_of k = s" "unat k mod GAT_NUMBER_ELEMENTS = b"
proof -
  have "unat k = b + s * GAT_NUMBER_ELEMENTS"
  proof -
    have k: "k = word_of_nat (b + s * GAT_NUMBER_ELEMENTS)"
      using assms(2) by (simp add: k_def unat_block_number)
    have "b + s * GAT_NUMBER_ELEMENTS < 2 ^ 32" using assms(1,2) by simp
    then show ?thesis unfolding k unat_of_nat by simp
  qed
  then show "section_of k = s" "unat k mod GAT_NUMBER_ELEMENTS = b" using assms(2) by simp_all
qed

lemma savefile_store:
  assumes inv: "store_inv (contents f) M" and t: "t \<noteq> []" "NUL \<notin> set t"
    and slack: "510 \<le> length slack" and room: "has_room (contents f) (length t)"
  shows "\<exists>k f'. savefile t slack msg (Some f) = Inr (msg\<lparr>stored_as := k\<rparr>, f')
    \<and> M k = None \<and> store_inv (contents f') (M(k \<mapsto> t))"
proof -
  let ?c = "contents f" and ?mem = "t @ NUL # slack"
  obtain B where wh: "whole ?c" and rel: "store_rel ?c M B" using inv by (auto simp: store_inv_def)
  obtain s0 where s0: "s0 < 1024" "blocks_for (length t) \<le> length (free_blocks (gat_of ?c s0))"
    using room by (auto simp: has_room_def)
  have mem: "blocks_for (length t) * MSG_BLOCK_SIZE \<le> length ?mem"
    using blocks_for_within [of "length t"] slack by simp
  obtain s bs f' where sv: "savefile_sections (length t) ?mem f 0 [] = (s, gati_of bs, f')" and "s \<le> s0"
    and bs: "bs = take (blocks_for (length t)) (free_blocks (gat_of ?c s))" "length bs = blocks_for (length t)"
    and saved: "saved_in ?c ?mem s bs (contents f')"
    using savefile_sections_ok [OF wh _ s0(1,2) mem, where sec = 0 and gati = "[]"] by auto
  have s: "s < 1024" using \<open>s \<le> s0\<close> s0(1) by simp
  obtain b bs' where bs_eq: "bs = b # bs'"
    using bs(2) blocks_for_pos [of "length t"] t(1) by (cases bs) auto
  have free: "0 < x \<and> x < GAT_NUMBER_ELEMENTS \<and> gat_of ?c s ! x = 0" if "x \<in> set bs" for x
    using that unfolding bs(1) by (auto dest!: in_set_takeD simp: set_free_blocks)
  have b: "b < GAT_NUMBER_ELEMENTS" using free [of b] bs_eq by simp
  define k :: u32 where "k = word_of_nat (unat (word_of_nat b :: u16)) + word_of_nat s * word_of_nat GAT_NUMBER_ELEMENTS"
  have key: "section_of k = s" "unat k mod GAT_NUMBER_ELEMENTS = b"
    unfolding k_def by (rule saved_key [OF s b])+
  have run: "savefile t slack msg (Some f) = Inr (msg\<lparr>stored_as := k\<rparr>, f')"
    using sv by (simp add: savefile_def bs_eq k_def)
  have apart: "set (B k') \<inter> set bs = {}" if "M k' = Some t'" "section_of k' = s" for k' t'
  proof -
    have "entry ?c k' t' (B k')" using rel that(1) unfolding store_rel_def by blast
    then have "\<forall>x \<in> set (B k'). gat_of ?c s ! x \<noteq> 0" using that(2) by (simp add: entry_def)
    with free show ?thesis by blast
  qed
  have fresh: "M k = None"
  proof (rule ccontr)
    assume "M k \<noteq> None"
    then obtain t' where t': "M k = Some t'" by auto
    then have "entry ?c k t' (B k)" using rel unfolding store_rel_def by blast
    then have "b \<in> set (B k)" using entry_head key(2) by metis
    moreover have "b \<in> set bs" by (simp add: bs_eq)
    ultimately show False using apart [OF t' key(1)] by blast
  qed
  have old: "entry (contents f') k' t' (B k')" if "M k' = Some t'" for k' t'
  proof (rule entry_frame)
    show e: "entry ?c k' t' (B k')" using rel that unfolding store_rel_def by blast
    show "length ?c \<le> length (contents f')" using saved unfolding saved_in_def by blast
    fix x assume x: "x \<in> set (B k')"
    then have out: "section_of k' \<noteq> s \<or> x \<notin> set bs" using apart [OF that] by blast
    then show "gat_of (contents f') (section_of k') ! x = gat_of ?c (section_of k') ! x"
      using saved unfolding saved_in_def by metis
    show "block (contents f') (section_of k') x = block ?c (section_of k') x"
      using saved out entry_blocks [OF e x] unfolding saved_in_def by blast
  qed
  have new: "entry (contents f') k t bs"
    by (rule saved_in_entry [OF saved key(1) _ bs t s]) (simp only: key(2) bs_eq list.sel)
  have "store_rel (contents f') (M(k \<mapsto> t)) (B(k := bs))"
    unfolding store_rel_def
  proof (intro conjI allI impI ballI)
    fix k' t' assume "(M(k \<mapsto> t)) k' = Some t'"
    then show "entry (contents f') k' t' ((B(k := bs)) k')"
      using new old by (cases "k' = k") auto
  next
    fix k1 k2 assume "k1 \<in> dom (M(k \<mapsto> t))" "k2 \<in> dom (M(k \<mapsto> t))" "k1 \<noteq> k2" "section_of k1 = section_of k2"
    then have doms: "k1 = k \<or> k1 \<in> dom M" "k2 = k \<or> k2 \<in> dom M"
      and ne: "k1 \<noteq> k2" and sec: "section_of k1 = section_of k2" by auto
    consider "k1 = k" "k2 \<noteq> k" | "k1 \<noteq> k" "k2 = k" | "k1 \<noteq> k" "k2 \<noteq> k" using ne by blast
    then show "set ((B(k := bs)) k1) \<inter> set ((B(k := bs)) k2) = {}"
    proof cases
      case 1
      then obtain t2 where "M k2 = Some t2" using doms(2) by blast
      from apart [OF this] 1 sec key(1) show ?thesis by auto
    next
      case 2
      then obtain t1 where "M k1 = Some t1" using doms(1) by blast
      from apart [OF this] 2 sec key(1) show ?thesis by auto
    next
      case 3
      then have "set (B k1) \<inter> set (B k2) = {}"
        using rel doms ne sec unfolding store_rel_def by blast
      with 3 show ?thesis by simp
    qed
  qed
  moreover have "whole (contents f')" using saved unfolding saved_in_def by blast
  ultimately show ?thesis using run fresh unfolding store_inv_def by blast
qed

lemma store_inv_cong:
  assumes "store_inv c M" "byte_at c' = byte_at c" "length c \<le> length c'" "whole c'"
  shows "store_inv c' M"
proof -
  obtain B where rel: "store_rel c M B" using assms(1) by (auto simp: store_inv_def)
  have "entry c' k t (B k)" if "M k = Some t" for k t
  proof (rule entry_frame)
    show "entry c k t (B k)" using rel that unfolding store_rel_def by blast
  qed (simp_all add: assms(3) gat_of_cong [OF assms(2)] block_cong [OF assms(2)])
  with rel have "store_rel c' M B" unfolding store_rel_def by blast
  with assms(4) show ?thesis unfolding store_inv_def by blast
qed

lemma store_inv_load_gat:
  assumes "store_inv (contents f) M" "load_gat f sec = (gat, f1)"
  shows "store_inv (contents f1) M" and "gat = gat_of (contents f1) sec"
    and "byte_at (contents f1) = byte_at (contents f)"
    and "sec * GATSECLEN + GAT_SECTION_SIZE \<le> length (contents f1)"
proof -
  have w: "whole (contents f)" using assms(1) by (simp add: store_inv_def)
  note L = load_gat_eq [OF w, of sec, unfolded assms(2) fst_conv snd_conv]
  have w1: "whole (contents f1)" using load_gat_whole [OF w, of sec] by (simp add: assms(2))
  show "byte_at (contents f1) = byte_at (contents f)" by (rule L(2))
  show "store_inv (contents f1) M"
    by (rule store_inv_cong [OF assms(1) L(2) _ w1]) (simp add: L(3))
  show "gat = gat_of (contents f1) sec" using L(1) gat_of_cong [OF L(2), of sec] by simp
  show "sec * GATSECLEN + GAT_SECTION_SIZE \<le> length (contents f1)" by (simp add: L(3))
qed

lemma readfile_store:
  assumes inv: "store_inv (contents f) M" and M: "M (stored_as msg) = Some t"
  shows "\<exists>f'. readfile msg (Some f) = Some (Inr (True, cz_trim t, Some f')) \<and> store_inv (contents f') M"
proof -
  let ?k = "stored_as msg"
  obtain gat f1 where lg: "load_gat f (section_of ?k) = (gat, f1)"
    by (cases "load_gat f (section_of ?k)")
  note L = store_inv_load_gat [OF inv lg]
  obtain B where "store_rel (contents f1) M B" using L(1) by (auto simp: store_inv_def)
  then have e: "entry (contents f1) ?k t (B ?k)" using M unfolding store_rel_def by blast
  have "readfile_loop (section_of ?k) gat (unat ?k mod GAT_NUMBER_ELEMENTS) f1 []
    = Some (Inr ([] @ concat (map (\<lambda>b. c_str (block (contents f1) (section_of ?k) b)) (B ?k))))"
    by (rule readfile_loop_chain) (use e in \<open>auto simp: entry_def L(2)\<close>)
  also have "\<dots> = Some (Inr t)" using e unfolding entry_def by simp
  finally show ?thesis using L(1) by (simp add: readfile_def lg Let_def)
qed

text \<open>Removing a text frees its blocks, so a text that needs no more of them fits again.\<close>

lemma remove_link_store:
  assumes inv: "store_inv (contents f) M" and M: "M (stored_as msg) = Some t"
  shows "\<exists>f'. remove_link msg (Some f) = Inr f' \<and> store_inv (contents f') (M(stored_as msg := None))
    \<and> has_room (contents f') (length t)"
proof -
  define k where "k = stored_as msg"
  define s where "s = section_of k"
  obtain gat f1 where lg: "load_gat f s = (gat, f1)" by (cases "load_gat f s")
  note L = store_inv_load_gat [OF inv lg]
  obtain B where wh: "whole (contents f1)" and rel: "store_rel (contents f1) M B"
    using L(1) by (auto simp: store_inv_def)
  then have e: "entry (contents f1) k t (B k)" using M unfolding store_rel_def k_def by blast
  then have chain: "gat_chain gat (unat k mod GAT_NUMBER_ELEMENTS) (B k)" and s: "s < 1024"
    and lB: "length (B k) = blocks_for (length t)" by (simp_all add: entry_def L(2) s_def)
  have lgat: "length gat = GAT_NUMBER_ELEMENTS" by (simp add: L(2))
  define gat' where "gat' = remove_link_loop gat (unat k mod GAT_NUMBER_ELEMENTS)"
  define f' where "f' = save_gat f1 s gat'"
  have lgat': "length gat' = GAT_NUMBER_ELEMENTS" by (simp add: gat'_def lgat)
  have gat': "gat' ! j = (if j \<in> set (B k) then 0 else gat ! j)" if "j < GAT_NUMBER_ELEMENTS" for j
    unfolding gat'_def using chain lgat gat_chain_distinct [OF chain] that by (rule remove_link_loop_chain)
  have run: "remove_link msg (Some f) = Inr f'"
    using lg by (simp add: remove_link_def Let_def f'_def gat'_def s_def k_def)
  note S = save_gat_eq [OF lgat', where f = f1 and sec = s, folded f'_def]
  have wl: "whole (contents f')" "length (contents f') = length (contents f1)"
    using S(3) [OF L(4) wh] by simp_all
  have others: "entry (contents f') k' t' (B k')" if "M k' = Some t'" "k' \<noteq> k" for k' t'
  proof (rule entry_frame)
    show e': "entry (contents f1) k' t' (B k')" using rel that unfolding store_rel_def by blast
    show "length (contents f1) \<le> length (contents f')" by (simp add: wl)
    fix b assume b: "b \<in> set (B k')"
    then have lb: "b < GAT_NUMBER_ELEMENTS" using entry_blocks [OF e'] by blast
    then show "block (contents f') (section_of k') b = block (contents f1) (section_of k') b" by (rule S(2))
    have apart: "b \<notin> set (B k)" if "section_of k' = s"
    proof -
      have "k' \<in> dom M" "k \<in> dom M" using \<open>M k' = Some t'\<close> M by (auto simp: k_def)
      then have "set (B k') \<inter> set (B k) = {}"
        using rel \<open>k' \<noteq> k\<close> that unfolding store_rel_def s_def by blast
      with b show ?thesis by blast
    qed
    show "gat_of (contents f') (section_of k') ! b = gat_of (contents f1) (section_of k') ! b"
      using apart gat' [OF lb] S(1) [where s = "section_of k'"] L(2) by simp
  qed
  have "store_rel (contents f') (M(k := None)) B"
    unfolding store_rel_def
  proof (intro conjI allI impI ballI)
    fix k' t' assume "(M(k := None)) k' = Some t'"
    then show "entry (contents f') k' t' (B k')" by (intro others) (auto split: if_splits)
  next
    fix k1 k2 assume "k1 \<in> dom (M(k := None))" "k2 \<in> dom (M(k := None))" "k1 \<noteq> k2" "section_of k1 = section_of k2"
    then show "set (B k1) \<inter> set (B k2) = {}" using rel unfolding store_rel_def by auto
  qed
  then have inv': "store_inv (contents f') (M(k := None))" using wl unfolding store_inv_def by blast
  have "set (B k) \<subseteq> set (free_blocks (gat_of (contents f') s))"
  proof
    fix b assume b: "b \<in> set (B k)"
    have lb: "0 < b \<and> b < GAT_NUMBER_ELEMENTS" using entry_blocks [OF e b] .
    then have "gat' ! b = 0" using gat' [of b] b by simp
    then show "b \<in> set (free_blocks (gat_of (contents f') s))" using lb S(1) [where s = s] by (simp add: set_free_blocks)
  qed
  then have "card (set (B k)) \<le> card (set (free_blocks (gat_of (contents f') s)))" by (intro card_mono) simp_all
  then have "blocks_for (length t) \<le> length (free_blocks (gat_of (contents f') s))"
    using lB by (simp add: distinct_card gat_chain_distinct [OF chain])
  then have "has_room (contents f') (length t)" unfolding has_room_def using s by blast
  with run inv' show ?thesis by (auto simp: k_def)
qed

section \<open>The contract of a text store\<close>

locale text_store =
  fixes inv :: "'f \<Rightarrow> ('k \<rightharpoonup> 'v) \<Rightarrow> bool"
    and room :: "'f \<Rightarrow> 'v \<Rightarrow> bool"
    and storable :: "'v \<Rightarrow> bool"
    and trim :: "'v \<Rightarrow> 'v"
    and save :: "'v \<Rightarrow> 'f \<Rightarrow> ('k \<times> 'f) option"
    and load :: "'k \<Rightarrow> 'f \<Rightarrow> ('v \<times> 'f) option"
    and remove :: "'k \<Rightarrow> 'f \<Rightarrow> 'f option"
  assumes save: "inv f M \<Longrightarrow> storable t \<Longrightarrow> room f t \<Longrightarrow>
      \<exists>k f'. save t f = Some (k, f') \<and> M k = None \<and> inv f' (M(k \<mapsto> t))"
    and load: "inv f M \<Longrightarrow> M k = Some t \<Longrightarrow> \<exists>f'. load k f = Some (trim t, f') \<and> inv f' M"
    and remove: "inv f M \<Longrightarrow> M k = Some t \<Longrightarrow>
      \<exists>f'. remove k f = Some f' \<and> inv f' (M(k := None)) \<and> room f' t"
begin

lemma save_fresh: "inv f M \<Longrightarrow> storable t \<Longrightarrow> room f t \<Longrightarrow> save t f = Some (k, f') \<Longrightarrow> M k = None"
  using save by fastforce

lemma save_load:
  assumes "inv f M" "storable t" "room f t" "save t f = Some (k, f')"
  shows "\<exists>f''. load k f' = Some (trim t, f'') \<and> inv f'' (M(k \<mapsto> t))"
  using save [OF assms(1-3)] assms(4) load [of f' "M(k \<mapsto> t)" k t] by auto

lemma save_load_other:
  assumes "inv f M" "storable t" "room f t" "save t f = Some (k, f')" "M k' = Some t'"
  shows "\<exists>f''. load k' f' = Some (trim t', f'') \<and> inv f'' (M(k \<mapsto> t))"
proof -
  have "M k = None" "inv f' (M(k \<mapsto> t))" using save [OF assms(1-3)] assms(4) by auto
  moreover from this assms(5) have "(M(k \<mapsto> t)) k' = Some t'" by auto
  ultimately show ?thesis by (intro load) auto
qed

lemma remove_load_other:
  assumes "inv f M" "M k = Some t" "M k' = Some t'" "k \<noteq> k'" "remove k f = Some f'"
  shows "\<exists>f''. load k' f' = Some (trim t', f'') \<and> inv f'' (M(k := None))"
proof -
  have "inv f' (M(k := None))" using remove [OF assms(1,2)] assms(5) by auto
  with assms(3,4) show ?thesis by (intro load) auto
qed

text \<open>Saving a text and removing it again leaves a store with the same texts.\<close>

lemma save_remove:
  assumes "inv f M" "storable t" "room f t" "save t f = Some (k, f')"
  shows "\<exists>f''. remove k f' = Some f'' \<and> inv f'' M \<and> room f'' t"
proof -
  have "M k = None" "inv f' (M(k \<mapsto> t))" using save [OF assms(1-3)] assms(4) by auto
  moreover have "(M(k \<mapsto> t))(k := None) = M" using \<open>M k = None\<close> by auto
  ultimately show ?thesis using remove [of f' "M(k \<mapsto> t)" k t] by auto
qed

text \<open>Texts come back as long as the ones saved after a removal are not longer.\<close>

lemma remove_save:
  assumes "inv f M" "M k = Some t" "remove k f = Some f'" "storable t"
  shows "\<exists>k' f''. save t f' = Some (k', f'') \<and> inv f'' (M(k := None, k' \<mapsto> t))"
proof -
  have "inv f' (M(k := None))" "room f' t" using remove [OF assms(1,2)] assms(3) by auto
  then show ?thesis using save [OF _ assms(4)] by blast
qed

end

text \<open>The operations as the message area calls them, on an open file.\<close>

definition type2 :: "u32 \<Rightarrow> messagerec" where
  "type2 k = \<lparr>storage_type = 2, stored_as = k\<rparr>"

definition store_save :: "bytes \<Rightarrow> string \<Rightarrow> wfile \<Rightarrow> (u32 \<times> wfile) option" where
  "store_save slack t f = (case savefile t slack (type2 0xFFFFFF) (Some f) of
     Inl _ \<Rightarrow> None | Inr (m, f') \<Rightarrow> Some (stored_as m, f'))"

definition store_load :: "u32 \<Rightarrow> wfile \<Rightarrow> (string \<times> wfile) option" where
  "store_load k f = (case readfile (type2 k) (Some f) of
     Some (Inr (True, t, Some f')) \<Rightarrow> Some (t, f') | _ \<Rightarrow> None)"

definition store_remove :: "u32 \<Rightarrow> wfile \<Rightarrow> wfile option" where
  "store_remove k f = (case remove_link (type2 k) (Some f) of Inl _ \<Rightarrow> None | Inr f' \<Rightarrow> Some f')"

definition storable_text :: "bytes \<Rightarrow> string \<Rightarrow> bool" where
  "storable_text slack t \<longleftrightarrow> t \<noteq> [] \<and> NUL \<notin> set t \<and> 510 \<le> length slack"

interpretation gat_store: text_store
  "\<lambda>f. store_inv (contents f)" "\<lambda>f t. has_room (contents f) (length t)" "storable_text slack"
  cz_trim "store_save slack" store_load store_remove
  for slack
proof unfold_locales
  show "\<exists>k f'. store_save slack t f = Some (k, f') \<and> M k = None \<and> store_inv (contents f') (M(k \<mapsto> t))"
    if "store_inv (contents f) M" "storable_text slack t" "has_room (contents f) (length t)" for f M t
    using savefile_store [OF that(1) _ _ _ that(3), of slack "type2 0xFFFFFF"] that(2)
    by (auto simp: store_save_def storable_text_def)
  show "\<exists>f'. store_load k f = Some (cz_trim t, f') \<and> store_inv (contents f') M"
    if "store_inv (contents f) M" "M k = Some t" for f M k t
    using readfile_store [OF that(1), of "type2 k" t] that(2) by (auto simp: store_load_def type2_def)
  show "\<exists>f'. store_remove k f = Some f' \<and> store_inv (contents f') (M(k := None)) \<and> has_room (contents f') (length t)"
    if "store_inv (contents f) M" "M k = Some t" for f M k t
    using remove_link_store [OF that(1), of "type2 k" t] that(2) by (auto simp: store_remove_def type2_def)
qed

end
