(* ===== verification/Msg_Area.thy ===== *)
theory Msg_Area
  imports Msg_Store
begin

text \<open>
  A message area (\<open>sdk/msgapi/message_area_wwiv.cpp\<close>, \<open>message_wwiv.cpp\<close> and the records of
  \<open>sdk/vardec.h\<close>): the \<open>.sub\<close> file is an array of 100-byte records, the first the area's
  header, the others the posts; each post names its text in the \<open>.dat\<close> file (\<open>Msg_Store\<close>).

  The state of an area is what the two files hold (\<open>None\<close> for a file that cannot be opened),
  every operation opens and closes them itself. Records the code reads into an uninitialised
  variable without testing the result of \<open>Read\<close> are \<open>UndefinedBehaviour\<close> when the read is short.

  \<open>area_inv\<close> says which list of posts with their texts the files hold; \<open>AddMessage\<close> appends
  to it, \<open>ReadMessage\<close> looks it up and \<open>DeleteMessage\<close> removes from it.
\<close>

section \<open>Records\<close>

record postrec =
  title :: bytes
  padding_from_title :: bytes
  network :: bytes
  anony :: u8
  post_status :: u8
  ownersys :: u16
  owneruser :: u16
  qscan :: u32
  daten :: u32
  post_msg :: messagerec

definition enc_postrec :: "postrec \<Rightarrow> bytes" where
  "enc_postrec p = title p @ padding_from_title p @ network p @ enc_u8 (anony p) @ enc_u8 (post_status p)
     @ enc_u16 (ownersys p) @ enc_u16 (owneruser p) @ enc_u32 (qscan p) @ enc_u32 (daten p)
     @ enc_u8 (storage_type (post_msg p)) @ enc_u32 (stored_as (post_msg p))"

definition dec_postrec :: "bytes \<Rightarrow> postrec" where
  "dec_postrec b =
     \<lparr>title = read_at 0 72 b, padding_from_title = read_at 72 6 b, network = read_at 78 3 b,
      anony = dec_u8 (read_at 81 1 b), post_status = dec_u8 (read_at 82 1 b),
      ownersys = dec_u16 (read_at 83 2 b), owneruser = dec_u16 (read_at 85 2 b),
      qscan = dec_u32 (read_at 87 4 b), daten = dec_u32 (read_at 91 4 b),
      post_msg = \<lparr>storage_type = dec_u8 (read_at 95 1 b), stored_as = dec_u32 (read_at 96 4 b)\<rparr>\<rparr>"

definition valid_postrec :: "postrec \<Rightarrow> bool" where
  "valid_postrec p \<longleftrightarrow> length (title p) = 72 \<and> length (padding_from_title p) = 6 \<and> length (network p) = 3"

record subfile_header =
  signature :: bytes
  wwiv_version :: u16
  revision :: u32
  daten_created :: u32
  unused_padding_for_64bit_time_t :: u32
  mod_count :: u32
  unused_padding_for_64bit_mod_count :: u32
  password_crc32 :: u32
  base_message_num :: u32
  padding_1 :: bytes
  active_message_count :: u32
  padding_2 :: bytes

definition enc_subfile_header :: "subfile_header \<Rightarrow> bytes" where
  "enc_subfile_header h = signature h @ enc_u16 (wwiv_version h) @ enc_u32 (revision h)
     @ enc_u32 (daten_created h) @ enc_u32 (unused_padding_for_64bit_time_t h) @ enc_u32 (mod_count h)
     @ enc_u32 (unused_padding_for_64bit_mod_count h) @ enc_u32 (password_crc32 h)
     @ enc_u32 (base_message_num h) @ padding_1 h @ enc_u32 (active_message_count h) @ padding_2 h"

definition dec_subfile_header :: "bytes \<Rightarrow> subfile_header" where
  "dec_subfile_header b =
     \<lparr>signature = read_at 0 6 b, wwiv_version = dec_u16 (read_at 6 2 b), revision = dec_u32 (read_at 8 4 b),
      daten_created = dec_u32 (read_at 12 4 b), unused_padding_for_64bit_time_t = dec_u32 (read_at 16 4 b),
      mod_count = dec_u32 (read_at 20 4 b), unused_padding_for_64bit_mod_count = dec_u32 (read_at 24 4 b),
      password_crc32 = dec_u32 (read_at 28 4 b), base_message_num = dec_u32 (read_at 32 4 b),
      padding_1 = read_at 36 49 b, active_message_count = dec_u32 (read_at 85 4 b), padding_2 = read_at 89 11 b\<rparr>"

definition valid_subfile_header :: "subfile_header \<Rightarrow> bool" where
  "valid_subfile_header h \<longleftrightarrow> length (signature h) = 6 \<and> length (padding_1 h) = 49 \<and> length (padding_2 h) = 11"

lemma enc_dec_postrec: "length b = 100 \<Longrightarrow> enc_postrec (dec_postrec b) = b"
  by (simp add: enc_postrec_def dec_postrec_def enc_dec_u8 enc_dec_u16 enc_dec_u32 length_read_at
      read_at_last read_at_append_drop)

lemma dec_enc_postrec: "valid_postrec p \<Longrightarrow> dec_postrec (enc_postrec p) = p"
  by (simp add: enc_postrec_def dec_postrec_def valid_postrec_def read_at_def)

lemma enc_dec_subfile_header: "length b = 100 \<Longrightarrow> enc_subfile_header (dec_subfile_header b) = b"
  by (simp add: enc_subfile_header_def dec_subfile_header_def enc_dec_u16 enc_dec_u32 length_read_at
      read_at_last read_at_append_drop)

lemma dec_enc_subfile_header: "valid_subfile_header h \<Longrightarrow> dec_subfile_header (enc_subfile_header h) = h"
  by (simp add: enc_subfile_header_def dec_subfile_header_def valid_subfile_header_def read_at_def)

interpretation postrec_codec: record_codec enc_postrec dec_postrec valid_postrec 100
proof unfold_locales
  show "length (enc_postrec r) = 100" if "valid_postrec r" for r
    using that by (simp add: enc_postrec_def valid_postrec_def)
  show "valid_postrec (dec_postrec b)" if "length b = 100" for b
    using that by (simp add: dec_postrec_def valid_postrec_def length_read_at)
qed (simp_all add: enc_dec_postrec dec_enc_postrec)

interpretation header_codec: record_codec enc_subfile_header dec_subfile_header valid_subfile_header 100
proof unfold_locales
  show "length (enc_subfile_header r) = 100" if "valid_subfile_header r" for r
    using that by (simp add: enc_subfile_header_def valid_subfile_header_def)
  show "valid_subfile_header (dec_subfile_header b)" if "length b = 100" for b
    using that by (simp add: dec_subfile_header_def valid_subfile_header_def length_read_at)
qed (simp_all add: enc_dec_subfile_header dec_enc_subfile_header)

lemma ucast_u32_of_nat: "(ucast (word_of_nat n :: u32) :: u16) = word_of_nat n"
proof -
  have "n mod 4294967296 mod 65536 = n mod (65536 :: nat)"
    by (rule mod_mod_cancel) simp
  then show ?thesis
    by (simp add: word_unat_eq_iff unat_of_nat unsigned_ucast_eq take_bit_eq_mod)
qed

lemma word_of_nat_low:
  "(word_of_nat (a + 256 * (b + 256 * m)) :: u16) = word_of_nat (a + 256 * b)"
proof -
  have u: "unat (word_of_nat X :: u16) = X mod 65536" for X :: nat by (simp add: unat_of_nat)
  have "a + 256 * (b + 256 * m) = (a + 256 * b) + 65536 * m" by simp
  then have "(a + 256 * (b + 256 * m)) mod 65536 = (a + 256 * b) mod 65536" by (simp only: mod_mult_self2)
  then show ?thesis by (simp only: word_unat_eq_iff u)
qed

text \<open>The header seen as a post: its count lies over \<open>owneruser\<close> and half of \<open>qscan\<close>.\<close>

lemma header_owneruser:
  assumes "length b = 100"
  shows "owneruser (dec_postrec b) = ucast (active_message_count (dec_subfile_header b))"
proof -
  have "read_at 85 4 b = read_at 85 2 b @ read_at 87 2 b"
    by (simp add: read_at_def take_add [of 2 2, simplified] drop_drop flip: take_drop)
  then obtain x y z w where "read_at 85 4 b = [x, y, z, w]" "read_at 85 2 b = [x, y]"
    using length_read_at_full [of 85 2 b] length_read_at_full [of 87 2 b] assms
    by (auto simp: length_Suc_conv numeral_2_eq_2)
  then have "dec_u16 (read_at 85 2 b) = (ucast (dec_u32 (read_at 85 4 b)) :: u16)"
    unfolding dec_u16_def dec_u32_def ucast_u32_of_nat le_val.simps
    by (simp only: le_val.simps word_of_nat_low mult_0_right add_0_right)
  then show ?thesis
    by (simp only: dec_postrec_def dec_subfile_header_def postrec.select_convs subfile_header.select_convs)
qed

section \<open>Messages\<close>

unbundle bit_operations_syntax

record wmessage =
  msg_header :: postrec
  msg_from :: string
  msg_to :: string
  msg_in_reply_to :: string
  msg_text :: string

definition empty_postrec :: postrec where
  "empty_postrec =
     \<lparr>title = replicate 72 NUL, padding_from_title = replicate 6 NUL, network = replicate 3 NUL, anony = 0,
      post_status = 0, ownersys = 0, owneruser = 0, qscan = 0, daten = 0, post_msg = \<lparr>storage_type = 0, stored_as = 0\<rparr>\<rparr>"

definition CreateMessage :: wmessage where
  "CreateMessage = \<lparr>msg_header = empty_postrec, msg_from = [], msg_to = [], msg_in_reply_to = [], msg_text = []\<rparr>"

definition WWIVMessageHeader_to :: "wmessage \<Rightarrow> string" where
  "WWIVMessageHeader_to m = (if msg_to m = [] then msg_to m else ''ALL'')"

definition status_delete :: u8 where
  "status_delete = 2"

definition status_no_delete :: u8 where
  "status_no_delete = 4"

text \<open>The flags of the status byte.\<close>

definition set_locked :: "bool \<Rightarrow> wmessage \<Rightarrow> wmessage" where
  "set_locked b m = (let s = post_status (msg_header m)
     in m\<lparr>msg_header := (msg_header m)\<lparr>post_status := if b then s OR status_no_delete else s AND NOT status_no_delete\<rparr>\<rparr>)"

definition set_deleted :: "bool \<Rightarrow> wmessage \<Rightarrow> wmessage" where
  "set_deleted b m = (let s = post_status (msg_header m)
     in m\<lparr>msg_header := (msg_header m)\<lparr>post_status := if b then s OR status_delete else s AND NOT status_delete\<rparr>\<rparr>)"

definition is_locked :: "wmessage \<Rightarrow> bool" where
  "is_locked m \<longleftrightarrow> post_status (msg_header m) AND status_no_delete \<noteq> 0"

definition is_deleted :: "wmessage \<Rightarrow> bool" where
  "is_deleted m \<longleftrightarrow> post_status (msg_header m) AND status_delete \<noteq> 0"

text \<open>\<open>strcpy\<close> into the 72 bytes of \<open>title\<close>: 72 characters put the NUL behind the array.\<close>

definition set_title :: "string \<Rightarrow> wmessage \<Rightarrow> cpp_error + wmessage" where
  "set_title t m =
     (let s = c_str (if 72 < length t then take 72 t else t)
      in if length s < 72
         then Inr (m\<lparr>msg_header := (msg_header m)\<lparr>title := s @ NUL # drop (Suc (length s)) (title (msg_header m))\<rparr>\<rparr>)
         else Inl UndefinedBehaviour)"

definition title_of :: "wmessage \<Rightarrow> string" where
  "title_of m = c_str (title (msg_header m))"

text \<open>\<open>networks\<close> are the system numbers of the networks the API was opened with.\<close>

definition is_local :: "int list \<Rightarrow> wmessage \<Rightarrow> bool" where
  "is_local networks m =
     (let net_num = ord (network (msg_header m) ! 0)
      in if length networks \<le> net_num then True
         else if ownersys (msg_header m) = 0 then True
         else networks ! net_num = uint (ownersys (msg_header m)))"

section \<open>The text of a message\<close>

definition CD :: char where
  "CD = CHR 0x04"

definition CRLF :: string where
  "CRLF = [CHR 0x0D, CHR 0x0A]"

definition LF :: char where
  "LF = CHR 0x0A"

definition body_line :: "string \<Rightarrow> string" where
  "body_line line =
     (let l1 = takeWhile (\<lambda>c. c \<noteq> CZ) line;
          l2 = takeWhile (\<lambda>c. c \<noteq> NUL) l1;
          text_line = StringTrim l2
      in if text_line = [] then [] else text_line @ CRLF)"

fun message_lines :: "string list \<Rightarrow> string \<Rightarrow> string \<Rightarrow> string \<Rightarrow> string \<times> string \<times> string" where
  "message_lines [] to in_reply_to text = (to, in_reply_to, text)"
| "message_lines (l # ls) to in_reply_to text =
     (let line = StringTrim l
      in if line \<noteq> [] \<and> hd line = CD then message_lines ls to in_reply_to (text @ line @ CRLF)
         else if starts_with line ''RE:'' then message_lines ls to (StringTrim (drop 3 line)) text
         else if starts_with line ''BY:'' then message_lines ls (StringTrim (drop 3 line)) in_reply_to text
         else (to, in_reply_to, text @ concat (map body_line (l # ls))))"

text \<open>Fewer than two lines, and the code dereferences \<open>lines.end()\<close>.\<close>

definition parse_message :: "postrec \<Rightarrow> string \<Rightarrow> cpp_error + wmessage" where
  "parse_message header raw_text =
     (case SplitString raw_text [LF] of
        l1 # l2 # ls \<Rightarrow>
          (let (to, in_reply_to, text) = message_lines ls [] [] []
           in Inr \<lparr>msg_header = header, msg_from = StringTrim l1, msg_to = to, msg_in_reply_to = in_reply_to, msg_text = text\<rparr>)
      | _ \<Rightarrow> Inl UndefinedBehaviour)"

section \<open>The area\<close>

record warea =
  sub_file :: "bytes option"
  dat_file :: "bytes option"
  area_open :: bool
  last_num_messages :: nat

abbreviation sub_Read :: "nat \<Rightarrow> wfile \<Rightarrow> postrec option" where
  "sub_Read n f \<equiv> fst (DataFile_Read_record dec_postrec 100 n f)"

definition WWIVMessageArea :: "bytes option \<Rightarrow> bytes option \<Rightarrow> cpp_error + warea" where
  "WWIVMessageArea subf datf =
     (case subf of
        None \<Rightarrow> Inl UndefinedBehaviour
      | Some c \<Rightarrow> (case sub_Read 0 (opened c) of
          None \<Rightarrow> Inl UndefinedBehaviour
        | Some header \<Rightarrow> Inr \<lparr>sub_file = subf, dat_file = datf, area_open = True,
                              last_num_messages = unat (owneruser header)\<rparr>))"

definition Close :: "warea \<Rightarrow> bool \<times> warea" where
  "Close a = (True, a\<lparr>area_open := False\<rparr>)"

definition number_of_messages :: "warea \<Rightarrow> cpp_error + nat \<times> warea" where
  "number_of_messages a =
     (case sub_file a of
        None \<Rightarrow> Inr (0, a)
      | Some c \<Rightarrow> (case sub_Read 0 (opened c) of
          None \<Rightarrow> Inl UndefinedBehaviour
        | Some header \<Rightarrow> Inr (unat (owneruser header), a\<lparr>last_num_messages := unat (owneruser header)\<rparr>)))"

definition ReadHeader :: "wfile \<Rightarrow> subfile_header option" where
  "ReadHeader f = fst (DataFile_Read_record dec_subfile_header 100 0 f)"

definition WriteHeader :: "subfile_header \<Rightarrow> wfile \<Rightarrow> wfile" where
  "WriteHeader h f = DataFile_Write_record enc_subfile_header 100 0 h f"

definition ReadMessage :: "int \<Rightarrow> warea \<Rightarrow> (cpp_error + wmessage option \<times> warea) option" where
  "ReadMessage message_number a =
     (case number_of_messages a of
        Inl e \<Rightarrow> Some (Inl e)
      | Inr (num_messages, a1) \<Rightarrow>
          if message_number < 1 then Some (Inr (None, a1))
          else (let n = (if int num_messages < message_number then num_messages else nat message_number)
                in case sub_file a1 of
                     None \<Rightarrow> Some (Inr (None, a1))
                   | Some c \<Rightarrow> (case sub_Read n (opened c) of
                       None \<Rightarrow> Some (Inl UndefinedBehaviour)
                     | Some header \<Rightarrow>
                         if storage_type (post_msg header) \<noteq> 2 then Some (Inr (None, a1))
                         else (case readfile (post_msg header) (map_option opened (dat_file a1)) of
                             None \<Rightarrow> None
                           | Some (Inl e) \<Rightarrow> Some (Inl e)
                           | Some (Inr (ok, raw_text, f)) \<Rightarrow>
                               (let a2 = a1\<lparr>dat_file := map_option contents f\<rparr>
                                in if \<not> ok then Some (Inr (None, a2))
                                   else (case parse_message header raw_text of
                                       Inl e \<Rightarrow> Some (Inl e)
                                     | Inr m \<Rightarrow> Some (Inr (Some m, a2))))))))"

text \<open>\<open>ReadMessageHeader\<close> and \<open>ReadMessageText\<close> use the result without testing it.\<close>

definition ReadMessageHeader :: "int \<Rightarrow> warea \<Rightarrow> (cpp_error + postrec \<times> warea) option" where
  "ReadMessageHeader message_number a =
     map_option (\<lambda>r. bind_res r (\<lambda>(m, a'). case m of None \<Rightarrow> Inl UndefinedBehaviour | Some m \<Rightarrow> Inr (msg_header m, a')))
       (ReadMessage message_number a)"

definition ReadMessageText :: "int \<Rightarrow> warea \<Rightarrow> (cpp_error + string \<times> warea) option" where
  "ReadMessageText message_number a =
     map_option (\<lambda>r. bind_res r (\<lambda>(m, a'). case m of None \<Rightarrow> Inl UndefinedBehaviour | Some m \<Rightarrow> Inr (msg_text m, a')))
       (ReadMessage message_number a)"

text \<open>\<open>STATUS.DAT\<close>: a record of 151 bytes, \<open>qscanptr\<close> is at byte 87.\<close>

definition next_qscan_value :: "bool \<Rightarrow> bytes option \<Rightarrow> u32 \<times> bytes option" where
  "next_qscan_value config_initialized status_dat =
     (if \<not> config_initialized then (1, status_dat)
      else case status_dat of
        None \<Rightarrow> (0, None)
      | Some c \<Rightarrow>
          if length (fst (File_Read 151 (File_Seek 0 (opened c)))) \<noteq> 151 then (0, Some c)
          else (let status = fst (File_Read 151 (File_Seek 0 (opened c)));
                    next_qscan = dec_u32 (read_at 87 4 status);
                    status' = overwrite status 87 (enc_u32 (next_qscan + 1))
                in (next_qscan, Some (contents (File_Write status' (File_Seek 0 (opened c)))))))"

definition add_post :: "postrec \<Rightarrow> warea \<Rightarrow> bool \<times> warea" where
  "add_post post a =
     (case sub_file a of
        None \<Rightarrow> (False, a)
      | Some c \<Rightarrow>
          (let sub = opened c
           in if DataFile_number_of_records 100 sub = 0 then (False, a)
              else (case ReadHeader sub of
                  None \<Rightarrow> (False, a)
                | Some wwiv_header \<Rightarrow>
                    (let msgnum = active_message_count wwiv_header + 1;
                         wwiv_header' = wwiv_header\<lparr>active_message_count := msgnum\<rparr>;
                         sub1 = DataFile_Write_record enc_postrec 100 (unat msgnum) post sub
                     in (True, a\<lparr>sub_file := Some (contents (WriteHeader wwiv_header' sub1))\<rparr>)))))"

text \<open>
  \<open>humantime\<close> is \<open>daten_to_humantime\<close>, which prints in the local time zone; \<open>slack\<close> is the
  memory behind the text.
\<close>

definition post_text :: "(u32 \<Rightarrow> string) \<Rightarrow> wmessage \<Rightarrow> string" where
  "post_text humantime m = msg_from m @ CRLF @ humantime (daten (msg_header m)) @ CRLF @ msg_text m"

definition AddMessage ::
  "(u32 \<Rightarrow> string) \<Rightarrow> bytes \<Rightarrow> bool \<Rightarrow> wmessage \<Rightarrow> warea \<times> bytes option \<Rightarrow> cpp_error + bool \<times> warea \<times> bytes option" where
  "AddMessage humantime slack config_initialized m st =
     (let (a, status_dat) = st;
          (q, status_dat') = next_qscan_value config_initialized status_dat;
          p = (msg_header m)\<lparr>anony := 0, post_msg := \<lparr>storage_type = 2, stored_as = 0xFFFFFF\<rparr>, qscan := q\<rparr>
      in case savefile (post_text humantime m) slack (post_msg p) (map_option opened (dat_file a)) of
           Inl e \<Rightarrow> Inl e
         | Inr (msg, f) \<Rightarrow>
             Inr (True, snd (add_post (p\<lparr>post_msg := msg\<rparr>) (a\<lparr>dat_file := Some (contents f)\<rparr>)), status_dat'))"

fun delete_shift :: "nat list \<Rightarrow> wfile \<Rightarrow> cpp_error + wfile" where
  "delete_shift [] sub = Inr sub"
| "delete_shift (cur # curs) sub =
     (case DataFile_Read_record dec_postrec 100 cur sub of
        (None, _) \<Rightarrow> Inl UndefinedBehaviour
      | (Some tmp, sub1) \<Rightarrow> delete_shift curs (DataFile_Write_record enc_postrec 100 (cur - 1) tmp sub1))"

definition DeleteMessage :: "int \<Rightarrow> warea \<Rightarrow> cpp_error + bool \<times> warea" where
  "DeleteMessage message_number a =
     bind_res (number_of_messages a) (\<lambda>(num_messages, a1).
       if message_number < 1 then Inr (False, a1)
       else if int num_messages < message_number then Inr (False, a1)
       else (let sub = opened (case sub_file a1 of None \<Rightarrow> [] | Some c \<Rightarrow> c); n = nat message_number
             in case sub_Read n sub of
                  None \<Rightarrow> Inl UndefinedBehaviour
                | Some post \<Rightarrow>
                    if storage_type (post_msg post) \<noteq> 2
                    then Inr (False, a1\<lparr>sub_file := Some (contents sub)\<rparr>)
                    else bind_res (remove_link (post_msg post) (map_option opened (dat_file a1))) (\<lambda>f.
                      bind_res (delete_shift [n + 1..<num_messages + 1] sub) (\<lambda>sub1.
                        case sub_Read 0 sub1 of
                          None \<Rightarrow> Inl UndefinedBehaviour
                        | Some header \<Rightarrow>
                            Inr (True, a1\<lparr>dat_file := Some (contents f), sub_file := Some (contents
                              (DataFile_Write_record enc_postrec 100 0
                                (header\<lparr>owneruser := word_of_nat (num_messages - 1)\<rparr>) sub1))\<rparr>)))))"

end
