(* ===== verification/Msg_Area_Spec.thy ===== *)
theory Msg_Area_Spec
  imports Msg_Area
begin

text \<open>
  The abstract message area: a list of posts with their texts. \<open>sub_rel c ps\<close> says that the
  records of the \<open>.sub\<close> file are a header that counts \<open>ps\<close>, then \<open>ps\<close>; \<open>area_inv\<close> adds the
  texts through \<open>store_inv\<close>. The operations of \<open>Msg_Area\<close> refine the operations on the list.
\<close>

section \<open>The list of posts\<close>

abbreviation posts :: "bytes \<Rightarrow> postrec list" where
  "posts c \<equiv> recs dec_postrec 100 c"

definition header_count :: "postrec \<Rightarrow> u32" where
  "header_count h = active_message_count (dec_subfile_header (enc_postrec h))"

definition sub_rel :: "bytes \<Rightarrow> postrec list \<Rightarrow> bool" where
  "sub_rel c ps \<longleftrightarrow> 100 dvd length c \<and> length ps < 65536 \<and>
     (\<exists>h rest. posts c = h # ps @ rest \<and> unat (header_count h) = length ps)"

lemma length_enc_postrec: "valid_postrec p \<Longrightarrow> length (enc_postrec p) = 100"
  by (rule postrec_codec.length_enc)

lemma owneruser_header:
  assumes "valid_postrec h" "unat (header_count h) = n" "n < 65536"
  shows "unat (owneruser h) = n"
proof -
  have "owneruser h = ucast (header_count h)"
    using header_owneruser [OF length_enc_postrec [OF assms(1)]] dec_enc_postrec [OF assms(1)]
    by (simp add: header_count_def)
  also have "\<dots> = ucast (word_of_nat n :: u32)" by (simp flip: assms(2))
  finally show ?thesis using assms(3) by (simp add: ucast_u32_of_nat unat_of_nat)
qed

lemma sub_rel_read:
  assumes "sub_rel c ps" "contents f = c"
  shows "\<exists>h. sub_Read 0 f = Some h \<and> valid_postrec h \<and> unat (owneruser h) = length ps \<and> unat (header_count h) = length ps"
    and "i < length ps \<Longrightarrow> sub_Read (Suc i) f = Some (ps ! i)"
proof -
  obtain h rest where c: "posts c = h # ps @ rest" "unat (header_count h) = length ps" "length ps < 65536"
    using assms(1) unfolding sub_rel_def by blast
  have len: "length c div 100 = Suc (length ps + length rest)" using arg_cong [OF c(1), of length] by simp
  have "valid_postrec h" using c(1) by (intro postrec_codec.valid_recs [of h c]) simp
  then have "unat (owneruser h) = length ps" by (rule owneruser_header [OF _ c(2,3)])
  moreover have "sub_Read 0 f = Some h"
  proof -
    have "0 < length c div 100" unfolding len by simp
    from postrec_codec.DataFile_Read_record_eq [OF this assms(2) [symmetric]] show ?thesis
      unfolding c(1) by simp
  qed
  ultimately show "\<exists>h. sub_Read 0 f = Some h \<and> valid_postrec h \<and> unat (owneruser h) = length ps \<and> unat (header_count h) = length ps"
    using \<open>valid_postrec h\<close> c(2) by blast
  show "sub_Read (Suc i) f = Some (ps ! i)" if "i < length ps"
  proof -
    have "Suc i < length c div 100" unfolding len using that by simp
    from postrec_codec.DataFile_Read_record_eq [OF this assms(2) [symmetric]] show ?thesis
      unfolding c(1) using that by (simp add: nth_append)
  qed
qed

lemma sub_rel_valid: "sub_rel c ps \<Longrightarrow> p \<in> set ps \<Longrightarrow> valid_postrec p"
  unfolding sub_rel_def by (metis Un_iff list.set_intros(2) postrec_codec.valid_recs set_append)

lemma number_of_messages_eq:
  assumes "sub_file a = Some c" "sub_rel c ps"
  shows "number_of_messages a = Inr (length ps, a\<lparr>last_num_messages := length ps\<rparr>)"
  using sub_rel_read(1) [OF assms(2), of "opened c"] assms(1) by (auto simp: number_of_messages_def)

lemma WriteHeader_as_post:
  assumes "valid_subfile_header h"
  shows "contents (WriteHeader h f) = contents (DataFile_Write_record enc_postrec 100 0 (dec_postrec (enc_subfile_header h)) f)"
proof -
  have len: "length (enc_subfile_header h) = 100" using assms by (rule header_codec.length_enc)
  have "valid_postrec (dec_postrec (enc_subfile_header h))" using len by (rule postrec_codec.valid_dec)
  with assms len show ?thesis
    by (simp add: WriteHeader_def header_codec.contents_DataFile_Write_record
        postrec_codec.contents_DataFile_Write_record enc_dec_postrec)
qed

lemma ReadHeader_eq:
  assumes "posts (contents f) = h # rest"
  shows "ReadHeader f = Some (dec_subfile_header (enc_postrec h))"
proof -
  have len: "0 < length (contents f) div 100" using arg_cong [OF assms, of length] by simp
  have "ReadHeader f = Some (recs dec_subfile_header 100 (contents f) ! 0)"
    unfolding ReadHeader_def by (rule header_codec.DataFile_Read_record_eq [OF len refl])
  moreover have "h = dec_postrec (read_at 0 100 (contents f))"
    using assms nth_recs [OF len, of dec_postrec] by simp
  moreover have "length (read_at 0 100 (contents f)) = 100"
    using record_range [OF len] by (intro length_read_at_full) simp
  ultimately show ?thesis by (simp add: nth_recs [OF len] enc_dec_postrec)
qed

text \<open>Appending a post.\<close>

lemma add_post_eq:
  assumes sub: "sub_file a = Some c" and rel: "sub_rel c ps" and p: "valid_postrec p"
    and room: "Suc (length ps) < 65536"
  shows "\<exists>c'. add_post p a = (True, a\<lparr>sub_file := Some c'\<rparr>) \<and> sub_rel c' (ps @ [p])"
proof -
  obtain h rest where c: "posts c = h # ps @ rest" "unat (header_count h) = length ps" and d: "100 dvd length c"
    using rel unfolding sub_rel_def by blast
  let ?f = "opened c" and ?n = "length ps"
  have len: "length c div 100 = Suc (?n + length rest)" using arg_cong [OF c(1), of length] by simp
  have vh: "valid_postrec h" using c(1) by (intro postrec_codec.valid_recs [of h c]) simp
  define hd0 where "hd0 = dec_subfile_header (enc_postrec h)"
  have rh: "ReadHeader ?f = Some hd0" using ReadHeader_eq [of ?f h "ps @ rest"] c(1) by (simp add: hd0_def)
  have v0: "valid_subfile_header hd0" unfolding hd0_def
    by (rule header_codec.valid_dec) (rule length_enc_postrec [OF vh])
  have cnt: "active_message_count hd0 = header_count h" by (simp add: hd0_def header_count_def)
  have num: "unat (active_message_count hd0 + 1) = Suc ?n"
  proof -
    have "active_message_count hd0 + 1 = word_of_nat (Suc ?n)"
      unfolding cnt c(2) [symmetric] by simp
    then show ?thesis using room by (simp add: unat_of_nat del: of_nat_Suc)
  qed
  define hd1 where "hd1 = hd0\<lparr>active_message_count := active_message_count hd0 + 1\<rparr>"
  have v1: "valid_subfile_header hd1" using v0 by (simp add: hd1_def valid_subfile_header_def)
  define sub1 where "sub1 = DataFile_Write_record enc_postrec 100 (Suc ?n) p ?f"
  have p1: "posts (contents sub1) = take (Suc ?n) (posts c) @ p # drop (Suc (Suc ?n)) (posts c)"
    using postrec_codec.recs_DataFile_Write_record [OF p, of ?f "Suc ?n"] d len by (simp add: sub1_def)
  have d1: "100 dvd length (contents sub1)"
    using postrec_codec.dvd_DataFile_Write_record [OF p, of ?f] d by (simp add: sub1_def)
  define c' where "c' = contents (WriteHeader hd1 sub1)"
  let ?h' = "dec_postrec (enc_subfile_header hd1)"
  have l1: "length (enc_subfile_header hd1) = 100" using v1 by (rule header_codec.length_enc)
  have vh': "valid_postrec ?h'" using l1 by (rule postrec_codec.valid_dec)
  have "posts c' = ?h' # drop 1 (posts (contents sub1))"
    using postrec_codec.recs_DataFile_Write_record [OF vh' d1, of 0]
    by (simp add: c'_def WriteHeader_as_post [OF v1])
  then have "posts c' = ?h' # (ps @ [p]) @ drop 1 rest" by (simp add: p1 c(1))
  moreover have "unat (header_count ?h') = length (ps @ [p])"
    using num by (simp add: header_count_def enc_dec_postrec [OF l1] dec_enc_subfile_header [OF v1])
      (simp add: hd1_def)
  moreover have "100 dvd length c'"
    using postrec_codec.dvd_DataFile_Write_record [OF vh' d1] by (simp add: c'_def WriteHeader_as_post [OF v1])
  ultimately have "sub_rel c' (ps @ [p])" using room unfolding sub_rel_def by auto
  moreover have "add_post p a = (True, a\<lparr>sub_file := Some c'\<rparr>)"
    using sub len rh num
    by (simp add: add_post_def Let_def DataFile_number_of_records_def File_GetLength_def
        hd1_def [symmetric] sub1_def [symmetric] c'_def)
  ultimately show ?thesis by blast
qed

text \<open>Closing the gap.\<close>

lemma delete_shift_eq:
  assumes "1 \<le> k" "k \<le> m" "m \<le> length (posts (contents f))" "100 dvd length (contents f)"
  shows "\<exists>f'. delete_shift [k..<m] f = Inr f' \<and> 100 dvd length (contents f')
    \<and> posts (contents f') = take (k - 1) (posts (contents f)) @ drop k (take m (posts (contents f)))
        @ drop (m - 1) (posts (contents f))"
  using assms
proof (induction "m - k" arbitrary: k f)
  case 0
  then have "k = m" by simp
  with 0 show ?case by simp
next
  case (Suc j k f)
  let ?R = "posts (contents f)"
  have km: "k < m" using Suc.hyps(2) by simp
  then have kR: "k < length ?R" using Suc.prems(3) by simp
  then have kl: "k < length (contents f) div 100" by simp
  have rd: "sub_Read k f = Some (?R ! k)" by (rule postrec_codec.DataFile_Read_record_eq [OF kl refl])
  have v: "valid_postrec (?R ! k)" using postrec_codec.valid_recs [OF nth_mem [OF kR]] .
  define f1 where "f1 = snd (DataFile_Read_record dec_postrec 100 k f)"
  define f2 where "f2 = DataFile_Write_record enc_postrec 100 (k - 1) (?R ! k) f1"
  have c1: "contents f1 = contents f" by (simp add: f1_def)
  have p2: "posts (contents f2) = take (k - 1) ?R @ ?R ! k # drop k ?R"
    using postrec_codec.recs_DataFile_Write_record [OF v, of f1 "k - 1"] Suc.prems kl
    by (simp add: f2_def c1)
  have d2: "100 dvd length (contents f2)"
    using postrec_codec.dvd_DataFile_Write_record [OF v, of f1 "k - 1"] Suc.prems by (simp add: f2_def c1)
  have "\<exists>f'. delete_shift [Suc k..<m] f2 = Inr f' \<and> 100 dvd length (contents f')
    \<and> posts (contents f') = take (Suc k - 1) (posts (contents f2)) @ drop (Suc k) (take m (posts (contents f2)))
        @ drop (m - 1) (posts (contents f2))"
    using Suc.hyps(2) Suc.prems km d2 kR
    by (intro Suc.hyps(1)) (simp_all only: p2, auto)
  moreover have "delete_shift [k..<m] f = delete_shift [Suc k..<m] f2"
    using rd km by (cases "DataFile_Read_record dec_postrec 100 k f") (simp add: upt_conv_Cons f2_def f1_def)
  moreover have "take (Suc k - 1) (posts (contents f2)) @ drop (Suc k) (take m (posts (contents f2)))
        @ drop (m - 1) (posts (contents f2))
      = take (k - 1) ?R @ drop k (take m ?R) @ drop (m - 1) ?R"
  proof -
    have lt: "length (take (k - 1) ?R) = k - 1" using kR by simp
    have a: "take (Suc k - 1) (posts (contents f2)) = take (k - 1) ?R @ [?R ! k]"
      using Suc.prems(1) kR by (simp add: p2 take_Cons' lt del: length_recs)
    have b: "drop (Suc k) (take m (posts (contents f2))) = drop (Suc k) (take m ?R)"
      using Suc.prems(1) kR km by (simp add: p2 lt drop_take drop_Cons' del: length_recs)
    have c: "drop (m - 1) (posts (contents f2)) = drop (m - 1) ?R"
      using Suc.prems(1) kR km by (simp add: p2 lt drop_Cons' del: length_recs)
    have "drop k (take m ?R) = ?R ! k # drop (Suc k) (take m ?R)"
      using km kR by (metis Cons_nth_drop_Suc length_take min_less_iff_conj nth_take)
    then show ?thesis unfolding a b c by simp
  qed
  ultimately show ?case by simp
qed

text \<open>Counting down in the low half of the header's count.\<close>

lemma le_val_append: "le_val (x @ y) = le_val x + 256 ^ length x * le_val y"
  by (induction x) (auto simp: algebra_simps)

lemma header_count_split:
  assumes "valid_postrec h"
  shows "unat (header_count h) = unat (owneruser h) + 65536 * le_val (take 2 (enc_u32 (qscan h)))"
proof -
  have len: "length (enc_postrec h) = 100" using assms by (rule length_enc_postrec)
  have "read_at 85 4 (enc_postrec h) = enc_u16 (owneruser h) @ take 2 (enc_u32 (qscan h))"
    using assms by (simp add: enc_postrec_def valid_postrec_def read_at_def)
  then have "header_count h = word_of_nat (unat (owneruser h) + 65536 * le_val (take 2 (enc_u32 (qscan h))))"
    using unsigned_less [of "owneruser h", where ?'a = nat]
    by (simp add: header_count_def dec_subfile_header_def dec_u32_def le_val_append enc_u16_def le_val_le_bytes
        del: of_nat_add of_nat_mult)
  moreover have "unat (owneruser h) + 65536 * le_val (take 2 (enc_u32 (qscan h))) < 2 ^ 32"
    using unsigned_less [of "owneruser h", where ?'a = nat] le_val_less [of "take 2 (enc_u32 (qscan h))"] by simp
  ultimately show ?thesis by (simp add: unat_of_nat del: of_nat_add of_nat_mult)
qed

lemma header_count_set:
  assumes "valid_postrec h" "unat (header_count h) < 65536" "m < 65536"
  shows "unat (header_count (h\<lparr>owneruser := word_of_nat m\<rparr>)) = m"
proof -
  have "valid_postrec (h\<lparr>owneruser := word_of_nat m\<rparr>)" using assms(1) by (simp add: valid_postrec_def)
  from header_count_split [OF this] header_count_split [OF assms(1)] assms(2,3) show ?thesis
    by (simp add: unat_of_nat)
qed

lemma DeleteMessage_sub:
  assumes rel: "sub_rel c ps" and n: "1 \<le> n" "n \<le> length ps"
  shows "\<exists>sub1 h. delete_shift [n + 1..<length ps + 1] (opened c) = Inr sub1 \<and> sub_Read 0 sub1 = Some h
    \<and> sub_rel (contents (DataFile_Write_record enc_postrec 100 0 (h\<lparr>owneruser := word_of_nat (length ps - 1)\<rparr>) sub1))
        (take (n - 1) ps @ drop n ps)"
proof -
  obtain h rest where c: "posts c = h # ps @ rest" "unat (header_count h) = length ps" "length ps < 65536"
    and d: "100 dvd length c"
    using rel unfolding sub_rel_def by blast
  let ?N = "length ps" and ?qs = "take (n - 1) ps @ drop n ps"
  have vh: "valid_postrec h" using c(1) by (intro postrec_codec.valid_recs [of h c]) simp
  have lenR: "?N + 1 \<le> length (posts c)" unfolding c(1) by simp
  obtain sub1 where sh: "delete_shift [n + 1..<?N + 1] (opened c) = Inr sub1" and d1: "100 dvd length (contents sub1)"
    and p1: "posts (contents sub1) = take (n + 1 - 1) (posts c) @ drop (n + 1) (take (?N + 1) (posts c))
        @ drop (?N + 1 - 1) (posts c)"
    using delete_shift_eq [of "n + 1" "?N + 1" "opened c"] n lenR d by (simp del: length_recs) blast
  obtain k where k: "n = Suc k" using n(1) by (cases n) auto
  have p1': "posts (contents sub1) = h # ?qs @ drop ?N (h # ps @ rest)"
    unfolding p1 c(1) k using n by (simp add: k)
  then have "sub_Read 0 sub1 = Some h"
  proof -
    have "0 < length (contents sub1) div 100" using arg_cong [OF p1', of length] by simp
    from postrec_codec.DataFile_Read_record_eq [OF this refl] show ?thesis unfolding p1' by simp
  qed
  moreover define h' where "h' = h\<lparr>owneruser := word_of_nat (?N - 1)\<rparr>"
  have vh': "valid_postrec h'" using vh by (simp add: h'_def valid_postrec_def)
  moreover define c' where "c' = contents (DataFile_Write_record enc_postrec 100 0 h' sub1)"
  have "posts c' = h' # ?qs @ drop ?N (h # ps @ rest)"
    using postrec_codec.recs_DataFile_Write_record [OF vh' d1, of 0] by (simp add: c'_def p1')
  moreover have "100 dvd length c'"
    using postrec_codec.dvd_DataFile_Write_record [OF vh' d1, of 0] by (simp add: c'_def)
  moreover have "unat (header_count h') = length ?qs" "length ?qs < 65536"
    using header_count_set [OF vh, of "?N - 1"] c(2,3) n by (simp_all add: h'_def)
  ultimately have "sub_rel c' ?qs" unfolding sub_rel_def by blast
  with sh \<open>sub_Read 0 sub1 = Some h\<close> show ?thesis unfolding c'_def h'_def by blast
qed

section \<open>The area as a list of messages\<close>

abbreviation key_of :: "postrec \<Rightarrow> u32" where
  "key_of p \<equiv> stored_as (post_msg p)"

definition area_rel :: "bytes \<Rightarrow> bytes \<Rightarrow> (u32 \<rightharpoonup> string) \<Rightarrow> (postrec \<times> string) list \<Rightarrow> bool" where
  "area_rel c d M msgs \<longleftrightarrow> sub_rel c (map fst msgs) \<and> store_inv d M
     \<and> distinct (map (\<lambda>m. key_of (fst m)) msgs)
     \<and> (\<forall>m \<in> set msgs. storage_type (post_msg (fst m)) = 2 \<and> M (key_of (fst m)) = Some (snd m))"

definition area_inv :: "warea \<Rightarrow> (postrec \<times> string) list \<Rightarrow> bool" where
  "area_inv a msgs \<longleftrightarrow>
     (\<exists>c d M. sub_file a = Some c \<and> dat_file a = Some d \<and> area_rel c d M msgs)"

lemma area_invI: "area_rel c d M msgs \<Longrightarrow> sub_file a = Some c \<Longrightarrow> dat_file a = Some d \<Longrightarrow> area_inv a msgs"
  unfolding area_inv_def by blast

definition area_room :: "warea \<Rightarrow> string \<Rightarrow> bool" where
  "area_room a t \<longleftrightarrow> (case dat_file a of None \<Rightarrow> False | Some d \<Rightarrow> has_room d (length t))"

text \<open>The text operations of the area are those of the contract.\<close>

lemma messagerec_type2: "storage_type m = 2 \<Longrightarrow> m = type2 (stored_as m)"
  by (simp add: type2_def)

lemma savefile_store_save:
  assumes "store_save slack t f = Some (k, f')"
  shows "savefile t slack \<lparr>storage_type = 2, stored_as = 0xFFFFFF\<rparr> (Some f) = Inr (type2 k, f')"
  using assms
  by (auto simp: store_save_def savefile_def type2_def Let_def split: prod.splits sum.splits if_splits)

lemma readfile_store_load:
  assumes "store_load k f = Some (t, f')" "storage_type m = 2" "stored_as m = k"
  shows "readfile m (Some f) = Some (Inr (True, t, Some f'))"
  using assms messagerec_type2 [OF assms(2)]
  by (auto simp: store_load_def split: option.splits sum.splits bool.splits prod.splits)

lemma remove_link_store_remove:
  assumes "store_remove k f = Some f'" "storage_type m = 2" "stored_as m = k"
  shows "remove_link m (Some f) = Inr f'"
  using assms messagerec_type2 [OF assms(2)]
  by (auto simp: store_remove_def split: sum.splits)

lemma area_rel_number_of_messages:
  assumes "area_rel c d M msgs" "sub_file a = Some c"
  shows "number_of_messages a = Inr (length msgs, a\<lparr>last_num_messages := length msgs\<rparr>)"
  using assms number_of_messages_eq [of a c "map fst msgs"] by (simp add: area_rel_def)

lemma area_rel_sub_Read:
  assumes "area_rel c d M msgs" "i < length msgs"
  shows "sub_Read (Suc i) (opened c) = Some (fst (msgs ! i))"
  using assms sub_rel_read(2) [of c "map fst msgs" "opened c" i] by (simp add: area_rel_def)

section \<open>The operations refine the list\<close>

text \<open>The post that \<open>AddMessage\<close> files: the message's own header, stamped.\<close>

definition stamped :: "wmessage \<Rightarrow> u32 \<Rightarrow> u32 \<Rightarrow> postrec" where
  "stamped m q k = (msg_header m)\<lparr>anony := 0, qscan := q, post_msg := type2 k\<rparr>"

lemma area_rel_append:
  assumes rel: "area_rel c d M msgs" and sub: "sub_rel c' (map fst msgs @ [p])" and fresh: "M k = None"
    and st: "store_inv d' (M(k \<mapsto> t))" and p: "post_msg p = type2 k"
  shows "area_rel c' d' (M(k \<mapsto> t)) (msgs @ [(p, t)])"
proof -
  have key: "key_of p = k" "storage_type (post_msg p) = 2" using p by (simp_all add: type2_def)
  have old: "key_of (fst x) \<noteq> k" if "x \<in> set msgs" for x using that rel fresh unfolding area_rel_def by fastforce
  then have "k \<notin> (\<lambda>m. key_of (fst m)) ` set msgs" by auto
  then have "distinct (map (\<lambda>m. key_of (fst m)) (msgs @ [(p, t)]))" using rel key(1) unfolding area_rel_def by simp
  moreover have "storage_type (post_msg (fst x)) = 2 \<and> (M(k \<mapsto> t)) (key_of (fst x)) = Some (snd x)" if "x \<in> set (msgs @ [(p, t)])" for x
  proof (cases "x \<in> set msgs")
    case True
    then show ?thesis using rel old [OF True] unfolding area_rel_def by simp
  next
    case False
    then have "x = (p, t)" using that by simp
    then show ?thesis using key by simp
  qed
  ultimately show ?thesis using sub st unfolding area_rel_def by simp
qed

lemma area_rel_remove:
  assumes rel: "area_rel c d M msgs" and i: "i < length msgs" and sub: "sub_rel c' (map fst (take i msgs @ drop (Suc i) msgs))"
    and st: "store_inv d' (M(key_of (fst (msgs ! i)) := None))"
  shows "area_rel c' d' (M(key_of (fst (msgs ! i)) := None)) (take i msgs @ drop (Suc i) msgs)"
proof -
  let ?p = "fst (msgs ! i)" and ?rest = "take i msgs @ drop (Suc i) msgs"
  have dist: "distinct (map (\<lambda>m. key_of (fst m)) (take i msgs @ msgs ! i # drop (Suc i) msgs))"
    using rel id_take_nth_drop [OF i] unfolding area_rel_def by metis
  then have "key_of ?p \<notin> (\<lambda>m. key_of (fst m)) ` set ?rest" by auto
  then have other: "key_of (fst x) \<noteq> key_of ?p" if "x \<in> set ?rest" for x using imageI [OF that, of "\<lambda>m. key_of (fst m)"] by metis
  have "storage_type (post_msg (fst x)) = 2 \<and> (M(key_of ?p := None)) (key_of (fst x)) = Some (snd x)" if "x \<in> set ?rest" for x
  proof -
    have "x \<in> set msgs" using that by (auto dest: in_set_takeD in_set_dropD)
    with other [OF that] rel show ?thesis unfolding area_rel_def by simp
  qed
  then show ?thesis using dist sub st unfolding area_rel_def by auto
qed

text \<open>Adding a message to an area appends it: for a text without NUL and with room in the
  text file, \<open>AddMessage\<close> reports success, and the two files then hold the old list of messages
  with one more at its end, whose record is the stamped header and whose text is the sender,
  the date and the body.\<close>

lemma AddMessage_refines:
  assumes inv: "area_inv a msgs" and m: "valid_postrec (msg_header m)"
    and ok: "storable_text slack (post_text humantime m)"
    and room: "area_room a (post_text humantime m)" and num: "Suc (length msgs) < 65536"
  shows "\<exists>a' st' k. AddMessage humantime slack config m (a, st) = Inr (True, a', st')
    \<and> area_inv a' (msgs @ [(stamped m (fst (next_qscan_value config st)) k, post_text humantime m)])"
proof -
  let ?t = "post_text humantime m"
  obtain c d M where files: "sub_file a = Some c" "dat_file a = Some d" and rel: "area_rel c d M msgs"
    using inv unfolding area_inv_def by blast
  have st: "store_inv (contents (opened d)) M" "has_room (contents (opened d)) (length ?t)"
    using rel room files by (simp_all add: area_rel_def area_room_def)
  obtain k f where sv: "store_save slack ?t (opened d) = Some (k, f)" and fresh: "M k = None"
    and st': "store_inv (contents f) (M(k \<mapsto> ?t))"
    using gat_store.save [OF st(1) ok st(2)] by blast
  obtain q status' where nq: "next_qscan_value config st = (q, status')" by (cases "next_qscan_value config st")
  define p where "p = stamped m q k"
  have vp: "valid_postrec p" using m by (simp add: p_def stamped_def valid_postrec_def)
  have sub: "sub_rel c (map fst msgs)" using rel by (simp add: area_rel_def)
  obtain c' where ap: "add_post p (a\<lparr>dat_file := Some (contents f)\<rparr>)
      = (True, a\<lparr>dat_file := Some (contents f), sub_file := Some c'\<rparr>)"
    and sub': "sub_rel c' (map fst msgs @ [p])"
    using add_post_eq [of "a\<lparr>dat_file := Some (contents f)\<rparr>" c "map fst msgs" p] files(1) sub vp num by auto
  have run: "AddMessage humantime slack config m (a, st)
      = Inr (True, a\<lparr>dat_file := Some (contents f), sub_file := Some c'\<rparr>, status')"
    using savefile_store_save [OF sv] ap files(2)
    by (simp add: AddMessage_def nq p_def stamped_def Let_def)
  have "area_rel c' (contents f) (M(k \<mapsto> ?t)) (msgs @ [(p, ?t)])"
    by (rule area_rel_append [OF rel sub' fresh st']) (simp add: p_def stamped_def)
  then have "area_inv (a\<lparr>dat_file := Some (contents f), sub_file := Some c'\<rparr>) (msgs @ [(p, ?t)])"
    by (rule area_invI) simp_all
  then show ?thesis using run nq by (auto simp: p_def)
qed

text \<open>Reading message \<open>n\<close> of an area that holds a list of messages gives the \<open>n\<close>-th of them,
  parsed from its stored text, the last one when \<open>n\<close> is too large; the area still holds the list.\<close>

lemma ReadMessage_refines:
  assumes inv: "area_inv a msgs" and n: "1 \<le> n" and ne: "msgs \<noteq> []"
  shows "\<exists>a'. area_inv a' msgs \<and> ReadMessage n a = Some (map_sum id (\<lambda>m. (Some m, a'))
    (parse_message (fst (msgs ! (min (nat n) (length msgs) - 1)))
       (cz_trim (snd (msgs ! (min (nat n) (length msgs) - 1))))))"
proof -
  obtain c d M where files: "sub_file a = Some c" "dat_file a = Some d" and rel: "area_rel c d M msgs"
    using inv unfolding area_inv_def by blast
  define i where "i = min (nat n) (length msgs) - 1"
  have i: "i < length msgs" using ne n by (cases msgs) (auto simp: i_def)
  have idx: "(if int (length msgs) < n then length msgs else nat n) = Suc i"
    using ne n i_def by (cases msgs) auto
  let ?p = "fst (msgs ! i)" and ?t = "snd (msgs ! i)"
  have mem: "msgs ! i \<in> set msgs" using i by simp
  have st: "store_inv (contents (opened d)) M" "M (key_of ?p) = Some ?t" "storage_type (post_msg ?p) = 2"
    using rel mem unfolding area_rel_def by simp_all
  obtain f where ld: "store_load (key_of ?p) (opened d) = Some (cz_trim ?t, f)" and st': "store_inv (contents f) M"
    using gat_store.load [OF st(1,2)] by blast
  define a' where "a' = a\<lparr>last_num_messages := length msgs, dat_file := Some (contents f)\<rparr>"
  have "area_rel c (contents f) M msgs" using rel st' unfolding area_rel_def by simp
  then have inv': "area_inv a' msgs" by (rule area_invI) (simp_all add: a'_def files)
  have "ReadMessage n a = Some (map_sum id (\<lambda>m. (Some m, a')) (parse_message ?p (cz_trim ?t)))"
    using area_rel_number_of_messages [OF rel files(1)] area_rel_sub_Read [OF rel i] files n st(3)
      readfile_store_load [OF ld st(3) refl] idx
    by (auto simp: ReadMessage_def Let_def a'_def split: sum.splits)
  with inv' show ?thesis unfolding i_def by blast
qed

text \<open>Deleting message \<open>n\<close> removes exactly that message from the list, keeps the order of the
  others, and gives back the room of its text.\<close>

lemma DeleteMessage_refines:
  assumes inv: "area_inv a msgs" and n: "1 \<le> n" "n \<le> int (length msgs)"
  shows "\<exists>a'. DeleteMessage n a = Inr (True, a')
    \<and> area_inv a' (take (nat n - 1) msgs @ drop (nat n) msgs)
    \<and> area_room a' (snd (msgs ! (nat n - 1)))"
proof -
  obtain c d M where files: "sub_file a = Some c" "dat_file a = Some d" and rel: "area_rel c d M msgs"
    using inv unfolding area_inv_def by blast
  define i where "i = nat n - 1"
  have i: "i < length msgs" "nat n = Suc i" using n by (auto simp: i_def)
  let ?p = "fst (msgs ! i)" and ?t = "snd (msgs ! i)" and ?rest = "take i msgs @ drop (Suc i) msgs"
  have mem: "msgs ! i \<in> set msgs" using i by simp
  have st: "store_inv (contents (opened d)) M" "M (key_of ?p) = Some ?t" "storage_type (post_msg ?p) = 2"
    using rel mem unfolding area_rel_def by simp_all
  obtain f where rm: "store_remove (key_of ?p) (opened d) = Some f"
    and st': "store_inv (contents f) (M(key_of ?p := None))" and rm_room: "has_room (contents f) (length ?t)"
    using gat_store.remove [OF st(1,2)] by blast
  have sub: "sub_rel c (map fst msgs)" using rel by (simp add: area_rel_def)
  obtain sub1 h where sh: "delete_shift [nat n + 1..<length msgs + 1] (opened c) = Inr sub1" "sub_Read 0 sub1 = Some h"
    and sub': "sub_rel (contents (DataFile_Write_record enc_postrec 100 0
        (h\<lparr>owneruser := word_of_nat (length msgs - 1)\<rparr>) sub1)) (map fst ?rest)"
    using DeleteMessage_sub [OF sub, of "nat n"] n i by (auto simp: take_map drop_map)
  define c' where "c' = contents (DataFile_Write_record enc_postrec 100 0
        (h\<lparr>owneruser := word_of_nat (length msgs - 1)\<rparr>) sub1)"
  define a' where "a' = a\<lparr>last_num_messages := length msgs, dat_file := Some (contents f), sub_file := Some c'\<rparr>"
  have run: "DeleteMessage n a = Inr (True, a')"
    using area_rel_number_of_messages [OF rel files(1)] area_rel_sub_Read [OF rel i(1)] files n i(2) st(3)
      remove_link_store_remove [OF rm st(3) refl] sh
    by (auto simp: DeleteMessage_def Let_def a'_def c'_def)
  have "area_rel c' (contents f) (M(key_of ?p := None)) ?rest"
    by (rule area_rel_remove [OF rel i(1) _ st']) (use sub' in \<open>simp add: c'_def\<close>)
  then have "area_inv a' ?rest" by (rule area_invI) (simp_all add: a'_def)
  moreover have "area_room a' ?t" using rm_room by (simp add: area_room_def a'_def)
  ultimately show ?thesis using run unfolding i(2) diff_Suc_1 by blast
qed

section \<open>The text round trip\<close>

text \<open>A line that the parser gives back as it is.\<close>

definition clean_line :: "string \<Rightarrow> bool" where
  "clean_line l \<longleftrightarrow> l \<noteq> [] \<and> StringTrim l = l \<and> LF \<notin> set l \<and> CZ \<notin> set l \<and> NUL \<notin> set l"

definition special_line :: "string \<Rightarrow> bool" where
  "special_line l \<longleftrightarrow> hd l = CD \<or> starts_with l ''RE:'' \<or> starts_with l ''BY:''"

abbreviation crlf_lines :: "string list \<Rightarrow> string" where
  "crlf_lines ls \<equiv> concat (map (\<lambda>l. l @ CRLF) ls)"

abbreviation CR :: char where
  "CR \<equiv> CHR 0x0D"

lemma is_white_CR: "is_white CR"
  by (simp add: DELIMS_WHITE_def)

lemma StringTrim_CR: "clean_line l \<Longrightarrow> StringTrim (l @ [CR]) = l"
proof -
  assume l: "clean_line l"
  then have ne: "l \<noteq> []" and id: "StringTrim l = l" by (simp_all add: clean_line_def)
  then have "\<not> is_white (hd l)" "\<not> is_white (last l)"
    using StringTrim_hd [of l] StringTrim_last [of l] by simp_all
  then have "dropWhile is_white (l @ [CR]) = l @ [CR]" "dropWhile is_white (rev l) = rev l"
    using ne by (cases l, simp_all) (cases l rule: rev_cases, auto)
  then show ?thesis using is_white_CR by (simp add: StringTrim_eq)
qed

lemma body_line_CR: "clean_line l \<Longrightarrow> body_line (l @ [CR]) = l @ CRLF"
proof -
  assume l: "clean_line l"
  have "CR \<noteq> CZ" "CR \<noteq> NUL" by (simp_all add: CZ_def NUL_def)
  with l have "takeWhile (\<lambda>c. c \<noteq> CZ) (l @ [CR]) = l @ [CR]" "takeWhile (\<lambda>c. c \<noteq> NUL) (l @ [CR]) = l @ [CR]"
    by (auto simp: clean_line_def takeWhile_eq_all_conv)
  with StringTrim_CR [OF l] l show ?thesis by (simp add: body_line_def Let_def clean_line_def)
qed

lemma SplitString_crlf_lines:
  assumes "\<And>l. l \<in> set ls \<Longrightarrow> clean_line l"
  shows "SplitString (crlf_lines ls) [LF] = map (\<lambda>l. l @ [CR]) ls"
  using assms
proof (induction ls)
  case (Cons l ls)
  have "set (l @ [CR]) \<inter> set [LF] = {}" using Cons.prems [of l] by (auto simp: clean_line_def LF_def)
  from SplitString_append_delim [OF this, of LF "crlf_lines ls"]
  have "SplitString ((l @ [CR]) @ LF # crlf_lines ls) [LF] = (l @ [CR]) # SplitString (crlf_lines ls) [LF]" by simp
  then show ?case using Cons by (simp add: CRLF_def LF_def)
qed simp

lemma message_lines_plain:
  assumes "\<And>l. l \<in> set ls \<Longrightarrow> clean_line l" "ls \<noteq> [] \<Longrightarrow> \<not> special_line (hd ls)"
  shows "message_lines (map (\<lambda>l. l @ [CR]) ls) [] [] [] = ([], [], crlf_lines ls)"
proof (cases ls)
  case (Cons l ls')
  then have trim: "StringTrim (l @ [CR]) = l" using StringTrim_CR assms(1) by simp
  have eq: "map body_line (map (\<lambda>l. l @ [CR]) ls') = map (\<lambda>l. l @ CRLF) ls'"
    using assms(1) Cons by (simp add: body_line_CR)
  have "body_line (l @ [CR]) = l @ CRLF" using assms(1) Cons by (simp add: body_line_CR)
  then show ?thesis using Cons trim assms(2) eq by (simp add: special_line_def del: map_map)
qed simp

lemma cz_trim_id: "CZ \<notin> set t \<Longrightarrow> cz_trim t = t"
proof -
  assume "CZ \<notin> set t"
  then have "takeWhile (\<lambda>d. d \<noteq> CZ) (rev t) = rev t" by (auto simp: takeWhile_eq_all_conv)
  then have "length (takeWhile (\<lambda>d. d \<noteq> CZ) (rev t)) = length t" by (simp only: length_rev)
  then show ?thesis by (simp add: cz_trim_def find_last_of_def Let_def)
qed

lemma CZ_notin_crlf_lines: "(\<And>l. l \<in> set ls \<Longrightarrow> clean_line l) \<Longrightarrow> CZ \<notin> set (crlf_lines ls) \<and> NUL \<notin> set (crlf_lines ls)"
  by (auto simp: clean_line_def CRLF_def CZ_def NUL_def)

text \<open>What \<open>AddMessage\<close> composes, \<open>ReadMessage\<close> takes apart: sender, date and a body of clean
  lines come back as they were, unless the body starts with a control, \<open>RE:\<close> or \<open>BY:\<close> line.\<close>

lemma parse_post_text:
  assumes "clean_line (msg_from m)" "clean_line (humantime (daten (msg_header m)))"
    and "msg_text m = crlf_lines ls" "\<And>l. l \<in> set ls \<Longrightarrow> clean_line l" "ls \<noteq> [] \<Longrightarrow> \<not> special_line (hd ls)"
  shows "parse_message p (cz_trim (post_text humantime m))
    = Inr \<lparr>msg_header = p, msg_from = msg_from m, msg_to = [], msg_in_reply_to = [], msg_text = msg_text m\<rparr>"
proof -
  let ?all = "msg_from m # humantime (daten (msg_header m)) # ls"
  have clean: "\<And>l. l \<in> set ?all \<Longrightarrow> clean_line l" using assms(1,2,4) by auto
  have t: "post_text humantime m = crlf_lines ?all" by (simp add: post_text_def assms(3))
  have "cz_trim (post_text humantime m) = crlf_lines ?all"
    unfolding t by (rule cz_trim_id) (use CZ_notin_crlf_lines [OF clean] in blast)
  moreover have "SplitString (crlf_lines ?all) [LF] = map (\<lambda>l. l @ [CR]) ?all"
    by (rule SplitString_crlf_lines) (rule clean)
  moreover have "message_lines (map (\<lambda>l. l @ [CR]) ls) [] [] [] = ([], [], crlf_lines ls)"
    using assms(4,5) by (rule message_lines_plain)
  ultimately show ?thesis
    by (simp only: parse_message_def list.map list.case prod.case Let_def StringTrim_CR assms(1-3))
qed

section \<open>Creating an area\<close>

lemma gat_of_zeros:
  assumes "set c \<subseteq> {NUL}"
  shows "gat_of c s = replicate GAT_NUMBER_ELEMENTS 0"
proof -
  have "byte_at c i = NUL" for i using assms by (metis byte_at_def nth_mem singletonD subsetD)
  then have "vread p n c = replicate n NUL" for p n by (intro nth_equalityI) simp_all
  then show ?thesis using decode_gat_zeros [of GAT_NUMBER_ELEMENTS] by (simp add: gat_of_def)
qed

lemma free_blocks_zeros: "free_blocks (replicate GAT_NUMBER_ELEMENTS 0) = [1..<GAT_NUMBER_ELEMENTS]"
  unfolding free_blocks_def by (rule filter_True) simp

lemma has_room_zeros:
  assumes "set c \<subseteq> {NUL}" "n \<le> 2047 * MSG_BLOCK_SIZE"
  shows "has_room c n"
proof -
  have "blocks_for n \<le> 2047" using assms(2) unfolding blocks_for_def by linarith
  then have "blocks_for n \<le> length (free_blocks (gat_of c 0))"
    by (simp only: gat_of_zeros [OF assms(1)] free_blocks_zeros length_upt)
  then show ?thesis unfolding has_room_def by (intro exI [of _ 0]) simp
qed

end
