(* ===== verification/Msg_Api.thy ===== *)
theory Msg_Api
  imports Msg_Area_Spec
begin

text \<open>
  \<open>sdk/msgapi/message_api_wwiv.cpp\<close>: creating and opening message areas. The two directories
  map file names to contents; file operations on them succeed. The last sections hold the
  properties of the message base, from the block store to the area, and their witnesses.
\<close>

section \<open>The message API\<close>

record msgapi =
  subs_directory :: "string \<rightharpoonup> bytes"
  messages_directory :: "string \<rightharpoonup> bytes"

definition Exist :: "string \<Rightarrow> msgapi \<Rightarrow> bool" where
  "Exist name api \<longleftrightarrow> subs_directory api (name @ ''.sub'') \<noteq> None"

definition WWIVMessageAreaHeader :: "u16 \<Rightarrow> u32 \<Rightarrow> u32 \<Rightarrow> subfile_header" where
  "WWIVMessageAreaHeader wwiv_num_version now num_messages =
     \<lparr>signature = ''WWIV'' @ [CZ, NUL], wwiv_version = wwiv_num_version, revision = 1, daten_created = now,
      unused_padding_for_64bit_time_t = 0, mod_count = 0, unused_padding_for_64bit_mod_count = 0,
      password_crc32 = 0, base_message_num = 0, padding_1 = replicate 49 NUL,
      active_message_count = num_messages, padding_2 = replicate 11 NUL\<rparr>"

definition MessageApi_Create ::
  "u16 \<Rightarrow> u32 \<Rightarrow> string \<Rightarrow> msgapi \<Rightarrow> (cpp_error + warea option) \<times> msgapi" where
  "MessageApi_Create wwiv_num_version now name api =
     (let sub_filename = name @ ''.sub''; text_filename = name @ ''.dat''
      in if subs_directory api sub_filename \<noteq> None then (Inr None, api)
         else (let api1 = api\<lparr>subs_directory := (subs_directory api)(sub_filename \<mapsto> [])\<rparr>
               in if messages_directory api text_filename \<noteq> None then (Inr None, api1)
                  else (let msgs = File_SetLength (GAT_SECTION_SIZE + 75 * 1024)
                              (File_Write (encode_gat (replicate GAT_NUMBER_ELEMENTS 0)) (opened []));
                            header = WWIVMessageAreaHeader wwiv_num_version now 0;
                            sub = File_Write (enc_subfile_header header) (opened [])
                        in (map_sum id Some (WWIVMessageArea (Some (contents sub)) (Some (contents msgs))),
                            api1\<lparr>subs_directory := (subs_directory api1)(sub_filename \<mapsto> contents sub),
                                 messages_directory := (messages_directory api1)(text_filename \<mapsto> contents msgs)\<rparr>))))"

definition MessageApi_Open :: "string \<Rightarrow> msgapi \<Rightarrow> cpp_error + warea option" where
  "MessageApi_Open name api =
     (case subs_directory api (name @ ''.sub'') of
        None \<Rightarrow> Inr None
      | Some c \<Rightarrow> (case messages_directory api (name @ ''.dat'') of
          None \<Rightarrow> Inr None
        | Some d \<Rightarrow> map_sum id Some (WWIVMessageArea (Some c) (Some d))))"

text \<open>An area works on its two files: what the directories hold after it has.\<close>

definition files_of_area :: "string \<Rightarrow> warea \<Rightarrow> msgapi \<Rightarrow> msgapi" where
  "files_of_area name a api =
     api\<lparr>subs_directory := (subs_directory api)(name @ ''.sub'' := sub_file a),
         messages_directory := (messages_directory api)(name @ ''.dat'' := dat_file a)\<rparr>"

lemma new_dat:
  "contents (File_SetLength 80896
     (File_Write (encode_gat (replicate GAT_NUMBER_ELEMENTS 0)) (opened []))) = replicate 80896 NUL"
proof -
  have "encode_gat (replicate GAT_NUMBER_ELEMENTS 0) = replicate 4096 NUL"
    using encode_gat_zeros [of GAT_NUMBER_ELEMENTS] by simp
  then show ?thesis
    by (simp add: File_SetLength_def File_Write_def opened_def flip: replicate_add)
qed

lemma new_area_inv:
  assumes "sub_file a = Some (enc_subfile_header (WWIVMessageAreaHeader v now 0))"
    and "dat_file a = Some (replicate 80896 NUL)"
  shows "area_inv a []"
proof (rule area_invI)
  let ?h = "WWIVMessageAreaHeader v now 0"
  have v: "valid_subfile_header ?h" by (simp add: valid_subfile_header_def WWIVMessageAreaHeader_def)
  have len: "length (enc_subfile_header ?h) = 100" using v by (rule header_codec.length_enc)
  have "posts (enc_subfile_header ?h) = [dec_postrec (enc_subfile_header ?h)]"
    using postrec_codec.recs_concat_enc [of "[dec_postrec (enc_subfile_header ?h)]"] postrec_codec.valid_dec [OF len]
    by (simp add: enc_dec_postrec [OF len])
  moreover have "header_count (dec_postrec (enc_subfile_header ?h)) = 0"
    by (simp add: header_count_def enc_dec_postrec [OF len] dec_enc_subfile_header [OF v])
      (simp add: WWIVMessageAreaHeader_def)
  ultimately have "sub_rel (enc_subfile_header ?h) []" by (simp add: sub_rel_def len)
  moreover have "whole (replicate 80896 NUL)" by (rule whole_GAT_end [of _ 0 150]) simp_all
  ultimately show "area_rel (enc_subfile_header ?h) (replicate 80896 NUL) Map.empty []"
    by (simp add: area_rel_def store_inv_empty)
qed (rule assms)+

lemma new_area_room: "dat_file a = Some (replicate n NUL) \<Longrightarrow> length t \<le> 2047 * MSG_BLOCK_SIZE \<Longrightarrow> area_room a t"
  unfolding area_room_def by (simp add: has_room_zeros set_replicate_conv_if)

lemma area_inv_ctor:
  assumes "area_inv a msgs"
  shows "\<exists>a'. WWIVMessageArea (sub_file a) (dat_file a) = Inr a' \<and> area_inv a' msgs
    \<and> sub_file a' = sub_file a \<and> dat_file a' = dat_file a"
proof -
  obtain c d M where files: "sub_file a = Some c" "dat_file a = Some d" and rel: "area_rel c d M msgs"
    using assms unfolding area_inv_def by blast
  obtain h where h: "sub_Read 0 (opened c) = Some h"
    using rel sub_rel_read(1) [of c "map fst msgs" "opened c"] unfolding area_rel_def by auto
  define a' where "a' = \<lparr>sub_file = Some c, dat_file = Some d, area_open = True, last_num_messages = unat (owneruser h)\<rparr>"
  have "area_inv a' msgs" using rel by (rule area_invI) (simp_all add: a'_def)
  then show ?thesis using files h by (auto simp: WWIVMessageArea_def a'_def)
qed

lemma Create_new:
  assumes "subs_directory api (name @ ''.sub'') = None" "messages_directory api (name @ ''.dat'') = None"
  shows "\<exists>a api'. MessageApi_Create v now name api = (Inr (Some a), api') \<and> api' = files_of_area name a api
    \<and> sub_file a = Some (enc_subfile_header (WWIVMessageAreaHeader v now 0))
    \<and> dat_file a = Some (replicate 80896 NUL)"
proof -
  let ?c = "enc_subfile_header (WWIVMessageAreaHeader v now 0)"
  have ne: "?c \<noteq> []" by (simp add: enc_subfile_header_def WWIVMessageAreaHeader_def)
  have c: "contents (File_Write ?c (opened [])) = ?c" using ne by (simp add: File_Write_def opened_def)
  define a0 where "a0 = \<lparr>sub_file = Some ?c, dat_file = Some (replicate 80896 NUL), area_open = True, last_num_messages = 0\<rparr>"
  have "area_inv a0 []" by (rule new_area_inv) (simp_all add: a0_def)
  from area_inv_ctor [OF this] obtain a where "WWIVMessageArea (Some ?c) (Some (replicate 80896 NUL)) = Inr a"
    "sub_file a = Some ?c" "dat_file a = Some (replicate 80896 NUL)" by (auto simp: a0_def)
  then show ?thesis
    using assms by (simp add: MessageApi_Create_def Let_def c new_dat files_of_area_def)
qed

text \<open>A message for the witnesses.\<close>

definition demo_message :: wmessage where
  "demo_message = CreateMessage\<lparr>msg_from := ''Sysop #1'', msg_text := ''Hello'' @ CRLF\<rparr>"

definition demo_time :: "u32 \<Rightarrow> string" where
  "demo_time _ = ''Mon Jan  1 00:00:00 2018''"

definition demo_area :: warea where
  "demo_area = \<lparr>sub_file = Some (enc_subfile_header (WWIVMessageAreaHeader 50 0 0)),
     dat_file = Some (replicate 80896 NUL), area_open = True, last_num_messages = 0\<rparr>"

lemma demo_text: "post_text demo_time demo_message
  = ''Sysop #1'' @ CRLF @ ''Mon Jan  1 00:00:00 2018'' @ CRLF @ ''Hello'' @ CRLF"
  by (simp add: post_text_def demo_time_def demo_message_def CreateMessage_def empty_postrec_def)

lemma demo_valid: "valid_postrec (msg_header demo_message)"
  by (simp add: demo_message_def CreateMessage_def empty_postrec_def valid_postrec_def)

lemma demo_storable: "storable_text (replicate 511 NUL) (post_text demo_time demo_message)"
  unfolding storable_text_def demo_text by (simp add: CRLF_def NUL_def)

lemma demo_inv: "area_inv demo_area []"
  by (rule new_area_inv [of _ 50 0]) (simp_all add: demo_area_def)

lemma demo_room: "area_room demo_area (post_text demo_time demo_message)"
  by (rule new_area_room [of _ 80896]) (simp_all add: demo_area_def demo_text CRLF_def)

lemma demo_clean:
  "clean_line ''Sysop #1''" "clean_line ''Mon Jan  1 00:00:00 2018''" "clean_line ''Hello''"
  by (simp_all add: clean_line_def StringTrim_id DELIMS_WHITE_def LF_def CZ_def NUL_def)

lemma demo_parse:
  "parse_message p (cz_trim (post_text demo_time demo_message))
    = Inr \<lparr>msg_header = p, msg_from = ''Sysop #1'', msg_to = [], msg_in_reply_to = [], msg_text = ''Hello'' @ CRLF\<rparr>"
  using parse_post_text [of demo_message demo_time "[''Hello'']" p] demo_clean
  by (simp add: demo_message_def CreateMessage_def demo_time_def special_line_def CD_def starts_with_def)

lemma demo_posted: "\<exists>a p. area_inv a [(p, post_text demo_time demo_message)]"
  using AddMessage_refines [OF demo_inv demo_valid demo_storable demo_room, of True None] by auto

section \<open>Properties of the message base\<close>

text \<open>C1 Adding a message to an area appends it: for a text without NUL and with room in the
  text file, \<open>AddMessage\<close> reports success, and the two files then hold the old list of messages
  with one more at its end, whose record is the stamped header and whose text is the sender,
  the date and the body.\<close>

theorem AddMessage_appends:
  assumes "area_inv a msgs" "valid_postrec (msg_header m)"
    and "storable_text slack (post_text humantime m)" "area_room a (post_text humantime m)"
    and "Suc (length msgs) < 65536"
  shows "\<exists>a' st' k. AddMessage humantime slack config m (a, st) = Inr (True, a', st')
    \<and> area_inv a' (msgs @ [(stamped m (fst (next_qscan_value config st)) k, post_text humantime m)])"
  using assms by (rule AddMessage_refines)

theorem AddMessage_appends_witness:
  "\<exists>a' st' k. AddMessage demo_time (replicate 511 NUL) True demo_message (demo_area, None) = Inr (True, a', st')
    \<and> area_inv a' [(stamped demo_message 0 k, post_text demo_time demo_message)]"
  using AddMessage_appends [OF demo_inv demo_valid demo_storable demo_room, of True None]
  by (simp add: next_qscan_value_def)

text \<open>C2 Reading message \<open>n\<close> of an area that holds a list of messages gives the \<open>n\<close>-th of them,
  parsed from its stored text, the last one when \<open>n\<close> is too large; the area still holds the list.\<close>

theorem ReadMessage_nth:
  assumes "area_inv a msgs" "1 \<le> n" "msgs \<noteq> []"
  shows "\<exists>a'. area_inv a' msgs \<and> ReadMessage n a = Some (map_sum id (\<lambda>m. (Some m, a'))
    (parse_message (fst (msgs ! (min (nat n) (length msgs) - 1)))
       (cz_trim (snd (msgs ! (min (nat n) (length msgs) - 1))))))"
  using assms by (rule ReadMessage_refines)

theorem ReadMessage_nth_witness:
  "\<exists>a a' m. ReadMessage 7 a = Some (Inr (Some m, a')) \<and> msg_from m = ''Sysop #1'' \<and> msg_text m = ''Hello'' @ CRLF"
proof -
  obtain a p where a: "area_inv a [(p, post_text demo_time demo_message)]" using demo_posted by blast
  obtain a' where R: "ReadMessage 7 a = Some (Inr (Some \<lparr>msg_header = p, msg_from = ''Sysop #1'', msg_to = [],
      msg_in_reply_to = [], msg_text = ''Hello'' @ CRLF\<rparr>, a'))"
    using ReadMessage_nth [OF a, of 7] by (auto simp: demo_parse)
  show ?thesis by (intro exI conjI, rule R) simp_all
qed

text \<open>C3 Deleting message \<open>n\<close> removes exactly that message from the list, keeps the order of the
  others, and gives back the room of its text.\<close>

theorem DeleteMessage_removes:
  assumes "area_inv a msgs" "1 \<le> n" "n \<le> int (length msgs)"
  shows "\<exists>a'. DeleteMessage n a = Inr (True, a')
    \<and> area_inv a' (take (nat n - 1) msgs @ drop (nat n) msgs)
    \<and> area_room a' (snd (msgs ! (nat n - 1)))"
  using assms by (rule DeleteMessage_refines)

theorem DeleteMessage_removes_witness:
  "\<exists>a a'. DeleteMessage 1 a = Inr (True, a') \<and> area_inv a' []
    \<and> area_room a' (post_text demo_time demo_message)"
proof -
  obtain a p where a: "area_inv a [(p, post_text demo_time demo_message)]" using demo_posted by blast
  show ?thesis using DeleteMessage_removes [OF a, of 1] by auto
qed

text \<open>C33 What \<open>AddMessage\<close> composes, \<open>ReadMessage\<close> takes apart: sender, date and a body of clean
  lines come back as they were, unless the body starts with a control, \<open>RE:\<close> or \<open>BY:\<close> line.\<close>

theorem parse_message_post_text:
  assumes "clean_line (msg_from m)" "clean_line (humantime (daten (msg_header m)))"
    and "msg_text m = crlf_lines ls" "\<And>l. l \<in> set ls \<Longrightarrow> clean_line l" "ls \<noteq> [] \<Longrightarrow> \<not> special_line (hd ls)"
  shows "parse_message p (cz_trim (post_text humantime m))
    = Inr \<lparr>msg_header = p, msg_from = msg_from m, msg_to = [], msg_in_reply_to = [], msg_text = msg_text m\<rparr>"
  using assms by (rule parse_post_text)

theorem parse_message_post_text_witness:
  "parse_message empty_postrec (cz_trim (''Sysop #1'' @ CRLF @ ''Mon Jan  1 00:00:00 2018'' @ CRLF @ ''Hello'' @ CRLF))
    = Inr \<lparr>msg_header = empty_postrec, msg_from = ''Sysop #1'', msg_to = [], msg_in_reply_to = [], msg_text = ''Hello'' @ CRLF\<rparr>"
  using parse_message_post_text [of demo_message demo_time "[''Hello'']" empty_postrec] demo_clean
  by (simp add: post_text_def demo_message_def CreateMessage_def demo_time_def special_line_def CD_def starts_with_def)

text \<open>C4 The text store keeps what is saved in it: on a file that holds the texts \<open>M\<close>, a text
  without NUL for which a section has room is saved under a key \<open>M\<close> does not use; then \<open>readfile\<close>
  returns it under that key, and every other text under the key it had.\<close>

theorem savefile_readfile:
  assumes inv: "store_inv (contents f) M" and t: "t \<noteq> []" "NUL \<notin> set t" "510 \<le> length slack"
    and room: "has_room (contents f) (length t)"
  shows "\<exists>k f'. savefile t slack (type2 0xFFFFFF) (Some f) = Inr (type2 k, f') \<and> M k = None
    \<and> (\<forall>k' t'. (M(k \<mapsto> t)) k' = Some t' \<longrightarrow>
         (\<exists>f''. readfile (type2 k') (Some f') = Some (Inr (True, cz_trim t', Some f''))
            \<and> store_inv (contents f'') (M(k \<mapsto> t))))"
proof -
  have ok: "storable_text slack t" using t by (simp add: storable_text_def)
  obtain k f' where sv: "store_save slack t f = Some (k, f')" and k: "M k = None" "store_inv (contents f') (M(k \<mapsto> t))"
    using gat_store.save [OF inv ok room] by blast
  have "\<exists>f''. readfile (type2 k') (Some f') = Some (Inr (True, cz_trim t', Some f''))
      \<and> store_inv (contents f'') (M(k \<mapsto> t))" if M': "(M(k \<mapsto> t)) k' = Some t'" for k' t'
  proof -
    obtain f'' where ld: "store_load k' f' = Some (cz_trim t', f'')" and i: "store_inv (contents f'') (M(k \<mapsto> t))"
      using gat_store.load [OF k(2) M'] by blast
    have "readfile (type2 k') (Some f') = Some (Inr (True, cz_trim t', Some f''))"
      using ld by (rule readfile_store_load) (simp_all add: type2_def)
    with i show ?thesis by blast
  qed
  moreover have "savefile t slack (type2 0xFFFFFF) (Some f) = Inr (type2 k, f')"
    unfolding type2_def [of "0xFFFFFF"] using sv by (rule savefile_store_save)
  ultimately show ?thesis using k(1) by (intro exI [of _ k] exI [of _ f']) blast
qed

theorem savefile_readfile_witness:
  "\<exists>k f' f''. savefile ''Hello'' (replicate 511 NUL) (type2 0xFFFFFF) (Some (opened [])) = Inr (type2 k, f')
    \<and> readfile (type2 k) (Some f') = Some (Inr (True, ''Hello'', Some f''))"
proof -
  have inv: "store_inv (contents (opened [])) Map.empty" by (simp add: store_inv_empty whole_def)
  have room: "has_room (contents (opened [])) (length ''Hello'')" by (rule has_room_zeros) simp_all
  have cz: "cz_trim ''Hello'' = ''Hello''" by (rule cz_trim_id) (simp add: CZ_def)
  have "NUL \<notin> set ''Hello''" by (simp add: NUL_def)
  then obtain k f' where sv: "savefile ''Hello'' (replicate 511 NUL) (type2 0xFFFFFF) (Some (opened [])) = Inr (type2 k, f')"
    and rd: "\<forall>k' t'. [k \<mapsto> ''Hello''] k' = Some t' \<longrightarrow>
      (\<exists>f''. readfile (type2 k') (Some f') = Some (Inr (True, cz_trim t', Some f''))
         \<and> store_inv (contents f'') [k \<mapsto> ''Hello''])"
    using savefile_readfile [OF inv _ _ _ room, of "replicate 511 NUL"] by auto
  obtain f'' where "readfile (type2 k) (Some f') = Some (Inr (True, ''Hello'', Some f''))"
    using rd [rule_format, of k "''Hello''"] by (auto simp: cz)
  with sv show ?thesis by blast
qed

text \<open>C5 \<open>remove_link\<close> takes exactly one text out of the store, and any text of at most the
  same number of blocks can be saved afterwards.\<close>

theorem remove_link_frees:
  assumes inv: "store_inv (contents f) M" and M: "M k = Some t"
    and t': "t' \<noteq> []" "NUL \<notin> set t'" "510 \<le> length slack" "length t' \<le> length t"
  shows "\<exists>f' k' f''. remove_link (type2 k) (Some f) = Inr f' \<and> store_inv (contents f') (M(k := None))
    \<and> savefile t' slack (type2 0xFFFFFF) (Some f') = Inr (type2 k', f'')
    \<and> store_inv (contents f'') (M(k := None, k' \<mapsto> t'))"
proof -
  obtain f' where rm: "store_remove k f = Some f'" and inv': "store_inv (contents f') (M(k := None))"
    and room: "has_room (contents f') (length t)" using gat_store.remove [OF inv M] by blast
  have "blocks_for (length t') \<le> blocks_for (length t)" using t'(4) by (simp add: blocks_for_def div_le_mono)
  then have room': "has_room (contents f') (length t')" using room unfolding has_room_def by (meson le_trans)
  have ok: "storable_text slack t'" using t' by (simp add: storable_text_def)
  obtain k' f'' where "store_save slack t' f' = Some (k', f'')" "store_inv (contents f'') (M(k := None, k' \<mapsto> t'))"
    using gat_store.save [OF inv' ok room'] by blast
  moreover have "remove_link (type2 k) (Some f) = Inr f'"
    using rm by (rule remove_link_store_remove) (simp_all add: type2_def)
  ultimately show ?thesis using inv' savefile_store_save unfolding type2_def by blast
qed

theorem remove_link_frees_witness:
  "\<exists>k f f' k' f''. remove_link (type2 k) (Some f) = Inr f'
    \<and> savefile ''Bye'' (replicate 511 NUL) (type2 0xFFFFFF) (Some f') = Inr (type2 k', f'')
    \<and> store_inv (contents f'') [k' \<mapsto> ''Bye'']"
proof -
  have inv: "store_inv (contents (opened [])) Map.empty" by (simp add: store_inv_empty whole_def)
  have room: "has_room (contents (opened [])) (length ''Hello'')" by (rule has_room_zeros) simp_all
  have nul: "NUL \<notin> set ''Hello''" "NUL \<notin> set ''Bye''" by (simp_all add: NUL_def)
  then have "storable_text (replicate 511 NUL) ''Hello''" by (simp add: storable_text_def)
  from gat_store.save [OF inv this room] obtain k and f :: wfile
    where "store_inv (contents f) [k \<mapsto> ''Hello'']" by blast
  from remove_link_frees [OF this, of k "''Hello''" "''Bye''" "replicate 511 NUL"] nul(2)
  show ?thesis by simp blast
qed

text \<open>A new area is empty, accepts texts of up to a megabyte, and is found by \<open>Exist\<close> and
  \<open>Open\<close>; reopening an area gives the messages it held.\<close>

theorem Create_then_Open:
  assumes "\<not> Exist name api" "messages_directory api (name @ ''.dat'') = None"
  shows "\<exists>a. MessageApi_Create v now name api = (Inr (Some a), files_of_area name a api) \<and> area_inv a []
    \<and> (\<forall>t. length t \<le> 2047 * MSG_BLOCK_SIZE \<longrightarrow> area_room a t)
    \<and> Exist name (files_of_area name a api)
    \<and> (\<forall>a' msgs. area_inv a' msgs \<longrightarrow>
        (\<exists>a''. MessageApi_Open name (files_of_area name a' api) = Inr (Some a'') \<and> area_inv a'' msgs))"
proof -
  have none: "subs_directory api (name @ ''.sub'') = None" using assms(1) by (simp add: Exist_def)
  obtain a where cr: "MessageApi_Create v now name api = (Inr (Some a), files_of_area name a api)"
    and files: "sub_file a = Some (enc_subfile_header (WWIVMessageAreaHeader v now 0))"
      "dat_file a = Some (replicate 80896 NUL)"
    using Create_new [OF none assms(2)] by blast
  have inv: "area_inv a []" using files by (rule new_area_inv)
  have room: "\<And>t. length t \<le> 2047 * MSG_BLOCK_SIZE \<Longrightarrow> area_room a t" using files(2) by (rule new_area_room)
  have ex: "Exist name (files_of_area name a api)" by (simp add: Exist_def files_of_area_def files)
  have op: "\<exists>a''. MessageApi_Open name (files_of_area name a' api) = Inr (Some a'') \<and> area_inv a'' msgs"
    if "area_inv a' msgs" for a' msgs
  proof -
    have "\<exists>c d. sub_file a' = Some c \<and> dat_file a' = Some d" using that unfolding area_inv_def by blast
    with area_inv_ctor [OF that] show ?thesis by (auto simp: MessageApi_Open_def files_of_area_def)
  qed
  show ?thesis using cr inv room ex op by blast
qed

theorem Create_then_Open_witness:
  "\<exists>a. MessageApi_Create 50 0 ''general'' \<lparr>subs_directory = Map.empty, messages_directory = Map.empty\<rparr>
    = (Inr (Some a), files_of_area ''general'' a \<lparr>subs_directory = Map.empty, messages_directory = Map.empty\<rparr>)
    \<and> area_inv a []"
  using Create_then_Open [of "''general''" "\<lparr>subs_directory = Map.empty, messages_directory = Map.empty\<rparr>" 50 0]
  by (auto simp: Exist_def)

text \<open>\<open>Create\<close> fails when the text file is already there, but leaves an empty \<open>.sub\<close> file: the
  area then exists, and opening it reads a header that is not in the file.\<close>

theorem Create_leaves_sub:
  assumes "\<not> Exist name api" "messages_directory api (name @ ''.dat'') = Some d"
  shows "\<exists>api'. MessageApi_Create v now name api = (Inr None, api') \<and> Exist name api'
    \<and> MessageApi_Open name api' = Inl UndefinedBehaviour"
proof -
  have "sub_Read 0 (opened []) = None" by (rule postrec_codec.DataFile_Read_record_None [of "[]"]) simp_all
  with assms show ?thesis
    by (simp add: Exist_def MessageApi_Create_def Let_def MessageApi_Open_def WWIVMessageArea_def)
qed

theorem Create_leaves_sub_witness:
  "\<exists>api'. MessageApi_Create 50 0 ''general'' \<lparr>subs_directory = Map.empty, messages_directory = [''general.dat'' \<mapsto> []]\<rparr>
    = (Inr None, api') \<and> Exist ''general'' api' \<and> MessageApi_Open ''general'' api' = Inl UndefinedBehaviour"
  using Create_leaves_sub [of "''general''" "\<lparr>subs_directory = Map.empty, messages_directory = [''general.dat'' \<mapsto> []]\<rparr>" "[]" 50 0]
  by (simp add: Exist_def)

text \<open>C34 Removing a text always ends, whatever the table holds; reading one ends exactly when
  the table has a chain from the text's first block, and runs for ever on a cycle.\<close>

theorem readfile_returns_iff:
  assumes "whole d" "Suc (section_of (stored_as m)) * GATSECLEN \<le> length d"
  shows "(readfile m (Some (opened d)) \<noteq> None \<longleftrightarrow>
      (\<exists>bs. gat_chain (gat_of d (section_of (stored_as m))) (unat (stored_as m) mod GAT_NUMBER_ELEMENTS) bs))
    \<and> (\<exists>f. remove_link m (Some (opened d)) = Inr f)"
proof
  let ?s = "section_of (stored_as m)" and ?b = "unat (stored_as m) mod GAT_NUMBER_ELEMENTS"
  obtain gat f where lg: "load_gat (opened d) ?s = (gat, f)" by (cases "load_gat (opened d) ?s")
  have w: "whole (contents (opened d))" using assms(1) by simp
  note L = load_gat_eq [OF w, of ?s, unfolded lg fst_conv snd_conv]
  have "block_pos ?s b + MSG_BLOCK_SIZE \<le> length (contents f)" if "b < GAT_NUMBER_ELEMENTS" for b
    using block_end [OF that, of ?s] L(3) assms(2) by simp
  from readfile_loop_returns [OF this, of gat ?b "[]"]
  show "readfile m (Some (opened d)) \<noteq> None \<longleftrightarrow> (\<exists>bs. gat_chain (gat_of d ?s) ?b bs)"
    using L(1) by (auto simp: readfile_def lg Let_def)
  show "\<exists>f. remove_link m (Some (opened d)) = Inr f"
    by (simp add: remove_link_def Let_def split: prod.split)
qed

theorem readfile_returns_iff_witness:
  "\<exists>d. readfile (type2 1) (Some (opened d)) = None"
proof -
  let ?gat = "(replicate GAT_NUMBER_ELEMENTS 0)[1 := 1] :: u16 list"
  define d where "d = overwrite (replicate GATSECLEN NUL) 0 (encode_gat ?gat)"
  have len: "length (encode_gat ?gat) = GAT_SECTION_SIZE" by (simp only: length_encode_gat length_list_update length_replicate)
  have ld: "length d = GATSECLEN" unfolding d_def length_overwrite len length_replicate by simp
  have "vread 0 GAT_SECTION_SIZE d = encode_gat ?gat"
    using vread_overwrite_same [of 0 "encode_gat ?gat"] unfolding d_def len by blast
  then have gat: "gat_of d 0 = ?gat" by (simp only: gat_of_def mult_0 decode_encode_gat)
  have self: "?gat ! 1 = 1" by (rule nth_list_update_eq) simp
  have no: "\<not> gat_chain ?gat 1 bs" for bs
  proof (induction bs)
    case (Cons b bs)
    have "unat (1 :: u16) = 1" by simp
    with Cons.IH self show ?case by (auto simp del: One_nat_def)
  qed simp
  have w: "whole d" by (rule whole_GAT_end [of _ 0 GAT_NUMBER_ELEMENTS]) (simp_all add: ld)
  have s0: "section_of (stored_as (type2 1)) = 0" "unat (stored_as (type2 1)) mod GAT_NUMBER_ELEMENTS = 1"
    by (simp_all add: type2_def)
  have "Suc (section_of (stored_as (type2 1))) * GATSECLEN \<le> length d" unfolding s0 ld by simp
  from readfile_returns_iff [OF w this] have "readfile (type2 1) (Some (opened d)) = None"
    unfolding s0 gat using no by blast
  then show ?thesis by blast
qed

end
