(* ===== verification/Core_CommandLine.thy ===== *)
theory Core_CommandLine
  imports Core_Strings
begin

text \<open>
  \<open>core/command_line.cpp\<close>: a tree of commands with their allowed arguments is built with
  \<open>add_argument\<close> and \<open>add\<close>; \<open>Parse\<close> walks over the raw arguments and fills in values, the
  selected subcommand and the positional rest. A \<open>std::map\<close> is an association list in the
  order of its keys. The exceptions of the code are \<open>cl_error\<close>; \<open>Parse\<close> catches only the
  first of them. The raw arguments, which every command of the tree has its own copy of, are
  an argument of the parser.
\<close>

section \<open>Commands\<close>

record cl_arg =
  cl_name :: string
  cl_key :: char
  cl_help_text :: string
  cl_default_value :: string
  is_boolean :: bool

definition CommandLineArgument :: "string \<Rightarrow> char \<Rightarrow> string \<Rightarrow> string \<Rightarrow> cl_arg" where
  "CommandLineArgument name key help_text default_value =
     \<lparr>cl_name = name, cl_key = toupper key, cl_help_text = help_text, cl_default_value = default_value,
      is_boolean = False\<rparr>"

definition BooleanCommandLineArgument :: "string \<Rightarrow> char \<Rightarrow> string \<Rightarrow> bool \<Rightarrow> cl_arg" where
  "BooleanCommandLineArgument name key help_text default_value =
     (CommandLineArgument name key help_text (if default_value then ''true'' else ''false''))\<lparr>is_boolean := True\<rparr>"

definition as_int :: "string \<Rightarrow> int" where
  "as_int v = (case stoi v of Inl _ \<Rightarrow> 0 | Inr i \<Rightarrow> i)"

definition as_bool :: "string \<Rightarrow> bool" where
  "as_bool v \<longleftrightarrow> v = ''true''"

datatype command = Command
  (cmd_name: string)
  (args_allowed: "(string \<times> cl_arg) list")
  (args_values: "(string \<times> string) list")
  (cmd_remaining: "string list")
  (commands_allowed: "(string \<times> command) list")
  (command_selected: "string option")
  (dot_argument: string)

datatype cl_error = unknown_argument_error string | out_of_range

definition new_command :: "string \<Rightarrow> command" where
  "new_command name = Command name [] [] [] [] None []"

definition add_argument :: "cl_arg \<Rightarrow> command \<Rightarrow> command" where
  "add_argument a c =
     Command (cmd_name c) (emplace (cl_name a) a (args_allowed c))
       (emplace (cl_name a) (cl_default_value a) (args_values c))
       (cmd_remaining c) (commands_allowed c) (command_selected c) (dot_argument c)"

definition add_command :: "command \<Rightarrow> command \<Rightarrow> command" where
  "add_command sub c =
     Command (cmd_name c) (args_allowed c) (args_values c) (cmd_remaining c)
       (assign_key (cmd_name sub)
          (Command (cmd_name sub) (args_allowed sub) (args_values sub) (cmd_remaining sub)
             (commands_allowed sub) (command_selected sub) (dot_argument c))
          (commands_allowed c))
       (command_selected c) (dot_argument c)"

definition CommandLineCommand_AddStandardArgs :: "command \<Rightarrow> command" where
  "CommandLineCommand_AddStandardArgs c =
     add_argument (BooleanCommandLineArgument ''help'' (CHR ''?'') ''Displays Help'' False) c"

definition CommandLine_AddStandardArgs :: "string \<Rightarrow> command \<Rightarrow> command" where
  "CommandLine_AddStandardArgs current_directory c =
     add_argument (CommandLineArgument ''bbsdir'' NUL ''Main BBS Directory containing CONFIG.DAT'' current_directory)
       (CommandLineCommand_AddStandardArgs c)"

text \<open>\<open>File::separatorChar\<close> is a colon on this platform.\<close>

definition CreateProgramName :: "string \<Rightarrow> string" where
  "CreateProgramName a = (if CHR '':'' \<in> set a then rev (takeWhile (\<lambda>c. c \<noteq> CHR '':'') (rev a)) else a)"

definition arg :: "string \<Rightarrow> command \<Rightarrow> cl_error + string" where
  "arg name c = (case map_of (args_values c) name of None \<Rightarrow> Inl out_of_range | Some v \<Rightarrow> Inr v)"

definition ArgNameForKey :: "char \<Rightarrow> command \<Rightarrow> string" where
  "ArgNameForKey key c = (case find (\<lambda>a. key = cl_key (snd a)) (args_allowed c) of None \<Rightarrow> [] | Some a \<Rightarrow> fst a)"

definition boolean_value :: "string \<Rightarrow> string" where
  "boolean_value v =
     (if v = ''N'' \<or> v = ''0'' \<or> IsEqualsIgnoreCase v ''false'' then ''false'' else ''true'')"

definition HandleCommandLineArgument :: "string \<Rightarrow> string \<Rightarrow> command \<Rightarrow> cl_error + command" where
  "HandleCommandLineArgument key val c =
     (case map_of (args_allowed c) key of
        None \<Rightarrow> Inl out_of_range
      | Some a \<Rightarrow>
          Inr (Command (cmd_name c) (args_allowed c)
                (emplace key (if is_boolean a then boolean_value val else val) (erase_key key (args_values c)))
                (cmd_remaining c) (commands_allowed c) (command_selected c) (dot_argument c)))"

text \<open>\<open>s[1]\<close> of a one-character string is the NUL behind it, and \<open>s.substr(2)\<close> then throws.\<close>

fun cl_parse :: "string list \<Rightarrow> command \<Rightarrow> cl_error + command" where
  "cl_parse [] c = Inr c"
| "cl_parse (s # ss) c =
     (if starts_with s ''--'' then
        (let delims = SplitString s ''=''; key = drop 2 (hd delims);
             val = (if 1 < length delims then delims ! 1 else [])
         in if map_of (args_allowed c) key = None
            then Inl (unknown_argument_error (''Command: '' @ cmd_name c @ ''; key='' @ key))
            else bind_res (HandleCommandLineArgument key val c) (cl_parse ss))
      else if starts_with s ''/'' \<or> starts_with s ''-'' then
        (let letter = toupper (if 1 < length s then s ! 1 else NUL); key = ArgNameForKey letter c
         in if key = []
            then Inl (unknown_argument_error (''Command: '' @ cmd_name c @ ''; letter='' @ [letter]))
            else if length s < 2 then Inl out_of_range
            else bind_res (HandleCommandLineArgument key (drop 2 s) c) (cl_parse ss))
      else if starts_with s ''.'' then
        bind_res (HandleCommandLineArgument (dot_argument c) (drop 1 s) c) (cl_parse ss)
      else (case map_of (commands_allowed c) s of
          Some sub \<Rightarrow> bind_res (cl_parse ss sub) (\<lambda>sub'.
            Inr (Command (cmd_name c) (args_allowed c) (args_values c) (cmd_remaining c)
                   (assign_key s sub' (commands_allowed c)) (Some s) (dot_argument c)))
        | None \<Rightarrow>
            Inr (Command (cmd_name c) (args_allowed c) (args_values c) (cmd_remaining c @ s # ss)
                   (commands_allowed c) (command_selected c) (dot_argument c))))"

definition CommandLine_Parse :: "string list \<Rightarrow> command \<Rightarrow> cl_error + bool \<times> command" where
  "CommandLine_Parse raw_args c =
     (case cl_parse (drop 1 raw_args) c of
        Inl (unknown_argument_error _) \<Rightarrow> Inr (False, c)
      | Inl out_of_range \<Rightarrow> Inl out_of_range
      | Inr c' \<Rightarrow> Inr (1 < length raw_args, c'))"

text \<open>What \<open>Execute\<close> of the base class prints, with its exit code.\<close>

datatype execute_result = ShowHelp string | InvalidCommand "string list" | NothingToDo string

lemma size_subcommand:
  "map_of (commands_allowed c) k = Some sub \<Longrightarrow> size sub < size c"
proof -
  assume m: "map_of (commands_allowed c) k = Some sub"
  then have "(k, sub) \<in> set (commands_allowed c)" by (rule map_of_SomeD)
  then show ?thesis
    by (cases c) (auto dest!: size_list_estimation' [where f = "\<lambda>e. size_prod (\<lambda>_. 0) size e" and y = "Suc (size sub)"])
qed

function Execute :: "command \<Rightarrow> cl_error + int \<times> execute_result" where
  "Execute c =
     bind_res (arg ''help'' c) (\<lambda>help.
       if as_bool help then Inr (0, ShowHelp (cmd_name c))
       else (case command_selected c of
           Some k \<Rightarrow> (case map_of (commands_allowed c) k of
               None \<Rightarrow> Inl out_of_range
             | Some sub \<Rightarrow>
                 bind_res (arg ''help'' sub) (\<lambda>sub_help.
                   if as_bool sub_help then Inr (0, ShowHelp (cmd_name sub)) else Execute sub))
         | None \<Rightarrow>
             if cmd_name c = [] \<or> cmd_remaining c \<noteq> [] then Inr (0, InvalidCommand (cmd_remaining c))
             else Inr (1, NothingToDo (cmd_name c))))"
  by pat_completeness auto
termination
  by (relation "measure size") (auto intro: size_subcommand)

declare Execute.simps [simp del]

section \<open>Invariant and options\<close>

text \<open>Every allowed argument has a value, and nothing else has.\<close>

definition cl_inv :: "command \<Rightarrow> bool" where
  "cl_inv c \<longleftrightarrow> sorted_keys (args_allowed c) \<and> sorted_keys (args_values c)
     \<and> dom (map_of (args_values c)) = dom (map_of (args_allowed c))"

lemma cl_inv_new: "cl_inv (new_command name)"
  by (simp add: cl_inv_def new_command_def)

lemma cl_inv_add_argument: "cl_inv c \<Longrightarrow> cl_inv (add_argument a c)"
  by (auto simp: cl_inv_def add_argument_def dom_def)

lemma HandleCommandLineArgument_eq:
  assumes "cl_inv c" "map_of (args_allowed c) key = Some a"
  shows "\<exists>c'. HandleCommandLineArgument key val c = Inr c' \<and> cl_inv c'
    \<and> map_of (args_values c') = (map_of (args_values c))(key \<mapsto> (if is_boolean a then boolean_value val else val))
    \<and> args_allowed c' = args_allowed c \<and> commands_allowed c' = commands_allowed c
    \<and> cmd_remaining c' = cmd_remaining c \<and> cmd_name c' = cmd_name c \<and> command_selected c' = command_selected c
    \<and> dot_argument c' = dot_argument c"
proof -
  let ?v = "emplace key (if is_boolean a then boolean_value val else val) (erase_key key (args_values c))"
  have v: "map_of ?v = (map_of (args_values c))(key \<mapsto> (if is_boolean a then boolean_value val else val))"
    using assms(1) by (auto simp: cl_inv_def fun_eq_iff)
  moreover have "sorted_keys ?v" using assms(1) by (simp add: cl_inv_def)
  moreover have "dom (map_of ?v) = dom (map_of (args_allowed c))"
    unfolding v using assms by (auto simp: cl_inv_def dom_def)
  ultimately show ?thesis using assms by (simp add: HandleCommandLineArgument_def cl_inv_def)
qed

text \<open>Options as they are written, and what they assign.\<close>

definition option_text :: "string \<times> string \<Rightarrow> string" where
  "option_text kv = ''--'' @ fst kv @ ''='' @ snd kv"

definition plain_option :: "command \<Rightarrow> string \<times> string \<Rightarrow> bool" where
  "plain_option c kv \<longleftrightarrow> map_of (args_allowed c) (fst kv) \<noteq> None \<and> CHR ''='' \<notin> set (fst kv)
     \<and> snd kv \<noteq> [] \<and> CHR ''='' \<notin> set (snd kv)"

definition option_value :: "command \<Rightarrow> string \<times> string \<Rightarrow> string" where
  "option_value c kv = (case map_of (args_allowed c) (fst kv) of
     Some a \<Rightarrow> if is_boolean a then boolean_value (snd kv) else snd kv | None \<Rightarrow> snd kv)"

definition positional :: "command \<Rightarrow> string \<Rightarrow> bool" where
  "positional c s \<longleftrightarrow> \<not> starts_with s ''-'' \<and> \<not> starts_with s ''/'' \<and> \<not> starts_with s ''.''
     \<and> map_of (commands_allowed c) s = None"

lemma SplitString_option:
  assumes "CHR ''='' \<notin> set k" "v \<noteq> []" "CHR ''='' \<notin> set v"
  shows "SplitString (''--'' @ k @ ''='' @ v) ''='' = [''--'' @ k, v]"
proof -
  have "set (''--'' @ k) \<inter> set ''='' = {}" "set v \<inter> set ''='' = {}" using assms by auto
  with SplitString_append_delim [of "''--'' @ k" "''=''" "CHR ''=''" v] SplitString_no_delim [of v "''=''"] assms(2)
  show ?thesis by simp
qed

lemma cl_parse_option:
  assumes "plain_option c kv"
  shows "cl_parse (option_text kv # ss) c = bind_res (HandleCommandLineArgument (fst kv) (snd kv) c) (cl_parse ss)"
proof -
  have "starts_with (option_text kv) ''--''" by (simp add: option_text_def starts_with_def)
  moreover have "SplitString (option_text kv) ''='' = [''--'' @ fst kv, snd kv]"
    unfolding option_text_def using assms by (intro SplitString_option) (simp_all add: plain_option_def)
  moreover obtain a where "map_of (args_allowed c) (fst kv) = Some a"
    using assms by (auto simp: plain_option_def)
  ultimately show ?thesis by (simp add: Let_def)
qed

lemma map_upd_add_rev: "m(k \<mapsto> v) ++ map_of (rev kvs) = m ++ map_of (rev ((k, v) # kvs))"
  by (auto simp: fun_eq_iff map_add_def split: option.splits)

lemma cl_parse_positional:
  assumes "ps = [] \<or> positional c (hd ps)"
  shows "cl_parse ps c = Inr (Command (cmd_name c) (args_allowed c) (args_values c) (cmd_remaining c @ ps)
    (commands_allowed c) (command_selected c) (dot_argument c))"
proof (cases ps)
  case (Cons p ps')
  then have "\<not> starts_with p ''-''" "\<not> starts_with p ''/''" "\<not> starts_with p ''.''" "map_of (commands_allowed c) p = None"
    using assms by (simp_all add: positional_def)
  moreover from this(1) have "\<not> starts_with p ''--''" by (auto simp: starts_with_iff)
  ultimately show ?thesis using Cons by simp
qed (cases c, simp)

lemma cl_parse_options:
  assumes "cl_inv c" "\<And>kv. kv \<in> set kvs \<Longrightarrow> plain_option c kv" "ps = [] \<or> positional c (hd ps)"
  shows "\<exists>c'. cl_parse (map option_text kvs @ ps) c = Inr c' \<and> cl_inv c' \<and> cmd_remaining c' = cmd_remaining c @ ps
    \<and> map_of (args_values c') = map_of (args_values c) ++ map_of (rev (map (\<lambda>kv. (fst kv, option_value c kv)) kvs))"
  using assms
proof (induction kvs arbitrary: c)
  case Nil
  then show ?case by (simp add: cl_parse_positional cl_inv_def)
next
  case (Cons kv kvs)
  have kv: "plain_option c kv" using Cons.prems(2) by simp
  then obtain a where a: "map_of (args_allowed c) (fst kv) = Some a" by (auto simp: plain_option_def)
  obtain c1 where c1: "HandleCommandLineArgument (fst kv) (snd kv) c = Inr c1" "cl_inv c1"
    "map_of (args_values c1) = (map_of (args_values c))(fst kv \<mapsto> option_value c kv)"
    and same: "args_allowed c1 = args_allowed c" "commands_allowed c1 = commands_allowed c" "cmd_remaining c1 = cmd_remaining c"
    using HandleCommandLineArgument_eq [OF Cons.prems(1) a, of "snd kv"] a by (auto simp: option_value_def)
  have "plain_option c1 = plain_option c" "positional c1 = positional c" "option_value c1 = option_value c"
    by (simp_all add: plain_option_def positional_def option_value_def same fun_eq_iff)
  then have "\<And>kv. kv \<in> set kvs \<Longrightarrow> plain_option c1 kv" "ps = [] \<or> positional c1 (hd ps)"
    using Cons.prems(2,3) by simp_all
  from Cons.IH [OF c1(2) this] obtain c' where c': "cl_parse (map option_text kvs @ ps) c1 = Inr c'" "cl_inv c'"
    "cmd_remaining c' = cmd_remaining c @ ps"
    and vals: "map_of (args_values c') = map_of (args_values c1) ++ map_of (rev (map (\<lambda>kv. (fst kv, option_value c1 kv)) kvs))"
    unfolding same by blast
  have "cl_parse (map option_text (kv # kvs) @ ps) c = Inr c'"
    using cl_parse_option [OF kv, of "map option_text kvs @ ps"] c1(1) c'(1) by simp
  moreover have "map_of (args_values c')
      = map_of (args_values c) ++ map_of (rev (map (\<lambda>kv. (fst kv, option_value c kv)) (kv # kvs)))"
    unfolding vals c1(3) \<open>option_value c1 = option_value c\<close> map_upd_add_rev by simp
  ultimately show ?case using c'(2,3) by blast
qed

section \<open>Properties\<close>

text \<open>C31 Options written as \<open>--key=value\<close>, with a value that is not empty and contains no \<open>=\<close>, then positional arguments: \<open>Parse\<close> accepts them,
  gives every option its last value (\<open>true\<close> or \<open>false\<close> for a boolean one) and leaves every other
  argument at its default, keeps the positional arguments in order, and never changes which
  arguments have a value.\<close>

theorem cl_parse_round_trip:
  assumes "cl_inv c" "\<And>kv. kv \<in> set kvs \<Longrightarrow> plain_option c kv" "ps = [] \<or> positional c (hd ps)"
    and "kvs \<noteq> [] \<or> ps \<noteq> []"
  shows "\<exists>c'. CommandLine_Parse (program # map option_text kvs @ ps) c = Inr (True, c') \<and> cl_inv c'
    \<and> cmd_remaining c' = cmd_remaining c @ ps
    \<and> map_of (args_values c') = map_of (args_values c) ++ map_of (rev (map (\<lambda>kv. (fst kv, option_value c kv)) kvs))"
proof -
  have "1 < length (program # map option_text kvs @ ps)" using assms(4) by auto
  moreover have "\<exists>c'. cl_parse (map option_text kvs @ ps) c = Inr c' \<and> cl_inv c' \<and> cmd_remaining c' = cmd_remaining c @ ps
    \<and> map_of (args_values c') = map_of (args_values c) ++ map_of (rev (map (\<lambda>kv. (fst kv, option_value c kv)) kvs))"
    using assms(1-3) by (rule cl_parse_options)
  ultimately show ?thesis by (fastforce simp: CommandLine_Parse_def)
qed

definition demo_cmdline :: command where
  "demo_cmdline = CommandLine_AddStandardArgs ''/bbs'' (new_command [])"

lemma demo_cmdline_inv: "cl_inv demo_cmdline"
  by (simp add: demo_cmdline_def CommandLine_AddStandardArgs_def CommandLineCommand_AddStandardArgs_def
      cl_inv_add_argument cl_inv_new)

lemma demo_cmdline_allowed:
  "args_allowed demo_cmdline = [(''bbsdir'', CommandLineArgument ''bbsdir'' NUL ''Main BBS Directory containing CONFIG.DAT'' ''/bbs''),
     (''help'', BooleanCommandLineArgument ''help'' (CHR ''?'') ''Displays Help'' False)]"
  by (simp add: demo_cmdline_def CommandLine_AddStandardArgs_def CommandLineCommand_AddStandardArgs_def
      add_argument_def new_command_def CommandLineArgument_def BooleanCommandLineArgument_def less_char_def)

theorem cl_parse_round_trip_witness:
  "\<exists>c'. CommandLine_Parse [''wwivutil'', ''--bbsdir=/x'', ''--help=N'', ''list''] demo_cmdline = Inr (True, c')
    \<and> arg ''bbsdir'' c' = Inr ''/x'' \<and> arg ''help'' c' = Inr ''false'' \<and> cmd_remaining c' = [''list'']"
proof -
  let ?kvs = "[(''bbsdir'', ''/x''), (''help'', ''N'')]"
  have opts: "\<And>kv. kv \<in> set ?kvs \<Longrightarrow> plain_option demo_cmdline kv"
    by (auto simp: plain_option_def demo_cmdline_allowed)
  have rest: "cmd_remaining demo_cmdline = []" "commands_allowed demo_cmdline = []"
    by (simp_all add: demo_cmdline_def CommandLine_AddStandardArgs_def CommandLineCommand_AddStandardArgs_def
        add_argument_def new_command_def)
  have pos: "positional demo_cmdline ''list''" by (simp add: positional_def starts_with_def rest)
  have "\<exists>c'. CommandLine_Parse (''wwivutil'' # map option_text ?kvs @ [''list'']) demo_cmdline = Inr (True, c')
    \<and> cl_inv c' \<and> cmd_remaining c' = cmd_remaining demo_cmdline @ [''list'']
    \<and> map_of (args_values c') = map_of (args_values demo_cmdline)
        ++ map_of (rev (map (\<lambda>kv. (fst kv, option_value demo_cmdline kv)) ?kvs))"
    using demo_cmdline_inv opts by (rule cl_parse_round_trip) (simp_all add: pos)
  then show ?thesis
    by (auto simp: arg_def option_text_def option_value_def demo_cmdline_allowed boolean_value_def rest(1)
        CommandLineArgument_def BooleanCommandLineArgument_def)
qed

text \<open>A lone \<open>-\<close> or \<open>/\<close> looks for an argument without a letter: when there is one, as
  \<open>bbsdir\<close>, the exception of \<open>substr\<close> leaves \<open>Parse\<close>, which catches only its own error.\<close>

theorem cl_parse_lone_dash:
  assumes "s = ''-'' \<or> s = ''/''" "ArgNameForKey NUL c \<noteq> []"
  shows "CommandLine_Parse [program, s] c = Inl out_of_range"
proof -
  have "toupper NUL = NUL" by (simp add: toupper_def islower_def NUL_def)
  moreover have "\<not> starts_with s ''--''" "starts_with s ''/'' \<or> starts_with s ''-''" "length s = 1"
    using assms(1) by (auto simp: starts_with_def)
  ultimately have "cl_parse [s] c = Inl out_of_range"
    using assms(2) by (simp only: cl_parse.simps if_True if_False Let_def) simp
  then show ?thesis by (simp add: CommandLine_Parse_def)
qed

theorem cl_parse_lone_dash_witness: "CommandLine_Parse [''wwivutil'', ''-''] demo_cmdline = Inl out_of_range"
  by (rule cl_parse_lone_dash)
    (simp_all add: ArgNameForKey_def demo_cmdline_allowed CommandLineArgument_def toupper_def islower_def NUL_def)

end
