(* ===== verification/Core_TextFile.thy ===== *)
theory Core_TextFile
  imports Core_Strings
begin

text \<open>
  \<open>core/textfile.cpp\<close>: reading and writing text files by lines. A file that is read is the list
  of bytes still to come.

  Every configuration file of the system is read by the same loop, \<open>while (file.ReadLine(&line))\<close>.
  The locale \<open>line_reader\<close> states what such a loop is; its client lemma says what the loop does
  to a file that was printed line by line. Each parser interprets it on its own loop.
\<close>

section \<open>Reading lines\<close>

abbreviation newline :: char where
  "newline \<equiv> CHR 0x0A"

text \<open>\<open>fgets\<close>: at most \<open>n - 1\<close> bytes, up to and with the first newline.\<close>

definition fgets :: "nat \<Rightarrow> bytes \<Rightarrow> (bytes \<times> bytes) option" where
  "fgets n b =
     (if b = [] then None
      else (let k = length (takeWhile (\<lambda>c. c \<noteq> newline) b);
                m = (if k < length b then k + 1 else k);
                j = min (n - 1) m
            in Some (take j b, drop j b)))"

text \<open>\<open>str\<close> holds the string up to its NUL; the loop moves \<open>i\<close> down from \<open>strlen(str)\<close>.\<close>

fun StripLineEnd_loop :: "string \<Rightarrow> nat \<Rightarrow> string" where
  "StripLineEnd_loop str 0 = take 0 str"
| "StripLineEnd_loop str (Suc i) =
     (if ord (str ! i) = 10 \<or> ord (str ! i) = 13 then StripLineEnd_loop str i else take (Suc i) str)"

definition StripLineEnd :: "string \<Rightarrow> string" where
  "StripLineEnd str = StripLineEnd_loop str (length str)"

definition ReadLine :: "bytes \<Rightarrow> (string \<times> bytes) option" where
  "ReadLine b = (case fgets 4096 b of None \<Rightarrow> None | Some (s, rest) \<Rightarrow> Some (StripLineEnd (c_str s), rest))"

definition WriteLine :: "string \<Rightarrow> bytes \<Rightarrow> int \<times> bytes" where
  "WriteLine text b = (int (length text) + 2, b @ c_str text @ [newline])"

text \<open>The text that \<open>vsnprintf\<close> makes of its arguments; what does not fit the buffer is cut off.\<close>

definition WriteFormatted :: "string \<Rightarrow> bytes \<Rightarrow> bytes" where
  "WriteFormatted t b = b @ c_str (take 4095 t)"

definition ReadFileIntoString :: "bytes \<Rightarrow> string" where
  "ReadFileIntoString b = b"

lemma WriteFormatted_text: "length t \<le> 4095 \<Longrightarrow> NUL \<notin> set t \<Longrightarrow> WriteFormatted t b = b @ t"
  by (simp add: WriteFormatted_def c_str_id)

lemma fgets_progress:
  assumes "fgets n b = Some (s, rest)" "2 \<le> n"
  shows "length rest < length b"
proof -
  let ?k = "length (takeWhile (\<lambda>c. c \<noteq> newline) b)"
  have b: "b \<noteq> []" "0 < length b" using assms(1) by (auto simp: fgets_def)
  then have "rest = drop (min (n - 1) (if ?k < length b then ?k + 1 else ?k)) b"
    using assms(1) by (simp add: fgets_def Let_def)
  moreover have "0 < (if ?k < length b then ?k + 1 else ?k)" using b(2) by (simp split: if_split del: length_greater_0_conv)
  then have "0 < min (n - 1) (if ?k < length b then ?k + 1 else ?k)" using assms(2) by simp
  ultimately show ?thesis using b(2) by (simp only: length_drop)
qed

lemma ReadLine_progress: "ReadLine b = Some (s, rest) \<Longrightarrow> length rest < length b"
  by (auto simp: ReadLine_def split: option.splits prod.splits dest: fgets_progress)

lemma ReadLine_None_iff [simp]: "ReadLine b = None \<longleftrightarrow> b = []"
  by (auto simp: ReadLine_def fgets_def Let_def split: option.splits)

lemma StripLineEnd_loop_eq:
  "i \<le> length str \<Longrightarrow>
    StripLineEnd_loop str i = rev (dropWhile (\<lambda>c. ord c = 10 \<or> ord c = 13) (rev (take i str)))"
  by (induction i) (auto simp: take_Suc_conv_app_nth)

lemma StripLineEnd_eq: "StripLineEnd str = rev (dropWhile (\<lambda>c. ord c = 10 \<or> ord c = 13) (rev str))"
  by (simp add: StripLineEnd_def StripLineEnd_loop_eq)

text \<open>A line that fits the buffer and has no line end of its own.\<close>

definition text_line :: "string \<Rightarrow> bool" where
  "text_line l \<longleftrightarrow> length l < 4095 \<and> newline \<notin> set l \<and> CHR 0x0D \<notin> set l \<and> NUL \<notin> set l"

lemma StripLineEnd_text_line: "text_line l \<Longrightarrow> StripLineEnd (l @ [newline]) = l"
proof -
  assume l: "text_line l"
  have "dropWhile (\<lambda>c. ord c = 10 \<or> ord c = 13) (rev l) = rev l"
  proof (cases l rule: rev_cases)
    case (snoc k c)
    then have "c \<noteq> CHR 0x0A" "c \<noteq> CHR 0x0D" using l by (auto simp: text_line_def)
    moreover have "ord c = 10 \<longleftrightarrow> c = CHR 0x0A" "ord c = 13 \<longleftrightarrow> c = CHR 0x0D"
      using ord_eq_iff [of c "CHR 0x0A"] ord_eq_iff [of c "CHR 0x0D"] by simp_all
    ultimately show ?thesis using snoc by simp
  qed simp
  then show ?thesis by (simp add: StripLineEnd_eq)
qed

lemma ReadLine_text_line: "text_line l \<Longrightarrow> ReadLine (l @ newline # b) = Some (l, b)"
proof -
  assume l: "text_line l"
  then have tw: "takeWhile (\<lambda>c. c \<noteq> newline) (l @ newline # b) = l"
    by (auto simp: text_line_def takeWhile_append takeWhile_eq_all_conv)
  have "fgets 4096 (l @ newline # b) = Some (l @ [newline], b)"
    using l by (simp add: fgets_def Let_def tw text_line_def)
  moreover have "c_str (l @ [newline]) = l @ [newline]"
    using l by (intro c_str_id) (auto simp: text_line_def NUL_def)
  ultimately show ?thesis by (simp add: ReadLine_def StripLineEnd_text_line [OF l])
qed

section \<open>Loops over the lines of a file\<close>

definition print_lines :: "string list \<Rightarrow> bytes" where
  "print_lines ls = concat (map (\<lambda>l. l @ [newline]) ls)"

lemma print_lines_Nil [simp]: "print_lines [] = []"
  by (simp add: print_lines_def)

lemma print_lines_Cons [simp]: "print_lines (l # ls) = l @ newline # print_lines ls"
  by (simp add: print_lines_def)

lemma print_lines_append [simp]: "print_lines (ls @ ms) = print_lines ls @ print_lines ms"
  by (simp add: print_lines_def)

locale line_reader =
  fixes turn :: "string \<Rightarrow> 's \<Rightarrow> 's" and loop :: "bytes \<Rightarrow> 's \<Rightarrow> 's"
  assumes loop_unfold: "loop b st = (case ReadLine b of None \<Rightarrow> st | Some (line, rest) \<Rightarrow> loop rest (turn line st))"
begin

lemma loop_Nil [simp]: "loop [] st = st"
  by (subst loop_unfold) (simp add: ReadLine_def fgets_def)

lemma loop_line: "text_line l \<Longrightarrow> loop (l @ newline # b) st = loop b (turn l st)"
  by (subst loop_unfold) (simp add: ReadLine_text_line)

lemma loop_print_lines:
  "\<forall>l \<in> set ls. text_line l \<Longrightarrow> loop (print_lines ls @ b) st = loop b (foldl (\<lambda>st l. turn l st) st ls)"
  by (induction ls arbitrary: st) (simp_all add: loop_line)

lemma loop_printed: "\<forall>l \<in> set ls. text_line l \<Longrightarrow> loop (print_lines ls) st = foldl (\<lambda>st l. turn l st) st ls"
  using loop_print_lines [of ls "[]" st] by simp

text \<open>Whatever the turns preserve, the loop preserves.\<close>

lemma loop_invariant:
  assumes "P st" "\<And>line st. P st \<Longrightarrow> P (turn line st)"
  shows "P (loop b st)"
  using assms(1)
proof (induction "length b" arbitrary: b st rule: less_induct)
  case less
  show ?case
  proof (cases "ReadLine b")
    case None
    then have "b = []" by simp
    with less.prems show ?thesis by simp
  next
    case (Some lr)
    obtain line rest where lr: "lr = (line, rest)" by (cases lr)
    have "P (loop rest (turn line st))"
      using ReadLine_progress [of b line rest] Some lr assms(2) [OF less.prems] less.hyps by blast
    with Some lr show ?thesis by (subst loop_unfold) simp
  qed
qed

end

end
