(* ===== verification/Core_Ini.thy ===== *)
theory Core_Ini
  imports Core_TextFile
begin

text \<open>
  \<open>core/inifile.cpp\<close>: \<open>IniFile\<close> is the map from \<open>section.key\<close> to values that its constructor
  builds line by line. The lemmas show that the constructor computes a fold over the lines, and
  that the values of a printed document are found again.
\<close>

section \<open>IniFile\<close>

record inifile =
  ini_open :: bool
  ini_primary :: string
  ini_secondary :: string
  ini_data :: "string \<rightharpoonup> string"

text \<open>One turn of the constructor's loop: \<open>section\<close> and \<open>data_\<close> after a line.\<close>

definition ini_line :: "string \<Rightarrow> string \<times> (string \<rightharpoonup> string) \<Rightarrow> string \<times> (string \<rightharpoonup> string)" where
  "ini_line line0 st =
     (let (sec, data) = st; line = StringTrim line0
      in if line = [] then (sec, data)
         else if hd line = CHR ''['' \<and> last line = CHR '']'' then (take (length line - 2) (drop 1 line), data)
         else (let line1 = takeWhile (\<lambda>c. c \<noteq> CHR '';'') line
               in if CHR ''='' \<notin> set line1 then (sec, data)
                  else (let equals = length (takeWhile (\<lambda>c. c \<noteq> CHR ''='') line1);
                            key = StringTrim (take equals line1);
                            val = StringTrim (drop (equals + 1) line1)
                        in (sec, data(sec @ ''.'' @ key \<mapsto> val)))))"

function ini_parse :: "bytes \<Rightarrow> string \<times> (string \<rightharpoonup> string) \<Rightarrow> string \<times> (string \<rightharpoonup> string)" where
  "ini_parse b st = (case ReadLine b of None \<Rightarrow> st | Some (line, rest) \<Rightarrow> ini_parse rest (ini_line line st))"
  by pat_completeness auto
termination
  by (relation "measure (\<lambda>(b, st). length b)") (auto dest: ReadLine_progress)

declare ini_parse.simps [simp del]

interpretation ini: line_reader ini_line ini_parse
  by unfold_locales (rule ini_parse.simps)

text \<open>\<open>None\<close>: the file does not open.\<close>

definition IniFile :: "bytes option \<Rightarrow> string \<Rightarrow> string \<Rightarrow> inifile" where
  "IniFile buf primary secondary =
     (case buf of
        None \<Rightarrow> \<lparr>ini_open = False, ini_primary = primary, ini_secondary = secondary, ini_data = Map.empty\<rparr>
      | Some b \<Rightarrow> \<lparr>ini_open = True, ini_primary = primary, ini_secondary = secondary,
                   ini_data = snd (ini_parse b ([], Map.empty))\<rparr>)"

definition GetValue :: "inifile \<Rightarrow> string \<Rightarrow> string option \<Rightarrow> string option" where
  "GetValue ini key default_value =
     (case ini_data ini (ini_primary ini @ ''.'' @ key) of
        Some v \<Rightarrow> Some (c_str v)
      | None \<Rightarrow> (case ini_data ini (ini_secondary ini @ ''.'' @ key) of
          Some v \<Rightarrow> Some (c_str v)
        | None \<Rightarrow> default_value))"

definition StringToBoolean :: "string option \<Rightarrow> bool" where
  "StringToBoolean p =
     (case p of
        None \<Rightarrow> False
      | Some s \<Rightarrow> (let ch = toupper (if s = [] then NUL else hd s)
                   in ch = CHR ''Y'' \<or> ch = CHR ''T'' \<or> ch = CHR ''1''))"

definition GetBooleanValue :: "inifile \<Rightarrow> string \<Rightarrow> bool \<Rightarrow> bool" where
  "GetBooleanValue ini key default_value =
     (case GetValue ini key None of None \<Rightarrow> default_value | Some s \<Rightarrow> StringToBoolean (Some s))"

definition GetNumericValueT :: "inifile \<Rightarrow> string \<Rightarrow> int \<Rightarrow> int" where
  "GetNumericValueT ini key default_value =
     (case GetValue ini key None of None \<Rightarrow> default_value | Some s \<Rightarrow> atoi s)"

section \<open>Printed documents\<close>

text \<open>A document: sections with their assignments, in order.\<close>

type_synonym ini_doc = "(string \<times> (string \<times> string) list) list"

definition ini_section_lines :: "string \<times> (string \<times> string) list \<Rightarrow> string list" where
  "ini_section_lines s = (''['' @ fst s @ '']'') # map (\<lambda>(k, v). k @ ''='' @ v) (snd s)"

definition print_ini :: "ini_doc \<Rightarrow> bytes" where
  "print_ini doc = print_lines (concat (map ini_section_lines doc))"

definition doc_values :: "ini_doc \<Rightarrow> (string \<times> string) list" where
  "doc_values doc = concat (map (\<lambda>(sec, kvs). map (\<lambda>(k, v). (sec @ ''.'' @ k, v)) kvs) doc)"

definition plain_key :: "string \<Rightarrow> bool" where
  "plain_key k \<longleftrightarrow> k \<noteq> [] \<and> StringTrim k = k \<and> hd k \<noteq> CHR ''['' \<and> CHR ''='' \<notin> set k \<and> CHR '';'' \<notin> set k"

definition plain_value :: "string \<Rightarrow> bool" where
  "plain_value v \<longleftrightarrow> StringTrim v = v \<and> CHR '';'' \<notin> set v"

definition wf_doc :: "ini_doc \<Rightarrow> bool" where
  "wf_doc doc \<longleftrightarrow> (\<forall>s \<in> set doc. (\<forall>l \<in> set (ini_section_lines s). text_line l)
     \<and> (\<forall>kv \<in> set (snd s). plain_key (fst kv) \<and> plain_value (snd kv)))"

lemma ini_line_section: "ini_line (''['' @ sec @ '']'') (s, data) = (sec, data)"
proof -
  have "StringTrim (''['' @ sec @ '']'') = ''['' @ sec @ '']''"
    by (rule StringTrim_id) (simp add: DELIMS_WHITE_def)
  then show ?thesis by (simp add: ini_line_def Let_def)
qed

lemma ini_line_assignment:
  assumes "plain_key k" "plain_value v"
  shows "ini_line (k @ ''='' @ v) (sec, data) = (sec, data(sec @ ''.'' @ k \<mapsto> v))"
proof -
  have k: "k \<noteq> []" "\<not> is_white (hd k)" "hd k \<noteq> CHR ''[''" "CHR ''='' \<notin> set k" "CHR '';'' \<notin> set k" "StringTrim k = k"
    using assms(1) StringTrim_hd [of k] by (simp_all add: plain_key_def)
  have v: "v = [] \<or> \<not> is_white (last v)" "CHR '';'' \<notin> set v" "StringTrim v = v"
    using assms(2) StringTrim_last [of v] by (auto simp: plain_value_def)
  have trim: "StringTrim (k @ ''='' @ v) = k @ ''='' @ v"
    using k v by (intro StringTrim_id) (auto simp: DELIMS_WHITE_def)
  have semi: "takeWhile (\<lambda>c. c \<noteq> CHR '';'') (k @ ''='' @ v) = k @ ''='' @ v"
    using k v by (auto simp: takeWhile_eq_all_conv)
  have eq: "takeWhile (\<lambda>c. c \<noteq> CHR ''='') (k @ ''='' @ v) = k"
    using k by (auto simp: takeWhile_append takeWhile_eq_all_conv)
  have "hd (k @ ''='' @ v) \<noteq> CHR ''[''" using k by simp
  then show ?thesis
    unfolding ini_line_def Let_def trim semi eq using k v by simp
qed

fun assign_all :: "('k \<rightharpoonup> 'v) \<Rightarrow> ('k \<times> 'v) list \<Rightarrow> 'k \<rightharpoonup> 'v" where
  "assign_all m [] = m"
| "assign_all m (kv # kvs) = assign_all (m(fst kv \<mapsto> snd kv)) kvs"

lemma assign_all_append [simp]: "assign_all m (xs @ ys) = assign_all (assign_all m xs) ys"
  by (induction xs arbitrary: m) auto

lemma assign_all_eq: "assign_all m kvs = m ++ map_of (rev kvs)"
proof (induction kvs arbitrary: m)
  case (Cons kv kvs)
  then show ?case by (cases kv) (auto simp: fun_eq_iff map_add_def split: option.splits)
qed simp

lemma ini_section_fold:
  assumes "\<forall>kv \<in> set kvs. plain_key (fst kv) \<and> plain_value (snd kv)"
  shows "foldl (\<lambda>st l. ini_line l st) (sec, data) (map (\<lambda>(k, v). k @ ''='' @ v) kvs)
    = (sec, assign_all data (map (\<lambda>(k, v). (sec @ ''.'' @ k, v)) kvs))"
  using assms
proof (induction kvs arbitrary: data)
  case (Cons kv kvs)
  obtain k v where kv: "kv = (k, v)" by (cases kv)
  have "ini_line (k @ ''='' @ v) (sec, data) = (sec, data(sec @ ''.'' @ k \<mapsto> v))"
    using Cons.prems kv by (intro ini_line_assignment) auto
  with Cons show ?case by (simp add: kv del: append.simps)
qed simp

lemma ini_doc_fold:
  assumes "wf_doc doc"
  shows "snd (foldl (\<lambda>st l. ini_line l st) (sec, data) (concat (map ini_section_lines doc)))
    = assign_all data (doc_values doc)"
  using assms
proof (induction doc arbitrary: sec data)
  case (Cons s doc)
  obtain sec' kvs where s: "s = (sec', kvs)" by (cases s)
  have "foldl (\<lambda>st l. ini_line l st) (sec, data) (ini_section_lines s)
    = (sec', assign_all data (map (\<lambda>(k, v). (sec' @ ''.'' @ k, v)) kvs))"
    using Cons.prems ini_section_fold [of kvs sec' data] ini_line_section [of sec' sec data]
    by (simp add: s ini_section_lines_def wf_doc_def)
  moreover have "wf_doc doc" using Cons.prems by (simp add: wf_doc_def)
  ultimately show ?case using Cons.IH by (simp add: doc_values_def s)
qed (simp add: doc_values_def)

lemma ini_parse_print:
  assumes "wf_doc doc"
  shows "snd (ini_parse (print_ini doc) ([], Map.empty)) = map_of (rev (doc_values doc))"
proof -
  have "\<forall>l \<in> set (concat (map ini_section_lines doc)). text_line l"
    using assms by (auto simp: wf_doc_def)
  from ini.loop_printed [OF this] ini_doc_fold [OF assms, of "[]" Map.empty]
  show ?thesis by (simp add: print_ini_def assign_all_eq)
qed

section \<open>Properties\<close>

text \<open>C32 An INI document that is printed and read back gives every key its last value of the
  primary section, failing that its last value of the secondary section, else the default.\<close>

theorem IniFile_print:
  assumes "wf_doc doc"
  shows "GetValue (IniFile (Some (print_ini doc)) p q) key d =
    (case map_of (rev (doc_values doc)) (p @ ''.'' @ key) of
       Some v \<Rightarrow> Some (c_str v)
     | None \<Rightarrow> (case map_of (rev (doc_values doc)) (q @ ''.'' @ key) of Some v \<Rightarrow> Some (c_str v) | None \<Rightarrow> d))"
  by (simp add: GetValue_def IniFile_def ini_parse_print [OF assms] split: option.split)

theorem IniFile_print_witness:
  "GetValue (IniFile (Some (print_ini [(''WWIV'', [(''A'', ''1''), (''A'', ''2'')]), (''NET'', [(''B'', ''x'')])]))
     ''WWIV'' ''NET'') ''A'' None = Some ''2''"
proof -
  let ?doc = "[(''WWIV'', [(''A'', ''1''), (''A'', ''2'')]), (''NET'', [(''B'', ''x'')])]"
  have "wf_doc ?doc"
    by (simp add: wf_doc_def ini_section_lines_def text_line_def plain_key_def plain_value_def NUL_def
        StringTrim_id DELIMS_WHITE_def)
  from IniFile_print [OF this, of "''WWIV''" "''NET''" "''A''" None]
  show ?thesis by (simp add: doc_values_def c_str_def NUL_def)
qed

end
