(* ===== verification/Core_Path.thy ===== *)
theory Core_Path
  imports Core_Strings
begin

text \<open>
  The path and whole-file functions of \<open>core/file.cpp\<close>, \<open>core/file_unix.cpp\<close> and
  \<open>core/inifile.cpp\<close> (\<open>FilePath\<close>). The regular files of the system are a map from paths to
  contents; \<open>mkdir\<close> is an argument, the system call as the code sees it through its result
  and \<open>errno\<close>; an attempt to open a file is numbered, \<open>sopen i\<close> is the handle the \<open>i\<close>-th call
  returns and whether \<open>errno\<close> is then \<open>EACCES\<close>.
\<close>

section \<open>Paths\<close>

abbreviation pathSeparatorChar :: char where
  "pathSeparatorChar \<equiv> CHR ''/''"

definition SetName :: "string \<Rightarrow> string \<Rightarrow> string" where
  "SetName dirName fileName =
     (if dirName \<noteq> [] \<and> last dirName = pathSeparatorChar then dirName @ fileName
      else dirName @ [pathSeparatorChar] @ fileName)"

text \<open>\<open>back()\<close> of an empty string is undefined.\<close>

definition FilePath :: "string \<Rightarrow> string \<Rightarrow> cpp_error + string" where
  "FilePath directoryName fileName =
     (if directoryName = [] then Inl UndefinedBehaviour
      else Inr ((if last directoryName \<noteq> pathSeparatorChar then directoryName @ [pathSeparatorChar]
                 else directoryName) @ fileName))"

definition EnsureTrailingSlash :: "string \<Rightarrow> cpp_error + string" where
  "EnsureTrailingSlash path =
     (if path = [] then Inl UndefinedBehaviour
      else Inr (if last path \<noteq> pathSeparatorChar then path @ [pathSeparatorChar] else path))"

definition IsAbsolutePath :: "string \<Rightarrow> bool" where
  "IsAbsolutePath path \<longleftrightarrow> path \<noteq> [] \<and> hd path = pathSeparatorChar"

definition MakeAbsolutePath :: "string \<Rightarrow> string \<Rightarrow> string" where
  "MakeAbsolutePath base relative =
     (if \<not> IsAbsolutePath relative then SetName base relative else relative)"

section \<open>Whole files\<close>

type_synonym disk = "string \<rightharpoonup> bytes"

definition File_Exists :: "string \<Rightarrow> disk \<Rightarrow> bool" where
  "File_Exists original_pathname fs \<longleftrightarrow>
     original_pathname \<noteq> [] \<and>
     fs (if last original_pathname = pathSeparatorChar then butlast original_pathname else original_pathname) \<noteq> None"

definition File_Remove :: "string \<Rightarrow> disk \<Rightarrow> bool \<times> disk" where
  "File_Remove fileName fs = (fs fileName \<noteq> None, fs(fileName := None))"

function copy_loop :: "bytes \<Rightarrow> bytes \<Rightarrow> bytes" where
  "copy_loop source dest =
     (let buf = take 16384 source
      in if 0 < length buf then copy_loop (drop 16384 source) (dest @ buf) else dest)"
  by pat_completeness auto
termination
  by (relation "measure (\<lambda>(source, dest). length source)") auto

declare copy_loop.simps [simp del]

text \<open>
  The source is opened under its own name: \<open>read\<close> fails on it when only the name without a
  trailing slash exists, and the copy is then empty.
\<close>

definition File_Copy :: "string \<Rightarrow> string \<Rightarrow> disk \<Rightarrow> bool \<times> disk" where
  "File_Copy sourceFileName destFileName fs =
     (if sourceFileName \<noteq> destFileName \<and> File_Exists sourceFileName fs \<and> \<not> File_Exists destFileName fs
      then (True, fs(destFileName \<mapsto> (case fs sourceFileName of None \<Rightarrow> [] | Some c \<Rightarrow> copy_loop c [])))
      else (True, fs))"

definition File_Rename :: "string \<Rightarrow> string \<Rightarrow> disk \<Rightarrow> bool \<times> disk" where
  "File_Rename origFileName newFileName fs =
     (case fs origFileName of
        None \<Rightarrow> (False, fs)
      | Some c \<Rightarrow> (True, (fs(origFileName := None))(newFileName \<mapsto> c)))"

definition File_Move :: "string \<Rightarrow> string \<Rightarrow> disk \<Rightarrow> bool \<times> disk" where
  "File_Move sourceFileName destFileName fs =
     (let (ok, fs1) = File_Copy sourceFileName destFileName fs
      in if ok then File_Remove sourceFileName fs1 else (False, fs1))"

lemma copy_loop_eq: "copy_loop source dest = dest @ source"
proof (induction source dest rule: copy_loop.induct)
  case (1 source dest)
  then show ?case by (subst copy_loop.simps) (auto simp: Let_def)
qed

section \<open>Directories\<close>

datatype mkdir_result = MK_OK | MK_EEXIST | MK_ENOENT | MK_OTHER

definition File_mkdir :: "(string \<Rightarrow> 'fs \<Rightarrow> mkdir_result \<times> 'fs) \<Rightarrow> string \<Rightarrow> 'fs \<Rightarrow> bool \<times> 'fs" where
  "File_mkdir sys path fs = (let (r, fs1) = sys path fs in (r = MK_OK \<or> r = MK_EEXIST, fs1))"

text \<open>\<open>path.substr(0, path.find_last_of('/'))\<close>, the whole path when there is no separator.\<close>

definition parent_path :: "string \<Rightarrow> string" where
  "parent_path path = (case find_last_of path pathSeparatorChar of None \<Rightarrow> path | Some p \<Rightarrow> take p path)"

partial_function (option) mkdirs ::
  "(string \<Rightarrow> 'fs \<Rightarrow> mkdir_result \<times> 'fs) \<Rightarrow> string \<Rightarrow> 'fs \<Rightarrow> (bool \<times> 'fs) option" where
  "mkdirs sys path fs =
     (if fst (sys path fs) = MK_OK then Some (True, snd (sys path fs))
      else if fst (sys path fs) = MK_ENOENT then
        Option.bind (mkdirs sys (parent_path path) (snd (sys path fs)))
          (\<lambda>r. if \<not> fst r then Some (False, snd r) else Some (File_mkdir sys path (snd r)))
      else if fst (sys path fs) = MK_EEXIST then Some (True, snd (sys path fs))
      else Some (False, snd (sys path fs)))"

section \<open>Opening\<close>

function open_loop :: "(nat \<Rightarrow> int \<times> bool) \<Rightarrow> int \<Rightarrow> bool \<Rightarrow> nat \<Rightarrow> int" where
  "open_loop sopen handle eacces count =
     (if handle < 0 \<and> eacces \<and> count < 100
      then open_loop sopen (fst (sopen (count + 1))) (snd (sopen (count + 1))) (count + 1)
      else handle)"
  by pat_completeness auto
termination
  by (relation "measure (\<lambda>(sopen, handle, eacces, count). 100 - count)") auto

declare open_loop.simps [simp del]

definition File_Open :: "(nat \<Rightarrow> int \<times> bool) \<Rightarrow> bool \<Rightarrow> int" where
  "File_Open sopen accessible =
     (if fst (sopen 0) < 0 \<and> accessible then open_loop sopen (fst (sopen 1)) (snd (sopen 1)) 1
      else fst (sopen 0))"

lemma open_loop_eq:
  assumes "j \<le> k" "k \<le> 100" "\<And>i. j \<le> i \<Longrightarrow> i < k \<Longrightarrow> fst (sopen i) < 0 \<and> snd (sopen i)"
    and "0 \<le> fst (sopen k)"
  shows "open_loop sopen (fst (sopen j)) (snd (sopen j)) j = fst (sopen k)"
  using assms
proof (induction "k - j" arbitrary: j)
  case 0
  then show ?case by (subst open_loop.simps) simp
next
  case (Suc d j)
  then have "open_loop sopen (fst (sopen (Suc j))) (snd (sopen (Suc j))) (Suc j) = fst (sopen k)"
    by (intro Suc.hyps(1)) auto
  moreover have "fst (sopen j) < 0 \<and> snd (sopen j)" "j < 100" using Suc.hyps(2) Suc.prems by auto
  ultimately show ?case by (subst open_loop.simps) simp
qed

section \<open>Properties\<close>

text \<open>Opening a file that another process holds is tried again, up to the 101st attempt: the
  first attempt that succeeds gives the handle.\<close>

theorem File_Open_retries:
  assumes "k \<le> 100" "\<And>i. i < k \<Longrightarrow> fst (sopen i) < 0 \<and> snd (sopen i)" "0 \<le> fst (sopen k)"
  shows "File_Open sopen True = fst (sopen k)"
proof (cases k)
  case 0
  then show ?thesis using assms(3) by (simp add: File_Open_def)
next
  case (Suc k')
  then have "open_loop sopen (fst (sopen 1)) (snd (sopen 1)) 1 = fst (sopen k)"
    using assms by (intro open_loop_eq) auto
  then show ?thesis using assms(2) [of 0] Suc by (simp add: File_Open_def)
qed

theorem File_Open_retries_witness:
  "File_Open (\<lambda>i. if i < 100 then (- 1, True) else (7, False)) True = 7"
  using File_Open_retries [of 100 "\<lambda>i. if i < 100 then (- 1, True) else (7, False)"] by simp

text \<open>Moving a file to a name that is not taken moves its contents; but when the target name
  exists, \<open>Copy\<close> does nothing and reports success, and \<open>Move\<close> removes the source: with a target
  that is the source itself the file is gone.\<close>

theorem File_Move_effect:
  assumes "src \<noteq> []" "dst \<noteq> []" "last src \<noteq> pathSeparatorChar" "last dst \<noteq> pathSeparatorChar" "fs src = Some c"
  shows "File_Move src dst fs =
    (True, if src \<noteq> dst \<and> fs dst = None then fs(dst \<mapsto> c, src := None) else fs(src := None))"
  using assms by (auto simp: File_Move_def File_Copy_def File_Remove_def File_Exists_def copy_loop_eq)

theorem File_Move_effect_witness:
  "File_Move ''a'' ''a'' [''a'' \<mapsto> ''data''] = (True, Map.empty)"
  using File_Move_effect [of "''a''" "''a''" "[''a'' \<mapsto> ''data'']" "''data''"] by simp

lemma parent_path_shorter:
  assumes "pathSeparatorChar \<in> set path"
  shows "length (parent_path path) < length path"
proof -
  obtain p where "find_last_of path pathSeparatorChar = Some p"
    using assms find_last_of_None by (cases "find_last_of path pathSeparatorChar") blast+
  then show ?thesis by (simp add: parent_path_def find_last_of_Some)
qed

text \<open>A path without a separator is its own parent.\<close>

lemma mkdirs_no_separator:
  assumes "mkdirs sys path fs = Some r" "\<And>fs. fst (sys path fs) = MK_ENOENT" "pathSeparatorChar \<notin> set path"
  shows False
proof -
  have parent: "parent_path path = path"
    using assms(3) find_last_of_None [of path pathSeparatorChar] by (simp add: parent_path_def)
  have "s = sys \<longrightarrow> p = path \<longrightarrow> False" if "mkdirs s p fs = Some r" for s p fs r
  proof (rule mkdirs.raw_induct [OF _ that])
    fix loop :: "(string \<Rightarrow> 'a \<Rightarrow> mkdir_result \<times> 'a) \<Rightarrow> string \<Rightarrow> 'a \<Rightarrow> (bool \<times> 'a) option" and s p fs r
    assume IH: "\<And>s p fs r. loop s p fs = Some r \<Longrightarrow> s = sys \<longrightarrow> p = path \<longrightarrow> False"
      and body: "(if fst (s p fs) = MK_OK then Some (True, snd (s p fs))
        else if fst (s p fs) = MK_ENOENT then
          Option.bind (loop s (parent_path p) (snd (s p fs)))
            (\<lambda>r. if \<not> fst r then Some (False, snd r) else Some (File_mkdir s p (snd r)))
        else if fst (s p fs) = MK_EEXIST then Some (True, snd (s p fs)) else Some (False, snd (s p fs))) = Some r"
    show "s = sys \<longrightarrow> p = path \<longrightarrow> False"
    proof (intro impI)
      assume "s = sys" "p = path"
      with body assms(2) parent obtain r' where "loop sys path (snd (sys path fs)) = Some r'"
        by (cases "loop sys path (snd (sys path fs))") auto
      with IH show False by blast
    qed
  qed
  with assms(1) show False by blast
qed

text \<open>\<open>mkdirs\<close> returns, provided \<open>mkdir\<close> never misses the parent of a path without a
  separator behind its first character; when it reports success, a call of \<open>mkdir\<close> on the
  path created it or found it.\<close>

theorem mkdirs_returns:
  assumes "\<And>p fs. pathSeparatorChar \<notin> set (drop 1 p) \<Longrightarrow> fst (sys p fs) \<noteq> MK_ENOENT"
  shows "\<exists>ok fs'. mkdirs sys path fs = Some (ok, fs')
    \<and> (ok \<longrightarrow> (\<exists>fs0. fst (sys path fs0) = MK_OK \<or> fst (sys path fs0) = MK_EEXIST))"
proof (induction "length path" arbitrary: path fs rule: less_induct)
  case less
  obtain r fs1 where sys: "sys path fs = (r, fs1)" by (cases "sys path fs")
  show ?case
  proof (cases "r = MK_ENOENT")
    case True
    then have "pathSeparatorChar \<in> set (drop 1 path)" using assms [of path fs] sys by auto
    then have "length (parent_path path) < length path" by (intro parent_path_shorter) (auto dest: in_set_dropD)
    from less [OF this, of fs1] obtain ok fs2 where "mkdirs sys (parent_path path) fs1 = Some (ok, fs2)" by blast
    then have res: "mkdirs sys path fs = Some (if \<not> ok then (False, fs2) else File_mkdir sys path fs2)"
      using True sys by (subst mkdirs.simps) simp
    obtain r' fs3 where sys2: "sys path fs2 = (r', fs3)" by (cases "sys path fs2")
    then have "\<exists>fs0. fst (sys path fs0) = MK_OK \<or> fst (sys path fs0) = MK_EEXIST" if "r' = MK_OK \<or> r' = MK_EEXIST"
      using that by (intro exI [of _ fs2]) simp
    with res sys2 show ?thesis by (cases ok) (auto simp: File_mkdir_def)
  next
    case False
    then have res: "mkdirs sys path fs = Some (r = MK_OK \<or> r = MK_EEXIST, fs1)"
      using sys by (subst mkdirs.simps) (cases r, simp_all)
    have "\<exists>fs0. fst (sys path fs0) = MK_OK \<or> fst (sys path fs0) = MK_EEXIST" if "r = MK_OK \<or> r = MK_EEXIST"
      using that sys by (intro exI [of _ fs]) simp
    with res show ?thesis by blast
  qed
qed

theorem mkdirs_returns_witness:
  "\<exists>ok fs'. mkdirs (\<lambda>p made. if p = ''/a/b'' \<and> ''/a'' \<notin> made then (MK_ENOENT, made) else (MK_OK, insert p made))
    ''/a/b'' {} = Some (ok, fs')"
proof -
  let ?sys = "\<lambda>p made. if p = ''/a/b'' \<and> ''/a'' \<notin> made then (MK_ENOENT, made) else (MK_OK, insert p made)"
  have "\<And>p fs. pathSeparatorChar \<notin> set (drop 1 p) \<Longrightarrow> fst (?sys p fs) \<noteq> MK_ENOENT" by auto
  from mkdirs_returns [of ?sys, OF this] show ?thesis by blast
qed

end
