(* ===== verification/Sdk_Callout.thy ===== *)
theory Sdk_Callout
  imports Core_TextFile
begin

unbundle bit_operations_syntax

text \<open>
  \<open>sdk/callout.cpp\<close>: \<open>CALLOUT.NET\<close>, the list of systems a network node calls. An iterator into
  the line is the rest of the line; moving it past the end is \<open>Inl UndefinedBehaviour\<close>, as is
  \<open>back()\<close> of an empty password.

  The lemmas show what a line means: it is a sequence of directives, each of which sets its own
  field, and a file is the map from node numbers to the first line of each node.
\<close>

section \<open>One line\<close>

text \<open>\<open>password\<close> is the array of 20 bytes.\<close>

record net_call_out_rec =
  sysnum :: u16
  macnum :: u8
  options :: u16
  call_anyway :: u8
  min_hr :: int
  max_hr :: int
  con_password :: bytes
  times_per_day :: u8
  call_x_days :: u8
  min_k :: u16

definition blank_callout :: net_call_out_rec where
  "blank_callout = \<lparr>sysnum = 0, macnum = 0, options = 0, call_anyway = 0, min_hr = -1, max_hr = -1,
     con_password = replicate 20 NUL, times_per_day = 0, call_x_days = 0, min_k = 0\<rparr>"

definition option_bit :: "char \<Rightarrow> u16" where
  "option_bit c =
     (if c = CHR ''&'' then 0x0001 else if c = CHR ''-'' then 0x0002 else if c = CHR ''_'' then 0x0004
      else if c = CHR ''+'' then 0x0008 else if c = CHR ''~'' then 0x0010 else if c = CHR '';'' then 0x0040
      else if c = CHR ''^'' then 0x0080 else if c = CHR ''$'' then 0x0100 else if c = CHR ''='' then 0x0400
      else if c = CHR ''*'' then 0x0200 else 0)"

text \<open>The cases that read a number from the text behind their character.\<close>

definition number_case :: "char \<Rightarrow> string \<Rightarrow> net_call_out_rec \<Rightarrow> net_call_out_rec option" where
  "number_case c s con =
     (if c = CHR ''@'' then Some (con\<lparr>sysnum := word_of_int (StringToUnsignedShort s)\<rparr>)
      else if c = CHR ''!'' then
        Some (con\<lparr>options := options con OR 0x0020, times_per_day := max 1 (word_of_int (StringToUnsignedChar s))\<rparr>)
      else if c = CHR ''%'' then Some (con\<lparr>macnum := word_of_int (StringToUnsignedChar s)\<rparr>)
      else if c = CHR ''/'' then Some (con\<lparr>call_anyway := word_of_int (StringToUnsignedChar s)\<rparr>)
      else if c = CHR ''#'' then Some (con\<lparr>call_x_days := word_of_int (StringToUnsignedChar s)\<rparr>)
      else if c = CHR ''('' then Some (con\<lparr>min_hr := StringToChar s\<rparr>)
      else if c = CHR '')'' then Some (con\<lparr>max_hr := StringToChar s\<rparr>)
      else if c = CHR ''|'' then Some (con\<lparr>min_k := max 1 (word_of_int (StringToUnsignedShort s))\<rparr>)
      else None)"

definition strncpy :: "nat \<Rightarrow> string \<Rightarrow> bytes" where
  "strncpy n s = take n (c_str s @ replicate n NUL)"

abbreviation quote :: char where
  "quote \<equiv> CHR 0x22"

lemma length_dropWhile_tail: "dropWhile P xs = y # ys \<Longrightarrow> length ys < Suc (length xs)"
  using length_dropWhile_le [of P xs] by simp

function callout_loop :: "string \<Rightarrow> net_call_out_rec \<Rightarrow> cpp_error + net_call_out_rec" where
  "callout_loop [] con = Inr con"
| "callout_loop (c # iter) con =
     (case number_case c iter con of
        Some con' \<Rightarrow> (case iter of [] \<Rightarrow> Inl UndefinedBehaviour | _ # iter' \<Rightarrow> callout_loop iter' con')
      | None \<Rightarrow>
          if c = quote
          then (let password = takeWhile (\<lambda>c. c \<noteq> quote) iter
                in if password = [] then Inl UndefinedBehaviour
                   else (case dropWhile (\<lambda>c. c \<noteq> quote) iter of
                           [] \<Rightarrow> Inl UndefinedBehaviour
                         | _ # iter' \<Rightarrow> callout_loop iter' (con\<lparr>con_password := strncpy 20 password\<rparr>)))
          else callout_loop iter (con\<lparr>options := options con OR option_bit c\<rparr>))"
  by pat_completeness auto
termination
  by (relation "measure (\<lambda>(s, con). length s)") (auto dest: length_dropWhile_tail)

text \<open>\<open>None\<close>: the function returns false; the record is not touched then.\<close>

definition ParseCalloutNetLine :: "string \<Rightarrow> cpp_error + net_call_out_rec option" where
  "ParseCalloutNetLine ss =
     (if ss = [] \<or> hd ss \<noteq> CHR ''@'' then Inr None
      else map_sum id Some (callout_loop ss blank_callout))"

section \<open>The file\<close>

type_synonym callout_map = "u16 \<rightharpoonup> net_call_out_rec"

definition callout_line :: "string \<Rightarrow> cpp_error + callout_map \<Rightarrow> cpp_error + callout_map" where
  "callout_line line st =
     bind_res st (\<lambda>m. bind_res (ParseCalloutNetLine (StringTrim line)) (\<lambda>r.
       Inr (case r of None \<Rightarrow> m
            | Some con \<Rightarrow> map_emplace (sysnum con) con m)))"

function ParseCalloutFile_loop :: "bytes \<Rightarrow> cpp_error + callout_map \<Rightarrow> cpp_error + callout_map" where
  "ParseCalloutFile_loop b st =
     (case ReadLine b of None \<Rightarrow> st | Some (line, rest) \<Rightarrow> ParseCalloutFile_loop rest (callout_line line st))"
  by pat_completeness auto
termination
  by (relation "measure (\<lambda>(b, st). length b)") (auto dest: ReadLine_progress)

declare ParseCalloutFile_loop.simps [simp del]

interpretation callout: line_reader callout_line ParseCalloutFile_loop
  by unfold_locales (rule ParseCalloutFile_loop.simps)

text \<open>The constructors and the lookup, which narrows the \<open>int\<close> it is given to the key type.\<close>

definition ParseCalloutFile :: "bytes option \<Rightarrow> callout_map \<Rightarrow> cpp_error + bool \<times> callout_map" where
  "ParseCalloutFile f m =
     (case f of None \<Rightarrow> Inr (False, m) | Some b \<Rightarrow> map_sum id (Pair True) (ParseCalloutFile_loop b (Inr m)))"

definition Callout :: "bytes option \<Rightarrow> cpp_error + callout_map" where
  "Callout f = map_sum id snd (ParseCalloutFile f Map.empty)"

definition Callout_of_list :: "net_call_out_rec list \<Rightarrow> callout_map" where
  "Callout_of_list l = foldl (\<lambda>m r. map_emplace (sysnum r) r m) Map.empty l"

definition node_config_for :: "callout_map \<Rightarrow> int \<Rightarrow> net_call_out_rec option" where
  "node_config_for m node = m (word_of_int node)"

section \<open>What a line means\<close>

text \<open>A line is \<open>@\<close> and the node number, then directives in any order: a flag, a character with
  a number, a password in quotes. Each number is cut to the range of its field.\<close>

datatype directive = Flag char | Number char nat | Secret string

fun show_directive :: "directive \<Rightarrow> string" where
  "show_directive (Flag c) = [c]"
| "show_directive (Number c n) = c # show_nat n"
| "show_directive (Secret p) = quote # p @ [quote]"

definition numbered :: "char \<Rightarrow> nat \<Rightarrow> net_call_out_rec \<Rightarrow> net_call_out_rec" where
  "numbered c n con =
     (if c = CHR ''@'' then con\<lparr>sysnum := word_of_nat (min n 65535)\<rparr>
      else if c = CHR ''!'' then con\<lparr>options := options con OR 0x0020, times_per_day := max 1 (word_of_nat (min n 255))\<rparr>
      else if c = CHR ''%'' then con\<lparr>macnum := word_of_nat (min n 255)\<rparr>
      else if c = CHR ''/'' then con\<lparr>call_anyway := word_of_nat (min n 255)\<rparr>
      else if c = CHR ''#'' then con\<lparr>call_x_days := word_of_nat (min n 255)\<rparr>
      else if c = CHR ''('' then con\<lparr>min_hr := int (min n 127)\<rparr>
      else if c = CHR '')'' then con\<lparr>max_hr := int (min n 127)\<rparr>
      else con\<lparr>min_k := max 1 (word_of_nat (min n 65535))\<rparr>)"

fun apply_directive :: "net_call_out_rec \<Rightarrow> directive \<Rightarrow> net_call_out_rec" where
  "apply_directive con (Flag c) = con\<lparr>options := options con OR option_bit c\<rparr>"
| "apply_directive con (Number c n) = numbered c n con"
| "apply_directive con (Secret p) = con\<lparr>con_password := take 20 (p @ replicate 20 NUL)\<rparr>"

fun valid_directive :: "directive \<Rightarrow> bool" where
  "valid_directive (Flag c) \<longleftrightarrow> option_bit c \<noteq> 0"
| "valid_directive (Number c n) \<longleftrightarrow> c \<in> set ''@!%/#()|'' \<and> n < 2 ^ 31"
| "valid_directive (Secret p) \<longleftrightarrow> p \<noteq> [] \<and> quote \<notin> set p \<and> NUL \<notin> set p"

definition inert :: "char \<Rightarrow> bool" where
  "inert c \<longleftrightarrow> c \<noteq> quote \<and> option_bit c = 0 \<and> c \<notin> set ''@!%/#()|''"

lemma option_bit_0: "c \<notin> set ''&-_+~;^$=*'' \<Longrightarrow> option_bit c = 0"
  by (simp add: option_bit_def)

lemma inert_digit:
  assumes "isdigit c"
  shows "inert c"
proof -
  have "\<forall>d \<in> set (quote # ''&-_+~;^$=*@!%/#()|''). \<not> isdigit d" by (simp add: isdigit_def)
  then have "c \<notin> set (quote # ''&-_+~;^$=*@!%/#()|'')" using assms by blast
  then show ?thesis by (simp add: inert_def option_bit_0)
qed

lemma inert_space: "inert (CHR '' '')"
  by (simp add: inert_def option_bit_def)

lemma number_case_None: "number_case c s con = None \<longleftrightarrow> c \<notin> set ''@!%/#()|''"
  by (simp add: number_case_def)

lemma callout_loop_inert: "\<forall>c \<in> set s. inert c \<Longrightarrow> callout_loop (s @ t) con = callout_loop t con"
proof (induction s)
  case (Cons c s)
  have "number_case c (s @ t) con = None" using Cons.prems by (simp only: number_case_None) (simp add: inert_def)
  then show ?case using Cons by (simp add: inert_def)
qed simp

lemma StringToUnsigned_cut:
  assumes "n < 2 ^ 31" "rest = [] \<or> \<not> isdigit (hd rest)"
  shows "StringToUnsignedShort (show_nat n @ rest) = int (min n 65535)"
    and "StringToUnsignedChar (show_nat n @ rest) = int (min n 255)"
    and "StringToChar (show_nat n @ rest) = int (min n 127)"
  using assms by (simp_all add: StringTo_defs stoul_show_nat stoi_show_nat min_def)

lemma number_case_show:
  assumes "c \<in> set ''@!%/#()|''" "n < 2 ^ 31" "rest = [] \<or> \<not> isdigit (hd rest)"
  shows "number_case c (show_nat n @ rest) con = Some (numbered c n con)"
  using assms(1) unfolding number_case_def numbered_def StringToUnsigned_cut [OF assms(2,3)]
  by auto

lemma callout_loop_number:
  assumes "c \<in> set ''@!%/#()|''" "n < 2 ^ 31" "rest = [] \<or> \<not> isdigit (hd rest)"
  shows "callout_loop (c # show_nat n @ rest) con = callout_loop rest (numbered c n con)"
proof -
  obtain d ds where d: "show_nat n = d # ds" by (cases "show_nat n") auto
  have "\<forall>e \<in> set ds. inert e" using isdigit_show_nat [of _ n] by (auto simp: d intro: inert_digit)
  from callout_loop_inert [OF this] number_case_show [OF assms, of con] show ?thesis by (simp add: d)
qed

abbreviation directives_text :: "directive list \<Rightarrow> string" where
  "directives_text ds \<equiv> concat (map (\<lambda>d. CHR '' '' # show_directive d) ds)"

lemma callout_loop_directive:
  assumes "valid_directive d" "rest = [] \<or> hd rest = CHR '' ''"
  shows "callout_loop (show_directive d @ rest) con = callout_loop rest (apply_directive con d)"
proof (cases d)
  case (Flag c)
  then have "number_case c rest con = None" "c \<noteq> quote"
    using assms by (auto simp: number_case_None option_bit_def split: if_splits)
  with Flag show ?thesis by simp
next
  case (Number c n)
  have "rest = [] \<or> \<not> isdigit (hd rest)" using assms(2) by (auto simp: isdigit_def)
  with Number assms(1) callout_loop_number [of c n rest con] show ?thesis by simp
next
  case (Secret p)
  have p: "p \<noteq> []" "quote \<notin> set p" "NUL \<notin> set p" using assms Secret by auto
  have "number_case quote (p @ quote # rest) con = None" by (simp add: number_case_None)
  moreover have "takeWhile (\<lambda>c. c \<noteq> quote) (p @ quote # rest) = p" "dropWhile (\<lambda>c. c \<noteq> quote) (p @ quote # rest) = quote # rest"
    using p by (auto simp: takeWhile_append dropWhile_append takeWhile_eq_all_conv dropWhile_eq_Nil_conv)
  ultimately show ?thesis using Secret p by (simp add: strncpy_def c_str_id)
qed

lemma callout_loop_directives:
  "\<forall>d \<in> set ds. valid_directive d \<Longrightarrow>
    callout_loop (directives_text ds) con = Inr (foldl apply_directive con ds)"
proof (induction ds arbitrary: con)
  case (Cons d ds)
  have space: "callout_loop (CHR '' '' # t) con = callout_loop t con" for t
    using callout_loop_inert [of "'' ''" t con] by (simp add: inert_space)
  have "directives_text ds = [] \<or> hd (directives_text ds) = CHR '' ''" by (cases ds) auto
  with Cons callout_loop_directive [of d "directives_text ds" con] show ?case by (simp add: space del: callout_loop.simps)
qed simp

text \<open>An entry: a node number and its directives.\<close>

type_synonym callout_entry = "nat \<times> directive list"

definition show_entry :: "callout_entry \<Rightarrow> string" where
  "show_entry e = CHR ''@'' # show_nat (fst e) @ directives_text (snd e)"

definition entry_record :: "callout_entry \<Rightarrow> net_call_out_rec" where
  "entry_record e = foldl apply_directive (blank_callout\<lparr>sysnum := word_of_nat (fst e)\<rparr>) (snd e)"

definition valid_entry :: "callout_entry \<Rightarrow> bool" where
  "valid_entry e \<longleftrightarrow> fst e \<le> 65535 \<and> (\<forall>d \<in> set (snd e). valid_directive d \<and> (\<forall>n. d \<noteq> Number (CHR ''@'') n))"

lemma ParseCalloutNetLine_entry:
  assumes "valid_entry e"
  shows "ParseCalloutNetLine (show_entry e) = Inr (Some (entry_record e))"
proof -
  have v: "\<forall>d \<in> set (snd e). valid_directive d" "fst e \<le> 65535" using assms by (auto simp: valid_entry_def)
  have "directives_text (snd e) = [] \<or> \<not> isdigit (hd (directives_text (snd e)))"
    by (cases "snd e") (auto simp: isdigit_def)
  then have "callout_loop (show_entry e) blank_callout
      = callout_loop (directives_text (snd e)) (numbered (CHR ''@'') (fst e) blank_callout)"
    unfolding show_entry_def using v by (intro callout_loop_number) auto
  also have "\<dots> = Inr (entry_record e)"
    using v by (simp add: callout_loop_directives entry_record_def numbered_def)
  finally show ?thesis by (simp add: ParseCalloutNetLine_def) (simp add: show_entry_def)
qed

lemma apply_directive_sysnum: "\<forall>n. d \<noteq> Number (CHR ''@'') n \<Longrightarrow> sysnum (apply_directive con d) = sysnum con"
  by (cases d) (simp_all add: numbered_def)

lemma entry_record_sysnum:
  assumes "valid_entry e"
  shows "sysnum (entry_record e) = word_of_nat (fst e)"
proof -
  have "sysnum (foldl apply_directive con ds) = sysnum con"
    if "\<forall>d \<in> set ds. \<forall>n. d \<noteq> Number (CHR ''@'') n" for ds con
    using that by (induction ds arbitrary: con) (simp_all add: apply_directive_sysnum)
  then show ?thesis using assms by (simp add: entry_record_def valid_entry_def)
qed

lemma show_directive_last:
  assumes "valid_directive d"
  shows "show_directive d \<noteq> []" "\<not> is_white (last (show_directive d))"
proof -
  have "\<not> is_white (last (show_nat n))" for n
    using isdigit_show_nat [of "last (show_nat n)" n] by (auto simp: DELIMS_WHITE_def isdigit_def)
  moreover have "option_bit c \<noteq> 0 \<Longrightarrow> \<not> is_white c" for c by (auto simp: DELIMS_WHITE_def option_bit_def)
  ultimately show "\<not> is_white (last (show_directive d))" using assms by (cases d) (auto simp: DELIMS_WHITE_def)
qed (cases d; simp)

lemma StringTrim_show_entry:
  assumes "valid_entry e"
  shows "StringTrim (show_entry e) = show_entry e"
proof (rule StringTrim_id, rule disjI2, rule conjI)
  show "\<not> is_white (hd (show_entry e))" by (simp add: show_entry_def DELIMS_WHITE_def)
  show "\<not> is_white (last (show_entry e))"
  proof (cases "snd e" rule: rev_cases)
    case Nil
    with show_directive_last(2) [of "Number (CHR ''@'') 0"] isdigit_show_nat [of "last (show_nat (fst e))" "fst e"]
    show ?thesis by (auto simp: show_entry_def DELIMS_WHITE_def isdigit_def)
  next
    case (snoc ds d)
    with assms show_directive_last [of d] show ?thesis by (simp add: show_entry_def valid_entry_def)
  qed
qed

text \<open>A file: comments, which are any lines that do not begin with \<open>@\<close> once trimmed, and entries.\<close>

datatype callout_item = Comment string | Entry callout_entry

fun show_item :: "callout_item \<Rightarrow> string" where
  "show_item (Comment c) = c"
| "show_item (Entry e) = show_entry e"

fun valid_item :: "callout_item \<Rightarrow> bool" where
  "valid_item (Comment c) \<longleftrightarrow> StringTrim c = [] \<or> hd (StringTrim c) \<noteq> CHR ''@''"
| "valid_item (Entry e) \<longleftrightarrow> valid_entry e"

fun entries_of :: "callout_item list \<Rightarrow> callout_entry list" where
  "entries_of [] = []"
| "entries_of (Comment c # is) = entries_of is"
| "entries_of (Entry e # is) = e # entries_of is"

lemma callout_line_comment: "valid_item (Comment c) \<Longrightarrow> callout_line c (Inr m) = Inr m"
  by (auto simp: callout_line_def ParseCalloutNetLine_def bind_res_def)

lemma callout_line_entry:
  assumes "valid_entry e"
  shows "callout_line (show_entry e) (Inr m)
    = Inr (map_emplace (word_of_nat (fst e)) (entry_record e) m)"
  using assms by (simp add: callout_line_def StringTrim_show_entry ParseCalloutNetLine_entry entry_record_sysnum bind_res_def)

lemma callout_fold:
  "\<forall>i \<in> set is. valid_item i \<Longrightarrow>
    foldl (\<lambda>st l. callout_line l st) (Inr m) (map show_item is)
    = Inr (map_of (map (\<lambda>e. (word_of_nat (fst e), entry_record e)) (entries_of is)) ++ m)"
proof (induction "is" arbitrary: m)
  case (Cons i "is")
  then show ?case
    by (cases i) (auto simp: callout_line_comment callout_line_entry map_emplace_add simp del: map_of.simps(2))
qed simp

section \<open>Properties\<close>

text \<open>A callout file made of comments and entries is read back: the lookup of a node gives
  the record of the first entry of that node number, with every directive of that line applied
  in its order and every number cut to its field. The lookup narrows its argument to 16 bits,
  so that a node number beyond 65535 finds the entry of another node.\<close>

theorem Callout_print:
  assumes "\<forall>i \<in> set items. valid_item i \<and> text_line (show_item i)"
  shows "\<exists>m. Callout (Some (print_lines (map show_item items))) = Inr m
    \<and> (\<forall>node. node_config_for m node
          = map_option entry_record (find (\<lambda>e. int (fst e) = node mod 65536) (entries_of items)))"
proof -
  define m :: callout_map where "m = map_of (map (\<lambda>e. (word_of_nat (fst e), entry_record e)) (entries_of items))"
  have valid: "fst e \<le> 65535" if "e \<in> set (entries_of items)" for e
    using assms that by (induction items rule: entries_of.induct) (auto simp: valid_entry_def)
  have "ParseCalloutFile_loop (print_lines (map show_item items)) (Inr Map.empty) = Inr m"
    using assms callout_fold [of items Map.empty] by (subst callout.loop_printed) (auto simp: m_def)
  moreover have "node_config_for m node
      = map_option entry_record (find (\<lambda>e. int (fst e) = node mod 65536) (entries_of items))" for node
  proof -
    have "find (\<lambda>e. word_of_nat (fst e) = (word_of_int node :: u16)) (entries_of items)
        = find (\<lambda>e. int (fst e) = node mod 65536) (entries_of items)"
      using valid by (intro find_node_key) auto
    then show ?thesis by (simp add: node_config_for_def m_def map_of_find)
  qed
  ultimately show ?thesis by (simp add: Callout_def ParseCalloutFile_def)
qed

theorem Callout_print_witness:
  "\<exists>m. Callout (Some (print_lines [''; systems'', ''@1 & !3 '' @ [quote] @ ''pw'' @ [quote], ''@1 #9''])) = Inr m
    \<and> map_option (\<lambda>r. (sysnum r, options r, times_per_day r, take 3 (con_password r))) (node_config_for m 65537)
        = Some (1, 0x21, 3, ''pw'' @ [NUL])
    \<and> node_config_for m 2 = None"
proof -
  let ?items = "[Comment ''; systems'', Entry (1, [Flag (CHR ''&''), Number (CHR ''!'') 3, Secret ''pw'']),
    Entry (1, [Number (CHR ''#'') 9])]"
  have nums: "show_nat 1 = ''1''" "show_nat (Suc 0) = ''1''" "show_nat 3 = ''3''" "show_nat 9 = ''9''"
    by code_simp+
  have "\<forall>i \<in> set ?items. valid_item i \<and> text_line (show_item i)"
    by (simp add: valid_entry_def show_entry_def option_bit_def text_line_def NUL_def nums
        StringTrim_id DELIMS_WHITE_def)
  from Callout_print [OF this] obtain m where m:
    "Callout (Some (print_lines (map show_item ?items))) = Inr m"
    "\<And>node. node_config_for m node = map_option entry_record (find (\<lambda>e. int (fst e) = node mod 65536) (entries_of ?items))"
    by blast
  have "map show_item ?items = [''; systems'', ''@1 & !3 '' @ [quote] @ ''pw'' @ [quote], ''@1 #9'']"
    by (simp add: show_entry_def nums)
  with m(1) have "Callout (Some (print_lines [''; systems'', ''@1 & !3 '' @ [quote] @ ''pw'' @ [quote], ''@1 #9''])) = Inr m"
    by simp
  moreover have "map_option (\<lambda>r. (sysnum r, options r, times_per_day r, take 3 (con_password r))) (node_config_for m 65537)
        = Some (1, 0x21, 3, ''pw'' @ [NUL])"
    by (simp add: m(2) entry_record_def numbered_def blank_callout_def option_bit_def max_def word_le_nat_alt)
  moreover have "node_config_for m 2 = None" by (simp add: m(2))
  ultimately show ?thesis by blast
qed

end
