(* ===== verification/Sdk_Networks.thy ===== *)
theory Sdk_Networks
  imports Core_File Core_Strings
begin

text \<open>
  \<open>sdk/networks.cpp\<close>: the networks a system belongs to, read from \<open>NETWORKS.DAT\<close>, an array of
  100-byte records. Name and directory are the arrays of the record; \<open>strcpy\<close> from an array
  without a NUL reads past it, which is \<open>Inl UndefinedBehaviour\<close>.

  The lemmas show that a written file is read back and that the three lookups agree.
\<close>

record net_networks_rec_disk =
  disk_type :: u8
  disk_name :: bytes
  disk_dir :: bytes
  disk_sysnum :: u16
  disk_padding :: bytes

definition enc_network :: "net_networks_rec_disk \<Rightarrow> bytes" where
  "enc_network n = enc_u8 (disk_type n) @ disk_name n @ disk_dir n @ enc_u16 (disk_sysnum n) @ disk_padding n"

definition dec_network :: "bytes \<Rightarrow> net_networks_rec_disk" where
  "dec_network b = \<lparr>disk_type = dec_u8 (read_at 0 1 b), disk_name = read_at 1 16 b, disk_dir = read_at 17 69 b,
     disk_sysnum = dec_u16 (read_at 86 2 b), disk_padding = read_at 88 12 b\<rparr>"

definition valid_network :: "net_networks_rec_disk \<Rightarrow> bool" where
  "valid_network n \<longleftrightarrow> length (disk_name n) = 16 \<and> length (disk_dir n) = 69 \<and> length (disk_padding n) = 12"

interpretation network_codec: record_codec enc_network dec_network valid_network 100
proof unfold_locales
  show "length (enc_network r) = 100" "dec_network (enc_network r) = r" if "valid_network r" for r
    using that by (simp_all add: enc_network_def dec_network_def valid_network_def read_at_def)
  show "valid_network (dec_network b)" "enc_network (dec_network b) = b" if "length b = 100" for b
    using that by (simp_all add: enc_network_def dec_network_def valid_network_def enc_dec_u8 enc_dec_u16
        length_read_at read_at_last read_at_append_drop)
qed simp

text \<open>The record in memory; its pointers to callout and contact data are not set here.\<close>

record net_networks_rec =
  net_type :: u8
  net_name :: string
  net_dir :: string
  net_sysnum :: u16

type_synonym networks = "net_networks_rec list"

definition load_network :: "net_networks_rec_disk \<Rightarrow> cpp_error + net_networks_rec" where
  "load_network d =
     (if NUL \<in> set (disk_name d) \<and> NUL \<in> set (disk_dir d)
      then Inr \<lparr>net_type = disk_type d, net_name = c_str (disk_name d), net_dir = c_str (disk_dir d),
                net_sysnum = disk_sysnum d\<rparr>
      else Inl UndefinedBehaviour)"

fun load_networks :: "net_networks_rec_disk list \<Rightarrow> cpp_error + networks" where
  "load_networks [] = Inr []"
| "load_networks (d # ds) = bind_res (load_network d) (\<lambda>n. bind_res (load_networks ds) (\<lambda>ns. Inr (n # ns)))"

text \<open>A file that does not open leaves \<open>initialized_\<close> as the memory held it: \<open>None\<close>. All the
  records fit the file, so \<open>Read\<close> gets them.\<close>

definition Networks :: "bool \<Rightarrow> bytes option \<Rightarrow> cpp_error + networks \<times> bool option" where
  "Networks config_initialized file =
     (if \<not> config_initialized then Inl InvalidArgument
      else case file of
        None \<Rightarrow> Inr ([], None)
      | Some c \<Rightarrow>
          (let f = opened c; num_records = DataFile_number_of_records 100 f
           in case fst (DataFile_Read dec_network 100 num_records f) of
                None \<Rightarrow> Inl UndefinedBehaviour
              | Some ds \<Rightarrow> bind_res (load_networks ds) (\<lambda>ns. Inr (ns, Some True))))"

definition network_at :: "networks \<Rightarrow> string \<Rightarrow> cpp_error + net_networks_rec" where
  "network_at ns name =
     (case find (\<lambda>n. IsEqualsIgnoreCase (c_str name) (net_name n)) ns of
        Some n \<Rightarrow> Inr n | None \<Rightarrow> Inl OutOfRange)"

fun network_number_from :: "int \<Rightarrow> networks \<Rightarrow> string \<Rightarrow> int" where
  "network_number_from i [] name = - 1"
| "network_number_from i (n # ns) name =
     (if IsEqualsIgnoreCase (c_str name) (net_name n) then i else network_number_from (i + 1) ns name)"

definition network_number :: "networks \<Rightarrow> string \<Rightarrow> int" where
  "network_number ns name = network_number_from 0 ns name"

fun networks_contains :: "networks \<Rightarrow> string \<Rightarrow> bool" where
  "networks_contains [] name = False"
| "networks_contains (n # ns) name =
     (if IsEqualsIgnoreCase (c_str name) (net_name n) then True else networks_contains ns name)"

section \<open>The lookups agree\<close>

lemma network_lookup:
  "networks_contains ns name = (\<exists>n \<in> set ns. IsEqualsIgnoreCase (c_str name) (net_name n))"
  "networks_contains ns name \<longleftrightarrow> network_number_from i ns name \<noteq> - 1 \<or> \<not> 0 \<le> i \<and> networks_contains ns name"
  "0 \<le> i \<Longrightarrow> networks_contains ns name \<Longrightarrow>
    i \<le> network_number_from i ns name \<and> network_number_from i ns name < i + int (length ns)
    \<and> network_at ns name = Inr (ns ! nat (network_number_from i ns name - i))"
proof -
  show "networks_contains ns name = (\<exists>n \<in> set ns. IsEqualsIgnoreCase (c_str name) (net_name n))"
    by (induction ns) auto
  have none: "\<not> networks_contains ns name \<Longrightarrow> network_number_from i ns name = - 1" for i
    by (induction ns arbitrary: i) (auto split: if_splits)
  have some: "networks_contains ns name \<Longrightarrow> i \<le> network_number_from i ns name
      \<and> network_number_from i ns name < i + int (length ns)
      \<and> network_at ns name = Inr (ns ! nat (network_number_from i ns name - i))" for i
  proof (induction ns arbitrary: i)
    case (Cons n ns)
    show ?case
    proof (cases "IsEqualsIgnoreCase (c_str name) (net_name n)")
      case False
      with Cons have IH: "i + 1 \<le> network_number_from (i + 1) ns name"
        "network_number_from (i + 1) ns name < i + 1 + int (length ns)"
        "network_at ns name = Inr (ns ! nat (network_number_from (i + 1) ns name - (i + 1)))" by auto
      have "nat (network_number_from (i + 1) ns name - i) = Suc (nat (network_number_from (i + 1) ns name - (i + 1)))"
        using IH(1) by simp
      with False IH show ?thesis by (simp add: network_at_def)
    qed (simp add: network_at_def)
  qed simp
  show "networks_contains ns name \<longleftrightarrow> network_number_from i ns name \<noteq> - 1 \<or> \<not> 0 \<le> i \<and> networks_contains ns name"
    using none [of i] some [of i] by (cases "networks_contains ns name") auto
  show "0 \<le> i \<Longrightarrow> networks_contains ns name \<Longrightarrow>
    i \<le> network_number_from i ns name \<and> network_number_from i ns name < i + int (length ns)
    \<and> network_at ns name = Inr (ns ! nat (network_number_from i ns name - i))"
    using some by blast
qed

lemma network_at_unfold:
  "network_at ns name =
    (if networks_contains ns name then Inr (ns ! nat (network_number ns name)) else Inl OutOfRange)"
proof (cases "networks_contains ns name")
  case False
  then have "find (\<lambda>n. IsEqualsIgnoreCase (c_str name) (net_name n)) ns = None"
    by (simp add: network_lookup(1) find_None_iff)
  with False show ?thesis by (simp add: network_at_def)
qed (use network_lookup(3) [of 0 ns name] in \<open>simp add: network_number_def\<close>)

definition in_memory :: "net_networks_rec_disk \<Rightarrow> net_networks_rec" where
  "in_memory d = \<lparr>net_type = disk_type d, net_name = c_str (disk_name d), net_dir = c_str (disk_dir d),
     net_sysnum = disk_sysnum d\<rparr>"

definition terminated :: "net_networks_rec_disk \<Rightarrow> bool" where
  "terminated d \<longleftrightarrow> NUL \<in> set (disk_name d) \<and> NUL \<in> set (disk_dir d)"

lemma load_networks_eq: "\<forall>d \<in> set ds. terminated d \<Longrightarrow> load_networks ds = Inr (map in_memory ds)"
  by (induction ds) (auto simp: load_network_def in_memory_def terminated_def)

lemma Networks_written:
  assumes "\<forall>d \<in> set ds. valid_network d \<and> terminated d"
  shows "Networks True (Some (contents (DataFile_WriteVector enc_network 0 ds (opened []))))
    = Inr (map in_memory ds, Some True)"
proof -
  have "fst (DataFile_ReadVector dec_network 100 0 (opened (contents
      (DataFile_WriteVector enc_network 0 ds (opened []))))) = Some ds"
    using assms by (intro network_codec.DataFile_WriteVector_ReadVector) auto
  moreover have "load_networks ds = Inr (map in_memory ds)" using assms by (intro load_networks_eq) auto
  ultimately show ?thesis
    by (auto simp: Networks_def DataFile_ReadVector_def Let_def DataFile_Read_def split: if_splits)
qed

section \<open>Properties\<close>

text \<open>A network file that was written as a vector of records is loaded record by record, and the
  three lookups agree on it: a network is contained exactly when it has a number, \<open>at\<close> returns
  the record of that number and raises otherwise; names are compared without case.\<close>

theorem Networks_lookup:
  assumes "\<forall>d \<in> set ds. valid_network d \<and> terminated d"
  shows "\<exists>ns. Networks True (Some (contents (DataFile_WriteVector enc_network 0 ds (opened [])))) = Inr (ns, Some True)
    \<and> ns = map in_memory ds
    \<and> (networks_contains ns name = (network_number ns name \<noteq> - 1))
    \<and> networks_contains ns name = (\<exists>d \<in> set ds. map tolower (c_str name) = map tolower (c_str (disk_name d)))
    \<and> network_at ns name = (if networks_contains ns name then Inr (ns ! nat (network_number ns name)) else Inl OutOfRange)"
proof (intro exI conjI)
  show "Networks True (Some (contents (DataFile_WriteVector enc_network 0 ds (opened [])))) = Inr (map in_memory ds, Some True)"
    using assms by (rule Networks_written)
  show "networks_contains (map in_memory ds) name = (network_number (map in_memory ds) name \<noteq> - 1)"
    using network_lookup(2) [of "map in_memory ds" name 0] by (simp add: network_number_def)
  show "networks_contains (map in_memory ds) name = (\<exists>d \<in> set ds. map tolower (c_str name) = map tolower (c_str (disk_name d)))"
    by (auto simp: network_lookup(1) IsEqualsIgnoreCase_def strcasecmp_eq_0_iff in_memory_def)
qed (simp_all add: network_at_unfold)

definition demo_network :: "string \<Rightarrow> string \<Rightarrow> u16 \<Rightarrow> net_networks_rec_disk" where
  "demo_network name dir n = \<lparr>disk_type = 0, disk_name = take 16 (name @ replicate 16 NUL),
     disk_dir = take 69 (dir @ replicate 69 NUL), disk_sysnum = n, disk_padding = replicate 12 NUL\<rparr>"

theorem Networks_lookup_witness:
  "\<exists>ns. Networks True (Some (contents (DataFile_WriteVector enc_network 0
       [demo_network ''wwivnet'' ''/net/'' 1, demo_network ''FidoNet'' ''/fido/'' 5] (opened [])))) = Inr (ns, Some True)
    \<and> network_number ns ''fidonet'' = 1 \<and> map_sum id net_sysnum (network_at ns ''fidonet'') = Inr 5"
proof -
  let ?ds = "[demo_network ''wwivnet'' ''/net/'' 1, demo_network ''FidoNet'' ''/fido/'' 5]"
  have "\<forall>d \<in> set ?ds. valid_network d \<and> terminated d"
    by (simp add: valid_network_def terminated_def demo_network_def)
  from Networks_lookup [OF this, of "''fidonet''"] obtain ns where
    ns: "Networks True (Some (contents (DataFile_WriteVector enc_network 0 ?ds (opened [])))) = Inr (ns, Some True)"
      "ns = map in_memory ?ds" by blast
  have "network_number ns ''fidonet'' = 1" unfolding ns(2) by code_simp
  moreover have "map_sum id net_sysnum (network_at ns ''fidonet'') = Inr 5" unfolding ns(2) by code_simp
  ultimately show ?thesis using ns(1) by blast
qed

end
