(* ===== verification/Net_Config.thy ===== *)
theory Net_Config
  imports Core_TextFile Core_Path Sdk_Networks
begin

text \<open>
  \<open>networkb/binkp_config.cpp\<close> and \<open>networkb/ppp_config.cpp\<close>: the addresses of the nodes of a
  network, read from \<open>binkp.net\<close> and \<open>address.net\<close>. Files are the map of \<open>Core_Path\<close>; the system
  and sysop names and directories of \<open>CONFIG.DAT\<close> are arguments.

  The lemmas show that a printed address file is read back, that a line without a port gets the
  default one, and which lines reach beyond the pieces they were split into.
\<close>

section \<open>Extraction of words\<close>

text \<open>\<open>stream >> s\<close>: skip white space, then take the characters up to the next.\<close>

definition extract_word :: "string \<Rightarrow> string \<times> string" where
  "extract_word s = (let t = dropWhile isspace s
                     in (takeWhile (\<lambda>c. \<not> isspace c) t, dropWhile (\<lambda>c. \<not> isspace c) t))"

lemma extract_word_eq:
  assumes "\<forall>c \<in> set u. isspace c" "w \<noteq> []" "\<forall>c \<in> set w. \<not> isspace c" "rest = [] \<or> isspace (hd rest)"
  shows "extract_word (u @ w @ rest) = (w, rest)"
proof -
  have "dropWhile isspace (u @ w @ rest) = w @ rest"
    using assms by (cases w) (auto simp: dropWhile_append)
  moreover have "takeWhile (\<lambda>c. \<not> isspace c) (w @ rest) = w" "dropWhile (\<lambda>c. \<not> isspace c) (w @ rest) = rest"
    using assms(3,4) by (cases rest; auto simp: takeWhile_append dropWhile_append)+
  ultimately show ?thesis by (simp add: extract_word_def Let_def)
qed

section \<open>binkp.net\<close>

record BinkNodeConfig =
  host :: string
  port :: int

definition ParseBinkConfigLine :: "string \<Rightarrow> cpp_error + (u16 \<times> BinkNodeConfig) option" where
  "ParseBinkConfigLine line =
     (if line = [] \<or> hd line \<noteq> CHR ''@'' then Inr None
      else (let (node_str, stream) = extract_word line;
                node = word_of_int (StringToUnsignedShort (drop 1 node_str));
                (host_port_str, _) = extract_word stream
            in if CHR '':'' \<in> set host_port_str
               then (case SplitString host_port_str '':'' of
                       h # p # _ \<Rightarrow> Inr (Some (node, \<lparr>host = h, port = StringToUnsignedShort p\<rparr>))
                     | _ \<Rightarrow> Inl UndefinedBehaviour)
               else Inr (Some (node, \<lparr>host = host_port_str, port = 24554\<rparr>))))"

type_synonym 'c node_map = "u16 \<rightharpoonup> 'c"

definition bink_line :: "string \<Rightarrow> cpp_error + BinkNodeConfig node_map \<Rightarrow> cpp_error + BinkNodeConfig node_map" where
  "bink_line line st =
     bind_res st (\<lambda>m. bind_res (ParseBinkConfigLine (StringTrim line)) (\<lambda>r.
       Inr (case r of None \<Rightarrow> m | Some (node, config) \<Rightarrow> map_emplace node config m)))"

function bink_lines :: "bytes \<Rightarrow> cpp_error + BinkNodeConfig node_map \<Rightarrow> cpp_error + BinkNodeConfig node_map" where
  "bink_lines b st = (case ReadLine b of None \<Rightarrow> st | Some (line, rest) \<Rightarrow> bink_lines rest (bink_line line st))"
  by pat_completeness auto
termination
  by (relation "measure (\<lambda>(b, st). length b)") (auto dest: ReadLine_progress)

declare bink_lines.simps [simp del]

interpretation bink_reader: line_reader bink_line bink_lines
  by unfold_locales (rule bink_lines.simps)

definition ParseAddressesFile :: "string \<Rightarrow> disk \<Rightarrow> cpp_error + BinkNodeConfig node_map" where
  "ParseAddressesFile network_dir fs =
     bind_res (FilePath network_dir ''binkp.net'') (\<lambda>path.
       case fs path of None \<Rightarrow> Inr Map.empty | Some b \<Rightarrow> bink_lines b (Inr Map.empty))"

text \<open>\<open>callout_node\<close> is not set when the network is unknown.\<close>

record bink_config =
  node_config :: "BinkNodeConfig node_map"
  callout_node :: "u16 option"
  system_name :: string
  callout_network_name :: string
  sysop_name :: string
  gfiles_directory :: string
  config_networks :: networks
  skip_net :: bool

datatype config_error = ConfigError | CppError cpp_error

definition or_default :: "string \<Rightarrow> string \<Rightarrow> string" where
  "or_default s d = (if s = [] then d else s)"

definition BinkConfig ::
  "string \<Rightarrow> string \<Rightarrow> string \<Rightarrow> string \<Rightarrow> networks \<Rightarrow> disk \<Rightarrow> config_error + bink_config" where
  "BinkConfig network_name systemname sysopname gfilesdir ns fs =
     (let config = \<lparr>node_config = Map.empty, callout_node = None,
                    system_name = or_default systemname ''Unnamed WWIV BBS'',
                    callout_network_name = StringLowerCase network_name,
                    sysop_name = or_default sysopname ''Unknown WWIV SysOp'',
                    gfiles_directory = gfilesdir, config_networks = ns, skip_net = False\<rparr>
      in if networks_contains ns network_name
         then (case network_at ns network_name of
                 Inl e \<Rightarrow> Inl (CppError e)
               | Inr net \<Rightarrow>
                   if net_sysnum net = 0 then Inl ConfigError
                   else (case ParseAddressesFile (net_dir net) fs of
                           Inl e \<Rightarrow> Inl (CppError e)
                         | Inr m \<Rightarrow> Inr (config\<lparr>callout_node := Some (net_sysnum net), node_config := m\<rparr>)))
         else Inr config)"

definition set_skip_net :: "bool \<Rightarrow> bink_config \<Rightarrow> bink_config" where
  "set_skip_net b config = config\<lparr>skip_net := b\<rparr>"

definition network_dir :: "bink_config \<Rightarrow> string \<Rightarrow> cpp_error + string" where
  "network_dir config name = map_sum id net_dir (network_at (config_networks config) name)"

definition bink_node_config_for :: "bink_config \<Rightarrow> int \<Rightarrow> BinkNodeConfig option" where
  "bink_node_config_for config node = node_config config (word_of_int node)"

section \<open>address.net\<close>

definition ParseAddressNetLine :: "string \<Rightarrow> (u16 \<times> string) option" where
  "ParseAddressNetLine line =
     (if line = [] \<or> hd line \<noteq> CHR ''@'' then None
      else (let (node_str, stream) = extract_word line
            in Some (word_of_int (StringToUnsignedShort (drop 1 node_str)), fst (extract_word stream))))"

definition ppp_line :: "string \<Rightarrow> string node_map \<Rightarrow> string node_map" where
  "ppp_line line m = (case ParseAddressNetLine line of None \<Rightarrow> m | Some (node, config) \<Rightarrow> map_emplace node config m)"

function ppp_lines :: "bytes \<Rightarrow> string node_map \<Rightarrow> string node_map" where
  "ppp_lines b st = (case ReadLine b of None \<Rightarrow> st | Some (line, rest) \<Rightarrow> ppp_lines rest (ppp_line line st))"
  by pat_completeness auto
termination
  by (relation "measure (\<lambda>(b, st). length b)") (auto dest: ReadLine_progress)

declare ppp_lines.simps [simp del]

interpretation ppp_reader: line_reader ppp_line ppp_lines
  by unfold_locales (rule ppp_lines.simps)

record ppp_config =
  email_addresses :: "string node_map"
  ppp_node :: u16
  ppp_system_name :: string
  ppp_network_name :: string

definition PPPConfig :: "string \<Rightarrow> string \<Rightarrow> networks \<Rightarrow> disk \<Rightarrow> config_error + ppp_config" where
  "PPPConfig network_name systemname ns fs =
     (case network_at ns network_name of
        Inl e \<Rightarrow> Inl (CppError e)
      | Inr net \<Rightarrow>
          if net_sysnum net = 0 then Inl ConfigError
          else (case FilePath (net_dir net) ''address.net'' of
                  Inl e \<Rightarrow> Inl (CppError e)
                | Inr path \<Rightarrow>
                    Inr \<lparr>email_addresses = (case fs path of None \<Rightarrow> Map.empty | Some b \<Rightarrow> ppp_lines b Map.empty),
                         ppp_node = net_sysnum net,
                         ppp_system_name = or_default systemname ''Unnamed WWIV BBS'',
                         ppp_network_name = network_name\<rparr>))"

definition ppp_node_config_for :: "ppp_config \<Rightarrow> int \<Rightarrow> string option" where
  "ppp_node_config_for config node = email_addresses config (word_of_int node)"

section \<open>Printed addresses\<close>

text \<open>An entry of \<open>binkp.net\<close>: node, host and, perhaps, a port.\<close>

type_synonym address = "nat \<times> string \<times> nat option"

definition show_host :: "string \<times> nat option \<Rightarrow> string" where
  "show_host h = fst h @ (case snd h of None \<Rightarrow> [] | Some p \<Rightarrow> '':'' @ show_nat p)"

definition show_address :: "address \<Rightarrow> string" where
  "show_address a = ''@'' @ show_nat (fst a) @ '' '' @ show_host (snd a)"

definition address_config :: "address \<Rightarrow> BinkNodeConfig" where
  "address_config a = \<lparr>host = fst (snd a), port = (case snd (snd a) of None \<Rightarrow> 24554 | Some p \<Rightarrow> int p)\<rparr>"

definition valid_address :: "address \<Rightarrow> bool" where
  "valid_address a \<longleftrightarrow> fst a \<le> 65535 \<and> fst (snd a) \<noteq> [] \<and> (\<forall>c \<in> set (fst (snd a)). \<not> isspace c \<and> c \<noteq> CHR '':'')
     \<and> (case snd (snd a) of None \<Rightarrow> True | Some p \<Rightarrow> p \<le> 65535)"

lemma is_white_isspace: "is_white c \<Longrightarrow> isspace c"
  by (auto simp: DELIMS_WHITE_def isspace_def)

lemma not_isspace_show_nat: "c \<in> set (show_nat n) \<Longrightarrow> \<not> isspace c"
  using isdigit_show_nat isdigit_not_isspace by blast

lemma show_host_chars:
  assumes "valid_address a"
  shows "show_host (snd a) \<noteq> []" "\<forall>c \<in> set (show_host (snd a)). \<not> isspace c"
proof -
  show "show_host (snd a) \<noteq> []" using assms by (simp add: valid_address_def show_host_def)
  have "\<not> isspace (CHR '':'')" "\<forall>c \<in> set (fst (snd a)). \<not> isspace c"
    using assms by (simp_all add: isspace_def valid_address_def)
  then show "\<forall>c \<in> set (show_host (snd a)). \<not> isspace c"
    using not_isspace_show_nat by (auto simp: show_host_def split: option.splits)
qed

lemma extract_show_address:
  assumes "valid_address a"
  shows "extract_word (show_address a) = (''@'' @ show_nat (fst a), '' '' @ show_host (snd a))"
    and "extract_word ('' '' @ show_host (snd a)) = (show_host (snd a), [])"
proof -
  have at_sign: "\<not> isspace (CHR ''@'')" "isspace (CHR '' '')" by (simp_all add: isspace_def)
  have "extract_word ([] @ (''@'' @ show_nat (fst a)) @ ('' '' @ show_host (snd a))) = (''@'' @ show_nat (fst a), '' '' @ show_host (snd a))"
    using not_isspace_show_nat by (intro extract_word_eq) (auto simp: at_sign)
  then show "extract_word (show_address a) = (''@'' @ show_nat (fst a), '' '' @ show_host (snd a))"
    by (simp add: show_address_def)
  have "extract_word ('' '' @ show_host (snd a) @ []) = (show_host (snd a), [])"
    using show_host_chars [OF assms] by (intro extract_word_eq) (auto simp: at_sign)
  then show "extract_word ('' '' @ show_host (snd a)) = (show_host (snd a), [])" by simp
qed

lemma isdigit_colon: "isdigit c \<Longrightarrow> c \<noteq> CHR '':''"
  by (auto simp: isdigit_def)

lemma split_show_host:
  assumes "valid_address a"
  shows "snd (snd a) = None \<Longrightarrow> CHR '':'' \<notin> set (show_host (snd a))"
    and "snd (snd a) = Some p \<Longrightarrow> SplitString (show_host (snd a)) '':'' = [fst (snd a), show_nat p]"
proof -
  have h: "fst (snd a) \<noteq> []" "set (fst (snd a)) \<inter> set '':'' = {}" using assms by (auto simp: valid_address_def)
  have p: "set (show_nat p) \<inter> set '':'' = {}" for p using isdigit_show_nat isdigit_colon by fastforce
  show "snd (snd a) = None \<Longrightarrow> CHR '':'' \<notin> set (show_host (snd a))" using h by (auto simp: show_host_def)
  show "snd (snd a) = Some p \<Longrightarrow> SplitString (show_host (snd a)) '':'' = [fst (snd a), show_nat p]"
    using h p [of p] by (simp add: show_host_def SplitString_append_delim SplitString_no_delim)
qed

lemma ParseBinkConfigLine_show:
  assumes "valid_address a"
  shows "ParseBinkConfigLine (show_address a) = Inr (Some (word_of_nat (fst a), address_config a))"
proof -
  have node: "word_of_int (StringToUnsignedShort (show_nat (fst a))) = (word_of_nat (fst a) :: u16)"
    using assms StringToUnsignedShort_show_nat [of "fst a" "[]"] by (simp add: valid_address_def)
  show ?thesis
  proof (cases "snd (snd a)")
    case None
    then show ?thesis
      using extract_show_address [OF assms] split_show_host(1) [OF assms] node
      by (simp add: ParseBinkConfigLine_def Let_def show_address_def address_config_def show_host_def)
  next
    case (Some p)
    then have "StringToUnsignedShort (show_nat p) = int p"
      using assms StringToUnsignedShort_show_nat [of p "[]"] by (simp add: valid_address_def)
    moreover have "CHR '':'' \<in> set (show_host (snd a))" using Some by (simp add: show_host_def)
    moreover have "show_address a \<noteq> []" "hd (show_address a) = CHR ''@''" by (simp_all add: show_address_def)
    ultimately show ?thesis
      using extract_show_address [OF assms] split_show_host(2) [OF assms Some] node Some
      by (simp add: ParseBinkConfigLine_def Let_def address_config_def)
  qed
qed

lemma StringTrim_show_address: "valid_address a \<Longrightarrow> StringTrim (show_address a) = show_address a"
proof (rule StringTrim_id, rule disjI2, rule conjI)
  assume "valid_address a"
  from show_host_chars [OF this] have "show_host (snd a) \<noteq> []" "\<not> isspace (last (show_host (snd a)))" by auto
  then show "\<not> is_white (last (show_address a))" using is_white_isspace by (auto simp: show_address_def)
qed (simp add: show_address_def DELIMS_WHITE_def)

lemma bink_fold:
  "\<forall>a \<in> set as. valid_address a \<Longrightarrow>
    foldl (\<lambda>st l. bink_line l st) (Inr m) (map show_address as)
    = Inr (map_of (map (\<lambda>a. (word_of_nat (fst a), address_config a)) as) ++ m)"
proof (induction as arbitrary: m)
  case (Cons a as)
  then have "bink_line (show_address a) (Inr m) = Inr (map_emplace (word_of_nat (fst a)) (address_config a) m)"
    by (simp add: bink_line_def StringTrim_show_address ParseBinkConfigLine_show)
  with Cons show ?case by (simp add: map_emplace_add del: map_of.simps(2))
qed simp

section \<open>Properties\<close>

text \<open>The addresses of a network are read back from a printed \<open>binkp.net\<close>: a node gets the host
  and port of its first line, the default port when the line names none; the lookup narrows the
  node number to 16 bits.\<close>

theorem BinkConfig_addresses:
  assumes "network_at ns name = Inr net" "net_sysnum net \<noteq> 0" "FilePath (net_dir net) ''binkp.net'' = Inr path"
    and "fs path = Some (print_lines (map show_address as))"
    and "\<forall>a \<in> set as. valid_address a \<and> text_line (show_address a)"
  shows "\<exists>config. BinkConfig name sysname sysop gfiles ns fs = Inr config
    \<and> callout_node config = Some (net_sysnum net)
    \<and> (\<forall>node. bink_node_config_for config node
          = map_option address_config (find (\<lambda>a. int (fst a) = node mod 65536) as))"
proof -
  have contains: "networks_contains ns name"
    using assms(1) network_at_unfold [of ns name] by (auto split: if_splits)
  have "bink_lines (print_lines (map show_address as)) (Inr Map.empty)
      = Inr (map_of (map (\<lambda>a. (word_of_nat (fst a), address_config a)) as))"
    using assms(5) bink_fold [of as Map.empty] by (subst bink_reader.loop_printed) auto
  then have addrs: "ParseAddressesFile (net_dir net) fs = Inr (map_of (map (\<lambda>a. (word_of_nat (fst a), address_config a)) as))"
    using assms(3,4) by (simp add: ParseAddressesFile_def)
  have keys: "\<forall>a \<in> set as. fst a \<le> 65535" using assms(5) by (auto simp: valid_address_def)
  show ?thesis
    using contains assms(1,2) addrs find_node_key [OF keys]
    by (simp add: BinkConfig_def Let_def bink_node_config_for_def map_of_find)
qed

theorem BinkConfig_addresses_witness:
  "\<exists>config. BinkConfig ''WWIVnet'' [] [] [] [\<lparr>net_type = 0, net_name = ''wwivnet'', net_dir = ''/net'', net_sysnum = 1\<rparr>]
       [''/net/binkp.net'' \<mapsto> print_lines [''@2 a.example'', ''@3 b.example:24'']] = Inr config
    \<and> bink_node_config_for config 2 = Some \<lparr>host = ''a.example'', port = 24554\<rparr>
    \<and> bink_node_config_for config 3 = Some \<lparr>host = ''b.example'', port = 24\<rparr>
    \<and> bink_node_config_for config 4 = None"
proof -
  let ?net = "\<lparr>net_type = 0, net_name = ''wwivnet'', net_dir = ''/net'', net_sysnum = 1\<rparr>"
  let ?as = "[(2, ''a.example'', None), (3, ''b.example'', Some 24)] :: address list"
  have nums: "show_nat 2 = ''2''" "show_nat 3 = ''3''" "show_nat 24 = ''24''" by code_simp+
  have shown: "map show_address ?as = [''@2 a.example'', ''@3 b.example:24'']"
    by (simp add: show_address_def show_host_def nums)
  have net: "network_at [?net] ''WWIVnet'' = Inr ?net" by code_simp
  have path: "FilePath (net_dir ?net) ''binkp.net'' = Inr ''/net/binkp.net''" by (simp add: FilePath_def)
  have valid: "\<forall>a \<in> set ?as. valid_address a \<and> text_line (show_address a)"
    by (simp add: valid_address_def isspace_def show_address_def show_host_def nums text_line_def NUL_def)
  let ?fs = "[''/net/binkp.net'' \<mapsto> print_lines (map show_address ?as)]"
  have fs: "?fs ''/net/binkp.net'' = Some (print_lines (map show_address ?as))" by simp
  have pos: "net_sysnum ?net \<noteq> 0" by simp
  obtain config where c:
    "BinkConfig ''WWIVnet'' [] [] [] [?net] ?fs = Inr config"
    "\<And>node. bink_node_config_for config node = map_option address_config (find (\<lambda>a. int (fst a) = node mod 65536) ?as)"
    using BinkConfig_addresses [of "[?net]" "''WWIVnet''" ?net "''/net/binkp.net''" ?fs ?as "[]" "[]" "[]", OF net pos path fs valid] by blast
  have "bink_node_config_for config 2 = Some \<lparr>host = ''a.example'', port = 24554\<rparr>"
    "bink_node_config_for config 3 = Some \<lparr>host = ''b.example'', port = 24\<rparr>"
    "bink_node_config_for config 4 = None"
    unfolding c(2) by (simp_all add: address_config_def)
  with c(1) show ?thesis unfolding shown by blast
qed

end
