(* ===== verification/Core_Md5.thy ===== *)
theory Core_Md5
  imports Core_File
begin

unbundle bit_operations_syntax

text \<open>
  \<open>core/md5.cpp\<close>: MD5 as a stream. \<open>body\<close> processes blocks of 64 bytes, \<open>MD5_Update\<close> keeps the
  bytes of the last incomplete block in \<open>buffer\<close> and the length in \<open>lo\<close> (29 bits) and \<open>hi\<close>,
  \<open>MD5_Final\<close> pads. All integers of the context are 32 bits wide, \<open>unsigned long\<close> has 64 bits
  (\<open>nat\<close> here, sizes being lengths of lists).

  The specification is the algorithm on whole messages (\<open>md5\<close>): padding, then a fold over the
  blocks. \<open>md5_rep\<close> says which message a context has absorbed; with it the code is an instance
  of the locale \<open>hash_stream\<close>, the contract that \<open>Net_Cram\<close> relies on.
\<close>

section \<open>The block function\<close>

type_synonym md5_state = "u32 \<times> u32 \<times> u32 \<times> u32"

definition MD5_F :: "u32 \<Rightarrow> u32 \<Rightarrow> u32 \<Rightarrow> u32" where
  "MD5_F x y z = z XOR (x AND (y XOR z))"

definition MD5_G :: "u32 \<Rightarrow> u32 \<Rightarrow> u32 \<Rightarrow> u32" where
  "MD5_G x y z = y XOR (z AND (x XOR y))"

definition MD5_H :: "u32 \<Rightarrow> u32 \<Rightarrow> u32 \<Rightarrow> u32" where
  "MD5_H x y z = (x XOR y) XOR z"

definition MD5_H2 :: "u32 \<Rightarrow> u32 \<Rightarrow> u32 \<Rightarrow> u32" where
  "MD5_H2 x y z = x XOR (y XOR z)"

definition MD5_I :: "u32 \<Rightarrow> u32 \<Rightarrow> u32 \<Rightarrow> u32" where
  "MD5_I x y z = y XOR (x OR NOT z)"

text \<open>
  \<open>STEP\<close> updates its first variable; from one step to the next the four variables change
  roles, which is the rotation of the tuple, and after 64 steps they have their own again.
\<close>

definition MD5_STEP ::
  "(u32 \<Rightarrow> u32 \<Rightarrow> u32 \<Rightarrow> u32) \<Rightarrow> u32 \<Rightarrow> u32 \<Rightarrow> nat \<Rightarrow> md5_state \<Rightarrow> md5_state" where
  "MD5_STEP f x t s st =
     (let (a, b, c, d) = st;
          a1 = a + (f b c d + x + t);
          a2 = push_bit s a1 OR drop_bit (32 - s) (a1 AND 0xffffffff)
      in (d, a2 + b, b, c))"

definition MD5_SET :: "bytes \<Rightarrow> nat \<Rightarrow> u32" where
  "MD5_SET ptr n = dec_u32 (take 4 (drop (n * 4) ptr))"

definition md5_steps :: "((u32 \<Rightarrow> u32 \<Rightarrow> u32 \<Rightarrow> u32) \<times> nat \<times> u32 \<times> nat) list" where
  "md5_steps =
     [(MD5_F, 0, 0xd76aa478, 7), (MD5_F, 1, 0xe8c7b756, 12), (MD5_F, 2, 0x242070db, 17), (MD5_F, 3, 0xc1bdceee, 22),
      (MD5_F, 4, 0xf57c0faf, 7), (MD5_F, 5, 0x4787c62a, 12), (MD5_F, 6, 0xa8304613, 17), (MD5_F, 7, 0xfd469501, 22),
      (MD5_F, 8, 0x698098d8, 7), (MD5_F, 9, 0x8b44f7af, 12), (MD5_F, 10, 0xffff5bb1, 17), (MD5_F, 11, 0x895cd7be, 22),
      (MD5_F, 12, 0x6b901122, 7), (MD5_F, 13, 0xfd987193, 12), (MD5_F, 14, 0xa679438e, 17), (MD5_F, 15, 0x49b40821, 22),
      (MD5_G, 1, 0xf61e2562, 5), (MD5_G, 6, 0xc040b340, 9), (MD5_G, 11, 0x265e5a51, 14), (MD5_G, 0, 0xe9b6c7aa, 20),
      (MD5_G, 5, 0xd62f105d, 5), (MD5_G, 10, 0x02441453, 9), (MD5_G, 15, 0xd8a1e681, 14), (MD5_G, 4, 0xe7d3fbc8, 20),
      (MD5_G, 9, 0x21e1cde6, 5), (MD5_G, 14, 0xc33707d6, 9), (MD5_G, 3, 0xf4d50d87, 14), (MD5_G, 8, 0x455a14ed, 20),
      (MD5_G, 13, 0xa9e3e905, 5), (MD5_G, 2, 0xfcefa3f8, 9), (MD5_G, 7, 0x676f02d9, 14), (MD5_G, 12, 0x8d2a4c8a, 20),
      (MD5_H, 5, 0xfffa3942, 4), (MD5_H2, 8, 0x8771f681, 11), (MD5_H, 11, 0x6d9d6122, 16), (MD5_H2, 14, 0xfde5380c, 23),
      (MD5_H, 1, 0xa4beea44, 4), (MD5_H2, 4, 0x4bdecfa9, 11), (MD5_H, 7, 0xf6bb4b60, 16), (MD5_H2, 10, 0xbebfbc70, 23),
      (MD5_H, 13, 0x289b7ec6, 4), (MD5_H2, 0, 0xeaa127fa, 11), (MD5_H, 3, 0xd4ef3085, 16), (MD5_H2, 6, 0x04881d05, 23),
      (MD5_H, 9, 0xd9d4d039, 4), (MD5_H2, 12, 0xe6db99e5, 11), (MD5_H, 15, 0x1fa27cf8, 16), (MD5_H2, 2, 0xc4ac5665, 23),
      (MD5_I, 0, 0xf4292244, 6), (MD5_I, 7, 0x432aff97, 10), (MD5_I, 14, 0xab9423a7, 15), (MD5_I, 5, 0xfc93a039, 21),
      (MD5_I, 12, 0x655b59c3, 6), (MD5_I, 3, 0x8f0ccc92, 10), (MD5_I, 10, 0xffeff47d, 15), (MD5_I, 1, 0x85845dd1, 21),
      (MD5_I, 8, 0x6fa87e4f, 6), (MD5_I, 15, 0xfe2ce6e0, 10), (MD5_I, 6, 0xa3014314, 15), (MD5_I, 13, 0x4e0811a1, 21),
      (MD5_I, 4, 0xf7537e82, 6), (MD5_I, 11, 0xbd3af235, 10), (MD5_I, 2, 0x2ad7d2bb, 15), (MD5_I, 9, 0xeb86d391, 21)]"

definition md5_block :: "bytes \<Rightarrow> md5_state \<Rightarrow> md5_state" where
  "md5_block ptr st = foldl (\<lambda>st (f, n, t, s). MD5_STEP f (MD5_SET ptr n) t s st) st md5_steps"

definition add_state :: "md5_state \<Rightarrow> md5_state \<Rightarrow> md5_state" where
  "add_state st saved =
     (let (a, b, c, d) = st; (saved_a, saved_b, saved_c, saved_d) = saved
      in (a + saved_a, b + saved_b, c + saved_c, d + saved_d))"

text \<open>\<open>size\<close> is the length of \<open>data\<close>, a positive multiple of 64 in every call.\<close>

function md5_body :: "bytes \<Rightarrow> md5_state \<Rightarrow> md5_state" where
  "md5_body data st =
     (let st' = add_state (md5_block (take 64 data) st) st
      in if length data \<le> 64 then st' else md5_body (drop 64 data) st')"
  by pat_completeness auto
termination
  by (relation "measure (\<lambda>(data, st). length data)") auto

declare md5_body.simps [simp del]

section \<open>The stream\<close>

record md5_ctx =
  md5_lo :: u32
  md5_hi :: u32
  md5_abcd :: md5_state
  md5_buffer :: bytes

definition md5_init_state :: md5_state where
  "md5_init_state = (0x67452301, 0xefcdab89, 0x98badcfe, 0x10325476)"

text \<open>The buffer of a new context holds whatever the memory held.\<close>

definition MD5_Init :: "md5_ctx \<Rightarrow> md5_ctx" where
  "MD5_Init ctx = ctx\<lparr>md5_abcd := md5_init_state, md5_lo := 0, md5_hi := 0\<rparr>"

definition memcpy_at :: "bytes \<Rightarrow> nat \<Rightarrow> bytes \<Rightarrow> bytes" where
  "memcpy_at dst p src = take p dst @ src @ drop (p + length src) dst"

definition MD5_Update :: "bytes \<Rightarrow> md5_ctx \<Rightarrow> md5_ctx" where
  "MD5_Update data ctx =
     (let size = length data;
          saved_lo = md5_lo ctx;
          lo = word_of_nat ((unat saved_lo + size) AND 0x1fffffff);
          hi = (if lo < saved_lo then md5_hi ctx + 1 else md5_hi ctx) + word_of_nat (size div 2 ^ 29);
          ctx1 = ctx\<lparr>md5_lo := lo, md5_hi := hi\<rparr>;
          used = unat (saved_lo AND 0x3f);
          available = 64 - used
      in if used \<noteq> 0 \<and> size < available
         then ctx1\<lparr>md5_buffer := memcpy_at (md5_buffer ctx1) used data\<rparr>
         else (let (data2, ctx2) =
                 (if used \<noteq> 0
                  then (let buf = memcpy_at (md5_buffer ctx1) used (take available data)
                        in (drop available data,
                            ctx1\<lparr>md5_buffer := buf, md5_abcd := md5_body buf (md5_abcd ctx1)\<rparr>))
                  else (data, ctx1));
               (data3, ctx3) =
                 (if 64 \<le> length data2
                  then (let n = length data2 - length data2 mod 64
                        in (drop n data2, ctx2\<lparr>md5_abcd := md5_body (take n data2) (md5_abcd ctx2)\<rparr>))
                  else (data2, ctx2))
               in ctx3\<lparr>md5_buffer := memcpy_at (md5_buffer ctx3) 0 data3\<rparr>))"

text \<open>A byte of a word: the conversion to \<open>unsigned char\<close>.\<close>

definition byte_of :: "u32 \<Rightarrow> nat \<Rightarrow> char" where
  "byte_of w n = char_of (unat (drop_bit n w) mod 256)"

definition word_bytes :: "u32 \<Rightarrow> bytes" where
  "word_bytes w = [byte_of w 0, byte_of w 8, byte_of w 16, byte_of w 24]"

definition MD5_Final :: "md5_ctx \<Rightarrow> bytes" where
  "MD5_Final ctx =
     (let used0 = unat (md5_lo ctx AND 0x3f);
          buf0 = (md5_buffer ctx)[used0 := CHR 0x80];
          used1 = used0 + 1;
          available1 = 64 - used1;
          (used, available, buf1, st1) =
            (if available1 < 8
             then (let buf = memcpy_at buf0 used1 (replicate available1 NUL)
                   in (0, 64, buf, md5_body buf (md5_abcd ctx)))
             else (used1, available1, buf0, md5_abcd ctx));
          buf2 = memcpy_at buf1 used (replicate (available - 8) NUL);
          lo = push_bit 3 (md5_lo ctx);
          buf3 = memcpy_at buf2 56 (word_bytes lo @ word_bytes (md5_hi ctx));
          (a, b, c, d) = md5_body buf3 st1
      in word_bytes a @ word_bytes b @ word_bytes c @ word_bytes d)"

section \<open>The specification\<close>

text \<open>MD5 of a whole message, as RFC 1321 describes it: a 1 bit, zeros up to 8 bytes before the
  end of a block, the length in bits as a 64-bit number, then the blocks one after the other.\<close>

definition md5_pad :: "bytes \<Rightarrow> bytes" where
  "md5_pad m = m @ CHR 0x80 # replicate ((119 - length m mod 64) mod 64) NUL @ le_bytes 8 (8 * length m)"

fun md5_fold :: "bytes list \<Rightarrow> md5_state \<Rightarrow> md5_state" where
  "md5_fold [] st = st"
| "md5_fold (blk # blks) st = md5_fold blks (add_state (md5_block blk st) st)"

definition blocks64 :: "bytes \<Rightarrow> bytes list" where
  "blocks64 m = map (\<lambda>i. take 64 (drop (i * 64) m)) [0..<length m div 64]"

definition md5_output :: "md5_state \<Rightarrow> bytes" where
  "md5_output st = (let (a, b, c, d) = st in enc_u32 a @ enc_u32 b @ enc_u32 c @ enc_u32 d)"

definition md5 :: "bytes \<Rightarrow> bytes" where
  "md5 m = md5_output (md5_fold (blocks64 (md5_pad m)) md5_init_state)"

section \<open>Blocks\<close>

lemma md5_fold_append: "md5_fold (xs @ ys) st = md5_fold ys (md5_fold xs st)"
  by (induction xs arbitrary: st) auto

lemma blocks64_short [simp]: "length m < 64 \<Longrightarrow> blocks64 m = []"
  by (simp add: blocks64_def)

lemma length_blocks64 [simp]: "length (blocks64 m) = length m div 64"
  by (simp add: blocks64_def)

lemma blocks64_append:
  assumes "length x = 64 * k"
  shows "blocks64 (x @ y) = blocks64 x @ blocks64 y"
proof (rule nth_equalityI)
  show "length (blocks64 (x @ y)) = length (blocks64 x @ blocks64 y)" using assms by simp
  fix i assume "i < length (blocks64 (x @ y))"
  then have i: "i < k + length y div 64" using assms by simp
  show "blocks64 (x @ y) ! i = (blocks64 x @ blocks64 y) ! i"
  proof (cases "i < k")
    case True
    then have "Suc i * 64 \<le> k * 64" by (intro mult_le_mono1) simp
    then show ?thesis using True i assms by (simp add: blocks64_def nth_append)
  next
    case False
    then have "i * 64 - 64 * k = (i - k) * 64" "64 * k \<le> i * 64" by (simp_all add: diff_mult_distrib)
    then show ?thesis using False i assms by (simp add: blocks64_def nth_append)
  qed
qed

lemma blocks64_one: "length x = 64 \<Longrightarrow> blocks64 x = [x]"
  by (simp add: blocks64_def)

lemma md5_body_eq:
  "length data = 64 * Suc k \<Longrightarrow> md5_body data st = md5_fold (blocks64 data) st"
proof (induction k arbitrary: data st)
  case 0
  then show ?case by (subst md5_body.simps) (simp add: Let_def blocks64_one)
next
  case (Suc k)
  have "data = take 64 data @ drop 64 data" by simp
  moreover have "blocks64 (take 64 data @ drop 64 data) = blocks64 (take 64 data) @ blocks64 (drop 64 data)"
    using Suc.prems by (intro blocks64_append [of _ 1]) simp
  ultimately have split: "blocks64 data = take 64 data # blocks64 (drop 64 data)"
    using Suc.prems by (simp add: blocks64_one)
  have "md5_body (drop 64 data) st' = md5_fold (blocks64 (drop 64 data)) st'" for st'
    using Suc.prems by (intro Suc.IH) simp
  with Suc.prems show ?case by (subst md5_body.simps) (simp add: Let_def split)
qed

lemma length_memcpy_at [simp]: "p + length src \<le> length dst \<Longrightarrow> length (memcpy_at dst p src) = length dst"
  by (simp add: memcpy_at_def)

section \<open>What a context has absorbed\<close>

definition md5_rep :: "md5_ctx \<Rightarrow> bytes \<Rightarrow> bool" where
  "md5_rep ctx m \<longleftrightarrow> length (md5_buffer ctx) = 64
     \<and> md5_abcd ctx = md5_fold (blocks64 m) md5_init_state
     \<and> take (length m mod 64) (md5_buffer ctx) = drop (64 * (length m div 64)) m
     \<and> md5_lo ctx = word_of_nat (length m mod 2 ^ 29) \<and> md5_hi ctx = word_of_nat (length m div 2 ^ 29)"

lemma md5_rep_Init: "length (md5_buffer ctx) = 64 \<Longrightarrow> md5_rep (MD5_Init ctx) []"
  by (simp add: md5_rep_def MD5_Init_def)

lemma unat_and_63: "unat (w AND 0x3f :: u32) = unat w mod 64"
proof -
  have eq: "w AND 0x3f = take_bit 6 w" by (simp add: take_bit_eq_mask mask_eq_exp_minus_1)
  show ?thesis unfolding eq unsigned_take_bit_eq by (simp add: take_bit_eq_mod)
qed

lemma nat_and_mask29: "(n AND 0x1fffffff :: nat) = n mod 2 ^ 29"
proof -
  have "n AND mask 29 = n mod 2 ^ 29" by (simp flip: take_bit_eq_mask add: take_bit_eq_mod)
  then show ?thesis by (simp add: mask_eq_exp_minus_1)
qed

lemma unat_lo: "unat (word_of_nat (n mod 2 ^ 29) :: u32) = n mod 2 ^ 29"
proof -
  have "n mod 2 ^ 29 < 2 ^ 29" by simp
  then show ?thesis by (simp add: unat_of_nat)
qed

lemma md5_used: "md5_rep ctx m \<Longrightarrow> unat (md5_lo ctx AND 0x3f) = length m mod 64"
proof -
  have "length m mod 2 ^ 29 mod 64 = length m mod 64" by (rule mod_mod_cancel) simp
  then show "md5_rep ctx m \<Longrightarrow> ?thesis" unfolding md5_rep_def unat_and_63 by (simp only: unat_lo)
qed

lemma carry_div:
  fixes M n k :: nat
  assumes "0 < M"
  shows "(n + k) div M = n div M + k div M + (if (n + k) mod M < n mod M then 1 else 0)"
proof -
  have nk: "n + k = M * (n div M + k div M) + (n mod M + k mod M)" by (simp add: algebra_simps)
  have small: "n mod M < M" "k mod M < M" using assms by simp_all
  show ?thesis
  proof (cases "n mod M + k mod M < M")
    case True
    then have "(n + k) div M = n div M + k div M" "(n + k) mod M = n mod M + k mod M"
      using assms by (subst nk, simp)+
    then show ?thesis by simp
  next
    case False
    define e where "e = n mod M + k mod M - M"
    have e: "n mod M + k mod M = M + e" "e < M" "e < n mod M" using False small unfolding e_def by linarith+
    define q where "q = n div M + k div M + 1"
    have nk': "n + k = M * q + e" using nk e(1) by (simp add: q_def)
    have "(n + k) div M = q" "(n + k) mod M = e"
      unfolding nk' using assms e(2) by simp_all
    then show ?thesis using e(3) by (simp add: q_def)
  qed
qed

text \<open>The counters are those of the longer message.\<close>

lemma md5_count:
  fixes n k :: nat
  defines "lo \<equiv> word_of_nat (n mod 2 ^ 29) :: u32"
  defines "lo' \<equiv> word_of_nat ((unat lo + k) AND 0x1fffffff) :: u32"
  shows "lo' = word_of_nat ((n + k) mod 2 ^ 29)"
    and "(if lo' < lo then word_of_nat (n div 2 ^ 29) + 1 else word_of_nat (n div 2 ^ 29)) + word_of_nat (k div 2 ^ 29)
      = (word_of_nat ((n + k) div 2 ^ 29) :: u32)"
proof -
  let ?M = "2 ^ 29 :: nat"
  have lo: "unat lo = n mod ?M" unfolding lo_def by (rule unat_lo)
  have "(n mod ?M + k) mod ?M = (n + k) mod ?M" by (simp only: mod_simps)
  then show lo': "lo' = word_of_nat ((n + k) mod ?M)" unfolding lo'_def lo nat_and_mask29 by simp
  have "unat lo' = (n + k) mod ?M" unfolding lo' by (rule unat_lo)
  then have less: "lo' < lo \<longleftrightarrow> (n + k) mod ?M < n mod ?M" using lo by (simp only: word_less_nat_alt)
  have "(n + k) div ?M = n div ?M + k div ?M + (if (n + k) mod ?M < n mod ?M then 1 else 0)"
    by (rule carry_div) simp
  then show "(if lo' < lo then word_of_nat (n div ?M) + 1 else word_of_nat (n div ?M)) + word_of_nat (k div ?M)
      = (word_of_nat ((n + k) div ?M) :: u32)"
    unfolding less by (simp del: of_nat_add add: of_nat_add [symmetric])
qed

lemma md5_repI:
  assumes "m = z @ w" "length z = 64 * k" "length w < 64" "length (md5_buffer ctx) = 64"
    and "md5_abcd ctx = md5_fold (blocks64 z) md5_init_state" "take (length w) (md5_buffer ctx) = w"
    and "md5_lo ctx = word_of_nat (length m mod 2 ^ 29)" "md5_hi ctx = word_of_nat (length m div 2 ^ 29)"
  shows "md5_rep ctx m"
proof -
  have "length m div 64 = k" "length m mod 64 = length w" using assms(1-3) by simp_all
  moreover have "blocks64 m = blocks64 z" using assms(1-3) by (simp add: blocks64_append)
  ultimately show ?thesis using assms by (simp add: md5_rep_def)
qed

lemma md5_repE:
  assumes "md5_rep ctx m"
  obtains z w where "m = z @ w" "length z = 64 * (length m div 64)" "length w = length m mod 64"
    "length (md5_buffer ctx) = 64" "md5_abcd ctx = md5_fold (blocks64 z) md5_init_state"
    "take (length w) (md5_buffer ctx) = w"
proof
  let ?z = "take (64 * (length m div 64)) m" and ?w = "drop (64 * (length m div 64)) m"
  show "m = ?z @ ?w" by simp
  have le: "64 * (length m div 64) \<le> length m" by simp
  then show lz: "length ?z = 64 * (length m div 64)" by simp
  have "length m = 64 * (length m div 64) + length m mod 64" by simp
  then show lw: "length ?w = length m mod 64" unfolding length_drop by linarith
  have "blocks64 (?z @ ?w) = blocks64 ?z @ blocks64 ?w" using lz by (rule blocks64_append)
  moreover have "blocks64 ?w = []" by (rule blocks64_short) (unfold lw, simp)
  ultimately have "blocks64 m = blocks64 ?z" by simp
  then show "md5_abcd ctx = md5_fold (blocks64 ?z) md5_init_state" using assms by (simp add: md5_rep_def)
  show "length (md5_buffer ctx) = 64" using assms by (simp add: md5_rep_def)
  show "take (length ?w) (md5_buffer ctx) = ?w" using assms unfolding lw by (simp add: md5_rep_def)
qed

text \<open>Absorbing the tail of the data once the buffer is empty.\<close>

lemma md5_rep_rest:
  assumes "m = z @ data2" "length z = 64 * k"
    and "length (md5_buffer ctx2) = 64" "md5_abcd ctx2 = md5_fold (blocks64 z) md5_init_state"
    and "md5_lo ctx2 = word_of_nat (length m mod 2 ^ 29)" "md5_hi ctx2 = word_of_nat (length m div 2 ^ 29)"
    and "(data3, ctx3) = (if 64 \<le> length data2
           then (let n = length data2 - length data2 mod 64
                 in (drop n data2, ctx2\<lparr>md5_abcd := md5_body (take n data2) (md5_abcd ctx2)\<rparr>))
           else (data2, ctx2))"
  shows "md5_rep (ctx3\<lparr>md5_buffer := memcpy_at (md5_buffer ctx3) 0 data3\<rparr>) m"
proof (cases "64 \<le> length data2")
  case False
  with assms show ?thesis by (intro md5_repI [of m z data3 k]) (simp_all add: memcpy_at_def)
next
  case True
  define j where "j = length data2 div 64 - 1"
  define n where "n = length data2 - length data2 mod 64"
  have len: "length data2 = 64 * (length data2 div 64) + length data2 mod 64" by simp
  have n: "n = 64 * Suc j" using True unfolding n_def j_def by (simp add: minus_mod_eq_mult_div)
  have nle: "n \<le> length data2" by (simp add: n_def)
  then have ln: "length (take n data2) = 64 * Suc j" using n by simp
  have "length (drop n data2) = length data2 mod 64" by (simp add: n_def)
  then have small: "length (drop n data2) < 64" by simp
  have three: "data3 = drop n data2" "ctx3 = ctx2\<lparr>md5_abcd := md5_body (take n data2) (md5_abcd ctx2)\<rparr>"
    using assms(7) True by (simp_all add: Let_def n_def)
  have "md5_body (take n data2) (md5_abcd ctx2) = md5_fold (blocks64 (z @ take n data2)) md5_init_state"
    by (simp only: md5_body_eq [OF ln] assms(4) blocks64_append [OF assms(2)] md5_fold_append)
  then show ?thesis
    using assms small by (intro md5_repI [of m "z @ take n data2" "drop n data2" "k + Suc j"])
      (simp_all add: three memcpy_at_def ln [simplified])
qed

lemma md5_rep_Update:
  assumes "md5_rep ctx m"
  shows "md5_rep (MD5_Update data ctx) (m @ data)"
proof -
  obtain z w where m: "m = z @ w" and z0: "length z = 64 * (length m div 64)" and w: "length w = length m mod 64"
    and buf: "length (md5_buffer ctx) = 64" and st: "md5_abcd ctx = md5_fold (blocks64 z) md5_init_state"
    and tk: "take (length w) (md5_buffer ctx) = w"
    using assms by (rule md5_repE)
  define k where "k = length m div 64"
  have z: "length z = 64 * k" using z0 by (simp add: k_def)
  define ctx1 where "ctx1 = ctx\<lparr>md5_lo := word_of_nat (length (m @ data) mod 2 ^ 29),
    md5_hi := word_of_nat (length (m @ data) div 2 ^ 29)\<rparr>"
  have used: "unat (md5_lo ctx AND 0x3f) = length w" using md5_used [OF assms] w by simp
  have lh: "md5_lo ctx = word_of_nat (length m mod 2 ^ 29)" "md5_hi ctx = word_of_nat (length m div 2 ^ 29)"
    using assms by (simp_all add: md5_rep_def)
  have c1: "ctx\<lparr>md5_lo := word_of_nat ((unat (md5_lo ctx) + length data) AND 0x1fffffff),
      md5_hi := (if word_of_nat ((unat (md5_lo ctx) + length data) AND 0x1fffffff) < md5_lo ctx
                 then md5_hi ctx + 1 else md5_hi ctx) + word_of_nat (length data div 2 ^ 29)\<rparr> = ctx1"
    using md5_count [of "length m" "length data"] unfolding ctx1_def lh by simp
  have w64: "length w < 64" unfolding w by simp
  let ?rest = "\<lambda>data2 ctx2. (if 64 \<le> length data2
      then (let n = length data2 - length data2 mod 64
            in (drop n data2, ctx2\<lparr>md5_abcd := md5_body (take n data2) (md5_abcd ctx2)\<rparr>))
      else (data2, ctx2)) :: bytes \<times> md5_ctx"
  consider "length w \<noteq> 0" "length data < 64 - length w" | "length w \<noteq> 0" "64 - length w \<le> length data" | "w = []"
    by fastforce
  then show ?thesis
  proof cases
    case 1
    then have "MD5_Update data ctx = ctx1\<lparr>md5_buffer := memcpy_at (md5_buffer ctx1) (length w) data\<rparr>"
      unfolding MD5_Update_def Let_def used c1 by simp
    moreover have "md5_rep (ctx1\<lparr>md5_buffer := memcpy_at (md5_buffer ctx1) (length w) data\<rparr>) (m @ data)"
      using 1 z buf st tk
      by (intro md5_repI [of _ z "w @ data" k])
        (simp_all add: m ctx1_def, simp add: memcpy_at_def)
    ultimately show ?thesis by (simp only:)
  next
    case 2
    let ?a = "64 - length w"
    let ?buf = "memcpy_at (md5_buffer ctx1) (length w) (take ?a data)"
    let ?ctx2 = "ctx1\<lparr>md5_buffer := ?buf, md5_abcd := md5_body ?buf (md5_abcd ctx1)\<rparr>"
    obtain data3 ctx3 where r: "?rest (drop ?a data) ?ctx2 = (data3, ctx3)" by (cases "?rest (drop ?a data) ?ctx2")
    have upd: "MD5_Update data ctx = ctx3\<lparr>md5_buffer := memcpy_at (md5_buffer ctx3) 0 data3\<rparr>"
    proof -
      have c: "(length w \<noteq> 0) = True" "(length data < 64 - length w) = False" using 2 by auto
      show ?thesis
        unfolding MD5_Update_def Let_def used c1
        by (simp only: c if_True if_False simp_thms prod.case r [unfolded Let_def])
    qed
    have full: "?buf = w @ take ?a data" using buf tk 2(2) w64 by (simp add: memcpy_at_def ctx1_def)
    have l1: "length (w @ take ?a data) = 64 * Suc 0" using 2(2) w64 by simp
    have "md5_body ?buf (md5_abcd ctx1) = md5_fold (blocks64 (z @ w @ take ?a data)) md5_init_state"
      unfolding full blocks64_append [OF z] md5_fold_append md5_body_eq [OF l1] by (simp add: ctx1_def st)
    then have "md5_rep (ctx3\<lparr>md5_buffer := memcpy_at (md5_buffer ctx3) 0 data3\<rparr>) (m @ data)"
      using z l1 by (intro md5_rep_rest [OF _ _ _ _ _ _ r [symmetric], of _ "z @ w @ take ?a data" "k + 1"])
        (simp_all add: m full, simp_all add: ctx1_def m)
    then show ?thesis unfolding upd .
  next
    case 3
    obtain data3 ctx3 where r: "?rest data ctx1 = (data3, ctx3)" by (cases "?rest data ctx1")
    have upd: "MD5_Update data ctx = ctx3\<lparr>md5_buffer := memcpy_at (md5_buffer ctx3) 0 data3\<rparr>"
    proof -
      have c: "(length w \<noteq> 0) = False" using 3 by simp
      show ?thesis
        unfolding MD5_Update_def Let_def used c1
        by (simp only: c if_True if_False simp_thms prod.case r [unfolded Let_def])
    qed
    have "md5_rep (ctx3\<lparr>md5_buffer := memcpy_at (md5_buffer ctx3) 0 data3\<rparr>) (m @ data)"
      using z buf st 3 by (intro md5_rep_rest [OF _ _ _ _ _ _ r [symmetric], of _ z k])
        (simp_all add: m, simp_all add: ctx1_def m)
    then show ?thesis unfolding upd .
  qed
qed

section \<open>Padding\<close>

lemma le_bytes_4: "le_bytes 4 k = [char_of (k mod 256), char_of (k div 256 mod 256),
    char_of (k div 65536 mod 256), char_of (k div 16777216 mod 256)]"
proof -
  have four: "4 = Suc (Suc (Suc (Suc 0)))" by simp
  have "k div 256 div 256 = k div 65536" "k div 65536 div 256 = k div 16777216"
    by (simp_all flip: div_mult2_eq)
  then show ?thesis unfolding four by (simp only: le_bytes.simps)
qed

lemma word_bytes_enc: "word_bytes w = enc_u32 w"
proof -
  have d: "unat (drop_bit n w) = unat w div 2 ^ n" for n
  proof -
    have "take_bit 32 (unat w) = unat w"
      using unsigned_less [of w, where ?'a = nat] by (intro take_bit_nat_eq_self) simp
    then show ?thesis by (simp only: unsigned_drop_bit_eq) (simp add: drop_bit_eq_div)
  qed
  have "word_bytes w = [char_of (unat w mod 256), char_of (unat w div 256 mod 256),
      char_of (unat w div 65536 mod 256), char_of (unat w div 16777216 mod 256)]"
    by (simp add: word_bytes_def byte_of_def d)
  also have "\<dots> = enc_u32 w"
    by (simp only: enc_u32_def le_bytes_4)
  finally show ?thesis .
qed

lemma le_bytes_mod: "le_bytes n (k mod 256 ^ n) = le_bytes n k"
  by (metis le_bytes_le_val le_val_le_bytes length_le_bytes)

lemma le_bytes_append: "le_bytes (n + j) k = le_bytes n k @ le_bytes j (k div 256 ^ n)"
  by (induction n arbitrary: k) (auto simp: div_mult2_eq)

lemma md5_length_bytes:
  "word_bytes (push_bit 3 (word_of_nat (n mod 2 ^ 29))) @ word_bytes (word_of_nat (n div 2 ^ 29)) = le_bytes 8 (8 * n)"
proof -
  let ?M = "2 ^ 29 :: nat"
  have "n = 536870912 * (n div 536870912) + n mod 536870912" by simp
  then have "8 * n = 4294967296 * (n div 536870912) + 8 * (n mod 536870912)" by linarith
  then have n: "8 * n = 256 ^ 4 * (n div ?M) + 8 * (n mod ?M)" by simp
  have lo: "8 * (n mod ?M) < 256 ^ 4" by simp
  have "unat (push_bit 3 (word_of_nat (n mod ?M)) :: u32) = 8 * (n mod ?M)"
    using lo by (simp only: unsigned_push_bit_eq unat_lo) (simp add: push_bit_eq_mult take_bit_eq_mod)
  then have a: "word_bytes (push_bit 3 (word_of_nat (n mod ?M))) = le_bytes 4 (8 * n)"
    using le_bytes_mod [of 4 "8 * n"] lo unfolding n by (simp only: word_bytes_enc enc_u32_def mod_mult_self2 add.commute mod_mult_self1) simp
  have "8 * n div 256 ^ 4 = n div ?M" using lo unfolding n by simp
  moreover have "unat (word_of_nat (n div ?M) :: u32) = (n div ?M) mod 256 ^ 4" by (simp add: unat_of_nat)
  ultimately have b: "word_bytes (word_of_nat (n div ?M)) = le_bytes 4 (8 * n div 256 ^ 4)"
    by (simp only: word_bytes_enc enc_u32_def le_bytes_mod)
  show ?thesis unfolding a b using le_bytes_append [of 4 4 "8 * n"] by simp
qed

lemma md5_pad_split:
  assumes "m = z @ w" "length z = 64 * k" "length w < 64"
  shows "md5_pad m = z @ (if length w < 56
      then w @ CHR 0x80 # replicate (55 - length w) NUL @ le_bytes 8 (8 * length m)
      else (w @ CHR 0x80 # replicate (63 - length w) NUL) @ replicate 56 NUL @ le_bytes 8 (8 * length m))"
proof -
  have r: "length m mod 64 = length w" using assms by simp
  show ?thesis
  proof (cases "length w < 56")
    case True
    then have "119 - length w = 64 + (55 - length w)" "55 - length w < 64" by simp_all
    then have e: "(119 - length w) mod 64 = 55 - length w" by (simp only: mod_add_self1 mod_less)
    show ?thesis unfolding md5_pad_def r e by (simp only: True if_True assms(1) append_assoc append_Cons)
  next
    case False
    then have e: "(119 - length w) mod 64 = (63 - length w) + 56" using assms(3) by simp
    show ?thesis
      unfolding md5_pad_def r e replicate_add by (simp only: False if_False assms(1) append_assoc append_Cons)
  qed
qed

lemma enc_state: "(case st of (a, b, c, d) \<Rightarrow> word_bytes a @ word_bytes b @ word_bytes c @ word_bytes d) = md5_output st"
  by (simp add: md5_output_def word_bytes_enc split: prod.split)

lemma md5_rep_Final:
  assumes "md5_rep ctx m"
  shows "MD5_Final ctx = md5 m"
proof -
  obtain z w where m: "m = z @ w" and z0: "length z = 64 * (length m div 64)" and w: "length w = length m mod 64"
    and buf: "length (md5_buffer ctx) = 64" and st: "md5_abcd ctx = md5_fold (blocks64 z) md5_init_state"
    and tk: "take (length w) (md5_buffer ctx) = w"
    using assms by (rule md5_repE)
  define k where "k = length m div 64"
  define L where "L = le_bytes 8 (8 * length m)"
  have z: "length z = 64 * k" using z0 by (simp add: k_def)
  have w64: "length w < 64" unfolding w by simp
  have lL: "length L = 8" by (simp add: L_def)
  have used: "unat (md5_lo ctx AND 0x3f) = length w" using md5_used [OF assms] w by simp
  have bits: "word_bytes (push_bit 3 (md5_lo ctx)) @ word_bytes (md5_hi ctx) = L"
    using md5_length_bytes [of "length m"] assms unfolding md5_rep_def L_def by simp
  define rest where "rest = drop (Suc (length w)) (md5_buffer ctx)"
  have buf0: "(md5_buffer ctx)[length w := CHR 0x80] = w @ CHR 0x80 # rest"
    using buf w64 tk by (simp add: upd_conv_take_nth_drop rest_def)
  have lr: "length rest = 63 - length w" using buf by (simp add: rest_def)
  show ?thesis
  proof (cases "length w < 56")
    case True
    have a: "(64 - (length w + 1) < 8) = False" using True by simp
    let ?blk = "w @ CHR 0x80 # replicate (55 - length w) NUL @ L"
    have b2: "memcpy_at (w @ CHR 0x80 # rest) (length w + 1) (replicate (64 - (length w + 1) - 8) NUL)
        = w @ CHR 0x80 # replicate (55 - length w) NUL @ drop (55 - length w) rest"
      by (simp add: memcpy_at_def)
    have "memcpy_at (w @ CHR 0x80 # replicate (55 - length w) NUL @ drop (55 - length w) rest) 56 L = ?blk"
    proof -
      have "56 - length w = Suc (55 - length w)" using True by simp
      then show ?thesis using True lr lL by (simp add: memcpy_at_def)
    qed
    then have fin: "MD5_Final ctx = md5_output (md5_body ?blk (md5_abcd ctx))"
      unfolding MD5_Final_def Let_def used buf0 a
      by (simp only: if_False prod.case b2 bits enc_state)
    have l1: "length ?blk = 64 * Suc 0" using True lL by simp
    have "md5_pad m = z @ ?blk" using md5_pad_split [OF m z w64] True by (simp add: L_def)
    then show ?thesis
      unfolding fin md5_def md5_body_eq [OF l1] st by (simp only: blocks64_append [OF z] md5_fold_append)
  next
    case False
    have a: "(64 - (length w + 1) < 8) = True" using False by simp
    let ?blk1 = "w @ CHR 0x80 # replicate (63 - length w) NUL" and ?blk2 = "replicate 56 NUL @ L"
    have b1: "memcpy_at (w @ CHR 0x80 # rest) (length w + 1) (replicate (64 - (length w + 1)) NUL) = ?blk1"
      using lr by (simp add: memcpy_at_def)
    have l1: "length ?blk1 = 64 * Suc 0" using w64 by simp
    have b2: "memcpy_at ?blk1 0 (replicate (64 - 8) NUL) = replicate 56 NUL @ drop 56 ?blk1"
      by (simp add: memcpy_at_def)
    have b3: "memcpy_at (replicate 56 NUL @ drop 56 ?blk1) 56 L = ?blk2"
      using l1 lL by (simp add: memcpy_at_def)
    have fin: "MD5_Final ctx = md5_output (md5_body ?blk2 (md5_body ?blk1 (md5_abcd ctx)))"
      unfolding MD5_Final_def Let_def used buf0 a
      by (simp only: if_True prod.case b1 b2 b3 bits enc_state)
    have l2: "length ?blk2 = 64 * Suc 0" using lL by simp
    have "md5_pad m = z @ ?blk1 @ ?blk2" using md5_pad_split [OF m z w64] False by (simp add: L_def)
    then show ?thesis
      unfolding fin md5_def md5_body_eq [OF l1] md5_body_eq [OF l2] st
      by (simp only: blocks64_append [OF z] blocks64_append [OF l1] md5_fold_append)
  qed
qed

section \<open>The contract of a hash\<close>

text \<open>What \<open>Init\<close>, \<open>Update\<close> and \<open>Final\<close> promise their client: the digest of everything that
  was passed in, however it was cut into pieces.\<close>

locale hash_stream =
  fixes rep :: "'c \<Rightarrow> 'a list \<Rightarrow> bool"
    and fresh :: "'c \<Rightarrow> bool"
    and init :: "'c \<Rightarrow> 'c"
    and update :: "'a list \<Rightarrow> 'c \<Rightarrow> 'c"
    and final :: "'c \<Rightarrow> 'd"
    and digest :: "'a list \<Rightarrow> 'd"
  assumes init: "fresh c \<Longrightarrow> rep (init c) []"
    and update: "rep c m \<Longrightarrow> rep (update d c) (m @ d)"
    and final: "rep c m \<Longrightarrow> final c = digest m"
begin

lemma one_shot: "fresh c \<Longrightarrow> final (update m (init c)) = digest m"
  using final [OF update [OF init]] by simp

lemma two_parts: "fresh c \<Longrightarrow> final (update n (update m (init c))) = digest (m @ n)"
  using final [OF update [OF update [OF init]]] by simp

lemma pieces: "fresh c \<Longrightarrow> final (foldl (\<lambda>c d. update d c) (init c) ds) = digest (concat ds)"
proof -
  assume c: "fresh c"
  have "rep c m \<Longrightarrow> rep (foldl (\<lambda>c d. update d c) c ds) (m @ concat ds)" for c m
    by (induction ds arbitrary: c m) (auto dest: update simp: append_assoc [symmetric] simp del: append_assoc)
  from final [OF this [OF init [OF c]]] show ?thesis by simp
qed

end

abbreviation md5_memory :: "md5_ctx \<Rightarrow> bool" where
  "md5_memory ctx \<equiv> length (md5_buffer ctx) = 64"

interpretation md5_stream: hash_stream md5_rep md5_memory MD5_Init MD5_Update MD5_Final md5
  by unfold_locales (simp_all add: md5_rep_Init md5_rep_Update md5_rep_Final)

section \<open>Properties\<close>

text \<open>C10 Whatever the context's memory held, and however the message is cut into pieces for
  \<open>MD5_Update\<close>, the result is the MD5 digest of the whole message.\<close>

theorem MD5_pieces:
  assumes "length (md5_buffer ctx) = 64"
  shows "MD5_Final (foldl (\<lambda>c d. MD5_Update d c) (MD5_Init ctx) ds) = md5 (concat ds)"
  using assms by (rule md5_stream.pieces)

theorem MD5_pieces_witness:
  "MD5_Final (foldl (\<lambda>c d. MD5_Update d c)
      (MD5_Init \<lparr>md5_lo = 7, md5_hi = 7, md5_abcd = (1, 2, 3, 4), md5_buffer = replicate 64 (CHR ''x'')\<rparr>)
      [''Hello, '', [], replicate 100 (CHR ''y'')])
    = md5 (''Hello, '' @ replicate 100 (CHR ''y''))"
  by (subst MD5_pieces) simp_all

end
