(* ===== verification/Net_Cram.thy ===== *)
theory Net_Cram
  imports Core_Md5
begin

text \<open>
  \<open>networkb/cram.cpp\<close>: the CRAM-MD5 responses of a binkp session. \<open>mem\<close> is the memory of the
  uninitialised \<open>MD5_CTX\<close> on the stack. The specification is HMAC (RFC 2104) over any hash;
  the code is shown to compute it for MD5 through the contract \<open>hash_stream\<close>.
\<close>

record cram =
  challenge_data :: string
  cram_initialized :: bool

definition new_cram :: cram where
  "new_cram = \<lparr>challenge_data = [], cram_initialized = False\<rparr>"

definition GenerateChallengeData :: "cram \<Rightarrow> cram" where
  "GenerateChallengeData c =
     c\<lparr>challenge_data := (if challenge_data c = [] then ''cafebabecafebabe'' else challenge_data c),
       cram_initialized := True\<rparr>"

definition set_challenge_data :: "string \<Rightarrow> cram \<Rightarrow> cram" where
  "set_challenge_data s c = c\<lparr>challenge_data := s\<rparr>"

definition SecretOrHash :: "md5_ctx \<Rightarrow> string \<Rightarrow> string" where
  "SecretOrHash mem secret =
     (if length secret \<le> 64 then secret else MD5_Final (MD5_Update secret (MD5_Init mem)))"

definition xor_char :: "nat \<Rightarrow> char \<Rightarrow> char" where
  "xor_char n c = char_of (ord c XOR n)"

definition hex_digits :: string where
  "hex_digits = ''0123456789abcdef''"

definition hex_byte :: "char \<Rightarrow> string" where
  "hex_byte c = [hex_digits ! (ord c div 16), hex_digits ! (ord c mod 16)]"

definition hex :: "bytes \<Rightarrow> string" where
  "hex b = concat (map hex_byte b)"

definition CreateHashedSecret :: "md5_ctx \<Rightarrow> string \<Rightarrow> string \<Rightarrow> cram \<Rightarrow> string \<times> cram" where
  "CreateHashedSecret mem original_challenge secret c =
     (let c' = (if \<not> cram_initialized c then GenerateChallengeData c else c);
          challenge = SecretOrHash mem original_challenge;
          ipad0 = memcpy_at (replicate 65 NUL) 0 challenge;
          opad0 = memcpy_at (replicate 65 NUL) 0 challenge;
          ipad = map (xor_char 0x36) ipad0;
          opad = map (xor_char 0x5c) opad0;
          inner = MD5_Final (MD5_Update secret (MD5_Update (take 64 ipad) (MD5_Init mem)));
          outer = MD5_Final (MD5_Update (take 16 inner) (MD5_Update (take 64 opad) (MD5_Init mem)))
      in (hex outer, c'))"

definition ValidatePassword :: "md5_ctx \<Rightarrow> string \<Rightarrow> string \<Rightarrow> string \<Rightarrow> cram \<Rightarrow> bool \<times> cram" where
  "ValidatePassword mem challenge secret given_hashed_secret c =
     (let (expected, c') = CreateHashedSecret mem challenge secret c
      in (expected = given_hashed_secret, c'))"

section \<open>HMAC\<close>

definition hmac_key :: "(bytes \<Rightarrow> bytes) \<Rightarrow> bytes \<Rightarrow> bytes" where
  "hmac_key H key = (let k = (if 64 < length key then H key else key) in k @ replicate (64 - length k) NUL)"

definition hmac :: "(bytes \<Rightarrow> bytes) \<Rightarrow> bytes \<Rightarrow> bytes \<Rightarrow> bytes" where
  "hmac H key msg =
     H (map (xor_char 0x5c) (hmac_key H key) @ H (map (xor_char 0x36) (hmac_key H key) @ msg))"

lemma length_md5 [simp]: "length (md5 m) = 16"
  by (simp add: md5_def md5_output_def split: prod.split)

lemma hmac_key_memcpy:
  assumes "length k \<le> 64"
  shows "take 64 (memcpy_at (replicate 65 NUL) 0 k) = k @ replicate (64 - length k) NUL"
proof -
  have "drop (length k) (replicate 65 NUL) = replicate (65 - length k) NUL" by (simp only: drop_replicate)
  with assms show ?thesis by (simp add: memcpy_at_def min_def)
qed

lemma SecretOrHash_eq:
  "md5_memory mem \<Longrightarrow> SecretOrHash mem s = (if 64 < length s then md5 s else s)"
  by (simp add: SecretOrHash_def md5_stream.one_shot)

lemma hmac_key_eq:
  assumes "md5_memory mem"
  shows "take 64 (map f (memcpy_at (replicate 65 NUL) 0 (SecretOrHash mem key))) = map f (hmac_key md5 key)"
proof -
  have "length (SecretOrHash mem key) \<le> 64" using assms by (simp add: SecretOrHash_eq)
  from hmac_key_memcpy [OF this] show ?thesis
    using assms by (simp add: take_map hmac_key_def Let_def SecretOrHash_eq split: if_splits)
qed

lemma CreateHashedSecret_eq:
  assumes "md5_memory mem"
  shows "fst (CreateHashedSecret mem key msg c) = hex (hmac md5 key msg)"
  unfolding CreateHashedSecret_def Let_def fst_conv
  by (simp only: hmac_key_eq [OF assms] md5_stream.two_parts [OF assms])
    (simp add: hmac_def)

section \<open>Hexadecimal\<close>

lemma hex_digit_inj: "i < 16 \<Longrightarrow> j < 16 \<Longrightarrow> hex_digits ! i = hex_digits ! j \<Longrightarrow> i = j"
proof -
  have "distinct hex_digits" "length hex_digits = 16" by (simp_all add: hex_digits_def)
  then show "i < 16 \<Longrightarrow> j < 16 \<Longrightarrow> hex_digits ! i = hex_digits ! j \<Longrightarrow> i = j"
    by (simp add: nth_eq_iff_index_eq)
qed

lemma hex_byte_inj: "hex_byte c = hex_byte d \<Longrightarrow> c = d"
proof -
  assume h: "hex_byte c = hex_byte d"
  have "ord c div 16 < 16" "ord d div 16 < 16" by (simp_all add: less_mult_imp_div_less)
  then have "ord c div 16 = ord d div 16" using h by (intro hex_digit_inj) (simp_all add: hex_byte_def)
  moreover have "ord c mod 16 = ord d mod 16" using h by (intro hex_digit_inj) (simp_all add: hex_byte_def)
  ultimately have "ord c = ord d" by (metis div_mult_mod_eq)
  then show "c = d" by simp
qed

lemma hex_inj: "hex a = hex b \<longleftrightarrow> a = b"
proof
  have two: "length (hex_byte c) = 2" for c by (simp add: hex_byte_def)
  show "hex a = hex b \<Longrightarrow> a = b"
  proof (induction a arbitrary: b)
    case Nil
    then show ?case by (cases b) (auto simp: hex_def hex_byte_def)
  next
    case (Cons c a)
    then obtain d b' where b: "b = d # b'" by (cases b) (auto simp: hex_def hex_byte_def)
    with Cons.prems have "hex_byte c = hex_byte d \<and> hex a = hex b'" by (simp add: hex_def hex_byte_def)
    with Cons.IH b show ?case using hex_byte_inj by blast
  qed
qed simp

section \<open>Properties\<close>

text \<open>C11 The response is the hexadecimal HMAC-MD5 with the challenge as key and the secret as
  message, and \<open>ValidatePassword\<close> accepts exactly the response with that MAC; neither depends on
  the memory the code did not initialise.\<close>

theorem cram_hmac:
  assumes "length (md5_buffer mem) = 64"
  shows "fst (CreateHashedSecret mem challenge secret c) = hex (hmac md5 challenge secret)
    \<and> (fst (ValidatePassword mem challenge secret (hex mac) c) \<longleftrightarrow> mac = hmac md5 challenge secret)"
  using CreateHashedSecret_eq [OF assms, of challenge secret c] hex_inj
  by (auto simp: ValidatePassword_def split: prod.splits)

theorem cram_hmac_witness:
  "fst (ValidatePassword \<lparr>md5_lo = 7, md5_hi = 7, md5_abcd = (1, 2, 3, 4), md5_buffer = replicate 64 NUL\<rparr>
     ''cafebabecafebabe'' ''PASSWORD'' (hex (hmac md5 ''cafebabecafebabe'' ''PASSWORD'')) new_cram)"
  using cram_hmac [of "\<lparr>md5_lo = 7, md5_hi = 7, md5_abcd = (1, 2, 3, 4), md5_buffer = replicate 64 NUL\<rparr>"] by simp

end
