(* ===== verification/Net_Frames.thy ===== *)
theory Net_Frames
  imports Net_Config Net_Cram Sdk_Callout
begin

unbundle bit_operations_syntax

text \<open>
  The wire of a BinkP session: \<open>networkb/socket_connection.cpp\<close> (the reading operations),
  \<open>binkp_commands.cpp\<close>, \<open>transfer_file.cpp\<close> and the pure parsing functions of \<open>binkp.cpp\<close>.

  What the peer does is a script: its bytes in order, \<open>Late\<close> where a read runs into its deadline
  before the next byte, and the end of the list where the peer has closed the connection (\<open>recv\<close>
  then returns 0). Errors of \<open>recv\<close> other than "would block" are not modelled.
\<close>

section \<open>The connection\<close>

datatype item = Byte char | Late

text \<open>\<open>BadAlloc\<close> and \<open>Cpp\<close> are exceptions that leave \<open>Run\<close>; \<open>OutOfFuel\<close> is no outcome of the
  program: it marks a model run that was given too few steps, and \<open>Net_Binkp\<close> shows that there are
  always enough.\<close>

datatype bexn = TimeoutError | SocketClosed | BadAlloc | Cpp cpp_error | OutOfFuel

text \<open>A read of no bytes asks \<open>recv\<close> for none: it returns 0 when bytes are waiting or the peer has
  closed, and blocks otherwise.\<close>

fun read_TYPE :: "nat \<Rightarrow> item list \<Rightarrow> (bexn + bytes) \<times> item list" where
  "read_TYPE n [] = (Inr [], [])"
| "read_TYPE n (Late # inp) = (Inl TimeoutError, inp)"
| "read_TYPE n (Byte c # inp) =
     (if n = 0 then (Inr [], Byte c # inp)
      else if n = 1 then (Inr [c], inp)
      else (case read_TYPE (n - 1) inp of
              (Inl e, r) \<Rightarrow> (Inl e, r)
            | (Inr cs, r) \<Rightarrow> (Inr (c # cs), r)))"

definition read_some :: "nat \<Rightarrow> item list \<Rightarrow> (bexn + bytes) \<times> item list" where
  "read_some n inp =
     (case read_TYPE n inp of
        (Inl e, r) \<Rightarrow> (Inl e, r)
      | (Inr cs, r) \<Rightarrow> (if cs = [] then Inl SocketClosed else Inr cs, r))"

definition receive :: "int \<Rightarrow> item list \<Rightarrow> (bexn + bytes) \<times> item list" where
  "receive count inp = (if count < 0 then (Inl BadAlloc, inp) else read_some (nat count) inp)"

text \<open>A short read at the close leaves the second byte 0.\<close>

definition read_uint16 :: "item list \<Rightarrow> (bexn + u16) \<times> item list" where
  "read_uint16 inp =
     (case read_some 2 inp of
        (Inl e, r) \<Rightarrow> (Inl e, r)
      | (Inr cs, r) \<Rightarrow>
          (Inr (push_bit 8 (word_of_nat (ord (hd cs))) OR (if length cs < 2 then 0 else word_of_nat (ord (cs ! 1)))), r))"

definition read_uint8 :: "item list \<Rightarrow> (bexn + u8) \<times> item list" where
  "read_uint8 inp =
     (case read_some 1 inp of
        (Inl e, r) \<Rightarrow> (Inl e, r)
      | (Inr cs, r) \<Rightarrow> (Inr (word_of_nat (ord (hd cs))), r))"

lemma read_TYPE_shrinks:
  "length (snd (read_TYPE n inp)) \<le> length inp"
  "0 < n \<Longrightarrow> inp \<noteq> [] \<Longrightarrow> length (snd (read_TYPE n inp)) < length inp"
proof -
  show le: "length (snd (read_TYPE n inp)) \<le> length inp" for n inp
    by (induction n inp rule: read_TYPE.induct) (auto split: prod.splits sum.splits)
  show "length (snd (read_TYPE n inp)) < length inp" if "0 < n" "inp \<noteq> []"
  proof (cases inp)
    case (Cons x inp')
    then show ?thesis using that le [of "n - 1" inp'] by (cases x) (auto split: prod.splits sum.splits)
  qed (use that in simp)
qed

lemma read_some_shrinks:
  assumes "read_some n inp = (v, r)"
  shows "length r \<le> length inp" "0 < n \<Longrightarrow> v \<noteq> Inl SocketClosed \<Longrightarrow> length r < length inp"
proof -
  have r: "snd (read_TYPE n inp) = r"
    using assms by (auto simp: read_some_def split: prod.splits sum.splits)
  with read_TYPE_shrinks(1) [of n inp] show "length r \<le> length inp" by simp
  show "length r < length inp" if "0 < n" "v \<noteq> Inl SocketClosed"
  proof (cases "inp = []")
    case True
    with assms that show ?thesis by (simp add: read_some_def)
  qed (use read_TYPE_shrinks(2) [OF that(1), of inp] r in simp)
qed

lemma read_TYPE_bytes: "bs \<noteq> [] \<Longrightarrow> read_TYPE (length bs) (map Byte bs @ inp) = (Inr bs, inp)"
proof (induction bs)
  case (Cons b bs)
  then show ?case by (cases bs) auto
qed simp

lemma read_some_bytes: "bs \<noteq> [] \<Longrightarrow> n = length bs \<Longrightarrow> read_some n (map Byte bs @ inp) = (Inr bs, inp)"
  by (simp add: read_some_def read_TYPE_bytes)

section \<open>Commands and frames\<close>

abbreviation M_NUL :: u8 where "M_NUL \<equiv> 0"
abbreviation M_ADR :: u8 where "M_ADR \<equiv> 1"
abbreviation M_PWD :: u8 where "M_PWD \<equiv> 2"
abbreviation M_FILE :: u8 where "M_FILE \<equiv> 3"
abbreviation M_OK :: u8 where "M_OK \<equiv> 4"
abbreviation M_EOB :: u8 where "M_EOB \<equiv> 5"
abbreviation M_GOT :: u8 where "M_GOT \<equiv> 6"
abbreviation M_ERR :: u8 where "M_ERR \<equiv> 7"
abbreviation M_GET :: u8 where "M_GET \<equiv> 9"

definition command_id_to_name :: "u8 \<Rightarrow> cpp_error + string" where
  "command_id_to_name command_id =
     (case map_of (zip [0..<11] [''M_NUL'', ''M_ADR'', ''M_PWD'', ''M_FILE'', ''M_OK'', ''M_EOB'', ''M_GOT'',
                                 ''M_ERR'', ''M_BSY'', ''M_GET'', ''M_SKIP'']) (unat command_id) of
        None \<Rightarrow> Inl OutOfRange | Some s \<Rightarrow> Inr s)"

definition byte_of_word :: "u8 \<Rightarrow> char" where
  "byte_of_word w = char_of (unat w)"

definition command_packet :: "u8 \<Rightarrow> string \<Rightarrow> bytes" where
  "command_packet command_id data =
     (let packet_length = word_of_nat (length data + 1) OR 0x8000 :: u16;
          b0 = ucast (drop_bit 8 (packet_length AND 0xff00)) OR 0x80 :: u8;
          b1 = ucast (packet_length AND 0x00ff) :: u8
      in [byte_of_word b0, byte_of_word b1, byte_of_word command_id] @ data)"

definition data_packet :: "bytes \<Rightarrow> bytes" where
  "data_packet data =
     (let packet_length = length data AND 0x7fff;
          b0 = word_of_nat (drop_bit 8 (packet_length AND 0xff00)) :: u8;
          b1 = word_of_nat (packet_length AND 0x00ff) :: u8
      in [byte_of_word b0, byte_of_word b1] @ take packet_length data)"

text \<open>What a header says, as numbers.\<close>

lemma ord_byte_of_word [simp]: "ord (byte_of_word w) = unat w"
  using unsigned_less [of w, where ?'a = nat] by (simp add: byte_of_word_def)

definition header_of :: "char \<Rightarrow> char \<Rightarrow> u16" where
  "header_of c d = push_bit 8 (word_of_nat (ord c)) OR word_of_nat (ord d)"

lemma read_uint16_bytes: "read_uint16 (Byte c # Byte d # inp) = (Inr (header_of c d), inp)"
  by (simp add: read_uint16_def read_some_def header_of_def)

lemma read_uint8_byte: "read_uint8 (Byte c # inp) = (Inr (word_of_nat (ord c)), inp)"
  by (simp add: read_uint8_def read_some_def)

lemma header_bits:
  fixes b0 b1 :: u8
  shows "bit (header_of (byte_of_word b0) (byte_of_word b1)) n
    \<longleftrightarrow> n < 16 \<and> (if n < 8 then bit b1 n else bit b0 (n - 8))"
proof -
  have w: "word_of_nat (unat b) = (ucast b :: u16)" for b :: u8 by simp
  show ?thesis
    unfolding header_of_def ord_byte_of_word w
    by (auto simp: bit_simps dest: bit_imp_le_length)
qed

lemma header_masks:
  "bit (0xff00 :: u16) k = (8 \<le> k \<and> k < 16)" "bit (0x00ff :: u16) k = (k < 8)" "bit (0x80 :: u8) k = (k = 7)"
proof -
  have "(0xff00 :: u16) = push_bit 8 (mask 8)" "(0x00ff :: u16) = mask 8" by (simp_all add: mask_eq_exp_minus_1)
  then show "bit (0xff00 :: u16) k = (8 \<le> k \<and> k < 16)" "bit (0x00ff :: u16) k = (k < 8)"
    by (auto simp only: bit_push_bit_iff bit_mask_iff) simp_all
  have "(0x80 :: u8) = push_bit 7 1" by simp
  then show "bit (0x80 :: u8) k = (k = 7)" by (auto simp only: bit_push_bit_iff bit_1_iff) simp_all
qed

lemma command_header_masks:
  fixes packet_length hi lo :: u16 and t :: u8
  assumes "\<And>k. bit hi k = (8 \<le> k \<and> k < 16)" "\<And>k. bit lo k = (k < 8)" "\<And>k. bit t k = (k = 7)"
    and "bit packet_length 15"
  shows "header_of (byte_of_word (ucast (drop_bit 8 (packet_length AND hi)) OR t))
      (byte_of_word (ucast (packet_length AND lo))) = packet_length"
proof (rule bit_word_eqI)
  fix m assume "m < LENGTH(16)"
  then have m: "m < 16" by simp
  show "bit (header_of (byte_of_word (ucast (drop_bit 8 (packet_length AND hi)) OR t))
      (byte_of_word (ucast (packet_length AND lo)))) m = bit packet_length m"
  proof (cases "m < 8")
    case True
    with m show ?thesis by (simp add: header_bits bit_and_iff bit_ucast_iff assms(2))
  next
    case False
    then have k: "8 + (m - 8) = m" "m - 8 < 8" "m - 8 = 7 \<longleftrightarrow> m = 15" using m by auto
    from False m k(1,2) assms(4) show ?thesis
      unfolding header_bits bit_or_iff bit_ucast_iff bit_drop_bit_eq comp_def k(1) bit_and_iff assms(1,3) k(3)
      by auto
  qed
qed

lemma word_15_bit: "bit (w OR 0x8000 :: u16) 15"
proof -
  have "(0x8000 :: u16) = push_bit 15 1" by simp
  then have "bit (0x8000 :: u16) 15" by (simp only: bit_push_bit_iff bit_1_iff) simp
  then show ?thesis by (simp only: bit_or_iff simp_thms)
qed

lemma command_packet_eq:
  "\<exists>c d. command_packet command_id data = c # d # byte_of_word command_id # data
    \<and> header_of c d = word_of_nat (length data + 1) OR 0x8000"
  unfolding command_packet_def Let_def
  using command_header_masks [OF header_masks word_15_bit, of "word_of_nat (length data + 1)"]
  by (simp del: of_nat_add)

text \<open>The header of a data frame.\<close>

lemma data_packet_eq:
  assumes "length data < 2 ^ 15"
  shows "\<exists>c d. data_packet data = c # d # data \<and> header_of c d = word_of_nat (length data)"
proof -
  let ?w = "word_of_nat (length data) :: u16"
  have "length data AND 0x7fff = take_bit 15 (length data)"
    using take_bit_eq_mask [of 15 "length data"] by (simp add: mask_eq_exp_minus_1)
  then have len: "length data AND 0x7fff = length data" using assms by (simp add: take_bit_nat_eq_self)
  have masks: "bit (0xff00 :: nat) k = (8 \<le> k \<and> k < 16)" "bit (0x00ff :: nat) k = (k < 8)" for k
  proof -
    have "(0xff00 :: nat) = push_bit 8 (mask 8)" "(0x00ff :: nat) = mask 8"
      by (simp_all add: mask_eq_exp_minus_1 push_bit_eq_mult)
    then show "bit (0xff00 :: nat) k = (8 \<le> k \<and> k < 16)" "bit (0x00ff :: nat) k = (k < 8)"
      by (auto simp only: bit_push_bit_iff bit_mask_iff) simp_all
  qed
  have b0: "word_of_nat (drop_bit 8 (length data AND 0xff00)) = (ucast (drop_bit 8 ?w) :: u8)"
    by (rule bit_word_eqI) (auto simp: bit_of_nat_iff bit_drop_bit_eq bit_and_iff masks bit_ucast_iff)
  have b1: "word_of_nat (length data AND 0x00ff) = (ucast ?w :: u8)"
    by (rule bit_word_eqI) (auto simp: bit_of_nat_iff bit_and_iff masks bit_ucast_iff)
  have "header_of (byte_of_word (ucast (drop_bit 8 ?w))) (byte_of_word (ucast ?w)) = ?w"
    by (rule bit_word_eqI) (auto simp: header_bits bit_simps)
  then show ?thesis unfolding data_packet_def Let_def len b0 b1 by auto
qed

section \<open>Lines\<close>

text \<open>\<open>%u\<close> prints the low 32 bits of its argument.\<close>

definition show_u :: "int \<Rightarrow> string" where
  "show_u i = show_nat (nat (i mod 2 ^ 32))"

text \<open>The password array as a C string: without a NUL of its own it runs on into the rest of the
  packed record.\<close>

definition password_text :: "net_call_out_rec \<Rightarrow> string" where
  "password_text con = c_str (con_password con @ enc_u8 (times_per_day con) @ enc_u8 (call_x_days con)
     @ enc_u16 (min_k con) @ replicate 8 NUL)"

definition expected_password_for :: "callout_map \<Rightarrow> int \<Rightarrow> string" where
  "expected_password_for callout node =
     (case node_config_for callout node of
        None \<Rightarrow> ''-''
      | Some con \<Rightarrow> (if password_text con \<noteq> [] then password_text con else ''-''))"

fun node_number_from_addresses :: "string list \<Rightarrow> string \<Rightarrow> cpp_error + int" where
  "node_number_from_addresses [] network_name = Inr (- 1)"
| "node_number_from_addresses (a # as) network_name =
     (let s = StringTrim a
      in if ends_with s (''@'' @ network_name) \<and> starts_with s ''20000:20000/''
         then stoi (takeWhile (\<lambda>c. c \<noteq> CHR ''/'') (drop 12 s))
         else node_number_from_addresses as network_name)"

definition node_number_from_address_list :: "string \<Rightarrow> string \<Rightarrow> cpp_error + int" where
  "node_number_from_address_list network_list network_name =
     node_number_from_addresses (SplitString network_list '' '') network_name"

definition network_name_from_single_address :: "string \<Rightarrow> string" where
  "network_name_from_single_address network_list =
     (case SplitString network_list '' '' of
        [] \<Rightarrow> []
      | s # _ \<Rightarrow> (case find_last_of s (CHR ''@'') of None \<Rightarrow> [] | Some index \<Rightarrow> drop (index + 1) s))"

text \<open>\<open>time_t\<close> is a signed 64-bit integer.\<close>

definition to_time_t :: "int \<Rightarrow> int" where
  "to_time_t i = sint (word_of_int i :: 64 word)"

definition ParseFileRequestLine :: "string \<Rightarrow> cpp_error + (string \<times> int \<times> int \<times> int) option" where
  "ParseFileRequestLine request_line =
     (let s = SplitString request_line '' ''
      in if length s < 3 then Inr None
         else bind_res (stol (s ! 1)) (\<lambda>len.
           bind_res (stoul (s ! 2)) (\<lambda>timestamp.
           bind_res (if 4 \<le> length s then stol (s ! 3) else Inr 0) (\<lambda>offset.
             Inr (Some (s ! 0, len, to_time_t timestamp, offset))))))"

definition as_packet_data :: "string \<Rightarrow> int \<Rightarrow> int \<Rightarrow> int \<Rightarrow> string" where
  "as_packet_data filename file_size timestamp offset =
     StringPrintf (c_str filename @ '' '' @ show_u file_size @ '' '' @ show_u timestamp @ '' '' @ show_int offset)"

definition plain_name :: "string \<Rightarrow> bool" where
  "plain_name f \<longleftrightarrow> f \<noteq> [] \<and> CHR '' '' \<notin> set f \<and> NUL \<notin> set f \<and> length f \<le> 900"

lemma show_nat_plain: "set (show_nat n) \<inter> set '' '' = {}"
  using isdigit_show_nat [of "CHR '' ''" n] by (auto simp: isdigit_def)

lemma ParseFileRequestLine_as_packet_data:
  assumes "plain_name f" "0 \<le> file_size" "file_size < 2 ^ 31" "0 \<le> offset" "offset < 2 ^ 31"
  shows "ParseFileRequestLine (as_packet_data f file_size timestamp offset)
    = Inr (Some (f, file_size, timestamp mod 2 ^ 32, offset))"
proof -
  let ?ts = "[f, show_u file_size, show_u timestamp, show_int offset]"
  have ints: "show_int offset = show_nat (nat offset)" using assms by (simp add: show_int_def)
  have u: "length (show_u i) \<le> 10" for i
    unfolding show_u_def by (rule length_show_nat_le) (auto simp: nat_less_iff)
  have o: "length (show_int offset) \<le> 10"
    unfolding ints using assms by (intro length_show_nat_le) (auto simp: nat_less_iff)
  have line: "as_packet_data f file_size timestamp offset = join (CHR '' '') ?ts"
    using assms(1) u [of file_size] u [of timestamp] o
    by (simp add: as_packet_data_def StringPrintf_def c_str_id plain_name_def) linarith
  have "SplitString (join (CHR '' '') ?ts) '' '' = ?ts"
    using assms(1) show_nat_plain by (intro SplitString_join) (auto simp: ints show_u_def plain_name_def)
  moreover have "stol (show_u file_size) = Inr file_size" "stol (show_int offset) = Inr offset"
    "stoul (show_u timestamp) = Inr (timestamp mod 2 ^ 32)"
    using assms scan_number_show_nat [of "[]"]
    by (simp_all add: stol_def stoul_def signed_val_def ints show_u_def nat_less_iff)
  moreover have "to_time_t (timestamp mod 2 ^ 32) = timestamp mod 2 ^ 32"
  proof -
    have "timestamp mod 2 ^ 32 < 2 ^ 32" "0 \<le> timestamp mod 2 ^ 32" by simp_all
    then show ?thesis by (simp add: to_time_t_def signed_of_int signed_take_bit_int_eq_self)
  qed
  ultimately show ?thesis by (simp add: ParseFileRequestLine_def line Let_def)
qed

end
