(* ===== verification/Net_Binkp.thy ===== *)
theory Net_Binkp
  imports Net_Frames
begin

unbundle bit_operations_syntax

text \<open>
  \<open>networkb/binkp.cpp\<close>: a BinkP session, with \<open>wfile_transfer_file.cpp\<close> and \<open>receive_file.h\<close>.

  The state is the session object, the script of what the peer does, the packets sent so far and
  the regular files of the system. An operation returns its value or the exception it ends in,
  and the state either way. \<open>process_frames\<close> is called by the handler of a file request, which
  \<open>process_frames\<close> calls: \<open>frames_loop\<close> counts the depth, and the lemmas show that one more
  than the length of the script is enough. Deadlines are in the script, so durations are left out.
\<close>

section \<open>The session\<close>

datatype bink_side = ORIGINATING | ANSWERING

datatype auth_type = PLAIN_TEXT | CRAM_MD5

datatype bink_state = CONN_INIT | WAIT_CONN | SEND_PASSWORD | WAIT_ADDR | AUTH_REMOTE | IF_SECURE
  | WAIT_OK | WAIT_PWD | PASSWORD_ACK | TRANSFER_FILES | WAIT_EOB | UNKNOWN | DONE

text \<open>A file to send, and the file being received with its open handle.\<close>

record tfile =
  tf_name :: string
  tf_path :: string
  tf_time :: int

record rfile =
  rf_name :: string
  rf_path :: string
  rf_expected :: int
  rf_time :: int
  rf_length :: int
  rf_open :: bool
  rf_pos :: nat

text \<open>What a session does not change: configuration, callout lists, the side, and what the model
  takes from the system: file times, the clock, the contents of fresh memory, version strings.\<close>

record bink_env =
  config :: bink_config
  callouts :: "string \<rightharpoonup> callout_map"
  bink_side :: bink_side
  expected_remote_node :: int
  last_write_time :: "string \<Rightarrow> int"
  chunk_memory :: bytes
  md5_mem :: md5_ctx
  wwiv_version_string :: string
  wwiv_date :: string

record bink =
  inp :: "item list"
  sent :: "bytes list"
  conn_open :: bool
  disk :: disk
  address_list :: string
  ok_received :: bool
  eob_received :: bool
  error_received :: bool
  files_to_send :: "(string \<times> tfile) list"
  remote_password :: string
  received_files :: "string list"
  current_receive_file :: "rfile option"
  bytes_received :: u32
  bytes_sent :: u32
  bink_cram :: cram
  bink_auth :: auth_type

definition new_bink :: "item list \<Rightarrow> disk \<Rightarrow> bink" where
  "new_bink script fs = \<lparr>inp = script, sent = [], conn_open = True, disk = fs, address_list = [],
     ok_received = False, eob_received = False, error_received = False, files_to_send = [],
     remote_password = [], received_files = [], current_receive_file = None, bytes_received = 0,
     bytes_sent = 0, bink_cram = new_cram, bink_auth = PLAIN_TEXT\<rparr>"

section \<open>Sequencing\<close>

type_synonym 'a bm = "bink \<Rightarrow> (bexn + 'a) \<times> bink"

definition returnm :: "'a \<Rightarrow> 'a bm" where
  "returnm x s = (Inr x, s)"

definition bindm :: "'a bm \<Rightarrow> ('a \<Rightarrow> 'b bm) \<Rightarrow> 'b bm" where
  "bindm m f s = (case m s of (Inl e, s1) \<Rightarrow> (Inl e, s1) | (Inr x, s1) \<Rightarrow> f x s1)"

definition seqm :: "'a bm \<Rightarrow> 'b bm \<Rightarrow> 'b bm" where
  "seqm m k = bindm m (\<lambda>_. k)"

definition modifym :: "(bink \<Rightarrow> bink) \<Rightarrow> unit bm" where
  "modifym f s = (Inr (), f s)"

definition liftm :: "cpp_error + 'a \<Rightarrow> 'a bm" where
  "liftm r s = (map_sum Cpp id r, s)"

definition readm :: "(item list \<Rightarrow> (bexn + 'a) \<times> item list) \<Rightarrow> 'a bm" where
  "readm rd s = (let (v, r) = rd (inp s) in (v, s\<lparr>inp := r\<rparr>))"

definition catch_timeout :: "bool bm \<Rightarrow> bool bm" where
  "catch_timeout m s = (case m s of (Inl TimeoutError, s1) \<Rightarrow> (Inr True, s1) | r \<Rightarrow> r)"

definition vector_at :: "'a list \<Rightarrow> nat \<Rightarrow> cpp_error + 'a" where
  "vector_at xs i = (if i < length xs then Inr (xs ! i) else Inl OutOfRange)"

section \<open>Sending\<close>

text \<open>The log line of \<open>send_command_packet\<close> looks the name of the command up; every caller
  passes one of the known commands.\<close>

definition send_command_packet :: "u8 \<Rightarrow> string \<Rightarrow> bool bm" where
  "send_command_packet command_id data s =
     (if \<not> conn_open s then (Inr False, s)
      else (Inr True, s\<lparr>sent := sent s @ [command_packet command_id data]\<rparr>))"

definition send_data_packet :: "bytes \<Rightarrow> bool bm" where
  "send_data_packet data s =
     (if \<not> conn_open s then (Inr False, s)
      else (Inr True, s\<lparr>sent := sent s @ [data_packet data]\<rparr>))"

text \<open>\<open>file_size\<close> is an \<open>int\<close>, -1 when the file is not there.\<close>

definition file_size :: "disk \<Rightarrow> tfile \<Rightarrow> int" where
  "file_size fs file = (case fs (tf_path file) of None \<Rightarrow> - 1 | Some c \<Rightarrow> sint (word_of_nat (length c) :: 32 word))"

definition GetChunk :: "disk \<Rightarrow> tfile \<Rightarrow> nat \<Rightarrow> nat \<Rightarrow> bytes option" where
  "GetChunk fs file start count =
     (case fs (tf_path file) of
        None \<Rightarrow> None
      | Some c \<Rightarrow> if file_size fs file < int (start + count) then None else Some (take count (drop start c)))"

text \<open>The loop of \<open>SendFileData\<close>. A failed \<open>GetChunk\<close> leaves the buffer as it was and is not
  acted upon. A file the peer acknowledges meanwhile is deleted, and the next turn uses a
  dangling pointer.\<close>

function send_chunks :: "bool bm \<Rightarrow> tfile \<Rightarrow> int \<Rightarrow> nat \<Rightarrow> bytes \<Rightarrow> bool bm" where
  "send_chunks frames file file_length start chunk s =
     (if int start < file_length then
        (if map_of (files_to_send s) (tf_name file) = None then (Inl (Cpp UndefinedBehaviour), s)
         else (let count = nat (min 16384 (file_length - int start));
                   chunk1 = (case GetChunk (disk s) file start count of
                               None \<Rightarrow> chunk | Some b \<Rightarrow> b @ drop (length b) chunk)
               in bindm (send_data_packet (take count chunk1)) (\<lambda>_.
                    bindm frames (\<lambda>_. send_chunks frames file file_length (start + 16384) chunk1)) s))
      else (Inr True, s))"
  by pat_completeness auto
termination
  by (relation "measure (\<lambda>(frames, file, file_length, start, chunk, s). nat (file_length - int start))") auto

declare send_chunks.simps [simp del]

definition SendFileData :: "bool bm \<Rightarrow> bink_env \<Rightarrow> tfile \<Rightarrow> bool bm" where
  "SendFileData frames env file s = send_chunks frames file (file_size (disk s) file) 0 (chunk_memory env) s"

section \<open>Who is calling\<close>

definition remote_network_name :: "bink_env \<Rightarrow> bink \<Rightarrow> string" where
  "remote_network_name env s =
     (if bink_side env = ANSWERING \<and> network_name_from_single_address (address_list s) \<noteq> []
      then network_name_from_single_address (address_list s)
      else callout_network_name (config env))"

definition remote_network_node :: "bink_env \<Rightarrow> bink \<Rightarrow> cpp_error + int" where
  "remote_network_node env s =
     (if bink_side env = ANSWERING
      then node_number_from_address_list (address_list s) (remote_network_name env s)
      else Inr (expected_remote_node env))"

section \<open>Commands received\<close>

definition HandlePassword :: "string \<Rightarrow> bool bm" where
  "HandlePassword password_line =
     (if \<not> starts_with password_line ''CRAM''
      then seqm (modifym (\<lambda>s. s\<lparr>bink_auth := PLAIN_TEXT, remote_password := password_line\<rparr>)) (returnm True)
      else if \<not> starts_with password_line ''CRAM-MD5-''
      then seqm (send_command_packet M_ERR ''CRAM authentication required, no common hash function'') (returnm False)
      else seqm (modifym (\<lambda>s. s\<lparr>bink_auth := CRAM_MD5, remote_password := drop 9 password_line\<rparr>)) (returnm True))"

text \<open>The factory of \<open>networkb.cpp\<close> and the constructor of \<open>WFileTransferFile\<close>.\<close>

definition transfer_file_path :: "bink_env \<Rightarrow> string \<Rightarrow> string \<Rightarrow> cpp_error + string" where
  "transfer_file_path env network_name filename =
     bind_res (network_at (config_networks (config env)) network_name) (\<lambda>net.
       if pathSeparatorChar \<in> set filename then Inl InvalidArgument else Inr (SetName (net_dir net) filename))"

definition HandleFileRequest :: "bink_env \<Rightarrow> string \<Rightarrow> bool bm" where
  "HandleFileRequest env request_line =
     seqm (modifym (\<lambda>s. s\<lparr>current_receive_file := None\<rparr>))
       (bindm (liftm (ParseFileRequestLine request_line)) (\<lambda>r.
         case r of
           None \<Rightarrow> returnm False
         | Some (filename, expected_length, timestamp, starting_offset) \<Rightarrow>
             (\<lambda>s. bindm (liftm (transfer_file_path env (remote_network_name env s) filename)) (\<lambda>path.
               seqm (modifym (\<lambda>s. s\<lparr>current_receive_file :=
                   Some \<lparr>rf_name = filename, rf_path = path, rf_expected = expected_length, rf_time = timestamp,
                         rf_length = 0, rf_open = False, rf_pos = 0\<rparr>\<rparr>))
                 (returnm True)) s)))"

definition HandleFileGetRequest :: "bool bm \<Rightarrow> bink_env \<Rightarrow> string \<Rightarrow> bool bm" where
  "HandleFileGetRequest frames env request_line =
     (let w = SplitString request_line '' ''
      in bindm (liftm (vector_at w 0)) (\<lambda>filename.
         bindm (liftm (bind_res (vector_at w 1) stol)) (\<lambda>_.
         bindm (liftm (bind_res (vector_at w 2) stoul)) (\<lambda>_.
         bindm (if 4 \<le> length w then liftm (bind_res (vector_at w 3) stol) else returnm 0) (\<lambda>_.
           (\<lambda>s. case map_of (files_to_send s) filename of
                  None \<Rightarrow> (Inr False, s)
                | Some file \<Rightarrow> SendFileData frames env file s))))))"

definition HandleFileGotRequest :: "string \<Rightarrow> bool bm" where
  "HandleFileGotRequest request_line =
     (let w = SplitString request_line '' ''
      in bindm (liftm (vector_at w 0)) (\<lambda>filename.
         bindm (liftm (bind_res (vector_at w 1) stol)) (\<lambda>_.
           (\<lambda>s. case map_of (files_to_send s) filename of
                  None \<Rightarrow> (Inr False, s)
                | Some file \<Rightarrow>
                    (Inr True, s\<lparr>bytes_sent := bytes_sent s + word_of_int (max 0 (file_size (disk s) file)),
                                disk := (disk s)(tf_path file := None),
                                files_to_send := erase_key filename (files_to_send s)\<rparr>)))))"

text \<open>\<open>M_NUL\<close>: an option line that offers CRAM sets the challenge, on either side.\<close>

definition HandleOption :: "string \<Rightarrow> unit bm" where
  "HandleOption s0 =
     (if starts_with s0 ''OPT''
      then (let s1 = StringTrimBegin (drop 3 s0)
            in if starts_with s1 ''CRAM''
               then (case find_last_of s1 (CHR ''-'') of
                       None \<Rightarrow> returnm ()
                     | Some last_dash \<Rightarrow>
                         modifym (\<lambda>s. s\<lparr>bink_cram := set_challenge_data (drop (last_dash + 1) s1) (bink_cram s),
                                      bink_auth := CRAM_MD5\<rparr>))
               else returnm ())
      else returnm ())"

definition handle_command :: "bool bm \<Rightarrow> bink_env \<Rightarrow> u8 \<Rightarrow> string \<Rightarrow> bool bm" where
  "handle_command frames env command_id data =
     (if command_id = M_NUL then seqm (HandleOption data) (returnm True)
      else if command_id = M_ADR then seqm (modifym (\<lambda>s. s\<lparr>address_list := StringLowerCase data\<rparr>)) (returnm True)
      else if command_id = M_OK then seqm (modifym (\<lambda>s. s\<lparr>ok_received := True\<rparr>)) (returnm True)
      else if command_id = M_GET then seqm (HandleFileGetRequest frames env data) (returnm True)
      else if command_id = M_GOT then seqm (HandleFileGotRequest data) (returnm True)
      else if command_id = M_EOB then seqm (modifym (\<lambda>s. s\<lparr>eob_received := True\<rparr>)) (returnm True)
      else if command_id = M_PWD then seqm (HandlePassword data) (returnm True)
      else if command_id = M_FILE then seqm (HandleFileRequest env data) (returnm True)
      else if command_id = M_ERR then seqm (modifym (\<lambda>s. s\<lparr>error_received := True\<rparr>)) (returnm True)
      else returnm True)"

definition process_command :: "bool bm \<Rightarrow> bink_env \<Rightarrow> nat \<Rightarrow> bool bm" where
  "process_command frames env len s =
     (if \<not> conn_open s then (Inr False, s)
      else bindm (readm read_uint8) (\<lambda>command_id.
           bindm (readm (receive (int len - 1))) (\<lambda>data.
           bindm (liftm (command_id_to_name command_id)) (\<lambda>_.
             handle_command frames env command_id data))) s)"

section \<open>Data received\<close>

text \<open>A handle writes at its position; when its file has been unlinked the bytes are lost.\<close>

definition WriteChunk :: "bytes \<Rightarrow> rfile \<Rightarrow> disk \<Rightarrow> bool \<times> rfile \<times> disk" where
  "WriteChunk chunk file fs =
     (let written = file\<lparr>rf_open := True, rf_pos := rf_pos file + length chunk, rf_length := rf_length file + int (length chunk)\<rparr>
      in if \<not> rf_open file
         then (if fs (rf_path file) \<noteq> None then (False, file, fs)
               else (True, written, fs(rf_path file \<mapsto> chunk)))
         else (True, written,
               (case fs (rf_path file) of None \<Rightarrow> fs | Some c \<Rightarrow> fs(rf_path file \<mapsto> overwrite c (rf_pos file) chunk))))"

text \<open>What \<open>process_data\<close> does with the bytes of a frame.\<close>

definition accept_data :: "bytes \<Rightarrow> bool bm" where
  "accept_data data s =
     (case current_receive_file s of
        None \<Rightarrow> (Inr False, s)
      | Some file \<Rightarrow>
          (let (ok, file1, fs1) = WriteChunk data file (disk s);
               s1 = s\<lparr>disk := fs1, current_receive_file := Some file1\<rparr>
           in if rf_expected file1 \<le> rf_length file1
              then seqm (modifym (\<lambda>s. s\<lparr>bytes_received := bytes_received s + word_of_int (rf_length file1),
                                     received_files := received_files s @ [rf_name file1],
                                     current_receive_file := None\<rparr>))
                     (seqm (send_command_packet M_GOT (StringPrintf (c_str (rf_name file1) @ '' '' @ show_u (rf_length file1)
                              @ '' '' @ show_u (rf_time file1))))
                       (returnm True)) s1
              else (Inr True, s1)))"

definition process_data :: "nat \<Rightarrow> bool bm" where
  "process_data len s =
     (if \<not> conn_open s then (Inr False, s) else bindm (readm (receive (int len))) accept_data s)"

section \<open>Frames\<close>

text \<open>The predicates \<open>process_frames\<close> is called with; the last counts its own calls.\<close>

datatype pred = Never | HaveAddress | HavePassword | HaveOk | HaveEob | Counting nat

fun test_pred :: "pred \<Rightarrow> bink \<Rightarrow> bool \<times> pred" where
  "test_pred Never s = (False, Never)"
| "test_pred HaveAddress s = (address_list s \<noteq> [], HaveAddress)"
| "test_pred HavePassword s = (remote_password s \<noteq> [], HavePassword)"
| "test_pred HaveOk s = (ok_received s, HaveOk)"
| "test_pred HaveEob s = (eob_received s, HaveEob)"
| "test_pred (Counting count) s = (4 < count, Counting (count + 1))"

definition guarded :: "bool bm \<Rightarrow> bool bm" where
  "guarded m s = (if \<not> conn_open s then (Inr False, s) else catch_timeout m s)"

primrec frames_loop :: "nat \<Rightarrow> bink_env \<Rightarrow> pred \<Rightarrow> bool bm" where
  "frames_loop 0 = (\<lambda>env p s. (Inl OutOfFuel, s))"
| "frames_loop (Suc n) = (\<lambda>env p s.
     (let (stop, p1) = test_pred p s
      in if stop then (Inr True, s)
         else bindm (readm read_uint16) (\<lambda>header.
              bindm (if header AND 0x8000 \<noteq> 0
                     then process_command (guarded (frames_loop n env Never)) env (unat (header AND 0x7fff))
                     else process_data (unat (header AND 0x7fff)))
                (\<lambda>ok. if \<not> ok then returnm False else frames_loop n env p1)) s))"

definition turns :: "bink_env \<Rightarrow> pred \<Rightarrow> bool bm" where
  "turns env p s = frames_loop (Suc (length (inp s))) env p s"

definition process_frames :: "bink_env \<Rightarrow> pred \<Rightarrow> bool bm" where
  "process_frames env p = guarded (turns env p)"

section \<open>States\<close>

definition ConnInit :: "bink_env \<Rightarrow> bink_state bm" where
  "ConnInit env = seqm (process_frames env Never) (returnm WAIT_CONN)"

fun announce_networks :: "networks \<Rightarrow> string \<Rightarrow> string bm" where
  "announce_networks [] network_addresses = returnm network_addresses"
| "announce_networks (net # ns) network_addresses =
     (let name = StringLowerCase (net_name net); node = show_nat (unat (net_sysnum net))
      in seqm (send_command_packet M_NUL (StringPrintf (''WWIV @'' @ node @ ''.'' @ name)))
           (announce_networks ns
              ((if network_addresses \<noteq> [] then network_addresses @ '' '' else network_addresses)
               @ StringPrintf (''20000:20000/'' @ node @ ''@'' @ name))))"

definition primary_address :: "bink_env \<Rightarrow> string bm" where
  "primary_address env =
     bindm (liftm (case callout_node (config env) of None \<Rightarrow> Inl UndefinedBehaviour | Some n \<Rightarrow> Inr n)) (\<lambda>n.
     seqm (send_command_packet M_NUL (StringPrintf (''WWIV @'' @ show_nat (unat n) @ ''.'' @ c_str (callout_network_name (config env)))))
       (bindm (liftm (network_at (config_networks (config env)) (callout_network_name (config env)))) (\<lambda>net.
          returnm (StringPrintf (''20000:20000/'' @ show_nat (unat (net_sysnum net)) @ ''@'' @ StringLowerCase (net_name net))))))"

definition offer_cram :: "unit bm" where
  "offer_cram s =
     (let c = GenerateChallengeData (bink_cram s)
      in seqm (send_command_packet M_NUL (''OPT CRAM-MD5-'' @ challenge_data c)) (returnm ()) (s\<lparr>bink_cram := c\<rparr>))"

definition WaitConn :: "bink_env \<Rightarrow> bink_state bm" where
  "WaitConn env =
     seqm (if bink_side env = ANSWERING then offer_cram else returnm ())
    (seqm (send_command_packet M_NUL (''WWIVVER '' @ wwiv_version_string env @ '' ('' @ wwiv_date env @ '')''))
    (seqm (send_command_packet M_NUL (''SYS '' @ system_name (config env)))
    (seqm (send_command_packet M_NUL (''ZYZ '' @ sysop_name (config env)))
    (seqm (send_command_packet M_NUL (''VER networkb/'' @ wwiv_version_string env @ '' binkp/1.0''))
    (seqm (send_command_packet M_NUL ''LOC Unknown'')
    (bindm (if bink_side env = ANSWERING then announce_networks (config_networks (config env)) [] else primary_address env)
       (\<lambda>network_addresses.
     seqm (send_command_packet M_ADR network_addresses)
    (seqm (process_frames env Never)
    (returnm (if bink_side env = ORIGINATING then SEND_PASSWORD else WAIT_ADDR))))))))))"

definition callout_for :: "bink_env \<Rightarrow> string \<Rightarrow> cpp_error + callout_map" where
  "callout_for env network_name = (case callouts env network_name of None \<Rightarrow> Inl OutOfRange | Some c \<Rightarrow> Inr c)"

definition send_password :: "bink_env \<Rightarrow> string \<Rightarrow> bink_state bm" where
  "send_password env password s =
     (case bink_auth s of
        CRAM_MD5 \<Rightarrow>
          (let (hashed_password, c) = CreateHashedSecret (md5_mem env) (challenge_data (bink_cram s)) password (bink_cram s)
           in seqm (send_command_packet M_PWD (''CRAM-MD5-'' @ hashed_password)) (returnm WAIT_ADDR) (s\<lparr>bink_cram := c\<rparr>))
      | PLAIN_TEXT \<Rightarrow> seqm (send_command_packet M_PWD password) (returnm WAIT_ADDR) s)"

definition SendPasswd :: "bink_env \<Rightarrow> bink_state bm" where
  "SendPasswd env s =
     bindm (liftm (callout_for env (remote_network_name env s)))
       (\<lambda>callout. send_password env (expected_password_for callout (expected_remote_node env))) s"

text \<open>\<open>for (int i = 0; i < k; i++)\<close> over \<open>process_frames\<close>, left when the predicate holds.\<close>

fun wait_for :: "nat \<Rightarrow> bink_env \<Rightarrow> pred \<Rightarrow> bool bm" where
  "wait_for 0 env p s = (Inr False, s)"
| "wait_for (Suc k) env p s =
     bindm (process_frames env p) (\<lambda>_ s. if fst (test_pred p s) then (Inr True, s) else wait_for k env p s) s"

definition WaitAddr :: "bink_env \<Rightarrow> bink_state bm" where
  "WaitAddr env = seqm (wait_for 10 env HaveAddress) (returnm AUTH_REMOTE)"

definition WaitPwd :: "bink_env \<Rightarrow> bink_state bm" where
  "WaitPwd env = seqm (wait_for 30 env HavePassword) (returnm PASSWORD_ACK)"

definition WaitOk :: "bink_env \<Rightarrow> bink_state bm" where
  "WaitOk env =
     bindm (wait_for 30 env HaveOk) (\<lambda>ok.
       if ok then returnm TRANSFER_FILES
       else seqm (send_command_packet M_ERR ''M_OK never received. Timed out waiting for it.'') (returnm DONE))"

definition IfSecure :: "bink_state bm" where
  "IfSecure = returnm WAIT_OK"

definition bad_password_message :: "string \<Rightarrow> string \<Rightarrow> string" where
  "bad_password_message received expected =
     StringPrintf (''Password doen'' @ [CHR 0x27] @ ''t match.  Received '' @ [CHR 0x27] @ c_str received
       @ [CHR 0x27] @ '' expected '' @ [CHR 0x27] @ c_str expected @ [CHR 0x27] @ ''.'')"

definition check_password :: "bink_env \<Rightarrow> string \<Rightarrow> bink \<Rightarrow> bool \<times> bink" where
  "check_password env expected_password s =
     (case bink_auth s of
        PLAIN_TEXT \<Rightarrow> (remote_password s = expected_password, s)
      | CRAM_MD5 \<Rightarrow>
          (let (ok, c) = ValidatePassword (md5_mem env) (challenge_data (bink_cram s)) expected_password
                           (remote_password s) (bink_cram s)
           in (ok, s\<lparr>bink_cram := c\<rparr>)))"

definition answer_password :: "bink_env \<Rightarrow> string \<Rightarrow> bink_state bm" where
  "answer_password env expected_password s =
     (let (accepted, s1) = check_password env expected_password s
      in if accepted
         then seqm (send_command_packet M_OK
                      (case bink_auth s of PLAIN_TEXT \<Rightarrow> ''Passwords match; insecure session''
                       | CRAM_MD5 \<Rightarrow> ''Passwords match; secure session.''))
                (returnm TRANSFER_FILES) s1
         else seqm (send_command_packet M_ERR (bad_password_message (remote_password s) expected_password))
                (returnm DONE) s1)"

definition PasswordAck :: "bink_env \<Rightarrow> bink_state bm" where
  "PasswordAck env s =
     bindm (liftm (remote_network_node env s)) (\<lambda>remote_node.
     bindm (liftm (callout_for env (remote_network_name env s))) (\<lambda>callout.
       answer_password env (expected_password_for callout remote_node))) s"

definition AuthRemote :: "bink_env \<Rightarrow> bink_state bm" where
  "AuthRemote env s =
     (let network_name = remote_network_name env s
      in if bink_side env = ANSWERING
         then bindm (liftm (node_number_from_address_list (address_list s) network_name)) (\<lambda>caller_node.
              case callouts env network_name of
                None \<Rightarrow> seqm (send_command_packet M_ERR (''Error (NETWORKB-0003): Unable to find callout.net for: '' @ network_name))
                          (returnm UNKNOWN)
              | Some callout \<Rightarrow>
                  (case node_config_for callout caller_node of
                     None \<Rightarrow> seqm (send_command_packet M_ERR (''Error (NETWORKB-0002): Unexpected Address: '' @ address_list s))
                               (returnm UNKNOWN)
                   | Some _ \<Rightarrow> returnm WAIT_PWD)) s
         else if find_sub (StringPrintf (''20000:20000/'' @ show_int (expected_remote_node env) @ ''@'' @ c_str network_name)) (address_list s) \<noteq> None
         then (Inr IF_SECURE, s)
         else seqm (send_command_packet M_ERR (''Error (NETWORKB-0001): Unexpected Address: '' @ address_list s))
                (returnm UNKNOWN) s)"

text \<open>\<open>SendFiles\<close>: the one file \<open>s<node>.net\<close> of the network's directory; the node is narrowed to
  16 bits.\<close>

definition CreateTransferFileList :: "bink_env \<Rightarrow> string \<Rightarrow> int \<Rightarrow> disk \<Rightarrow> cpp_error + tfile list" where
  "CreateTransferFileList env network_directory remote_node fs =
     bind_res (EnsureTrailingSlash network_directory) (\<lambda>dir.
       let s_node_net = ''s'' @ show_nat (unat (word_of_int remote_node :: u16)) @ ''.net''
       in Inr (if File_Exists (dir @ s_node_net) fs
               then [\<lparr>tf_name = s_node_net, tf_path = SetName network_directory s_node_net,
                      tf_time = last_write_time env (SetName network_directory s_node_net)\<rparr>]
               else []))"

definition SendFilePacket :: "bink_env \<Rightarrow> tfile \<Rightarrow> bool bm" where
  "SendFilePacket env file =
     seqm (modifym (\<lambda>s. s\<lparr>files_to_send := assign_key (tf_name file) file (files_to_send s)\<rparr>))
    (seqm (\<lambda>s. send_command_packet M_FILE (as_packet_data (tf_name file) (file_size (disk s) file) (tf_time file) 0) s)
    (seqm (process_frames env Never)
    (\<lambda>s. if map_of (files_to_send s) (tf_name file) \<noteq> None
         then seqm (SendFileData (process_frames env Never) env file) (returnm True) s
         else (Inr True, s))))"

fun send_all :: "bink_env \<Rightarrow> tfile list \<Rightarrow> unit bm" where
  "send_all env [] = returnm ()"
| "send_all env (file # files) = seqm (SendFilePacket env file) (send_all env files)"

fun percolate :: "nat \<Rightarrow> bink_env \<Rightarrow> unit bm" where
  "percolate 0 env = returnm ()"
| "percolate (Suc k) env = seqm (process_frames env Never) (percolate k env)"

definition finish_transfer :: "bink_env \<Rightarrow> bink_state bm" where
  "finish_transfer env s =
     (if files_to_send s = []
      then seqm (send_command_packet M_EOB ''All files to send have been sent. Thank you.'')
          (seqm (process_frames env Never) (returnm WAIT_EOB)) s
      else (Inr WAIT_EOB, s))"

definition transfer_to :: "bink_env \<Rightarrow> string \<Rightarrow> int \<Rightarrow> bink_state bm" where
  "transfer_to env dir remote_node s =
     bindm (liftm (CreateTransferFileList env dir remote_node (disk s))) (\<lambda>files.
       seqm (send_all env files) (seqm (percolate 5 env) (finish_transfer env))) s"

definition TransferFiles :: "bink_env \<Rightarrow> bink_state bm" where
  "TransferFiles env s =
     bindm (liftm (remote_network_node env s)) (\<lambda>remote_node.
       seqm (process_frames env Never)
         (bindm (liftm (network_dir (config env) (remote_network_name env s)))
           (\<lambda>dir. transfer_to env dir remote_node))) s"

definition Unknown :: "bink_env \<Rightarrow> bink_state bm" where
  "Unknown env = seqm (process_frames env (Counting 0)) (returnm DONE)"

definition WaitEob :: "bink_env \<Rightarrow> bink_state bm" where
  "WaitEob env s =
     (if eob_received s then (Inr DONE, s)
      else seqm (wait_for 11 env HaveEob) (returnm DONE) s)"

section \<open>Run\<close>

definition run_state :: "bink_env \<Rightarrow> bink_state \<Rightarrow> bink_state bm" where
  "run_state env st =
     (case st of
        CONN_INIT \<Rightarrow> ConnInit env | WAIT_CONN \<Rightarrow> WaitConn env | SEND_PASSWORD \<Rightarrow> SendPasswd env
      | WAIT_ADDR \<Rightarrow> WaitAddr env | AUTH_REMOTE \<Rightarrow> AuthRemote env | IF_SECURE \<Rightarrow> IfSecure
      | WAIT_PWD \<Rightarrow> WaitPwd env | PASSWORD_ACK \<Rightarrow> PasswordAck env | WAIT_OK \<Rightarrow> WaitOk env
      | TRANSFER_FILES \<Rightarrow> TransferFiles env | WAIT_EOB \<Rightarrow> WaitEob env | UNKNOWN \<Rightarrow> Unknown env
      | DONE \<Rightarrow> seqm (modifym (\<lambda>s. s\<lparr>conn_open := False\<rparr>)) (returnm DONE))"

text \<open>The transitions of each side.\<close>

inductive edge :: "bink_side \<Rightarrow> bink_state \<Rightarrow> bink_state \<Rightarrow> bool" where
  "edge d CONN_INIT WAIT_CONN"
| "edge ORIGINATING WAIT_CONN SEND_PASSWORD"
| "edge ANSWERING WAIT_CONN WAIT_ADDR"
| "edge d SEND_PASSWORD WAIT_ADDR"
| "edge d WAIT_ADDR AUTH_REMOTE"
| "edge ORIGINATING AUTH_REMOTE IF_SECURE"
| "edge ANSWERING AUTH_REMOTE WAIT_PWD"
| "edge d AUTH_REMOTE UNKNOWN"
| "edge d IF_SECURE WAIT_OK"
| "edge d WAIT_OK TRANSFER_FILES"
| "edge d WAIT_OK DONE"
| "edge d WAIT_PWD PASSWORD_ACK"
| "edge d PASSWORD_ACK TRANSFER_FILES"
| "edge d PASSWORD_ACK DONE"
| "edge d TRANSFER_FILES WAIT_EOB"
| "edge d WAIT_EOB DONE"
| "edge d UNKNOWN DONE"

code_pred edge .

inductive_simps edge_to_TRANSFER_FILES: "edge d st TRANSFER_FILES"
inductive_simps edge_to_WAIT_OK: "edge d st WAIT_OK"
inductive_simps edge_to_IF_SECURE: "edge ANSWERING st IF_SECURE"

text \<open>Each state leads to one of higher rank, so the loop of \<open>Run\<close> ends.\<close>

fun rank :: "bink_state \<Rightarrow> nat" where
  "rank CONN_INIT = 0" | "rank WAIT_CONN = 1" | "rank SEND_PASSWORD = 2" | "rank WAIT_ADDR = 3"
| "rank AUTH_REMOTE = 4" | "rank IF_SECURE = 5" | "rank WAIT_PWD = 5" | "rank WAIT_OK = 6"
| "rank PASSWORD_ACK = 6" | "rank TRANSFER_FILES = 7" | "rank WAIT_EOB = 8" | "rank UNKNOWN = 8"
| "rank DONE = 9"

lemma edge_rank: "edge d st st1 \<Longrightarrow> rank st < rank st1"
  by (induction rule: edge.induct) simp_all

lemma rank_le: "rank st \<le> 9"
  by (cases st) simp_all

lemma bindm_Inr: "bindm m f s = (Inr y, s2) \<longleftrightarrow> (\<exists>x s1. m s = (Inr x, s1) \<and> f x s1 = (Inr y, s2))"
  by (auto simp: bindm_def split: prod.splits sum.splits)

lemma seqm_Inr: "seqm m k s = (Inr y, s2) \<longleftrightarrow> (\<exists>x s1. m s = (Inr x, s1) \<and> k s1 = (Inr y, s2))"
  by (simp add: seqm_def bindm_Inr)

lemma liftm_Inr: "liftm r s = (Inr x, s1) \<longleftrightarrow> r = Inr x \<and> s1 = s"
  by (cases r) (auto simp: liftm_def)

lemma returnm_Inr: "returnm x s = (Inr y, s1) \<longleftrightarrow> y = x \<and> s1 = s"
  by (auto simp: returnm_def)

lemmas monad_Inr = bindm_Inr seqm_Inr liftm_Inr returnm_Inr

lemma bink_side_cases: "d = ORIGINATING \<or> d = ANSWERING"
  by (cases d) simp_all

lemma next_ConnInit: "ConnInit env s = (Inr st1, s1) \<Longrightarrow> st1 = WAIT_CONN"
  by (auto simp: ConnInit_def monad_Inr)

lemma next_WaitConn: "WaitConn env s = (Inr st1, s1) \<Longrightarrow> st1 = (if bink_side env = ORIGINATING then SEND_PASSWORD else WAIT_ADDR)"
  unfolding WaitConn_def monad_Inr by blast

lemma next_SendPasswd: "SendPasswd env s = (Inr st1, s1) \<Longrightarrow> st1 = WAIT_ADDR"
  by (cases "bink_auth s") (auto simp: SendPasswd_def send_password_def monad_Inr Let_def case_prod_beta)

lemma next_WaitAddr: "WaitAddr env s = (Inr st1, s1) \<Longrightarrow> st1 = AUTH_REMOTE"
  by (auto simp: WaitAddr_def monad_Inr)

lemma next_AuthRemote:
  "AuthRemote env s = (Inr st1, s1) \<Longrightarrow> st1 = UNKNOWN \<or> st1 = (if bink_side env = ANSWERING then WAIT_PWD else IF_SECURE)"
  by (auto simp: AuthRemote_def monad_Inr Let_def split: if_splits option.splits)

lemma next_WaitPwd: "WaitPwd env s = (Inr st1, s1) \<Longrightarrow> st1 = PASSWORD_ACK"
  by (auto simp: WaitPwd_def monad_Inr)

lemma next_PasswordAck: "PasswordAck env s = (Inr st1, s1) \<Longrightarrow> st1 = TRANSFER_FILES \<or> st1 = DONE"
  by (auto simp: PasswordAck_def answer_password_def monad_Inr Let_def case_prod_beta split: if_splits)

lemma next_WaitOk: "WaitOk env s = (Inr st1, s1) \<Longrightarrow> st1 = TRANSFER_FILES \<or> st1 = DONE"
  by (auto simp: WaitOk_def monad_Inr split: if_splits)

lemma next_TransferFiles: "TransferFiles env s = (Inr st1, s1) \<Longrightarrow> st1 = WAIT_EOB"
  by (auto simp: TransferFiles_def transfer_to_def finish_transfer_def monad_Inr split: if_splits)

lemma next_Unknown: "Unknown env s = (Inr st1, s1) \<Longrightarrow> st1 = DONE"
  by (auto simp: Unknown_def monad_Inr)

lemma next_WaitEob: "WaitEob env s = (Inr st1, s1) \<Longrightarrow> st1 = DONE"
  by (auto simp: WaitEob_def monad_Inr split: if_splits)

lemma run_state_edge:
  assumes "run_state env st s = (Inr st1, s1)" "st \<noteq> DONE"
  shows "edge (bink_side env) st st1"
  using assms bink_side_cases [of "bink_side env"]
  by (cases st)
    (auto simp: run_state_def IfSecure_def returnm_Inr intro: edge.intros
      dest!: next_ConnInit next_WaitConn next_SendPasswd next_WaitAddr next_AuthRemote next_WaitPwd
        next_PasswordAck next_WaitOk next_TransferFiles next_Unknown next_WaitEob)

function run_loop :: "bink_env \<Rightarrow> bink_state \<Rightarrow> unit bm" where
  "run_loop env st s =
     (case run_state env st s of
        (Inl e, s1) \<Rightarrow> (Inl e, s1)
      | (Inr st1, s1) \<Rightarrow>
          (case process_frames env Never s1 of
             (Inl e, s2) \<Rightarrow> (Inl e, s2)
           | (Inr _, s2) \<Rightarrow> if st = DONE \<or> error_received s1 then (Inr (), s2) else run_loop env st1 s2))"
  by pat_completeness auto
termination
proof (relation "measure (\<lambda>(env, st, s). 9 - rank st)")
  fix env st s and y :: "bexn + bink_state" and s1 st1 z s2 b
  assume a: "(y, s1) = run_state env st s" "y = Inr st1" "\<not> (st = DONE \<or> error_received s1)"
  then have "edge (bink_side env) st st1" using run_state_edge [of env st s st1 s1] by simp
  from edge_rank [OF this] rank_le [of st1]
  show "((env, st1, s2), (env, st, s)) \<in> measure (\<lambda>(env, st, s). 9 - rank st)" by simp
qed simp

declare run_loop.simps [simp del]

end
