(* ===== verification/Net_Binkp_Frames.thy ===== *)
theory Net_Binkp_Frames
  imports Net_Binkp
begin

text \<open>
  What \<open>process_frames\<close> and the states of a session preserve, and that the model never lacks
  fuel: \<open>evolves\<close> relates the states before and after any operation, \<open>pres\<close> says of an operation
  that it keeps the relation and ends, from a script shorter than the bound.
\<close>

section \<open>How a session evolves\<close>

definition evolves :: "bink \<Rightarrow> bink \<Rightarrow> bool" where
  "evolves s s1 \<longleftrightarrow> length (inp s1) \<le> length (inp s) \<and> (\<exists>ps. sent s1 = sent s @ ps)
     \<and> (\<exists>fs. received_files s1 = received_files s @ fs) \<and> (conn_open s1 \<longrightarrow> conn_open s)
     \<and> (ok_received s \<longrightarrow> ok_received s1) \<and> (eob_received s \<longrightarrow> eob_received s1)
     \<and> (error_received s \<longrightarrow> error_received s1)"

lemma evolves_refl [simp, intro]: "evolves s s"
  by (simp add: evolves_def)

lemma evolves_trans: "evolves s s1 \<Longrightarrow> evolves s1 s2 \<Longrightarrow> evolves s s2"
  unfolding evolves_def by force

definition pres :: "nat \<Rightarrow> 'a bm \<Rightarrow> bink \<Rightarrow> bool" where
  "pres n m s \<longleftrightarrow> (length (inp s) < n \<longrightarrow> fst (m s) \<noteq> Inl OutOfFuel \<and> evolves s (snd (m s)))"

named_theorems pres_intros

lemma pres_returnm [pres_intros]: "pres n (returnm x) s"
  by (simp add: pres_def returnm_def)

lemma pres_liftm [pres_intros]: "pres n (liftm r) s"
  by (cases r) (simp_all add: pres_def liftm_def)

lemma pres_modifym [pres_intros]: "evolves s (f s) \<Longrightarrow> pres n (modifym f) s"
  by (simp add: pres_def modifym_def)

lemma pres_pair: "evolves s s1 \<Longrightarrow> r \<noteq> Inl OutOfFuel \<Longrightarrow> m s = (r, s1) \<Longrightarrow> pres n m s"
  by (simp add: pres_def)

lemma pres_bindm [pres_intros]:
  assumes "pres n m s" "\<And>x s1. evolves s s1 \<Longrightarrow> pres n (f x) s1"
  shows "pres n (bindm m f) s"
  unfolding pres_def
proof
  assume n: "length (inp s) < n"
  obtain r s1 where m: "m s = (r, s1)" by (cases "m s")
  with assms(1) n have e: "r \<noteq> Inl OutOfFuel" "evolves s s1" by (simp_all add: pres_def)
  show "fst (bindm m f s) \<noteq> Inl OutOfFuel \<and> evolves s (snd (bindm m f s))"
  proof (cases r)
    case (Inl e)
    with m e(1) \<open>evolves s s1\<close> show ?thesis by (simp add: bindm_def)
  next
    case (Inr x)
    have "length (inp s1) < n" using e(2) n by (simp add: evolves_def)
    with assms(2) [OF e(2), of x] have "fst (f x s1) \<noteq> Inl OutOfFuel" "evolves s1 (snd (f x s1))"
      by (simp_all add: pres_def)
    with m Inr e(2) show ?thesis by (auto simp: bindm_def intro: evolves_trans)
  qed
qed

lemma pres_seqm [pres_intros]:
  "pres n m s \<Longrightarrow> (\<And>s1. evolves s s1 \<Longrightarrow> pres n k s1) \<Longrightarrow> pres n (seqm m k) s"
  unfolding seqm_def by (rule pres_bindm)

lemma evolves_send: "evolves s (s\<lparr>sent := sent s @ ps\<rparr>)"
  by (simp add: evolves_def)

lemma pres_send_command_packet [pres_intros]: "pres n (send_command_packet c d) s"
  by (simp add: pres_def send_command_packet_def evolves_send)

lemma pres_send_data_packet [pres_intros]: "pres n (send_data_packet d) s"
  by (simp add: pres_def send_data_packet_def evolves_send)

text \<open>Reads: they shorten the script, the reading of a header strictly.\<close>

lemma read_some_no_OutOfFuel: "fst (read_some n scr) \<noteq> Inl OutOfFuel"
proof -
  have "fst (read_TYPE n scr) \<noteq> Inl OutOfFuel"
    by (induction n scr rule: read_TYPE.induct) (auto split: prod.splits sum.splits)
  then show ?thesis by (auto simp: read_some_def split: prod.splits sum.splits)
qed

lemma receive_shrinks: "fst (receive k scr) \<noteq> Inl OutOfFuel \<and> length (snd (receive k scr)) \<le> length scr"
  using read_some_shrinks(1) [of "nat k" scr "fst (read_some (nat k) scr)" "snd (read_some (nat k) scr)"]
    read_some_no_OutOfFuel [of "nat k" scr]
  by (simp add: receive_def)

lemma read_uint8_shrinks: "fst (read_uint8 scr) \<noteq> Inl OutOfFuel \<and> length (snd (read_uint8 scr)) \<le> length scr"
  using read_some_shrinks(1) [of 1 scr "fst (read_some 1 scr)" "snd (read_some 1 scr)"] read_some_no_OutOfFuel [of 1 scr]
  by (auto simp: read_uint8_def split: prod.splits sum.splits)

lemma read_uint16_shrinks:
  "fst (read_uint16 scr) \<noteq> Inl OutOfFuel"
  "length (snd (read_uint16 scr)) \<le> length scr"
  "fst (read_uint16 scr) = Inr h \<Longrightarrow> length (snd (read_uint16 scr)) < length scr"
  using read_some_shrinks [of 2 scr "fst (read_some 2 scr)" "snd (read_some 2 scr)"] read_some_no_OutOfFuel [of 2 scr]
  by (auto simp: read_uint16_def split: prod.splits sum.splits)

lemma pres_readm:
  assumes "fst (rd (inp s)) \<noteq> Inl OutOfFuel \<and> length (snd (rd (inp s))) \<le> length (inp s)"
  shows "pres n (readm rd) s"
proof -
  have "fst (readm rd s) = fst (rd (inp s))" "snd (readm rd s) = s\<lparr>inp := snd (rd (inp s))\<rparr>"
    by (auto simp: readm_def split: prod.splits)
  moreover have "evolves s (s\<lparr>inp := snd (rd (inp s))\<rparr>)" using assms by (simp add: evolves_def)
  ultimately show ?thesis using assms by (simp add: pres_def)
qed

lemma pres_reads [pres_intros]:
  "pres n (readm (receive k)) s" "pres n (readm read_uint8) s" "pres n (readm read_uint16) s"
  using receive_shrinks read_uint8_shrinks read_uint16_shrinks(1,2) by (auto intro: pres_readm)

section \<open>The handlers\<close>

lemma pres_catch_timeout: "pres n m s \<Longrightarrow> pres n (catch_timeout m) s"
  by (auto simp: pres_def catch_timeout_def split: prod.splits sum.splits bexn.splits)

lemma pres_guarded: "pres n m s \<Longrightarrow> pres n (guarded m) s"
  using pres_catch_timeout [of n m s] by (simp add: pres_def guarded_def)

lemma pres_send_chunks:
  assumes "\<And>s. pres n frames s"
  shows "pres n (send_chunks frames f len start chunk) s"
  using assms
proof (induction frames f len start chunk s rule: send_chunks.induct)
  case (1 frames f len start chunk s)
  show ?case
  proof (cases "int start < len \<and> map_of (files_to_send s) (tf_name f) \<noteq> None")
    case True
    let ?count = "nat (min 16384 (len - int start))"
    let ?chunk = "case GetChunk (disk s) f start ?count of None \<Rightarrow> chunk | Some b \<Rightarrow> b @ drop (length b) chunk"
    have step: "send_chunks frames f len start chunk s =
        bindm (send_data_packet (take ?count ?chunk)) (\<lambda>_. bindm frames (\<lambda>_. send_chunks frames f len (start + 16384) ?chunk)) s"
      using True by (subst send_chunks.simps) (auto simp: Let_def)
    have "pres n (send_chunks frames f len (start + 16384) ?chunk) s1" for s1
      using True "1.IH" [of ?count ?chunk] "1.prems" by blast
    then have "pres n (bindm (send_data_packet (take ?count ?chunk))
        (\<lambda>_. bindm frames (\<lambda>_. send_chunks frames f len (start + 16384) ?chunk))) s"
      by (intro pres_intros "1.prems")
    then show ?thesis by (simp add: pres_def step)
  next
    case False
    then have "send_chunks frames f len start chunk s = (Inl (Cpp UndefinedBehaviour), s)
        \<or> send_chunks frames f len start chunk s = (Inr True, s)"
      by (subst (1 2) send_chunks.simps) auto
    then show ?thesis by (auto simp: pres_def)
  qed
qed

lemma pres_SendFileData: "(\<And>s. pres n frames s) \<Longrightarrow> pres n (SendFileData frames env f) s"
  using pres_send_chunks [of n frames f "file_size (disk s) f" 0 "chunk_memory env" s]
  by (simp add: pres_def SendFileData_def)

lemma pres_HandlePassword [pres_intros]: "pres n (HandlePassword data) s"
  unfolding HandlePassword_def by (auto intro!: pres_intros simp: evolves_def)

lemma pres_HandleOption [pres_intros]: "pres n (HandleOption data) s"
  unfolding HandleOption_def Let_def by (auto intro!: pres_intros simp: evolves_def split: option.split)

lemma pres_HandleFileRequest [pres_intros]: "pres n (HandleFileRequest env data) s"
  unfolding HandleFileRequest_def
proof (intro pres_intros)
  show "evolves s (s\<lparr>current_receive_file := None\<rparr>)" by (simp add: evolves_def)
  fix s1 r s2
  show "pres n (case r of None \<Rightarrow> returnm False
       | Some (filename, expected_length, timestamp, starting_offset) \<Rightarrow>
           (\<lambda>s. bindm (liftm (transfer_file_path env (remote_network_name env s) filename))
                 (\<lambda>path. seqm (modifym (\<lambda>s. s\<lparr>current_receive_file :=
                    Some \<lparr>rf_name = filename, rf_path = path, rf_expected = expected_length, rf_time = timestamp,
                       rf_length = 0, rf_open = False, rf_pos = 0\<rparr>\<rparr>)) (returnm True)) s)) s2"
  proof (cases r)
    case (Some q)
    obtain fn len ts off where q: "q = (fn, len, ts, off)" by (cases q)
    have "pres n (bindm (liftm (transfer_file_path env (remote_network_name env s2) fn))
        (\<lambda>path. seqm (modifym (\<lambda>s. s\<lparr>current_receive_file :=
           Some \<lparr>rf_name = fn, rf_path = path, rf_expected = len, rf_time = ts,
                 rf_length = 0, rf_open = False, rf_pos = 0\<rparr>\<rparr>)) (returnm True))) s2"
      by (intro pres_intros) (simp add: evolves_def)
    then show ?thesis using Some q by (simp add: pres_def)
  qed (simp add: pres_returnm)
qed

lemma pres_HandleFileGotRequest [pres_intros]: "pres n (HandleFileGotRequest data) s"
  unfolding HandleFileGotRequest_def Let_def
  by (intro pres_intros) (auto simp: pres_def evolves_def split: option.split)

lemma pres_HandleFileGetRequest:
  assumes "\<And>s. pres n frames s"
  shows "pres n (HandleFileGetRequest frames env data) s"
proof -
  have "pres n (\<lambda>s. case map_of (files_to_send s) fn of None \<Rightarrow> (Inr False, s)
      | Some f \<Rightarrow> SendFileData frames env f s) s1" for fn s1
    using pres_SendFileData [OF assms] by (auto simp: pres_def split: option.split)
  then show ?thesis
    unfolding HandleFileGetRequest_def Let_def by (intro pres_intros) (auto intro: pres_intros)
qed

lemma pres_handle_command:
  assumes "\<And>s. pres n frames s"
  shows "pres n (handle_command frames env c data) s"
  unfolding handle_command_def
  by (auto intro!: pres_intros pres_HandleFileGetRequest assms simp: evolves_def)

lemma pres_process_command:
  assumes "\<And>s. pres n frames s"
  shows "pres n (process_command frames env len) s"
proof -
  have "pres n (bindm (readm read_uint8) (\<lambda>command_id. bindm (readm (receive (int len - 1)))
      (\<lambda>data. bindm (liftm (command_id_to_name command_id)) (\<lambda>_. handle_command frames env command_id data)))) s"
    by (intro pres_intros pres_handle_command assms)
  then show ?thesis by (simp add: pres_def process_command_def)
qed

lemma pres_process_data: "pres n (process_data len) s"
proof -
  have "pres n (accept_data data) s1" for data s1
    by (auto simp: pres_def accept_data_def evolves_def Let_def seqm_def bindm_def modifym_def send_command_packet_def
        returnm_def split: option.split prod.split)
  then have "pres n (bindm (readm (receive (int len))) accept_data) s" by (intro pres_intros)
  then show ?thesis by (simp add: pres_def process_data_def)
qed

section \<open>Fuel\<close>

lemma frames_loop_pres: "pres n (frames_loop n env p) s"
proof (induction n arbitrary: env p s)
  case 0
  show ?case by (simp add: pres_def)
next
  case (Suc n env p s)
  obtain stop p1 where stop: "test_pred p s = (stop, p1)" by (cases "test_pred p s")
  show ?case
  proof (cases stop)
    case True
    then have "frames_loop (Suc n) env p s = (Inr True, s)" by (simp add: stop)
    then show ?thesis by (simp add: pres_def del: frames_loop.simps)
  next
    case False
    let ?rest = "\<lambda>header. bindm (if header AND 0x8000 \<noteq> 0
        then process_command (guarded (frames_loop n env Never)) env (unat (header AND 0x7fff))
        else process_data (unat (header AND 0x7fff)))
      (\<lambda>ok. if \<not> ok then returnm False else frames_loop n env p1)"
    have loop: "frames_loop (Suc n) env p s = bindm (readm read_uint16) ?rest s"
      using False by (simp add: stop)
    have frames: "pres n (guarded (frames_loop n env Never)) s1" for s1 by (rule pres_guarded [OF Suc.IH])
    have rest: "pres n (?rest header) s1" for header s1
      using Suc.IH [of env p1] by (auto intro!: pres_intros pres_process_command pres_process_data frames)
    show ?thesis
      unfolding pres_def
    proof
      assume len: "length (inp s) < Suc n"
      obtain v r where rd: "read_uint16 (inp s) = (v, r)" by (cases "read_uint16 (inp s)")
      then have read: "readm read_uint16 s = (v, s\<lparr>inp := r\<rparr>)" by (simp add: readm_def)
      have r: "length r \<le> length (inp s)" and v: "v \<noteq> Inl OutOfFuel"
        using read_uint16_shrinks(1,2) [of "inp s"] rd by simp_all
      have e: "evolves s (s\<lparr>inp := r\<rparr>)" using r by (simp add: evolves_def)
      show "fst (frames_loop (Suc n) env p s) \<noteq> Inl OutOfFuel \<and> evolves s (snd (frames_loop (Suc n) env p s))"
      proof (cases v)
        case (Inl x)
        with v e show ?thesis unfolding loop bindm_def read by simp
      next
        case (Inr header)
        then have "length r < length (inp s)" using read_uint16_shrinks(3) [of "inp s" header] rd by simp
        then have "length (inp (s\<lparr>inp := r\<rparr>)) < n" using len by simp
        with rest [of header "s\<lparr>inp := r\<rparr>"]
        have "fst (?rest header (s\<lparr>inp := r\<rparr>)) \<noteq> Inl OutOfFuel"
          "evolves (s\<lparr>inp := r\<rparr>) (snd (?rest header (s\<lparr>inp := r\<rparr>)))"
          unfolding pres_def by blast+
        with e show ?thesis unfolding loop bindm_def [of "readm read_uint16"] read Inr by (auto intro: evolves_trans)
      qed
    qed
  qed
qed

lemma pres_turns [pres_intros]: "pres n (turns env p) s"
  using frames_loop_pres [of "Suc (length (inp s))" env p s] by (simp add: pres_def turns_def)

lemma pres_process_frames [pres_intros]: "pres n (process_frames env p) s"
  unfolding process_frames_def by (intro pres_guarded pres_turns)

text \<open>Two operations that agree on short scripts. More fuel than \<open>turns\<close> has changes nothing, so
  \<open>turns\<close> satisfies the recursion of the code.\<close>

definition agree :: "nat \<Rightarrow> 'a bm \<Rightarrow> 'a bm \<Rightarrow> bool" where
  "agree n m m' \<longleftrightarrow> (\<forall>s. length (inp s) < n \<longrightarrow> m s = m' s)"

lemma agree_refl [simp, intro]: "agree n m m"
  by (simp add: agree_def)

lemma agree_bindm:
  assumes "agree n m m'" "\<And>s. pres n m s" "\<And>x. agree n (f x) (f' x)"
  shows "agree n (bindm m f) (bindm m' f')"
  unfolding agree_def
proof (intro allI impI)
  fix s :: bink assume n: "length (inp s) < n"
  obtain r s1 where m: "m s = (r, s1)" by (cases "m s")
  with assms(2) [of s] n have "length (inp s1) < n" by (simp add: pres_def evolves_def)
  with assms(1,3) n m show "bindm m f s = bindm m' f' s"
    by (auto simp: agree_def bindm_def split: sum.split)
qed

lemma agree_seqm: "agree n m m' \<Longrightarrow> (\<And>s. pres n m s) \<Longrightarrow> agree n k k' \<Longrightarrow> agree n (seqm m k) (seqm m' k')"
  unfolding seqm_def by (rule agree_bindm)

lemma agree_send_chunks:
  assumes "agree n m m'" "\<And>s. pres n m s" "length (inp s) < n"
  shows "send_chunks m f len start chunk s = send_chunks m' f len start chunk s"
  using assms
proof (induction m f len start chunk s rule: send_chunks.induct)
  case (1 m f len start chunk s)
  let ?count = "nat (min 16384 (len - int start))"
  let ?chunk = "case GetChunk (disk s) f start ?count of None \<Rightarrow> chunk | Some b \<Rightarrow> b @ drop (length b) chunk"
  have "agree n (bindm (send_data_packet (take ?count ?chunk)) (\<lambda>_. bindm m (\<lambda>_. send_chunks m f len (start + 16384) ?chunk)))
      (bindm (send_data_packet (take ?count ?chunk)) (\<lambda>_. bindm m' (\<lambda>_. send_chunks m' f len (start + 16384) ?chunk)))"
    if "int start < len" "map_of (files_to_send s) (tf_name f) \<noteq> None"
  proof (intro agree_bindm agree_refl pres_intros "1.prems")
    show "agree n (send_chunks m f len (start + 16384) ?chunk) (send_chunks m' f len (start + 16384) ?chunk)"
      using "1.IH" [OF that refl refl] "1.prems" unfolding agree_def by blast
  qed
  then show ?case
    using "1.prems"(3) by (subst (1 2) send_chunks.simps) (auto simp: Let_def agree_def)
qed

lemma agree_handle_command:
  assumes "agree n m m'" "\<And>s. pres n m s"
  shows "agree n (handle_command m env c data) (handle_command m' env c data)"
proof -
  have "agree n (\<lambda>s. case map_of (files_to_send s) fn of None \<Rightarrow> (Inr False, s) | Some f \<Rightarrow> SendFileData m env f s)
      (\<lambda>s. case map_of (files_to_send s) fn of None \<Rightarrow> (Inr False, s) | Some f \<Rightarrow> SendFileData m' env f s)" for fn
    using agree_send_chunks [OF assms] by (auto simp: agree_def SendFileData_def split: option.split)
  then have "agree n (HandleFileGetRequest m env data) (HandleFileGetRequest m' env data)"
    unfolding HandleFileGetRequest_def Let_def
    by (intro agree_bindm agree_refl pres_intros) (auto intro: pres_intros)
  then show ?thesis
    unfolding handle_command_def by (auto intro!: agree_seqm pres_HandleFileGetRequest assms)
qed

lemma agree_process_command:
  assumes "agree n m m'" "\<And>s. pres n m s"
  shows "agree n (process_command m env len) (process_command m' env len)"
proof -
  have "agree n (bindm (readm read_uint8) (\<lambda>command_id. bindm (readm (receive (int len - 1)))
      (\<lambda>data. bindm (liftm (command_id_to_name command_id)) (\<lambda>_. handle_command m env command_id data))))
    (bindm (readm read_uint8) (\<lambda>command_id. bindm (readm (receive (int len - 1)))
      (\<lambda>data. bindm (liftm (command_id_to_name command_id)) (\<lambda>_. handle_command m' env command_id data))))"
    by (intro agree_bindm agree_handle_command agree_refl pres_intros assms)
  then show ?thesis by (simp add: agree_def process_command_def)
qed

lemma agree_guarded: "agree n m m' \<Longrightarrow> agree n (guarded m) (guarded m')"
  by (simp add: agree_def guarded_def catch_timeout_def)

lemma frames_loop_fuel:
  assumes "length (inp s) < n" "length (inp s) < m"
  shows "frames_loop n env p s = frames_loop m env p s"
  using assms
proof (induction n arbitrary: m env p s)
  case (Suc n m env p s)
  obtain k where m: "m = Suc k" using Suc.prems(2) by (cases m) auto
  obtain stop p1 where stop: "test_pred p s = (stop, p1)" by (cases "test_pred p s")
  let ?b = "length (inp s)"
  have loops: "agree ?b (frames_loop n env q) (frames_loop k env q)" for q
    unfolding agree_def
  proof (intro allI impI)
    fix t :: bink assume "length (inp t) < ?b"
    then have "length (inp t) < n" "length (inp t) < k" using Suc.prems m by simp_all
    then show "frames_loop n env q t = frames_loop k env q t" by (rule Suc.IH)
  qed
  have pres: "pres ?b (guarded (frames_loop n env q)) s1" for q s1
    using pres_guarded [OF frames_loop_pres [of n env q s1]] Suc.prems(1) by (auto simp: pres_def)
  have pres1: "pres ?b (process_command (guarded (frames_loop n env Never)) env len) s1" for len s1
    by (rule pres_process_command [OF pres])
  let ?rest = "\<lambda>n header. bindm (if header AND 0x8000 \<noteq> 0
      then process_command (guarded (frames_loop n env Never)) env (unat (header AND 0x7fff))
      else process_data (unat (header AND 0x7fff)))
    (\<lambda>ok. if \<not> ok then returnm False else frames_loop n env p1)"
  have rest: "agree ?b (?rest n header) (?rest k header)" for header
    by (auto intro!: agree_bindm agree_process_command agree_guarded loops pres pres1 pres_process_data)
  have "bindm (readm read_uint16) (?rest n) s = bindm (readm read_uint16) (?rest k) s"
  proof -
    obtain v r where rd: "read_uint16 (inp s) = (v, r)" by (cases "read_uint16 (inp s)")
    show ?thesis
    proof (cases v)
      case (Inr header)
      then have "length r < ?b" using read_uint16_shrinks(3) [of "inp s" header] rd by simp
      then have "?rest n header (s\<lparr>inp := r\<rparr>) = ?rest k header (s\<lparr>inp := r\<rparr>)"
        using rest [of header] by (simp add: agree_def)
      with rd Inr show ?thesis by (simp add: bindm_def [of "readm read_uint16"] readm_def)
    qed (simp add: bindm_def readm_def rd)
  qed
  then show ?case by (simp add: m stop)
qed simp

lemma turns_unfold:
  "turns env p s =
    (let (stop, p1) = test_pred p s
     in if stop then (Inr True, s)
        else bindm (readm read_uint16) (\<lambda>header.
             bindm (if header AND 0x8000 \<noteq> 0
                    then process_command (process_frames env Never) env (unat (header AND 0x7fff))
                    else process_data (unat (header AND 0x7fff)))
               (\<lambda>ok. if \<not> ok then returnm False else turns env p1)) s)"
proof -
  let ?n = "length (inp s)"
  obtain stop p1 where stop: "test_pred p s = (stop, p1)" by (cases "test_pred p s")
  have loops: "agree ?n (frames_loop ?n env q) (turns env q)" for q
    unfolding agree_def turns_def using frames_loop_fuel by blast
  have pres: "pres ?n (guarded (frames_loop ?n env q)) s1" for q s1
    by (rule pres_guarded [OF frames_loop_pres])
  let ?rest = "\<lambda>g l header. bindm (if header AND 0x8000 \<noteq> 0
      then process_command g env (unat (header AND 0x7fff)) else process_data (unat (header AND 0x7fff)))
    (\<lambda>ok. if \<not> ok then returnm False else l)"
  have rest: "agree ?n (?rest (guarded (frames_loop ?n env Never)) (frames_loop ?n env p1) header)
      (?rest (process_frames env Never) (turns env p1) header)" for header
    unfolding process_frames_def
    by (auto intro!: agree_bindm agree_process_command agree_guarded loops pres pres_process_data pres_process_command)
  have "bindm (readm read_uint16) (?rest (guarded (frames_loop ?n env Never)) (frames_loop ?n env p1)) s
      = bindm (readm read_uint16) (?rest (process_frames env Never) (turns env p1)) s"
  proof -
    obtain v r where rd: "read_uint16 (inp s) = (v, r)" by (cases "read_uint16 (inp s)")
    show ?thesis
    proof (cases v)
      case (Inr header)
      then have "length r < ?n" using read_uint16_shrinks(3) [of "inp s" header] rd by simp
      then have "?rest (guarded (frames_loop ?n env Never)) (frames_loop ?n env p1) header (s\<lparr>inp := r\<rparr>)
          = ?rest (process_frames env Never) (turns env p1) header (s\<lparr>inp := r\<rparr>)"
        using rest [of header] by (simp add: agree_def)
      with rd Inr show ?thesis by (simp add: bindm_def [of "readm read_uint16"] readm_def)
    qed (simp add: bindm_def readm_def rd)
  qed
  then show ?thesis by (simp add: turns_def [of env p s] stop)
qed

section \<open>The states\<close>

lemma pres_wait_for [pres_intros]: "pres n (wait_for k env p) s"
proof (induction k arbitrary: s)
  case (Suc k)
  have "pres n (bindm (process_frames env p) (\<lambda>_ s. if fst (test_pred p s) then (Inr True, s) else wait_for k env p s)) s"
  proof (intro pres_intros)
    fix s1 show "pres n (\<lambda>s. if fst (test_pred p s) then (Inr True, s) else wait_for k env p s) s1"
      using Suc.IH [of s1] by (simp add: pres_def)
  qed
  then show ?case by (simp add: pres_def)
qed (simp add: pres_def)

lemma pres_percolate [pres_intros]: "pres n (percolate k env) s"
  by (induction k arbitrary: s) (auto intro!: pres_intros)

lemma pres_announce_networks [pres_intros]: "pres n (announce_networks ns a) s"
  by (induction ns a arbitrary: s rule: announce_networks.induct) (auto intro!: pres_intros simp: Let_def)

lemma pres_SendFilePacket [pres_intros]: "pres n (SendFilePacket env f) s"
proof -
  have "pres n (\<lambda>s. if map_of (files_to_send s) (tf_name f) \<noteq> None
      then seqm (SendFileData (process_frames env Never) env f) (returnm True) s else (Inr True, s)) s1" for s1
  proof -
    have "pres n (seqm (SendFileData (process_frames env Never) env f) (returnm True)) s1"
      by (intro pres_seqm pres_SendFileData pres_process_frames pres_returnm)
    then show ?thesis by (simp add: pres_def)
  qed
  moreover have "pres n (\<lambda>s. send_command_packet M_FILE (as_packet_data (tf_name f) (file_size (disk s) f) (tf_time f) 0) s) s1"
    for s1 using pres_send_command_packet [of n M_FILE _ s1] by (simp add: pres_def)
  ultimately show ?thesis
    unfolding SendFilePacket_def by (intro pres_intros) (auto simp: evolves_def)
qed

lemma pres_send_all [pres_intros]: "pres n (send_all env fs) s"
  by (induction fs arbitrary: s) (auto intro!: pres_intros)

lemma pres_announce [pres_intros]: "pres n (primary_address env) s"
  unfolding primary_address_def by (intro pres_intros)

lemma pres_states:
  "pres n (ConnInit env) s" "pres n (WaitAddr env) s" "pres n (WaitPwd env) s" "pres n (Unknown env) s"
  by (auto simp: ConnInit_def WaitAddr_def WaitPwd_def Unknown_def intro!: pres_intros)

lemma pres_WaitOk: "pres n (WaitOk env) s"
  unfolding WaitOk_def by (auto intro!: pres_intros)

lemma pres_WaitEob: "pres n (WaitEob env) s"
proof -
  have "pres n (seqm (wait_for 11 env HaveEob) (returnm DONE)) s" by (intro pres_intros)
  then show ?thesis by (simp add: pres_def WaitEob_def)
qed

lemma pres_offer_cram [pres_intros]: "pres n offer_cram s"
  by (simp add: pres_def offer_cram_def Let_def seqm_def bindm_def send_command_packet_def returnm_def evolves_def)

lemma pres_WaitConn: "pres n (WaitConn env) s"
  unfolding WaitConn_def by (auto intro!: pres_intros)

lemma pres_send_password [pres_intros]: "pres n (send_password env password) s"
  by (cases "bink_auth s")
    (auto simp: pres_def send_password_def Let_def seqm_def bindm_def send_command_packet_def returnm_def evolves_def
      split: prod.split)

lemma pres_SendPasswd: "pres n (SendPasswd env) s"
proof -
  have "pres n (bindm (liftm (callout_for env (remote_network_name env s)))
      (\<lambda>callout. send_password env (expected_password_for callout (expected_remote_node env)))) s"
    by (intro pres_intros)
  then show ?thesis by (simp add: pres_def SendPasswd_def)
qed

lemma pres_answer_password [pres_intros]: "pres n (answer_password env password) s"
proof -
  have "evolves s (snd (check_password env password s))"
    by (cases "bink_auth s") (simp_all add: check_password_def evolves_def Let_def case_prod_beta)
  then show ?thesis
    by (auto simp: pres_def answer_password_def Let_def seqm_def bindm_def send_command_packet_def returnm_def
        case_prod_beta intro: evolves_trans [OF _ evolves_send])
qed

lemma pres_PasswordAck: "pres n (PasswordAck env) s"
proof -
  have "pres n (bindm (liftm (remote_network_node env s)) (\<lambda>remote_node.
     bindm (liftm (callout_for env (remote_network_name env s))) (\<lambda>callout.
       answer_password env (expected_password_for callout remote_node)))) s"
    by (intro pres_intros)
  then show ?thesis by (simp add: pres_def PasswordAck_def)
qed

lemma pres_AuthRemote: "pres n (AuthRemote env) s"
proof -
  have "pres n (seqm (send_command_packet M_ERR t) (returnm UNKNOWN)) s1" for t s1 by (intro pres_intros)
  moreover have "pres n (bindm (liftm (node_number_from_address_list (address_list s) (remote_network_name env s))) (\<lambda>caller_node.
      case callouts env (remote_network_name env s) of
        None \<Rightarrow> seqm (send_command_packet M_ERR (''Error (NETWORKB-0003): Unable to find callout.net for: '' @ remote_network_name env s))
                  (returnm UNKNOWN)
      | Some callout \<Rightarrow>
          (case node_config_for callout caller_node of
             None \<Rightarrow> seqm (send_command_packet M_ERR (''Error (NETWORKB-0002): Unexpected Address: '' @ address_list s))
                       (returnm UNKNOWN)
           | Some _ \<Rightarrow> returnm WAIT_PWD))) s"
    by (auto intro!: pres_intros split: option.split)
  ultimately show ?thesis by (simp add: pres_def AuthRemote_def Let_def)
qed

lemma pres_finish_transfer [pres_intros]: "pres n (finish_transfer env) s"
proof -
  have "pres n (seqm (send_command_packet M_EOB ''All files to send have been sent. Thank you.'')
      (seqm (process_frames env Never) (returnm WAIT_EOB))) s"
    by (intro pres_intros)
  then show ?thesis by (simp add: pres_def finish_transfer_def)
qed

lemma pres_transfer_to [pres_intros]: "pres n (transfer_to env dir node) s"
proof -
  have "pres n (bindm (liftm (CreateTransferFileList env dir node (disk s))) (\<lambda>files.
      seqm (send_all env files) (seqm (percolate 5 env) (finish_transfer env)))) s"
    by (intro pres_intros)
  then show ?thesis by (simp add: pres_def transfer_to_def)
qed

lemma pres_TransferFiles: "pres n (TransferFiles env) s"
proof -
  have "pres n (bindm (liftm (remote_network_node env s)) (\<lambda>remote_node. seqm (process_frames env Never)
      (bindm (liftm (network_dir (config env) (remote_network_name env s))) (\<lambda>dir. transfer_to env dir remote_node)))) s"
    by (intro pres_intros)
  then show ?thesis by (simp add: pres_def TransferFiles_def)
qed

lemma pres_run_state [pres_intros]: "pres n (run_state env st) s"
  by (cases st)
    (auto simp: run_state_def IfSecure_def evolves_def pres_states pres_WaitOk pres_WaitEob pres_WaitConn pres_SendPasswd
      pres_PasswordAck pres_AuthRemote pres_TransferFiles intro!: pres_intros)

lemma pres_run_loop: "pres n (run_loop env st) s"
proof (induction env st s rule: run_loop.induct)
  case (1 env st s)
  show ?case
    unfolding pres_def
  proof
    assume n: "length (inp s) < n"
    obtain v s1 where v: "run_state env st s = (v, s1)" by (cases "run_state env st s")
    have e1: "v \<noteq> Inl OutOfFuel" "evolves s s1" using pres_run_state [of n env st s] n v by (simp_all add: pres_def)
    then have n1: "length (inp s1) < n" using n by (simp add: evolves_def)
    obtain w s2 where w: "process_frames env Never s1 = (w, s2)" by (cases "process_frames env Never s1")
    have e2: "w \<noteq> Inl OutOfFuel" "evolves s1 s2" using pres_process_frames [of n env Never s1] n1 w by (simp_all add: pres_def)
    then have n2: "length (inp s2) < n" using n1 by (simp add: evolves_def)
    show "fst (run_loop env st s) \<noteq> Inl OutOfFuel \<and> evolves s (snd (run_loop env st s))"
    proof (cases "\<exists>st1 b. v = Inr st1 \<and> w = Inr b \<and> \<not> (st = DONE \<or> error_received s1)")
      case True
      then obtain st1 b where st1: "v = Inr st1" "w = Inr b" "\<not> (st = DONE \<or> error_received s1)" by blast
      have run: "run_loop env st s = run_loop env st1 s2" using st1 by (subst run_loop.simps) (simp add: v w)
      have "pres n (run_loop env st1) s2" using "1.IH" st1 v w by metis
      with n2 have "fst (run_loop env st1 s2) \<noteq> Inl OutOfFuel" "evolves s2 (snd (run_loop env st1 s2))" by (simp_all add: pres_def)
      with run e1(2) e2(2) show ?thesis by (auto intro: evolves_trans)
    next
      case False
      then show ?thesis
        using e1 e2 by (subst (1 2) run_loop.simps) (auto simp: v w split: sum.splits intro: evolves_trans)
    qed
  qed
qed

section \<open>Properties\<close>

text \<open>A session always ends: whatever the peer sends, in whatever order, and wherever it stops,
  \<open>Run\<close> comes to the end of its loop or leaves it by an exception. On the way it only reads on in
  the script and only adds to what it has sent and to the list of received files.\<close>

theorem run_loop_ends:
  "fst (run_loop env st s) \<noteq> Inl OutOfFuel
   \<and> (\<exists>ps. sent (snd (run_loop env st s)) = sent s @ ps)
   \<and> (\<exists>fs. received_files (snd (run_loop env st s)) = received_files s @ fs)
   \<and> length (inp (snd (run_loop env st s))) \<le> length (inp s)"
  using pres_run_loop [of "Suc (length (inp s))" env st s] by (simp add: pres_def evolves_def)

end
