(* ===== verification/Net_Binkp_Invariants.thy ===== *)
theory Net_Binkp_Invariants
  imports Net_Binkp_Frames
begin

unbundle bit_operations_syntax

text \<open>
  Invariants of a session. \<open>session_invariant\<close> says what a property of the session must be stable
  under to hold through \<open>process_frames\<close> and the states before the transfer, \<open>transfer_invariant\<close>
  what it needs beyond that to hold through every state. They are interpreted on what leaves the
  system before the peer is authenticated and on what a session does to the files of the system.
\<close>

definition keeps :: "(bink \<Rightarrow> bool) \<Rightarrow> 'a bm \<Rightarrow> bool" where
  "keeps I m \<longleftrightarrow> (\<forall>s. I s \<longrightarrow> I (snd (m s)))"

named_theorems keeps_intros

lemma keepsI: "(\<And>s. I s \<Longrightarrow> I (snd (m s))) \<Longrightarrow> keeps I m"
  by (simp add: keeps_def)

lemma keepsD: "keeps I m \<Longrightarrow> I s \<Longrightarrow> m s = (r, s1) \<Longrightarrow> I s1"
  unfolding keeps_def by (metis snd_conv)

lemma keeps_snd: "\<forall>s. I s \<longrightarrow> I (snd (m s)) \<Longrightarrow> I s \<Longrightarrow> m s = (r, s1) \<Longrightarrow> I s1"
  by (metis snd_conv)

lemma keeps_returnm [keeps_intros]: "keeps I (returnm x)"
  by (simp add: keeps_def returnm_def)

lemma keeps_liftm [keeps_intros]: "keeps I (liftm r)"
  by (simp add: keeps_def liftm_def)

lemma keeps_modifym [keeps_intros]: "(\<And>s. I s \<Longrightarrow> I (f s)) \<Longrightarrow> keeps I (modifym f)"
  by (simp add: keeps_def modifym_def)

lemma keeps_bindm [keeps_intros]: "keeps I m \<Longrightarrow> (\<And>x. keeps I (f x)) \<Longrightarrow> keeps I (bindm m f)"
  by (auto simp: keeps_def bindm_def split: prod.split sum.split intro: keeps_snd)

lemma keeps_seqm [keeps_intros]: "keeps I m \<Longrightarrow> keeps I k \<Longrightarrow> keeps I (seqm m k)"
  unfolding seqm_def by (rule keeps_bindm)

lemma keeps_state: "(\<And>t. keeps I (m t)) \<Longrightarrow> keeps I (\<lambda>s. m s s)"
  by (simp add: keeps_def)

lemma keeps_if [keeps_intros]: "keeps I m \<Longrightarrow> keeps I k \<Longrightarrow> keeps I (if b then m else k)"
  by simp

lemma keeps_const [keeps_intros]: "keeps I (\<lambda>s. (r, s))"
  by (simp add: keeps_def)

lemma keeps_catch_timeout: "keeps I m \<Longrightarrow> keeps I (catch_timeout m)"
  by (auto simp: keeps_def catch_timeout_def split: prod.split sum.split bexn.split intro: keeps_snd)

lemma keeps_guarded: "keeps I m \<Longrightarrow> keeps I (guarded m)"
  using keeps_catch_timeout [of I m] by (simp add: keeps_def guarded_def)

lemma keeps_send_chunks:
  assumes "\<And>d. keeps I (send_data_packet d)" "keeps I frames"
  shows "I s \<Longrightarrow> I (snd (send_chunks frames f len start chunk s))"
  using assms(2)
proof (induction frames f len start chunk s rule: send_chunks.induct)
  case (1 frames f len start chunk s)
  show ?case
  proof (cases "int start < len \<and> map_of (files_to_send s) (tf_name f) \<noteq> None")
    case True
    let ?count = "nat (min 16384 (len - int start))"
    let ?chunk = "case GetChunk (disk s) f start ?count of None \<Rightarrow> chunk | Some b \<Rightarrow> b @ drop (length b) chunk"
    have step: "send_chunks frames f len start chunk s =
        bindm (send_data_packet (take ?count ?chunk)) (\<lambda>_. bindm frames (\<lambda>_. send_chunks frames f len (start + 16384) ?chunk)) s"
      using True by (subst send_chunks.simps) (auto simp: Let_def)
    have "keeps I (send_chunks frames f len (start + 16384) ?chunk)"
      using True "1.IH" [of ?count ?chunk] "1.prems"(2) by (intro keepsI) blast
    then have "keeps I (bindm (send_data_packet (take ?count ?chunk))
        (\<lambda>_. bindm frames (\<lambda>_. send_chunks frames f len (start + 16384) ?chunk)))"
      by (intro keeps_intros assms(1) "1.prems"(2))
    then show ?thesis using "1.prems"(1) by (simp add: keeps_def step)
  next
    case False
    then have "send_chunks frames f len start chunk s = (Inl (Cpp UndefinedBehaviour), s)
        \<or> send_chunks frames f len start chunk s = (Inr True, s)"
      by (subst (1 2) send_chunks.simps) auto
    then show ?thesis using "1.prems"(1) by auto
  qed
qed

section \<open>The contract\<close>

locale session_invariant =
  fixes env :: bink_env and I :: "bink \<Rightarrow> bool"
  assumes I_inp: "I s \<Longrightarrow> I (s\<lparr>inp := r\<rparr>)"
    and I_send: "I s \<Longrightarrow> I (s\<lparr>sent := sent s @ [command_packet c d]\<rparr>)"
    and I_flags: "I s \<Longrightarrow> I (s\<lparr>conn_open := b\<rparr>)" "I s \<Longrightarrow> I (s\<lparr>ok_received := b\<rparr>)"
      "I s \<Longrightarrow> I (s\<lparr>eob_received := b\<rparr>)" "I s \<Longrightarrow> I (s\<lparr>error_received := b\<rparr>)"
    and I_peer: "I s \<Longrightarrow> I (s\<lparr>address_list := a\<rparr>)" "I s \<Longrightarrow> I (s\<lparr>remote_password := a\<rparr>)"
      "I s \<Longrightarrow> I (s\<lparr>bink_auth := t\<rparr>)" "I s \<Longrightarrow> I (s\<lparr>bink_cram := k\<rparr>)"
    and I_file: "keeps I (HandleFileRequest env d)"
    and I_got: "keeps I (HandleFileGotRequest d)"
    and I_get: "keeps I frames \<Longrightarrow> keeps I (HandleFileGetRequest frames env d)"
    and I_data: "keeps I (accept_data d)"
begin

lemma keeps_readm [keeps_intros]: "keeps I (readm rd)"
  by (auto simp: keeps_def readm_def I_inp split: prod.split)

lemma keeps_send_command [keeps_intros]: "keeps I (send_command_packet c d)"
  by (simp add: keeps_def send_command_packet_def I_send)

lemma keeps_HandlePassword: "keeps I (HandlePassword d)"
  unfolding HandlePassword_def by (intro keeps_intros I_peer) simp_all

lemma keeps_HandleOption: "keeps I (HandleOption d)"
proof -
  have "keeps I (case q of None \<Rightarrow> returnm () | Some n \<Rightarrow>
      modifym (\<lambda>s. s\<lparr>bink_cram := set_challenge_data (g n) (bink_cram s), bink_auth := CRAM_MD5\<rparr>))" for q g
    by (cases q) (auto intro!: keeps_intros I_peer)
  then show ?thesis
    unfolding HandleOption_def Let_def by (intro keeps_intros)
qed

lemma keeps_handle_command: "keeps I frames \<Longrightarrow> keeps I (handle_command frames env c d)"
  unfolding handle_command_def
  by (intro keeps_intros keeps_HandleOption keeps_HandlePassword I_get I_got I_file I_flags I_peer) simp_all

lemma keeps_process_command: "keeps I frames \<Longrightarrow> keeps I (process_command frames env len)"
proof -
  assume f: "keeps I frames"
  have "keeps I (bindm (readm read_uint8) (\<lambda>command_id. bindm (readm (receive (int len - 1)))
      (\<lambda>data. bindm (liftm (command_id_to_name command_id)) (\<lambda>_. handle_command frames env command_id data))))"
    by (intro keeps_intros keeps_handle_command f)
  then show ?thesis by (simp add: keeps_def process_command_def)
qed

lemma keeps_process_data: "keeps I (process_data len)"
proof -
  have "keeps I (bindm (readm (receive (int len))) accept_data)" by (intro keeps_intros I_data)
  then show ?thesis by (simp add: keeps_def process_data_def)
qed

lemma keeps_frames_loop: "keeps I (frames_loop n env p)"
proof (induction n arbitrary: p)
  case 0
  show ?case by (simp add: keeps_const)
next
  case (Suc n p)
  have body: "keeps I (bindm (readm read_uint16) (\<lambda>header.
      bindm (if header AND 0x8000 \<noteq> 0 then process_command (guarded (frames_loop n env Never)) env (unat (header AND 0x7fff))
             else process_data (unat (header AND 0x7fff)))
        (\<lambda>ok. if \<not> ok then returnm False else frames_loop n env p1)))" for p1
    by (intro keeps_intros keeps_process_command keeps_process_data keeps_guarded Suc.IH)
  show ?case
  proof (rule keepsI)
    fix s :: bink assume "I s"
    with body show "I (snd (frames_loop (Suc n) env p s))"
      by (cases "test_pred p s") (simp add: keeps_def)
  qed
qed

lemma keeps_process_frames [keeps_intros]: "keeps I (process_frames env p)"
proof -
  have "keeps I (turns env p)" using keeps_frames_loop by (simp add: keeps_def turns_def del: frames_loop.simps)
  then show ?thesis unfolding process_frames_def by (rule keeps_guarded)
qed

lemma keeps_wait_for [keeps_intros]: "keeps I (wait_for k env p)"
proof (induction k)
  case (Suc k)
  have "keeps I (bindm (process_frames env p) (\<lambda>_ s. if fst (test_pred p s) then (Inr True, s) else wait_for k env p s))"
  proof (intro keeps_intros)
    show "keeps I (\<lambda>s. if fst (test_pred p s) then (Inr True, s) else wait_for k env p s)"
      using Suc.IH by (simp add: keeps_def)
  qed
  then show ?case by (simp add: keeps_def)
qed (simp add: keeps_def)

lemma keeps_announce_networks: "keeps I (announce_networks ns a)"
proof (induction ns arbitrary: a)
  case (Cons net ns a)
  then show ?case unfolding announce_networks.simps Let_def by (intro keeps_intros)
qed (simp add: keeps_returnm)

lemma keeps_offer_cram: "keeps I offer_cram"
proof (rule keepsI)
  fix s :: bink assume "I s"
  then have "I (s\<lparr>bink_cram := GenerateChallengeData (bink_cram s)\<rparr>)" by (rule I_peer)
  moreover have "keeps I (seqm (send_command_packet c d) (returnm ()))" for c d by (intro keeps_intros)
  ultimately show "I (snd (offer_cram s))" by (simp add: offer_cram_def Let_def keeps_def)
qed

lemma keeps_WaitConn: "keeps I (WaitConn env)"
  unfolding WaitConn_def primary_address_def
  by (intro keeps_intros keeps_offer_cram keeps_announce_networks)

lemma keeps_send_password: "keeps I (send_password env password)"
proof (rule keepsI)
  fix s :: bink assume s: "I s"
  have k: "keeps I (seqm (send_command_packet c d) (returnm WAIT_ADDR))" for c d by (intro keeps_intros)
  show "I (snd (send_password env password s))"
    using s k I_peer(4) [OF s] by (cases "bink_auth s") (simp_all add: send_password_def Let_def keeps_def case_prod_beta)
qed

lemma keeps_SendPasswd: "keeps I (SendPasswd env)"
proof -
  have "keeps I (\<lambda>s. bindm (liftm (callout_for env (remote_network_name env s)))
       (\<lambda>callout. send_password env (expected_password_for callout (expected_remote_node env))) s)"
    by (rule keeps_state) (intro keeps_intros keeps_send_password)
  then show ?thesis by (simp add: SendPasswd_def keeps_def)
qed

lemma I_check_password: "I s \<Longrightarrow> I (snd (check_password env password s))"
  by (cases "bink_auth s") (simp_all add: check_password_def I_peer case_prod_beta)

lemma keeps_answer_password: "keeps I (answer_password env password)"
proof (rule keepsI)
  fix s :: bink assume "I s"
  then have "I (snd (check_password env password s))" by (rule I_check_password)
  moreover have "keeps I (seqm (send_command_packet c d) (returnm st))" for c d and st :: bink_state by (intro keeps_intros)
  ultimately show "I (snd (answer_password env password s))"
    by (simp add: answer_password_def Let_def case_prod_beta keeps_def)
qed

lemma keeps_PasswordAck: "keeps I (PasswordAck env)"
proof -
  have "keeps I (\<lambda>s. bindm (liftm (remote_network_node env s)) (\<lambda>remote_node.
     bindm (liftm (callout_for env (remote_network_name env s))) (\<lambda>callout.
       answer_password env (expected_password_for callout remote_node))) s)"
    by (rule keeps_state) (intro keeps_intros keeps_answer_password)
  then show ?thesis by (simp add: PasswordAck_def keeps_def)
qed

lemma keeps_AuthRemote: "keeps I (AuthRemote env)"
proof (rule keepsI)
  fix s :: bink assume s: "I s"
  have err: "I (snd (seqm (send_command_packet c d) (returnm st) s))" for c d and st :: bink_state
    using s keeps_seqm [OF keeps_send_command keeps_returnm, of c d st] by (simp add: keeps_def)
  show "I (snd (AuthRemote env s))"
    using s err
    by (auto simp: AuthRemote_def Let_def bindm_def liftm_def returnm_def split: option.split sum.split prod.split)
qed

lemma keeps_simple_states: "keeps I (ConnInit env)" "keeps I (WaitAddr env)" "keeps I (WaitPwd env)"
  "keeps I (Unknown env)" "keeps I IfSecure"
  unfolding ConnInit_def WaitAddr_def WaitPwd_def Unknown_def IfSecure_def by (intro keeps_intros)+

lemma keeps_WaitOk: "keeps I (WaitOk env)"
  unfolding WaitOk_def by (intro keeps_intros)

lemma keeps_WaitEob: "keeps I (WaitEob env)"
proof -
  have "keeps I (seqm (wait_for 11 env HaveEob) (returnm DONE))" by (intro keeps_intros)
  then show ?thesis by (simp add: keeps_def WaitEob_def)
qed

text \<open>Every state but the transfer.\<close>

lemma keeps_run_state:
  assumes "st \<noteq> TRANSFER_FILES"
  shows "keeps I (run_state env st)"
proof -
  have "keeps I (seqm (modifym (\<lambda>s. s\<lparr>conn_open := False\<rparr>)) (returnm DONE))"
    by (intro keeps_intros I_flags)
  then show ?thesis
    using assms keeps_simple_states keeps_WaitConn keeps_SendPasswd keeps_AuthRemote keeps_PasswordAck keeps_WaitOk
      keeps_WaitEob by (cases st) (simp_all add: run_state_def)
qed

end

locale transfer_invariant = session_invariant +
  assumes I_chunk: "keeps I (send_data_packet chunk)"
    and I_offer: "network_dir (config env) name = Inr dir \<Longrightarrow> CreateTransferFileList env dir node fs = Inr files \<Longrightarrow>
      f \<in> set files \<Longrightarrow> I s \<Longrightarrow> I (s\<lparr>files_to_send := assign_key (tf_name f) f (files_to_send s)\<rparr>)"

begin

lemma keeps_SendFilePacket:
  assumes "network_dir (config env) name = Inr dir" "CreateTransferFileList env dir node fs = Inr files" "f \<in> set files"
  shows "keeps I (SendFilePacket env f)"
proof -
  have "keeps I (SendFileData (process_frames env Never) env f)"
    using keeps_send_chunks [OF I_chunk keeps_process_frames] by (simp add: keeps_def SendFileData_def)
  then have "keeps I (seqm (SendFileData (process_frames env Never) env f) (returnm True))" by (intro keeps_intros)
  then have data: "keeps I (\<lambda>s. if map_of (files_to_send s) (tf_name f) \<noteq> None
         then seqm (SendFileData (process_frames env Never) env f) (returnm True) s else (Inr True, s))"
    by (simp add: keeps_def)
  have "keeps I (\<lambda>s. send_command_packet M_FILE (as_packet_data (tf_name f) (file_size (disk s) f) (tf_time f) 0) s)"
    by (rule keeps_state) (rule keeps_send_command)
  then show ?thesis
    unfolding SendFilePacket_def by (intro keeps_intros data I_offer [OF assms])
qed

lemma keeps_send_all:
  assumes "network_dir (config env) name = Inr dir" "CreateTransferFileList env dir node fs = Inr files" "set l \<subseteq> set files"
  shows "keeps I (send_all env l)"
  using assms(3)
proof (induction l)
  case (Cons f l)
  then show ?case unfolding send_all.simps using keeps_SendFilePacket [OF assms(1,2)] by (intro keeps_intros) auto
qed (simp add: keeps_returnm)

lemma keeps_percolate: "keeps I (percolate k env)"
  by (induction k) (auto intro!: keeps_intros)

lemma keeps_transfer_to:
  assumes "network_dir (config env) name = Inr dir"
  shows "keeps I (transfer_to env dir node)"
proof (rule keepsI)
  fix s :: bink assume s: "I s"
  have "keeps I (seqm (send_command_packet M_EOB ''All files to send have been sent. Thank you.'')
          (seqm (process_frames env Never) (returnm WAIT_EOB)))"
    by (intro keeps_intros)
  then have fin: "keeps I (finish_transfer env)" by (simp add: keeps_def finish_transfer_def)
  show "I (snd (transfer_to env dir node s))"
  proof (cases "CreateTransferFileList env dir node (disk s)")
    case (Inl e)
    then show ?thesis using s by (simp add: transfer_to_def bindm_def liftm_def)
  next
    case (Inr files)
    have "keeps I (seqm (send_all env files) (seqm (percolate 5 env) (finish_transfer env)))"
      by (intro keeps_intros keeps_send_all [OF assms Inr] keeps_percolate fin) simp
    then show ?thesis using s Inr by (simp add: transfer_to_def bindm_def liftm_def keeps_def)
  qed
qed

lemma keeps_TransferFiles: "keeps I (TransferFiles env)"
proof -
  have rest: "keeps I (bindm (liftm (network_dir (config env) name)) (\<lambda>dir. transfer_to env dir node))" for name node
    using keeps_transfer_to [of name]
    by (cases "network_dir (config env) name") (simp_all add: keeps_def bindm_def liftm_def)
  have "keeps I (bindm (liftm r) (\<lambda>remote_node. seqm (process_frames env Never)
         (bindm (liftm (network_dir (config env) name)) (\<lambda>dir. transfer_to env dir remote_node))))" for r name
    by (intro keeps_intros rest)
  then show ?thesis by (simp add: TransferFiles_def keeps_def)
qed

lemma keeps_all_states: "keeps I (run_state env st)"
  using keeps_run_state keeps_TransferFiles by (cases "st = TRANSFER_FILES") (simp_all add: run_state_def)

end

section \<open>Reachable sessions\<close>

text \<open>The turns of the loop of \<open>Run\<close>: what the session is when a state is entered.\<close>

definition start_state :: "bink_env \<Rightarrow> bink_state" where
  "start_state env = (if bink_side env = ORIGINATING then CONN_INIT else WAIT_CONN)"

inductive reach :: "bink_env \<Rightarrow> bink \<Rightarrow> bink_state \<Rightarrow> bink \<Rightarrow> bool" for env s0 where
  reach_start: "reach env s0 (start_state env) s0"
| reach_turn: "reach env s0 st s \<Longrightarrow> run_state env st s = (Inr st1, s1) \<Longrightarrow> st \<noteq> DONE \<Longrightarrow> \<not> error_received s1 \<Longrightarrow>
    process_frames env Never s1 = (Inr b, s2) \<Longrightarrow> reach env s0 st1 s2"

inductive_cases reach_cases: "reach env s0 st s"

text \<open>The loop of \<open>Run\<close> goes through reachable sessions only.\<close>

lemma run_loop_reach:
  "reach env s0 st s \<Longrightarrow> st \<noteq> DONE \<Longrightarrow> run_state env st s = (Inr st1, s1) \<Longrightarrow> process_frames env Never s1 = (Inr b, s2) \<Longrightarrow>
    \<not> error_received s1 \<Longrightarrow> run_loop env st s = run_loop env st1 s2 \<and> reach env s0 st1 s2"
  by (simp add: run_loop.simps [of env st s] reach_turn)

context transfer_invariant
begin

lemma reach_I: "reach env s0 st s \<Longrightarrow> I s0 \<Longrightarrow> I s"
proof (induction rule: reach.induct)
  case (reach_turn st s st1 s1 b s2)
  then show ?case using keepsD [OF keeps_all_states] keepsD [OF keeps_process_frames] by blast
qed

lemma run_loop_I: "I s \<Longrightarrow> I (snd (run_loop env st s))"
proof (induction "9 - rank st" arbitrary: st s rule: less_induct)
  case (less st s)
  obtain r s1 where r: "run_state env st s = (r, s1)" by (cases "run_state env st s")
  have s1: "I s1" by (rule keepsD [OF keeps_all_states less.prems r])
  obtain q s2 where q: "process_frames env Never s1 = (q, s2)" by (cases "process_frames env Never s1")
  have s2: "I s2" by (rule keepsD [OF keeps_process_frames s1 q])
  have step: "I (snd (run_loop env st1 s2))" if "r = Inr st1" "st \<noteq> DONE" for st1
  proof -
    have "rank st < rank st1" using edge_rank [OF run_state_edge] r that by blast
    then show ?thesis using less.hyps [OF _ s2, of st1] rank_le [of st1] by simp
  qed
  show ?case using r q s1 s2 step by (auto simp: run_loop.simps [of env st s] split: sum.split)
qed

end

end
