(* ===== verification/Net_Binkp_Wire.thy ===== *)
theory Net_Binkp_Wire
  imports Net_Binkp_Frames
begin

unbundle bit_operations_syntax

text \<open>
  Framing: what one side sends as a packet, the other side's \<open>process_frames\<close> reads as the same
  command or the same data. The lemmas rewrite \<open>turns\<close> on a script that begins with a whole packet.
\<close>

lemma masked_counts:
  fixes hi lo :: u16
  assumes "\<And>k. bit lo k = (k < 15)" "\<And>k. bit hi k = (k = 15)" "n < 2 ^ 15"
  shows "(word_of_nat n OR hi) AND hi \<noteq> 0" and "unat ((word_of_nat n OR hi) AND lo) = n"
    and "word_of_nat n AND hi = 0" and "unat (word_of_nat n AND lo) = n"
proof -
  have n: "bit n k \<Longrightarrow> k < 15" for k
    using assms(3) by (metis bit_take_bit_iff take_bit_nat_eq_self)
  have un: "unat (word_of_nat n :: u16) = n"
    using assms(3) by (simp add: unsigned_of_nat take_bit_nat_eq_self)
  have low: "(word_of_nat n OR hi) AND lo = word_of_nat n" "word_of_nat n AND lo = word_of_nat n"
    by (rule bit_word_eqI; auto simp: bit_and_iff bit_or_iff bit_of_nat_iff assms(1,2) dest: n)+
  show "unat ((word_of_nat n OR hi) AND lo) = n" "unat (word_of_nat n AND lo) = n"
    unfolding low by (rule un)+
  have "bit ((word_of_nat n OR hi) AND hi) 15" by (simp add: bit_and_iff bit_or_iff assms(2))
  then show "(word_of_nat n OR hi) AND hi \<noteq> 0" by auto
  show "word_of_nat n AND hi = 0"
    by (rule bit_word_eqI) (auto simp: bit_and_iff bit_of_nat_iff assms(2) dest: n)
qed

lemma masks_15: "bit (0x7fff :: u16) k = (k < 15)" "bit (0x8000 :: u16) k = (k = 15)"
proof -
  have "(0x7fff :: u16) = mask 15" "(0x8000 :: u16) = push_bit 15 1" by (simp_all add: mask_eq_exp_minus_1)
  then show "bit (0x7fff :: u16) k = (k < 15)" "bit (0x8000 :: u16) k = (k = 15)"
    by (auto simp only: bit_mask_iff bit_push_bit_iff bit_1_iff) simp_all
qed

lemmas header_counts = masked_counts [OF masks_15]

lemma readm_uint16: "inp s = Byte c # Byte d # r \<Longrightarrow> readm read_uint16 s = (Inr (header_of c d), s\<lparr>inp := r\<rparr>)"
  by (simp add: readm_def read_uint16_bytes)

lemma readm_uint8: "inp s = Byte c # r \<Longrightarrow> readm read_uint8 s = (Inr (word_of_nat (ord c)), s\<lparr>inp := r\<rparr>)"
  by (simp add: readm_def read_uint8_byte)

lemma readm_receive:
  "inp s = map Byte bs @ r \<Longrightarrow> bs \<noteq> [] \<Longrightarrow> k = int (length bs) \<Longrightarrow> readm (receive k) s = (Inr bs, s\<lparr>inp := r\<rparr>)"
  by (simp add: readm_def receive_def read_some_bytes)

lemma bindm_eq: "m s = (Inr x, s1) \<Longrightarrow> bindm m f s = f x s1"
  by (simp add: bindm_def)

lemma command_names: "command_id_to_name M_ADR = Inr ''M_ADR''" "command_id_to_name M_PWD = Inr ''M_PWD''"
  "command_id_to_name M_FILE = Inr ''M_FILE''" "command_id_to_name M_GOT = Inr ''M_GOT''"
  by code_simp+

lemma handle_ADR: "handle_command frames env M_ADR d s = (Inr True, s\<lparr>address_list := StringLowerCase d\<rparr>)"
  by (simp add: handle_command_def seqm_def bindm_def modifym_def returnm_def)

lemma handle_PWD: "handle_command frames env M_PWD d = seqm (HandlePassword d) (returnm True)"
  by (simp add: handle_command_def)

lemma turns_step_command:
  assumes "conn_open s" "test_pred p s = (False, p1)"
    and "readm read_uint16 s = (Inr h, s1)" "h AND 0x8000 \<noteq> 0" "unat (h AND 0x7fff) = n"
  shows "turns env p s = bindm (process_command (process_frames env Never) env n)
      (\<lambda>ok. if \<not> ok then returnm False else turns env p1) s1"
  by (subst turns_unfold) (simp add: assms(2,4,5) bindm_eq [of "readm read_uint16", where s = s, unfolded assms(3), OF refl])

lemma turns_step_data:
  assumes "conn_open s" "test_pred p s = (False, p1)"
    and "readm read_uint16 s = (Inr h, s1)" "h AND 0x8000 = 0" "unat (h AND 0x7fff) = n"
  shows "turns env p s = bindm (process_data n) (\<lambda>ok. if \<not> ok then returnm False else turns env p1) s1"
  by (subst turns_unfold) (simp add: assms(2,4,5) bindm_eq [of "readm read_uint16", where s = s, unfolded assms(3), OF refl])

lemma turns_command:
  assumes "conn_open s" "test_pred p s = (False, p1)"
    and "inp s = map Byte (command_packet c data) @ r" "data \<noteq> []" "length data < 32767"
  shows "turns env p s =
    bindm (bindm (liftm (command_id_to_name c)) (\<lambda>_. handle_command (process_frames env Never) env c data))
      (\<lambda>ok. if \<not> ok then returnm False else turns env p1) (s\<lparr>inp := r\<rparr>)"
proof -
  obtain b0 b1 where pk: "command_packet c data = b0 # b1 # byte_of_word c # data"
    and h: "header_of b0 b1 = word_of_nat (length data + 1) OR 0x8000"
    using command_packet_eq [of c data] by blast
  let ?r1 = "Byte (byte_of_word c) # map Byte data @ r"
  have n: "length data + 1 < 2 ^ 15" using assms(5) by simp
  have rd: "readm read_uint16 s = (Inr (header_of b0 b1), s\<lparr>inp := ?r1\<rparr>)"
    using assms(3) by (intro readm_uint16) (simp add: pk)
  have "turns env p s = bindm (process_command (process_frames env Never) env (length data + 1))
      (\<lambda>ok. if \<not> ok then returnm False else turns env p1) (s\<lparr>inp := ?r1\<rparr>)"
    using header_counts(1,2) [OF n] by (intro turns_step_command [OF assms(1,2) rd]) (simp_all only: h simp_thms)
  moreover have "process_command (process_frames env Never) env (length data + 1) (s\<lparr>inp := ?r1\<rparr>)
      = bindm (liftm (command_id_to_name c)) (\<lambda>_. handle_command (process_frames env Never) env c data) (s\<lparr>inp := r\<rparr>)"
  proof -
    have "readm read_uint8 (s\<lparr>inp := ?r1\<rparr>) = (Inr c, s\<lparr>inp := map Byte data @ r\<rparr>)"
      using readm_uint8 [of "s\<lparr>inp := ?r1\<rparr>"] by simp
    moreover have "readm (receive (int (length data + 1) - 1)) (s\<lparr>inp := map Byte data @ r\<rparr>) = (Inr data, s\<lparr>inp := r\<rparr>)"
      using readm_receive [of "s\<lparr>inp := map Byte data @ r\<rparr>" data r] assms(4) by simp
    ultimately show ?thesis using assms(1) by (simp add: process_command_def bindm_eq)
  qed
  ultimately show ?thesis
    by (simp only: bindm_def [where f = "\<lambda>ok. if \<not> ok then returnm False else turns env p1"])
qed

lemma turns_command_done:
  assumes "conn_open s" "test_pred p s = (False, p1)"
    and "inp s = map Byte (command_packet c data) @ r" "data \<noteq> []" "length data < 32767"
    and "command_id_to_name c = Inr name" "handle_command (process_frames env Never) env c data (s\<lparr>inp := r\<rparr>) = (Inr True, s1)"
  shows "turns env p s = turns env p1 s1"
  using turns_command [OF assms(1-5)] assms(6,7) by (simp add: bindm_def liftm_def)

lemma turns_data:
  assumes "conn_open s" "test_pred p s = (False, p1)"
    and "inp s = map Byte (data_packet data) @ r" "data \<noteq> []" "length data < 2 ^ 15"
  shows "turns env p s = bindm (accept_data data) (\<lambda>ok. if \<not> ok then returnm False else turns env p1) (s\<lparr>inp := r\<rparr>)"
proof -
  obtain b0 b1 where pk: "data_packet data = b0 # b1 # data" and h: "header_of b0 b1 = word_of_nat (length data)"
    using data_packet_eq [OF assms(5)] by blast
  let ?r1 = "map Byte data @ r"
  have rd: "readm read_uint16 s = (Inr (header_of b0 b1), s\<lparr>inp := ?r1\<rparr>)"
    using assms(3) by (intro readm_uint16) (simp add: pk)
  have "turns env p s = bindm (process_data (length data))
      (\<lambda>ok. if \<not> ok then returnm False else turns env p1) (s\<lparr>inp := ?r1\<rparr>)"
    using header_counts(3,4) [OF assms(5)] by (intro turns_step_data [OF assms(1,2) rd]) (simp_all only: h simp_thms)
  moreover have "process_data (length data) (s\<lparr>inp := ?r1\<rparr>) = accept_data data (s\<lparr>inp := r\<rparr>)"
    using readm_receive [of "s\<lparr>inp := ?r1\<rparr>" data r] assms(1,4) by (simp add: process_data_def bindm_eq)
  ultimately show ?thesis
    by (simp only: bindm_def [where f = "\<lambda>ok. if \<not> ok then returnm False else turns env p1"])
qed

lemma turns_late: "inp s = Late # r \<Longrightarrow> test_pred p s = (False, p1) \<Longrightarrow> turns env p s = (Inl TimeoutError, s\<lparr>inp := r\<rparr>)"
  by (subst turns_unfold) (simp add: bindm_def readm_def read_uint16_def read_some_def)

lemma turns_closed: "inp s = [] \<Longrightarrow> test_pred p s = (False, p1) \<Longrightarrow> turns env p s = (Inl SocketClosed, s\<lparr>inp := []\<rparr>)"
  by (subst turns_unfold) (simp add: bindm_def readm_def read_uint16_def read_some_def)

lemma turns_stop: "test_pred p s = (True, p1) \<Longrightarrow> turns env p s = (Inr True, s)"
  by (subst turns_unfold) simp

section \<open>A small system\<close>

text \<open>Node 1 of one network, which node 2 calls with the password \<open>PASS\<close> and node 3 with \<open>WORD\<close>.\<close>

definition demo_callouts :: callout_map where
  "demo_callouts = [2 \<mapsto> blank_callout\<lparr>sysnum := 2, con_password := ''PASS'' @ replicate 16 NUL\<rparr>,
                    3 \<mapsto> blank_callout\<lparr>sysnum := 3, con_password := ''WORD'' @ replicate 16 NUL\<rparr>]"

definition demo_env :: "bink_side \<Rightarrow> bink_env" where
  "demo_env side = \<lparr>config = \<lparr>node_config = Map.empty, callout_node = Some 1, system_name = ''S'',
       callout_network_name = ''wwivnet'', sysop_name = ''O'', gfiles_directory = ''/gfiles'',
       config_networks = [\<lparr>net_type = 0, net_name = ''wwivnet'', net_dir = ''/net'', net_sysnum = 1\<rparr>],
       skip_net = True\<rparr>,
     callouts = [''wwivnet'' \<mapsto> demo_callouts], bink_side = side, expected_remote_node = 1,
     last_write_time = (\<lambda>_. 0), chunk_memory = [],
     md5_mem = \<lparr>md5_lo = 0, md5_hi = 0, md5_abcd = (0, 0, 0, 0), md5_buffer = replicate 64 NUL\<rparr>,
     wwiv_version_string = ''5.0'', wwiv_date = ''2015''\<rparr>"

lemma demo_network_at: "network_at (config_networks (config (demo_env side))) ''wwivnet''
  = Inr \<lparr>net_type = 0, net_name = ''wwivnet'', net_dir = ''/net'', net_sysnum = 1\<rparr>"
  by (simp add: demo_env_def network_at_def IsEqualsIgnoreCase_iff)

section \<open>Properties\<close>

text \<open>C23 What \<open>send_command_packet\<close> and \<open>send_data_packet\<close> put on the wire is what the loop of
  \<open>process_frames\<close> reads: the same command with the same argument, or the same data, and exactly
  the bytes of the packet, whatever follows.\<close>

theorem packets_read_as_sent:
  assumes "conn_open s" "test_pred p s = (False, p1)" "data \<noteq> []" "length data < 32767"
  shows "(\<forall>r. inp s = map Byte (command_packet c data) @ r \<longrightarrow> turns env p s =
      bindm (bindm (liftm (command_id_to_name c)) (\<lambda>_. handle_command (process_frames env Never) env c data))
        (\<lambda>ok. if \<not> ok then returnm False else turns env p1) (s\<lparr>inp := r\<rparr>))
    \<and> (\<forall>r. inp s = map Byte (data_packet data) @ r \<longrightarrow> turns env p s =
      bindm (accept_data data) (\<lambda>ok. if \<not> ok then returnm False else turns env p1) (s\<lparr>inp := r\<rparr>))"
proof (intro conjI allI impI)
  fix r
  show "inp s = map Byte (command_packet c data) @ r \<Longrightarrow> turns env p s =
      bindm (bindm (liftm (command_id_to_name c)) (\<lambda>_. handle_command (process_frames env Never) env c data))
        (\<lambda>ok. if \<not> ok then returnm False else turns env p1) (s\<lparr>inp := r\<rparr>)"
    by (rule turns_command [OF assms(1,2) _ assms(3,4)])
  show "inp s = map Byte (data_packet data) @ r \<Longrightarrow> turns env p s =
      bindm (accept_data data) (\<lambda>ok. if \<not> ok then returnm False else turns env p1) (s\<lparr>inp := r\<rparr>)"
    using assms(3,4) by (intro turns_data [OF assms(1,2)]) simp_all
qed

theorem packets_read_as_sent_witness:
  "snd (turns (demo_env ANSWERING) HaveAddress (new_bink (map Byte (command_packet M_ADR ''A'')) Map.empty))
    = (new_bink [] Map.empty)\<lparr>address_list := ''a''\<rparr>"
proof -
  let ?s = "new_bink (map Byte (command_packet M_ADR ''A'')) Map.empty"
  have "turns (demo_env ANSWERING) HaveAddress ?s =
    bindm (bindm (liftm (command_id_to_name M_ADR)) (\<lambda>_. handle_command (process_frames (demo_env ANSWERING) Never) (demo_env ANSWERING) M_ADR ''A''))
      (\<lambda>ok. if \<not> ok then returnm False else turns (demo_env ANSWERING) HaveAddress) (?s\<lparr>inp := []\<rparr>)"
    using packets_read_as_sent [of ?s HaveAddress HaveAddress "''A''" M_ADR "demo_env ANSWERING"] by (simp add: new_bink_def)
  also have "\<dots> = turns (demo_env ANSWERING) HaveAddress (?s\<lparr>inp := [], address_list := StringLowerCase ''A''\<rparr>)"
    by (simp add: bindm_def liftm_def command_names handle_ADR)
  also have "StringLowerCase ''A'' = ''a''" by code_simp
  finally show ?thesis by (simp add: turns_stop) (simp add: new_bink_def)
qed

text \<open>A command without an argument ends the session: it is read as the peer's closing the
  connection, because reading the argument of no bytes returns 0.\<close>

theorem empty_argument_ends_session:
  assumes "conn_open s" "test_pred p s = (False, p1)"
    and "inp s = map Byte (command_packet c []) @ r" "r = [] \<or> hd r \<noteq> Late"
  shows "turns env p s = (Inl SocketClosed, s\<lparr>inp := r\<rparr>)"
proof -
  obtain b0 b1 where pk: "command_packet c [] = [b0, b1, byte_of_word c]" and h: "header_of b0 b1 = word_of_nat 1 OR 0x8000"
    using command_packet_eq [of c "[]"] by auto
  let ?r1 = "Byte (byte_of_word c) # r"
  have rd: "readm read_uint16 s = (Inr (header_of b0 b1), s\<lparr>inp := ?r1\<rparr>)"
    using assms(3) by (intro readm_uint16) (simp add: pk)
  have "turns env p s = bindm (process_command (process_frames env Never) env 1)
      (\<lambda>ok. if \<not> ok then returnm False else turns env p1) (s\<lparr>inp := ?r1\<rparr>)"
    using header_counts(1,2) [of 1] by (intro turns_step_command [OF assms(1,2) rd]) (simp_all only: h simp_thms, simp_all)
  moreover have "readm read_uint8 (s\<lparr>inp := ?r1\<rparr>) = (Inr c, s\<lparr>inp := r\<rparr>)"
    using readm_uint8 [of "s\<lparr>inp := ?r1\<rparr>"] by simp
  moreover have "readm (receive (int 1 - 1)) (s\<lparr>inp := r\<rparr>) = (Inl SocketClosed, s\<lparr>inp := r\<rparr>)"
  proof (cases r)
    case (Cons x xs)
    then obtain b where "x = Byte b" using assms(4) by (cases x) auto
    with Cons show ?thesis by (simp add: readm_def receive_def read_some_def)
  qed (simp add: readm_def receive_def read_some_def)
  ultimately show ?thesis using assms(1) by (simp add: process_command_def bindm_def)
qed

theorem empty_argument_ends_session_witness:
  "fst (turns (demo_env ANSWERING) Never (new_bink (map Byte (command_packet M_EOB []) @ map Byte (command_packet M_OK ''x'')) Map.empty))
    = Inl SocketClosed"
proof -
  obtain b0 b1 where "command_packet M_OK ''x'' = [b0, b1, byte_of_word M_OK] @ ''x''"
    using command_packet_eq [of M_OK "''x''"] by auto
  then show ?thesis
    using empty_argument_ends_session [of "new_bink (map Byte (command_packet M_EOB []) @ map Byte (command_packet M_OK ''x'')) Map.empty"
        Never Never M_EOB "map Byte (command_packet M_OK ''x'')" "demo_env ANSWERING"]
    by (simp add: new_bink_def)
qed

end
