(* ===== verification/Net_Binkp_Transfer.thy ===== *)
theory Net_Binkp_Transfer
  imports Net_Binkp_Wire
begin

text \<open>
  A file from disk to disk: what \<open>SendFilePacket\<close> sends while the peer is silent, and what a
  session that reads those packets does. The sender cuts the file into pieces of 16384 bytes.
\<close>

function file_chunks :: "nat \<Rightarrow> bytes \<Rightarrow> bytes list" where
  "file_chunks start c = (if start < length c then take 16384 (drop start c) # file_chunks (start + 16384) c else [])"
  by pat_completeness auto
termination
  by (relation "measure (\<lambda>(start, c). length c - start)") auto

declare file_chunks.simps [simp del]

lemma concat_file_chunks: "concat (file_chunks start c) = drop start c"
proof (induction start c rule: file_chunks.induct)
  case (1 start c)
  have split: "take 16384 (drop start c) @ drop (start + 16384) c = drop start c"
    by (metis add.commute append_take_drop_id drop_drop)
  show ?case
  proof (cases "start < length c")
    case True
    then show ?thesis using 1 split by (subst file_chunks.simps) simp
  qed (simp add: file_chunks.simps)
qed

lemma file_chunks_sizes: "d \<in> set (file_chunks start c) \<Longrightarrow> d \<noteq> [] \<and> length d \<le> 16384"
proof (induction start c rule: file_chunks.induct)
  case (1 start c)
  then show ?case by (cases "start < length c") (auto simp: file_chunks.simps [of start c])
qed

lemma file_chunks_one: "c \<noteq> [] \<Longrightarrow> length c \<le> 16384 \<Longrightarrow> file_chunks 0 c = [c]"
  by (simp add: file_chunks.simps [of 0 c] file_chunks.simps [of 16384 c])

section \<open>Sending\<close>

lemma process_frames_late:
  "conn_open s \<Longrightarrow> inp s = Late # r \<Longrightarrow> process_frames env Never s = (Inr True, s\<lparr>inp := r\<rparr>)"
  by (simp add: process_frames_def guarded_def catch_timeout_def turns_late)

lemma GetChunk_within:
  "disk s (tf_path f) = Some c \<Longrightarrow> length c < 2 ^ 31 \<Longrightarrow> start + n \<le> length c \<Longrightarrow>
    GetChunk (disk s) f start n = Some (take n (drop start c))"
  by (simp add: GetChunk_def file_size_def signed_of_nat signed_take_bit_int_eq_self)

lemma send_chunks_quiet:
  assumes "disk s (tf_path f) = Some c" "length c < 2 ^ 31" "map_of (files_to_send s) (tf_name f) \<noteq> None" "conn_open s"
    and "inp s = replicate (length (file_chunks start c)) Late @ r"
  shows "send_chunks (process_frames env Never) f (int (length c)) start chunk s
    = (Inr True, s\<lparr>inp := r, sent := sent s @ map data_packet (file_chunks start c)\<rparr>)"
  using assms
proof (induction "file_chunks start c" arbitrary: start chunk s)
  case Nil
  then have "\<not> start < length c" by (metis file_chunks.simps list.distinct(1))
  with Nil show ?case by (subst send_chunks.simps) (simp flip: Nil.hyps)
next
  case (Cons d ds start chunk s)
  have start: "start < length c" using Cons.hyps(2) by (metis file_chunks.simps list.distinct(1))
  with Cons.hyps(2) have d: "d = take 16384 (drop start c)" and ds: "ds = file_chunks (start + 16384) c"
    by (simp_all add: file_chunks.simps [of start c])
  let ?count = "nat (min 16384 (int (length c) - int start))"
  have count: "?count = min 16384 (length c - start)" using start by linarith
  have "GetChunk (disk s) f start ?count = Some (take ?count (drop start c))"
    using Cons.prems(1,2) start by (intro GetChunk_within) (auto simp: count)
  moreover have "take ?count (drop start c) = d" unfolding count d by (simp add: min_def)
  ultimately have got: "GetChunk (disk s) f start ?count = Some d" by simp
  have len: "length d = ?count" unfolding count d by simp
  let ?chunk = "d @ drop (length d) chunk"
  let ?s1 = "s\<lparr>sent := sent s @ [data_packet d]\<rparr>" and ?late = "replicate (length ds) Late @ r"
  have "send_chunks (process_frames env Never) f (int (length c)) start chunk s
      = bindm (send_data_packet (take ?count ?chunk)) (\<lambda>_. bindm (process_frames env Never)
          (\<lambda>_. send_chunks (process_frames env Never) f (int (length c)) (start + 16384) ?chunk)) s"
    using Cons.prems(3) start by (subst send_chunks.simps) (simp only: got Let_def option.case of_nat_less_iff if_True if_False simp_thms)
  also have "take ?count ?chunk = d" unfolding len [symmetric] by simp
  also have "bindm (send_data_packet d) k s = k True ?s1" for k :: "bool \<Rightarrow> bool bm"
    using Cons.prems(4) by (simp add: bindm_def send_data_packet_def)
  also have "bindm (process_frames env Never) k ?s1 = k True (?s1\<lparr>inp := ?late\<rparr>)" for k :: "bool \<Rightarrow> bool bm"
    using Cons.prems(4,5) process_frames_late [of ?s1 ?late env] by (simp add: bindm_def flip: Cons.hyps(2))
  also have "send_chunks (process_frames env Never) f (int (length c)) (start + 16384) ?chunk (?s1\<lparr>inp := ?late\<rparr>)
      = (Inr True, s\<lparr>inp := r, sent := sent s @ map data_packet (d # ds)\<rparr>)"
    using Cons.hyps(1) [OF ds, of "?s1\<lparr>inp := ?late\<rparr>" ?chunk] Cons.prems by (simp flip: ds)
  finally show ?case by (simp flip: Cons.hyps(2))
qed

text \<open>The packets of one file.\<close>

definition file_packets :: "tfile \<Rightarrow> bytes \<Rightarrow> bytes list" where
  "file_packets f c = command_packet M_FILE (as_packet_data (tf_name f) (int (length c)) (tf_time f) 0)
     # map data_packet (file_chunks 0 c)"

lemma SendFilePacket_quiet:
  assumes "disk s (tf_path f) = Some c" "length c < 2 ^ 31" "conn_open s"
    and "inp s = Late # replicate (length (file_chunks 0 c)) Late @ r" "sorted_keys (files_to_send s)"
  shows "SendFilePacket env f s = (Inr True, s\<lparr>inp := r, sent := sent s @ file_packets f c,
    files_to_send := assign_key (tf_name f) f (files_to_send s)\<rparr>)"
proof -
  let ?s1 = "s\<lparr>files_to_send := assign_key (tf_name f) f (files_to_send s)\<rparr>"
  have size: "file_size (disk s) f = int (length c)"
    using assms(1,2) by (simp add: file_size_def signed_of_nat signed_take_bit_int_eq_self)
  let ?s2 = "?s1\<lparr>sent := sent s @ [command_packet M_FILE (as_packet_data (tf_name f) (int (length c)) (tf_time f) 0)]\<rparr>"
  let ?s3 = "?s2\<lparr>inp := replicate (length (file_chunks 0 c)) Late @ r\<rparr>"
  have mem: "map_of (assign_key (tf_name f) f (files_to_send s)) (tf_name f) \<noteq> None"
    using assms(5) by simp
  have "process_frames env Never ?s2 = (Inr True, ?s3)"
    using assms(3,4) process_frames_late [of ?s2 "replicate (length (file_chunks 0 c)) Late @ r" env] by simp
  moreover have "SendFileData (process_frames env Never) env f ?s3
      = (Inr True, s\<lparr>inp := r, sent := sent s @ file_packets f c,
          files_to_send := assign_key (tf_name f) f (files_to_send s)\<rparr>)"
    using send_chunks_quiet [of ?s3 f c 0 r env "chunk_memory env"] assms(1-3) mem
    by (simp add: SendFileData_def size file_packets_def)
  ultimately show ?thesis
    using assms(3) mem by (simp add: SendFilePacket_def seqm_def bindm_def modifym_def send_command_packet_def returnm_def size)
qed

section \<open>Receiving\<close>

text \<open>A file received so far: nothing of it on the disk yet, or open with all of it written.\<close>

definition receiving :: "rfile \<Rightarrow> bytes \<Rightarrow> bink \<Rightarrow> bool" where
  "receiving f pre s \<longleftrightarrow> current_receive_file s = Some f \<and> rf_length f = int (length pre) \<and> rf_pos f = length pre
     \<and> (if rf_open f then disk s (rf_path f) = Some pre else pre = [] \<and> disk s (rf_path f) = None)"

definition got_line :: "rfile \<Rightarrow> int \<Rightarrow> string" where
  "got_line f n = StringPrintf (c_str (rf_name f) @ '' '' @ show_u n @ '' '' @ show_u (rf_time f))"

lemma accept_data_more:
  assumes "receiving f pre s" "int (length pre + length d) < rf_expected f"
  shows "\<exists>f1 s1. accept_data d s = (Inr True, s1) \<and> receiving f1 (pre @ d) s1
    \<and> rf_path f1 = rf_path f \<and> rf_name f1 = rf_name f \<and> rf_time f1 = rf_time f \<and> rf_expected f1 = rf_expected f
    \<and> s1 = s\<lparr>disk := (disk s)(rf_path f \<mapsto> pre @ d), current_receive_file := Some f1\<rparr>"
proof (cases "rf_open f")
  case True
  with assms show ?thesis
    by (auto simp: receiving_def accept_data_def WriteChunk_def Let_def overwrite_def)
next
  case False
  with assms show ?thesis by (auto simp: receiving_def accept_data_def WriteChunk_def Let_def)
qed

lemma accept_data_last:
  assumes "receiving f pre s" "conn_open s" "rf_expected f \<le> int (length pre + length d)"
  shows "accept_data d s = (Inr True, s\<lparr>disk := (disk s)(rf_path f \<mapsto> pre @ d), current_receive_file := None,
    bytes_received := bytes_received s + word_of_nat (length pre + length d),
    received_files := received_files s @ [rf_name f],
    sent := sent s @ [command_packet M_GOT (got_line f (int (length pre + length d)))]\<rparr>)"
proof (cases "rf_open f")
  case True
  with assms show ?thesis
    by (simp add: receiving_def accept_data_def WriteChunk_def Let_def overwrite_def seqm_def bindm_def modifym_def
        send_command_packet_def returnm_def got_line_def)
next
  case False
  with assms show ?thesis
    by (simp add: receiving_def accept_data_def WriteChunk_def Let_def seqm_def bindm_def modifym_def
        send_command_packet_def returnm_def got_line_def)
qed

lemma turns_receive:
  assumes "receiving f pre s" "conn_open s" "ds \<noteq> []" "\<forall>d \<in> set ds. d \<noteq> [] \<and> length d < 2 ^ 15"
    and "rf_expected f = int (length pre + length (concat ds))"
    and "inp s = map Byte (concat (map data_packet ds)) @ r"
  shows "turns env Never s = turns env Never (s\<lparr>inp := r, disk := (disk s)(rf_path f \<mapsto> pre @ concat ds),
    current_receive_file := None, bytes_received := bytes_received s + word_of_int (rf_expected f),
    received_files := received_files s @ [rf_name f], sent := sent s @ [command_packet M_GOT (got_line f (rf_expected f))]\<rparr>)"
  using assms
proof (induction ds arbitrary: f pre s)
  case (Cons d ds f pre s)
  let ?rest = "map Byte (concat (map data_packet ds)) @ r"
  let ?s0 = "s\<lparr>inp := ?rest\<rparr>"
  have step: "turns env Never s = bindm (accept_data d) (\<lambda>ok. if \<not> ok then returnm False else turns env Never) ?s0"
    using Cons.prems by (intro turns_data) simp_all
  have rec0: "receiving f pre ?s0" using Cons.prems(1) by (simp add: receiving_def)
  show ?case
  proof (cases "ds = []")
    case True
    then show ?thesis
      using step accept_data_last [OF rec0, of d] Cons.prems by (simp add: bindm_eq fun_upd_def)
  next
    case False
    then have "0 < length (concat ds)" using Cons.prems(4) by (cases ds) auto
    then have "int (length pre + length d) < rf_expected f" using Cons.prems(5) by simp
    from accept_data_more [OF rec0 this] obtain f1 s1 where acc: "accept_data d ?s0 = (Inr True, s1)"
      and f1: "receiving f1 (pre @ d) s1" "rf_path f1 = rf_path f" "rf_name f1 = rf_name f" "rf_time f1 = rf_time f"
        "rf_expected f1 = rf_expected f"
      and s1: "s1 = ?s0\<lparr>disk := (disk s)(rf_path f \<mapsto> pre @ d), current_receive_file := Some f1\<rparr>"
      by auto
    have "turns env Never s = turns env Never s1" unfolding step by (simp add: bindm_eq [of "accept_data d", OF acc])
    also have "\<dots> = turns env Never (s1\<lparr>inp := r, disk := (disk s1)(rf_path f1 \<mapsto> (pre @ d) @ concat ds),
        current_receive_file := None, bytes_received := bytes_received s1 + word_of_int (rf_expected f1),
        received_files := received_files s1 @ [rf_name f1],
        sent := sent s1 @ [command_packet M_GOT (got_line f1 (rf_expected f1))]\<rparr>)"
      using Cons.prems f1 False by (intro Cons.IH) (auto simp: s1)
    also have "got_line f1 (rf_expected f1) = got_line f (rf_expected f)" by (simp add: got_line_def f1)
    finally show ?thesis by (simp add: s1 f1 fun_upd_def cong: if_cong)
  qed
qed simp

lemma SplitString_fields:
  "(\<And>w. w \<in> set ws \<Longrightarrow> w \<noteq> [] \<and> CHR '' '' \<notin> set w) \<Longrightarrow> SplitString (join (CHR '' '') ws) '' '' = ws"
  by (intro SplitString_join) auto

lemma show_u_field: "show_u i \<noteq> [] \<and> CHR '' '' \<notin> set (show_u i)" "length (show_u i) \<le> 10"
proof -
  show "show_u i \<noteq> [] \<and> CHR '' '' \<notin> set (show_u i)" using show_nat_plain by (auto simp: show_u_def)
  show "length (show_u i) \<le> 10"
    unfolding show_u_def by (rule length_show_nat_le) (auto simp: nat_less_iff)
qed

lemma got_line_fields:
  "plain_name (rf_name f) \<Longrightarrow> got_line f n = join (CHR '' '') [rf_name f, show_u n, show_u (rf_time f)]"
  using show_u_field(2) [of n] show_u_field(2) [of "rf_time f"]
  by (simp add: got_line_def StringPrintf_def c_str_id plain_name_def) linarith

lemma HandleFileGotRequest_line:
  assumes "plain_name (rf_name g)" "0 \<le> n" "n < 2 ^ 31" "map_of (files_to_send s) (rf_name g) = Some f"
  shows "HandleFileGotRequest (got_line g n) s =
    (Inr True, s\<lparr>bytes_sent := bytes_sent s + word_of_int (max 0 (file_size (disk s) f)),
       disk := (disk s)(tf_path f := None), files_to_send := erase_key (rf_name g) (files_to_send s)\<rparr>)"
proof -
  let ?ws = "[rf_name g, show_u n, show_u (rf_time g)]"
  have "SplitString (got_line g n) '' '' = ?ws"
    unfolding got_line_fields [OF assms(1)]
    using assms(1) show_u_field(1) by (intro SplitString_fields) (auto simp: plain_name_def)
  moreover have "stol (show_u n) = Inr n"
    using assms(2,3) scan_number_show_nat [of "[]"] by (simp add: stol_def signed_val_def show_u_def nat_less_iff)
  ultimately show ?thesis
    using assms(4) by (simp add: HandleFileGotRequest_def bindm_def liftm_def vector_at_def)
qed

lemma packet_line_size: "plain_name (tf_name f) \<Longrightarrow> as_packet_data (tf_name f) n t k \<noteq> []" "length (as_packet_data a n t k) < 32767"
  by (auto simp: as_packet_data_def StringPrintf_def plain_name_def c_str_id)

lemma HandleFileRequest_line:
  assumes "plain_name name" "0 \<le> n" "n < 2 ^ 31" "transfer_file_path env (remote_network_name env s) name = Inr path"
  shows "HandleFileRequest env (as_packet_data name n time 0) s = (Inr True, s\<lparr>current_receive_file :=
    Some \<lparr>rf_name = name, rf_path = path, rf_expected = n, rf_time = time mod 2 ^ 32, rf_length = 0, rf_open = False, rf_pos = 0\<rparr>\<rparr>)"
proof -
  have "remote_network_name env (s\<lparr>current_receive_file := None\<rparr>) = remote_network_name env s"
    by (simp add: remote_network_name_def)
  then show ?thesis
    using assms ParseFileRequestLine_as_packet_data [of name n 0 time]
    by (simp add: HandleFileRequest_def seqm_def bindm_def modifym_def liftm_def returnm_def)
qed

lemma turns_file_packets:
  assumes "plain_name (tf_name f)" "c \<noteq> []" "length c < 2 ^ 31" "conn_open s"
    and "transfer_file_path env (remote_network_name env s) (tf_name f) = Inr path" "disk s path = None"
    and "inp s = map Byte (concat (file_packets f c)) @ r"
    and g: "g = \<lparr>rf_name = tf_name f, rf_path = path, rf_expected = int (length c), rf_time = tf_time f mod 2 ^ 32,
      rf_length = 0, rf_open = False, rf_pos = 0\<rparr>"
  shows "turns env Never s = turns env Never (s\<lparr>inp := r, disk := (disk s)(path \<mapsto> c),
    current_receive_file := None, bytes_received := bytes_received s + word_of_nat (length c),
    received_files := received_files s @ [tf_name f],
    sent := sent s @ [command_packet M_GOT (got_line g (int (length c)))]\<rparr>)"
proof -
  let ?line = "as_packet_data (tf_name f) (int (length c)) (tf_time f) 0"
  let ?rest = "map Byte (concat (map data_packet (file_chunks 0 c))) @ r"
  let ?s0 = "s\<lparr>inp := ?rest\<rparr>" and ?s1 = "s\<lparr>inp := ?rest, current_receive_file := Some g\<rparr>"
  have "remote_network_name env ?s0 = remote_network_name env s" by (simp add: remote_network_name_def)
  then have "HandleFileRequest env ?line ?s0 = (Inr True, ?s1)"
    using HandleFileRequest_line [of "tf_name f" "int (length c)" env ?s0 path] assms(1,3,5) by (simp add: g)
  then have "handle_command (process_frames env Never) env M_FILE ?line ?s0 = (Inr True, ?s1)"
    by (simp add: bindm_def handle_command_def seqm_def returnm_def)
  then have "turns env Never s = turns env Never ?s1"
    using assms(4,7) packet_line_size(1) [OF assms(1)] packet_line_size(2)
    by (intro turns_command_done [where name = "''M_FILE''"]) (simp_all add: file_packets_def command_names)
  also have "turns env Never ?s1 = turns env Never (s\<lparr>inp := r, disk := (disk s)(path \<mapsto> c),
    current_receive_file := None, bytes_received := bytes_received s + word_of_nat (length c),
    received_files := received_files s @ [tf_name f],
    sent := sent s @ [command_packet M_GOT (got_line g (int (length c)))]\<rparr>)"
  proof -
    have "file_chunks 0 c \<noteq> []" using assms(2) by (simp add: file_chunks.simps [of 0 c])
    moreover have "\<forall>d \<in> set (file_chunks 0 c). d \<noteq> [] \<and> length d < 2 ^ 15"
      using file_chunks_sizes by fastforce
    ultimately show ?thesis
      using turns_receive [of g "[]" ?s1 "file_chunks 0 c" r env] assms(4,6)
      by (simp add: receiving_def concat_file_chunks g)
  qed
  finally show ?thesis .
qed

lemma process_frames_until_late:
  assumes "conn_open s" "turns env Never s = turns env Never s1" "inp s1 = Late # r"
  shows "process_frames env Never s = (Inr True, s1\<lparr>inp := r\<rparr>)"
  using assms by (simp add: process_frames_def guarded_def catch_timeout_def turns_late)

section \<open>Properties\<close>

text \<open>C20 A file is carried from disk to disk and acknowledged: while the peer is silent
  \<open>SendFilePacket\<close> sends the packets of the file; a session that reads them writes the file
  under the path the factory gives, byte for byte, counts it as received and answers with one
  packet; when the sender reads that packet its own copy is deleted and taken off the list.\<close>

theorem file_transfer:
  assumes "disk s (tf_path f) = Some c" "c \<noteq> []" "length c < 2 ^ 31" "plain_name (tf_name f)"
    and "conn_open s" "sorted_keys (files_to_send s)" "inp s = replicate (1 + length (file_chunks 0 c)) Late @ r"
    and "conn_open t" "transfer_file_path env1 (remote_network_name env1 t) (tf_name f) = Inr path" "disk t path = None"
    and "inp t = map Byte (concat (file_packets f c)) @ Late # q"
  shows "\<exists>s1 t1 ack. SendFilePacket env f s = (Inr True, s1) \<and> sent s1 = sent s @ file_packets f c \<and> inp s1 = r
    \<and> process_frames env1 Never t = (Inr True, t1) \<and> inp t1 = q \<and> disk t1 = (disk t)(path \<mapsto> c)
    \<and> received_files t1 = received_files t @ [tf_name f] \<and> sent t1 = sent t @ [ack]
    \<and> (\<forall>r1. r = map Byte ack @ Late # r1 \<longrightarrow> (\<exists>s2. process_frames env Never s1 = (Inr True, s2)
        \<and> disk s2 = (disk s)(tf_path f := None) \<and> files_to_send s2 = erase_key (tf_name f) (files_to_send s1)))"
proof -
  let ?g = "\<lparr>rf_name = tf_name f, rf_path = path, rf_expected = int (length c), rf_time = tf_time f mod 2 ^ 32,
      rf_length = 0, rf_open = False, rf_pos = 0\<rparr>"
  let ?ack = "command_packet M_GOT (got_line ?g (int (length c)))"
  let ?t1 = "t\<lparr>inp := Late # q, disk := (disk t)(path \<mapsto> c), current_receive_file := None,
    bytes_received := bytes_received t + word_of_nat (length c), received_files := received_files t @ [tf_name f],
    sent := sent t @ [?ack]\<rparr>"
  let ?s1 = "s\<lparr>inp := r, sent := sent s @ file_packets f c, files_to_send := assign_key (tf_name f) f (files_to_send s)\<rparr>"
  have send: "SendFilePacket env f s = (Inr True, ?s1)"
    using assms(1,3,5-7) by (intro SendFilePacket_quiet) simp_all
  have receive: "process_frames env1 Never t = (Inr True, ?t1\<lparr>inp := q\<rparr>)"
    using assms by (intro process_frames_until_late turns_file_packets) simp_all
  have got: "\<exists>s2. process_frames env Never ?s1 = (Inr True, s2) \<and> disk s2 = (disk s)(tf_path f := None)
      \<and> files_to_send s2 = erase_key (tf_name f) (files_to_send ?s1)"
    if "r = map Byte ?ack @ Late # r1" for r1
  proof -
    let ?s2 = "?s1\<lparr>inp := Late # r1, bytes_sent := bytes_sent s + word_of_int (max 0 (file_size (disk s) f)),
       disk := (disk s)(tf_path f := None), files_to_send := erase_key (tf_name f) (files_to_send ?s1)\<rparr>"
    have line: "got_line ?g (int (length c)) \<noteq> []" "length (got_line ?g (int (length c))) < 32767"
      using assms(4) by (auto simp: got_line_def StringPrintf_def c_str_id plain_name_def)
    have handled: "handle_command (process_frames env Never) env M_GOT (got_line ?g (int (length c))) (?s1\<lparr>inp := Late # r1\<rparr>)
        = (Inr True, ?s2)"
      using HandleFileGotRequest_line [of ?g "int (length c)" "?s1\<lparr>inp := Late # r1\<rparr>" f] assms(3,4,6)
      by (simp add: bindm_def handle_command_def seqm_def returnm_def)
    have "turns env Never ?s1 = turns env Never ?s2"
      using assms(5) that line handled
      by (intro turns_command_done [where name = "''M_GOT''"]) (simp_all add: command_names)
    from process_frames_until_late [OF _ this] show ?thesis using assms(5) by simp
  qed
  show ?thesis
    by (intro exI [of _ ?s1] exI [of _ "?t1\<lparr>inp := q\<rparr>"] exI [of _ ?ack] conjI)
      (use send receive got in auto)
qed

text \<open>An originating system sends \<open>s2.net\<close>; the answering system, which no one has logged in to
  yet, stores it.\<close>

definition demo_file :: tfile where
  "demo_file = \<lparr>tf_name = ''s2.net'', tf_path = ''/net/s2.net'', tf_time = 77\<rparr>"

theorem file_transfer_witness:
  "\<exists>s1 t1. SendFilePacket (demo_env ORIGINATING) demo_file (new_bink [Late, Late] [''/net/s2.net'' \<mapsto> ''hello'']) = (Inr True, s1)
    \<and> process_frames (demo_env ANSWERING) Never
        (new_bink (map Byte (concat (file_packets demo_file ''hello'')) @ [Late]) Map.empty) = (Inr True, t1)
    \<and> disk t1 ''/net/s2.net'' = Some ''hello'' \<and> received_files t1 = [''s2.net'']"
proof -
  have chunks: "length (file_chunks 0 ''hello'') = 1" by (simp add: file_chunks_one)
  have path: "transfer_file_path (demo_env ANSWERING) (remote_network_name (demo_env ANSWERING)
      (new_bink (map Byte (concat (file_packets demo_file ''hello'')) @ [Late]) Map.empty)) (tf_name demo_file)
    = Inr ''/net/s2.net''"
    using demo_network_at
    by (simp add: transfer_file_path_def remote_network_name_def new_bink_def network_name_from_single_address_def
        SplitString_Nil demo_file_def SetName_def) (simp add: demo_env_def)
  let ?s = "new_bink [Late, Late] [''/net/s2.net'' \<mapsto> ''hello'']"
  let ?t = "new_bink (map Byte (concat (file_packets demo_file ''hello'')) @ [Late]) Map.empty"
  have "disk ?s (tf_path demo_file) = Some ''hello''" "''hello'' \<noteq> []" "length ''hello'' < 2 ^ 31"
    "plain_name (tf_name demo_file)" "conn_open ?s" "sorted_keys (files_to_send ?s)"
    "inp ?s = replicate (1 + length (file_chunks 0 ''hello'')) Late @ []" "conn_open ?t" "disk ?t ''/net/s2.net'' = None"
    "inp ?t = map Byte (concat (file_packets demo_file ''hello'')) @ Late # []"
    using chunks by (simp_all add: new_bink_def demo_file_def plain_name_def NUL_def)
  from file_transfer [OF this(1-8) path this(9,10), of "demo_env ORIGINATING"]
  obtain s1 t1 where "SendFilePacket (demo_env ORIGINATING) demo_file ?s = (Inr True, s1)"
    "process_frames (demo_env ANSWERING) Never ?t = (Inr True, t1)" "disk t1 = (disk ?t)(''/net/s2.net'' \<mapsto> ''hello'')"
    "received_files t1 = received_files ?t @ [tf_name demo_file]"
    by blast
  then show ?thesis by (intro exI [of _ s1] exI [of _ t1]) (simp add: new_bink_def demo_file_def)
qed

end
