(* ===== verification/Net_Binkp_Login.thy ===== *)
theory Net_Binkp_Login
  imports Net_Binkp_Auth
begin

text \<open>
  A caller that logs in: the script in which it announces its address and gives its password is
  followed through the states of an answering session up to the transfer.
\<close>

section \<open>One turn of Run with a silent peer\<close>

lemma run_turn:
  assumes "reach env s0 st s" "run_state env st s = (Inr st1, s1)" "st \<noteq> DONE" "\<not> error_received s1"
    and "process_frames env Never s1 = (Inr b, s2)"
  shows "reach env s0 st1 s2" "run_loop env st s = run_loop env st1 s2"
  using run_loop_reach [OF assms(1,3,2,5,4)] by simp_all

lemma run_turn_late:
  assumes "reach env s0 st s" "run_state env st s = (Inr st1, s1)" "st \<noteq> DONE" "\<not> error_received s1"
    and "conn_open s1" "inp s1 = Late # r"
  shows "reach env s0 st1 (s1\<lparr>inp := r\<rparr>)" "run_loop env st s = run_loop env st1 (s1\<lparr>inp := r\<rparr>)"
  using run_turn [OF assms(1-4) process_frames_late [OF assms(5,6)]] by simp_all

lemma seqm_send: "conn_open s \<Longrightarrow> seqm (send_command_packet c d) k s = k (s\<lparr>sent := sent s @ [command_packet c d]\<rparr>)"
  by (simp add: seqm_def bindm_def send_command_packet_def)

lemma seqm_return: "seqm (returnm x) k s = k s" "bindm (returnm x) f s = f x s"
  by (simp_all add: seqm_def bindm_def returnm_def)

lemma announce_networks_sends:
  "conn_open s \<Longrightarrow> \<exists>P a. announce_networks ns a0 s = (Inr a, s\<lparr>sent := sent s @ P\<rparr>)"
proof (induction ns arbitrary: a0 s)
  case Nil
  show ?case by (rule exI [of _ "[]"]) (simp add: returnm_def)
next
  case (Cons net ns a0 s)
  let ?name = "StringLowerCase (net_name net)" and ?node = "show_nat (unat (net_sysnum net))"
  let ?p = "command_packet M_NUL (StringPrintf (''WWIV @'' @ ?node @ ''.'' @ ?name))"
  obtain P a where "announce_networks ns ((if a0 \<noteq> [] then a0 @ '' '' else a0)
        @ StringPrintf (''20000:20000/'' @ ?node @ ''@'' @ ?name)) (s\<lparr>sent := sent s @ [?p]\<rparr>)
      = (Inr a, s\<lparr>sent := sent s @ [?p] @ P\<rparr>)"
    using Cons.IH [of "s\<lparr>sent := sent s @ [?p]\<rparr>"] Cons.prems by fastforce
  then show ?case
    using Cons.prems by (intro exI [of _ "?p # P"] exI [of _ a]) (simp add: Let_def seqm_send)
qed

lemma WaitConn_late:
  assumes "bink_side env = ANSWERING" "conn_open s" "inp s = Late # r"
  shows "\<exists>P. WaitConn env s = (Inr WAIT_ADDR,
    s\<lparr>inp := r, sent := P, bink_cram := GenerateChallengeData (bink_cram s)\<rparr>)"
proof -
  let ?c = "GenerateChallengeData (bink_cram s)"
  have cram: "seqm offer_cram k s = k (s\<lparr>bink_cram := ?c, sent := sent s @ [command_packet M_NUL (''OPT CRAM-MD5-'' @ challenge_data ?c)]\<rparr>)"
    for k :: "bink_state bm"
    using assms(2) by (simp add: seqm_def bindm_def offer_cram_def Let_def send_command_packet_def returnm_def)
  have announce: "\<exists>P a. bindm (announce_networks ns []) f t = f a (t\<lparr>sent := P\<rparr>)"
    if t: "conn_open t" for f :: "string \<Rightarrow> bink_state bm" and t ns
  proof -
    obtain P a where "announce_networks ns [] t = (Inr a, t\<lparr>sent := sent t @ P\<rparr>)"
      using announce_networks_sends [OF t] by blast
    then have "bindm (announce_networks ns []) f t = f a (t\<lparr>sent := sent t @ P\<rparr>)" by (simp add: bindm_def)
    then show ?thesis by blast
  qed
  have late: "seqm (process_frames env Never) k t = k (t\<lparr>inp := r\<rparr>)" if "conn_open t" "inp t = Late # r" for k :: "bink_state bm" and t
    using process_frames_late [OF that] by (simp add: seqm_def bindm_def)
  let ?ann = "\<lambda>f. bindm (announce_networks (config_networks (config env)) []) f"
  let ?addr = "\<lambda>a. seqm (send_command_packet M_ADR a) (seqm (process_frames env Never) (returnm WAIT_ADDR))"
  have fin: "\<exists>P. ?ann ?addr t = (Inr WAIT_ADDR, t\<lparr>sent := P, inp := r\<rparr>)" if t: "conn_open t" "inp t = Late # r" for t
  proof -
    obtain P a where "?ann ?addr t = ?addr a (t\<lparr>sent := P\<rparr>)" using announce [OF t(1)] by blast
    then show ?thesis using t by (auto simp: seqm_send late returnm_def)
  qed
  have "\<exists>Q. WaitConn env s = ?ann ?addr (s\<lparr>bink_cram := ?c, sent := Q\<rparr>)"
    using assms(2) by (simp add: WaitConn_def assms(1) cram seqm_send) (rule exI, rule refl)
  then obtain Q where Q: "WaitConn env s = ?ann ?addr (s\<lparr>bink_cram := ?c, sent := Q\<rparr>)" by blast
  obtain P where "?ann ?addr (s\<lparr>bink_cram := ?c, sent := Q\<rparr>) = (Inr WAIT_ADDR, s\<lparr>bink_cram := ?c, sent := P, inp := r\<rparr>)"
    using fin [of "s\<lparr>bink_cram := ?c, sent := Q\<rparr>"] assms(2,3) by auto
  then show ?thesis unfolding Q by (intro exI [of _ P]) simp
qed

section \<open>Logging in\<close>

text \<open>What a caller sends as its password.\<close>

definition password_reply :: "bool \<Rightarrow> string \<Rightarrow> string" where
  "password_reply hashed password =
     (if hashed then ''CRAM-MD5-'' @ hex (hmac md5 ''cafebabecafebabe'' password) else password)"

definition login_script :: "string \<Rightarrow> string \<Rightarrow> item list" where
  "login_script addresses reply =
     Late # map Byte (command_packet M_ADR addresses @ command_packet M_PWD reply) @ [Late, Late, Late, Late]"

definition knows_caller :: "bink_env \<Rightarrow> string \<Rightarrow> string \<Rightarrow> bool" where
  "knows_caller env addresses password \<longleftrightarrow>
     (let name = network_name_from_single_address (StringLowerCase addresses)
      in name \<noteq> [] \<and> (\<exists>node callout con. node_number_from_address_list (StringLowerCase addresses) name = Inr node
           \<and> callouts env name = Some callout \<and> node_config_for callout node = Some con
           \<and> expected_password_for callout node = password))"

lemma login_state:
  assumes env: "bink_side env = ANSWERING" "md5_memory (md5_mem env)"
    and caller: "knows_caller env addresses password" "addresses \<noteq> []" "length addresses < 32767"
    and reply: "reply = password_reply hashed password" "length reply < 32767" "hashed \<or> \<not> starts_with password ''CRAM''"
  shows "\<exists>s. reach env (new_bink (login_script addresses reply @ r) fs) PASSWORD_ACK s
    \<and> run_loop env WAIT_CONN (new_bink (login_script addresses reply @ r) fs) = run_loop env PASSWORD_ACK s
    \<and> accepts env s \<and> conn_open s \<and> \<not> error_received s \<and> inp s = r \<and> disk s = fs \<and> files_to_send s = []
    \<and> received_files s = [] \<and> address_list s = StringLowerCase addresses"
proof -
  let ?s0 = "new_bink (login_script addresses reply @ r) fs"
  let ?rest = "map Byte (command_packet M_ADR addresses @ command_packet M_PWD reply) @ Late # Late # Late # Late # r"
  let ?c = "GenerateChallengeData new_cram"
  define auth where "auth = (if hashed then CRAM_MD5 else PLAIN_TEXT)"
  define pw where "pw = (if hashed then hex (hmac md5 ''cafebabecafebabe'' password) else password)"
  let ?name = "network_name_from_single_address (StringLowerCase addresses)"
  obtain node callout con where known: "?name \<noteq> []" "node_number_from_address_list (StringLowerCase addresses) ?name = Inr node"
    "callouts env ?name = Some callout" "node_config_for callout node = Some con" "expected_password_for callout node = password"
    using caller(1) by (auto simp: knows_caller_def Let_def)
  have password: "password \<noteq> []" using known(5) by (auto simp: expected_password_for_def split: option.splits if_splits)
  have reply_ne: "reply \<noteq> []" and pw_ne: "pw \<noteq> []"
  proof -
    have "hmac md5 ''cafebabecafebabe'' password \<noteq> []" by (metis hmac_def length_md5 list.size(3) zero_neq_numeral)
    then show "reply \<noteq> []" "pw \<noteq> []" using password by (auto simp: reply(1) pw_def password_reply_def hex_def hex_byte_def)
  qed
  obtain P where "WaitConn env ?s0 = (Inr WAIT_ADDR, ?s0\<lparr>inp := ?rest, sent := P, bink_cram := ?c\<rparr>)"
    using WaitConn_late [of env ?s0 ?rest] env(1) by (auto simp: new_bink_def login_script_def)
  then have s1: "run_state env WAIT_CONN ?s0 = (Inr WAIT_ADDR, ?s0\<lparr>inp := ?rest, sent := P, bink_cram := ?c\<rparr>)"
    by (simp add: run_state_def)
  let ?s1 = "?s0\<lparr>inp := ?rest, sent := P, bink_cram := ?c\<rparr>"
  let ?s2 = "\<lambda>i. ?s0\<lparr>inp := i, sent := P, bink_cram := ?c, address_list := StringLowerCase addresses, bink_auth := auth,
    remote_password := pw\<rparr>"
  have adr: "turns env Never ?s1 = turns env Never (?s1\<lparr>inp := map Byte (command_packet M_PWD reply) @ Late # Late # Late # Late # r,
      address_list := StringLowerCase addresses\<rparr>)"
    using caller by (intro turns_command_done [where name = "''M_ADR''" and c = M_ADR and data = addresses]) (simp_all add: new_bink_def command_names handle_ADR)
  have pwd: "HandlePassword reply s = (Inr True, s\<lparr>bink_auth := auth, remote_password := pw\<rparr>)" for s
    using reply(3) by (auto simp: HandlePassword_def reply(1) auth_def pw_def password_reply_def starts_with_iff seqm_def bindm_def modifym_def returnm_def)
  have "turns env Never (?s1\<lparr>inp := map Byte (command_packet M_PWD reply) @ Late # Late # Late # Late # r,
      address_list := StringLowerCase addresses\<rparr>) = turns env Never (?s2 (Late # Late # Late # Late # r))"
    using reply(2) reply_ne by (intro turns_command_done [where name = "''M_PWD''" and c = M_PWD and data = reply])
      (simp_all add: new_bink_def handle_PWD seqm_def bindm_def pwd returnm_def command_names)
  with adr have frames: "process_frames env Never ?s1 = (Inr True, ?s2 (Late # Late # Late # r))"
    using process_frames_until_late [of ?s1 env "?s2 (Late # Late # Late # Late # r)" "Late # Late # Late # r"]
    by (simp add: new_bink_def)
  have start: "reach env ?s0 WAIT_CONN ?s0" using reach_start [of env ?s0] env(1) by (simp add: start_state_def)
  have ne: "\<not> error_received (?s2 i)" "conn_open (?s2 i)" for i by (simp_all add: new_bink_def)
  have wait: "wait_for (Suc k) env p (?s2 i) = (Inr True, ?s2 i)" if "fst (test_pred p (?s2 i))" for k p i
    using that by (cases "test_pred p (?s2 i)") (simp add: bindm_def process_frames_def guarded_def catch_timeout_def turns_stop new_bink_def)
  have wait_addr: "run_state env WAIT_ADDR (?s2 i) = (Inr AUTH_REMOTE, ?s2 i)" for i
    using wait [of HaveAddress i 9] caller(2) by (simp add: run_state_def WaitAddr_def seqm_def bindm_def returnm_def StringLowerCase_def)
  have wait_pwd: "run_state env WAIT_PWD (?s2 i) = (Inr PASSWORD_ACK, ?s2 i)" for i
    using wait [of HavePassword i 29] pw_ne by (simp add: run_state_def WaitPwd_def seqm_def bindm_def returnm_def)
  have name: "remote_network_name env (?s2 i) = ?name" for i
    using env(1) known(1) by (simp add: remote_network_name_def)
  have auth_remote: "run_state env AUTH_REMOTE (?s2 i) = (Inr WAIT_PWD, ?s2 i)" for i
    using known(2-4) env(1) name [of i] by (simp add: run_state_def AuthRemote_def Let_def bindm_def liftm_def returnm_def)
  have node: "remote_network_node env (?s2 i) = Inr node" for i
    using env(1) known(2) name [of i] by (simp add: remote_network_node_def)
  have acc: "accepts env (?s2 i)" for i
    unfolding accepts_def node name known(3)
    by (intro exI [of _ node] exI [of _ callout] conjI refl)
      (simp add: known(5) GenerateChallengeData_def new_cram_def auth_def pw_def)
  have t1: "reach env ?s0 WAIT_ADDR (?s2 (Late # Late # Late # r))" "run_loop env WAIT_CONN ?s0 = run_loop env WAIT_ADDR (?s2 (Late # Late # Late # r))"
    using run_turn [OF start s1 _ _ frames] by (simp_all add: new_bink_def)
  have t2: "reach env ?s0 AUTH_REMOTE (?s2 (Late # Late # r))"
    "run_loop env WAIT_ADDR (?s2 (Late # Late # Late # r)) = run_loop env AUTH_REMOTE (?s2 (Late # Late # r))"
    using run_turn_late [OF t1(1) wait_addr _ ne] by (simp_all add: new_bink_def)
  have t3: "reach env ?s0 WAIT_PWD (?s2 (Late # r))"
    "run_loop env AUTH_REMOTE (?s2 (Late # Late # r)) = run_loop env WAIT_PWD (?s2 (Late # r))"
    using run_turn_late [OF t2(1) auth_remote _ ne] by (simp_all add: new_bink_def)
  have t4: "reach env ?s0 PASSWORD_ACK (?s2 r)" "run_loop env WAIT_PWD (?s2 (Late # r)) = run_loop env PASSWORD_ACK (?s2 r)"
    using run_turn_late [OF t3(1) wait_pwd _ ne] by (simp_all add: new_bink_def)
  show ?thesis
    using t4(1) t1(2) t2(2) t3(2) t4(2) acc [of r]
    by (intro exI [of _ "?s2 r"] conjI) (simp_all add: new_bink_def)
qed

lemma answer_accepted:
  assumes "conn_open s" "fst (check_password env p s)"
  shows "\<exists>msg c. answer_password env p s = (Inr TRANSFER_FILES, s\<lparr>bink_cram := c, sent := sent s @ [command_packet M_OK msg]\<rparr>)"
proof -
  have "\<exists>c. snd (check_password env p s) = s\<lparr>bink_cram := c\<rparr>"
    by (cases "bink_auth s") (auto simp: check_password_def case_prod_beta intro: exI [of _ "bink_cram s"])
  then obtain c where "check_password env p s = (True, s\<lparr>bink_cram := c\<rparr>)"
    using assms(2) by (metis prod.collapse)
  then show ?thesis
    using assms(1) by (intro exI [of _ "case bink_auth s of PLAIN_TEXT \<Rightarrow> ''Passwords match; insecure session''
        | CRAM_MD5 \<Rightarrow> ''Passwords match; secure session.''"] exI [of _ c])
      (simp add: answer_password_def Let_def seqm_send returnm_def)
qed

lemma PasswordAck_accepted:
  assumes "md5_memory (md5_mem env)" "accepts env s" "conn_open s"
  shows "\<exists>msg c. PasswordAck env s = (Inr TRANSFER_FILES, s\<lparr>bink_cram := c, sent := sent s @ [command_packet M_OK msg]\<rparr>)"
proof -
  from assms(2) obtain node callout where n: "remote_network_node env s = Inr node"
    "callouts env (remote_network_name env s) = Some callout"
    and "case bink_auth s of PLAIN_TEXT \<Rightarrow> remote_password s = expected_password_for callout node
      | CRAM_MD5 \<Rightarrow> remote_password s = hex (hmac md5 (challenge_data (bink_cram s)) (expected_password_for callout node))"
    unfolding accepts_def by blast
  then have "fst (check_password env (expected_password_for callout node) s)"
    by (simp only: check_password_eq [OF assms(1)])
  from answer_accepted [OF assms(3) this] show ?thesis
    using n by (simp add: PasswordAck_def bindm_def liftm_def callout_for_def)
qed

section \<open>The transfer of a silent caller\<close>

lemma set_sent_evolves: "evolves s s1 \<Longrightarrow> set (sent s) \<subseteq> set (sent s1)"
  by (auto simp: evolves_def)

lemma evolves_bindm:
  assumes "m s = (Inr x, s1)" "\<And>n. pres n (f x) s1"
  shows "evolves s1 (snd (bindm m f s))"
  using assms(1) assms(2) [of "Suc (length (inp s1))"] by (simp add: bindm_def pres_def)

lemma transfer_sends:
  assumes "conn_open s" "remote_network_node env s = Inr node" "network_dir (config env) (remote_network_name env s) = Inr dir"
    and "CreateTransferFileList env dir node (disk s) = Inr [f]" "disk s (tf_path f) = Some c" "length c < 2 ^ 31"
    and "sorted_keys (files_to_send s)" "inp s = Late # Late # replicate (length (file_chunks 0 c)) Late @ r"
  shows "set (file_packets f c) \<subseteq> set (sent (snd (TransferFiles env s)))"
proof -
  let ?s1 = "s\<lparr>inp := Late # replicate (length (file_chunks 0 c)) Late @ r\<rparr>"
  let ?s2 = "?s1\<lparr>inp := r, sent := sent s @ file_packets f c, files_to_send := assign_key (tf_name f) f (files_to_send s)\<rparr>"
  have late: "process_frames env Never s = (Inr True, ?s1)"
    using assms(1,8) by (intro process_frames_late) simp_all
  have send: "SendFilePacket env f ?s1 = (Inr True, ?s2)"
    using SendFilePacket_quiet [of ?s1 f c r env] assms by simp
  have "TransferFiles env s = bindm (send_all env [f]) (\<lambda>_. seqm (percolate 5 env) (finish_transfer env)) ?s1"
    using assms(2-4) late by (simp add: TransferFiles_def transfer_to_def seqm_def bindm_def liftm_def)
  moreover have "send_all env [f] ?s1 = (Inr (), ?s2)"
    using send by (simp add: seqm_def bindm_def returnm_def)
  then have "evolves ?s2 (snd (bindm (send_all env [f]) (\<lambda>_. seqm (percolate 5 env) (finish_transfer env)) ?s1))"
    by (rule evolves_bindm) (intro pres_intros)
  ultimately show ?thesis using set_sent_evolves by fastforce
qed

lemma run_loop_evolves: "evolves (snd (run_state env st s)) (snd (run_loop env st s))"
proof -
  obtain r s1 where r: "run_state env st s = (r, s1)" by (cases "run_state env st s")
  obtain q s2 where q: "process_frames env Never s1 = (q, s2)" by (cases "process_frames env Never s1")
  have "evolves s1 s2" using pres_process_frames [of "Suc (length (inp s1))" env Never s1] q by (simp add: pres_def)
  moreover have "evolves s2 (snd (run_loop env st1 s2))" for st1
    using pres_run_loop [of "Suc (length (inp s2))" env st1 s2] by (simp add: pres_def)
  ultimately have "evolves s1 (snd (run_loop env st1 s2))" for st1 by (rule evolves_trans)
  then show ?thesis
    using r q \<open>evolves s1 s2\<close> by (auto simp: run_loop.simps [of env st s] split: sum.split)
qed

lemma transfer_served:
  assumes "run_loop env st s0 = run_loop env TRANSFER_FILES s"
    and "conn_open s" "remote_network_node env s = Inr node" "network_dir (config env) (remote_network_name env s) = Inr dir"
    and "CreateTransferFileList env dir node (disk s) = Inr [f]" "disk s (tf_path f) = Some c" "length c < 2 ^ 31"
    and "files_to_send s = []" "inp s = Late # Late # replicate (length (file_chunks 0 c)) Late"
  shows "set (file_packets f c) \<subseteq> set (sent (snd (run_loop env st s0)))"
proof -
  have "set (file_packets f c) \<subseteq> set (sent (snd (run_state env TRANSFER_FILES s)))"
    using transfer_sends [of s env node dir f c "[]"] assms(2-9) by (simp add: run_state_def)
  also have "\<dots> \<subseteq> set (sent (snd (run_loop env TRANSFER_FILES s)))"
    by (rule set_sent_evolves [OF run_loop_evolves])
  finally show ?thesis using assms(1) by simp
qed

lemma login_served:
  assumes "bink_side env = ANSWERING" "length (md5_buffer (md5_mem env)) = 64"
    and "knows_caller env addresses password" "addresses \<noteq> []" "length addresses < 32767"
    and "reply = password_reply hashed password" "length reply < 32767" "hashed \<or> \<not> starts_with password ''CRAM''"
    and "name = network_name_from_single_address (StringLowerCase addresses)"
    and "node_number_from_address_list (StringLowerCase addresses) name = Inr node"
    and "network_dir (config env) name = Inr dir" "CreateTransferFileList env dir node fs = Inr [f]"
    and "fs (tf_path f) = Some c" "length c < 2 ^ 31"
  shows "set (file_packets f c) \<subseteq> set (sent (snd (run_loop env (start_state env)
    (new_bink (login_script addresses reply @ replicate (3 + length (file_chunks 0 c)) Late) fs))))"
proof -
  let ?r = "Late # Late # Late # replicate (length (file_chunks 0 c)) Late"
  let ?s0 = "new_bink (login_script addresses reply @ ?r) fs"
  obtain s where s: "reach env ?s0 PASSWORD_ACK s" "run_loop env WAIT_CONN ?s0 = run_loop env PASSWORD_ACK s" "accepts env s"
    "conn_open s" "\<not> error_received s" "inp s = ?r" "disk s = fs" "files_to_send s = []" "address_list s = StringLowerCase addresses"
    using login_state [OF assms(1-8), of ?r fs] by blast
  obtain msg k where "PasswordAck env s = (Inr TRANSFER_FILES, s\<lparr>bink_cram := k, sent := sent s @ [command_packet M_OK msg]\<rparr>)"
    using PasswordAck_accepted [OF assms(2) s(3,4)] by blast
  then have ack: "run_state env PASSWORD_ACK s = (Inr TRANSFER_FILES, s\<lparr>bink_cram := k, sent := sent s @ [command_packet M_OK msg]\<rparr>)"
    by (simp add: run_state_def)
  let ?s1 = "s\<lparr>bink_cram := k, sent := sent s @ [command_packet M_OK msg], inp := Late # Late # replicate (length (file_chunks 0 c)) Late\<rparr>"
  have run: "run_loop env PASSWORD_ACK s = run_loop env TRANSFER_FILES ?s1"
    using run_turn_late(2) [OF s(1) ack, of "Late # Late # replicate (length (file_chunks 0 c)) Late"] s(4-6) by simp
  have "name \<noteq> []" using assms(3,9) by (auto simp: knows_caller_def Let_def)
  then have name: "remote_network_name env ?s1 = name"
    using s(9) assms(1,9) by (simp add: remote_network_name_def)
  moreover from name have "remote_network_node env ?s1 = Inr node"
    using s(9) assms(1,10) by (simp add: remote_network_node_def)
  moreover have "run_loop env WAIT_CONN ?s0 = run_loop env TRANSFER_FILES ?s1" using s(2) run by simp
  ultimately show ?thesis
    using transfer_served [of env WAIT_CONN ?s0 ?s1 node dir f c] assms(1,11-14) s(4,7,8)
    by (simp add: start_state_def numeral_3_eq_3)
qed

text \<open>Node 2 of the small system, with a file waiting.\<close>

abbreviation demo_address :: string where
  "demo_address \<equiv> ''20000:20000/2@wwivnet''"

definition demo_waiting :: tfile where
  "demo_waiting = \<lparr>tf_name = ''s2.net'', tf_path = ''/net/s2.net'', tf_time = 0\<rparr>"

lemma demo_caller:
  "network_name_from_single_address (StringLowerCase demo_address) = ''wwivnet''"
  "node_number_from_address_list (StringLowerCase demo_address) ''wwivnet'' = Inr 2"
  "expected_password_for demo_callouts 2 = ''PASS''"
  by code_simp+

lemma demo_knows: "knows_caller (demo_env ANSWERING) demo_address ''PASS''"
proof -
  have "\<exists>con. node_config_for demo_callouts 2 = Some con" by (simp add: node_config_for_def demo_callouts_def)
  then show ?thesis
    using demo_caller unfolding knows_caller_def Let_def by (simp add: demo_env_def)
qed

lemma demo_dir: "network_dir (config (demo_env side)) ''wwivnet'' = Inr ''/net''"
  by (simp add: network_dir_def demo_network_at)

lemma show_nat_2: "show_nat 2 = ''2''"
  by code_simp

lemma demo_list: "CreateTransferFileList (demo_env side) ''/net'' 2 [''/net/s2.net'' \<mapsto> ''hi''] = Inr [demo_waiting]"
  by (simp add: CreateTransferFileList_def EnsureTrailingSlash_def File_Exists_def demo_waiting_def demo_env_def SetName_def
      show_nat_2 Let_def)

lemma demo_env_fields [simp]: "bink_side (demo_env side) = side" "length (md5_buffer (md5_mem (demo_env side))) = 64"
  by (simp_all add: demo_env_def)

section \<open>Properties\<close>

text \<open>C18 A caller is served: one that announces an address the callout list knows and gives the
  password of its node, in plain text or as a CRAM-MD5 response, and is silent after that, is sent
  every packet of the file that waits for its node.\<close>

theorem login_is_served:
  assumes "bink_side env = ANSWERING" "length (md5_buffer (md5_mem env)) = 64"
    and "knows_caller env addresses password" "addresses \<noteq> []" "length addresses < 32767"
    and "reply = password_reply hashed password" "length reply < 32767" "hashed \<or> \<not> starts_with password ''CRAM''"
    and "name = network_name_from_single_address (StringLowerCase addresses)"
    and "node_number_from_address_list (StringLowerCase addresses) name = Inr node"
    and "network_dir (config env) name = Inr dir" "CreateTransferFileList env dir node fs = Inr [f]"
    and "fs (tf_path f) = Some c" "length c < 2 ^ 31"
  shows "set (file_packets f c) \<subseteq> set (sent (snd (run_loop env (start_state env)
    (new_bink (login_script addresses reply @ replicate (3 + length (file_chunks 0 c)) Late) fs))))"
  using assms by (rule login_served)

theorem login_is_served_witness:
  "set (file_packets demo_waiting ''hi'') \<subseteq> set (sent (snd (run_loop (demo_env ANSWERING) (start_state (demo_env ANSWERING))
    (new_bink (login_script demo_address ''PASS'' @ replicate (3 + length (file_chunks 0 ''hi'')) Late) [''/net/s2.net'' \<mapsto> ''hi'']))))"
  by (rule login_is_served [where hashed = False and password = "''PASS''" and name = "''wwivnet''" and node = 2 and dir = "''/net''"])
    (simp_all add: demo_knows demo_caller demo_dir demo_list password_reply_def starts_with_iff demo_waiting_def)

text \<open>C12 Nothing but commands leaves an answering system unless the
  session has been in the password check with the password, or the CRAM-MD5 response, of the node
  it took the peer for at that moment: whatever the peer does, and however the session ends.\<close>

theorem no_data_before_password:
  assumes "bink_side env = ANSWERING" "length (md5_buffer (md5_mem env)) = 64"
    and "run_loop env (start_state env) (new_bink script fs) = (r, s)"
    and "p \<in> set (sent s)" "\<nexists>c d. p = command_packet c d"
  shows "\<exists>t. reach env (new_bink script fs) PASSWORD_ACK t \<and> accepts env t"
proof -
  have "start_state env = WAIT_CONN" using assms(1) by (simp add: start_state_def)
  then have "guarded_session env (new_bink script fs) s"
    using run_loop_guarded [OF assms(1,2), of "new_bink script fs" WAIT_CONN "new_bink script fs"] assms(3)
      reach_start [of env "new_bink script fs"]
    by (simp add: before_transfer_def quiet_def new_bink_def)
  then show ?thesis using assms(4,5) unfolding guarded_session_def quiet_def by blast
qed

lemma data_not_command:
  assumes "length data < 2 ^ 15"
  shows "data_packet data \<noteq> command_packet c d"
proof
  assume eq: "data_packet data = command_packet c d"
  obtain c0 d0 where data: "data_packet data = c0 # d0 # data" "header_of c0 d0 = word_of_nat (length data)"
    using data_packet_eq [OF assms] by blast
  then have "header_of c0 d0 AND 0x8000 = 0" using header_counts(3) [OF assms] by (simp only:)
  then have "\<not> bit (header_of c0 d0 AND 0x8000) 15" by (simp only:) simp
  moreover have "bit (header_of c0 d0) 15"
    using command_packet_eq [of c d] data(1) word_15_bit eq by auto
  ultimately show False by (simp only: bit_and_iff masks_15 simp_thms)
qed

theorem no_data_before_password_witness:
  "\<exists>t. reach (demo_env ANSWERING) (new_bink (login_script demo_address ''PASS'' @ replicate (3 + length (file_chunks 0 ''hi'')) Late)
     [''/net/s2.net'' \<mapsto> ''hi'']) PASSWORD_ACK t \<and> accepts (demo_env ANSWERING) t"
proof -
  let ?s0 = "new_bink (login_script demo_address ''PASS'' @ replicate (3 + length (file_chunks 0 ''hi'')) Late) [''/net/s2.net'' \<mapsto> ''hi'']"
  obtain r s where run: "run_loop (demo_env ANSWERING) (start_state (demo_env ANSWERING)) ?s0 = (r, s)"
    by (cases "run_loop (demo_env ANSWERING) (start_state (demo_env ANSWERING)) ?s0")
  have "set (file_packets demo_waiting ''hi'') \<subseteq> set (sent (snd (run_loop (demo_env ANSWERING) (start_state (demo_env ANSWERING)) ?s0)))"
    by (rule login_served [where hashed = False and password = "''PASS''" and name = "''wwivnet''" and node = 2 and dir = "''/net''"])
      (simp_all add: demo_knows demo_caller demo_dir demo_list password_reply_def starts_with_iff demo_waiting_def)
  then have "set (file_packets demo_waiting ''hi'') \<subseteq> set (sent s)" by (simp only: run snd_conv)
  then have "data_packet ''hi'' \<in> set (sent s)" by (simp add: file_packets_def file_chunks_one)
  moreover have "\<nexists>c d. data_packet ''hi'' = command_packet c d" using data_not_command [of "''hi''"] by simp
  ultimately show ?thesis
    using no_data_before_password [OF _ _ run, of "data_packet ''hi''"] by simp
qed

text \<open>C25 The address can change after the check: a caller that has logged in with the password of its
  own node, then announces another address and is silent after that, is sent every packet of the file that waits
  for the node of the other address. Nothing is assumed of the password of that node, which was never asked for.\<close>

theorem readdress_after_password:
  assumes "bink_side env = ANSWERING" "length (md5_buffer (md5_mem env)) = 64"
    and "knows_caller env own password" "own \<noteq> []" "length own < 32767"
    and "reply = password_reply hashed password" "length reply < 32767" "hashed \<or> \<not> starts_with password ''CRAM''"
    and "other \<noteq> []" "length other < 32767" "name = network_name_from_single_address (StringLowerCase other)" "name \<noteq> []"
    and "node_number_from_address_list (StringLowerCase other) name = Inr node"
    and "network_dir (config env) name = Inr dir" "CreateTransferFileList env dir node fs = Inr [f]"
    and "fs (tf_path f) = Some c" "length c < 2 ^ 31"
  shows "set (file_packets f c) \<subseteq> set (sent (snd (run_loop env (start_state env)
    (new_bink (login_script own reply @ map Byte (command_packet M_ADR other) @ replicate (3 + length (file_chunks 0 c)) Late) fs))))"
proof -
  let ?r = "Late # Late # replicate (length (file_chunks 0 c)) Late"
  let ?adr = "map Byte (command_packet M_ADR other) @ Late # ?r"
  let ?s0 = "new_bink (login_script own reply @ ?adr) fs"
  obtain s where s: "reach env ?s0 PASSWORD_ACK s" "run_loop env WAIT_CONN ?s0 = run_loop env PASSWORD_ACK s" "accepts env s"
    "conn_open s" "\<not> error_received s" "inp s = ?adr" "disk s = fs" "files_to_send s = []"
    using login_state [OF assms(1-8), of ?adr fs] by blast
  obtain msg k where "PasswordAck env s = (Inr TRANSFER_FILES, s\<lparr>bink_cram := k, sent := sent s @ [command_packet M_OK msg]\<rparr>)"
    using PasswordAck_accepted [OF assms(2) s(3,4)] by blast
  then have ack: "run_state env PASSWORD_ACK s = (Inr TRANSFER_FILES, s\<lparr>bink_cram := k, sent := sent s @ [command_packet M_OK msg]\<rparr>)"
    by (simp add: run_state_def)
  let ?s1 = "s\<lparr>bink_cram := k, sent := sent s @ [command_packet M_OK msg]\<rparr>"
  let ?t = "?s1\<lparr>inp := Late # ?r, address_list := StringLowerCase other\<rparr>"
  have "turns env Never ?s1 = turns env Never ?t"
    using s(4,6) assms(9,10)
    by (intro turns_command_done [where name = "''M_ADR''" and c = M_ADR and data = other]) (simp_all add: command_names handle_ADR)
  then have "process_frames env Never ?s1 = (Inr True, ?t\<lparr>inp := ?r\<rparr>)"
    using s(4) by (intro process_frames_until_late) simp_all
  from run_turn(2) [OF s(1) ack _ _ this] s(5) have run: "run_loop env PASSWORD_ACK s = run_loop env TRANSFER_FILES (?t\<lparr>inp := ?r\<rparr>)" by simp
  have name: "remote_network_name env (?t\<lparr>inp := ?r\<rparr>) = name" using assms(1,11,12) by (simp add: remote_network_name_def)
  then have node: "remote_network_node env (?t\<lparr>inp := ?r\<rparr>) = Inr node" using assms(1,13) by (simp add: remote_network_node_def)
  have "run_loop env WAIT_CONN ?s0 = run_loop env TRANSFER_FILES (?t\<lparr>inp := ?r\<rparr>)" using s(2) run by simp
  from transfer_served [OF this, of node dir f c] node name assms(14-17) s(4,7,8) show ?thesis
    using assms(1) by (simp add: start_state_def numeral_3_eq_3)
qed

text \<open>The caller logs in as node 2 and is sent the file of node 3, whose password is another one.\<close>

lemma demo_other_caller:
  "network_name_from_single_address (StringLowerCase ''20000:20000/3@wwivnet'') = ''wwivnet''"
  "node_number_from_address_list (StringLowerCase ''20000:20000/3@wwivnet'') ''wwivnet'' = Inr 3"
  by code_simp+

lemma show_nat_3: "show_nat 3 = ''3''"
  by code_simp

lemma demo_other_list: "CreateTransferFileList (demo_env side) ''/net'' 3 [''/net/s3.net'' \<mapsto> ''hi'']
    = Inr [\<lparr>tf_name = ''s3.net'', tf_path = ''/net/s3.net'', tf_time = 0\<rparr>]"
  by (simp add: CreateTransferFileList_def EnsureTrailingSlash_def File_Exists_def demo_env_def SetName_def show_nat_3 Let_def)

theorem readdress_after_password_witness:
  "set (file_packets \<lparr>tf_name = ''s3.net'', tf_path = ''/net/s3.net'', tf_time = 0\<rparr> ''hi'') \<subseteq> set (sent (snd (run_loop (demo_env ANSWERING)
    (start_state (demo_env ANSWERING)) (new_bink (login_script demo_address ''PASS'' @ map Byte (command_packet M_ADR ''20000:20000/3@wwivnet'')
      @ replicate (3 + length (file_chunks 0 ''hi'')) Late) [''/net/s3.net'' \<mapsto> ''hi'']))))"
  by (rule readdress_after_password [where hashed = False and password = "''PASS''" and name = "''wwivnet''" and node = 3 and dir = "''/net''"])
    (simp_all add: demo_knows demo_other_caller demo_dir demo_other_list password_reply_def starts_with_iff)

text \<open>Files are taken before any password: a peer that offers a file as soon as it is connected
  has it stored in the directory of the network the system answers for, whatever name it announces
  later.\<close>

theorem upload_before_password:
  assumes "bink_side env = ANSWERING" "network_at (config_networks (config env)) (callout_network_name (config env)) = Inr net"
    and "plain_name (tf_name f)" "pathSeparatorChar \<notin> set (tf_name f)" "c \<noteq> []" "length c < 2 ^ 31"
    and "fs (SetName (net_dir net) (tf_name f)) = None"
  shows "\<exists>s. reach env (new_bink (Late # map Byte (concat (file_packets f c)) @ Late # r) fs) WAIT_ADDR s
    \<and> disk s = fs(SetName (net_dir net) (tf_name f) \<mapsto> c) \<and> received_files s = [tf_name f]
    \<and> remote_password s = [] \<and> address_list s = []"
proof -
  let ?in = "map Byte (concat (file_packets f c)) @ Late # r"
  let ?s0 = "new_bink (Late # ?in) fs"
  let ?path = "SetName (net_dir net) (tf_name f)"
  obtain P where "WaitConn env ?s0 = (Inr WAIT_ADDR, ?s0\<lparr>inp := ?in, sent := P, bink_cram := GenerateChallengeData (bink_cram ?s0)\<rparr>)"
    using WaitConn_late [OF assms(1), of ?s0 ?in] by (auto simp: new_bink_def)
  then have w: "run_state env WAIT_CONN ?s0 = (Inr WAIT_ADDR, ?s0\<lparr>inp := ?in, sent := P, bink_cram := GenerateChallengeData (bink_cram ?s0)\<rparr>)"
    by (simp add: run_state_def)
  let ?s1 = "?s0\<lparr>inp := ?in, sent := P, bink_cram := GenerateChallengeData (bink_cram ?s0)\<rparr>"
  let ?g = "\<lparr>rf_name = tf_name f, rf_path = ?path, rf_expected = int (length c), rf_time = tf_time f mod 2 ^ 32,
      rf_length = 0, rf_open = False, rf_pos = 0\<rparr>"
  let ?s2 = "?s1\<lparr>inp := Late # r, disk := (disk ?s1)(?path \<mapsto> c), current_receive_file := None,
    bytes_received := bytes_received ?s1 + word_of_nat (length c), received_files := received_files ?s1 @ [tf_name f],
    sent := sent ?s1 @ [command_packet M_GOT (got_line ?g (int (length c)))]\<rparr>"
  have "transfer_file_path env (remote_network_name env ?s1) (tf_name f) = Inr ?path"
    using assms(2,4) by (simp add: transfer_file_path_def remote_network_name_def network_name_from_single_address_def new_bink_def)
  then have "turns env Never ?s1 = turns env Never ?s2"
    using assms(3,5-7) by (intro turns_file_packets) (simp_all add: new_bink_def)
  then have frames: "process_frames env Never ?s1 = (Inr True, ?s2\<lparr>inp := r\<rparr>)"
    by (intro process_frames_until_late) (simp_all add: new_bink_def)
  have start: "reach env ?s0 WAIT_CONN ?s0" using reach_start [of env ?s0] assms(1) by (simp add: start_state_def)
  have "\<not> error_received ?s1" by (simp add: new_bink_def)
  from run_turn(1) [OF start w _ this frames] have "reach env ?s0 WAIT_ADDR (?s2\<lparr>inp := r\<rparr>)" by simp
  then show ?thesis by (intro exI [of _ "?s2\<lparr>inp := r\<rparr>"] conjI) (simp_all add: new_bink_def)
qed

theorem upload_before_password_witness:
  "\<exists>s. reach (demo_env ANSWERING) (new_bink (Late # map Byte (concat (file_packets demo_file ''hello'')) @ Late # []) Map.empty) WAIT_ADDR s
    \<and> disk s ''/net/s2.net'' = Some ''hello'' \<and> remote_password s = []"
proof -
  have "network_at (config_networks (config (demo_env ANSWERING))) (callout_network_name (config (demo_env ANSWERING)))
    = Inr \<lparr>net_type = 0, net_name = ''wwivnet'', net_dir = ''/net'', net_sysnum = 1\<rparr>"
    using demo_network_at [of ANSWERING] by (simp add: demo_env_def)
  from upload_before_password [OF _ this, of demo_file "''hello''" Map.empty "[]"] show ?thesis
    by (fastforce simp: demo_file_def plain_name_def NUL_def SetName_def)
qed

lemma bad_password_text:
  assumes "length received + length expected \<le> 900"
  shows "\<exists>pre post. bad_password_message received expected = pre @ c_str expected @ post"
proof -
  let ?pre = "''Password doen'' @ [CHR 0x27] @ ''t match.  Received '' @ [CHR 0x27] @ c_str received
       @ [CHR 0x27] @ '' expected '' @ [CHR 0x27]"
  let ?post = "[CHR 0x27] @ ''.''"
  have "length (?pre @ c_str expected @ ?post) \<le> 1023"
    using assms length_c_str [of received] length_c_str [of expected] by simp
  then have "bad_password_message received expected = ?pre @ c_str expected @ ?post"
    by (simp add: bad_password_message_def StringPrintf_def)
  then show ?thesis by blast
qed

text \<open>A refusal tells the caller the password: the error packet quotes what was expected.\<close>

theorem refusal_names_password:
  assumes "length (md5_buffer (md5_mem env)) = 64" "conn_open s" "\<not> accepts env s"
    and "remote_network_node env s = Inr node" "callouts env (remote_network_name env s) = Some callout"
    and "length (remote_password s) + length (expected_password_for callout node) \<le> 900"
    and "expected = c_str (expected_password_for callout node)"
  shows "\<exists>k pre post. PasswordAck env s =
    (Inr DONE, s\<lparr>bink_cram := k, sent := sent s @ [command_packet M_ERR (pre @ expected @ post)]\<rparr>)"
proof -
  let ?p = "expected_password_for callout node"
  have no: "\<not> fst (check_password env ?p s)"
    using assms(3-5) check_password_eq [OF assms(1)] unfolding accepts_def by blast
  have "\<exists>c. snd (check_password env ?p s) = s\<lparr>bink_cram := c\<rparr>"
    by (cases "bink_auth s") (auto simp: check_password_def case_prod_beta intro: exI [of _ "bink_cram s"])
  with no obtain c where chk: "check_password env ?p s = (False, s\<lparr>bink_cram := c\<rparr>)" by (metis prod.collapse)
  have "\<exists>pre post. bad_password_message (remote_password s) ?p = pre @ expected @ post"
    using bad_password_text [OF assms(6)] by (simp only: assms(7))
  then obtain pre post where "bad_password_message (remote_password s) ?p = pre @ expected @ post" by blast
  then show ?thesis
    using chk assms(2,4,5)
    by (intro exI [of _ c] exI [of _ pre] exI [of _ post])
      (simp add: PasswordAck_def bindm_def liftm_def callout_for_def answer_password_def Let_def seqm_send returnm_def)
qed

text \<open>A caller that gives the wrong password as node 2 is told \<open>PASS\<close>.\<close>

theorem refusal_names_password_witness:
  "\<exists>s k pre post. PasswordAck (demo_env ANSWERING) s =
    (Inr DONE, s\<lparr>bink_cram := k, sent := sent s @ [command_packet M_ERR (pre @ ''PASS'' @ post)]\<rparr>)"
proof -
  let ?s = "new_bink [] Map.empty\<lparr>address_list := StringLowerCase demo_address, remote_password := ''X''\<rparr>"
  have name: "remote_network_name (demo_env ANSWERING) ?s = ''wwivnet''"
    using demo_caller(1) by (simp add: remote_network_name_def)
  have node: "remote_network_node (demo_env ANSWERING) ?s = Inr 2"
    using demo_caller(2) name by (simp add: remote_network_node_def)
  have callout: "callouts (demo_env ANSWERING) (remote_network_name (demo_env ANSWERING) ?s) = Some demo_callouts"
    unfolding name by (simp add: demo_env_def)
  have "\<not> accepts (demo_env ANSWERING) ?s"
    unfolding accepts_def node callout using demo_caller(3) by (simp add: new_bink_def)
  from refusal_names_password [OF _ _ this node callout, of "''PASS''"] demo_caller(3) show ?thesis
    by (fastforce simp: new_bink_def c_str_def NUL_def)
qed

end
