(* ===== verification/Net_Log.thy ===== *)
theory Net_Log
  imports Core_TextFile Core_Path
begin

text \<open>
  \<open>networkb/net_log.cpp\<close>: \<open>net.log\<close>, one line for each session, the newest first. \<open>localtime\<close>,
  which depends on the time zone, and the printing of the minutes as a \<open>float\<close> (\<open>%4.1f\<close>) are
  arguments.
\<close>

record tm =
  tm_mon :: nat
  tm_mday :: nat
  tm_year :: nat
  tm_hour :: nat
  tm_min :: nat
  tm_sec :: nat

datatype network_side = FROM | TO

definition pad :: "char \<Rightarrow> nat \<Rightarrow> string \<Rightarrow> string" where
  "pad c n s = replicate (n - length s) c @ s"

abbreviation two_digits :: "nat \<Rightarrow> string" where
  "two_digits n \<equiv> pad (CHR ''0'') 2 (show_nat n)"

definition date_time :: "tm \<Rightarrow> string" where
  "date_time t = two_digits (tm_mon t + 1) @ ''/'' @ two_digits (tm_mday t) @ ''/'' @ two_digits (tm_year t mod 100)
     @ '' '' @ two_digits (tm_hour t) @ '':'' @ two_digits (tm_min t) @ '':'' @ two_digits (tm_sec t)"

text \<open>Bytes as kilobytes: an \<open>unsigned\<close> sum, which wraps for the last kilobyte.\<close>

definition kilobytes :: "u32 \<Rightarrow> string" where
  "kilobytes n = pad (CHR '' '') 4 (show_nat (unat ((n + 1023) div 1024))) @ ''k''"

text \<open>One session; \<open>node\<close> is narrowed to 16 bits by the call.\<close>

record log_entry =
  log_time :: int
  log_side :: network_side
  log_node :: int
  log_sent :: u32
  log_received :: u32
  log_seconds :: int
  log_network :: string

definition CreateLogLine :: "(int \<Rightarrow> tm) \<Rightarrow> (int \<Rightarrow> string) \<Rightarrow> log_entry \<Rightarrow> string" where
  "CreateLogLine localtime minutes e =
     date_time (localtime (log_time e)) @ '' '' @ (if log_side e = FROM then ''Fr '' else ''To '')
     @ pad (CHR '' '') 5 (show_int (sint (word_of_int (log_node e) :: 16 word)))
     @ '', S:'' @ kilobytes (log_sent e) @ '', R:'' @ kilobytes (log_received e)
     @ ''          '' @ '' '' @ minutes (log_seconds e) @ '' min '' @ '' '' @ log_network e"

definition GetContents :: "string \<Rightarrow> disk \<Rightarrow> cpp_error + string" where
  "GetContents gfiles_directory fs =
     bind_res (FilePath gfiles_directory ''net.log'') (\<lambda>path.
       Inr (case fs path of None \<Rightarrow> [] | Some c \<Rightarrow> ReadFileIntoString c))"

definition Log :: "(int \<Rightarrow> tm) \<Rightarrow> (int \<Rightarrow> string) \<Rightarrow> string \<Rightarrow> log_entry \<Rightarrow> disk \<Rightarrow> cpp_error + disk" where
  "Log localtime minutes gfiles_directory e fs =
     bind_res (GetContents gfiles_directory fs) (\<lambda>previous_contents.
     bind_res (FilePath gfiles_directory ''net.log'') (\<lambda>path.
       Inr (fs(path \<mapsto> snd (WriteLine (CreateLogLine localtime minutes e) []) @ c_str previous_contents))))"

fun log_all :: "(int \<Rightarrow> tm) \<Rightarrow> (int \<Rightarrow> string) \<Rightarrow> string \<Rightarrow> log_entry list \<Rightarrow> disk \<Rightarrow> cpp_error + disk" where
  "log_all localtime minutes dir [] fs = Inr fs"
| "log_all localtime minutes dir (e # es) fs = bind_res (Log localtime minutes dir e fs) (log_all localtime minutes dir es)"

lemma c_str_lines:
  assumes "NUL \<notin> set old"
  shows "c_str (concat (map (\<lambda>l. c_str l @ [newline]) ls) @ old) = concat (map (\<lambda>l. c_str l @ [newline]) ls) @ old"
proof -
  have "NUL \<noteq> newline" by (simp add: NUL_def)
  then show ?thesis using assms by (intro c_str_id) auto
qed

lemma log_all_contents:
  assumes "fs path = Some (concat (map (\<lambda>l. c_str l @ [newline]) ls) @ old)" "NUL \<notin> set old" "FilePath dir ''net.log'' = Inr path"
  shows "\<exists>fs1. log_all localtime minutes dir es fs = Inr fs1 \<and> (\<forall>p. p \<noteq> path \<longrightarrow> fs1 p = fs p)
    \<and> fs1 path = Some (concat (map (\<lambda>l. c_str l @ [newline]) (rev (map (CreateLogLine localtime minutes) es) @ ls)) @ old)"
  using assms(1)
proof (induction es arbitrary: fs ls)
  case (Cons e es)
  let ?l = "CreateLogLine localtime minutes e"
  let ?fs1 = "fs(path \<mapsto> concat (map (\<lambda>l. c_str l @ [newline]) (?l # ls)) @ old)"
  have "Log localtime minutes dir e fs = Inr ?fs1"
    using Cons.prems c_str_lines [OF assms(2)] by (simp add: Log_def GetContents_def assms(3) ReadFileIntoString_def WriteLine_def)
  moreover obtain fs1 where "log_all localtime minutes dir es ?fs1 = Inr fs1" "\<forall>p. p \<noteq> path \<longrightarrow> fs1 p = ?fs1 p"
    "fs1 path = Some (concat (map (\<lambda>l. c_str l @ [newline]) (rev (map (CreateLogLine localtime minutes) es) @ ?l # ls)) @ old)"
    using Cons.IH [of ?fs1 "?l # ls"] by (metis fun_upd_same)
  ultimately show ?case by (intro exI [of _ fs1]) simp
qed simp

text \<open>C30 Sessions logged one after the other stand in the log newest first, above what was there
  before, one line each; no other file changes.\<close>

theorem net_log_newest_first:
  assumes "dir \<noteq> []" "NUL \<notin> set old" "FilePath dir ''net.log'' = Inr path" "fs path = Some old"
  shows "\<exists>fs1. log_all localtime minutes dir es fs = Inr fs1 \<and> (\<forall>p. p \<noteq> path \<longrightarrow> fs1 p = fs p)
    \<and> GetContents dir fs1 = Inr (concat (map (\<lambda>e. c_str (CreateLogLine localtime minutes e) @ [newline]) (rev es)) @ old)"
  using log_all_contents [of fs path "[]" old dir localtime minutes es] assms(2-4)
  by (auto simp: GetContents_def ReadFileIntoString_def comp_def rev_map)

theorem net_log_newest_first_witness:
  "\<exists>fs1 l1 l2. log_all (\<lambda>_. \<lparr>tm_mon = 0, tm_mday = 3, tm_year = 115, tm_hour = 20, tm_min = 26, tm_sec = 5\<rparr>) (\<lambda>_. '' 0.1'') ''/gfiles''
      [\<lparr>log_time = 0, log_side = TO, log_node = 1, log_sent = 2048, log_received = 1, log_seconds = 6, log_network = ''a''\<rparr>,
       \<lparr>log_time = 9, log_side = FROM, log_node = 2, log_sent = 0, log_received = 0, log_seconds = 6, log_network = ''b''\<rparr>]
      [''/gfiles/net.log'' \<mapsto> ''old''] = Inr fs1
    \<and> GetContents ''/gfiles'' fs1 = Inr (l2 @ [newline] @ l1 @ [newline] @ ''old'')"
  using net_log_newest_first [of "''/gfiles''" "''old''" "''/gfiles/net.log''" "[''/gfiles/net.log'' \<mapsto> ''old'']"
      "\<lambda>_. \<lparr>tm_mon = 0, tm_mday = 3, tm_year = 115, tm_hour = 20, tm_min = 26, tm_sec = 5\<rparr>" "\<lambda>_. '' 0.1''"
      "[\<lparr>log_time = 0, log_side = TO, log_node = 1, log_sent = 2048, log_received = 1, log_seconds = 6, log_network = ''a''\<rparr>,
       \<lparr>log_time = 9, log_side = FROM, log_node = 2, log_sent = 0, log_received = 0, log_seconds = 6, log_network = ''b''\<rparr>]"]
  by (force simp: NUL_def FilePath_def)

end
