(* ===== verification/Sdk_Contact.thy ===== *)
theory Sdk_Contact
  imports Core_File Core_Path
begin

text \<open>
  \<open>sdk/contact.cpp\<close>: \<open>CONTACT.NET\<close>, what a system knows about the systems it has been connected
  to. The object holds the records of the file; \<open>initialized_\<close> has no value (\<open>None\<close>) when the
  file did not open, since no constructor sets it then.

  The lemmas show what a history of connections and failures makes of the record of every node, and
  that what is saved is what is loaded.
\<close>

section \<open>The file\<close>

record net_contact_rec =
  systemnumber :: u16
  numcontacts :: u16
  numfails :: u16
  firstcontact :: u32
  lastcontact :: u32
  lastcontactsent :: u32
  lasttry :: u32
  contact_bytes_received :: u32
  contact_bytes_sent :: u32
  bytes_waiting :: u32

definition enc_contact :: "net_contact_rec \<Rightarrow> bytes" where
  "enc_contact c = enc_u16 (systemnumber c) @ enc_u16 (numcontacts c) @ enc_u16 (numfails c)
     @ enc_u32 (firstcontact c) @ enc_u32 (lastcontact c) @ enc_u32 (lastcontactsent c) @ enc_u32 (lasttry c)
     @ enc_u32 (contact_bytes_received c) @ enc_u32 (contact_bytes_sent c) @ enc_u32 (bytes_waiting c)"

definition dec_contact :: "bytes \<Rightarrow> net_contact_rec" where
  "dec_contact b = \<lparr>systemnumber = dec_u16 (read_at 0 2 b), numcontacts = dec_u16 (read_at 2 2 b),
     numfails = dec_u16 (read_at 4 2 b), firstcontact = dec_u32 (read_at 6 4 b), lastcontact = dec_u32 (read_at 10 4 b),
     lastcontactsent = dec_u32 (read_at 14 4 b), lasttry = dec_u32 (read_at 18 4 b),
     contact_bytes_received = dec_u32 (read_at 22 4 b), contact_bytes_sent = dec_u32 (read_at 26 4 b),
     bytes_waiting = dec_u32 (read_at 30 4 b)\<rparr>"

interpretation contact_codec: record_codec enc_contact dec_contact "\<lambda>_. True" 34
proof unfold_locales
  show "length (enc_contact r) = 34" "dec_contact (enc_contact r) = r" for r
    by (simp_all add: enc_contact_def dec_contact_def read_at_def)
  show "enc_contact (dec_contact b) = b" if "length b = 34" for b
    using that by (simp add: enc_contact_def dec_contact_def enc_dec_u16 enc_dec_u32 length_read_at read_at_last read_at_append_drop)
qed simp_all

section \<open>The list\<close>

record contact =
  contact_dir :: string
  save_on_destructor :: bool
  contacts :: "net_contact_rec list"
  contact_initialized :: "bool option"

abbreviation CONTACT_NET :: string where
  "CONTACT_NET \<equiv> ''contact.net''"

definition Contact :: "string \<Rightarrow> bool \<Rightarrow> disk \<Rightarrow> cpp_error + contact" where
  "Contact network_dir save fs =
     (let c = \<lparr>contact_dir = network_dir, save_on_destructor = save, contacts = [], contact_initialized = None\<rparr>
      in bind_res (FilePath network_dir CONTACT_NET) (\<lambda>path.
         case fs path of
           None \<Rightarrow> Inr c
         | Some b \<Rightarrow>
             (let f = opened b
              in Inr (c\<lparr>contacts := (if 0 < DataFile_number_of_records 34 f
                                 then (case fst (DataFile_ReadVector dec_contact 34 0 f) of None \<Rightarrow> [] | Some cs \<Rightarrow> cs)
                                 else []),
                   contact_initialized := Some True\<rparr>))))"

definition Contact_of_list :: "net_contact_rec list \<Rightarrow> contact" where
  "Contact_of_list l = \<lparr>contact_dir = [], save_on_destructor = False, contacts = l, contact_initialized = Some True\<rparr>"

text \<open>\<open>Save\<close> reads \<open>initialized_\<close>; the file is created or truncated before the list is looked at. Whether it can be
  opened for writing is the first argument.\<close>

definition Save :: "bool \<Rightarrow> contact \<Rightarrow> disk \<Rightarrow> cpp_error + bool \<times> disk" where
  "Save opens c fs =
     (case contact_initialized c of
        None \<Rightarrow> Inl UndefinedBehaviour
      | Some False \<Rightarrow> Inr (False, fs)
      | Some True \<Rightarrow>
          if contact_dir c = [] then Inr (False, fs)
          else bind_res (FilePath (contact_dir c) CONTACT_NET) (\<lambda>path.
               if \<not> opens then Inr (False, fs)
               else if contacts c = [] then Inr (False, fs(path \<mapsto> []))
               else Inr (True, fs(path \<mapsto> contents (DataFile_WriteVector enc_contact 0 (contacts c) (opened []))))))"

definition destroy_contact :: "bool \<Rightarrow> contact \<Rightarrow> disk \<Rightarrow> cpp_error + disk" where
  "destroy_contact opens c fs = (if save_on_destructor c then map_sum id snd (Save opens c fs) else Inr fs)"

text \<open>\<open>contact_rec_for\<close> returns a pointer into the list: its index here.\<close>

fun contact_rec_for :: "net_contact_rec list \<Rightarrow> int \<Rightarrow> nat option" where
  "contact_rec_for [] node = None"
| "contact_rec_for (c # cs) node =
     (if uint (systemnumber c) = node then Some 0 else map_option Suc (contact_rec_for cs node))"

definition add_contact :: "int \<Rightarrow> net_contact_rec \<Rightarrow> net_contact_rec" where
  "add_contact time c =
     (let time32 = word_of_int time;
          c1 = c\<lparr>lasttry := time32, lastcontact := time32, numcontacts := numcontacts c + 1\<rparr>
      in if firstcontact c1 = 0 then c1\<lparr>firstcontact := time32\<rparr> else c1)"

definition connected :: "int \<Rightarrow> u32 \<Rightarrow> u32 \<Rightarrow> net_contact_rec \<Rightarrow> net_contact_rec" where
  "connected time sent received c0 =
     (let c = add_contact time c0;
          c1 = (if 0 < sent then c\<lparr>lastcontactsent := word_of_int time, bytes_waiting := 0, contact_bytes_sent := contact_bytes_sent c + sent\<rparr>
                else c)
      in c1\<lparr>contact_bytes_received := contact_bytes_received c1 + received\<rparr>)"

definition failed :: "int \<Rightarrow> net_contact_rec \<Rightarrow> net_contact_rec" where
  "failed time c0 = (let c = add_contact time c0 in c\<lparr>numfails := numfails c + 1\<rparr>)"

definition update_node :: "int \<Rightarrow> (net_contact_rec \<Rightarrow> net_contact_rec) \<Rightarrow> contact \<Rightarrow> contact" where
  "update_node node f c =
     (case contact_rec_for (contacts c) node of
        None \<Rightarrow> c
      | Some i \<Rightarrow> c\<lparr>contacts := (contacts c)[i := f (contacts c ! i)]\<rparr>)"

definition add_connect :: "int \<Rightarrow> int \<Rightarrow> u32 \<Rightarrow> u32 \<Rightarrow> contact \<Rightarrow> contact" where
  "add_connect node time sent received c = update_node node (connected time sent received) c"

definition add_failure :: "int \<Rightarrow> int \<Rightarrow> contact \<Rightarrow> contact" where
  "add_failure node time c = update_node node (failed time) c"

section \<open>What the updates do\<close>

lemma contact_rec_for_None: "contact_rec_for cs node = None \<longleftrightarrow> (\<forall>c \<in> set cs. uint (systemnumber c) \<noteq> node)"
  by (induction cs) auto

lemma contact_rec_for_Some:
  "contact_rec_for cs node = Some i \<Longrightarrow>
    i < length cs \<and> uint (systemnumber (cs ! i)) = node \<and> (\<forall>j < i. uint (systemnumber (cs ! j)) \<noteq> node)"
proof (induction cs arbitrary: i)
  case (Cons c cs)
  show ?case
  proof (cases "uint (systemnumber c) = node")
    case False
    with Cons.prems obtain k where "contact_rec_for cs node = Some k" "i = Suc k" by auto
    with Cons.IH False show ?thesis by (auto simp: less_Suc_eq_0_disj)
  qed (use Cons.prems in auto)
qed simp

lemma systemnumber_updates [simp]: "systemnumber (connected t s r c) = systemnumber c" "systemnumber (failed t c) = systemnumber c"
  by (simp_all add: connected_def failed_def add_contact_def Let_def)

text \<open>The first record of each node, as the map a list stands for.\<close>

definition contact_map :: "contact \<Rightarrow> int \<Rightarrow> net_contact_rec option" where
  "contact_map c node = map_option ((!) (contacts c)) (contact_rec_for (contacts c) node)"

lemma contact_rec_for_update:
  assumes "i < length cs" "systemnumber c = systemnumber (cs ! i)"
  shows "contact_rec_for (cs[i := c]) node = contact_rec_for cs node"
  using assms
proof (induction cs arbitrary: i)
  case (Cons d cs i)
  then show ?case by (cases i) auto
qed simp

lemma contact_map_update:
  assumes "\<And>c. systemnumber (f c) = systemnumber c"
  shows "contact_map (update_node node f c) = (contact_map c)(node := map_option f (contact_map c node))"
proof (cases "contact_rec_for (contacts c) node")
  case None
  then show ?thesis by (auto simp: update_node_def contact_map_def fun_eq_iff)
next
  case (Some i)
  note found = contact_rec_for_Some [OF Some]
  have "contact_rec_for ((contacts c)[i := f (contacts c ! i)]) n = contact_rec_for (contacts c) n" for n
    using found assms by (intro contact_rec_for_update) auto
  then have upd: "contact_map (update_node node f c) n
      = map_option ((!) ((contacts c)[i := f (contacts c ! i)])) (contact_rec_for (contacts c) n)" for n
    using Some by (simp add: update_node_def contact_map_def)
  show ?thesis
  proof (rule ext)
    fix n
    show "contact_map (update_node node f c) n = ((contact_map c)(node := map_option f (contact_map c node))) n"
    proof (cases "n = node")
      case True
      then show ?thesis using Some found unfolding upd by (simp add: contact_map_def)
    next
      case False
      have "(contacts c)[i := f (contacts c ! i)] ! j = contacts c ! j" if "contact_rec_for (contacts c) n = Some j" for j
        using contact_rec_for_Some [OF that] found False by (cases "i = j") auto
      then show ?thesis
        using False unfolding upd by (cases "contact_rec_for (contacts c) n") (simp_all add: contact_map_def)
    qed
  qed
qed

section \<open>Histories\<close>

text \<open>Connections and failures, in the order in which they happen.\<close>

datatype contact_event =
    Connection int int u32 u32
  | Failure int int

fun record_event :: "contact_event \<Rightarrow> contact \<Rightarrow> contact" where
  "record_event (Connection node time sent received) c = add_connect node time sent received c"
| "record_event (Failure node time) c = add_failure node time c"

fun event_node :: "contact_event \<Rightarrow> int" where
  "event_node (Connection node time sent received) = node" | "event_node (Failure node time) = node"

fun event_time :: "contact_event \<Rightarrow> u32" where
  "event_time (Connection node time sent received) = word_of_int time" | "event_time (Failure node time) = word_of_int time"

fun event_sent :: "contact_event \<Rightarrow> u32" where
  "event_sent (Connection node time sent received) = sent" | "event_sent (Failure node time) = 0"

fun event_received :: "contact_event \<Rightarrow> u32" where
  "event_received (Connection node time sent received) = received" | "event_received (Failure node time) = 0"

fun is_failure :: "contact_event \<Rightarrow> bool" where
  "is_failure (Connection node time sent received) \<longleftrightarrow> False" | "is_failure (Failure node time) \<longleftrightarrow> True"

definition events_of :: "int \<Rightarrow> contact_event list \<Rightarrow> contact_event list" where
  "events_of node es = filter (\<lambda>e. event_node e = node) es"

text \<open>The record of a node with the history \<open>es\<close>, in totals; \<open>0\<close> is a time that was never set.\<close>

definition with_history :: "contact_event list \<Rightarrow> net_contact_rec \<Rightarrow> net_contact_rec" where
  "with_history es r =
     \<lparr>systemnumber = systemnumber r, numcontacts = numcontacts r + word_of_nat (length es),
      numfails = numfails r + word_of_nat (length (filter is_failure es)),
      firstcontact = (case filter (\<lambda>t. t \<noteq> 0) (firstcontact r # map event_time es) of [] \<Rightarrow> 0 | t # _ \<Rightarrow> t),
      lastcontact = last (lastcontact r # map event_time es),
      lastcontactsent = last (lastcontactsent r # map event_time (filter (\<lambda>e. event_sent e \<noteq> 0) es)),
      lasttry = last (lasttry r # map event_time es),
      contact_bytes_received = contact_bytes_received r + sum_list (map event_received es),
      contact_bytes_sent = contact_bytes_sent r + sum_list (map event_sent es),
      bytes_waiting = (if \<exists>e \<in> set es. event_sent e \<noteq> 0 then 0 else bytes_waiting r)\<rparr>"

lemma record_event_map:
  "contact_map (record_event e c) node
    = (if node = event_node e then map_option (with_history [e]) (contact_map c node) else contact_map c node)"
proof (cases e)
  case (Connection n t sent received)
  have "connected t sent received r = with_history [e] r" for r
    by (cases r; cases "firstcontact r = 0"; cases "sent = 0")
      (auto simp add: Connection connected_def add_contact_def with_history_def Let_def word_gt_0)
  then have "connected t sent received = with_history [e]" by (rule ext)
  then show ?thesis using contact_map_update [of "connected t sent received" n c, OF systemnumber_updates(1)] by (simp add: Connection add_connect_def)
next
  case (Failure n t)
  have "failed t r = with_history [e] r" for r
    by (cases r; cases "firstcontact r = 0") (auto simp add: Failure failed_def add_contact_def with_history_def Let_def)
  then have "failed t = with_history [e]" by (rule ext)
  then show ?thesis using contact_map_update [of "failed t" n c, OF systemnumber_updates(2)] by (simp add: Failure add_failure_def)
qed

lemma with_history_Cons: "with_history es (with_history [e] r) = with_history (e # es) r"
  by (auto simp: with_history_def add.assoc)

lemma with_history_Nil: "with_history [] r = r"
  by (cases r) (simp add: with_history_def)

lemma history_map: "contact_map (fold record_event es c) node = map_option (with_history (events_of node es)) (contact_map c node)"
proof (induction es arbitrary: c)
  case Nil
  then show ?case by (simp add: events_of_def with_history_Nil [abs_def] option.map_ident)
next
  case (Cons e es)
  show ?case
  proof (cases "event_node e = node")
    case True
    then show ?thesis
      using Cons.IH [of "record_event e c"] record_event_map [of e c node]
      by (simp add: events_of_def option.map_comp comp_def with_history_Cons [where es = "filter (\<lambda>e. event_node e = node) es" and e = e])
  next
    case False
    then show ?thesis using Cons.IH [of "record_event e c"] record_event_map [of e c node] by (simp add: events_of_def)
  qed
qed

lemma record_event_fields:
  "contact_dir (record_event e c) = contact_dir c" "contact_initialized (record_event e c) = contact_initialized c"
  "length (contacts (record_event e c)) = length (contacts c)"
  by (cases e; auto simp: add_connect_def add_failure_def update_node_def split: option.split)+

lemma history_fields:
  "contact_dir (fold record_event es c) = contact_dir c" "contact_initialized (fold record_event es c) = contact_initialized c"
  "length (contacts (fold record_event es c)) = length (contacts c)"
  by (induction es arbitrary: c) (simp_all add: record_event_fields)

lemma saved_is_loaded:
  assumes "FilePath (contact_dir c) CONTACT_NET = Inr path" "contacts c \<noteq> []" "contact_initialized c = Some True"
  shows "\<exists>fs1 c1. Save True c fs = Inr (True, fs1) \<and> Contact (contact_dir c) b fs1 = Inr c1 \<and> contacts c1 = contacts c
    \<and> (\<forall>p. p \<noteq> path \<longrightarrow> fs1 p = fs p)"
proof -
  let ?b = "contents (DataFile_WriteVector enc_contact 0 (contacts c) (opened []))"
  let ?fs1 = "fs(path \<mapsto> ?b)"
  have "fst (DataFile_ReadVector dec_contact 34 0 (opened ?b)) = Some (contacts c)"
    by (rule contact_codec.DataFile_WriteVector_ReadVector) simp
  moreover have "0 < DataFile_number_of_records 34 (opened ?b)"
  proof (rule ccontr)
    assume "\<not> 0 < DataFile_number_of_records 34 (opened ?b)"
    with calculation assms(2) show False by (simp add: DataFile_ReadVector_def Let_def)
  qed
  ultimately have "\<exists>c1. Contact (contact_dir c) b ?fs1 = Inr c1 \<and> contacts c1 = contacts c"
    using assms(1) by (simp add: Contact_def Let_def)
  moreover have "Save True c fs = Inr (True, ?fs1)"
    using assms by (auto simp: Save_def FilePath_def split: if_splits)
  ultimately show ?thesis by (intro exI [of _ ?fs1]) auto
qed

section \<open>Properties\<close>

text \<open>C28 The list keeps the history of every node. After any sequence of connections and failures the record of a node
  has counted all of them and, apart, the failures; its totals have grown by the bytes sent and received with it, modulo
  2 to the 32; its first contact is the first time that was not 0, its last contact and try the time of the last of them, the
  last contact with data the time of the last connection that sent something; and nothing waits any more if one did. A node
  without a record gets none, events of other nodes change nothing, and the list that is saved is the list that is loaded.
  A connection leaves the number of failures as it is and a failure counts as a contact, other than \<open>net.h\<close> describes it.\<close>

theorem contact_updates:
  assumes "FilePath (contact_dir c) CONTACT_NET = Inr path" "contacts c \<noteq> []" "contact_initialized c = Some True"
  shows "(\<forall>node. contact_map (fold record_event es c) node = map_option (\<lambda>r.
       \<lparr>systemnumber = systemnumber r, numcontacts = numcontacts r + word_of_nat (length (events_of node es)),
        numfails = numfails r + word_of_nat (length (filter is_failure (events_of node es))),
        firstcontact = (case filter (\<lambda>t. t \<noteq> 0) (firstcontact r # map event_time (events_of node es)) of [] \<Rightarrow> 0 | t # _ \<Rightarrow> t),
        lastcontact = last (lastcontact r # map event_time (events_of node es)),
        lastcontactsent = last (lastcontactsent r # map event_time (filter (\<lambda>e. event_sent e \<noteq> 0) (events_of node es))),
        lasttry = last (lasttry r # map event_time (events_of node es)),
        contact_bytes_received = contact_bytes_received r + sum_list (map event_received (events_of node es)),
        contact_bytes_sent = contact_bytes_sent r + sum_list (map event_sent (events_of node es)),
        bytes_waiting = (if \<exists>e \<in> set (events_of node es). event_sent e \<noteq> 0 then 0 else bytes_waiting r)\<rparr>) (contact_map c node))
    \<and> (\<exists>fs1 c1. Save True (fold record_event es c) fs = Inr (True, fs1) \<and> Contact (contact_dir c) b fs1 = Inr c1
        \<and> contacts c1 = contacts (fold record_event es c) \<and> (\<forall>p. p \<noteq> path \<longrightarrow> fs1 p = fs p))"
proof -
  have "contacts (fold record_event es c) \<noteq> []" using assms(2) history_fields(3) [of es c] by auto
  from saved_is_loaded [of "fold record_event es c", OF _ this] assms history_map [of es c]
  show ?thesis by (simp add: history_fields with_history_def [abs_def])
qed

definition demo_contact :: net_contact_rec where
  "demo_contact = \<lparr>systemnumber = 2, numcontacts = 0, numfails = 1, firstcontact = 0, lastcontact = 0, lastcontactsent = 0,
     lasttry = 0, contact_bytes_received = 0xffffffff, contact_bytes_sent = 5, bytes_waiting = 9\<rparr>"

theorem contact_updates_witness:
  "contact_map (fold record_event [Failure 2 70, Connection 3 75 4 4, Connection 2 77 1 3, Connection 2 80 0 0]
      \<lparr>contact_dir = ''/net'', save_on_destructor = True, contacts = [demo_contact], contact_initialized = Some True\<rparr>) 2
    = Some \<lparr>systemnumber = 2, numcontacts = 3, numfails = 2, firstcontact = 70, lastcontact = 80, lastcontactsent = 77,
        lasttry = 80, contact_bytes_received = 2, contact_bytes_sent = 6, bytes_waiting = 0\<rparr>"
proof -
  let ?c = "\<lparr>contact_dir = ''/net'', save_on_destructor = True, contacts = [demo_contact], contact_initialized = Some True\<rparr>"
  have c: "contact_map ?c 2 = Some demo_contact" by (simp add: contact_map_def demo_contact_def)
  have "FilePath (contact_dir ?c) CONTACT_NET = Inr ''/net/contact.net''" by (simp add: FilePath_def)
  from contact_updates [OF this, of "[Failure 2 70, Connection 3 75 4 4, Connection 2 77 1 3, Connection 2 80 0 0]" Map.empty True] c
  show ?thesis by (simp add: events_of_def demo_contact_def)
qed

end
