(* ===== verification/Core_FindFile.thy ===== *)
theory Core_FindFile
  imports Core_Path
begin

text \<open>
  \<open>core/wfndfile_unix.cpp\<close>: searching a directory for names that fit a pattern, in two ways. A
  pattern with a star among its first eight characters and a dot is expanded to the twelve
  characters of a DOS name and each name is padded to one; any other pattern is compared with a
  name character by character over \<open>PATH_MAX\<close> positions.

  The directory is an argument: what \<open>scandir\<close> reads, without the order, \<open>None\<close> when it cannot be
  read. Writing or reading past an array whose contents decide the result is
  \<open>Inl UndefinedBehaviour\<close>. The type mask is not used: the code tests a static variable that is
  never set.
\<close>

definition PATH_MAX :: nat where
  "PATH_MAX = 4096"

section \<open>The parts of a pattern\<close>

definition getdir_from_file :: "string \<Rightarrow> cpp_error + string" where
  "getdir_from_file path =
     (case find_last_of path (CHR ''/'') of
        None \<Rightarrow> Inr ''./''
      | Some i \<Rightarrow> if 256 \<le> length path then Inl UndefinedBehaviour
                   else Inr (if take i path = [] then ''./'' else take i path))"

definition after_separator :: "string \<Rightarrow> string" where
  "after_separator path = rev (takeWhile (\<lambda>c. c \<noteq> CHR 0x5C \<and> c \<noteq> CHR '':'' \<and> c \<noteq> CHR ''/'') (rev path))"

definition strip_filename :: "string \<Rightarrow> cpp_error + string" where
  "strip_filename path =
     (let temp = after_separator path;
          name = filter (\<lambda>c. c \<noteq> CHR '' '') (map tolower temp)
      in if PATH_MAX \<le> length temp \<or> 15 \<le> length name then Inl UndefinedBehaviour else Inr name)"

section \<open>The expanded pattern\<close>

text \<open>The loop over the pattern; the position after the next dot, or the end, where a star
  is met.\<close>

function spec_loop :: "string \<Rightarrow> nat \<Rightarrow> string \<Rightarrow> bool \<Rightarrow> cpp_error + string \<times> bool" where
  "spec_loop name i spec dos =
     (if i < length name then
        (if name ! i = CHR ''*'' then
           (let skip = length (takeWhile (\<lambda>c. c \<noteq> CHR ''.'') (drop (Suc i) name))
            in if i < 8 \<and> CHR ''.'' \<in> set name
               then (if CHR ''.'' \<notin> set (drop (Suc i) name) then Inl UndefinedBehaviour
                     else spec_loop name (Suc i + skip) (spec @ replicate (8 - i) (CHR ''?'')) True)
               else if CHR ''.'' \<in> set (drop (Suc i) name)
               then spec_loop name (Suc (Suc i + skip)) (spec @ replicate (Suc skip) (CHR ''?'') @ ''.'') dos
               else Inr (spec @ replicate (PATH_MAX - i) (CHR ''?''), dos))
         else spec_loop name (Suc i) (spec @ [name ! i]) dos)
      else Inr (spec, dos))"
  by pat_completeness auto
termination
  by (relation "measure (\<lambda>(name, i, spec, dos). length name - i)") auto

declare spec_loop.simps [simp del]

definition overlay :: "nat \<Rightarrow> string \<Rightarrow> string \<Rightarrow> string" where
  "overlay k new s = (let t = s @ replicate (k + length new - length s) NUL in take k t @ new @ drop (k + length new) t)"

definition file_spec :: "string \<Rightarrow> cpp_error + string \<times> bool" where
  "file_spec name =
     (if IsEquals name ''*.*'' \<or> IsEquals name ''*'' then Inr (replicate PATH_MAX (CHR ''?''), False)
      else bind_res (spec_loop name 0 [] False) (\<lambda>(spec, dos).
        let f = length spec;
            spec1 = (if CHR ''.'' \<notin> set spec \<and> f < PATH_MAX then spec @ replicate (PATH_MAX - f) (CHR ''?'') else spec);
            spec2 = (if find_sub ''.*'' name \<noteq> None \<and> dos then overlay 9 ''???'' spec1 else spec1);
            spec3 = (if length (c_str spec2) < PATH_MAX \<and> \<not> dos then take f spec2 @ replicate (PATH_MAX - f) (CHR '' '') else spec2)
        in if PATH_MAX + 1 < f then Inl UndefinedBehaviour
           else Inr (c_str (take (if dos then 12 else PATH_MAX) spec3), dos)))"

section \<open>Does a name fit?\<close>

definition dos_name :: "string \<Rightarrow> cpp_error + string" where
  "dos_name name =
     (let base = takeWhile (\<lambda>c. c \<noteq> CHR ''.'') name;
          ext = tl (dropWhile (\<lambda>c. c \<noteq> CHR ''.'') name);
          f = base @ replicate (8 - length base) (CHR ''?'') @ ''.'' @ ext
      in if 13 \<le> length f then Inl UndefinedBehaviour
         else Inr (f @ replicate (12 - length f) (CHR '' '')))"

definition fname_ok :: "string \<Rightarrow> bool \<Rightarrow> string \<Rightarrow> cpp_error + bool" where
  "fname_ok spec dos name =
     (if name = ''.'' \<or> name = ''..'' then Inr False
      else if dos then
        (if 12 < length name \<or> name = [] \<or> hd name = CHR ''.'' then Inr False
         else if length name < 12 \<and> CHR ''.'' \<in> set name then
           bind_res (dos_name name) (\<lambda>f.
             Inr (12 \<le> length spec \<and> (\<forall>i \<in> set [0..<12]. spec ! i = f ! i \<or> spec ! i = CHR ''?'')))
         else Inr False)
      else (let n = length name
            in if \<exists>i \<in> set [0..<n]. i < length spec \<and> spec ! i \<noteq> name ! i \<and> spec ! i \<noteq> CHR ''?'' \<and> name ! i \<noteq> CHR ''?''
               then Inr False
               else if n < length spec \<and> spec ! n \<noteq> CHR ''?'' then Inr False
               else if \<forall>c \<in> set (drop (Suc n) spec). c = CHR ''?'' then Inr True
               else Inl UndefinedBehaviour))"

section \<open>Searching\<close>

record wfind =
  find_entries :: "string list"
  find_current :: nat
  find_filename :: string

fun matching :: "string \<Rightarrow> bool \<Rightarrow> string list \<Rightarrow> cpp_error + string list" where
  "matching spec dos [] = Inr []"
| "matching spec dos (name # names) =
     bind_res (fname_ok spec dos name) (\<lambda>ok. bind_res (matching spec dos names) (\<lambda>rest.
       Inr (if ok then name # rest else rest)))"

definition find_next :: "wfind \<Rightarrow> bool \<times> wfind" where
  "find_next w =
     (if length (find_entries w) \<le> find_current w then (False, w)
      else (True, w\<lparr>find_filename := find_entries w ! find_current w, find_current := find_current w + 1\<rparr>))"

definition find_open :: "(string \<Rightarrow> string list option) \<Rightarrow> string \<Rightarrow> cpp_error + bool \<times> wfind" where
  "find_open scandir filespec =
     bind_res (getdir_from_file filespec) (\<lambda>dir. bind_res (strip_filename filespec) (\<lambda>name.
     bind_res (file_spec name) (\<lambda>(spec, dos).
       case scandir dir of
         None \<Rightarrow> Inr (False, \<lparr>find_entries = [], find_current = 0, find_filename = name\<rparr>)
       | Some names \<Rightarrow>
           bind_res (matching spec dos names) (\<lambda>found.
             Inr (found \<noteq> [], snd (find_next \<lparr>find_entries = sort found, find_current = 0, find_filename = name\<rparr>))))))"

definition ExistsWildcard :: "(string \<Rightarrow> string list option) \<Rightarrow> string \<Rightarrow> cpp_error + bool" where
  "ExistsWildcard scandir wildCard = map_sum id fst (find_open scandir wildCard)"

section \<open>What a DOS pattern finds\<close>

definition plain_stem :: "string \<Rightarrow> bool" where
  "plain_stem s \<longleftrightarrow> (\<forall>c \<in> set s. c \<noteq> CHR ''*'' \<and> c \<noteq> CHR ''?'' \<and> c \<noteq> CHR ''.'' \<and> c \<noteq> CHR '' '' \<and> c \<noteq> CHR ''/''
     \<and> c \<noteq> CHR '':'' \<and> c \<noteq> CHR 0x5C \<and> c \<noteq> NUL \<and> \<not> isupper c)"

lemma spec_loop_plain:
  assumes "\<forall>c \<in> set s. c \<noteq> CHR ''*''" "name = pre @ s @ post"
  shows "spec_loop name (length pre) spec dos = spec_loop name (length pre + length s) (spec @ s) dos"
  using assms
proof (induction s arbitrary: pre spec)
  case (Cons c s)
  have "spec_loop name (length pre) spec dos = spec_loop name (length (pre @ [c])) (spec @ [c]) dos"
    using Cons.prems by (subst spec_loop.simps) simp
  also have "\<dots> = spec_loop name (length (pre @ [c]) + length s) ((spec @ [c]) @ s) dos"
    using Cons.prems by (intro Cons.IH) simp_all
  finally show ?case by simp
qed simp

lemma spec_loop_end: "spec_loop name (length name) spec dos = Inr (spec, dos)"
  by (subst spec_loop.simps) simp

lemma spec_loop_star:
  assumes "plain_stem stem" "length stem < 8" "plain_stem ext"
  shows "spec_loop (stem @ ''*.'' @ ext) 0 [] False = Inr (stem @ replicate (8 - length stem) (CHR ''?'') @ ''.'' @ ext, True)"
proof -
  let ?n = "stem @ ''*.'' @ ext" and ?q = "stem @ replicate (8 - length stem) (CHR ''?'')"
  have "spec_loop ?n 0 [] False = spec_loop ?n (length stem) stem False"
    using spec_loop_plain [of stem ?n "[]" "''*.'' @ ext" "[]" False] assms(1) by (simp add: plain_stem_def)
  also have "\<dots> = spec_loop ?n (Suc (length stem)) ?q True"
    using assms(2) by (subst spec_loop.simps) (simp add: nth_append)
  also have "\<dots> = spec_loop ?n (length ?n) (?q @ ''.'' @ ext) True"
    using spec_loop_plain [of "''.'' @ ext" ?n "stem @ ''*''" "[]" ?q True] assms(3) by (simp add: plain_stem_def)
  finally show ?thesis using spec_loop_end [of ?n "?q @ ''.'' @ ext" True] by simp
qed

lemma plain_stem_NUL: "plain_stem s \<Longrightarrow> NUL \<notin> set s"
  by (auto simp: plain_stem_def)

lemma find_sub_dot_star_absent: "CHR ''*'' \<notin> set s \<Longrightarrow> find_sub ''.*'' s = None"
proof (induction s)
  case (Cons c s)
  then show ?case by (cases s) auto
qed simp

lemma find_sub_dot_star:
  assumes "plain_stem stem" "plain_stem ext"
  shows "find_sub ''.*'' (stem @ ''*.'' @ ext) = None"
  using assms(1)
proof (induction stem)
  case Nil
  have "find_sub ''.*'' (''.'' @ ext) = None"
    using assms(2) by (intro find_sub_dot_star_absent) (auto simp: plain_stem_def)
  then show ?case by simp
next
  case (Cons c stem)
  then show ?case by (auto simp: plain_stem_def)
qed

lemma file_spec_star:
  assumes "plain_stem stem" "length stem < 8" "plain_stem ext" "length ext = 3"
  shows "file_spec (stem @ ''*.'' @ ext) = Inr (stem @ replicate (8 - length stem) (CHR ''?'') @ ''.'' @ ext, True)"
proof -
  let ?n = "stem @ ''*.'' @ ext" and ?spec = "stem @ replicate (8 - length stem) (CHR ''?'') @ ''.'' @ ext"
  have nul: "NUL \<notin> set stem" "NUL \<notin> set ext" using plain_stem_NUL assms(1,3) by blast+
  have ne: "?n \<noteq> ''*.*''" "?n \<noteq> ''*''" using assms(4) by (auto dest: arg_cong [where f = length])
  then have "\<not> IsEquals ?n ''*.*''" "\<not> IsEquals ?n ''*''"
    using nul by (simp_all add: IsEquals_iff c_str_id NUL_def)
  moreover have "c_str ?spec = ?spec" using nul by (intro c_str_id) (auto simp: NUL_def)
  moreover have "take 12 ?spec = ?spec" using assms(2,4) by simp
  ultimately show ?thesis
    using assms(2,4) find_sub_dot_star [OF assms(1,3)] spec_loop_star [OF assms(1-3)]
    by (simp add: file_spec_def Let_def PATH_MAX_def del: append_Cons append_Nil take_append)
qed

lemma fname_ok_star:
  assumes stem: "plain_stem stem" "length stem < 8" and ext: "plain_stem ext" "length ext = 3"
    and spec: "spec = stem @ replicate (8 - length stem) (CHR ''?'') @ ''.'' @ ext"
    and ok: "fname_ok spec True name = Inr b"
  shows "b \<longleftrightarrow> (\<exists>base. name = base @ ''.'' @ ext \<and> base \<noteq> [] \<and> CHR ''.'' \<notin> set base
    \<and> take (length stem) base = stem \<and> length base \<le> 7)"
proof -
  define base where "base = takeWhile (\<lambda>c. c \<noteq> CHR ''.'') name"
  define e where "e = tl (dropWhile (\<lambda>c. c \<noteq> CHR ''.'') name)"
  have base: "CHR ''.'' \<notin> set base" by (auto simp: base_def dest: set_takeWhileD)
  have nstem: "stem ! i \<noteq> CHR ''?''" if "i < length stem" for i using stem(1) that by (auto simp: plain_stem_def)
  have unique: "b0 = base \<and> e0 = e" if "name = b0 @ ''.'' @ e0" "CHR ''.'' \<notin> set b0" for b0 e0
  proof -
    have "takeWhile (\<lambda>c. c \<noteq> CHR ''.'') name = b0" "dropWhile (\<lambda>c. c \<noteq> CHR ''.'') name = ''.'' @ e0"
      unfolding that(1) using that(2) by (subst takeWhile_append2 dropWhile_append2; auto)+
    then show ?thesis by (simp add: base_def e_def)
  qed
  show ?thesis
  proof (cases "length name < 12 \<and> name \<noteq> [] \<and> hd name \<noteq> CHR ''.'' \<and> CHR ''.'' \<in> set name")
    case False
    then have "\<not> b" using ok by (auto simp: fname_ok_def split: if_splits)
    moreover have "length name < 12 \<and> name \<noteq> [] \<and> hd name \<noteq> CHR ''.'' \<and> CHR ''.'' \<in> set name"
      if "name = b0 @ ''.'' @ ext" "b0 \<noteq> []" "CHR ''.'' \<notin> set b0" "length b0 \<le> 7" for b0
      using that ext(2) by (cases b0) auto
    ultimately show ?thesis using False by blast
  next
    case True
    then obtain b0 e0 where "name = b0 @ CHR ''.'' # e0" "CHR ''.'' \<notin> set b0" using split_list_first by metis
    then have name: "name = base @ ''.'' @ e" using unique [of b0 e0] by simp
    have "base \<noteq> []" using True name by auto
    let ?f = "base @ replicate (8 - length base) (CHR ''?'') @ ''.'' @ e"
    let ?g = "?f @ replicate (12 - length ?f) (CHR '' '')"
    have "name \<noteq> ''.''" "name \<noteq> ''..''" using True by auto
    with True ok have f: "length ?f < 13"
      and b: "b \<longleftrightarrow> (\<forall>i < 12. spec ! i = ?g ! i \<or> spec ! i = CHR ''?'')"
      using stem(2) ext(2) by (auto simp: fname_ok_def dos_name_def base_def e_def Let_def spec split: if_splits)
    have s_stem: "spec ! i = stem ! i" if "i < length stem" for i using that by (simp add: spec nth_append)
    have s_any: "spec ! i = CHR ''?''" if "length stem \<le> i" "i < 8" for i
      using that by (simp add: spec nth_append)
    have s_dot: "spec ! 8 = CHR ''.''" using stem(2) by (simp add: spec nth_append)
    have s_ext: "spec ! (9 + j) = ext ! j" for j
      using stem(2) by (simp add: spec nth_append) arith
    show ?thesis
    proof
      assume b1: b
      define g where "g = ?g"
      have fit: "spec ! i = g ! i \<or> spec ! i = CHR ''?''" if "i < 12" for i using b1 b that unfolding g_def by blast
      have b8: "length base \<le> 8"
      proof (rule ccontr)
        assume "\<not> length base \<le> 8"
        then have "g ! 8 = base ! 8" "base ! 8 \<in> set base" by (simp_all add: g_def nth_append)
        then show False using fit [of 8] s_dot base by auto
      qed
      have g_ext: "g ! (9 + j) = (e @ replicate (12 - length ?f) (CHR '' '')) ! j" for j
        using b8 by (simp add: g_def nth_append) arith
      have ext_ok: "ext ! j \<noteq> CHR ''?''" "ext ! j \<noteq> CHR '' ''" if "j < 3" for j
        using ext that by (auto simp: plain_stem_def)
      have same: "(e @ replicate (12 - length ?f) (CHR '' '')) ! j = ext ! j" if "j < 3" for j
        using fit [of "9 + j"] that s_ext [of j] g_ext [of j] ext_ok(1) [OF that] by (simp del: length_append append_assoc)
      have lf: "length ?f = 9 + length e" using b8 by simp
      have e3: "length e = 3"
      proof (rule ccontr)
        assume "length e \<noteq> 3"
        then have "length e < 3" using f lf by simp
        then show False using same [of "length e"] ext_ok(2) [of "length e"] lf by (simp add: nth_append)
      qed
      have "e = ext"
        using same e3 ext(2) by (intro nth_equalityI) (auto simp: nth_append)
      moreover have b7: "length base \<le> 7" using True name e3 by simp
      moreover have "take (length stem) base = stem"
      proof -
        have long: "length stem \<le> length base"
        proof (rule ccontr)
          assume n: "\<not> length stem \<le> length base"
          then have "g ! length base = CHR ''?''" using b7 by (simp add: g_def nth_append)
          then show False using fit [of "length base"] b7 n s_stem [of "length base"] nstem [of "length base"] by simp
        qed
        have "base ! i = stem ! i" if "i < length stem" for i
        proof -
          have "g ! i = base ! i" using that long by (simp add: g_def nth_append)
          then show ?thesis using fit [of i] that stem(2) s_stem [OF that] nstem [OF that] by simp
        qed
        then show ?thesis using long by (intro nth_equalityI) auto
      qed
      ultimately show "\<exists>base. name = base @ ''.'' @ ext \<and> base \<noteq> [] \<and> CHR ''.'' \<notin> set base
        \<and> take (length stem) base = stem \<and> length base \<le> 7"
        using name base \<open>base \<noteq> []\<close> by blast
    next
      assume "\<exists>base. name = base @ ''.'' @ ext \<and> base \<noteq> [] \<and> CHR ''.'' \<notin> set base
        \<and> take (length stem) base = stem \<and> length base \<le> 7"
      then have h: "e = ext" "take (length stem) base = stem" "length base \<le> 7" using unique by blast+
      have "spec ! i = ?g ! i \<or> spec ! i = CHR ''?''" if "i < 12" for i
      proof -
        have "i < length stem \<or> (length stem \<le> i \<and> i < 8) \<or> i = 8 \<or> (\<exists>j. i = 9 + j \<and> j < 3)"
        proof (cases "i < 9")
          case False
          then have "i = 9 + (i - 9)" "i - 9 < 3" using that by simp_all
          then show ?thesis by blast
        qed auto
        then consider "i < length stem" | "length stem \<le> i" "i < 8" | "i = 8" | j where "i = 9 + j" "j < 3"
          by blast
        then show ?thesis
        proof cases
          case 1
          then have "take (length stem) base ! i = stem ! i" "length (take (length stem) base) = length stem" by (simp_all only: h(2))
          then have "base ! i = stem ! i" "i < length base" using 1 by simp_all
          then show ?thesis using s_stem [OF 1] by (simp add: nth_append)
        next
          case 3
          then show ?thesis using s_dot h(3) by (simp add: nth_append)
        next
          case 4
          then show ?thesis using s_ext [of j] h(1,3) ext(2) by (simp add: nth_append) arith
        qed (use s_any in simp)
      qed
      then show b using b by blast
    qed
  qed
qed

lemma matching_Inr:
  "matching spec dos names = Inr found \<Longrightarrow> set found = {n \<in> set names. fname_ok spec dos n = Inr True}"
  by (induction names arbitrary: found) (auto simp: bind_res_Inr_iff split: if_splits)

lemma matching_all_Inr: "matching spec dos names = Inr found \<Longrightarrow> n \<in> set names \<Longrightarrow> \<exists>b. fname_ok spec dos n = Inr b"
  by (induction names arbitrary: found) (auto simp: bind_res_Inr_iff)

lemma after_separator_name:
  assumes "CHR ''/'' \<notin> set name" "CHR '':'' \<notin> set name" "CHR 0x5C \<notin> set name"
  shows "after_separator (dir @ ''/'' @ name) = name"
proof -
  have "takeWhile (\<lambda>c. c \<noteq> CHR 0x5C \<and> c \<noteq> CHR '':'' \<and> c \<noteq> CHR ''/'') (rev name @ CHR ''/'' # rev dir) = rev name"
    using assms by (subst takeWhile_append2) auto
  then show ?thesis by (simp add: after_separator_def)
qed

lemma map_tolower_id: "\<forall>c \<in> set s. \<not> isupper c \<Longrightarrow> map tolower s = s"
  by (rule map_idI) (simp add: tolower_def)

lemma find_last_of_name: "c \<notin> set t \<Longrightarrow> find_last_of (s @ c # t) c = Some (length s)"
proof -
  assume "c \<notin> set t"
  then have "takeWhile (\<lambda>d. d \<noteq> c) (rev t @ c # rev s) = rev t" by (subst takeWhile_append2) auto
  then show ?thesis by (simp add: find_last_of_def)
qed

section \<open>Properties\<close>

text \<open>C29 A search for a stem, a star and an extension of three characters in a directory that can be
  read finds something exactly when one of the names there begins with the stem, has no second dot,
  has that extension and at most seven characters before it: a name with the full eight characters
  is never found.\<close>

theorem ExistsWildcard_star:
  assumes "plain_stem stem" "length stem < 8" "plain_stem ext" "length ext = 3"
    and "dir \<noteq> []" "length dir < 240" "scandir dir = Some names"
    and "ExistsWildcard scandir (dir @ ''/'' @ stem @ ''*.'' @ ext) = Inr b"
  shows "b \<longleftrightarrow> (\<exists>base. base @ ''.'' @ ext \<in> set names \<and> base \<noteq> [] \<and> CHR ''.'' \<notin> set base
    \<and> take (length stem) base = stem \<and> length base \<le> 7)"
proof -
  let ?n = "stem @ ''*.'' @ ext" and ?spec = "stem @ replicate (8 - length stem) (CHR ''?'') @ ''.'' @ ext"
  have chars: "\<forall>c \<in> set ?n. c \<noteq> CHR ''/'' \<and> c \<noteq> CHR '':'' \<and> c \<noteq> CHR 0x5C \<and> c \<noteq> CHR '' '' \<and> \<not> isupper c"
    using assms(1,3) by (auto simp: plain_stem_def isupper_def)
  have "CHR ''/'' \<notin> set ?n" using chars by blast
  then have "find_last_of (dir @ ''/'' @ ?n) (CHR ''/'') = Some (length dir)"
    using find_last_of_name [of "CHR ''/''" ?n dir] by simp
  moreover have "length (dir @ ''/'' @ ?n) < 256" using assms(2,4,6) by simp
  moreover have "take (length dir) (dir @ ''/'' @ ?n) = dir" by simp
  ultimately have dir: "getdir_from_file (dir @ ''/'' @ ?n) = Inr dir"
    using assms(5) unfolding getdir_from_file_def by (simp only: option.case not_le [symmetric] if_False simp_thms)
  have "map tolower ?n = ?n" using chars by (intro map_tolower_id) blast
  moreover have "filter (\<lambda>c. c \<noteq> CHR '' '') ?n = ?n" using chars by (intro filter_True) blast
  moreover have "after_separator (dir @ ''/'' @ ?n) = ?n" using chars by (intro after_separator_name) blast+
  moreover have "length ?n < 15" using assms(2,4) by simp
  ultimately have strip: "strip_filename (dir @ ''/'' @ ?n) = Inr ?n"
    by (simp only: strip_filename_def Let_def) (simp add: PATH_MAX_def)
  have spec: "file_spec ?n = Inr (?spec, True)" by (rule file_spec_star [OF assms(1-4)])
  obtain found where found: "matching ?spec True names = Inr found" and b: "b \<longleftrightarrow> found \<noteq> []"
  proof -
    have "ExistsWildcard scandir (dir @ ''/'' @ ?n) = map_sum id fst (bind_res (matching ?spec True names) (\<lambda>found.
        Inr (found \<noteq> [], snd (find_next \<lparr>find_entries = sort found, find_current = 0, find_filename = ?n\<rparr>))))"
      by (simp only: ExistsWildcard_def find_open_def dir strip spec bind_res_simps prod.case assms(7) option.case)
    with assms(8) that show ?thesis by (cases "matching ?spec True names") auto
  qed
  have "n \<in> set found \<longleftrightarrow> n \<in> set names \<and> (\<exists>base. n = base @ ''.'' @ ext \<and> base \<noteq> [] \<and> CHR ''.'' \<notin> set base
      \<and> take (length stem) base = stem \<and> length base \<le> 7)" for n
    using matching_all_Inr [OF found, of n] fname_ok_star [OF assms(1-4) refl, of n] unfolding matching_Inr [OF found] by auto
  then show ?thesis unfolding b by (metis (no_types, lifting) all_not_in_conv set_empty2)
qed

theorem ExistsWildcard_star_witness:
  "ExistsWildcard (\<lambda>d. if d = ''/net'' then Some [''p0-0-0.net'', ''contact.net''] else None) ''/net/p*.net'' = Inr True
    \<and> ExistsWildcard (\<lambda>d. if d = ''/net'' then Some [''p1234567.net''] else None) ''/net/p*.net'' \<noteq> Inr True"
proof -
  let ?d1 = "\<lambda>d. if d = ''/net'' then Some [''p0-0-0.net'', ''contact.net''] else None"
  let ?d2 = "\<lambda>d. if d = ''/net'' then Some [''p1234567.net''] else None"
  have plain: "plain_stem ''p''" "plain_stem ''net''" by (simp_all add: plain_stem_def isupper_def NUL_def)
  have "ExistsWildcard ?d1 (''/net'' @ ''/'' @ ''p'' @ ''*.'' @ ''net'') = Inr True" by code_simp
  moreover have "ExistsWildcard ?d2 (''/net'' @ ''/'' @ ''p'' @ ''*.'' @ ''net'') \<noteq> Inr True"
  proof
    assume "ExistsWildcard ?d2 (''/net'' @ ''/'' @ ''p'' @ ''*.'' @ ''net'') = Inr True"
    from ExistsWildcard_star [OF plain(1) _ plain(2) _ _ _ _ this, of "[''p1234567.net'']"] show False
      by (auto simp: append_eq_Cons_conv)
  qed
  ultimately show ?thesis by simp
qed

end
