(* ===== verification/Net_Binkp_Finish.thy ===== *)
theory Net_Binkp_Finish
  imports Net_Binkp_Login Net_Log Sdk_Contact Core_FindFile
begin

text \<open>
  The end of \<open>Run\<close>: the received files are renamed for the network programs, these are started,
  and the session is noted in \<open>net.log\<close> and \<open>CONTACT.NET\<close>.

  What the system does is an argument: the programs that are started change the files, times come
  from the clock and the file system, \<open>scandir\<close> lists a directory of the current files.
  \<open>rename\<close> is the POSIX call: a file that has the new name is replaced.
\<close>

section \<open>Pending files\<close>

definition pending_name :: "string \<Rightarrow> string \<Rightarrow> nat \<Rightarrow> string" where
  "pending_name directory prefix i = StringPrintf (c_str directory @ ''p'' @ prefix @ ''-0-'' @ show_nat i @ ''.net'')"

fun rename_loop :: "nat \<Rightarrow> string \<Rightarrow> string \<Rightarrow> string \<Rightarrow> nat \<Rightarrow> disk \<Rightarrow> disk" where
  "rename_loop 0 pend_filename directory prefix i fs = fs"
| "rename_loop (Suc k) pend_filename directory prefix i fs =
     (let (renamed, fs1) = File_Rename pend_filename (pending_name directory prefix i) fs
      in if renamed then fs1 else rename_loop k pend_filename directory prefix (i + 1) fs1)"

definition pending_prefix :: "string \<Rightarrow> string" where
  "pending_prefix filename = (if atoi (c_str (tl filename)) \<noteq> 0 then ''1'' else ''0'')"

definition rename_pend :: "string \<Rightarrow> string \<Rightarrow> disk \<Rightarrow> cpp_error + disk" where
  "rename_pend directory filename fs =
     (if \<not> File_Exists (SetName directory filename) fs then Inr fs
      else if filename = [] then Inl OutOfRange
      else Inr (rename_loop 1000 (SetName directory filename) directory (pending_prefix filename) 0 fs))"

fun rename_pending_files :: "bink_env \<Rightarrow> string \<Rightarrow> string list \<Rightarrow> disk \<Rightarrow> cpp_error + disk" where
  "rename_pending_files env network_name [] fs = Inr fs"
| "rename_pending_files env network_name (file # files) fs =
     (if \<not> networks_contains (config_networks (config env)) network_name
      then rename_pending_files env network_name files fs
      else bind_res (network_dir (config env) network_name) (\<lambda>dir.
           bind_res (rename_pend dir file fs) (\<lambda>fs1.
             rename_pending_files env network_name files fs1)))"

section \<open>The network programs\<close>

record system =
  run_program :: "string \<Rightarrow> disk \<Rightarrow> disk"
  mtime :: "disk \<Rightarrow> string \<Rightarrow> int"
  list_dir :: "disk \<Rightarrow> string \<Rightarrow> string list option"
  local_tm :: "int \<Rightarrow> tm"
  show_minutes :: "int \<Rightarrow> string"
  start_time :: int
  session_seconds :: int
  contact_opens :: bool

definition checkup2 :: "system \<Rightarrow> int \<Rightarrow> string \<Rightarrow> string \<Rightarrow> disk \<Rightarrow> bool" where
  "checkup2 sys tFileTime dir filename fs =
     (if fs (SetName dir filename) \<noteq> None then tFileTime + 2 < mtime sys fs (SetName dir filename) else True)"

definition need_network3 :: "system \<Rightarrow> string \<Rightarrow> disk \<Rightarrow> bool" where
  "need_network3 sys dir fs =
     (if \<not> File_Exists (SetName dir ''bbslist.net'') fs then False
      else if \<not> File_Exists (SetName dir ''connect.net'') fs then False
      else if \<not> File_Exists (SetName dir ''callout.net'') fs then False
      else if fs (SetName dir ''bbsdata.net'') = None then False
      else (let bbsdata_time = mtime sys fs (SetName dir ''bbsdata.net'')
            in checkup2 sys bbsdata_time dir ''bbslist.net'' fs \<or> checkup2 sys bbsdata_time dir ''connect.net'' fs
               \<or> checkup2 sys bbsdata_time dir ''callout.net'' fs))"

definition start_program :: "system \<Rightarrow> string \<Rightarrow> string list \<times> disk \<Rightarrow> string list \<times> disk" where
  "start_program sys cmd = (\<lambda>(cmds, fs). (cmds @ [cmd], run_program sys cmd fs))"

definition process_network_files :: "system \<Rightarrow> bink_env \<Rightarrow> string \<Rightarrow> disk \<Rightarrow> cpp_error + string list \<times> disk" where
  "process_network_files sys env network_name fs =
     (let number = network_number (config_networks (config env)) network_name;
          arg = '' .'' @ show_int number
      in if number = - 1 then Inr ([], fs)
         else bind_res (network_dir (config env) network_name) (\<lambda>dir.
              bind_res (ExistsWildcard (list_dir sys fs) (dir @ ''p*.net'')) (\<lambda>pending.
              let st1 = (if pending
                         then (let st = start_program sys (''network1'' @ arg) ([], fs)
                               in if File_Exists (dir @ ''local.net'') (snd st) then start_program sys (''network2'' @ arg) st else st)
                         else ([], fs))
              in Inr (if need_network3 sys dir (snd st1) then start_program sys (''network3'' @ arg @ '' Y'') st1 else st1))))"

section \<open>Run\<close>

text \<open>The contact file is read, changed and, when the object goes away, written.\<close>

definition update_contact :: "system \<Rightarrow> bink_env \<Rightarrow> string \<Rightarrow> int \<Rightarrow> bink \<Rightarrow> disk \<Rightarrow> cpp_error + disk" where
  "update_contact sys env dir node s fs =
     bind_res (Contact dir True fs) (\<lambda>c.
       destroy_contact (contact_opens sys) (if error_received s then add_failure node (start_time sys) c
                          else add_connect node (start_time sys) (bytes_sent s) (bytes_received s) c) fs)"

definition finish_run :: "system \<Rightarrow> bink_env \<Rightarrow> bink \<Rightarrow> cpp_error + string list \<times> disk" where
  "finish_run sys env s =
     (let network_name = remote_network_name env s
      in bind_res (rename_pending_files env network_name (received_files s) (disk s)) (\<lambda>fs1.
         bind_res (if \<not> skip_net (config env) then process_network_files sys env network_name fs1 else Inr ([], fs1)) (\<lambda>(cmds, fs2).
         bind_res (remote_network_node env s) (\<lambda>node.
         bind_res (Log (local_tm sys) (show_minutes sys) (gfiles_directory (config env))
             \<lparr>log_time = start_time sys, log_side = (if bink_side env = ORIGINATING then TO else FROM), log_node = node,
              log_sent = bytes_sent s, log_received = bytes_received s, log_seconds = session_seconds sys,
              log_network = network_name\<rparr> fs2) (\<lambda>fs3.
         bind_res (network_dir (config env) network_name) (\<lambda>dir.
         bind_res (update_contact sys env dir node s fs3) (\<lambda>fs4. Inr (cmds, fs4))))))))"

text \<open>The loop ends by itself, or by the peer's closing the connection; any other exception leaves
  \<open>Run\<close> before its end.\<close>

definition Run :: "system \<Rightarrow> bink_env \<Rightarrow> bink \<Rightarrow> bexn + string list \<times> disk" where
  "Run sys env s0 =
     (case run_loop env (start_state env) s0 of
        (Inl e, s) \<Rightarrow> (if e = SocketClosed then map_sum Cpp id (finish_run sys env s) else Inl e)
      | (Inr _, s) \<Rightarrow> map_sum Cpp id (finish_run sys env s))"

section \<open>Renaming\<close>

lemma rename_loop_first:
  "fs pend = Some c \<Longrightarrow> rename_loop (Suc k) pend dir prefix i fs = (fs(pend := None))(pending_name dir prefix i \<mapsto> c)"
  by (simp add: File_Rename_def)

definition pend_target :: "string \<Rightarrow> string \<Rightarrow> string" where
  "pend_target dir file = pending_name dir (pending_prefix file) 0"

lemma rename_pend_there:
  assumes "fs (SetName dir file) = Some c" "file \<noteq> []" "last file \<noteq> pathSeparatorChar"
  shows "rename_pend dir file fs = Inr ((fs(SetName dir file := None))(pend_target dir file \<mapsto> c))"
proof -
  have "last (SetName dir file) \<noteq> pathSeparatorChar" "SetName dir file \<noteq> []" using assms(2,3) by (simp_all add: SetName_def)
  then have "File_Exists (SetName dir file) fs" using assms(1) by (simp add: File_Exists_def)
  moreover have "rename_loop 1000 (SetName dir file) dir (pending_prefix file) 0 fs
      = (fs(SetName dir file := None))(pend_target dir file \<mapsto> c)"
    using rename_loop_first [of fs "SetName dir file" c 999 dir "pending_prefix file" 0] assms(1) by (simp add: pend_target_def)
  ultimately show ?thesis using assms(2) by (simp add: rename_pend_def)
qed

section \<open>Properties\<close>

text \<open>C24 Of the files of one kind that a session receives only the last is left: every received
  file is given the name of the first attempt, and \<open>rename\<close> replaces what has that name, so the
  second of two files takes the place of the first, whose contents are gone.\<close>

theorem received_files_overwritten:
  assumes "network_dir (config env) name = Inr dir" "networks_contains (config_networks (config env)) name"
    and "fs (SetName dir a) = Some x" "fs (SetName dir b) = Some y" "pending_prefix a = pending_prefix b"
    and "a \<noteq> b" "a \<noteq> []" "b \<noteq> []" "pathSeparatorChar \<notin> set a" "pathSeparatorChar \<notin> set b"
    and "pend_target dir a \<noteq> SetName dir b"
  shows "rename_pending_files env name [a, b] fs =
    Inr ((fs(SetName dir a := None, SetName dir b := None))(pend_target dir a \<mapsto> y))"
proof -
  have same: "pend_target dir b = pend_target dir a" using assms(5) by (simp add: pend_target_def)
  have ab: "SetName dir a \<noteq> SetName dir b" using assms(6) by (auto simp: SetName_def)
  let ?fs1 = "(fs(SetName dir a := None))(pend_target dir a \<mapsto> x)"
  have "rename_pend dir a fs = Inr ?fs1"
    using assms(3,7,9) by (intro rename_pend_there) (auto dest: last_in_set)
  moreover have "rename_pend dir b ?fs1 = Inr ((?fs1(SetName dir b := None))(pend_target dir b \<mapsto> y))"
    using assms(4,8,10,11) ab by (intro rename_pend_there) (auto dest: last_in_set)
  ultimately have "rename_pending_files env name [a, b] fs = Inr ((?fs1(SetName dir b := None))(pend_target dir a \<mapsto> y))"
    using assms(1,2) by (simp add: same)
  moreover have "(?fs1(SetName dir b := None))(pend_target dir a \<mapsto> y)
      = (fs(SetName dir a := None, SetName dir b := None))(pend_target dir a \<mapsto> y)"
    by (rule ext) simp
  ultimately show ?thesis by simp
qed

theorem received_files_overwritten_witness:
  "rename_pending_files (demo_env ANSWERING) ''wwivnet'' [''s1.net'', ''s2.net''] [''/net/s1.net'' \<mapsto> ''one'', ''/net/s2.net'' \<mapsto> ''two'']
    = Inr [pend_target ''/net'' ''s1.net'' \<mapsto> ''two'']"
proof -
  let ?fs = "[''/net/s1.net'' \<mapsto> ''one'', ''/net/s2.net'' \<mapsto> ''two'']"
  have facts: "pending_prefix ''s1.net'' = pending_prefix ''s2.net''" "pend_target ''/net'' ''s1.net'' \<noteq> SetName ''/net'' ''s2.net''"
    "SetName ''/net'' ''s1.net'' = ''/net/s1.net''" "SetName ''/net'' ''s2.net'' = ''/net/s2.net''"
    by code_simp+
  have known: "networks_contains (config_networks (config (demo_env ANSWERING))) ''wwivnet''"
    by (simp add: demo_env_def IsEqualsIgnoreCase_iff)
  have "rename_pending_files (demo_env ANSWERING) ''wwivnet'' [''s1.net'', ''s2.net''] ?fs
      = Inr ((?fs(SetName ''/net'' ''s1.net'' := None, SetName ''/net'' ''s2.net'' := None))(pend_target ''/net'' ''s1.net'' \<mapsto> ''two''))"
    by (rule received_files_overwritten [OF demo_dir known, where x = "''one''"]) (use facts in simp_all)
  also have "?fs(SetName ''/net'' ''s1.net'' := None, SetName ''/net'' ''s2.net'' := None) = Map.empty"
    unfolding facts by (rule ext) simp
  finally show ?thesis .
qed

end
