(* ===== verification/Net_Binkp_Files.thy ===== *)
theory Net_Binkp_Files
  imports Net_Binkp_Auth
begin

text \<open>
  What a session does to the files of the system, as a \<open>transfer_invariant\<close>: a file that was there
  when it began is neither changed nor deleted unless it is a file \<open>s<node>.net\<close> of a network,
  which is deleted when the peer acknowledges it, and new files are made only in the directories of
  the networks.
\<close>

definition outgoing :: "bink_env \<Rightarrow> string \<Rightarrow> bool" where
  "outgoing env p \<longleftrightarrow>
     (\<exists>name dir n. network_dir (config env) name = Inr dir \<and> p = SetName dir (''s'' @ show_nat n @ ''.net''))"

definition incoming :: "bink_env \<Rightarrow> string \<Rightarrow> bool" where
  "incoming env p \<longleftrightarrow> (\<exists>name dir fn. network_dir (config env) name = Inr dir \<and> pathSeparatorChar \<notin> set fn \<and> p = SetName dir fn)"

definition confined :: "bink_env \<Rightarrow> disk \<Rightarrow> bink \<Rightarrow> bool" where
  "confined env fs s \<longleftrightarrow>
     (\<forall>p. disk s p = fs p \<or> outgoing env p \<or> fs p = None \<and> incoming env p)
   \<and> (\<forall>f. current_receive_file s = Some f \<longrightarrow>
        incoming env (rf_path f) \<and> pathSeparatorChar \<notin> set (rf_name f) \<and> (rf_open f \<longrightarrow> outgoing env (rf_path f) \<or> fs (rf_path f) = None))
   \<and> (\<forall>(name, f) \<in> set (files_to_send s). outgoing env (tf_path f))
   \<and> (\<forall>f \<in> set (received_files s). pathSeparatorChar \<notin> set f)"

lemma transfer_file_path_incoming: "transfer_file_path env name fn = Inr p \<Longrightarrow> incoming env p \<and> pathSeparatorChar \<notin> set fn"
  by (cases "network_at (config_networks (config env)) name")
    (auto simp: transfer_file_path_def incoming_def network_dir_def split: if_splits, metis map_sum.simps(2))

lemma confined_accept_data: "keeps (confined env fs) (accept_data d)"
proof (rule keepsI)
  fix s :: bink assume s: "confined env fs s"
  show "confined env fs (snd (accept_data d s))"
  proof (cases "current_receive_file s")
    case None
    then show ?thesis using s by (simp add: accept_data_def)
  next
    case (Some f)
    obtain ok f1 fs1 where w: "WriteChunk d f (disk s) = (ok, f1, fs1)" by (cases "WriteChunk d f (disk s)")
    have f: "incoming env (rf_path f)" "pathSeparatorChar \<notin> set (rf_name f)" "rf_open f \<Longrightarrow> outgoing env (rf_path f) \<or> fs (rf_path f) = None"
      using s Some by (auto simp: confined_def)
    have f1: "rf_path f1 = rf_path f" "rf_name f1 = rf_name f" "rf_open f1 \<Longrightarrow> outgoing env (rf_path f) \<or> fs (rf_path f) = None"
    proof -
      show "rf_path f1 = rf_path f" "rf_name f1 = rf_name f" using w by (auto simp: WriteChunk_def Let_def split: if_splits)
      have "disk s (rf_path f) = None \<Longrightarrow> outgoing env (rf_path f) \<or> fs (rf_path f) = None"
        using s unfolding confined_def by metis
      then show "rf_open f1 \<Longrightarrow> outgoing env (rf_path f) \<or> fs (rf_path f) = None"
        using w f(3) by (auto simp: WriteChunk_def Let_def split: if_splits)
    qed
    have "fs1 p = disk s p \<or> p = rf_path f \<and> (outgoing env p \<or> fs p = None \<and> incoming env p)" for p
      using w f f1(3) by (auto simp: WriteChunk_def Let_def split: if_splits option.splits)
    then have "fs1 p = fs p \<or> outgoing env p \<or> fs p = None \<and> incoming env p" for p
      using s unfolding confined_def by metis
    then show ?thesis
      using s Some w f(1,2) f1
      by (auto simp: confined_def accept_data_def Let_def seqm_def bindm_def modifym_def send_command_packet_def returnm_def)
  qed
qed

lemma confined_HandleFileGotRequest: "keeps (confined env fs) (HandleFileGotRequest d)"
  unfolding HandleFileGotRequest_def Let_def
proof (intro keeps_intros keepsI)
  fix fn and s :: bink assume s: "confined env fs s"
  show "confined env fs (snd (case map_of (files_to_send s) fn of None \<Rightarrow> (Inr False, s)
     | Some file \<Rightarrow> (Inr True, s\<lparr>bytes_sent := bytes_sent s + word_of_int (max 0 (file_size (disk s) file)),
          disk := (disk s)(tf_path file := None), files_to_send := erase_key fn (files_to_send s)\<rparr>)))"
  proof (cases "map_of (files_to_send s) fn")
    case (Some f)
    then have "outgoing env (tf_path f)" using s map_of_SomeD [OF Some] by (auto simp: confined_def)
    moreover have "set (erase_key fn (files_to_send s)) \<subseteq> set (files_to_send s)" by (auto simp: erase_key_def)
    ultimately show ?thesis using s Some by (fastforce simp: confined_def)
  qed (use s in simp)
qed

lemma keeps_HandleFileGetRequest:
  assumes "\<And>d. keeps I (send_data_packet d)" "keeps I frames"
  shows "keeps I (HandleFileGetRequest frames env d)"
  unfolding HandleFileGetRequest_def Let_def
proof (intro keeps_intros keepsI)
  fix fn and s :: bink assume s: "I s"
  show "I (snd (case map_of (files_to_send s) fn of None \<Rightarrow> (Inr False, s) | Some file \<Rightarrow> SendFileData frames env file s))"
    using s keeps_send_chunks [OF assms] by (cases "map_of (files_to_send s) fn") (simp_all add: SendFileData_def)
qed

lemma confined_send_data: "keeps (confined env fs) (send_data_packet d)"
  by (simp add: keeps_def send_data_packet_def confined_def)

lemma set_emplace: "set (emplace k v m) \<subseteq> insert (k, v) (set m)"
  by (induction k v m rule: emplace.induct) auto

lemma set_assign: "set (assign_key k v m) \<subseteq> insert (k, v) (set m)"
  using set_emplace [of k v "erase_key k m"] by (auto simp: assign_key_def erase_key_def)

interpretation confined: transfer_invariant env "confined env fs" for env fs
proof
  fix s d frames name dir node fs0 files f
  show "keeps (confined env fs) (HandleFileRequest env d)"
  proof (rule keeps_HandleFileRequest)
    fix s q
    assume s: "confined env fs s" and q: "q = None \<or> (\<exists>name fn len t. transfer_file_path env name fn = Inr (rf_path (the q)) \<and>
      q = Some \<lparr>rf_name = fn, rf_path = rf_path (the q), rf_expected = len, rf_time = t, rf_length = 0, rf_open = False, rf_pos = 0\<rparr>)"
    have "incoming env (rf_path g) \<and> pathSeparatorChar \<notin> set (rf_name g) \<and> \<not> rf_open g" if "q = Some g" for g
    proof -
      from q that obtain name fn len t where "transfer_file_path env name fn = Inr (rf_path g)"
        and g: "g = \<lparr>rf_name = fn, rf_path = rf_path g, rf_expected = len, rf_time = t, rf_length = 0, rf_open = False, rf_pos = 0\<rparr>"
        by auto
      moreover have "\<not> rf_open g" "rf_name g = fn" by (subst g, simp)+
      ultimately show ?thesis using transfer_file_path_incoming by blast
    qed
    then show "confined env fs (s\<lparr>current_receive_file := q\<rparr>)" using s by (simp add: confined_def)
  qed
  show "keeps (confined env fs) (HandleFileGotRequest d)" by (rule confined_HandleFileGotRequest)
  show "keeps (confined env fs) (HandleFileGetRequest frames env d)" if "keeps (confined env fs) frames"
    by (rule keeps_HandleFileGetRequest [OF confined_send_data that])
  show "keeps (confined env fs) (accept_data d)" by (rule confined_accept_data)
  show "keeps (confined env fs) (send_data_packet d)" by (rule confined_send_data)
  show "confined env fs (s\<lparr>files_to_send := assign_key (tf_name f) f (files_to_send s)\<rparr>)"
    if dir: "network_dir (config env) name = Inr dir" and l: "CreateTransferFileList env dir node fs0 = Inr files"
      and f: "f \<in> set files" and s: "confined env fs s"
  proof -
    have "outgoing env (tf_path f)"
      using l f dir unfolding outgoing_def
      by (intro exI [of _ name] exI [of _ dir] exI [of _ "unat (word_of_int node :: u16)"])
        (auto simp: CreateTransferFileList_def bind_res_Inr_iff Let_def split: if_splits)
    then show ?thesis using s set_assign [of "tf_name f" f "files_to_send s"] by (fastforce simp: confined_def)
  qed
qed (auto simp: confined_def)

lemma session_confined: "confined env fs (snd (run_loop env st (new_bink script fs)))"
  by (rule confined.run_loop_I) (simp add: confined_def new_bink_def)

end
