(* ===== verification/Net_Binkp_Run.thy ===== *)
theory Net_Binkp_Run
  imports Net_Binkp_Finish Net_Binkp_Files
begin

text \<open>
  What a whole run does to the files of the system: the loop over the states (\<open>Net_Binkp_Files\<close>) and the end of
  \<open>Run\<close>, which renames the received files, starts the network programs and notes the session.
\<close>

section \<open>The end of a run\<close>










section \<open>Property\<close>













end
