(* ===== verification/Net_Binkp_Silence.thy ===== *)
theory Net_Binkp_Silence
  imports Net_Binkp_Login
begin

text \<open>
  How long a session waits for a peer that has fallen silent. The script is what the peer did, followed by nothing but
  time-outs; \<open>waits k m\<close> says that \<open>m\<close> uses up at most \<open>k\<close> of them, and \<open>ITEM_WAIT\<close> more for each item of the script
  that it reads. An item can make a session wait that long, because a request \<open>M_GET\<close> has a file sent, with one reading
  operation after each of its blocks of 16384 bytes, of which there are up to 131072.
\<close>

section \<open>Waiting\<close>

definition ITEM_WAIT :: nat where
  "ITEM_WAIT = 131074"

definition waits :: "nat \<Rightarrow> 'a bm \<Rightarrow> bink \<Rightarrow> bool" where
  "waits k m s \<longleftrightarrow> (\<forall>xs n. inp s = xs @ replicate n Late \<and> ITEM_WAIT * length xs + k \<le> n \<longrightarrow>
     (\<exists>ys n'. inp (snd (m s)) = ys @ replicate n' Late \<and> length ys \<le> length xs
        \<and> n + ITEM_WAIT * length ys \<le> n' + ITEM_WAIT * length xs + k))"

named_theorems waits_intros

lemma waits_keep: "inp (snd (m s)) = inp s \<Longrightarrow> waits k m s"
  unfolding waits_def by (metis add_leE le_add1 le_refl nat_add_left_cancel_le trans_le_add1)

lemma waits_cong: "snd (m s) = snd (m' s) \<Longrightarrow> waits k m s \<longleftrightarrow> waits k m' s"
  by (simp add: waits_def)

lemma waits_same: "m s = m' s \<Longrightarrow> waits k m' s \<Longrightarrow> waits k m s"
  by (simp add: waits_def)

lemma waits_if: "(b \<Longrightarrow> waits k m s) \<Longrightarrow> (\<not> b \<Longrightarrow> waits k m' s) \<Longrightarrow> waits k (if b then m else m') s"
  by simp

lemma waits_mono: "waits k m s \<Longrightarrow> k \<le> l \<Longrightarrow> waits l m s"
  unfolding waits_def by (meson add_left_mono le_trans)

lemma waits_returnm [waits_intros]: "waits 0 (returnm x) s"
  by (rule waits_keep) (simp add: returnm_def)

lemma waits_liftm [waits_intros]: "waits 0 (liftm r) s"
  by (rule waits_keep) (simp add: liftm_def)

lemma waits_modifym [waits_intros]: "inp (f s) = inp s \<Longrightarrow> waits 0 (modifym f) s"
  by (rule waits_keep) (simp add: modifym_def)

lemma waits_send_command_packet [waits_intros]: "waits 0 (send_command_packet c d) s"
  by (rule waits_keep) (simp add: send_command_packet_def)

lemma waits_send_data_packet [waits_intros]: "waits 0 (send_data_packet d) s"
  by (rule waits_keep) (simp add: send_data_packet_def)

lemma waits_bindm:
  assumes m: "waits k m s" and f: "\<And>x s1. m s = (Inr x, s1) \<Longrightarrow> waits l (f x) s1"
  shows "waits (k + l) (bindm m f) s"
  unfolding waits_def
proof (intro allI impI)
  fix xs n assume i: "inp s = xs @ replicate n Late \<and> ITEM_WAIT * length xs + (k + l) \<le> n"
  obtain r s1 where r: "m s = (r, s1)" by (cases "m s")
  have "ITEM_WAIT * length xs + k \<le> n" using i by simp
  then obtain ys n' where y: "inp s1 = ys @ replicate n' Late" "length ys \<le> length xs"
    "n + ITEM_WAIT * length ys \<le> n' + ITEM_WAIT * length xs + k"
    using m [unfolded waits_def, rule_format, of xs n] i by (auto simp: r)
  show "\<exists>ys n'. inp (snd (bindm m f s)) = ys @ replicate n' Late \<and> length ys \<le> length xs
      \<and> n + ITEM_WAIT * length ys \<le> n' + ITEM_WAIT * length xs + (k + l)"
  proof (cases r)
    case (Inl e)
    then have "inp (snd (bindm m f s)) = inp s1" using r by (simp add: bindm_def)
    then show ?thesis using y by (intro exI [of _ ys] exI [of _ n']) simp
  next
    case (Inr x)
    have "ITEM_WAIT * length ys + l \<le> n'" using y(3) i by simp
    then obtain zs n'' where z: "inp (snd (f x s1)) = zs @ replicate n'' Late" "length zs \<le> length ys"
      "n' + ITEM_WAIT * length zs \<le> n'' + ITEM_WAIT * length ys + l"
      using f [of x s1, unfolded waits_def, rule_format, of ys n'] r Inr y(1) by auto
    have "snd (bindm m f s) = snd (f x s1)" using r Inr by (simp add: bindm_def)
    then show ?thesis using z y by (intro exI [of _ zs] exI [of _ n'']) simp
  qed
qed

lemma waits_seqm: "waits k m s \<Longrightarrow> (\<And>s1. waits l m' s1) \<Longrightarrow> waits (k + l) (seqm m m') s"
  unfolding seqm_def by (rule waits_bindm)

text \<open>What costs nothing before what costs \<open>l\<close>.\<close>

lemma waits_bindm0: "waits 0 m s \<Longrightarrow> (\<And>x s1. m s = (Inr x, s1) \<Longrightarrow> waits l (f x) s1) \<Longrightarrow> waits l (bindm m f) s"
  using waits_bindm [of 0 m s l f] by simp

lemma waits_seqm0: "waits 0 m s \<Longrightarrow> (\<And>s1. waits l m' s1) \<Longrightarrow> waits l (seqm m m') s"
  using waits_seqm [of 0 m s l m'] by simp

lemma waits_fun: "waits k (m s) s \<Longrightarrow> waits k (\<lambda>s. m s s) s"
  by (simp add: waits_def)

section \<open>Reading\<close>

text \<open>A read takes items of the script, or all of it and one time-out.\<close>

definition takes :: "item list \<Rightarrow> nat \<Rightarrow> bool \<Rightarrow> item list \<Rightarrow> bool" where
  "takes xs n late r \<longleftrightarrow> (\<exists>ys n'. r = ys @ replicate n' Late \<and> length ys \<le> length xs \<and> n \<le> n' + 1 \<and> (n' < n \<longrightarrow> late))"

lemma takesI: "r = ys @ replicate n' Late \<Longrightarrow> length ys \<le> length xs \<Longrightarrow> n \<le> n' + 1 \<Longrightarrow> (n' < n \<longrightarrow> late) \<Longrightarrow> takes xs n late r"
  unfolding takes_def by blast

lemma takes_mono: "takes xs n late r \<Longrightarrow> (late \<Longrightarrow> late') \<Longrightarrow> takes xs n late' r"
  unfolding takes_def by blast

lemma takes_longer: "takes xs n late r \<Longrightarrow> length xs \<le> length zs \<Longrightarrow> takes zs n late r"
proof -
  assume t: "takes xs n late r" and l: "length xs \<le> length zs"
  from t obtain ys n' where "r = ys @ replicate n' Late" "length ys \<le> length xs" "n \<le> n' + 1" "n' < n \<longrightarrow> late"
    unfolding takes_def by blast
  with l show ?thesis by (intro takesI [of _ ys n']) simp_all
qed

lemma read_TYPE_takes:
  assumes "0 < n"
  shows "takes xs n (fst (read_TYPE c (xs @ replicate n Late)) = Inl TimeoutError) (snd (read_TYPE c (xs @ replicate n Late)))"
proof (induction xs arbitrary: c)
  case Nil
  obtain m where "n = Suc m" using assms by (cases n) auto
  then show ?case by (intro takesI [of _ "[]" m]) simp_all
next
  case (Cons x xs)
  show ?case
  proof (cases x)
    case (Byte b)
    consider "c = 0" | "c = 1" | "c \<noteq> 0" "c \<noteq> 1" by blast
    then show ?thesis
    proof cases
      case 1
      then show ?thesis by (intro takesI [of _ "Byte b # xs" n]) (simp_all add: Byte)
    next
      case 2
      then show ?thesis by (intro takesI [of _ xs n]) (simp_all add: Byte)
    next
      case 3
      have "snd (read_TYPE c ((x # xs) @ replicate n Late)) = snd (read_TYPE (c - 1) (xs @ replicate n Late))"
        "fst (read_TYPE (c - 1) (xs @ replicate n Late)) = Inl TimeoutError \<Longrightarrow> fst (read_TYPE c ((x # xs) @ replicate n Late)) = Inl TimeoutError"
        using 3 by (auto simp: Byte split: prod.split sum.split)
      then show ?thesis using takes_longer [OF takes_mono [OF Cons.IH [of "c - 1"]], of _ "x # xs"] by simp
    qed
  next
    case Late
    then show ?thesis by (intro takesI [of _ xs n]) simp_all
  qed
qed

lemma read_some_takes:
  assumes "0 < n"
  shows "takes xs n (fst (read_some c (xs @ replicate n Late)) = Inl TimeoutError) (snd (read_some c (xs @ replicate n Late)))"
  using read_TYPE_takes [OF assms, of xs c] by (auto simp: read_some_def split: prod.splits sum.splits)

lemma reads_take:
  assumes "0 < n"
  shows "takes xs n True (snd (receive k (xs @ replicate n Late)))" "takes xs n True (snd (read_uint8 (xs @ replicate n Late)))"
    "takes xs n (fst (read_uint16 (xs @ replicate n Late)) = Inl TimeoutError) (snd (read_uint16 (xs @ replicate n Late)))"
proof -
  have same: "takes xs n True (xs @ replicate n Late)" by (rule takesI [of _ xs n]) simp_all
  have some: "takes xs n True (snd (read_some c (xs @ replicate n Late)))" for c
    using takes_mono [OF read_some_takes [OF assms, of xs c], of True] by simp
  show "takes xs n True (snd (receive k (xs @ replicate n Late)))" using same some by (simp add: receive_def)
  show "takes xs n True (snd (read_uint8 (xs @ replicate n Late)))"
    using some [of 1] unfolding read_uint8_def by (cases "read_some 1 (xs @ replicate n Late)") (simp split: sum.split)
  show "takes xs n (fst (read_uint16 (xs @ replicate n Late)) = Inl TimeoutError) (snd (read_uint16 (xs @ replicate n Late)))"
    using read_some_takes [OF assms, of xs 2] unfolding read_uint16_def
    by (cases "read_some 2 (xs @ replicate n Late)") (auto split: sum.split)
qed

lemma waits_readm:
  assumes "\<And>xs n. 0 < n \<Longrightarrow> takes xs n True (snd (rd (xs @ replicate n Late)))"
  shows "waits 1 (readm rd) s"
  unfolding waits_def
proof (intro allI impI)
  fix xs n assume i: "inp s = xs @ replicate n Late \<and> ITEM_WAIT * length xs + 1 \<le> n"
  then obtain ys n' where y: "snd (rd (xs @ replicate n Late)) = ys @ replicate n' Late" "length ys \<le> length xs" "n \<le> n' + 1"
    using assms [of n xs] unfolding takes_def by auto
  have "ITEM_WAIT * length ys \<le> ITEM_WAIT * length xs" using y(2) by (rule mult_le_mono2)
  then have "n + ITEM_WAIT * length ys \<le> n' + ITEM_WAIT * length xs + 1" using y(3) by linarith
  moreover have "inp (snd (readm rd s)) = ys @ replicate n' Late" using i y(1) by (simp add: readm_def case_prod_beta)
  ultimately show "\<exists>ys n'. inp (snd (readm rd s)) = ys @ replicate n' Late \<and> length ys \<le> length xs
      \<and> n + ITEM_WAIT * length ys \<le> n' + ITEM_WAIT * length xs + 1"
    using y(2) by blast
qed

lemma waits_reads [waits_intros]: "waits 1 (readm (receive k)) s" "waits 1 (readm read_uint8) s" "waits 1 (readm read_uint16) s"
  by (rule waits_readm, rule reads_take, assumption)+ (rule waits_readm, rule takes_mono, erule reads_take(3), simp)

text \<open>A header that is there has been taken from the script, and pays for what the command makes the session wait.\<close>

lemma waits_turn:
  assumes "\<And>header s1. waits (ITEM_WAIT + 1) (f header) s1"
  shows "waits 1 (bindm (readm read_uint16) f) s"
  unfolding waits_def
proof (intro allI impI)
  fix xs n assume i: "inp s = xs @ replicate n Late \<and> ITEM_WAIT * length xs + 1 \<le> n"
  obtain v r where rd: "read_uint16 (inp s) = (v, r)" by (cases "read_uint16 (inp s)")
  have "takes xs n (v = Inl TimeoutError) r" using reads_take(3) [of n xs] i rd by simp
  then obtain ys n' where y: "r = ys @ replicate n' Late" "length ys \<le> length xs" "n \<le> n' + 1" "n' < n \<longrightarrow> v = Inl TimeoutError"
    unfolding takes_def by blast
  have le: "ITEM_WAIT * length ys \<le> ITEM_WAIT * length xs" using y(2) by (rule mult_le_mono2)
  show "\<exists>ys n'. inp (snd (bindm (readm read_uint16) f s)) = ys @ replicate n' Late \<and> length ys \<le> length xs
      \<and> n + ITEM_WAIT * length ys \<le> n' + ITEM_WAIT * length xs + 1"
  proof (cases v)
    case (Inl e)
    then have "inp (snd (bindm (readm read_uint16) f s)) = ys @ replicate n' Late" using rd y(1) by (simp add: bindm_def readm_def)
    moreover have "n + ITEM_WAIT * length ys \<le> n' + ITEM_WAIT * length xs + 1" using y(3) le by linarith
    ultimately show ?thesis using y(2) by blast
  next
    case (Inr header)
    have "length r < length (inp s)" using read_uint16_shrinks(3) [of "inp s" header] rd Inr by simp
    then have less: "length ys < length xs" using y i Inr by simp
    then have "ITEM_WAIT * Suc (length ys) \<le> ITEM_WAIT * length xs" by (intro mult_le_mono2) simp
    then have pay: "ITEM_WAIT * length ys + ITEM_WAIT \<le> ITEM_WAIT * length xs" by simp
    have n: "n \<le> n'" using y(4) Inr by auto
    let ?s1 = "s\<lparr>inp := r\<rparr>"
    have "ITEM_WAIT * length ys + (ITEM_WAIT + 1) \<le> n'" using i n pay by linarith
    then obtain zs n'' where z: "inp (snd (f header ?s1)) = zs @ replicate n'' Late" "length zs \<le> length ys"
      "n' + ITEM_WAIT * length zs \<le> n'' + ITEM_WAIT * length ys + (ITEM_WAIT + 1)"
      using assms [of header ?s1, unfolded waits_def, rule_format, of ys n'] y(1) by auto
    have "snd (bindm (readm read_uint16) f s) = snd (f header ?s1)" using rd Inr by (simp add: bindm_def readm_def)
    moreover have "n + ITEM_WAIT * length zs \<le> n'' + ITEM_WAIT * length xs + 1" using z(3) pay n by linarith
    moreover have "length zs \<le> length xs" using z(2) less by simp
    ultimately show ?thesis using z(1) by auto
  qed
qed

section \<open>Commands and frames\<close>

lemma waits_guarded: "waits k m s \<Longrightarrow> waits k (guarded m) s"
proof -
  assume w: "waits k m s"
  have "snd (catch_timeout m s) = snd (m s)" by (auto simp: catch_timeout_def split: prod.splits sum.splits bexn.splits)
  then have "waits k (catch_timeout m) s" using w waits_cong by blast
  then show ?thesis by (cases "conn_open s") (auto simp: guarded_def intro: waits_keep waits_cong [THEN iffD1, rotated])
qed

definition chunks :: "int \<Rightarrow> nat \<Rightarrow> nat" where
  "chunks len start = nat ((len - int start + 16383) div 16384)"

lemma waits_send_chunks:
  assumes "\<And>s. waits 1 frames s"
  shows "waits (chunks len start) (send_chunks frames f len start chunk) s"
  using assms
proof (induction frames f len start chunk s rule: send_chunks.induct)
  case (1 frames f len start chunk s)
  show ?case
  proof (cases "int start < len \<and> map_of (files_to_send s) (tf_name f) \<noteq> None")
    case True
    let ?count = "nat (min 16384 (len - int start))"
    let ?chunk = "case GetChunk (disk s) f start ?count of None \<Rightarrow> chunk | Some b \<Rightarrow> b @ drop (length b) chunk"
    have step: "send_chunks frames f len start chunk s =
        bindm (send_data_packet (take ?count ?chunk)) (\<lambda>_. bindm frames (\<lambda>_. send_chunks frames f len (start + 16384) ?chunk)) s"
      using True by (subst send_chunks.simps) (auto simp: Let_def)
    have "waits (chunks len (start + 16384)) (send_chunks frames f len (start + 16384) ?chunk) s1" for s1
      using True "1.IH" [of ?count ?chunk] "1.prems" by blast
    then have "waits (1 + chunks len (start + 16384)) (bindm (send_data_packet (take ?count ?chunk))
        (\<lambda>_. bindm frames (\<lambda>_. send_chunks frames f len (start + 16384) ?chunk))) s"
      by (intro waits_bindm0 [OF waits_send_data_packet] waits_bindm "1.prems")
    moreover have "1 + chunks len (start + 16384) \<le> chunks len start"
    proof -
      have "len - int start + 16383 = (len - int (start + 16384) + 16383) + 16384 * 1" by simp
      then have "(len - int start + 16383) div 16384 = (len - int (start + 16384) + 16383) div 16384 + 1"
        by (simp only: div_mult_self2)
      moreover have "0 \<le> (len - int (start + 16384) + 16383) div 16384" using True by (intro pos_imp_zdiv_nonneg_iff [THEN iffD2]) simp_all
      ultimately show ?thesis by (simp add: chunks_def nat_add_distrib)
    qed
    ultimately have "waits (chunks len start) (bindm (send_data_packet (take ?count ?chunk))
        (\<lambda>_. bindm frames (\<lambda>_. send_chunks frames f len (start + 16384) ?chunk))) s"
      by (rule waits_mono)
    then show ?thesis by (simp add: waits_def step)
  next
    case False
    then have "send_chunks frames f len start chunk s = (Inl (Cpp UndefinedBehaviour), s)
        \<or> send_chunks frames f len start chunk s = (Inr True, s)"
      by (subst (1 2) send_chunks.simps) auto
    then show ?thesis by (intro waits_keep) auto
  qed
qed

lemma chunks_of_file: "chunks (file_size fs f) 0 \<le> 131072"
proof -
  have "file_size fs f \<le> 2147483647"
  proof (cases "fs (tf_path f)")
    case (Some c)
    have "sint (word_of_nat (length c) :: 32 word) < 2 ^ 31" using sint_less [of "word_of_nat (length c) :: 32 word"] by simp
    then show ?thesis using Some by (simp add: file_size_def)
  qed (simp add: file_size_def)
  then have "(file_size fs f + 16383) div 16384 \<le> (2147483647 + 16383) div 16384" by (intro zdiv_mono1) simp_all
  then show ?thesis by (simp add: chunks_def)
qed

lemma waits_SendFileData: "(\<And>s. waits 1 frames s) \<Longrightarrow> waits 131072 (SendFileData frames env f) s"
  using waits_mono [OF waits_send_chunks [of frames "file_size (disk s) f" 0 f "chunk_memory env" s] chunks_of_file]
  by (simp add: SendFileData_def waits_def)

lemma waits_HandlePassword: "waits 0 (HandlePassword data) s"
  unfolding HandlePassword_def by (auto intro!: waits_seqm0 waits_intros)

lemma waits_HandleOption: "waits 0 (HandleOption data) s"
  unfolding HandleOption_def Let_def by (auto intro!: waits_intros split: option.split)

lemma waits_HandleFileRequest: "waits 0 (HandleFileRequest env data) s"
  unfolding HandleFileRequest_def
proof (intro waits_seqm0 waits_bindm0 waits_intros)
  fix s1 r s2
  show "waits 0 (case r of None \<Rightarrow> returnm False
       | Some (filename, expected_length, timestamp, starting_offset) \<Rightarrow>
           (\<lambda>s. bindm (liftm (transfer_file_path env (remote_network_name env s) filename))
                 (\<lambda>path. seqm (modifym (\<lambda>s. s\<lparr>current_receive_file :=
                    Some \<lparr>rf_name = filename, rf_path = path, rf_expected = expected_length, rf_time = timestamp,
                       rf_length = 0, rf_open = False, rf_pos = 0\<rparr>\<rparr>)) (returnm True)) s)) s2"
  proof (cases r)
    case (Some q)
    obtain fn len ts off where q: "q = (fn, len, ts, off)" by (cases q)
    have "waits 0 (bindm (liftm (transfer_file_path env (remote_network_name env s2) fn))
        (\<lambda>path. seqm (modifym (\<lambda>s. s\<lparr>current_receive_file :=
           Some \<lparr>rf_name = fn, rf_path = path, rf_expected = len, rf_time = ts,
                 rf_length = 0, rf_open = False, rf_pos = 0\<rparr>\<rparr>)) (returnm True))) s2"
      by (intro waits_bindm0 waits_seqm0 waits_intros) simp
    then show ?thesis by (rule waits_same [rotated]) (simp add: Some q)
  qed (simp add: waits_returnm)
qed simp_all

lemma waits_HandleFileGotRequest: "waits 0 (HandleFileGotRequest data) s"
  unfolding HandleFileGotRequest_def Let_def
  by (intro waits_bindm0 waits_intros) (auto intro!: waits_keep split: option.split)

lemma waits_HandleFileGetRequest:
  assumes "\<And>s. waits 1 frames s"
  shows "waits 131072 (HandleFileGetRequest frames env data) s"
proof -
  have "waits 131072 (\<lambda>s. case map_of (files_to_send s) fn of None \<Rightarrow> (Inr False, s)
      | Some f \<Rightarrow> SendFileData frames env f s) s1" for fn s1
  proof (cases "map_of (files_to_send s1) fn")
    case None
    then show ?thesis by (intro waits_keep) simp
  next
    case (Some f)
    show ?thesis by (rule waits_same [OF _ waits_SendFileData [OF assms]]) (simp add: Some)
  qed
  then show ?thesis
    unfolding HandleFileGetRequest_def Let_def by (intro waits_bindm0 waits_intros) (auto intro: waits_intros)
qed

lemma waits_handle_command:
  assumes "\<And>s. waits 1 frames s"
  shows "waits 131072 (handle_command frames env c data) s"
proof -
  have seq: "waits 131072 (seqm m (returnm True)) s" if "waits 131072 m s" for m :: "'b bm"
    using waits_seqm [OF that waits_returnm] by simp
  have small: "waits 131072 m s" if "waits 0 m s" for m :: "'b bm" using waits_mono [OF that] by simp
  show ?thesis
    unfolding handle_command_def
    by (intro waits_if seq waits_HandleFileGetRequest [OF assms] small [OF waits_HandlePassword] small [OF waits_HandleOption]
        small [OF waits_HandleFileRequest] small [OF waits_HandleFileGotRequest] small [OF waits_modifym] small [OF waits_returnm]) simp_all
qed

lemma waits_process_command:
  assumes "\<And>s. waits 1 frames s"
  shows "waits ITEM_WAIT (process_command frames env len) s"
proof -
  have "waits (1 + (1 + 131072)) (bindm (readm read_uint8) (\<lambda>command_id. bindm (readm (receive (int len - 1)))
      (\<lambda>data. bindm (liftm (command_id_to_name command_id)) (\<lambda>_. handle_command frames env command_id data)))) s"
    by (intro waits_bindm waits_reads waits_bindm0 [OF waits_liftm] waits_handle_command assms)
  then have w: "waits ITEM_WAIT (bindm (readm read_uint8) (\<lambda>command_id. bindm (readm (receive (int len - 1)))
      (\<lambda>data. bindm (liftm (command_id_to_name command_id)) (\<lambda>_. handle_command frames env command_id data)))) s"
    by (simp add: ITEM_WAIT_def)
  show ?thesis
  proof (cases "conn_open s")
    case True
    then show ?thesis using w by (simp add: waits_def process_command_def)
  next
    case False
    then show ?thesis by (intro waits_keep) (simp add: process_command_def)
  qed
qed

lemma waits_process_data: "waits ITEM_WAIT (process_data len) s"
proof -
  have "waits 0 (accept_data data) s1" for data s1
    by (rule waits_keep) (auto simp: accept_data_def Let_def seqm_def bindm_def modifym_def send_command_packet_def
        returnm_def split: option.split prod.split)
  then have "waits (1 + 0) (bindm (readm (receive (int len))) accept_data) s" by (intro waits_bindm waits_reads)
  then have w: "waits ITEM_WAIT (bindm (readm (receive (int len))) accept_data) s" by (rule waits_mono) (simp add: ITEM_WAIT_def)
  show ?thesis
  proof (cases "conn_open s")
    case True
    then show ?thesis using w by (simp add: waits_def process_data_def)
  next
    case False
    then show ?thesis by (intro waits_keep) (simp add: process_data_def)
  qed
qed

lemma waits_frames_loop: "waits 1 (frames_loop n env p) s"
proof (induction n arbitrary: env p s)
  case 0
  show ?case by (rule waits_keep) simp
next
  case (Suc n env p s)
  obtain stop p1 where stop: "test_pred p s = (stop, p1)" by (cases "test_pred p s")
  show ?case
  proof (cases stop)
    case True
    then show ?thesis by (intro waits_keep) (simp add: stop)
  next
    case False
    let ?rest = "\<lambda>header. bindm (if header AND 0x8000 \<noteq> 0
        then process_command (guarded (frames_loop n env Never)) env (unat (header AND 0x7fff))
        else process_data (unat (header AND 0x7fff)))
      (\<lambda>ok. if \<not> ok then returnm False else frames_loop n env p1)"
    have loop: "frames_loop (Suc n) env p s = bindm (readm read_uint16) ?rest s" using False by (simp add: stop)
    have frames: "waits 1 (guarded (frames_loop n env Never)) s1" for s1 by (rule waits_guarded [OF Suc.IH])
    have "waits (ITEM_WAIT + 1) (?rest header) s1" for header s1
      by (intro waits_bindm waits_if waits_process_command [OF frames] waits_process_data Suc.IH waits_mono [OF waits_returnm]) simp_all
    then have "waits 1 (bindm (readm read_uint16) ?rest) s" by (rule waits_turn)
    then show ?thesis by (simp add: waits_def loop del: frames_loop.simps)
  qed
qed

lemma waits_process_frames [waits_intros]: "waits 1 (process_frames env p) s"
proof -
  have "waits 1 (turns env p) s"
    using waits_frames_loop [of "Suc (length (inp s))" env p s] by (simp add: waits_def turns_def del: frames_loop.simps)
  then show ?thesis unfolding process_frames_def by (rule waits_guarded)
qed

section \<open>States\<close>

lemma waits_wait_for: "waits k (wait_for k env p) s"
proof (induction k arbitrary: s)
  case 0
  show ?case by (rule waits_keep) simp
next
  case (Suc k)
  have "waits k (\<lambda>s. if fst (test_pred p s) then (Inr True, s) else wait_for k env p s) s1" for s1
  proof (cases "fst (test_pred p s1)")
    case True
    then show ?thesis by (intro waits_keep) simp
  next
    case False
    then show ?thesis using Suc.IH [of s1] by (simp add: waits_def)
  qed
  then have "waits (1 + k) (bindm (process_frames env p) (\<lambda>_ s. if fst (test_pred p s) then (Inr True, s) else wait_for k env p s)) s"
    by (intro waits_bindm waits_process_frames)
  then show ?case by (simp add: waits_def)
qed

lemma waits_percolate: "waits k (percolate k env) s"
proof (induction k arbitrary: s)
  case 0
  show ?case by (simp add: waits_returnm)
next
  case (Suc k)
  have "waits (1 + k) (seqm (process_frames env Never) (percolate k env)) s" by (intro waits_seqm waits_process_frames Suc.IH)
  then show ?case by simp
qed

lemma waits_announce_networks: "waits 0 (announce_networks ns a) s"
  by (induction ns a arbitrary: s rule: announce_networks.induct) (auto intro!: waits_seqm0 waits_intros simp: Let_def)

lemma waits_primary_address: "waits 0 (primary_address env) s"
  unfolding primary_address_def by (intro waits_bindm0 waits_seqm0 waits_intros)

lemma waits_offer_cram: "waits 0 (offer_cram) s"
  by (rule waits_keep) (simp add: offer_cram_def Let_def seqm_def bindm_def send_command_packet_def returnm_def)

lemma waits_ConnInit: "waits 1 (ConnInit env) s"
  unfolding ConnInit_def using waits_seqm [OF waits_process_frames waits_returnm] by simp

lemma waits_WaitConn: "waits 1 (WaitConn env) s"
proof -
  have frames: "waits 1 (seqm (process_frames env Never) (returnm st)) s1" for st s1
    using waits_seqm [OF waits_process_frames waits_returnm] by simp
  show ?thesis
    unfolding WaitConn_def
    by (rule waits_seqm0, rule waits_if, rule waits_offer_cram, rule waits_returnm)
      ((rule waits_seqm0, rule waits_send_command_packet)+, rule waits_bindm0, rule waits_if, rule waits_announce_networks,
        rule waits_primary_address, rule waits_seqm0, rule waits_send_command_packet, rule frames)
qed

lemma waits_SendPasswd: "waits 0 (SendPasswd env) s"
proof -
  have "waits 0 (send_password env password) s1" for password s1
    by (rule waits_keep) (cases "bink_auth s1"; simp add: send_password_def Let_def seqm_def bindm_def send_command_packet_def
        returnm_def case_prod_beta)
  then have "waits 0 (bindm (liftm (callout_for env (remote_network_name env s)))
      (\<lambda>callout. send_password env (expected_password_for callout (expected_remote_node env)))) s"
    by (intro waits_bindm0 waits_liftm)
  then show ?thesis by (simp add: waits_def SendPasswd_def)
qed

lemma waits_then: "(\<And>s. waits k m s) \<Longrightarrow> waits k (seqm m (returnm x)) s"
proof -
  assume "\<And>s. waits k m s"
  then have "waits (k + 0) (seqm m (returnm x)) s" by (intro waits_seqm waits_returnm)
  then show ?thesis by simp
qed

lemma waits_waiting: "waits 10 (WaitAddr env) s" "waits 30 (WaitPwd env) s" "waits 1 (Unknown env) s"
  unfolding WaitAddr_def WaitPwd_def Unknown_def by (intro waits_then waits_wait_for waits_process_frames)+

lemma waits_WaitOk: "waits 30 (WaitOk env) s"
proof -
  have "waits (30 + 0) (WaitOk env) s"
    unfolding WaitOk_def by (intro waits_bindm waits_wait_for waits_if waits_returnm waits_seqm0 waits_send_command_packet)
  then show ?thesis by simp
qed

lemma waits_WaitEob: "waits 11 (WaitEob env) s"
proof (cases "eob_received s")
  case True
  then show ?thesis by (intro waits_keep) (simp add: WaitEob_def)
next
  case False
  then show ?thesis using waits_then [OF waits_wait_for, of 11 env HaveEob DONE s] by (simp add: waits_def WaitEob_def)
qed

lemma waits_AuthRemote: "waits 0 (AuthRemote env) s"
  by (rule waits_keep) (auto simp: AuthRemote_def Let_def bindm_def seqm_def liftm_def send_command_packet_def returnm_def
      split: sum.split option.split)

lemma waits_PasswordAck: "waits 0 (PasswordAck env) s"
proof -
  have check: "inp (snd (check_password env pw s1)) = inp s1" for pw s1
    by (cases "bink_auth s1") (simp_all add: check_password_def Let_def case_prod_beta)
  have "inp (snd (answer_password env pw s1)) = inp s1" for pw s1
    using check [of pw s1] by (simp add: answer_password_def Let_def seqm_def bindm_def send_command_packet_def returnm_def case_prod_beta)
  then have "waits 0 (answer_password env pw) s1" for pw s1 by (rule waits_keep)
  then have "waits 0 (bindm (liftm (remote_network_node env s)) (\<lambda>remote_node.
     bindm (liftm (callout_for env (remote_network_name env s))) (\<lambda>callout.
       answer_password env (expected_password_for callout remote_node)))) s"
    by (intro waits_bindm0 waits_liftm)
  then show ?thesis by (simp add: waits_def PasswordAck_def)
qed

lemma waits_SendFilePacket: "waits 131073 (SendFilePacket env f) s"
proof -
  have send: "waits 131072 (\<lambda>s. if map_of (files_to_send s) (tf_name f) \<noteq> None
      then seqm (SendFileData (process_frames env Never) env f) (returnm True) s else (Inr True, s)) s1" for s1
  proof (cases "map_of (files_to_send s1) (tf_name f)")
    case None
    then show ?thesis by (intro waits_keep) simp
  next
    case (Some g)
    have "waits 131072 (seqm (SendFileData (process_frames env Never) env f) (returnm True)) s1"
      by (intro waits_then waits_SendFileData waits_process_frames)
    then show ?thesis using Some by (simp add: waits_def)
  qed
  have cmd: "waits 0 (\<lambda>s. send_command_packet M_FILE (as_packet_data (tf_name f) (file_size (disk s) f) (tf_time f) 0) s) s1" for s1
    using waits_send_command_packet [of M_FILE "as_packet_data (tf_name f) (file_size (disk s1) f) (tf_time f) 0" s1] by (simp add: waits_def)
  have "waits (1 + 131072) (SendFilePacket env f) s"
    unfolding SendFilePacket_def
    by (rule waits_seqm0, rule waits_modifym, simp, rule waits_seqm0, rule cmd, rule waits_seqm, rule waits_process_frames, rule send)
  then show ?thesis by simp
qed

lemma waits_send_all: "waits (131073 * length fs) (send_all env fs) s"
proof (induction fs arbitrary: s)
  case Nil
  show ?case by (simp add: waits_returnm)
next
  case (Cons f fs)
  have "waits (131073 + 131073 * length fs) (seqm (SendFilePacket env f) (send_all env fs)) s"
    by (intro waits_seqm waits_SendFilePacket Cons.IH)
  then show ?case by simp
qed

lemma waits_finish_transfer: "waits 1 (finish_transfer env) s"
proof (cases "files_to_send s = []")
  case True
  have "waits 1 (seqm (send_command_packet M_EOB ''All files to send have been sent. Thank you.'')
      (seqm (process_frames env Never) (returnm WAIT_EOB))) s"
    by (intro waits_seqm0 [OF waits_send_command_packet] waits_then waits_process_frames)
  then show ?thesis using True by (simp add: waits_def finish_transfer_def)
next
  case False
  then show ?thesis by (intro waits_keep) (simp add: finish_transfer_def)
qed

lemma waits_transfer_to: "waits 131079 (transfer_to env dir node) s"
proof -
  have "waits 131079 (seqm (send_all env files) (seqm (percolate 5 env) (finish_transfer env))) s1"
    if "liftm (CreateTransferFileList env dir node (disk s)) s = (Inr files, s1)" for files s1
  proof -
    have "length files \<le> 1"
      using that by (auto simp: liftm_Inr CreateTransferFileList_def bind_res_Inr_iff Let_def split: if_splits)
    then have all: "waits 131073 (send_all env files) s1" by (intro waits_mono [OF waits_send_all]) simp
    have "waits (131073 + (5 + 1)) (seqm (send_all env files) (seqm (percolate 5 env) (finish_transfer env))) s1"
      by (intro waits_seqm [OF all] waits_seqm waits_percolate waits_finish_transfer)
    then show ?thesis by simp
  qed
  then have "waits 131079 (bindm (liftm (CreateTransferFileList env dir node (disk s))) (\<lambda>files.
      seqm (send_all env files) (seqm (percolate 5 env) (finish_transfer env)))) s"
    by (intro waits_bindm0 waits_liftm) blast
  then show ?thesis by (simp add: waits_def transfer_to_def)
qed

lemma waits_TransferFiles: "waits 131080 (TransferFiles env) s"
proof -
  have "waits (1 + 131079) (seqm (process_frames env Never)
      (bindm (liftm (network_dir (config env) (remote_network_name env s))) (\<lambda>dir. transfer_to env dir node))) s1" for node s1
    by (intro waits_seqm waits_process_frames waits_bindm0 [OF waits_liftm] waits_transfer_to)
  then have "waits 131080 (bindm (liftm (remote_network_node env s)) (\<lambda>remote_node. seqm (process_frames env Never)
      (bindm (liftm (network_dir (config env) (remote_network_name env s))) (\<lambda>dir. transfer_to env dir remote_node)))) s"
    by (intro waits_bindm0 waits_liftm) simp
  then show ?thesis by (simp add: waits_def TransferFiles_def)
qed

section \<open>The session\<close>

fun state_wait :: "bink_state \<Rightarrow> nat" where
  "state_wait CONN_INIT = 1" | "state_wait WAIT_CONN = 1" | "state_wait SEND_PASSWORD = 0" | "state_wait WAIT_ADDR = 10"
| "state_wait AUTH_REMOTE = 0" | "state_wait IF_SECURE = 0" | "state_wait WAIT_PWD = 30" | "state_wait WAIT_OK = 30"
| "state_wait PASSWORD_ACK = 0" | "state_wait TRANSFER_FILES = 131080" | "state_wait WAIT_EOB = 11" | "state_wait UNKNOWN = 1"
| "state_wait DONE = 0"

lemma waits_run_state: "waits (state_wait st) (run_state env st) s"
  using waits_seqm0 [OF waits_modifym [of "\<lambda>s. s\<lparr>conn_open := False\<rparr>" s] waits_returnm]
  by (cases st)
    (simp_all add: run_state_def IfSecure_def waits_ConnInit [simplified] waits_WaitConn [simplified] waits_SendPasswd waits_waiting [simplified]
      waits_WaitOk waits_WaitEob waits_AuthRemote waits_PasswordAck waits_TransferFiles waits_returnm)

text \<open>What is still to be waited from a state on.\<close>

fun patience :: "bink_state \<Rightarrow> nat" where
  "patience CONN_INIT = 131143" | "patience WAIT_CONN = 131141" | "patience SEND_PASSWORD = 131139" | "patience WAIT_ADDR = 131138"
| "patience AUTH_REMOTE = 131127" | "patience IF_SECURE = 131126" | "patience WAIT_PWD = 131126" | "patience WAIT_OK = 131125"
| "patience PASSWORD_ACK = 131095" | "patience TRANSFER_FILES = 131094" | "patience WAIT_EOB = 13" | "patience UNKNOWN = 3"
| "patience DONE = 1"

lemma patience_edge: "edge d st st1 \<Longrightarrow> state_wait st + (1 + patience st1) \<le> patience st"
  by (induction rule: edge.induct) simp_all

lemma patience_state: "state_wait st + 1 \<le> patience st" "patience st \<le> 131143"
  by (cases st; simp)+

lemma waits_run_loop: "waits (patience st) (run_loop env st) s"
proof (induction env st s rule: run_loop.induct)
  case (1 env st s)
  let ?next = "\<lambda>st1 err. bindm (process_frames env Never) (\<lambda>_. if st = DONE \<or> err then returnm () else run_loop env st1)"
  have nxt: "waits (patience st - state_wait st) (?next st1 (error_received s1)) s1" if r: "run_state env st s = (Inr st1, s1)" for st1 s1
  proof -
    have "waits (patience st - state_wait st - 1) (if st = DONE \<or> error_received s1 then returnm () else run_loop env st1) s2"
      if p: "process_frames env Never s1 = (Inr b, s2)" for b s2
    proof (cases "st = DONE \<or> error_received s1")
      case True
      then show ?thesis by (simp add: waits_mono [OF waits_returnm])
    next
      case False
      have "edge (bink_side env) st st1" using run_state_edge [OF r] False by simp
      then have le: "patience st1 \<le> patience st - state_wait st - 1" using patience_edge by fastforce
      have "waits (patience st1) (run_loop env st1) s2" using "1.IH" r p False by metis
      then show ?thesis using False waits_mono [OF _ le] by simp
    qed
    then have "waits (1 + (patience st - state_wait st - 1)) (?next st1 (error_received s1)) s1"
      by (intro waits_bindm waits_process_frames) blast
    moreover have "1 + (patience st - state_wait st - 1) = patience st - state_wait st" using patience_state(1) [of st] by linarith
    ultimately show ?thesis by (simp only:)
  qed
  have "waits (state_wait st + (patience st - state_wait st)) (bindm (run_state env st) (\<lambda>st1 s1. ?next st1 (error_received s1) s1)) s"
  proof (intro waits_bindm waits_run_state)
    fix st1 s1 assume "run_state env st s = (Inr st1, s1)"
    from nxt [OF this] show "waits (patience st - state_wait st) (\<lambda>s1. ?next st1 (error_received s1) s1) s1" by (simp add: waits_def)
  qed
  moreover have "run_loop env st s = bindm (run_state env st) (\<lambda>st1 s1. ?next st1 (error_received s1) s1) s"
    by (subst run_loop.simps) (auto simp: bindm_def returnm_def split: prod.split sum.split)
  ultimately show ?case using patience_state(1) [of st] by (simp add: waits_def)
qed

section \<open>Properties\<close>

text \<open>C36 A session does not wait for ever: whatever the peer has done, when it falls silent without closing the connection
  the session ends by itself. It gives up after at most 131143 time-outs, of which 131072 are one for each block
  of the largest file there can be to send, and 131074 more for every item of what the peer did; so time-outs are left over
  and it is not the closing of the connection that ends it. The state and the record the session is in are arbitrary. A peer
  that goes on sending packets for ever is not one that falls silent: \<open>process_frames\<close> reads packets for as
  long as they come in time.\<close>

theorem silent_peer_left:
  assumes "inp s = script @ replicate n Late" "131074 * length script + 131143 < n"
  shows "fst (run_loop env st s) \<noteq> Inl OutOfFuel \<and> (\<exists>rest left. inp (snd (run_loop env st s)) = rest @ replicate left Late
    \<and> 0 < left \<and> n \<le> left + 131074 * length script + 131143)"
proof -
  have w: "waits 131143 (run_loop env st) s" by (rule waits_mono [OF waits_run_loop patience_state(2)])
  obtain ys n' where y: "inp (snd (run_loop env st s)) = ys @ replicate n' Late"
    "n + ITEM_WAIT * length ys \<le> n' + ITEM_WAIT * length script + 131143"
    using w [unfolded waits_def, rule_format, of script n] assms by (auto simp: ITEM_WAIT_def)
  then have le: "n \<le> n' + 131074 * length script + 131143" by (simp add: ITEM_WAIT_def)
  have "fst (run_loop env st s) \<noteq> Inl OutOfFuel" using pres_run_loop [of "Suc (length (inp s))" env st s] by (simp add: pres_def)
  moreover have "0 < n'" using le assms(2) by linarith
  ultimately show ?thesis using y(1) le by blast
qed

theorem silent_peer_left_witness:
  "\<exists>rest left. inp (snd (run_loop (demo_env ANSWERING) CONN_INIT (new_bink (Byte (CHR 0x80) # replicate 300000 Late) Map.empty)))
    = rest @ replicate left Late \<and> 37783 \<le> left"
proof -
  obtain n :: nat where n: "n = 300000" by simp
  have i: "inp (new_bink (Byte (CHR 0x80) # replicate n Late) Map.empty) = [Byte (CHR 0x80)] @ replicate n Late" by (simp add: new_bink_def)
  obtain rest left where "inp (snd (run_loop (demo_env ANSWERING) CONN_INIT (new_bink (Byte (CHR 0x80) # replicate n Late) Map.empty)))
      = rest @ replicate left Late" "n \<le> left + 131074 * length [Byte (CHR 0x80)] + 131143"
    using silent_peer_left [OF i, of "demo_env ANSWERING" CONN_INIT] n by auto
  then show ?thesis unfolding n [symmetric] using n by (intro exI [of _ rest] exI [of _ left]) simp
qed

end
