(* ===== verification/Sdk_Names.thy ===== *)
theory Sdk_Names
  imports Core_File Core_Path
begin

text \<open>
  \<open>sdk/names.cpp\<close>: \<open>NAMES.LST\<close>, the index of the users by name. The object holds the records of
  the file in the order of their upper-case names. Reading a name whose array has no NUL, and
  copying a name that does not fit its array, is \<open>Inl UndefinedBehaviour\<close>.

  \<open>names_inv\<close> is the invariant of the list; the lemmas show that the operations keep it and act on
  the map from names to user numbers that the list stands for.
\<close>

section \<open>The records\<close>

record smalrec =
  sm_name :: bytes
  sm_number :: u16

definition enc_smalrec :: "smalrec \<Rightarrow> bytes" where
  "enc_smalrec r = sm_name r @ enc_u16 (sm_number r)"

definition dec_smalrec :: "bytes \<Rightarrow> smalrec" where
  "dec_smalrec b = \<lparr>sm_name = read_at 0 31 b, sm_number = dec_u16 (read_at 31 2 b)\<rparr>"

definition valid_smalrec :: "smalrec \<Rightarrow> bool" where
  "valid_smalrec r \<longleftrightarrow> length (sm_name r) = 31"

interpretation smalrec_codec: record_codec enc_smalrec dec_smalrec valid_smalrec 33
proof unfold_locales
  show "length (enc_smalrec r) = 33" "dec_smalrec (enc_smalrec r) = r" if "valid_smalrec r" for r
    using that by (simp_all add: enc_smalrec_def dec_smalrec_def valid_smalrec_def read_at_def)
  show "valid_smalrec (dec_smalrec b)" "enc_smalrec (dec_smalrec b) = b" if "length b = 33" for b
    using that by (simp_all add: enc_smalrec_def dec_smalrec_def valid_smalrec_def enc_dec_u16 length_read_at read_at_last
        read_at_append_drop)
qed simp

text \<open>The name as a C string.\<close>

definition name_chars :: "smalrec \<Rightarrow> cpp_error + string" where
  "name_chars r = (if NUL \<in> set (sm_name r) then Inr (c_str (sm_name r)) else Inl UndefinedBehaviour)"

section \<open>The list\<close>

record Names =
  names_dir :: string
  names_loaded :: bool
  save_on_exit :: bool
  names_vector :: "smalrec list"

abbreviation NAMES_LST :: string where
  "NAMES_LST \<equiv> ''names.lst''"

definition smalrec_for :: "u32 \<Rightarrow> smalrec list \<Rightarrow> smalrec" where
  "smalrec_for user_number ns =
     (case find (\<lambda>n. ucast (sm_number n) = user_number) ns of
        Some n \<Rightarrow> n
      | None \<Rightarrow> \<lparr>sm_name = replicate 31 NUL, sm_number = 0\<rparr>)"

definition UserName :: "u32 \<Rightarrow> Names \<Rightarrow> cpp_error + string" where
  "UserName user_number ns =
     (let sr = smalrec_for user_number (names_vector ns)
      in if sm_number sr = 0 then Inr []
         else bind_res (name_chars sr) (\<lambda>name. Inr (StringPrintf (c_str (properize name) @ '' #'' @ show_nat (unat user_number)))))"

definition UserName_at :: "u32 \<Rightarrow> u32 \<Rightarrow> Names \<Rightarrow> cpp_error + string" where
  "UserName_at user_number system_number ns =
     bind_res (UserName user_number ns) (\<lambda>base.
       if base = [] then Inr [] else Inr (StringPrintf (c_str base @ '' @'' @ show_nat (unat system_number))))"

text \<open>The loop of \<open>Add\<close> and \<open>Remove\<close>: the first record whose name is not below the given one.\<close>

fun names_position :: "string \<Rightarrow> smalrec list \<Rightarrow> cpp_error + nat" where
  "names_position upper [] = Inr 0"
| "names_position upper (r # rs) =
     bind_res (name_chars r) (\<lambda>name.
       if 0 < StringCompare upper name then bind_res (names_position upper rs) (\<lambda>i. Inr (Suc i)) else Inr 0)"

text \<open>\<open>mem\<close> is the memory of the new record, which nothing clears.\<close>

definition new_smalrec :: "bytes \<Rightarrow> string \<Rightarrow> u32 \<Rightarrow> cpp_error + smalrec" where
  "new_smalrec mem upper user_number =
     (if 30 < length (c_str upper) then Inl UndefinedBehaviour
      else Inr \<lparr>sm_name = c_str upper @ [NUL] @ drop (length (c_str upper) + 1) mem, sm_number = ucast user_number\<rparr>)"

definition Names_Add :: "bytes \<Rightarrow> string \<Rightarrow> u32 \<Rightarrow> Names \<Rightarrow> cpp_error + Names" where
  "Names_Add mem name user_number ns =
     (let upper_case_name = StringUpperCase name
      in bind_res (names_position upper_case_name (names_vector ns)) (\<lambda>i.
         bind_res (new_smalrec mem upper_case_name user_number) (\<lambda>sr.
           Inr (ns\<lparr>names_vector := take i (names_vector ns) @ sr # drop i (names_vector ns)\<rparr>))))"

definition Names_Remove :: "u32 \<Rightarrow> Names \<Rightarrow> cpp_error + bool \<times> Names" where
  "Names_Remove user_number ns =
     bind_res (name_chars (smalrec_for user_number (names_vector ns))) (\<lambda>name.
       if name = [] then Inr (False, ns)
       else let upper_case_name = StringUpperCase name
            in bind_res (names_position upper_case_name (names_vector ns)) (\<lambda>i.
               if length (names_vector ns) \<le> i then Inl UndefinedBehaviour
               else bind_res (name_chars (names_vector ns ! i)) (\<lambda>found.
                 if \<not> IsEquals upper_case_name found then Inr (False, ns)
                 else Inr (True, ns\<lparr>names_vector := take i (names_vector ns) @ drop (Suc i) (names_vector ns)\<rparr>))))"

fun FindUser_loop :: "string \<Rightarrow> smalrec list \<Rightarrow> cpp_error + int" where
  "FindUser_loop search [] = Inr 0"
| "FindUser_loop search (r # rs) =
     bind_res (name_chars r) (\<lambda>name.
       if IsEqualsIgnoreCase search name then Inr (uint (sm_number r)) else FindUser_loop search rs)"

definition Names_FindUser :: "string \<Rightarrow> Names \<Rightarrow> cpp_error + int" where
  "Names_FindUser search ns = FindUser_loop search (names_vector ns)"

definition Names_Load :: "disk \<Rightarrow> Names \<Rightarrow> bool \<times> Names" where
  "Names_Load fs ns =
     (case fs (SetName (names_dir ns) NAMES_LST) of
        None \<Rightarrow> (False, ns)
      | Some b \<Rightarrow>
          (case fst (DataFile_ReadVector dec_smalrec 33 0 (opened b)) of
             None \<Rightarrow> (False, ns\<lparr>names_vector := []\<rparr>)
           | Some rs \<Rightarrow> (True, ns\<lparr>names_vector := rs\<rparr>)))"

definition load_names :: "string \<Rightarrow> disk \<Rightarrow> Names" where
  "load_names datadir fs =
     (let (ok, ns) = Names_Load fs \<lparr>names_dir = datadir, names_loaded = False, save_on_exit = False, names_vector = []\<rparr>
      in ns\<lparr>names_loaded := ok\<rparr>)"

text \<open>The file is truncated but not created.\<close>

definition Names_Save :: "Names \<Rightarrow> disk \<Rightarrow> bool \<times> disk" where
  "Names_Save ns fs =
     (let path = SetName (names_dir ns) NAMES_LST
      in case fs path of
           None \<Rightarrow> (False, fs)
         | Some _ \<Rightarrow> (True, fs(path \<mapsto> contents (DataFile_WriteVector enc_smalrec 0 (names_vector ns) (opened [])))))"

definition destroy_names :: "Names \<Rightarrow> disk \<Rightarrow> disk" where
  "destroy_names ns fs = (if save_on_exit ns then snd (Names_Save ns fs) else fs)"

section \<open>The invariant\<close>

definition sm_key :: "smalrec \<Rightarrow> string" where
  "sm_key r = c_str (sm_name r)"

text \<open>Names end in their array, are not empty, have no lower-case letter and are in order.\<close>

definition names_inv :: "smalrec list \<Rightarrow> bool" where
  "names_inv rs \<longleftrightarrow> (\<forall>r \<in> set rs. valid_smalrec r \<and> NUL \<in> set (sm_name r) \<and> sm_key r \<noteq> [] \<and> map toupper (sm_key r) = sm_key r)
     \<and> sorted (map sm_key rs)"

text \<open>The map the list stands for: the first record of a name counts.\<close>

definition names_map :: "smalrec list \<Rightarrow> string \<rightharpoonup> u16" where
  "names_map rs = map_of (map (\<lambda>r. (sm_key r, sm_number r)) rs)"

lemma toupper_NUL_iff [simp]: "toupper c = NUL \<longleftrightarrow> c = NUL"
  by (auto simp: toupper_def islower_def NUL_def simp flip: of_char_eq_iff [where ?'a = nat])

lemma c_str_map_toupper: "c_str (map toupper s) = map toupper (c_str s)"
  by (induction s) (simp_all add: c_str_def)

lemma name_chars_key: "NUL \<in> set (sm_name r) \<Longrightarrow> name_chars r = Inr (sm_key r)"
  by (simp add: name_chars_def sm_key_def)

lemma names_inv_Cons:
  "names_inv (r # rs) \<longleftrightarrow> valid_smalrec r \<and> NUL \<in> set (sm_name r) \<and> sm_key r \<noteq> [] \<and> map toupper (sm_key r) = sm_key r
     \<and> (\<forall>x \<in> set rs. sm_key r \<le> sm_key x) \<and> names_inv rs"
  by (auto simp: names_inv_def)

lemma names_position_ok:
  assumes "names_inv rs"
  shows "names_position s rs = Inr (length (takeWhile (\<lambda>r. sm_key r < c_str s) rs))"
  using assms
proof (induction rs)
  case (Cons r rs)
  then have "name_chars r = Inr (sm_key r)" "names_inv rs" by (simp_all add: names_inv_Cons name_chars_key)
  with Cons.IH show ?case
    by (simp add: StringCompare_def strcmp_pos_iff) (simp add: sm_key_def)
qed simp

lemma take_length_takeWhile [simp]: "take (length (takeWhile P xs)) xs = takeWhile P xs"
  by (metis append_eq_conv_conj takeWhile_dropWhile_id)

lemma drop_length_takeWhile [simp]: "drop (length (takeWhile P xs)) xs = dropWhile P xs"
  by (metis append_eq_conv_conj takeWhile_dropWhile_id)

lemma names_inv_append:
  "names_inv (xs @ ys) \<longleftrightarrow> names_inv xs \<and> names_inv ys \<and> (\<forall>x \<in> set xs. \<forall>y \<in> set ys. sm_key x \<le> sm_key y)"
  by (auto simp: names_inv_def sorted_append)

lemma names_split:
  assumes "names_inv rs"
  shows "r \<in> set (dropWhile (\<lambda>r. sm_key r < k) rs) \<Longrightarrow> k \<le> sm_key r"
  using assms by (induction rs) (auto simp: names_inv_Cons not_less split: if_splits)

lemma names_map_insert:
  assumes "map_of (map (\<lambda>r. (sm_key r, sm_number r)) xs) (sm_key r) = None"
  shows "names_map (xs @ r # ys) = (names_map (xs @ ys))(sm_key r \<mapsto> sm_number r)"
  using assms by (auto simp: names_map_def map_add_def fun_eq_iff split: option.splits)

lemma names_insert:
  assumes inv: "names_inv rs" and r: "names_inv [r]"
  shows "names_inv (takeWhile (\<lambda>x. sm_key x < sm_key r) rs @ r # dropWhile (\<lambda>x. sm_key x < sm_key r) rs)"
    "names_map (takeWhile (\<lambda>x. sm_key x < sm_key r) rs @ r # dropWhile (\<lambda>x. sm_key x < sm_key r) rs)
      = (names_map rs)(sm_key r \<mapsto> sm_number r)"
proof -
  let ?xs = "takeWhile (\<lambda>x. sm_key x < sm_key r) rs" and ?ys = "dropWhile (\<lambda>x. sm_key x < sm_key r) rs"
  have split: "rs = ?xs @ ?ys" by simp
  with inv have parts: "names_inv ?xs" "names_inv ?ys" "\<And>x y. x \<in> set ?xs \<Longrightarrow> y \<in> set ?ys \<Longrightarrow> sm_key x \<le> sm_key y"
    using names_inv_append [of ?xs ?ys] by auto
  have xs: "sm_key x < sm_key r" if "x \<in> set ?xs" for x using that set_takeWhileD by fast
  have ys: "sm_key r \<le> sm_key y" if "y \<in> set ?ys" for y using names_split [OF inv that] .
  show "names_inv (?xs @ r # ?ys)"
    using parts xs ys r by (auto simp: names_inv_append [of ?xs] names_inv_Cons intro: less_imp_le)
  have "map_of (map (\<lambda>r. (sm_key r, sm_number r)) ?xs) (sm_key r) = None"
    using xs by (force simp: map_of_eq_None_iff)
  then have "names_map (?xs @ r # ?ys) = (names_map (?xs @ ?ys))(sm_key r \<mapsto> sm_number r)" by (rule names_map_insert)
  then show "names_map (?xs @ r # ?ys) = (names_map rs)(sm_key r \<mapsto> sm_number r)" by simp
qed

lemma map_tolower_eq_iff: "map tolower s = map tolower t \<longleftrightarrow> map toupper s = map toupper t"
proof (induction s arbitrary: t)
  case (Cons c s)
  then show ?case by (cases t) (auto simp: tolower_eq_iff_toupper_eq)
qed auto

lemma FindUser_loop_ok:
  assumes "names_inv rs"
  shows "FindUser_loop s rs = Inr (case names_map rs (map toupper (c_str s)) of None \<Rightarrow> 0 | Some n \<Rightarrow> uint n)"
  using assms
proof (induction rs)
  case (Cons r rs)
  then have r: "name_chars r = Inr (sm_key r)" "names_inv rs" "map toupper (sm_key r) = sm_key r"
    by (simp_all add: names_inv_Cons name_chars_key)
  have same: "IsEqualsIgnoreCase s (sm_key r) \<longleftrightarrow> map toupper (c_str s) = sm_key r"
  proof -
    have "map tolower (c_str s) = map tolower (sm_key r) \<longleftrightarrow> map toupper (c_str s) = map toupper (sm_key r)"
      using map_tolower_eq_iff by simp
    then show ?thesis by (simp add: IsEqualsIgnoreCase_iff r sm_key_def)  (simp add: sm_key_def [symmetric] r)
  qed
  then show ?case using Cons.IH r by (auto simp: names_map_def)
qed (simp add: names_map_def)

section \<open>Adding and removing\<close>

lemma new_smalrec_ok:
  assumes "length mem = 31" "length name \<le> 30" "name \<noteq> []" "NUL \<notin> set name"
  obtains sr where "new_smalrec mem (StringUpperCase name) u = Inr sr" "names_inv [sr]" "sm_key sr = map toupper name"
    "sm_number sr = ucast u"
proof
  let ?n = "map toupper name"
  define sr where "sr = \<lparr>sm_name = ?n @ [NUL] @ drop (length ?n + 1) mem, sm_number = ucast u\<rparr>"
  have nul: "NUL \<notin> set ?n" using assms(4) by (auto dest: sym)
  then show key: "sm_key sr = ?n" by (simp add: sr_def sm_key_def c_str_append_NUL)
  have "c_str ?n = ?n" using nul by (rule c_str_id)
  then show "new_smalrec mem (StringUpperCase name) u = Inr sr"
    using assms(2) by (simp add: sr_def new_smalrec_def StringUpperCase_def)
  have "valid_smalrec sr" "NUL \<in> set (sm_name sr)" using assms(1,2) by (simp_all add: sr_def valid_smalrec_def)
  then show "names_inv [sr]" using assms(3) by (simp add: names_inv_def key)
  show "sm_number sr = ucast u" by (simp add: sr_def)
qed

lemma Names_Add_ok:
  assumes "names_inv (names_vector ns)" "length mem = 31" "length name \<le> 30" "name \<noteq> []" "NUL \<notin> set name"
  shows "\<exists>ns1. Names_Add mem name u ns = Inr ns1 \<and> names_dir ns1 = names_dir ns \<and> names_inv (names_vector ns1)
    \<and> names_map (names_vector ns1) = (names_map (names_vector ns))(map toupper name \<mapsto> ucast u)"
proof -
  obtain sr where sr: "new_smalrec mem (StringUpperCase name) u = Inr sr" "names_inv [sr]" "sm_key sr = map toupper name"
    "sm_number sr = ucast u" using new_smalrec_ok [OF assms(2-5)] .
  have c: "c_str (StringUpperCase name) = sm_key sr"
    using assms(5) sr(3) by (simp add: StringUpperCase_def c_str_map_toupper c_str_id)
  show ?thesis
    using names_insert [OF assms(1) sr(2)] sr
    by (simp add: Names_Add_def names_position_ok [OF assms(1)] c)
qed

lemma find_in: "find P xs = Some x \<Longrightarrow> x \<in> set xs \<and> P x"
  by (induction xs) (auto split: if_splits)

lemma Names_Remove_ok:
  assumes inv: "names_inv (names_vector ns)" and found: "find (\<lambda>n. ucast (sm_number n) = u) (names_vector ns) = Some r"
  shows "\<exists>xs x ys. names_vector ns = xs @ x # ys \<and> sm_key x = sm_key r \<and> (\<forall>y \<in> set xs. sm_key y < sm_key r)
    \<and> Names_Remove u ns = Inr (True, ns\<lparr>names_vector := xs @ ys\<rparr>)"
proof -
  let ?rs = "names_vector ns"
  let ?xs = "takeWhile (\<lambda>x. sm_key x < sm_key r) ?rs"
  have r: "r \<in> set ?rs" using find_in [OF found] by simp
  with inv have key: "name_chars r = Inr (sm_key r)" "sm_key r \<noteq> []" "map toupper (sm_key r) = sm_key r"
    by (auto simp: names_inv_def name_chars_key)
  then have c: "StringUpperCase (sm_key r) = sm_key r" "c_str (sm_key r) = sm_key r" by (simp_all add: StringUpperCase_def sm_key_def)
  have "dropWhile (\<lambda>x. sm_key x < sm_key r) ?rs \<noteq> []" using r by (auto simp: dropWhile_eq_Nil_conv)
  then obtain x ys where d: "dropWhile (\<lambda>x. sm_key x < sm_key r) ?rs = x # ys" by (cases "dropWhile (\<lambda>x. sm_key x < sm_key r) ?rs") auto
  have split: "?rs = ?xs @ x # ys" by (metis d takeWhile_dropWhile_id)
  have xs: "\<forall>y \<in> set ?xs. sm_key y < sm_key r" using set_takeWhileD by fast
  have ge: "sm_key r \<le> sm_key x" using names_split [OF inv, of x "sm_key r"] d by simp
  have "r \<in> set (x # ys)" using r xs split by (metis Un_iff less_irrefl set_append)
  then have "sm_key x \<le> sm_key r" using inv unfolding split [THEN arg_cong [where f = names_inv]]
    by (auto simp: names_inv_append names_inv_Cons)
  with ge have x: "sm_key x = sm_key r" by simp
  have "x \<in> set ?rs" by (subst split) simp
  then have nx: "name_chars x = Inr (sm_key x)" using inv by (auto simp: names_inv_def name_chars_key)
  have at: "?rs ! length ?xs = x" "length ?xs < length ?rs" "drop (Suc (length ?xs)) ?rs = ys" "take (length ?xs) ?rs = ?xs"
    using split by (metis nth_append_length, metis length_append less_add_same_cancel1 length_greater_0_conv list.distinct(1),
      metis d drop_length_takeWhile drop_Suc list.sel(3) tl_drop, simp)
  have "Names_Remove u ns = Inr (True, ns\<lparr>names_vector := ?xs @ ys\<rparr>)"
    using key at c x nx found
    by (simp add: Names_Remove_def smalrec_for_def names_position_ok [OF inv] IsEquals_iff)
  then show ?thesis using split x xs by blast
qed

section \<open>Properties\<close>

text \<open>C37 Adding a name keeps the invariant and enters the number under the upper-case name, any
  spelling of the name then finds it, and the list is saved and loaded unchanged. Removing a user
  keeps the invariant and takes out one record of the name of that user and, when no two
  records have the same name, nothing else; a number without a record is refused.\<close>

theorem names_updates:
  assumes "names_inv (names_vector ns)" "length mem = 31" "length name \<le> 30" "name \<noteq> []" "NUL \<notin> set name"
  shows "(\<exists>ns1. Names_Add mem name u ns = Inr ns1 \<and> names_inv (names_vector ns1)
      \<and> names_map (names_vector ns1) = (names_map (names_vector ns))(map toupper name \<mapsto> ucast u)
      \<and> (\<forall>s. Names_FindUser s ns1 = Inr (case names_map (names_vector ns1) (map toupper (c_str s)) of None \<Rightarrow> 0 | Some n \<Rightarrow> uint n))
      \<and> (fs (SetName (names_dir ns) NAMES_LST) \<noteq> None \<longrightarrow>
          (\<exists>fs1. Names_Save ns1 fs = (True, fs1) \<and> names_vector (load_names (names_dir ns) fs1) = names_vector ns1)))
    \<and> (case find (\<lambda>n. ucast (sm_number n) = v) (names_vector ns) of
        None \<Rightarrow> Names_Remove v ns = Inr (False, ns)
      | Some r \<Rightarrow> \<exists>ns1. Names_Remove v ns = Inr (True, ns1) \<and> names_inv (names_vector ns1)
          \<and> length (names_vector ns1) = length (names_vector ns) - 1
          \<and> (distinct (map sm_key (names_vector ns)) \<longrightarrow>
              names_map (names_vector ns1) = (names_map (names_vector ns))(sm_key r := None)))"
proof (intro conjI)
  obtain ns1 where a: "Names_Add mem name u ns = Inr ns1" "names_dir ns1 = names_dir ns" "names_inv (names_vector ns1)"
    "names_map (names_vector ns1) = (names_map (names_vector ns))(map toupper name \<mapsto> ucast u)"
    using Names_Add_ok [OF assms] by blast
  let ?b = "contents (DataFile_WriteVector enc_smalrec 0 (names_vector ns1) (opened []))"
  let ?fs1 = "fs(SetName (names_dir ns) NAMES_LST \<mapsto> ?b)"
  have "fst (DataFile_ReadVector dec_smalrec 33 0 (opened ?b)) = Some (names_vector ns1)"
    using a(3) by (intro smalrec_codec.DataFile_WriteVector_ReadVector) (simp add: names_inv_def)
  then have "names_vector (load_names (names_dir ns) ?fs1) = names_vector ns1"
    by (simp add: load_names_def Names_Load_def)
  moreover have "Names_Save ns1 fs = (True, ?fs1)" if "fs (SetName (names_dir ns) NAMES_LST) \<noteq> None"
    using that a(2) by (auto simp: Names_Save_def Let_def)
  ultimately show "\<exists>ns1. Names_Add mem name u ns = Inr ns1 \<and> names_inv (names_vector ns1)
      \<and> names_map (names_vector ns1) = (names_map (names_vector ns))(map toupper name \<mapsto> ucast u)
      \<and> (\<forall>s. Names_FindUser s ns1 = Inr (case names_map (names_vector ns1) (map toupper (c_str s)) of None \<Rightarrow> 0 | Some n \<Rightarrow> uint n))
      \<and> (fs (SetName (names_dir ns) NAMES_LST) \<noteq> None \<longrightarrow>
          (\<exists>fs1. Names_Save ns1 fs = (True, fs1) \<and> names_vector (load_names (names_dir ns) fs1) = names_vector ns1))"
    using a FindUser_loop_ok [OF a(3)] by (auto simp: Names_FindUser_def)
  show "case find (\<lambda>n. ucast (sm_number n) = v) (names_vector ns) of
        None \<Rightarrow> Names_Remove v ns = Inr (False, ns)
      | Some r \<Rightarrow> \<exists>ns1. Names_Remove v ns = Inr (True, ns1) \<and> names_inv (names_vector ns1)
          \<and> length (names_vector ns1) = length (names_vector ns) - 1
          \<and> (distinct (map sm_key (names_vector ns)) \<longrightarrow>
              names_map (names_vector ns1) = (names_map (names_vector ns))(sm_key r := None))"
  proof (cases "find (\<lambda>n. ucast (sm_number n) = v) (names_vector ns)")
    case None
    then show ?thesis by (simp add: Names_Remove_def smalrec_for_def name_chars_def c_str_def)
  next
    case (Some r)
    obtain xs x ys where s: "names_vector ns = xs @ x # ys" "sm_key x = sm_key r" "Names_Remove v ns = Inr (True, ns\<lparr>names_vector := xs @ ys\<rparr>)"
      using Names_Remove_ok [OF assms(1) Some] by blast
    have "names_inv (xs @ ys)" using assms(1) by (auto simp: s(1) names_inv_append names_inv_Cons)
    moreover have "names_map (xs @ ys) = (names_map (xs @ x # ys))(sm_key r := None)" if "distinct (map sm_key (xs @ x # ys))"
    proof -
      have "sm_key x \<notin> sm_key ` set (xs @ ys)" using that by auto
      then have "names_map (xs @ ys) (sm_key x) = None" by (auto simp: names_map_def map_of_eq_None_iff map_add_None)
      moreover have "map_of (map (\<lambda>r. (sm_key r, sm_number r)) xs) (sm_key x) = None"
        using that by (auto simp: map_of_eq_None_iff)
      ultimately show ?thesis using s(2) names_map_insert [of xs x ys] by (auto simp: fun_eq_iff)
    qed
    ultimately show ?thesis using Some s by simp
  qed
qed

definition demo_names :: Names where
  "demo_names = \<lparr>names_dir = ''/data'', names_loaded = True, save_on_exit = False,
     names_vector = [\<lparr>sm_name = ''SYSOP'' @ replicate 26 NUL, sm_number = 1\<rparr>]\<rparr>"

theorem names_updates_witness:
  "\<exists>ns1. Names_Add (replicate 31 NUL) ''Rush'' 2 demo_names = Inr ns1 \<and> Names_FindUser ''rUSH'' ns1 = Inr 2"
proof -
  have inv: "names_inv (names_vector demo_names)"
    by (simp add: demo_names_def names_inv_def valid_smalrec_def sm_key_def) code_simp
  have "map toupper ''Rush'' = ''RUSH''" "map toupper (c_str ''rUSH'') = ''RUSH''" by code_simp+
  moreover obtain ns1 where "Names_Add (replicate 31 NUL) ''Rush'' 2 demo_names = Inr ns1"
    "names_map (names_vector ns1) = (names_map (names_vector demo_names))(map toupper ''Rush'' \<mapsto> ucast (2 :: u32))"
    "Names_FindUser ''rUSH'' ns1 = Inr (case names_map (names_vector ns1) (map toupper (c_str ''rUSH'')) of None \<Rightarrow> 0 | Some n \<Rightarrow> uint n)"
    using names_updates [OF inv, THEN conjunct1, of "replicate 31 NUL" "''Rush''" 2 Map.empty] by (force simp: NUL_def)
  ultimately show ?thesis by (simp del: list.map)
qed

end
