(* ===== verification/Sdk_Users.thy ===== *)
theory Sdk_Users
  imports Core_File Core_Path
begin

unbundle bit_operations_syntax

text \<open>
  \<open>sdk/user.cpp\<close> and \<open>sdk/usermanager.cpp\<close>: the users of a system, \<open>USER.LST\<close>, an array of user
  records. A user record has 1024 bytes: the fields that the functions here look at are fields of
  \<open>userrec\<close>, the bytes between them are carried along as they are (\<open>u_settings\<close> from \<open>comp_type\<close> to
  \<open>dsl\<close>, \<open>u_counts\<close> from \<open>colors\<close> to \<open>etoday\<close>, \<open>u_totals\<close> from \<open>ass_pts\<close> to \<open>daten\<close>, \<open>u_rest\<close> from
  \<open>wwiv_regnum\<close> on; \<open>u_macros\<close> is the three lines of 81 bytes).

  The lemmas show that a user that is written is read back with its texts terminated, that no other
  user changes, and that the flags of a user are sets of bits.
\<close>

section \<open>The record\<close>

record userrec =
  u_name :: bytes
  u_realname :: bytes
  u_callsign :: bytes
  u_phone :: bytes
  u_dataphone :: bytes
  u_street :: bytes
  u_city :: bytes
  u_state :: bytes
  u_country :: bytes
  u_zipcode :: bytes
  u_pw :: bytes
  u_laston :: bytes
  u_firston :: bytes
  u_note :: bytes
  u_macros :: bytes
  u_sex :: u8
  u_email :: bytes
  u_res_char :: bytes
  u_age :: u8
  u_inact :: u8
  u_settings :: bytes
  u_exempt :: u8
  u_counts :: bytes
  u_ar :: u16
  u_dar :: u16
  u_restrict :: u16
  u_totals :: bytes
  u_sysstatus :: u32
  u_rest :: bytes

definition enc_user :: "userrec \<Rightarrow> bytes" where
  "enc_user u = u_name u @ u_realname u @ u_callsign u @ u_phone u @ u_dataphone u @ u_street u @ u_city u @ u_state u @
     u_country u @ u_zipcode u @ u_pw u @ u_laston u @ u_firston u @ u_note u @ u_macros u @ enc_u8 (u_sex u)
     @ u_email u @ u_res_char u @ enc_u8 (u_age u) @ enc_u8 (u_inact u) @ u_settings u @ enc_u8 (u_exempt u) @
     u_counts u @ enc_u16 (u_ar u) @ enc_u16 (u_dar u) @ enc_u16 (u_restrict u) @ u_totals u @ enc_u32
     (u_sysstatus u) @ u_rest u"

definition dec_user :: "bytes \<Rightarrow> userrec" where
  "dec_user b = \<lparr>u_name = read_at 0 31 b, u_realname = read_at 31 21 b, u_callsign = read_at 52 7 b, u_phone = read_at 59
     13 b, u_dataphone = read_at 72 13 b, u_street = read_at 85 31 b, u_city = read_at 116 31 b, u_state =
     read_at 147 3 b, u_country = read_at 150 4 b, u_zipcode = read_at 154 11 b, u_pw = read_at 165 9 b,
     u_laston = read_at 174 9 b, u_firston = read_at 183 9 b, u_note = read_at 192 61 b, u_macros = read_at
     253 243 b, u_sex = dec_u8 (read_at 496 1 b), u_email = read_at 497 65 b, u_res_char = read_at 562 13 b,
     u_age = dec_u8 (read_at 575 1 b), u_inact = dec_u8 (read_at 576 1 b), u_settings = read_at 577 9 b,
     u_exempt = dec_u8 (read_at 586 1 b), u_counts = read_at 587 119 b, u_ar = dec_u16 (read_at 706 2 b),
     u_dar = dec_u16 (read_at 708 2 b), u_restrict = dec_u16 (read_at 710 2 b), u_totals = read_at 712 88 b,
     u_sysstatus = dec_u32 (read_at 800 4 b), u_rest = read_at 804 220 b\<rparr>"

definition valid_user :: "userrec \<Rightarrow> bool" where
  "valid_user u \<longleftrightarrow> length (u_name u) = 31 \<and> length (u_realname u) = 21 \<and> length (u_callsign u) = 7 \<and> length
     (u_phone u) = 13 \<and> length (u_dataphone u) = 13 \<and> length (u_street u) = 31 \<and> length (u_city
     u) = 31 \<and> length (u_state u) = 3 \<and> length (u_country u) = 4 \<and> length (u_zipcode u) = 11
     \<and> length (u_pw u) = 9 \<and> length (u_laston u) = 9 \<and> length (u_firston u) = 9 \<and> length
     (u_note u) = 61 \<and> length (u_macros u) = 243 \<and> length (u_email u) = 65 \<and> length (u_res_char
     u) = 13 \<and> length (u_settings u) = 9 \<and> length (u_counts u) = 119 \<and> length (u_totals u) = 88
     \<and> length (u_rest u) = 220"

lemma length_enc_user: "valid_user u \<Longrightarrow> length (enc_user u) = 1024"
  by (simp add: enc_user_def valid_user_def)

lemma dec_enc_user: "valid_user u \<Longrightarrow> dec_user (enc_user u) = u"
  by (simp add: enc_user_def dec_user_def valid_user_def read_at_def)

lemma valid_dec_user: "length b = 1024 \<Longrightarrow> valid_user (dec_user b)"
  by (simp add: dec_user_def valid_user_def length_read_at)

lemma enc_dec_user: "length b = 1024 \<Longrightarrow> enc_user (dec_user b) = b"
  by (simp add: enc_user_def dec_user_def enc_dec_u8 enc_dec_u16 enc_dec_u32 length_read_at read_at_last
      read_at_append_drop read_at_append_drop_assoc)

interpretation user_codec: record_codec enc_user dec_user valid_user 1024
  by unfold_locales (simp_all add: length_enc_user dec_enc_user valid_dec_user enc_dec_user)

section \<open>\<open>User\<close>\<close>

definition ZeroUserData :: userrec where
  "ZeroUserData = dec_user (replicate 1024 NUL)"

definition FixUp :: "userrec \<Rightarrow> userrec" where
  "FixUp u = u\<lparr>u_name := (u_name u)[30 := NUL], u_realname := (u_realname u)[20 := NUL], u_callsign := (u_callsign u)[6
     := NUL], u_phone := (u_phone u)[12 := NUL], u_dataphone := (u_dataphone u)[12 := NUL], u_street :=
     (u_street u)[30 := NUL], u_city := (u_city u)[30 := NUL], u_state := (u_state u)[2 := NUL], u_country :=
     (u_country u)[3 := NUL], u_zipcode := (u_zipcode u)[10 := NUL], u_pw := (u_pw u)[8 := NUL], u_laston :=
     (u_laston u)[8 := NUL], u_firston := (u_firston u)[8 := NUL, 2 := CHR ''/'', 5 := CHR ''/''], u_note :=
     (u_note u)[60 := NUL], u_macros := (u_macros u)[80 := NUL, 161 := NUL, 242 := NUL]\<rparr>"

text \<open>The flags of a byte or word: \<open>nFlag\<close> is an \<open>int\<close>, and so is the value the operators compute.\<close>

definition set_flag :: "'a::len word \<Rightarrow> u32 \<Rightarrow> 'a word" where
  "set_flag w nFlag = ucast (ucast w OR nFlag)"

definition toggle_flag :: "'a::len word \<Rightarrow> u32 \<Rightarrow> 'a word" where
  "toggle_flag w nFlag = ucast (ucast w XOR nFlag)"

definition clear_flag :: "'a::len word \<Rightarrow> u32 \<Rightarrow> 'a word" where
  "clear_flag w nFlag = ucast (ucast w AND NOT nFlag)"

definition has_flag :: "'a::len word \<Rightarrow> u32 \<Rightarrow> bool" where
  "has_flag w nFlag \<longleftrightarrow> ucast w AND nFlag \<noteq> 0"

definition SetInactFlag :: "u32 \<Rightarrow> userrec \<Rightarrow> userrec" where
  "SetInactFlag nFlag u = u\<lparr>u_inact := set_flag (u_inact u) nFlag\<rparr>"

definition ToggleInactFlag :: "u32 \<Rightarrow> userrec \<Rightarrow> userrec" where
  "ToggleInactFlag nFlag u = u\<lparr>u_inact := toggle_flag (u_inact u) nFlag\<rparr>"

definition ClearInactFlag :: "u32 \<Rightarrow> userrec \<Rightarrow> userrec" where
  "ClearInactFlag nFlag u = u\<lparr>u_inact := clear_flag (u_inact u) nFlag\<rparr>"

definition SetStatusFlag :: "u32 \<Rightarrow> userrec \<Rightarrow> userrec" where
  "SetStatusFlag nFlag u = u\<lparr>u_sysstatus := set_flag (u_sysstatus u) nFlag\<rparr>"

definition ToggleStatusFlag :: "u32 \<Rightarrow> userrec \<Rightarrow> userrec" where
  "ToggleStatusFlag nFlag u = u\<lparr>u_sysstatus := toggle_flag (u_sysstatus u) nFlag\<rparr>"

definition ClearStatusFlag :: "u32 \<Rightarrow> userrec \<Rightarrow> userrec" where
  "ClearStatusFlag nFlag u = u\<lparr>u_sysstatus := clear_flag (u_sysstatus u) nFlag\<rparr>"

definition HasStatusFlag :: "u32 \<Rightarrow> userrec \<Rightarrow> bool" where
  "HasStatusFlag nFlag u \<longleftrightarrow> has_flag (u_sysstatus u) nFlag"

definition SetExemptFlag :: "u32 \<Rightarrow> userrec \<Rightarrow> userrec" where
  "SetExemptFlag nFlag u = u\<lparr>u_exempt := set_flag (u_exempt u) nFlag\<rparr>"

definition ToggleExemptFlag :: "u32 \<Rightarrow> userrec \<Rightarrow> userrec" where
  "ToggleExemptFlag nFlag u = u\<lparr>u_exempt := toggle_flag (u_exempt u) nFlag\<rparr>"

definition ClearExemptFlag :: "u32 \<Rightarrow> userrec \<Rightarrow> userrec" where
  "ClearExemptFlag nFlag u = u\<lparr>u_exempt := clear_flag (u_exempt u) nFlag\<rparr>"

definition HasExemptFlag :: "u32 \<Rightarrow> userrec \<Rightarrow> bool" where
  "HasExemptFlag nFlag u \<longleftrightarrow> has_flag (u_exempt u) nFlag"

definition SetRestrictionFlag :: "u32 \<Rightarrow> userrec \<Rightarrow> userrec" where
  "SetRestrictionFlag nFlag u = u\<lparr>u_restrict := set_flag (u_restrict u) nFlag\<rparr>"

definition ToggleRestrictionFlag :: "u32 \<Rightarrow> userrec \<Rightarrow> userrec" where
  "ToggleRestrictionFlag nFlag u = u\<lparr>u_restrict := toggle_flag (u_restrict u) nFlag\<rparr>"

definition ClearRestrictionFlag :: "u32 \<Rightarrow> userrec \<Rightarrow> userrec" where
  "ClearRestrictionFlag nFlag u = u\<lparr>u_restrict := clear_flag (u_restrict u) nFlag\<rparr>"

definition HasRestrictionFlag :: "u32 \<Rightarrow> userrec \<Rightarrow> bool" where
  "HasRestrictionFlag nFlag u \<longleftrightarrow> has_flag (u_restrict u) nFlag"

definition SetArFlag :: "u32 \<Rightarrow> userrec \<Rightarrow> userrec" where
  "SetArFlag nFlag u = u\<lparr>u_ar := set_flag (u_ar u) nFlag\<rparr>"

definition ToggleArFlag :: "u32 \<Rightarrow> userrec \<Rightarrow> userrec" where
  "ToggleArFlag nFlag u = u\<lparr>u_ar := toggle_flag (u_ar u) nFlag\<rparr>"

definition ClearArFlag :: "u32 \<Rightarrow> userrec \<Rightarrow> userrec" where
  "ClearArFlag nFlag u = u\<lparr>u_ar := clear_flag (u_ar u) nFlag\<rparr>"

definition HasArFlag :: "u32 \<Rightarrow> userrec \<Rightarrow> bool" where
  "HasArFlag nFlag u \<longleftrightarrow> has_flag (u_ar u) nFlag"

definition SetDarFlag :: "u32 \<Rightarrow> userrec \<Rightarrow> userrec" where
  "SetDarFlag nFlag u = u\<lparr>u_dar := set_flag (u_dar u) nFlag\<rparr>"

definition ToggleDarFlag :: "u32 \<Rightarrow> userrec \<Rightarrow> userrec" where
  "ToggleDarFlag nFlag u = u\<lparr>u_dar := toggle_flag (u_dar u) nFlag\<rparr>"

definition ClearDarFlag :: "u32 \<Rightarrow> userrec \<Rightarrow> userrec" where
  "ClearDarFlag nFlag u = u\<lparr>u_dar := clear_flag (u_dar u) nFlag\<rparr>"

definition HasDarFlag :: "u32 \<Rightarrow> userrec \<Rightarrow> bool" where
  "HasDarFlag nFlag u \<longleftrightarrow> has_flag (u_dar u) nFlag"

definition IsUserDeleted :: "userrec \<Rightarrow> bool" where
  "IsUserDeleted u \<longleftrightarrow> has_flag (u_inact u) 1"

definition IsUserInactive :: "userrec \<Rightarrow> bool" where
  "IsUserInactive u \<longleftrightarrow> has_flag (u_inact u) 2"

definition GetGender :: "userrec \<Rightarrow> char" where
  "GetGender u = (if u_sex u = 78 then CHR ''N'' else if u_sex u = 70 then CHR ''F'' else CHR ''M'')"

section \<open>\<open>UserManager\<close>\<close>

record UserManager =
  um_directory :: string
  userrec_length :: nat
  max_number_users :: int
  allow_writes :: bool

abbreviation USER_LST :: string where
  "USER_LST \<equiv> ''user.lst''"

definition user_list :: "UserManager \<Rightarrow> string" where
  "user_list m = SetName (um_directory m) USER_LST"

text \<open>The first record of the file is no user. A record length of zero divides by zero.\<close>

definition user_records :: "UserManager \<Rightarrow> bytes \<Rightarrow> cpp_error + int" where
  "user_records m c =
     (if userrec_length m = 0 then Inl UndefinedBehaviour else Inr (int (length c div userrec_length m) - 1))"

definition GetNumberOfUserRecords :: "UserManager \<Rightarrow> disk \<Rightarrow> cpp_error + int" where
  "GetNumberOfUserRecords m fs = (case fs (user_list m) of None \<Rightarrow> Inr 0 | Some c \<Rightarrow> user_records m c)"

text \<open>\<open>lseek\<close> refuses a negative offset and stays where it is.\<close>

definition seek_user :: "UserManager \<Rightarrow> int \<Rightarrow> wfile \<Rightarrow> wfile" where
  "seek_user m user_number f =
     (let pos = int (userrec_length m) * user_number in if 0 \<le> pos then File_Seek (nat pos) f else f)"

text \<open>The bytes go into the 1024 bytes of the record; what is not read stays as it was.\<close>

definition ReadUser :: "UserManager \<Rightarrow> userrec \<Rightarrow> int \<Rightarrow> disk \<Rightarrow> cpp_error + bool \<times> userrec" where
  "ReadUser m u user_number fs =
     (let deleted = FixUp (u\<lparr>u_inact := 1\<rparr>)
      in case fs (user_list m) of
           None \<Rightarrow> Inr (False, deleted)
         | Some c \<Rightarrow>
             bind_res (user_records m c) (\<lambda>nNumUserRecords.
               if nNumUserRecords < user_number then Inr (False, deleted)
               else let b = fst (File_Read (userrec_length m) (seek_user m user_number (opened c)))
                    in if 1024 < length b then Inl UndefinedBehaviour
                       else Inr (True, FixUp (dec_user (b @ drop (length b) (enc_user u))))))"

definition WriteUserNoCache :: "UserManager \<Rightarrow> userrec \<Rightarrow> int \<Rightarrow> disk \<Rightarrow> cpp_error + bool \<times> disk" where
  "WriteUserNoCache m u user_number fs =
     (let c = (case fs (user_list m) of None \<Rightarrow> [] | Some c \<Rightarrow> c)
      in if 1024 < userrec_length m then Inl UndefinedBehaviour
         else Inr (True, fs(user_list m \<mapsto> contents (File_Write (take (userrec_length m) (enc_user u))
                (seek_user m user_number (opened c))))))"

definition WriteUser :: "UserManager \<Rightarrow> userrec \<Rightarrow> int \<Rightarrow> disk \<Rightarrow> cpp_error + bool \<times> disk" where
  "WriteUser m u user_number fs =
     (if user_number < 1 \<or> max_number_users m < user_number \<or> \<not> allow_writes m then Inr (True, fs)
      else WriteUserNoCache m u user_number fs)"

section \<open>Writing and reading\<close>

definition user_texts :: "userrec \<Rightarrow> bytes list" where
  "user_texts u = [u_name u, u_realname u, u_callsign u, u_phone u, u_dataphone u, u_street u, u_city u, u_state u, u_country u,
     u_zipcode u, u_pw u, u_laston u, u_firston u, u_note u, read_at 0 81 (u_macros u), read_at 81 81 (u_macros u),
     read_at 162 81 (u_macros u)]"

lemma NUL_in: "i < length t \<Longrightarrow> t ! i = NUL \<Longrightarrow> NUL \<in> set t"
  by (metis nth_mem)

lemma FixUp_terminates:
  assumes "valid_user u" "t \<in> set (user_texts (FixUp u))"
  shows "NUL \<in> set t"
proof -
  have macro: "NUL \<in> set (read_at p 81 ((u_macros u)[80 := NUL, 161 := NUL, 242 := NUL]))" if "p = 0 \<or> p = 81 \<or> p = 162" for p
    using that assms(1)
    by (intro NUL_in [of 80]) (auto simp: valid_user_def length_read_at nth_read_at nth_list_update)
  have first: "NUL \<in> set ((u_firston u)[8 := NUL, 2 := CHR ''/'', 5 := CHR ''/''])"
    using assms(1) by (intro NUL_in [of 8]) (simp_all add: valid_user_def)
  have "\<forall>t \<in> set (user_texts (FixUp u)). NUL \<in> set t"
    using first macro [of 0] macro [of 81] macro [of 162] assms(1) [unfolded valid_user_def]
    by (simp add: user_texts_def FixUp_def set_update_memI)
  then show ?thesis using assms(2) by blast
qed

lemma valid_FixUp: "valid_user u \<Longrightarrow> valid_user (FixUp u)"
  by (simp add: valid_user_def FixUp_def)

lemma FixUp_idem: "FixUp (FixUp u) = FixUp u"
  by (simp add: FixUp_def list_update_swap)

lemma seek_user_pos: "0 \<le> k \<Longrightarrow> seek_user m k (opened c) = File_Seek (userrec_length m * nat k) (opened c)"
  by (simp add: seek_user_def nat_mult_distrib)

lemma ReadUser_record:
  assumes "userrec_length m = 1024" "fs (user_list m) = Some c" "0 \<le> k" "k \<le> int (length c div 1024) - 1"
    and v: "valid_user v"
  shows "ReadUser m v k fs = Inr (True, FixUp (dec_user (read_at (1024 * nat k) 1024 c)))"
proof -
  have "nat k < length c div 1024" using assms(3,4) by linarith
  then have "1024 * nat k + 1024 \<le> length c" using record_range [of "nat k" "length c" 1024] by (simp add: mult.commute)
  then have "length (read_at (1024 * nat k) 1024 c) = 1024" by (rule length_read_at_full)
  then show ?thesis
    using assms v by (simp add: ReadUser_def user_records_def seek_user_pos File_Read_Seek length_enc_user)
qed

lemma WriteUser_record:
  assumes "userrec_length m = 1024" "valid_user u" "1 \<le> n" "n \<le> max_number_users m" "allow_writes m"
  shows "WriteUser m u n fs = Inr (True, fs(user_list m \<mapsto>
    overwrite (case fs (user_list m) of None \<Rightarrow> [] | Some c \<Rightarrow> c) (1024 * nat n) (enc_user u)))"
proof -
  have "enc_user u \<noteq> []" using user_codec.enc_nonempty [OF assms(2)] .
  then show ?thesis
    using assms by (simp add: WriteUser_def WriteUserNoCache_def seek_user_pos length_enc_user contents_File_Write_Seek)
qed

section \<open>Properties\<close>

text \<open>C38 A user that is written is read back as the record with every text terminated, and that record
  is a fixed point of \<open>FixUp\<close>; every other user is read as before, the file grows when the
  number is beyond its end, and numbers beyond the end read as deleted users.\<close>

theorem users_read_back:
  assumes m: "userrec_length m = 1024" "allow_writes m" and n: "1 \<le> n" "n \<le> max_number_users m"
    and u: "valid_user u" and v: "valid_user v" and old: "GetNumberOfUserRecords m fs = Inr N"
  shows "\<exists>fs1. WriteUser m u n fs = Inr (True, fs1) \<and> ReadUser m v n fs1 = Inr (True, FixUp u)
    \<and> (\<forall>t \<in> set (user_texts (FixUp u)). NUL \<in> set t) \<and> FixUp (FixUp u) = FixUp u
    \<and> (\<forall>k. 0 \<le> k \<and> k \<noteq> n \<and> k \<le> N \<and> fs (user_list m) \<noteq> None \<longrightarrow> ReadUser m v k fs1 = ReadUser m v k fs)
    \<and> GetNumberOfUserRecords m fs1 = Inr (max N n)
    \<and> (\<forall>k > max N n. \<exists>w. ReadUser m v k fs1 = Inr (False, w) \<and> IsUserDeleted w)"
proof -
  define c where "c = (case fs (user_list m) of None \<Rightarrow> [] | Some c \<Rightarrow> c)"
  define d where "d = overwrite c (1024 * nat n) (enc_user u)"
  let ?fs1 = "fs(user_list m \<mapsto> d)"
  have w: "WriteUser m u n fs = Inr (True, ?fs1)" using WriteUser_record [of m u n fs] assms by (simp add: c_def d_def)
  have len: "length d = max (length c) (1024 * (nat n + 1))" by (simp add: d_def length_overwrite length_enc_user u)
  then have div: "int (length d div 1024) - 1 = max (int (length c div 1024) - 1) n" using n(1) by (simp add: max_def) linarith
  have old_le: "int (length c div 1024) - 1 = N \<or> fs (user_list m) = None \<and> N = 0 \<and> c = []"
    using old m(1) by (auto simp: GetNumberOfUserRecords_def user_records_def c_def split: option.splits)
  have count: "int (length d div 1024) - 1 = max N n" using old_le div n(1) by auto
  have own: "read_at (1024 * nat n) 1024 d = enc_user u"
    using read_at_overwrite_same [of "1024 * nat n" "enc_user u" c] by (simp add: d_def length_enc_user u)
  have "ReadUser m v n ?fs1 = Inr (True, FixUp (dec_user (read_at (1024 * nat n) 1024 d)))"
    using m n v count by (intro ReadUser_record) auto
  then have "ReadUser m v n ?fs1 = Inr (True, FixUp u)" by (simp add: own dec_enc_user u)
  moreover have "ReadUser m v k ?fs1 = ReadUser m v k fs" if k: "0 \<le> k" "k \<noteq> n" "k \<le> N" "fs (user_list m) \<noteq> None" for k
  proof -
    have c: "fs (user_list m) = Some c" "k \<le> int (length c div 1024) - 1" using k(3,4) old_le by (auto simp: c_def)
    have "read_at (1024 * nat k) 1024 d = read_at (1024 * nat k) 1024 c"
    proof (cases "k < n")
      case True
      have "nat k < length c div 1024" using c(2) k(1) by linarith
      then have "1024 * nat k + 1024 \<le> length c" using record_range [of "nat k" "length c" 1024] by (simp add: mult.commute)
      then show ?thesis unfolding d_def using True k(1) by (intro read_at_overwrite_before) auto
    next
      case False
      then have "n < k" using k(2) by simp
      then show ?thesis unfolding d_def using n by (intro read_at_overwrite_after) (auto simp: length_enc_user u)
    qed
    moreover have "ReadUser m v k ?fs1 = Inr (True, FixUp (dec_user (read_at (1024 * nat k) 1024 d)))"
      using m k v count by (intro ReadUser_record) auto
    moreover have "ReadUser m v k fs = Inr (True, FixUp (dec_user (read_at (1024 * nat k) 1024 c)))"
      using m k v c by (intro ReadUser_record) auto
    ultimately show ?thesis by simp
  qed
  moreover have "GetNumberOfUserRecords m ?fs1 = Inr (max N n)"
    using m count by (simp add: GetNumberOfUserRecords_def user_records_def)
  moreover have "\<exists>w. ReadUser m v k ?fs1 = Inr (False, w) \<and> IsUserDeleted w" if "max N n < k" for k
    using m that count by (simp add: ReadUser_def user_records_def IsUserDeleted_def FixUp_def has_flag_def)
  ultimately show ?thesis using w FixUp_terminates [OF u] FixUp_idem by blast
qed

definition demo_manager :: UserManager where
  "demo_manager = \<lparr>um_directory = ''/data'', userrec_length = 1024, max_number_users = 500, allow_writes = True\<rparr>"

theorem users_read_back_witness:
  "\<exists>fs1. WriteUser demo_manager ZeroUserData 3 Map.empty = Inr (True, fs1) \<and> GetNumberOfUserRecords demo_manager fs1 = Inr 3"
proof -
  have "valid_user ZeroUserData" by (simp add: ZeroUserData_def valid_dec_user)
  moreover have "GetNumberOfUserRecords demo_manager Map.empty = Inr 0" by (simp add: GetNumberOfUserRecords_def)
  ultimately show ?thesis
    using users_read_back [of demo_manager 3 ZeroUserData ZeroUserData Map.empty 0] by (auto simp: demo_manager_def)
qed

end
