(* ===== verification/Zm_Wire.thy ===== *)
theory Zm_Wire
  imports Zm_Crc
begin

text \<open>
  \<open>bbs/prot/zmodem.h\<close>, \<open>zmutil.cpp\<close> and the functions of \<open>zmwwiv.cpp\<close> that the protocol calls: the
  state of a ZMODEM transfer and what it sends. The bytes on the line are \<open>u8\<close>; files and names are
  strings of \<open>char\<close>. \<open>ZModem\<close> is the structure of the same name together with what it works on:
  \<open>zout\<close> is what was written to the line, \<open>zdisk\<close> the files, \<open>zfile\<close> the open \<open>FILE*\<close> (its path and
  position). Flags that are only tested are \<open>bool\<close>. \<open>lastCR\<close>, \<open>errorFlush\<close>, \<open>ifd\<close> and \<open>ofd\<close> are never
  read and left out, and so are the messages of \<open>ZStatus\<close> and \<open>zmodemlog\<close>, which are for the screen.

  An operation returns the \<open>int\<close> of the code and the new state; a write past a buffer or through a
  null pointer is \<open>Inl UndefinedBehaviour\<close>. Writing to the line always succeeds (\<open>ZXmitStr\<close>
  returns 0).
\<close>

section \<open>The state\<close>

datatype ZMState =
    RStart | RSinitWait | RFileName | RCrc | RFile | RData | RDataErr | RFinish
  | TStart | TInit | FileWait | CrcWait | Sending | SendWait | SendDone | SendEof | TFinish
  | CommandData | CommandWait | StderrData | Done
  | YTStart | YTFile | YTDataWait | YTData | YTEOF | YTFin
  | YRStart | YRDataWait | YRData | YREOF

datatype input_state = Idle | Padding | Inhdr | Indata | Finish | Ysend | Yrcv

datatype protocol = XMODEM | YMODEM | ZMODEM

datatype streaming = Full | StrWindow | SlidingWindow | Segmented

text \<open>A pointer that was freed and not cleared is \<open>Dangling\<close>; freeing it again is undefined.\<close>

datatype 'a ptr = Null | Ptr 'a | Dangling

record zio =
  zout :: "u8 list"
  zdisk :: "string \<rightharpoonup> bytes"
  zfile :: "(string \<times> nat) ptr"

record zparams = zio +
  zrinitflags :: int
  zsinitflags :: int
  attn :: "string option"
  timeout :: int
  bufsize :: int
  packetsize :: int
  windowsize :: int
  filesRem :: int
  bytesRem :: int
  f0 :: u8
  f1 :: u8
  f2 :: u8
  f3 :: u8
  zlen :: int
  zmode :: int
  fileType :: int
  zdate :: "64 word"

record zcounters = zparams +
  zstate :: ZMState
  filename :: "string ptr"
  rfilename :: "string option"
  use_crc32 :: bool
  pktLen :: int
  DataType :: u8
  PacketType :: u8
  rcvlen :: int
  chrCount :: int
  crcCount :: int
  canCount :: int
  noiseCount :: int
  zbuffer :: "u8 list option"
  offset :: "64 word"
  lastOffset :: "64 word"
  zrposOffset :: "64 word"
  ylen :: int
  bufp :: int

record ZModem = zcounters +
  fileEof :: bool
  packetCount :: int
  errCount :: int
  timeoutCount :: int
  windowCount :: int
  atSign :: bool
  escCtrl :: bool
  escHibit :: bool
  escape :: bool
  interrupt :: bool
  waitflag :: bool
  InputState :: input_state
  Protocol :: protocol
  hdrData :: "u8 list"
  fileFlags :: "u8 list"
  zcrc :: "64 word"
  Streaming :: streaming

type_synonym zop = "ZModem \<Rightarrow> cpp_error + int \<times> ZModem"

text \<open>\<open>if( (err = a) ) return err; return b;\<close> and \<open>a; return b;\<close>.\<close>

definition zthen :: "zop \<Rightarrow> zop \<Rightarrow> zop" where
  "zthen a b s = bind_res (a s) (\<lambda>(err, s1). if err \<noteq> 0 then Inr (err, s1) else b s1)"

definition zseq :: "zop \<Rightarrow> zop \<Rightarrow> zop" where
  "zseq a b s = bind_res (a s) (\<lambda>(_, s1). b s1)"

definition zreturn :: "int \<Rightarrow> zop" where
  "zreturn err s = Inr (err, s)"

definition free :: "'a ptr \<Rightarrow> cpp_error + 'a ptr" where
  "free p = (case p of Null \<Rightarrow> Inr Null | Ptr _ \<Rightarrow> Inr Dangling | Dangling \<Rightarrow> Inl UndefinedBehaviour)"

section \<open>Constants\<close>

abbreviation ZDLE :: u8 where "ZDLE \<equiv> 0x18"
abbreviation ZPAD :: u8 where "ZPAD \<equiv> 0x2a"
abbreviation ZBIN :: u8 where "ZBIN \<equiv> 0x41"
abbreviation ZHEX :: u8 where "ZHEX \<equiv> 0x42"
abbreviation ZBIN32 :: u8 where "ZBIN32 \<equiv> 0x43"
abbreviation ZRQINIT :: u8 where "ZRQINIT \<equiv> 0"
abbreviation ZRINIT :: u8 where "ZRINIT \<equiv> 1"
abbreviation ZSINIT :: u8 where "ZSINIT \<equiv> 2"
abbreviation ZACK :: u8 where "ZACK \<equiv> 3"
abbreviation ZFILE :: u8 where "ZFILE \<equiv> 4"
abbreviation ZSKIP :: u8 where "ZSKIP \<equiv> 5"
abbreviation ZNAK :: u8 where "ZNAK \<equiv> 6"
abbreviation ZABORT :: u8 where "ZABORT \<equiv> 7"
abbreviation ZFIN :: u8 where "ZFIN \<equiv> 8"
abbreviation ZRPOS :: u8 where "ZRPOS \<equiv> 9"
abbreviation ZDATA :: u8 where "ZDATA \<equiv> 10"
abbreviation ZEOF :: u8 where "ZEOF \<equiv> 11"
abbreviation ZFERR :: u8 where "ZFERR \<equiv> 12"
abbreviation ZCRC :: u8 where "ZCRC \<equiv> 13"
abbreviation ZCHALLENGE :: u8 where "ZCHALLENGE \<equiv> 14"
abbreviation ZCOMPL :: u8 where "ZCOMPL \<equiv> 15"
abbreviation ZFREECNT :: u8 where "ZFREECNT \<equiv> 17"
abbreviation ZCOMMAND :: u8 where "ZCOMMAND \<equiv> 18"
abbreviation ZSTDERR :: u8 where "ZSTDERR \<equiv> 19"
abbreviation ZCRCE :: u8 where "ZCRCE \<equiv> 0x68"
abbreviation ZCRCG :: u8 where "ZCRCG \<equiv> 0x69"
abbreviation ZCRCQ :: u8 where "ZCRCQ \<equiv> 0x6a"
abbreviation ZCRCW :: u8 where "ZCRCW \<equiv> 0x6b"
abbreviation ZRUB0 :: u8 where "ZRUB0 \<equiv> 0x6c"
abbreviation ZRUB1 :: u8 where "ZRUB1 \<equiv> 0x6d"
abbreviation SOH :: u8 where "SOH \<equiv> 1"
abbreviation STX :: u8 where "STX \<equiv> 2"
abbreviation EOT :: u8 where "EOT \<equiv> 4"
abbreviation ACK :: u8 where "ACK \<equiv> 6"
abbreviation XON :: u8 where "XON \<equiv> 0x11"
abbreviation XOFF :: u8 where "XOFF \<equiv> 0x13"
abbreviation NAK :: u8 where "NAK \<equiv> 0x15"
abbreviation CAN :: u8 where "CAN \<equiv> 0x18"

abbreviation ZmDone :: int where "ZmDone \<equiv> - 1"
abbreviation ZmErrSys :: int where "ZmErrSys \<equiv> - 3"
abbreviation ZmErrCantOpen :: int where "ZmErrCantOpen \<equiv> - 5"
abbreviation ZmFileTooLong :: int where "ZmFileTooLong \<equiv> - 6"
abbreviation ZmDataErr :: int where "ZmDataErr \<equiv> - 8"
abbreviation ZmErrInitTo :: int where "ZmErrInitTo \<equiv> - 10"
abbreviation ZmErrSequence :: int where "ZmErrSequence \<equiv> - 11"
abbreviation ZmErrCancel :: int where "ZmErrCancel \<equiv> - 12"
abbreviation ZmErrRcvTo :: int where "ZmErrRcvTo \<equiv> - 13"
abbreviation ZmErrSndTo :: int where "ZmErrSndTo \<equiv> - 14"
abbreviation ZmErrCmdTo :: int where "ZmErrCmdTo \<equiv> - 15"

section \<open>Sending\<close>

definition ZXmitStr :: "u8 list \<Rightarrow> zop" where
  "ZXmitStr str s = Inr (0, s\<lparr>zout := zout s @ str\<rparr>)"

definition hexChars :: "u8 list" where
  "hexChars = [0x30, 0x31, 0x32, 0x33, 0x34, 0x35, 0x36, 0x37, 0x38, 0x39, 0x61, 0x62, 0x63, 0x64, 0x65, 0x66]"

definition putHex :: "u8 \<Rightarrow> u8 list" where
  "putHex c = [hexChars ! unat (drop_bit 4 c AND 0xf), hexChars ! unat (c AND 0xf)]"

definition must_escape :: "bool \<Rightarrow> bool \<Rightarrow> u8 \<Rightarrow> bool" where
  "must_escape at_sign esc_ctrl c \<longleftrightarrow>
     (let c2 = c AND 0x7f
      in c = ZDLE \<or> c2 = 0x10 \<or> c2 = 0x11 \<or> c2 = 0x13 \<or> c2 = 0x7f \<or> (c2 = 0x0d \<and> at_sign) \<or> c2 = 0x1d
         \<or> (c2 < 0x20 \<and> esc_ctrl))"

definition escaped :: "u8 \<Rightarrow> u8 list" where
  "escaped c = [ZDLE, if c = 0x7f then ZRUB0 else if c = 0xff then ZRUB1 else c XOR 0x40]"

definition putZdle :: "u8 \<Rightarrow> ZModem \<Rightarrow> u8 list \<times> ZModem" where
  "putZdle c s =
     (if must_escape (atSign s) (escCtrl s) c then escaped c else [c], s\<lparr>atSign := (c AND 0x7f = 0x40)\<rparr>)"

fun putZdles :: "u8 list \<Rightarrow> ZModem \<Rightarrow> u8 list \<times> ZModem" where
  "putZdles [] s = ([], s)"
| "putZdles (c # cs) s =
     (let (b, s1) = putZdle c s; (bs, s2) = putZdles cs s1 in (b @ bs, s2))"

text \<open>\<open>u_int crc\<close> keeps 32 bits; the low 16 are sent.\<close>

definition crc_bytes :: "32 word \<Rightarrow> u8 list" where
  "crc_bytes crc = [ucast (drop_bit 8 crc AND 0xff), ucast (crc AND 0xff)]"

fun crc32_bytes :: "nat \<Rightarrow> 'a::len word \<Rightarrow> u8 list" where
  "crc32_bytes 0 crc = []"
| "crc32_bytes (Suc n) crc = ucast (crc AND 0xff) # crc32_bytes n (drop_bit 8 crc)"

definition hex_header :: "u8 \<Rightarrow> u8 list \<Rightarrow> u8 list" where
  "hex_header type data =
     (let crc = updcrc 0 (updcrc 0 (fold updcrc data (updcrc type 0)))
      in [ZPAD, ZPAD, ZDLE, ZHEX] @ putHex type @ concat (map putHex data) @ concat (map putHex (crc_bytes crc))
         @ [0x0d, 0x0a] @ (if type \<noteq> ZACK \<and> type \<noteq> ZFIN then [XON] else []))"

definition ZXmitHdrHex :: "u8 \<Rightarrow> u8 list \<Rightarrow> zop" where
  "ZXmitHdrHex type data = ZXmitStr (hex_header type data)"

definition ZXmitHdrBin :: "u8 \<Rightarrow> u8 list \<Rightarrow> zop" where
  "ZXmitHdrBin type data s =
     (let crc = updcrc 0 (updcrc 0 (fold updcrc data (updcrc type 0)));
          (b, s1) = putZdles (type # data @ crc_bytes crc) s
      in ZXmitStr ([ZPAD, ZDLE, ZBIN] @ b) s1)"

definition ZXmitHdrBin32 :: "u8 \<Rightarrow> u8 list \<Rightarrow> zop" where
  "ZXmitHdrBin32 type data s =
     (let crc = fold UPDC32 data (UPDC32 type 0xffffffff) :: 64 word;
          (b, s1) = putZdles (type # data @ crc32_bytes 4 (NOT crc)) s
      in ZXmitStr ([ZPAD, ZDLE, ZBIN32] @ b) s1)"

definition ZXmitHdr :: "u8 \<Rightarrow> u8 \<Rightarrow> u8 list \<Rightarrow> zop" where
  "ZXmitHdr type format0 data s =
     (let format = (if format0 = ZBIN \<and> use_crc32 s then ZBIN32 else format0)
      in if format = ZHEX then ZXmitHdrHex type data s
         else if format = ZBIN then ZXmitHdrBin type data s
         else if format = ZBIN32 then ZXmitHdrBin32 type data s
         else Inr (0, s))"

text \<open>Bytes written from the start of \<open>info->buffer\<close>.\<close>

definition fill_buffer :: "u8 list \<Rightarrow> ZModem \<Rightarrow> cpp_error + ZModem" where
  "fill_buffer b s =
     (case zbuffer s of
        None \<Rightarrow> Inl UndefinedBehaviour
      | Some m \<Rightarrow> if length m < length b then Inl UndefinedBehaviour
                  else Inr (s\<lparr>zbuffer := Some (b @ drop (length b) m)\<rparr>))"

definition ZXmitData :: "u8 \<Rightarrow> u8 \<Rightarrow> u8 list \<Rightarrow> zop" where
  "ZXmitData format0 end_type data s =
     (let format = (if format0 = ZBIN \<and> use_crc32 s then ZBIN32 else format0);
          (b, s1) = putZdles data s;
          trail = (if format = ZBIN
                   then crc_bytes (updcrc 0 (updcrc 0 (updcrc end_type (fold updcrc data 0))))
                   else crc32_bytes 4 (NOT (UPDC32 end_type (fold UPDC32 data 0xffffffff)) :: u32));
          (t, s2) = putZdles trail s1;
          packet = b @ [ZDLE, end_type] @ t
      in bind_res (fill_buffer packet s2) (ZXmitStr packet))"

section \<open>Numbers and files\<close>

definition ZEnc4 :: "64 word \<Rightarrow> u8 list" where
  "ZEnc4 n = [ucast (n AND 0xff), ucast (drop_bit 8 n AND 0xff), ucast (drop_bit 16 n AND 0xff), ucast (drop_bit 24 n AND 0xff)]"

text \<open>The \<open>int\<close> of the four bytes is widened with its sign.\<close>

definition ZDec4 :: "u8 list \<Rightarrow> 64 word" where
  "ZDec4 buf = scast (ucast (buf ! 0) OR push_bit 8 (ucast (buf ! 1)) OR push_bit 16 (ucast (buf ! 2))
     OR push_bit 24 (ucast (buf ! 3)) :: 32 word)"

definition u8_of :: "char \<Rightarrow> u8" where
  "u8_of c = word_of_nat (of_char c)"

definition char_of_u8 :: "u8 \<Rightarrow> char" where
  "char_of_u8 w = char_of (unat w)"

definition FileCrc :: "string \<Rightarrow> (string \<rightharpoonup> bytes) \<Rightarrow> 64 word" where
  "FileCrc name fs =
     (case fs name of None \<Rightarrow> 0 | Some c \<Rightarrow> NOT (fold UPDC32 (map u8_of c) 0xffffffff))"

end
