(* ===== verification/Zm_Receive.thy ===== *)
theory Zm_Receive
  imports Zm_Wire "HOL-Library.Signed_Division"
begin

text \<open>
  \<open>bbs/prot/zmodemr.cpp\<close>: what the receiving side does when a header or a data packet has arrived,
  in ZMODEM and in YMODEM, with the file functions of \<open>zmwwiv.cpp\<close>. \<open>zenv\<close> is what the operating
  system decides: which files can be created and written, what fresh memory holds, and \<open>errno\<close>.
  A file is written at once; \<open>fclose\<close> changes nothing on the disk.
\<close>

record zenv =
  tempdir :: string
  can_create :: "string \<Rightarrow> bool"
  write_ok :: "string \<Rightarrow> bytes \<Rightarrow> bool"
  heap_mem :: "nat \<Rightarrow> u8"
  errno :: int
  mtime :: "string \<Rightarrow> 64 word"
  st_mode :: "string \<Rightarrow> nat"

definition malloc :: "zenv \<Rightarrow> int \<Rightarrow> u8 list" where
  "malloc env n = map (heap_mem env) [0..<nat n]"

section \<open>C strings and numbers\<close>

text \<open>The string at the start of \<open>m\<close>, and what stands behind its NUL.\<close>

definition string_at :: "u8 list \<Rightarrow> cpp_error + string \<times> u8 list" where
  "string_at m =
     (if 0 \<in> set m then Inr (map char_of_u8 (takeWhile (\<lambda>c. c \<noteq> 0) m), tl (dropWhile (\<lambda>c. c \<noteq> 0) m))
      else Inl UndefinedBehaviour)"

text \<open>One conversion of \<open>sscanf\<close> in base 8 or 10. A number that does not fit its type, for which the
  result of \<open>sscanf\<close> is not defined, keeps its low bits here.\<close>

definition scan_base :: "nat \<Rightarrow> string \<Rightarrow> (int \<times> string) option" where
  "scan_base b s =
     (let t = dropWhile isspace s;
          neg = (t \<noteq> [] \<and> hd t = CHR ''-'');
          u = (if t \<noteq> [] \<and> (hd t = CHR ''-'' \<or> hd t = CHR ''+'') then tl t else t);
          digit = (\<lambda>c. isdigit c \<and> digit_val c < b);
          ds = takeWhile digit u;
          v = int (foldl (\<lambda>n c. b * n + digit_val c) 0 ds)
      in if ds = [] then None else Some (if neg then - v else v, dropWhile digit u))"

fun scan_bases :: "nat list \<Rightarrow> string \<Rightarrow> int list" where
  "scan_bases [] s = []"
| "scan_bases (b # bs) s = (case scan_base b s of None \<Rightarrow> [] | Some (v, rest) \<Rightarrow> v # scan_bases bs rest)"

definition to_int :: "int \<Rightarrow> int" where
  "to_int v = sint (word_of_int v :: 32 word)"

section \<open>The files\<close>

definition ZOpenFile :: "zenv \<Rightarrow> string \<Rightarrow> ZModem \<Rightarrow> cpp_error + bool \<times> ZModem" where
  "ZOpenFile env file_name s =
     (let path = tempdir env @ file_name
      in if 260 \<le> length path then Inl UndefinedBehaviour
         else if can_create env path
         then Inr (True, s\<lparr>zdisk := (zdisk s)(path \<mapsto> []), zfile := Ptr (path, 0)\<rparr>)
         else Inr (False, s\<lparr>zfile := Null\<rparr>))"

text \<open>\<open>fwrite\<close> at the end of the file, which is where it was left.\<close>

definition ZWriteFile :: "zenv \<Rightarrow> u8 list \<Rightarrow> zop" where
  "ZWriteFile env buffer s =
     (case zfile s of
        Ptr (path, pos) \<Rightarrow>
          (let b = map char_of_u8 buffer
           in if write_ok env path b
              then Inr (0, s\<lparr>zdisk := (zdisk s)(path \<mapsto> (case zdisk s path of None \<Rightarrow> [] | Some c \<Rightarrow> c) @ b),
                            zfile := Ptr (path, pos + length b)\<rparr>)
              else Inr (ZmErrSys, s))
      | _ \<Rightarrow> Inl UndefinedBehaviour)"

definition ZCloseFile :: zop where
  "ZCloseFile s = (case zfile s of Ptr _ \<Rightarrow> Inr (0, s\<lparr>zfile := Dangling\<rparr>) | _ \<Rightarrow> Inl UndefinedBehaviour)"

text \<open>The attention string, without the codes for a break (0xdd) and a pause (0xde).\<close>

definition ZAttn :: zop where
  "ZAttn s =
     (case attn s of
        None \<Rightarrow> Inr (0, s)
      | Some a \<Rightarrow> ZXmitStr (filter (\<lambda>c. c \<noteq> 0xdd \<and> c \<noteq> 0xde) (map u8_of a)) s)"

definition ZmodemAbort :: zop where
  "ZmodemAbort s = ZXmitStr (replicate 8 CAN @ replicate 10 8) (s\<lparr>zstate := Done\<rparr>)"

definition dataSetup :: zop where
  "dataSetup s =
     Inr (0, s\<lparr>InputState := Indata, chrCount := 0, crcCount := 0, zcrc := (if DataType s \<noteq> ZBIN32 then 0 else 0xffffffff)\<rparr>)"

section \<open>Starting\<close>

definition ZmodemRInit :: "zenv \<Rightarrow> zop" where
  "ZmodemRInit env s =
     Inr (0, s\<lparr>packetCount := 0, offset := 0, errCount := 0, escCtrl := False, escHibit := False, atSign := False,
       escape := False, InputState := Idle, canCount := 0, chrCount := 0, filename := Null, interrupt := False,
       waitflag := False, attn := None, zfile := Null, zbuffer := Some (malloc env 8192), zstate := RStart,
       timeoutCount := 0, timeout := 0\<rparr>)"

definition YmodemRInit :: "zenv \<Rightarrow> zop" where
  "YmodemRInit env s =
     ZXmitStr [0x43] (s\<lparr>errCount := 0, InputState := Yrcv, canCount := 0, chrCount := 0, noiseCount := 0, filename := Null,
       zfile := Null, zbuffer := (case zbuffer s of None \<Rightarrow> Some (malloc env 1024) | Some m \<Rightarrow> Some m),
       zstate := YRStart, packetCount := - 1, timeoutCount := 0, timeout := 10, offset := 0\<rparr>)"

section \<open>Headers\<close>

definition zeros :: "u8 list" where
  "zeros = [0, 0, 0, 0]"

definition byte_of_int :: "int \<Rightarrow> u8" where
  "byte_of_int n = word_of_int n"

definition SendRinit :: zop where
  "SendRinit s =
     ZXmitHdrHex ZRINIT [byte_of_int (bufsize s), byte_of_int (bufsize s div 256), 0, byte_of_int (zrinitflags s)]
       (s\<lparr>timeout := 10\<rparr>)"

definition GotSinit :: zop where
  "GotSinit s =
     (let flags = hdrData s ! 4
      in dataSetup (s\<lparr>zsinitflags := uint flags, escCtrl := bit flags 6, escHibit := bit flags 7\<rparr>))"

definition with_buffer :: "ZModem \<Rightarrow> (u8 list \<Rightarrow> cpp_error + 'a) \<Rightarrow> cpp_error + 'a" where
  "with_buffer s f = (case zbuffer s of None \<Rightarrow> Inl UndefinedBehaviour | Some m \<Rightarrow> f m)"

definition GotSinitData :: "bool \<Rightarrow> zop" where
  "GotSinitData crcGood s0 =
     (let s = s0\<lparr>InputState := Idle, chrCount := 0, zstate := RStart\<rparr>
      in if \<not> crcGood then ZXmitHdrHex ZNAK zeros s
         else with_buffer s (\<lambda>m. bind_res (string_at m) (\<lambda>(a, _).
                ZXmitHdrHex ZACK (ZEnc4 1) (s\<lparr>attn := (if a = [] then None else Some a)\<rparr>))))"

definition GotFile :: zop where
  "GotFile s =
     dataSetup (s\<lparr>errCount := 0, f0 := hdrData s ! 4, f1 := hdrData s ! 3, f2 := hdrData s ! 2, f3 := hdrData s ! 1\<rparr>)"

definition requestFile :: "zenv \<Rightarrow> zop" where
  "requestFile env s =
     with_buffer s (\<lambda>m. bind_res (string_at m) (\<lambda>(name, _).
       bind_res (ZOpenFile env name s) (\<lambda>(opened, s1).
         if \<not> opened then ZXmitHdrHex ZSKIP zeros (s1\<lparr>zstate := RStart\<rparr>)
         else let pos = (if f0 s1 = 3 then (case zfile s1 of Ptr (_, p) \<Rightarrow> word_of_nat p | _ \<Rightarrow> 0) else 0)
              in ZXmitHdrHex ZRPOS (ZEnc4 pos) (s1\<lparr>offset := pos, zstate := RFile\<rparr>))))"

definition parseFileName :: "u8 list \<Rightarrow> ZModem \<Rightarrow> cpp_error + ZModem" where
  "parseFileName fileinfo s =
     bind_res (string_at fileinfo) (\<lambda>(name, rest).
     bind_res (string_at rest) (\<lambda>(numbers, _).
       let v = scan_bases [10, 8, 8, 8, 10, 10, 10] numbers;
           get = (\<lambda>i. if i < length v then to_int (v ! i) else 0)
       in bind_res (free (filename s)) (\<lambda>_.
          Inr (s\<lparr>filename := Ptr name, zlen := get 0, zdate := (if 1 < length v then word_of_int (v ! 1) else zdate s),
                 zmode := get 2, filesRem := get 4, bytesRem := get 5, fileType := get 6\<rparr>))))"

definition GotFileName :: "zenv \<Rightarrow> bool \<Rightarrow> zop" where
  "GotFileName env crcGood s0 =
     (let s = s0\<lparr>InputState := Idle, chrCount := 0\<rparr>
      in if \<not> crcGood then ZXmitHdrHex ZNAK zeros (s\<lparr>zstate := RStart\<rparr>)
         else with_buffer s (\<lambda>m. bind_res (parseFileName m s) (\<lambda>s1.
                if f1 s1 AND 0x1f = 2 then ZXmitHdrHex ZCRC zeros (s1\<lparr>zstate := RCrc\<rparr>)
                else requestFile env (s1\<lparr>zstate := RFile\<rparr>))))"

definition ResendCrcReq :: zop where
  "ResendCrcReq = ZXmitHdrHex ZCRC zeros"

definition GotFileCrc :: "zenv \<Rightarrow> zop" where
  "GotFileCrc env = requestFile env"

definition ResendRpos :: zop where
  "ResendRpos s = ZXmitHdrHex ZRPOS (ZEnc4 (offset s)) s"

definition header_offset :: "ZModem \<Rightarrow> 64 word" where
  "header_offset s = ZDec4 (tl (hdrData s))"

definition GotData :: zop where
  "GotData s =
     (if header_offset s \<noteq> offset s
      then zthen (if attn s \<noteq> None then ZAttn else zreturn 0) ResendRpos s
      else dataSetup s)"

definition fileError :: "u8 \<Rightarrow> 64 word \<Rightarrow> zop" where
  "fileError type data s =
     zthen (if attn s \<noteq> None then ZAttn else zreturn 0) (ZXmitHdrHex type (ZEnc4 data)) (s\<lparr>InputState := Idle, chrCount := 0\<rparr>)"

definition GotFileData :: "zenv \<Rightarrow> bool \<Rightarrow> zop" where
  "GotFileData env crcGood s =
     (if \<not> crcGood
      then let s1 = s\<lparr>errCount := errCount s + 1\<rparr>
           in if 20 < errCount s1 then zseq ZmodemAbort (zreturn ZmDataErr) s1
              else fileError ZRPOS (offset s) (s1\<lparr>zstate := RFile, InputState := Idle, chrCount := 0\<rparr>)
      else with_buffer s (\<lambda>m. bind_res (ZWriteFile env (take (nat (chrCount s)) m) s) (\<lambda>(err, s1).
        if err \<noteq> 0
        then fileError ZFERR (word_of_int (errno env)) (s1\<lparr>zstate := RFinish, InputState := Idle, chrCount := 0\<rparr>)
        else let s2 = s1\<lparr>offset := offset s1 + word_of_int (chrCount s1)\<rparr>;
                 ends = (PacketType s2 = ZCRCE \<or> PacketType s2 = ZCRCW)
             in bind_res (if ends then Inr (0, s2\<lparr>zstate := RFile, InputState := Idle, chrCount := 0\<rparr>) else dataSetup s2)
                (\<lambda>(_, s3). if PacketType s3 = ZCRCQ \<or> PacketType s3 = ZCRCW
                           then ZXmitHdrHex ZACK (ZEnc4 (offset s3)) s3 else Inr (0, s3)))))"

definition GotEof :: zop where
  "GotEof s =
     (if header_offset s \<noteq> offset s then Inr (0, s\<lparr>zstate := RFile\<rparr>)
      else zseq ZCloseFile (\<lambda>s1. bind_res (free (filename s1)) (\<lambda>_. SendRinit (s1\<lparr>zfile := Null, filename := Null\<rparr>))) s)"

text \<open>The name is freed and the pointer left as it was.\<close>

definition GotFin :: zop where
  "GotFin s = bind_res (free (filename s)) (\<lambda>p.
     ZXmitHdrHex ZFIN zeros (s\<lparr>InputState := Finish, chrCount := 0, filename := p\<rparr>))"

definition GotFreecnt :: zop where
  "GotFreecnt = ZXmitHdrHex ZACK (ZEnc4 0xffffffff)"

section \<open>YMODEM\<close>

definition calcCrc :: "u8 list \<Rightarrow> int" where
  "calcCrc str = uint (updcrc 0 (updcrc 0 (fold updcrc str (0 :: 32 word))) AND 0xffff)"

definition rejectPacket :: zop where
  "rejectPacket s = ZXmitStr [NAK] (s\<lparr>timeout := 10\<rparr>)"

definition acceptPacket :: zop where
  "acceptPacket s = ZXmitStr [ACK] (s\<lparr>zstate := YRDataWait, timeout := 10\<rparr>)"

definition CanStr :: "u8 list" where
  "CanStr = [CAN, CAN]"

definition dataError :: "ZModem \<Rightarrow> ZModem" where
  "dataError s = s\<lparr>errCount := errCount s + 1\<rparr>"

text \<open>The packet is \<open>m\<close>: number, complement, data, checksum. \<open>%\<close> rounds towards zero.\<close>

definition ProcessPacket :: "zenv \<Rightarrow> zop" where
  "ProcessPacket env s0 = with_buffer s0 (\<lambda>m.
     (let s = s0\<lparr>zstate := YRDataWait\<rparr>;
          idx = uint (m ! 0); idxc = uint (m ! 1); n = nat (pktLen s)
      in if idxc \<noteq> 255 - idx then rejectPacket (dataError s)
         else if idx = packetCount s smod 256 then acceptPacket s
         else if idx \<noteq> (packetCount s + 1) smod 256 then zseq (ZXmitStr CanStr) (zreturn ZmErrSequence) s
         else if uint (m ! (n - 2)) * 256 + uint (m ! (n - 1)) \<noteq> calcCrc (take (n - 4) (drop 2 m)) then rejectPacket (dataError s)
         else let s1 = s\<lparr>packetCount := packetCount s + 1\<rparr>
              in if packetCount s1 = 0
                 then (if m ! 2 = 0 then zseq acceptPacket (zreturn ZmDone) s1
                       else bind_res (parseFileName (drop 2 m) s1) (\<lambda>s2.
                            bind_res (ZOpenFile env (case filename s2 of Ptr a \<Rightarrow> a | _ \<Rightarrow> []) s2) (\<lambda>(opened, s3).
                              if \<not> opened then zseq (ZXmitStr CanStr) (zreturn ZmErrCantOpen) s3
                              else zthen acceptPacket (ZXmitStr [0x43]) s3)))
                 else bind_res (ZWriteFile env (take (n - 4) (drop 2 m)) s1) (\<lambda>(err, s2).
                      if err \<noteq> 0 then zseq (ZXmitStr CanStr) (zreturn ZmErrSys) s2
                      else zseq acceptPacket (zreturn 0) (s2\<lparr>offset := offset s2 + word_of_int (pktLen s2 - 4)\<rparr>))))"

text \<open>\<open>info->buffer[info->chrCount++] = c;\<close>\<close>

definition store_char :: "u8 \<Rightarrow> ZModem \<Rightarrow> cpp_error + ZModem" where
  "store_char c s = with_buffer s (\<lambda>m.
     if chrCount s < 0 \<or> int (length m) \<le> chrCount s then Inl UndefinedBehaviour
     else Inr (s\<lparr>zbuffer := Some (m[nat (chrCount s) := c]), chrCount := chrCount s + 1\<rparr>))"

definition YrcvStart :: "u8 \<Rightarrow> zop" where
  "YrcvStart c s =
     (if c = SOH \<or> c = STX
      then Inr (0, s\<lparr>pktLen := (if c = SOH then 128 + 4 else 1024 + 4), zstate := YRData, chrCount := 0, timeout := 1,
             noiseCount := 0, zcrc := 0\<rparr>)
      else if c = EOT then rejectPacket (s\<lparr>zstate := YREOF\<rparr>)
      else let s1 = s\<lparr>noiseCount := noiseCount s + 1\<rparr>
           in if 135 < noiseCount s1 then ZXmitStr [NAK] s1 else Inr (0, s1))"

definition YrcvChar :: "zenv \<Rightarrow> u8 \<Rightarrow> zop" where
  "YrcvChar env c s =
     (if 2 \<le> canCount s then Inr (ZmErrCancel, s)
      else case zstate s of
        YREOF \<Rightarrow>
          (if c = EOT
           then zseq ZCloseFile (\<lambda>s1. bind_res (free (filename s1)) (\<lambda>p. zthen acceptPacket
                  (\<lambda>s2. ZXmitStr [0x43] (s2\<lparr>packetCount := - 1, offset := 0, zstate := YRStart\<rparr>))
                  (s1\<lparr>zfile := Null, filename := p\<rparr>))) s
           else YrcvStart c s)
      | YRStart \<Rightarrow> YrcvStart c s
      | YRDataWait \<Rightarrow> YrcvStart c s
      | YRData \<Rightarrow> bind_res (store_char c s) (\<lambda>s1. if pktLen s1 \<le> chrCount s1 then ProcessPacket env s1 else Inr (0, s1))
      | _ \<Rightarrow> Inr (0, s))"

definition YrcvTimeout :: zop where
  "YrcvTimeout s =
     (case zstate s of
        YRStart \<Rightarrow> if 10 \<le> timeoutCount s then zseq (ZXmitStr CanStr) (zreturn ZmErrInitTo) s else ZXmitStr [0x43] s
      | YRDataWait \<Rightarrow> if 10 \<le> timeoutCount s then zseq (ZXmitStr CanStr) (zreturn ZmErrRcvTo) s else ZXmitStr [NAK] s
      | YREOF \<Rightarrow> if 10 \<le> timeoutCount s then zseq (ZXmitStr CanStr) (zreturn ZmErrRcvTo) s else ZXmitStr [NAK] s
      | YRData \<Rightarrow> if 10 \<le> timeoutCount s then zseq (ZXmitStr CanStr) (zreturn ZmErrRcvTo) s else ZXmitStr [NAK] s
      | _ \<Rightarrow> Inr (0, s))"

end
