(* ===== verification/Zm_Transmit.thy ===== *)
theory Zm_Transmit
  imports Zm_Receive
begin

text \<open>
  \<open>bbs/prot/zmodemt.cpp\<close>: starting a transfer, and what the sending side does when a header has
  arrived, in ZMODEM, and a character, in YMODEM and XMODEM.
\<close>

section \<open>Starting\<close>

definition ZmodemTInit :: "zenv \<Rightarrow> zop" where
  "ZmodemTInit env s0 =
     (let s = s0\<lparr>zstate := TStart, Protocol := ZMODEM, use_crc32 := False, packetCount := 0, errCount := 0, escCtrl := False,
            escHibit := False, atSign := False, escape := False, InputState := Idle, canCount := 0, chrCount := 0,
            windowCount := 0, filename := Null, bufsize := 0, interrupt := False, waitflag := False,
            packetsize := (if packetsize s0 = 0 then 1024 else packetsize s0)\<rparr>;
          s1 = s\<lparr>zbuffer := Some (malloc env (max 1024 (packetsize s * 2)))\<rparr>
      in zthen (ZXmitStr (map u8_of ''rz'' @ [0x0d])) (zthen (ZXmitHdr ZRQINIT ZHEX zeros)
           (\<lambda>s2. Inr (0, s2\<lparr>timeout := 60\<rparr>))) s1)"

definition YmodemTInit :: "zenv \<Rightarrow> zop" where
  "YmodemTInit env s =
     Inr (0, s\<lparr>zstate := YTStart, Protocol := YMODEM, errCount := 0, InputState := Ysend, canCount := 0, chrCount := 0,
       windowCount := 0, filename := Null, packetsize := (if packetsize s \<noteq> 1024 then 128 else 1024),
       zbuffer := Some (malloc env 1024), timeout := 60\<rparr>)"

definition XmodemTInit :: "zenv \<Rightarrow> zop" where
  "XmodemTInit env = zseq (YmodemTInit env) (\<lambda>s. Inr (0, s\<lparr>Protocol := XMODEM\<rparr>))"

section \<open>YMODEM packets\<close>

definition YXmitData :: "u8 list \<Rightarrow> zop" where
  "YXmitData buffer s =
     (let n = byte_of_int (packetCount s);
          hdr = [if length buffer = 1024 then STX else SOH, n, NOT n];
          crc = updcrc 0 (updcrc 0 (fold updcrc buffer (0 :: 64 word)));
          trail = (if PacketType s = NAK then [byte_of_int (sum_list (map uint buffer))]
                   else [ucast (drop_bit 8 crc), ucast crc])
      in zthen (ZXmitStr hdr) (zthen (ZXmitStr buffer) (ZXmitStr trail)) s)"

fun show_oct :: "nat \<Rightarrow> string" where
  "show_oct n = (if n < 8 then [] else show_oct (n div 8)) @ [char_of (48 + n mod 8)]"

declare show_oct.simps [simp del]

text \<open>\<open>obuf\<close> of \<open>YSendFilename\<close> has 1024 bytes, the packet 128 or 1024.\<close>

definition YSendFilename :: zop where
  "YSendFilename s0 =
     (let s = s0\<lparr>zstate := (if PacketType s0 \<noteq> 0x47 then YTFile else YTDataWait), packetCount := 0, offset := 0\<rparr>
      in case rfilename s of
           None \<Rightarrow> Inl UndefinedBehaviour
         | Some name \<Rightarrow>
             (let obuf = map u8_of name @ [0] @ map u8_of (show_int (zlen s) @ '' '' @ show_oct (unat (zdate s)) @ '' ''
                          @ show_oct (nat (zmode s mod 2 ^ 32)) @ '' 0'') @ [0];
                  len = (if 128 < length obuf then 1024 else 128)
              in if 1024 < length obuf then Inl UndefinedBehaviour
                 else YXmitData (obuf @ replicate (len - length obuf) 0) s))"

text \<open>The buffer is filled from the file when it is empty, and the last packet padded.\<close>

definition fread :: "ZModem \<Rightarrow> cpp_error + ZModem" where
  "fread s =
     (case zfile s of
        Ptr (path, pos) \<Rightarrow>
          with_buffer s (\<lambda>m.
            let c = (case zdisk s path of None \<Rightarrow> [] | Some c \<Rightarrow> c);
                b = map u8_of (take (nat (packetsize s)) (drop pos c))
            in if length m < length b then Inl UndefinedBehaviour
               else Inr (s\<lparr>zbuffer := Some (b @ drop (length b) m), bufp := 0, chrCount := int (length b),
                           fileEof := length c < pos + nat (packetsize s), zfile := Ptr (path, pos + length b)\<rparr>))
      | _ \<Rightarrow> Inl UndefinedBehaviour)"

definition buffer_at :: "int \<Rightarrow> int \<Rightarrow> ZModem \<Rightarrow> cpp_error + u8 list" where
  "buffer_at p n s = with_buffer s (\<lambda>m.
     if p < 0 \<or> int (length m) < p + n then Inl UndefinedBehaviour else Inr (take (nat n) (drop (nat p) m)))"

definition pad_buffer :: "ZModem \<Rightarrow> cpp_error + ZModem" where
  "pad_buffer s =
     (if chrCount s < 128
      then with_buffer s (\<lambda>m.
             let p = nat (bufp s + chrCount s); i = nat (128 - chrCount s)
             in if length m < p + i then Inl UndefinedBehaviour
                else Inr (s\<lparr>zbuffer := Some (take p m @ replicate i 0x1a @ drop (p + i) m), chrCount := 128\<rparr>))
      else Inr s)"

definition YSendData :: zop where
  "YSendData s0 =
     bind_res (if chrCount s0 \<le> 0 then fread s0 else Inr s0) (\<lambda>s.
       if chrCount s \<le> 0 then zseq ZCloseFile (\<lambda>s1. ZXmitStr [EOT] (s1\<lparr>zstate := YTEOF\<rparr>)) s
       else bind_res (pad_buffer s) (\<lambda>s1.
            let s2 = s1\<lparr>ylen := (if 1024 \<le> chrCount s1 then 1024 else 128), packetCount := packetCount s1 + 1, zstate := YTData\<rparr>
            in bind_res (buffer_at (bufp s2) (ylen s2) s2) (\<lambda>b. YXmitData b s2)))"

definition YSendFin :: zop where
  "YSendFin s = YXmitData (replicate 128 0) (s\<lparr>zstate := YTFin, packetCount := 0\<rparr>)"

text \<open>In \<open>YTDataWait\<close> the loop for streaming runs while the state is \<open>YTData\<close>, that is, not at all.\<close>

definition YsendChar :: "u8 \<Rightarrow> zop" where
  "YsendChar c s =
     (let asks = (c = NAK \<or> c = 0x43 \<or> c = 0x47)
      in if 2 \<le> canCount s then Inr (ZmErrCancel, s)
         else case zstate s of
           YTStart \<Rightarrow> if asks then Inr (ZmDone, s\<lparr>PacketType := c\<rparr>) else Inr (0, s)
         | YTFile \<Rightarrow>
             if asks then YSendFilename (dataError s)
             else if c = ACK then Inr (0, s\<lparr>zstate := YTDataWait\<rparr>) else Inr (0, s)
         | YTDataWait \<Rightarrow>
             if asks then (if PacketType s = 0x47 then Inr (0, s\<lparr>chrCount := 0\<rparr>) else YSendData (s\<lparr>chrCount := 0\<rparr>))
             else Inr (0, s)
         | YTData \<Rightarrow>
             if (c = 0x43 \<or> c = 0x47) \<and> Protocol s = YMODEM
             then (case zfile s of
                     Ptr (path, _) \<Rightarrow> YSendFilename ((dataError s)\<lparr>zstate := YTFile, zfile := Ptr (path, 0)\<rparr>)
                   | _ \<Rightarrow> Inl UndefinedBehaviour)
             else if asks then bind_res (buffer_at (bufp s) (ylen s) s) (\<lambda>b. YXmitData b (dataError s))
             else if c = ACK
             then YSendData (s\<lparr>offset := offset s + word_of_int (ylen s), bufp := bufp s + ylen s, chrCount := chrCount s - ylen s\<rparr>)
             else Inr (0, s)
         | YTEOF \<Rightarrow>
             if c = NAK then ZXmitStr [EOT] s
             else if c = ACK then Inr (ZmDone, s\<lparr>zstate := (if Protocol s = YMODEM then YTStart else Done)\<rparr>)
             else Inr (0, s)
         | YTFin \<Rightarrow> if c = NAK then YSendFin s else if c = ACK then Inr (ZmDone, s) else Inr (0, s)
         | _ \<Rightarrow> Inr (0, s))"

section \<open>Announcing a file\<close>

text \<open>\<open>obuf\<close> of \<open>sendFilename\<close> has 2048 bytes.\<close>

definition file_info :: "string \<Rightarrow> ZModem \<Rightarrow> u8 list" where
  "file_info name s =
     map u8_of name @ [0] @ map u8_of (show_int (zlen s) @ '' '' @ show_oct (unat (zdate s)) @ '' ''
       @ show_oct (nat (zmode s mod 2 ^ 32)) @ '' 0 '' @ show_int (filesRem s) @ '' '' @ show_int (bytesRem s) @ '' 0'') @ [0]"

definition sendFilename :: zop where
  "sendFilename s =
     zthen (ZXmitHdr ZFILE ZBIN (fileFlags s))
       (\<lambda>s1. case rfilename s1 of
               None \<Rightarrow> Inl UndefinedBehaviour
             | Some name \<Rightarrow> if 2048 < length (file_info name s1) then Inl UndefinedBehaviour
                            else ZXmitData ZBIN ZCRCW (file_info name s1) s1)
       (s\<lparr>zstate := FileWait\<rparr>)"

definition ZmodemTFile :: "zenv \<Rightarrow> string \<Rightarrow> string \<Rightarrow> u8 \<Rightarrow> u8 \<Rightarrow> u8 \<Rightarrow> u8 \<Rightarrow> int \<Rightarrow> int \<Rightarrow> zop" where
  "ZmodemTFile env file_name remote_name flag0 flag1 flag2 flag3 files_rem bytes_rem s =
     (case zdisk s file_name of
        None \<Rightarrow> Inr (ZmErrCantOpen, s\<lparr>zfile := Null\<rparr>)
      | Some c \<Rightarrow>
          (let s1 = s\<lparr>zfile := Ptr (file_name, 0), fileEof := False, filename := Ptr file_name, rfilename := Some remote_name,
                      filesRem := files_rem, bytesRem := bytes_rem, fileFlags := [flag3, flag2, flag1, flag0], offset := 0, lastOffset := 0,
                      zlen := to_int (int (length c)), zdate := mtime env file_name, fileType := 0,
                      zmode := int (st_mode env file_name mod 512 + 32768)\<rparr>
           in case Protocol s of
                XMODEM \<Rightarrow> YSendData s1
              | YMODEM \<Rightarrow> YSendFilename s1
              | ZMODEM \<Rightarrow> sendFilename (s1\<lparr>zstate := FileWait\<rparr>)))"

definition ZmodemTFinish :: zop where
  "ZmodemTFinish s =
     (case Protocol s of
        XMODEM \<Rightarrow> Inr (ZmDone, s)
      | YMODEM \<Rightarrow> YSendFin s
      | ZMODEM \<Rightarrow> bind_res (free (filename s)) (\<lambda>_.
          ZXmitHdr ZFIN ZHEX zeros (s\<lparr>zstate := TFinish, filename := Null, rfilename := None, zbuffer := None\<rparr>)))"

definition SendZSInit :: zop where
  "SendZSInit s =
     (let at = (case attn s of None \<Rightarrow> [] | Some a \<Rightarrow> map u8_of a)
      in zthen (ZXmitHdr ZSINIT ZBIN [0, 0, 0, byte_of_int (zsinitflags s)]) (ZXmitData ZBIN ZCRCW (at @ [0]))
           (s\<lparr>zstate := TInit\<rparr>))"

text \<open>The second test of the code repeats the first, so \<open>SlidingWindow\<close> is never chosen.\<close>

definition GotRinit :: zop where
  "GotRinit s =
     (let h = (\<lambda>i. uint (hdrData s ! i)); flags = h 4 + h 3 * 256; size = h 1 + h 2 * 256
      in SendZSInit (s\<lparr>bufsize := size, zrinitflags := flags, use_crc32 := bit flags 5, escCtrl := bit flags 6,
           escHibit := bit flags 7,
           Streaming := (if flags mod 4 = 3 \<and> size = 0 then if windowsize s = 0 then Full else StrWindow else Segmented)\<rparr>))"

definition SendFileCrc :: zop where
  "SendFileCrc s = (case filename s of
     Ptr name \<Rightarrow> ZXmitHdrHex ZCRC (ZEnc4 (FileCrc name (zdisk s))) s
   | _ \<Rightarrow> Inl UndefinedBehaviour)"

section \<open>File data\<close>

definition must_escape_data :: "bool \<Rightarrow> u8 \<Rightarrow> bool" where
  "must_escape_data esc_ctrl c \<longleftrightarrow>
     (let c2 = c AND 0x7f
      in c = ZDLE \<or> c2 = 0x10 \<or> c2 = 0x11 \<or> c2 = 0x13 \<or> c2 = 0x7f \<or> c2 = 0x0d \<or> c2 = 0x0a \<or> c2 = 0x1b \<or> c2 = 0x1d
         \<or> (c2 < 0x20 \<and> esc_ctrl))"

text \<open>The loop over the characters of the file: the bytes for the packet, the characters taken, what is
  left of \<open>len\<close>, and whether the file ended.\<close>

fun read_chunk :: "bool \<Rightarrow> int \<Rightarrow> u8 list \<Rightarrow> u8 list \<times> u8 list \<times> int \<times> bool" where
  "read_chunk esc len [] = ([], [], len, 0 < len)"
| "read_chunk esc len (c # cs) =
     (if len \<le> 0 then ([], [], len, False)
      else let e = must_escape_data esc c;
               (b, d, l, eof) = read_chunk esc (if e then len - 2 else len - 1) cs
           in ((if e then escaped c else [c]) @ b, c # d, l, eof))"

text \<open>How much may be sent and whether the window or the buffer of the receiver is then full; \<open>long\<close> has
  64 bits, and \<open>len\<close> is an \<open>int\<close>.\<close>

definition packet_room :: "ZModem \<Rightarrow> int \<times> bool" where
  "packet_room s =
     (let pending = sint (offset s - lastOffset s);
          (len, qfull) = (if windowsize s \<noteq> 0 \<and> windowsize s - pending \<le> packetsize s
                          then (to_int (windowsize s - pending), True) else (packetsize s, False))
      in if bufsize s \<noteq> 0 \<and> bufsize s - pending \<le> len then (to_int (bufsize s - pending), True) else (len, qfull))"

definition packet_type :: "int \<Rightarrow> bool \<Rightarrow> ZModem \<Rightarrow> u8 \<times> ZModem" where
  "packet_type len qfull s =
     (if waitflag s then (ZCRCW, s\<lparr>waitflag := False\<rparr>)
      else if qfull then (ZCRCW, s)
      else case Streaming s of
             Full \<Rightarrow> (ZCRCG, s)
           | Segmented \<Rightarrow> (ZCRCG, s)
           | StrWindow \<Rightarrow>
               (if windowCount s + len < windowsize s div 4 then (ZCRCG, s\<lparr>windowCount := windowCount s + len\<rparr>)
                else (ZCRCQ, s\<lparr>windowCount := 0\<rparr>))
           | SlidingWindow \<Rightarrow> (ZCRCQ, s))"

definition data_trailer :: "u8 \<Rightarrow> u8 list \<Rightarrow> bool \<Rightarrow> u8 list" where
  "data_trailer end_type data wide =
     (if \<not> wide
      then let crc = updcrc 0 (updcrc 0 (updcrc end_type (fold updcrc data (0 :: 64 word))))
           in [ucast (drop_bit 8 crc AND 0xff), ucast (crc AND 0xff)]
      else crc32_bytes 4 (NOT (UPDC32 end_type (fold UPDC32 data (0xffffffff :: 64 word)))))"

definition SendMoreFileData :: zop where
  "SendMoreFileData s =
     (if interrupt s then Inr (0, s\<lparr>zstate := SendWait, timeout := 60\<rparr>)
      else let (len, qfull) = packet_room s
      in if len = 0 then Inr (0, s\<lparr>zstate := SendWait, timeout := 60\<rparr>)
      else case zfile s of
        Ptr (path, pos) \<Rightarrow>
          (let c = (case zdisk s path of None \<Rightarrow> [] | Some c \<Rightarrow> c);
               (type0, s1) = packet_type len qfull s;
               (b, d, left, eof) = read_chunk (escCtrl s) len (map u8_of (drop pos c));
               end_type = (if eof then if qfull \<or> (bufsize s \<noteq> 0 \<and> left < 24) then ZCRCW else ZCRCE else type0);
               (t, s2) = putZdles (data_trailer end_type d (use_crc32 s)) s1;
               packet = b @ [ZDLE, end_type] @ t;
               s3 = s2\<lparr>offset := offset s + word_of_nat (length d), zfile := Ptr (path, pos + length d), fileEof := eof\<rparr>
           in bind_res (fill_buffer packet s3) (zthen (ZXmitStr packet) (\<lambda>s4.
                if end_type = ZCRCE
                then ZXmitHdrHex ZEOF (ZEnc4 (offset s4)) (s4\<lparr>zstate := SendEof, timeout := 60\<rparr>)
                else if end_type = ZCRCW then Inr (0, s4\<lparr>zstate := (if eof then SendDone else SendWait), timeout := 60\<rparr>)
                else Inr (0, s4\<lparr>zstate := Sending, timeout := 0\<rparr>))))
      | _ \<Rightarrow> Inl UndefinedBehaviour)"

text \<open>\<open>fseek\<close> refuses an offset that is negative as a \<open>long\<close>.\<close>

definition seek_file :: "64 word \<Rightarrow> ZModem \<Rightarrow> cpp_error + ZModem" where
  "seek_file pos s =
     (case zfile s of
        Ptr (path, old) \<Rightarrow> Inr (s\<lparr>zfile := Ptr (path, if 0 \<le> sint pos then unat pos else old)\<rparr>)
      | _ \<Rightarrow> Inl UndefinedBehaviour)"

definition startFileData :: zop where
  "startFileData s =
     (let pos = header_offset s
      in bind_res (seek_file pos (s\<lparr>offset := pos, lastOffset := pos, zrposOffset := pos\<rparr>))
           (zthen (ZXmitHdr ZDATA ZBIN (take 4 (tl (hdrData s)))) SendMoreFileData))"

definition ZSendFileData :: zop where
  "ZSendFileData s = startFileData (s\<lparr>waitflag := False\<rparr>)"

definition note_ack :: "ZModem \<Rightarrow> ZModem" where
  "note_ack s = (if lastOffset s < header_offset s then s\<lparr>lastOffset := header_offset s\<rparr> else s)"

definition GotSendAck :: zop where
  "GotSendAck s = Inr (0, note_ack s)"

definition GotSendDoneAck :: zop where
  "GotSendDoneAck s =
     (let s1 = (note_ack s)\<lparr>zstate := SendEof, timeout := 60\<rparr> in ZXmitHdrHex ZEOF (ZEnc4 (offset s1)) s1)"

definition GotSendNak :: zop where
  "GotSendNak s = bind_res (seek_file (zrposOffset s) (s\<lparr>offset := zrposOffset s\<rparr>)) SendMoreFileData"

text \<open>The file is closed and the pointer left as it was.\<close>

definition SkipFile :: zop where
  "SkipFile = zseq ZCloseFile (zreturn ZmDone)"

definition GotSendPos :: zop where
  "GotSendPos s = startFileData ((dataError s)\<lparr>waitflag := True\<rparr>)"

definition GotSendWaitAck :: zop where
  "GotSendWaitAck s =
     (let s1 = note_ack s in zthen (ZXmitHdr ZDATA ZBIN (ZEnc4 (offset s1))) SendMoreFileData s1)"

definition ResendEof :: zop where
  "ResendEof s = ZXmitHdrHex ZEOF (ZEnc4 (offset s)) s"

definition OverAndOut :: zop where
  "OverAndOut = zseq (ZXmitStr (map u8_of ''OO'')) (zreturn ZmDone)"

end
