(* ===== verification/Zm_Parser.thy ===== *)
theory Zm_Parser
  imports Zm_Transmit
begin

text \<open>
  \<open>bbs/prot/zmodem.cpp\<close>: the parser of received characters and the state machine of the protocol.
  \<open>InputState\<close> says what the parser reads and \<open>ZMState\<close> where the protocol
  stands. A state has a table of headers, each with what to do and the next state; \<open>protocol_table\<close> is
  the array of these tables.
\<close>

section \<open>What a header does\<close>

definition Ignore :: zop where
  "Ignore = zreturn 0"

definition RetDone :: zop where
  "RetDone = zreturn ZmDone"

definition ZPF :: zop where
  "ZPF s = Inr (0, s\<lparr>waitflag := True\<rparr>)"

definition AnswerChallenge :: zop where
  "AnswerChallenge s = ZXmitHdrHex ZACK (take 4 (tl (hdrData s))) s"

definition GotAbort :: zop where
  "GotAbort = ZXmitHdrHex ZFIN zeros"

text \<open>\<open>EPERM\<close> is 1.\<close>

definition GotCommand :: zop where
  "GotCommand = ZXmitHdrHex ZCOMPL [1, 0, 0, 0]"

definition GotCommandData :: zop where
  "GotCommandData = zreturn 0"

definition GotStderr :: zop where
  "GotStderr s = Inr (0, s\<lparr>InputState := Indata, chrCount := 0\<rparr>)"

definition GotStderrData :: zop where
  "GotStderrData s = bind_res (store_char 0 s) (\<lambda>s1. Inr (0, s1\<lparr>chrCount := chrCount s\<rparr>))"

text \<open>A table is a list of headers with their entries and the entry for all others; an entry is the
  function, whether the input is flushed, and the new state. Flushing the output does nothing.\<close>

type_synonym table = "(u8 \<times> zop \<times> bool \<times> ZMState) list \<times> zop \<times> bool \<times> ZMState"

definition RStartOps :: table where
  "RStartOps =
     ([(ZSINIT, GotSinit, False, RSinitWait), (ZFILE, GotFile, False, RFileName), (ZRQINIT, SendRinit, False, RStart),
       (ZFIN, GotFin, True, RFinish), (ZNAK, SendRinit, True, RStart), (ZFREECNT, GotFreecnt, False, RStart),
       (ZCOMMAND, GotCommand, False, CommandData), (ZSTDERR, GotStderr, False, StderrData)], ZPF, False, RStart)"

definition RSinitWaitOps :: table where
  "RSinitWaitOps = ([], ZPF, False, RSinitWait)"

definition RFileNameOps :: table where
  "RFileNameOps = ([], ZPF, False, RFileName)"

definition RCrcOps :: "zenv \<Rightarrow> table" where
  "RCrcOps env =
     ([(ZCRC, GotFileCrc env, False, RFile), (ZNAK, ResendCrcReq, False, RCrc), (ZRQINIT, SendRinit, True, RStart),
       (ZFIN, GotFin, True, RFinish)], ZPF, False, RCrc)"

definition RFileOps :: table where
  "RFileOps =
     ([(ZDATA, GotData, False, RData), (ZNAK, ResendRpos, False, RFile), (ZEOF, GotEof, False, RStart),
       (ZRQINIT, SendRinit, True, RStart), (ZFILE, ResendRpos, False, RFile), (ZFIN, GotFin, True, RFinish)], ZPF, False, RFile)"

definition RDataOps :: table where
  "RDataOps =
     ([(ZRQINIT, SendRinit, True, RStart), (ZFILE, GotFile, False, RFileName), (ZNAK, ResendRpos, True, RFile),
       (ZFIN, GotFin, True, RFinish), (ZDATA, GotData, False, RData), (ZEOF, GotEof, True, RStart)], ZPF, False, RData)"

definition RFinishOps :: table where
  "RFinishOps =
     ([(ZRQINIT, SendRinit, True, RStart), (ZFILE, GotFile, True, RFileName), (ZNAK, GotFin, True, RFinish),
       (ZFIN, GotFin, True, RFinish)], ZPF, False, RFinish)"

definition TStartOps :: table where
  "TStartOps =
     ([(ZRINIT, GotRinit, True, TStart), (ZCHALLENGE, AnswerChallenge, True, TStart), (ZABORT, GotAbort, True, TFinish),
       (ZFERR, GotAbort, True, TFinish), (ZNAK, Ignore, False, TStart), (ZCOMMAND, GotCommand, False, CommandData),
       (ZSTDERR, GotStderr, False, StderrData)], ZPF, False, TStart)"

definition TInitOps :: table where
  "TInitOps =
     ([(ZACK, RetDone, True, TInit), (ZNAK, SendZSInit, True, TInit), (ZRINIT, GotRinit, True, TInit),
       (ZCHALLENGE, AnswerChallenge, True, TInit), (ZABORT, GotAbort, True, TFinish), (ZFERR, GotAbort, True, TFinish),
       (ZCOMMAND, GotCommand, False, CommandData), (ZSTDERR, GotStderr, False, StderrData)], ZPF, False, TInit)"

definition FileWaitOps :: table where
  "FileWaitOps =
     ([(ZRPOS, ZSendFileData, True, Sending), (ZSKIP, SkipFile, True, FileWait), (ZCRC, SendFileCrc, True, FileWait),
       (ZNAK, sendFilename, True, FileWait), (ZRINIT, sendFilename, True, FileWait), (ZABORT, GotAbort, True, TFinish),
       (ZFERR, GotAbort, True, TFinish), (ZCHALLENGE, AnswerChallenge, True, FileWait), (ZCOMMAND, GotCommand, False, CommandData),
       (ZSTDERR, GotStderr, False, StderrData)], ZPF, False, FileWait)"

definition CrcWaitOps :: table where
  "CrcWaitOps =
     ([(ZRPOS, ZSendFileData, True, Sending), (ZSKIP, SkipFile, True, FileWait), (ZNAK, SendFileCrc, True, CrcWait),
       (ZRINIT, sendFilename, True, FileWait), (ZABORT, GotAbort, True, TFinish), (ZFERR, GotAbort, True, TFinish),
       (ZCRC, SendFileCrc, False, CrcWait), (ZCHALLENGE, AnswerChallenge, False, CrcWait), (ZCOMMAND, GotCommand, False, CommandData),
       (ZSTDERR, GotStderr, False, StderrData)], ZPF, False, CrcWait)"

definition SendingOps :: table where
  "SendingOps =
     ([(ZACK, GotSendAck, False, Sending), (ZRPOS, GotSendPos, True, Sending), (ZSKIP, SkipFile, True, FileWait),
       (ZNAK, GotSendNak, True, Sending), (ZRINIT, sendFilename, True, FileWait), (ZABORT, GotAbort, True, TFinish),
       (ZFERR, GotAbort, True, TFinish)], ZPF, False, SendWait)"

definition SendDoneOps :: table where
  "SendDoneOps =
     ([(ZACK, GotSendDoneAck, False, SendWait), (ZRPOS, GotSendPos, True, Sending), (ZSKIP, SkipFile, True, FileWait),
       (ZNAK, GotSendNak, True, Sending), (ZRINIT, sendFilename, True, FileWait), (ZABORT, GotAbort, True, TFinish),
       (ZFERR, GotAbort, True, TFinish)], ZPF, False, SendWait)"

definition SendWaitOps :: table where
  "SendWaitOps =
     ([(ZACK, GotSendWaitAck, False, Sending), (ZRPOS, GotSendPos, False, SendWait), (ZSKIP, SkipFile, True, FileWait),
       (ZNAK, GotSendNak, False, Sending), (ZRINIT, sendFilename, True, FileWait), (ZABORT, GotAbort, True, TFinish),
       (ZFERR, GotAbort, True, TFinish)], ZPF, False, SendWait)"

definition SendEofOps :: table where
  "SendEofOps =
     ([(ZRINIT, SkipFile, True, TStart), (ZACK, Ignore, False, SendEof), (ZRPOS, GotSendPos, True, SendWait),
       (ZSKIP, SkipFile, True, TStart), (ZNAK, ResendEof, True, SendEof), (ZRINIT, sendFilename, True, FileWait),
       (ZABORT, GotAbort, True, TFinish), (ZFERR, GotAbort, True, TFinish)], ZPF, False, SendEof)"

definition TFinishOps :: table where
  "TFinishOps =
     ([(ZFIN, OverAndOut, True, Done), (ZNAK, ZmodemTFinish, True, TFinish), (ZRINIT, ZmodemTFinish, True, TFinish),
       (ZABORT, GotAbort, True, TFinish), (ZFERR, GotAbort, True, TFinish)], ZPF, False, TFinish)"

definition CommandDataOps :: table where
  "CommandDataOps = ([], ZPF, False, CommandData)"

definition CommandWaitOps :: table where
  "CommandWaitOps = ([], ZPF, False, CommandWait)"

definition StderrDataOps :: table where
  "StderrDataOps = ([], ZPF, False, StderrData)"

definition DoneOps :: table where
  "DoneOps = ([], ZPF, False, Done)"

text \<open>There is no table for the states of YMODEM.\<close>

definition protocol_table :: "zenv \<Rightarrow> ZMState \<Rightarrow> table option" where
  "protocol_table env st =
     (case st of
        RStart \<Rightarrow> Some RStartOps | RSinitWait \<Rightarrow> Some RSinitWaitOps | RFileName \<Rightarrow> Some RFileNameOps
      | RCrc \<Rightarrow> Some (RCrcOps env) | RFile \<Rightarrow> Some RFileOps | RData \<Rightarrow> Some RDataOps | RDataErr \<Rightarrow> Some RDataOps
      | RFinish \<Rightarrow> Some RFinishOps | TStart \<Rightarrow> Some TStartOps | TInit \<Rightarrow> Some TInitOps | FileWait \<Rightarrow> Some FileWaitOps
      | CrcWait \<Rightarrow> Some CrcWaitOps | Sending \<Rightarrow> Some SendingOps | SendWait \<Rightarrow> Some SendWaitOps | SendDone \<Rightarrow> Some SendDoneOps
      | SendEof \<Rightarrow> Some SendEofOps | TFinish \<Rightarrow> Some TFinishOps | CommandData \<Rightarrow> Some CommandDataOps
      | CommandWait \<Rightarrow> Some CommandWaitOps | StderrData \<Rightarrow> Some StderrDataOps | Done \<Rightarrow> Some DoneOps | _ \<Rightarrow> None)"

text \<open>Flushing the input drops the rest of the characters that were read with the header.\<close>

definition ZProtocol :: "zenv \<Rightarrow> zop" where
  "ZProtocol env s =
     (case protocol_table env (zstate s) of
        None \<Rightarrow> Inl UndefinedBehaviour
      | Some (entries, other) \<Rightarrow>
          (let (func, iflush, new_state) = (case map_of entries (hdrData s ! 0) of None \<Rightarrow> other | Some e \<Rightarrow> e);
               s1 = s\<lparr>timeoutCount := 0, noiseCount := 0, zstate := new_state\<rparr>
           in func (if iflush then s1\<lparr>rcvlen := 0\<rparr> else s1)))"

definition ZDataReceived :: "zenv \<Rightarrow> bool \<Rightarrow> zop" where
  "ZDataReceived env crcGood s =
     (case zstate s of
        RSinitWait \<Rightarrow> GotSinitData crcGood s
      | RFileName \<Rightarrow> GotFileName env crcGood s
      | RData \<Rightarrow> GotFileData env crcGood s
      | CommandData \<Rightarrow> GotCommandData s
      | StderrData \<Rightarrow> GotStderrData s
      | _ \<Rightarrow> ZPF s)"

section \<open>Characters\<close>

text \<open>While idling the parser waits for a pad and the escape that introduces a header.\<close>

definition IdleChar :: "u8 \<Rightarrow> zop" where
  "IdleChar c s =
     (if chrCount s = 0
      then if c = ZPAD then Inr (0, s\<lparr>chrCount := 1\<rparr>)
           else let s1 = (if zstate s = Sending then s\<lparr>noiseCount := noiseCount s + 1\<rparr> else s)
                in if zstate s = Sending \<and> 64 < noiseCount s1 then Inr (0, s1\<lparr>waitflag := True\<rparr>)
                   else if zstate s1 = TStart \<and> (c = 0x43 \<or> c = 0x47 \<or> c = NAK)
                   then YsendChar c (s1\<lparr>zstate := YTStart, InputState := Ysend, Protocol := YMODEM\<rparr>)
                   else Inr (0, s1)
      else if c = ZPAD then Inr (0, s\<lparr>chrCount := chrCount s + 1\<rparr>)
      else if c = ZDLE then Inr (0, s\<lparr>InputState := Inhdr, chrCount := 0\<rparr>)
      else Inr (0, s\<lparr>chrCount := 0\<rparr>))"

definition rcvHex :: "u8 \<Rightarrow> u8 \<Rightarrow> u8" where
  "rcvHex i c =
     push_bit 4 i + (if c \<le> 0x39 then c - 0x30 else if c \<le> 0x46 then c - (0x41 - 10) else c - (0x61 - 10))"

definition isxdigit :: "u8 \<Rightarrow> bool" where
  "isxdigit c \<longleftrightarrow> 0x30 \<le> c \<and> c \<le> 0x39 \<or> 0x41 \<le> c \<and> c \<le> 0x46 \<or> 0x61 \<le> c \<and> c \<le> 0x66"

definition unescape :: "u8 \<Rightarrow> u8" where
  "unescape c = (if c = ZRUB0 then 0x7f else if c = ZRUB1 then 0xff else c XOR 0x40)"

definition bad_header :: zop where
  "bad_header s = ZXmitHdrHex ZNAK zeros (s\<lparr>InputState := Idle, chrCount := 0\<rparr>)"

definition good_header :: "zenv \<Rightarrow> zop" where
  "good_header env s = ZProtocol env (s\<lparr>InputState := Idle, chrCount := 0\<rparr>)"

definition FormatChar :: "u8 \<Rightarrow> zop" where
  "FormatChar c s =
     (if c = ZHEX \<or> c = ZBIN \<or> c = ZBIN32
      then Inr (0, s\<lparr>DataType := c, chrCount := 1, zcrc := (if c \<noteq> ZBIN32 then 0 else 0xffffffff), hdrData := replicate 9 0\<rparr>)
      else bad_header s)"

text \<open>A character of a header once the escapes are off. The header with a 16-bit checksum is tested with
  the local \<open>crc\<close>, which is 0.\<close>

definition HdrByte :: "zenv \<Rightarrow> u8 \<Rightarrow> zop" where
  "HdrByte env c s =
     (let n = chrCount s; crc = 0 :: 32 word
      in if n = 0 then FormatChar c s
         else if DataType s = ZHEX
         then (if n \<le> 14 \<and> \<not> isxdigit c then bad_header s
               else let i = nat ((n - 1) div 2);
                        s1 = (if n \<le> 14 then s\<lparr>hdrData := (hdrData s)[i := rcvHex (hdrData s ! i) c]\<rparr> else s)
                    in if n = 16
                       then (if fold updcrc (take 7 (hdrData s1)) (0 :: 32 word) AND 0xffff \<noteq> 0 then bad_header s1
                             else good_header env s1)
                       else Inr (0, s1\<lparr>chrCount := n + 1\<rparr>))
         else if DataType s = ZBIN
         then (let s1 = s\<lparr>hdrData := (hdrData s)[nat (n - 1) := c], zcrc := updcrc c (zcrc s), chrCount := n + 1\<rparr>
               in if 7 < chrCount s1 then (if crc AND 0xffff \<noteq> 0 then bad_header s1 else good_header env s1)
                  else Inr (0, s1))
         else if DataType s = ZBIN32
         then (let s1 = s\<lparr>hdrData := (hdrData s)[nat (n - 1) := c], zcrc := UPDC32 c (zcrc s), chrCount := n + 1\<rparr>
               in if 9 < chrCount s1 then (if zcrc s1 \<noteq> 0xdebb20e3 then bad_header s1 else good_header env s1)
                  else Inr (0, s1))
         else Inr (0, s))"

definition HdrChar :: "zenv \<Rightarrow> u8 \<Rightarrow> zop" where
  "HdrChar env c s =
     (if c = ZDLE then Inr (0, s\<lparr>escape := True\<rparr>)
      else HdrByte env (if escape s then unescape c else c) (s\<lparr>escape := False\<rparr>))"

definition DataByte :: "zenv \<Rightarrow> u8 \<Rightarrow> bool \<Rightarrow> zop" where
  "DataByte env c good s =
     (if crcCount s = 0 then map_sum id (Pair 0) (store_char c s)
      else let s1 = s\<lparr>crcCount := crcCount s - 1\<rparr>
           in if crcCount s1 = 0 then ZDataReceived env good s1 else Inr (0, s1))"

definition DataChar :: "zenv \<Rightarrow> u8 \<Rightarrow> zop" where
  "DataChar env c0 s0 =
     (if c0 = ZDLE then Inr (0, s0\<lparr>escape := True\<rparr>)
      else if escape s0 \<and> (c0 = ZCRCE \<or> c0 = ZCRCG \<or> c0 = ZCRCQ \<or> c0 = ZCRCW)
      then Inr (0, s0\<lparr>escape := False, PacketType := c0, crcCount := (if DataType s0 = ZBIN32 then 4 else 2),
             zcrc := (if DataType s0 = ZBIN then updcrc c0 (zcrc s0) else UPDC32 c0 (zcrc s0))\<rparr>)
      else
        let c = (if escape s0 then unescape c0 else c0);
            s = s0\<lparr>escape := False\<rparr>
        in if DataType s = ZBIN
           then (let s1 = s\<lparr>zcrc := updcrc c (zcrc s)\<rparr> in DataByte env c (zcrc s1 AND 0xffff = 0) s1)
           else if DataType s = ZBIN32
           then (let s1 = s\<lparr>zcrc := UPDC32 c (zcrc s)\<rparr> in DataByte env c (zcrc s1 = 0xdebb20e3) s1)
           else Inr (0, s))"

definition FinishChar :: "u8 \<Rightarrow> zop" where
  "FinishChar c s =
     (if c = 0x4f
      then let s1 = s\<lparr>chrCount := chrCount s + 1\<rparr> in if 2 \<le> chrCount s1 then Inr (ZmDone, s1) else Inr (0, s1)
      else Inr (0, s\<lparr>chrCount := 0\<rparr>))"

definition rcv_char :: "zenv \<Rightarrow> u8 \<Rightarrow> zop" where
  "rcv_char env c s =
     (case InputState s of
        Ysend \<Rightarrow> YsendChar c s
      | Yrcv \<Rightarrow> YrcvChar env c s
      | st \<Rightarrow>
          if c = XON \<or> c = XOFF then Inr (0, s)
          else case st of
            Idle \<Rightarrow> IdleChar c s
          | Inhdr \<Rightarrow> HdrChar env c s
          | Indata \<Rightarrow> DataChar env c s
          | Finish \<Rightarrow> FinishChar c s
          | _ \<Rightarrow> Inr (0, s))"

text \<open>Five cancel characters in a row end the session; \<open>rcvlen\<close> counts the characters that are left.\<close>

fun rcv_loop :: "zenv \<Rightarrow> u8 list \<Rightarrow> zop" where
  "rcv_loop env [] s =
     (let s1 = s\<lparr>rcvlen := rcvlen s - 1\<rparr> in if 0 \<le> rcvlen s1 then Inl UndefinedBehaviour else Inr (0, s1))"
| "rcv_loop env (c # cs) s =
     (let s1 = s\<lparr>rcvlen := rcvlen s - 1\<rparr>
      in if rcvlen s1 < 0 then Inr (0, s1)
         else let s2 = s1\<lparr>canCount := (if c = CAN then canCount s1 + 1 else 0)\<rparr>
              in if 5 \<le> canCount s2 then Inr (ZmErrCancel, s2)
                 else zthen (rcv_char env c) (rcv_loop env cs) s2)"

declare rcv_loop.simps [simp del]

definition ZmodemRcv :: "zenv \<Rightarrow> u8 list \<Rightarrow> zop" where
  "ZmodemRcv env str s = rcv_loop env str (s\<lparr>rcvlen := int (length str)\<rparr>)"

section \<open>Time\<close>

text \<open>\<open>case RStart\<close> falls through to the next one.\<close>

definition TimeoutStart :: zop where
  "TimeoutStart s = (if 4 < timeoutCount s then Inr (ZmErrRcvTo, s) else SendRinit (s\<lparr>zstate := RStart\<rparr>))"

definition TimeoutFile :: zop where
  "TimeoutFile s =
     (if 2 < timeoutCount s then SendRinit (s\<lparr>timeoutCount := 0, zstate := RStart\<rparr>)
      else if zstate s = RCrc then ResendCrcReq s else ResendRpos s)"

definition ZmodemTimeout :: "zenv \<Rightarrow> zop" where
  "ZmodemTimeout env s0 =
     (let s = s0\<lparr>timeoutCount := timeoutCount s0 + 1\<rparr>
      in case zstate s of
           RStart \<Rightarrow> if 4 < timeoutCount s then YmodemRInit env s else TimeoutStart s
         | RSinitWait \<Rightarrow> TimeoutStart s | RFileName \<Rightarrow> TimeoutStart s
         | RCrc \<Rightarrow> TimeoutFile s | RFile \<Rightarrow> TimeoutFile s | RData \<Rightarrow> TimeoutFile s
         | RFinish \<Rightarrow> Inr (ZmDone, s)
         | YRStart \<Rightarrow> YrcvTimeout s | YRDataWait \<Rightarrow> YrcvTimeout s | YRData \<Rightarrow> YrcvTimeout s | YREOF \<Rightarrow> YrcvTimeout s
         | Sending \<Rightarrow> SendMoreFileData s
         | CommandData \<Rightarrow> Inr (ZmErrSndTo, s) | StderrData \<Rightarrow> Inr (ZmErrSndTo, s)
         | CommandWait \<Rightarrow> Inr (ZmErrCmdTo, s)
         | Done \<Rightarrow> Inr (ZmDone, s)
         | RDataErr \<Rightarrow> Inr (0, s) | SendDone \<Rightarrow> Inr (0, s)
         | _ \<Rightarrow> Inr (ZmErrRcvTo, s))"

definition ZmodemAttention :: zop where
  "ZmodemAttention s = (if zstate s = Sending then Inr (0, s\<lparr>interrupt := True\<rparr>) else Inr (0, s))"

end
