(* ===== verification/Zm_Codec.thy ===== *)
theory Zm_Codec
  imports Zm_Parser
begin

text \<open>
  What one side sends is what the other side reads: \<open>zcodes\<close> relates bytes to the ways they may stand
  on the line, all the encoders of the sending side keep to it, and the parser takes them off the
  line again. Then headers and data packets arrive as they were sent, with a good checksum.
\<close>

section \<open>Escapes\<close>

definition safe :: "u8 \<Rightarrow> bool" where
  "safe c \<longleftrightarrow> c \<noteq> ZDLE \<and> c \<noteq> XON \<and> c \<noteq> XOFF"

definition escapable :: "u8 \<Rightarrow> bool" where
  "escapable c \<longleftrightarrow> (let x = escaped c ! 1 in unescape x = c \<and> safe x \<and> x \<notin> {ZCRCE, ZCRCG, ZCRCQ, ZCRCW})"

lemma xor_eq_iff: "(c XOR k = v) \<longleftrightarrow> c = v XOR (k :: 'a::len word)"
  by (metis xor.assoc xor.right_neutral xor_self_eq)

lemma escapableI:
  assumes "c AND 0x7f < 0x20 \<or> c AND 0x7f = 0x7f"
  shows "escapable c"
proof (cases "c = 0x7f \<or> c = 0xff")
  case False
  have "c \<notin> {40, 41, 42, 43, 44, 45, 81, 83, 88}" using assms by auto
  then show ?thesis
    using False by (simp add: escapable_def escaped_def Let_def unescape_def safe_def xor_eq_iff)
qed (auto simp: escapable_def escaped_def unescape_def safe_def)

lemma must_escape_escapable: "must_escape a e c \<Longrightarrow> escapable c"
  by (rule escapableI) (auto simp: must_escape_def Let_def)

lemma must_escape_data_escapable: "must_escape_data e c \<Longrightarrow> escapable c"
  by (rule escapableI) (auto simp: must_escape_data_def Let_def)

lemma safeI: "\<not> must_escape a e c \<Longrightarrow> safe c"
  by (auto simp: must_escape_def Let_def safe_def)

lemma safe_dataI: "\<not> must_escape_data e c \<Longrightarrow> safe c"
  by (auto simp: must_escape_data_def Let_def safe_def)

definition code :: "u8 \<Rightarrow> u8 list \<Rightarrow> bool" where
  "code c e \<longleftrightarrow> safe c \<and> e = [c] \<or> escapable c \<and> e = escaped c"

inductive zcodes :: "u8 list \<Rightarrow> u8 list \<Rightarrow> bool" where
  Nil: "zcodes [] []"
| Cons: "code c e \<Longrightarrow> zcodes d b \<Longrightarrow> zcodes (c # d) (e @ b)"

lemma zcodes_plain: "safe c \<Longrightarrow> zcodes d b \<Longrightarrow> zcodes (c # d) (c # b)"
  using zcodes.Cons [of c "[c]"] by (simp add: code_def)

lemma zcodes_escape: "escapable c \<Longrightarrow> zcodes d b \<Longrightarrow> zcodes (c # d) (escaped c @ b)"
  using zcodes.Cons [of c "escaped c"] by (simp add: code_def)

lemmas zcodes_intros = zcodes.Nil zcodes_plain zcodes_escape

lemma zcodes_append: "zcodes d b \<Longrightarrow> zcodes d' b' \<Longrightarrow> zcodes (d @ d') (b @ b')"
  by (induction rule: zcodes.induct) (auto intro: zcodes.intros)

lemma putZdles_zcodes: "zcodes d (fst (putZdles d s))"
proof (induction d s rule: putZdles.induct)
  case (2 c cs s)
  then show ?case
    by (auto simp: putZdle_def case_prod_beta Let_def
        intro: zcodes_intros must_escape_escapable safeI)
qed (simp add: zcodes.intros)

lemma read_chunk_zcodes: "read_chunk e len cs = (b, d, l, eof) \<Longrightarrow> zcodes d b"
  by (induction e len cs arbitrary: b d l eof rule: read_chunk.induct)
    (auto simp: Let_def split: if_splits prod.splits
      intro: zcodes_intros must_escape_data_escapable safe_dataI)

section \<open>Bytes of a data packet\<close>

lemma update_ids:
  "escape s = v \<Longrightarrow> s\<lparr>escape := v\<rparr> = s" "canCount s = n \<Longrightarrow> s\<lparr>canCount := n\<rparr> = s"
  "zbuffer s = b \<Longrightarrow> s\<lparr>zbuffer := b\<rparr> = s" "chrCount s = n \<Longrightarrow> s\<lparr>chrCount := n\<rparr> = s"
  "rcvlen s = n \<Longrightarrow> s\<lparr>rcvlen := n\<rparr> = s" "zcrc s = c \<Longrightarrow> s\<lparr>zcrc := c\<rparr> = s"
  by auto

lemma rcv_loop_Cons:
  assumes "0 < rcvlen s" "canCount s < 4"
  shows "rcv_loop env (c # cs) s = zthen (rcv_char env c) (rcv_loop env cs)
    (s\<lparr>rcvlen := rcvlen s - 1, canCount := (if c = CAN then canCount s + 1 else 0)\<rparr>)"
  using assms by (simp add: rcv_loop.simps Let_def)

text \<open>What \<open>DataChar\<close> does with a byte once the escapes are off.\<close>

definition data_put :: "zenv \<Rightarrow> u8 \<Rightarrow> zop" where
  "data_put env c s =
     (if DataType s = ZBIN
      then DataByte env c (updcrc c (zcrc s) AND 0xffff = 0) (s\<lparr>zcrc := updcrc c (zcrc s)\<rparr>)
      else if DataType s = ZBIN32
      then DataByte env c (UPDC32 c (zcrc s) = 0xdebb20e3) (s\<lparr>zcrc := UPDC32 c (zcrc s)\<rparr>)
      else Inr (0, s))"

lemma DataChar_put:
  assumes "c \<noteq> ZDLE" "escape s \<Longrightarrow> c \<notin> {ZCRCE, ZCRCG, ZCRCQ, ZCRCW}"
  shows "DataChar env c s = data_put env (if escape s then unescape c else c) (s\<lparr>escape := False\<rparr>)"
  using assms by (auto simp: DataChar_def data_put_def Let_def)

lemma rcv_char_Indata: "InputState s = Indata \<Longrightarrow> c \<noteq> XON \<Longrightarrow> c \<noteq> XOFF \<Longrightarrow> rcv_char env c s = DataChar env c s"
  by (simp add: rcv_char_def)

lemma rcv_char_Inhdr: "InputState s = Inhdr \<Longrightarrow> c \<noteq> XON \<Longrightarrow> c \<noteq> XOFF \<Longrightarrow> rcv_char env c s = HdrChar env c s"
  by (simp add: rcv_char_def)

lemma zthen_cong: "a s = a' s' \<Longrightarrow> zthen a b s = zthen a' b s'"
  by (simp add: zthen_def)

text \<open>Headers and data are read by parsers that take the escapes off in the same way and hand on the
  byte: \<open>st\<close> is the state of the input and \<open>put\<close> what is done with the byte.\<close>

locale escaped_input =
  fixes st :: input_state and put :: "zenv \<Rightarrow> u8 \<Rightarrow> zop"
  assumes escape_char: "InputState s = st \<Longrightarrow> rcv_char env ZDLE s = Inr (0, s\<lparr>escape := True\<rparr>)"
    and other_char: "InputState s = st \<Longrightarrow> safe c \<Longrightarrow> (escape s \<Longrightarrow> c \<notin> {ZCRCE, ZCRCG, ZCRCQ, ZCRCW}) \<Longrightarrow>
      rcv_char env c s = put env (if escape s then unescape c else c) (s\<lparr>escape := False\<rparr>)"
begin

lemma rcv_plain:
  assumes "safe c" "InputState s = st" "canCount s = 0" "\<not> escape s" "0 < rcvlen s"
  shows "rcv_loop env (c # cs) s = zthen (put env c) (rcv_loop env cs) (s\<lparr>rcvlen := rcvlen s - 1\<rparr>)"
proof -
  let ?t = "s\<lparr>rcvlen := rcvlen s - 1\<rparr>"
  have ids: "?t\<lparr>canCount := 0\<rparr> = ?t" "?t\<lparr>escape := False\<rparr> = ?t" using assms(3,4) by (intro update_ids; simp)+
  have "rcv_char env c ?t = put env c (?t\<lparr>escape := False\<rparr>)"
    using assms(1,2,4) other_char [of ?t c env] by simp
  then have "rcv_char env c ?t = put env c ?t" unfolding ids(2) .
  then show ?thesis using assms by (simp add: rcv_loop_Cons safe_def zthen_def ids(1))
qed

lemma rcv_escaped:
  assumes "escapable c" "InputState s = st" "canCount s = 0" "\<not> escape s" "1 < rcvlen s"
  shows "rcv_loop env (escaped c @ cs) s = zthen (put env c) (rcv_loop env cs) (s\<lparr>rcvlen := rcvlen s - 2\<rparr>)"
proof -
  obtain x where x: "escaped c = [ZDLE, x]" "unescape x = c" "safe x" "x \<notin> {ZCRCE, ZCRCG, ZCRCQ, ZCRCW}"
    using assms(1) by (auto simp: escapable_def escaped_def Let_def)
  let ?t = "s\<lparr>rcvlen := rcvlen s - 2\<rparr>" and ?u = "s\<lparr>rcvlen := rcvlen s - 1, canCount := 1, escape := True\<rparr>"
  have "rcv_char env ZDLE (s\<lparr>rcvlen := rcvlen s - 1, canCount := 1\<rparr>) = Inr (0, ?u)"
    using assms(2) by (simp add: escape_char)
  then have first: "rcv_loop env (ZDLE # x # cs) s = rcv_loop env (x # cs) ?u"
    using assms by (simp add: rcv_loop_Cons zthen_def)
  have same: "s\<lparr>rcvlen := rcvlen s - 2, canCount := 0, escape := False\<rparr> = ?t"
    using assms(3,4) update_ids(1) [of ?t False] update_ids(2) [of ?t 0] by simp
  have "rcv_char env x (s\<lparr>escape := True, rcvlen := rcvlen s - 2, canCount := 0\<rparr>) = put env c ?t"
    using assms(2) x same other_char [of "s\<lparr>escape := True, rcvlen := rcvlen s - 2, canCount := 0\<rparr>" x env] by simp
  then have "rcv_loop env (x # cs) ?u = zthen (put env c) (rcv_loop env cs) ?t"
    using assms x(3) by (simp add: rcv_loop_Cons safe_def zthen_def)
  with first x(1) show ?thesis by simp
qed

lemma rcv_code:
  assumes "code c e" "InputState s = st" "canCount s = 0" "\<not> escape s" "int (length e) \<le> rcvlen s"
  shows "rcv_loop env (e @ cs) s = zthen (put env c) (rcv_loop env cs) (s\<lparr>rcvlen := rcvlen s - int (length e)\<rparr>)"
proof (cases "e = [c] \<and> safe c")
  case False
  then have "escapable c" "e = escaped c" "length e = 2" using assms(1) by (auto simp: code_def escaped_def)
  then show ?thesis using assms rcv_escaped [of c s env cs] by simp
qed (use assms in \<open>simp add: rcv_plain\<close>)

end

interpretation indata: escaped_input Indata data_put
  by unfold_locales (auto simp: rcv_char_Indata DataChar_put safe_def, simp add: rcv_char_Indata DataChar_def)

interpretation inhdr: escaped_input Inhdr HdrByte
  by unfold_locales (auto simp: rcv_char_Inhdr HdrChar_def safe_def)

text \<open>The checksum over the bytes of a packet, of either kind.\<close>

definition upd :: "u8 \<Rightarrow> u8 list \<Rightarrow> 64 word \<Rightarrow> 64 word" where
  "upd dt d c = (if dt = ZBIN then fold updcrc d c else fold UPDC32 d c)"

definition crc_good :: "u8 \<Rightarrow> 64 word \<Rightarrow> bool" where
  "crc_good dt c \<longleftrightarrow> (if dt = ZBIN then c AND 0xffff = 0 else c = 0xdebb20e3)"

definition write_at :: "nat \<Rightarrow> u8 list \<Rightarrow> u8 list \<Rightarrow> u8 list" where
  "write_at n d m = take n m @ d @ drop (n + length d) m"

lemma upd_Nil [simp]: "upd dt [] c = c"
  by (simp add: upd_def)

lemma upd_Cons: "upd dt (x # d) c = upd dt d (upd dt [x] c)"
  by (simp add: upd_def)

lemma upd_append: "upd dt (d @ e) c = upd dt e (upd dt d c)"
  by (simp add: upd_def)

lemma data_put_eq:
  "DataType s = ZBIN \<or> DataType s = ZBIN32 \<Longrightarrow>
    data_put env c s = DataByte env c (crc_good (DataType s) (upd (DataType s) [c] (zcrc s)))
      (s\<lparr>zcrc := upd (DataType s) [c] (zcrc s)\<rparr>)"
  by (auto simp: data_put_def upd_def crc_good_def)

text \<open>The state after the bytes \<open>d\<close> have been stored from place \<open>n\<close> of the buffer \<open>m\<close> on.\<close>

definition took :: "int \<Rightarrow> u8 list \<Rightarrow> nat \<Rightarrow> u8 list \<Rightarrow> ZModem \<Rightarrow> ZModem" where
  "took r d n m s = s\<lparr>rcvlen := r, zbuffer := Some (write_at n d m), chrCount := int (n + length d),
     zcrc := upd (DataType s) d (zcrc s)\<rparr>"

lemma took_simps [simp]:
  "InputState (took r d n m s) = InputState s" "canCount (took r d n m s) = canCount s" "escape (took r d n m s) = escape s"
  "DataType (took r d n m s) = DataType s" "crcCount (took r d n m s) = crcCount s" "rcvlen (took r d n m s) = r"
  "zbuffer (took r d n m s) = Some (write_at n d m)" "chrCount (took r d n m s) = int (n + length d)"
  "zcrc (took r d n m s) = upd (DataType s) d (zcrc s)"
  by (simp_all add: took_def)

lemma write_at_Cons: "n < length m \<Longrightarrow> write_at (Suc n) d (write_at n [c] m) = write_at n (c # d) m"
  by (simp add: write_at_def add.commute)

lemma length_write_at [simp]: "n + length d \<le> length m \<Longrightarrow> length (write_at n d m) = length m"
  by (simp add: write_at_def)

lemma took_Cons:
  assumes "n < length m"
  shows "took r' d (Suc n) (write_at n [c] m) (took r [c] n m s) = took r' (c # d) n m s"
  by (simp add: took_def write_at_Cons [OF assms] upd_Cons [of _ c d])

lemma took_Nil:
  assumes "zbuffer s = Some m" "chrCount s = int n" "rcvlen s = r"
  shows "took r [] n m s = s"
  using assms by (auto simp: took_def write_at_def)

lemma data_put_store:
  assumes "DataType s = ZBIN \<or> DataType s = ZBIN32" "crcCount s = 0" "zbuffer s = Some m" "chrCount s = int n" "n < length m"
  shows "data_put env c (s\<lparr>rcvlen := r\<rparr>) = Inr (0, took r [c] n m s)"
proof -
  have "m[n := c] = write_at n [c] m" using assms(5) by (simp add: write_at_def upd_conv_take_nth_drop)
  then show ?thesis
    using assms by (simp add: data_put_eq DataByte_def store_char_def with_buffer_def took_def)
qed

lemma rcv_data:
  assumes "zcodes d b" "InputState s = Indata" "canCount s = 0" "\<not> escape s" "DataType s = ZBIN \<or> DataType s = ZBIN32"
    "crcCount s = 0" "zbuffer s = Some m" "chrCount s = int n" "n + length d \<le> length m" "int (length b) \<le> rcvlen s"
  shows "rcv_loop env (b @ rest) s = rcv_loop env rest (took (rcvlen s - int (length b)) d n m s)"
  using assms
proof (induction d b arbitrary: s n m rule: zcodes.induct)
  case Nil
  then show ?case by (simp add: took_Nil)
next
  case (Cons c e d b)
  let ?s1 = "took (rcvlen s - int (length e)) [c] n m s"
  have "rcv_loop env ((e @ b) @ rest) s = rcv_loop env (b @ rest) ?s1"
    using Cons by (simp add: indata.rcv_code data_put_store zthen_def)
  also have "\<dots> = rcv_loop env rest (took (rcvlen ?s1 - int (length b)) d (Suc n) (write_at n [c] m) ?s1)"
    using Cons.prems by (intro Cons.IH) simp_all
  finally show ?case using Cons.prems by (simp add: took_Cons algebra_simps)
qed

section \<open>The end of a data packet\<close>

definition checked :: "int \<Rightarrow> int \<Rightarrow> u8 list \<Rightarrow> ZModem \<Rightarrow> ZModem" where
  "checked r k t s = s\<lparr>rcvlen := r, zcrc := upd (DataType s) t (zcrc s), crcCount := k\<rparr>"

lemma checked_simps [simp]:
  "InputState (checked r k t s) = InputState s" "canCount (checked r k t s) = canCount s" "escape (checked r k t s) = escape s"
  "DataType (checked r k t s) = DataType s" "crcCount (checked r k t s) = k" "rcvlen (checked r k t s) = r"
  "zcrc (checked r k t s) = upd (DataType s) t (zcrc s)"
  by (simp_all add: checked_def)

lemma checked_checked: "checked r' k' d (checked r k [c] s) = checked r' k' (c # d) s"
  by (simp add: checked_def upd_Cons [of _ c d])

lemma data_put_check:
  assumes "DataType s = ZBIN \<or> DataType s = ZBIN32" "0 < crcCount s"
  shows "data_put env c (s\<lparr>rcvlen := r\<rparr>) =
    (if crcCount s = 1 then ZDataReceived env (crc_good (DataType s) (upd (DataType s) [c] (zcrc s))) (checked r 0 [c] s)
     else Inr (0, checked r (crcCount s - 1) [c] s))"
  using assms by (auto simp: data_put_eq DataByte_def checked_def)

lemma rcv_crc:
  assumes "zcodes t b" "t \<noteq> []" "InputState s = Indata" "canCount s = 0" "\<not> escape s"
    "DataType s = ZBIN \<or> DataType s = ZBIN32" "crcCount s = int (length t)" "int (length b) \<le> rcvlen s"
  shows "rcv_loop env (b @ rest) s = zthen (ZDataReceived env (crc_good (DataType s) (upd (DataType s) t (zcrc s))))
    (rcv_loop env rest) (checked (rcvlen s - int (length b)) 0 t s)"
  using assms
proof (induction t b arbitrary: s rule: zcodes.induct)
  case (Cons c e d b)
  let ?s1 = "checked (rcvlen s - int (length e)) (int (length d)) [c] s"
  have step: "rcv_loop env ((e @ b) @ rest) s
      = zthen (data_put env c) (rcv_loop env (b @ rest)) (s\<lparr>rcvlen := rcvlen s - int (length e)\<rparr>)"
    using Cons by (simp add: indata.rcv_code)
  show ?case
  proof (cases "d = []")
    case True
    then have "b = []" using Cons.hyps(2) by (auto elim: zcodes.cases)
    then show ?thesis using True step Cons.prems by (simp add: data_put_check zthen_def)
  next
    case False
    have "rcv_loop env ((e @ b) @ rest) s = rcv_loop env (b @ rest) ?s1"
      using step Cons.prems False by (simp add: data_put_check zthen_def)
    then show ?thesis
      using Cons.IH [OF False, of ?s1] Cons.prems by (simp add: checked_checked upd_Cons [of _ c d] algebra_simps)
  qed
qed simp

definition ended :: "int \<Rightarrow> u8 \<Rightarrow> ZModem \<Rightarrow> ZModem" where
  "ended r end_type s = s\<lparr>rcvlen := r, PacketType := end_type, crcCount := (if DataType s = ZBIN32 then 4 else 2),
     zcrc := upd (DataType s) [end_type] (zcrc s)\<rparr>"

lemma rcv_end:
  assumes "end_type \<in> {ZCRCE, ZCRCG, ZCRCQ, ZCRCW}" "InputState s = Indata" "canCount s = 0" "\<not> escape s"
    "DataType s = ZBIN \<or> DataType s = ZBIN32" "2 \<le> rcvlen s"
  shows "rcv_loop env (ZDLE # end_type # rest) s = rcv_loop env rest (ended (rcvlen s - 2) end_type s)"
proof -
  let ?t = "s\<lparr>rcvlen := rcvlen s - 2\<rparr>" and ?u = "s\<lparr>rcvlen := rcvlen s - 1, canCount := 1, escape := True\<rparr>"
  have e: "end_type \<noteq> CAN" "end_type \<noteq> XON" "end_type \<noteq> XOFF" using assms(1) by auto
  have "rcv_char env ZDLE (s\<lparr>rcvlen := rcvlen s - 1, canCount := 1\<rparr>) = Inr (0, ?u)"
    using assms(2) by (simp add: rcv_char_Indata DataChar_def)
  then have first: "rcv_loop env (ZDLE # end_type # rest) s = rcv_loop env (end_type # rest) ?u"
    using assms by (simp add: rcv_loop_Cons zthen_def)
  have same: "s\<lparr>rcvlen := rcvlen s - 2, canCount := 0, escape := False\<rparr> = ?t"
    using assms(3,4) update_ids(1) [of ?t False] update_ids(2) [of ?t 0] by simp
  have "ended (rcvlen s - 2) end_type (s\<lparr>rcvlen := rcvlen s - 2, canCount := 0, escape := False\<rparr>) = ended (rcvlen s - 2) end_type s"
    unfolding same by (simp add: ended_def)
  moreover have "rcv_char env end_type (s\<lparr>escape := True, rcvlen := rcvlen s - 2, canCount := 0\<rparr>)
      = Inr (0, ended (rcvlen s - 2) end_type (s\<lparr>rcvlen := rcvlen s - 2, canCount := 0, escape := False\<rparr>))"
    using assms(1,2,5) e by (auto simp: rcv_char_Indata DataChar_def ended_def upd_def)
  ultimately show ?thesis unfolding first using assms e by (simp add: rcv_loop_Cons zthen_def)
qed

section \<open>Checksums\<close>

lemma mask16: "(0xffff :: 'a::len word) = mask 16"
  by (simp add: mask_eq_exp_minus_1)

lemma low16_zero:
  assumes "16 \<le> LENGTH('a)"
  shows "w AND 0xffff = 0 \<longleftrightarrow> (ucast (w :: 'a::len word) :: u16) = 0"
proof -
  have less: "n < LENGTH('a)" if "n < 16" for n :: nat using that assms by simp
  show ?thesis unfolding mask16 by (simp add: bit_eq_iff bit_simps) (use less in blast)
qed

lemma crc_bytes_trailer:
  assumes "16 \<le> LENGTH('a)"
  shows "[ucast (drop_bit 8 f AND 0xff), ucast (f AND 0xff)]
    = [ucast (drop_bit 8 (ucast (f :: 'a::len word) :: u16)), ucast (ucast f :: u16) :: u8]"
  using assms by (auto simp: mask8 intro!: bit_word_eqI simp: bit_simps)

lemma crc16_good:
  assumes "16 \<le> LENGTH('a)" "16 \<le> LENGTH('b)" "ucast (x :: 'a::len word) = (ucast (c :: 'b::len word) :: u16)"
  defines "f \<equiv> updcrc 0 (updcrc 0 x)"
  shows "fold updcrc [ucast (drop_bit 8 f AND 0xff), ucast (f AND 0xff)] c AND 0xffff = 0"
proof -
  have "ucast f = updcrc 0 (updcrc 0 (ucast c :: u16))"
    using assms by (simp add: updcrc_ucast)
  then have "[ucast (drop_bit 8 f AND 0xff), ucast (f AND 0xff)] = trailer16 (ucast c)"
    unfolding crc_bytes_trailer [OF assms(1)] by (simp add: trailer16_def Let_def)
  then have "ucast (fold updcrc [ucast (drop_bit 8 f AND 0xff), ucast (f AND 0xff)] c) = crc16 (trailer16 (ucast c)) (ucast c)"
    by (simp only: crc16_ucast [OF assms(2)])
  then show ?thesis by (simp only: low16_zero [OF assms(2)] crc16_residue)
qed

lemma crc32_bytes_eq: "crc32_bytes n (f :: 'a::len word) = map (\<lambda>i. ucast (drop_bit (8 * i) f AND 0xff)) [0..<n]"
proof (induction n arbitrary: f)
  case (Suc n)
  have upt: "[0..<Suc n] = 0 # map Suc [0..<n]"
    by (simp add: map_Suc_upt upt_conv_Cons del: upt_Suc)
  show ?case unfolding upt by (simp add: Suc add.commute)
qed simp

lemma crc32_bytes_trailer:
  assumes "32 \<le> LENGTH('a)"
  shows "crc32_bytes 4 (NOT (x :: 'a::len word)) = trailer32 (ucast x)"
  unfolding crc32_bytes_eq trailer32_def
proof (rule map_cong [OF refl])
  fix i assume "i \<in> set [0..<4]"
  then have "i \<le> 3" by simp
  then show "ucast (drop_bit (8 * i) (NOT x) AND 255) = (ucast (drop_bit (8 * i) (NOT (ucast x :: u32))) :: u8)"
    using assms by (intro bit_word_eqI) (auto simp: bit_simps mask8)
qed

lemma crc32_good:
  assumes "32 \<le> LENGTH('a)" "c = ucast (ucast (x :: 'a::len word) :: u32)"
  shows "upd ZBIN32 (crc32_bytes 4 (NOT x)) c = 0xdebb20e3"
  using assms by (simp add: crc32_bytes_trailer upd_def crc32_ucast crc32_residue)

lemma fold_UPDC32_32: "fold UPDC32 d (0xffffffff :: 64 word) = ucast (fold UPDC32 d (0xffffffff :: u32))"
  using crc32_ucast [of d "0xffffffff"] by (simp add: crc32_def)

text \<open>The two ways the sending side computes the end of a packet.\<close>

definition end_crc :: "u8 \<Rightarrow> u8 \<Rightarrow> u8 list \<Rightarrow> u8 list" where
  "end_crc dt end_type data =
     (if dt = ZBIN then crc_bytes (updcrc 0 (updcrc 0 (updcrc end_type (fold updcrc data 0))))
      else crc32_bytes 4 (NOT (UPDC32 end_type (fold UPDC32 data 0xffffffff)) :: u32))"

lemma data_trailer_end_crc: "data_trailer end_type data wide = end_crc (if wide then ZBIN32 else ZBIN) end_type data"
proof (cases wide)
  case True
  let ?x = "UPDC32 end_type (fold UPDC32 data (0xffffffff :: u32))"
  have "UPDC32 end_type (fold UPDC32 data (0xffffffff :: 64 word)) = ucast ?x"
    by (simp add: fold_UPDC32_32 UPDC32_ucast)
  moreover have "(ucast (ucast ?x :: 64 word) :: u32) = ?x" by (rule ucast_up_ucast_id) (simp add: is_up)
  ultimately show ?thesis
    using True crc32_bytes_trailer [of "ucast ?x :: 64 word"] crc32_bytes_trailer [of ?x]
    by (simp add: data_trailer_def end_crc_def)
next
  case False
  let ?f = "\<lambda>c. updcrc 0 (updcrc 0 (updcrc end_type (fold updcrc data c)))"
  have "ucast (?f (0 :: 64 word)) = (ucast (?f (0 :: 32 word)) :: u16)"
    by (simp add: updcrc_ucast crc16_ucast)
  then show ?thesis
    using False crc_bytes_trailer [of "?f (0 :: 64 word)"] crc_bytes_trailer [of "?f (0 :: 32 word)"]
    by (simp add: data_trailer_def end_crc_def crc_bytes_def Let_def)
qed

definition crc_start :: "u8 \<Rightarrow> 64 word" where
  "crc_start dt = (if dt \<noteq> ZBIN32 then 0 else 0xffffffff)"

lemma end_crc_good:
  assumes "dt = ZBIN \<or> dt = ZBIN32"
  shows "crc_good dt (upd dt (data @ [end_type] @ end_crc dt end_type data) (crc_start dt))"
    "length (end_crc dt end_type data) = (if dt = ZBIN32 then 4 else 2)"
proof -
  show "length (end_crc dt end_type data) = (if dt = ZBIN32 then 4 else 2)"
    using assms by (auto simp: end_crc_def crc_bytes_def crc32_bytes_eq)
  show "crc_good dt (upd dt (data @ [end_type] @ end_crc dt end_type data) (crc_start dt))"
  proof (cases "dt = ZBIN")
    case True
    let ?x = "updcrc end_type (fold updcrc data (0 :: 32 word))"
    have "ucast ?x = (ucast (updcrc end_type (fold updcrc data (0 :: 64 word))) :: u16)"
      by (simp add: updcrc_ucast crc16_ucast)
    from crc16_good [OF _ _ this] show ?thesis
      using True by (simp add: crc_good_def end_crc_def crc_bytes_def crc_start_def upd_def)
  next
    case False
    let ?x = "UPDC32 end_type (fold UPDC32 data (0xffffffff :: u32))"
    have "UPDC32 end_type (fold UPDC32 data (0xffffffff :: 64 word)) = ucast (ucast ?x :: u32)"
      by (simp add: fold_UPDC32_32 UPDC32_ucast)
    from crc32_good [OF _ this] show ?thesis
      using False assms by (simp add: crc_good_def end_crc_def crc_start_def upd_append)
        (simp add: upd_def)
  qed
qed

section \<open>Packets\<close>

text \<open>A packet on the line, and the state in which it is handed on.\<close>

definition line_packet :: "u8 \<Rightarrow> u8 \<Rightarrow> u8 list \<Rightarrow> u8 list \<Rightarrow> bool" where
  "line_packet dt end_type data p \<longleftrightarrow>
     (\<exists>b t. p = b @ [ZDLE, end_type] @ t \<and> zcodes data b \<and> zcodes (end_crc dt end_type data) t)"

lemma line_packetI:
  "zcodes data b \<Longrightarrow> zcodes (end_crc dt end_type data) t \<Longrightarrow> line_packet dt end_type data (b @ [ZDLE, end_type] @ t)"
  unfolding line_packet_def by blast

text \<open>A packet may arrive with another checksum than it was sent with.\<close>

definition packet_got :: "int \<Rightarrow> u8 \<Rightarrow> u8 list \<Rightarrow> u8 list \<Rightarrow> u8 list \<Rightarrow> ZModem \<Rightarrow> ZModem" where
  "packet_got k end_type data ck m s = s\<lparr>rcvlen := k, zbuffer := Some (data @ drop (length data) m), chrCount := int (length data),
     PacketType := end_type, zcrc := upd (DataType s) (data @ [end_type] @ ck) (zcrc s), crcCount := 0\<rparr>"

definition packet_in :: "int \<Rightarrow> u8 \<Rightarrow> u8 list \<Rightarrow> u8 list \<Rightarrow> ZModem \<Rightarrow> ZModem" where
  "packet_in k end_type data m s = s\<lparr>rcvlen := k, zbuffer := Some (data @ drop (length data) m), chrCount := int (length data),
     PacketType := end_type, zcrc := upd (DataType s) (data @ [end_type] @ end_crc (DataType s) end_type data) (zcrc s),
     crcCount := 0\<rparr>"

definition awaiting_data :: "u8 list \<Rightarrow> ZModem \<Rightarrow> bool" where
  "awaiting_data m s \<longleftrightarrow> InputState s = Indata \<and> canCount s = 0 \<and> \<not> escape s \<and> (DataType s = ZBIN \<or> DataType s = ZBIN32)
     \<and> crcCount s = 0 \<and> chrCount s = 0 \<and> zcrc s = crc_start (DataType s) \<and> zbuffer s = Some m"

lemma rcv_framed:
  assumes b: "zcodes data b" and t: "zcodes ck t" "length ck = (if DataType s = ZBIN32 then 4 else 2)"
    and s: "awaiting_data m s" and len: "length data \<le> length m"
    and e: "end_type \<in> {ZCRCE, ZCRCG, ZCRCQ, ZCRCW}" and r: "rcvlen s = int (length ((b @ [ZDLE, end_type] @ t) @ rest))"
  shows "rcv_loop env ((b @ [ZDLE, end_type] @ t) @ rest) s
    = zthen (ZDataReceived env (crc_good (DataType s) (upd (DataType s) (data @ [end_type] @ ck) (crc_start (DataType s)))))
        (rcv_loop env rest) (packet_got (int (length rest)) end_type data ck m s)"
proof -
  have dt: "DataType s = ZBIN \<or> DataType s = ZBIN32" using s by (simp add: awaiting_data_def)
  let ?s1 = "took (int (length (ZDLE # end_type # t @ rest))) data 0 m s"
  let ?s2 = "ended (int (length (t @ rest))) end_type ?s1"
  have "rcv_loop env ((b @ [ZDLE, end_type] @ t) @ rest) s = rcv_loop env (ZDLE # end_type # t @ rest) ?s1"
    using rcv_data [OF b, of s m 0 env "ZDLE # end_type # t @ rest"] s len r by (simp add: awaiting_data_def)
  also have "\<dots> = rcv_loop env (t @ rest) ?s2"
    using s e rcv_end [of end_type ?s1 env "t @ rest"] by (simp add: awaiting_data_def)
  also have "\<dots> = zthen (ZDataReceived env (crc_good (DataType ?s2) (upd (DataType ?s2) ck (zcrc ?s2))))
      (rcv_loop env rest) (checked (rcvlen ?s2 - int (length t)) 0 ck ?s2)"
    using s t(2) dt by (intro rcv_crc [OF t(1)]) (auto simp: awaiting_data_def ended_def)
  also have "upd (DataType ?s2) ck (zcrc ?s2) = upd (DataType s) (data @ [end_type] @ ck) (crc_start (DataType s))"
    using s by (simp add: ended_def upd_append awaiting_data_def del: append.simps)
  also have "checked (rcvlen ?s2 - int (length t)) 0 ck ?s2 = packet_got (int (length rest)) end_type data ck m s"
    by (simp add: checked_def ended_def took_def packet_got_def write_at_def upd_append del: append.simps)
  finally show ?thesis by (simp add: ended_def)
qed

lemma rcv_packet:
  assumes p: "line_packet (DataType s) end_type data p" and s: "awaiting_data m s" and len: "length data \<le> length m"
    and e: "end_type \<in> {ZCRCE, ZCRCG, ZCRCQ, ZCRCW}" and r: "rcvlen s = int (length (p @ rest))"
  shows "rcv_loop env (p @ rest) s
    = zthen (ZDataReceived env True) (rcv_loop env rest) (packet_in (int (length rest)) end_type data m s)"
proof -
  obtain b t where p: "p = b @ [ZDLE, end_type] @ t" "zcodes data b" "zcodes (end_crc (DataType s) end_type data) t"
    using p by (auto simp: line_packet_def)
  have dt: "DataType s = ZBIN \<or> DataType s = ZBIN32" using s by (simp add: awaiting_data_def)
  note good = end_crc_good [OF dt, where data = data and end_type = end_type]
  show ?thesis
    using rcv_framed [OF p(2,3) good(2) s len e, of rest env] r p(1) good(1) by (simp add: packet_got_def packet_in_def)
qed

text \<open>Both ways of sending data produce such packets.\<close>

lemma fill_buffer_ok:
  "zbuffer s = Some m \<Longrightarrow> length b \<le> length m \<Longrightarrow> fill_buffer b s = Inr (s\<lparr>zbuffer := Some (b @ drop (length b) m)\<rparr>)"
  by (simp add: fill_buffer_def)

lemma length_zcodes: "zcodes d b \<Longrightarrow> length b \<le> 2 * length d"
  by (induction rule: zcodes.induct) (auto simp: code_def escaped_def)

lemma putZdles_state: "\<exists>a. snd (putZdles d s) = s\<lparr>atSign := a\<rparr>"
proof (induction d s rule: putZdles.induct)
  case (1 s)
  have "s = s\<lparr>atSign := atSign s\<rparr>" by simp
  then show ?case by (simp only: putZdles.simps snd_conv) blast
next
  case (2 c cs s)
  obtain b s1 where s1: "putZdle c s = (b, s1)" by (cases "putZdle c s")
  then obtain a where a: "s1 = s\<lparr>atSign := a\<rparr>" by (auto simp: putZdle_def)
  obtain bs s2 where s2: "putZdles cs s1 = (bs, s2)" by (cases "putZdles cs s1")
  then obtain a2 where "s2 = s1\<lparr>atSign := a2\<rparr>" using 2 [OF s1 [symmetric] refl] by auto
  then have "s2 = s\<lparr>atSign := a2\<rparr>" by (simp add: a)
  then show ?case using s1 s2 by auto
qed

text \<open>Bytes put on the line one after the other.\<close>

lemma putZdles_sends:
  obtains b a where "putZdles d s = (b, s\<lparr>atSign := a\<rparr>)" "zcodes d b" "length b \<le> 2 * length d"
proof -
  obtain a where "snd (putZdles d s) = s\<lparr>atSign := a\<rparr>" using putZdles_state by blast
  then have "putZdles d s = (fst (putZdles d s), s\<lparr>atSign := a\<rparr>)" by (metis prod.collapse)
  then show ?thesis using that putZdles_zcodes length_zcodes by blast
qed

lemma length_end_crc: "length (end_crc dt et data) \<le> 4"
  by (auto simp: end_crc_def crc_bytes_def crc32_bytes_eq)

lemma ZXmitData_sends:
  assumes "zbuffer s = Some m" "2 * length data + 10 \<le> length m"
  obtains p a m1 where "ZXmitData ZBIN end_type data s = Inr (0, s\<lparr>atSign := a, zbuffer := Some m1, zout := zout s @ p\<rparr>)"
    "line_packet (if use_crc32 s then ZBIN32 else ZBIN) end_type data p" "length m1 = length m"
proof -
  let ?dt = "if use_crc32 s then ZBIN32 else ZBIN"
  obtain b a where b: "putZdles data s = (b, s\<lparr>atSign := a\<rparr>)" "zcodes data b" "length b \<le> 2 * length data"
    by (rule putZdles_sends)
  obtain t a2 where t: "putZdles (end_crc ?dt end_type data) (s\<lparr>atSign := a\<rparr>) = (t, s\<lparr>atSign := a\<rparr>\<lparr>atSign := a2\<rparr>)"
    "zcodes (end_crc ?dt end_type data) t" "length t \<le> 2 * length (end_crc ?dt end_type data)" by (rule putZdles_sends)
  let ?p = "b @ [ZDLE, end_type] @ t"
  have len: "length ?p \<le> length m" using b(3) t(3) length_end_crc [of ?dt end_type data] assms(2) by simp
  have sent: "ZXmitData ZBIN end_type data s = Inr (0, s\<lparr>atSign := a2, zbuffer := Some (?p @ drop (length ?p) m), zout := zout s @ ?p\<rparr>)"
    using b(1) t(1) fill_buffer_ok [of "s\<lparr>atSign := a2\<rparr>" m ?p] assms(1) len
    by (simp add: ZXmitData_def ZXmitStr_def end_crc_def Let_def split: if_splits)
  have packet: "line_packet ?dt end_type data ?p" by (rule line_packetI [OF b(2) t(2)])
  have "length (?p @ drop (length ?p) m) = length m" using len by simp
  from that [OF sent packet this] show ?thesis .
qed

end
