(* ===== verification/Zm_Headers.thy ===== *)
theory Zm_Headers
  imports Zm_Codec
begin

text \<open>
  Headers. Whatever of its three forms a header is sent in, an idle parser that reads it hands it to
  \<open>ZProtocol\<close> with the same type and data.
\<close>

section \<open>The beginning\<close>

definition idle :: "ZModem \<Rightarrow> bool" where
  "idle s \<longleftrightarrow> InputState s = Idle \<and> chrCount s = 0 \<and> canCount s = 0 \<and> \<not> escape s"

text \<open>The state in a header of kind \<open>dt\<close> of which \<open>n - 1\<close> characters have been read, and the state when it is
  complete.\<close>

definition reading :: "int \<Rightarrow> u8 \<Rightarrow> int \<Rightarrow> u8 list \<Rightarrow> 64 word \<Rightarrow> ZModem \<Rightarrow> ZModem" where
  "reading r dt n h c s =
     s\<lparr>DataType := dt, rcvlen := r, chrCount := n, InputState := Inhdr, hdrData := h, zcrc := c\<rparr>"

definition header_in :: "int \<Rightarrow> u8 \<Rightarrow> u8 list \<Rightarrow> 64 word \<Rightarrow> ZModem \<Rightarrow> ZModem" where
  "header_in r dt h c s = s\<lparr>DataType := dt, rcvlen := r, hdrData := h, zcrc := c\<rparr>"

lemma reading_simps [simp]:
  "InputState (reading r dt n h c s) = Inhdr" "canCount (reading r dt n h c s) = canCount s"
  "escape (reading r dt n h c s) = escape s" "DataType (reading r dt n h c s) = dt" "rcvlen (reading r dt n h c s) = r"
  "chrCount (reading r dt n h c s) = n" "hdrData (reading r dt n h c s) = h" "zcrc (reading r dt n h c s) = c"
  "(reading r dt n h c s)\<lparr>rcvlen := r'\<rparr> = reading r' dt n h c s"
  "(reading r dt n h c s)\<lparr>chrCount := n'\<rparr> = reading r dt n' h c s"
  "(reading r dt n h c s)\<lparr>hdrData := h'\<rparr> = reading r dt n h' c s"
  "(reading r dt n h c s)\<lparr>hdrData := h', chrCount := n'\<rparr> = reading r dt n' h' c s"
  "(reading r dt n h c s)\<lparr>zcrc := c'\<rparr> = reading r dt n h c' s"
  "(reading r dt n h c s)\<lparr>zcrc := c', chrCount := n'\<rparr> = reading r dt n' h c' s"
  "(reading r dt n h c s)\<lparr>hdrData := h', zcrc := c', chrCount := n'\<rparr> = reading r dt n' h' c' s"
  by (simp_all add: reading_def)

lemma reading_done: "idle s \<Longrightarrow> (reading r dt n h c s)\<lparr>InputState := Idle, chrCount := 0\<rparr> = header_in r dt h c s"
  by (rule ZModem.equality) (simp_all add: reading_def header_in_def idle_def)

lemma rcv_char_Idle: "InputState s = Idle \<Longrightarrow> c \<noteq> XON \<Longrightarrow> c \<noteq> XOFF \<Longrightarrow> rcv_char env c s = IdleChar c s"
  by (simp add: rcv_char_def)

definition start_crc :: "u8 \<Rightarrow> 64 word" where
  "start_crc dt = (if dt \<noteq> ZBIN32 then 0 else 0xffffffff)"

lemma rcv_start:
  assumes s: "InputState s = Idle" "0 < chrCount s" "canCount s = 0" "\<not> escape s"
    and dt: "dt \<in> {ZHEX, ZBIN, ZBIN32}" and r: "2 \<le> rcvlen s"
  shows "rcv_loop env (ZDLE # dt # rest) s = rcv_loop env rest (reading (rcvlen s - 2) dt 1 (replicate 9 0) (start_crc dt) s)"
proof -
  let ?t = "s\<lparr>rcvlen := rcvlen s - 1, canCount := 1, InputState := Inhdr, chrCount := 0\<rparr>"
  have "rcv_loop env (ZDLE # dt # rest) s = rcv_loop env (dt # rest) ?t"
    using s r by (simp add: rcv_loop_Cons rcv_char_Idle IdleChar_def zthen_def)
  also have "\<dots> = zthen (rcv_char env dt) (rcv_loop env rest) (?t\<lparr>rcvlen := rcvlen s - 2, canCount := 0\<rparr>)"
    using r dt rcv_loop_Cons [of ?t env dt rest] by auto
  also have "rcv_char env dt (?t\<lparr>rcvlen := rcvlen s - 2, canCount := 0\<rparr>)
      = Inr (0, ?t\<lparr>rcvlen := rcvlen s - 2, canCount := 0, escape := False, DataType := dt, chrCount := 1, zcrc := start_crc dt,
          hdrData := replicate 9 0\<rparr>)"
    using s dt by (auto simp: rcv_char_Inhdr HdrChar_def HdrByte_def FormatChar_def start_crc_def)
  then have "zthen (rcv_char env dt) (rcv_loop env rest) (?t\<lparr>rcvlen := rcvlen s - 2, canCount := 0\<rparr>)
      = rcv_loop env rest (?t\<lparr>rcvlen := rcvlen s - 2, canCount := 0, escape := False, DataType := dt, chrCount := 1, zcrc := start_crc dt,
          hdrData := replicate 9 0\<rparr>)" by (simp add: zthen_def)
  also have "?t\<lparr>rcvlen := rcvlen s - 2, canCount := 0, escape := False, DataType := dt, chrCount := 1, zcrc := start_crc dt,
      hdrData := replicate 9 0\<rparr> = reading (rcvlen s - 2) dt 1 (replicate 9 0) (start_crc dt) s"
    using s by (intro ZModem.equality) (simp_all add: reading_def)
  finally show ?thesis .
qed

lemma rcv_pad:
  assumes "InputState s = Idle" "0 \<le> chrCount s" "canCount s = 0" "0 < rcvlen s"
  shows "rcv_loop env (ZPAD # rest) s = rcv_loop env rest (s\<lparr>rcvlen := rcvlen s - 1, chrCount := chrCount s + 1\<rparr>)"
proof -
  have same: "s\<lparr>rcvlen := r, canCount := 0, chrCount := n\<rparr> = s\<lparr>rcvlen := r, chrCount := n\<rparr>" for r n
    using assms(3) by (intro ZModem.equality) simp_all
  show ?thesis using assms by (simp add: rcv_loop_Cons rcv_char_Idle IdleChar_def zthen_def same)
qed

lemma rcv_header_start:
  assumes "idle s" "dt \<in> {ZHEX, ZBIN, ZBIN32}" "int (length pads) + 2 \<le> rcvlen s" "pads = [ZPAD] \<or> pads = [ZPAD, ZPAD]"
  shows "rcv_loop env (pads @ ZDLE # dt # rest) s
    = rcv_loop env rest (reading (rcvlen s - int (length pads) - 2) dt 1 (replicate 9 0) (start_crc dt) s)"
proof -
  have re: "reading r dt n h c (s\<lparr>rcvlen := r', chrCount := n'\<rparr>) = reading r dt n h c s" for r dt n h c r' n'
    by (simp add: reading_def)
  show ?thesis using assms by (auto simp: idle_def rcv_pad rcv_start re)
qed

section \<open>Hexadecimal headers\<close>

lemma hex_digit:
  assumes "n < 16"
  shows "safe (hexChars ! n) \<and> isxdigit (hexChars ! n) \<and> rcvHex i (hexChars ! n) = push_bit 4 i + word_of_nat n"
proof -
  have "n \<in> {0, 1, 2, 3, 4, 5, 6, 7, 8, 9, 10, 11, 12, 13, 14, 15}" using assms by (simp only: insert_iff empty_iff) presburger
  then show ?thesis by (elim insertE emptyE; simp add: hexChars_def safe_def isxdigit_def rcvHex_def)
qed

lemma nibble_less: "unat (drop_bit 4 c AND 0xf :: u8) < 16" "unat (c AND 0xf :: u8) < 16"
proof -
  have "unat (w AND 0xf :: u8) < 16" for w
    using word_and_le1 [of w "0xf"] by (simp add: word_le_nat_alt)
  then show "unat (drop_bit 4 c AND 0xf :: u8) < 16" "unat (c AND 0xf :: u8) < 16" by blast+
qed

lemma nibbles: "push_bit 4 (drop_bit 4 c AND 0xf) + (c AND 0xf) = (c :: u8)"
proof -
  have m: "(0xf :: u8) = mask 4" by (simp add: mask_eq_exp_minus_1)
  have "push_bit 4 (drop_bit 4 c AND 0xf) + (c AND 0xf) = push_bit 4 (drop_bit 4 c AND 0xf) OR (c AND 0xf)"
    unfolding m by (rule disjunctive_add_eq_or) (intro bit_word_eqI, auto simp: bit_simps)
  also have "\<dots> = c" unfolding m by (intro bit_word_eqI) (auto simp: bit_simps)
  finally show ?thesis .
qed

lemma rcv_hdr_char:
  assumes "idle s" "safe c" "0 < r"
  shows "rcv_loop env (c # rest) (reading r dt n h x s) = zthen (HdrByte env c) (rcv_loop env rest) (reading (r - 1) dt n h x s)"
  using assms by (subst inhdr.rcv_plain) (auto simp: idle_def)

lemma HdrByte_hex:
  assumes "isxdigit c" "0 < n" "n \<le> 14"
  shows "HdrByte env c (reading r ZHEX n h x s)
    = Inr (0, reading r ZHEX (n + 1) (h[nat ((n - 1) div 2) := rcvHex (h ! nat ((n - 1) div 2)) c]) x s)"
  using assms by (simp add: HdrByte_def Let_def)

lemma rcv_hex_byte:
  assumes "idle s" "i < 7" "i < length h" "h ! i = 0" "2 \<le> r"
  shows "rcv_loop env (putHex c @ rest) (reading r ZHEX (int (2 * i + 1)) h x s)
    = rcv_loop env rest (reading (r - 2) ZHEX (int (2 * i + 3)) (h[i := c]) x s)"
proof -
  note d = hex_digit [OF nibble_less(1), of c] hex_digit [OF nibble_less(2), of c]
  have i: "(int (2 * i + 1) - 1) div 2 = int i" "(int (2 * i + 2) - 1) div 2 = int i" by linarith+
  have "rcvHex (rcvHex 0 (hexChars ! unat (drop_bit 4 c AND 0xf))) (hexChars ! unat (c AND 0xf)) = c"
    using d nibbles [of c] by simp
  then show ?thesis
    using assms d i by (simp add: putHex_def rcv_hdr_char HdrByte_hex zthen_def add.commute [of 3])
qed

lemma rcv_hex_bytes:
  assumes "idle s" "i + length bs \<le> 7" "length pre = i" "2 * int (length bs) \<le> r"
  shows "rcv_loop env (concat (map putHex bs) @ rest) (reading r ZHEX (int (2 * i + 1)) (pre @ replicate (9 - i) 0) x s)
    = rcv_loop env rest (reading (r - 2 * int (length bs)) ZHEX (int (2 * (i + length bs) + 1))
        (pre @ bs @ replicate (9 - i - length bs) 0) x s)"
  using assms
proof (induction bs arbitrary: i pre r)
  case (Cons b bs)
  let ?h = "pre @ replicate (9 - i) 0 :: u8 list"
  have rep: "replicate (9 - i) (0 :: u8) = 0 # replicate (9 - Suc i) 0"
    using Cons.prems(2) by (cases "9 - i") (auto simp: Suc_diff_Suc)
  have h: "?h[i := b] = (pre @ [b]) @ replicate (9 - Suc i) 0" "?h ! i = 0"
    using Cons.prems(3) by (simp_all add: rep nth_append list_update_append)
  have n: "int (2 * i + 3) = int (2 * Suc i + 1)" by simp
  have "rcv_loop env (concat (map putHex (b # bs)) @ rest) (reading r ZHEX (int (2 * i + 1)) ?h x s)
      = rcv_loop env (concat (map putHex bs) @ rest) (reading (r - 2) ZHEX (int (2 * Suc i + 1)) ((pre @ [b]) @ replicate (9 - Suc i) 0) x s)"
    using Cons.prems h rcv_hex_byte [of s i ?h r env b "concat (map putHex bs) @ rest" x] n by (simp add: ac_simps)
  also have "\<dots> = rcv_loop env rest (reading (r - 2 - 2 * int (length bs)) ZHEX (int (2 * (Suc i + length bs) + 1))
        ((pre @ [b]) @ bs @ replicate (9 - Suc i - length bs) 0) x s)"
    using Cons.prems by (intro Cons.IH) simp_all
  finally show ?case by (simp add: algebra_simps)
qed simp

definition header_crc :: "u8 \<Rightarrow> u8 list \<Rightarrow> u8 list" where
  "header_crc type data = crc_bytes (updcrc 0 (updcrc 0 (fold updcrc data (updcrc type 0))))"

lemma length_header_crc [simp]: "length (header_crc type data) = 2"
  by (simp add: header_crc_def crc_bytes_def)

lemma header_crc_good:
  "16 \<le> LENGTH('b) \<Longrightarrow> fold updcrc (type # data @ header_crc type data) (0 :: 'b::len word) AND 0xffff = 0"
  using crc16_good [where x = "fold updcrc data (updcrc type (0 :: 32 word))" and c = "fold updcrc data (updcrc type (0 :: 'b word))"]
  by (simp add: header_crc_def crc_bytes_def crc16_ucast updcrc_ucast)

definition xon :: "u8 \<Rightarrow> u8 list" where
  "xon type = (if type \<noteq> ZACK \<and> type \<noteq> ZFIN then [XON] else [])"

lemma hex_header_eq:
  "hex_header type data = [ZPAD, ZPAD] @ ZDLE # ZHEX # concat (map putHex (type # data @ header_crc type data)) @ [0x0d, 0x0a] @ xon type"
  by (simp add: hex_header_def header_crc_def xon_def Let_def)

lemma length_putHex: "length (putHex c) = 2"
  by (simp add: putHex_def)

lemma length_hex: "length (concat (map putHex bs)) = 2 * length bs"
  by (induction bs) (simp_all add: length_putHex)

lemma rcv_hex_header:
  assumes s: "idle s" and d: "length data = 4" and r: "rcvlen s = int (length (hex_header type data @ rest))"
  shows "rcv_loop env (hex_header type data @ rest) s
    = zthen (ZProtocol env) (rcv_loop env (xon type @ rest))
        (header_in (int (length (xon type @ rest))) ZHEX (type # data @ header_crc type data @ [0, 0]) 0 s)"
proof -
  let ?bs = "type # data @ header_crc type data" and ?more = "[0x0d, 0x0a] @ xon type @ rest"
  let ?h = "?bs @ [0, 0]" and ?k = "int (length (xon type @ rest))"
  have bs: "length ?bs = 7" using d by simp
  have r': "rcvlen s = ?k + 20" using r bs by (simp add: hex_header_eq length_hex del: concat.simps list.map)
  have "rcv_loop env (hex_header type data @ rest) s
      = rcv_loop env (concat (map putHex ?bs) @ ?more) (reading (rcvlen s - 4) ZHEX 1 (replicate 9 0) 0 s)"
    using rcv_header_start [of s ZHEX "[ZPAD, ZPAD]" env "concat (map putHex ?bs) @ ?more"] s r'
    by (simp add: hex_header_eq start_crc_def)
  also have "\<dots> = rcv_loop env ?more (reading (?k + 2) ZHEX 15 ?h 0 s)"
    using rcv_hex_bytes [OF s, of 0 ?bs "[]" "rcvlen s - 4" env ?more 0] bs r' by (simp add: numeral_2_eq_2 ac_simps)
  also have "\<dots> = rcv_loop env (0x0a # xon type @ rest) (reading (?k + 1) ZHEX 16 ?h 0 s)"
    using s by (simp add: rcv_hdr_char safe_def HdrByte_def Let_def zthen_def)
  also have "\<dots> = zthen (HdrByte env 0x0a) (rcv_loop env (xon type @ rest)) (reading ?k ZHEX 16 ?h 0 s)"
    using s by (simp add: rcv_hdr_char safe_def)
  also have "HdrByte env 0x0a (reading ?k ZHEX 16 ?h 0 s) = ZProtocol env (header_in ?k ZHEX ?h 0 s)"
    using s bs header_crc_good [where 'b = 32 and type = type and data = data]
    by (simp add: HdrByte_def Let_def good_header_def reading_done del: fold_simps)
  then have "zthen (HdrByte env 0x0a) (rcv_loop env (xon type @ rest)) (reading ?k ZHEX 16 ?h 0 s)
      = zthen (ZProtocol env) (rcv_loop env (xon type @ rest)) (header_in ?k ZHEX ?h 0 s)"
    by (rule zthen_cong)
  finally show ?thesis by simp
qed

section \<open>Binary headers\<close>

definition header_length :: "u8 \<Rightarrow> nat" where
  "header_length dt = (if dt = ZBIN then 7 else 9)"

definition header_end :: "zenv \<Rightarrow> zop" where
  "header_end env s = (if DataType s = ZBIN32 \<and> zcrc s \<noteq> 0xdebb20e3 then bad_header s else good_header env s)"

lemma HdrByte_bin:
  assumes "dt = ZBIN \<or> dt = ZBIN32" "i < header_length dt"
  shows "HdrByte env c (reading r dt (int (Suc i)) h x s) =
    (if Suc i < header_length dt then Inr (0, reading r dt (int (Suc (Suc i))) (h[i := c]) (upd dt [c] x) s)
     else header_end env (reading r dt (int (Suc (Suc i))) (h[i := c]) (upd dt [c] x) s))"
  using assms by (elim disjE) (simp_all add: HdrByte_def Let_def header_length_def header_end_def upd_def)

lemma rcv_bin_bytes:
  assumes "zcodes d b" "d \<noteq> []" "idle s" "dt = ZBIN \<or> dt = ZBIN32" "i + length d = header_length dt" "length pre = i"
    "int (length b) \<le> r"
  shows "rcv_loop env (b @ rest) (reading r dt (int (Suc i)) (pre @ replicate (9 - i) 0) x s)
    = zthen (header_end env) (rcv_loop env rest)
        (reading (r - int (length b)) dt (int (Suc (header_length dt))) (pre @ d @ replicate (9 - header_length dt) 0) (upd dt d x) s)"
  using assms
proof (induction d b arbitrary: i pre r x rule: zcodes.induct)
  case (Cons c e d b)
  let ?h = "pre @ replicate (9 - i) 0 :: u8 list"
  have "Suc i \<le> 9" using Cons.prems(3,4) by (auto simp: header_length_def)
  then have rep: "replicate (9 - i) (0 :: u8) = 0 # replicate (9 - Suc i) 0"
    by (cases "9 - i") (auto simp: Suc_diff_Suc)
  have h: "?h[i := c] = (pre @ [c]) @ replicate (9 - Suc i) 0"
    using Cons.prems(5) by (simp add: rep list_update_append)
  have step: "rcv_loop env ((e @ b) @ rest) (reading r dt (int (Suc i)) ?h x s)
      = zthen (HdrByte env c) (rcv_loop env (b @ rest)) (reading (r - int (length e)) dt (int (Suc i)) ?h x s)"
    using Cons by (subst append_assoc, subst inhdr.rcv_code) (auto simp: idle_def)
  show ?case
  proof (cases "d = []")
    case True
    then have "b = []" using Cons.hyps(2) by (auto elim: zcodes.cases)
    have n: "Suc i = header_length dt" using True Cons.prems(4) by simp
    have "HdrByte env c (reading (r - int (length e)) dt (int (Suc i)) ?h x s)
        = header_end env (reading (r - int (length e)) dt (int (Suc (Suc i))) (?h[i := c]) (upd dt [c] x) s)"
      using HdrByte_bin [OF Cons.prems(3), of i env c "r - int (length e)" ?h x s] n by simp
    then have "rcv_loop env ((e @ b) @ rest) (reading r dt (int (Suc i)) ?h x s) = zthen (header_end env) (rcv_loop env (b @ rest))
        (reading (r - int (length e)) dt (int (Suc (Suc i))) (?h[i := c]) (upd dt [c] x) s)"
      using step by (simp only: zthen_def)
    then show ?thesis using True \<open>b = []\<close> unfolding h by (simp add: n)
  next
    case False
    then have less: "Suc i < header_length dt" using Cons.prems(4) by (cases d) simp_all
    have "rcv_loop env ((e @ b) @ rest) (reading r dt (int (Suc i)) ?h x s)
        = rcv_loop env (b @ rest) (reading (r - int (length e)) dt (int (Suc (Suc i))) ((pre @ [c]) @ replicate (9 - Suc i) 0) (upd dt [c] x) s)"
      using step Cons.prems(3,4) less HdrByte_bin [of dt i env c "r - int (length e)" ?h x s] h by (simp add: zthen_def)
    also have "\<dots> = zthen (header_end env) (rcv_loop env rest)
        (reading (r - int (length e) - int (length b)) dt (int (Suc (header_length dt)))
          ((pre @ [c]) @ d @ replicate (9 - header_length dt) 0) (upd dt d (upd dt [c] x)) s)"
      using Cons.prems False by (intro Cons.IH) simp_all
    finally show ?thesis by (simp add: upd_Cons [of _ c d] algebra_simps)
  qed
qed simp

text \<open>A checksum is looked at in headers of the long form only.\<close>

lemma rcv_bin_header:
  assumes s: "idle s" and dt: "dt = ZBIN \<or> dt = ZBIN32" and b: "zcodes (type # data @ t) b"
    and len: "length data = 4" "length t = (if dt = ZBIN then 2 else 4)"
    and good: "dt = ZBIN32 \<Longrightarrow> upd dt (type # data @ t) (start_crc dt) = 0xdebb20e3"
    and r: "rcvlen s = int (length ([ZPAD, ZDLE, dt] @ b @ rest))"
  shows "rcv_loop env ([ZPAD, ZDLE, dt] @ b @ rest) s = zthen (ZProtocol env) (rcv_loop env rest)
    (header_in (int (length rest)) dt (type # data @ t @ replicate (9 - header_length dt) 0) (upd dt (type # data @ t) (start_crc dt)) s)"
proof -
  have n: "length (type # data @ t) = header_length dt" using len dt by (auto simp: header_length_def)
  let ?u = "reading (int (length rest)) dt (int (Suc (header_length dt))) (type # data @ t @ replicate (9 - header_length dt) 0)
        (upd dt (type # data @ t) (start_crc dt)) s"
  have "rcv_loop env ([ZPAD, ZDLE, dt] @ b @ rest) s
      = rcv_loop env (b @ rest) (reading (int (length b) + int (length rest)) dt 1 (replicate 9 0) (start_crc dt) s)"
    using rcv_header_start [of s dt "[ZPAD]" env "b @ rest"] s dt r by auto
  also have "\<dots> = zthen (header_end env) (rcv_loop env rest) ?u"
    using rcv_bin_bytes [OF b _ s dt, of 0 "[]" "int (length b) + int (length rest)" env rest "start_crc dt"] n by simp
  also have "\<dots> = zthen (ZProtocol env) (rcv_loop env rest)
      (header_in (int (length rest)) dt (type # data @ t @ replicate (9 - header_length dt) 0) (upd dt (type # data @ t) (start_crc dt)) s)"
    using good by (intro zthen_cong) (auto simp: header_end_def good_header_def reading_done [OF s])
  finally show ?thesis .
qed

section \<open>Headers as they are sent\<close>

definition header_trailer :: "u8 \<Rightarrow> u8 \<Rightarrow> u8 list \<Rightarrow> u8 list" where
  "header_trailer dt type data =
     (if dt = ZBIN then header_crc type data else crc32_bytes 4 (NOT (fold UPDC32 data (UPDC32 type 0xffffffff) :: 64 word)))"

lemma length_header_trailer [simp]: "length (header_trailer dt type data) = (if dt = ZBIN then 2 else 4)"
  by (simp add: header_trailer_def crc32_bytes_eq)

lemma header_trailer_good: "upd ZBIN32 (type # data @ header_trailer ZBIN32 type data) (start_crc ZBIN32) = 0xdebb20e3"
proof -
  have x: "fold UPDC32 data (UPDC32 type (0xffffffff :: 64 word)) = ucast (ucast (fold UPDC32 data (UPDC32 type (0xffffffff :: 64 word))) :: u32)"
  proof -
    have "fold UPDC32 data (UPDC32 type (0xffffffff :: 64 word)) = ucast (fold UPDC32 (type # data) (0xffffffff :: u32))"
      using fold_UPDC32_32 [of "type # data"] by simp
    moreover have "(ucast (ucast w :: 64 word) :: u32) = w" for w :: u32 by (rule ucast_up_ucast_id) (simp add: is_up)
    ultimately show ?thesis by simp
  qed
  have "upd ZBIN32 (crc32_bytes 4 (NOT (fold UPDC32 data (UPDC32 type (0xffffffff :: 64 word)))))
      (fold UPDC32 data (UPDC32 type (0xffffffff :: 64 word))) = 0xdebb20e3"
    by (rule crc32_good) (use x in simp_all)
  then show ?thesis by (simp add: header_trailer_def upd_def start_crc_def)
qed

definition line_header :: "u8 \<Rightarrow> u8 \<Rightarrow> u8 list \<Rightarrow> u8 list \<Rightarrow> bool" where
  "line_header dt type data p \<longleftrightarrow>
     (if dt = ZHEX then p = hex_header type data
      else \<exists>b. p = [ZPAD, ZDLE, dt] @ b \<and> zcodes (type # data @ header_trailer dt type data) b)"

definition line_tail :: "u8 \<Rightarrow> u8 \<Rightarrow> u8 list" where
  "line_tail dt type = (if dt = ZHEX then xon type else [])"

lemma rcv_header:
  assumes "idle s" "dt \<in> {ZHEX, ZBIN, ZBIN32}" "length data = 4" "line_header dt type data p" "rcvlen s = int (length (p @ rest))"
  obtains h c where "take 5 h = type # data"
    "rcv_loop env (p @ rest) s = zthen (ZProtocol env) (rcv_loop env (line_tail dt type @ rest))
       (header_in (int (length (line_tail dt type @ rest))) dt h c s)"
proof (cases "dt = ZHEX")
  case True
  then show ?thesis
    using that [of "type # data @ header_crc type data @ [0, 0]" 0] rcv_hex_header [of s data type rest env] assms
    by (simp add: line_header_def line_tail_def)
next
  case False
  then have dt: "dt = ZBIN \<or> dt = ZBIN32" using assms(2) by auto
  obtain b where b: "p = [ZPAD, ZDLE, dt] @ b" "zcodes (type # data @ header_trailer dt type data) b"
    using assms(4) False by (auto simp: line_header_def)
  have "upd dt (type # data @ header_trailer dt type data) (start_crc dt) = 0xdebb20e3" if "dt = ZBIN32"
    using that header_trailer_good by simp
  from rcv_bin_header [OF assms(1) dt b(2) assms(3) _ this, of rest env] show ?thesis
    using that [of "type # data @ header_trailer dt type data @ replicate (9 - header_length dt) 0"] assms(3,5) b(1) False
    by (simp add: line_tail_def)
qed

text \<open>What the header functions write.\<close>

definition wire_format :: "u8 \<Rightarrow> ZModem \<Rightarrow> u8" where
  "wire_format format s = (if format = ZBIN \<and> use_crc32 s then ZBIN32 else format)"

lemma ZXmitHdr_sends:
  assumes "format \<in> {ZHEX, ZBIN, ZBIN32}"
  obtains p a where "ZXmitHdr type format data s = Inr (0, s\<lparr>atSign := a, zout := zout s @ p\<rparr>)"
    "line_header (wire_format format s) type data p"
proof (cases "wire_format format s = ZHEX")
  case True
  have "s\<lparr>atSign := atSign s, zout := zout s @ hex_header type data\<rparr> = s\<lparr>zout := zout s @ hex_header type data\<rparr>" by simp
  then show ?thesis using that [of "hex_header type data" "atSign s"] True
    by (simp add: ZXmitHdr_def wire_format_def line_header_def ZXmitHdrHex_def ZXmitStr_def Let_def)
next
  case False
  then have dt: "wire_format format s \<in> {ZBIN, ZBIN32}" using assms by (auto simp: wire_format_def)
  let ?dt = "wire_format format s"
  obtain b a where b: "putZdles (type # data @ header_trailer ?dt type data) s = (b, s\<lparr>atSign := a\<rparr>)"
    "zcodes (type # data @ header_trailer ?dt type data) b" by (rule putZdles_sends)
  have "ZXmitHdr type format data s = Inr (0, s\<lparr>atSign := a, zout := zout s @ [ZPAD, ZDLE, ?dt] @ b\<rparr>)"
  proof (cases "?dt = ZBIN")
    case True
    then have "ZXmitHdr type format data s = ZXmitHdrBin type data s" by (simp add: ZXmitHdr_def wire_format_def Let_def)
    then show ?thesis using True b(1) by (simp add: ZXmitHdrBin_def header_trailer_def header_crc_def ZXmitStr_def Let_def)
  next
    case False
    then have z: "?dt = ZBIN32" using dt by simp
    then have "ZXmitHdr type format data s = ZXmitHdrBin32 type data s" by (simp add: ZXmitHdr_def wire_format_def Let_def)
    then show ?thesis using z b(1) by (simp add: ZXmitHdrBin32_def header_trailer_def ZXmitStr_def Let_def)
  qed
  moreover have "line_header ?dt type data ([ZPAD, ZDLE, ?dt] @ b)" using b(2) dt by (auto simp: line_header_def)
  ultimately show ?thesis by (rule that)
qed

end
