(* ===== verification/Zm_Driver.thy ===== *)
theory Zm_Driver
  imports Zm_Parser Core_Path
begin

text \<open>
  \<open>bbs/prot/zmwwiv.cpp\<close>: the loop that waits for the other side, and the sending and receiving of one
  file, with the functions of \<open>bbs/bbsovl3.cpp\<close> and \<open>bbs/utility.cpp\<close> that put the received file in
  its place.

  What the other side does is a list of \<open>event\<close>s: characters that arrive together, or a period without
  any. The end of the list is a lost connection (\<open>hangup\<close>). An operation that reads returns the
  events that it left.
\<close>

section \<open>The loop\<close>

datatype event = Chars "u8 list" | Silence

definition on_event :: "zenv \<Rightarrow> event \<Rightarrow> zop" where
  "on_event env e s = (case e of Silence \<Rightarrow> ZmodemTimeout env s | Chars str \<Rightarrow> ZmodemRcv env str s)"

fun doIO :: "zenv \<Rightarrow> event list \<Rightarrow> ZModem \<Rightarrow> cpp_error + (int \<times> ZModem) \<times> event list" where
  "doIO env [] s = Inr ((ZmErrCancel, s), [])"
| "doIO env (e # es) s =
     bind_res (on_event env e s) (\<lambda>(done, s1). if done \<noteq> 0 then Inr ((done, s1), es) else doIO env es s1)"

section \<open>Sending a file\<close>

text \<open>The structure is on the stack and its other fields are not set.\<close>

definition fresh :: "ZModem \<Rightarrow> ZModem" where
  "fresh info = info\<lparr>zrinitflags := 0, zsinitflags := 0, attn := None, bufsize := 0, packetsize := 0, windowsize := 0\<rparr>"

definition finish_sending :: "zenv \<Rightarrow> event list \<Rightarrow> ZModem \<Rightarrow> cpp_error + (bool \<times> ZModem) \<times> event list" where
  "finish_sending env es s =
     bind_res (ZmodemTFinish s) (\<lambda>(done, s1).
     bind_res (if done = 0 then doIO env es s1 else Inr ((done, s1), es)) (\<lambda>((done, s2), es1).
     Inr ((done = ZmDone, s2), es1)))"

definition send_file :: "zenv \<Rightarrow> string \<Rightarrow> event list \<Rightarrow> ZModem \<Rightarrow> cpp_error + (bool \<times> ZModem) \<times> event list" where
  "send_file env file_name es s =
     bind_res (ZmodemTFile env file_name file_name 1 0 0 0 0 0 s) (\<lambda>(done, s1).
     if done = ZmDone then Inr ((True, s1), es)
     else if done \<notin> {0, ZmErrCantOpen, ZmFileTooLong} then Inr ((False, s1), es)
     else bind_res (if done = 0 then doIO env es s1 else Inr ((done, s1), es)) (\<lambda>((done, s2), es1).
          if done \<noteq> ZmDone then Inr ((False, s2), es1) else finish_sending env es1 s2))"

definition NewZModemSendFile :: "zenv \<Rightarrow> string \<Rightarrow> event list \<Rightarrow> ZModem \<Rightarrow> cpp_error + (bool \<times> ZModem) \<times> event list" where
  "NewZModemSendFile env file_name es info =
     bind_res (ZmodemTInit env (fresh info)) (\<lambda>(_, s).
     bind_res (doIO env es s) (\<lambda>((done, s1), es1).
     if done \<noteq> ZmDone then Inr ((False, s1), es1) else send_file env file_name es1 s1))"

section \<open>Moving a file\<close>

definition copyfile :: "string \<Rightarrow> string \<Rightarrow> disk \<Rightarrow> bool \<times> disk" where
  "copyfile sourceFileName destFileName fs =
     (if sourceFileName \<noteq> destFileName \<and> File_Exists sourceFileName fs \<and> \<not> File_Exists destFileName fs
      then File_Copy sourceFileName destFileName fs else (False, fs))"

text \<open>\<open>s[1]\<close>, which is the NUL behind a string of one character and undefined for an empty one.\<close>

definition second_char :: "string \<Rightarrow> char" where
  "second_char s = (if 1 < length s then s ! 1 else NUL)"

definition can_use_rename :: "string \<Rightarrow> string \<Rightarrow> bool" where
  "can_use_rename src dst \<longleftrightarrow>
     second_char src \<noteq> CHR '':'' \<and> second_char dst \<noteq> CHR '':''
     \<or> second_char src = CHR '':'' \<and> second_char dst = CHR '':'' \<and> hd src = hd dst"

definition copy_and_remove :: "string \<Rightarrow> string \<Rightarrow> disk \<Rightarrow> bool \<times> disk" where
  "copy_and_remove sourceFileName destFileName fs =
     (let (result, fs1) = copyfile sourceFileName destFileName fs in (result, snd (File_Remove sourceFileName fs1)))"

definition movefile :: "string \<Rightarrow> string \<Rightarrow> disk \<Rightarrow> cpp_error + bool \<times> disk" where
  "movefile sourceFileName destFileName fs =
     (if sourceFileName \<noteq> destFileName \<and> File_Exists sourceFileName fs
      then if destFileName = [] then Inl UndefinedBehaviour
           else if can_use_rename sourceFileName destFileName
           then let (_, fs1) = File_Rename sourceFileName destFileName fs
                in if File_Exists destFileName fs1 then Inr (False, fs1)
                   else Inr (copy_and_remove sourceFileName destFileName fs1)
           else Inr (copy_and_remove sourceFileName destFileName fs)
      else Inr (copy_and_remove sourceFileName destFileName fs))"

text \<open>The name without its directories, in lower case and without blanks; the result is kept in 15 bytes.\<close>

definition stripfn :: "string \<Rightarrow> cpp_error + string" where
  "stripfn file_name =
     (let base = rev (takeWhile (\<lambda>c. c \<noteq> CHR 0x5C \<and> c \<noteq> CHR '':'' \<and> c \<noteq> CHR ''/'') (rev file_name));
          name = filter (\<lambda>c. c \<noteq> CHR '' '') (map tolower base)
      in if 260 \<le> length base \<or> 15 \<le> length name then Inl UndefinedBehaviour else Inr name)"

section \<open>Receiving a file\<close>

definition put_in_place :: "zenv \<Rightarrow> string \<Rightarrow> disk \<Rightarrow> cpp_error + disk" where
  "put_in_place env file_name fs =
     (if 260 \<le> length file_name then Inl UndefinedBehaviour
      else bind_res (stripfn file_name) (\<lambda>base.
        if 260 \<le> length (tempdir env @ base) then Inl UndefinedBehaviour
        else map_sum id snd (movefile (RemoveWhitespace (tempdir env @ base)) (RemoveWhitespace file_name) fs)))"

definition NewZModemReceiveFile :: "zenv \<Rightarrow> string \<Rightarrow> event list \<Rightarrow> ZModem \<Rightarrow> cpp_error + (bool \<times> ZModem) \<times> event list" where
  "NewZModemReceiveFile env file_name es info =
     bind_res (ZmodemRInit env (fresh info)) (\<lambda>(_, s).
     bind_res (doIO env es s) (\<lambda>((done, s1), es1).
     if done \<noteq> ZmDone then Inr ((False, s1), es1)
     else map_sum id (\<lambda>fs. ((True, s1\<lparr>zdisk := fs\<rparr>), es1)) (put_in_place env file_name (zdisk s1))))"

section \<open>An example\<close>

text \<open>A structure with nothing in it, and a system on which every file can be written.\<close>

definition zero_info :: ZModem where
  "zero_info = \<lparr>zout = [], zdisk = Map.empty, zfile = Null, zrinitflags = 0, zsinitflags = 0, attn = None, timeout = 0, bufsize = 0,
     packetsize = 0, windowsize = 0, filesRem = 0, bytesRem = 0, f0 = 0, f1 = 0, f2 = 0, f3 = 0, zlen = 0, zmode = 0, fileType = 0,
     zdate = 0, zstate = RStart, filename = Null, rfilename = None, use_crc32 = False, pktLen = 0, DataType = ZBIN, PacketType = 0,
     rcvlen = 0, chrCount = 0, crcCount = 0, canCount = 0, noiseCount = 0, zbuffer = None, offset = 0, lastOffset = 0,
     zrposOffset = 0, ylen = 0, bufp = 0, fileEof = False, packetCount = 0, errCount = 0, timeoutCount = 0, windowCount = 0,
     atSign = False, escCtrl = False, escHibit = False, escape = False, interrupt = False, waitflag = False, InputState = Idle,
     Protocol = ZMODEM, hdrData = [], fileFlags = [], zcrc = 0, Streaming = Full\<rparr>"

definition easy_env :: zenv where
  "easy_env = \<lparr>tempdir = ''/tmp/'', can_create = (\<lambda>_. True), write_ok = (\<lambda>_ _. True), heap_mem = (\<lambda>_. 0), errno = 0,
     mtime = (\<lambda>_. 0), st_mode = (\<lambda>_. 420)\<rparr>"

end
