(* ===== verification/Zm_Transfer.thy ===== *)
theory Zm_Transfer
  imports Zm_Headers Zm_Driver
begin

text \<open>
  The data of a file. \<open>SendMoreFileData\<close> cuts the file into packets and ends it with \<open>ZEOF\<close>; the
  receiving side appends each packet to its file. \<open>sending\<close> and \<open>receiving\<close> say how far either side is.
\<close>

lemma char_of_u8_of [simp]: "char_of_u8 (u8_of c) = c"
  by (simp add: u8_of_def char_of_u8_def unat_of_nat)

lemma char_of_u8_comp [simp]: "char_of_u8 \<circ> u8_of = id"
  by (rule ext) simp

section \<open>Cutting\<close>

lemma read_chunk_cut:
  assumes "read_chunk e len cs = (b, d, l, eof)" "0 < len"
  shows "d = take (length d) cs \<and> (eof \<longrightarrow> d = cs) \<and> (\<not> eof \<longrightarrow> d \<noteq> []) \<and> int (length b) \<le> len + 1 \<and> int (length d) \<le> len"
  using assms
proof (induction e len cs arbitrary: b d l eof rule: read_chunk.induct)
  case (2 esc len c cs)
  define len' where "len' = (if must_escape_data esc c then len - 2 else len - 1)"
  obtain b' d' l' eof' where r: "read_chunk esc len' cs = (b', d', l', eof')" by (cases "read_chunk esc len' cs") auto
  have now: "b = (if must_escape_data esc c then escaped c else [c]) @ b'" "d = c # d'" "l = l'" "eof = eof'"
    using "2.prems" r by (auto simp: len'_def Let_def split: if_splits)
  show ?case
  proof (cases "0 < len'")
    case True
    then show ?thesis using "2.IH" [OF _ refl, of b' d' l' eof'] r "2.prems"(2) now
      by (auto simp: len'_def escaped_def split: if_splits)
  next
    case False
    then have "b' = []" "d' = []" "eof' = False" using r by (cases cs; simp)+
    then show ?thesis using now "2.prems"(2) by (auto simp: escaped_def len'_def split: if_splits)
  qed
qed auto

section \<open>The sending side\<close>

definition sending :: "string \<Rightarrow> bytes \<Rightarrow> nat \<Rightarrow> ZModem \<Rightarrow> bool" where
  "sending path c pos s \<longleftrightarrow> \<not> interrupt s \<and> \<not> waitflag s \<and> windowsize s = 0 \<and> bufsize s = 0 \<and> 0 < packetsize s
     \<and> Streaming s = Segmented \<and> zfile s = Ptr (path, pos) \<and> zdisk s path = Some c \<and> offset s = word_of_nat pos
     \<and> (\<exists>m. zbuffer s = Some m \<and> packetsize s + 11 \<le> int (length m))"

definition data_format :: "ZModem \<Rightarrow> u8" where
  "data_format s = (if use_crc32 s then ZBIN32 else ZBIN)"

text \<open>The state after a packet that ends in front of \<open>pos\<close>.\<close>

definition packet_sent :: "string \<Rightarrow> nat \<Rightarrow> bool \<Rightarrow> u8 list \<Rightarrow> u8 list \<Rightarrow> bool \<Rightarrow> ZModem \<Rightarrow> ZModem" where
  "packet_sent path pos eof p m a s =
     s\<lparr>zout := zout s @ p, zfile := Ptr (path, pos), timeout := (if eof then 60 else 0), zstate := (if eof then SendEof else Sending),
       zbuffer := Some m, offset := word_of_nat pos, fileEof := eof, atSign := a\<rparr>"

lemma SendMoreFileData_sends:
  assumes s: "sending path c pos s"
  obtains d eof p m a where "d = take (length d) (drop pos c)" "eof \<longrightarrow> d = drop pos c" "\<not> eof \<longrightarrow> d \<noteq> []" "int (length d) \<le> packetsize s"
    "line_packet (data_format s) (if eof then ZCRCE else ZCRCG) (map u8_of d) p" "map_option length (zbuffer s) = Some (length m)"
    "SendMoreFileData s = Inr (0, packet_sent path (pos + length d) eof
       (p @ (if eof then hex_header ZEOF (ZEnc4 (word_of_nat (pos + length d))) else [])) m a s)"
proof -
  obtain m where m: "zbuffer s = Some m" "packetsize s + 11 \<le> int (length m)" using s by (auto simp: sending_def)
  obtain b d l eof where r: "read_chunk (escCtrl s) (packetsize s) (map u8_of (drop pos c)) = (b, d, l, eof)" by (metis prod_cases4)
  have P: "0 < packetsize s" using s by (simp add: sending_def)
  note codes = read_chunk_zcodes [OF r]
  have cut: "d = take (length d) (map u8_of (drop pos c))" "eof \<longrightarrow> d = map u8_of (drop pos c)" "\<not> eof \<longrightarrow> d \<noteq> []"
    "int (length b) \<le> packetsize s + 1" "int (length d) \<le> packetsize s"
    using read_chunk_cut [OF r P] by blast+
  let ?n = "length d" and ?et = "if eof then ZCRCE else ZCRCG :: u8"
  define D where "D = take ?n (drop pos c)"
  have d: "d = map u8_of D" using cut(1) unfolding D_def by (metis take_map)
  have D2: "length D = ?n" using d by (metis length_map)
  have D1: "D = take (length D) (drop pos c)" unfolding D2 by (rule D_def)
  have D3: "\<not> eof \<longrightarrow> D \<noteq> []" using cut(3) D2 by (metis length_0_conv)
  have D4: "int (length D) \<le> packetsize s" using cut(5) D2 by simp
  have D5: "eof \<longrightarrow> D = drop pos c" using cut(2) unfolding D_def by simp
  obtain t a where t: "putZdles (data_trailer ?et d (use_crc32 s)) s = (t, s\<lparr>atSign := a\<rparr>)"
    "zcodes (data_trailer ?et d (use_crc32 s)) t" "length t \<le> 2 * length (data_trailer ?et d (use_crc32 s))" by (rule putZdles_sends)
  let ?p = "b @ [ZDLE, ?et] @ t"
  have lt: "length t \<le> 8" using t(3) length_end_crc [of "data_format s" ?et d] by (simp add: data_trailer_end_crc data_format_def)
  have len: "length ?p \<le> length m" using lt cut(4) m(2) by simp
  have packet: "line_packet (data_format s) ?et (map u8_of D) ?p"
    unfolding d [symmetric] using codes t(2) by (intro line_packetI) (auto simp: data_trailer_end_crc data_format_def)
  have room: "packet_room s = (packetsize s, False)" using s by (simp add: packet_room_def sending_def)
  have ty: "packet_type (packetsize s) False s = (ZCRCG, s)" using s by (simp add: packet_type_def sending_def)
  let ?m = "?p @ drop (length ?p) m"
  let ?s3 = "s\<lparr>atSign := a, offset := offset s + word_of_nat ?n, zfile := Ptr (path, pos + ?n), fileEof := eof\<rparr>"
  have fb: "fill_buffer ?p ?s3 = Inr (?s3\<lparr>zbuffer := Some ?m\<rparr>)" by (rule fill_buffer_ok) (use m len in simp_all)
  have off: "offset s + word_of_nat ?n = word_of_nat (pos + ?n)" using s by (simp add: sending_def)
  have "SendMoreFileData s = bind_res (fill_buffer ?p ?s3) (zthen (ZXmitStr ?p) (\<lambda>s4.
                if ?et = ZCRCE then ZXmitHdrHex ZEOF (ZEnc4 (offset s4)) (s4\<lparr>zstate := SendEof, timeout := 60\<rparr>)
                else if ?et = ZCRCW then Inr (0, s4\<lparr>zstate := (if eof then SendDone else SendWait), timeout := 60\<rparr>)
                else Inr (0, s4\<lparr>zstate := Sending, timeout := 0\<rparr>)))"
    using s r t(1) P unfolding SendMoreFileData_def room by (cases eof) (simp_all add: sending_def ty Let_def)
  also have "\<dots> = Inr (0, packet_sent path (pos + ?n) eof (?p @ (if eof then hex_header ZEOF (ZEnc4 (word_of_nat (pos + ?n))) else [])) ?m a s)"
    unfolding fb by (cases eof) (auto simp: zthen_def ZXmitStr_def ZXmitHdrHex_def packet_sent_def off intro!: ZModem.equality)
  finally have sent: "SendMoreFileData s = Inr (0, packet_sent path (pos + length D) eof
      (?p @ (if eof then hex_header ZEOF (ZEnc4 (word_of_nat (pos + length D))) else [])) ?m a s)" unfolding D2 .
  have "map_option length (zbuffer s) = Some (length ?m)" using len m(1) by simp
  from that [OF D1 D5 D3 D4 packet this sent] show ?thesis .
qed

section \<open>The receiving side\<close>

definition receiving :: "string \<Rightarrow> bytes \<Rightarrow> ZModem \<Rightarrow> bool" where
  "receiving path w s \<longleftrightarrow> (\<exists>m. awaiting_data m s \<and> 8192 \<le> length m) \<and> zstate s = RData \<and> zfile s = Ptr (path, length w)
     \<and> zdisk s path = Some w \<and> offset s = word_of_nat (length w)"

text \<open>What packets leave alone.\<close>

definition same_session :: "ZModem \<Rightarrow> ZModem \<Rightarrow> bool" where
  "same_session s s' \<longleftrightarrow> attn s' = attn s \<and> bufsize s' = bufsize s \<and> zrinitflags s' = zrinitflags s \<and> filename s' = filename s
     \<and> DataType s' = DataType s"

lemma same_session_refl [simp]: "same_session s s"
  by (simp add: same_session_def)

lemma same_session_trans: "same_session s t \<Longrightarrow> same_session t u \<Longrightarrow> same_session s u"
  by (simp add: same_session_def)

definition stored :: "string \<Rightarrow> bytes \<Rightarrow> bool \<Rightarrow> ZModem \<Rightarrow> ZModem" where
  "stored path w again s =
     s\<lparr>zdisk := (zdisk s)(path \<mapsto> w), zfile := Ptr (path, length w), zstate := (if again then zstate s else RFile),
       chrCount := 0, crcCount := 0, offset := word_of_nat (length w), InputState := (if again then Indata else Idle),
       zcrc := (if again then crc_start (DataType s) else zcrc s)\<rparr>"

lemma receive_packet:
  assumes s: "receiving path w s" and p: "line_packet (DataType s) (if eof then ZCRCE else ZCRCG) (map u8_of d) p"
    and d: "length d \<le> 8192" and ok: "\<And>b. write_ok env path b" and r: "rcvlen s = int (length (p @ rest))"
  obtains s' where "rcv_loop env (p @ rest) s = rcv_loop env rest s'" "rcvlen s' = int (length rest)" "same_session s s'"
    "zout s' = zout s" "zdisk s' = (zdisk s)(path \<mapsto> w @ d)" "\<not> eof \<longrightarrow> receiving path (w @ d) s'"
    "eof \<longrightarrow> idle s' \<and> zstate s' = RFile \<and> zfile s' = Ptr (path, length (w @ d)) \<and> offset s' = word_of_nat (length (w @ d))
       \<and> (\<exists>m. zbuffer s' = Some m \<and> 8192 \<le> length m)"
proof -
  obtain m where m: "awaiting_data m s" "8192 \<le> length m" using s by (auto simp: receiving_def)
  let ?et = "if eof then ZCRCE else ZCRCG :: u8" and ?d = "map u8_of d"
  let ?s1 = "packet_in (int (length rest)) ?et ?d m s"
  let ?s2 = "stored path (w @ d) (\<not> eof) ?s1"
  have fields: "zstate ?s1 = RData" "zfile ?s1 = Ptr (path, length w)" "zdisk ?s1 = zdisk s" "offset ?s1 = word_of_nat (length w)"
    "zdisk s path = Some w" "chrCount ?s1 = int (length d)" "PacketType ?s1 = ?et" "zbuffer ?s1 = Some (?d @ drop (length d) m)"
    "DataType ?s1 = DataType s" "crcCount ?s1 = 0"
    using s by (simp_all add: receiving_def packet_in_def)
  have "ZWriteFile env ?d ?s1 = Inr (0, ?s1\<lparr>zdisk := (zdisk ?s1)(path \<mapsto> w @ d), zfile := Ptr (path, length w + length d)\<rparr>)"
    using fields ok by (simp add: ZWriteFile_def)
  then have "ZDataReceived env True ?s1 = Inr (0, ?s2)"
    using fields by (cases eof)
      (auto simp: ZDataReceived_def GotFileData_def with_buffer_def stored_def dataSetup_def crc_start_def intro!: ZModem.equality)
  then have run: "rcv_loop env (p @ rest) s = rcv_loop env rest ?s2"
    using rcv_packet [OF p m(1), of rest env] m(2) d r by (simp add: zthen_def split: if_splits)
  have len: "8192 \<le> length (?d @ drop (length d) m)" using m(2) d by simp
  show ?thesis
    by (rule that [OF run])
      (use s m fields len in \<open>auto simp: stored_def packet_in_def same_session_def receiving_def awaiting_data_def idle_def\<close>)
qed

end
