(* ===== verification/Zm_Receiver.thy ===== *)
theory Zm_Receiver
  imports Zm_Transfer
begin

text \<open>
  The receiving side of a transfer, one message at a time: what it answers to each message of the
  sending side and what it then has on its disk. The lemmas of the first section serve both sides.
\<close>

section \<open>One message\<close>

definition quiet :: "ZModem \<Rightarrow> bool" where
  "quiet s \<longleftrightarrow> InputState s \<notin> {Ysend, Yrcv} \<and> canCount s = 0"

lemma rcv_char_XON: "InputState s \<noteq> Ysend \<Longrightarrow> InputState s \<noteq> Yrcv \<Longrightarrow> rcv_char env XON s = Inr (0, s)"
  by (cases "InputState s") (simp_all add: rcv_char_def)

lemma rcv_rest:
  assumes "t = [] \<or> t = [XON]" "quiet s" "rcvlen s = 0 \<or> rcvlen s = int (length t)"
  shows "rcv_loop env t s = Inr (0, s\<lparr>rcvlen := - 1\<rparr>)"
proof -
  have "s\<lparr>rcvlen := - 1, canCount := 0\<rparr> = s\<lparr>rcvlen := - 1\<rparr>"
    using assms(2) update_ids(2) [of "s\<lparr>rcvlen := - 1\<rparr>" 0] by (simp add: quiet_def)
  then show ?thesis
    using assms by (auto simp: rcv_loop.simps quiet_def zthen_def rcv_char_XON Let_def)
qed

lemma ZmodemRcv_header:
  assumes s: "idle s" and h: "dt \<in> {ZHEX, ZBIN, ZBIN32}" "length data = 4" "line_header dt type data p"
    and run: "\<And>r h c. take 5 h = type # data \<Longrightarrow> 0 \<le> r \<Longrightarrow>
      \<exists>s'. ZProtocol env (header_in r dt h c s) = Inr (k, s') \<and> (rcvlen s' = 0 \<or> rcvlen s' = r) \<and> quiet s' \<and> Q s'"
    and stable: "\<And>s r. Q s \<Longrightarrow> Q (s\<lparr>rcvlen := r\<rparr>)"
  shows "\<exists>s'. ZmodemRcv env p s = Inr (k, s') \<and> Q s'"
proof -
  let ?s = "s\<lparr>rcvlen := int (length (p @ []))\<rparr>" and ?t = "line_tail dt type"
  have tail: "?t = [] \<or> ?t = [XON]" by (simp add: line_tail_def xon_def)
  have i: "idle ?s" using s by (simp add: idle_def)
  have hin: "header_in r dt h c ?s = header_in r dt h c s" for r h c by (simp add: header_in_def)
  obtain h c where hc: "take 5 h = type # data" "rcv_loop env (p @ []) ?s
      = zthen (ZProtocol env) (rcv_loop env (?t @ [])) (header_in (int (length (?t @ []))) dt h c ?s)"
    by (rule rcv_header [OF i h(1,2,3), where env = env and rest = "[]"]) simp
  obtain s' where s': "ZProtocol env (header_in (int (length ?t)) dt h c s) = Inr (k, s')"
    "rcvlen s' = 0 \<or> rcvlen s' = int (length ?t)" "quiet s'" "Q s'" using run [OF hc(1), of "int (length ?t)" c] by auto
  have "ZmodemRcv env p s = (if k = 0 then rcv_loop env ?t s' else Inr (k, s'))"
    using hc(2) s'(1) unfolding hin by (simp add: ZmodemRcv_def zthen_def)
  then show ?thesis using rcv_rest [OF tail s'(3,2), of env] s'(4) stable by (cases "k = 0") auto
qed

lemma ZmodemRcv_binary:
  assumes s: "idle s" and dt: "dt \<in> {ZBIN, ZBIN32}" and h: "length data = 4" "line_header dt type data p"
  obtains h c where "take 5 h = type # data"
    "ZmodemRcv env (p @ q) s = zthen (ZProtocol env) (rcv_loop env q) (header_in (int (length q)) dt h c s)"
proof -
  let ?s = "s\<lparr>rcvlen := int (length (p @ q))\<rparr>"
  have tail: "line_tail dt type = []" using dt by (auto simp: line_tail_def)
  have i: "idle ?s" using s by (simp add: idle_def)
  have dt3: "dt \<in> {ZHEX, ZBIN, ZBIN32}" using dt by auto
  have hin: "header_in r dt h c ?s = header_in r dt h c s" for r h c by (simp add: header_in_def)
  obtain h c where "take 5 h = type # data" "rcv_loop env (p @ q) ?s
      = zthen (ZProtocol env) (rcv_loop env q) (header_in (int (length q)) dt h c ?s)"
    by (rule rcv_header [OF i dt3 h, where env = env and rest = q]) (use tail in simp_all)
  then show ?thesis using that unfolding hin by (simp add: ZmodemRcv_def)
qed

lemma ZmodemRcv_header_packet:
  assumes s: "idle s" and dt: "dt \<in> {ZBIN, ZBIN32}" and h: "length data = 4" "line_header dt type data p"
    and q: "line_packet dt et d q" "et \<in> {ZCRCE, ZCRCG, ZCRCQ, ZCRCW}"
    and run: "\<And>h c. take 5 h = type # data \<Longrightarrow> \<exists>s1 m. ZProtocol env (header_in (int (length q)) dt h c s) = Inr (0, s1)
      \<and> awaiting_data m s1 \<and> DataType s1 = dt \<and> rcvlen s1 = int (length q) \<and> length d \<le> length m
      \<and> (\<exists>s'. ZDataReceived env True (packet_in 0 et d m s1) = Inr (0, s') \<and> rcvlen s' = 0 \<and> Q s')"
    and stable: "\<And>s r. Q s \<Longrightarrow> Q (s\<lparr>rcvlen := r\<rparr>)"
  shows "\<exists>s'. ZmodemRcv env (p @ q) s = Inr (0, s') \<and> Q s'"
proof -
  obtain h c where hc: "take 5 h = type # data"
    "ZmodemRcv env (p @ q) s = zthen (ZProtocol env) (rcv_loop env q) (header_in (int (length q)) dt h c s)"
    by (rule ZmodemRcv_binary [OF s dt h])
  obtain s1 m s' where s1: "ZProtocol env (header_in (int (length q)) dt h c s) = Inr (0, s1)" "awaiting_data m s1"
    "DataType s1 = dt" "rcvlen s1 = int (length q)" "length d \<le> length m"
    and s': "ZDataReceived env True (packet_in 0 et d m s1) = Inr (0, s')" "rcvlen s' = 0" "Q s'"
    using run [OF hc(1), of c] by auto
  have "ZmodemRcv env (p @ q) s = rcv_loop env (q @ []) s1"
    using hc(2) s1(1) by (simp add: zthen_def)
  also have "\<dots> = Inr (0, s'\<lparr>rcvlen := - 1\<rparr>)"
    using rcv_packet [of s1 et d q m "[]" env] q s1 s'(1,2) by (simp add: zthen_def rcv_loop.simps)
  finally show ?thesis using stable [OF s'(3)] by blast
qed

lemma hdr_parts:
  assumes "take 5 h = type # data" "length data = 4"
  shows "h ! 0 = type" "take 4 (tl h) = data" "i < 4 \<Longrightarrow> h ! Suc i = data ! i" "i < 4 \<Longrightarrow> tl h ! i = data ! i"
proof -
  obtain t where h: "h = type # t" using assms(1) by (cases h) auto
  then have t: "take 4 t = data" using assms(1) by simp
  have nth: "t ! i = data ! i" if "i < 4" for i using t that by (metis nth_take)
  show "h ! 0 = type" "take 4 (tl h) = data" "i < 4 \<Longrightarrow> h ! Suc i = data ! i" "i < 4 \<Longrightarrow> tl h ! i = data ! i"
    using h t nth by simp_all
qed

lemma header_in_simps [simp]:
  "hdrData (header_in r dt h c s) = h" "zstate (header_in r dt h c s) = zstate s" "rcvlen (header_in r dt h c s) = r"
  "DataType (header_in r dt h c s) = dt"
  by (simp_all add: header_in_def)

lemma take_bit_31: "n < 2 ^ 31 \<Longrightarrow> bit n k \<Longrightarrow> k < 31" for n :: "64 word"
proof -
  assume "n < 2 ^ 31" and b: "bit n k"
  then have "unat n < 2 ^ 31" by (simp add: word_less_nat_alt)
  then have "take_bit 31 (unat n) = unat n" by (simp add: take_bit_nat_eq_self_iff)
  moreover have "bit (unat n) k" using b by (simp add: bit_unsigned_iff bit_imp_le_length)
  ultimately show "k < 31" by (metis bit_take_bit_iff)
qed

lemma ZDec4_ZEnc4: "n < 2 ^ 31 \<Longrightarrow> ZDec4 (ZEnc4 n) = n"
proof -
  assume n: "n < 2 ^ 31"
  have m: "(0xff :: 64 word) = mask 8" by (simp add: mask_eq_exp_minus_1)
  let ?w = "ucast (ucast (n AND 0xff) :: u8) OR push_bit 8 (ucast (ucast (drop_bit 8 n AND 0xff) :: u8))
    OR push_bit 16 (ucast (ucast (drop_bit 16 n AND 0xff) :: u8)) OR push_bit 24 (ucast (ucast (drop_bit 24 n AND 0xff) :: u8)) :: 32 word"
  have w: "?w = ucast n"
    unfolding m
  proof (intro bit_word_eqI)
    fix k assume "k < LENGTH(32)"
    then consider "k < 8" | "8 \<le> k" "k < 16" | "16 \<le> k" "k < 24" | "24 \<le> k" "k < 32" by force
    then show "bit (ucast (ucast (n AND mask 8) :: u8) OR push_bit 8 (ucast (ucast (drop_bit 8 n AND mask 8) :: u8))
      OR push_bit 16 (ucast (ucast (drop_bit 16 n AND mask 8) :: u8)) OR push_bit 24 (ucast (ucast (drop_bit 24 n AND mask 8) :: u8))
      :: 32 word) k = bit (ucast n :: 32 word) k"
      by cases (auto simp: bit_simps)
  qed
  have "scast (ucast n :: 32 word) = n"
    by (intro bit_word_eqI) (auto simp: bit_simps min_def dest: take_bit_31 [OF n])
  then show "ZDec4 (ZEnc4 n) = n" by (simp add: ZDec4_def ZEnc4_def w)
qed

lemma hdr_number: "take 5 h = type # ZEnc4 n \<Longrightarrow> n < 2 ^ 31 \<Longrightarrow> ZDec4 (tl h) = n"
proof -
  assume h: "take 5 h = type # ZEnc4 n" "n < 2 ^ 31"
  have l: "length (ZEnc4 n) = 4" by (simp add: ZEnc4_def)
  have "ZDec4 (tl h) = ZDec4 (ZEnc4 n)" unfolding ZDec4_def using hdr_parts(4) [OF h(1) l] by simp
  then show "ZDec4 (tl h) = n" using ZDec4_ZEnc4 [OF h(2)] by simp
qed

section \<open>The receiving side\<close>

definition has_buffer :: "nat \<Rightarrow> ZModem \<Rightarrow> bool" where
  "has_buffer n s \<longleftrightarrow> (\<exists>m. zbuffer s = Some m \<and> n \<le> length m)"

lemma has_buffer_update [simp]: "has_buffer n (s\<lparr>rcvlen := r\<rparr>) = has_buffer n s"
  by (simp add: has_buffer_def)

lemma idle_rcvlen [simp]: "idle (s\<lparr>rcvlen := r\<rparr>) = idle s"
  by (simp add: idle_def)

definition r_ready :: "(string \<rightharpoonup> bytes) \<Rightarrow> ZModem \<Rightarrow> bool" where
  "r_ready D s \<longleftrightarrow> idle s \<and> zstate s = RStart \<and> zdisk s = D \<and> attn s = None \<and> bufsize s = 0 \<and> zrinitflags s = 0
     \<and> filename s = Null \<and> has_buffer 8192 s"

lemma r_ready_rcvlen [simp]: "r_ready D (s\<lparr>rcvlen := r\<rparr>) = r_ready D s"
  by (simp add: r_ready_def)

lemma rcv_noise:
  assumes "idle s" "zstate s = RStart" "0 < rcvlen s" "c \<notin> {ZPAD, XON, XOFF, CAN}"
  shows "rcv_loop env (c # rest) s = rcv_loop env rest (s\<lparr>rcvlen := rcvlen s - 1\<rparr>)"
proof -
  have same: "s\<lparr>rcvlen := rcvlen s - 1, canCount := 0\<rparr> = s\<lparr>rcvlen := rcvlen s - 1\<rparr>"
    using assms(1) update_ids(2) [of "s\<lparr>rcvlen := rcvlen s - 1\<rparr>" 0] by (simp add: idle_def)
  show ?thesis using assms by (simp add: rcv_loop_Cons idle_def same zthen_def rcv_char_Idle IdleChar_def Let_def)
qed

definition rz :: "u8 list" where
  "rz = map u8_of ''rz'' @ [0x0d]"

lemma ZmodemRcv_rz: "idle s \<Longrightarrow> zstate s = RStart \<Longrightarrow> ZmodemRcv env (rz @ p) s = ZmodemRcv env p s"
proof -
  assume s: "idle s" "zstate s = RStart"
  have rz: "rz = [0x72, 0x7a, 0x0d]" by (simp add: rz_def u8_of_def)
  show ?thesis unfolding rz using s by (simp add: ZmodemRcv_def rcv_noise)
qed

lemma ZXmitHdrHex_eq: "ZXmitHdrHex type data s = Inr (0, s\<lparr>zout := zout s @ hex_header type data\<rparr>)"
  by (simp add: ZXmitHdrHex_def ZXmitStr_def)

lemma SendRinit_eq:
  "bufsize s = 0 \<Longrightarrow> zrinitflags s = 0 \<Longrightarrow>
    SendRinit s = Inr (0, s\<lparr>timeout := 10, zout := zout s @ hex_header ZRINIT zeros\<rparr>)"
  by (simp add: SendRinit_def ZXmitHdrHex_eq zeros_def byte_of_int_def)

lemma r_rqinit:
  assumes "r_ready D s"
  shows "\<exists>s'. ZmodemRcv env (rz @ hex_header ZRQINIT zeros) s = Inr (0, s') \<and> r_ready D s' \<and> zout s' = zout s @ hex_header ZRINIT zeros"
proof -
  have s: "idle s" "zstate s = RStart" using assms by (simp_all add: r_ready_def)
  show ?thesis unfolding ZmodemRcv_rz [OF s]
  proof (rule ZmodemRcv_header [where dt = ZHEX, OF s(1)])
    fix r h c assume h: "take 5 h = ZRQINIT # zeros" "0 \<le> (r :: int)"
    have "h ! 0 = ZRQINIT" using hdr_parts(1) [OF h(1)] by (simp add: zeros_def)
    then show "\<exists>s'. ZProtocol env (header_in r ZHEX h c s) = Inr (0, s') \<and> (rcvlen s' = 0 \<or> rcvlen s' = r) \<and> quiet s'
        \<and> r_ready D s' \<and> zout s' = zout s @ hex_header ZRINIT zeros"
      using assms by (simp add: ZProtocol_def protocol_table_def RStartOps_def header_in_def SendRinit_eq r_ready_def idle_def quiet_def has_buffer_def)
  qed (simp_all add: zeros_def line_header_def)
qed

lemma rep_data: "take 5 h = type # [a, b, c, d] \<Longrightarrow> h ! 0 = type \<and> h ! 1 = a \<and> h ! 2 = b \<and> h ! 3 = c \<and> h ! 4 = d"
  using hdr_parts(1,3) [of h type "[a, b, c, d]"] by (simp add: numeral_eq_Suc)

lemma string_at_text:
  assumes "NUL \<notin> set a"
  shows "string_at (map u8_of a @ 0 # rest) = Inr (a, rest)"
proof -
  have u: "u8_of c = 0 \<Longrightarrow> c = NUL" for c using char_of_u8_of [of c] by (simp add: char_of_u8_def NUL_def char_of_def)
  have nz: "\<forall>x \<in> set (map u8_of a). x \<noteq> 0" using assms u by auto
  then have "takeWhile (\<lambda>c. c \<noteq> 0) (map u8_of a @ 0 # rest) = map u8_of a" "dropWhile (\<lambda>c. c \<noteq> 0) (map u8_of a @ 0 # rest) = 0 # rest"
    by (simp_all add: takeWhile_append dropWhile_append)
  then show ?thesis by (simp add: string_at_def)
qed

text \<open>\<open>ZSINIT\<close> comes with an attention string, here the empty one.\<close>

lemma r_sinit:
  assumes "r_ready D s" "dt \<in> {ZBIN, ZBIN32}" "line_header dt ZSINIT zeros p" "line_packet dt ZCRCW [0] q"
  shows "\<exists>s'. ZmodemRcv env (p @ q) s = Inr (0, s') \<and> r_ready D s' \<and> zout s' = zout s @ hex_header ZACK (ZEnc4 1)"
proof -
  obtain m where m: "zbuffer s = Some m" "8192 \<le> length m" using assms(1) by (auto simp: r_ready_def has_buffer_def)
  have s: "idle s" using assms(1) by (simp add: r_ready_def)
  have str: "string_at (0 # t) = Inr ([], t)" for t using string_at_text [of "[]" t] by simp
  show ?thesis
  proof (rule ZmodemRcv_header_packet [OF s assms(2) _ assms(3,4)])
    fix h c assume h: "take 5 h = ZSINIT # zeros"
    let ?h = "header_in (int (length q)) dt h c s"
    let ?s1 = "?h\<lparr>timeoutCount := 0, noiseCount := 0, zstate := RSinitWait, zsinitflags := 0, escCtrl := False, escHibit := False,
      InputState := Indata, chrCount := 0, crcCount := 0, zcrc := crc_start dt\<rparr>"
    have hs: "h ! 0 = ZSINIT" "h ! 4 = 0" using rep_data [of h ZSINIT 0 0 0 0] h by (simp_all add: zeros_def)
    have 1: "ZProtocol env ?h = Inr (0, ?s1)"
      using assms(1) hs by (simp add: ZProtocol_def protocol_table_def RStartOps_def header_in_def r_ready_def GotSinit_def dataSetup_def crc_start_def Let_def)
    have 2: "awaiting_data m ?s1" "DataType ?s1 = dt" "rcvlen ?s1 = int (length q)"
      using assms(1,2) m by (auto simp: awaiting_data_def r_ready_def idle_def header_in_def)
    let ?t = "packet_in 0 ZCRCW [0] m ?s1"
    let ?u = "?t\<lparr>InputState := Idle, chrCount := 0, zstate := RStart, attn := None, zout := zout s @ hex_header ZACK (ZEnc4 1)\<rparr>"
    have t: "zstate ?t = RSinitWait" "zbuffer ?t = Some (0 # drop 1 m)" "zout ?t = zout s" by (simp_all add: packet_in_def header_in_def)
    have 3: "ZDataReceived env True ?t = Inr (0, ?u)"
      using t by (simp add: ZDataReceived_def GotSinitData_def with_buffer_def str ZXmitHdrHex_eq)
    have 4: "r_ready D ?u" "rcvlen ?u = 0" "zout ?u = zout s @ hex_header ZACK (ZEnc4 1)"
      using assms(1) m by (auto simp: r_ready_def idle_def packet_in_def header_in_def has_buffer_def)
    show "\<exists>s1 m. ZProtocol env ?h = Inr (0, s1) \<and> awaiting_data m s1 \<and> DataType s1 = dt \<and> rcvlen s1 = int (length q)
        \<and> length [0 :: u8] \<le> length m \<and> (\<exists>s'. ZDataReceived env True (packet_in 0 ZCRCW [0] m s1) = Inr (0, s') \<and> rcvlen s' = 0
          \<and> r_ready D s' \<and> zout s' = zout s @ hex_header ZACK (ZEnc4 1))"
      using 1 2 3 4 m(2) by (intro exI [of _ ?s1] exI [of _ m] conjI exI [of _ ?u]) simp_all
  qed (simp_all add: zeros_def)
qed

text \<open>\<open>ZFILE\<close> comes with the name and the attributes; the file is opened and asked for from its beginning.\<close>

definition r_file :: "(string \<rightharpoonup> bytes) \<Rightarrow> string \<Rightarrow> bytes \<Rightarrow> ZModem \<Rightarrow> bool" where
  "r_file D path w s \<longleftrightarrow> idle s \<and> zstate s = RFile \<and> zfile s = Ptr (path, length w) \<and> zdisk s = D(path \<mapsto> w)
     \<and> offset s = word_of_nat (length w) \<and> attn s = None \<and> bufsize s = 0 \<and> zrinitflags s = 0 \<and> (\<exists>n. filename s = Ptr n)
     \<and> has_buffer 8192 s"

lemma r_file_rcvlen [simp]: "r_file D path w (s\<lparr>rcvlen := r\<rparr>) = r_file D path w s"
  by (simp add: r_file_def)

lemma parseFileName_ok:
  assumes "NUL \<notin> set name" "NUL \<notin> set t" "filename s = Null"
  obtains l d mo fr br ft where "parseFileName (map u8_of name @ 0 # map u8_of t @ 0 # rest) s
    = Inr (s\<lparr>filename := Ptr name, zlen := l, zdate := d, zmode := mo, filesRem := fr, bytesRem := br, fileType := ft\<rparr>)"
  using assms by (simp add: parseFileName_def string_at_text free_def Let_def)

lemma r_zfile:
  assumes R: "r_ready D s" and dt: "dt \<in> {ZBIN, ZBIN32}" and p: "line_header dt ZFILE [0, 0, 0, 1] p"
    and q: "line_packet dt ZCRCW (map u8_of name @ 0 # map u8_of t @ [0]) q"
    and name: "NUL \<notin> set name" "NUL \<notin> set t" "length name + length t + 2 \<le> 8192"
    and path: "length (tempdir env @ name) < 260" "can_create env (tempdir env @ name)"
  shows "\<exists>s'. ZmodemRcv env (p @ q) s = Inr (0, s') \<and> r_file D (tempdir env @ name) [] s' \<and> zout s' = zout s @ hex_header ZRPOS (ZEnc4 0)"
proof -
  obtain m where m: "zbuffer s = Some m" "8192 \<le> length m" using R by (auto simp: r_ready_def has_buffer_def)
  have s: "idle s" using R by (simp add: r_ready_def)
  let ?d = "map u8_of name @ 0 # map u8_of t @ [0]" and ?path = "tempdir env @ name"
  have ld: "length ?d \<le> length m" using name(3) m(2) by simp
  show ?thesis
  proof (rule ZmodemRcv_header_packet [OF s dt _ p q])
    fix h c assume h: "take 5 h = ZFILE # [0, 0, 0, 1]"
    let ?h = "header_in (int (length q)) dt h c s"
    let ?s1 = "?h\<lparr>timeoutCount := 0, noiseCount := 0, zstate := RFileName, errCount := 0, f0 := 1, f1 := 0, f2 := 0, f3 := 0,
      InputState := Indata, chrCount := 0, crcCount := 0, zcrc := crc_start dt\<rparr>"
    have hs: "h ! 0 = ZFILE" "h ! 1 = 0" "h ! 2 = 0" "h ! 3 = 0" "h ! 4 = 1" using rep_data [of h ZFILE 0 0 0 1] h by simp_all
    have 1: "ZProtocol env ?h = Inr (0, ?s1)"
      using R hs by (simp add: ZProtocol_def protocol_table_def RStartOps_def header_in_def r_ready_def GotFile_def dataSetup_def crc_start_def Let_def)
    have 2: "awaiting_data m ?s1" "DataType ?s1 = dt" "rcvlen ?s1 = int (length q)"
      using R dt m by (auto simp: awaiting_data_def r_ready_def idle_def header_in_def)
    let ?t = "packet_in 0 ZCRCW ?d m ?s1"
    let ?t1 = "?t\<lparr>InputState := Idle, chrCount := 0\<rparr>"
    let ?rest = "drop (length ?d) m"
    obtain l da mo fr br ft where parsed: "parseFileName (map u8_of name @ 0 # map u8_of t @ 0 # ?rest) ?t1
        = Inr (?t1\<lparr>filename := Ptr name, zlen := l, zdate := da, zmode := mo, filesRem := fr, bytesRem := br, fileType := ft\<rparr>)"
      by (rule parseFileName_ok [OF name(1,2), of ?t1]) (use R in \<open>simp_all add: packet_in_def header_in_def r_ready_def\<close>)
    let ?t2 = "?t1\<lparr>filename := Ptr name, zlen := l, zdate := da, zmode := mo, filesRem := fr, bytesRem := br, fileType := ft\<rparr>"
    let ?u = "?t2\<lparr>zdisk := D(?path \<mapsto> []), zfile := Ptr (?path, 0), offset := 0, zstate := RFile, zout := zout s @ hex_header ZRPOS (ZEnc4 0)\<rparr>"
    have t: "zstate ?t = RFileName" "zbuffer ?t = Some (map u8_of name @ 0 # map u8_of t @ 0 # ?rest)" "zout ?t = zout s" "zdisk ?t = D"
      "f0 ?t = 1" "f1 ?t = 0" using R by (simp_all add: packet_in_def header_in_def r_ready_def)
    have "requestFile env (?t2\<lparr>zstate := RFile\<rparr>) = Inr (0, ?u)"
      using t path string_at_text [OF name(1), of "map u8_of t @ 0 # ?rest"]
      by (simp add: requestFile_def with_buffer_def ZOpenFile_def ZXmitHdrHex_eq Let_def)
    then have 3: "ZDataReceived env True ?t = Inr (0, ?u)"
      using t parsed by (simp add: ZDataReceived_def GotFileName_def with_buffer_def)
    have 4: "r_file D ?path [] ?u" "rcvlen ?u = 0" "zout ?u = zout s @ hex_header ZRPOS (ZEnc4 0)"
      using R m ld by (auto simp: r_file_def r_ready_def idle_def packet_in_def header_in_def has_buffer_def)
    show "\<exists>s1 m. ZProtocol env ?h = Inr (0, s1) \<and> awaiting_data m s1 \<and> DataType s1 = dt \<and> rcvlen s1 = int (length q)
        \<and> length ?d \<le> length m \<and> (\<exists>s'. ZDataReceived env True (packet_in 0 ZCRCW ?d m s1) = Inr (0, s') \<and> rcvlen s' = 0
          \<and> r_file D ?path [] s' \<and> zout s' = zout s @ hex_header ZRPOS (ZEnc4 0))"
      using 1 2 3 4 ld by (intro exI [of _ ?s1] exI [of _ m] conjI exI [of _ ?u]) simp_all
  qed simp_all
qed

text \<open>\<open>ZDATA\<close> comes with the first packet; \<open>ZEOF\<close> follows the last one.\<close>

definition r_data :: "u8 \<Rightarrow> (string \<rightharpoonup> bytes) \<Rightarrow> string \<Rightarrow> bytes \<Rightarrow> ZModem \<Rightarrow> bool" where
  "r_data dt D path w s \<longleftrightarrow> receiving path w s \<and> DataType s = dt \<and> zdisk s = D(path \<mapsto> w) \<and> attn s = None \<and> bufsize s = 0
     \<and> zrinitflags s = 0 \<and> (\<exists>n. filename s = Ptr n)"

lemma r_data_rcvlen [simp]: "r_data dt D path w (s\<lparr>rcvlen := r\<rparr>) = r_data dt D path w s"
  by (simp add: r_data_def receiving_def awaiting_data_def)

lemma rcv_loop_ZmodemRcv: "rcvlen s = int (length p) \<Longrightarrow> rcv_loop env p s = ZmodemRcv env p s"
  unfolding ZmodemRcv_def by (subst update_ids(5)) auto

lemma r_zeof:
  assumes R: "r_file D path w s" and w: "length w < 2 ^ 31"
  shows "\<exists>s'. ZmodemRcv env (hex_header ZEOF (ZEnc4 (word_of_nat (length w)))) s = Inr (0, s') \<and> r_ready (D(path \<mapsto> w)) s'
    \<and> zout s' = zout s @ hex_header ZRINIT zeros"
proof (rule ZmodemRcv_header [where dt = ZHEX])
  show "idle s" using R by (simp add: r_file_def)
  fix r h c assume h: "take 5 h = ZEOF # ZEnc4 (word_of_nat (length w))" "0 \<le> (r :: int)"
  have l: "length (ZEnc4 n) = 4" for n by (simp add: ZEnc4_def)
  have t: "h ! 0 = ZEOF" using hdr_parts(1) [OF h(1)] l by simp
  have "(word_of_nat (length w) :: 64 word) < 2 ^ 31"
    using w by (simp add: word_less_nat_alt unat_of_nat)
  then have n: "ZDec4 (tl h) = word_of_nat (length w)" by (rule hdr_number [OF h(1)])
  obtain a where a: "filename s = Ptr a" using R by (auto simp: r_file_def)
  show "\<exists>s'. ZProtocol env (header_in r ZHEX h c s) = Inr (0, s') \<and> (rcvlen s' = 0 \<or> rcvlen s' = r) \<and> quiet s'
      \<and> r_ready (D(path \<mapsto> w)) s' \<and> zout s' = zout s @ hex_header ZRINIT zeros"
    using R t n a by (simp add: ZProtocol_def protocol_table_def RFileOps_def header_in_def GotEof_def header_offset_def zseq_def ZCloseFile_def
        free_def SendRinit_eq r_file_def r_ready_def idle_def quiet_def has_buffer_def)
qed (simp_all add: line_header_def ZEnc4_def)

text \<open>What the receiving side has after a packet with \<open>d\<close>, the last one or not.\<close>

definition r_after :: "bool \<Rightarrow> u8 \<Rightarrow> (string \<rightharpoonup> bytes) \<Rightarrow> string \<Rightarrow> bytes \<Rightarrow> ZModem \<Rightarrow> bool" where
  "r_after eof dt D path w s \<longleftrightarrow> (if eof then r_ready (D(path \<mapsto> w)) s else r_data dt D path w s)"

definition eof_header :: "bool \<Rightarrow> nat \<Rightarrow> u8 list" where
  "eof_header eof n = (if eof then hex_header ZEOF (ZEnc4 (word_of_nat n)) else [])"

lemma r_packet_loop:
  assumes R: "r_data dt D path w s" and p: "line_packet dt (if eof then ZCRCE else ZCRCG) (map u8_of d) p"
    and d: "length d \<le> 8192" "length (w @ d) < 2 ^ 31" and ok: "\<And>b. write_ok env path b"
    and r: "rcvlen s = int (length (p @ eof_header eof (length (w @ d))))"
  shows "\<exists>s'. rcv_loop env (p @ eof_header eof (length (w @ d))) s = Inr (0, s') \<and> r_after eof dt D path (w @ d) s'
    \<and> zout s' = zout s @ (if eof then hex_header ZRINIT zeros else [])"
proof -
  let ?e = "eof_header eof (length (w @ d))"
  have s: "receiving path w s" "DataType s = dt" using R by (simp_all add: r_data_def)
  obtain s' where s': "rcv_loop env (p @ ?e) s = rcv_loop env ?e s'" "rcvlen s' = int (length ?e)" "same_session s s'"
    "zout s' = zout s" "zdisk s' = (zdisk s)(path \<mapsto> w @ d)" "\<not> eof \<longrightarrow> receiving path (w @ d) s'"
    "eof \<longrightarrow> idle s' \<and> zstate s' = RFile \<and> zfile s' = Ptr (path, length (w @ d)) \<and> offset s' = word_of_nat (length (w @ d))
       \<and> (\<exists>m. zbuffer s' = Some m \<and> 8192 \<le> length m)"
    by (rule receive_packet [OF s(1) _ d(1), of eof p env ?e]) (use p s(2) ok r in simp_all)
  show ?thesis
  proof (cases eof)
    case True
    then have "r_file D path (w @ d) s'"
      using s' R by (auto simp: r_file_def r_data_def same_session_def has_buffer_def)
    from r_zeof [OF this d(2), of env] show ?thesis
      using True s'(1,2,4) by (simp add: rcv_loop_ZmodemRcv r_after_def eof_header_def)
  next
    case False
    then have "r_data dt D path (w @ d) s'" using s' R by (auto simp: r_data_def same_session_def)
    then show ?thesis using False s'(1,2,4) by (simp add: eof_header_def rcv_loop.simps r_after_def)
  qed
qed

lemma r_packet:
  assumes R: "r_data dt D path w s" and p: "line_packet dt (if eof then ZCRCE else ZCRCG) (map u8_of d) p"
    and d: "length d \<le> 8192" "length (w @ d) < 2 ^ 31" and ok: "\<And>b. write_ok env path b"
  shows "\<exists>s'. ZmodemRcv env (p @ eof_header eof (length (w @ d))) s = Inr (0, s') \<and> r_after eof dt D path (w @ d) s'
    \<and> zout s' = zout s @ (if eof then hex_header ZRINIT zeros else [])"
  unfolding ZmodemRcv_def
  using r_packet_loop [of dt D path w "s\<lparr>rcvlen := int (length (p @ eof_header eof (length (w @ d))))\<rparr>" eof d p env] assms by simp

lemma r_zdata:
  assumes R: "r_file D path w s" and dt: "dt \<in> {ZBIN, ZBIN32}" and h: "line_header dt ZDATA (ZEnc4 (word_of_nat (length w))) q"
    and p: "line_packet dt (if eof then ZCRCE else ZCRCG) (map u8_of d) p"
    and d: "length d \<le> 8192" "length (w @ d) < 2 ^ 31" and ok: "\<And>b. write_ok env path b"
  shows "\<exists>s'. ZmodemRcv env (q @ p @ eof_header eof (length (w @ d))) s = Inr (0, s') \<and> r_after eof dt D path (w @ d) s'
    \<and> zout s' = zout s @ (if eof then hex_header ZRINIT zeros else [])"
proof -
  let ?n = "word_of_nat (length w) :: 64 word" and ?e = "p @ eof_header eof (length (w @ d))"
  have s: "idle s" using R by (simp add: r_file_def)
  have l: "length (ZEnc4 ?n) = 4" by (simp add: ZEnc4_def)
  obtain h c where hc: "take 5 h = ZDATA # ZEnc4 ?n"
    "ZmodemRcv env (q @ ?e) s = zthen (ZProtocol env) (rcv_loop env ?e) (header_in (int (length ?e)) dt h c s)"
    by (rule ZmodemRcv_binary [OF s dt l h])
  have t: "h ! 0 = ZDATA" using hdr_parts(1) [OF hc(1) l] .
  have "?n < 2 ^ 31" using d(2) by (simp add: word_less_nat_alt unat_of_nat)
  then have n: "ZDec4 (tl h) = ?n" by (rule hdr_number [OF hc(1)])
  let ?h = "header_in (int (length ?e)) dt h c s"
  let ?s1 = "?h\<lparr>timeoutCount := 0, noiseCount := 0, zstate := RData, InputState := Indata, chrCount := 0, crcCount := 0, zcrc := crc_start dt\<rparr>"
  have 1: "ZProtocol env ?h = Inr (0, ?s1)"
    using R t n by (simp add: ZProtocol_def protocol_table_def RFileOps_def header_in_def r_file_def GotData_def header_offset_def dataSetup_def crc_start_def)
  have "r_data dt D path w ?s1"
    using R dt by (auto simp: r_file_def r_data_def receiving_def awaiting_data_def idle_def header_in_def has_buffer_def)
  from r_packet_loop [OF this p d ok] show ?thesis using hc(2) 1 by (simp add: zthen_def header_in_def)
qed

text \<open>\<open>ZFIN\<close>, and two letters O, end the session.\<close>

lemma r_zfin:
  assumes R: "r_ready D s"
  shows "\<exists>s'. ZmodemRcv env (hex_header ZFIN zeros) s = Inr (0, s') \<and> (InputState s' = Finish \<and> chrCount s' = 0 \<and> canCount s' = 0
    \<and> zdisk s' = D \<and> zout s' = zout s @ hex_header ZFIN zeros)"
proof (rule ZmodemRcv_header [where dt = ZHEX])
  show "idle s" using R by (simp add: r_ready_def)
  fix r h c assume h: "take 5 h = ZFIN # zeros" "0 \<le> (r :: int)"
  have t: "h ! 0 = ZFIN" using hdr_parts(1) [OF h(1)] by (simp add: zeros_def)
  show "\<exists>s'. ZProtocol env (header_in r ZHEX h c s) = Inr (0, s') \<and> (rcvlen s' = 0 \<or> rcvlen s' = r) \<and> quiet s'
      \<and> (InputState s' = Finish \<and> chrCount s' = 0 \<and> canCount s' = 0 \<and> zdisk s' = D \<and> zout s' = zout s @ hex_header ZFIN zeros)"
    using R t by (simp add: ZProtocol_def protocol_table_def RStartOps_def header_in_def GotFin_def free_def ZXmitHdrHex_eq
        r_ready_def idle_def quiet_def)
qed (simp_all add: line_header_def zeros_def)

definition over_and_out :: "u8 list" where
  "over_and_out = map u8_of ''OO''"

lemma r_over_and_out:
  assumes "InputState s = Finish" "chrCount s = 0" "canCount s = 0" "zdisk s = D"
  shows "\<exists>s'. ZmodemRcv env over_and_out s = Inr (ZmDone, s') \<and> zdisk s' = D"
proof -
  have o: "over_and_out = [0x4f, 0x4f]" by (simp add: over_and_out_def u8_of_def)
  show ?thesis unfolding o
    using assms by (simp add: ZmodemRcv_def rcv_loop_Cons rcv_char_def FinishChar_def zthen_def)
qed

end
