(* ===== verification/Zm_Sender.thy ===== *)
theory Zm_Sender
  imports Zm_Receiver
begin

text \<open>
  The sending side of a transfer, one message at a time: what it sends after each answer of the receiving
  side.
\<close>

section \<open>What is common to all stages\<close>

definition s_base :: "string \<Rightarrow> bytes \<Rightarrow> ZModem \<Rightarrow> bool" where
  "s_base name c s \<longleftrightarrow> idle s \<and> Protocol s = ZMODEM \<and> windowsize s = 0 \<and> bufsize s = 0 \<and> attn s = None \<and> zsinitflags s = 0
     \<and> packetsize s = 1024 \<and> \<not> interrupt s \<and> \<not> waitflag s \<and> zdisk s name = Some c \<and> has_buffer 2048 s"

lemma s_base_update [simp]:
  "s_base name c (s\<lparr>rcvlen := r\<rparr>) = s_base name c s" "s_base name c (s\<lparr>zout := o1\<rparr>) = s_base name c s"
  "s_base name c (s\<lparr>atSign := a\<rparr>) = s_base name c s" "s_base name c (s\<lparr>zstate := z\<rparr>) = s_base name c s"
  by (simp_all add: s_base_def idle_def has_buffer_def)

lemma length_line_header: "line_header dt type data p \<Longrightarrow> dt \<noteq> ZHEX \<Longrightarrow> length data = 4 \<Longrightarrow> length p \<le> 21"
  using length_zcodes by (fastforce simp: line_header_def split: if_splits)

lemma length_line_packet: "line_packet dt et d p \<Longrightarrow> length p \<le> 2 * length d + 10"
proof -
  assume "line_packet dt et d p"
  then obtain b t where "p = b @ [ZDLE, et] @ t" "zcodes d b" "zcodes (end_crc dt et d) t" by (auto simp: line_packet_def)
  then show ?thesis using length_zcodes [of d b] length_zcodes [of "end_crc dt et d" t] length_end_crc [of dt et d] by simp
qed

lemma length_hex_header: "length data = 4 \<Longrightarrow> length (hex_header type data) \<le> 21"
  by (simp add: hex_header_eq length_putHex length_hex xon_def)

text \<open>A header in binary and a packet behind it.\<close>

lemma header_and_packet_sent:
  assumes "\<not> use_crc32 s" "zbuffer s = Some m" "2 * length d + 10 \<le> length m"
  obtains p q a m' where "zthen (ZXmitHdr type ZBIN data) (ZXmitData ZBIN et d) s
      = Inr (0, s\<lparr>atSign := a, zbuffer := Some m', zout := zout s @ p @ q\<rparr>)"
    "line_header ZBIN type data p" "line_packet ZBIN et d q" "length m' = length m"
proof -
  obtain p a where p: "ZXmitHdr type ZBIN data s = Inr (0, s\<lparr>atSign := a, zout := zout s @ p\<rparr>)" "line_header ZBIN type data p"
    using ZXmitHdr_sends [of ZBIN type data s] assms(1) by (auto simp: wire_format_def)
  let ?s = "s\<lparr>atSign := a, zout := zout s @ p\<rparr>"
  have m: "zbuffer ?s = Some m" using assms(2) by simp
  obtain q a' m' where q: "ZXmitData ZBIN et d ?s = Inr (0, ?s\<lparr>atSign := a', zbuffer := Some m', zout := zout ?s @ q\<rparr>)"
    "line_packet (if use_crc32 ?s then ZBIN32 else ZBIN) et d q" "length m' = length m"
    by (rule ZXmitData_sends [OF m assms(3)])
  have "zthen (ZXmitHdr type ZBIN data) (ZXmitData ZBIN et d) s = Inr (0, s\<lparr>atSign := a', zbuffer := Some m', zout := zout s @ p @ q\<rparr>)"
    using p(1) q(1) by (simp add: zthen_def)
  then show ?thesis using that p(2) q(2,3) assms(1) by simp
qed

section \<open>The beginning\<close>

lemma s_rinit:
  assumes S: "s_base name c s" "zstate s = TStart" "filename s = Null"
  obtains s' p q where "ZmodemRcv env (hex_header ZRINIT zeros) s = Inr (0, s')" "s_base name c s'" "zstate s' = TInit"
    "\<not> use_crc32 s'" "Streaming s' = Segmented" "filename s' = Null" "zout s' = zout s @ p @ q"
    "line_header ZBIN ZSINIT zeros p" "line_packet ZBIN ZCRCW [0] q"
proof -
  let ?Q = "\<lambda>s'. s_base name c s' \<and> zstate s' = TInit \<and> \<not> use_crc32 s' \<and> Streaming s' = Segmented \<and> filename s' = Null
    \<and> (\<exists>p q. zout s' = zout s @ p @ q \<and> line_header ZBIN ZSINIT zeros p \<and> line_packet ZBIN ZCRCW [0] q)"
  have "\<exists>s'. ZmodemRcv env (hex_header ZRINIT zeros) s = Inr (0, s') \<and> ?Q s'"
  proof (rule ZmodemRcv_header [where dt = ZHEX])
    show "idle s" using S(1) by (simp add: s_base_def)
    fix r h x assume h: "take 5 h = ZRINIT # zeros" "0 \<le> (r :: int)"
    have hs: "h ! 0 = ZRINIT" "h ! Suc 0 = 0" "h ! 2 = 0" "h ! 3 = 0" "h ! 4 = 0"
      using rep_data [of h ZRINIT 0 0 0 0] h by (simp_all add: zeros_def)
    let ?t = "header_in r ZHEX h x s\<lparr>timeoutCount := 0, noiseCount := 0, zstate := TStart, rcvlen := 0, bufsize := 0, zrinitflags := 0,
      use_crc32 := False, escCtrl := False, escHibit := False, Streaming := Segmented, zstate := TInit\<rparr>"
    obtain m where m: "zbuffer ?t = Some m" "2048 \<le> length m" using S(1) by (auto simp: s_base_def has_buffer_def header_in_def)
    have sz: "zsinitflags ?t = 0" "attn ?t = None" using S(1) by (simp_all add: s_base_def header_in_def)
    obtain p q a m' where pq: "zthen (ZXmitHdr ZSINIT ZBIN zeros) (ZXmitData ZBIN ZCRCW [0]) ?t
        = Inr (0, ?t\<lparr>atSign := a, zbuffer := Some m', zout := zout ?t @ p @ q\<rparr>)"
      "line_header ZBIN ZSINIT zeros p" "line_packet ZBIN ZCRCW [0] q" "length m' = length m"
      by (rule header_and_packet_sent [of ?t m "[0]"]) (use m in simp_all)
    let ?u = "?t\<lparr>atSign := a, zbuffer := Some m', zout := zout s @ p @ q\<rparr>"
    have "ZProtocol env (header_in r ZHEX h x s) = Inr (0, ?u)"
      using S hs pq(1) sz by (simp add: ZProtocol_def protocol_table_def TStartOps_def GotRinit_def SendZSInit_def byte_of_int_def
          header_in_def zeros_def Let_def)
    moreover have "?Q ?u" using S(1,3) m(2) pq(2-4) by (auto simp: s_base_def idle_def has_buffer_def header_in_def)
    moreover have "quiet ?u" "rcvlen ?u = 0" using S(1) by (simp_all add: quiet_def s_base_def idle_def header_in_def)
    ultimately show "\<exists>s'. ZProtocol env (header_in r ZHEX h x s) = Inr (0, s') \<and> (rcvlen s' = 0 \<or> rcvlen s' = r) \<and> quiet s' \<and> ?Q s'"
      by blast
  qed (simp_all add: line_header_def zeros_def)
  then show ?thesis using that by blast
qed

lemma s_ack:
  assumes S: "s_base name c s" "zstate s = TInit" "\<not> use_crc32 s" "Streaming s = Segmented" "filename s = Null"
  obtains s' where "ZmodemRcv env (hex_header ZACK (ZEnc4 1)) s = Inr (ZmDone, s')" "s_base name c s'" "\<not> use_crc32 s'"
    "Streaming s' = Segmented" "filename s' = Null" "zout s' = zout s"
proof -
  let ?Q = "\<lambda>s'. s_base name c s' \<and> \<not> use_crc32 s' \<and> Streaming s' = Segmented \<and> filename s' = Null \<and> zout s' = zout s"
  have "\<exists>s'. ZmodemRcv env (hex_header ZACK (ZEnc4 1)) s = Inr (ZmDone, s') \<and> ?Q s'"
  proof (rule ZmodemRcv_header [where dt = ZHEX])
    show "idle s" using S(1) by (simp add: s_base_def)
    fix r h x assume h: "take 5 h = ZACK # ZEnc4 1" "0 \<le> (r :: int)"
    have "h ! 0 = ZACK" using hdr_parts(1) [OF h(1)] by (simp add: ZEnc4_def)
    then show "\<exists>s'. ZProtocol env (header_in r ZHEX h x s) = Inr (ZmDone, s') \<and> (rcvlen s' = 0 \<or> rcvlen s' = r) \<and> quiet s' \<and> ?Q s'"
      using S by (simp add: ZProtocol_def protocol_table_def TInitOps_def RetDone_def zreturn_def header_in_def s_base_def idle_def quiet_def
          has_buffer_def)
  qed (simp_all add: line_header_def ZEnc4_def)
  then show ?thesis using that by blast
qed

section \<open>The announcement of the file\<close>

lemma length_show_oct_le: "n < 8 ^ k \<Longrightarrow> 0 < k \<Longrightarrow> length (show_oct n) \<le> k"
proof (induction n arbitrary: k rule: show_oct.induct)
  case (1 n)
  show ?case
  proof (cases "n < 8")
    case False
    with "1.prems" obtain j where k: "k = Suc j" "0 < j" by (cases k; cases "k - 1") auto
    then have "n div 8 < 8 ^ j" using "1.prems" by (simp add: less_mult_imp_div_less mult.commute)
    with "1.IH" [OF False this k(2)] False k show ?thesis by (subst show_oct.simps) simp
  qed (use "1.prems" in \<open>simp add: show_oct.simps\<close>)
qed

lemma show_oct_not_NUL: "NUL \<notin> set (show_oct n)"
proof (induction n rule: show_oct.induct)
  case (1 n)
  have "char_of (48 + n mod 8) \<noteq> NUL"
  proof
    assume "char_of (48 + n mod 8) = NUL"
    then have "of_char (char_of (48 + n mod 8)) = (0 :: nat)" by (simp add: NUL_def)
    then show False by simp
  qed
  then show ?case using 1 by (subst show_oct.simps) auto
qed

lemma show_int_not_NUL: "NUL \<notin> set (show_int n)"
  using isdigit_show_nat [of NUL] by (auto simp: show_int_def NUL_def isdigit_def)

definition file_numbers :: "ZModem \<Rightarrow> string" where
  "file_numbers s = show_int (zlen s) @ '' '' @ show_oct (unat (zdate s)) @ '' '' @ show_oct (nat (zmode s mod 2 ^ 32)) @ '' 0 ''
     @ show_int (filesRem s) @ '' '' @ show_int (bytesRem s) @ '' 0''"

lemma file_info_eq: "file_info name s = map u8_of name @ 0 # map u8_of (file_numbers s) @ [0]"
  by (simp add: file_info_def file_numbers_def)

lemma file_numbers_ok:
  assumes "filesRem s = 0" "bytesRem s = 0" "zlen s = to_int n"
  shows "NUL \<notin> set (file_numbers s)" "length (file_numbers s) \<le> 60"
proof -
  show "NUL \<notin> set (file_numbers s)"
    using show_oct_not_NUL show_int_not_NUL by (auto simp: file_numbers_def NUL_def)
  have "- (2 ^ 31) \<le> to_int n" "to_int n < 2 ^ 31"
    using sint_ge [of "word_of_int n :: 32 word"] sint_lt [of "word_of_int n :: 32 word"] by (simp_all add: to_int_def)
  then have "nat (to_int n) < 10 ^ 10" "nat (- to_int n) < 10 ^ 10" by simp_all
  then have 1: "length (show_int (zlen s)) \<le> 11"
    using length_show_nat_le [of "nat (to_int n)" 10] length_show_nat_le [of "nat (- to_int n)" 10] assms(3) by (simp add: show_int_def)
  have "unat (zdate s) < 8 ^ 22" using unsigned_less [of "zdate s"] by (rule less_le_trans) simp
  then have 2: "length (show_oct (unat (zdate s))) \<le> 22" by (rule length_show_oct_le) simp
  have "nat (zmode s mod 2 ^ 32) < 8 ^ 11" by (simp add: nat_less_iff)
  then have 3: "length (show_oct (nat (zmode s mod 2 ^ 32))) \<le> 11" by (rule length_show_oct_le) simp
  have 4: "length (show_int 0) = 1" by (simp add: show_int_def show_nat.simps)
  show "length (file_numbers s) \<le> 60" using 1 2 3 4 assms(1,2) by (simp add: file_numbers_def)
qed

definition s_open :: "string \<Rightarrow> bytes \<Rightarrow> ZModem \<Rightarrow> bool" where
  "s_open name c s \<longleftrightarrow> s_base name c s \<and> \<not> use_crc32 s \<and> Streaming s = Segmented \<and> filename s = Ptr name \<and> (\<exists>pos. zfile s = Ptr (name, pos))"

lemma s_file:
  assumes S: "s_base name c s" "\<not> use_crc32 s" "Streaming s = Segmented" and n: "length name \<le> 260"
  obtains s' t p q where "ZmodemTFile env name name 1 0 0 0 0 0 s = Inr (0, s')" "s_open name c s'" "zstate s' = FileWait"
    "zout s' = zout s @ p @ q" "line_header ZBIN ZFILE [0, 0, 0, 1] p" "line_packet ZBIN ZCRCW (map u8_of name @ 0 # map u8_of t @ [0]) q"
    "NUL \<notin> set t" "length t \<le> 60"
proof -
  define t where "t = s\<lparr>zfile := Ptr (name, 0), fileEof := False, filename := Ptr name, rfilename := Some name,
                      filesRem := 0, bytesRem := 0, fileFlags := [0, 0, 0, 1], offset := 0, lastOffset := 0,
                      zlen := to_int (int (length c)), zdate := mtime env name, fileType := 0,
                      zmode := int (st_mode env name mod 512 + 32768), zstate := FileWait\<rparr>"
  have fields: "rfilename t = Some name" "fileFlags t = [0, 0, 0, 1]" "t\<lparr>zstate := FileWait\<rparr> = t" "zout t = zout s" "\<not> use_crc32 t"
    using S(2) by (simp_all add: t_def)
  have f: "NUL \<notin> set (file_numbers t)" "length (file_numbers t) \<le> 60" by (rule file_numbers_ok; simp add: t_def)+
  obtain m where m: "zbuffer t = Some m" "2048 \<le> length m" using S(1) by (auto simp: s_base_def has_buffer_def t_def)
  have len: "length (file_info name t) \<le> 322" using f(2) n by (simp add: file_info_eq)
  obtain p q a m' where pq: "zthen (ZXmitHdr ZFILE ZBIN [0, 0, 0, 1]) (ZXmitData ZBIN ZCRCW (file_info name t)) t
      = Inr (0, t\<lparr>atSign := a, zbuffer := Some m', zout := zout t @ p @ q\<rparr>)"
    "line_header ZBIN ZFILE [0, 0, 0, 1] p" "line_packet ZBIN ZCRCW (file_info name t) q" "length m' = length m"
    by (rule header_and_packet_sent [OF fields(5) m(1), of "file_info name t"]) (use m len in simp_all)
  let ?u = "t\<lparr>atSign := a, zbuffer := Some m', zout := zout t @ p @ q\<rparr>"
  obtain p1 a1 where h: "ZXmitHdr ZFILE ZBIN [0, 0, 0, 1] t = Inr (0, t\<lparr>atSign := a1, zout := zout t @ p1\<rparr>)"
    by (rule ZXmitHdr_sends [where format = ZBIN]) simp
  have same: "file_info name (t\<lparr>atSign := a1, zout := x\<rparr>) = file_info name t" for x by (simp add: file_info_def)
  have "sendFilename t = Inr (0, ?u)"
    using pq(1) len unfolding sendFilename_def fields(2,3) by (simp add: zthen_def h same fields(1))
  then have "ZmodemTFile env name name 1 0 0 0 0 0 s = Inr (0, ?u)"
    using S(1) by (simp add: ZmodemTFile_def s_base_def Let_def t_def)
  moreover have "s_open name c ?u" using S m(2) pq(4) by (simp add: s_open_def s_base_def idle_def has_buffer_def t_def)
  moreover have "line_packet ZBIN ZCRCW (map u8_of name @ 0 # map u8_of (file_numbers t) @ [0]) q"
    using pq(3) unfolding file_info_eq .
  moreover have "zstate ?u = FileWait" "zout ?u = zout s @ p @ q" by (simp_all add: t_def)
  ultimately show ?thesis using that [of ?u p q "file_numbers t"] pq(2) f by blast
qed

section \<open>The data\<close>

text \<open>After a packet: more packets to come, or everything sent and waiting for the answer.\<close>

definition s_after :: "bool \<Rightarrow> string \<Rightarrow> bytes \<Rightarrow> nat \<Rightarrow> ZModem \<Rightarrow> bool" where
  "s_after eof name c pos s \<longleftrightarrow> s_open name c s \<and> (if eof then zstate s = SendEof else zstate s = Sending \<and> sending name c pos s)"

lemma s_after_rcvlen [simp]: "s_after eof name c pos (s\<lparr>rcvlen := r\<rparr>) = s_after eof name c pos s"
  by (simp add: s_after_def s_open_def sending_def)

lemma s_open_sending: "s_open name c s \<Longrightarrow> zfile s = Ptr (name, pos) \<Longrightarrow> offset s = word_of_nat pos \<Longrightarrow> sending name c pos s"
  by (auto simp: s_open_def s_base_def sending_def has_buffer_def)

lemma s_packet:
  assumes S: "s_open name c s" "zfile s = Ptr (name, pos)" "offset s = word_of_nat pos"
  obtains d eof p s' where "SendMoreFileData s = Inr (0, s')" "s_after eof name c (pos + length d) s'"
    "zout s' = zout s @ p @ eof_header eof (pos + length d)" "line_packet ZBIN (if eof then ZCRCE else ZCRCG) (map u8_of d) p"
    "d = take (length d) (drop pos c)" "eof \<longrightarrow> d = drop pos c" "\<not> eof \<longrightarrow> d \<noteq> []" "length d \<le> 1024" "rcvlen s' = rcvlen s"
proof -
  have P: "packetsize s = 1024" "data_format s = ZBIN" using S(1) by (simp_all add: s_open_def s_base_def data_format_def)
  obtain d eof p m a where d: "d = take (length d) (drop pos c)" "eof \<longrightarrow> d = drop pos c" "\<not> eof \<longrightarrow> d \<noteq> []" "int (length d) \<le> packetsize s"
    "line_packet (data_format s) (if eof then ZCRCE else ZCRCG) (map u8_of d) p" "map_option length (zbuffer s) = Some (length m)"
    "SendMoreFileData s = Inr (0, packet_sent name (pos + length d) eof
       (p @ (if eof then hex_header ZEOF (ZEnc4 (word_of_nat (pos + length d))) else [])) m a s)"
    by (rule SendMoreFileData_sends [OF s_open_sending [OF S]])
  let ?e = "eof_header eof (pos + length d)"
  let ?s = "packet_sent name (pos + length d) eof (p @ ?e) m a s"
  have run: "SendMoreFileData s = Inr (0, ?s)" using d(7) by (simp add: eof_header_def)
  have m: "2048 \<le> length m" using d(6) S(1) by (auto simp: s_open_def s_base_def has_buffer_def)
  have open1: "s_open name c ?s" using S(1) m by (simp add: s_open_def s_base_def idle_def has_buffer_def packet_sent_def)
  have "sending name c (pos + length d) ?s" by (rule s_open_sending [OF open1]) (simp_all add: packet_sent_def)
  then have "s_after eof name c (pos + length d) ?s"
    using open1 by (cases eof) (simp_all add: s_after_def packet_sent_def)
  with run show ?thesis
    by (rule that [of ?s eof d p]) (use d(1-5) P in \<open>simp_all add: packet_sent_def\<close>)
qed

lemma s_rpos:
  assumes S: "s_open name c s" "zstate s = FileWait"
  obtains d eof p q s' where "ZmodemRcv env (hex_header ZRPOS (ZEnc4 0)) s = Inr (0, s')" "s_after eof name c (length d) s'"
    "zout s' = zout s @ q @ p @ eof_header eof (length d)" "line_header ZBIN ZDATA (ZEnc4 0) q"
    "line_packet ZBIN (if eof then ZCRCE else ZCRCG) (map u8_of d) p"
    "d = take (length d) c" "eof \<longrightarrow> d = c" "\<not> eof \<longrightarrow> d \<noteq> []" "length d \<le> 1024"
proof -
  let ?Q = "\<lambda>s'. \<exists>d eof p q. s_after eof name c (length d) s' \<and> zout s' = zout s @ q @ p @ eof_header eof (length d)
    \<and> line_header ZBIN ZDATA (ZEnc4 0) q \<and> line_packet ZBIN (if eof then ZCRCE else ZCRCG) (map u8_of d) p
    \<and> d = take (length d) c \<and> (eof \<longrightarrow> d = c) \<and> (\<not> eof \<longrightarrow> d \<noteq> []) \<and> length d \<le> 1024"
  have "\<exists>s'. ZmodemRcv env (hex_header ZRPOS (ZEnc4 0)) s = Inr (0, s') \<and> ?Q s'"
  proof (rule ZmodemRcv_header [where dt = ZHEX])
    show "idle s" using S(1) by (simp add: s_open_def s_base_def)
    fix r h x assume h: "take 5 h = ZRPOS # ZEnc4 0" "0 \<le> (r :: int)"
    have l: "length (ZEnc4 0) = 4" by (simp add: ZEnc4_def)
    have hs: "h ! 0 = ZRPOS" "take 4 (tl h) = ZEnc4 0" using hdr_parts(1,2) [OF h(1) l] by blast+
    have n: "ZDec4 (tl h) = 0" by (rule hdr_number [OF h(1)]) simp
    obtain pos where pos: "zfile s = Ptr (name, pos)" using S(1) by (auto simp: s_open_def)
    let ?t = "header_in r ZHEX h x s\<lparr>timeoutCount := 0, noiseCount := 0, zstate := Sending, rcvlen := 0, waitflag := False,
      offset := 0, lastOffset := 0, zrposOffset := 0, zfile := Ptr (name, 0)\<rparr>"
    have c: "\<not> use_crc32 ?t" using S(1) by (simp add: s_open_def header_in_def)
    obtain q a where q: "ZXmitHdr ZDATA ZBIN (ZEnc4 0) ?t = Inr (0, ?t\<lparr>atSign := a, zout := zout ?t @ q\<rparr>)"
      "line_header (wire_format ZBIN ?t) ZDATA (ZEnc4 0) q"
      by (rule ZXmitHdr_sends [where format = ZBIN]) simp
    let ?u = "?t\<lparr>atSign := a, zout := zout ?t @ q\<rparr>"
    have u: "s_open name c ?u" "zfile ?u = Ptr (name, 0)" "offset ?u = word_of_nat 0"
      using S(1) by (simp_all add: s_open_def s_base_def idle_def has_buffer_def header_in_def)
    obtain d eof p s' where d: "SendMoreFileData ?u = Inr (0, s')" "s_after eof name c (0 + length d) s'"
      "zout s' = zout ?u @ p @ eof_header eof (0 + length d)" "line_packet ZBIN (if eof then ZCRCE else ZCRCG) (map u8_of d) p"
      "d = take (length d) (drop 0 c)" "eof \<longrightarrow> d = drop 0 c" "\<not> eof \<longrightarrow> d \<noteq> []" "length d \<le> 1024" "rcvlen s' = rcvlen ?u"
      by (rule s_packet [OF u])
    have "ZProtocol env (header_in r ZHEX h x s) = zthen (ZXmitHdr ZDATA ZBIN (ZEnc4 0)) SendMoreFileData ?t"
      using S(2) hs n pos by (simp add: ZProtocol_def protocol_table_def FileWaitOps_def ZSendFileData_def startFileData_def header_offset_def
          seek_file_def header_in_def Let_def)
    also have "\<dots> = Inr (0, s')" using q(1) d(1) by (simp add: zthen_def)
    finally have run: "ZProtocol env (header_in r ZHEX h x s) = Inr (0, s')" .
    have q2: "line_header ZBIN ZDATA (ZEnc4 0) q" using q(2) c by (simp add: wire_format_def)
    have z: "zout s' = zout s @ q @ p @ eof_header eof (length d)" using d(3) by (simp add: header_in_def)
    have "?Q s'" using d(2,4-8) z q2 by (intro exI [of _ d] exI [of _ eof] exI [of _ p] exI [of _ q]) simp
    moreover have "quiet s'" "rcvlen s' = 0"
      using d(2,9) by (simp_all add: s_after_def s_open_def s_base_def quiet_def idle_def)
    ultimately show "\<exists>s'. ZProtocol env (header_in r ZHEX h x s) = Inr (0, s') \<and> (rcvlen s' = 0 \<or> rcvlen s' = r) \<and> quiet s' \<and> ?Q s'"
      using run by blast
  qed (simp_all add: line_header_def ZEnc4_def)
  then show ?thesis using that by blast
qed

lemma s_more:
  assumes S: "s_after False name c pos s"
  obtains d eof p s' where "ZmodemTimeout env s = Inr (0, s')" "s_after eof name c (pos + length d) s'"
    "zout s' = zout s @ p @ eof_header eof (pos + length d)" "line_packet ZBIN (if eof then ZCRCE else ZCRCG) (map u8_of d) p"
    "d = take (length d) (drop pos c)" "eof \<longrightarrow> d = drop pos c" "\<not> eof \<longrightarrow> d \<noteq> []" "length d \<le> 1024"
proof -
  let ?t = "s\<lparr>timeoutCount := timeoutCount s + 1\<rparr>"
  have t: "s_open name c ?t" "zfile ?t = Ptr (name, pos)" "offset ?t = word_of_nat pos"
    using S by (simp_all add: s_after_def s_open_def s_base_def idle_def has_buffer_def sending_def)
  have run: "ZmodemTimeout env s = SendMoreFileData ?t" using S by (simp add: ZmodemTimeout_def s_after_def)
  from s_packet [OF t] show ?thesis using that run by simp metis
qed

section \<open>The end\<close>

definition s_closed :: "ZModem \<Rightarrow> bool" where
  "s_closed s \<longleftrightarrow> idle s \<and> Protocol s = ZMODEM \<and> (\<exists>n. filename s = Ptr n)"

lemma s_done:
  assumes S: "s_after True name c pos s"
  obtains s' where "ZmodemRcv env (hex_header ZRINIT zeros) s = Inr (ZmDone, s')" "s_closed s'" "zout s' = zout s"
proof -
  let ?Q = "\<lambda>s'. s_closed s' \<and> zout s' = zout s"
  have "\<exists>s'. ZmodemRcv env (hex_header ZRINIT zeros) s = Inr (ZmDone, s') \<and> ?Q s'"
  proof (rule ZmodemRcv_header [where dt = ZHEX])
    show "idle s" using S by (simp add: s_after_def s_open_def s_base_def)
    fix r h x assume h: "take 5 h = ZRINIT # zeros" "0 \<le> (r :: int)"
    have t: "h ! 0 = ZRINIT" using hdr_parts(1) [OF h(1)] by (simp add: zeros_def)
    obtain p where p: "zfile s = Ptr (name, p)" using S by (auto simp: s_after_def s_open_def)
    show "\<exists>s'. ZProtocol env (header_in r ZHEX h x s) = Inr (ZmDone, s') \<and> (rcvlen s' = 0 \<or> rcvlen s' = r) \<and> quiet s' \<and> ?Q s'"
      using S t p by (simp add: ZProtocol_def protocol_table_def SendEofOps_def SkipFile_def zseq_def zreturn_def ZCloseFile_def header_in_def
          s_after_def s_open_def s_base_def s_closed_def idle_def quiet_def)
  qed (simp_all add: line_header_def zeros_def s_closed_def)
  then show ?thesis using that by blast
qed

lemma s_finish:
  assumes S: "s_closed s"
  obtains s' where "ZmodemTFinish s = Inr (0, s')" "idle s'" "zstate s' = TFinish" "zout s' = zout s @ hex_header ZFIN zeros"
proof -
  obtain n where n: "filename s = Ptr n" using S by (auto simp: s_closed_def)
  have "ZmodemTFinish s = Inr (0, s\<lparr>zstate := TFinish, filename := Null, rfilename := None, zbuffer := None, zout := zout s @ hex_header ZFIN zeros\<rparr>)"
    using S n by (simp add: ZmodemTFinish_def s_closed_def free_def ZXmitHdr_def ZXmitHdrHex_eq)
  then show ?thesis by (rule that) (use S in \<open>simp_all add: s_closed_def idle_def\<close>)
qed

lemma s_zfin:
  assumes S: "idle s" "zstate s = TFinish"
  obtains s' where "ZmodemRcv env (hex_header ZFIN zeros) s = Inr (ZmDone, s')" "zout s' = zout s @ over_and_out"
proof -
  have "\<exists>s'. ZmodemRcv env (hex_header ZFIN zeros) s = Inr (ZmDone, s') \<and> zout s' = zout s @ over_and_out"
  proof (rule ZmodemRcv_header [where dt = ZHEX, OF S(1)])
    fix r h x assume h: "take 5 h = ZFIN # zeros" "0 \<le> (r :: int)"
    have t: "h ! 0 = ZFIN" using hdr_parts(1) [OF h(1)] by (simp add: zeros_def)
    show "\<exists>s'. ZProtocol env (header_in r ZHEX h x s) = Inr (ZmDone, s') \<and> (rcvlen s' = 0 \<or> rcvlen s' = r) \<and> quiet s'
        \<and> zout s' = zout s @ over_and_out"
      using S t by (simp add: ZProtocol_def protocol_table_def TFinishOps_def OverAndOut_def zseq_def zreturn_def ZXmitStr_def header_in_def
          over_and_out_def idle_def quiet_def)
  qed (simp_all add: line_header_def zeros_def)
  then show ?thesis using that by blast
qed

end
