(* ===== verification/Zm_Session.thy ===== *)
theory Zm_Session
  imports Zm_Transfer
begin

text \<open>
  Two programs connected by a line. A program that has read some events has written some bytes;
  \<open>conversation\<close> says which events two programs can have, each hearing what the other has written and
  nothing else, in pieces of at most the size of the input buffer, and waiting in vain only when it has
  heard everything. \<open>talk\<close> is a conversation in which both programs wait for input, with what each of
  them has still to hear.
\<close>

section \<open>Conversations\<close>

type_synonym driver = "event list \<Rightarrow> cpp_error + (bool \<times> ZModem) \<times> event list"

definition wrote :: "driver \<Rightarrow> event list \<Rightarrow> u8 list" where
  "wrote D es = (case D es of Inl _ \<Rightarrow> [] | Inr ((_, s), _) \<Rightarrow> zout s)"

definition heard :: "event list \<Rightarrow> u8 list" where
  "heard es = concat (map (\<lambda>e. case e of Chars b \<Rightarrow> b | Silence \<Rightarrow> []) es)"

lemma heard_simps [simp]:
  "heard [] = []" "heard (es @ fs) = heard es @ heard fs" "heard [Silence] = []" "heard [Chars b] = b"
  by (simp_all add: heard_def)

inductive conversation :: "driver \<Rightarrow> driver \<Rightarrow> event list \<Rightarrow> event list \<Rightarrow> bool" for A B where
  begins: "conversation A B [] []"
| a_hears: "conversation A B ea eb \<Longrightarrow> wrote B eb = heard ea @ b @ later \<Longrightarrow> b \<noteq> [] \<Longrightarrow> length b \<le> 8132
    \<Longrightarrow> conversation A B (ea @ [Chars b]) eb"
| a_waits: "conversation A B ea eb \<Longrightarrow> wrote B eb = heard ea \<Longrightarrow> conversation A B (ea @ [Silence]) eb"
| b_hears: "conversation A B ea eb \<Longrightarrow> wrote A ea = heard eb @ b @ later \<Longrightarrow> b \<noteq> [] \<Longrightarrow> length b \<le> 8132
    \<Longrightarrow> conversation A B ea (eb @ [Chars b])"
| b_waits: "conversation A B ea eb \<Longrightarrow> wrote A ea = heard eb \<Longrightarrow> conversation A B ea (eb @ [Silence])"

lemma conversation_sym: "conversation A B ea eb \<Longrightarrow> conversation B A eb ea"
  by (induction rule: conversation.induct) (auto intro: conversation.intros)

section \<open>Programs that wait\<close>

definition waits :: "zenv \<Rightarrow> driver \<Rightarrow> event list \<Rightarrow> ZModem \<Rightarrow> ((int \<times> ZModem) \<times> event list \<Rightarrow> cpp_error + (bool \<times> ZModem) \<times> event list) \<Rightarrow> bool" where
  "waits env D es s k \<longleftrightarrow> (\<forall>es'. D (es @ es') = bind_res (doIO env es' s) k) \<and> (\<forall>s. k ((ZmErrCancel, s), []) = Inr ((False, s), []))"

lemma wrote_waits: "waits env D es s k \<Longrightarrow> wrote D es = zout s"
proof -
  assume w: "waits env D es s k"
  then have "D (es @ []) = Inr ((False, s), [])" unfolding waits_def by (auto simp only: doIO.simps bind_res_simps)
  then show ?thesis by (simp add: wrote_def)
qed

lemma waits_event:
  "waits env D es s k \<Longrightarrow> on_event env e s = Inr (0, s') \<Longrightarrow> waits env D (es @ [e]) s' k"
  by (simp add: waits_def)

lemma waits_next:
  assumes "waits env D es s k" "on_event env e s = Inr (n, s')" "n \<noteq> 0"
    "\<And>es'. k ((n, s'), es') = bind_res (doIO env es' s'') k'" "\<And>s. k' ((ZmErrCancel, s), []) = Inr ((False, s), [])"
  shows "waits env D (es @ [e]) s'' k'"
  using assms by (simp add: waits_def)

lemma waits_ends:
  "waits env D es s k \<Longrightarrow> on_event env e s = Inr (n, s') \<Longrightarrow> n \<noteq> 0 \<Longrightarrow> D (es @ [e]) = k ((n, s'), [])"
  unfolding waits_def by (simp only: doIO.simps bind_res_simps) simp

definition talk ::
  "zenv \<Rightarrow> driver \<Rightarrow> ZModem \<Rightarrow> ((int \<times> ZModem) \<times> event list \<Rightarrow> cpp_error + (bool \<times> ZModem) \<times> event list) \<Rightarrow>
   zenv \<Rightarrow> driver \<Rightarrow> ZModem \<Rightarrow> ((int \<times> ZModem) \<times> event list \<Rightarrow> cpp_error + (bool \<times> ZModem) \<times> event list) \<Rightarrow>
   u8 list \<Rightarrow> u8 list \<Rightarrow> bool" where
  "talk ea A S K eb B R L qa qb \<longleftrightarrow> (\<exists>xa xb. conversation A B xa xb \<and> waits ea A xa S K \<and> waits eb B xb R L
     \<and> zout R = heard xa @ qa \<and> zout S = heard xb @ qb)"

lemma talk_sym: "talk ea A S K eb B R L qa qb \<Longrightarrow> talk eb B R L ea A S K qb qa"
  unfolding talk_def using conversation_sym by blast

lemma talk_begins:
  assumes "waits ea A [] S K" "waits eb B [] R L"
  shows "talk ea A S K eb B R L (zout R) (zout S)"
  unfolding talk_def using assms conversation.begins by (intro exI [of _ "[]"]) simp

text \<open>The event of a program that hears everything the other one has written, if there is something.\<close>

definition whole :: "u8 list \<Rightarrow> event" where
  "whole q = (if q = [] then Silence else Chars q)"

lemma conversation_whole:
  assumes "conversation A B xa xb" "wrote B xb = heard xa @ qa" "length qa \<le> 8132"
  shows "conversation A B (xa @ [whole qa]) xb \<and> heard (xa @ [whole qa]) = heard xa @ qa"
  using assms conversation.a_hears [of A B xa xb qa "[]"] conversation.a_waits [of A B xa xb]
  by (auto simp: whole_def)

lemma talk_event:
  assumes t: "talk ea A S K eb B R L qa qb" and e: "on_event ea (whole qa) S = Inr (0, S')" and p: "zout S' = zout S @ p"
    and n: "length qa \<le> 8132"
  shows "talk ea A S' K eb B R L [] (qb @ p)"
proof -
  obtain xa xb where x: "conversation A B xa xb" "waits ea A xa S K" "waits eb B xb R L" "zout R = heard xa @ qa" "zout S = heard xb @ qb"
    using t by (auto simp: talk_def)
  have "conversation A B (xa @ [whole qa]) xb" "heard (xa @ [whole qa]) = heard xa @ qa"
    using conversation_whole [OF x(1), of qa] wrote_waits [OF x(3)] x(4) n by simp_all
  then show ?thesis unfolding talk_def using waits_event [OF x(2) e] x p by (intro exI [of _ "xa @ [whole qa]"] exI [of _ xb]) simp
qed

lemma talk_next:
  assumes t: "talk ea A S K eb B R L qa qb" and e: "on_event ea (whole qa) S = Inr (k, S')" "k \<noteq> 0"
    and nxt: "\<And>es'. K ((k, S'), es') = bind_res (doIO ea es' S'') K'" "\<And>s. K' ((ZmErrCancel, s), []) = Inr ((False, s), [])"
    and p: "zout S'' = zout S @ p" and n: "length qa \<le> 8132"
  shows "talk ea A S'' K' eb B R L [] (qb @ p)"
proof -
  obtain xa xb where x: "conversation A B xa xb" "waits ea A xa S K" "waits eb B xb R L" "zout R = heard xa @ qa" "zout S = heard xb @ qb"
    using t by (auto simp: talk_def)
  have "conversation A B (xa @ [whole qa]) xb" "heard (xa @ [whole qa]) = heard xa @ qa"
    using conversation_whole [OF x(1), of qa] wrote_waits [OF x(3)] x(4) n by simp_all
  then show ?thesis
    unfolding talk_def using waits_next [OF x(2) e nxt] x p by (intro exI [of _ "xa @ [whole qa]"] exI [of _ xb]) simp
qed

lemma talk_ends:
  assumes t: "talk ea A S K eb B R L qa []" and n: "length qa \<le> 8132" "length p \<le> 8132"
    and e: "on_event ea (whole qa) S = Inr (k, S')" "k \<noteq> 0" "K ((k, S'), []) = Inr ((True, S''), [])" "zout S'' = zout S @ p"
    and f: "on_event eb (whole p) R = Inr (l, R')" "l \<noteq> 0" "L ((l, R'), []) = Inr ((True, R''), [])"
  shows "\<exists>xa xb. conversation A B xa xb \<and> A xa = Inr ((True, S''), []) \<and> B xb = Inr ((True, R''), [])"
proof -
  obtain xa xb where x: "conversation A B xa xb" "waits ea A xa S K" "waits eb B xb R L" "zout R = heard xa @ qa" "zout S = heard xb"
    using t by (auto simp: talk_def)
  have c: "conversation A B (xa @ [whole qa]) xb"
    using conversation_whole [OF x(1), of qa] wrote_waits [OF x(3)] x(4) n by simp_all
  have a: "A (xa @ [whole qa]) = Inr ((True, S''), [])" using waits_ends [OF x(2) e(1,2)] e(3) by simp
  then have "wrote A (xa @ [whole qa]) = heard xb @ p" using e(4) x(5) by (simp add: wrote_def)
  from conversation_whole [OF conversation_sym [OF c] this n(2)]
  have "conversation A B (xa @ [whole qa]) (xb @ [whole p])" by (blast intro: conversation_sym)
  moreover have "B (xb @ [whole p]) = Inr ((True, R''), [])" using waits_ends [OF x(3) f(1,2)] f(3) by simp
  ultimately show ?thesis using a by blast
qed

end
