(* ===== verification/Zm_File_Transfer.thy ===== *)
theory Zm_File_Transfer
  imports Zm_Sender Zm_Session
begin

text \<open>
  A whole file transfer: the sending and the receiving program of WWIV, connected by a line that loses
  nothing, put the file of one disk on the other one.
\<close>

section \<open>What the programs do when a wait is over\<close>

type_synonym waiting = "(int \<times> ZModem) \<times> event list \<Rightarrow> cpp_error + (bool \<times> ZModem) \<times> event list"

definition after_init :: "zenv \<Rightarrow> string \<Rightarrow> waiting" where
  "after_init env name = (\<lambda>((done, s), es). if done \<noteq> ZmDone then Inr ((False, s), es) else send_file env name es s)"

definition after_file :: "zenv \<Rightarrow> waiting" where
  "after_file env = (\<lambda>((done, s), es). if done \<noteq> ZmDone then Inr ((False, s), es) else finish_sending env es s)"

definition after_finish :: waiting where
  "after_finish = (\<lambda>((done, s), es). Inr ((done = ZmDone, s), es))"

definition after_receive :: "zenv \<Rightarrow> string \<Rightarrow> waiting" where
  "after_receive env file_name = (\<lambda>((done, s), es). if done \<noteq> ZmDone then Inr ((False, s), es)
     else map_sum id (\<lambda>fs. ((True, s\<lparr>zdisk := fs\<rparr>), es)) (put_in_place env file_name (zdisk s)))"

lemma after_hangup:
  "after_init env name ((ZmErrCancel, s), []) = Inr ((False, s), [])"
  "after_file env ((ZmErrCancel, s), []) = Inr ((False, s), [])"
  "after_finish ((ZmErrCancel, s), []) = Inr ((False, s), [])"
  "after_receive env name ((ZmErrCancel, s), []) = Inr ((False, s), [])"
  by (simp_all add: after_init_def after_file_def after_finish_def after_receive_def)

lemma whole_hears: "p \<noteq> [] \<Longrightarrow> on_event env (whole p) s = ZmodemRcv env p s"
  by (simp add: on_event_def whole_def)

lemma whole_silence: "on_event env (whole []) s = ZmodemTimeout env s"
  by (simp add: on_event_def whole_def)

lemma hex_header_nonempty [simp]: "hex_header type data \<noteq> []"
  by (simp add: hex_header_eq)

lemma line_nonempty: "line_packet dt et d p \<Longrightarrow> p \<noteq> []" "line_header dt type data q \<Longrightarrow> q \<noteq> []"
  by (auto simp: line_packet_def line_header_def split: if_splits)

lemma length_eof_header: "length (eof_header eof n) \<le> 21"
  using length_hex_header [of "ZEnc4 (word_of_nat n)" ZEOF] by (simp add: eof_header_def ZEnc4_def)

text \<open>The two kinds of events, for either side.\<close>

lemma a_hears_all:
  assumes "talk ea A S K eb B R L qa qb" "ZmodemRcv ea qa S = Inr (0, S')" "zout S' = zout S @ p" "qa \<noteq> []" "length qa \<le> 8132"
  shows "talk ea A S' K eb B R L [] (qb @ p)"
  using assms by (intro talk_event) (simp_all add: whole_hears)

lemma b_hears_all:
  assumes "talk ea A S K eb B R L qa qb" "ZmodemRcv eb qb R = Inr (0, R')" "zout R' = zout R @ p" "qb \<noteq> []" "length qb \<le> 8132"
  shows "talk ea A S K eb B R' L (qa @ p) []"
  by (rule talk_sym, rule a_hears_all [OF talk_sym]) (use assms in simp_all)

section \<open>The data\<close>

lemma data_loop:
  assumes "talk ea A S K eb B R L [] []" "s_after False name c pos S" "r_data ZBIN D path (take pos c) R" "pos \<le> length c"
    "length c < 2 ^ 31" "\<And>b. write_ok eb path b"
  shows "\<exists>S' R'. talk ea A S' K eb B R' L (hex_header ZRINIT zeros) [] \<and> s_after True name c (length c) S' \<and> r_ready (D(path \<mapsto> c)) R'"
  using assms(1-4)
proof (induction "length c - pos" arbitrary: pos S R rule: less_induct)
  case less
  obtain d eof p S1 where d: "ZmodemTimeout ea S = Inr (0, S1)" "s_after eof name c (pos + length d) S1"
    "zout S1 = zout S @ p @ eof_header eof (pos + length d)" "line_packet ZBIN (if eof then ZCRCE else ZCRCG) (map u8_of d) p"
    "d = take (length d) (drop pos c)" "eof \<longrightarrow> d = drop pos c" "\<not> eof \<longrightarrow> d \<noteq> []" "length d \<le> 1024"
    by (rule s_more [OF less.prems(2)])
  let ?w = "take pos c @ d" and ?q = "p @ eof_header eof (pos + length d)"
  have w: "?w = take (pos + length d) c" using d(5) by (metis take_add)
  have ld: "pos + length d \<le> length c" using d(5) less.prems(4) by (metis length_drop length_take add.commute le_diff_conv2 min.cobounded1)
  have lw: "length ?w = pos + length d" using less.prems(4) by simp
  have t1: "talk ea A S1 K eb B R L [] ?q"
    using talk_event [OF less.prems(1), of S1 ?q] d(1,3) by (simp add: whole_silence)
  obtain R1 where R1: "ZmodemRcv eb ?q R = Inr (0, R1)" "r_after eof ZBIN D path ?w R1"
    "zout R1 = zout R @ (if eof then hex_header ZRINIT zeros else [])"
    using r_packet [OF less.prems(3) d(4), of eb] d(8) lw ld assms(5,6) by auto
  have lq: "?q \<noteq> []" "length ?q \<le> 8132"
    using line_nonempty(1) [OF d(4)] length_line_packet [OF d(4)] length_eof_header [of eof "pos + length d"] d(8) by auto
  have t2: "talk ea A S1 K eb B R1 L (if eof then hex_header ZRINIT zeros else []) []"
    using b_hears_all [OF t1 R1(1,3) lq] by simp
  show ?case
  proof (cases eof)
    case True
    then have "?w = c" "pos + length d = length c" using d(6) less.prems(4) by auto
    then show ?thesis using True t2 d(2) R1(2) by (auto simp: r_after_def)
  next
    case False
    then have "0 < length d" using d(7) by simp
    then have "length c - (pos + length d) < length c - pos" using ld by linarith
    from less.hyps [OF this, of S1 R1] show ?thesis using False t2 d(2) R1(2) w ld by (simp add: r_after_def)
  qed
qed

section \<open>The beginning\<close>

lemma length_malloc [simp]: "length (malloc env n) = nat n"
  by (simp add: malloc_def)

lemma sender_begins:
  assumes "zdisk info name = Some c" "zout info = []"
  obtains S where "waits env (\<lambda>es. NewZModemSendFile env name es info) [] S (after_init env name)" "s_base name c S"
    "zstate S = TStart" "filename S = Null" "zout S = rz @ hex_header ZRQINIT zeros"
proof -
  define S where "S = (fresh info)\<lparr>zstate := TStart, Protocol := ZMODEM, use_crc32 := False, packetCount := 0, errCount := 0,
    escCtrl := False, escHibit := False, atSign := False, escape := False, InputState := Idle, canCount := 0, chrCount := 0,
    windowCount := 0, filename := Null, bufsize := 0, interrupt := False, waitflag := False, packetsize := 1024,
    zbuffer := Some (malloc env 2048), zout := rz @ hex_header ZRQINIT zeros, timeout := 60\<rparr>"
  have init: "ZmodemTInit env (fresh info) = Inr (0, S)"
    using assms(2) by (simp add: ZmodemTInit_def S_def zthen_def ZXmitStr_def ZXmitHdr_def ZXmitHdrHex_eq fresh_def rz_def)
  have "NewZModemSendFile env name es info = bind_res (doIO env es S) (after_init env name)" for es
    by (simp add: NewZModemSendFile_def init after_init_def)
  then have "waits env (\<lambda>es. NewZModemSendFile env name es info) [] S (after_init env name)"
    by (simp add: waits_def after_hangup)
  moreover have "s_base name c S" using assms(1) by (simp add: S_def s_base_def idle_def has_buffer_def fresh_def)
  ultimately show ?thesis by (rule that) (simp_all add: S_def)
qed

lemma receiver_begins:
  assumes "zout info = []"
  obtains R where "waits env (\<lambda>es. NewZModemReceiveFile env dest es info) [] R (after_receive env dest)" "r_ready (zdisk info) R"
    "zout R = []"
proof -
  define R where "R = (fresh info)\<lparr>packetCount := 0, offset := 0, errCount := 0, escCtrl := False, escHibit := False, atSign := False,
       escape := False, InputState := Idle, canCount := 0, chrCount := 0, filename := Null, interrupt := False,
       waitflag := False, attn := None, zfile := Null, zbuffer := Some (malloc env 8192), zstate := RStart,
       timeoutCount := 0, timeout := 0\<rparr>"
  have init: "ZmodemRInit env (fresh info) = Inr (0, R)" by (simp add: ZmodemRInit_def R_def)
  have "NewZModemReceiveFile env dest es info = bind_res (doIO env es R) (after_receive env dest)" for es
    by (simp add: NewZModemReceiveFile_def init after_receive_def)
  then have "waits env (\<lambda>es. NewZModemReceiveFile env dest es info) [] R (after_receive env dest)"
    by (simp add: waits_def after_hangup)
  moreover have "r_ready (zdisk info) R" by (simp add: R_def r_ready_def idle_def has_buffer_def fresh_def)
  ultimately show ?thesis by (rule that) (use assms in \<open>simp_all add: R_def fresh_def\<close>)
qed

section \<open>The end\<close>

lemma RemoveWhitespace_id: "\<forall>c \<in> set s. \<not> isspace c \<Longrightarrow> RemoveWhitespace s = s"
  by (simp add: RemoveWhitespace_def)

lemma File_Exists_file: "p \<noteq> [] \<Longrightarrow> last p \<noteq> pathSeparatorChar \<Longrightarrow> File_Exists p fs \<longleftrightarrow> fs p \<noteq> None"
  by (simp add: File_Exists_def)

lemma stripfn_last:
  assumes "stripfn dest = Inr name" "name \<noteq> []"
  shows "dest \<noteq> []" "last dest \<noteq> pathSeparatorChar"
proof -
  show d: "dest \<noteq> []" using assms by (auto simp: stripfn_def Let_def split: if_splits)
  show "last dest \<noteq> pathSeparatorChar"
  proof
    assume "last dest = pathSeparatorChar"
    then have "takeWhile (\<lambda>c. c \<noteq> CHR 0x5C \<and> c \<noteq> CHR '':'' \<and> c \<noteq> CHR ''/'') (rev dest) = []"
      using d by (cases dest rule: rev_cases) (simp_all)
    then show False using assms by (simp add: stripfn_def Let_def split: if_splits)
  qed
qed

lemma tolower_slash: "tolower c = CHR ''/'' \<Longrightarrow> c = CHR ''/''"
proof (rule ccontr)
  assume t: "tolower c = CHR ''/''" "c \<noteq> CHR ''/''"
  then have u: "isupper c" "char_of (ord c + 32) = CHR ''/''" by (simp_all add: tolower_def split: if_splits)
  then have "ord c + 32 < 256" by (simp add: isupper_def)
  then have "ord c + 32 = ord CHR ''/''" using arg_cong [OF u(2), of ord] by (simp add: of_char_of)
  then show False using u(1) by (simp add: isupper_def)
qed

lemma stripfn_name:
  assumes "stripfn dest = Inr name" "name \<noteq> []"
  shows "last name \<noteq> pathSeparatorChar"
proof
  assume "last name = pathSeparatorChar"
  then have "CHR ''/'' \<in> set name" using last_in_set [OF assms(2)] by (simp)
  then obtain c where "c \<in> set (takeWhile (\<lambda>c. c \<noteq> CHR 0x5C \<and> c \<noteq> CHR '':'' \<and> c \<noteq> CHR ''/'') (rev dest))" "tolower c = CHR ''/''"
    using assms(1) by (auto simp: stripfn_def Let_def split: if_splits)
  then show False using tolower_slash by (auto dest!: set_takeWhileD)
qed

lemma put_in_place_moves:
  assumes "stripfn dest = Inr name" "name \<noteq> []" "length dest < 260" "length (tempdir env @ name) < 260"
    and blanks: "\<forall>c \<in> set (tempdir env @ name) \<union> set dest. \<not> isspace c"
    and other: "dest \<noteq> tempdir env @ name" "can_use_rename (tempdir env @ name) dest" and c: "fs (tempdir env @ name) = Some c"
  shows "put_in_place env dest fs = Inr ((fs(tempdir env @ name := None))(dest \<mapsto> c))"
proof -
  let ?p = "tempdir env @ name"
  have p: "RemoveWhitespace ?p = ?p" "RemoveWhitespace dest = dest" using blanks by (simp_all add: RemoveWhitespace_def)
  have "last ?p \<noteq> pathSeparatorChar" using stripfn_name [OF assms(1,2)] assms(2) by simp
  then have "File_Exists ?p fs" using File_Exists_file [of ?p fs] c assms(2) by simp
  moreover have "File_Exists dest ((fs(?p := None))(dest \<mapsto> c))" using stripfn_last [OF assms(1,2)] by (simp add: File_Exists_file)
  ultimately have "movefile ?p dest fs = Inr (False, (fs(?p := None))(dest \<mapsto> c))"
    using other stripfn_last(1) [OF assms(1,2)] c by (simp add: movefile_def File_Rename_def)
  then show ?thesis using assms(1,3,4) p by (simp add: put_in_place_def)
qed

section \<open>The whole transfer\<close>

lemma all_data:
  assumes t: "talk ea A S K eb B R L (hex_header ZRPOS (ZEnc4 0)) []" and S: "s_open name c S" "zstate S = FileWait"
    and R: "r_file D path [] R" and c: "length c < 2 ^ 31" and ok: "\<And>b. write_ok eb path b"
  shows "\<exists>S' R'. talk ea A S' K eb B R' L (hex_header ZRINIT zeros) [] \<and> s_after True name c (length c) S' \<and> r_ready (D(path \<mapsto> c)) R'"
proof -
  obtain d eof p q S1 where d: "ZmodemRcv ea (hex_header ZRPOS (ZEnc4 0)) S = Inr (0, S1)" "s_after eof name c (length d) S1"
    "zout S1 = zout S @ q @ p @ eof_header eof (length d)" "line_header ZBIN ZDATA (ZEnc4 0) q"
    "line_packet ZBIN (if eof then ZCRCE else ZCRCG) (map u8_of d) p"
    "d = take (length d) c" "eof \<longrightarrow> d = c" "\<not> eof \<longrightarrow> d \<noteq> []" "length d \<le> 1024"
    by (rule s_rpos [OF S])
  let ?q = "q @ p @ eof_header eof (length d)"
  have l4: "length (ZEnc4 n) = 4" for n by (simp add: ZEnc4_def)
  have "length (hex_header ZRPOS (ZEnc4 0)) \<le> 21" by (rule length_hex_header [OF l4])
  then have t1: "talk ea A S1 K eb B R L [] ?q"
    using a_hears_all [OF t d(1,3)] by simp
  have ld: "length d \<le> length c" using d(6) by (metis length_take min.cobounded2 min.commute nat_le_linear take_all)
  have h: "line_header ZBIN ZDATA (ZEnc4 (word_of_nat (length []))) q" using d(4) by simp
  obtain R1 where R1: "ZmodemRcv eb ?q R = Inr (0, R1)" "r_after eof ZBIN D path d R1"
    "zout R1 = zout R @ (if eof then hex_header ZRINIT zeros else [])"
    using r_zdata [OF R _ h d(5), of eb] d(9) ld c ok by auto
  have "length q \<le> 21" by (rule length_line_header [OF d(4) _ l4]) simp
  then have lq: "length ?q \<le> 8132" using length_line_packet [OF d(5)] length_eof_header [of eof "length d"] d(9) by simp
  have "?q \<noteq> []" using line_nonempty(2) [OF d(4)] by simp
  from b_hears_all [OF t1 R1(1,3) this lq]
  have t2: "talk ea A S1 K eb B R1 L (if eof then hex_header ZRINIT zeros else []) []" by simp
  show ?thesis
  proof (cases eof)
    case True
    then show ?thesis using t2 d(2,7) R1(2) by (auto simp: r_after_def)
  next
    case False
    have w: "r_data ZBIN D path (take (length d) c) R1" using False R1(2) d(6) by (simp add: r_after_def)
    show ?thesis
      by (rule data_loop [OF _ _ w ld c ok]) (use False t2 d(2) in simp_all)
  qed
qed

lemma session_opened:
  assumes t: "talk ea A S (after_init ea name) eb B R L [] (rz @ hex_header ZRQINIT zeros)" and S: "s_base name c S" "zstate S = TStart" "filename S = Null"
    and R: "r_ready D R" and name: "length name \<le> 260"
  shows "\<exists>S' R' p q t. talk ea A S' (after_file ea) eb B R' L [] (p @ q) \<and> s_open name c S' \<and> zstate S' = FileWait \<and> r_ready D R'
    \<and> line_header ZBIN ZFILE [0, 0, 0, 1] p \<and> line_packet ZBIN ZCRCW (map u8_of name @ 0 # map u8_of t @ [0]) q
    \<and> NUL \<notin> set t \<and> length t \<le> 60"
proof -
  have l4: "length zeros = 4" "length (ZEnc4 n) = 4" for n by (simp_all add: ZEnc4_def zeros_def)
  have lz: "length (hex_header type zeros) \<le> 21" "length (hex_header type (ZEnc4 n)) \<le> 21" for type n
    by (rule length_hex_header, simp add: l4)+
  obtain R1 where R1: "ZmodemRcv eb (rz @ hex_header ZRQINIT zeros) R = Inr (0, R1)" "r_ready D R1" "zout R1 = zout R @ hex_header ZRINIT zeros"
    using r_rqinit [OF R] by blast
  have t1: "talk ea A S (after_init ea name) eb B R1 L (hex_header ZRINIT zeros) []"
    using b_hears_all [OF t R1(1,3)] lz(1) [of ZRQINIT] by (simp add: rz_def)
  obtain S1 p q where S1: "ZmodemRcv ea (hex_header ZRINIT zeros) S = Inr (0, S1)" "s_base name c S1" "zstate S1 = TInit"
    "\<not> use_crc32 S1" "Streaming S1 = Segmented" "filename S1 = Null" "zout S1 = zout S @ p @ q"
    "line_header ZBIN ZSINIT zeros p" "line_packet ZBIN ZCRCW [0] q"
    by (rule s_rinit [OF S])
  have t2: "talk ea A S1 (after_init ea name) eb B R1 L [] (p @ q)"
    using a_hears_all [OF t1 S1(1,7)] lz(1) [of ZRINIT] by simp
  obtain R2 where R2: "ZmodemRcv eb (p @ q) R1 = Inr (0, R2)" "r_ready D R2" "zout R2 = zout R1 @ hex_header ZACK (ZEnc4 1)"
    using r_sinit [OF R1(2) _ S1(8,9)] by auto
  have "length p \<le> 21" by (rule length_line_header [OF S1(8) _ l4(1)]) simp
  then have t3: "talk ea A S1 (after_init ea name) eb B R2 L (hex_header ZACK (ZEnc4 1)) []"
    using b_hears_all [OF t2 R2(1,3)] line_nonempty(2) [OF S1(8)] length_line_packet [OF S1(9)] by simp
  obtain S2 where S2: "ZmodemRcv ea (hex_header ZACK (ZEnc4 1)) S1 = Inr (ZmDone, S2)" "s_base name c S2" "\<not> use_crc32 S2"
    "Streaming S2 = Segmented" "filename S2 = Null" "zout S2 = zout S1"
    by (rule s_ack [OF S1(2-6)])
  obtain S3 u p' q' where S3: "ZmodemTFile ea name name 1 0 0 0 0 0 S2 = Inr (0, S3)" "s_open name c S3" "zstate S3 = FileWait"
    "zout S3 = zout S2 @ p' @ q'" "line_header ZBIN ZFILE [0, 0, 0, 1] p'" "line_packet ZBIN ZCRCW (map u8_of name @ 0 # map u8_of u @ [0]) q'"
    "NUL \<notin> set u" "length u \<le> 60"
    by (rule s_file [OF S2(2-4) name])
  have "talk ea A S3 (after_file ea) eb B R2 L [] ([] @ p' @ q')"
  proof (rule talk_next [OF t3])
    show "on_event ea (whole (hex_header ZACK (ZEnc4 1))) S1 = Inr (ZmDone, S2)" using S2(1) by (simp add: whole_hears)
    show "after_init ea name ((ZmDone, S2), es') = bind_res (doIO ea es' S3) (after_file ea)" for es'
      by (simp add: after_init_def send_file_def S3(1) after_file_def)
  qed (use S3(4) S2(6) lz(2) [of ZACK 1] in \<open>simp_all add: after_hangup\<close>)
  then show ?thesis
    using S3 R2(2) by (intro exI [of _ S3] exI [of _ R2] exI [of _ p'] exI [of _ q'] exI [of _ u]) simp
qed

lemma session_closed:
  assumes t: "talk ea A S (after_file ea) eb B R (after_receive eb dest) (hex_header ZRINIT zeros) []" and S: "s_after True name c n S" and R: "r_ready D R"
    and place: "put_in_place eb dest D = Inr D'"
  shows "\<exists>xa xb S' R'. conversation A B xa xb \<and> A xa = Inr ((True, S'), []) \<and> B xb = Inr ((True, R'), []) \<and> zdisk R' = D'"
proof -
  have lz: "length (hex_header type zeros) \<le> 21" for type by (rule length_hex_header) (simp add: zeros_def)
  obtain S1 where S1: "ZmodemRcv ea (hex_header ZRINIT zeros) S = Inr (ZmDone, S1)" "s_closed S1" "zout S1 = zout S"
    by (rule s_done [OF S])
  obtain S2 where S2: "ZmodemTFinish S1 = Inr (0, S2)" "idle S2" "zstate S2 = TFinish" "zout S2 = zout S1 @ hex_header ZFIN zeros"
    by (rule s_finish [OF S1(2)])
  have t1: "talk ea A S2 after_finish eb B R (after_receive eb dest) [] ([] @ hex_header ZFIN zeros)"
  proof (rule talk_next [OF t])
    show "on_event ea (whole (hex_header ZRINIT zeros)) S = Inr (ZmDone, S1)" using S1(1) by (simp add: whole_hears)
    show "after_file ea ((ZmDone, S1), es') = bind_res (doIO ea es' S2) after_finish" for es'
      by (simp add: after_file_def finish_sending_def S2(1) after_finish_def)
  qed (use S1(3) S2(4) lz [of ZRINIT] in \<open>simp_all add: after_hangup\<close>)
  obtain R1 where R1: "ZmodemRcv eb (hex_header ZFIN zeros) R = Inr (0, R1)" "InputState R1 = Finish" "chrCount R1 = 0" "canCount R1 = 0"
    "zdisk R1 = D" "zout R1 = zout R @ hex_header ZFIN zeros"
    using r_zfin [OF R] by blast
  have t2: "talk ea A S2 after_finish eb B R1 (after_receive eb dest) (hex_header ZFIN zeros) []"
    using b_hears_all [OF t1 _ R1(6)] R1(1) lz [of ZFIN] by simp
  obtain S3 where S3: "ZmodemRcv ea (hex_header ZFIN zeros) S2 = Inr (ZmDone, S3)" "zout S3 = zout S2 @ over_and_out"
    by (rule s_zfin [OF S2(2,3)])
  obtain R2 where R2: "ZmodemRcv eb over_and_out R1 = Inr (ZmDone, R2)" "zdisk R2 = D"
    using r_over_and_out [OF R1(2-5)] by blast
  have "\<exists>xa xb. conversation A B xa xb \<and> A xa = Inr ((True, S3), []) \<and> B xb = Inr ((True, R2\<lparr>zdisk := D'\<rparr>), [])"
  proof (rule talk_ends [OF t2])
    show "on_event ea (whole (hex_header ZFIN zeros)) S2 = Inr (ZmDone, S3)" using S3(1) by (simp add: whole_hears)
    show "on_event eb (whole over_and_out) R1 = Inr (ZmDone, R2)" using R2(1) by (simp add: whole_hears over_and_out_def)
    show "length over_and_out \<le> 8132" by (simp add: over_and_out_def)
    show "after_receive eb dest ((ZmDone, R2), []) = Inr ((True, R2\<lparr>zdisk := D'\<rparr>), [])"
      using place R2(2) by (simp add: after_receive_def)
  qed (use S3(2) lz [of ZFIN] in \<open>simp_all add: after_finish_def\<close>)
  moreover have "zdisk (R2\<lparr>zdisk := D'\<rparr>) = D'" by simp
  ultimately show ?thesis by blast
qed

text \<open>C21 A file that a WWIV system sends by ZMODEM arrives: the sending and the receiving program, connected by a
  line that loses nothing, have a conversation after which both report success and the
  contents of the file, whatever bytes it has, stand on the other disk under the name asked for.
\<close>

theorem zmodem_transfer:
  assumes contents: "zdisk info name = Some c" "length c < 2 ^ 31" and name: "name \<noteq> []" "NUL \<notin> set name" "length name \<le> 260"
    and start: "zout info = []" "zout info' = []"
    and disk: "can_create env' (tempdir env' @ name)" "\<And>b. write_ok env' (tempdir env' @ name) b"
    and dest: "stripfn dest = Inr name" "length dest < 260" "length (tempdir env' @ name) < 260"
      "\<forall>c \<in> set (tempdir env' @ name) \<union> set dest. \<not> isspace c" "dest \<noteq> tempdir env' @ name" "can_use_rename (tempdir env' @ name) dest"
  shows "\<exists>ea eb S R. conversation (\<lambda>es. NewZModemSendFile env name es info) (\<lambda>es. NewZModemReceiveFile env' dest es info') ea eb
    \<and> NewZModemSendFile env name ea info = Inr ((True, S), []) \<and> NewZModemReceiveFile env' dest eb info' = Inr ((True, R), [])
    \<and> zdisk R = (zdisk info')(tempdir env' @ name := None, dest \<mapsto> c)"
proof -
  let ?p = "tempdir env' @ name" and ?A = "\<lambda>es. NewZModemSendFile env name es info" and ?B = "\<lambda>es. NewZModemReceiveFile env' dest es info'"
  let ?L = "after_receive env' dest"
  obtain S0 where S0: "waits env ?A [] S0 (after_init env name)" "s_base name c S0" "zstate S0 = TStart" "filename S0 = Null"
    "zout S0 = rz @ hex_header ZRQINIT zeros"
    by (rule sender_begins [OF contents(1) start(1)])
  obtain R0 where R0: "waits env' ?B [] R0 ?L" "r_ready (zdisk info') R0" "zout R0 = []"
    by (rule receiver_begins [OF start(2)])
  have t0: "talk env ?A S0 (after_init env name) env' ?B R0 ?L [] (rz @ hex_header ZRQINIT zeros)"
    using talk_begins [OF S0(1) R0(1)] R0(3) S0(5) by simp
  obtain S1 R1 p q t where 1: "talk env ?A S1 (after_file env) env' ?B R1 ?L [] (p @ q)" "s_open name c S1" "zstate S1 = FileWait"
    "r_ready (zdisk info') R1" "line_header ZBIN ZFILE [0, 0, 0, 1] p"
    "line_packet ZBIN ZCRCW (map u8_of name @ 0 # map u8_of t @ [0]) q" "NUL \<notin> set t" "length t \<le> 60"
    using session_opened [OF t0 S0(2-4) R0(2) name(3)] by blast
  obtain R2 where R2: "ZmodemRcv env' (p @ q) R1 = Inr (0, R2)" "r_file (zdisk info') ?p [] R2" "zout R2 = zout R1 @ hex_header ZRPOS (ZEnc4 0)"
    using r_zfile [OF 1(4) _ 1(5,6) name(2) 1(7) _ dest(3) disk(1)] name(3) 1(8) by auto
  have "length p \<le> 21" by (rule length_line_header [OF 1(5)]) simp_all
  then have l: "length (p @ q) \<le> 8132" using length_line_packet [OF 1(6)] name(3) 1(8) by simp
  have "p @ q \<noteq> []" using line_nonempty(2) [OF 1(5)] by simp
  from b_hears_all [OF 1(1) R2(1,3) this l]
  have t2: "talk env ?A S1 (after_file env) env' ?B R2 ?L (hex_header ZRPOS (ZEnc4 0)) []" by simp
  obtain S3 R3 where 3: "talk env ?A S3 (after_file env) env' ?B R3 ?L (hex_header ZRINIT zeros) []"
    "s_after True name c (length c) S3" "r_ready ((zdisk info')(?p \<mapsto> c)) R3"
    using all_data [OF t2 1(2,3) R2(2) contents(2) disk(2)] by blast
  have "put_in_place env' dest ((zdisk info')(?p \<mapsto> c)) = Inr ((zdisk info')(?p := None, dest \<mapsto> c))"
    using put_in_place_moves [OF dest(1) name(1) dest(2-6), of "(zdisk info')(?p \<mapsto> c)" c] by simp
  from session_closed [OF 3 this] show ?thesis by blast
qed

theorem zmodem_transfer_witness:
  "\<exists>ea eb S R. conversation (\<lambda>es. NewZModemSendFile easy_env ''a.txt'' es (zero_info\<lparr>zdisk := [''a.txt'' \<mapsto> ''Hello'']\<rparr>))
      (\<lambda>es. NewZModemReceiveFile easy_env ''/dl/a.txt'' es zero_info) ea eb
    \<and> NewZModemSendFile easy_env ''a.txt'' ea (zero_info\<lparr>zdisk := [''a.txt'' \<mapsto> ''Hello'']\<rparr>) = Inr ((True, S), [])
    \<and> NewZModemReceiveFile easy_env ''/dl/a.txt'' eb zero_info = Inr ((True, R), [])
    \<and> zdisk R = [''/dl/a.txt'' \<mapsto> ''Hello'']"
proof -
  have e: "tempdir easy_env = ''/tmp/''" "can_create easy_env p" "write_ok easy_env p b" for p b by (simp_all add: easy_env_def)
  have i: "zdisk (zero_info\<lparr>zdisk := [''a.txt'' \<mapsto> ''Hello'']\<rparr>) ''a.txt'' = Some ''Hello''"
    "zout (zero_info\<lparr>zdisk := [''a.txt'' \<mapsto> ''Hello'']\<rparr>) = []" "zout zero_info = []" "zdisk zero_info = Map.empty"
    by (simp_all add: zero_info_def)
  have strip: "stripfn ''/dl/a.txt'' = Inr ''a.txt''" by (simp add: stripfn_def tolower_def isupper_def)
  have rename: "can_use_rename ''/tmp/a.txt'' ''/dl/a.txt''" by (simp add: can_use_rename_def second_char_def)
  from zmodem_transfer [OF i(1), of zero_info easy_env "''/dl/a.txt''" easy_env] i e strip rename
  show ?thesis by (simp add: isspace_def NUL_def)
qed

end
