(* ===== verification/Zm_Poly.thy ===== *)
theory Zm_Poly
  imports Zm_Crc
begin

unbundle bit_operations_syntax

text \<open>
  The tables of \<open>bbs/prot/crctab.cpp\<close> hold what eight steps of polynomial division make of a byte, so that
  the macros divide bit by bit; and a division can be undone, so that a checksum changes whenever one
  character does.
\<close>

section \<open>Division, one bit at a time\<close>

definition shift16 :: "u16 \<Rightarrow> u16" where
  "shift16 c = (if bit c 15 then push_bit 1 c XOR 0x1021 else push_bit 1 c)"

definition shift32 :: "u32 \<Rightarrow> u32" where
  "shift32 c = (if bit c 0 then drop_bit 1 c XOR 0xedb88320 else drop_bit 1 c)"

definition eight :: "('a \<Rightarrow> 'a) \<Rightarrow> 'a \<Rightarrow> 'a" where
  "eight f x = f (f (f (f (f (f (f (f x)))))))"

lemma shift16_numeral:
  "shift16 (numeral n) = (if bit (numeral n :: u16) 15 then push_bit 1 (numeral n) XOR 0x1021 else push_bit 1 (numeral n))"
  "shift16 0 = 0"
  by (simp_all add: shift16_def)

lemma shift32_numeral:
  "shift32 (numeral n) = (if bit (numeral n :: u32) 0 then drop_bit 1 (numeral n) XOR 0xedb88320 else drop_bit 1 (numeral n))"
  "shift32 0 = 0" "shift32 1 = 0xedb88320"
  by (simp_all add: shift32_def)

fun tabulates :: "('a::len word \<Rightarrow> 'a word) \<Rightarrow> 'a word \<Rightarrow> 'a word list \<Rightarrow> bool" where
  "tabulates f i [] = True"
| "tabulates f i (w # ws) = (f i = w \<and> tabulates f (i + 1) ws)"

lemma tabulates_nth: "tabulates f i ws \<Longrightarrow> k < length ws \<Longrightarrow> ws ! k = f (i + word_of_nat k)"
  by (induction ws arbitrary: i k) (auto simp: nth_Cons ac_simps split: nat.splits)

lemma crctab_tabulates: "tabulates (\<lambda>i. eight shift16 (push_bit 8 i)) 0 crctab"
  unfolding eight_def by (simp add: shift16_numeral crctab_def)

lemma cr3tab_tabulates: "tabulates (eight shift32) 0 cr3tab"
  unfolding eight_def by (simp add: shift32_numeral cr3tab_def)

section \<open>Division is linear and can be undone\<close>

lemma xor_cancel:
  "x XOR y = x XOR z \<longleftrightarrow> y = z" "y XOR x = z XOR x \<longleftrightarrow> y = z" for x :: "'a::len word"
  by (auto simp: bit_eq_iff bit_xor_iff)

lemma shift16_xor: "shift16 (a XOR b) = shift16 a XOR shift16 b"
  by (auto simp: shift16_def push_bit_xor bit_xor_iff ac_simps)

lemma shift32_xor: "shift32 (a XOR b) = shift32 a XOR shift32 b"
  by (auto simp: shift32_def drop_bit_xor bit_xor_iff ac_simps)

lemma eight_xor:
  fixes f :: "'a::len word \<Rightarrow> 'a word"
  assumes "\<And>a b. f (a XOR b) = f a XOR f b"
  shows "eight f (a XOR b) = eight f a XOR eight f b"
  by (simp add: eight_def assms)

lemma shift16_inj: "shift16 a = shift16 b \<Longrightarrow> a = b"
proof -
  assume e: "shift16 a = shift16 b"
  have low: "bit (shift16 c) 0 \<longleftrightarrow> bit c 15" for c by (simp add: shift16_def bit_xor_iff bit_push_bit_iff del: push_bit_Suc push_bit_of_1)
  have top: "bit a 15 \<longleftrightarrow> bit b 15" using e low by metis
  then have p: "push_bit 1 a = push_bit 1 b" using e by (simp add: shift16_def xor_cancel split: if_splits)
  show "a = b"
  proof (rule bit_word_eqI)
    fix n assume n: "n < LENGTH(16)"
    show "bit a n \<longleftrightarrow> bit b n"
    proof (cases "n = 15")
      case False
      have "bit (push_bit 1 a) (n + 1) \<longleftrightarrow> bit (push_bit 1 b) (n + 1)" by (simp only: p)
      then show ?thesis unfolding bit_push_bit_iff using n False by simp
    qed (simp add: top)
  qed
qed

lemma shift32_inj: "shift32 a = shift32 b \<Longrightarrow> a = b"
proof -
  assume e: "shift32 a = shift32 b"
  have high: "bit (shift32 c) 31 \<longleftrightarrow> bit c 0" for c using bit_imp_le_length [of c 32] by (auto simp: shift32_def bit_simps)
  have top: "bit a 0 \<longleftrightarrow> bit b 0" using e high by metis
  then have p: "drop_bit 1 a = drop_bit 1 b" using e by (simp add: shift32_def xor_cancel split: if_splits)
  show "a = b"
  proof (rule bit_word_eqI)
    fix n assume n: "n < LENGTH(32)"
    show "bit a n \<longleftrightarrow> bit b n"
    proof (cases n)
      case (Suc m)
      then show ?thesis using arg_cong [OF p, of "\<lambda>x. bit x m"] n by (simp add: bit_simps)
    qed (simp add: top)
  qed
qed

lemma eight_inj: "(\<And>a b. f a = f b \<Longrightarrow> a = b) \<Longrightarrow> eight f a = eight f b \<Longrightarrow> a = b"
  unfolding eight_def by blast

lemma eight_shift_inj: "eight shift16 a = eight shift16 b \<Longrightarrow> a = b" "eight shift32 c = eight shift32 d \<Longrightarrow> c = d"
  using eight_inj [of shift16] eight_inj [of shift32] shift16_inj shift32_inj by blast+

section \<open>The macros\<close>

lemma eight_funpow: "eight f = f ^^ 8"
  by (rule ext) (simp add: eight_def numeral_eq_Suc)

lemma eight_shift16_low:
  assumes "\<And>n. 8 \<le> n \<Longrightarrow> \<not> bit c n"
  shows "eight shift16 c = push_bit 8 c"
proof -
  have "k \<le> 8 \<Longrightarrow> (shift16 ^^ k) c = push_bit k c" for k
  proof (induction k)
    case (Suc k)
    then have "\<not> bit (push_bit k c) 15" using assms by (simp add: bit_push_bit_iff)
    then have "shift16 (push_bit k c) = push_bit 1 (push_bit k c)" by (simp add: shift16_def)
    then show ?case using Suc by (simp add: push_bit_push_bit)
  qed simp
  then show ?thesis by (simp add: eight_funpow)
qed

lemma eight_shift32_high:
  assumes "\<And>n. n < 8 \<Longrightarrow> \<not> bit c n"
  shows "eight shift32 c = drop_bit 8 c"
proof -
  have "k \<le> 8 \<Longrightarrow> (shift32 ^^ k) c = drop_bit k c" for k
  proof (induction k)
    case (Suc k)
    then have "\<not> bit (drop_bit k c) 0" using assms by (simp add: bit_drop_bit_eq)
    then have "shift32 (drop_bit k c) = drop_bit 1 (drop_bit k c)" by (simp add: shift32_def)
    then show ?case using Suc by simp
  qed simp
  then show ?thesis by (simp add: eight_funpow)
qed

lemma byte_index: "unat (x AND 255 :: 'a::len word) < 256" "word_of_nat (unat (x AND 255)) = x AND 255"
proof -
  have "x AND 255 = x AND mask 8" by (simp add: mask8)
  also have "unat \<dots> < 256"
  proof -
    have "unat (x AND mask 8) = take_bit 8 (unat x)" by (simp add: take_bit_eq_mask flip: take_bit_eq_mask unsigned_take_bit_eq)
    then show ?thesis using take_bit_nat_less_exp [of 8 "unat x"] by simp
  qed
  finally show "unat (x AND 255 :: 'a::len word) < 256" .
qed simp

lemma updcrc_divides: "updcrc b c = eight shift16 c XOR ucast b" for c :: u16
proof -
  let ?h = "drop_bit 8 c AND 255"
  have split: "c = push_bit 8 ?h XOR (c AND 255)"
    by (intro bit_word_eqI) (auto simp: bit_simps mask8)
  have "eight shift16 c = eight shift16 (push_bit 8 ?h) XOR eight shift16 (c AND 255)"
    by (subst split) (rule eight_xor [OF shift16_xor])
  also have "eight shift16 (push_bit 8 ?h) = crctab ! unat ?h"
    using tabulates_nth [OF crctab_tabulates, of "unat ?h"] byte_index [of "drop_bit 8 c"] by (simp add: length_crctab)
  also have "eight shift16 (c AND 255) = push_bit 8 (c AND 255)" by (rule eight_shift16_low) (simp add: bit_simps mask8)
  also have "push_bit 8 (c AND 255) = push_bit 8 c" by (intro bit_word_eqI) (auto simp: bit_simps mask8)
  finally show ?thesis by (simp add: updcrc_def xor.assoc)
qed

lemma UPDC32_divides: "UPDC32 b c = eight shift32 (c XOR ucast b)"
proof -
  let ?l = "(c XOR ucast b) AND 255"
  have split: "c XOR ucast b = ?l XOR push_bit 8 (drop_bit 8 c)"
    by (intro bit_word_eqI) (auto simp: bit_simps mask8 dest: bit_imp_le_length)
  have "eight shift32 (c XOR ucast b) = eight shift32 ?l XOR eight shift32 (push_bit 8 (drop_bit 8 c))"
    by (subst split) (rule eight_xor [OF shift32_xor])
  also have "eight shift32 ?l = cr3tab ! unat ?l"
    using tabulates_nth [OF cr3tab_tabulates, of "unat ?l"] byte_index [of "c XOR ucast b"] by (simp add: length_cr3tab)
  also have "eight shift32 (push_bit 8 (drop_bit 8 c)) = drop_bit 8 (push_bit 8 (drop_bit 8 c))"
    by (rule eight_shift32_high) (simp add: bit_simps)
  also have "\<dots> = drop_bit 8 c AND 0xffffff" by (intro bit_word_eqI) (auto simp: bit_simps mask24)
  finally show ?thesis by (simp add: UPDC32_def)
qed

section \<open>Different characters, different checksums\<close>

lemma ucast_byte_inj: "(ucast (b :: u8) :: 'a::len word) = ucast b' \<Longrightarrow> 8 \<le> LENGTH('a) \<Longrightarrow> b = b'"
proof -
  assume e: "(ucast b :: 'a word) = ucast b'" and l: "8 \<le> LENGTH('a)"
  show "b = b'"
  proof (rule bit_word_eqI)
    fix n assume "n < LENGTH(8)"
    then show "bit b n \<longleftrightarrow> bit b' n" using arg_cong [OF e, of "\<lambda>x. bit x n"] l by (simp add: bit_simps)
  qed
qed

lemma crc16_inj_state: "crc16 d c = crc16 d c' \<Longrightarrow> c = c'"
proof (induction d arbitrary: c c')
  case (Cons b d)
  then have "updcrc b c = updcrc b c'" by (simp add: crc16_def)
  then show ?case unfolding updcrc_divides xor_cancel by (rule eight_shift_inj)
qed (simp add: crc16_def)

lemma crc32_inj_state: "crc32 d c = crc32 d c' \<Longrightarrow> c = c'"
proof (induction d arbitrary: c c')
  case (Cons b d)
  then have "UPDC32 b c = UPDC32 b c'" by (simp add: crc32_def)
  then have "c XOR ucast b = c' XOR ucast b" unfolding UPDC32_divides by (rule eight_shift_inj)
  then show ?case by (simp add: xor_cancel)
qed (simp add: crc32_def)

lemma crc16_damage: "x \<noteq> y \<Longrightarrow> crc16 (a @ x # b) c \<noteq> crc16 (a @ y # b) c"
proof
  assume "x \<noteq> y" "crc16 (a @ x # b) c = crc16 (a @ y # b) c"
  then have "crc16 b (updcrc x (crc16 a c)) = crc16 b (updcrc y (crc16 a c))" by (simp add: crc16_def)
  then have "updcrc x (crc16 a c) = updcrc y (crc16 a c)" by (rule crc16_inj_state)
  then have "(ucast x :: u16) = ucast y" by (simp add: updcrc_divides xor_cancel)
  with \<open>x \<noteq> y\<close> show False by (auto dest!: ucast_byte_inj)
qed

lemma crc32_damage: "x \<noteq> y \<Longrightarrow> crc32 (a @ x # b) c \<noteq> crc32 (a @ y # b) c"
proof
  assume "x \<noteq> y" "crc32 (a @ x # b) c = crc32 (a @ y # b) c"
  then have "crc32 b (UPDC32 x (crc32 a c)) = crc32 b (UPDC32 y (crc32 a c))" by (simp add: crc32_def)
  then have "UPDC32 x (crc32 a c) = UPDC32 y (crc32 a c)" by (rule crc32_inj_state)
  then have "crc32 a c XOR ucast x = crc32 a c XOR ucast y" unfolding UPDC32_divides by (rule eight_shift_inj)
  then have "(ucast x :: u32) = ucast y" by (simp add: xor_cancel)
  with \<open>x \<noteq> y\<close> show False by (auto dest!: ucast_byte_inj)
qed

end
