(* ===== verification/Zm_Damage.thy ===== *)
theory Zm_Damage
  imports Zm_Transfer Zm_Poly Zm_Driver
begin

text \<open>
  What the checksums are good for: a data packet in which one character of the data, of its end or of the
  checksum itself was damaged is recognised and asked for again, and nothing of it is written. And what
  they are not good for: a binary header is taken with any checksum, and the length of a packet is not
  limited by the buffer it is stored in.
\<close>

section \<open>One damaged character\<close>

definition one_damaged :: "'a list \<Rightarrow> 'a list \<Rightarrow> bool" where
  "one_damaged xs ys \<longleftrightarrow> (\<exists>a x y b. xs = a @ x # b \<and> ys = a @ y # b \<and> x \<noteq> y)"

lemma crc_good_upd:
  assumes "dt = ZBIN \<or> dt = ZBIN32"
  shows "crc_good dt (upd dt d (crc_start dt))
    \<longleftrightarrow> (if dt = ZBIN then crc16 d 0 = 0 else crc32 d 0xffffffff = 0xdebb20e3)"
proof (cases "dt = ZBIN")
  case True
  then show ?thesis using crc16_ucast [of d "0 :: 64 word"] low16_zero [of "fold updcrc d 0 :: 64 word"]
    by (simp add: crc_good_def upd_def crc_start_def)
next
  case False
  have "(ucast (0xffffffff :: u32) :: 64 word) = 0xffffffff" by simp
  then have f: "fold UPDC32 d (0xffffffff :: 64 word) = ucast (crc32 d 0xffffffff)" using crc32_ucast [of d "0xffffffff"] by metis
  have "(ucast w :: 64 word) = 0xdebb20e3 \<longleftrightarrow> w = 0xdebb20e3" for w :: u32
  proof
    assume "(ucast w :: 64 word) = 0xdebb20e3"
    then have "(ucast (ucast w :: 64 word) :: u32) = ucast (0xdebb20e3 :: 64 word)" by (rule arg_cong)
    moreover have "ucast (ucast w :: 64 word) = w" by (intro bit_word_eqI) (auto simp: bit_simps)
    ultimately show "w = 0xdebb20e3" by simp
  qed simp
  then show ?thesis using False assms f by (simp add: crc_good_def upd_def crc_start_def)
qed

lemma damage_found:
  assumes dt: "dt = ZBIN \<or> dt = ZBIN32" and d: "one_damaged xs ys" and good: "crc_good dt (upd dt xs (crc_start dt))"
  shows "\<not> crc_good dt (upd dt ys (crc_start dt))"
proof -
  obtain a x y b where d: "xs = a @ x # b" "ys = a @ y # b" "x \<noteq> y" using d by (auto simp: one_damaged_def)
  show ?thesis
    using good crc16_damage [OF d(3), of a b 0] crc32_damage [OF d(3), of a b "0xffffffff"] unfolding crc_good_upd [OF dt] d(1,2)
    by (auto split: if_splits)
qed

lemma one_damaged_length: "one_damaged xs ys \<Longrightarrow> length ys = length xs"
  by (auto simp: one_damaged_def)

lemma file_data_bad:
  assumes "zstate s = RData" "attn s = None" "errCount s < 20"
  shows "ZDataReceived env False s = Inr (0, s\<lparr>errCount := errCount s + 1, zstate := RFile, InputState := Idle, chrCount := 0,
    zout := zout s @ hex_header ZRPOS (ZEnc4 (offset s))\<rparr>)"
  using assms by (simp add: ZDataReceived_def GotFileData_def fileError_def zthen_def zreturn_def ZXmitHdrHex_def ZXmitStr_def)

text \<open>C22 The receiving side finds every damage of one character: when a data packet arrives in which one character
  of the data, the kind of its end or one character of the checksum is another one than was sent, then
  nothing of it is written to the disk, and the data is asked for again from the position reached.
\<close>

theorem damaged_packet_rejected:
  assumes s: "receiving path w s" "attn s = None" "errCount s < 20"
    and sent: "one_damaged (data @ [et] @ end_crc (DataType s) et data) (data' @ [et'] @ ck')" "length data' = length data"
    and line: "zcodes data' b" "zcodes ck' t" "et' \<in> {ZCRCE, ZCRCG, ZCRCQ, ZCRCW}" "length data \<le> 8192"
  shows "\<exists>s'. ZmodemRcv env (b @ [ZDLE, et'] @ t) s = Inr (0, s') \<and> zdisk s' = zdisk s \<and> zstate s' = RFile \<and> zfile s' = zfile s
    \<and> offset s' = word_of_nat (length w) \<and> zout s' = zout s @ hex_header ZRPOS (ZEnc4 (word_of_nat (length w)))"
proof -
  obtain m where m: "awaiting_data m s" "8192 \<le> length m" "zstate s = RData" "offset s = word_of_nat (length w)"
    using s(1) by (auto simp: receiving_def)
  have dt: "DataType s = ZBIN \<or> DataType s = ZBIN32" using m(1) by (simp add: awaiting_data_def)
  have ck: "length ck' = (if DataType s = ZBIN32 then 4 else 2)"
    using one_damaged_length [OF sent(1)] sent(2) end_crc_good(2) [OF dt, of et data] by simp
  have bad: "\<not> crc_good (DataType s) (upd (DataType s) (data' @ [et'] @ ck') (crc_start (DataType s)))"
    by (rule damage_found [OF dt sent(1) end_crc_good(1) [OF dt]])
  let ?q = "b @ [ZDLE, et'] @ t" and ?s = "s\<lparr>rcvlen := int (length (b @ [ZDLE, et'] @ t))\<rparr>"
  define g where "g = packet_got 0 et' data' ck' m ?s"
  have g: "zstate g = RData" "attn g = None" "errCount g < 20" "offset g = offset s" "zdisk g = zdisk s" "zfile g = zfile s"
    "zout g = zout s" "rcvlen g = 0"
    using s(2,3) m(3) by (simp_all add: g_def packet_got_def)
  have m': "awaiting_data m ?s" using m(1) by (simp add: awaiting_data_def)
  have "rcv_loop env (?q @ []) ?s = zthen (ZDataReceived env False) (rcv_loop env []) g"
    using rcv_framed [OF line(1,2) _ m', where rest = "[]" and env = env] ck line(3,4) sent(2) m(2) bad unfolding g_def by simp
  then show ?thesis using g m(4) unfolding ZmodemRcv_def by (simp add: file_data_bad zthen_def rcv_loop.simps)
qed

section \<open>Headers in binary\<close>

text \<open>A header in binary is acted on whatever its two bytes of checksum are: the test at the end of the
  header looks at a variable that the characters read before have not changed.
\<close>

theorem binary_header_unchecked:
  assumes "idle s" "length data = 4" "zcodes (type # data @ [x, y]) b"
  shows "\<exists>h c. take 7 h = type # data @ [x, y] \<and>
    ZmodemRcv env ([ZPAD, ZDLE, ZBIN] @ b) s = zthen (ZProtocol env) (rcv_loop env []) (header_in 0 ZBIN h c s)"
proof -
  let ?s = "s\<lparr>rcvlen := int (length ([ZPAD, ZDLE, ZBIN] @ b))\<rparr>"
  have i: "idle ?s" using assms(1) by (simp add: idle_def)
  have h: "header_in r dt h c (s\<lparr>rcvlen := n\<rparr>) = header_in r dt h c s" for r dt h c n by (simp add: header_in_def)
  have "rcv_loop env ([ZPAD, ZDLE, ZBIN] @ b @ []) ?s = zthen (ZProtocol env) (rcv_loop env [])
      (header_in 0 ZBIN (type # data @ [x, y] @ replicate (9 - header_length ZBIN) 0) (upd ZBIN (type # data @ [x, y]) (start_crc ZBIN)) ?s)"
    using rcv_bin_header [OF i _ assms(3,2), where dt = ZBIN and rest = "[]" and env = env] by simp
  moreover have "take 7 (type # data @ [x, y] @ replicate (9 - header_length ZBIN) 0) = type # data @ [x, y]" using assms(2) by simp
  ultimately show ?thesis unfolding ZmodemRcv_def h by (metis append_Nil2)
qed

section \<open>Long packets\<close>

definition filling :: "nat \<Rightarrow> nat \<Rightarrow> ZModem \<Rightarrow> bool" where
  "filling k n s \<longleftrightarrow> InputState s = Indata \<and> canCount s = 0 \<and> \<not> escape s \<and> (DataType s = ZBIN \<or> DataType s = ZBIN32)
     \<and> crcCount s = 0 \<and> chrCount s = int n \<and> (\<exists>m. zbuffer s = Some m \<and> length m = k)"

lemma zcodes_safe: "\<forall>c \<in> set d. safe c \<Longrightarrow> zcodes d d"
  by (induction d) (simp_all add: zcodes.Nil zcodes_plain)

lemma rcv_fill:
  assumes "filling k n s" "\<forall>c \<in> set d. safe c" "n + length d \<le> k" "rcvlen s = int (length (d @ rest))"
  obtains s' where "rcv_loop env (d @ rest) s = rcv_loop env rest s'" "filling k (n + length d) s'" "rcvlen s' = int (length rest)"
proof -
  obtain m where m: "zbuffer s = Some m" "length m = k" using assms(1) by (auto simp: filling_def)
  have "rcv_loop env (d @ rest) s = rcv_loop env rest (took (rcvlen s - int (length d)) d n m s)"
    using assms m by (intro rcv_data zcodes_safe) (simp_all add: filling_def)
  moreover have "filling k (n + length d) (took (rcvlen s - int (length d)) d n m s)" using assms(1,3) m by (simp add: filling_def)
  ultimately show ?thesis by (rule that) (simp add: assms(4))
qed

lemma fill_ok:
  assumes "filling k n s" "\<forall>c \<in> set d. safe c" "n + length d \<le> k"
  obtains s' where "ZmodemRcv env d s = Inr (0, s')" "filling k (n + length d) s'"
proof -
  have "filling k n (s\<lparr>rcvlen := int (length (d @ []))\<rparr>)" using assms(1) by (simp add: filling_def)
  then obtain s' where s': "rcv_loop env (d @ []) (s\<lparr>rcvlen := int (length (d @ []))\<rparr>) = rcv_loop env [] s'"
    "filling k (n + length d) s'" "rcvlen s' = 0"
    by (rule rcv_fill [where rest = "[]" and env = env, OF _ assms(2,3)]) simp_all
  have "filling k (n + length d) (s'\<lparr>rcvlen := - 1\<rparr>)" using s'(2) by (simp add: filling_def)
  then show ?thesis by (rule that [rotated]) (use s' in \<open>simp add: ZmodemRcv_def rcv_loop.simps\<close>)
qed

lemma fill_over:
  assumes "filling k n s" "\<forall>c \<in> set d. safe c" "n \<le> k" "k < n + length d"
  shows "ZmodemRcv env d s = Inl UndefinedBehaviour"
proof -
  define i where "i = k - n"
  have i: "i < length d" "n + i = k" using assms(3,4) by (simp_all add: i_def)
  have d: "d = take i d @ d ! i # drop (Suc i) d" by (rule id_take_nth_drop [OF i(1)])
  have li: "length (take i d) = i" using i(1) by simp
  let ?s = "s\<lparr>rcvlen := int (length (take i d @ d ! i # drop (Suc i) d))\<rparr>"
  have "filling k n ?s" using assms(1) by (simp add: filling_def)
  then obtain s' where s': "rcv_loop env (take i d @ d ! i # drop (Suc i) d) ?s = rcv_loop env (d ! i # drop (Suc i) d) s'"
    "filling k k s'" "rcvlen s' = int (length (d ! i # drop (Suc i) d))"
    by (rule rcv_fill [where d = "take i d" and rest = "d ! i # drop (Suc i) d" and env = env]) (use assms(2) li i in \<open>auto dest: in_set_takeD\<close>)
  have "safe (d ! i)" using assms(2) i(1) by simp
  then have "rcv_loop env (d ! i # drop (Suc i) d) s'
      = zthen (data_put env (d ! i)) (rcv_loop env (drop (Suc i) d)) (s'\<lparr>rcvlen := rcvlen s' - 1\<rparr>)"
    using s'(2,3) by (intro indata.rcv_plain) (simp_all add: filling_def)
  also have "\<dots> = Inl UndefinedBehaviour"
    using s'(2) by (auto simp: filling_def zthen_def data_put_def DataByte_def store_char_def with_buffer_def)
  finally show ?thesis using s'(1) d unfolding ZmodemRcv_def by metis
qed

lemma doIO_fill:
  "filling k n s \<Longrightarrow> \<forall>c \<in> set (concat ps). safe c \<Longrightarrow> n \<le> k \<Longrightarrow>
    doIO env (map Chars ps) s = Inl UndefinedBehaviour \<longleftrightarrow> k < n + length (concat ps)"
proof (induction ps arbitrary: n s)
  case (Cons p ps)
  show ?case
  proof (cases "n + length p \<le> k")
    case True
    obtain s' where "ZmodemRcv env p s = Inr (0, s')" "filling k (n + length p) s'"
      by (rule fill_ok [OF Cons.prems(1) _ True]) (use Cons.prems(2) in simp_all)
    then show ?thesis using Cons.IH [of "n + length p" s'] Cons.prems(2) True by (simp add: on_event_def ac_simps)
  next
    case False
    have "ZmodemRcv env p s = Inl UndefinedBehaviour" by (rule fill_over [OF Cons.prems(1)]) (use Cons.prems False in simp_all)
    then show ?thesis using False by (simp add: on_event_def)
  qed
qed simp

text \<open>The data of a packet is stored in a buffer of 8192 bytes without a look at its length: characters that
  arrive, in whatever pieces, without the end of the packet among them are harmless as long as they are
  at most 8192, and one more is written behind the buffer.
\<close>

theorem packet_buffer_bound:
  assumes "awaiting_data m s" "length m = 8192" "\<forall>c \<in> set (concat ps). safe c"
  shows "doIO env (map Chars ps) s = Inl UndefinedBehaviour \<longleftrightarrow> 8192 < length (concat ps)"
proof -
  have "filling 8192 0 s" using assms(1,2) by (auto simp: filling_def awaiting_data_def)
  from doIO_fill [OF this assms(3)] show ?thesis by simp
qed

section \<open>Examples\<close>

theorem packet_buffer_bound_witness:
  "doIO easy_env (map Chars [replicate 8132 0x61, replicate 61 0x61])
     (zero_info\<lparr>InputState := Indata, zbuffer := Some (replicate 8192 0)\<rparr>) = Inl UndefinedBehaviour"
proof -
  let ?s = "zero_info\<lparr>InputState := Indata, zbuffer := Some (replicate 8192 0)\<rparr>"
  have s: "awaiting_data (replicate 8192 0) ?s" by (simp add: awaiting_data_def zero_info_def crc_start_def)
  have c: "\<forall>c \<in> set (concat [replicate 8132 0x61, replicate 61 0x61]). safe c" by (simp add: safe_def)
  show ?thesis by (rule iffD2 [OF packet_buffer_bound [OF s _ c]]) simp_all
qed

theorem binary_header_unchecked_witness:
  "\<exists>h c. take 7 h = [8, 0, 0, 0, 0, 0xde, 0xad] \<and> ZmodemRcv easy_env ([ZPAD, ZDLE, ZBIN] @ [8, 0, 0, 0, 0, 0xde, 0xad]) zero_info
     = zthen (ZProtocol easy_env) (rcv_loop easy_env []) (header_in 0 ZBIN h c zero_info)"
proof -
  have "zcodes (8 # [0, 0, 0, 0] @ [0xde, 0xad]) [8, 0, 0, 0, 0, 0xde, 0xad]"
    using zcodes_safe [of "[8, 0, 0, 0, 0, 0xde, 0xad]"] by (simp add: safe_def)
  from binary_header_unchecked [OF _ _ this, of zero_info easy_env] show ?thesis by (simp add: idle_def zero_info_def)
qed

theorem damaged_packet_rejected_witness:
  "\<exists>s'. ZmodemRcv easy_env ([2] @ [ZDLE, ZCRCE] @ fst (putZdles (end_crc ZBIN ZCRCE [1]) zero_info))
       (zero_info\<lparr>InputState := Indata, zbuffer := Some (replicate 8192 0), zstate := RData, zfile := Ptr (''f'', 0),
          zdisk := [''f'' \<mapsto> []]\<rparr>) = Inr (0, s')
     \<and> zdisk s' = [''f'' \<mapsto> []] \<and> zout s' = hex_header ZRPOS (ZEnc4 0)"
proof -
  let ?s = "zero_info\<lparr>InputState := Indata, zbuffer := Some (replicate 8192 0), zstate := RData, zfile := Ptr (''f'', 0),
      zdisk := [''f'' \<mapsto> []]\<rparr>"
  have r: "receiving ''f'' [] ?s"
    by (simp add: receiving_def awaiting_data_def zero_info_def crc_start_def)
  have d: "one_damaged ([1] @ [ZCRCE] @ end_crc (DataType ?s) ZCRCE [1]) ([2] @ [ZCRCE] @ end_crc ZBIN ZCRCE [1])"
    unfolding one_damaged_def by (rule exI [of _ "[]"], rule exI [of _ 1], rule exI [of _ 2]) (simp add: zero_info_def)
  have "zcodes [2] [2]" using zcodes_safe [of "[2]"] by (simp add: safe_def)
  from damaged_packet_rejected [OF r _ _ d _ this putZdles_zcodes [of _ zero_info], where env = easy_env]
  obtain s' where "ZmodemRcv easy_env ([2] @ [ZDLE, ZCRCE] @ fst (putZdles (end_crc ZBIN ZCRCE [1]) zero_info)) ?s = Inr (0, s')"
    "zdisk s' = zdisk ?s" "zout s' = zout ?s @ hex_header ZRPOS (ZEnc4 (word_of_nat (length [])))"
    by (auto simp: zero_info_def)
  then show ?thesis by (intro exI [of _ s']) (simp add: zero_info_def)
qed

end
