(* ===== verification/Bbs_Conf.thy ===== *)
theory Bbs_Conf
  imports Core_Path Core_TextFile
begin

unbundle bit_operations_syntax

text \<open>
  \<open>bbs/conf.cpp\<close> and \<open>bbs/arword.cpp\<close>: conferences, which group message areas or file areas. A conference
  has a block of memory with the numbers of its areas, of which the first \<open>num\<close> count; reading or writing
  behind the block is \<open>Inl UndefinedBehaviour\<close>. Conferences are kept in a text file for each of the two kinds.

  A lost program (\<open>AbortBBS\<close>) is \<open>None\<close>. The dialogues of the file (\<open>modify_conf\<close>, \<open>conf_edit\<close>, the lists on
  the screen) are left out; what the operator does in \<open>modify_conf\<close> is an argument of \<open>insert_conf\<close>.
\<close>

section \<open>Running through a list\<close>

fun each_res :: "('a \<Rightarrow> 's \<Rightarrow> 'e + 's) \<Rightarrow> 'a list \<Rightarrow> 's \<Rightarrow> 'e + 's" where
  "each_res f [] s = Inr s"
| "each_res f (x # xs) s = bind_res (f x s) (each_res f xs)"

fun map_res :: "('a \<Rightarrow> 'e + 'b) \<Rightarrow> 'a list \<Rightarrow> 'e + 'b list" where
  "map_res f [] = Inr []"
| "map_res f (x # xs) = bind_res (f x) (\<lambda>y. bind_res (map_res f xs) (\<lambda>ys. Inr (y # ys)))"

lemma each_res_append [simp]: "each_res f (xs @ ys) s = bind_res (each_res f xs s) (each_res f ys)"
  by (induction xs arbitrary: s) (simp_all add: bind_res_def split: sum.splits)

lemma map_res_Inr: "(\<And>x. x \<in> set xs \<Longrightarrow> f x = Inr (g x)) \<Longrightarrow> map_res f xs = Inr (map g xs)"
  by (induction xs) simp_all

section \<open>Data\<close>

datatype ConferenceType = CONF_SUBS | CONF_DIRS

datatype update_action = CONF_UPDATE_INSERT | CONF_UPDATE_DELETE | CONF_UPDATE_SWAP

record confrec =
  designator :: char
  conf_name :: string
  minsl :: u8
  maxsl :: u8
  mindsl :: u8
  maxdsl :: u8
  minage :: u8
  maxage :: u8
  conf_sex :: u8
  conf_status :: u16
  minbps :: u16
  conf_ar :: u16
  conf_dar :: u16
  conf_num :: u16
  maxnum :: u16
  conf_subs :: "u16 list option"

record conferences =
  subconfs :: "confrec list"
  dirconfs :: "confrec list"
  subboard_count :: nat
  directory_count :: nat
  conf_disk :: disk

text \<open>The configuration, and which files the operating system lets the program write.\<close>

record conf_env =
  datadir :: string
  max_subs :: nat
  writable :: "string \<Rightarrow> bool"

abbreviation MAX_CONFERENCES :: nat where
  "MAX_CONFERENCES \<equiv> 26"

section \<open>What belongs to a kind of conference\<close>

definition confs_of :: "ConferenceType \<Rightarrow> conferences \<Rightarrow> confrec list" where
  "confs_of conftype s = (case conftype of CONF_SUBS \<Rightarrow> subconfs s | CONF_DIRS \<Rightarrow> dirconfs s)"

definition set_confs :: "ConferenceType \<Rightarrow> confrec list \<Rightarrow> conferences \<Rightarrow> conferences" where
  "set_confs conftype cs s = (case conftype of CONF_SUBS \<Rightarrow> s\<lparr>subconfs := cs\<rparr> | CONF_DIRS \<Rightarrow> s\<lparr>dirconfs := cs\<rparr>)"

definition conf_file :: "ConferenceType \<Rightarrow> conf_env \<Rightarrow> string" where
  "conf_file conftype env = datadir env @ (case conftype of CONF_SUBS \<Rightarrow> ''subs.cnf'' | CONF_DIRS \<Rightarrow> ''dirs.cnf'')"

definition area_count :: "ConferenceType \<Rightarrow> conferences \<Rightarrow> nat" where
  "area_count conftype s = (case conftype of CONF_SUBS \<Rightarrow> subboard_count s | CONF_DIRS \<Rightarrow> directory_count s)"

section \<open>\<open>bbs/arword.cpp\<close>\<close>

definition str_to_arword :: "string \<Rightarrow> cpp_error + u16" where
  "str_to_arword arstr =
     (if 81 \<le> length (c_str arstr) then Inl UndefinedBehaviour
      else let s = strupr arstr
           in Inr (foldl (\<lambda>rar i. if strchr s (char_of (i + 65)) \<noteq> None then rar OR push_bit i 1 else rar) 0 [0..<16]))"

definition word_to_arstr :: "u16 \<Rightarrow> string" where
  "word_to_arstr ar =
     (let arstr = map (\<lambda>i. char_of (65 + i)) (filter (bit ar) [0..<16]) in if arstr = [] then ''-'' else arstr)"

section \<open>The areas of a conference\<close>

text \<open>The loop of \<open>in_conference\<close> runs through all numbers and keeps the first position found.\<close>

definition first_index :: "int \<Rightarrow> u16 list \<Rightarrow> int" where
  "first_index subnum b =
     foldl (\<lambda>nInit i. if nInit = - 1 \<and> int (unat (b ! i)) = subnum then int i else nInit) (- 1) [0..<length b]"

definition in_conference :: "int \<Rightarrow> confrec \<Rightarrow> cpp_error + int" where
  "in_conference subnum c =
     (case conf_subs c of
        None \<Rightarrow> Inr (- 1)
      | Some b \<Rightarrow>
          if conf_num c = 0 then Inr (- 1)
          else if length b < unat (conf_num c) then Inl UndefinedBehaviour
          else Inr (first_index subnum (take (unat (conf_num c)) b)))"

definition store_sub :: "nat \<Rightarrow> u16 \<Rightarrow> confrec \<Rightarrow> cpp_error + confrec" where
  "store_sub i x c =
     (case conf_subs c of
        None \<Rightarrow> Inl UndefinedBehaviour
      | Some b \<Rightarrow> if i < length b then Inr (c\<lparr>conf_subs := Some (b[i := x])\<rparr>) else Inl UndefinedBehaviour)"

definition load_sub :: "nat \<Rightarrow> confrec \<Rightarrow> cpp_error + u16" where
  "load_sub i c =
     (case conf_subs c of
        None \<Rightarrow> Inl UndefinedBehaviour
      | Some b \<Rightarrow> if i < length b then Inr (b ! i) else Inl UndefinedBehaviour)"

text \<open>A block that is full is replaced by one that is larger by \<open>CONF_MULTIPLE\<close>.\<close>

definition make_room :: "conf_env \<Rightarrow> confrec \<Rightarrow> cpp_error + confrec" where
  "make_room env c =
     (if conf_num c < maxnum c then Inr c
      else let k = max_subs env div 5; new = maxnum c + word_of_nat k
           in case conf_subs c of
                None \<Rightarrow> Inl UndefinedBehaviour
              | Some b \<Rightarrow> if length b < unat new - k \<or> unat new < k then Inl UndefinedBehaviour
                          else Inr (c\<lparr>maxnum := new, conf_subs := Some (take (unat new - k) b @ replicate k 0)\<rparr>))"

fun add_list :: "conf_env \<Rightarrow> nat \<Rightarrow> int list \<Rightarrow> confrec \<Rightarrow> cpp_error + confrec" where
  "add_list env num [] c = Inr c"
| "add_list env num (nConference # rest) c =
     (if int num \<le> nConference then Inr c
      else bind_res (in_conference nConference c) (\<lambda>pos.
           if - 1 < pos then add_list env num rest c
           else bind_res (make_room env c) (\<lambda>c1.
                bind_res (store_sub (unat (conf_num c1)) (word_of_int nConference) c1) (\<lambda>c2.
                add_list env num rest (c2\<lparr>conf_num := conf_num c2 + 1\<rparr>)))))"

text \<open>The numbers to add are the one given, or those that the operator types.\<close>

definition addsubconf :: "conf_env \<Rightarrow> ConferenceType \<Rightarrow> int list \<Rightarrow> conferences \<Rightarrow> confrec \<Rightarrow> cpp_error + confrec" where
  "addsubconf env conftype intlist s c =
     (if conf_subs c = None \<or> area_count conftype s < 1 \<or> 1023 \<le> conf_num c then Inr c
      else add_list env (area_count conftype s) intlist c)"

definition shift_down :: "nat \<Rightarrow> confrec \<Rightarrow> cpp_error + confrec" where
  "shift_down pos c =
     each_res (\<lambda>i2 c. bind_res (load_sub (i2 + 1) c) (\<lambda>x. store_sub i2 x c)) [pos..<unat (conf_num c)] c"

fun delete_list :: "nat \<Rightarrow> int list \<Rightarrow> confrec \<Rightarrow> cpp_error + confrec" where
  "delete_list num [] c = Inr c"
| "delete_list num (nConference # rest) c =
     (if int num \<le> nConference then Inr c
      else bind_res (in_conference nConference c) (\<lambda>pos.
           if pos < 0 then delete_list num rest c
           else bind_res (shift_down (nat pos) c) (\<lambda>c1.
                delete_list num rest (c1\<lparr>conf_num := conf_num c1 - 1\<rparr>))))"

definition delsubconf :: "ConferenceType \<Rightarrow> int list \<Rightarrow> conferences \<Rightarrow> confrec \<Rightarrow> cpp_error + confrec" where
  "delsubconf conftype intlist s c =
     (if conf_subs c = None \<or> conf_num c < 1 then Inr c else delete_list (area_count conftype s) intlist c)"

section \<open>Lists of numbers\<close>

text \<open>\<open>strtok\<close> takes a copy apart; a word is returned in 41 bytes.\<close>

definition wordcount :: "string \<Rightarrow> string \<Rightarrow> cpp_error + nat" where
  "wordcount instr delimstr =
     (if 4096 \<le> length (c_str instr) then Inl UndefinedBehaviour else Inr (length (SplitString (c_str instr) delimstr)))"

definition extractword :: "nat \<Rightarrow> string \<Rightarrow> string \<Rightarrow> cpp_error + string" where
  "extractword ww instr delimstr =
     (if ww = 0 then Inr []
      else if 4096 \<le> length (c_str instr) then Inl UndefinedBehaviour
      else let ws = SplitString (c_str instr) delimstr
           in if ww \<le> length ws
              then (if 41 \<le> length (ws ! (ww - 1)) then Inl UndefinedBehaviour else Inr (ws ! (ww - 1)))
              else Inr [])"

abbreviation range_delims :: string where
  "range_delims \<equiv> '' -'' @ [CHR 0x09, CHR 0x0D, CHR 0x0A]"

definition mark_range :: "int \<Rightarrow> int \<Rightarrow> bool list \<Rightarrow> bool list" where
  "mark_range low high m = foldl (\<lambda>m i. m[nat i := True]) m [max low 0..min high 1023]"

definition mark_word :: "string \<Rightarrow> bool list \<Rightarrow> cpp_error + bool list" where
  "mark_word temp m =
     bind_res (wordcount temp range_delims) (\<lambda>nRangeCount.
     if nRangeCount = 0 then Inr m
     else if nRangeCount = 1
     then bind_res (extractword 1 temp range_delims) (\<lambda>w.
          let num = atoi w in Inr (if num < 1024 \<and> 0 \<le> num then m[nat num := True] else m))
     else bind_res (extractword 1 temp (range_delims @ '','')) (\<lambda>w1.
          bind_res (extractword 2 temp (range_delims @ '','')) (\<lambda>w2.
          let a = atoi w1; b = atoi w2 in Inr (mark_range (min a b) (max a b) m))))"

definition str_to_numrange :: "string \<Rightarrow> cpp_error + int list" where
  "str_to_numrange text =
     bind_res (wordcount text '','') (\<lambda>nNumWords.
     bind_res (each_res (\<lambda>word m. bind_res (extractword word text '','') (\<lambda>temp. mark_word temp m)) [1..<nNumWords + 1]
                (replicate 1024 False)) (\<lambda>m.
     Inr (map int (filter (\<lambda>i. m ! i) [0..<1024]))))"

section \<open>Renumbering\<close>

text \<open>Every number that counts is replaced.\<close>

definition renumber :: "(u16 \<Rightarrow> u16) \<Rightarrow> confrec \<Rightarrow> cpp_error + confrec" where
  "renumber f c =
     each_res (\<lambda>i1 c. bind_res (load_sub i1 c) (\<lambda>x. store_sub i1 (f x) c)) [0..<unat (conf_num c)] c"

definition insert_in_conf :: "u16 \<Rightarrow> confrec \<Rightarrow> cpp_error + confrec" where
  "insert_in_conf sub1 c =
     (if conf_num c \<noteq> 0 \<and> conf_subs c \<noteq> None then renumber (\<lambda>x. if sub1 \<le> x then x + 1 else x) c else Inr c)"

definition delete_in_conf :: "ConferenceType \<Rightarrow> conferences \<Rightarrow> u16 \<Rightarrow> confrec \<Rightarrow> cpp_error + confrec" where
  "delete_in_conf conftype s sub1 c =
     bind_res (if conf_num c \<noteq> 0 \<and> conf_subs c \<noteq> None
               then bind_res (in_conference (int (unat sub1)) c) (\<lambda>pos.
                    if pos \<noteq> - 1 then delsubconf conftype [int (unat sub1)] s c else Inr c)
               else Inr c)
       (renumber (\<lambda>x. if sub1 \<le> x then x - 1 else x))"

definition swap_in_conf :: "u16 \<Rightarrow> u16 \<Rightarrow> confrec \<Rightarrow> cpp_error + confrec" where
  "swap_in_conf sub1 sub2 c =
     bind_res (in_conference (int (unat sub1)) c) (\<lambda>pos1.
     bind_res (in_conference (int (unat sub2)) c) (\<lambda>pos2.
     bind_res (if pos1 \<noteq> - 1 then store_sub (nat pos1) sub2 c else Inr c) (\<lambda>c1.
     if pos2 \<noteq> - 1 then store_sub (nat pos2) sub1 c1 else Inr c1)))"

section \<open>The file\<close>

definition conf_comment :: string where
  "conf_comment = ''/* !!!-!!! Do not edit this file - use WWIV's conf editor! !!!-!!! */''"

definition show_byte :: "u8 \<Rightarrow> string" where
  "show_byte x = show_nat (unat x)"

definition show_word :: "u16 \<Rightarrow> string" where
  "show_word x = show_nat (unat x)"

definition write_subs :: "u16 list \<Rightarrow> bytes \<Rightarrow> bytes" where
  "write_subs xs b = foldl (\<lambda>b x. WriteFormatted (show_word x @ '' '') b) b xs"

text \<open>The record of a new conference has no block; \<open>old\<close> says whether the block is looked at.\<close>

definition write_conf :: "bool \<Rightarrow> confrec \<Rightarrow> bytes \<Rightarrow> cpp_error + bytes" where
  "write_conf old c b =
     (if 61 \<le> length (conf_name c) then Inl UndefinedBehaviour
      else let b1 = WriteFormatted (''~'' @ [designator c] @ '' '' @ conf_name c @ newline # ''!'' @
                 join (CHR '' '') [show_word (conf_status c), show_byte (minsl c), show_byte (maxsl c), show_byte (mindsl c),
                   show_byte (maxdsl c), show_byte (minage c), show_byte (maxage c), show_word (minbps c), show_byte (conf_sex c),
                   word_to_arstr (conf_ar c)] @ '' '') b;
               b2 = WriteFormatted (word_to_arstr (conf_dar c) @ newline # ''@'') b1
           in if conf_num c = 0 \<or> \<not> old \<and> conf_subs c = None then Inr (WriteFormatted [newline, newline] b2)
              else case conf_subs c of
                     None \<Rightarrow> Inl UndefinedBehaviour
                   | Some m \<Rightarrow>
                       if length m < unat (conf_num c) then Inl UndefinedBehaviour
                       else Inr (WriteFormatted [newline, newline] (write_subs (take (unat (conf_num c)) m) b2)))"

text \<open>\<open>whichnum\<close> is the place of a conference that is to come before the one there, or no place.\<close>

definition save_turn :: "confrec list \<Rightarrow> nat option \<Rightarrow> confrec option \<Rightarrow> nat \<Rightarrow> bytes \<Rightarrow> cpp_error + bytes" where
  "save_turn cp whichnum c i b =
     bind_res (case c of Some r \<Rightarrow> if whichnum = Some i then write_conf False r b else Inr b | None \<Rightarrow> Inr b) (\<lambda>b1.
     if i < length cp then write_conf True (cp ! i) b1 else Inr b1)"

definition conf_text :: "confrec list \<Rightarrow> nat option \<Rightarrow> confrec option \<Rightarrow> cpp_error + bytes" where
  "conf_text cp whichnum c =
     each_res (save_turn cp whichnum c) [0..<(if whichnum = Some (length cp) then length cp + 1 else length cp)]
       (WriteFormatted (conf_comment @ [newline, newline]) [])"

definition save_confs :: "conf_env \<Rightarrow> ConferenceType \<Rightarrow> nat option \<Rightarrow> confrec option \<Rightarrow> conferences \<Rightarrow> cpp_error + conferences" where
  "save_confs env conftype whichnum c s =
     (if \<not> writable env (conf_file conftype env) then Inr s
      else map_sum id (\<lambda>b. s\<lparr>conf_disk := (conf_disk s)(conf_file conftype env \<mapsto> b)\<rparr>)
             (conf_text (confs_of conftype s) whichnum c))"

definition update_conf ::
  "conf_env \<Rightarrow> ConferenceType \<Rightarrow> u16 option \<Rightarrow> u16 option \<Rightarrow> update_action \<Rightarrow> conferences \<Rightarrow> cpp_error + conferences" where
  "update_conf env conftype sub1 sub2 action s =
     (let all = (\<lambda>f. bind_res (map_res f (confs_of conftype s)) (\<lambda>cs. save_confs env conftype None None (set_confs conftype cs s)))
      in if confs_of conftype s = [] then Inr s
         else case (action, sub1, sub2) of
                (CONF_UPDATE_INSERT, Some a, _) \<Rightarrow> all (insert_in_conf a)
              | (CONF_UPDATE_DELETE, Some a, _) \<Rightarrow> all (delete_in_conf conftype s a)
              | (CONF_UPDATE_SWAP, Some a, Some b) \<Rightarrow> all (swap_in_conf a b)
              | _ \<Rightarrow> Inr s)"

section \<open>Reading the file\<close>

definition get_num_conferences_loop_step :: "string \<Rightarrow> nat" where
  "get_num_conferences_loop_step ls = (if ls \<noteq> [] \<and> hd ls = CHR ''~'' then 1 else 0)"

function count_lines :: "bytes \<Rightarrow> nat" where
  "count_lines b =
     (case fgets 4096 b of None \<Rightarrow> 0 | Some (ls, rest) \<Rightarrow> get_num_conferences_loop_step ls + count_lines rest)"
  by pat_completeness auto
termination
  by (relation "measure length") (auto dest: fgets_progress)

declare count_lines.simps [simp del]

definition get_num_conferences :: "string \<Rightarrow> disk \<Rightarrow> nat" where
  "get_num_conferences file_name fs = (case fs file_name of None \<Rightarrow> 0 | Some b \<Rightarrow> count_lines b)"

definition zero_conf :: confrec where
  "zero_conf = \<lparr>designator = NUL, conf_name = [], minsl = 0, maxsl = 0, mindsl = 0, maxdsl = 0, minage = 0, maxage = 0,
     conf_sex = 0, conf_status = 0, minbps = 0, conf_ar = 0, conf_dar = 0, conf_num = 0, maxnum = 0, conf_subs = None\<rparr>"

definition byte_word :: "string \<Rightarrow> u8" where
  "byte_word w = word_of_int (StringToUnsignedChar w)"

definition short_word :: "string \<Rightarrow> u16" where
  "short_word w = word_of_int (StringToUnsignedShort w)"

definition read_numbers :: "string list \<Rightarrow> confrec \<Rightarrow> cpp_error + confrec" where
  "read_numbers ws c =
     (if \<exists>w \<in> set ws. 41 \<le> length w then Inl UndefinedBehaviour
      else bind_res (str_to_arword (ws ! 9)) (\<lambda>ar. bind_res (str_to_arword (ws ! 10)) (\<lambda>dar.
        Inr (c\<lparr>conf_status := (if 2 \<le> length (ws ! 0) then short_word (tl (ws ! 0)) else conf_status c),
               minsl := byte_word (ws ! 1), maxsl := byte_word (ws ! 2), mindsl := byte_word (ws ! 3),
               maxdsl := byte_word (ws ! 4), minage := byte_word (ws ! 5), maxage := byte_word (ws ! 6),
               minbps := short_word (ws ! 7), conf_sex := byte_word (ws ! 8), conf_ar := ar, conf_dar := dar\<rparr>))))"

definition read_sub :: "int \<Rightarrow> int \<Rightarrow> nat \<times> confrec \<Rightarrow> cpp_error + nat \<times> confrec" where
  "read_sub limit i3 p =
     (case p of (i1, c) \<Rightarrow>
        if 0 \<le> i3 \<and> i3 < limit then bind_res (store_sub i1 (word_of_int i3) c) (\<lambda>c1. Inr (i1 + 1, c1)) else Inr (i1, c))"

definition read_subs :: "int \<Rightarrow> string list \<Rightarrow> confrec \<Rightarrow> cpp_error + confrec" where
  "read_subs limit ws c =
     (let num = (if length (hd ws) < 2 then 0 else word_of_nat (length ws)) :: u16;
          c1 = c\<lparr>conf_num := num, maxnum := num, conf_subs := Some (replicate (2 * unat num + 1) 0)\<rparr>;
          numbers = (if 2 \<le> length (hd ws) then atoi (tl (hd ws)) else - 1) # map atoi (tl ws)
      in bind_res (each_res (read_sub limit) numbers (0, c1)) (\<lambda>(i1, c2). Inr (c2\<lparr>conf_num := word_of_nat i1\<rparr>)))"

text \<open>A line of the file; \<open>cc\<close> is the conference that is being read, and there is memory for as many as were counted.\<close>

definition conf_line :: "int \<Rightarrow> string \<Rightarrow> nat \<times> confrec list \<Rightarrow> cpp_error + nat \<times> confrec list" where
  "conf_line limit ls p =
     (case p of (cc, cs) \<Rightarrow>
        let ws = SplitString ls DELIMS_WHITE; nw = length ws
        in if nw = 0 then Inr (cc, cs)
           else if 41 \<le> length (hd ws) then Inl UndefinedBehaviour
           else if hd (hd ws) = CHR ''~''
           then (if 1 < nw \<and> 1 < length (hd ws) \<and> 3 < length ls
                 then case SplitString (drop 3 ls) [CHR 0x0D, CHR 0x0A] of
                        [] \<Rightarrow> Inr (cc, cs)
                      | bs # _ \<Rightarrow> if cc < length cs
                                  then Inr (cc, cs[cc := (cs ! cc)\<lparr>designator := hd ws ! 1, conf_name := take 61 bs\<rparr>])
                                  else Inl UndefinedBehaviour
                 else Inr (cc, cs))
           else if hd (hd ws) = CHR ''!''
           then (if length cs \<le> cc then Inl UndefinedBehaviour
                 else if designator (cs ! cc) = NUL \<or> nw \<noteq> 11 then Inr (cc, cs)
                 else bind_res (read_numbers ws (cs ! cc)) (\<lambda>c. Inr (cc, cs[cc := c])))
           else if hd (hd ws) = CHR ''@''
           then (if length cs \<le> cc then Inl UndefinedBehaviour
                 else if designator (cs ! cc) = NUL then Inr (cc, cs)
                 else bind_res (read_subs limit ws (cs ! cc)) (\<lambda>c. Inr (cc + 1, cs[cc := c])))
           else Inr (cc, cs))"

function conf_loop :: "int \<Rightarrow> bytes \<Rightarrow> nat \<times> confrec list \<Rightarrow> cpp_error + confrec list" where
  "conf_loop limit b p =
     (case fgets 4096 b of
        None \<Rightarrow> Inr (snd p)
      | Some (ls, rest) \<Rightarrow>
          if MAX_CONFERENCES \<le> fst p then Inr (snd p) else bind_res (conf_line limit (c_str ls) p) (conf_loop limit rest))"
  by pat_completeness auto
termination
  by (relation "measure (\<lambda>(_, b, _). length b)") (auto dest: fgets_progress)

declare conf_loop.simps [simp del]

definition read_conferences :: "string \<Rightarrow> int \<Rightarrow> disk \<Rightarrow> cpp_error + confrec list option" where
  "read_conferences file_name limit fs =
     (let nc = get_num_conferences file_name fs
      in if nc < 1 then Inr None
         else case fs file_name of
                None \<Rightarrow> Inr None
              | Some b \<Rightarrow> map_sum id Some (conf_loop limit b (0, replicate nc zero_conf)))"

definition create_conf_file :: "conf_env \<Rightarrow> ConferenceType \<Rightarrow> conferences \<Rightarrow> bool \<times> conferences" where
  "create_conf_file env conftype s =
     (if \<not> writable env (conf_file conftype env) then (False, s)
      else let b = WriteFormatted (conf_comment @ [newline, newline]) [];
               b1 = WriteFormatted (''~A General'' @ newline # ''!0 0 255 0 255 0 255 0 2 - -'' @ newline # ''@'') b;
               b2 = foldl (\<lambda>b i. WriteFormatted (show_nat i @ '' '') b) b1 [0..<area_count conftype s]
           in (True, s\<lparr>conf_disk := (conf_disk s)(conf_file conftype env \<mapsto> WriteFormatted [newline, newline] b2)\<rparr>))"

definition read_in_conferences :: "conf_env \<Rightarrow> ConferenceType \<Rightarrow> conferences \<Rightarrow> cpp_error + conferences option" where
  "read_in_conferences env conftype s =
     (if 81 \<le> length (conf_file conftype env) then Inl UndefinedBehaviour
      else let (made, s1) = (if conf_disk s (conf_file conftype env) = None then create_conf_file env conftype s else (True, s))
           in if \<not> made then Inr None
              else bind_res (read_conferences (conf_file conftype env) (int (area_count conftype s1)) (conf_disk s1)) (\<lambda>r.
                   Inr (map_option (\<lambda>cs. set_confs conftype cs s1) r)))"

definition read_all_conferences :: "conf_env \<Rightarrow> conferences \<Rightarrow> cpp_error + conferences option" where
  "read_all_conferences env s =
     bind_res (read_in_conferences env CONF_SUBS s) (\<lambda>r. case r of None \<Rightarrow> Inr None | Some s1 \<Rightarrow> read_in_conferences env CONF_DIRS s1)"

section \<open>Editing\<close>

definition first_available_designator :: "ConferenceType \<Rightarrow> conferences \<Rightarrow> char" where
  "first_available_designator conftype s =
     (if length (confs_of conftype s) = MAX_CONFERENCES then NUL
      else case find (\<lambda>i. \<forall>c \<in> set (confs_of conftype s). designator c \<noteq> char_of (65 + i)) [0..<MAX_CONFERENCES] of
             None \<Rightarrow> NUL
           | Some i \<Rightarrow> char_of (65 + i))"

definition new_conf :: "char \<Rightarrow> confrec" where
  "new_conf d = zero_conf\<lparr>designator := d, conf_name := ''Conference '' @ [d], maxsl := 255, maxdsl := 255, maxage := 255, conf_sex := 2\<rparr>"

definition insert_conf ::
  "conf_env \<Rightarrow> (nat \<Rightarrow> conferences \<Rightarrow> bool \<times> conferences) \<Rightarrow> ConferenceType \<Rightarrow> nat \<Rightarrow> conferences \<Rightarrow> cpp_error + conferences option" where
  "insert_conf env modify_conf conftype n s =
     (let d = first_available_designator conftype s
      in if length (confs_of conftype s) < n \<or> d = NUL then Inr (Some s)
         else bind_res (save_confs env conftype (Some n) (Some (new_conf d)) s) (\<lambda>s1.
              bind_res (read_in_conferences env conftype s1) (\<lambda>r. case r of
                None \<Rightarrow> Inr None
              | Some s2 \<Rightarrow> let (changed, s3) = modify_conf n s2
                           in if changed then map_sum id Some (save_confs env conftype None None s3) else Inr (Some s3))))"

definition delete_conf :: "conf_env \<Rightarrow> ConferenceType \<Rightarrow> nat \<Rightarrow> conferences \<Rightarrow> cpp_error + conferences option" where
  "delete_conf env conftype n s =
     (if length (confs_of conftype s) \<le> n then Inr (Some s)
      else bind_res (save_confs env conftype (Some n) None s) (read_in_conferences env conftype))"

definition sort_conf_str :: "string \<Rightarrow> string" where
  "sort_conf_str t =
     StringTrimEnd (map (\<lambda>i. if char_of (65 + i) \<in> set (c_str (take 81 t)) then char_of (65 + i) else CHR '' '') [0..<MAX_CONFERENCES])"

end
