(* ===== verification/Bbs_Conf_Update.thy ===== *)
theory Bbs_Conf_Update
  imports Bbs_Conf
begin

text \<open>
  When a message area or file area is inserted, deleted or exchanged with another one the numbers of the
  areas change, and \<open>update_conf\<close> changes the conferences so that they go on showing the same areas.
\<close>

section \<open>What a conference shows\<close>

definition areas :: "confrec \<Rightarrow> nat list" where
  "areas c = (case conf_subs c of None \<Rightarrow> [] | Some b \<Rightarrow> map unat (take (unat (conf_num c)) b))"

definition shown :: "'a list \<Rightarrow> confrec \<Rightarrow> 'a list" where
  "shown as c = map (nth as) (areas c)"

text \<open>The block is larger than the numbers in it, which are those of \<open>n\<close> areas and all different.\<close>

definition conf_ok :: "nat \<Rightarrow> confrec \<Rightarrow> bool" where
  "conf_ok n c \<longleftrightarrow> (\<exists>b. conf_subs c = Some b \<and> unat (conf_num c) < length b) \<and> distinct (areas c) \<and> (\<forall>x \<in> set (areas c). x < n)"

lemma areas_block: "conf_subs c = Some b \<Longrightarrow> areas c = map unat (take (unat (conf_num c)) b)"
  by (simp add: areas_def)

lemma areas_simps [simp]:
  "areas (c\<lparr>conf_subs := Some b\<rparr>) = map unat (take (unat (conf_num c)) b)"
  by (simp add: areas_def)

section \<open>The loops\<close>

lemma each_res_upto:
  assumes "i \<le> j" "P i s" "\<And>k s. i \<le> k \<Longrightarrow> k < j \<Longrightarrow> P k s \<Longrightarrow> \<exists>s'. f k s = Inr s' \<and> P (Suc k) s'"
  shows "\<exists>s'. each_res f [i..<j] s = Inr s' \<and> P j s'"
  using assms
proof (induction j)
  case (Suc j)
  show ?case
  proof (cases "i = Suc j")
    case True
    then show ?thesis using Suc.prems(2) by simp
  next
    case False
    then obtain s1 where "each_res f [i..<j] s = Inr s1" "P j s1" using Suc by fastforce
    then show ?thesis using Suc.prems(3) [of j s1] False Suc.prems(1) by auto
  qed
qed simp

lemma renumber_eq:
  assumes b: "conf_subs c = Some b" "unat (conf_num c) \<le> length b"
  shows "renumber f c = Inr (c\<lparr>conf_subs := Some (map f (take (unat (conf_num c)) b) @ drop (unat (conf_num c)) b)\<rparr>)"
proof -
  let ?P = "\<lambda>k c'. c' = c\<lparr>conf_subs := Some (map f (take k b) @ drop k b)\<rparr>"
  have "\<exists>c'. renumber f c = Inr c' \<and> ?P (unat (conf_num c)) c'" unfolding renumber_def
  proof (rule each_res_upto [where P = ?P])
    fix k c' assume k: "0 \<le> k" "k < unat (conf_num c)" and c': "?P k c'"
    have l: "k < length b" using k b(2) by simp
    then have nth: "(map f (take k b) @ drop k b) ! k = b ! k" by (simp add: nth_append)
    have "(map f (take k b) @ drop k b)[k := f (b ! k)] = map f (take (Suc k) b) @ drop (Suc k) b"
      using l by (simp add: list_update_append take_Suc_conv_app_nth flip: Cons_nth_drop_Suc)
    then show "\<exists>c''. bind_res (load_sub k c') (\<lambda>x. store_sub k (f x) c') = Inr c'' \<and> ?P (Suc k) c''"
      using l nth c' by (simp add: load_sub_def store_sub_def)
  qed (use b in simp_all)
  then show ?thesis by simp
qed

lemma shift_down_eq:
  assumes b: "conf_subs c = Some b" "unat (conf_num c) < length b" and pos: "pos < unat (conf_num c)"
  defines "n \<equiv> unat (conf_num c)"
  shows "\<exists>b'. shift_down pos c = Inr (c\<lparr>conf_subs := Some b'\<rparr>) \<and> length b' = length b \<and> take (n - 1) b' = take pos b @ drop (Suc pos) (take n b)"
proof -
  let ?P = "\<lambda>k c'. \<exists>b'. c' = c\<lparr>conf_subs := Some b'\<rparr> \<and> length b' = length b \<and> take k b' = take pos b @ drop (Suc pos) (take (Suc k) b) \<and> drop k b' = drop k b"
  have "\<exists>c'. shift_down pos c = Inr c' \<and> ?P n c'" unfolding shift_down_def n_def
  proof (rule each_res_upto [where P = ?P])
    show "pos \<le> unat (conf_num c)" using pos by simp
    show "?P pos c" using b by (intro exI [of _ b]) simp
    fix k c' assume k: "pos \<le> k" "k < unat (conf_num c)" and "?P k c'"
    then obtain b' where c': "c' = c\<lparr>conf_subs := Some b'\<rparr>" "length b' = length b"
      "take k b' = take pos b @ drop (Suc pos) (take (Suc k) b)" "drop k b' = drop k b" by auto
    have l: "Suc k < length b" "k < length b" using k b(2) by simp_all
    have nth: "b' ! Suc k = b ! Suc k" using arg_cong [OF c'(4), of "\<lambda>xs. xs ! 1"] l c'(2) by simp
    let ?b = "b'[k := b ! Suc k]"
    have "take (Suc k) ?b = take k b' @ [b ! Suc k]" using l c'(2) by (simp add: take_Suc_conv_app_nth)
    also have "\<dots> = take pos b @ drop (Suc pos) (take (Suc (Suc k)) b)" using c'(3) k(1) l by (simp add: take_Suc_conv_app_nth [of "Suc k"])
    finally have t: "take (Suc k) ?b = take pos b @ drop (Suc pos) (take (Suc (Suc k)) b)" .
    have d: "drop (Suc k) ?b = drop (Suc k) b" using arg_cong [OF c'(4), of "drop 1"] by simp
    have run: "bind_res (load_sub (k + 1) c') (\<lambda>x. store_sub k x c') = Inr (c\<lparr>conf_subs := Some ?b\<rparr>)"
      using c'(1,2) l nth by (simp add: load_sub_def store_sub_def)
    show "\<exists>c''. bind_res (load_sub (k + 1) c') (\<lambda>x. store_sub k x c') = Inr c'' \<and> ?P (Suc k) c''"
      unfolding run using t d c'(2) by auto
  qed
  then obtain b' where b': "shift_down pos c = Inr (c\<lparr>conf_subs := Some b'\<rparr>)" "length b' = length b"
    "take n b' = take pos b @ drop (Suc pos) (take (Suc n) b)" by blast
  have "take (n - 1) b' = take (n - 1) (take n b')" by (simp add: min_def)
  also have "\<dots> = take pos b @ drop (Suc pos) (take n b)"
    unfolding b'(3) using pos b(2) by (cases "n - 1 = pos") (auto simp: n_def take_drop min_def)
  finally show ?thesis using b'(1,2) by blast
qed

lemma first_index_snoc:
  "first_index s (b @ [x]) = (if first_index s b = - 1 \<and> int (unat x) = s then int (length b) else first_index s b)"
proof -
  let ?f = "\<lambda>b n i. if n = - 1 \<and> int (unat (b ! i)) = s then int i else n"
  have "foldl (?f (b @ [x])) a [0..<length b] = foldl (?f b) a [0..<length b]" for a
    by (rule foldl_cong) (simp_all add: nth_append)
  then show ?thesis by (simp add: first_index_def)
qed

lemma first_index_cases:
  "first_index s b = - 1 \<and> s \<notin> int ` unat ` set b
    \<or> (\<exists>i < length b. first_index s b = int i \<and> int (unat (b ! i)) = s)"
proof (induction b rule: rev_induct)
  case (snoc x b)
  then show ?case by (auto simp: first_index_snoc nth_append intro: exI [of _ "length b"])
qed (simp add: first_index_def)

lemma in_conference_cases:
  assumes "conf_ok n c"
  obtains "in_conference (int k) c = Inr (- 1)" "k \<notin> set (areas c)"
  | i where "in_conference (int k) c = Inr (int i)" "i < length (areas c)" "areas c ! i = k" "i < unat (conf_num c)"
proof -
  obtain b where b: "conf_subs c = Some b" "unat (conf_num c) < length b" using assms by (auto simp: conf_ok_def)
  let ?b = "take (unat (conf_num c)) b"
  have a: "areas c = map unat ?b" using b by (simp add: areas_def)
  show ?thesis
  proof (cases "conf_num c = 0")
    case True
    then show ?thesis using that(1) b a by (simp add: in_conference_def)
  next
    case False
    then have run: "in_conference (int k) c = Inr (first_index (int k) ?b)" using b by (simp add: in_conference_def)
    from first_index_cases [of "int k" ?b] show ?thesis
    proof
      assume "first_index (int k) ?b = - 1 \<and> int k \<notin> int ` unat ` set ?b"
      then show ?thesis using that(1) run a by (auto simp: image_iff)
    next
      assume "\<exists>i < length ?b. first_index (int k) ?b = int i \<and> int (unat (?b ! i)) = int k"
      then obtain i where "i < length ?b" "first_index (int k) ?b = int i" "int (unat (?b ! i)) = int k" by blast
      moreover from this have "unat (?b ! i) = k" by (simp only: of_nat_eq_iff)
      ultimately have "i < length ?b" "first_index (int k) ?b = int i" "unat (?b ! i) = k" by simp_all
      then show ?thesis using that(2) [of i] run a by simp
    qed
  qed
qed

section \<open>One conference\<close>

text \<open>What happens to the areas: they are listed in \<open>as\<close> before, and in \<open>arrange ch as\<close> after it.\<close>

datatype 'a change = Insert nat 'a | Delete nat | Swap nat nat

fun arrange :: "'a change \<Rightarrow> 'a list \<Rightarrow> 'a list" where
  "arrange (Insert k x) as = take k as @ x # drop k as"
| "arrange (Delete k) as = take k as @ drop (Suc k) as"
| "arrange (Swap i j) as = as[i := as ! j, j := as ! i]"

fun possible :: "'a change \<Rightarrow> nat \<Rightarrow> bool" where
  "possible (Insert k x) n \<longleftrightarrow> k \<le> n"
| "possible (Delete k) n \<longleftrightarrow> k < n"
| "possible (Swap i j) n \<longleftrightarrow> i < n \<and> j < n"

fun stays :: "'a change \<Rightarrow> nat \<Rightarrow> bool" where
  "stays (Delete k) x \<longleftrightarrow> x \<noteq> k"
| "stays _ x \<longleftrightarrow> True"

fun new_number :: "'a change \<Rightarrow> nat \<Rightarrow> nat" where
  "new_number (Insert k y) x = (if k \<le> x then x + 1 else x)"
| "new_number (Delete k) x = (if k \<le> x then x - 1 else x)"
| "new_number (Swap i j) x = (if x = i then j else if x = j then i else x)"

lemma nth_new_number:
  "possible ch (length as) \<Longrightarrow> x < length as \<Longrightarrow> stays ch x \<Longrightarrow> arrange ch as ! new_number ch x = as ! x \<and> new_number ch x < length (arrange ch as)"
  by (cases ch) (auto simp: nth_append nth_Cons' nth_list_update min_def)

lemma inj_new_number: "stays ch x \<Longrightarrow> stays ch y \<Longrightarrow> new_number ch x = new_number ch y \<Longrightarrow> x = y"
  by (cases ch) (auto split: if_splits)

text \<open>What the loops do to the numbers, in terms of the numbers.\<close>

definition settings_kept :: "confrec \<Rightarrow> confrec \<Rightarrow> bool" where
  "settings_kept c c' \<longleftrightarrow> (\<exists>n b. c' = c\<lparr>conf_num := n, conf_subs := b\<rparr>)"

lemma settings_kept_simps [simp]:
  "settings_kept c c" "settings_kept c (c\<lparr>conf_subs := b\<rparr>)" "settings_kept c (c\<lparr>conf_num := n, conf_subs := b\<rparr>)"
  "settings_kept c (c\<lparr>conf_subs := b, conf_num := n\<rparr>)"
proof -
  have "c = c\<lparr>conf_num := conf_num c, conf_subs := conf_subs c\<rparr>"
    "c\<lparr>conf_subs := b\<rparr> = c\<lparr>conf_num := conf_num c, conf_subs := b\<rparr>" by simp_all
  then show "settings_kept c c" "settings_kept c (c\<lparr>conf_subs := b\<rparr>)" unfolding settings_kept_def by blast+
  show "settings_kept c (c\<lparr>conf_num := n, conf_subs := b\<rparr>)" "settings_kept c (c\<lparr>conf_subs := b, conf_num := n\<rparr>)"
    unfolding settings_kept_def by (rule exI [of _ n], rule exI [of _ b], simp)+
qed

lemma settings_kept_trans: "settings_kept c d \<Longrightarrow> settings_kept d e \<Longrightarrow> settings_kept c e"
proof -
  assume "settings_kept c d" "settings_kept d e"
  then obtain n b n' b' where d: "d = c\<lparr>conf_num := n, conf_subs := b\<rparr>" and e: "e = d\<lparr>conf_num := n', conf_subs := b'\<rparr>"
    by (auto simp: settings_kept_def)
  have "e = c\<lparr>conf_num := n', conf_subs := b'\<rparr>" unfolding e d by simp
  then show ?thesis unfolding settings_kept_def by blast
qed

definition updated :: "'a change \<Rightarrow> confrec \<Rightarrow> confrec \<Rightarrow> bool" where
  "updated ch c c' \<longleftrightarrow> settings_kept c c' \<and> areas c' = map (new_number ch) (filter (stays ch) (areas c))
     \<and> (\<exists>b'. conf_subs c' = Some b' \<and> unat (conf_num c') < length b')"

lemma updated_shown:
  assumes u: "updated ch c c'" and ok: "conf_ok (length as) c" and p: "possible ch (length as)"
  shows "shown (arrange ch as) c' = map (nth as) (filter (stays ch) (areas c)) \<and> conf_ok (length (arrange ch as)) c'"
proof -
  have lt: "\<forall>x \<in> set (areas c). x < length as" "distinct (areas c)" using ok by (simp_all add: conf_ok_def)
  have a: "areas c' = map (new_number ch) (filter (stays ch) (areas c))" using u by (simp add: updated_def)
  have "distinct (areas c')" unfolding a
    using lt(2) inj_new_number [of ch] by (auto simp: distinct_map inj_on_def)
  then show ?thesis using u lt(1) nth_new_number [OF p] by (auto simp: shown_def a conf_ok_def updated_def)
qed

lemma renumber_updated:
  assumes b: "conf_subs c = Some b" "unat (conf_num c) < length b" and f: "\<forall>x \<in> set (take (unat (conf_num c)) b). unat (f x) = g (unat x)"
  shows "\<exists>c'. renumber f c = Inr c' \<and> settings_kept c c' \<and> areas c' = map g (areas c)
    \<and> (\<exists>b'. conf_subs c' = Some b' \<and> unat (conf_num c') < length b') \<and> conf_num c' = conf_num c"
  using renumber_eq [OF b(1), of f] b f by (auto simp: areas_def)

lemma insert_updated:
  assumes ok: "conf_ok n c" and k: "k \<le> n" "n < 65535"
  shows "\<exists>c'. insert_in_conf (word_of_nat k) c = Inr c' \<and> updated (Insert k x) c c'"
proof -
  obtain b where b: "conf_subs c = Some b" "unat (conf_num c) < length b" using ok by (auto simp: conf_ok_def)
  have a: "areas c = map unat (take (unat (conf_num c)) b)" using b by (simp add: areas_def)
  let ?f = "\<lambda>x :: u16. if word_of_nat k \<le> x then x + 1 else x"
  have f: "unat (?f y) = new_number (Insert k x) (unat y)" if "unat y < n" for y
    using that k by (auto simp: word_le_nat_alt unat_of_nat unat_word_ariths)
  have "\<forall>y \<in> set (take (unat (conf_num c)) b). unat (?f y) = new_number (Insert k x) (unat y)"
    using ok a f by (auto simp: conf_ok_def)
  from renumber_updated [OF b this] obtain c' where "renumber ?f c = Inr c'" "updated (Insert k x) c c'"
    by (auto simp: updated_def)
  moreover have "insert_in_conf (word_of_nat k) c = renumber ?f c"
    using b(1) by (auto simp: insert_in_conf_def renumber_def)
  ultimately show ?thesis by auto
qed

lemma delete_distinct: "distinct xs \<Longrightarrow> i < length xs \<Longrightarrow> take i xs @ drop (Suc i) xs = filter (\<lambda>y. y \<noteq> xs ! i) xs"
proof -
  assume d: "distinct xs" "i < length xs"
  have xs: "xs = take i xs @ xs ! i # drop (Suc i) xs" by (rule id_take_nth_drop [OF d(2)])
  have n: "xs ! i \<notin> set (take i xs)" "xs ! i \<notin> set (drop (Suc i) xs)" using d xs by (metis distinct.simps(2) distinct_append disjoint_iff list.set_intros(1))+
  have "filter (\<lambda>y. y \<noteq> xs ! i) (take i xs @ xs ! i # drop (Suc i) xs) = take i xs @ drop (Suc i) xs"
  proof -
    have "filter (\<lambda>y. y \<noteq> xs ! i) (take i xs) = take i xs" by (rule filter_True) (metis n(1))
    moreover have "filter (\<lambda>y. y \<noteq> xs ! i) (drop (Suc i) xs) = drop (Suc i) xs" by (rule filter_True) (metis n(2))
    ultimately show ?thesis by simp
  qed
  then show ?thesis using xs by simp
qed

lemma delete_number:
  assumes ok: "conf_ok (area_count conftype s) c" and k: "k < area_count conftype s" "k < 65536"
  shows "\<exists>c'. (if conf_num c \<noteq> 0 \<and> conf_subs c \<noteq> None
      then bind_res (in_conference (int (unat (word_of_nat k :: u16))) c) (\<lambda>pos.
           if pos \<noteq> - 1 then delsubconf conftype [int (unat (word_of_nat k :: u16))] s c else Inr c)
      else Inr c) = Inr c' \<and> settings_kept c c' \<and> areas c' = filter (\<lambda>x. x \<noteq> k) (areas c)
    \<and> (\<exists>b'. conf_subs c' = Some b' \<and> unat (conf_num c') < length b')"
proof -
  obtain b where b: "conf_subs c = Some b" "unat (conf_num c) < length b" using ok by (auto simp: conf_ok_def)
  have d: "distinct (areas c)" using ok by (simp add: conf_ok_def)
  have u: "unat (word_of_nat k :: u16) = k" using k(2) by (simp add: unat_of_nat)
  show ?thesis unfolding u
  proof (cases rule: in_conference_cases [OF ok, of k])
    case 1
    then have "filter (\<lambda>x. x \<noteq> k) (areas c) = areas c" by (auto simp: filter_id_conv)
    then show "\<exists>c'. (if conf_num c \<noteq> 0 \<and> conf_subs c \<noteq> None
      then bind_res (in_conference (int k) c) (\<lambda>pos. if pos \<noteq> - 1 then delsubconf conftype [int k] s c else Inr c)
      else Inr c) = Inr c' \<and> settings_kept c c' \<and> areas c' = filter (\<lambda>x. x \<noteq> k) (areas c)
    \<and> (\<exists>b'. conf_subs c' = Some b' \<and> unat (conf_num c') < length b')"
      using 1 b by auto
  next
    case (2 i)
    then have n: "conf_num c \<noteq> 0" "0 < unat (conf_num c)" by (auto simp: unat_gt_0)
    obtain b' where b': "shift_down i c = Inr (c\<lparr>conf_subs := Some b'\<rparr>)" "length b' = length b"
      "take (unat (conf_num c) - 1) b' = take i b @ drop (Suc i) (take (unat (conf_num c)) b)"
      using shift_down_eq [OF b 2(4)] by blast
    let ?c = "c\<lparr>conf_subs := Some b', conf_num := conf_num c - 1\<rparr>"
    have m: "unat (conf_num c - 1) = unat (conf_num c) - 1" using n by (simp add: unat_minus_one)
    have "areas ?c = map unat (take i b @ drop (Suc i) (take (unat (conf_num c)) b))"
      using b'(3) by (simp add: areas_def m)
    also have "\<dots> = take i (areas c) @ drop (Suc i) (areas c)"
      using b 2(4) by (simp add: areas_def take_map drop_map min_def)
    also have "\<dots> = filter (\<lambda>x. x \<noteq> k) (areas c)" using delete_distinct [OF d 2(2)] 2(3) by simp
    finally have a: "areas ?c = filter (\<lambda>x. x \<noteq> k) (areas c)" .
    have "delsubconf conftype [int k] s c = Inr ?c"
      using b n 2(1) k(1) b'(1) by (simp add: delsubconf_def)
    then show "\<exists>c'. (if conf_num c \<noteq> 0 \<and> conf_subs c \<noteq> None
      then bind_res (in_conference (int k) c) (\<lambda>pos. if pos \<noteq> - 1 then delsubconf conftype [int k] s c else Inr c)
      else Inr c) = Inr c' \<and> settings_kept c c' \<and> areas c' = filter (\<lambda>x. x \<noteq> k) (areas c)
    \<and> (\<exists>b'. conf_subs c' = Some b' \<and> unat (conf_num c') < length b')"
      using 2(1) n b a b'(2) m by auto
  qed
qed

lemma delete_updated:
  assumes ok: "conf_ok (area_count conftype s) c" and k: "k < area_count conftype s" "k < 65536"
  shows "\<exists>c'. delete_in_conf conftype s (word_of_nat k) c = Inr c' \<and> updated (Delete k :: 'x change) c c'"
proof -
  let ?f = "\<lambda>x :: u16. if word_of_nat k \<le> x then x - 1 else x"
  obtain c1 b1 where c1: "delete_in_conf conftype s (word_of_nat k) c = renumber ?f c1" "settings_kept c c1"
    "areas c1 = filter (\<lambda>x. x \<noteq> k) (areas c)" "conf_subs c1 = Some b1" "unat (conf_num c1) < length b1"
    using delete_number [OF ok k] by (auto simp: delete_in_conf_def)
  have f: "unat (?f y) = new_number (Delete k :: 'x change) (unat y)" if "unat y \<noteq> k" for y
  proof (cases "k \<le> unat y")
    case True
    then have "y \<noteq> 0" using that by auto
    then show ?thesis using True k(2) by (simp add: word_le_nat_alt unat_of_nat unat_minus_one)
  qed (use k(2) in \<open>simp add: word_le_nat_alt unat_of_nat\<close>)
  have "k \<notin> set (areas c1)" using c1(3) by simp
  then have n: "unat y \<noteq> k" if "y \<in> set (take (unat (conf_num c1)) b1)" for y
    using that c1(4) by (auto simp: areas_def)
  have "\<forall>y \<in> set (take (unat (conf_num c1)) b1). unat (?f y) = new_number (Delete k :: 'x change) (unat y)"
    by (rule ballI, rule f, rule n)
  from renumber_updated [OF c1(4,5) this] obtain c' where c': "renumber ?f c1 = Inr c'" "settings_kept c1 c'"
    "areas c' = map (new_number (Delete k :: 'x change)) (areas c1)" "\<exists>b'. conf_subs c' = Some b' \<and> unat (conf_num c') < length b'"
    by auto
  have "settings_kept c c'" using c1(2) c'(2) by (rule settings_kept_trans)
  moreover have "filter (stays (Delete k :: 'x change)) (areas c) = areas c1" unfolding c1(3) by (rule filter_cong) simp_all
  ultimately show ?thesis using c1(1) c'(1,3,4) by (auto simp: updated_def)
qed

lemma store_area:
  assumes "conf_subs c = Some b" "unat (conf_num c) < length b" "i < unat (conf_num c)" "j < 65536"
  shows "\<exists>c'. store_sub i (word_of_nat j) c = Inr c' \<and> settings_kept c c' \<and> areas c' = (areas c)[i := j] \<and> conf_num c' = conf_num c
    \<and> (\<exists>b'. conf_subs c' = Some b' \<and> unat (conf_num c') < length b')"
  using assms by (auto simp: store_sub_def areas_def take_update_swap map_update unat_of_nat)

lemma update_absent: "distinct xs \<Longrightarrow> p < length xs \<Longrightarrow> xs ! p = x \<Longrightarrow> xs[p := y] = map (\<lambda>z. if z = x then y else z) xs"
  by (rule nth_equalityI) (auto simp: nth_list_update nth_eq_iff_index_eq)

lemma update_both:
  "distinct xs \<Longrightarrow> p < length xs \<Longrightarrow> q < length xs \<Longrightarrow> xs ! p = x \<Longrightarrow> xs ! q = y \<Longrightarrow>
    xs[p := y, q := x] = map (\<lambda>z. if z = x then y else if z = y then x else z) xs"
  by (rule nth_equalityI) (auto simp: nth_list_update nth_eq_iff_index_eq)

lemma swap_updated:
  assumes ok: "conf_ok n c" and i: "i < n" "j < n" "n < 65536"
  shows "\<exists>c'. swap_in_conf (word_of_nat i) (word_of_nat j) c = Inr c' \<and> updated (Swap i j) c c'"
proof -
  obtain b where b: "conf_subs c = Some b" "unat (conf_num c) < length b" using ok by (auto simp: conf_ok_def)
  have d: "distinct (areas c)" using ok by (simp add: conf_ok_def)
  have u: "unat (word_of_nat i :: u16) = i" "unat (word_of_nat j :: u16) = j" using i by (simp_all add: unat_of_nat)
  have la: "length (areas c) = unat (conf_num c)" using b by (simp add: areas_def)
  have st: "filter (stays (Swap i j)) (areas c) = areas c" for i j :: nat by (simp add: filter_id_conv)
  let ?Q = "\<lambda>c'. updated (Swap i j) c c'"
  show ?thesis
  proof (cases rule: in_conference_cases [OF ok, of i])
    case i: 1
    show ?thesis
    proof (cases rule: in_conference_cases [OF ok, of j])
      case 1
      have "areas c = map (new_number (Swap i j)) (areas c)" using i(2) 1(2) by (intro map_idI [symmetric]) auto
      then have "updated (Swap i j) c c" unfolding updated_def st using b by simp
      then show ?thesis using i(1) 1(1) by (simp add: swap_in_conf_def u)
    next
      case (2 q)
      obtain c' where c': "store_sub q (word_of_nat i) c = Inr c'" "settings_kept c c'" "areas c' = (areas c)[q := i]"
        "\<exists>b'. conf_subs c' = Some b' \<and> unat (conf_num c') < length b'"
        using store_area [OF b 2(4), of i] assms(2,4) by auto
      have "areas c' = map (new_number (Swap i j)) (areas c)"
        unfolding c'(3) update_absent [OF d 2(2,3)] using i(2) by (intro map_cong) auto
      then show ?thesis using i(1) 2(1) c' st by (auto simp: swap_in_conf_def u updated_def)
    qed
  next
    case p: (2 p)
    obtain c1 b1 where c1: "store_sub p (word_of_nat j) c = Inr c1" "settings_kept c c1" "areas c1 = (areas c)[p := j]"
      "conf_num c1 = conf_num c" "conf_subs c1 = Some b1" "unat (conf_num c1) < length b1"
      using store_area [OF b p(4), of j] assms(3,4) by auto
    show ?thesis
    proof (cases rule: in_conference_cases [OF ok, of j])
      case 1
      have "areas c1 = map (new_number (Swap i j)) (areas c)"
        unfolding c1(3) update_absent [OF d p(2,3)] using 1(2) by (intro map_cong) auto
      then show ?thesis using p(1) 1(1) c1 st by (auto simp: swap_in_conf_def u updated_def)
    next
      case (2 q)
      have q: "q < unat (conf_num c1)" using 2(4) c1(4) by simp
      obtain c' where c': "store_sub q (word_of_nat i) c1 = Inr c'" "settings_kept c1 c'" "areas c' = (areas c1)[q := i]"
        "\<exists>b'. conf_subs c' = Some b' \<and> unat (conf_num c') < length b'"
        using store_area [OF c1(5,6) q, of i] assms(2,4) by auto
      have "areas c' = map (new_number (Swap i j)) (areas c)"
        unfolding c'(3) c1(3) update_both [OF d p(2) 2(2) p(3) 2(3)] by (intro map_cong) auto
      then show ?thesis using p(1) 2(1) c1(1) c' settings_kept_trans [OF c1(2) c'(2)] st by (auto simp: swap_in_conf_def u updated_def)
    qed
  qed
qed

section \<open>All conferences\<close>

fun update_args :: "'a change \<Rightarrow> u16 option \<times> u16 option \<times> update_action" where
  "update_args (Insert k x) = (Some (word_of_nat k), None, CONF_UPDATE_INSERT)"
| "update_args (Delete k) = (Some (word_of_nat k), None, CONF_UPDATE_DELETE)"
| "update_args (Swap i j) = (Some (word_of_nat i), Some (word_of_nat j), CONF_UPDATE_SWAP)"

lemma map_res_updated:
  "(\<And>c. c \<in> set cs \<Longrightarrow> \<exists>c'. f c = Inr c' \<and> R c c') \<Longrightarrow> \<exists>cs'. map_res f cs = Inr cs' \<and> list_all2 R cs cs'"
proof (induction cs)
  case (Cons c cs)
  obtain c' where c': "f c = Inr c'" "R c c'" using Cons.prems [of c] by auto
  obtain cs' where "map_res f cs = Inr cs'" "list_all2 R cs cs'" using Cons by auto
  then show ?case using c' by (intro exI [of _ "c' # cs'"]) simp
qed simp

text \<open>C13 The conferences follow the areas: when an area is inserted or deleted or two are exchanged,
  \<open>update_conf\<close> makes every conference show the areas that it showed before, in the same order and without the
  one that was deleted, changes nothing else of it, and then writes the conferences to their file.
\<close>

theorem update_conf_follows:
  assumes as: "length as = area_count conftype s" "length as < 65535" and ch: "possible ch (length as)"
    and cs: "confs_of conftype s \<noteq> []" "\<forall>c \<in> set (confs_of conftype s). conf_ok (length as) c"
    and args: "update_args ch = (sub1, sub2, action)"
  shows "\<exists>cs'. update_conf env conftype sub1 sub2 action s = save_confs env conftype None None (set_confs conftype cs' s)
    \<and> list_all2 (\<lambda>c c'. settings_kept c c' \<and> shown (arrange ch as) c' = map (nth as) (filter (stays ch) (areas c))
         \<and> conf_ok (length (arrange ch as)) c') (confs_of conftype s) cs'"
proof -
  define f where "f = (case ch of Insert k x \<Rightarrow> insert_in_conf (word_of_nat k) | Delete k \<Rightarrow> delete_in_conf conftype s (word_of_nat k)
    | Swap i j \<Rightarrow> swap_in_conf (word_of_nat i) (word_of_nat j))"
  have up: "\<exists>c'. f c = Inr c' \<and> updated ch c c'" if "conf_ok (length as) c" for c
  proof (cases ch)
    case (Insert k x)
    then show ?thesis using insert_updated [OF that, of k x] as ch by (simp add: f_def)
  next
    case (Delete k)
    then show ?thesis using delete_updated [of conftype s c k] that as ch by (simp add: f_def)
  next
    case (Swap i j)
    then show ?thesis using swap_updated [OF that, of i j] as ch by (simp add: f_def)
  qed
  have "\<exists>cs'. map_res f (confs_of conftype s) = Inr cs' \<and> list_all2 (updated ch) (confs_of conftype s) cs'"
    by (rule map_res_updated) (use up cs(2) in blast)
  then obtain cs' where cs': "map_res f (confs_of conftype s) = Inr cs'" "list_all2 (updated ch) (confs_of conftype s) cs'" by blast
  have "update_conf env conftype sub1 sub2 action s = save_confs env conftype None None (set_confs conftype cs' s)"
    using args cs(1) cs'(1) by (cases ch) (auto simp: update_conf_def f_def Let_def)
  moreover have "list_all2 (\<lambda>c c'. settings_kept c c' \<and> shown (arrange ch as) c' = map (nth as) (filter (stays ch) (areas c))
         \<and> conf_ok (length (arrange ch as)) c') (confs_of conftype s) cs'"
    using cs'(2) by (rule list.rel_mono_strong) (use updated_shown [OF _ _ ch] cs(2) in \<open>auto simp: updated_def\<close>)
  ultimately show ?thesis by blast
qed

text \<open>Three areas, of which a conference shows two; the middle one is deleted.\<close>

definition example_session :: conferences where
  "example_session = \<lparr>subconfs = [zero_conf\<lparr>designator := CHR ''A'', conf_num := 2, maxnum := 2, conf_subs := Some [1, 2, 0]\<rparr>],
     dirconfs = [], subboard_count = 3, directory_count = 0, conf_disk = Map.empty\<rparr>"

theorem update_conf_follows_witness:
  "\<exists>c'. shown [''News'', ''Games''] c' = [''Games''] \<and> (\<exists>cs'. cs' = [c'] \<and> update_conf \<lparr>datadir = [], max_subs = 50, writable = (\<lambda>_. True)\<rparr>
      CONF_SUBS (Some 1) None CONF_UPDATE_DELETE example_session
    = save_confs \<lparr>datadir = [], max_subs = 50, writable = (\<lambda>_. True)\<rparr> CONF_SUBS None None (set_confs CONF_SUBS cs' example_session))"
proof -
  let ?as = "[''News'', ''Chat'', ''Games'']" and ?c = "zero_conf\<lparr>designator := CHR ''A'', conf_num := 2, maxnum := 2, conf_subs := Some [1, 2, 0]\<rparr>"
  let ?env = "\<lparr>datadir = [], max_subs = 50, writable = (\<lambda>_. True)\<rparr>"
  have cs: "confs_of CONF_SUBS example_session = [?c]" "area_count CONF_SUBS example_session = 3"
    by (simp_all add: example_session_def confs_of_def area_count_def)
  have ok: "\<forall>c \<in> set (confs_of CONF_SUBS example_session). conf_ok (length ?as) c" unfolding cs by (simp add: conf_ok_def areas_def)
  have a: "areas ?c = [1, 2]" by (simp add: areas_def)
  have ar: "arrange (Delete 1) ?as = [''News'', ''Games'']" by simp
  have st: "map (nth ?as) (filter (stays (Delete 1 :: string change)) (areas ?c)) = [''Games'']" unfolding a by simp
  obtain cs' where cs': "update_conf ?env CONF_SUBS (Some 1) None CONF_UPDATE_DELETE example_session
      = save_confs ?env CONF_SUBS None None (set_confs CONF_SUBS cs' example_session)"
    "list_all2 (\<lambda>c c'. settings_kept c c' \<and> shown (arrange (Delete 1) ?as) c' = map (nth ?as) (filter (stays (Delete 1 :: string change)) (areas c))
         \<and> conf_ok (length (arrange (Delete 1) ?as)) c') (confs_of CONF_SUBS example_session) cs'"
    using update_conf_follows [where ch = "Delete 1" and as = ?as, OF _ _ _ _ ok, of "Some 1" None CONF_UPDATE_DELETE ?env] cs by auto
  then obtain c' where "cs' = [c']" "shown [''News'', ''Games''] c' = [''Games'']"
    unfolding cs(1) ar st by (auto simp: list_all2_Cons1 st)
  then show ?thesis using cs'(1) by blast
qed

end
