(* ===== verification/Bbs_Conf_File.thy ===== *)
theory Bbs_Conf_File
  imports Bbs_Conf_Update
begin

unbundle bit_operations_syntax

text \<open>
  The file of the conferences is read back as it was written, so that a new conference comes to stand
  where it was asked for; and \<open>delete_conf\<close>, which relies on the conference being left out by
  \<open>save_confs\<close>, deletes nothing.
\<close>

section \<open>Words\<close>

lemma SplitString_trailing: "d \<in> set delims \<Longrightarrow> SplitString (s @ [d]) delims = SplitString s delims"
proof (induction "length s" arbitrary: s rule: less_induct)
  case less
  show ?case
  proof (cases rule: SplitString_cases [where s = s and delims = delims])
    case Nil
    then show ?thesis using SplitString_append_delim [of "[]" delims d "[]"] less.prems by simp
  next
    case last
    then show ?thesis using SplitString_append_delim [of s delims d "[]"] less.prems by (simp add: SplitString_no_delim)
  next
    case (step t e s')
    then have "s @ [d] = t @ e # (s' @ [d])" by simp
    then have "SplitString (s @ [d]) delims = (if t = [] then [] else [t]) @ SplitString (s' @ [d]) delims"
      using SplitString_append_delim [OF step(2,3), of "s' @ [d]"] by simp
    moreover have "SplitString (s' @ [d]) delims = SplitString s' delims" using less step(1) by simp
    ultimately show ?thesis using SplitString_append_delim [OF step(2,3), of s'] step(1) by simp
  qed
qed

lemma SplitString_nonempty: "\<exists>c \<in> set s. c \<notin> set delims \<Longrightarrow> SplitString s delims \<noteq> []"
proof
  assume "\<exists>c \<in> set s. c \<notin> set delims" "SplitString s delims = []"
  moreover from this have "filter (\<lambda>c. c \<notin> set delims) s = []" using concat_SplitString [of s delims] by simp
  ultimately show False by (metis filter_empty_conv)
qed

lemma show_nat_no_delims: "c \<in> set (show_nat n) \<Longrightarrow> c \<notin> set DELIMS_WHITE \<and> c \<noteq> NUL \<and> c \<noteq> newline \<and> c \<noteq> CHR 0x0D"
proof -
  assume "c \<in> set (show_nat n)"
  then have "isdigit c" by (rule isdigit_show_nat)
  then show ?thesis by (auto simp: isdigit_def DELIMS_WHITE_def NUL_def)
qed

text \<open>Printed numbers are read back.\<close>

lemma unat_lt: "unat (x :: 'a::len word) < 2 ^ LENGTH('a)" "int (unat x) < 2 ^ LENGTH('a)"
  using unsigned_less [of x] by simp_all

lemma byte_word_show [simp]: "byte_word (show_byte x) = x"
proof -
  have u: "unat x < 256" "int (unat x) \<le> 255" using unat_lt [of x] by simp_all
  have "unat x < 2 ^ 64" using unat_lt(1) [of x] by (rule less_le_trans) simp
  then have "StringToUnsignedChar (show_nat (unat x)) = int (unat x)"
    using stoul_show_nat [of "unat x" "[]"] u(2) by (simp add: StringToUnsignedChar_def StringToT_def)
  then show ?thesis by (simp add: byte_word_def show_byte_def)
qed

lemma short_word_show [simp]: "short_word (show_word x) = x"
proof -
  have "unat x < 65536" using unsigned_less [of x] by simp
  then show ?thesis using StringToUnsignedShort_show_nat [of "unat x" "[]"] by (simp add: short_word_def show_word_def)
qed

lemma atoi_show_word [simp]: "atoi (show_word x) = int (unat x)"
proof -
  have u: "unat x < 65536" "int (unat x) < 65536" "0 \<le> int (unat x)" using unat_lt [of x] by simp_all
  then have "atol (show_nat (unat x)) = int (unat x)"
    using scan_number_show_nat [of "[]" "unat x"] order_trans [OF _ uint_ge_0, of "- 9223372036854775808" x]
    by (simp add: atol_def signed_val_def max_def)
  moreover have "sint (word_of_int (int (unat x)) :: 32 word) = int (unat x)"
    by (subst int_word_sint) (use u in simp)
  ultimately show ?thesis by (simp add: atoi_def show_word_def)
qed

lemma length_show_byte: "length (show_byte x) \<le> 3" "length (show_word w) \<le> 5" "show_byte x \<noteq> []" "show_word w \<noteq> []"
  using length_show_nat_le [of "unat x" 3] length_show_nat_le [of "unat w" 5] unat_lt [of x] unat_lt [of w]
  by (simp_all add: show_byte_def show_word_def)

section \<open>Flags as letters\<close>

lemma char_of_eq_iff: "i < 256 \<Longrightarrow> j < 256 \<Longrightarrow> char_of i = (char_of j :: char) \<longleftrightarrow> i = j" for i j :: nat
  by (metis of_char_of mod_less)

lemma strchr_Some_iff: "c \<noteq> NUL \<Longrightarrow> strchr s c \<noteq> None \<longleftrightarrow> c \<in> set s"
proof (cases "c \<in> set s")
  case True
  then have "takeWhile (\<lambda>d. d \<noteq> c) (s @ [NUL]) = takeWhile (\<lambda>d. d \<noteq> c) s" by (simp add: takeWhile_append1)
  then show ?thesis using True length_takeWhile_le [of "\<lambda>d. d \<noteq> c" s] by (simp add: strchr_def Let_def)
next
  case False
  assume "c \<noteq> NUL"
  then have "takeWhile (\<lambda>d. d \<noteq> c) (s @ [NUL]) = s @ [NUL]" using False by (auto simp: takeWhile_eq_all_conv)
  then show ?thesis using False by (simp add: strchr_def Let_def)
qed

lemma char_of_not_NUL: "0 < n \<Longrightarrow> n < 256 \<Longrightarrow> char_of n \<noteq> NUL" for n :: nat
proof
  assume n: "0 < n" "n < 256" "char_of n = NUL"
  have "of_char (char_of n :: char) = n" using n(2) by simp
  then show False using n(1,3) by (simp add: NUL_def)
qed

lemma foldl_bits:
  "bit (foldl (\<lambda>r i. if P i then r OR push_bit i 1 else r) w xs) k \<longleftrightarrow> bit w k \<or> k < 16 \<and> k \<in> set xs \<and> P k" for w :: u16
proof (induction xs arbitrary: w)
  case (Cons x xs)
  have "bit (w OR push_bit x 1) k \<longleftrightarrow> bit w k \<or> k < 16 \<and> k = x" by (auto simp: bit_simps)
  then show ?case using Cons by (cases "P x") auto
qed simp

lemma word_to_arstr_plain:
  "word_to_arstr ar \<noteq> [] \<and> set (word_to_arstr ar) \<inter> set DELIMS_WHITE = {} \<and> length (word_to_arstr ar) \<le> 16 \<and> NUL \<notin> set (word_to_arstr ar)"
proof -
  have "isupper c \<or> c = CHR ''-''" if "c \<in> set (word_to_arstr ar)" for c
    using that by (auto simp: word_to_arstr_def Let_def isupper_def split: if_splits)
  then have "\<forall>c \<in> set (word_to_arstr ar). c \<notin> set DELIMS_WHITE \<and> c \<noteq> NUL"
    by (force simp: DELIMS_WHITE_def isupper_def NUL_def)
  moreover have "word_to_arstr ar \<noteq> []" by (simp add: word_to_arstr_def Let_def)
  moreover have "length (word_to_arstr ar) \<le> 16"
    using length_filter_le [of "bit ar" "[0..<16]"] by (simp add: word_to_arstr_def Let_def)
  ultimately show ?thesis by blast
qed

lemma arword_round_trip: "str_to_arword (word_to_arstr ar) = Inr ar"
proof -
  let ?l = "map (\<lambda>i. char_of (65 + i)) (filter (bit ar) [0..<16])" and ?s = "word_to_arstr ar"
  have up: "toupper (char_of (65 + i)) = char_of (65 + i)" if "i < 16" for i :: nat
    using that by (simp add: toupper_def islower_def)
  have nul: "(char_of (65 + i) :: char) \<noteq> NUL" if "i < 16" for i :: nat
    using that by (intro char_of_not_NUL) simp_all
  have c: "c_str ?s = ?s" and len: "length ?s \<le> 16" using word_to_arstr_plain [of ar] by (simp_all add: c_str_id)
  have mem: "char_of (i + 65) \<in> set (strupr ?s) \<longleftrightarrow> bit ar i" if "i < 16" for i
  proof -
    have l: "set (map toupper ?l) = {char_of (65 + j) |j. j < 16 \<and> bit ar j}" using up by force
    have dash: "(char_of (i + 65) :: char) \<noteq> toupper (CHR ''-'')"
    proof
      assume "char_of (i + 65) = toupper (CHR ''-'')"
      then have "of_char (char_of (i + 65) :: char) = (45 :: nat)" by (simp add: toupper_def islower_def)
      then show False using that by simp
    qed
    show ?thesis
    proof (cases "?l = []")
      case True
      then have "\<not> bit ar i" using that by (auto simp: filter_empty_conv)
      then show ?thesis using True dash c by (simp add: strupr_def word_to_arstr_def)
    next
      case False
      then have "set (strupr ?s) = {char_of (65 + j) |j. j < 16 \<and> bit ar j}" using l c by (simp add: strupr_def word_to_arstr_def)
      moreover have "char_of (i + 65) \<in> {char_of (65 + j) |j. j < 16 \<and> bit ar j} \<longleftrightarrow> bit ar i"
      proof
        assume "char_of (i + 65) \<in> {char_of (65 + j) |j. j < 16 \<and> bit ar j}"
        then obtain j where "j < 16" "bit ar j" "char_of (i + 65) = (char_of (65 + j) :: char)" by blast
        then show "bit ar i" using char_of_eq_iff [of "i + 65" "65 + j"] that by simp
      next
        assume "bit ar i"
        then show "char_of (i + 65) \<in> {char_of (65 + j) |j. j < 16 \<and> bit ar j}" using that unfolding add.commute [of i] by blast
      qed
      ultimately show ?thesis by simp
    qed
  qed
  have "foldl (\<lambda>rar i. if strchr (strupr ?s) (char_of (i + 65)) \<noteq> None then rar OR push_bit i 1 else rar) 0 [0..<16] = ar"
  proof (rule bit_word_eqI)
    fix k assume k: "k < LENGTH(16)"
    have "(char_of (k + 65) :: char) \<noteq> NUL" using nul k by (simp add: add.commute)
    then show "bit (foldl (\<lambda>rar i. if strchr (strupr ?s) (char_of (i + 65)) \<noteq> None then rar OR push_bit i 1 else rar) (0 :: u16) [0..<16]) k \<longleftrightarrow> bit ar k"
      unfolding foldl_bits using k mem [of k] by (simp add: strchr_Some_iff del: not_None_eq)
  qed
  then show ?thesis using len c by (simp add: str_to_arword_def)
qed

section \<open>Lines of the file\<close>

definition sub_list :: "confrec \<Rightarrow> u16 list" where
  "sub_list c = (case conf_subs c of None \<Rightarrow> [] | Some b \<Rightarrow> take (unat (conf_num c)) b)"

definition name_line :: "confrec \<Rightarrow> string" where
  "name_line c = ''~'' @ [designator c] @ '' '' @ conf_name c"

definition number_words :: "confrec \<Rightarrow> string list" where
  "number_words c = [''!'' @ show_word (conf_status c), show_byte (minsl c), show_byte (maxsl c), show_byte (mindsl c),
     show_byte (maxdsl c), show_byte (minage c), show_byte (maxage c), show_word (minbps c), show_byte (conf_sex c),
     word_to_arstr (conf_ar c), word_to_arstr (conf_dar c)]"

definition area_line :: "confrec \<Rightarrow> string" where
  "area_line c = ''@'' @ concat (map (\<lambda>x. show_word x @ '' '') (sub_list c))"

definition conf_lines :: "confrec \<Rightarrow> string list" where
  "conf_lines c = [name_line c, join (CHR '' '') (number_words c), area_line c, []]"

text \<open>A conference that can be written and read: a letter, a name that fits and shows something, and areas that exist.\<close>

definition writable_conf :: "nat \<Rightarrow> confrec \<Rightarrow> bool" where
  "writable_conf n c \<longleftrightarrow> designator c \<notin> set DELIMS_WHITE \<and> designator c \<noteq> NUL \<and> length (conf_name c) < 61 \<and> text_line (conf_name c)
     \<and> (\<exists>x \<in> set (conf_name c). x \<notin> set DELIMS_WHITE) \<and> (\<forall>x \<in> set (sub_list c). unat x < n) \<and> length (sub_list c) = unat (conf_num c)
     \<and> text_line (area_line c)"

lemma DELIMS_WHITE_mem: "c \<in> set DELIMS_WHITE \<longleftrightarrow> c = CHR '' '' \<or> c = CHR 0x09 \<or> c = CHR 0x0D \<or> c = CHR 0x0A"
  by (auto simp: DELIMS_WHITE_def)

lemma show_word_plain: "set (show_word x) \<inter> set DELIMS_WHITE = {}" "NUL \<notin> set (show_word x)"
  "set (show_byte y) \<inter> set DELIMS_WHITE = {}" "NUL \<notin> set (show_byte y)"
  using show_nat_no_delims [of _ "unat x"] show_nat_no_delims [of _ "unat y"] by (auto simp: show_word_def show_byte_def)

definition plain_word :: "string \<Rightarrow> bool" where
  "plain_word w \<longleftrightarrow> w \<noteq> [] \<and> set w \<inter> set DELIMS_WHITE = {} \<and> NUL \<notin> set w \<and> length w \<le> 16"

lemma plain_words [simp]: "plain_word (show_word x)" "plain_word (CHR ''!'' # show_word x)" "plain_word (show_byte y)"
  "plain_word (word_to_arstr ar)"
  using show_word_plain(1,2) [of x] show_word_plain(3,4) [of y] length_show_byte(1,3) [of y] length_show_byte(2,4) [of x] word_to_arstr_plain [of ar]
  by (simp_all add: plain_word_def) (simp_all add: DELIMS_WHITE_def NUL_def)

lemma number_words_plain: "\<forall>w \<in> set (number_words c). plain_word w"
  by (simp add: number_words_def)

lemma join_text:
  "\<forall>w \<in> set ws. plain_word w \<Longrightarrow>
    newline \<notin> set (join (CHR '' '') ws) \<and> CHR 0x0D \<notin> set (join (CHR '' '') ws) \<and> NUL \<notin> set (join (CHR '' '') ws)
    \<and> length (join (CHR '' '') ws) \<le> 17 * length ws"
proof (induction "CHR '' ''" ws rule: join.induct)
  case (3 t u ts)
  have t: "newline \<notin> set t" "CHR 0x0D \<notin> set t" "NUL \<notin> set t" "length t \<le> 16" using 3(2) by (auto simp: plain_word_def DELIMS_WHITE_def)
  have "\<forall>w \<in> set (u # ts). plain_word w" using 3(2) by simp
  from 3(1) [OF this] show ?case using t by (simp add: NUL_def)
qed (auto simp: plain_word_def DELIMS_WHITE_def)

lemma text_number_line: "text_line (join (CHR '' '') (number_words c))"
proof -
  have "length (number_words c) = 11" by (simp add: number_words_def)
  then show ?thesis using join_text [OF number_words_plain [of c]] by (simp add: text_line_def)
qed

lemma write_subs_eq: "write_subs xs b = b @ concat (map (\<lambda>x. show_word x @ '' '') xs)"
proof (induction xs arbitrary: b)
  case (Cons x xs)
  have "WriteFormatted (show_word x @ '' '') b = b @ show_word x @ '' ''"
    using length_show_byte(2) [of x] show_word_plain(2) [of x] by (intro WriteFormatted_text) (auto simp: NUL_def)
  then show ?case using Cons by (simp add: write_subs_def)
qed (simp add: write_subs_def)

lemma join_snoc: "ws \<noteq> [] \<Longrightarrow> join d (ws @ [w]) = join d ws @ d # w"
  by (induction d ws rule: join.induct) simp_all

lemma write_conf_eq:
  assumes c: "writable_conf n c"
  shows "write_conf old c b = Inr (b @ print_lines (conf_lines c))"
proof -
  let ?ws = "[show_word (conf_status c), show_byte (minsl c), show_byte (maxsl c), show_byte (mindsl c),
                   show_byte (maxdsl c), show_byte (minage c), show_byte (maxage c), show_word (minbps c), show_byte (conf_sex c),
                   word_to_arstr (conf_ar c)]"
  have name: "length (conf_name c) < 61" "NUL \<notin> set (conf_name c)" "designator c \<noteq> NUL" using c by (simp_all add: writable_conf_def text_line_def)
  have line: "''!'' @ join (CHR '' '') ?ws @ '' '' @ word_to_arstr (conf_dar c) = join (CHR '' '') (number_words c)"
    by (simp add: number_words_def)
  have j: "length (join (CHR '' '') ?ws) \<le> 17 * length ?ws" "NUL \<notin> set (join (CHR '' '') ?ws)"
    using join_text [of ?ws] by simp_all
  let ?t1 = "''~'' @ [designator c] @ '' '' @ conf_name c @ newline # ''!'' @ join (CHR '' '') ?ws @ '' ''"
  let ?t2 = "word_to_arstr (conf_dar c) @ newline # ''@''"
  have t1: "WriteFormatted ?t1 b = b @ ?t1"
    using name j by (intro WriteFormatted_text) (auto simp: NUL_def)
  have t2: "WriteFormatted ?t2 b' = b' @ ?t2" for b'
    using word_to_arstr_plain [of "conf_dar c"] by (intro WriteFormatted_text) (auto simp: NUL_def)
  have t3: "WriteFormatted [newline, newline] b' = b' @ [newline, newline]" for b'
    by (intro WriteFormatted_text) (auto simp: NUL_def)
  have l: "length (sub_list c) = unat (conf_num c)" using c by (simp add: writable_conf_def)
  have all: "b @ print_lines (conf_lines c) = ((b @ ?t1) @ ?t2) @ concat (map (\<lambda>x. show_word x @ '' '') (sub_list c)) @ [newline, newline]"
    by (simp add: conf_lines_def name_line_def area_line_def flip: line)
  show ?thesis
  proof (cases "conf_num c = 0")
    case True
    then show ?thesis using name l unfolding all by (simp add: write_conf_def t1 t2 t3 Let_def del: append.simps append_assoc join.simps) 
  next
    case False
    then have "unat (conf_num c) \<noteq> 0" by (simp add: unat_eq_0)
    then have "conf_subs c \<noteq> None" using l by (cases "conf_subs c") (simp_all add: sub_list_def)
    then obtain m where m: "conf_subs c = Some m" by auto
    then have "unat (conf_num c) \<le> length m" "sub_list c = take (unat (conf_num c)) m" using l by (simp_all add: sub_list_def)
    then show ?thesis using False name m unfolding all
      by (simp add: write_conf_def t1 t2 t3 write_subs_eq Let_def del: append.simps append_assoc join.simps)
  qed
qed

section \<open>The whole file\<close>

definition file_lines :: "confrec list \<Rightarrow> string list" where
  "file_lines cs = [conf_comment, []] @ concat (map conf_lines cs)"

text \<open>The list with a conference at its place, or as it is.\<close>

definition with_conf :: "nat option \<Rightarrow> confrec option \<Rightarrow> confrec list \<Rightarrow> confrec list" where
  "with_conf whichnum c cs = (case (whichnum, c) of (Some n, Some r) \<Rightarrow> take n cs @ r # drop n cs | _ \<Rightarrow> cs)"

lemma conf_text_eq:
  assumes cs: "\<forall>c \<in> set cs. writable_conf m c" and r: "\<And>r. c = Some r \<Longrightarrow> writable_conf m r"
    and n: "\<And>n. whichnum = Some n \<Longrightarrow> n \<le> length cs"
  shows "conf_text cs whichnum c = Inr (print_lines (file_lines (with_conf whichnum c cs)))"
proof -
  let ?head = "print_lines [conf_comment, []]" and ?T = "\<lambda>cs. print_lines (concat (map conf_lines cs))"
  let ?new = "\<lambda>k. case (whichnum, c) of (Some n, Some r) \<Rightarrow> if n < k then [(n, r)] else [] | _ \<Rightarrow> []"
  let ?upto = "\<lambda>k. case ?new k of [] \<Rightarrow> take k cs | (n, r) # _ \<Rightarrow> take n cs @ r # drop n (take k cs)"
  let ?k = "if whichnum = Some (length cs) then length cs + 1 else length cs"
  let ?P = "\<lambda>k b. b = ?head @ ?T (?upto k)"
  have start: "WriteFormatted (conf_comment @ [newline, newline]) [] = ?head"
    by (subst WriteFormatted_text) (auto simp: conf_comment_def NUL_def)
  have "\<exists>b. each_res (save_turn cs whichnum c) [0..<?k] ?head = Inr b \<and> ?P ?k b"
  proof (rule each_res_upto [where P = ?P])
    fix k b assume k: "0 \<le> k" "k < ?k" and b: "?P k b"
    have old: "k < length cs \<Longrightarrow> write_conf True (cs ! k) b' = Inr (b' @ print_lines (conf_lines (cs ! k)))" for b'
      using cs by (intro write_conf_eq [where n = m]) simp
    have new: "c = Some r \<Longrightarrow> write_conf False r b' = Inr (b' @ print_lines (conf_lines r))" for r b'
      using r by (intro write_conf_eq [where n = m])
    show "\<exists>b'. save_turn cs whichnum c k b = Inr b' \<and> ?P (Suc k) b'"
    proof (cases "\<exists>r. c = Some r \<and> whichnum = Some k")
      case True
      then show ?thesis using b old new by (auto simp: save_turn_def take_Suc_conv_app_nth)
    next
      case False
      then have "?new (Suc k) = ?new k" by (auto split: option.splits)
      note same = this
      show ?thesis
      proof (cases "k < length cs")
        case True
        then show ?thesis using same b old False n
          by (auto simp: save_turn_def take_Suc_conv_app_nth split: option.splits if_splits)
      next
        case no: False
        then have "k = length cs" "c = None" using k False by (auto split: if_splits)
        then show ?thesis using b by (auto simp: save_turn_def split: option.splits)
      qed
    qed
  qed (auto split: option.splits)
  moreover have "?upto ?k = with_conf whichnum c cs" using n by (auto simp: with_conf_def split: option.splits if_splits)
  ultimately show ?thesis unfolding conf_text_def start by (auto simp: file_lines_def)
qed

section \<open>Reading a line\<close>

lemma fgets_text_line: "text_line l \<Longrightarrow> fgets 4096 (l @ newline # b) = Some (l @ [newline], b)"
proof -
  assume l: "text_line l"
  then have "takeWhile (\<lambda>c. c \<noteq> newline) (l @ newline # b) = l"
    by (auto simp: text_line_def takeWhile_append takeWhile_eq_all_conv)
  then show ?thesis using l by (simp add: fgets_def Let_def text_line_def)
qed

lemma conf_loop_text_line:
  assumes "text_line l" "cc < MAX_CONFERENCES"
  shows "conf_loop lim (l @ newline # b) (cc, cs) = bind_res (conf_line lim (l @ [newline]) (cc, cs)) (conf_loop lim b)"
proof -
  have "c_str (l @ [newline]) = l @ [newline]" using assms(1) by (intro c_str_id) (auto simp: text_line_def NUL_def)
  then show ?thesis using assms by (subst conf_loop.simps) (simp add: fgets_text_line)
qed

lemma conf_loop_end: "conf_loop lim [] p = Inr (snd p)"
  by (subst conf_loop.simps) (simp add: fgets_def)

lemma conf_loop_full: "MAX_CONFERENCES \<le> fst p \<Longrightarrow> conf_loop lim b p = Inr (snd p)"
  by (subst conf_loop.simps) (simp split: option.splits)

lemma count_lines_text_line:
  "text_line l \<Longrightarrow> count_lines (l @ newline # b) = (if l \<noteq> [] \<and> hd l = CHR ''~'' then 1 else 0) + count_lines b"
  by (subst count_lines.simps) (simp add: fgets_text_line get_num_conferences_loop_step_def hd_append)

lemma words_newline: "SplitString (l @ [newline]) DELIMS_WHITE = SplitString l DELIMS_WHITE"
  by (rule SplitString_trailing) (simp add: DELIMS_WHITE_def)

lemma conf_line_other:
  "SplitString l DELIMS_WHITE = w # ws \<Longrightarrow> length w < 41 \<Longrightarrow> hd w \<notin> {CHR ''~'', CHR ''!'', CHR ''@''} \<Longrightarrow>
    conf_line lim (l @ [newline]) p = Inr p"
  by (cases p) (simp add: conf_line_def words_newline)

lemma conf_line_empty: "conf_line lim ([] @ [newline]) p = Inr p"
  unfolding conf_line_def words_newline by (cases p) simp

lemma conf_line_name:
  assumes c: "writable_conf n c" and cc: "cc < length cs"
  shows "conf_line lim (name_line c @ [newline]) (cc, cs)
    = Inr (cc, cs[cc := (cs ! cc)\<lparr>designator := designator c, conf_name := conf_name c\<rparr>])"
proof -
  let ?l = "name_line c"
  have d: "designator c \<notin> set DELIMS_WHITE" "length (conf_name c) < 61" "text_line (conf_name c)"
    "\<exists>x \<in> set (conf_name c). x \<notin> set DELIMS_WHITE" using c by (simp_all add: writable_conf_def)
  have tilde: "CHR ''~'' \<notin> set DELIMS_WHITE" "CHR '' '' \<in> set DELIMS_WHITE" by (auto simp: DELIMS_WHITE_def)
  have "?l = [CHR ''~'', designator c] @ CHR '' '' # conf_name c" by (simp add: name_line_def)
  then have "SplitString ?l DELIMS_WHITE = [CHR ''~'', designator c] # SplitString (conf_name c) DELIMS_WHITE"
    using SplitString_append_delim [of "[CHR ''~'', designator c]" DELIMS_WHITE "CHR '' ''" "conf_name c"] d(1) tilde by simp
  moreover have "SplitString (conf_name c) DELIMS_WHITE \<noteq> []" using d(4) by (rule SplitString_nonempty)
  moreover have "drop 3 (?l @ [newline]) = conf_name c @ [newline]" by (simp add: name_line_def)
  moreover have "SplitString (conf_name c @ [newline]) [CHR 0x0D, newline] = [conf_name c]"
  proof -
    have "SplitString (conf_name c @ [newline]) [CHR 0x0D, newline] = SplitString (conf_name c) [CHR 0x0D, newline]"
      by (rule SplitString_trailing) simp
    also have "\<dots> = [conf_name c]" using d(3,4) by (intro SplitString_no_delim) (auto simp: text_line_def)
    finally show ?thesis .
  qed
  moreover have "3 < length (?l @ [newline])" by (simp add: name_line_def)
  ultimately show ?thesis using d(2) cc unfolding conf_line_def words_newline by (simp add: Let_def)
qed

lemma SplitString_numbers: "SplitString (join (CHR '' '') (number_words c)) DELIMS_WHITE = number_words c"
  using number_words_plain [of c] by (intro SplitString_join) (auto simp: plain_word_def DELIMS_WHITE_def)

lemma conf_line_numbers:
  assumes cc: "cc < length cs" and d: "designator (cs ! cc) \<noteq> NUL"
  shows "conf_line lim (join (CHR '' '') (number_words c) @ [newline]) (cc, cs)
    = Inr (cc, cs[cc := (cs ! cc)\<lparr>conf_status := conf_status c, minsl := minsl c, maxsl := maxsl c, mindsl := mindsl c,
       maxdsl := maxdsl c, minage := minage c, maxage := maxage c, minbps := minbps c, conf_sex := conf_sex c,
       conf_ar := conf_ar c, conf_dar := conf_dar c\<rparr>])"
proof -
  have "\<forall>w \<in> set (number_words c). length w \<le> 16" using number_words_plain [of c] by (auto simp: plain_word_def)
  then have short: "\<not> (\<exists>w \<in> set (number_words c). 41 \<le> length w)" by fastforce
  have nth: "number_words c ! 0 = CHR ''!'' # show_word (conf_status c)" "number_words c ! 1 = show_byte (minsl c)"
    "number_words c ! 2 = show_byte (maxsl c)" "number_words c ! 3 = show_byte (mindsl c)" "number_words c ! 4 = show_byte (maxdsl c)"
    "number_words c ! 5 = show_byte (minage c)" "number_words c ! 6 = show_byte (maxage c)" "number_words c ! 7 = show_word (minbps c)"
    "number_words c ! 8 = show_byte (conf_sex c)" "number_words c ! 9 = word_to_arstr (conf_ar c)"
    "number_words c ! 10 = word_to_arstr (conf_dar c)"
    by (simp_all add: number_words_def)
  have l2: "2 \<le> length (CHR ''!'' # show_word (conf_status c))" using length_show_byte(4) [of "conf_status c"]
    by (cases "show_word (conf_status c)") simp_all
  have num: "read_numbers (number_words c) r = Inr (r\<lparr>conf_status := conf_status c, minsl := minsl c, maxsl := maxsl c, mindsl := mindsl c,
       maxdsl := maxdsl c, minage := minage c, maxage := maxage c, minbps := minbps c, conf_sex := conf_sex c,
       conf_ar := conf_ar c, conf_dar := conf_dar c\<rparr>)" for r
    unfolding read_numbers_def nth using short l2 by (simp add: arword_round_trip)
  have hd: "hd (number_words c) = CHR ''!'' # show_word (conf_status c)" "length (number_words c) = 11" "number_words c \<noteq> []"
    by (simp_all add: number_words_def)
  have "length (show_word (conf_status c)) \<le> 5" by (rule length_show_byte(2))
  then show ?thesis unfolding conf_line_def words_newline SplitString_numbers using cc d hd num by (simp add: Let_def)
qed

text \<open>The numbers of the areas.\<close>

fun area_words :: "u16 list \<Rightarrow> string list" where
  "area_words [] = [''@'']"
| "area_words (x # xs) = (CHR ''@'' # show_word x) # map show_word xs"

lemma SplitString_numbers_line: "SplitString (concat (map (\<lambda>x. show_word x @ '' '') xs)) DELIMS_WHITE = map show_word xs"
proof (induction xs)
  case (Cons x xs)
  have "set (show_word x) \<inter> set DELIMS_WHITE = {}" "CHR '' '' \<in> set DELIMS_WHITE" "show_word x \<noteq> []"
    using plain_words(1) [of x] by (simp_all add: plain_word_def DELIMS_WHITE_def)
  then show ?case using Cons SplitString_append_delim [of "show_word x" DELIMS_WHITE "CHR '' ''"] by simp
qed simp

lemma SplitString_areas: "SplitString (area_line c) DELIMS_WHITE = area_words (sub_list c)"
proof (cases "sub_list c")
  case Nil
  then show ?thesis using SplitString_no_delim [of "''@''" DELIMS_WHITE] by (simp add: area_line_def DELIMS_WHITE_def)
next
  case (Cons x xs)
  have "set (CHR ''@'' # show_word x) \<inter> set DELIMS_WHITE = {}" "CHR '' '' \<in> set DELIMS_WHITE"
    using plain_words(1) [of x] by (simp_all add: plain_word_def DELIMS_WHITE_def)
  then show ?thesis using Cons SplitString_append_delim [of "CHR ''@'' # show_word x" DELIMS_WHITE "CHR '' ''"] SplitString_numbers_line
    by (simp add: area_line_def)
qed

definition reload :: "confrec \<Rightarrow> confrec" where
  "reload c = c\<lparr>maxnum := conf_num c, conf_subs := Some (sub_list c @ replicate (unat (conf_num c) + 1) 0)\<rparr>"

lemma read_sub_list:
  assumes "\<forall>x \<in> set xs. int (unat x) < lim" "conf_subs c = Some (done @ replicate m 0)" "length xs < m"
  shows "each_res (read_sub lim) (map (\<lambda>x. int (unat x)) xs) (length done, c)
    = Inr (length done + length xs, c\<lparr>conf_subs := Some (done @ xs @ replicate (m - length xs) 0)\<rparr>)"
  using assms
proof (induction xs arbitrary: "done" m c)
  case (Cons x xs)
  let ?c = "c\<lparr>conf_subs := Some ((done @ [x]) @ replicate (m - 1) 0)\<rparr>"
  have "m = Suc (m - 1)" using Cons.prems(3) by simp
  then have "(done @ replicate m 0)[length done := x] = (done @ [x]) @ replicate (m - 1) 0"
    by (metis append.assoc append_Cons append_Nil list_update_length replicate_Suc)
  then have "store_sub (length done) (word_of_int (int (unat x))) c = Inr ?c"
    using Cons.prems by (simp add: store_sub_def)
  then have "read_sub lim (int (unat x)) (length done, c) = Inr (length (done @ [x]), ?c)"
    using Cons.prems(1) by (simp add: read_sub_def)
  then show ?case using Cons.IH [of ?c "done @ [x]" "m - 1"] Cons.prems by (simp add: Suc_diff_Suc)
qed simp

lemma conf_line_areas:
  assumes c: "writable_conf n c" and cc: "cc < length cs" and d: "designator (cs ! cc) \<noteq> NUL"
  shows "conf_line (int n) (area_line c @ [newline]) (cc, cs) = Inr (cc + 1, cs[cc := (cs ! cc)\<lparr>conf_num := conf_num c, maxnum := conf_num c,
    conf_subs := Some (sub_list c @ replicate (unat (conf_num c) + 1) 0)\<rparr>])"
proof -
  let ?ws = "area_words (sub_list c)"
  have l: "length (sub_list c) = unat (conf_num c)" "\<forall>x \<in> set (sub_list c). int (unat x) < int n"
    using c unfolding writable_conf_def of_nat_less_iff by blast+
  have num: "word_of_nat (unat (conf_num c)) = conf_num c" by simp
  have hd: "hd ?ws \<noteq> []" "hd (hd ?ws) = CHR ''@''" "?ws \<noteq> []" "length (hd ?ws) < 41"
    using length_show_byte(2) by (cases "sub_list c"; simp add: le_less_trans [OF length_show_byte(2)])+
  have "read_subs (int n) ?ws r = Inr (r\<lparr>conf_num := conf_num c, maxnum := conf_num c,
    conf_subs := Some (sub_list c @ replicate (unat (conf_num c) + 1) 0)\<rparr>)" for r
  proof (cases "sub_list c")
    case Nil
    then have "conf_num c = 0" using l(1) by (simp add: unat_eq_0)
    then show ?thesis using Nil by (simp add: read_subs_def read_sub_def Let_def)
  next
    case (Cons x xs)
    have two: "\<not> length (CHR ''@'' # show_word x) < 2" "Suc 0 \<le> length (show_word x)"
      using length_show_byte(4) [of x] by (cases "show_word x"; simp)+
    have len: "length ?ws = unat (conf_num c)" using Cons l(1) by simp
    have numbers: "(if 2 \<le> length (hd ?ws) then atoi (tl (hd ?ws)) else - 1) # map atoi (tl ?ws) = map (\<lambda>x. int (unat x)) (sub_list c)"
      using Cons two by simp
    let ?r = "r\<lparr>conf_num := conf_num c, maxnum := conf_num c, conf_subs := Some (replicate (2 * unat (conf_num c) + 1) 0)\<rparr>"
    have "each_res (read_sub (int n)) (map (\<lambda>x. int (unat x)) (sub_list c)) (0, ?r)
        = Inr (unat (conf_num c), ?r\<lparr>conf_subs := Some (sub_list c @ replicate (unat (conf_num c) + 1) 0)\<rparr>)"
      using read_sub_list [OF l(2), of ?r "[]" "2 * unat (conf_num c) + 1"] l(1) by simp
    then show ?thesis using two Cons unfolding read_subs_def numbers len num by (simp add: Let_def)
  qed
  then show ?thesis unfolding conf_line_def words_newline SplitString_areas using cc d hd by (simp add: Let_def)
qed

section \<open>Reading the file\<close>

lemma text_conf_lines: "writable_conf n c \<Longrightarrow> l \<in> set (conf_lines c) \<Longrightarrow> text_line l"
  using text_number_line [of c]
  by (auto simp: conf_lines_def writable_conf_def name_line_def text_line_def DELIMS_WHITE_def NUL_def)

lemma conf_loop_conf:
  assumes c: "writable_conf n c" and cc: "cc < length cs" "cs ! cc = zero_conf" "cc < MAX_CONFERENCES"
  shows "conf_loop (int n) (print_lines (conf_lines c) @ b) (cc, cs) = conf_loop (int n) b (cc + 1, cs[cc := reload c])"
proof -
  have t: "text_line (name_line c)" "text_line (join (CHR '' '') (number_words c))" "text_line (area_line c)" "text_line []"
    using text_conf_lines [OF c] by (simp_all add: conf_lines_def)
  have d: "designator c \<noteq> NUL" using c by (simp add: writable_conf_def)
  define c1 where "c1 = zero_conf\<lparr>designator := designator c, conf_name := conf_name c\<rparr>"
  define c2 where "c2 = c1\<lparr>conf_status := conf_status c, minsl := minsl c, maxsl := maxsl c, mindsl := mindsl c,
       maxdsl := maxdsl c, minage := minage c, maxage := maxage c, minbps := minbps c, conf_sex := conf_sex c,
       conf_ar := conf_ar c, conf_dar := conf_dar c\<rparr>"
  have d12: "designator c1 \<noteq> NUL" "designator c2 \<noteq> NUL" using d by (simp_all add: c1_def c2_def)
  have c3: "c2\<lparr>conf_num := conf_num c, maxnum := conf_num c,
    conf_subs := Some (sub_list c @ replicate (unat (conf_num c) + 1) 0)\<rparr> = reload c"
    by (simp add: c2_def c1_def reload_def zero_conf_def)
  have l1: "conf_line (int n) (name_line c @ [newline]) (cc, cs) = Inr (cc, cs[cc := c1])"
    using conf_line_name [OF c cc(1)] cc(2) by (simp add: c1_def)
  have l2: "conf_line (int n) (join (CHR '' '') (number_words c) @ [newline]) (cc, cs[cc := c1]) = Inr (cc, cs[cc := c2])"
    using conf_line_numbers [of cc "cs[cc := c1]" "int n" c] cc(1) d12(1) by (simp add: c2_def)
  have l3: "conf_line (int n) (area_line c @ [newline]) (cc, cs[cc := c2]) = Inr (cc + 1, cs[cc := reload c])"
    using conf_line_areas [OF c, of cc "cs[cc := c2]"] cc(1) d12(2) unfolding c3 [symmetric] by simp
  have l4: "conf_loop (int n) (newline # b) (cc + 1, cs') = conf_loop (int n) b (cc + 1, cs')" for cs'
  proof (cases "cc + 1 < MAX_CONFERENCES")
    case True
    then show ?thesis using conf_loop_text_line [OF t(4), of "cc + 1" "int n" b cs'] conf_line_empty by simp
  next
    case False
    then show ?thesis by (simp add: conf_loop_full)
  qed
  have "conf_loop (int n) (print_lines (conf_lines c) @ b) (cc, cs)
      = conf_loop (int n) (name_line c @ newline # join (CHR '' '') (number_words c) @ newline # area_line c @ newline # newline # b) (cc, cs)"
    by (simp add: conf_lines_def)
  also have "\<dots> = conf_loop (int n) (newline # b) (cc + 1, cs[cc := reload c])"
    using cc(3) by (simp add: conf_loop_text_line t l1 l2 l3)
  finally show ?thesis using l4 by simp
qed

lemma conf_loop_confs:
  assumes "\<forall>c \<in> set cs. writable_conf n c" "length (done @ cs) \<le> MAX_CONFERENCES"
  shows "conf_loop (int n) (print_lines (concat (map conf_lines cs))) (length done, done @ replicate (length cs) zero_conf)
    = Inr (done @ map reload cs)"
  using assms
proof (induction cs arbitrary: "done")
  case (Cons c cs)
  let ?l = "done @ replicate (length (c # cs)) zero_conf"
  have "?l[length done := reload c] = (done @ [reload c]) @ replicate (length cs) zero_conf" by simp
  then have "conf_loop (int n) (print_lines (concat (map conf_lines (c # cs)))) (length done, ?l)
      = conf_loop (int n) (print_lines (concat (map conf_lines cs))) (length (done @ [reload c]), (done @ [reload c]) @ replicate (length cs) zero_conf)"
    using conf_loop_conf [of n c "length done" ?l] Cons.prems by (simp add: nth_append)
  also have "\<dots> = Inr ((done @ [reload c]) @ map reload cs)" using Cons.prems by (intro Cons.IH) simp_all
  finally show ?case by simp
qed (simp add: conf_loop_end)

lemma text_comment: "text_line conf_comment"
  by (auto simp: conf_comment_def text_line_def NUL_def)

lemma conf_line_comment: "conf_line lim (conf_comment @ [newline]) p = Inr p"
proof (rule conf_line_other)
  show "SplitString conf_comment DELIMS_WHITE = ''/*'' # SplitString ''!!!-!!! Do not edit this file - use WWIV's conf editor! !!!-!!! */'' DELIMS_WHITE"
    using SplitString_append_delim [of "''/*''" DELIMS_WHITE "CHR '' ''"] by (simp add: conf_comment_def DELIMS_WHITE_def)
qed simp_all

lemma count_conf_lines:
  assumes c: "writable_conf n c"
  shows "count_lines (print_lines (conf_lines c) @ b) = Suc (count_lines b)"
proof -
  have t: "text_line (name_line c)" "text_line (join (CHR '' '') (number_words c))" "text_line (area_line c)" "text_line []"
    using text_conf_lines [OF c] by (simp_all add: conf_lines_def)
  have h: "hd (name_line c) = CHR ''~''" "name_line c \<noteq> []" "hd (area_line c) \<noteq> CHR ''~''"
    "hd (join (CHR '' '') (number_words c)) \<noteq> CHR ''~''"
    by (simp_all add: name_line_def area_line_def number_words_def)
  have "print_lines (conf_lines c) @ b = name_line c @ newline # join (CHR '' '') (number_words c) @ newline # area_line c @ newline # [] @ newline # b"
    by (simp add: conf_lines_def)
  then show ?thesis using h count_lines_text_line [OF t(4), of b] by (simp add: count_lines_text_line t)
qed

lemma count_file_lines: "\<forall>c \<in> set cs. writable_conf n c \<Longrightarrow> count_lines (print_lines (file_lines cs)) = length cs"
proof -
  assume "\<forall>c \<in> set cs. writable_conf n c"
  then have "count_lines (print_lines (concat (map conf_lines cs))) = length cs"
  proof (induction cs)
    case Nil
    then show ?case by (subst count_lines.simps) (simp add: fgets_def)
  next
    case (Cons c cs)
    then show ?case using count_conf_lines [of n c] by simp
  qed
  moreover have "count_lines (print_lines (file_lines cs)) = count_lines (print_lines (concat (map conf_lines cs)))"
    using count_lines_text_line [OF text_comment, of "newline # print_lines (concat (map conf_lines cs))"]
      count_lines_text_line [of "[]" "print_lines (concat (map conf_lines cs))"]
    by (simp add: file_lines_def text_line_def conf_comment_def)
  ultimately show ?thesis by simp
qed

lemma conf_loop_file:
  assumes "\<forall>c \<in> set cs. writable_conf n c" "length cs \<le> MAX_CONFERENCES"
  shows "conf_loop (int n) (print_lines (file_lines cs)) (0, replicate (length cs) zero_conf) = Inr (map reload cs)"
proof -
  let ?b = "print_lines (concat (map conf_lines cs))" and ?p = "(0, replicate (length cs) zero_conf)"
  have "conf_loop (int n) (print_lines (file_lines cs)) ?p = conf_loop (int n) (newline # ?b) ?p"
    using conf_loop_text_line [OF text_comment, of 0 "int n" "newline # ?b"] by (simp add: file_lines_def conf_line_comment)
  also have "\<dots> = conf_loop (int n) ?b ?p"
    using conf_loop_text_line [of "[]" 0 "int n" ?b] conf_line_empty by (simp add: text_line_def)
  also have "\<dots> = Inr (map reload cs)" using conf_loop_confs [of cs n "[]"] assms by simp
  finally show ?thesis .
qed

text \<open>What was written is read back, with blocks of the size that the reading allocates.\<close>

lemma save_and_read:
  assumes cs: "\<forall>c \<in> set (confs_of conftype s). writable_conf (area_count conftype s) c"
    and r: "\<And>r. c = Some r \<Longrightarrow> writable_conf (area_count conftype s) r" and n: "\<And>n. whichnum = Some n \<Longrightarrow> n \<le> length (confs_of conftype s)"
    and env: "writable env (conf_file conftype env)" "length (conf_file conftype env) < 81"
    and len: "with_conf whichnum c (confs_of conftype s) \<noteq> []" "length (with_conf whichnum c (confs_of conftype s)) \<le> MAX_CONFERENCES"
  defines "b \<equiv> print_lines (file_lines (with_conf whichnum c (confs_of conftype s)))"
  shows "bind_res (save_confs env conftype whichnum c s) (read_in_conferences env conftype)
    = Inr (Some (set_confs conftype (map reload (with_conf whichnum c (confs_of conftype s)))
        (s\<lparr>conf_disk := (conf_disk s)(conf_file conftype env \<mapsto> b)\<rparr>)))"
proof -
  let ?cs = "with_conf whichnum c (confs_of conftype s)" and ?f = "conf_file conftype env"
  let ?s = "s\<lparr>conf_disk := (conf_disk s)(?f \<mapsto> b)\<rparr>"
  have all: "\<forall>c \<in> set ?cs. writable_conf (area_count conftype s) c"
    using cs r by (auto simp: with_conf_def split: option.splits dest: in_set_takeD in_set_dropD)
  have save: "save_confs env conftype whichnum c s = Inr ?s"
    using conf_text_eq [OF cs r n] env(1) by (simp add: save_confs_def b_def)
  have area: "area_count conftype ?s = area_count conftype s" by (simp add: area_count_def split: ConferenceType.splits)
  have num: "get_num_conferences ?f (conf_disk ?s) = length ?cs"
    using count_file_lines [OF all] by (simp add: get_num_conferences_def b_def)
  have "read_conferences ?f (int (area_count conftype s)) (conf_disk ?s) = Inr (Some (map reload ?cs))"
    unfolding read_conferences_def num using conf_loop_file [OF all len(2)] len(1) by (simp add: Let_def b_def Suc_leI)
  then show ?thesis unfolding save using env(2) area by (simp add: read_in_conferences_def)
qed

section \<open>Inserting and deleting a conference\<close>

lemma first_available:
  assumes "length (confs_of conftype s) < MAX_CONFERENCES"
  obtains i where "first_available_designator conftype s = char_of (65 + i)" "i < MAX_CONFERENCES"
    "char_of (65 + i) \<notin> designator ` set (confs_of conftype s)"
proof -
  let ?cs = "confs_of conftype s" and ?letters = "(\<lambda>i. char_of (65 + i) :: char) ` {0..<MAX_CONFERENCES}"
  let ?P = "\<lambda>i. \<forall>c \<in> set ?cs. designator c \<noteq> char_of (65 + i)"
  have "inj_on (\<lambda>i. char_of (65 + i) :: char) {0..<MAX_CONFERENCES}" by (rule inj_onI) (simp add: char_of_eq_iff)
  then have "card ?letters = MAX_CONFERENCES" by (simp add: card_image)
  moreover have "card (designator ` set ?cs) \<le> length ?cs" by (metis card_image_le card_length finite_set order_trans)
  ultimately have "\<not> ?letters \<subseteq> designator ` set ?cs" using assms card_mono [of "designator ` set ?cs" ?letters] by force
  then obtain x where "x \<in> ?letters" "x \<notin> designator ` set ?cs" by blast
  then obtain i0 where i0: "i0 < MAX_CONFERENCES" "char_of (65 + i0) \<notin> designator ` set ?cs" by auto
  obtain i where i: "find ?P [0..<MAX_CONFERENCES] = Some i"
  proof (cases "find ?P [0..<MAX_CONFERENCES]")
    case None
    then have "\<not> ?P i0" using i0(1) by (simp add: find_None_iff del: upt_Suc)
    then show ?thesis using i0(2) by force
  qed
  then have "i < MAX_CONFERENCES \<and> ?P i" by (auto simp: find_Some_iff simp del: upt_Suc)
  moreover have "first_available_designator conftype s = char_of (65 + i)"
    using assms i by (simp add: first_available_designator_def del: upt_Suc)
  ultimately show ?thesis using that by force
qed

lemma letter_not: "ord c < 65 \<Longrightarrow> i < MAX_CONFERENCES \<Longrightarrow> char_of (65 + i) \<noteq> c"
proof
  assume "ord c < 65" "i < MAX_CONFERENCES" "char_of (65 + i) = c"
  moreover from this have "ord c = 65 + i" by (auto simp: of_char_of)
  ultimately show False by simp
qed

lemma writable_new_conf:
  assumes "i < MAX_CONFERENCES"
  shows "writable_conf n (new_conf (char_of (65 + i)))"
proof -
  let ?d = "char_of (65 + i) :: char"
  have d: "?d \<notin> set DELIMS_WHITE" "?d \<noteq> NUL" "?d \<noteq> newline" "?d \<noteq> CHR 0x0D"
    using assms by (auto simp: DELIMS_WHITE_mem letter_not NUL_def)
  have s: "sub_list (new_conf ?d) = []" by (simp add: sub_list_def new_conf_def zero_conf_def)
  show ?thesis using d unfolding writable_conf_def area_line_def s
    by (auto simp: new_conf_def zero_conf_def text_line_def NUL_def DELIMS_WHITE_mem)
qed

text \<open>C26 A new conference takes its place: \<open>insert_conf\<close> gives it the first letter that is free, writes it to the file
  before the conference at the place asked for, and reads the file again, so that the dialogue that follows finds
  the old conferences unchanged and in their order around the new one.
\<close>

theorem insert_conf_inserts:
  assumes cs: "\<forall>c \<in> set (confs_of conftype s). writable_conf (area_count conftype s) c" "length (confs_of conftype s) < MAX_CONFERENCES"
    and n: "n \<le> length (confs_of conftype s)"
    and env: "writable env (conf_file conftype env)" "length (conf_file conftype env) < 81"
    and edit: "\<And>s. modify_conf n s = (False, s)"
  shows "\<exists>d s'. d \<notin> designator ` set (confs_of conftype s) \<and> insert_conf env modify_conf conftype n s = Inr (Some s')
    \<and> confs_of conftype s' = map reload (take n (confs_of conftype s) @ new_conf d # drop n (confs_of conftype s))"
proof -
  let ?cs = "confs_of conftype s"
  obtain i where i: "first_available_designator conftype s = char_of (65 + i)" "i < MAX_CONFERENCES" "char_of (65 + i) \<notin> designator ` set ?cs"
    by (rule first_available [OF cs(2)])
  let ?d = "char_of (65 + i) :: char"
  have d: "?d \<noteq> NUL" using i(2) by (intro char_of_not_NUL) simp_all
  have w: "with_conf (Some n) (Some (new_conf ?d)) ?cs = take n ?cs @ new_conf ?d # drop n ?cs" by (simp add: with_conf_def)
  let ?b = "print_lines (file_lines (take n ?cs @ new_conf ?d # drop n ?cs))"
  let ?s = "set_confs conftype (map reload (take n ?cs @ new_conf ?d # drop n ?cs)) (s\<lparr>conf_disk := (conf_disk s)(conf_file conftype env \<mapsto> ?b)\<rparr>)"
  have run: "bind_res (save_confs env conftype (Some n) (Some (new_conf ?d)) s) (read_in_conferences env conftype) = Inr (Some ?s)"
    using save_and_read [OF cs(1), of "Some (new_conf ?d)" "Some n" env] writable_new_conf [OF i(2)] n env cs(2) unfolding w by simp
  then obtain s1 where s1: "save_confs env conftype (Some n) (Some (new_conf ?d)) s = Inr s1" "read_in_conferences env conftype s1 = Inr (Some ?s)"
    by (auto simp: bind_res_Inr_iff)
  have "insert_conf env modify_conf conftype n s = Inr (Some ?s)"
    using n d i(1) s1 edit by (simp add: insert_conf_def Let_def)
  moreover have "confs_of conftype ?s = map reload (take n ?cs @ new_conf ?d # drop n ?cs)"
    by (cases conftype) (simp_all add: confs_of_def set_confs_def)
  ultimately show ?thesis using i(3) by blast
qed

text \<open>C27 \<open>delete_conf\<close> deletes nothing: \<open>save_confs\<close>, called with the number of the conference and no record,
  writes every conference, the one to be deleted included, and all of them are read again.
\<close>

theorem delete_conf_deletes_nothing:
  assumes cs: "\<forall>c \<in> set (confs_of conftype s). writable_conf (area_count conftype s) c" "length (confs_of conftype s) \<le> MAX_CONFERENCES"
    and n: "n < length (confs_of conftype s)"
    and env: "writable env (conf_file conftype env)" "length (conf_file conftype env) < 81"
  shows "\<exists>s'. delete_conf env conftype n s = Inr (Some s') \<and> confs_of conftype s' = map reload (confs_of conftype s)"
proof -
  let ?cs = "confs_of conftype s"
  have w: "with_conf (Some n) None ?cs = ?cs" by (simp add: with_conf_def)
  let ?s = "set_confs conftype (map reload ?cs) (s\<lparr>conf_disk := (conf_disk s)(conf_file conftype env \<mapsto> print_lines (file_lines ?cs))\<rparr>)"
  have "delete_conf env conftype n s = Inr (Some ?s)"
  proof -
    have "?cs \<noteq> []" using n by auto
    then show ?thesis using save_and_read [OF cs(1), of None "Some n" env] n env cs(2) unfolding w by (simp add: delete_conf_def)
  qed
  moreover have "confs_of conftype ?s = map reload ?cs" by (cases conftype) (simp_all add: confs_of_def set_confs_def)
  ultimately show ?thesis by blast
qed

section \<open>An example\<close>

definition example_conf :: "char \<Rightarrow> string \<Rightarrow> u16 list \<Rightarrow> confrec" where
  "example_conf d name xs = zero_conf\<lparr>designator := d, conf_name := name, maxsl := 255, conf_num := word_of_nat (length xs),
     maxnum := word_of_nat (length xs), conf_subs := Some (xs @ [0])\<rparr>"

definition example_confs :: conferences where
  "example_confs = \<lparr>subconfs = [example_conf CHR ''A'' ''General'' [0, 1], example_conf CHR ''B'' ''Games'' [2]], dirconfs = [],
     subboard_count = 3, directory_count = 0, conf_disk = Map.empty\<rparr>"

definition example_conf_env :: conf_env where
  "example_conf_env = \<lparr>datadir = ''data/'', max_subs = 50, writable = (\<lambda>_. True)\<rparr>"

lemma example_lines:
  "area_line (example_conf CHR ''A'' ''General'' [0, 1]) = ''@0 1 ''" "area_line (example_conf CHR ''B'' ''Games'' [2]) = ''@2 ''"
  by (simp_all add: area_line_def sub_list_def example_conf_def show_word_def show_nat.simps char_of_def bit_0)

lemma example_writable: "\<forall>c \<in> set (confs_of CONF_SUBS example_confs). writable_conf (area_count CONF_SUBS example_confs) c"
proof -
  have t: "text_line ''General''" "text_line ''Games''" "text_line ''@0 1 ''" "text_line ''@2 ''" by (simp_all add: text_line_def NUL_def)
  have d: "CHR ''A'' \<notin> set DELIMS_WHITE" "CHR ''B'' \<notin> set DELIMS_WHITE" "CHR ''G'' \<notin> set DELIMS_WHITE"
    "CHR ''A'' \<noteq> NUL" "CHR ''B'' \<noteq> NUL" by (simp_all add: DELIMS_WHITE_mem NUL_def)
  have "writable_conf 3 (example_conf CHR ''A'' ''General'' [0, 1])" "writable_conf 3 (example_conf CHR ''B'' ''Games'' [2])"
    unfolding writable_conf_def example_lines using t d by (simp_all add: example_conf_def sub_list_def)
  then show ?thesis by (simp add: example_confs_def confs_of_def area_count_def)
qed

theorem insert_conf_inserts_witness:
  "\<exists>d s'. d \<notin> {CHR ''A'', CHR ''B''} \<and> insert_conf example_conf_env (\<lambda>_ s. (False, s)) CONF_SUBS 1 example_confs = Inr (Some s')
    \<and> confs_of CONF_SUBS s' = map reload [example_conf CHR ''A'' ''General'' [0, 1], new_conf d, example_conf CHR ''B'' ''Games'' [2]]"
proof -
  have l: "length (confs_of CONF_SUBS example_confs) < MAX_CONFERENCES" "1 \<le> length (confs_of CONF_SUBS example_confs)"
    by (simp_all add: example_confs_def confs_of_def)
  have e: "writable example_conf_env (conf_file CONF_SUBS example_conf_env)" "length (conf_file CONF_SUBS example_conf_env) < 81"
    by (simp_all add: example_conf_env_def conf_file_def)
  from insert_conf_inserts [OF example_writable l e, of "\<lambda>_ s. (False, s)"] show ?thesis
    by (simp add: example_confs_def confs_of_def example_conf_def)
qed

theorem delete_conf_deletes_nothing_witness:
  "\<exists>s'. delete_conf example_conf_env CONF_SUBS 1 example_confs = Inr (Some s')
    \<and> confs_of CONF_SUBS s' = map reload [example_conf CHR ''A'' ''General'' [0, 1], example_conf CHR ''B'' ''Games'' [2]]"
proof -
  have l: "length (confs_of CONF_SUBS example_confs) \<le> MAX_CONFERENCES" "1 < length (confs_of CONF_SUBS example_confs)"
    by (simp_all add: example_confs_def confs_of_def)
  have e: "writable example_conf_env (conf_file CONF_SUBS example_conf_env)" "length (conf_file CONF_SUBS example_conf_env) < 81"
    by (simp_all add: example_conf_env_def conf_file_def)
  from delete_conf_deletes_nothing [OF example_writable l e] show ?thesis by (simp add: example_confs_def confs_of_def)
qed

end
