(* ===== verification/Bbs_Access.thy ===== *)
theory Bbs_Access
  imports Bbs_Conf Sdk_Users
begin

unbundle bit_operations_syntax

text \<open>
  \<open>bbs/confutil.cpp\<close>, and \<open>tmp_disable_conf\<close> of \<open>bbs/conf.cpp\<close>: which conferences, message areas and file
  areas a user may enter, and the list of areas that the user is offered after a change of conference. The
  list is an array (\<open>usub\<close>, \<open>udir\<close>) of area numbers with the keys that the user types for them; the entry
  \<open>-1\<close> ends it. An access outside an array is \<open>Inl UndefinedBehaviour\<close>.

  \<open>changedsl\<close> has a loop that may not end, so its value is \<open>None\<close> when it does not return.
\<close>

section \<open>Data\<close>

record subboardrec =
  sb_name :: string
  sb_filename :: string
  sb_key :: char
  readsl :: u8
  postsl :: u8
  anony :: u8
  sb_age :: u8
  maxmsgs :: u16
  sb_ar :: u16
  storage_type :: u16
  sb_type :: u16

record directoryrec =
  dr_name :: string
  dr_filename :: string
  dr_path :: string
  dr_dsl :: u8
  dr_age :: u8
  dr_dar :: u16
  maxfiles :: u16
  dr_mask :: u16
  dr_type :: u16

record usersubrec =
  keys :: string
  subnum :: u16

text \<open>Who is logged on, with which security level and how; none of it changes here.\<close>

record access_env =
  acc_user :: userrec
  effective_sl :: int
  incom :: bool
  modem_speed :: int

text \<open>The state. \<open>uconfsub\<close> and \<open>uconfdir\<close> are arrays of \<open>MAX_CONFERENCES\<close> numbers. \<open>dc\<close>, \<open>tc\<close>, \<open>dcd\<close>, \<open>dtc\<close> are the characters that begin a number of two or three digits.\<close>

record area_session =
  confs :: conferences
  subboards :: "subboardrec list"
  directories :: "directoryrec list"
  usub :: "usersubrec list"
  udir :: "usersubrec list"
  uconfsub :: "u16 list"
  uconfdir :: "u16 list"
  dc :: bytes
  tc :: bytes
  dcd :: bytes
  dtc :: bytes
  CurrentMessageArea :: nat
  CurrentFileArea :: nat
  CurrentConferenceMessageArea :: nat
  CurrentConferenceFileArea :: nat
  g_flags :: u32
  disable_conf_cnt :: int
  saved_confs :: "int \<times> int \<times> int \<times> int"

section \<open>Access\<close>

definition GetDsl :: "userrec \<Rightarrow> nat" where
  "GetDsl u = ord (u_settings u ! 8)"

definition GetAge :: "userrec \<Rightarrow> nat" where
  "GetAge u = unat (u_age u)"

definition HasAnsi :: "userrec \<Rightarrow> bool" where
  "HasAnsi u = HasStatusFlag 0x1 u"

definition GetWWIVRegNumber :: "userrec \<Rightarrow> u32" where
  "GetWWIVRegNumber u = dec_u32 (read_at 0 4 (u_rest u))"

definition access_conf :: "access_env \<Rightarrow> confrec \<Rightarrow> bool" where
  "access_conf env c =
     (let u = acc_user env; sl = effective_sl env
      in if conf_num c < 1 then False
         else if conf_sex c = 0 \<and> GetGender u \<noteq> CHR ''M'' then False
         else if conf_sex c = 1 \<and> GetGender u \<noteq> CHR ''F'' then False
         else if sl < int (unat (minsl c)) \<or> int (unat (maxsl c)) < sl then False
         else if GetDsl u < unat (mindsl c) \<or> unat (maxdsl c) < GetDsl u then False
         else if GetAge u < unat (minage c) \<or> unat (maxage c) < GetAge u then False
         else if incom env \<and> modem_speed env < int (unat (minbps c)) then False
         else if conf_ar c \<noteq> 0 \<and> \<not> HasArFlag (ucast (conf_ar c)) u then False
         else if conf_dar c \<noteq> 0 \<and> \<not> HasDarFlag (ucast (conf_dar c)) u then False
         else if conf_status c AND 0x1 \<noteq> 0 \<and> \<not> HasAnsi u then False
         else if conf_status c AND 0x2 \<noteq> 0 \<and> GetWWIVRegNumber u < 1 then False
         else if conf_status c AND 0x4 \<noteq> 0 \<and> sl < 100 then False
         else True)"

definition access_sub :: "access_env \<Rightarrow> subboardrec \<Rightarrow> bool" where
  "access_sub env s =
     (let u = acc_user env
      in if effective_sl env < int (unat (readsl s)) then False
         else if GetAge u < unat (sb_age s) then False
         else if sb_ar s \<noteq> 0 \<and> \<not> HasArFlag (ucast (sb_ar s)) u then False
         else if anony s AND 0x20 \<noteq> 0 \<and> \<not> HasAnsi u then False
         else True)"

definition access_dir :: "access_env \<Rightarrow> directoryrec \<Rightarrow> bool" where
  "access_dir env d =
     (let u = acc_user env
      in if GetDsl u < unat (dr_dsl d) then False
         else if GetAge u < unat (dr_age d) then False
         else if dr_dar d \<noteq> 0 \<and> \<not> HasDarFlag (ucast (dr_dar d)) u then False
         else if dr_mask d AND 0x80 \<noteq> 0 \<and> GetDsl u < 100 then False
         else if dr_mask d AND 0x1000 \<noteq> 0 \<and> GetWWIVRegNumber u = 0 then False
         else if effective_sl env = 0 then False
         else True)"

section \<open>The list of areas\<close>

text \<open>The first loop of \<open>addusub\<close> finds the end of the list and the place behind the last area without a key.\<close>

datatype slot = Present | Slot nat nat

function find_slot :: "usersubrec list \<Rightarrow> nat \<Rightarrow> int \<Rightarrow> nat \<Rightarrow> nat \<Rightarrow> cpp_error + slot" where
  "find_slot ss1 ns sub end_pos last_num =
     (if ns \<le> end_pos then Inr (Slot end_pos last_num)
      else if length ss1 \<le> end_pos then Inl UndefinedBehaviour
      else if subnum (ss1 ! end_pos) = - 1 then Inr (Slot end_pos last_num)
      else if sint (subnum (ss1 ! end_pos)) = sub then Inr Present
      else find_slot ss1 ns sub (end_pos + 1) (if keys (ss1 ! end_pos) ! 0 = NUL then end_pos + 1 else last_num))"
  by pat_completeness auto
termination
  by (relation "measure (\<lambda>(_, ns, _, end_pos, _). ns - end_pos)") auto

declare find_slot.simps [simp del]

definition move_up :: "nat \<Rightarrow> nat \<Rightarrow> usersubrec list \<Rightarrow> usersubrec list" where
  "move_up last_num end_pos ss1 = foldl (\<lambda>ss i. ss[i := ss ! (i - 1)]) ss1 (rev [last_num + 1..<end_pos + 1])"

definition addusub :: "nat \<Rightarrow> int \<Rightarrow> char \<Rightarrow> usersubrec list \<Rightarrow> cpp_error + usersubrec list" where
  "addusub ns sub key ss1 =
     bind_res (find_slot ss1 ns sub 0 0) (\<lambda>r. Inr (case r of
       Present \<Rightarrow> ss1
     | Slot end_pos last_num \<Rightarrow>
         if end_pos = ns then ss1
         else if key \<noteq> NUL then ss1[end_pos := \<lparr>keys = (keys (ss1 ! end_pos))[0 := key], subnum = word_of_int sub\<rparr>]
         else let ss2 = move_up last_num end_pos ss1
              in ss2[last_num := \<lparr>keys = (keys (ss2 ! last_num))[0 := NUL], subnum = word_of_int sub\<rparr>]))"

section \<open>The two kinds of areas\<close>

definition user_areas :: "ConferenceType \<Rightarrow> area_session \<Rightarrow> usersubrec list" where
  "user_areas t s = (case t of CONF_SUBS \<Rightarrow> usub s | CONF_DIRS \<Rightarrow> udir s)"

definition set_user_areas :: "ConferenceType \<Rightarrow> usersubrec list \<Rightarrow> area_session \<Rightarrow> area_session" where
  "set_user_areas t ss s = (case t of CONF_SUBS \<Rightarrow> s\<lparr>usub := ss\<rparr> | CONF_DIRS \<Rightarrow> s\<lparr>udir := ss\<rparr>)"

definition current_area :: "ConferenceType \<Rightarrow> area_session \<Rightarrow> nat" where
  "current_area t s = (case t of CONF_SUBS \<Rightarrow> CurrentMessageArea s | CONF_DIRS \<Rightarrow> CurrentFileArea s)"

definition set_current_area :: "ConferenceType \<Rightarrow> nat \<Rightarrow> area_session \<Rightarrow> area_session" where
  "set_current_area t n s = (case t of CONF_SUBS \<Rightarrow> s\<lparr>CurrentMessageArea := n\<rparr> | CONF_DIRS \<Rightarrow> s\<lparr>CurrentFileArea := n\<rparr>)"

definition set_key_chars :: "ConferenceType \<Rightarrow> bytes \<Rightarrow> bytes \<Rightarrow> area_session \<Rightarrow> area_session" where
  "set_key_chars t d h s = (case t of CONF_SUBS \<Rightarrow> s\<lparr>dc := d, tc := h\<rparr> | CONF_DIRS \<Rightarrow> s\<lparr>dcd := d, dtc := h\<rparr>)"

definition two_digit_chars :: "ConferenceType \<Rightarrow> area_session \<Rightarrow> bytes" where
  "two_digit_chars t s = (case t of CONF_SUBS \<Rightarrow> dc s | CONF_DIRS \<Rightarrow> dcd s)"

definition three_digit_chars :: "ConferenceType \<Rightarrow> area_session \<Rightarrow> bytes" where
  "three_digit_chars t s = (case t of CONF_SUBS \<Rightarrow> tc s | CONF_DIRS \<Rightarrow> dtc s)"

definition areas_of_kind :: "ConferenceType \<Rightarrow> area_session \<Rightarrow> nat" where
  "areas_of_kind t s = (case t of CONF_SUBS \<Rightarrow> length (subboards s) | CONF_DIRS \<Rightarrow> length (directories s))"

definition access_area :: "access_env \<Rightarrow> ConferenceType \<Rightarrow> area_session \<Rightarrow> nat \<Rightarrow> bool" where
  "access_area env t s n =
     (case t of CONF_SUBS \<Rightarrow> access_sub env (subboards s ! n) | CONF_DIRS \<Rightarrow> access_dir env (directories s ! n))"

definition area_key :: "ConferenceType \<Rightarrow> area_session \<Rightarrow> nat \<Rightarrow> char" where
  "area_key t s n = (case t of CONF_SUBS \<Rightarrow> sb_key (subboards s ! n) | CONF_DIRS \<Rightarrow> NUL)"

section \<open>\<open>setconf\<close>\<close>

definition add_area :: "access_env \<Rightarrow> ConferenceType \<Rightarrow> area_session \<Rightarrow> u16 \<Rightarrow> usersubrec list \<Rightarrow> cpp_error + usersubrec list" where
  "add_area env t s x ss1 =
     (if areas_of_kind t s \<le> unat x then Inl UndefinedBehaviour
      else if access_area env t s (unat x) then addusub (areas_of_kind t s) (int (unat x)) (area_key t s (unat x)) ss1
      else Inr ss1)"

definition add_conf :: "access_env \<Rightarrow> ConferenceType \<Rightarrow> area_session \<Rightarrow> confrec \<Rightarrow> usersubrec list \<Rightarrow> cpp_error + usersubrec list" where
  "add_conf env t s c =
     each_res (\<lambda>i ss1. bind_res (load_sub i c) (\<lambda>x. add_area env t s x ss1)) [0..<unat (conf_num c)]"

definition add_confs :: "access_env \<Rightarrow> ConferenceType \<Rightarrow> area_session \<Rightarrow> usersubrec list \<Rightarrow> cpp_error + usersubrec list" where
  "add_confs env t s =
     each_res (\<lambda>c ss1. if access_conf env c then add_conf env t s c ss1 else Inr ss1) (confs_of t (confs s))"

definition print_key :: "nat \<Rightarrow> string \<Rightarrow> string" where
  "print_key n buf = (let t = take 4 (show_nat n) in t @ NUL # drop (length t + 1) buf)"

text \<open>The areas without a key are numbered; the characters are those at which the numbers get longer.\<close>

fun number_keys :: "nat \<Rightarrow> usersubrec list \<Rightarrow> usersubrec list \<times> string \<times> string" where
  "number_keys i1 [] = ([], [], [])"
| "number_keys i1 (u # us) =
     (if keys u ! 0 = NUL \<and> subnum u \<noteq> - 1
      then case number_keys (i1 + 1) us of (us', d, h) \<Rightarrow>
             (u\<lparr>keys := print_key i1 (keys u)\<rparr> # us',
              if i1 < 100 \<and> i1 mod 10 = 0 \<and> i1 \<noteq> 0 then char_of (48 + i1 div 10) # d else d,
              if 100 \<le> i1 \<and> i1 mod 100 = 0 then char_of (48 + i1 div 100) # h else h)
      else (u # us, [], []))"

text \<open>The place of an area in the list, or 0.\<close>

fun find_area :: "int \<Rightarrow> usersubrec list \<Rightarrow> nat option" where
  "find_area osub [] = None"
| "find_area osub (u # us) =
     (if subnum u = - 1 then None
      else if sint (subnum u) = osub then Some 0
      else map_option Suc (find_area osub us))"

definition old_area :: "ConferenceType \<Rightarrow> int \<Rightarrow> area_session \<Rightarrow> cpp_error + int" where
  "old_area t old_subnum s =
     (if old_subnum \<noteq> - 1 then Inr old_subnum
      else if current_area t s < length (user_areas t s) then Inr (sint (subnum (user_areas t s ! current_area t s)))
      else Inl UndefinedBehaviour)"

definition finish_list :: "ConferenceType \<Rightarrow> int \<Rightarrow> usersubrec list \<Rightarrow> area_session \<Rightarrow> cpp_error + area_session" where
  "finish_list t osub ss1 s =
     (if t = CONF_DIRS \<and> ss1 = [] then Inl UndefinedBehaviour
      else let ns = areas_of_kind t s;
               i1 = (if t = CONF_DIRS \<and> subnum (ss1 ! 0) = 0 then 0 else 1);
               (us, d, h) = number_keys i1 (take ns ss1)
           in if 80 \<le> length d \<or> 81 \<le> length h then Inl UndefinedBehaviour
              else Inr (set_current_area t (case find_area osub us of None \<Rightarrow> 0 | Some i \<Rightarrow> i)
                     (set_key_chars t (overwrite (two_digit_chars t s) 1 (d @ [NUL])) (overwrite (three_digit_chars t s) 0 (h @ [NUL]))
                       (set_user_areas t (us @ drop ns ss1) s))))"

definition empty_entry :: usersubrec where
  "empty_entry = \<lparr>keys = replicate 5 NUL, subnum = - 1\<rparr>"

definition setconf :: "access_env \<Rightarrow> ConferenceType \<Rightarrow> int \<Rightarrow> int \<Rightarrow> area_session \<Rightarrow> cpp_error + bool \<times> area_session" where
  "setconf env t which old_subnum s =
     bind_res (old_area t old_subnum s) (\<lambda>osub.
       let s1 = set_key_chars t ((two_digit_chars t s)[0 := CHR ''/'']) (three_digit_chars t s) s;
           cs = confs_of t (confs s); ns = areas_of_kind t s
       in if which \<noteq> - 1 \<and> (which < 0 \<or> int (length cs) \<le> which \<or> \<not> access_conf env (cs ! nat which)) then Inr (False, s1)
          else if length (user_areas t s) < ns then Inl UndefinedBehaviour
          else let ss0 = replicate ns empty_entry @ drop ns (user_areas t s)
               in bind_res (if which \<noteq> - 1 then add_conf env t s1 (cs ! nat which) ss0 else add_confs env t s1 ss0) (\<lambda>ss1.
                  map_sum id (Pair True) (finish_list t osub ss1 s1)))"

section \<open>\<open>setuconf\<close>, \<open>changedsl\<close> and \<open>tmp_disable_conf\<close>\<close>

definition user_confs :: "ConferenceType \<Rightarrow> area_session \<Rightarrow> u16 list" where
  "user_confs t s = (case t of CONF_SUBS \<Rightarrow> uconfsub s | CONF_DIRS \<Rightarrow> uconfdir s)"

definition current_conf :: "ConferenceType \<Rightarrow> area_session \<Rightarrow> nat" where
  "current_conf t s = (case t of CONF_SUBS \<Rightarrow> CurrentConferenceMessageArea s | CONF_DIRS \<Rightarrow> CurrentConferenceFileArea s)"

definition set_current_conf :: "ConferenceType \<Rightarrow> nat \<Rightarrow> area_session \<Rightarrow> area_session" where
  "set_current_conf t n s =
     (case t of CONF_SUBS \<Rightarrow> s\<lparr>CurrentConferenceMessageArea := n\<rparr> | CONF_DIRS \<Rightarrow> s\<lparr>CurrentConferenceFileArea := n\<rparr>)"

definition setuconf :: "access_env \<Rightarrow> ConferenceType \<Rightarrow> int \<Rightarrow> int \<Rightarrow> area_session \<Rightarrow> cpp_error + area_session" where
  "setuconf env t num nOldSubNumber s =
     map_sum id snd
       (if 0 \<le> num \<and> num < int MAX_CONFERENCES \<and> user_confs t s ! nat num \<noteq> - 1
        then setconf env t (sint (user_confs t s ! nat num)) nOldSubNumber (set_current_conf t (nat num) s)
        else setconf env t (- 1) nOldSubNumber s)"

text \<open>The conferences that the user may enter, in the array of 26 entries.\<close>

definition enterable :: "access_env \<Rightarrow> ConferenceType \<Rightarrow> area_session \<Rightarrow> nat list" where
  "enterable env t s = filter (\<lambda>i. access_conf env (confs_of t (confs s) ! i)) [0..<length (confs_of t (confs s))]"

definition list_confs_of :: "access_env \<Rightarrow> ConferenceType \<Rightarrow> area_session \<Rightarrow> cpp_error + u16 list" where
  "list_confs_of env t s =
     (let xs = map word_of_nat (enterable env t s) :: u16 list
      in if MAX_CONFERENCES < length xs then Inl UndefinedBehaviour else Inr (xs @ replicate (MAX_CONFERENCES - length xs) (- 1)))"

text \<open>The two loops that look for the old conference; the second one counts with the wrong variable.\<close>

function sub_conf_loop :: "u16 \<Rightarrow> area_session \<Rightarrow> area_session" where
  "sub_conf_loop ocurconfsub s =
     (if CurrentConferenceMessageArea s < MAX_CONFERENCES \<and> uconfsub s ! CurrentConferenceMessageArea s \<noteq> - 1
      then if uconfsub s ! CurrentConferenceMessageArea s = ocurconfsub then s
           else sub_conf_loop ocurconfsub (s\<lparr>CurrentConferenceMessageArea := CurrentConferenceMessageArea s + 1\<rparr>)
      else s)"
  by pat_completeness auto
termination
  by (relation "measure (\<lambda>(_, s). MAX_CONFERENCES - CurrentConferenceMessageArea s)") auto

declare sub_conf_loop.simps [simp del]

partial_function (option) dir_conf_loop :: "u16 \<Rightarrow> area_session \<Rightarrow> area_session option" where
  "dir_conf_loop ocurconfdir s =
     (if CurrentConferenceFileArea s < MAX_CONFERENCES \<and> uconfdir s ! CurrentConferenceFileArea s \<noteq> - 1
      then if uconfdir s ! CurrentConferenceFileArea s = ocurconfdir then Some s
           else dir_conf_loop ocurconfdir (s\<lparr>CurrentConferenceMessageArea := CurrentConferenceFileArea s + 1\<rparr>)
      else Some s)"

definition reset_conf :: "ConferenceType \<Rightarrow> area_session \<Rightarrow> area_session" where
  "reset_conf t s =
     (if MAX_CONFERENCES \<le> current_conf t s \<or> user_confs t s ! current_conf t s = - 1 then set_current_conf t 0 s else s)"

definition okconf :: "access_env \<Rightarrow> area_session \<Rightarrow> bool" where
  "okconf env s = (if g_flags s AND 0x1 \<noteq> 0 then False else HasStatusFlag 0x1000 (acc_user env))"

definition set_both :: "access_env \<Rightarrow> int \<Rightarrow> int \<Rightarrow> int \<Rightarrow> int \<Rightarrow> area_session \<Rightarrow> cpp_error + area_session" where
  "set_both env ocs oss ocd osd s = bind_res (setuconf env CONF_SUBS ocs oss s) (setuconf env CONF_DIRS ocd osd)"

definition changedsl :: "access_env \<Rightarrow> area_session \<Rightarrow> (cpp_error + area_session) option" where
  "changedsl env s =
     (if length (uconfsub s) \<le> CurrentConferenceMessageArea s \<or> length (uconfdir s) \<le> CurrentConferenceFileArea s
      then Some (Inl UndefinedBehaviour)
      else let ocurconfsub = uconfsub s ! CurrentConferenceMessageArea s; ocurconfdir = uconfdir s ! CurrentConferenceFileArea s
           in case bind_res (list_confs_of env CONF_SUBS s) (\<lambda>xs. bind_res (list_confs_of env CONF_DIRS s) (\<lambda>ys.
                     Inr (s\<lparr>uconfsub := xs, uconfdir := ys\<rparr>))) of
                Inl e \<Rightarrow> Some (Inl e)
              | Inr s1 \<Rightarrow>
                  let s2 = reset_conf CONF_SUBS (sub_conf_loop ocurconfsub (s1\<lparr>CurrentConferenceMessageArea := 0\<rparr>))
                  in map_option (\<lambda>s3.
                       let s4 = reset_conf CONF_DIRS s3
                       in if okconf env s4
                          then set_both env (int (CurrentConferenceMessageArea s4)) (- 1) (int (CurrentConferenceFileArea s4)) (- 1) s4
                          else bind_res (map_sum id snd (setconf env CONF_SUBS (- 1) (- 1) s4)) (\<lambda>s5.
                               map_sum id snd (setconf env CONF_DIRS (- 1) (- 1) s5)))
                     (dir_conf_loop ocurconfdir (s2\<lparr>CurrentConferenceFileArea := 0\<rparr>)))"

definition reset_disable_conf :: "area_session \<Rightarrow> area_session" where
  "reset_disable_conf s = s\<lparr>disable_conf_cnt := 0\<rparr>"

definition tmp_disable_conf :: "access_env \<Rightarrow> bool \<Rightarrow> area_session \<Rightarrow> cpp_error + area_session" where
  "tmp_disable_conf env disable s =
     (if disable
      then let s1 = s\<lparr>disable_conf_cnt := disable_conf_cnt s + 1\<rparr>
           in if \<not> okconf env s1 then Inr s1
              else bind_res (old_area CONF_SUBS (- 1) s1) (\<lambda>oss. bind_res (old_area CONF_DIRS (- 1) s1) (\<lambda>osd.
                   set_both env (- 1) oss (- 1) osd
                     (s1\<lparr>g_flags := g_flags s1 OR 0x1,
                         saved_confs := (int (CurrentConferenceMessageArea s1), oss, int (CurrentConferenceFileArea s1), osd)\<rparr>)))
      else if disable_conf_cnt s \<noteq> 0
      then let s1 = s\<lparr>disable_conf_cnt := disable_conf_cnt s - 1\<rparr>
           in if disable_conf_cnt s1 = 0 \<and> g_flags s1 AND 0x1 \<noteq> 0
              then case saved_confs s1 of (ocs, oss, ocd, osd) \<Rightarrow> set_both env ocs oss ocd osd (s1\<lparr>g_flags := g_flags s1 AND NOT 0x1\<rparr>)
              else Inr s1
      else Inr s)"

end
