(* ===== verification/Bbs_Access_Lists.thy ===== *)
theory Bbs_Access_Lists
  imports Bbs_Access Bbs_Conf_Update
begin

text \<open>
  The list of areas that \<open>setconf\<close> makes: the areas of the conference that the user may read, each of them
  once, first those without a key with their numbers and then those with a key; and when \<open>changedsl\<close> returns.
\<close>

section \<open>The specification\<close>

definition firsts :: "'a list \<Rightarrow> 'a list" where
  "firsts xs = rev (remdups (rev xs))"

lemma firsts_snoc: "firsts (xs @ [x]) = (if x \<in> set xs then firsts xs else firsts xs @ [x])"
  by (simp add: firsts_def)

lemma set_firsts [simp]: "set (firsts xs) = set xs"
  by (simp add: firsts_def)

lemma distinct_firsts [simp]: "distinct (firsts xs)"
  by (simp add: firsts_def)

definition offered :: "access_env \<Rightarrow> ConferenceType \<Rightarrow> confrec list \<Rightarrow> area_session \<Rightarrow> nat list" where
  "offered env t cs s = firsts (filter (access_area env t s) (concat (map areas cs)))"

definition unkeyed :: "ConferenceType \<Rightarrow> area_session \<Rightarrow> nat \<Rightarrow> bool" where
  "unkeyed t s x \<longleftrightarrow> area_key t s x = NUL"

definition entry :: "ConferenceType \<Rightarrow> area_session \<Rightarrow> nat \<Rightarrow> usersubrec" where
  "entry t s x = \<lparr>keys = (replicate 5 NUL)[0 := area_key t s x], subnum = word_of_nat x\<rparr>"

definition entries :: "ConferenceType \<Rightarrow> area_session \<Rightarrow> nat list \<Rightarrow> usersubrec list" where
  "entries t s xs = map (entry t s) (filter (unkeyed t s) xs) @ map (entry t s) (filter (\<lambda>x. \<not> unkeyed t s x) xs)"

definition list_array :: "nat \<Rightarrow> ConferenceType \<Rightarrow> area_session \<Rightarrow> nat list \<Rightarrow> usersubrec list \<Rightarrow> usersubrec list" where
  "list_array ns t s xs rest = entries t s xs @ replicate (ns - length xs) empty_entry @ rest"

lemma length_entries [simp]: "length (entries t s xs) = length xs"
  using sum_length_filter_compl [of "unkeyed t s" xs] by (simp add: entries_def)

section \<open>\<open>addusub\<close>\<close>

lemma find_slot_unkeyed:
  assumes "\<forall>y \<in> set ys. keys y ! 0 = NUL \<and> subnum y \<noteq> - 1 \<and> sint (subnum y) \<noteq> sub" "length pre + length ys \<le> ns"
  shows "find_slot (pre @ ys @ zs) ns sub (length pre) ln
    = find_slot (pre @ ys @ zs) ns sub (length pre + length ys) (if ys = [] then ln else length pre + length ys)"
  using assms
proof (induction ys arbitrary: pre ln)
  case (Cons y ys)
  have "find_slot (pre @ (y # ys) @ zs) ns sub (length pre) ln = find_slot ((pre @ [y]) @ ys @ zs) ns sub (length (pre @ [y])) (length pre + 1)"
    using Cons.prems by (subst find_slot.simps) (simp add: nth_append)
  also have "\<dots> = find_slot ((pre @ [y]) @ ys @ zs) ns sub (length (pre @ [y]) + length ys) (if ys = [] then length pre + 1 else length (pre @ [y]) + length ys)"
    using Cons.prems by (intro Cons.IH) auto
  also have "\<dots> = find_slot (pre @ (y # ys) @ zs) ns sub (length pre + length (y # ys)) (length pre + length (y # ys))" by simp
  finally show ?case by simp
qed simp

lemma find_slot_keyed:
  assumes "\<forall>y \<in> set ys. keys y ! 0 \<noteq> NUL \<and> subnum y \<noteq> - 1 \<and> sint (subnum y) \<noteq> sub" "length pre + length ys \<le> ns"
  shows "find_slot (pre @ ys @ zs) ns sub (length pre) ln = find_slot (pre @ ys @ zs) ns sub (length pre + length ys) ln"
  using assms
proof (induction ys arbitrary: pre)
  case (Cons y ys)
  have "find_slot (pre @ (y # ys) @ zs) ns sub (length pre) ln = find_slot ((pre @ [y]) @ ys @ zs) ns sub (length (pre @ [y])) ln"
    using Cons.prems by (subst find_slot.simps) (simp add: nth_append)
  also have "\<dots> = find_slot ((pre @ [y]) @ ys @ zs) ns sub (length (pre @ [y]) + length ys) ln"
    using Cons.prems by (intro Cons.IH) auto
  finally show ?case by simp
qed simp

lemma find_slot_present:
  assumes "\<forall>y \<in> set ys. subnum y \<noteq> - 1" "\<exists>y \<in> set ys. sint (subnum y) = sub" "length pre + length ys \<le> ns"
  shows "find_slot (pre @ ys @ zs) ns sub (length pre) ln = Inr Present"
  using assms
proof (induction ys arbitrary: pre ln)
  case (Cons y ys)
  show ?case
  proof (cases "sint (subnum y) = sub")
    case True
    then show ?thesis using Cons.prems by (subst find_slot.simps) (simp add: nth_append)
  next
    case False
    have "find_slot (pre @ (y # ys) @ zs) ns sub (length pre) ln
        = find_slot ((pre @ [y]) @ ys @ zs) ns sub (length (pre @ [y])) (if keys y ! 0 = NUL then length pre + 1 else ln)"
      using Cons.prems False by (subst find_slot.simps) (simp add: nth_append)
    also have "\<dots> = Inr Present" using Cons.prems False by (intro Cons.IH) auto
    finally show ?thesis .
  qed
qed simp

lemma find_slot_end:
  "subnum e = - 1 \<Longrightarrow> length pre < ns \<Longrightarrow> find_slot (pre @ e # zs) ns sub (length pre) ln = Inr (Slot (length pre) ln)"
  by (subst find_slot.simps) simp

lemma move_up_nth: "move_up a b xs ! a = xs ! a"
proof -
  have "foldl (\<lambda>ss i. ss[i := ss ! (i - 1)]) ys is ! a = ys ! a" if "a \<notin> set is" for "is" and ys :: "usersubrec list"
    using that by (induction "is" arbitrary: ys) auto
  then show ?thesis by (simp add: move_up_def)
qed

lemma move_up_insert:
  "(move_up (length U) (length U + length K) (U @ K @ e # zs))[length U := w] = U @ w # K @ zs"
proof (induction K arbitrary: e zs rule: rev_induct)
  case (snoc k K)
  have "move_up (length U) (length U + length (K @ [k])) (U @ (K @ [k]) @ e # zs)
      = move_up (length U) (length U + length K) (U @ K @ k # k # zs)"
    by (simp add: move_up_def nth_append list_update_append)
  then show ?case using snoc [of k "k # zs"] by simp
qed (simp add: move_up_def)

lemma length_distinct_below: "distinct xs \<Longrightarrow> \<forall>x \<in> set xs. x < n \<Longrightarrow> length xs \<le> (n :: nat)"
proof -
  assume xs: "distinct xs" "\<forall>x \<in> set xs. x < n"
  then have "set xs \<subseteq> {..<n}" by auto
  then have "card (set xs) \<le> n" using card_mono [of "{..<n}"] by simp
  then show ?thesis using xs(1) by (simp add: distinct_card)
qed

lemma area_not_end: "x < 32768 \<Longrightarrow> word_of_nat x \<noteq> (- 1 :: u16)"
proof
  assume x: "x < 32768" "word_of_nat x = (- 1 :: u16)"
  have "int x = sint (- 1 :: u16)" using sint_area [OF x(1)] unfolding x(2) by simp
  then show False by simp
qed

lemma entry_simps [simp]:
  "subnum (entry t s x) = word_of_nat x" "keys (entry t s x) ! 0 = area_key t s x"
  by (simp_all add: entry_def)

lemma addusub_list:
  assumes xs: "distinct xs" "\<forall>y \<in> set xs. y < ns" and x: "x < ns" and ns: "ns \<le> 8000"
  shows "addusub ns (int x) (area_key t s x) (list_array ns t s xs rest)
    = Inr (list_array ns t s (if x \<in> set xs then xs else xs @ [x]) rest)"
proof -
  have small: "y < 32768" if "y \<in> set xs" for y using xs(2) ns that by fastforce
  have e: "\<forall>y \<in> set (entries t s xs). subnum y \<noteq> - 1" using small by (auto simp: entries_def area_not_end)
  let ?U = "map (entry t s) (filter (unkeyed t s) xs)" and ?K = "map (entry t s) (filter (\<lambda>x. \<not> unkeyed t s x) xs)"
  show ?thesis
  proof (cases "x \<in> set xs")
    case True
    have "entry t s x \<in> set (entries t s xs)" using True by (auto simp: entries_def)
    then have "\<exists>y \<in> set (entries t s xs). sint (subnum y) = int x"
      by (rule rev_bexI) (use True small in \<open>simp add: sint_area\<close>)
    moreover have "length xs \<le> ns" by (rule length_distinct_below [OF xs])
    ultimately have "find_slot (list_array ns t s xs rest) ns (int x) 0 0 = Inr Present"
      using find_slot_present [of "entries t s xs" "int x" "[]" ns] e by (simp add: list_array_def)
    then show ?thesis using True by (simp add: addusub_def)
  next
    case False
    have "length (x # xs) \<le> ns" by (rule length_distinct_below) (use xs x False in auto)
    then obtain k where k: "ns - length xs = Suc k" "length xs < ns" by (metis Suc_diff_Suc Suc_le_lessD length_Cons)
    have "\<forall>y \<in> set xs. sint (word_of_nat y :: u16) \<noteq> int x" using small False sint_area by fastforce
    then have "find_slot (?U @ ?K @ empty_entry # replicate k empty_entry @ rest) ns (int x) 0 0 = Inr (Slot (length xs) (length ?U))"
    proof -
      assume d: "\<forall>y \<in> set xs. sint (word_of_nat y :: u16) \<noteq> int x"
      let ?zs = "empty_entry # replicate k empty_entry @ rest"
      have l: "length ?U + length ?K = length xs" using length_entries [of t s xs] by (simp add: entries_def)
      have "find_slot (?U @ ?K @ ?zs) ns (int x) 0 0 = find_slot (?U @ ?K @ ?zs) ns (int x) (length ?U) (length ?U)"
        using find_slot_unkeyed [of ?U "int x" "[]" ns "?K @ ?zs" 0] d small l k(2) by (auto simp: unkeyed_def area_not_end)
      also have "\<dots> = find_slot (?U @ ?K @ ?zs) ns (int x) (length xs) (length ?U)"
        using find_slot_keyed [of ?K "int x" ?U ns ?zs "length ?U"] d small l k(2) by (auto simp: unkeyed_def area_not_end)
      also have "\<dots> = Inr (Slot (length xs) (length ?U))"
        using find_slot_end [of empty_entry "?U @ ?K" ns "replicate k empty_entry @ rest" "int x" "length ?U"] k(2) l
        by (simp add: empty_entry_def)
      finally show ?thesis .
    qed
    moreover have a: "list_array ns t s xs rest = ?U @ ?K @ empty_entry # replicate k empty_entry @ rest"
      by (simp add: list_array_def entries_def k(1))
    ultimately have r: "find_slot (list_array ns t s xs rest) ns (int x) 0 0 = Inr (Slot (length xs) (length ?U))" by simp
    have l: "length xs = length ?U + length ?K" using length_entries [of t s xs] by (simp add: entries_def)
    have kk: "ns - Suc (length xs) = k" and z: "(replicate 5 NUL)[0 := NUL] = replicate 5 NUL"
      using k(1) by (simp_all add: numeral_eq_Suc)
    show ?thesis
    proof (cases "unkeyed t s x")
      case True
      let ?w = "entry t s x"
      have "(move_up (length ?U) (length xs) (list_array ns t s xs rest))[length ?U := ?w] = ?U @ ?w # ?K @ replicate k empty_entry @ rest"
        unfolding a l by (rule move_up_insert)
      moreover have "(keys (move_up (length ?U) (length xs) (list_array ns t s xs rest) ! length ?U))[0 := NUL] = replicate 5 NUL"
        unfolding move_up_nth a
        by (cases "filter (\<lambda>x. \<not> unkeyed t s x) xs") (simp_all add: nth_append empty_entry_def entry_def numeral_eq_Suc)
      ultimately show ?thesis using r k(2) True \<open>x \<notin> set xs\<close>
        by (simp add: addusub_def unkeyed_def Let_def entry_def list_array_def entries_def k(1) kk z)
    next
      case False
      have a': "list_array ns t s xs rest = entries t s xs @ empty_entry # replicate k empty_entry @ rest"
        by (simp add: list_array_def k(1))
      have n: "(entries t s xs @ empty_entry # zs) ! length xs = empty_entry" for zs
        using nth_append_length [of "entries t s xs" empty_entry zs] by simp
      have u: "(entries t s xs @ empty_entry # zs)[length xs := w] = entries t s xs @ w # zs" for w zs
        using list_update_length [of "entries t s xs" empty_entry zs w] by simp
      have "addusub ns (int x) (area_key t s x) (list_array ns t s xs rest)
          = Inr (entries t s xs @ entry t s x # replicate k empty_entry @ rest)"
        using r k(2) False unfolding a' by (simp add: addusub_def unkeyed_def n u) (simp add: entry_def empty_entry_def)
      moreover have "entries t s (xs @ [x]) = entries t s xs @ [entry t s x]" using False by (simp add: entries_def)
      ultimately show ?thesis using \<open>x \<notin> set xs\<close> by (simp add: list_array_def kk)
    qed
  qed
qed


section \<open>Adding conferences\<close>

lemma firsts_append: "firsts (xs @ [x]) = (if x \<in> set (firsts xs) then firsts xs else firsts xs @ [x])"
  by (simp add: firsts_snoc)

lemma add_area_list:
  assumes ys: "\<forall>y \<in> set ys. y < ns" and x: "unat x < ns" and ns: "ns = areas_of_kind t s" "ns \<le> 8000"
  shows "add_area env t s x (list_array ns t s (firsts (filter (access_area env t s) ys)) rest)
    = Inr (list_array ns t s (firsts (filter (access_area env t s) (ys @ [unat x]))) rest)"
  using addusub_list [of "firsts (filter (access_area env t s) ys)" ns "unat x" t s rest] assms
  by (auto simp: add_area_def firsts_snoc)

lemma add_conf_list:
  assumes ys: "\<forall>y \<in> set ys. y < ns" and c: "conf_ok ns c" and ns: "ns = areas_of_kind t s" "ns \<le> 8000"
  shows "add_conf env t s c (list_array ns t s (firsts (filter (access_area env t s) ys)) rest)
    = Inr (list_array ns t s (firsts (filter (access_area env t s) (ys @ areas c))) rest)"
proof -
  obtain b where b: "conf_subs c = Some b" "unat (conf_num c) < length b" using c by (auto simp: conf_ok_def)
  let ?P = "\<lambda>k ss. ss = list_array ns t s (firsts (filter (access_area env t s) (ys @ take k (areas c)))) rest"
  have l: "length (areas c) = unat (conf_num c)" using b by (simp add: areas_def)
  have "\<exists>ss. add_conf env t s c (list_array ns t s (firsts (filter (access_area env t s) ys)) rest) = Inr ss \<and> ?P (unat (conf_num c)) ss"
    unfolding add_conf_def
  proof (rule each_res_upto [where P = ?P])
    fix k ss assume k: "0 \<le> k" "k < unat (conf_num c)" and ss: "?P k ss"
    have ka: "k < length (areas c)" using k(2) l by simp
    have nth: "areas c ! k = unat (b ! k)" using b k by (simp add: areas_def)
    have "\<forall>y \<in> set (ys @ take k (areas c)). y < ns" using ys c set_take_subset [of k "areas c"] by (auto simp: conf_ok_def)
    moreover have "unat (b ! k) < ns" using c nth_mem [OF ka] nth by (simp add: conf_ok_def)
    ultimately have "add_area env t s (b ! k) ss
        = Inr (list_array ns t s (firsts (filter (access_area env t s) ((ys @ take k (areas c)) @ [unat (b ! k)]))) rest)"
      unfolding ss by (rule add_area_list) (rule ns)+
    moreover have t: "(ys @ take k (areas c)) @ [unat (b ! k)] = ys @ take (Suc k) (areas c)"
      using ka nth by (simp add: take_Suc_conv_app_nth)
    ultimately have "add_area env t s (b ! k) ss
        = Inr (list_array ns t s (firsts (filter (access_area env t s) (ys @ take (Suc k) (areas c)))) rest)" by (simp only: t)
    then show "\<exists>ss'. bind_res (load_sub k c) (\<lambda>x. add_area env t s x ss) = Inr ss' \<and> ?P (Suc k) ss'"
      using b k by (simp add: load_sub_def)
  qed simp_all
  then show ?thesis using l by simp
qed

lemma each_res_confs:
  assumes "\<forall>y \<in> set ys. y < ns" "\<forall>c \<in> set cs. conf_ok ns c" and ns: "ns = areas_of_kind t s" "ns \<le> 8000"
  shows "each_res (\<lambda>c ss. if access_conf env c then add_conf env t s c ss else Inr ss) cs
      (list_array ns t s (firsts (filter (access_area env t s) ys)) rest)
    = Inr (list_array ns t s (firsts (filter (access_area env t s) (ys @ concat (map areas (filter (access_conf env) cs))))) rest)"
  using assms(1,2)
proof (induction cs arbitrary: ys)
  case (Cons c cs)
  have "\<forall>y \<in> set (ys @ areas c). y < ns" using Cons.prems by (auto simp: conf_ok_def)
  then show ?case
    using Cons.IH [of "ys @ areas c"] Cons.IH [of ys] Cons.prems add_conf_list [OF Cons.prems(1) _ ns, of c env rest]
    by (simp del: filter_append)
qed simp


section \<open>The numbers\<close>

definition numbered :: "ConferenceType \<Rightarrow> area_session \<Rightarrow> nat \<Rightarrow> nat list \<Rightarrow> usersubrec list" where
  "numbered t s n U = map (\<lambda>(i, x). (entry t s x)\<lparr>keys := print_key i (replicate 5 NUL)\<rparr>) (enumerate n U)"

definition two_digit_starts :: "nat \<Rightarrow> nat \<Rightarrow> string" where
  "two_digit_starts n m = map (\<lambda>j. char_of (48 + j div 10)) (filter (\<lambda>j. j < 100 \<and> j mod 10 = 0 \<and> j \<noteq> 0) [n..<n + m])"

definition three_digit_starts :: "nat \<Rightarrow> nat \<Rightarrow> string" where
  "three_digit_starts n m = map (\<lambda>j. char_of (48 + j div 100)) (filter (\<lambda>j. 100 \<le> j \<and> j mod 100 = 0) [n..<n + m])"

definition list_ends :: "usersubrec list \<Rightarrow> bool" where
  "list_ends zs \<longleftrightarrow> zs = [] \<or> subnum (hd zs) = - 1"

lemma number_keys_stop: "list_ends zs \<or> keys (hd zs) ! 0 \<noteq> NUL \<Longrightarrow> number_keys n zs = (zs, [], [])"
  by (cases zs) (auto simp: list_ends_def)

lemma number_keys_eq:
  assumes "\<forall>x \<in> set U. unkeyed t s x \<and> x < 32768" "list_ends zs \<or> keys (hd zs) ! 0 \<noteq> NUL"
  shows "number_keys n (map (entry t s) U @ zs) = (numbered t s n U @ zs, two_digit_starts n (length U), three_digit_starts n (length U))"
  using assms
proof (induction U arbitrary: n)
  case Nil
  show ?case using number_keys_stop [OF Nil(2), of n] by (simp add: numbered_def two_digit_starts_def three_digit_starts_def)
next
  case (Cons x U)
  have r: "[n..<n + length (x # U)] = n # [n + 1..<n + 1 + length U]" by (subst upt_conv_Cons) simp_all
  have "area_key t s x = NUL" using Cons.prems by (simp add: unkeyed_def)
  then have k: "keys (entry t s x) = replicate 5 NUL" by (simp add: entry_def numeral_eq_Suc)
  have IH: "number_keys (n + 1) (map (entry t s) U @ zs)
      = (numbered t s (n + 1) U @ zs, two_digit_starts (n + 1) (length U), three_digit_starts (n + 1) (length U))"
    using Cons by simp
  have "number_keys n (map (entry t s) (x # U) @ zs) =
      ((entry t s x)\<lparr>keys := print_key n (replicate 5 NUL)\<rparr> # numbered t s (n + 1) U @ zs,
       if n < 100 \<and> n mod 10 = 0 \<and> n \<noteq> 0 then char_of (48 + n div 10) # two_digit_starts (n + 1) (length U) else two_digit_starts (n + 1) (length U),
       if 100 \<le> n \<and> n mod 100 = 0 then char_of (48 + n div 100) # three_digit_starts (n + 1) (length U) else three_digit_starts (n + 1) (length U))"
    using Cons.prems k IH by (simp add: area_not_end unkeyed_def)
  moreover have "numbered t s n (x # U) = (entry t s x)\<lparr>keys := print_key n (replicate 5 NUL)\<rparr> # numbered t s (n + 1) U"
    by (simp add: numbered_def)
  moreover have "two_digit_starts n (length (x # U))
      = (if n < 100 \<and> n mod 10 = 0 \<and> n \<noteq> 0 then char_of (48 + n div 10) # two_digit_starts (n + 1) (length U) else two_digit_starts (n + 1) (length U))"
    unfolding two_digit_starts_def r by (simp del: upt_Suc)
  moreover have "three_digit_starts n (length (x # U))
      = (if 100 \<le> n \<and> n mod 100 = 0 then char_of (48 + n div 100) # three_digit_starts (n + 1) (length U) else three_digit_starts (n + 1) (length U))"
    unfolding three_digit_starts_def r by (simp del: upt_Suc)
  ultimately show ?case by simp
qed

lemma length_multiples:
  assumes "distinct xs" "\<forall>j \<in> set xs. d dvd j \<and> j < d * k"
  shows "length xs \<le> (k :: nat)"
proof -
  have "set xs \<subseteq> (\<lambda>i. d * i) ` {..<k}" using assms(2) by (auto elim!: dvdE)
  then have "card (set xs) \<le> card ((\<lambda>i. d * i) ` {..<k})" by (intro card_mono) simp_all
  also have "\<dots> \<le> k" using card_image_le [of "{..<k}" "\<lambda>i. d * i"] by simp
  finally show ?thesis using distinct_card [OF assms(1)] by simp
qed

lemma length_two_digit_starts: "length (two_digit_starts n m) < 80"
proof -
  have "length (filter (\<lambda>j. j < 100 \<and> j mod 10 = 0 \<and> j \<noteq> 0) [n..<n + m]) \<le> 10"
    by (rule length_multiples [of _ 10]) (simp, auto simp: mod_eq_0_iff_dvd)
  then show ?thesis unfolding two_digit_starts_def length_map by linarith
qed

lemma length_three_digit_starts:
  assumes "n + m \<le> 8000"
  shows "length (three_digit_starts n m) < 81"
proof -
  have "length (filter (\<lambda>j. 100 \<le> j \<and> j mod 100 = 0) [n..<n + m]) \<le> 80"
    by (rule length_multiples [of _ 100]) (use assms in \<open>simp, auto simp: mod_eq_0_iff_dvd\<close>)
  then show ?thesis unfolding three_digit_starts_def length_map by linarith
qed

lemma c_str_print_key:
  assumes "n < 10000"
  shows "c_str (print_key n (replicate 5 NUL)) = show_nat n"
proof -
  have l: "length (show_nat n) \<le> 4" using length_show_nat_le [of n 4] assms by simp
  have "NUL \<notin> set (show_nat n)" using isdigit_show_nat by (fastforce simp: isdigit_def NUL_def)
  then show ?thesis using l by (simp add: print_key_def c_str_append_NUL Let_def)
qed

section \<open>The place of an area\<close>

definition place :: "int \<Rightarrow> nat list \<Rightarrow> nat" where
  "place osub xs = (if osub \<in> int ` set xs then length (takeWhile (\<lambda>x. int x \<noteq> osub) xs) else 0)"

lemma find_area_eq:
  assumes "map subnum A = map word_of_nat xs" "\<forall>x \<in> set xs. x < 32768" "list_ends B"
  shows "find_area osub (A @ B) = (if osub \<in> int ` set xs then Some (length (takeWhile (\<lambda>x. int x \<noteq> osub) xs)) else None)"
  using assms
proof (induction xs arbitrary: A)
  case Nil
  then show ?case by (cases B) (simp_all add: list_ends_def)
next
  case (Cons x xs)
  then obtain a A' where A: "A = a # A'" "subnum a = word_of_nat x" "map subnum A' = map word_of_nat xs" by (auto simp: map_eq_Cons_conv)
  have "subnum a \<noteq> - 1" "sint (subnum a) = int x" using A(2) Cons.prems by (simp_all add: area_not_end sint_area)
  then show ?case using Cons.IH [OF A(3)] Cons.prems A(1) by auto
qed


section \<open>\<open>setconf\<close>\<close>

definition chosen_confs :: "access_env \<Rightarrow> ConferenceType \<Rightarrow> int \<Rightarrow> area_session \<Rightarrow> confrec list" where
  "chosen_confs env t which s =
     (let cs = confs_of t (confs s) in if which = - 1 then filter (access_conf env) cs else [cs ! nat which])"

definition first_number :: "ConferenceType \<Rightarrow> nat list \<Rightarrow> nat" where
  "first_number t xs = (if t = CONF_DIRS \<and> xs \<noteq> [] \<and> hd xs = 0 then 0 else 1)"

text \<open>What the user sees: the keys with the areas, and what it should be.\<close>

definition shown_areas :: "ConferenceType \<Rightarrow> area_session \<Rightarrow> (string \<times> nat) list" where
  "shown_areas t s = map (\<lambda>u. (c_str (keys u), unat (subnum u)))
     (takeWhile (\<lambda>u. subnum u \<noteq> - 1) (take (areas_of_kind t s) (user_areas t s)))"

definition area_order :: "ConferenceType \<Rightarrow> area_session \<Rightarrow> nat list \<Rightarrow> nat list" where
  "area_order t s xs = filter (unkeyed t s) xs @ filter (\<lambda>x. \<not> unkeyed t s x) xs"

definition area_menu :: "ConferenceType \<Rightarrow> area_session \<Rightarrow> nat list \<Rightarrow> (string \<times> nat) list" where
  "area_menu t s xs = map (\<lambda>(i, x). (show_nat i, x)) (enumerate (first_number t xs) (filter (unkeyed t s) xs))
     @ map (\<lambda>x. ([area_key t s x], x)) (filter (\<lambda>x. \<not> unkeyed t s x) xs)"

lemma set_area_order [simp]: "set (area_order t s xs) = set xs"
  by (auto simp: area_order_def)

lemma subnum_numbered: "map subnum (numbered t s n U) = map word_of_nat U"
  by (induction U arbitrary: n) (simp_all add: numbered_def)

lemma finish_list_eq:
  assumes xs: "distinct xs" "\<forall>x \<in> set xs. x < ns" and ns: "ns = areas_of_kind t s" "ns < 8000" and rest: "0 < ns + length rest"
  defines "U \<equiv> filter (unkeyed t s) xs" and "K \<equiv> filter (\<lambda>x. \<not> unkeyed t s x) xs"
  shows "\<exists>d h. finish_list t osub (list_array ns t s xs rest) s = Inr (set_current_area t (place osub (area_order t s xs))
    (set_key_chars t d h (set_user_areas t (numbered t s (first_number t xs) U @ map (entry t s) K @ replicate (ns - length xs) empty_entry @ rest) s)))"
proof -
  let ?n = "first_number t xs" and ?E = "replicate (ns - length xs) empty_entry"
  let ?us = "\<lambda>n. numbered t s n U @ map (entry t s) K @ ?E"
  have len: "length xs \<le> ns" by (rule length_distinct_below [OF xs])
  have small: "x < 32768" if "x \<in> set xs" for x using that xs(2) ns(2) by fastforce
  have E: "list_ends ?E" by (cases "ns - length xs") (simp_all add: list_ends_def empty_entry_def)
  have take: "take ns (list_array ns t s xs rest) = map (entry t s) U @ map (entry t s) K @ ?E" "drop ns (list_array ns t s xs rest) = rest"
    using len take_append [of ns "entries t s xs @ ?E" rest] drop_append [of ns "entries t s xs @ ?E" rest]
    by (simp_all add: list_array_def) (simp add: entries_def U_def K_def)
  have stop: "list_ends (map (entry t s) K @ ?E) \<or> keys (hd (map (entry t s) K @ ?E)) ! 0 \<noteq> NUL"
    using E by (cases K) (auto simp: K_def unkeyed_def filter_eq_Cons_iff)
  have keys: "number_keys n (take ns (list_array ns t s xs rest)) = (?us n, two_digit_starts n (length U), three_digit_starts n (length U))" for n
    unfolding take by (subst number_keys_eq [OF _ stop]) (use small in \<open>auto simp: U_def\<close>)
  have sub: "map subnum (numbered t s ?n U @ map (entry t s) K) = map word_of_nat (area_order t s xs)"
    by (simp add: subnum_numbered area_order_def U_def K_def)
  have find: "find_area osub (?us ?n) = (if osub \<in> int ` set xs then Some (place osub (area_order t s xs)) else None)"
    using find_area_eq [OF sub _ E, of osub] small by (simp add: place_def)
  have d: "length (two_digit_starts n (length U)) < 80" for n by (rule length_two_digit_starts)
  have "length U \<le> ns" unfolding U_def by (rule le_trans [OF length_filter_le len])
  then have h: "length (three_digit_starts n (length U)) < 81" if "n \<le> 1" for n
    using that ns(2) by (intro length_three_digit_starts) simp
  have ne: "list_array ns t s xs rest \<noteq> []" using rest len length_entries [of t s xs] by (auto simp: list_array_def simp del: length_entries)
  have nf: "first_number t xs \<le> 1" by (simp add: first_number_def)
  have n: "(if t = CONF_DIRS \<and> subnum (list_array ns t s xs rest ! 0) = 0 then 0 else 1) = ?n \<or> xs = []"
  proof (cases xs)
    case (Cons x ys)
    have "unkeyed CONF_DIRS s x" for x by (simp add: unkeyed_def area_key_def)
    then have "t = CONF_DIRS \<Longrightarrow> list_array ns t s xs rest ! 0 = entry t s x"
      using Cons by (simp add: list_array_def entries_def)
    moreover have "word_of_nat x = (0 :: u16) \<longleftrightarrow> x = 0" using small [of x] Cons by (simp add: word_of_nat_eq_0_iff) auto
    ultimately show ?thesis using Cons by (auto simp: first_number_def)
  qed simp
  have p: "place osub (area_order t s xs) = (case find_area osub (?us ?n) of None \<Rightarrow> 0 | Some i \<Rightarrow> i)"
    unfolding find by (simp add: place_def)
  let ?i = "if t = CONF_DIRS \<and> subnum (list_array ns t s xs rest ! 0) = 0 then 0 else 1 :: nat"
  have i: "?us ?i = ?us ?n" using n
  proof
    assume "?i = ?n"
    then show ?thesis by (simp only:)
  qed (simp add: U_def numbered_def)
  have "finish_list t osub (list_array ns t s xs rest) s = Inr (set_current_area t (place osub (area_order t s xs))
      (set_key_chars t (overwrite (two_digit_chars t s) 1 (two_digit_starts ?i (length U) @ [NUL]))
        (overwrite (three_digit_chars t s) 0 (three_digit_starts ?i (length U) @ [NUL]))
        (set_user_areas t (?us ?n @ rest) s)))"
  proof -
    have l: "\<not> (80 \<le> length (two_digit_starts ?i (length U)) \<or> 81 \<le> length (three_digit_starts ?i (length U)))"
      using d [of ?i] h [of ?i] by (simp add: not_le)
    have "\<not> (t = CONF_DIRS \<and> list_array ns t s xs rest = [])" using ne by simp
    then show ?thesis unfolding finish_list_def Let_def p ns(1) [symmetric] keys take(2) i prod.case
      by (simp only: l if_False)
  qed
  then show ?thesis by (simp only: append_assoc) blast
qed

lemma area_session_simps [simp]:
  "access_area env t (set_key_chars t d h s) = access_area env t s" "area_key t (set_key_chars t d h s) = area_key t s"
  "areas_of_kind t (set_key_chars t d h s) = areas_of_kind t s" "user_areas t (set_key_chars t d h s) = user_areas t s"
  "confs (set_key_chars t d h s) = confs s"
  "user_areas t (set_user_areas t us s) = us" "areas_of_kind t (set_user_areas t us s) = areas_of_kind t s"
  "user_areas t (set_current_area t n s) = user_areas t s" "areas_of_kind t (set_current_area t n s) = areas_of_kind t s"
  "current_area t (set_current_area t n s) = n"
  by (cases t; simp add: access_area_def area_key_def set_key_chars_def areas_of_kind_def user_areas_def set_user_areas_def
      set_current_area_def current_area_def fun_eq_iff)+

lemma unkeyed_set_key_chars [simp]: "unkeyed t (set_key_chars t d h s) = unkeyed t s"
  by (simp add: unkeyed_def fun_eq_iff)

lemma area_order_set_key_chars [simp]: "area_order t (set_key_chars t d h s) = area_order t s"
  by (simp add: area_order_def fun_eq_iff)

lemma map_numbered:
  assumes "\<forall>x \<in> set U. x < 32768" "n + length U \<le> 10000"
  shows "map (\<lambda>u. (c_str (keys u), unat (subnum u))) (numbered t s n U) = map (\<lambda>(i, x). (show_nat i, x)) (enumerate n U)"
proof -
  have "c_str (print_key i (replicate 5 NUL)) = show_nat i \<and> unat (word_of_nat x :: u16) = x" if "(i, x) \<in> set (enumerate n U)" for i x
  proof -
    have "i < 10000" "x \<in> set U" using that assms(2) by (auto simp: in_set_enumerate_eq)
    moreover have "x < 65536" using assms(1) calculation(2) by fastforce
    ultimately show ?thesis by (simp add: c_str_print_key unat_of_nat)
  qed
  then show ?thesis by (auto simp: numbered_def)
qed

lemma shown_list:
  assumes xs: "distinct xs" "\<forall>x \<in> set xs. x < ns" and ns: "ns = areas_of_kind t s" "ns < 8000" and n: "n \<le> 1"
  defines "U \<equiv> filter (unkeyed t s) xs" and "K \<equiv> filter (\<lambda>x. \<not> unkeyed t s x) xs"
  shows "map (\<lambda>u. (c_str (keys u), unat (subnum u))) (takeWhile (\<lambda>u. subnum u \<noteq> - 1)
      (take ns (numbered t s n U @ map (entry t s) K @ replicate (ns - length xs) empty_entry @ rest)))
    = map (\<lambda>(i, x). (show_nat i, x)) (enumerate n U) @ map (\<lambda>x. ([area_key t s x], x)) K"
proof -
  have len: "length xs \<le> ns" by (rule length_distinct_below [OF xs])
  have small: "x < 32768" if "x \<in> set xs" for x using that xs(2) ns(2) by fastforce
  let ?A = "numbered t s n U @ map (entry t s) K" and ?E = "replicate (ns - length xs) empty_entry"
  have l: "length ?A = length xs" using length_entries [of t s xs] by (simp add: entries_def numbered_def U_def K_def)
  have t: "take ns (numbered t s n U @ map (entry t s) K @ ?E @ rest) = ?A @ ?E"
    using take_append [of ns "?A @ ?E" rest] len l by simp
  have "map subnum ?A = map word_of_nat (area_order t s xs)" by (simp add: subnum_numbered area_order_def U_def K_def)
  then have "\<forall>w \<in> subnum ` set ?A. w \<noteq> - 1"
    using small area_not_end by (metis (no_types, lifting) image_iff list.set_map set_area_order)
  then have w: "takeWhile (\<lambda>u. subnum u \<noteq> - 1) (?A @ ?E) = ?A"
    by (cases "ns - length xs") (auto simp: takeWhile_append empty_entry_def)
  have u: "length U \<le> ns" unfolding U_def by (rule le_trans [OF length_filter_le len])
  have "map (\<lambda>u. (c_str (keys u), unat (subnum u))) (numbered t s n U) = map (\<lambda>(i, x). (show_nat i, x)) (enumerate n U)"
    by (rule map_numbered) (use small u ns(2) n in \<open>auto simp: U_def\<close>)
  moreover have "(c_str (keys (entry t s x)), unat (subnum (entry t s x))) = ([area_key t s x], x)" if "x \<in> set K" for x
  proof -
    have "c_str (keys (entry t s x)) = [area_key t s x]"
      using that by (simp add: entry_def K_def unkeyed_def c_str_def numeral_eq_Suc)
    moreover have "x < 65536" using that small by (fastforce simp: K_def)
    ultimately show ?thesis by (simp add: unat_of_nat)
  qed
  ultimately show ?thesis unfolding t w by (simp add: comp_def)
qed

text \<open>C15 \<open>setconf\<close> offers what the user may read: entering a conference, or all of them, succeeds, and the
  user is then shown every area of it that \<open>access_sub\<close> or \<open>access_dir\<close> lets through, once each and in the order
  of the conferences, first those without a key under their numbers and then those with a key of their own. The area
  the user was in stays the current one when it is among them.
\<close>

theorem setconf_lists:
  assumes which: "which = - 1 \<or> 0 \<le> which \<and> nat which < length (confs_of t (confs s)) \<and> access_conf env (confs_of t (confs s) ! nat which)"
    and cs: "\<forall>c \<in> set (confs_of t (confs s)). conf_ok (areas_of_kind t s) c"
    and ns: "areas_of_kind t s < 8000" "areas_of_kind t s \<le> length (user_areas t s)"
    and cur: "current_area t s < length (user_areas t s)" "sint (subnum (user_areas t s ! current_area t s)) = osub"
    and xs: "xs = offered env t (chosen_confs env t which s) s"
  shows "\<exists>s'. setconf env t which (- 1) s = Inr (True, s') \<and> shown_areas t s' = area_menu t s xs
    \<and> current_area t s' = place osub (area_order t s xs)"
proof -
  let ?ns = "areas_of_kind t s" and ?cs = "confs_of t (confs s)" and ?rest = "drop (areas_of_kind t s) (user_areas t s)"
  let ?s1 = "set_key_chars t ((two_digit_chars t s)[0 := CHR ''/'']) (three_digit_chars t s) s"
  have ok: "\<forall>c \<in> set (chosen_confs env t which s). conf_ok ?ns c"
    using which cs by (auto simp: chosen_confs_def Let_def)
  have d: "distinct xs" "\<forall>x \<in> set xs. x < ?ns" using ok by (auto simp: xs offered_def conf_ok_def)
  have e: "list_array ?ns t ?s1 [] ?rest = replicate ?ns empty_entry @ ?rest" by (simp add: list_array_def entries_def)
  have run: "(if which \<noteq> - 1 then add_conf env t ?s1 (?cs ! nat which) (replicate ?ns empty_entry @ ?rest)
      else add_confs env t ?s1 (replicate ?ns empty_entry @ ?rest)) = Inr (list_array ?ns t ?s1 xs ?rest)"
  proof (cases "which = - 1")
    case True
    have "add_confs env t ?s1 (list_array ?ns t ?s1 (firsts (filter (access_area env t ?s1) [])) ?rest) = Inr (list_array ?ns t ?s1 xs ?rest)"
      unfolding add_confs_def by (subst each_res_confs) (use cs ns(1) True in \<open>simp_all add: xs offered_def chosen_confs_def\<close>)
    then show ?thesis using True e by (simp add: firsts_def)
  next
    case False
    have "add_conf env t ?s1 (?cs ! nat which) (list_array ?ns t ?s1 (firsts (filter (access_area env t ?s1) [])) ?rest)
        = Inr (list_array ?ns t ?s1 xs ?rest)"
      by (subst add_conf_list) (use cs ns(1) False which in \<open>simp_all add: xs offered_def chosen_confs_def\<close>)
    then show ?thesis using False e by (simp add: firsts_def)
  qed
  have rest: "0 < ?ns + length ?rest" using ns(2) cur(1) by (cases "user_areas t s") auto
  obtain dd h where f: "finish_list t osub (list_array ?ns t ?s1 xs ?rest) ?s1 = Inr (set_current_area t (place osub (area_order t s xs))
    (set_key_chars t dd h (set_user_areas t (numbered t ?s1 (first_number t xs) (filter (unkeyed t s) xs)
      @ map (entry t ?s1) (filter (\<lambda>x. \<not> unkeyed t s x) xs) @ replicate (?ns - length xs) empty_entry @ ?rest) ?s1)))"
    using finish_list_eq [OF d _ ns(1) rest, of t ?s1 osub]
    unfolding area_session_simps unkeyed_set_key_chars area_order_set_key_chars by blast
  let ?s' = "set_current_area t (place osub (area_order t s xs))
    (set_key_chars t dd h (set_user_areas t (numbered t ?s1 (first_number t xs) (filter (unkeyed t s) xs)
      @ map (entry t ?s1) (filter (\<lambda>x. \<not> unkeyed t s x) xs) @ replicate (?ns - length xs) empty_entry @ ?rest) ?s1))"
  have "\<not> (which \<noteq> - 1 \<and> (which < 0 \<or> int (length ?cs) \<le> which \<or> \<not> access_conf env (?cs ! nat which)))" using which by auto
  then have "setconf env t which (- 1) s = Inr (True, ?s')"
    unfolding setconf_def old_area_def Let_def using cur ns(2) by (simp only: run) (simp add: f)
  moreover have "shown_areas t ?s' = area_menu t s xs"
    using shown_list [OF d _ ns(1), of t ?s1 "first_number t xs" ?rest]
    by (simp add: shown_areas_def area_menu_def first_number_def)
  ultimately show ?thesis by (intro exI [of _ ?s']) simp
qed

section \<open>An example\<close>

definition example_reader :: access_env where
  "example_reader = \<lparr>acc_user = ZeroUserData\<lparr>u_age := 30, u_settings := replicate 9 NUL, u_ar := 0, u_dar := 0, u_sysstatus := 0\<rparr>,
     effective_sl = 50, incom = False, modem_speed = 0\<rparr>"

definition example_area :: "char \<Rightarrow> u8 \<Rightarrow> subboardrec" where
  "example_area key sl = \<lparr>sb_name = ''Area'', sb_filename = ''AREA'', sb_key = key, readsl = sl, postsl = 0, anony = 0, sb_age = 0,
     maxmsgs = 50, sb_ar = 0, storage_type = 2, sb_type = 0\<rparr>"

definition example_area_conf :: "u16 list \<Rightarrow> confrec" where
  "example_area_conf xs = zero_conf\<lparr>designator := CHR ''A'', maxsl := 255, maxdsl := 255, maxage := 255, conf_sex := 2,
     conf_num := word_of_nat (length xs), maxnum := word_of_nat (length xs), conf_subs := Some (xs @ [0])\<rparr>"

definition example_session :: area_session where
  "example_session = \<lparr>confs = \<lparr>subconfs = [example_area_conf [2, 0, 1, 3]], dirconfs = [], subboard_count = 4, directory_count = 0, conf_disk = Map.empty\<rparr>,
     subboards = [example_area NUL 10, example_area NUL 200, example_area (CHR 0x40) 10, example_area NUL 10], directories = [],
     usub = replicate 8 empty_entry, udir = replicate 8 empty_entry, uconfsub = replicate 26 (- 1), uconfdir = replicate 26 (- 1),
     dc = replicate 81 NUL, tc = replicate 81 NUL, dcd = replicate 81 NUL, dtc = replicate 81 NUL,
     CurrentMessageArea = 0, CurrentFileArea = 0, CurrentConferenceMessageArea = 0, CurrentConferenceFileArea = 0,
     g_flags = 0, disable_conf_cnt = 0, saved_confs = (0, 0, 0, 0)\<rparr>"

lemma example_access:
  "areas (example_area_conf [2, 0, 1, 3]) = [2, 0, 1, 3]" "access_conf example_reader (example_area_conf [2, 0, 1, 3])"
  "map (access_area example_reader CONF_SUBS example_session) [0, 1, 2, 3] = [True, False, True, True]"
  "map (area_key CONF_SUBS example_session) [0, 1, 2, 3] = [NUL, NUL, CHR 0x40, NUL]"
proof -
  show "areas (example_area_conf [2, 0, 1, 3]) = [2, 0, 1, 3]" by (simp add: areas_def example_area_conf_def)
  show "access_conf example_reader (example_area_conf [2, 0, 1, 3])"
    by (simp add: access_conf_def example_reader_def example_area_conf_def zero_conf_def GetDsl_def GetAge_def NUL_def)
  show "map (access_area example_reader CONF_SUBS example_session) [0, 1, 2, 3] = [True, False, True, True]"
    by (simp add: access_area_def access_sub_def example_reader_def example_session_def example_area_def GetAge_def)
  show "map (area_key CONF_SUBS example_session) [0, 1, 2, 3] = [NUL, NUL, CHR 0x40, NUL]"
    by (simp add: area_key_def example_session_def example_area_def)
qed

theorem setconf_lists_witness:
  "\<exists>s'. setconf example_reader CONF_SUBS (- 1) (- 1) example_session = Inr (True, s')
    \<and> shown_areas CONF_SUBS s' = [(''1'', 0), (''2'', 3), (''@'', 2)] \<and> current_area CONF_SUBS s' = 0"
proof -
  let ?s = example_session
  have cs: "confs_of CONF_SUBS (confs ?s) = [example_area_conf [2, 0, 1, 3]]" "areas_of_kind CONF_SUBS ?s = 4"
    "user_areas CONF_SUBS ?s = replicate 8 empty_entry" "current_area CONF_SUBS ?s = 0"
    by (simp_all add: example_session_def confs_of_def areas_of_kind_def user_areas_def current_area_def)
  have xs: "offered example_reader CONF_SUBS (chosen_confs example_reader CONF_SUBS (- 1) ?s) ?s = [2, 0, 3]"
    using example_access by (simp add: offered_def chosen_confs_def cs firsts_def)
  have ok: "conf_ok 4 (example_area_conf [2, 0, 1, 3])"
    using example_access(1) by (simp add: conf_ok_def) (simp add: example_area_conf_def)
  have "area_menu CONF_SUBS ?s [2, 0, 3] = [(''1'', 0), (''2'', 3), (''@'', 2)]" "place (- 1) (area_order CONF_SUBS ?s [2, 0, 3]) = 0"
    using example_access(4)
    by (simp_all add: area_menu_def unkeyed_def first_number_def NUL_def area_order_def place_def show_nat.simps char_of_def bit_0)
  moreover have "\<exists>s'. setconf example_reader CONF_SUBS (- 1) (- 1) ?s = Inr (True, s')
    \<and> shown_areas CONF_SUBS s' = area_menu CONF_SUBS ?s [2, 0, 3] \<and> current_area CONF_SUBS s' = place (- 1) (area_order CONF_SUBS ?s [2, 0, 3])"
    by (rule setconf_lists) (simp_all add: cs ok xs empty_entry_def)
  ultimately show ?thesis by simp
qed

section \<open>\<open>changedsl\<close>\<close>

lemma dir_conf_loop_stays:
  assumes r: "dir_conf_loop o' s = Some r"
  shows "CurrentConferenceFileArea s < MAX_CONFERENCES \<and> uconfdir s ! CurrentConferenceFileArea s \<noteq> - 1
    \<longrightarrow> uconfdir s ! CurrentConferenceFileArea s = o'"
proof (rule dir_conf_loop.raw_induct [OF _ r])
  fix f and o' :: u16 and s r :: area_session
  let ?P = "\<lambda>s. CurrentConferenceFileArea s < MAX_CONFERENCES \<and> uconfdir s ! CurrentConferenceFileArea s \<noteq> - 1
    \<longrightarrow> uconfdir s ! CurrentConferenceFileArea s = o'"
  let ?s = "s\<lparr>CurrentConferenceMessageArea := CurrentConferenceFileArea s + 1\<rparr>"
  assume IH: "\<And>o' s r. f o' s = Some r \<Longrightarrow> CurrentConferenceFileArea s < MAX_CONFERENCES \<and> uconfdir s ! CurrentConferenceFileArea s \<noteq> - 1
    \<longrightarrow> uconfdir s ! CurrentConferenceFileArea s = o'"
    and run: "(if CurrentConferenceFileArea s < MAX_CONFERENCES \<and> uconfdir s ! CurrentConferenceFileArea s \<noteq> - 1
      then if uconfdir s ! CurrentConferenceFileArea s = o' then Some s else f o' ?s else Some s) = Some r"
  show "?P s"
  proof (rule ccontr)
    assume n: "\<not> ?P s"
    then have "f o' ?s = Some r" using run by simp
    from IH [OF this] n show False by simp
  qed
qed

lemma dir_conf_loop_returns_iff:
  "(\<exists>r. dir_conf_loop o' s = Some r) \<longleftrightarrow>
     (CurrentConferenceFileArea s < MAX_CONFERENCES \<and> uconfdir s ! CurrentConferenceFileArea s \<noteq> - 1
       \<longrightarrow> uconfdir s ! CurrentConferenceFileArea s = o')"
proof
  assume "CurrentConferenceFileArea s < MAX_CONFERENCES \<and> uconfdir s ! CurrentConferenceFileArea s \<noteq> - 1
       \<longrightarrow> uconfdir s ! CurrentConferenceFileArea s = o'"
  then have "dir_conf_loop o' s = Some s" by (subst dir_conf_loop.simps) simp
  then show "\<exists>r. dir_conf_loop o' s = Some r" by blast
qed (use dir_conf_loop_stays in blast)

lemma sub_conf_loop_keeps:
  "\<exists>n. sub_conf_loop o' s = s\<lparr>CurrentConferenceMessageArea := n\<rparr>"
proof (induction o' s rule: sub_conf_loop.induct)
  case (1 o' s)
  let ?s = "s\<lparr>CurrentConferenceMessageArea := CurrentConferenceMessageArea s + 1\<rparr>"
  have "s = s\<lparr>CurrentConferenceMessageArea := CurrentConferenceMessageArea s\<rparr>" by simp
  moreover have "\<exists>n. sub_conf_loop o' ?s = s\<lparr>CurrentConferenceMessageArea := n\<rparr>"
    if "CurrentConferenceMessageArea s < MAX_CONFERENCES \<and> uconfsub s ! CurrentConferenceMessageArea s \<noteq> - 1" "uconfsub s ! CurrentConferenceMessageArea s \<noteq> o'"
    using 1 [OF that] by auto
  ultimately show ?case by (subst sub_conf_loop.simps) (metis (full_types))
qed

lemma reset_conf_keeps: "\<exists>n. reset_conf CONF_SUBS s = s\<lparr>CurrentConferenceMessageArea := n\<rparr>"
proof -
  have "s = s\<lparr>CurrentConferenceMessageArea := CurrentConferenceMessageArea s\<rparr>" by simp
  then show ?thesis unfolding reset_conf_def set_current_conf_def by (metis ConferenceType.simps(3))
qed

text \<open>C35 \<open>changedsl\<close> returns exactly when the user may enter no conference of file areas, or the first one that the
  user may enter is the one the user was in: its loop over these conferences increments the number of the
  current conference of message areas, so it looks at the first one for ever.
\<close>

theorem changedsl_returns_iff:
  assumes "CurrentConferenceMessageArea s < length (uconfsub s)" "CurrentConferenceFileArea s < length (uconfdir s)"
    and "\<forall>t. length (confs_of t (confs s)) \<le> MAX_CONFERENCES"
  shows "changedsl env s \<noteq> None \<longleftrightarrow>
    (case enterable env CONF_DIRS s of [] \<Rightarrow> True | d # _ \<Rightarrow> uconfdir s ! CurrentConferenceFileArea s = word_of_nat d)"
proof -
  have l: "length (enterable env t s) \<le> MAX_CONFERENCES" for t
    using assms(3) length_filter_le [of "\<lambda>i. access_conf env (confs_of t (confs s) ! i)" "[0..<length (confs_of t (confs s))]"]
    by (auto simp: enterable_def intro: le_trans)
  let ?arr = "\<lambda>t. map word_of_nat (enterable env t s) @ replicate (MAX_CONFERENCES - length (enterable env t s)) (- 1) :: u16 list"
  have arr: "list_confs_of env t s = Inr (?arr t)" for t using l [of t] by (simp add: list_confs_of_def Let_def)
  let ?s1 = "s\<lparr>uconfsub := ?arr CONF_SUBS, uconfdir := ?arr CONF_DIRS\<rparr>"
  obtain n where "sub_conf_loop (uconfsub s ! CurrentConferenceMessageArea s) (?s1\<lparr>CurrentConferenceMessageArea := 0\<rparr>) = ?s1\<lparr>CurrentConferenceMessageArea := n\<rparr>"
    using sub_conf_loop_keeps [of "uconfsub s ! CurrentConferenceMessageArea s" "?s1\<lparr>CurrentConferenceMessageArea := 0\<rparr>"] by auto
  then obtain m where m: "(reset_conf CONF_SUBS (sub_conf_loop (uconfsub s ! CurrentConferenceMessageArea s)
      (?s1\<lparr>CurrentConferenceMessageArea := 0\<rparr>)))\<lparr>CurrentConferenceFileArea := 0\<rparr> = ?s1\<lparr>CurrentConferenceMessageArea := m, CurrentConferenceFileArea := 0\<rparr>"
    using reset_conf_keeps [of "?s1\<lparr>CurrentConferenceMessageArea := n\<rparr>"] by auto
  have "changedsl env s \<noteq> None \<longleftrightarrow> (\<exists>r. dir_conf_loop (uconfdir s ! CurrentConferenceFileArea s)
      (?s1\<lparr>CurrentConferenceMessageArea := m, CurrentConferenceFileArea := 0\<rparr>) = Some r)"
    using assms(1,2) by (simp add: changedsl_def arr m Let_def)
  also have "\<dots> \<longleftrightarrow> (?arr CONF_DIRS ! 0 \<noteq> - 1 \<longrightarrow> ?arr CONF_DIRS ! 0 = uconfdir s ! CurrentConferenceFileArea s)"
    by (simp add: dir_conf_loop_returns_iff)
  also have "\<dots> \<longleftrightarrow> (case enterable env CONF_DIRS s of [] \<Rightarrow> True | d # _ \<Rightarrow> uconfdir s ! CurrentConferenceFileArea s = word_of_nat d)"
  proof (cases "enterable env CONF_DIRS s")
    case (Cons d ds)
    then have "d \<in> set (enterable env CONF_DIRS s)" by simp
    then have "d < length (confs_of CONF_DIRS (confs s))" by (auto simp: enterable_def)
    then have "d < 32768" using assms(3) [THEN spec, of CONF_DIRS] by simp
    then show ?thesis using Cons by (auto simp: area_not_end)
  qed simp
  finally show ?thesis .
qed

text \<open>A user in the second of two conferences of file areas: \<open>changedsl\<close> does not return.\<close>

theorem changedsl_returns_iff_witness:
  "changedsl example_reader (example_session\<lparr>confs := \<lparr>subconfs = [], dirconfs = [example_area_conf [2, 0, 1, 3], example_area_conf [2, 0, 1, 3]],
      subboard_count = 0, directory_count = 4, conf_disk = Map.empty\<rparr>,
    uconfdir := [0, 1] @ replicate 24 (- 1), CurrentConferenceFileArea := 1\<rparr>) = None"
proof -
  let ?s = "example_session\<lparr>confs := \<lparr>subconfs = [], dirconfs = [example_area_conf [2, 0, 1, 3], example_area_conf [2, 0, 1, 3]],
      subboard_count = 0, directory_count = 4, conf_disk = Map.empty\<rparr>,
    uconfdir := [0, 1] @ replicate 24 (- 1), CurrentConferenceFileArea := 1\<rparr>"
  have "enterable example_reader CONF_DIRS ?s = [0, 1]"
    using example_access(2) by (simp add: enterable_def confs_of_def)
  moreover have "\<forall>t. length (confs_of t (confs ?s)) \<le> MAX_CONFERENCES"
    by (rule allI, rename_tac t, case_tac t) (simp_all add: confs_of_def)
  ultimately show ?thesis
    using changedsl_returns_iff [of ?s example_reader] by (simp add: example_session_def)
qed

end
