(* ===== verification/Bbs_QScan.thy ===== *)
theory Bbs_QScan
  imports Bbs_Conf_Update
begin

unbundle bit_operations_syntax

text \<open>
  What a user scans for new messages and files: \<open>bbs/wqscn.cpp\<close>, and the loops of \<open>bbs/subedit.cpp\<close> and
  \<open>bbs/diredit.cpp\<close> over it. The record of a user is an array of 32-bit words: the message area last read
  (999 for none), a bit for each file area, a bit for each message area, and for each message area the number of the
  last message read. Reading or writing outside the array, and shifting a word by its width, is
  \<open>Inl UndefinedBehaviour\<close>.

  When areas are inserted, deleted or exchanged the bits and numbers have to move. The lemmas say when they do.
\<close>

section \<open>Arrays and shifts\<close>

definition get_word :: "nat \<Rightarrow> u32 list \<Rightarrow> cpp_error + u32" where
  "get_word i b = (if i < length b then Inr (b ! i) else Inl UndefinedBehaviour)"

definition put_word :: "nat \<Rightarrow> u32 \<Rightarrow> u32 list \<Rightarrow> cpp_error + u32 list" where
  "put_word i x b = (if i < length b then Inr (b[i := x]) else Inl UndefinedBehaviour)"

definition shift_left :: "u32 \<Rightarrow> nat \<Rightarrow> cpp_error + u32" where
  "shift_left x k = (if k < 32 then Inr (push_bit k x) else Inl UndefinedBehaviour)"

definition shift_right :: "u32 \<Rightarrow> nat \<Rightarrow> cpp_error + u32" where
  "shift_right x k = (if k < 32 then Inr (drop_bit k x) else Inl UndefinedBehaviour)"

text \<open>A word of the array that begins at \<open>a\<close> is set from itself and from the word before or behind it.\<close>

definition step_up :: "(u32 \<Rightarrow> u32 \<Rightarrow> u32) \<Rightarrow> nat \<Rightarrow> nat \<Rightarrow> u32 list \<Rightarrow> cpp_error + u32 list" where
  "step_up f a i b =
     bind_res (get_word (a + i) b) (\<lambda>x. bind_res (get_word (a + i - 1) b) (\<lambda>y. put_word (a + i) (f x y) b))"

definition step_down :: "(u32 \<Rightarrow> u32 \<Rightarrow> u32) \<Rightarrow> nat \<Rightarrow> nat \<Rightarrow> u32 list \<Rightarrow> cpp_error + u32 list" where
  "step_down f a i b =
     bind_res (get_word (a + i) b) (\<lambda>x. bind_res (get_word (a + i + 1) b) (\<lambda>y. put_word (a + i) (f x y) b))"

section \<open>Moving the bits of the areas\<close>

text \<open>The words of the bits begin at the index \<open>a\<close>. The masks \<open>m1\<close>, \<open>m2\<close> and \<open>m3\<close> are computed once, before the loop over the users.\<close>

definition insert_masks :: "nat \<Rightarrow> cpp_error + u32 \<times> u32 \<times> u32" where
  "insert_masks n =
     bind_res (shift_left (- 1) (n mod 32 + 1)) (\<lambda>m2.
     bind_res (shift_right (- 1) (32 - n mod 32)) (\<lambda>m3. Inr (push_bit (n mod 32) 1, m2, m3)))"

definition up_word :: "u32 \<Rightarrow> u32 \<Rightarrow> u32" where
  "up_word x y = push_bit 1 x OR drop_bit 31 y"

definition insert_bit :: "nat \<Rightarrow> nat \<Rightarrow> nat \<Rightarrow> u32 \<times> u32 \<times> u32 \<Rightarrow> u32 list \<Rightarrow> cpp_error + u32 list" where
  "insert_bit a n num m b =
     (case m of (m1, m2, m3) \<Rightarrow>
        bind_res (each_res (step_up up_word a) (rev [n div 32 + 1..<num div 32 + 1]) b) (\<lambda>b1.
        let i = min (n div 32) (num div 32)
        in bind_res (get_word (a + i) b1) (\<lambda>x. put_word (a + i) (m1 OR (m2 AND push_bit 1 x) OR (m3 AND x)) b1)))"

definition delete_masks :: "nat \<Rightarrow> cpp_error + u32 \<times> u32" where
  "delete_masks n =
     bind_res (shift_left (- 1) (n mod 32)) (\<lambda>m2. bind_res (shift_right (- 1) (32 - n mod 32)) (\<lambda>m3. Inr (m2, m3)))"

definition down_word :: "u32 \<Rightarrow> u32 \<Rightarrow> u32" where
  "down_word x y = drop_bit 1 x OR push_bit 31 y"

definition delete_bit :: "nat \<Rightarrow> nat \<Rightarrow> nat \<Rightarrow> u32 \<times> u32 \<Rightarrow> u32 list \<Rightarrow> cpp_error + u32 list" where
  "delete_bit a n num m b =
     (case m of (m2, m3) \<Rightarrow>
        let i = n div 32
        in bind_res (get_word (a + i) b) (\<lambda>x. bind_res (get_word (a + i + 1) b) (\<lambda>y.
           bind_res (put_word (a + i) ((x AND m3) OR (drop_bit 1 x AND m2) OR push_bit 31 y) b)
             (each_res (step_down down_word a) [i + 1..<num div 32 + 1]))))"

definition swap_bits :: "nat \<Rightarrow> nat \<Rightarrow> nat \<Rightarrow> u32 list \<Rightarrow> cpp_error + u32 list" where
  "swap_bits a sub1 sub2 b =
     bind_res (get_word (a + sub1 div 32) b) (\<lambda>x. bind_res (get_word (a + sub2 div 32) b) (\<lambda>y.
     let i1 = (if x AND push_bit (sub1 mod 32) 1 \<noteq> 0 then 1 else 0 :: nat);
         i2 = (if y AND push_bit (sub2 mod 32) 1 \<noteq> 0 then 1 else 0)
     in if i1 + i2 = 1
        then bind_res (put_word (a + sub1 div 32) (x XOR push_bit (sub1 mod 32) 1) b) (\<lambda>b1.
             bind_res (get_word (a + sub2 div 32) b1) (\<lambda>y. put_word (a + sub2 div 32) (y XOR push_bit (sub2 mod 32) 1) b1))
        else Inr b))"

section \<open>What the bits say\<close>

definition flag :: "nat \<Rightarrow> u32 list \<Rightarrow> nat \<Rightarrow> bool" where
  "flag a b i = bit (b ! (a + i div 32)) (i mod 32)"

definition same_outside :: "nat \<Rightarrow> nat \<Rightarrow> u32 list \<Rightarrow> u32 list \<Rightarrow> bool" where
  "same_outside lo hi b b' \<longleftrightarrow> length b' = length b \<and> (\<forall>i. i < lo \<or> hi < i \<longrightarrow> b' ! i = b ! i)"

lemma flag_word: "k < 32 \<Longrightarrow> flag a b (32 * j + k) = bit (b ! (a + j)) k"
  by (simp add: flag_def)

lemma same_word:
  "32 * l + r < 32 * l + k \<longleftrightarrow> r < k" "32 * l + r = 32 * l + k \<longleftrightarrow> r = k" "0 < r \<Longrightarrow> 32 * l + r - 1 = 32 * l + (r - 1)" for l r k :: nat
  by auto

lemma steps_up:
  assumes "lo \<le> hi" "a + hi < length b"
  shows "\<exists>b'. each_res (step_up f a) (rev [lo + 1..<hi + 1]) b = Inr b' \<and> length b' = length b
    \<and> (\<forall>i. i \<le> a + lo \<or> a + hi < i \<longrightarrow> b' ! i = b ! i)
    \<and> (\<forall>j. lo < j \<and> j \<le> hi \<longrightarrow> b' ! (a + j) = f (b ! (a + j)) (b ! (a + j - 1)))"
  using assms
proof (induction hi arbitrary: b)
  case (Suc hi)
  show ?case
  proof (cases "lo = Suc hi")
    case False
    let ?b = "b[a + Suc hi := f (b ! (a + Suc hi)) (b ! (a + hi))]"
    obtain b' where b': "each_res (step_up f a) (rev [lo + 1..<hi + 1]) ?b = Inr b'" "length b' = length b"
      "\<forall>i. i \<le> a + lo \<or> a + hi < i \<longrightarrow> b' ! i = ?b ! i"
      "\<forall>j. lo < j \<and> j \<le> hi \<longrightarrow> b' ! (a + j) = f (?b ! (a + j)) (?b ! (a + j - 1))"
      using Suc.IH [of ?b] Suc.prems False by auto
    have "step_up f a (Suc hi) b = Inr ?b" using Suc.prems by (simp add: step_up_def get_word_def put_word_def)
    then have run: "each_res (step_up f a) (rev [lo + 1..<Suc hi + 1]) b = Inr b'" using b'(1) False Suc.prems by simp
    have "b' ! (a + j) = f (b ! (a + j)) (b ! (a + j - 1))" if j: "lo < j" "j \<le> Suc hi" for j
    proof (cases "j = Suc hi")
      case True
      then show ?thesis using b'(3) Suc.prems by simp
    next
      case False
      then have "?b ! (a + j) = b ! (a + j)" "?b ! (a + j - 1) = b ! (a + j - 1)" using j by simp_all
      then show ?thesis using b'(4) j False by simp
    qed
    moreover have "b' ! i = b ! i" if "i \<le> a + lo \<or> a + Suc hi < i" for i
      using b'(3) that Suc.prems False by auto
    ultimately show ?thesis using run b'(2) by blast
  qed auto
qed auto

lemma bit_double: "bit (x * 2 :: u32) k \<longleftrightarrow> 0 < k \<and> k < 32 \<and> bit x (k - 1)"
proof -
  have "bit (push_bit 1 x) k \<longleftrightarrow> 1 \<le> k \<and> possible_bit TYPE(u32) k \<and> bit x (k - 1)" by (rule bit_push_bit_iff)
  moreover have "push_bit 1 x = x * 2" by (simp add: push_bit_eq_mult)
  ultimately show ?thesis by auto
qed

lemma shifted_bit: "k < 32 \<Longrightarrow> bit (up_word x y) k = (if k = 0 then bit y 31 else bit x (k - 1))"
  using bit_imp_le_length [of y "31 + k"] by (auto simp: up_word_def bit_or_iff bit_drop_bit_eq bit_double)

lemma insert_masks_eq:
  "insert_masks n = (if n mod 32 = 0 \<or> n mod 32 = 31 then Inl UndefinedBehaviour
     else Inr (push_bit (n mod 32) 1, push_bit (n mod 32 + 1) (- 1), drop_bit (32 - n mod 32) (- 1)))"
  using mod_less_divisor [of 32 n] by (auto simp: insert_masks_def shift_left_def shift_right_def)

text \<open>The new flag is set, the flags from its place on move up, and the words outside the bits of \<open>num\<close> areas stay.\<close>

lemma insert_bit_flags:
  assumes n: "n < num" "n mod 32 \<noteq> 0" "n mod 32 \<noteq> 31" and b: "a + num div 32 < length b" and m: "insert_masks n = Inr m"
  shows "\<exists>b'. insert_bit a n num m b = Inr b' \<and> same_outside (a + n div 32) (a + num div 32) b b'
    \<and> (\<forall>i < 32 * (num div 32 + 1). flag a b' i = (if i < n then flag a b i else if i = n then True else flag a b (i - 1)))"
proof -
  let ?lo = "n div 32" and ?hi = "num div 32" and ?k = "n mod 32"
  have lo: "?lo \<le> ?hi" using n(1) by (simp add: div_le_mono)
  obtain b1 where b1: "each_res (step_up up_word a) (rev [?lo + 1..<?hi + 1]) b = Inr b1" "length b1 = length b"
    "\<forall>i. i \<le> a + ?lo \<or> a + ?hi < i \<longrightarrow> b1 ! i = b ! i"
    "\<forall>j. ?lo < j \<and> j \<le> ?hi \<longrightarrow> b1 ! (a + j) = up_word (b ! (a + j)) (b ! (a + j - 1))"
    using steps_up [OF lo b] by blast
  define w where "w = push_bit ?k 1 OR (push_bit (?k + 1) (- 1) AND push_bit 1 (b ! (a + ?lo))) OR (drop_bit (32 - ?k) (- 1) AND b ! (a + ?lo))"
  let ?b = "b1[a + ?lo := w]"
  have k: "0 < ?k" "?k < 31" using n(2,3) mod_less_divisor [of 32 n] by simp_all
  have w: "bit w j = (if j < ?k then bit (b ! (a + ?lo)) j else if j = ?k then True else bit (b ! (a + ?lo)) (j - 1))" if "j < 32" for j
    using that k by (auto simp: w_def bit_simps bit_double)
  have run: "insert_bit a n num m b = Inr ?b"
    using m n(2,3) b1(1-3) lo b by (auto simp: insert_masks_eq insert_bit_def get_word_def put_word_def w_def min_def Let_def)
  have "flag a ?b i = (if i < n then flag a b i else if i = n then True else flag a b (i - 1))" if i: "i < 32 * (?hi + 1)" for i
  proof -
    obtain j r where ij: "i = 32 * j + r" "r < 32" by (metis mult_div_mod_eq mod_less_divisor zero_less_numeral)
    have "32 * j < 32 * (?hi + 1)" using i ij by simp
    then have j: "j \<le> ?hi" by simp
    have nn: "n = 32 * ?lo + ?k" by simp
    consider "j < ?lo" | "j = ?lo" | "?lo < j" by linarith
    then show ?thesis
    proof cases
      case 1
      then have "i < n" using ij nn k by linarith
      then show ?thesis using 1 ij b1(3) by (simp add: flag_word)
    next
      case 2
      have f: "flag a ?b i = bit w r" using 2 ij b1(2) b lo by (simp add: flag_word)
      have i: "i = 32 * ?lo + r" using 2 ij by simp
      have c: "i < n \<longleftrightarrow> r < ?k" "i = n \<longleftrightarrow> r = ?k" "r < ?k \<or> r = ?k \<or> i - 1 = 32 * ?lo + (r - 1)"
        using same_word(1,2) [of ?lo r ?k] same_word(3) [of r ?lo] k i nn by auto
      have "flag a b i = bit (b ! (a + ?lo)) r" "flag a b (32 * ?lo + (r - 1)) = bit (b ! (a + ?lo)) (r - 1)"
        using i ij(2) by (simp_all add: flag_word)
      then show ?thesis unfolding f w [OF ij(2)] c(1,2) using c(3) by auto
    next
      case 3
      then have gt: "n < i" using ij nn k by linarith
      have f: "flag a ?b i = bit (up_word (b ! (a + j)) (b ! (a + j - 1))) r"
        using 3 ij j b1(4) by (simp add: flag_word)
      have "i - 1 = (if r = 0 then 32 * (j - 1) + 31 else 32 * j + (r - 1))" using ij 3 by (cases j) auto
      moreover have "a + j - 1 = a + (j - 1)" using 3 by simp
      moreover have "flag a b (32 * (j - 1) + 31) = bit (b ! (a + (j - 1))) 31" "flag a b (32 * j + (r - 1)) = bit (b ! (a + j)) (r - 1)"
        by (rule flag_word, use ij(2) in simp)+
      ultimately have "flag a b (i - 1) = (if r = 0 then bit (b ! (a + j - 1)) 31 else bit (b ! (a + j)) (r - 1))"
        by (cases "r = 0") simp_all
      then show ?thesis unfolding f shifted_bit [OF ij(2)] using gt by simp
    qed
  qed
  moreover have "same_outside (a + ?lo) (a + ?hi) b ?b" using b1(2,3) lo by (auto simp: same_outside_def)
  ultimately show ?thesis using run by blast
qed

lemma steps_down:
  assumes "lo \<le> hi" "a + hi < length b"
  shows "\<exists>b'. each_res (step_down f a) [lo..<hi] b = Inr b' \<and> length b' = length b
    \<and> (\<forall>i. i < a + lo \<or> a + hi \<le> i \<longrightarrow> b' ! i = b ! i)
    \<and> (\<forall>j. lo \<le> j \<and> j < hi \<longrightarrow> b' ! (a + j) = f (b ! (a + j)) (b ! (a + j + 1)))"
proof (rule each_res_upto [where P = "\<lambda>k b'. length b' = length b \<and> (\<forall>i. i < a + lo \<or> a + k \<le> i \<longrightarrow> b' ! i = b ! i)
    \<and> (\<forall>j. lo \<le> j \<and> j < k \<longrightarrow> b' ! (a + j) = f (b ! (a + j)) (b ! (a + j + 1)))", OF assms(1)])
  fix k b' assume k: "lo \<le> k" "k < hi" and b': "length b' = length b \<and> (\<forall>i. i < a + lo \<or> a + k \<le> i \<longrightarrow> b' ! i = b ! i)
    \<and> (\<forall>j. lo \<le> j \<and> j < k \<longrightarrow> b' ! (a + j) = f (b ! (a + j)) (b ! (a + j + 1)))"
  let ?b = "b'[a + k := f (b ! (a + k)) (b ! (a + k + 1))]"
  have "step_down f a k b' = Inr ?b" using k b' assms(2) by (simp add: step_down_def get_word_def put_word_def)
  moreover have "?b ! (a + j) = f (b ! (a + j)) (b ! (a + j + 1))" if "lo \<le> j" "j < Suc k" for j
    using that b' k assms(2) by (cases "j = k") auto
  moreover have "?b ! i = b ! i" if "i < a + lo \<or> a + Suc k \<le> i" for i using that b' k by auto
  ultimately show "\<exists>s'. step_down f a k b' = Inr s' \<and> (length s' = length b \<and> (\<forall>i. i < a + lo \<or> a + Suc k \<le> i \<longrightarrow> s' ! i = b ! i)
    \<and> (\<forall>j. lo \<le> j \<and> j < Suc k \<longrightarrow> s' ! (a + j) = f (b ! (a + j)) (b ! (a + j + 1))))"
    using b' by (intro exI [of _ ?b]) simp
qed auto

lemma halved_bit: "k < 32 \<Longrightarrow> bit (down_word x y) k = (if k = 31 then bit y 0 else bit x (k + 1))"
  using bit_imp_le_length [of x "k + 1"] by (auto simp: down_word_def bit_or_iff bit_drop_bit_eq bit_push_bit_iff)

lemma delete_masks_eq:
  "delete_masks n = (if n mod 32 = 0 then Inl UndefinedBehaviour else Inr (push_bit (n mod 32) (- 1), drop_bit (32 - n mod 32) (- 1)))"
  using mod_less_divisor [of 32 n] by (auto simp: delete_masks_def shift_left_def shift_right_def)

lemma delete_bit_flags:
  assumes n: "n \<le> num" "n mod 32 \<noteq> 0" and b: "a + num div 32 + 1 < length b" and m: "delete_masks n = Inr m"
  shows "\<exists>b'. delete_bit a n num m b = Inr b' \<and> same_outside (a + n div 32) (a + num div 32) b b'
    \<and> (\<forall>i < 32 * (num div 32 + 1). flag a b' i = (if i < n then flag a b i else flag a b (i + 1)))"
proof -
  let ?lo = "n div 32" and ?hi = "num div 32" and ?k = "n mod 32"
  have lo: "?lo \<le> ?hi" using n(1) by (simp add: div_le_mono)
  define w where "w = (b ! (a + ?lo) AND drop_bit (32 - ?k) (- 1)) OR (drop_bit 1 (b ! (a + ?lo)) AND push_bit ?k (- 1)) OR push_bit 31 (b ! (a + ?lo + 1))"
  let ?b = "b[a + ?lo := w]"
  obtain b1 where b1: "each_res (step_down down_word a) [?lo + 1..<?hi + 1] ?b = Inr b1" "length b1 = length b"
    "\<forall>i. i < a + (?lo + 1) \<or> a + (?hi + 1) \<le> i \<longrightarrow> b1 ! i = ?b ! i"
    "\<forall>j. ?lo + 1 \<le> j \<and> j < ?hi + 1 \<longrightarrow> b1 ! (a + j) = down_word (?b ! (a + j)) (?b ! (a + j + 1))"
    using steps_down [of "?lo + 1" "?hi + 1" a ?b down_word] lo b by auto
  have k: "0 < ?k" "?k < 32" using n(2) mod_less_divisor [of 32 n] by simp_all
  have w: "bit w j = (if j < ?k then bit (b ! (a + ?lo)) j else if j = 31 then bit (b ! (a + ?lo + 1)) 0 else bit (b ! (a + ?lo)) (j + 1))" if "j < 32" for j
    using that k bit_imp_le_length [of "b ! (a + ?lo)" "j + 1"] by (auto simp: w_def bit_simps)
  have run: "delete_bit a n num m b = Inr b1"
  proof -
    have m': "m = (push_bit ?k (- 1), drop_bit (32 - ?k) (- 1))" using m k by (simp add: delete_masks_eq)
    have "a + ?lo < length b" "a + ?lo + 1 < length b" using lo b by simp_all
    then show ?thesis using b1(1) unfolding m' w_def by (simp add: delete_bit_def get_word_def put_word_def Let_def del: upt_Suc)
  qed
  have "flag a b1 i = (if i < n then flag a b i else flag a b (i + 1))" if i: "i < 32 * (?hi + 1)" for i
  proof -
    obtain j r where ij: "i = 32 * j + r" "r < 32" by (metis mult_div_mod_eq mod_less_divisor zero_less_numeral)
    have "32 * j < 32 * (?hi + 1)" using i ij by simp
    then have j: "j \<le> ?hi" by simp
    have nn: "n = 32 * ?lo + ?k" by simp
    have next_flag: "flag a b (i + 1) = (if r = 31 then bit (b ! (a + j + 1)) 0 else bit (b ! (a + j)) (r + 1))"
      using flag_word [of 0 a b "j + 1"] flag_word [of "r + 1" a b j] ij by auto
    consider "j < ?lo" | "j = ?lo" | "?lo < j" by linarith
    then show ?thesis
    proof cases
      case 1
      then have "i < n" using ij nn k by linarith
      then show ?thesis using 1 ij b1(3) by (simp add: flag_word)
    next
      case 2
      have f: "flag a b1 i = bit w r" using 2 ij b1(3) b lo by (simp add: flag_word)
      have i: "i = 32 * ?lo + r" using 2 ij by simp
      have c: "i < n \<longleftrightarrow> r < ?k" using same_word(1) [of ?lo r ?k] i nn by simp
      have "flag a b i = bit (b ! (a + ?lo)) r" using i ij(2) by (simp add: flag_word)
      then show ?thesis unfolding f w [OF ij(2)] c next_flag using 2 by simp
    next
      case 3
      then have gt: "n < i" using ij nn k by linarith
      have "flag a b1 i = bit (down_word (b ! (a + j)) (b ! (a + j + 1))) r"
        using 3 ij j b1(4) by (simp add: flag_word)
      then show ?thesis unfolding halved_bit [OF ij(2)] next_flag using gt by simp
    qed
  qed
  moreover have "same_outside (a + ?lo) (a + ?hi) b b1" using b1(2,3) lo by (auto simp: same_outside_def)
  ultimately show ?thesis using run by blast
qed

lemma swap_bits_flags:
  assumes b: "a + sub1 div 32 < length b" "a + sub2 div 32 < length b"
  shows "\<exists>b'. swap_bits a sub1 sub2 b = Inr b' \<and> length b' = length b
    \<and> (\<forall>i. i \<noteq> a + sub1 div 32 \<and> i \<noteq> a + sub2 div 32 \<longrightarrow> b' ! i = b ! i)
    \<and> (\<forall>i. flag a b' i = (if i = sub1 then flag a b sub2 else if i = sub2 then flag a b sub1 else flag a b i))"
proof -
  let ?x = "b ! (a + sub1 div 32)" and ?y = "b ! (a + sub2 div 32)"
  have t: "x AND push_bit k 1 \<noteq> 0 \<longleftrightarrow> bit x k" if "k < 32" for x :: u32 and k
    using that by (simp add: bit_iff_and_push_bit_not_eq_0)
  have f: "(?x AND push_bit (sub1 mod 32) 1 \<noteq> 0) = flag a b sub1" "(?y AND push_bit (sub2 mod 32) 1 \<noteq> 0) = flag a b sub2"
    using t by (simp_all add: flag_def)
  define b1 where "b1 = b[a + sub1 div 32 := ?x XOR push_bit (sub1 mod 32) 1]"
  define b2 where "b2 = b1[a + sub2 div 32 := b1 ! (a + sub2 div 32) XOR push_bit (sub2 mod 32) 1]"
  have run: "swap_bits a sub1 sub2 b = Inr (if flag a b sub1 = flag a b sub2 then b else b2)"
    using b f unfolding swap_bits_def get_word_def put_word_def Let_def by (auto simp: b1_def b2_def)
  have toggle: "flag a (c[a + s div 32 := c ! (a + s div 32) XOR push_bit (s mod 32) 1]) i = (flag a c i \<noteq> (i = s))"
    if "a + s div 32 < length c" for c s i
  proof (cases "i div 32 = s div 32")
    case True
    have "i = s \<longleftrightarrow> i mod 32 = s mod 32" using True by (metis div_mult_mod_eq)
    then show ?thesis using that True by (auto simp: flag_def bit_xor_iff bit_exp_iff)
  next
    case False
    then show ?thesis using that by (auto simp: flag_def)
  qed
  have "flag a b1 i = (flag a b i \<noteq> (i = sub1))" for i unfolding b1_def by (rule toggle [OF b(1)])
  moreover have "flag a b2 i = (flag a b1 i \<noteq> (i = sub2))" for i
    unfolding b2_def by (rule toggle) (use b in \<open>simp add: b1_def\<close>)
  ultimately have "flag a (if flag a b sub1 = flag a b sub2 then b else b2) i
      = (if i = sub1 then flag a b sub2 else if i = sub2 then flag a b sub1 else flag a b i)" for i
    by auto
  moreover have "length b2 = length b" "i \<noteq> a + sub1 div 32 \<and> i \<noteq> a + sub2 div 32 \<longrightarrow> b2 ! i = b ! i" for i
    by (simp_all add: b1_def b2_def)
  ultimately show ?thesis using run by auto
qed

section \<open>The record of a user\<close>

text \<open>Where the bits of the message areas and the numbers of the last messages begin.\<close>

definition qsc_q :: "nat \<Rightarrow> nat" where
  "qsc_q ndirs = 1 + (ndirs + 31) div 32"

definition qsc_p :: "nat \<Rightarrow> nat \<Rightarrow> nat" where
  "qsc_p ndirs nsubs = qsc_q ndirs + (nsubs + 31) div 32"

text \<open>The bodies of the loops over the users; \<open>num\<close> is the number of areas after the change.\<close>

definition insert_sub_scan :: "nat \<Rightarrow> nat \<Rightarrow> nat \<Rightarrow> nat \<Rightarrow> u32 \<times> u32 \<times> u32 \<Rightarrow> u32 list \<Rightarrow> cpp_error + u32 list" where
  "insert_sub_scan q p n num m b =
     bind_res (get_word 0 b) (\<lambda>r.
     bind_res (if r \<noteq> 999 \<and> word_of_nat n \<le> r then put_word 0 (r + 1) b else Inr b) (\<lambda>b1.
     bind_res (each_res (step_up (\<lambda>x y. y) p) (rev [n + 1..<num]) b1) (\<lambda>b2.
     bind_res (put_word (p + n) 0 b2) (insert_bit q n num m))))"

definition delete_sub_scan :: "nat \<Rightarrow> nat \<Rightarrow> nat \<Rightarrow> nat \<Rightarrow> u32 \<times> u32 \<Rightarrow> u32 list \<Rightarrow> cpp_error + u32 list" where
  "delete_sub_scan q p n num m b =
     bind_res (get_word 0 b) (\<lambda>r.
     bind_res (if r \<noteq> 999
               then (if r = word_of_nat n then put_word 0 999 b else if word_of_nat n < r then put_word 0 (r - 1) b else Inr b)
               else Inr b) (\<lambda>b1.
     bind_res (each_res (step_down (\<lambda>x y. y) p) [n..<num] b1) (delete_bit q n num m)))"

definition swap_sub_scan :: "nat \<Rightarrow> nat \<Rightarrow> nat \<Rightarrow> nat \<Rightarrow> u32 list \<Rightarrow> cpp_error + u32 list" where
  "swap_sub_scan q p sub1 sub2 b =
     bind_res (swap_bits q sub1 sub2 b) (\<lambda>b1.
     bind_res (get_word (p + sub1) b1) (\<lambda>x. bind_res (get_word (p + sub2) b1) (\<lambda>y.
     bind_res (put_word (p + sub1) y b1) (put_word (p + sub2) x))))"

text \<open>What the record says of \<open>num\<close> message areas: whether an area is scanned, and from which message.\<close>

definition sub_scan :: "nat \<Rightarrow> nat \<Rightarrow> nat \<Rightarrow> u32 list \<Rightarrow> (bool \<times> u32) list" where
  "sub_scan q p num b = map (\<lambda>i. (flag q b i, b ! (p + i))) [0..<num]"

definition dir_scan :: "nat \<Rightarrow> u32 list \<Rightarrow> bool list" where
  "dir_scan num b = map (flag 1 b) [0..<num]"

lemma flag_cong: "(\<And>j. j \<le> i div 32 \<Longrightarrow> b' ! (a + j) = b ! (a + j)) \<Longrightarrow> flag a b' i = flag a b i"
  by (simp add: flag_def)

lemma insert_sub_scan_follows:
  assumes n: "n < num" "n mod 32 \<noteq> 0" "n mod 32 \<noteq> 31" and m: "insert_masks n = Inr m"
    and q: "0 < q" "q + num div 32 < p" and p: "p + num \<le> length b"
  shows "\<exists>b'. insert_sub_scan q p n num m b = Inr b' \<and> sub_scan q p num b' = arrange (Insert n (True, 0)) (sub_scan q p (num - 1) b)
    \<and> length b' = length b \<and> (\<forall>i. 0 < i \<and> i < q \<longrightarrow> b' ! i = b ! i)
    \<and> b' ! 0 = (if b ! 0 \<noteq> 999 \<and> word_of_nat n \<le> b ! 0 then b ! 0 + 1 else b ! 0)"
proof -
  define b1 where "b1 = (if b ! 0 \<noteq> 999 \<and> word_of_nat n \<le> b ! 0 then b[0 := b ! 0 + 1] else b)"
  have l1: "length b1 = length b" "b1 ! 0 = (if b ! 0 \<noteq> 999 \<and> word_of_nat n \<le> b ! 0 then b ! 0 + 1 else b ! 0)" "\<And>i. 0 < i \<Longrightarrow> b1 ! i = b ! i"
    using q p by (cases b; auto simp: b1_def)+
  have "n \<le> num - 1" "p + (num - 1) < length b1" using n(1) p l1(1) by simp_all
  then obtain b2 where b2: "each_res (step_up (\<lambda>x y. y) p) (rev [n + 1..<num - 1 + 1]) b1 = Inr b2" "length b2 = length b1"
    "\<forall>i. i \<le> p + n \<or> p + (num - 1) < i \<longrightarrow> b2 ! i = b1 ! i" "\<forall>j. n < j \<and> j \<le> num - 1 \<longrightarrow> b2 ! (p + j) = b1 ! (p + j - 1)"
    using steps_up [of n "num - 1" p b1 "\<lambda>x y. y"] by blast
  define b3 where "b3 = b2[p + n := 0]"
  have l3: "length b3 = length b" "\<And>i. i < p \<Longrightarrow> b3 ! i = b1 ! i" using b2(2,3) l1 by (auto simp: b3_def)
  have ptr: "b3 ! (p + i) = (if i < n then b ! (p + i) else if i = n then 0 else b ! (p + (i - 1)))" if "i < num" for i
  proof (cases "n < i")
    case True
    then have "b2 ! (p + i) = b1 ! (p + i - 1)" using b2(4) that by simp
    moreover have "p + i - 1 = p + (i - 1)" using True by simp
    ultimately show ?thesis using True l1(3) [of "p + (i - 1)"] q by (simp add: b3_def)
  next
    case False
    then show ?thesis using b2(2,3) l1 that p q by (auto simp: b3_def)
  qed
  have "q + num div 32 < length b3" using q p l3 by simp
  from insert_bit_flags [OF n this m] obtain b' where b': "insert_bit q n num m b3 = Inr b'" "same_outside (q + n div 32) (q + num div 32) b3 b'"
    "\<forall>i < 32 * (num div 32 + 1). flag q b' i = (if i < n then flag q b3 i else if i = n then True else flag q b3 (i - 1))" by blast
  have "insert_sub_scan q p n num m b = Inr b'"
    using b2(1) b'(1) n(1) q p b2(2) l1(1) by (auto simp: insert_sub_scan_def get_word_def put_word_def b1_def b3_def simp del: upt_Suc)
  moreover have f3: "flag q b3 i = flag q b i" if "i < num" for i
  proof (rule flag_cong)
    fix j assume "j \<le> i div 32"
    then have "q + j < p" "0 < q + j" using that q div_le_mono [of i num 32] by linarith+
    then show "b3 ! (q + j) = b ! (q + j)" using l3 l1 by simp
  qed
  have "sub_scan q p num b' = arrange (Insert n (True, 0)) (sub_scan q p (num - 1) b)"
  proof (rule nth_equalityI)
    fix i assume "i < length (sub_scan q p num b')"
    then have i: "i < num" by (simp add: sub_scan_def)
    have "i < 32 * (num div 32 + 1)" using i by simp
    then have "flag q b' i = (if i < n then flag q b i else if i = n then True else flag q b (i - 1))"
      using b'(3) f3 [of i] f3 [of "i - 1"] i by simp
    moreover have "b' ! (p + i) = b3 ! (p + i)" using b'(2) q(2) by (simp add: same_outside_def)
    ultimately show "sub_scan q p num b' ! i = arrange (Insert n (True, 0)) (sub_scan q p (num - 1) b) ! i"
      using ptr [OF i] i n(1) by (auto simp: sub_scan_def nth_append nth_Cons' min_def)
  qed (use n(1) in \<open>auto simp: sub_scan_def min_def\<close>)
  moreover have "length b' = length b" "\<forall>i. i < q \<longrightarrow> b' ! i = b1 ! i" using b'(2) l3 q by (auto simp: same_outside_def)
  ultimately show ?thesis using l1 q by auto
qed

lemma delete_sub_scan_follows:
  assumes n: "n \<le> num" "n mod 32 \<noteq> 0" and m: "delete_masks n = Inr m"
    and q: "0 < q" "q + num div 32 < p" and p: "p + num < length b"
  shows "\<exists>b'. delete_sub_scan q p n num m b = Inr b' \<and> sub_scan q p num b' = arrange (Delete n) (sub_scan q p (num + 1) b)
    \<and> length b' = length b \<and> (\<forall>i. 0 < i \<and> i < q \<longrightarrow> b' ! i = b ! i)
    \<and> b' ! 0 = (if b ! 0 = 999 \<or> b ! 0 = word_of_nat n then 999 else if word_of_nat n < b ! 0 then b ! 0 - 1 else b ! 0)"
proof -
  let ?r = "if b ! 0 = 999 \<or> b ! 0 = word_of_nat n then 999 else if word_of_nat n < b ! 0 then b ! 0 - 1 else b ! 0"
  define b1 where "b1 = b[0 := ?r]"
  have b0: "0 < length b" using q p by linarith
  have id: "b[0 := 999] = b" if "b ! 0 = 999" using list_update_id [of b 0] that by simp
  have l1: "length b1 = length b" "b1 ! 0 = ?r" "\<And>i. 0 < i \<Longrightarrow> b1 ! i = b ! i" using b0 by (simp_all add: b1_def)
  have head: "(if b ! 0 \<noteq> 999
               then (if b ! 0 = word_of_nat n then put_word 0 999 b else if word_of_nat n < b ! 0 then put_word 0 (b ! 0 - 1) b else Inr b)
               else Inr b) = Inr b1"
    using b0 id by (simp add: put_word_def b1_def)
  have "p + num < length b1" using p l1(1) by simp
  then obtain b2 where b2: "each_res (step_down (\<lambda>x y. y) p) [n..<num] b1 = Inr b2" "length b2 = length b1"
    "\<forall>i. i < p + n \<or> p + num \<le> i \<longrightarrow> b2 ! i = b1 ! i" "\<forall>j. n \<le> j \<and> j < num \<longrightarrow> b2 ! (p + j) = b1 ! (p + j + 1)"
    using steps_down [OF n(1), of p b1 "\<lambda>x y. y"] by blast
  have l3: "length b2 = length b" "\<And>i. i < p \<Longrightarrow> b2 ! i = b1 ! i" using b2(2,3) l1 by auto
  have ptr: "b2 ! (p + i) = (if i < n then b ! (p + i) else b ! (p + (i + 1)))" if "i < num" for i
    using b2(3,4) l1(3) [of "p + i"] l1(3) [of "p + i + 1"] that q by (cases "i < n") simp_all
  have "q + num div 32 + 1 < length b2" using q p l3 by simp
  from delete_bit_flags [OF n this m] obtain b' where b': "delete_bit q n num m b2 = Inr b'" "same_outside (q + n div 32) (q + num div 32) b2 b'"
    "\<forall>i < 32 * (num div 32 + 1). flag q b' i = (if i < n then flag q b2 i else flag q b2 (i + 1))" by blast
  have "delete_sub_scan q p n num m b = Inr b'"
    using b2(1) b'(1) b0 head by (simp add: delete_sub_scan_def get_word_def)
  moreover have f3: "flag q b2 i = flag q b i" if "i < num + 1" for i
  proof (rule flag_cong)
    fix j assume "j \<le> i div 32"
    then have "q + j < p" "0 < q + j" using that q div_le_mono [of i num 32] by linarith+
    then show "b2 ! (q + j) = b ! (q + j)" using l3 l1 by simp
  qed
  have "sub_scan q p num b' = arrange (Delete n) (sub_scan q p (num + 1) b)"
  proof (rule nth_equalityI)
    fix i assume "i < length (sub_scan q p num b')"
    then have i: "i < num" by (simp add: sub_scan_def)
    have "i < 32 * (num div 32 + 1)" using i by simp
    then have "flag q b' i = (if i < n then flag q b i else flag q b (i + 1))"
      using b'(3) f3 [of i] f3 [of "i + 1"] i by simp
    moreover have "b' ! (p + i) = b2 ! (p + i)" using b'(2) q(2) by (simp add: same_outside_def)
    ultimately show "sub_scan q p num b' ! i = arrange (Delete n) (sub_scan q p (num + 1) b) ! i"
      using ptr [OF i] i n(1) by (auto simp: sub_scan_def nth_append min_def simp del: upt_Suc)
  qed (use n(1) in \<open>auto simp: sub_scan_def min_def simp del: upt_Suc\<close>)
  moreover have "length b' = length b" "\<forall>i. i < q \<longrightarrow> b' ! i = b1 ! i" using b'(2) l3 q by (auto simp: same_outside_def)
  ultimately show ?thesis using l1 q by auto
qed

lemma swap_sub_scan_follows:
  assumes s: "sub1 < num" "sub2 < num" and q: "0 < q" "q + (num - 1) div 32 < p" and p: "p + num \<le> length b"
  shows "\<exists>b'. swap_sub_scan q p sub1 sub2 b = Inr b' \<and> sub_scan q p num b' = arrange (Swap sub1 sub2) (sub_scan q p num b)
    \<and> length b' = length b \<and> (\<forall>i < q. b' ! i = b ! i)"
proof -
  have d: "sub1 div 32 \<le> (num - 1) div 32" "sub2 div 32 \<le> (num - 1) div 32" using s by (intro div_le_mono; simp)+
  then have "q + sub1 div 32 < length b" "q + sub2 div 32 < length b" using q p by linarith+
  from swap_bits_flags [OF this] obtain b1 where b1: "swap_bits q sub1 sub2 b = Inr b1" "length b1 = length b"
    "\<forall>i. i \<noteq> q + sub1 div 32 \<and> i \<noteq> q + sub2 div 32 \<longrightarrow> b1 ! i = b ! i"
    "\<forall>i. flag q b1 i = (if i = sub1 then flag q b sub2 else if i = sub2 then flag q b sub1 else flag q b i)" by blast
  let ?b = "b1[p + sub1 := b1 ! (p + sub2), p + sub2 := b1 ! (p + sub1)]"
  have "swap_sub_scan q p sub1 sub2 b = Inr ?b"
    using b1(1,2) s p by (simp add: swap_sub_scan_def get_word_def put_word_def)
  moreover have "flag q ?b i = flag q b1 i" if "i < num" for i
  proof (rule flag_cong)
    fix j assume "j \<le> i div 32"
    moreover have "i div 32 \<le> (num - 1) div 32" using that by (intro div_le_mono) simp
    ultimately have "q + j < p" using q by linarith
    then show "?b ! (q + j) = b1 ! (q + j)" by simp
  qed
  then have "sub_scan q p num ?b = arrange (Swap sub1 sub2) (sub_scan q p num b)"
  proof -
    assume f: "\<And>i. i < num \<Longrightarrow> flag q ?b i = flag q b1 i"
    have ptr: "b1 ! (p + i) = b ! (p + i)" for i using b1(3) q d by simp
    show ?thesis
      by (rule nth_equalityI) (use f b1(4) ptr s p b1(2) in \<open>auto simp: sub_scan_def nth_list_update\<close>)
  qed
  moreover have "\<forall>i < q. ?b ! i = b ! i" using b1(3) q by auto
  ultimately show ?thesis using b1(2) by (intro exI [of _ ?b]) simp
qed

end
