(* ===== verification/Bbs_Subxtr.thy ===== *)
theory Bbs_Subxtr
  imports Core_Path Core_TextFile Sdk_Networks
begin

text \<open>
  \<open>bbs/subxtr.cpp\<close>: the networks that carry a message area, in the text file \<open>SUBS.XTR\<close>. A line begins with the
  character that says what it is: \<open>!\<close> the number of an area, \<open>@\<close> its description, \<open>#\<close> its flags, \<open>$\<close> a network.

  The reading of an empty line, an array that is too small, and a number that the line does not give, which keeps
  whatever the memory held, are \<open>Inl UndefinedBehaviour\<close>. The theorem at the end says which areas are read back as
  they were written.
\<close>

section \<open>Data\<close>

record xtrasubsnetrec =
  xn_flags :: "64 word"
  xn_net_num :: u16
  xn_type :: u16
  xn_host :: u16
  xn_category :: u16
  xn_stype :: string

record xtrasubsrec =
  xs_flags :: "64 word"
  xs_desc :: string
  xs_nets :: "xtrasubsnetrec list"

definition default_xsub :: xtrasubsrec where
  "default_xsub = \<lparr>xs_flags = 0, xs_desc = [], xs_nets = []\<rparr>"

section \<open>Writing\<close>

text \<open>\<open>%u\<close> of an \<open>int16_t\<close>, and \<open>%lu\<close> of a \<open>long\<close>.\<close>

definition show_int16 :: "u16 \<Rightarrow> string" where
  "show_int16 x = show_nat (unat (scast x :: u32))"

definition show_long :: "64 word \<Rightarrow> string" where
  "show_long x = show_nat (unat x)"

definition net_line :: "networks \<Rightarrow> xtrasubsnetrec \<Rightarrow> cpp_error + string" where
  "net_line nets n =
     (let i = sint (xn_net_num n)
      in if i < 0 \<or> int (length nets) \<le> i then Inl UndefinedBehaviour
         else Inr (''$'' @ net_name (nets ! nat i) @ '' '' @ xn_stype n @ '' '' @ show_long (xn_flags n) @ '' ''
                @ show_int16 (xn_host n) @ '' '' @ show_int16 (xn_category n)))"

fun write_nets :: "networks \<Rightarrow> xtrasubsnetrec list \<Rightarrow> bytes \<Rightarrow> cpp_error + bytes" where
  "write_nets nets [] b = Inr b"
| "write_nets nets (n # ns) b = bind_res (net_line nets n) (\<lambda>l. write_nets nets ns (WriteFormatted (l @ [newline]) b))"

fun write_xsubs :: "networks \<Rightarrow> nat \<Rightarrow> xtrasubsrec list \<Rightarrow> bytes \<Rightarrow> cpp_error + bytes" where
  "write_xsubs nets i [] b = Inr b"
| "write_xsubs nets i (x # xs) b =
     (if xs_nets x \<noteq> []
      then bind_res (write_nets nets (xs_nets x)
             (WriteFormatted (''!'' @ show_nat i @ newline # ''@'' @ xs_desc x @ newline # ''#'' @ show_long (xs_flags x) @ [newline]) b))
             (write_xsubs nets (i + 1) xs)
      else write_xsubs nets (i + 1) xs b)"

definition write_subs_xtr :: "string \<Rightarrow> (string \<Rightarrow> bool) \<Rightarrow> networks \<Rightarrow> xtrasubsrec list \<Rightarrow> disk \<Rightarrow> cpp_error + bool \<times> disk" where
  "write_subs_xtr datadir writable nets xsubs fs =
     (let (_, fs1) = File_Remove (datadir @ ''subs.xtr.old'') fs;
          (_, fs2) = File_Move (SetName datadir ''subs.xtr'') (SetName datadir ''subs.xtr.old'') fs1
      in bind_res (FilePath datadir ''subs.xtr'') (\<lambda>path.
         if writable path then bind_res (write_xsubs nets 0 xsubs []) (\<lambda>b. Inr (True, fs2(path \<mapsto> b))) else Inr (True, fs2)))"

section \<open>Taking a line apart\<close>

text \<open>A string stream: the characters to come, or \<open>None\<close> after a failure. A word that is not there leaves the string empty.\<close>

definition stream_word :: "string option \<Rightarrow> string \<times> string option" where
  "stream_word st =
     (case st of
        None \<Rightarrow> ([], None)
      | Some s \<Rightarrow> let t = dropWhile isspace s
                 in if t = [] then ([], None) else (takeWhile (\<lambda>c. \<not> isspace c) t, Some (dropWhile (\<lambda>c. \<not> isspace c) t)))"

definition after_number :: "string \<Rightarrow> string" where
  "after_number s =
     (let t = dropWhile isspace s
      in dropWhile isdigit (if t \<noteq> [] \<and> (hd t = CHR ''-'' \<or> hd t = CHR ''+'') then tl t else t))"

text \<open>Out of range the limit is stored and the stream has failed; without a digit it is 0.\<close>

definition extract_number :: "int \<Rightarrow> int \<Rightarrow> string option \<Rightarrow> cpp_error + int \<times> string option" where
  "extract_number lo hi st =
     (case st of
        None \<Rightarrow> Inl UndefinedBehaviour
      | Some s \<Rightarrow>
          if dropWhile isspace s = [] then Inl UndefinedBehaviour
          else case scan_number s of
                 None \<Rightarrow> Inr (0, None)
               | Some p \<Rightarrow> if signed_val p < lo then Inr (lo, None)
                           else if hi < signed_val p then Inr (hi, None)
                           else Inr (signed_val p, Some (after_number s)))"

definition extract_long :: "string option \<Rightarrow> cpp_error + int \<times> string option" where
  "extract_long = extract_number (- (2 ^ 63)) (2 ^ 63 - 1)"

definition extract_int16 :: "string option \<Rightarrow> cpp_error + int \<times> string option" where
  "extract_int16 = extract_number (- 32768) 32767"

fun FindNetworkByName :: "int \<Rightarrow> networks \<Rightarrow> string \<Rightarrow> int" where
  "FindNetworkByName i [] name = - 1"
| "FindNetworkByName i (n # ns) name = (if IsEqualsIgnoreCase (net_name n) name then i else FindNetworkByName (i + 1) ns name)"

definition ParseXSubsLine :: "networks \<Rightarrow> string \<Rightarrow> xtrasubsrec \<Rightarrow> cpp_error + bool \<times> xtrasubsrec" where
  "ParseXSubsLine nets line xsub =
     (let (name, st1) = stream_word (Some line); net_num = FindNetworkByName 0 nets (StringTrim name)
      in if net_num = - 1 then Inr (False, xsub)
         else let (w, st2) = stream_word st1; stype = StringTrim w
              in if 8 \<le> length (c_str stype) then Inl UndefinedBehaviour
                 else bind_res (extract_long st2) (\<lambda>(flags, st3).
                      bind_res (extract_int16 st3) (\<lambda>(host, st4).
                      bind_res (extract_int16 st4) (\<lambda>(category, _).
                      Inr (True, xsub\<lparr>xs_nets := xs_nets xsub @ [\<lparr>xn_flags = word_of_int flags, xn_net_num = word_of_int net_num,
                        xn_type = word_of_int (StringToUnsignedShort (c_str stype)), xn_host = word_of_int host,
                        xn_category = word_of_int category, xn_stype = c_str stype\<rparr>]\<rparr>)))))"

section \<open>Reading\<close>

text \<open>The number of the area that is being read, and the areas.\<close>

type_synonym xtr_state = "int \<times> xtrasubsrec list"

definition xtr_line :: "networks \<Rightarrow> nat \<Rightarrow> string \<Rightarrow> xtr_state \<Rightarrow> cpp_error + xtr_state" where
  "xtr_line nets num l p =
     (case p of (curn, xsubs) \<Rightarrow>
        let line = StringTrim l
        in if line = [] then Inl UndefinedBehaviour
           else let identifier = hd line; rest = tl line
                in if identifier = CHR ''!''
                   then Inr (if int num \<le> atoi rest then - 1 else atoi rest, xsubs)
                   else if curn < 0 then Inr (curn, xsubs)
                   else if identifier = CHR ''@'' then Inr (curn, xsubs[nat curn := (xsubs ! nat curn)\<lparr>xs_desc := take 60 (c_str rest)\<rparr>])
                   else if identifier = CHR ''#'' then Inr (curn, xsubs[nat curn := (xsubs ! nat curn)\<lparr>xs_flags := word_of_int (atol rest)\<rparr>])
                   else if identifier = CHR ''$''
                   then bind_res (ParseXSubsLine nets rest (xsubs ! nat curn)) (\<lambda>(_, x). Inr (curn, xsubs[nat curn := x]))
                   else Inr (curn, xsubs))"

definition xtr_turn :: "networks \<Rightarrow> nat \<Rightarrow> string \<Rightarrow> cpp_error + xtr_state \<Rightarrow> cpp_error + xtr_state" where
  "xtr_turn nets num l r = bind_res r (xtr_line nets num l)"

function xtr_loop :: "networks \<Rightarrow> nat \<Rightarrow> bytes \<Rightarrow> cpp_error + xtr_state \<Rightarrow> cpp_error + xtr_state" where
  "xtr_loop nets num b r =
     (case ReadLine b of None \<Rightarrow> r | Some (line, rest) \<Rightarrow> xtr_loop nets num rest (xtr_turn nets num line r))"
  by pat_completeness auto
termination
  by (relation "measure (\<lambda>(_, _, b, _). length b)") (auto dest: ReadLine_progress)

declare xtr_loop.simps [simp del]

interpretation xtr: line_reader "xtr_turn nets num" "xtr_loop nets num" for nets num
  by unfold_locales (rule xtr_loop.simps)

definition read_subs_xtr :: "string \<Rightarrow> networks \<Rightarrow> nat \<Rightarrow> xtrasubsrec list \<Rightarrow> disk \<Rightarrow> cpp_error + bool \<times> xtrasubsrec list" where
  "read_subs_xtr datadir nets num xsubs fs =
     bind_res (FilePath datadir ''subs.xtr'') (\<lambda>path.
     case fs path of
       None \<Rightarrow> Inr (False, xsubs)
     | Some b \<Rightarrow> map_sum id (\<lambda>(_, xs). (True, xs)) (xtr_loop nets num b (Inr (- 1, replicate num default_xsub))))"

section \<open>Areas that are read back\<close>

definition word_text :: "string \<Rightarrow> bool" where
  "word_text w \<longleftrightarrow> w \<noteq> [] \<and> (\<forall>c \<in> set w. \<not> isspace c \<and> c \<noteq> NUL)"

definition readable_net :: "networks \<Rightarrow> xtrasubsnetrec \<Rightarrow> bool" where
  "readable_net nets n \<longleftrightarrow> 0 \<le> sint (xn_net_num n) \<and> sint (xn_net_num n) < int (length nets)
     \<and> FindNetworkByName 0 nets (net_name (nets ! nat (sint (xn_net_num n)))) = sint (xn_net_num n)
     \<and> word_text (net_name (nets ! nat (sint (xn_net_num n)))) \<and> length (net_name (nets ! nat (sint (xn_net_num n)))) < 16
     \<and> word_text (xn_stype n) \<and> length (xn_stype n) < 8 \<and> xn_type n = word_of_int (StringToUnsignedShort (xn_stype n))
     \<and> unat (xn_flags n) < 2 ^ 63 \<and> unat (xn_host n) < 32768 \<and> unat (xn_category n) < 32768"

definition readable_xsub :: "networks \<Rightarrow> xtrasubsrec \<Rightarrow> bool" where
  "readable_xsub nets x \<longleftrightarrow> length (xs_desc x) \<le> 60 \<and> (\<forall>c \<in> set (xs_desc x). c \<noteq> newline \<and> c \<noteq> CHR 0x0D \<and> c \<noteq> NUL)
     \<and> (xs_desc x = [] \<or> \<not> is_white (last (xs_desc x))) \<and> unat (xs_flags x) < 2 ^ 63 \<and> (\<forall>n \<in> set (xs_nets x). readable_net nets n)"

definition net_text :: "networks \<Rightarrow> xtrasubsnetrec \<Rightarrow> string" where
  "net_text nets n = ''$'' @ net_name (nets ! nat (sint (xn_net_num n))) @ '' '' @ xn_stype n @ '' '' @ show_nat (unat (xn_flags n))
     @ '' '' @ show_nat (unat (xn_host n)) @ '' '' @ show_nat (unat (xn_category n))"

definition xsub_lines :: "networks \<Rightarrow> nat \<Rightarrow> xtrasubsrec \<Rightarrow> string list" where
  "xsub_lines nets i x =
     (if xs_nets x = [] then []
      else [''!'' @ show_nat i, ''@'' @ xs_desc x, ''#'' @ show_nat (unat (xs_flags x))] @ map (net_text nets) (xs_nets x))"

fun xtr_lines :: "networks \<Rightarrow> nat \<Rightarrow> xtrasubsrec list \<Rightarrow> string list" where
  "xtr_lines nets i [] = []"
| "xtr_lines nets i (x # xs) = xsub_lines nets i x @ xtr_lines nets (i + 1) xs"

subsection \<open>Printing\<close>

lemma show_int16_small: "unat x < 32768 \<Longrightarrow> show_int16 x = show_nat (unat x)"
proof -
  assume x: "unat x < 32768"
  have s: "sint x = int (unat x)" using sint_area [OF x] by simp
  have "scast x = (word_of_int (sint x) :: u32)" by simp
  also have "\<dots> = word_of_nat (unat x)" unfolding s by simp
  finally have e: "scast x = (word_of_nat (unat x) :: u32)" .
  have "unat (word_of_nat k :: u32) = k" if "k < 32768" for k using that by (simp add: unat_of_nat)
  then have "unat (scast x :: u32) = unat x" unfolding e using x by blast
  then show ?thesis by (simp add: show_int16_def)
qed

lemma show_nat_chars: "c \<in> set (show_nat n) \<Longrightarrow> \<not> isspace c \<and> c \<noteq> NUL"
  using isdigit_show_nat [of c n] by (auto simp: isdigit_def isspace_def NUL_def)

lemma word_text_show_nat [simp]: "word_text (show_nat n)"
  using show_nat_chars by (auto simp: word_text_def)

lemma isspace_chars: "isspace newline" "isspace (CHR 0x0D)" "isspace (CHR '' '')"
  by (simp_all add: isspace_def)

lemma length_show_word:
  "unat (x :: u16) < 32768 \<Longrightarrow> length (show_nat (unat x)) \<le> 5" "length (show_nat (unat (y :: 64 word))) \<le> 20"
proof -
  show "length (show_nat (unat x)) \<le> 5" if "unat x < 32768" for x :: u16 using that by (intro length_show_nat_le) simp_all
  have "unat y < 2 ^ 64" using unsigned_less [of y] by simp
  then show "length (show_nat (unat y)) \<le> 20" by (intro length_show_nat_le) simp_all
qed

lemma net_line_text: "readable_net nets n \<Longrightarrow> net_line nets n = Inr (net_text nets n)"
  by (simp add: readable_net_def net_line_def net_text_def show_int16_small show_long_def Let_def del: of_nat_less_iff)

lemma net_text_plain:
  assumes "readable_net nets n"
  shows "text_line (net_text nets n)" "length (net_text nets n) < 100" "hd (net_text nets n) = CHR ''$''" "\<not> is_white (last (net_text nets n))"
proof -
  let ?name = "net_name (nets ! nat (sint (xn_net_num n)))"
  have c: "c \<noteq> newline \<and> c \<noteq> CHR 0x0D \<and> c \<noteq> NUL" if "c \<in> set ?name \<or> c \<in> set (xn_stype n) \<or> c \<in> set (show_nat k)" for c k
    using that assms show_nat_chars [of c k] isspace_chars by (auto simp: readable_net_def word_text_def)
  show l: "length (net_text nets n) < 100"
    using assms length_show_word(1) [of "xn_host n"] length_show_word(1) [of "xn_category n"] length_show_word(2) [of "xn_flags n"]
    by (simp add: readable_net_def net_text_def)
  show "text_line (net_text nets n)" using l c by (auto simp: text_line_def net_text_def NUL_def)
  show "hd (net_text nets n) = CHR ''$''" by (simp add: net_text_def)
  have "last (net_text nets n) = last (show_nat (unat (xn_category n)))" by (simp add: net_text_def)
  then show "\<not> is_white (last (net_text nets n))"
    using show_nat_chars [of "last (show_nat (unat (xn_category n)))" "unat (xn_category n)"] by (auto simp: DELIMS_WHITE_def isspace_def)
qed

lemma write_nets_text:
  "\<forall>n \<in> set ns. readable_net nets n \<Longrightarrow> write_nets nets ns b = Inr (b @ print_lines (map (net_text nets) ns))"
proof (induction ns arbitrary: b)
  case (Cons n ns)
  have "WriteFormatted (net_text nets n @ [newline]) b = b @ net_text nets n @ [newline]"
    using net_text_plain [of nets n] Cons.prems by (intro WriteFormatted_text) (auto simp: text_line_def NUL_def)
  then show ?case using Cons net_line_text [of nets n] by simp
qed simp

lemma xsub_lines_plain:
  assumes "readable_xsub nets x" "i < 2 ^ 31"
  shows "\<forall>l \<in> set (xsub_lines nets i x). text_line l"
proof -
  have c: "c \<noteq> newline \<and> c \<noteq> CHR 0x0D \<and> c \<noteq> NUL" if "c \<in> set (show_nat k)" for c k
    using show_nat_chars [OF that] isspace_chars by auto
  have "length (show_nat i) \<le> 10" using assms(2) by (intro length_show_nat_le) simp_all
  then have "text_line (''!'' @ show_nat i)" using c by (auto simp: text_line_def NUL_def)
  moreover have "text_line (''@'' @ xs_desc x)" using assms(1) by (auto simp: text_line_def readable_xsub_def NUL_def)
  moreover have "text_line (''#'' @ show_nat (unat (xs_flags x)))"
    using c length_show_word(2) [of "xs_flags x"] by (auto simp: text_line_def NUL_def)
  ultimately show ?thesis using assms(1) net_text_plain(1) by (auto simp: xsub_lines_def readable_xsub_def)
qed

lemma write_xsubs_text:
  assumes "\<forall>x \<in> set xs. readable_xsub nets x" "length xs + i < 2 ^ 31"
  shows "write_xsubs nets i xs b = Inr (b @ print_lines (xtr_lines nets i xs))"
  using assms
proof (induction xs arbitrary: i b)
  case (Cons x xs)
  let ?t = "''!'' @ show_nat i @ newline # ''@'' @ xs_desc x @ newline # ''#'' @ show_long (xs_flags x) @ [newline]"
  have l: "length (show_nat i) \<le> 10" using Cons.prems(2) by (intro length_show_nat_le) simp_all
  have "NUL \<notin> set ?t" using Cons.prems(1) show_nat_chars by (auto simp: readable_xsub_def show_long_def NUL_def)
  moreover have "length ?t \<le> 4095" using l length_show_word(2) [of "xs_flags x"] Cons.prems(1) by (simp add: readable_xsub_def show_long_def)
  ultimately have "WriteFormatted ?t b = b @ ?t" by (intro WriteFormatted_text)
  moreover have "\<forall>n \<in> set (xs_nets x). readable_net nets n" using Cons.prems(1) by (simp add: readable_xsub_def)
  ultimately show ?case
    using Cons.IH [of "i + 1"] Cons.prems by (simp add: write_nets_text xsub_lines_def show_long_def)
qed simp

subsection \<open>Reading\<close>

lemma takeWhile_word: "word_text w \<Longrightarrow> rest = [] \<or> isspace (hd rest) \<Longrightarrow>
  takeWhile (\<lambda>c. \<not> isspace c) (w @ rest) = w \<and> dropWhile (\<lambda>c. \<not> isspace c) (w @ rest) = rest"
  by (cases rest) (auto simp: word_text_def takeWhile_append dropWhile_append takeWhile_eq_all_conv dropWhile_eq_Nil_conv)

lemma drop_spaces: "word_text w \<Longrightarrow> dropWhile isspace (w @ rest) = w @ rest \<and> dropWhile isspace (CHR '' '' # w @ rest) = w @ rest"
  by (cases w) (auto simp: word_text_def isspace_def)

lemma stream_word_text:
  assumes "word_text w" "rest = [] \<or> isspace (hd rest)"
  shows "stream_word (Some (w @ rest)) = (w, Some rest)" "stream_word (Some (CHR '' '' # w @ rest)) = (w, Some rest)"
proof -
  have "w @ rest \<noteq> []" using assms(1) by (simp add: word_text_def)
  then show "stream_word (Some (w @ rest)) = (w, Some rest)" "stream_word (Some (CHR '' '' # w @ rest)) = (w, Some rest)"
    using drop_spaces [OF assms(1), of rest] takeWhile_word [OF assms] by (simp_all add: stream_word_def Let_def)
qed

lemma extract_number_show:
  assumes "rest = [] \<or> isspace (hd rest)" "lo \<le> 0" "int n \<le> hi"
  shows "extract_number lo hi (Some (CHR '' '' # show_nat n @ rest)) = Inr (int n, Some rest)"
proof -
  have d: "dropWhile isspace (CHR '' '' # show_nat n @ rest) = show_nat n @ rest" using drop_spaces [of "show_nat n" rest] by simp
  have r: "rest = [] \<or> \<not> isdigit (hd rest)" using assms(1) isdigit_not_isspace by auto
  obtain c cs where c: "show_nat n = c # cs" by (cases "show_nat n") auto
  have "isdigit c" using isdigit_show_nat [of c n] c by simp
  then have sign: "c \<noteq> CHR ''-''" "c \<noteq> CHR ''+''" by (auto simp: isdigit_def)
  have "dropWhile isspace (show_nat n @ rest) = show_nat n @ rest" using drop_spaces [of "show_nat n" rest] by simp
  then have "scan_number (CHR '' '' # show_nat n @ rest) = scan_number (show_nat n @ rest)" by (simp only: scan_number_def d)
  also have "\<dots> = Some (False, n)" by (rule scan_number_show_nat [OF r])
  finally have s: "scan_number (CHR '' '' # show_nat n @ rest) = Some (False, n)" .
  have "dropWhile isdigit (show_nat n @ rest) = rest"
    using r isdigit_show_nat [of _ n] by (cases rest) (auto simp: dropWhile_append dropWhile_eq_Nil_conv)
  then have "after_number (CHR '' '' # show_nat n @ rest) = rest"
    unfolding after_number_def d Let_def using sign c by simp
  then show ?thesis using s d assms(2,3) by (simp add: extract_number_def signed_val_def)
qed

lemma white_space: "is_white c \<Longrightarrow> isspace c"
  by (auto simp: DELIMS_WHITE_def isspace_def)

lemma ParseXSubsLine_text:
  assumes "readable_net nets n"
  shows "ParseXSubsLine nets (tl (net_text nets n)) x = Inr (True, x\<lparr>xs_nets := xs_nets x @ [n]\<rparr>)"
proof -
  let ?name = "net_name (nets ! nat (sint (xn_net_num n)))"
  let ?c = "CHR '' '' # show_nat (unat (xn_category n)) @ []"
  let ?h = "CHR '' '' # show_nat (unat (xn_host n)) @ ?c"
  let ?f = "CHR '' '' # show_nat (unat (xn_flags n)) @ ?h"
  let ?s = "CHR '' '' # xn_stype n @ ?f"
  have w: "word_text ?name" "word_text (xn_stype n)" using assms by (simp_all add: readable_net_def)
  have trim: "StringTrim w = w" "c_str w = w" if "word_text w" for w
  proof -
    have "hd w \<in> set w" "last w \<in> set w" using that by (simp_all add: word_text_def)
    then have "\<not> isspace (hd w)" "\<not> isspace (last w)" using that by (simp_all add: word_text_def)
    then show "StringTrim w = w" using white_space by (intro StringTrim_id) auto
    show "c_str w = w" using that by (intro c_str_id) (auto simp: word_text_def)
  qed
  have "int (unat (xn_flags n)) < int (2 ^ 63)" "int (unat (xn_host n)) < int 32768" "int (unat (xn_category n)) < int 32768"
    using assms unfolding readable_net_def by (simp_all only: of_nat_less_iff)
  then have b: "int (unat (xn_flags n)) \<le> 2 ^ 63 - 1" "int (unat (xn_host n)) \<le> 32767" "int (unat (xn_category n)) \<le> 32767"
    by simp_all
  have "tl (net_text nets n) = ?name @ ?s" by (simp add: net_text_def)
  moreover have "stream_word (Some (?name @ ?s)) = (?name, Some ?s)" using w(1) by (intro stream_word_text) (simp_all add: isspace_def)
  moreover have "stream_word (Some ?s) = (xn_stype n, Some ?f)" using w(2) by (intro stream_word_text) (simp_all add: isspace_def)
  moreover have "extract_long (Some ?f) = Inr (int (unat (xn_flags n)), Some ?h)"
    unfolding extract_long_def by (rule extract_number_show [OF _ _ b(1)]) (simp_all add: isspace_def)
  moreover have "extract_int16 (Some ?h) = Inr (int (unat (xn_host n)), Some ?c)"
    unfolding extract_int16_def by (rule extract_number_show [OF _ _ b(2)]) (simp_all add: isspace_def)
  moreover have "extract_int16 (Some ?c) = Inr (int (unat (xn_category n)), Some [])"
    unfolding extract_int16_def by (rule extract_number_show [OF _ _ b(3)]) simp_all
  ultimately show ?thesis
    using assms w trim by (cases n) (simp add: ParseXSubsLine_def readable_net_def Let_def)
qed

lemma xtr_line_text:
  assumes "text_line l" "l \<noteq> []" "\<not> is_white (hd l)" "\<not> is_white (last l)"
  shows "StringTrim l = l"
  by (rule StringTrim_id) (use assms in simp)

lemma xtr_nets:
  assumes "\<forall>n \<in> set ns. readable_net nets n" "i < length xs"
  shows "foldl (\<lambda>r l. xtr_turn nets num l r) (Inr (int i, xs)) (map (net_text nets) ns)
    = Inr (int i, xs[i := (xs ! i)\<lparr>xs_nets := xs_nets (xs ! i) @ ns\<rparr>])"
  using assms
proof (induction ns arbitrary: xs)
  case (Cons n ns)
  have p: "text_line (net_text nets n)" "hd (net_text nets n) = CHR ''$''" "\<not> is_white (last (net_text nets n))" "net_text nets n \<noteq> []"
    using net_text_plain [of nets n] Cons.prems by (auto simp: net_text_def)
  have "StringTrim (net_text nets n) = net_text nets n" using p by (intro xtr_line_text) (simp_all add: DELIMS_WHITE_def)
  then have "xtr_turn nets num (net_text nets n) (Inr (int i, xs)) = Inr (int i, xs[i := (xs ! i)\<lparr>xs_nets := xs_nets (xs ! i) @ [n]\<rparr>])"
    using p ParseXSubsLine_text [of nets n "xs ! i"] Cons.prems by (simp add: xtr_turn_def xtr_line_def Let_def)
  then show ?case using Cons.IH [of "xs[i := (xs ! i)\<lparr>xs_nets := xs_nets (xs ! i) @ [n]\<rparr>]"] Cons.prems by simp
qed simp

lemma atol_show_nat: "n < 2 ^ 63 \<Longrightarrow> atol (show_nat n) = int n"
proof -
  assume "n < 2 ^ 63"
  then have "int n < int (2 ^ 63)" by (simp only: of_nat_less_iff)
  then show ?thesis using scan_number_show_nat [of "[]" n] by (simp add: atol_def signed_val_def)
qed

lemma atoi_show_nat: "n < 2 ^ 31 \<Longrightarrow> atoi (show_nat n) = int n"
proof -
  assume n: "n < 2 ^ 31"
  then have "int n < int (2 ^ 31)" by (simp only: of_nat_less_iff)
  then have "sint (word_of_int (int n) :: 32 word) = int n" by (subst int_word_sint) simp
  then show ?thesis using n by (simp add: atoi_def atol_show_nat)
qed

lemma xtr_area:
  assumes x: "readable_xsub nets x" "xs_nets x \<noteq> []" and i: "i < length xs" "length xs < 2 ^ 31" "xs ! i = default_xsub"
  shows "foldl (\<lambda>r l. xtr_turn nets (length xs) l r) (Inr (c, xs)) (xsub_lines nets i x) = Inr (int i, xs[i := x])"
proof -
  have d: "\<not> is_white (last (show_nat n)) \<and> show_nat n \<noteq> []" for n
    using show_nat_chars [of "last (show_nat n)" n] white_space by auto
  have f: "int (unat (xs_flags x)) < int (2 ^ 63)" using x(1) unfolding readable_xsub_def by (simp only: of_nat_less_iff)
  have t: "StringTrim (''!'' @ show_nat i) = ''!'' @ show_nat i" "StringTrim (''@'' @ xs_desc x) = ''@'' @ xs_desc x"
    "StringTrim (''#'' @ show_nat (unat (xs_flags x))) = ''#'' @ show_nat (unat (xs_flags x))"
    using d x(1) by (intro StringTrim_id; auto simp: readable_xsub_def DELIMS_WHITE_def)+
  have a: "atoi (show_nat i) = int i" using i by (intro atoi_show_nat) simp
  have l: "atol (show_nat (unat (xs_flags x))) = int (unat (xs_flags x))" using x(1) by (intro atol_show_nat) (simp add: readable_xsub_def)
  have cd: "c_str (xs_desc x) = xs_desc x" using x(1) by (intro c_str_id) (auto simp: readable_xsub_def)
  let ?x1 = "default_xsub\<lparr>xs_desc := xs_desc x\<rparr>"
  have "xtr_turn nets (length xs) (''!'' @ show_nat i) (Inr (c, xs)) = Inr (int i, xs)"
    unfolding xtr_turn_def xtr_line_def t(1) using a i(1) by simp
  moreover have "xtr_turn nets (length xs) (''@'' @ xs_desc x) (Inr (int i, xs)) = Inr (int i, xs[i := ?x1])"
    unfolding xtr_turn_def xtr_line_def t(2) using i x(1) by (simp add: readable_xsub_def cd)
  moreover have "xtr_turn nets (length xs) (''#'' @ show_nat (unat (xs_flags x))) (Inr (int i, xs[i := ?x1]))
      = Inr (int i, xs[i := ?x1\<lparr>xs_flags := xs_flags x\<rparr>])"
    unfolding xtr_turn_def xtr_line_def t(3) using l i(1) by simp
  moreover have "foldl (\<lambda>r l. xtr_turn nets (length xs) l r) (Inr (int i, xs[i := ?x1\<lparr>xs_flags := xs_flags x\<rparr>])) (map (net_text nets) (xs_nets x))
      = Inr (int i, xs[i := ?x1\<lparr>xs_flags := xs_flags x, xs_nets := xs_nets x\<rparr>])"
    using xtr_nets [of "xs_nets x" nets i "xs[i := ?x1\<lparr>xs_flags := xs_flags x\<rparr>]"] x(1) i(1)
    by (simp add: readable_xsub_def default_xsub_def)
  moreover have "?x1\<lparr>xs_flags := xs_flags x, xs_nets := xs_nets x\<rparr> = x" by (cases x) (simp add: default_xsub_def)
  ultimately show ?thesis using x(2) by (simp add: xsub_lines_def)
qed

text \<open>What the file keeps: nothing is written for an area that no network carries.\<close>

definition kept :: "xtrasubsrec \<Rightarrow> xtrasubsrec" where
  "kept x = (if xs_nets x = [] then default_xsub else x)"

lemma xtr_areas:
  assumes "\<forall>x \<in> set xs. readable_xsub nets x" "length (ys @ xs) < 2 ^ 31"
  shows "\<exists>c. foldl (\<lambda>r l. xtr_turn nets (length (ys @ xs)) l r) (Inr (c0, ys @ replicate (length xs) default_xsub)) (xtr_lines nets (length ys) xs)
    = Inr (c, ys @ map kept xs)"
  using assms
proof (induction xs arbitrary: ys c0)
  case (Cons x xs)
  let ?all = "ys @ replicate (length (x # xs)) default_xsub"
  have "\<exists>c. foldl (\<lambda>r l. xtr_turn nets (length ?all) l r) (Inr (c0, ?all)) (xsub_lines nets (length ys) x) = Inr (c, ?all[length ys := kept x])"
  proof (cases "xs_nets x = []")
    case True
    then show ?thesis by (simp add: xsub_lines_def kept_def list_update_append)
  next
    case False
    then show ?thesis using xtr_area [of nets x "length ys" ?all c0] Cons.prems by (simp add: kept_def nth_append)
  qed
  then obtain c where c: "foldl (\<lambda>r l. xtr_turn nets (length ?all) l r) (Inr (c0, ?all)) (xsub_lines nets (length ys) x)
      = Inr (c, (ys @ [kept x]) @ replicate (length xs) default_xsub)" by (auto simp: list_update_append)
  then show ?case using Cons.IH [of "ys @ [kept x]" c] Cons.prems by simp
qed simp

lemma xtr_lines_plain:
  assumes "\<forall>x \<in> set xs. readable_xsub nets x" "length xs + i < 2 ^ 31"
  shows "\<forall>l \<in> set (xtr_lines nets i xs). text_line l"
  using assms
proof (induction xs arbitrary: i)
  case (Cons x xs)
  then show ?case using xsub_lines_plain [of nets x i] Cons.IH [of "i + 1"] by auto
qed simp

text \<open>C40 The networks of the message areas survive the file: what \<open>write_subs_xtr\<close> writes \<open>read_subs_xtr\<close> reads back,
  area for area, for areas with numbers of hosts below 32768. Of an area that no network carries nothing is kept, not
  even its description.
\<close>

theorem subs_xtr_read_back:
  assumes xs: "\<forall>x \<in> set xs. readable_xsub nets x" "length xs < 2 ^ 31"
    and path: "datadir \<noteq> []" "last datadir = CHR ''/''" "writable (datadir @ ''subs.xtr'')"
  shows "\<exists>fs'. write_subs_xtr datadir writable nets xs fs = Inr (True, fs')
    \<and> read_subs_xtr datadir nets (length xs) old fs' = Inr (True, map kept xs)"
proof -
  let ?b = "print_lines (xtr_lines nets 0 xs)"
  have p: "FilePath datadir ''subs.xtr'' = Inr (datadir @ ''subs.xtr'')" using path by (simp add: FilePath_def)
  have w: "write_xsubs nets 0 xs [] = Inr ?b" using write_xsubs_text [of xs nets 0 "[]"] xs by simp
  let ?fs2 = "snd (File_Move (SetName datadir ''subs.xtr'') (SetName datadir ''subs.xtr.old'') (snd (File_Remove (datadir @ ''subs.xtr.old'') fs)))"
  have fs2: "write_subs_xtr datadir writable nets xs fs = Inr (True, ?fs2(datadir @ ''subs.xtr'' \<mapsto> ?b))"
    using p w path(3) by (simp add: write_subs_xtr_def case_prod_unfold)
  have "\<forall>l \<in> set (xtr_lines nets 0 xs). text_line l" using xs by (intro xtr_lines_plain) simp_all
  then have "xtr_loop nets (length xs) ?b (Inr (- 1, replicate (length xs) default_xsub))
      = foldl (\<lambda>r l. xtr_turn nets (length xs) l r) (Inr (- 1, replicate (length xs) default_xsub)) (xtr_lines nets 0 xs)"
    by (rule xtr.loop_printed)
  then have "\<exists>c. xtr_loop nets (length xs) ?b (Inr (- 1, replicate (length xs) default_xsub)) = Inr (c, map kept xs)"
    using xtr_areas [of xs nets "[]" "- 1"] xs by simp
  then have "read_subs_xtr datadir nets (length xs) old (?fs2(datadir @ ''subs.xtr'' \<mapsto> ?b)) = Inr (True, map kept xs)"
    using p by (auto simp: read_subs_xtr_def)
  then show ?thesis using fs2 by blast
qed

text \<open>Two areas, the first one without a network and the second one with two.\<close>

definition example_nets :: networks where
  "example_nets = [\<lparr>net_type = 0, net_name = ''WWIVnet'', net_dir = ''net'', net_sysnum = 1\<rparr>,
     \<lparr>net_type = 0, net_name = ''FILEnet'', net_dir = ''file'', net_sysnum = 1\<rparr>]"

definition example_xsubs :: "xtrasubsrec list" where
  "example_xsubs = [\<lparr>xs_flags = 0, xs_desc = ''Local'', xs_nets = []\<rparr>,
     \<lparr>xs_flags = 0, xs_desc = ''Chat'', xs_nets =
       [\<lparr>xn_flags = 3, xn_net_num = 0, xn_type = 5, xn_host = 1, xn_category = 0, xn_stype = ''5''\<rparr>,
        \<lparr>xn_flags = 0, xn_net_num = 1, xn_type = 7, xn_host = 32767, xn_category = 2, xn_stype = ''7''\<rparr>]\<rparr>]"

lemma example_readable: "\<forall>x \<in> set example_xsubs. readable_xsub example_nets x"
proof -
  have t: "StringToUnsignedShort ''5'' = 5" "StringToUnsignedShort ''7'' = 7"
    using StringToUnsignedShort_show_nat [of 5 "[]"] StringToUnsignedShort_show_nat [of 7 "[]"]
    by (simp_all add: show_nat.simps char_of_def bit_0)
  have f: "FindNetworkByName 0 example_nets ''WWIVnet'' = 0" "FindNetworkByName 0 example_nets ''FILEnet'' = 1"
    by (simp_all add: example_nets_def IsEqualsIgnoreCase_def strcasecmp_eq_0_iff c_str_def NUL_def tolower_def isupper_def)
  show ?thesis
    using t f by (simp add: example_xsubs_def readable_xsub_def readable_net_def word_text_def isspace_def NUL_def DELIMS_WHITE_def)
      (simp add: example_nets_def)
qed

theorem subs_xtr_read_back_witness:
  "\<exists>fs'. write_subs_xtr ''data/'' (\<lambda>_. True) example_nets example_xsubs Map.empty = Inr (True, fs')
    \<and> read_subs_xtr ''data/'' example_nets 2 [] fs' = Inr (True, [default_xsub, example_xsubs ! 1])"
proof -
  have e: "length example_xsubs = 2" "map kept example_xsubs = [default_xsub, example_xsubs ! 1]"
    by (simp_all add: example_xsubs_def kept_def)
  have "\<exists>fs'. write_subs_xtr ''data/'' (\<lambda>_. True) example_nets example_xsubs Map.empty = Inr (True, fs')
      \<and> read_subs_xtr ''data/'' example_nets (length example_xsubs) [] fs' = Inr (True, map kept example_xsubs)"
    by (rule subs_xtr_read_back) (simp_all add: example_readable e)
  then show ?thesis by (simp only: e)
qed

end
