(* ===== verification/Bbs_SubEdit.thy ===== *)
theory Bbs_SubEdit
  imports Bbs_QScan Bbs_Access Bbs_Subxtr
begin

unbundle bit_operations_syntax

text \<open>
  \<open>bbs/wqscn.cpp\<close>, and of \<open>bbs/subedit.cpp\<close> and \<open>bbs/diredit.cpp\<close> what a change of the areas does to the
  conferences, to the scan records of all users in \<open>USER.QSC\<close> and to the files \<open>SUBS.DAT\<close> and \<open>SUBS.XTR\<close>. The
  dialogues around it are left out. Where \<open>sub_xtr_del\<close> asks whether a message is to be sent to the system that
  hosts a deleted area, what comes of it is \<open>drop_request\<close>.

  The length of a scan record, in bytes in the code, is a number of words here: it is a multiple of four.
\<close>

section \<open>State\<close>

record edit_env =
  e_conf :: conf_env
  max_dirs :: nat
  qscn_words :: nat
  maxusers :: int
  guest_user :: bool
  in_memory :: "int \<Rightarrow> bool"
  qscan_opens :: bool
  subs_dat_opens :: bool
  num_user_records :: int
  net_networks :: networks
  dloadsdir :: string
  drop_request :: "xtrasubsnetrec \<Rightarrow> disk \<Rightarrow> disk"

record edit_session =
  es_areas :: area_session
  xsubs :: "xtrasubsrec list"
  CurrentReadMessageArea :: int
  qsc :: "u32 list"
  qscan_file :: bytes

section \<open>The file of the scan records\<close>

definition enc_words :: "u32 list \<Rightarrow> bytes" where
  "enc_words ws = concat (map enc_u32 ws)"

definition dec_words :: "bytes \<Rightarrow> u32 list" where
  "dec_words b = recs dec_u32 4 b"

interpretation word_codec: record_codec enc_u32 dec_u32 "\<lambda>_. True" 4
  by unfold_locales (simp_all add: enc_dec_u32)

definition fill_words :: "nat \<Rightarrow> nat \<Rightarrow> u32 list \<Rightarrow> cpp_error + u32 list" where
  "fill_words a n b = (if length b < a + n then Inl UndefinedBehaviour else Inr (take a b @ replicate n (- 1) @ drop (a + n) b))"

text \<open>A user without a record: not the array asked for but the one of the user on line is set.\<close>

definition reset_qsc :: "edit_env \<Rightarrow> u32 list \<Rightarrow> cpp_error + u32 list" where
  "reset_qsc env b =
     (let nd = (max_dirs env + 31) div 32; ns = (max_subs (e_conf env) + 31) div 32; k = qscn_words env
      in if length b < k \<or> k = 0 then Inl UndefinedBehaviour
         else bind_res (fill_words 1 nd (999 # replicate (k - 1) 0 @ drop k b)) (fill_words (1 + ns) ns))"

definition read_qscn :: "edit_env \<Rightarrow> int \<Rightarrow> bool \<Rightarrow> u32 list \<Rightarrow> edit_session \<Rightarrow> cpp_error + u32 list \<times> edit_session" where
  "read_qscn env user_number bForceRead qscn s =
     (let k = qscn_words env; lPos = int (4 * k) * user_number
      in if length qscn < k then Inl UndefinedBehaviour
         else if \<not> bForceRead \<and> in_memory env user_number
         then (if length (qsc s) < k then Inl UndefinedBehaviour else Inr (take k (qsc s) @ drop k qscn, s))
         else if qscan_opens env \<and> lPos + int (4 * k) \<le> int (length (qscan_file s))
         then Inr (dec_words (read_at (nat lPos) (4 * k) (qscan_file s)) @ drop k qscn, s)
         else map_sum id (\<lambda>q. (qscn, s\<lparr>qsc := q\<rparr>)) (reset_qsc env (qsc s)))"

definition write_qscn :: "edit_env \<Rightarrow> int \<Rightarrow> u32 list \<Rightarrow> edit_session \<Rightarrow> cpp_error + edit_session" where
  "write_qscn env user_number qscn s =
     (let k = qscn_words env
      in if user_number < 1 \<or> maxusers env < user_number \<or> guest_user env then Inr s
         else if length qscn < k \<or> in_memory env user_number \<and> length (qsc s) < k then Inl UndefinedBehaviour
         else let s1 = (if in_memory env user_number then s\<lparr>qsc := take k qscn @ drop k (qsc s)\<rparr> else s)
              in Inr (if qscan_opens env
                      then s1\<lparr>qscan_file := overwrite (qscan_file s1) (4 * k * nat user_number) (enc_words (take k qscn))\<rparr> else s1))"

text \<open>The loop over the users; the array keeps its contents from one user to the next.\<close>

definition each_user ::
  "edit_env \<Rightarrow> nat \<Rightarrow> (u32 list \<Rightarrow> cpp_error + u32 list) \<Rightarrow> edit_session \<Rightarrow> cpp_error + edit_session" where
  "each_user env words f s =
     map_sum id snd
       (each_res (\<lambda>i (b, s). bind_res (read_qscn env (int i) False b s) (\<lambda>(b1, s1).
                             bind_res (f b1) (\<lambda>b2. map_sum id (Pair b2) (write_qscn env (int i) b2 s1))))
          [1..<nat (num_user_records env) + 1] (replicate words 0, s))"

section \<open>Saving\<close>

definition enc_sub :: "subboardrec \<Rightarrow> bytes" where
  "enc_sub r = sb_name r @ sb_filename r @ [sb_key r] @ enc_u8 (readsl r) @ enc_u8 (postsl r) @ enc_u8 (anony r) @ enc_u8 (sb_age r)
     @ enc_u16 (maxmsgs r) @ enc_u16 (sb_ar r) @ enc_u16 (storage_type r) @ enc_u16 (sb_type r)"

definition set_subs :: "subboardrec list \<Rightarrow> edit_session \<Rightarrow> edit_session" where
  "set_subs rs s =
     s\<lparr>es_areas := (es_areas s)\<lparr>subboards := rs, confs := (confs (es_areas s))\<lparr>subboard_count := length rs\<rparr>\<rparr>\<rparr>"

definition set_dirs :: "directoryrec list \<Rightarrow> edit_session \<Rightarrow> edit_session" where
  "set_dirs rs s =
     s\<lparr>es_areas := (es_areas s)\<lparr>directories := rs, confs := (confs (es_areas s))\<lparr>directory_count := length rs\<rparr>\<rparr>\<rparr>"

definition set_es_confs :: "conferences \<Rightarrow> edit_session \<Rightarrow> edit_session" where
  "set_es_confs c s = s\<lparr>es_areas := (es_areas s)\<lparr>confs := c\<rparr>\<rparr>"

definition es_disk :: "edit_session \<Rightarrow> disk" where
  "es_disk s = conf_disk (confs (es_areas s))"

definition set_es_disk :: "disk \<Rightarrow> edit_session \<Rightarrow> edit_session" where
  "set_es_disk fs s = set_es_confs ((confs (es_areas s))\<lparr>conf_disk := fs\<rparr>) s"

definition forget_lists :: "networks \<Rightarrow> disk \<Rightarrow> disk" where
  "forget_lists nets fs =
     foldl (\<lambda>fs n. snd (File_Remove (net_dir n @ ''nnall.net'')
       (snd (File_Remove (net_dir n @ ''subs.pub'') (snd (File_Remove (net_dir n @ ''allow.net'') fs)))))) fs nets"

definition save_subs :: "edit_env \<Rightarrow> edit_session \<Rightarrow> cpp_error + edit_session" where
  "save_subs env s =
     (let rs = map (\<lambda>r. r\<lparr>sb_type := 0\<rparr>) (subboards (es_areas s)); s1 = set_subs rs s;
          fs = (if subs_dat_opens env
                then (es_disk s1)(SetName (datadir (e_conf env)) ''subs.dat'' \<mapsto> contents (DataFile_WriteVector enc_sub 0 rs (opened [])))
                else es_disk s1)
      in bind_res (write_subs_xtr (datadir (e_conf env)) (writable (e_conf env)) (net_networks env) (xsubs s1) fs) (\<lambda>(_, fs1).
         Inr (set_es_disk (forget_lists (net_networks env) fs1) s1)))"

section \<open>Message areas\<close>

definition padded :: "nat \<Rightarrow> string \<Rightarrow> bytes" where
  "padded n t = t @ replicate (n - length t) NUL"

definition new_sub :: subboardrec where
  "new_sub = \<lparr>sb_name = padded 41 ''** New WWIV Message Area **'', sb_filename = padded 9 ''NONAME'', sb_key = NUL, readsl = 10,
     postsl = 20, anony = 0, sb_age = 0, maxmsgs = 50, sb_ar = 0, storage_type = 2, sb_type = 0\<rparr>"

definition insert_at :: "nat \<Rightarrow> 'a \<Rightarrow> 'a list \<Rightarrow> 'a list" where
  "insert_at n x xs = take n xs @ x # drop n xs"

definition erase_at :: "nat \<Rightarrow> 'a list \<Rightarrow> 'a list" where
  "erase_at n xs = take n xs @ drop (Suc n) xs"

definition conf_update :: "edit_env \<Rightarrow> ConferenceType \<Rightarrow> u16 \<Rightarrow> u16 option \<Rightarrow> update_action \<Rightarrow> edit_session \<Rightarrow> cpp_error + edit_session" where
  "conf_update env t n1 n2 action s =
     map_sum id (\<lambda>c. set_es_confs c s) (update_conf (e_conf env) t (Some n1) n2 action (confs (es_areas s)))"

definition sub_words :: "edit_env \<Rightarrow> nat \<times> nat" where
  "sub_words env = (qsc_q (max_dirs env), qsc_p (max_dirs env) (max_subs (e_conf env)))"

definition insert_sub :: "edit_env \<Rightarrow> int \<Rightarrow> edit_session \<Rightarrow> cpp_error + edit_session" where
  "insert_sub env n0 s =
     (if n0 < 0 \<or> int (length (subboards (es_areas s))) < n0 then Inr s
      else let nconv = word_of_int n0; n = unat nconv
           in bind_res (conf_update env CONF_SUBS nconv None CONF_UPDATE_INSERT s) (\<lambda>s1.
              if length (xsubs s1) < n then Inl UndefinedBehaviour
              else let s2 = (set_subs (insert_at n new_sub (subboards (es_areas s1))) s1)\<lparr>xsubs := insert_at n default_xsub (xsubs s1)\<rparr>
                   in bind_res (insert_masks n) (\<lambda>m.
                      bind_res (each_user env (4 * qscn_words env)
                        (insert_sub_scan (fst (sub_words env)) (snd (sub_words env)) n (length (subboards (es_areas s2))) m) s2) (\<lambda>s3.
                      bind_res (save_subs env s3) (\<lambda>s4.
                      Inr (if int n \<le> CurrentReadMessageArea s4
                           then s4\<lparr>CurrentReadMessageArea := CurrentReadMessageArea s4 + 1\<rparr> else s4))))))"

text \<open>The loop that takes the area out of its networks empties \<open>nets\<close> from the front.\<close>

definition sub_xtr_del :: "edit_env \<Rightarrow> xtrasubsnetrec \<Rightarrow> disk \<Rightarrow> disk" where
  "sub_xtr_del env xn fs = (if xn_host xn \<noteq> 0 then drop_request env xn fs else fs)"

definition leave_networks :: "edit_env \<Rightarrow> nat \<Rightarrow> edit_session \<Rightarrow> edit_session" where
  "leave_networks env n s =
     (if n < length (xsubs s)
      then (set_es_disk (foldl (\<lambda>fs xn. sub_xtr_del env xn fs) (es_disk s) (xs_nets (xsubs s ! n))) s)
             \<lparr>xsubs := (xsubs s)[n := (xsubs s ! n)\<lparr>xs_nets := []\<rparr>]\<rparr>
      else s)"

definition delete_sub :: "edit_env \<Rightarrow> int \<Rightarrow> edit_session \<Rightarrow> cpp_error + edit_session" where
  "delete_sub env n0 s =
     (if n0 < 0 \<or> int (length (subboards (es_areas s))) \<le> n0 then Inr s
      else let nconv = word_of_int n0; n = unat nconv
           in bind_res (conf_update env CONF_SUBS nconv None CONF_UPDATE_DELETE s) (\<lambda>s0.
              let s1 = leave_networks env n s0 in
              if length (xsubs s1) \<le> n then Inl UndefinedBehaviour
              else let s2 = (set_subs (erase_at n (subboards (es_areas s1))) s1)\<lparr>xsubs := erase_at n (xsubs s1)\<rparr>
                   in bind_res (delete_masks n) (\<lambda>m.
                      bind_res (each_user env (4 * qscn_words env + 1)
                        (delete_sub_scan (fst (sub_words env)) (snd (sub_words env)) n (length (subboards (es_areas s2))) m) s2) (\<lambda>s3.
                      bind_res (save_subs env s3) (\<lambda>s4.
                      Inr (if CurrentReadMessageArea s4 = int n then s4\<lparr>CurrentReadMessageArea := - 1\<rparr>
                           else if int n < CurrentReadMessageArea s4 then s4\<lparr>CurrentReadMessageArea := CurrentReadMessageArea s4 - 1\<rparr>
                           else s4))))))"

definition swap_at :: "nat \<Rightarrow> nat \<Rightarrow> 'a list \<Rightarrow> 'a list" where
  "swap_at i j xs = xs[i := xs ! j, j := xs ! i]"

definition swap_subs :: "edit_env \<Rightarrow> int \<Rightarrow> int \<Rightarrow> edit_session \<Rightarrow> cpp_error + edit_session" where
  "swap_subs env m1 m2 s =
     (let num = int (length (subboards (es_areas s)))
      in if m1 < 0 \<or> num \<le> m1 \<or> m2 < 0 \<or> num \<le> m2 then Inr s
         else let c1 = word_of_int m1; c2 = word_of_int m2; sub1 = unat c1; sub2 = unat c2
              in bind_res (conf_update env CONF_SUBS c1 (Some c2) CONF_UPDATE_SWAP s) (\<lambda>s1.
                 bind_res (each_user env (4 * qscn_words env) (swap_sub_scan (fst (sub_words env)) (snd (sub_words env)) sub1 sub2) s1) (\<lambda>s2.
                 if length (xsubs s2) \<le> sub1 \<or> length (xsubs s2) \<le> sub2 then Inl UndefinedBehaviour
                 else save_subs env ((set_subs (swap_at sub1 sub2 (subboards (es_areas s2))) s2)\<lparr>xsubs := swap_at sub1 sub2 (xsubs s2)\<rparr>))))"

section \<open>File areas\<close>

definition new_dir :: "edit_env \<Rightarrow> directoryrec" where
  "new_dir env = \<lparr>dr_name = ''** NEW DIR **'', dr_filename = ''NONAME'', dr_path = dloadsdir env, dr_dsl = 10, dr_age = 0, dr_dar = 0,
     maxfiles = 50, dr_mask = 0, dr_type = 0\<rparr>"

definition insert_dir :: "edit_env \<Rightarrow> int \<Rightarrow> edit_session \<Rightarrow> cpp_error + edit_session" where
  "insert_dir env n0 s =
     (if n0 < 0 \<or> int (length (directories (es_areas s))) < n0 then Inr s
      else let nconv = word_of_int n0; n = unat nconv
           in bind_res (conf_update env CONF_DIRS nconv None CONF_UPDATE_INSERT s) (\<lambda>s1.
              let s2 = set_dirs (insert_at n (new_dir env) (directories (es_areas s1))) s1
              in bind_res (insert_masks n) (\<lambda>m.
                 each_user env (qscn_words env) (insert_bit 1 n (length (directories (es_areas s2))) m) s2)))"

definition delete_dir :: "edit_env \<Rightarrow> int \<Rightarrow> edit_session \<Rightarrow> cpp_error + edit_session" where
  "delete_dir env n0 s =
     (if n0 < 0 \<or> int (length (directories (es_areas s))) \<le> n0 then Inr s
      else let nconv = word_of_int n0; n = unat nconv
           in bind_res (conf_update env CONF_DIRS nconv None CONF_UPDATE_DELETE s) (\<lambda>s1.
              let s2 = set_dirs (erase_at n (directories (es_areas s1))) s1
              in bind_res (delete_masks n) (\<lambda>m.
                 each_user env (qscn_words env) (delete_bit 1 n (length (directories (es_areas s2))) m) s2)))"

definition swap_dirs :: "edit_env \<Rightarrow> int \<Rightarrow> int \<Rightarrow> edit_session \<Rightarrow> cpp_error + edit_session" where
  "swap_dirs env m1 m2 s =
     (let num = int (length (directories (es_areas s)))
      in if m1 < 0 \<or> num \<le> m1 \<or> m2 < 0 \<or> num \<le> m2 then Inr s
         else let c1 = word_of_int m1; c2 = word_of_int m2; dir1 = unat c1; dir2 = unat c2
              in bind_res (conf_update env CONF_DIRS c1 (Some c2) CONF_UPDATE_SWAP s) (\<lambda>s1.
                 bind_res (each_user env (qscn_words env) (swap_bits 1 dir1 dir2) s1) (\<lambda>s2.
                 Inr (set_dirs (swap_at dir1 dir2 (directories (es_areas s2))) s2))))"

end
