(* ===== verification/Bbs_SubEdit_Follows.thy ===== *)
theory Bbs_SubEdit_Follows
  imports Bbs_SubEdit
begin

text \<open>
  When message areas are inserted, deleted or exchanged everything that knows them by number has to follow: the
  list of areas and the list of their networks, the conferences, and what every user has read. The theorem says
  when it does, the lemmas before it treat the parts.
\<close>

section \<open>The records of all users\<close>

abbreviation users :: "edit_env \<Rightarrow> nat set" where
  "users env \<equiv> {1..nat (num_user_records env)}"

text \<open>The record of a user on line is the one in memory.\<close>

definition scan_record :: "edit_env \<Rightarrow> edit_session \<Rightarrow> nat \<Rightarrow> u32 list" where
  "scan_record env s u =
     (if in_memory env (int u) then take (qscn_words env) (qsc s)
      else dec_words (read_at (4 * qscn_words env * u) (4 * qscn_words env) (qscan_file s)))"

definition scan_ready :: "edit_env \<Rightarrow> edit_session \<Rightarrow> bool" where
  "scan_ready env s \<longleftrightarrow> qscan_opens env \<and> \<not> guest_user env \<and> num_user_records env \<le> maxusers env
     \<and> 4 * qscn_words env * (nat (num_user_records env) + 1) \<le> length (qscan_file s)
     \<and> (\<forall>u v. in_memory env u \<and> in_memory env v \<longrightarrow> u = v) \<and> ((\<exists>u. in_memory env u) \<longrightarrow> qscn_words env \<le> length (qsc s))"

lemma length_enc_words [simp]: "length (enc_words ws) = 4 * length ws"
  by (simp add: enc_words_def word_codec.length_concat_enc)

lemma dec_enc_words [simp]: "dec_words (enc_words ws) = ws"
  by (simp add: enc_words_def dec_words_def word_codec.recs_concat_enc)

lemma length_dec_words: "length (dec_words b) = length b div 4"
  by (simp add: dec_words_def recs_def)

lemma in_file:
  fixes k u U :: nat
  assumes "4 * k * (U + 1) \<le> len" "u \<le> U"
  shows "4 * k * u + 4 * k \<le> len"
proof -
  have "4 * k * u + 4 * k = 4 * k * (u + 1)" by simp
  also have "\<dots> \<le> 4 * k * (U + 1)" using assms(2) by (intro mult_le_mono2) linarith
  finally show ?thesis using assms(1) by linarith
qed

lemma length_scan_record:
  assumes "scan_ready env s" "u \<in> users env"
  shows "length (scan_record env s u) = qscn_words env"
proof -
  have "4 * qscn_words env * u + 4 * qscn_words env \<le> length (qscan_file s)"
    using assms by (intro in_file [of _ "nat (num_user_records env)"]) (auto simp: scan_ready_def)
  then show ?thesis
    using assms by (auto simp: scan_record_def scan_ready_def length_dec_words length_read_at_full)
qed

lemma read_qscn_record:
  assumes "scan_ready env s" "u \<in> users env" "qscn_words env \<le> length b"
  shows "read_qscn env (int u) False b s = Inr (scan_record env s u @ drop (qscn_words env) b, s)"
proof -
  have l: "4 * qscn_words env * u + 4 * qscn_words env \<le> length (qscan_file s)"
    using assms by (intro in_file [of _ "nat (num_user_records env)"]) (auto simp: scan_ready_def)
  have n: "nat (int (4 * qscn_words env) * int u) = 4 * qscn_words env * u" by (metis nat_int of_nat_mult)
  have "int (4 * qscn_words env) * int u + int (4 * qscn_words env) \<le> int (length (qscan_file s))"
    using l by (metis of_nat_add of_nat_le_iff of_nat_mult)
  then show ?thesis
    using assms unfolding read_qscn_def Let_def n scan_record_def scan_ready_def by auto
qed

definition put_record :: "edit_env \<Rightarrow> nat \<Rightarrow> u32 list \<Rightarrow> edit_session \<Rightarrow> edit_session" where
  "put_record env u r s =
     s\<lparr>qsc := (if in_memory env (int u) then r @ drop (qscn_words env) (qsc s) else qsc s),
       qscan_file := overwrite (qscan_file s) (4 * qscn_words env * u) (enc_words r)\<rparr>"

lemma write_qscn_record:
  assumes "scan_ready env s" "u \<in> users env" "qscn_words env \<le> length b"
  shows "write_qscn env (int u) b s = Inr (put_record env u (take (qscn_words env) b) s)"
  using assms by (auto simp: write_qscn_def scan_ready_def put_record_def Let_def)

lemma put_record_ready:
  assumes s: "scan_ready env s" "u \<in> users env" and r: "length r = qscn_words env"
  shows "scan_ready env (put_record env u r s)"
    and "scan_record env (put_record env u r s) v = (if v = u then r else scan_record env s v)"
proof -
  have l: "4 * qscn_words env * u + 4 * qscn_words env \<le> length (qscan_file s)"
    using s by (intro in_file [of _ "nat (num_user_records env)"]) (auto simp: scan_ready_def)
  then show "scan_ready env (put_record env u r s)"
    using s r by (auto simp: scan_ready_def put_record_def length_overwrite)
  show "scan_record env (put_record env u r s) v = (if v = u then r else scan_record env s v)"
  proof (cases "in_memory env (int v)")
    case True
    then have "v = u" if "in_memory env (int u)" using s(1) that unfolding scan_ready_def by (metis of_nat_eq_iff)
    then show ?thesis using True r by (auto simp: scan_record_def put_record_def)
  next
    case False
    have "v < u \<Longrightarrow> 4 * qscn_words env * v + 4 * qscn_words env \<le> 4 * qscn_words env * u"
      by (rule in_file [of _ "u - 1"]) auto
    moreover have "u < v \<Longrightarrow> 4 * qscn_words env * u + 4 * qscn_words env \<le> 4 * qscn_words env * v"
      by (rule in_file [of _ "v - 1"]) auto
    moreover have "read_at (4 * qscn_words env * u) (4 * qscn_words env) (overwrite (qscan_file s) (4 * qscn_words env * u) (enc_words r)) = enc_words r"
      using read_at_overwrite_same [of "4 * qscn_words env * u" "enc_words r" "qscan_file s"] r by simp
    ultimately show ?thesis
      using False r l by (cases v u rule: linorder_cases)
        (simp_all add: scan_record_def put_record_def read_at_overwrite_before read_at_overwrite_after)
  qed
qed

text \<open>The loop changes the record of every user as its body changes the array, and nothing else.\<close>

lemma each_user_follows:
  assumes s: "scan_ready env s" and words: "qscn_words env \<le> words"
    and f: "\<And>b. length b = words \<Longrightarrow> \<exists>b'. f b = Inr b' \<and> length b' = words \<and> R (take (qscn_words env) b) (take (qscn_words env) b')"
  shows "\<exists>q fl. each_user env words f s = Inr (s\<lparr>qsc := q, qscan_file := fl\<rparr>)
    \<and> (\<forall>u \<in> users env. R (scan_record env s u) (scan_record env (s\<lparr>qsc := q, qscan_file := fl\<rparr>) u))"
proof -
  let ?k = "qscn_words env" and ?U = "nat (num_user_records env)"
  let ?P = "\<lambda>i (b :: u32 list, s'). length b = words \<and> scan_ready env s' \<and> (\<exists>q fl. s' = s\<lparr>qsc := q, qscan_file := fl\<rparr>)
    \<and> (\<forall>u. if 1 \<le> u \<and> u < i then R (scan_record env s u) (scan_record env s' u) else scan_record env s' u = scan_record env s u)"
  let ?body = "\<lambda>i (b, s). bind_res (read_qscn env (int i) False b s) (\<lambda>(b1, s1).
                 bind_res (f b1) (\<lambda>b2. map_sum id (Pair b2) (write_qscn env (int i) b2 s1)))"
  have self: "\<exists>q fl. s = s\<lparr>qsc := q, qscan_file := fl\<rparr>" by (rule exI [of _ "qsc s"], rule exI [of _ "qscan_file s"]) simp
  have "\<exists>p. each_res ?body [1..<?U + 1] (replicate words 0, s) = Inr p \<and> ?P (?U + 1) p"
  proof (rule each_res_upto [where P = ?P])
    fix i p assume i: "1 \<le> i" "i < ?U + 1" and P: "?P i p"
    obtain b s1 where p: "p = (b, s1)" by (cases p)
    have s1: "length b = words" "scan_ready env s1" "\<exists>q fl. s1 = s\<lparr>qsc := q, qscan_file := fl\<rparr>"
      "\<And>u. if 1 \<le> u \<and> u < i then R (scan_record env s u) (scan_record env s1 u) else scan_record env s1 u = scan_record env s u"
      using P by (auto simp: p)
    have iu: "i \<in> users env" using i by auto
    let ?r = "scan_record env s1 i"
    have r: "length ?r = ?k" by (rule length_scan_record [OF s1(2) iu])
    have "length (?r @ drop ?k b) = words" using r s1(1) words by simp
    from f [OF this] obtain b' where b': "f (?r @ drop ?k b) = Inr b'" "length b' = words" "R ?r (take ?k b')"
      using r by auto
    let ?s = "put_record env i (take ?k b') s1"
    have run: "?body i (b, s1) = Inr (b', ?s)"
      using read_qscn_record [OF s1(2) iu] write_qscn_record [OF s1(2) iu, of b'] b' s1(1) words by simp
    have same: "\<exists>q fl. ?s = s\<lparr>qsc := q, qscan_file := fl\<rparr>" using s1(3) by (auto simp: put_record_def) blast+
    have l: "length (take ?k b') = ?k" using b'(2) words by simp
    note rec = put_record_ready [OF s1(2) iu l]
    have "if 1 \<le> u \<and> u < Suc i then R (scan_record env s u) (scan_record env ?s u) else scan_record env ?s u = scan_record env s u" for u
      using s1(4) [of u] s1(4) [of i] b'(3) i by (auto simp: rec(2) less_Suc_eq)
    then show "\<exists>p'. ?body i p = Inr p' \<and> ?P (Suc i) p'"
      using run same rec(1) b'(2) unfolding p by (intro exI [of _ "(b', ?s)"]) simp
  qed (use s self in auto)
  then obtain b s' where s': "each_res ?body [1..<?U + 1] (replicate words 0, s) = Inr (b, s')" "?P (?U + 1) (b, s')" by auto
  then obtain q fl where q: "s' = s\<lparr>qsc := q, qscan_file := fl\<rparr>" by auto
  have "each_user env words f s = Inr (s\<lparr>qsc := q, qscan_file := fl\<rparr>)"
    using s'(1) unfolding each_user_def q by simp
  moreover have "\<forall>u \<in> users env. R (scan_record env s u) (scan_record env (s\<lparr>qsc := q, qscan_file := fl\<rparr>) u)"
  proof
    fix u assume u: "u \<in> users env"
    have "if 1 \<le> u \<and> u < ?U + 1 then R (scan_record env s u) (scan_record env s' u) else scan_record env s' u = scan_record env s u"
      using s'(2) by auto
    then show "R (scan_record env s u) (scan_record env (s\<lparr>qsc := q, qscan_file := fl\<rparr>) u)" using u unfolding q by simp
  qed
  ultimately show ?thesis by blast
qed

section \<open>The conferences and the files\<close>

lemma save_confs_saves:
  assumes "\<forall>c \<in> set (confs_of t s). length (conf_name c) \<le> 60 \<and> conf_ok n c"
  shows "\<exists>fs. save_confs env t None None s = Inr (s\<lparr>conf_disk := fs\<rparr>)"
proof -
  have turn: "\<exists>b'. save_turn (confs_of t s) None None i b = Inr b'" if "i < length (confs_of t s)" for i b
  proof -
    have "length (conf_name (confs_of t s ! i)) \<le> 60" "conf_ok n (confs_of t s ! i)" using assms that nth_mem by blast+
    then show ?thesis using that by (auto simp: save_turn_def write_conf_def conf_ok_def Let_def)
  qed
  have "\<exists>b. each_res (save_turn (confs_of t s) None None) [0..<length (confs_of t s)] b0 = Inr b \<and> True" for b0
    by (rule each_res_upto [where P = "\<lambda>_ _. True"]) (use turn in auto)
  then obtain b where b: "conf_text (confs_of t s) None None = Inr b" unfolding conf_text_def by auto
  have "\<exists>fs. s = s\<lparr>conf_disk := fs\<rparr>" by (rule exI [of _ "conf_disk s"]) simp
  then show ?thesis unfolding save_confs_def b by (cases "writable env (conf_file t env)") auto
qed

text \<open>What a conference shows of the areas \<open>as\<close> before a change and after it.\<close>

definition conf_follows :: "'a change \<Rightarrow> 'a list \<Rightarrow> confrec \<Rightarrow> confrec \<Rightarrow> bool" where
  "conf_follows ch as c c' \<longleftrightarrow> settings_kept c c' \<and> shown (arrange ch as) c' = map (nth as) (filter (stays ch) (areas c))
     \<and> conf_ok (length (arrange ch as)) c'"

lemma conf_update_follows:
  assumes as: "length as = area_count t (confs (es_areas s))" "length as < 65535" and ch: "possible ch (length as)"
    and cs: "\<forall>c \<in> set (confs_of t (confs (es_areas s))). length (conf_name c) \<le> 60 \<and> conf_ok (length as) c"
    and args: "update_args ch = (Some n1, n2, action)"
  shows "\<exists>fs cs'. conf_update env t n1 n2 action s = Inr (set_es_confs ((set_confs t cs' (confs (es_areas s)))\<lparr>conf_disk := fs\<rparr>) s)
    \<and> list_all2 (conf_follows ch as) (confs_of t (confs (es_areas s))) cs'"
proof (cases "confs_of t (confs (es_areas s)) = []")
  case True
  have "confs (es_areas s) = (set_confs t [] (confs (es_areas s)))\<lparr>conf_disk := conf_disk (confs (es_areas s))\<rparr>"
    using True by (cases t) (simp_all add: set_confs_def confs_of_def)
  moreover have "update_conf (e_conf env) t (Some n1) n2 action (confs (es_areas s)) = Inr (confs (es_areas s))"
    using True by (simp add: update_conf_def)
  ultimately show ?thesis using True unfolding conf_update_def
    by (intro exI [of _ "conf_disk (confs (es_areas s))"] exI [of _ "[]"]) simp
next
  case False
  have "\<forall>c \<in> set (confs_of t (confs (es_areas s))). conf_ok (length as) c" using cs by blast
  from update_conf_follows [OF as ch False this args] obtain cs' where
    cs': "update_conf (e_conf env) t (Some n1) n2 action (confs (es_areas s))
      = save_confs (e_conf env) t None None (set_confs t cs' (confs (es_areas s)))"
    "list_all2 (conf_follows ch as) (confs_of t (confs (es_areas s))) cs'"
    unfolding conf_follows_def by blast
  have c: "confs_of t (set_confs t cs' (confs (es_areas s))) = cs'" by (cases t) (simp_all add: set_confs_def confs_of_def)
  have "\<forall>c' \<in> set cs'. length (conf_name c') \<le> 60 \<and> conf_ok (length (arrange ch as)) c'"
  proof
    fix c' assume "c' \<in> set cs'"
    then obtain c where "c \<in> set (confs_of t (confs (es_areas s)))" "conf_follows ch as c c'"
      using cs'(2) by (metis list_all2_conv_all_nth in_set_conv_nth)
    then show "length (conf_name c') \<le> 60 \<and> conf_ok (length (arrange ch as)) c'"
      using cs by (auto simp: conf_follows_def settings_kept_def)
  qed
  then obtain fs where "save_confs (e_conf env) t None None (set_confs t cs' (confs (es_areas s)))
      = Inr ((set_confs t cs' (confs (es_areas s)))\<lparr>conf_disk := fs\<rparr>)"
    using save_confs_saves [of t "set_confs t cs' (confs (es_areas s))"] unfolding c by blast
  then show ?thesis using cs' unfolding conf_update_def by auto
qed

definition known_nets :: "networks \<Rightarrow> xtrasubsrec \<Rightarrow> bool" where
  "known_nets nets x \<longleftrightarrow> (\<forall>n \<in> set (xs_nets x). 0 \<le> sint (xn_net_num n) \<and> sint (xn_net_num n) < int (length nets))"

lemma write_nets_Inr: "known_nets nets x \<Longrightarrow> \<exists>b'. write_nets nets (xs_nets x) b = Inr b'"
proof -
  have "\<forall>n \<in> set ns. 0 \<le> sint (xn_net_num n) \<and> sint (xn_net_num n) < int (length nets) \<Longrightarrow> \<exists>b'. write_nets nets ns b = Inr b'" for ns
    by (induction ns arbitrary: b) (auto simp: net_line_def)
  then show "known_nets nets x \<Longrightarrow> \<exists>b'. write_nets nets (xs_nets x) b = Inr b'" by (simp add: known_nets_def)
qed

lemma write_xsubs_Inr: "\<forall>x \<in> set xs. known_nets nets x \<Longrightarrow> \<exists>b'. write_xsubs nets i xs b = Inr b'"
proof (induction xs arbitrary: i b)
  case (Cons x xs)
  then show ?case using write_nets_Inr [of nets x] by (cases "xs_nets x = []") (auto, metis bind_res_simps)
qed simp

definition wiped :: "subboardrec \<Rightarrow> subboardrec" where
  "wiped r = r\<lparr>sb_type := 0\<rparr>"

lemma save_subs_saves:
  assumes "datadir (e_conf env) \<noteq> []" "\<forall>x \<in> set (xsubs s). known_nets (net_networks env) x"
  shows "\<exists>fs. save_subs env s = Inr (set_es_disk fs (set_subs (map wiped (subboards (es_areas s))) s))"
proof -
  obtain p where p: "FilePath (datadir (e_conf env)) ''subs.xtr'' = Inr p" using assms(1) by (auto simp: FilePath_def)
  have "\<exists>r fs'. write_subs_xtr (datadir (e_conf env)) w (net_networks env) (xsubs s) fs = Inr (r, fs')" for w fs
    using write_xsubs_Inr [OF assms(2), of 0 "[]"] p by (auto simp: write_subs_xtr_def case_prod_unfold Let_def)
  note w = this
  let ?s = "set_subs (map wiped (subboards (es_areas s))) s"
  let ?fs = "if subs_dat_opens env
    then (es_disk ?s)(SetName (datadir (e_conf env)) ''subs.dat'' \<mapsto> contents (DataFile_WriteVector enc_sub 0 (map wiped (subboards (es_areas s))) (opened [])))
    else es_disk ?s"
  have x: "xsubs ?s = xsubs s" by (simp add: set_subs_def)
  have "(\<lambda>r. r\<lparr>sb_type := 0\<rparr>) = wiped" by (simp add: fun_eq_iff wiped_def)
  note e = this
  obtain r fs' where r: "write_subs_xtr (datadir (e_conf env)) (writable (e_conf env)) (net_networks env) (xsubs ?s) ?fs = Inr (r, fs')"
    using w unfolding x by blast
  have "save_subs env s = Inr (set_es_disk (forget_lists (net_networks env) fs') ?s)"
    unfolding save_subs_def Let_def e r by simp
  then show ?thesis by blast
qed

section \<open>What a user has read\<close>

text \<open>Which changes the loops over the records are good for, with \<open>n\<close> areas of which there can be \<open>m\<close>.\<close>

fun movable :: "'a change \<Rightarrow> nat \<Rightarrow> nat \<Rightarrow> bool" where
  "movable (Insert k x) n m \<longleftrightarrow> k mod 32 \<noteq> 0 \<and> k mod 32 \<noteq> 31 \<and> (n + 1 < m \<or> n + 1 = m \<and> m mod 32 \<noteq> 0)"
| "movable (Delete k) n m \<longleftrightarrow> k mod 32 \<noteq> 0"
| "movable (Swap i j) n m \<longleftrightarrow> True"

text \<open>The area last read. An exchange leaves the number as it is.\<close>

fun last_read_after :: "'a change \<Rightarrow> u32 \<Rightarrow> u32" where
  "last_read_after (Insert k x) r = (if r \<noteq> 999 \<and> word_of_nat k \<le> r then r + 1 else r)"
| "last_read_after (Delete k) r = (if r = 999 \<or> r = word_of_nat k then 999 else if word_of_nat k < r then r - 1 else r)"
| "last_read_after (Swap i j) r = r"

definition scan_follows :: "edit_env \<Rightarrow> nat \<Rightarrow> 'a change \<Rightarrow> u32 list \<Rightarrow> u32 list \<Rightarrow> bool" where
  "scan_follows env n ch r r' \<longleftrightarrow>
     (let q = fst (sub_words env); p = snd (sub_words env); new = map_change (\<lambda>_. (True, 0)) ch
      in sub_scan q p (length (arrange new (replicate n (True, 0)))) r' = arrange new (sub_scan q p n r)
         \<and> (\<forall>i. 0 < i \<and> i < q \<longrightarrow> r' ! i = r ! i) \<and> r' ! 0 = last_read_after ch (r ! 0))"

lemma sub_scan_take:
  assumes "p + n \<le> k" "q + (n - 1) div 32 < k"
  shows "sub_scan q p n (take k b) = sub_scan q p n b"
proof -
  have "flag q (take k b) i = flag q b i" if "i < n" for i
  proof (rule flag_cong)
    fix j assume "j \<le> i div 32"
    moreover have "i div 32 \<le> (n - 1) div 32" using that by (intro div_le_mono) simp
    ultimately have "q + j < k" using assms(2) by linarith
    then show "take k b ! (q + j) = b ! (q + j)" by simp
  qed
  then show ?thesis using assms(1) by (simp add: sub_scan_def)
qed

lemma word_room: "n < m \<or> n = m \<and> m mod 32 \<noteq> 0 \<Longrightarrow> n div 32 < (m + 31) div 32" for n m :: nat
proof -
  assume n: "n < m \<or> n = m \<and> m mod 32 \<noteq> 0"
  have "32 * (n div 32) < m"
  proof (cases "n < m")
    case True
    have "32 * (n div 32) \<le> n" by simp
    with True show ?thesis by (rule le_less_trans [rotated])
  next
    case False
    then have m: "0 < n mod 32" "n = m" using n by auto
    have "x < x + r" if "0 < r" for x r :: nat using that by simp
    from this [OF m(1), of "32 * (n div 32)"] show ?thesis unfolding mult_div_mod_eq by (simp only: m(2))
  qed
  then have "32 * (n div 32 + 1) \<le> m + 31" by simp
  from div_le_mono [OF this, of 32] show ?thesis by simp
qed

text \<open>The parts of a record lie one behind the other, and all of them in it.\<close>

definition scan_room :: "edit_env \<Rightarrow> bool" where
  "scan_room env \<longleftrightarrow> snd (sub_words env) + max_subs (e_conf env) \<le> qscn_words env"

lemma scan_layout:
  assumes "scan_room env" "0 < n" "n \<le> max_subs (e_conf env)"
  shows "0 < fst (sub_words env)" "fst (sub_words env) + (n - 1) div 32 < snd (sub_words env)" "snd (sub_words env) + n \<le> qscn_words env"
  using assms word_room [of "n - 1" "max_subs (e_conf env)"] by (simp_all add: sub_words_def qsc_q_def qsc_p_def scan_room_def)

lemma insert_sub_scan_record:
  assumes room: "scan_room env" and k: "k \<le> n" "movable (Insert k (x :: 'a)) n (max_subs (e_conf env))" and m: "insert_masks k = Inr m"
    and b: "length b = words" "qscn_words env \<le> words"
  shows "\<exists>b'. insert_sub_scan (fst (sub_words env)) (snd (sub_words env)) k (n + 1) m b = Inr b' \<and> length b' = words
    \<and> scan_follows env n (Insert k x) (take (qscn_words env) b) (take (qscn_words env) b')"
proof -
  let ?q = "fst (sub_words env)" and ?p = "snd (sub_words env)" and ?k = "qscn_words env"
  have n: "n + 1 \<le> max_subs (e_conf env)" "(n + 1) div 32 < (max_subs (e_conf env) + 31) div 32"
    using k(2) word_room [of "n + 1" "max_subs (e_conf env)"] by auto
  have q: "0 < ?q" "?q + (n + 1) div 32 < ?p" "?p + (n + 1) \<le> ?k" "?p + (n + 1) \<le> length b"
    using scan_layout [OF room, of "n + 1"] n b by (simp_all add: sub_words_def qsc_p_def)
  obtain b' where b': "insert_sub_scan ?q ?p k (n + 1) m b = Inr b'" "sub_scan ?q ?p (n + 1) b' = arrange (Insert k (True, 0)) (sub_scan ?q ?p (n + 1 - 1) b)"
    "length b' = length b" "\<forall>i. 0 < i \<and> i < ?q \<longrightarrow> b' ! i = b ! i"
    "b' ! 0 = (if b ! 0 \<noteq> 999 \<and> word_of_nat k \<le> b ! 0 then b ! 0 + 1 else b ! 0)"
    using insert_sub_scan_follows [OF _ _ _ m q(1,2,4)] k by auto
  have "sub_scan ?q ?p (n + 1) (take ?k b') = sub_scan ?q ?p (n + 1) b'" "sub_scan ?q ?p n (take ?k b) = sub_scan ?q ?p n b"
    using q div_le_mono [of n "n + 1" 32] div_le_mono [of "n - 1" "n + 1" 32] by (intro sub_scan_take; simp)+
  then show ?thesis using b' b q k(1) by (auto simp: scan_follows_def Let_def min_def)
qed

lemma delete_sub_scan_record:
  assumes room: "scan_room env" and k: "k < n" "k mod 32 \<noteq> 0" "n \<le> max_subs (e_conf env)" and m: "delete_masks k = Inr m"
    and b: "length b = words" "qscn_words env < words"
  shows "\<exists>b'. delete_sub_scan (fst (sub_words env)) (snd (sub_words env)) k (n - 1) m b = Inr b' \<and> length b' = words
    \<and> scan_follows env n (Delete k :: 'a change) (take (qscn_words env) b) (take (qscn_words env) b')"
proof -
  let ?q = "fst (sub_words env)" and ?p = "snd (sub_words env)" and ?k = "qscn_words env"
  have q: "0 < ?q" "?q + (n - 1) div 32 < ?p" "?p + n \<le> ?k" "?p + (n - 1) < length b"
    using scan_layout [OF room, of n] k b by simp_all
  have k1: "k \<le> n - 1" using k(1) by simp
  obtain b' where b': "delete_sub_scan ?q ?p k (n - 1) m b = Inr b'" "sub_scan ?q ?p (n - 1) b' = arrange (Delete k) (sub_scan ?q ?p (n - 1 + 1) b)"
    "length b' = length b" "\<forall>i. 0 < i \<and> i < ?q \<longrightarrow> b' ! i = b ! i"
    "b' ! 0 = (if b ! 0 = 999 \<or> b ! 0 = word_of_nat k then 999 else if word_of_nat k < b ! 0 then b ! 0 - 1 else b ! 0)"
    using delete_sub_scan_follows [OF k1 k(2) m q(1,2,4)] by blast
  have "sub_scan ?q ?p (n - 1) (take ?k b') = sub_scan ?q ?p (n - 1) b'" "sub_scan ?q ?p n (take ?k b) = sub_scan ?q ?p n b"
    using q div_le_mono [of "n - 1 - 1" "n - 1" 32] by (intro sub_scan_take; simp)+
  moreover have "n - 1 + 1 = n" using k by simp
  ultimately show ?thesis using b' b q k(1) by (auto simp: scan_follows_def Let_def min_def)
qed

lemma swap_sub_scan_record:
  assumes room: "scan_room env" and k: "i < n" "j < n" "n \<le> max_subs (e_conf env)" and b: "length b = words" "qscn_words env \<le> words"
  shows "\<exists>b'. swap_sub_scan (fst (sub_words env)) (snd (sub_words env)) i j b = Inr b' \<and> length b' = words
    \<and> scan_follows env n (Swap i j :: 'a change) (take (qscn_words env) b) (take (qscn_words env) b')"
proof -
  let ?q = "fst (sub_words env)" and ?p = "snd (sub_words env)" and ?k = "qscn_words env"
  have q: "0 < ?q" "?q + (n - 1) div 32 < ?p" "?p + n \<le> ?k" "?p + n \<le> length b"
    using scan_layout [OF room, of n] k b by simp_all
  obtain b' where b': "swap_sub_scan ?q ?p i j b = Inr b'" "sub_scan ?q ?p n b' = arrange (Swap i j) (sub_scan ?q ?p n b)"
    "length b' = length b" "\<forall>i < ?q. b' ! i = b ! i"
    using swap_sub_scan_follows [OF k(1,2) q(1,2,4)] by auto
  have "sub_scan ?q ?p n (take ?k b') = sub_scan ?q ?p n b'" "sub_scan ?q ?p n (take ?k b) = sub_scan ?q ?p n b"
    using q by (intro sub_scan_take; simp)+
  then show ?thesis using b' b q by (auto simp: scan_follows_def Let_def)
qed

section \<open>Changing the areas\<close>

definition change_subs :: "edit_env \<Rightarrow> subboardrec change \<Rightarrow> edit_session \<Rightarrow> cpp_error + edit_session" where
  "change_subs env ch s =
     (case ch of Insert n _ \<Rightarrow> insert_sub env (int n) s | Delete n \<Rightarrow> delete_sub env (int n) s
      | Swap i j \<Rightarrow> swap_subs env (int i) (int j) s)"

fun current_after :: "'a change \<Rightarrow> int \<Rightarrow> int" where
  "current_after (Insert k x) c = (if int k \<le> c then c + 1 else c)"
| "current_after (Delete k) c = (if c = int k then - 1 else if int k < c then c - 1 else c)"
| "current_after (Swap i j) c = c"

text \<open>The lists agree in length, there is room, the conferences and the records of the users are in order.\<close>

definition edit_ready :: "edit_env \<Rightarrow> edit_session \<Rightarrow> bool" where
  "edit_ready env s \<longleftrightarrow>
     (let n = length (subboards (es_areas s))
      in length (xsubs s) = n \<and> subboard_count (confs (es_areas s)) = n \<and> n \<le> max_subs (e_conf env) \<and> max_subs (e_conf env) < 65535
         \<and> scan_room env \<and> scan_ready env s \<and> datadir (e_conf env) \<noteq> []
         \<and> (\<forall>c \<in> set (subconfs (confs (es_areas s))). length (conf_name c) \<le> 60 \<and> conf_ok n c)
         \<and> (\<forall>x \<in> set (xsubs s). known_nets (net_networks env) x))"

lemma areas_of_simps [simp]:
  "subboards (es_areas (set_subs rs s)) = rs" "xsubs (set_subs rs s) = xsubs s" "subboards (es_areas (set_es_confs c s)) = subboards (es_areas s)"
  "xsubs (set_es_confs c s) = xsubs s" "subboards (es_areas (set_es_disk fs s)) = subboards (es_areas s)" "xsubs (set_es_disk fs s) = xsubs s"
  "confs (es_areas (set_es_confs c s)) = c" "subconfs (confs (es_areas (set_subs rs s))) = subconfs (confs (es_areas s))"
  "subconfs (confs (es_areas (set_es_disk fs s))) = subconfs (confs (es_areas s))" "subconfs (set_confs CONF_SUBS cs c) = cs"
  "CurrentReadMessageArea (set_subs rs s) = CurrentReadMessageArea s" "CurrentReadMessageArea (set_es_confs c s) = CurrentReadMessageArea s"
  "CurrentReadMessageArea (set_es_disk fs s) = CurrentReadMessageArea s"
  by (simp_all add: set_subs_def set_es_confs_def set_es_disk_def set_confs_def)

lemma records_elsewhere [simp]:
  "scan_ready env (set_subs rs s) = scan_ready env s" "scan_ready env (set_es_confs c s) = scan_ready env s"
  "scan_ready env (set_es_disk fs s) = scan_ready env s" "scan_ready env (s\<lparr>xsubs := xs\<rparr>) = scan_ready env s"
  "scan_record env (set_subs rs s) = scan_record env s" "scan_record env (set_es_confs c s) = scan_record env s"
  "scan_record env (set_es_disk fs s) = scan_record env s" "scan_record env (s\<lparr>xsubs := xs\<rparr>) = scan_record env s"
  "scan_record env (s\<lparr>CurrentReadMessageArea := i\<rparr>) = scan_record env s"
  by (simp_all add: scan_ready_def scan_record_def fun_eq_iff set_subs_def set_es_confs_def set_es_disk_def)

text \<open>What all three operations do at the end: the records of the users change, and the areas are saved.\<close>

lemma users_then_save:
  assumes s: "scan_ready env s" "datadir (e_conf env) \<noteq> []" "\<forall>x \<in> set (xsubs s). known_nets (net_networks env) x"
    and words: "qscn_words env \<le> words"
    and f: "\<And>b. length b = words \<Longrightarrow> \<exists>b'. f b = Inr b' \<and> length b' = words \<and> R (take (qscn_words env) b) (take (qscn_words env) b')"
  shows "\<exists>s3 s4. each_user env words f s = Inr s3 \<and> save_subs env s3 = Inr s4
    \<and> subboards (es_areas s4) = map wiped (subboards (es_areas s)) \<and> xsubs s4 = xsubs s
    \<and> subconfs (confs (es_areas s4)) = subconfs (confs (es_areas s)) \<and> CurrentReadMessageArea s4 = CurrentReadMessageArea s
    \<and> (\<forall>u \<in> users env. R (scan_record env s u) (scan_record env s4 u))"
proof -
  obtain q fl where e: "each_user env words f s = Inr (s\<lparr>qsc := q, qscan_file := fl\<rparr>)"
    "\<forall>u \<in> users env. R (scan_record env s u) (scan_record env (s\<lparr>qsc := q, qscan_file := fl\<rparr>) u)"
    using each_user_follows [where R = R, OF s(1) words f] by blast
  obtain fs where "save_subs env (s\<lparr>qsc := q, qscan_file := fl\<rparr>)
      = Inr (set_es_disk fs (set_subs (map wiped (subboards (es_areas s))) (s\<lparr>qsc := q, qscan_file := fl\<rparr>)))"
    using save_subs_saves [OF s(2), of "s\<lparr>qsc := q, qscan_file := fl\<rparr>"] s(3) by auto
  then show ?thesis using e
    by (intro exI [of _ "s\<lparr>qsc := q, qscan_file := fl\<rparr>"]
          exI [of _ "set_es_disk fs (set_subs (map wiped (subboards (es_areas s))) (s\<lparr>qsc := q, qscan_file := fl\<rparr>))"]) simp
qed

text \<open>What has followed the areas after a change.\<close>

definition all_follow :: "edit_env \<Rightarrow> subboardrec change \<Rightarrow> edit_session \<Rightarrow> edit_session \<Rightarrow> bool" where
  "all_follow env ch s s' \<longleftrightarrow>
     subboards (es_areas s') = map wiped (arrange ch (subboards (es_areas s)))
     \<and> xsubs s' = arrange (map_change (\<lambda>_. default_xsub) ch) (xsubs s)
     \<and> list_all2 (conf_follows ch (subboards (es_areas s))) (subconfs (confs (es_areas s))) (subconfs (confs (es_areas s')))
     \<and> (\<forall>u \<in> users env. scan_follows env (length (subboards (es_areas s))) ch (scan_record env s u) (scan_record env s' u))
     \<and> CurrentReadMessageArea s' = current_after ch (CurrentReadMessageArea s)"

lemma known_default: "known_nets nets default_xsub" "known_nets nets (x\<lparr>xs_nets := []\<rparr>)"
  by (simp_all add: known_nets_def default_xsub_def)

lemma unat_place: "n < 65536 \<Longrightarrow> unat (word_of_nat n :: u16) = n"
  by (simp add: unat_of_nat take_bit_nat_eq_self)

lemma insert_sub_follows:
  assumes s: "edit_ready env s" and k: "k \<le> length (subboards (es_areas s))"
    "movable (Insert k new_sub) (length (subboards (es_areas s))) (max_subs (e_conf env))"
  shows "\<exists>s'. insert_sub env (int k) s = Inr s' \<and> all_follow env (Insert k new_sub) s s'"
proof -
  let ?n = "length (subboards (es_areas s))" and ?ch = "Insert k new_sub"
  have r: "length (xsubs s) = ?n" "subboard_count (confs (es_areas s)) = ?n" "?n < 65535" "scan_room env" "scan_ready env s"
    "datadir (e_conf env) \<noteq> []" "\<forall>c \<in> set (subconfs (confs (es_areas s))). length (conf_name c) \<le> 60 \<and> conf_ok ?n c"
    "\<forall>x \<in> set (xsubs s). known_nets (net_networks env) x"
    using s by (auto simp: edit_ready_def Let_def)
  have u: "unat (word_of_nat k :: u16) = k" using k(1) r(3) by (simp add: unat_place)
  obtain fs cs' where c: "conf_update env CONF_SUBS (word_of_nat k) None CONF_UPDATE_INSERT s
      = Inr (set_es_confs ((set_confs CONF_SUBS cs' (confs (es_areas s)))\<lparr>conf_disk := fs\<rparr>) s)"
    "list_all2 (conf_follows ?ch (subboards (es_areas s))) (subconfs (confs (es_areas s))) cs'"
    using conf_update_follows [where t = CONF_SUBS and ch = ?ch and as = "subboards (es_areas s)" and s = s and env = env] r k(1)
    by (auto simp: confs_of_def area_count_def)
  define s1 where "s1 = set_es_confs ((set_confs CONF_SUBS cs' (confs (es_areas s)))\<lparr>conf_disk := fs\<rparr>) s"
  have s1: "subboards (es_areas s1) = subboards (es_areas s)" "xsubs s1 = xsubs s" by (simp_all add: s1_def)
  define s2 where "s2 = (set_subs (insert_at k new_sub (subboards (es_areas s))) s1)\<lparr>xsubs := insert_at k default_xsub (xsubs s)\<rparr>"
  obtain m where m: "insert_masks k = Inr m" using k(2) by (simp add: insert_masks_eq)
  have len: "length (subboards (es_areas s2)) = ?n + 1" using k(1) by (simp add: s2_def insert_at_def)
  have x: "\<forall>x \<in> set (xsubs s2). known_nets (net_networks env) x"
    using r(8) known_default(1) by (auto simp: s2_def insert_at_def dest: in_set_takeD in_set_dropD)
  have f: "\<exists>b'. insert_sub_scan (fst (sub_words env)) (snd (sub_words env)) k (?n + 1) m b = Inr b' \<and> length b' = 4 * qscn_words env
      \<and> scan_follows env ?n ?ch (take (qscn_words env) b) (take (qscn_words env) b')" if "length b = 4 * qscn_words env" for b
    by (rule insert_sub_scan_record [OF r(4) k m that]) simp
  have ready: "scan_ready env s2" using r(5) by (simp add: s2_def s1_def)
  obtain s3 s4 where e: "each_user env (4 * qscn_words env) (insert_sub_scan (fst (sub_words env)) (snd (sub_words env)) k (?n + 1) m) s2 = Inr s3"
    "save_subs env s3 = Inr s4" "subboards (es_areas s4) = map wiped (subboards (es_areas s2))" "xsubs s4 = xsubs s2"
    "subconfs (confs (es_areas s4)) = subconfs (confs (es_areas s2))" "CurrentReadMessageArea s4 = CurrentReadMessageArea s2"
    "\<forall>u \<in> users env. scan_follows env ?n ?ch (scan_record env s2 u) (scan_record env s4 u)"
    using users_then_save [where R = "scan_follows env ?n ?ch", OF ready r(6) x _ f] by auto
  let ?s = "if int k \<le> CurrentReadMessageArea s4 then s4\<lparr>CurrentReadMessageArea := CurrentReadMessageArea s4 + 1\<rparr> else s4"
  have "insert_sub env (int k) s = Inr ?s"
    using k(1) c(1) m e(1,2) len r(1) unfolding insert_sub_def Let_def of_int_of_nat_eq u s1_def [symmetric] by (simp add: s1 s2_def)
  moreover have "all_follow env ?ch s ?s"
    using e c(2) by (auto simp: all_follow_def s2_def s1_def insert_at_def)
  ultimately show ?thesis by blast
qed

lemma delete_sub_follows:
  assumes s: "edit_ready env s" and k: "k < length (subboards (es_areas s))" "k mod 32 \<noteq> 0"
  shows "\<exists>s'. delete_sub env (int k) s = Inr s' \<and> all_follow env (Delete k) s s'"
proof -
  let ?n = "length (subboards (es_areas s))" and ?ch = "Delete k :: subboardrec change"
  have r: "length (xsubs s) = ?n" "subboard_count (confs (es_areas s)) = ?n" "?n < 65535" "scan_room env" "scan_ready env s"
    "datadir (e_conf env) \<noteq> []" "\<forall>c \<in> set (subconfs (confs (es_areas s))). length (conf_name c) \<le> 60 \<and> conf_ok ?n c"
    "\<forall>x \<in> set (xsubs s). known_nets (net_networks env) x" "?n \<le> max_subs (e_conf env)"
    using s by (auto simp: edit_ready_def Let_def)
  have u: "unat (word_of_nat k :: u16) = k" using k(1) r(3) by (simp add: unat_place)
  obtain fs cs' where c: "conf_update env CONF_SUBS (word_of_nat k) None CONF_UPDATE_DELETE s
      = Inr (set_es_confs ((set_confs CONF_SUBS cs' (confs (es_areas s)))\<lparr>conf_disk := fs\<rparr>) s)"
    "list_all2 (conf_follows ?ch (subboards (es_areas s))) (subconfs (confs (es_areas s))) cs'"
    using conf_update_follows [where t = CONF_SUBS and ch = ?ch and as = "subboards (es_areas s)" and s = s and env = env] r k(1)
    by (auto simp: confs_of_def area_count_def)
  define s0 where "s0 = set_es_confs ((set_confs CONF_SUBS cs' (confs (es_areas s)))\<lparr>conf_disk := fs\<rparr>) s"
  define s1 where "s1 = leave_networks env k s0"
  have s1: "subboards (es_areas s1) = subboards (es_areas s)" "xsubs s1 = (xsubs s)[k := (xsubs s ! k)\<lparr>xs_nets := []\<rparr>]"
    "subconfs (confs (es_areas s1)) = cs'" "CurrentReadMessageArea s1 = CurrentReadMessageArea s" "scan_ready env s1 = scan_ready env s"
    "scan_record env s1 = scan_record env s"
    using k(1) r(1) by (simp_all add: s1_def s0_def leave_networks_def)
  define s2 where "s2 = (set_subs (erase_at k (subboards (es_areas s))) s1)\<lparr>xsubs := erase_at k (xsubs s1)\<rparr>"
  obtain m where m: "delete_masks k = Inr m" using k(2) by (simp add: delete_masks_eq)
  have len: "length (subboards (es_areas s2)) = ?n - 1" using k(1) by (simp add: s2_def erase_at_def min_def)
  have xs2: "xsubs s2 = erase_at k (xsubs s)" by (simp add: s2_def erase_at_def s1(2))
  have x: "\<forall>x \<in> set (xsubs s2). known_nets (net_networks env) x"
    using r(8) by (auto simp: xs2 erase_at_def dest: in_set_takeD in_set_dropD)
  have f: "\<exists>b'. delete_sub_scan (fst (sub_words env)) (snd (sub_words env)) k (?n - 1) m b = Inr b' \<and> length b' = 4 * qscn_words env + 1
      \<and> scan_follows env ?n ?ch (take (qscn_words env) b) (take (qscn_words env) b')" if "length b = 4 * qscn_words env + 1" for b
    by (rule delete_sub_scan_record [OF r(4) k r(9) m that]) simp
  have ready: "scan_ready env s2" using r(5) by (simp add: s2_def s1)
  obtain s3 s4 where e: "each_user env (4 * qscn_words env + 1) (delete_sub_scan (fst (sub_words env)) (snd (sub_words env)) k (?n - 1) m) s2 = Inr s3"
    "save_subs env s3 = Inr s4" "subboards (es_areas s4) = map wiped (subboards (es_areas s2))" "xsubs s4 = xsubs s2"
    "subconfs (confs (es_areas s4)) = subconfs (confs (es_areas s2))" "CurrentReadMessageArea s4 = CurrentReadMessageArea s2"
    "\<forall>u \<in> users env. scan_follows env ?n ?ch (scan_record env s2 u) (scan_record env s4 u)"
    using users_then_save [where R = "scan_follows env ?n ?ch", OF ready r(6) x _ f] by auto
  let ?s = "if CurrentReadMessageArea s4 = int k then s4\<lparr>CurrentReadMessageArea := - 1\<rparr>
    else if int k < CurrentReadMessageArea s4 then s4\<lparr>CurrentReadMessageArea := CurrentReadMessageArea s4 - 1\<rparr> else s4"
  have "delete_sub env (int k) s = Inr ?s"
    using k(1) c(1) m e(1,2) len r(1) unfolding delete_sub_def Let_def of_int_of_nat_eq u s0_def [symmetric] by (simp add: s1 s2_def flip: s1_def)
  moreover have "all_follow env ?ch s ?s"
    using e c(2) by (auto simp: all_follow_def xs2 s2_def s1 erase_at_def)
  ultimately show ?thesis by blast
qed

lemma swap_sub_follows:
  assumes s: "edit_ready env s" and k: "i < length (subboards (es_areas s))" "j < length (subboards (es_areas s))"
  shows "\<exists>s'. swap_subs env (int i) (int j) s = Inr s' \<and> all_follow env (Swap i j) s s'"
proof -
  let ?n = "length (subboards (es_areas s))" and ?ch = "Swap i j :: subboardrec change"
  have r: "length (xsubs s) = ?n" "subboard_count (confs (es_areas s)) = ?n" "?n < 65535" "scan_room env" "scan_ready env s"
    "datadir (e_conf env) \<noteq> []" "\<forall>c \<in> set (subconfs (confs (es_areas s))). length (conf_name c) \<le> 60 \<and> conf_ok ?n c"
    "\<forall>x \<in> set (xsubs s). known_nets (net_networks env) x" "?n \<le> max_subs (e_conf env)"
    using s by (auto simp: edit_ready_def Let_def)
  have u: "unat (word_of_nat i :: u16) = i" "unat (word_of_nat j :: u16) = j" using k r(3) by (simp_all add: unat_place)
  obtain fs cs' where c: "conf_update env CONF_SUBS (word_of_nat i) (Some (word_of_nat j)) CONF_UPDATE_SWAP s
      = Inr (set_es_confs ((set_confs CONF_SUBS cs' (confs (es_areas s)))\<lparr>conf_disk := fs\<rparr>) s)"
    "list_all2 (conf_follows ?ch (subboards (es_areas s))) (subconfs (confs (es_areas s))) cs'"
    using conf_update_follows [where t = CONF_SUBS and ch = ?ch and as = "subboards (es_areas s)" and s = s and env = env] r k
    by (auto simp: confs_of_def area_count_def)
  define s1 where "s1 = set_es_confs ((set_confs CONF_SUBS cs' (confs (es_areas s)))\<lparr>conf_disk := fs\<rparr>) s"
  have f: "\<exists>b'. swap_sub_scan (fst (sub_words env)) (snd (sub_words env)) i j b = Inr b' \<and> length b' = 4 * qscn_words env
      \<and> scan_follows env ?n ?ch (take (qscn_words env) b) (take (qscn_words env) b')" if "length b = 4 * qscn_words env" for b
    by (rule swap_sub_scan_record [OF r(4) k r(9) that]) simp
  have ready: "scan_ready env s1" using r(5) by (simp add: s1_def)
  obtain q fl where e: "each_user env (4 * qscn_words env) (swap_sub_scan (fst (sub_words env)) (snd (sub_words env)) i j) s1 = Inr (s1\<lparr>qsc := q, qscan_file := fl\<rparr>)"
    "\<forall>u \<in> users env. scan_follows env ?n ?ch (scan_record env s1 u) (scan_record env (s1\<lparr>qsc := q, qscan_file := fl\<rparr>) u)"
    using each_user_follows [where R = "scan_follows env ?n ?ch", OF ready _ f] by auto
  define s3 where "s3 = (set_subs (swap_at i j (subboards (es_areas s))) (s1\<lparr>qsc := q, qscan_file := fl\<rparr>))\<lparr>xsubs := swap_at i j (xsubs s)\<rparr>"
  have x: "\<forall>x \<in> set (xsubs s3). known_nets (net_networks env) x"
    using r(8) k r(1) by (auto simp: s3_def swap_at_def set_conv_nth nth_list_update)
  obtain fs' where w: "save_subs env s3 = Inr (set_es_disk fs' (set_subs (map wiped (subboards (es_areas s3))) s3))"
    using save_subs_saves [OF r(6) x] by blast
  let ?s = "set_es_disk fs' (set_subs (map wiped (subboards (es_areas s3))) s3)"
  have "swap_subs env (int i) (int j) s = Inr ?s"
    using k c(1) e(1) w r(1) unfolding swap_subs_def Let_def of_int_of_nat_eq u s1_def [symmetric] by (simp add: s3_def s1_def)
  moreover have "all_follow env ?ch s ?s"
    using e(2) c(2) by (auto simp: all_follow_def s3_def s1_def swap_at_def)
  ultimately show ?thesis by blast
qed

text \<open>The area of before that a number of before names after the change, if any. After an insertion or a deletion it is the
  same area, but an exchange does not touch the number, so it names the other area.\<close>

fun now_named :: "'a change \<Rightarrow> nat \<Rightarrow> nat option" where
  "now_named (Insert k x) c = Some c"
| "now_named (Delete k) c = (if c = k then None else Some c)"
| "now_named (Swap i j) c = Some (if c = i then j else if c = j then i else c)"

lemma current_names:
  assumes "possible ch (length as)" "c < length as"
  shows "case now_named ch c of None \<Rightarrow> current_after ch (int c) = - 1
    | Some a \<Rightarrow> \<exists>m. current_after ch (int c) = int m \<and> m < length (arrange ch as) \<and> arrange ch as ! m = as ! a"
proof (cases ch)
  case (Insert k x)
  then have "stays ch c" "now_named ch c = Some c" "current_after ch (int c) = int (new_number ch c)" by simp_all
  then show ?thesis using nth_new_number [OF assms] by auto
next
  case (Delete k)
  show ?thesis
  proof (cases "c = k")
    case False
    then have "stays ch c" "now_named ch c = Some c" "current_after ch (int c) = int (new_number ch c)" using Delete by auto
    then show ?thesis using nth_new_number [OF assms] by auto
  qed (simp add: Delete)
next
  case (Swap i j)
  then show ?thesis using assms by (auto simp: nth_list_update)
qed

lemma last_read_number:
  assumes "possible ch n" "c < n" "n < 65536" "c \<noteq> 999"
  shows "last_read_after ch (word_of_nat c) = (if current_after ch (int c) = - 1 then 999 else word_of_int (current_after ch (int c)))"
proof -
  have u: "unat (word_of_nat m :: u32) = m" if "m < 65536" for m using that by (simp add: unat_of_nat take_bit_nat_eq_self)
  have c: "(word_of_nat c :: u32) \<noteq> 999" using u [of c] assms(2-4) by (auto simp: word_unat_eq_iff)
  have order: "(word_of_nat k :: u32) \<le> word_of_nat c \<longleftrightarrow> k \<le> c" "(word_of_nat k :: u32) < word_of_nat c \<longleftrightarrow> k < c"
    "(word_of_nat c :: u32) = word_of_nat k \<longleftrightarrow> c = k" if "k \<le> n" for k
    using that assms(2,3) by (simp_all add: word_le_nat_alt word_less_nat_alt word_unat_eq_iff u)
  show ?thesis
  proof (cases ch)
    case (Insert k x)
    then show ?thesis using assms(1) c by (simp add: order)
  next
    case (Delete k)
    then show ?thesis using assms(1) c by (simp add: order)
  next
    case (Swap i j)
    then show ?thesis using c by simp
  qed
qed

text \<open>\<open>number_names s ch c s' gone num\<close>: the number \<open>c\<close> became \<open>m\<close> with \<open>num m\<close>, which names that area, or \<open>gone\<close>.\<close>

definition number_names :: "edit_session \<Rightarrow> subboardrec change \<Rightarrow> nat \<Rightarrow> edit_session \<Rightarrow> bool \<Rightarrow> (nat \<Rightarrow> bool) \<Rightarrow> bool" where
  "number_names s ch c s' gone num \<longleftrightarrow>
     (case now_named ch c of
        None \<Rightarrow> gone
      | Some a \<Rightarrow> \<exists>m < length (subboards (es_areas s')). num m \<and> subboards (es_areas s') ! m = wiped (subboards (es_areas s) ! a))"

definition numbers_name :: "edit_env \<Rightarrow> subboardrec change \<Rightarrow> edit_session \<Rightarrow> edit_session \<Rightarrow> bool" where
  "numbers_name env ch s s' \<longleftrightarrow>
     (\<forall>c < length (subboards (es_areas s)).
        (CurrentReadMessageArea s = int c \<longrightarrow> number_names s ch c s' (CurrentReadMessageArea s' = - 1) (\<lambda>m. CurrentReadMessageArea s' = int m))
      \<and> (\<forall>u \<in> users env. c \<noteq> 999 \<and> scan_record env s u ! 0 = word_of_nat c \<longrightarrow>
           number_names s ch c s' (scan_record env s' u ! 0 = 999) (\<lambda>m. scan_record env s' u ! 0 = word_of_nat m)))"

lemma all_follow_numbers:
  assumes f: "all_follow env ch s s'" and ch: "possible ch (length (subboards (es_areas s)))" "length (subboards (es_areas s)) < 65536"
  shows "numbers_name env ch s s'"
  unfolding numbers_name_def
proof (intro allI impI conjI ballI)
  fix c assume c: "c < length (subboards (es_areas s))"
  have subs: "subboards (es_areas s') = map wiped (arrange ch (subboards (es_areas s)))" using f by (simp add: all_follow_def)
  note names = current_names [OF ch(1) c]
  { assume "CurrentReadMessageArea s = int c"
    then have "CurrentReadMessageArea s' = current_after ch (int c)" using f by (simp add: all_follow_def)
    then show "number_names s ch c s' (CurrentReadMessageArea s' = - 1) (\<lambda>m. CurrentReadMessageArea s' = int m)"
      using names by (auto simp: number_names_def subs split: option.splits) }
  { fix u assume "u \<in> users env" and r: "c \<noteq> 999 \<and> scan_record env s u ! 0 = word_of_nat c"
    then have "scan_record env s' u ! 0 = last_read_after ch (word_of_nat c)"
      using f by (simp add: all_follow_def scan_follows_def Let_def)
    then have "scan_record env s' u ! 0 = (if current_after ch (int c) = - 1 then 999 else word_of_int (current_after ch (int c)))"
      using last_read_number [OF ch(1) c ch(2)] r by simp
    then show "number_names s ch c s' (scan_record env s' u ! 0 = 999) (\<lambda>m. scan_record env s' u ! 0 = word_of_nat m)"
      using names by (auto simp: number_names_def subs split: option.splits) }
qed

lemma subs_all_follow:
  assumes "edit_ready env s" "possible ch (length (subboards (es_areas s)))"
    "movable ch (length (subboards (es_areas s))) (max_subs (e_conf env))" "\<And>k x. ch = Insert k x \<Longrightarrow> x = new_sub"
  shows "\<exists>s'. change_subs env ch s = Inr s' \<and> all_follow env ch s s'"
proof (cases ch)
  case (Insert k x)
  then show ?thesis using insert_sub_follows [OF assms(1), of k] assms(2-4) by (auto simp: change_subs_def)
next
  case (Delete k)
  then show ?thesis using delete_sub_follows [OF assms(1), of k] assms(2,3) by (auto simp: change_subs_def)
next
  case (Swap i j)
  then show ?thesis using swap_sub_follows [OF assms(1), of i j] assms(2) by (auto simp: change_subs_def)
qed

text \<open>C6 What knows the message areas by number follows them, with one exception. When an area is inserted or deleted or
  two are exchanged, then for every user the flag and the last message read stay with their areas, whether the record is in
  the file or in memory; the networks stay with the areas; and every conference shows the areas that it showed. The number
  of the current area, and that of the area a user read last, names the same area after an insertion or a deletion, none when it
  was deleted; but after an exchange it is the number of before, so that it names the other of the two areas: this is the
  exception. (In a record, 999 is no area; an area that has this number is not followed.) It holds for the states described by
  \<open>edit_ready\<close> and the changes that are \<open>movable\<close>: a new area not at the edge of a word of flags, and room for its flag.\<close>

theorem subs_follow:
  assumes "edit_ready env s" "possible ch (length (subboards (es_areas s)))"
    "movable ch (length (subboards (es_areas s))) (max_subs (e_conf env))" "\<And>k x. ch = Insert k x \<Longrightarrow> x = new_sub"
  shows "\<exists>s'. change_subs env ch s = Inr s' \<and> all_follow env ch s s' \<and> numbers_name env ch s s'"
proof -
  obtain s' where s': "change_subs env ch s = Inr s'" "all_follow env ch s s'" using subs_all_follow [OF assms(1-3)] assms(4) by metis
  have "length (subboards (es_areas s)) < 65536" using assms(1) by (auto simp: edit_ready_def Let_def)
  with s' show ?thesis using all_follow_numbers [OF s'(2) assms(2)] by blast
qed

text \<open>C39 At the edge of a word of flags a shift by 32 is computed, which C++ leaves undefined: no area is inserted at a
  place of the form \<open>32 * i\<close> or \<open>32 * i + 31\<close>, so none before the first one, and none deleted at a place of the form \<open>32 * i\<close>,
  so never the first one, without it.
\<close>

theorem edit_at_edge_undefined:
  assumes "n < 65536"
  shows "(n \<le> length (subboards (es_areas s)) \<and> (n mod 32 = 0 \<or> n mod 32 = 31) \<longrightarrow> (\<forall>s'. insert_sub env (int n) s \<noteq> Inr s'))
    \<and> (n < length (subboards (es_areas s)) \<and> n mod 32 = 0 \<longrightarrow> (\<forall>s'. delete_sub env (int n) s \<noteq> Inr s'))"
proof -
  have u: "unat (word_of_nat n :: u16) = n" using assms by (simp add: unat_place)
  have "insert_sub env (int n) s \<noteq> Inr s'" if "n \<le> length (subboards (es_areas s))" "insert_masks n = Inl UndefinedBehaviour" for s'
    using that unfolding insert_sub_def Let_def of_int_of_nat_eq u by (auto simp: bind_res_def split: sum.splits)
  moreover have "delete_sub env (int n) s \<noteq> Inr s'" if "n < length (subboards (es_areas s))" "delete_masks n = Inl UndefinedBehaviour" for s'
    using that unfolding delete_sub_def Let_def of_int_of_nat_eq u by (auto simp: bind_res_def split: sum.splits)
  ultimately show ?thesis by (simp add: insert_masks_eq delete_masks_eq)
qed

text \<open>Two areas, of which the one user scans the first; a third one is inserted between them.\<close>

definition example_edit_env :: edit_env where
  "example_edit_env = \<lparr>e_conf = \<lparr>datadir = ''data/'', max_subs = 3, writable = (\<lambda>_. True)\<rparr>, max_dirs = 0, qscn_words = 5, maxusers = 1,
     guest_user = False, in_memory = (\<lambda>_. False), qscan_opens = True, subs_dat_opens = True, num_user_records = 1, net_networks = [],
     dloadsdir = ''dloads/'', drop_request = (\<lambda>_ fs. fs)\<rparr>"

definition example_edit :: edit_session where
  "example_edit = \<lparr>es_areas = \<lparr>confs = example_session\<lparr>subconfs := [zero_conf\<lparr>conf_num := 1, maxnum := 2, conf_subs := Some [1, 0]\<rparr>], subboard_count := 2\<rparr>,
       subboards = [new_sub, new_sub], directories = [], usub = [], udir = [], uconfsub = [], uconfdir = [], dc = [], tc = [], dcd = [], dtc = [],
       CurrentMessageArea = 0, CurrentFileArea = 0, CurrentConferenceMessageArea = 0, CurrentConferenceFileArea = 0,
       g_flags = 0, disable_conf_cnt = 0, saved_confs = (0, 0, 0, 0)\<rparr>,
     xsubs = [default_xsub, default_xsub], CurrentReadMessageArea = 1, qsc = [], qscan_file = enc_words [0, 0, 0, 0, 0] @ enc_words [1, 1, 7, 9, 0]\<rparr>"

lemma example_edit_ready: "edit_ready example_edit_env example_edit"
  by (simp add: edit_ready_def example_edit_env_def example_edit_def scan_room_def scan_ready_def sub_words_def qsc_q_def qsc_p_def
      zero_conf_def conf_ok_def areas_def known_default)

lemma example_record: "scan_record example_edit_env example_edit 1 = [1, 1, 7, 9, 0]"
  by (simp add: scan_record_def example_edit_env_def example_edit_def read_at_def)

theorem subs_follow_witness:
  "\<exists>s'. change_subs example_edit_env (Insert 1 new_sub) example_edit = Inr s'
    \<and> sub_scan 1 2 3 (scan_record example_edit_env s' 1) = [(True, 7), (True, 0), (False, 9)]
    \<and> scan_record example_edit_env s' 1 ! 0 = 2 \<and> CurrentReadMessageArea s' = 2
    \<and> numbers_name example_edit_env (Insert 1 new_sub) example_edit s'"
proof -
  have n: "length (subboards (es_areas example_edit)) = 2" "CurrentReadMessageArea example_edit = 1" by (simp_all add: example_edit_def)
  have u: "1 \<in> users example_edit_env" by (simp add: example_edit_env_def)
  have e: "max_subs (e_conf example_edit_env) = 3" "sub_words example_edit_env = (1, 2)"
    by (simp_all add: example_edit_env_def sub_words_def qsc_q_def qsc_p_def)
  obtain s' where s': "change_subs example_edit_env (Insert 1 new_sub) example_edit = Inr s'" "all_follow example_edit_env (Insert 1 new_sub) example_edit s'"
    "numbers_name example_edit_env (Insert 1 new_sub) example_edit s'"
    using subs_follow [OF example_edit_ready, of "Insert 1 new_sub"] by (auto simp: n e)
  have f: "scan_follows example_edit_env 2 (Insert 1 new_sub) [1, 1, 7, 9, 0] (scan_record example_edit_env s' 1)"
    using s'(2) u unfolding all_follow_def n example_record [symmetric] by blast
  have old: "sub_scan (Suc 0) 2 2 [1, 1, 7, 9, 0] = [(True, 7), (False, 9)]"
    by (simp add: sub_scan_def flag_def numeral_2_eq_2)
  show ?thesis
    using s' f by (intro exI [of _ s']) (simp add: scan_follows_def Let_def e old all_follow_def n numeral_3_eq_3)
qed

theorem edit_at_edge_undefined_witness:
  "(\<forall>s'. insert_sub example_edit_env 0 example_edit \<noteq> Inr s') \<and> (\<forall>s'. delete_sub example_edit_env 0 example_edit \<noteq> Inr s')"
  using edit_at_edge_undefined [of 0 example_edit example_edit_env] by (simp add: example_edit_def)

end
