(* ===== verification/Bbs_DirEdit_Follows.thy ===== *)
theory Bbs_DirEdit_Follows
  imports Bbs_SubEdit_Follows
begin

text \<open>
  The same for the file areas (\<open>bbs/diredit.cpp\<close>): of them a user has flags only. The flags of the message areas lie behind
  those of the file areas in the record and must not be touched.
\<close>

section \<open>The flags of a user\<close>

definition dir_scan_follows :: "edit_env \<Rightarrow> nat \<Rightarrow> 'a change \<Rightarrow> u32 list \<Rightarrow> u32 list \<Rightarrow> bool" where
  "dir_scan_follows env n ch r r' \<longleftrightarrow>
     (let new = map_change (\<lambda>_. True) ch
      in dir_scan (length (arrange new (replicate n True))) r' = arrange new (dir_scan n r)
         \<and> (\<forall>i. i = 0 \<or> qsc_q (max_dirs env) \<le> i \<longrightarrow> r' ! i = r ! i))"

lemma insert_bit_record:
  assumes k: "k \<le> n" "movable (Insert k (x :: 'a)) n (max_dirs env)" and m: "insert_masks k = Inr m"
    and b: "length b = words" "qsc_q (max_dirs env) < words"
  shows "\<exists>b'. insert_bit 1 k (n + 1) m b = Inr b' \<and> length b' = words \<and> dir_scan_follows env n (Insert k x) b b'"
proof -
  have n: "(n + 1) div 32 < (max_dirs env + 31) div 32" using k(2) by (intro word_room) auto
  then have l: "1 + (n + 1) div 32 < length b" using b by (simp add: qsc_q_def)
  obtain b' where b': "insert_bit 1 k (n + 1) m b = Inr b'" "same_outside (1 + k div 32) (1 + (n + 1) div 32) b b'"
    "\<forall>i < 32 * ((n + 1) div 32 + 1). flag 1 b' i = (if i < k then flag 1 b i else if i = k then True else flag 1 b (i - 1))"
    using insert_bit_flags [OF _ _ _ l m] k by auto
  have "dir_scan (n + 1) b' = arrange (Insert k True) (dir_scan n b)"
  proof (rule nth_equalityI)
    fix i assume "i < length (dir_scan (n + 1) b')"
    then have i: "i < n + 1" by (simp add: dir_scan_def)
    then have "i < 32 * ((n + 1) div 32 + 1)" by simp
    then show "dir_scan (n + 1) b' ! i = arrange (Insert k True) (dir_scan n b) ! i"
      using b'(3) i k(1) by (auto simp: dir_scan_def nth_append nth_Cons' min_def simp del: upt_Suc)
  qed (use k(1) in \<open>auto simp: dir_scan_def min_def\<close>)
  moreover have "length b' = words" "\<forall>i. i = 0 \<or> qsc_q (max_dirs env) \<le> i \<longrightarrow> b' ! i = b ! i"
    using b'(2) n b by (auto simp: same_outside_def qsc_q_def)
  ultimately show ?thesis using b'(1) k(1) by (auto simp: dir_scan_follows_def Let_def min_def)
qed

lemma delete_bit_record:
  assumes k: "k < n" "k mod 32 \<noteq> 0" "n \<le> max_dirs env" and m: "delete_masks k = Inr m"
    and b: "length b = words" "qsc_q (max_dirs env) < words"
  shows "\<exists>b'. delete_bit 1 k (n - 1) m b = Inr b' \<and> length b' = words \<and> dir_scan_follows env n (Delete k :: 'a change) b b'"
proof -
  have n: "(n - 1) div 32 < (max_dirs env + 31) div 32" using k by (intro word_room) auto
  then have l: "1 + (n - 1) div 32 + 1 < length b" using b by (simp add: qsc_q_def)
  have k1: "k \<le> n - 1" using k(1) by simp
  obtain b' where b': "delete_bit 1 k (n - 1) m b = Inr b'" "same_outside (1 + k div 32) (1 + (n - 1) div 32) b b'"
    "\<forall>i < 32 * ((n - 1) div 32 + 1). flag 1 b' i = (if i < k then flag 1 b i else flag 1 b (i + 1))"
    using delete_bit_flags [OF k1 k(2) l m] by blast
  have "dir_scan (n - 1) b' = arrange (Delete k) (dir_scan n b)"
  proof (rule nth_equalityI)
    fix i assume "i < length (dir_scan (n - 1) b')"
    then have i: "i < n - 1" by (simp add: dir_scan_def)
    also have "n - 1 < 32 * ((n - 1) div 32 + 1)" by simp
    finally have "i < 32 * ((n - 1) div 32 + 1)" .
    then show "dir_scan (n - 1) b' ! i = arrange (Delete k) (dir_scan n b) ! i"
      using b'(3) i k(1) by (auto simp: dir_scan_def nth_append min_def simp del: upt_Suc)
  qed (use k(1) in \<open>auto simp: dir_scan_def min_def simp del: upt_Suc\<close>)
  moreover have "length b' = words" "\<forall>i. i = 0 \<or> qsc_q (max_dirs env) \<le> i \<longrightarrow> b' ! i = b ! i"
    using b'(2) n b by (auto simp: same_outside_def qsc_q_def)
  ultimately show ?thesis using b'(1) k(1) by (auto simp: dir_scan_follows_def Let_def min_def)
qed

lemma swap_bits_record:
  assumes k: "i < n" "j < n" "n \<le> max_dirs env" and b: "length b = words" "qsc_q (max_dirs env) < words"
  shows "\<exists>b'. swap_bits 1 i j b = Inr b' \<and> length b' = words \<and> dir_scan_follows env n (Swap i j :: 'a change) b b'"
proof -
  have n: "(n - 1) div 32 < (max_dirs env + 31) div 32" using k by (intro word_room) auto
  have d: "i div 32 \<le> (n - 1) div 32" "j div 32 \<le> (n - 1) div 32" using k by (intro div_le_mono; simp)+
  have l: "1 + i div 32 < length b" "1 + j div 32 < length b" using n d b by (simp_all add: qsc_q_def)
  obtain b' where b': "swap_bits 1 i j b = Inr b'" "length b' = length b"
    "\<forall>x. x \<noteq> 1 + i div 32 \<and> x \<noteq> 1 + j div 32 \<longrightarrow> b' ! x = b ! x"
    "\<forall>x. flag 1 b' x = (if x = i then flag 1 b j else if x = j then flag 1 b i else flag 1 b x)"
    using swap_bits_flags [OF l] by blast
  have "dir_scan n b' = arrange (Swap i j) (dir_scan n b)"
    by (rule nth_equalityI) (use b'(4) k in \<open>auto simp: dir_scan_def nth_list_update\<close>)
  moreover have "b' ! x = b ! x" if "x = 0 \<or> qsc_q (max_dirs env) \<le> x" for x
  proof -
    have "x \<noteq> 1 + i div 32" "x \<noteq> 1 + j div 32" using that n d by (auto simp: qsc_q_def)
    then show ?thesis using b'(3) by blast
  qed
  ultimately show ?thesis using b'(1,2) b by (auto simp: dir_scan_follows_def Let_def)
qed

section \<open>Changing the areas\<close>

definition change_dirs :: "edit_env \<Rightarrow> directoryrec change \<Rightarrow> edit_session \<Rightarrow> cpp_error + edit_session" where
  "change_dirs env ch s =
     (case ch of Insert n _ \<Rightarrow> insert_dir env (int n) s | Delete n \<Rightarrow> delete_dir env (int n) s
      | Swap i j \<Rightarrow> swap_dirs env (int i) (int j) s)"

definition dir_edit_ready :: "edit_env \<Rightarrow> edit_session \<Rightarrow> bool" where
  "dir_edit_ready env s \<longleftrightarrow>
     (let n = length (directories (es_areas s))
      in directory_count (confs (es_areas s)) = n \<and> n \<le> max_dirs env \<and> max_dirs env < 65535
         \<and> qsc_q (max_dirs env) < qscn_words env \<and> scan_ready env s
         \<and> (\<forall>c \<in> set (dirconfs (confs (es_areas s))). length (conf_name c) \<le> 60 \<and> conf_ok n c))"

definition all_follow_dirs :: "edit_env \<Rightarrow> directoryrec change \<Rightarrow> edit_session \<Rightarrow> edit_session \<Rightarrow> bool" where
  "all_follow_dirs env ch s s' \<longleftrightarrow>
     directories (es_areas s') = arrange ch (directories (es_areas s))
     \<and> list_all2 (conf_follows ch (directories (es_areas s))) (dirconfs (confs (es_areas s))) (dirconfs (confs (es_areas s')))
     \<and> (\<forall>u \<in> users env. dir_scan_follows env (length (directories (es_areas s))) ch (scan_record env s u) (scan_record env s' u))"

lemma dirs_of_simps [simp]:
  "directories (es_areas (set_dirs rs s)) = rs" "directories (es_areas (set_es_confs c s)) = directories (es_areas s)"
  "dirconfs (confs (es_areas (set_dirs rs s))) = dirconfs (confs (es_areas s))" "dirconfs (set_confs CONF_DIRS cs c) = cs"
  "scan_ready env (set_dirs rs s) = scan_ready env s" "scan_record env (set_dirs rs s) = scan_record env s"
  by (simp_all add: set_dirs_def set_es_confs_def set_confs_def scan_ready_def scan_record_def fun_eq_iff)

text \<open>The part that the three operations share: the conferences, and then the records of the users.\<close>

lemma confs_then_users:
  assumes s: "dir_edit_ready env s" and ch: "possible ch (length (directories (es_areas s)))"
    and args: "update_args ch = (Some n1, n2, action)" and g: "g = id \<or> (\<exists>rs. g = set_dirs rs)"
    and f: "\<And>b. length b = qscn_words env \<Longrightarrow>
      \<exists>b'. f b = Inr b' \<and> length b' = qscn_words env \<and> dir_scan_follows env (length (directories (es_areas s))) ch b b'"
  shows "\<exists>s1 s2. conf_update env CONF_DIRS n1 n2 action s = Inr s1 \<and> directories (es_areas s1) = directories (es_areas s)
    \<and> each_user env (qscn_words env) f (g s1) = Inr s2 \<and> directories (es_areas s2) = directories (es_areas (g s1))
    \<and> list_all2 (conf_follows ch (directories (es_areas s))) (dirconfs (confs (es_areas s))) (dirconfs (confs (es_areas s2)))
    \<and> (\<forall>u \<in> users env. dir_scan_follows env (length (directories (es_areas s))) ch (scan_record env s u) (scan_record env s2 u))"
proof -
  let ?n = "length (directories (es_areas s))"
  let ?R = "dir_scan_follows env ?n ch"
  have r: "directory_count (confs (es_areas s)) = ?n" "?n < 65535" "scan_ready env s"
    "\<forall>c \<in> set (dirconfs (confs (es_areas s))). length (conf_name c) \<le> 60 \<and> conf_ok ?n c"
    using s by (auto simp: dir_edit_ready_def Let_def)
  obtain fs cs' where c: "conf_update env CONF_DIRS n1 n2 action s
      = Inr (set_es_confs ((set_confs CONF_DIRS cs' (confs (es_areas s)))\<lparr>conf_disk := fs\<rparr>) s)"
    "list_all2 (conf_follows ch (directories (es_areas s))) (dirconfs (confs (es_areas s))) cs'"
    using conf_update_follows [OF _ r(2) ch _ args, of CONF_DIRS s env] r by (auto simp: confs_of_def area_count_def)
  define s1 where "s1 = set_es_confs ((set_confs CONF_DIRS cs' (confs (es_areas s)))\<lparr>conf_disk := fs\<rparr>) s"
  have s1: "directories (es_areas s1) = directories (es_areas s)" "dirconfs (confs (es_areas (g s1))) = cs'" "scan_ready env (g s1)"
    "scan_record env (g s1) = scan_record env s"
    using g r(3) by (auto simp: s1_def)
  have f': "\<exists>b'. f b = Inr b' \<and> length b' = qscn_words env \<and> ?R (take (qscn_words env) b) (take (qscn_words env) b')"
    if "length b = qscn_words env" for b
    using f [OF that] that by auto
  obtain q fl where e: "each_user env (qscn_words env) f (g s1) = Inr ((g s1)\<lparr>qsc := q, qscan_file := fl\<rparr>)"
    "\<forall>u \<in> users env. ?R (scan_record env (g s1) u) (scan_record env ((g s1)\<lparr>qsc := q, qscan_file := fl\<rparr>) u)"
    using each_user_follows [where R = ?R, OF s1(3) order_refl f'] by auto
  show ?thesis
    using c(1) e c(2) s1 unfolding s1_def [symmetric]
    by (intro exI [of _ s1] exI [of _ "(g s1)\<lparr>qsc := q, qscan_file := fl\<rparr>"]) simp
qed

text \<open>C14 Everything follows the file areas, too: when one is inserted or deleted or two are exchanged, every user goes on
  scanning the same file areas and a new one, the rest of the record is not touched, in particular not the flags of the message
  areas behind it, and the conferences show the same areas. \<open>dir_edit_ready\<close> and \<open>movable\<close> say when.
\<close>

theorem dirs_follow:
  assumes s: "dir_edit_ready env s" and ch: "possible ch (length (directories (es_areas s)))"
    "movable ch (length (directories (es_areas s))) (max_dirs env)" "\<And>k x. ch = Insert k x \<Longrightarrow> x = new_dir env"
  shows "\<exists>s'. change_dirs env ch s = Inr s' \<and> all_follow_dirs env ch s s'"
proof -
  let ?n = "length (directories (es_areas s))"
  have r: "?n \<le> max_dirs env" "?n < 65535" "qsc_q (max_dirs env) < qscn_words env" using s by (auto simp: dir_edit_ready_def Let_def)
  note part = confs_then_users [OF s ch(1)]
  show ?thesis
  proof (cases ch)
    case (Insert k x)
    then have k: "k \<le> ?n" "movable (Insert k x) ?n (max_dirs env)" and x: "x = new_dir env" using ch by auto
    obtain m where m: "insert_masks k = Inr m" using k(2) by (simp add: insert_masks_eq)
    obtain s1 s2 where e: "conf_update env CONF_DIRS (word_of_nat k) None CONF_UPDATE_INSERT s = Inr s1"
      "directories (es_areas s1) = directories (es_areas s)"
      "each_user env (qscn_words env) (insert_bit 1 k (?n + 1) m) (set_dirs (arrange ch (directories (es_areas s))) s1) = Inr s2"
      "all_follow_dirs env ch s s2"
      using part [of "word_of_nat k" None CONF_UPDATE_INSERT "set_dirs (arrange ch (directories (es_areas s)))" "insert_bit 1 k (?n + 1) m"]
        insert_bit_record [OF k m _ r(3)] Insert by (auto simp: all_follow_dirs_def)
    have "insert_dir env (int k) s = Inr s2"
      using k(1) r(2) e(1-3) m x unfolding insert_dir_def Let_def of_int_of_nat_eq by (simp add: Insert insert_at_def unat_place)
    then show ?thesis using e(4) Insert by (auto simp: change_dirs_def)
  next
    case (Delete k)
    then have k: "k < ?n" "k mod 32 \<noteq> 0" using ch by auto
    obtain m where m: "delete_masks k = Inr m" using k(2) by (simp add: delete_masks_eq)
    obtain s1 s2 where e: "conf_update env CONF_DIRS (word_of_nat k) None CONF_UPDATE_DELETE s = Inr s1"
      "directories (es_areas s1) = directories (es_areas s)"
      "each_user env (qscn_words env) (delete_bit 1 k (?n - 1) m) (set_dirs (arrange ch (directories (es_areas s))) s1) = Inr s2"
      "all_follow_dirs env ch s s2"
      using part [of "word_of_nat k" None CONF_UPDATE_DELETE "set_dirs (arrange ch (directories (es_areas s)))" "delete_bit 1 k (?n - 1) m"]
        delete_bit_record [OF k r(1) m _ r(3)] Delete by (auto simp: all_follow_dirs_def)
    have "delete_dir env (int k) s = Inr s2"
      using k(1) r(2) e(1-3) m unfolding delete_dir_def Let_def of_int_of_nat_eq by (simp add: Delete erase_at_def unat_place min_def)
    then show ?thesis using e(4) Delete by (auto simp: change_dirs_def)
  next
    case (Swap i j)
    then have k: "i < ?n" "j < ?n" using ch by auto
    have a: "update_args ch = (Some (word_of_nat i), Some (word_of_nat j), CONF_UPDATE_SWAP)" using Swap by simp
    have f: "\<exists>b'. swap_bits 1 i j b = Inr b' \<and> length b' = qscn_words env \<and> dir_scan_follows env ?n ch b b'" if "length b = qscn_words env" for b
      unfolding Swap by (rule swap_bits_record [OF k r(1) that r(3)])
    obtain s1 s2 where e: "conf_update env CONF_DIRS (word_of_nat i) (Some (word_of_nat j)) CONF_UPDATE_SWAP s = Inr s1"
      "each_user env (qscn_words env) (swap_bits 1 i j) s1 = Inr s2" "directories (es_areas s2) = directories (es_areas s)"
      "all_follow_dirs env ch s (set_dirs (arrange ch (directories (es_areas s))) s2)"
      using part [OF a _ f, of id] Swap by (auto simp: all_follow_dirs_def)
    have "swap_dirs env (int i) (int j) s = Inr (set_dirs (arrange ch (directories (es_areas s))) s2)"
      using k r(2) e(1-3) unfolding swap_dirs_def Let_def of_int_of_nat_eq by (simp add: Swap swap_at_def unat_place)
    then show ?thesis using e(4) Swap by (auto simp: change_dirs_def)
  qed
qed

text \<open>Two file areas, of which the user scans the first one; a third one is inserted between them.\<close>

definition example_dir_env :: edit_env where
  "example_dir_env = example_edit_env\<lparr>max_dirs := 3\<rparr>"

definition example_dir_edit :: edit_session where
  "example_dir_edit = set_dirs [new_dir example_dir_env, new_dir example_dir_env] example_edit"

theorem dirs_follow_witness:
  "\<exists>s'. change_dirs example_dir_env (Insert 1 (new_dir example_dir_env)) example_dir_edit = Inr s'
    \<and> dir_scan 3 (scan_record example_dir_env s' 1) = [True, True, False] \<and> scan_record example_dir_env s' 1 ! 2 = 7"
proof -
  let ?ch = "Insert 1 (new_dir example_dir_env)" and ?r = "[1, 1, 7, 9, 0] :: u32 list"
  have ready: "dir_edit_ready example_dir_env example_dir_edit"
    by (simp add: dir_edit_ready_def example_dir_env_def example_dir_edit_def example_edit_env_def example_edit_def example_session_def set_dirs_def
        scan_ready_def qsc_q_def)
  have n: "length (directories (es_areas example_dir_edit)) = 2" "max_dirs example_dir_env = 3" "1 \<in> users example_dir_env"
    by (simp_all add: example_dir_edit_def example_dir_env_def example_edit_env_def)
  have r: "scan_record example_dir_env example_dir_edit 1 = ?r"
    by (simp add: scan_record_def example_dir_env_def example_dir_edit_def example_edit_env_def example_edit_def set_dirs_def read_at_def)
  obtain s' where s': "change_dirs example_dir_env ?ch example_dir_edit = Inr s'" "all_follow_dirs example_dir_env ?ch example_dir_edit s'"
    using dirs_follow [OF ready, of ?ch] by (auto simp: n)
  have "dir_scan_follows example_dir_env 2 ?ch ?r (scan_record example_dir_env s' 1)"
    using s'(2) n(3) unfolding all_follow_dirs_def n r [symmetric] by blast
  moreover have "dir_scan 2 ?r = [True, False]" by (simp add: dir_scan_def flag_def numeral_2_eq_2)
  ultimately show ?thesis
    using s'(1) by (intro exI [of _ s']) (simp add: dir_scan_follows_def Let_def n qsc_q_def numeral_3_eq_3)
qed

end
