(* ===== verification/Bbs_Status.thy ===== *)
theory Bbs_Status
  imports Core_File
begin

text \<open>
  \<open>bbs/status.cpp\<close> and \<open>bbs/wstatus.h\<close>: \<open>STATUS.DAT\<close>, by which the programs on one system tell each other what has
  changed. Its record is kept in memory as well; a counter that differs when the file is read again was changed by another
  program. The record is its 151 bytes, of which only the counters \<open>filechange\<close> are looked at here.

  The file is apart from the disk of the message areas. What other parts do when their counter has changed (reading the
  list of names again, forgetting the lists of the networks) is left out.
\<close>

section \<open>State\<close>

record status_mgr =
  status :: bytes
  status_file :: "bytes option"
  status_open :: bool
  subchg :: bool
  emchg :: bool
  mailcheck :: bool

definition STATUS_SIZE :: nat where
  "STATUS_SIZE = 151"

definition filechange :: "bytes \<Rightarrow> bytes" where
  "filechange s = read_at 62 7 s"

definition fileChangePosts :: nat where
  "fileChangePosts = 2"

definition fileChangeEmail :: nat where
  "fileChangeEmail = 3"

section \<open>Operations\<close>

text \<open>Whether the file can be opened, when it is there, is the first argument of each.\<close>

definition open_status :: "bool \<Rightarrow> status_mgr \<Rightarrow> status_mgr" where
  "open_status opens m = m\<lparr>status_open := status_open m \<or> opens \<and> status_file m \<noteq> None\<rparr>"

definition status_bytes :: "status_mgr \<Rightarrow> bytes" where
  "status_bytes m = (case status_file m of None \<Rightarrow> [] | Some c \<Rightarrow> c)"

definition Get :: "bool \<Rightarrow> bool \<Rightarrow> status_mgr \<Rightarrow> bool \<times> status_mgr" where
  "Get opens bLockFile m =
     (let m1 = open_status opens m
      in if \<not> status_open m1 then (False, m1)
         else let oldFileChangeFlags = filechange (status m1); b = read_at 0 STATUS_SIZE (status_bytes m1);
                  s = b @ drop (length b) (status m1); changed = (\<lambda>i. oldFileChangeFlags ! i \<noteq> filechange s ! i);
                  m2 = m1\<lparr>status := s, status_open := bLockFile\<rparr>;
                  m3 = (if changed fileChangePosts then m2\<lparr>subchg := True\<rparr> else m2)
              in (True, if changed fileChangeEmail then m3\<lparr>emchg := True, mailcheck := False\<rparr> else m3))"

definition RefreshStatusCache :: "bool \<Rightarrow> status_mgr \<Rightarrow> status_mgr" where
  "RefreshStatusCache opens m = snd (Get opens False m)"

definition BeginTransaction :: "bool \<Rightarrow> status_mgr \<Rightarrow> status_mgr" where
  "BeginTransaction opens m = snd (Get opens True m)"

text \<open>A counter is a byte, which wraps.\<close>

definition IncrementFileChangedFlag :: "nat \<Rightarrow> bytes \<Rightarrow> bytes" where
  "IncrementFileChangedFlag nFlag s = s[62 + nFlag := char_of (of_char (s ! (62 + nFlag)) + 1 :: nat)]"

definition CommitTransaction :: "bool \<Rightarrow> status_mgr \<Rightarrow> bool \<times> status_mgr" where
  "CommitTransaction opens m =
     (let m1 = open_status opens m
      in if \<not> status_open m1 then (False, m1)
         else (True, m1\<lparr>status_file := Some (overwrite (status_bytes m1) 0 (status m1)), status_open := False\<rparr>))"

text \<open>What is done when a message file has been changed.\<close>

definition posts_transaction :: "bool \<Rightarrow> status_mgr \<Rightarrow> status_mgr" where
  "posts_transaction opens m =
     (let m1 = BeginTransaction opens m
      in snd (CommitTransaction opens (m1\<lparr>status := IncrementFileChangedFlag fileChangePosts (status m1)\<rparr>)))"

section \<open>What they do\<close>

text \<open>The file is there with the contents \<open>c\<close>, and can be opened.\<close>

definition status_ready :: "bool \<Rightarrow> status_mgr \<Rightarrow> bytes \<Rightarrow> bool" where
  "status_ready opens m c \<longleftrightarrow> opens \<and> status_file m = Some c \<and> STATUS_SIZE \<le> length c \<and> length (status m) = STATUS_SIZE \<and> \<not> status_open m"

lemma Get_ready:
  assumes "status_ready opens m c"
  shows "status (snd (Get opens b m)) = take STATUS_SIZE c" "status_file (snd (Get opens b m)) = Some c" "status_open (snd (Get opens b m)) = b"
    "subchg (snd (Get opens b m)) \<longleftrightarrow> subchg m \<or> filechange (status m) ! fileChangePosts \<noteq> filechange (take STATUS_SIZE c) ! fileChangePosts"
  using assms by (auto simp: status_ready_def Get_def open_status_def status_bytes_def read_at_def Let_def)

lemma refresh_ready:
  assumes "status_ready opens m c"
  shows "status_ready opens (RefreshStatusCache opens m) c"
  using Get_ready(1-3) [OF assms, of False] assms by (simp add: RefreshStatusCache_def status_ready_def)

lemma posts_transaction_eq:
  assumes "status_ready opens m c"
  shows "status_ready opens (posts_transaction opens m) (IncrementFileChangedFlag fileChangePosts c)"
    "status (posts_transaction opens m) = take STATUS_SIZE (IncrementFileChangedFlag fileChangePosts c)"
    "subchg (posts_transaction opens m) = subchg (BeginTransaction opens m)"
proof -
  have c: "opens" "STATUS_SIZE \<le> length c" using assms by (simp_all add: status_ready_def)
  note g = Get_ready(1-3) [OF assms, of True, folded BeginTransaction_def]
  have e: "IncrementFileChangedFlag fileChangePosts (take STATUS_SIZE c) = take STATUS_SIZE (IncrementFileChangedFlag fileChangePosts c)"
    using c(2) by (simp add: IncrementFileChangedFlag_def fileChangePosts_def STATUS_SIZE_def take_update_swap)
  have "drop STATUS_SIZE (IncrementFileChangedFlag fileChangePosts c) = drop STATUS_SIZE c"
    by (simp add: IncrementFileChangedFlag_def fileChangePosts_def STATUS_SIZE_def)
  moreover have "length (take STATUS_SIZE (IncrementFileChangedFlag fileChangePosts c)) = STATUS_SIZE"
    using c(2) by (simp add: IncrementFileChangedFlag_def)
  ultimately have w: "overwrite c 0 (take STATUS_SIZE (IncrementFileChangedFlag fileChangePosts c)) = IncrementFileChangedFlag fileChangePosts c"
    unfolding overwrite_def by (metis add_0 append_Nil append_take_drop_id diff_0_eq_0 replicate_0 take_0)
  show "status_ready opens (posts_transaction opens m) (IncrementFileChangedFlag fileChangePosts c)"
    "status (posts_transaction opens m) = take STATUS_SIZE (IncrementFileChangedFlag fileChangePosts c)"
    "subchg (posts_transaction opens m) = subchg (BeginTransaction opens m)"
    using c g e w by (simp_all add: posts_transaction_def CommitTransaction_def open_status_def status_bytes_def Let_def status_ready_def
        IncrementFileChangedFlag_def)
qed

text \<open>A program that has counted the posts up itself does not take it for the change of another one.\<close>

lemma own_change_unnoticed:
  assumes "status_ready opens m c"
  shows "subchg (RefreshStatusCache opens (posts_transaction opens m)) = subchg (BeginTransaction opens m)"
  using Get_ready(4) [OF posts_transaction_eq(1) [OF assms], of False] posts_transaction_eq(2,3) [OF assms]
  by (simp add: RefreshStatusCache_def)

text \<open>Without the file only the copy in memory counts.\<close>

lemma posts_transaction_no_file:
  "status_file m = None \<Longrightarrow> \<not> status_open m \<Longrightarrow> posts_transaction opens m = m\<lparr>status := IncrementFileChangedFlag fileChangePosts (status m)\<rparr>"
  by (simp add: posts_transaction_def BeginTransaction_def Get_def open_status_def CommitTransaction_def)

text \<open>From \<open>m\<close> to \<open>m'\<close> the posts have been counted up \<open>n\<close> times, in the file if it is there.\<close>

definition posts_counted :: "bool \<Rightarrow> nat \<Rightarrow> status_mgr \<Rightarrow> status_mgr \<Rightarrow> bool" where
  "posts_counted opens n m m' \<longleftrightarrow>
     (\<forall>c. status_ready opens m c \<longrightarrow> status_ready opens m' ((IncrementFileChangedFlag fileChangePosts ^^ n) c))
   \<and> (status_file m = None \<and> \<not> status_open m \<longrightarrow> status_file m' = None \<and> \<not> status_open m')"

lemma posts_counted_none: "posts_counted opens 0 m m" "posts_counted opens 0 m (m\<lparr>subchg := b\<rparr>)"
  by (simp_all add: posts_counted_def status_ready_def)

lemma posts_counted_refresh: "posts_counted opens 0 m (RefreshStatusCache opens m)"
  using refresh_ready [of opens m] by (auto simp: posts_counted_def RefreshStatusCache_def Get_def open_status_def)

lemma posts_counted_transaction: "posts_counted opens 1 m (posts_transaction opens m)"
  using posts_transaction_eq(1) [of opens m] by (simp add: posts_counted_def posts_transaction_no_file)

lemma posts_counted_trans:
  assumes "posts_counted opens k m m1" "posts_counted opens n m1 m2"
  shows "posts_counted opens (n + k) m m2"
  using assms by (simp add: posts_counted_def funpow_add)

end
