(* ===== verification/Bbs_Message_File.thy ===== *)
theory Bbs_Message_File
  imports Msg_Area_Spec Core_Path Bbs_Status
begin

text \<open>
  \<open>bbs/message_file.cpp\<close>: the texts of messages as the interactive program stores them, in the same files as
  \<open>sdk/msgapi\<close> (\<open>Msg_Gat\<close>) but with its own code. The table of the current section and its number are global; a
  file is opened at the beginning of every operation and closed at its end. Opening it reads \<open>STATUS.DAT\<close> again, and writing
  the table counts the change of the posts up in it (\<open>Bbs_Status\<close>).

  A file that cannot be opened is \<open>Inl UndefinedBehaviour\<close>: the code goes on with a handle that is not open. So is
  the writing behind an array. \<open>None\<close> is a loop that does not end.
  The lemmas show that on a file in order the operations do what those of the \<open>sdk\<close> do, so the two programs can
  work on one file, and that they satisfy the contract \<open>text_store\<close>.
\<close>

section \<open>State\<close>

record text_env =
  msgsdir :: string
  dat_opens :: "string \<Rightarrow> bool"
  slack_memory :: bytes
  status_opens :: bool

record text_files =
  tx_disk :: disk
  tx_gat :: "u16 list"
  tx_section :: nat
  tx_status :: status_mgr

definition dat_path :: "text_env \<Rightarrow> string \<Rightarrow> string" where
  "dat_path env name = msgsdir env @ name @ ''.dat''"

section \<open>The table\<close>

definition new_dat_file :: wfile where
  "new_dat_file = File_SetLength (GAT_SECTION_SIZE + 76800) (File_Write (encode_gat (replicate GAT_NUMBER_ELEMENTS 0)) (opened []))"

text \<open>A file shorter than a table leaves the rest of the old table in memory.\<close>

definition OpenMessageFile :: "text_env \<Rightarrow> string \<Rightarrow> text_files \<Rightarrow> cpp_error + wfile \<times> text_files" where
  "OpenMessageFile env name st =
     (if \<not> dat_opens env (dat_path env name) then Inl UndefinedBehaviour
      else let (f, gat) = (case tx_disk st (dat_path env name) of
                             Some c \<Rightarrow> (opened c, tx_gat st)
                           | None \<Rightarrow> (new_dat_file, replicate GAT_NUMBER_ELEMENTS 0));
               (b, f1) = File_Read GAT_SECTION_SIZE (File_Seek 0 f)
           in Inr (f1, st\<lparr>tx_gat := decode_gat (b @ drop (length b) (encode_gat gat)), tx_section := 0,
                          tx_status := RefreshStatusCache (status_opens env) (tx_status st)\<rparr>))"

text \<open>The loading is that of \<open>load_gat\<close>, character for character.\<close>

definition set_gat_section :: "wfile \<Rightarrow> nat \<Rightarrow> u16 list \<times> nat \<Rightarrow> (u16 list \<times> nat) \<times> wfile" where
  "set_gat_section f section g =
     (if snd g = section then (g, f) else (let (gat, f1) = load_gat f section in ((gat, section), f1)))"

definition close_file :: "text_env \<Rightarrow> string \<Rightarrow> u16 list \<times> nat \<Rightarrow> wfile \<Rightarrow> text_files \<Rightarrow> text_files" where
  "close_file env name g f st =
     st\<lparr>tx_disk := (tx_disk st)(dat_path env name \<mapsto> contents f), tx_gat := fst g, tx_section := snd g\<rparr>"

text \<open>The transaction at the end of \<open>save_gat\<close>.\<close>

definition note_posts :: "text_env \<Rightarrow> text_files \<Rightarrow> text_files" where
  "note_posts env st = st\<lparr>tx_status := posts_transaction (status_opens env) (tx_status st)\<rparr>"

section \<open>Removing, saving and reading a text\<close>

definition bbs_remove_link :: "text_env \<Rightarrow> messagerec \<Rightarrow> string \<Rightarrow> text_files \<Rightarrow> cpp_error + text_files" where
  "bbs_remove_link env msg name st =
     (if storage_type msg \<noteq> 2 then Inr st
      else bind_res (OpenMessageFile env name st) (\<lambda>(f, st1).
        let (g, f1) = set_gat_section f (unat (stored_as msg) div GAT_NUMBER_ELEMENTS) (tx_gat st1, tx_section st1);
            gat = remove_link_loop (fst g) (unat (stored_as msg) mod GAT_NUMBER_ELEMENTS)
        in Inr (note_posts env (close_file env name (gat, snd g) (save_gat f1 (snd g) gat) st1))))"

text \<open>\<open>gati\<close> is an array of 128 elements; \<open>g0\<close> is what its first one holds, if anything was stored there. The truth
  value returned says that the text was written and with it the table.\<close>

function save_sections ::
  "nat \<Rightarrow> bytes \<Rightarrow> nat \<Rightarrow> wfile \<Rightarrow> u16 list \<times> nat \<Rightarrow> int option \<Rightarrow> cpp_error + int option \<times> bool \<times> wfile \<times> u16 list \<times> nat" where
  "save_sections text_length mem section f g g0 =
     (if section < 1024
      then (let (g1, f1) = set_gat_section f section g;
                nNumBlocksRequired = (text_length + 511) div MSG_BLOCK_SIZE;
                gati = savefile_scan (fst g1) nNumBlocksRequired 1 []
            in if 128 < length gati \<or> length gati = 128 \<and> nNumBlocksRequired \<le> 128 then Inl UndefinedBehaviour
               else if nNumBlocksRequired \<le> length gati
               then (let (gat2, f2) = savefile_blocks (snd g1) mem (gati @ [- 1]) [0..<nNumBlocksRequired] (fst g1) f1
                     in Inr (Some (if gati = [] then - 1 else int (unat (hd gati))), True, save_gat f2 (snd g1) gat2, gat2, snd g1))
               else save_sections text_length mem (Suc section) f1 g1 (if gati = [] then g0 else Some (int (unat (hd gati)))))
      else Inr (g0, False, f, g))"
  by pat_completeness auto
termination
  by (relation "measure (\<lambda>(n, mem, section, f, g, g0). 1024 - section)") auto

declare save_sections.simps [simp del]

definition bbs_savefile :: "text_env \<Rightarrow> string \<Rightarrow> messagerec \<Rightarrow> string \<Rightarrow> text_files \<Rightarrow> cpp_error + messagerec \<times> text_files" where
  "bbs_savefile env txt msg name st =
     (if storage_type msg \<noteq> 2 then Inr (msg, st)
      else bind_res (OpenMessageFile env name st) (\<lambda>(f, st1).
           bind_res (save_sections (length txt) (txt @ NUL # slack_memory env) 0 f (tx_gat st1, tx_section st1) None) (\<lambda>(g0, saved, f1, g).
           case g0 of
             None \<Rightarrow> Inl UndefinedBehaviour
           | Some first \<Rightarrow> Inr (msg\<lparr>stored_as := word_of_int (first + int (snd g) * int GAT_NUMBER_ELEMENTS)\<rparr>,
                               let st2 = close_file env name g f1 st1 in if saved then note_posts env st2 else st2))))"

partial_function (option) message_length :: "u16 list \<Rightarrow> nat \<Rightarrow> nat \<Rightarrow> nat option" where
  "message_length gat cur n =
     (if 0 < cur \<and> cur < GAT_NUMBER_ELEMENTS then message_length gat (unat (gat ! cur)) (n + MSG_BLOCK_SIZE) else Some n)"

definition bbs_readfile :: "text_env \<Rightarrow> messagerec \<Rightarrow> string \<Rightarrow> text_files \<Rightarrow> (cpp_error + bool \<times> string \<times> text_files) option" where
  "bbs_readfile env msg name st =
     (if storage_type msg \<noteq> 2 then Some (Inr (False, [], st))
      else case OpenMessageFile env name st of
             Inl e \<Rightarrow> Some (Inl e)
           | Inr (f, st1) \<Rightarrow>
               (let (g, f1) = set_gat_section f (unat (stored_as msg) div GAT_NUMBER_ELEMENTS) (tx_gat st1, tx_section st1);
                    cur = unat (stored_as msg) mod GAT_NUMBER_ELEMENTS; st2 = close_file env name g f1 st1
                in case message_length (fst g) cur 0 of
                     None \<Rightarrow> None
                   | Some n \<Rightarrow>
                       if n = 0 then Some (Inr (False, [], st2))
                       else map_option (map_sum id (\<lambda>out. (True, cz_trim out, st2))) (readfile_loop (snd g) (fst g) cur f1 [])))"

section \<open>Adding a line\<close>

partial_function (option) last_block :: "u16 list \<Rightarrow> nat \<Rightarrow> (cpp_error + nat) option" where
  "last_block gat i =
     (if GAT_NUMBER_ELEMENTS \<le> i then Some (Inl UndefinedBehaviour)
      else if gat ! i = - 1 then Some (Inr i)
      else last_block gat (unat (gat ! i)))"

fun first_free :: "u16 list \<Rightarrow> nat list \<Rightarrow> nat" where
  "first_free gat [] = GAT_NUMBER_ELEMENTS"
| "first_free gat (i # is) = (if gat ! i = 0 then i else first_free gat is)"

text \<open>\<open>b\<close> is a block of 2049 bytes, all of them 0 before the reading.\<close>

definition line_in_block :: "bytes \<Rightarrow> string \<Rightarrow> cpp_error + nat \<times> bytes" where
  "line_in_block b line =
     (let j = length (takeWhile (\<lambda>c. c \<noteq> CZ) (take MSG_BLOCK_SIZE b)); s = c_str line @ [NUL]
      in if length b < j + length s then Inl UndefinedBehaviour else Inr (j, take j b @ s @ drop (j + length s) b))"

definition lineadd :: "text_env \<Rightarrow> messagerec \<Rightarrow> string \<Rightarrow> string \<Rightarrow> text_files \<Rightarrow> (cpp_error + text_files) option" where
  "lineadd env msg sx name st =
     (let line = c_str sx @ [CHR 0x0D, CHR 0x0A, CZ]
      in if storage_type msg \<noteq> 2 then Some (Inr st)
         else case OpenMessageFile env name st of
                Inl e \<Rightarrow> Some (Inl e)
              | Inr (f, st1) \<Rightarrow>
                  (let (g, f1) = set_gat_section f (unat (stored_as msg) div GAT_NUMBER_ELEMENTS) (tx_gat st1, tx_section st1);
                       gat = fst g; pos = (\<lambda>i. MSG_STARTING (snd g) + MSG_BLOCK_SIZE * i);
                       new1 = first_free gat [1..<GAT_NUMBER_ELEMENTS]
                   in case last_block gat (unat (stored_as msg) mod GAT_NUMBER_ELEMENTS) of
                        None \<Rightarrow> None
                      | Some (Inl e) \<Rightarrow> Some (Inl e)
                      | Some (Inr i) \<Rightarrow>
                          (let (d, f2) = File_Read MSG_BLOCK_SIZE (File_Seek (pos i) f1)
                           in Some (bind_res (line_in_block (d @ replicate (GAT_NUMBER_ELEMENTS + 1 - length d) NUL) line) (\<lambda>(j, b).
                              let f3 = File_Write (take MSG_BLOCK_SIZE b) (File_Seek (pos i) f2)
                              in if MSG_BLOCK_SIZE < j + length line \<and> new1 \<noteq> GAT_NUMBER_ELEMENTS
                                 then let f4 = File_Write (take MSG_BLOCK_SIZE (drop MSG_BLOCK_SIZE b)) (File_Seek (pos new1) f3);
                                          gat1 = (gat[new1 := - 1])[i := word_of_nat new1]
                                      in Inr (note_posts env (close_file env name (gat1, snd g) (save_gat f4 (snd g) gat1) st1))
                                 else Inr (close_file env name g f3 st1))))))"

end
