(* ===== verification/Bbs_Message_Store.thy ===== *)
theory Bbs_Message_Store
  imports Bbs_Message_File
begin

text \<open>
  The two programs that share the message files agree: on a file that begins with a whole table the operations of
  \<open>Bbs_Message_File\<close> return and store what those of \<open>Msg_Gat\<close> do. So they satisfy the same contract \<open>text_store\<close>,
  as long as no text takes more than the 127 blocks that the array of \<open>savefile\<close> has room for.
\<close>

section \<open>The table in memory\<close>

text \<open>What is in memory is what stands in the file.\<close>

definition table_of :: "wfile \<Rightarrow> u16 list \<times> nat \<Rightarrow> bool" where
  "table_of f g \<longleftrightarrow> whole (contents f) \<and> fst g = gat_of (contents f) (snd g) \<and> snd g * GATSECLEN + GAT_SECTION_SIZE \<le> length (contents f)"

lemma load_gat_contents:
  assumes "contents f = contents f0"
  shows "fst (load_gat f sec) = fst (load_gat f0 sec)" "contents (snd (load_gat f sec)) = contents (snd (load_gat f0 sec))"
proof -
  have s: "contents (if File_GetLength f < p then File_SetLength p f else f) = contents (if File_GetLength f0 < p then File_SetLength p f0 else f0)" for p
    using assms by (simp add: File_GetLength_def File_SetLength_def)
  show "fst (load_gat f sec) = fst (load_gat f0 sec)" "contents (snd (load_gat f sec)) = contents (snd (load_gat f0 sec))"
    using s [of "sec * GATSECLEN"] assms unfolding load_gat_def Let_def
    by (auto simp: File_GetLength_def case_prod_unfold File_Read_Seek contents_File_Write_Seek split: if_splits)
qed

lemma same_bytes: "byte_at c = byte_at c' \<Longrightarrow> length c = length c' \<Longrightarrow> c = c'"
  by (rule nth_equalityI) (auto simp: byte_at_def fun_eq_iff, metis)

lemma load_gat_loaded:
  assumes "whole (contents f)" "sec * GATSECLEN + GAT_SECTION_SIZE \<le> length (contents f)"
  shows "contents (snd (load_gat f sec)) = contents f"
  by (rule same_bytes) (use load_gat_eq(2,3) [OF assms(1), of sec] assms(2) in \<open>simp_all add: max_def\<close>)

lemma set_gat_section_loads:
  assumes g: "table_of f g" and f: "contents f = contents f0" and r: "set_gat_section f sc g = (g1, f1)"
  shows "g1 = (fst (load_gat f0 sc), sc)" "contents f1 = contents (snd (load_gat f0 sc))" "table_of f1 g1"
proof -
  have w: "whole (contents f)" using g by (simp add: table_of_def)
  have "g1 = (fst (load_gat f sc), sc) \<and> contents f1 = contents (snd (load_gat f sc))"
  proof (cases "snd g = sc")
    case True
    have "fst (load_gat f sc) = fst g" using load_gat_eq(1) [OF w, of sc] g True by (simp add: table_of_def)
    moreover have "contents (snd (load_gat f sc)) = contents f"
      using load_gat_loaded [OF w, of sc] g True by (simp add: table_of_def)
    ultimately show ?thesis using r True by (auto simp: set_gat_section_def prod_eq_iff)
  next
    case False
    then show ?thesis using r by (auto simp: set_gat_section_def split: prod.splits)
  qed
  then show a: "g1 = (fst (load_gat f0 sc), sc)" and b: "contents f1 = contents (snd (load_gat f0 sc))"
    using load_gat_contents [OF f, of sc] by simp_all
  have w0: "whole (contents f0)" using w f by simp
  show "table_of f1 g1"
    unfolding table_of_def a b fst_conv snd_conv
    using load_gat_whole [OF w0, of sc] load_gat_eq [OF w0, of sc] gat_of_cong [OF load_gat_eq(2) [OF w0, of sc]] by simp
qed

section \<open>Saving\<close>

lemma savefile_blocks_contents:
  assumes "contents f = contents f0"
  shows "fst (savefile_blocks sec mem gati is gat f) = fst (savefile_blocks sec mem gati is gat f0)
    \<and> contents (snd (savefile_blocks sec mem gati is gat f)) = contents (snd (savefile_blocks sec mem gati is gat f0))"
  using assms
proof (induction "is" arbitrary: gat f f0)
  case (Cons i "is")
  then show ?case unfolding savefile_blocks.simps by (intro Cons.IH) (simp add: contents_File_Write_Seek)
qed simp

lemma save_gat_same: "contents f = contents f0 \<Longrightarrow> contents (save_gat f sec gat) = contents (save_gat f0 sec gat)"
  by (simp add: save_gat_def contents_File_Write_Seek)

lemma length_savefile_blocks [simp]: "length (fst (savefile_blocks sec mem gati is gat f)) = length gat"
  by (induction "is" arbitrary: gat f) simp_all

text \<open>Both searches end in the same section with the same blocks.\<close>

lemma save_sections_same:
  assumes f: "table_of f g" "contents f = contents f0" and s: "sec \<le> s" "s < 1024"
    and room: "blocks_for n \<le> length (free_blocks (gat_of (contents f) s))" and n: "0 < n" "blocks_for n < 128"
  shows "\<exists>sec' first rest f' f0' gat'. savefile_sections n mem f0 sec gati = (sec', word_of_nat first # rest, f0') \<and> first < GAT_NUMBER_ELEMENTS
    \<and> save_sections n mem sec f g g0 = Inr (Some (int first), True, f', gat', sec') \<and> contents f' = contents f0'
    \<and> length gat' = GAT_NUMBER_ELEMENTS"
  using f s room
proof (induction "s - sec" arbitrary: sec f f0 g gati g0 rule: less_induct)
  case less
  obtain g1 f1 where st: "set_gat_section f sec g = (g1, f1)" by (cases "set_gat_section f sec g")
  note S = set_gat_section_loads [OF less.prems(1,2) st]
  obtain gat f01 where lg: "load_gat f0 sec = (gat, f01)" by (cases "load_gat f0 sec")
  have g1: "g1 = (gat, sec)" "contents f1 = contents f01" using S(1,2) by (simp_all add: lg)
  have w: "whole (contents f0)" using less.prems(1,2) by (simp add: table_of_def)
  have gat: "gat = gat_of (contents f) sec" "byte_at (contents f1) = byte_at (contents f)"
    using load_gat_eq(1,2) [OF w, of sec] S(2) by (simp_all add: lg less.prems(2))
  have sec: "sec < 1024" using less.prems by simp
  define xs where "xs = take (blocks_for n) (free_blocks gat)"
  have scan: "savefile_scan gat ((n + 511) div MSG_BLOCK_SIZE) 1 [] = map word_of_nat xs"
    unfolding savefile_scan_free xs_def blocks_for_def ..
  have len: "length xs < 128" using n(2) by (simp add: xs_def)
  show ?case
  proof (cases "blocks_for n \<le> length xs")
    case True
    have "0 < length xs" using True n(1) blocks_for_pos [of n] by linarith
    then obtain x xs' where x: "xs = x # xs'" by (cases xs) auto
    have first: "x < GAT_NUMBER_ELEMENTS" "unat (word_of_nat x :: u16) = x"
      using in_set_takeD [of x "blocks_for n" "free_blocks gat"] x set_free_blocks [of x gat] unat_block_number [of x] by (auto simp: xs_def)
    have need: "(n + 511) div MSG_BLOCK_SIZE \<le> length xs" using True by (simp add: blocks_for_def)
    let ?r = "savefile_blocks sec mem (map word_of_nat xs @ [- 1]) [0..<(n + 511) div MSG_BLOCK_SIZE] gat"
    have b: "fst (?r f1) = fst (?r f01)" "contents (snd (?r f1)) = contents (snd (?r f01))"
      using savefile_blocks_contents [OF g1(2)] by blast+
    have sdk: "savefile_sections n mem f0 sec gati = (sec, map word_of_nat xs @ [- 1], save_gat (snd (?r f01)) sec (fst (?r f01)))"
      using sec need scan lg by (subst savefile_sections.simps) (simp add: case_prod_unfold Let_def)
    have bbs: "save_sections n mem sec f g g0 = Inr (Some (int x), True, save_gat (snd (?r f1)) sec (fst (?r f1)), fst (?r f1), sec)"
      using sec need scan len st g1(1) x first(2) by (subst save_sections.simps) (simp add: case_prod_unfold Let_def)
    have "length gat = GAT_NUMBER_ELEMENTS" by (simp add: gat(1))
    then show ?thesis using sdk bbs b first(1) x save_gat_same [OF b(2), of sec] by auto
  next
    case False
    then have "sec \<noteq> s" using less.prems(5) gat(1) by (auto simp: xs_def)
    then have lt: "Suc sec \<le> s" "s - Suc sec < s - sec" using less.prems(3) by simp_all
    have need: "\<not> (n + 511) div MSG_BLOCK_SIZE \<le> length xs" using False by (simp add: blocks_for_def)
    have sdk: "savefile_sections n mem f0 sec gati = savefile_sections n mem f01 (Suc sec) (map word_of_nat xs)"
      using sec need scan lg by (subst savefile_sections.simps) (simp add: Let_def)
    have bbs: "save_sections n mem sec f g g0
        = save_sections n mem (Suc sec) f1 g1 (if xs = [] then g0 else Some (int (unat (hd (map word_of_nat xs :: u16 list)))))"
      using sec need scan len st g1(1) by (subst save_sections.simps) (simp add: Let_def)
    have "blocks_for n \<le> length (free_blocks (gat_of (contents f1) s))" using less.prems(5) gat_of_cong [OF gat(2), of s] by simp
    from less.hyps [OF lt(2) S(3) g1(2) lt(1) less.prems(4) this] show ?thesis unfolding sdk bbs by blast
  qed
qed

section \<open>The operations\<close>

text \<open>A file as the programs leave it, which begins with a whole table; the table in memory has its fixed length.\<close>

definition dat_file_is :: "text_env \<Rightarrow> string \<Rightarrow> text_files \<Rightarrow> bytes \<Rightarrow> bool" where
  "dat_file_is env name st c \<longleftrightarrow> dat_opens env (dat_path env name) \<and> tx_disk st (dat_path env name) = Some c
     \<and> whole c \<and> GAT_SECTION_SIZE \<le> length c \<and> length (tx_gat st) = GAT_NUMBER_ELEMENTS"

lemma open_dat_file:
  assumes "dat_file_is env name st c"
  shows "\<exists>f st1. OpenMessageFile env name st = Inr (f, st1) \<and> contents f = c \<and> table_of f (tx_gat st1, tx_section st1)
    \<and> tx_disk st1 = tx_disk st \<and> tx_status st1 = RefreshStatusCache (status_opens env) (tx_status st)"
proof -
  have c: "dat_opens env (dat_path env name)" "tx_disk st (dat_path env name) = Some c" "whole c" "GAT_SECTION_SIZE \<le> length c"
    "length (tx_gat st) = GAT_NUMBER_ELEMENTS"
    using assms by (simp_all add: dat_file_is_def)
  let ?r = "File_Read GAT_SECTION_SIZE (File_Seek 0 (opened c))"
  have b: "fst ?r = vread 0 GAT_SECTION_SIZE c" using c(4) by (simp add: File_Read_Seek read_at_eq_vread)
  have "OpenMessageFile env name st = Inr (snd ?r, st\<lparr>tx_gat := gat_of c 0, tx_section := 0,
      tx_status := RefreshStatusCache (status_opens env) (tx_status st)\<rparr>)"
    using c(1,2,5) b by (simp add: OpenMessageFile_def case_prod_unfold Let_def gat_of_def)
  then show ?thesis using c(3,4) by (simp add: table_of_def)
qed

lemma open_new_dat_file:
  assumes "dat_opens env (dat_path env name)" "tx_disk st (dat_path env name) = None"
  shows "\<exists>f st1. OpenMessageFile env name st = Inr (f, st1) \<and> contents f = replicate 80896 NUL
    \<and> table_of f (tx_gat st1, tx_section st1) \<and> tx_disk st1 = tx_disk st
    \<and> tx_status st1 = RefreshStatusCache (status_opens env) (tx_status st)"
proof -
  let ?c = "replicate 80896 NUL"
  have enc: "encode_gat (replicate GAT_NUMBER_ELEMENTS 0) = replicate GAT_SECTION_SIZE NUL"
    using encode_gat_zeros [of GAT_NUMBER_ELEMENTS] by simp
  have new: "contents new_dat_file = ?c"
    by (simp add: new_dat_file_def enc File_Write_def File_SetLength_def opened_def flip: replicate_add)
  let ?r = "File_Read GAT_SECTION_SIZE (File_Seek 0 new_dat_file)"
  have b: "fst ?r = vread 0 GAT_SECTION_SIZE ?c" by (simp add: File_Read_Seek read_at_eq_vread new)
  have "whole ?c" by (rule whole_GAT_end [of _ 0 150]) simp_all
  moreover have "OpenMessageFile env name st = Inr (snd ?r, st\<lparr>tx_gat := gat_of ?c 0, tx_section := 0,
      tx_status := RefreshStatusCache (status_opens env) (tx_status st)\<rparr>)"
    using assms b by (simp add: OpenMessageFile_def case_prod_unfold Let_def gat_of_def)
  ultimately show ?thesis using new by (simp add: table_of_def)
qed

text \<open>The operations of both programs, on a file that is opened with the contents \<open>c\<close>.\<close>

definition opens_as :: "text_env \<Rightarrow> string \<Rightarrow> text_files \<Rightarrow> bytes \<Rightarrow> bool" where
  "opens_as env name st c \<longleftrightarrow> (\<exists>f st1. OpenMessageFile env name st = Inr (f, st1) \<and> contents f = c
     \<and> table_of f (tx_gat st1, tx_section st1) \<and> tx_disk st1 = tx_disk st
     \<and> tx_status st1 = RefreshStatusCache (status_opens env) (tx_status st))"

definition stored :: "text_env \<Rightarrow> string \<Rightarrow> bytes \<Rightarrow> text_files \<Rightarrow> text_files \<Rightarrow> bool" where
  "stored env name c st st' \<longleftrightarrow> tx_disk st' = (tx_disk st)(dat_path env name \<mapsto> c) \<and> length (tx_gat st') = GAT_NUMBER_ELEMENTS"

lemma stored_close: "tx_disk st1 = tx_disk st \<Longrightarrow> length (fst g) = GAT_NUMBER_ELEMENTS \<Longrightarrow> stored env name (contents f) st (close_file env name g f st1)"
  by (simp add: stored_def close_file_def)

lemma stored_note_posts [simp]: "stored env name c st (note_posts env' st') = stored env name c st st'"
  "tx_status (note_posts env st') = posts_transaction (status_opens env) (tx_status st')" "tx_status (close_file env name g f st') = tx_status st'"
  by (simp_all add: stored_def note_posts_def close_file_def)

lemma bbs_savefile_same:
  assumes o: "opens_as env name st c" and m: "storage_type msg = 2" and t: "t \<noteq> []" "blocks_for (length t) < 128" "has_room c (length t)"
  shows "\<exists>m f' st'. savefile t (slack_memory env) msg (Some (opened c)) = Inr (m, f') \<and> bbs_savefile env t msg name st = Inr (m, st')
    \<and> stored env name (contents f') st st'
    \<and> tx_status st' = posts_transaction (status_opens env) (RefreshStatusCache (status_opens env) (tx_status st))"
proof -
  obtain f st1 where f: "OpenMessageFile env name st = Inr (f, st1)" "contents f = c" "table_of f (tx_gat st1, tx_section st1)" "tx_disk st1 = tx_disk st"
    and status: "tx_status st1 = RefreshStatusCache (status_opens env) (tx_status st)"
    using o unfolding opens_as_def by blast
  obtain s where s: "s < 1024" "blocks_for (length t) \<le> length (free_blocks (gat_of (contents f) s))"
    using t(3) f(2) by (auto simp: has_room_def)
  let ?mem = "t @ NUL # slack_memory env"
  have cf: "contents f = contents (opened c)" using f(2) by simp
  have n: "0 < length t" using t(1) by simp
  obtain sec first rest f' f0' gat' where
    sdk: "savefile_sections (length t) ?mem (opened c) 0 [] = (sec, word_of_nat first # rest, f0')"
    and first: "first < GAT_NUMBER_ELEMENTS"
    and bbs: "save_sections (length t) ?mem 0 f (tx_gat st1, tx_section st1) None = Inr (Some (int first), True, f', gat', sec)"
    and same: "contents f' = contents f0'" "length gat' = GAT_NUMBER_ELEMENTS"
    using save_sections_same [OF f(3) cf _ s(1) s(2) n t(2), of 0 ?mem "[]" None] by auto
  have "word_of_int (int first + int sec * int GAT_NUMBER_ELEMENTS) = (word_of_nat first + word_of_nat sec * word_of_nat GAT_NUMBER_ELEMENTS :: u32)"
    by simp
  then have "savefile t (slack_memory env) msg (Some (opened c)) = Inr (msg\<lparr>stored_as := word_of_nat first + word_of_nat sec * word_of_nat GAT_NUMBER_ELEMENTS\<rparr>, f0')"
    "bbs_savefile env t msg name st = Inr (msg\<lparr>stored_as := word_of_nat first + word_of_nat sec * word_of_nat GAT_NUMBER_ELEMENTS\<rparr>, note_posts env (close_file env name (gat', sec) f' st1))"
    using sdk bbs f(1) m unat_block_number [OF first] by (simp_all add: savefile_def bbs_savefile_def Let_def)
  then show ?thesis using stored_close [OF f(4), of "(gat', sec)" env name f'] same status by auto
qed

lemma message_length_chain:
  "gat_chain gat cur bs \<Longrightarrow> message_length gat cur n = Some (n + MSG_BLOCK_SIZE * length bs)"
proof (induction bs arbitrary: cur n)
  case Nil
  then show ?case by (subst message_length.simps) auto
next
  case (Cons b bs)
  then show ?case by (subst message_length.simps) auto
qed

lemma bbs_readfile_same:
  assumes o: "opens_as env name st c" and m: "storage_type msg = 2" and M: "store_inv c M" "M (stored_as msg) = Some t"
  shows "\<exists>f' st'. readfile msg (Some (opened c)) = Some (Inr (True, cz_trim t, Some f')) \<and> bbs_readfile env msg name st = Some (Inr (True, cz_trim t, st'))
    \<and> stored env name (contents f') st st' \<and> store_inv (contents f') M \<and> tx_status st' = RefreshStatusCache (status_opens env) (tx_status st)"
proof -
  let ?sec = "section_of (stored_as msg)" and ?cur = "unat (stored_as msg) mod GAT_NUMBER_ELEMENTS"
  obtain f st1 where f: "OpenMessageFile env name st = Inr (f, st1)" "contents f = c" "table_of f (tx_gat st1, tx_section st1)" "tx_disk st1 = tx_disk st"
    and status: "tx_status st1 = RefreshStatusCache (status_opens env) (tx_status st)"
    using o unfolding opens_as_def by blast
  have cf: "contents f = contents (opened c)" using f(2) by simp
  obtain g f1 where st: "set_gat_section f ?sec (tx_gat st1, tx_section st1) = (g, f1)" by (cases "set_gat_section f ?sec (tx_gat st1, tx_section st1)")
  note S = set_gat_section_loads [OF f(3) cf st]
  obtain gat f01 where lg: "load_gat (opened c) ?sec = (gat, f01)" by (cases "load_gat (opened c) ?sec")
  have inv0: "store_inv (contents (opened c)) M" using M(1) by simp
  note L = store_inv_load_gat [OF inv0 lg]
  have g: "g = (gat, ?sec)" "contents f1 = contents f01" using S(1,2) by (simp_all add: lg)
  obtain B where "store_rel (contents f01) M B" using L(1) by (auto simp: store_inv_def)
  then have e: "entry (contents f01) (stored_as msg) t (B (stored_as msg))" using M(2) unfolding store_rel_def by blast
  then have chain: "gat_chain gat ?cur (B (stored_as msg))" "B (stored_as msg) \<noteq> []"
    "\<And>b. b \<in> set (B (stored_as msg)) \<Longrightarrow> block_pos ?sec b + MSG_BLOCK_SIZE \<le> length (contents f01)"
    "t = concat (map (\<lambda>b. c_str (block (contents f01) ?sec b)) (B (stored_as msg)))"
    unfolding entry_def L(2) by blast+
  have loop: "readfile_loop ?sec gat ?cur f2 [] = Some (Inr t)" if "contents f2 = contents f01" for f2
    using readfile_loop_chain [OF chain(1), of ?sec f2 "[]"] chain(3,4) that by simp
  have "readfile msg (Some (opened c)) = Some (Inr (True, cz_trim t, Some f01))"
    using lg loop [OF refl] by (simp add: readfile_def)
  moreover have "bbs_readfile env msg name st = Some (Inr (True, cz_trim t, close_file env name g f1 st1))"
    using f(1) m st g loop [OF g(2)] message_length_chain [OF chain(1), of 0] chain(2) by (simp add: bbs_readfile_def Let_def)
  moreover have "stored env name (contents f01) st (close_file env name g f1 st1)"
    using stored_close [OF f(4), of g env name f1] g L(2) by simp
  moreover have "tx_status (close_file env name g f1 st1) = RefreshStatusCache (status_opens env) (tx_status st)" by (simp add: status)
  ultimately show ?thesis using L(1) by blast
qed

lemma bbs_remove_link_same:
  assumes o: "opens_as env name st c" and m: "storage_type msg = 2"
  shows "\<exists>f' st'. remove_link msg (Some (opened c)) = Inr f' \<and> bbs_remove_link env msg name st = Inr st' \<and> stored env name (contents f') st st'
    \<and> contents f' \<noteq> []"
proof -
  let ?sec = "section_of (stored_as msg)" and ?cur = "unat (stored_as msg) mod GAT_NUMBER_ELEMENTS"
  obtain f st1 where f: "OpenMessageFile env name st = Inr (f, st1)" "contents f = c" "table_of f (tx_gat st1, tx_section st1)" "tx_disk st1 = tx_disk st"
    using o unfolding opens_as_def by blast
  have cf: "contents f = contents (opened c)" using f(2) by simp
  obtain g f1 where st: "set_gat_section f ?sec (tx_gat st1, tx_section st1) = (g, f1)" by (cases "set_gat_section f ?sec (tx_gat st1, tx_section st1)")
  note S = set_gat_section_loads [OF f(3) cf st]
  obtain gat f01 where lg: "load_gat (opened c) ?sec = (gat, f01)" by (cases "load_gat (opened c) ?sec")
  have g: "g = (gat, ?sec)" "contents f1 = contents f01" "length gat = GAT_NUMBER_ELEMENTS"
    using S by (simp_all add: lg table_of_def)
  let ?gat = "remove_link_loop gat ?cur"
  have "remove_link msg (Some (opened c)) = Inr (save_gat f01 ?sec ?gat)" using lg by (simp add: remove_link_def)
  moreover have "bbs_remove_link env msg name st = Inr (note_posts env (close_file env name (?gat, ?sec) (save_gat f1 ?sec ?gat) st1))"
    using f(1) m st g(1) by (simp add: bbs_remove_link_def Let_def)
  moreover have "stored env name (contents (save_gat f01 ?sec ?gat)) st (note_posts env (close_file env name (?gat, ?sec) (save_gat f1 ?sec ?gat) st1))"
    using stored_close [OF f(4), of "(?gat, ?sec)" env name "save_gat f1 ?sec ?gat"] g(3) save_gat_same [OF g(2), of ?sec ?gat] by simp
  moreover have "contents (save_gat f01 ?sec ?gat) \<noteq> []"
  proof -
    have "length (encode_gat ?gat) = GAT_SECTION_SIZE" using g(3) by simp
    then show ?thesis using g(3) length_overwrite [of "contents f01" "?sec * GATSECLEN" "encode_gat ?gat"]
      by (auto simp: save_gat_contents)
  qed
  ultimately show ?thesis by blast
qed

section \<open>The contract of a text store\<close>

definition bbs_store_inv :: "text_env \<Rightarrow> string \<Rightarrow> text_files \<Rightarrow> (u32 \<rightharpoonup> string) \<Rightarrow> bool" where
  "bbs_store_inv env name st M \<longleftrightarrow> (\<exists>c. dat_file_is env name st c \<and> store_inv c M)"

definition bbs_room :: "text_env \<Rightarrow> string \<Rightarrow> text_files \<Rightarrow> string \<Rightarrow> bool" where
  "bbs_room env name st t \<longleftrightarrow> (\<exists>c. tx_disk st (dat_path env name) = Some c \<and> has_room c (length t))"

definition bbs_storable :: "text_env \<Rightarrow> string \<Rightarrow> bool" where
  "bbs_storable env t \<longleftrightarrow> storable_text (slack_memory env) t \<and> blocks_for (length t) < 128"

definition bbs_save :: "text_env \<Rightarrow> string \<Rightarrow> string \<Rightarrow> text_files \<Rightarrow> (u32 \<times> text_files) option" where
  "bbs_save env name t st = (case bbs_savefile env t (type2 0xFFFFFF) name st of Inl _ \<Rightarrow> None | Inr (m, st') \<Rightarrow> Some (stored_as m, st'))"

definition bbs_load :: "text_env \<Rightarrow> string \<Rightarrow> u32 \<Rightarrow> text_files \<Rightarrow> (string \<times> text_files) option" where
  "bbs_load env name k st = (case bbs_readfile env (type2 k) name st of Some (Inr (True, t, st')) \<Rightarrow> Some (t, st') | _ \<Rightarrow> None)"

definition bbs_remove :: "text_env \<Rightarrow> string \<Rightarrow> u32 \<Rightarrow> text_files \<Rightarrow> text_files option" where
  "bbs_remove env name k st = (case bbs_remove_link env (type2 k) name st of Inl _ \<Rightarrow> None | Inr st' \<Rightarrow> Some st')"

lemma dat_opens_as: "dat_file_is env name st c \<Longrightarrow> opens_as env name st c"
  unfolding opens_as_def by (rule open_dat_file)

lemma whole_start: "whole c \<Longrightarrow> c \<noteq> [] \<Longrightarrow> GAT_SECTION_SIZE \<le> length c"
  by (metis add_0 le_zero_eq length_0_conv mult_0 whole_def)

lemma store_not_empty: "store_inv c M \<Longrightarrow> M k = Some t \<Longrightarrow> c \<noteq> []"
proof -
  assume "store_inv c M" "M k = Some t"
  then obtain bs where e: "entry c k t bs" unfolding store_inv_def store_rel_def by blast
  then obtain b where "b \<in> set bs" unfolding entry_def by (cases bs) auto
  then have "block_pos (section_of k) b + MSG_BLOCK_SIZE \<le> length c" using e unfolding entry_def by blast
  then show "c \<noteq> []" by auto
qed

lemma stored_dat_file:
  assumes "stored env name c' st st'" "store_inv c' M" "c' \<noteq> []" "dat_opens env (dat_path env name)"
  shows "dat_file_is env name st' c'" "bbs_store_inv env name st' M"
  using assms whole_start [of c'] by (auto simp: dat_file_is_def stored_def bbs_store_inv_def store_inv_def)

interpretation bbs_store: text_store "bbs_store_inv env name" "bbs_room env name" "bbs_storable env" cz_trim
  "bbs_save env name" "bbs_load env name" "bbs_remove env name" for env name
proof unfold_locales
  fix st M t assume i: "bbs_store_inv env name st M" and t: "bbs_storable env t" and r: "bbs_room env name st t"
  obtain c where c: "dat_file_is env name st c" "store_inv c M" using i by (auto simp: bbs_store_inv_def)
  have room: "has_room c (length t)" using r c(1) by (simp add: bbs_room_def dat_file_is_def)
  have t': "t \<noteq> []" "NUL \<notin> set t" "510 \<le> length (slack_memory env)" "blocks_for (length t) < 128"
    using t by (simp_all add: bbs_storable_def storable_text_def)
  have inv: "store_inv (contents (opened c)) M" "has_room (contents (opened c)) (length t)" using c(2) room by simp_all
  obtain k f' where sdk: "savefile t (slack_memory env) (type2 0xFFFFFF) (Some (opened c)) = Inr ((type2 0xFFFFFF)\<lparr>stored_as := k\<rparr>, f')"
    "M k = None" "store_inv (contents f') (M(k \<mapsto> t))"
    using savefile_store [OF inv(1) t'(1-3) inv(2), of "type2 0xFFFFFF"] by blast
  obtain st' where "bbs_savefile env t (type2 0xFFFFFF) name st = Inr ((type2 0xFFFFFF)\<lparr>stored_as := k\<rparr>, st')" "stored env name (contents f') st st'"
    using bbs_savefile_same [OF dat_opens_as [OF c(1)] _ t'(1,4) room, of "type2 0xFFFFFF"] sdk(1) by (auto simp: type2_def)
  then show "\<exists>k st'. bbs_save env name t st = Some (k, st') \<and> M k = None \<and> bbs_store_inv env name st' (M(k \<mapsto> t))"
    using sdk(2,3) stored_dat_file(2) [of env name "contents f'" st st' "M(k \<mapsto> t)"] store_not_empty [OF sdk(3), of k t] c(1)
    by (auto simp: bbs_save_def dat_file_is_def)
next
  fix st M k t assume i: "bbs_store_inv env name st M" and k: "M k = Some t"
  obtain c where c: "dat_file_is env name st c" "store_inv c M" using i by (auto simp: bbs_store_inv_def)
  have ty: "storage_type (type2 k) = 2" "M (stored_as (type2 k)) = Some t" using k by (simp_all add: type2_def)
  obtain f' :: wfile and st' where "bbs_readfile env (type2 k) name st = Some (Inr (True, cz_trim t, st'))" "stored env name (contents f') st st'" "store_inv (contents f') M"
    using bbs_readfile_same [OF dat_opens_as [OF c(1)] ty(1) c(2) ty(2)] by blast
  then show "\<exists>st'. bbs_load env name k st = Some (cz_trim t, st') \<and> bbs_store_inv env name st' M"
    using stored_dat_file(2) [of env name "contents f'" st st' M] store_not_empty [of "contents f'" M k t] k c(1)
    by (auto simp: bbs_load_def dat_file_is_def)
next
  fix st M k t assume i: "bbs_store_inv env name st M" and k: "M k = Some t"
  obtain c where c: "dat_file_is env name st c" "store_inv c M" using i by (auto simp: bbs_store_inv_def)
  have inv: "store_inv (contents (opened c)) M" "M (stored_as (type2 k)) = Some t" using c(2) k by (simp_all add: type2_def)
  obtain f' where sdk: "remove_link (type2 k) (Some (opened c)) = Inr f'" "store_inv (contents f') (M(k := None))" "has_room (contents f') (length t)"
    using remove_link_store [OF inv] by (auto simp: type2_def)
  obtain st' where "bbs_remove_link env (type2 k) name st = Inr st'" "stored env name (contents f') st st'" "contents f' \<noteq> []"
    using bbs_remove_link_same [OF dat_opens_as [OF c(1)], of "type2 k"] sdk(1) by (auto simp: type2_def)
  then show "\<exists>st'. bbs_remove env name k st = Some st' \<and> bbs_store_inv env name st' (M(k := None)) \<and> bbs_room env name st' t"
    using sdk(2,3) stored_dat_file(2) [of env name "contents f'" st st' "M(k := None)"] c(1)
    by (auto simp: bbs_remove_def dat_file_is_def bbs_room_def stored_def)
qed

end
