(* ===== verification/Bbs_Subacc.thy ===== *)
theory Bbs_Subacc
  imports Bbs_Access Bbs_Message_Store
begin

text \<open>
  \<open>bbs/subacc.cpp\<close>: the records of a message area as the interactive program keeps them. The \<open>.sub\<close> file is opened and
  closed by the operations as they need it; each of them seeks before it reads or writes, so only whether the file is
  open, and for writing, is state. A record that is read from a file too short for it keeps the rest of what it held
  before (\<open>left_over\<close> for a local one).
\<close>

section \<open>State\<close>

record base_env =
  be_text :: text_env
  be_datadir :: string
  be_subs :: "subboardrec list"
  sub_opens :: "string \<Rightarrow> bool"
  left_over :: postrec

record base_state =
  texts :: text_files
  file_sub :: "bool option"
  subdat_fn :: string
  num_messages :: nat
  read_area :: int
  static_post :: postrec

definition zero_post :: postrec where
  "zero_post = dec_postrec (replicate 100 NUL)"

definition read_rec :: "nat \<Rightarrow> postrec \<Rightarrow> bytes \<Rightarrow> postrec" where
  "read_rec n old c = (let b = read_at (n * 100) 100 c in dec_postrec (b @ drop (length b) (enc_postrec old)))"

definition set_subchg :: "bool \<Rightarrow> base_state \<Rightarrow> base_state" where
  "set_subchg b st = st\<lparr>texts := (texts st)\<lparr>tx_status := (tx_status (texts st))\<lparr>subchg := b\<rparr>\<rparr>\<rparr>"

definition sub_bytes :: "base_state \<Rightarrow> bytes" where
  "sub_bytes st = (case tx_disk (texts st) (subdat_fn st) of None \<Rightarrow> [] | Some c \<Rightarrow> c)"

definition set_disk :: "disk \<Rightarrow> base_state \<Rightarrow> base_state" where
  "set_disk fs st = st\<lparr>texts := (texts st)\<lparr>tx_disk := fs\<rparr>\<rparr>"

definition set_sub_bytes :: "bytes \<Rightarrow> base_state \<Rightarrow> base_state" where
  "set_sub_bytes c st = set_disk ((tx_disk (texts st))(subdat_fn st \<mapsto> c)) st"

text \<open>Nothing is written through a file opened for reading.\<close>

definition write_rec :: "nat \<Rightarrow> postrec \<Rightarrow> base_state \<Rightarrow> base_state" where
  "write_rec n p st = (if file_sub st = Some True then set_sub_bytes (overwrite (sub_bytes st) (n * 100) (enc_postrec p)) st else st)"

section \<open>Opening\<close>

definition close_sub :: "base_state \<Rightarrow> base_state" where
  "close_sub st = st\<lparr>file_sub := None\<rparr>"

definition open_sub :: "base_env \<Rightarrow> bool \<Rightarrow> base_state \<Rightarrow> bool \<times> base_state" where
  "open_sub env wr st =
     (let fn = subdat_fn st; st0 = close_sub st
      in if wr
         then (if sub_opens env fn
               then let st1 = set_sub_bytes (sub_bytes st0) (st0\<lparr>file_sub := Some True\<rparr>)
                    in (True, st1\<lparr>num_messages := unat (owneruser (read_rec 0 (left_over env) (sub_bytes st1)))\<rparr>)
               else (False, st0))
         else if sub_opens env fn \<and> tx_disk (texts st0) fn \<noteq> None then (True, st0\<lparr>file_sub := Some False\<rparr>) else (False, st0))"

definition sub_file_name :: "base_env \<Rightarrow> int \<Rightarrow> string" where
  "sub_file_name env i = c_str (sb_filename (be_subs env ! nat i))"

definition WWIVReadLastRead :: "base_env \<Rightarrow> int \<Rightarrow> base_state \<Rightarrow> cpp_error + u32 \<times> base_state" where
  "WWIVReadLastRead env sub_number st =
     (if sub_number < 0 \<or> int (length (be_subs env)) \<le> sub_number then Inl UndefinedBehaviour
      else bind_res (FilePath (be_datadir env) (sub_file_name env sub_number @ ''.sub'')) (\<lambda>path.
      case tx_disk (texts st) path of
        None \<Rightarrow> if \<not> sub_opens env path then Inr (0, st)
                else Inr (1, set_disk ((tx_disk (texts st))(path \<mapsto> enc_postrec zero_post)) st)
      | Some c \<Rightarrow>
          if \<not> sub_opens env path then Inr (0, st)
          else let p = read_rec 0 zero_post c
               in if owneruser p = 0 then Inr (1, st) else Inr (qscan (read_rec (unat (owneruser p)) p c), st)))"

text \<open>The choice of the network is left out.\<close>

definition iscan1 :: "base_env \<Rightarrow> int \<Rightarrow> base_state \<Rightarrow> bool \<times> base_state" where
  "iscan1 env sub_index st =
     (if sub_index < 0 \<or> int (length (be_subs env)) \<le> sub_index then (False, st)
      else let fn = be_datadir env @ sub_file_name env sub_index @ ''.sub''; st0 = st\<lparr>subdat_fn := fn\<rparr>;
               (ok, st1) = (if tx_disk (texts st0) fn = None
                            then (let (ok, s) = open_sub env True st0 in (ok, if ok then write_rec 0 zero_post s else s))
                            else open_sub env False st0)
           in if \<not> ok then (False, st1)
              else (True, close_sub (set_subchg False (st1\<lparr>read_area := sub_index,
                            num_messages := unat (owneruser (read_rec 0 zero_post (sub_bytes st1)))\<rparr>))))"

definition iscan :: "base_env \<Rightarrow> usersubrec list \<Rightarrow> int \<Rightarrow> base_state \<Rightarrow> cpp_error + bool \<times> base_state" where
  "iscan env us b st =
     (if b < 0 \<or> int (length us) \<le> b then Inl UndefinedBehaviour else Inr (iscan1 env (sint (subnum (us ! nat b))) st))"

section \<open>Posts\<close>

text \<open>The post is a static record, whose address is returned.\<close>

definition get_post :: "base_env \<Rightarrow> int \<Rightarrow> base_state \<Rightarrow> postrec option \<times> base_state" where
  "get_post env mn st =
     (if mn < 1 then (None, st)
      else let n = (if int (num_messages st) < mn then num_messages st else nat mn);
               need_close = (file_sub st = None);
               (ok, st1) = (if need_close then open_sub env False st else (True, st))
           in if \<not> ok then (None, st1)
              else let p = read_rec n (static_post st1) (sub_bytes st1); st2 = st1\<lparr>static_post := p\<rparr>
                   in (Some p, if need_close then close_sub st2 else st2))"

definition write_post :: "int \<Rightarrow> postrec \<Rightarrow> base_state \<Rightarrow> base_state" where
  "write_post mn pp st = (if file_sub st = None then st else write_rec (nat mn) pp st)"

definition refresh_status :: "base_env \<Rightarrow> base_state \<Rightarrow> base_state" where
  "refresh_status env st =
     st\<lparr>texts := (texts st)\<lparr>tx_status := RefreshStatusCache (status_opens (be_text env)) (tx_status (texts st))\<rparr>\<rparr>"

definition bbs_add_post :: "base_env \<Rightarrow> postrec \<Rightarrow> base_state \<Rightarrow> base_state" where
  "bbs_add_post env pp st =
     (let need_close = (file_sub st = None);
          st1 = (if need_close then snd (open_sub env True st) else st);
          st2 = (if file_sub st1 \<noteq> None
                 then let st' = refresh_status env st1; p = read_rec 0 (left_over env) (sub_bytes st');
                          p1 = p\<lparr>owneruser := owneruser p + 1\<rparr>; n = unat (owneruser p1)
                      in set_subchg False (write_rec n pp (write_rec 0 p1 (st'\<lparr>num_messages := n\<rparr>)))
                 else st1)
      in if need_close then close_sub st2 else st2)"

text \<open>The records behind the deleted one move down in pieces of 32000 bytes.\<close>

function copy_down :: "nat \<Rightarrow> nat \<Rightarrow> bytes \<Rightarrow> cpp_error + bytes" where
  "copy_down cp len c =
     (let nb = min (len - cp) 32000; b = read_at cp nb c
      in if length b < nb then Inl UndefinedBehaviour
         else let c1 = (if nb = 0 then c else overwrite c (cp - 100) b)
              in if nb = 32000 then copy_down (cp + nb) len c1 else Inr c1)"
  by pat_completeness auto
termination
  by (relation "measure (\<lambda>(cp, len, c). len - cp)") auto

declare copy_down.simps [simp del]

definition delete_post :: "base_env \<Rightarrow> nat \<Rightarrow> base_state \<Rightarrow> cpp_error + base_state" where
  "delete_post env mn st =
     (let (p1, st1) = get_post env (int mn) st
      in case p1 of
           None \<Rightarrow> Inl UndefinedBehaviour
         | Some p \<Rightarrow>
             if read_area st1 < 0 \<or> int (length (be_subs env)) \<le> read_area st1 then Inl UndefinedBehaviour
             else bind_res (bbs_remove_link (be_text env) (post_msg p) (sub_file_name env (read_area st1)) (texts st1)) (\<lambda>tx.
                  let st2 = st1\<lparr>texts := tx\<rparr>
                  in bind_res (if file_sub st2 = Some True
                               then map_sum id (\<lambda>c. set_sub_bytes c st2) (copy_down ((mn + 1) * 100) ((num_messages st2 + 1) * 100) (sub_bytes st2))
                               else Inr st2) (\<lambda>st3.
                     let h = read_rec 0 (left_over env) (sub_bytes st3); h1 = h\<lparr>owneruser := owneruser h - 1\<rparr>
                     in Inr (write_rec 0 h1 (st3\<lparr>num_messages := unat (owneruser h1)\<rparr>)))))"

definition delete_message :: "base_env \<Rightarrow> int \<Rightarrow> base_state \<Rightarrow> cpp_error + base_state" where
  "delete_message env mn st =
     (let need_close = (file_sub st = None);
          st1 = refresh_status env (if need_close then snd (open_sub env True st) else st)
      in map_sum id (\<lambda>s. if need_close then close_sub s else s)
           (if file_sub st1 \<noteq> None \<and> 0 < mn \<and> mn \<le> int (num_messages st1) then delete_post env (nat mn) st1 else Inr st1))"

section \<open>Finding a post again\<close>

definition IsSamePost :: "postrec \<Rightarrow> postrec \<Rightarrow> bool" where
  "IsSamePost p1 p2 \<longleftrightarrow> daten p1 = daten p2 \<and> qscan p1 = qscan p2 \<and> ownersys p1 = ownersys p2 \<and> owneruser p1 = owneruser p2
     \<and> c_str (title p1) = c_str (title p2)"

fun resynch_loop :: "base_env \<Rightarrow> postrec \<Rightarrow> (postrec \<Rightarrow> bool) \<Rightarrow> nat \<Rightarrow> int list \<Rightarrow> base_state \<Rightarrow> cpp_error + int \<times> base_state" where
  "resynch_loop env p passed msgnum [] st = Inr (int msgnum, st)"
| "resynch_loop env p passed msgnum (i # is) st =
     (case get_post env i st of
        (None, _) \<Rightarrow> Inl UndefinedBehaviour
      | (Some pp1, st1) \<Rightarrow> if IsSamePost p pp1 \<or> passed pp1 then Inr (i, st1) else resynch_loop env p passed msgnum is st1)"

definition resynch :: "base_env \<Rightarrow> int \<Rightarrow> postrec option \<Rightarrow> base_state \<Rightarrow> cpp_error + int \<times> base_state" where
  "resynch env msgnum pp st =
     (case (case pp of Some p \<Rightarrow> (Some p, st) | None \<Rightarrow> get_post env msgnum st) of
        (None, st1) \<Rightarrow> Inr (msgnum, st1)
      | (Some p, st1) \<Rightarrow>
          let st2 = refresh_status env st1
          in if subchg (tx_status (texts st2)) \<or> pp \<noteq> None
             then let (pp1, st3) = get_post env msgnum st2; num = int (num_messages st3)
                  in case pp1 of
                       Some q \<Rightarrow>
                         if IsSamePost q p then Inr (msgnum, st3)
                         else if qscan p < qscan q
                         then resynch_loop env p (\<lambda>pp1. qscan pp1 \<le> qscan p) 0 (rev [1..(if num < msgnum then num + 1 else msgnum) - 1]) st3
                         else resynch_loop env p (\<lambda>pp1. qscan p \<le> qscan pp1) (num_messages st3) [msgnum + 1..num] st3
                     | None \<Rightarrow> resynch_loop env p (\<lambda>pp1. qscan pp1 \<le> qscan p) 0 (rev [1..(if num < msgnum then num + 1 else msgnum) - 1]) st3
             else Inr (msgnum, st2))"

section \<open>Packing\<close>

fun pack_posts :: "base_env \<Rightarrow> string \<Rightarrow> string \<Rightarrow> nat list \<Rightarrow> base_state \<Rightarrow> (cpp_error + base_state) option" where
  "pack_posts env sfn nfn [] st = Some (Inr st)"
| "pack_posts env sfn nfn (i # is) st =
     (case get_post env (int i) st of
        (None, st1) \<Rightarrow> pack_posts env sfn nfn is st1
      | (Some p, st1) \<Rightarrow>
          (case bbs_readfile (be_text env) (post_msg p) sfn (texts st1) of
             None \<Rightarrow> None
           | Some (Inl e) \<Rightarrow> Some (Inl e)
           | Some (Inr (ok, t, tx)) \<Rightarrow>
               (case bbs_savefile (be_text env) (if ok then t else ''??'') (post_msg p) nfn tx of
                  Inl e \<Rightarrow> Some (Inl e)
                | Inr (m, tx1) \<Rightarrow>
                    pack_posts env sfn nfn is
                      (write_post (int i) (p\<lparr>post_msg := m\<rparr>) (st1\<lparr>texts := tx1, static_post := p\<lparr>post_msg := m\<rparr>\<rparr>)))))"

definition pack_sub :: "base_env \<Rightarrow> int \<Rightarrow> base_state \<Rightarrow> (cpp_error + base_state) option" where
  "pack_sub env si st =
     (case iscan1 env si st of
        (False, st1) \<Rightarrow> Some (Inr st1)
      | (True, st1) \<Rightarrow>
          (case open_sub env True st1 of
             (False, st2) \<Rightarrow> Some (Inr st2)
           | (True, st2) \<Rightarrow>
               if subboardrec.storage_type (be_subs env ! nat si) \<noteq> 2 then Some (Inr st2)
               else let sfn = sub_file_name env si; nfn = ''PACKTMP$'';
                        fn1 = dat_path (be_text env) sfn; fn2 = dat_path (be_text env) nfn
                    in map_option (map_sum id (\<lambda>s. close_sub (set_disk (snd (File_Rename fn2 fn1 (snd (File_Remove fn1 (tx_disk (texts s)))))) s)))
                         (pack_posts env sfn nfn [1..<num_messages st2 + 1] st2)))"

text \<open>\<open>hung_up\<close> and \<open>aborted\<close> say what the terminal reports in each turn.\<close>

fun pack_subs :: "base_env \<Rightarrow> (nat \<Rightarrow> bool) \<Rightarrow> (nat \<Rightarrow> bool) \<Rightarrow> nat list \<Rightarrow> base_state \<Rightarrow> (cpp_error + bool \<times> base_state) option" where
  "pack_subs env hung_up aborted [] st = Some (Inr (True, st))"
| "pack_subs env hung_up aborted (i # is) st =
     (if hung_up i then Some (Inr (True, st))
      else case pack_sub env (int i) st of
             None \<Rightarrow> None
           | Some (Inl e) \<Rightarrow> Some (Inl e)
           | Some (Inr st1) \<Rightarrow> if aborted i then Some (Inr (False, st1)) else pack_subs env hung_up aborted is st1)"

definition pack_all_subs :: "base_env \<Rightarrow> (nat \<Rightarrow> bool) \<Rightarrow> (nat \<Rightarrow> bool) \<Rightarrow> base_state \<Rightarrow> (cpp_error + bool \<times> base_state) option" where
  "pack_all_subs env hung_up aborted st = pack_subs env hung_up aborted [0..<length (be_subs env)] st"

end
