(* ===== verification/Bbs_Pack.thy ===== *)
theory Bbs_Pack
  imports Bbs_Subacc Msg_Api
begin

text \<open>
  Packing a message area: \<open>pack_sub\<close> copies every text into a new file and takes the old one away. The posts stay in
  their order and keep their records and texts, and the new file holds nothing else. The second part is about
  \<open>resynch\<close>, which finds the post that was being read after other programs have changed the area.
\<close>

section \<open>Records of the area\<close>

lemma read_rec_nth: "n < length c div 100 \<Longrightarrow> read_rec n old c = posts c ! n"
proof -
  assume n: "n < length c div 100"
  then have "length (read_at (n * 100) 100 c) = 100" by (intro length_read_at_full record_range)
  moreover have "length (enc_postrec old) \<le> 100 \<or> drop 100 (enc_postrec old) \<noteq> []" by auto
  ultimately have "dec_postrec (read_at (n * 100) 100 c @ drop 100 (enc_postrec old)) = dec_postrec (read_at (n * 100) 100 c)"
    by (simp add: dec_postrec_def read_at_def)
  then show ?thesis using n \<open>length (read_at (n * 100) 100 c) = 100\<close> by (simp add: read_rec_def Let_def nth_recs)
qed

lemma sub_rel_recs:
  assumes "sub_rel c ps"
  shows "i < length ps \<Longrightarrow> read_rec (Suc i) old c = ps ! i" "unat (owneruser (read_rec 0 old c)) = length ps"
    "valid_postrec (read_rec 0 old c)" "unat (header_count (read_rec 0 old c)) = length ps" "length ps < length c div 100"
proof -
  obtain h rest where c: "posts c = h # ps @ rest" "unat (header_count h) = length ps" "length ps < 65536"
    using assms unfolding sub_rel_def by blast
  have len: "length c div 100 = Suc (length ps + length rest)" using arg_cong [OF c(1), of length] by simp
  show "length ps < length c div 100" unfolding len by simp
  show "read_rec (Suc i) old c = ps ! i" if "i < length ps"
    using read_rec_nth [of "Suc i" c old] that len by (simp add: c(1) nth_append)
  have h: "read_rec 0 old c = h" using read_rec_nth [of 0 c old] len by (simp add: c(1))
  show "valid_postrec (read_rec 0 old c)" unfolding h using c(1) by (intro postrec_codec.valid_recs [of h c]) simp
  then show "unat (owneruser (read_rec 0 old c)) = length ps" "unat (header_count (read_rec 0 old c)) = length ps"
    using owneruser_header [of h "length ps"] c(2,3) unfolding h by simp_all
qed

lemma sub_rel_write:
  assumes rel: "sub_rel c ps" and p: "valid_postrec p" and i: "i < length ps"
  shows "sub_rel (overwrite c (Suc i * 100) (enc_postrec p)) (ps[i := p])"
proof -
  obtain h rest where c: "posts c = h # ps @ rest" "unat (header_count h) = length ps" "length ps < 65536" "100 dvd length c"
    using rel unfolding sub_rel_def by blast
  have len: "length c div 100 = Suc (length ps + length rest)" using arg_cong [OF c(1), of length] by simp
  have "posts (overwrite c (Suc i * 100) (enc_postrec p)) = take (Suc i) (posts c) @ p # drop (Suc (Suc i)) (posts c)"
    by (rule postrec_codec.recs_overwrite [OF p c(4)]) (use i len in simp)
  also have "\<dots> = h # ps[i := p] @ rest" unfolding c(1) using i by (simp add: upd_conv_take_nth_drop)
  finally have "posts (overwrite c (Suc i * 100) (enc_postrec p)) = h # ps[i := p] @ rest" .
  moreover have "100 dvd length (overwrite c (Suc i * 100) (enc_postrec p))"
    using c(4) length_enc_postrec [OF p] by (simp add: length_overwrite max_def)
  ultimately show ?thesis unfolding sub_rel_def using c(2,3) by auto
qed

section \<open>How much of a file is free\<close>

definition free_total :: "bytes \<Rightarrow> nat" where
  "free_total c = (\<Sum>s<1024. length (free_blocks (gat_of c s)))"

lemma free_total_room: "1024 * 126 < free_total c \<Longrightarrow> blocks_for n < 128 \<Longrightarrow> has_room c n"
proof (rule ccontr)
  assume f: "1024 * 126 < free_total c" and n: "blocks_for n < 128" and "\<not> has_room c n"
  then have "length (free_blocks (gat_of c s)) \<le> 126" if "s < 1024" for s using that by (force simp: has_room_def)
  then have "free_total c \<le> (\<Sum>s\<in>{..<1024::nat}. 126 :: nat)" unfolding free_total_def by (intro sum_mono) simp
  then show False using f by simp
qed

lemma saved_free:
  assumes s: "saved_in c mem s bs c'" "s < 1024" and bs: "set bs \<subseteq> set (free_blocks (gat_of c s))" "distinct bs"
  shows "free_total c' + length bs = free_total c"
proof -
  let ?F = "\<lambda>c s. set (free_blocks (gat_of c s))"
  have in_range: "b < GAT_NUMBER_ELEMENTS" "0 < b" if "b \<in> set bs" for b using that bs(1) set_free_blocks by blast+
  have "gat_of c' s ! b \<noteq> 0" if "b \<in> set bs" for b
  proof -
    obtain i where i: "i < length bs" "b = bs ! i" using \<open>b \<in> set bs\<close> by (metis in_set_conv_nth)
    have "gati_of bs ! Suc i \<noteq> 0" by (rule gati_of_nonzero [OF _ i(1)]) (use in_range in blast)
    then show ?thesis using s(1) i unfolding saved_in_def by simp
  qed
  moreover have "gat_of c' s ! j = gat_of c s ! j" if "j \<notin> set bs" for j using s(1) that unfolding saved_in_def by blast
  ultimately have "?F c' s = ?F c s - set bs" using in_range by (auto simp: set_free_blocks) metis+
  then have "card (?F c' s) + card (set bs) = card (?F c s)" using bs(1) by (simp add: card_Diff_subset card_mono)
  then have here: "length (free_blocks (gat_of c' s)) + length bs = length (free_blocks (gat_of c s))"
    by (simp add: distinct_card bs(2))
  have others: "gat_of c' r = gat_of c r" if "r \<noteq> s" for r using s(1) that unfolding saved_in_def by blast
  have "free_total x = length (free_blocks (gat_of x s)) + (\<Sum>r\<in>{..<1024} - {s}. length (free_blocks (gat_of x r)))" for x
    unfolding free_total_def using s(2) by (intro sum.remove) simp_all
  moreover have "(\<Sum>r\<in>{..<1024} - {s}. length (free_blocks (gat_of c' r))) = (\<Sum>r\<in>{..<1024} - {s}. length (free_blocks (gat_of c r)))"
    using others by (intro sum.cong) auto
  ultimately show ?thesis using here by simp
qed

lemma savefile_free:
  assumes f: "whole (contents f)" and t: "has_room (contents f) (length t)" "510 \<le> length slack"
    and r: "savefile t slack msg (Some f) = Inr (m, f')"
  shows "free_total (contents f') + blocks_for (length t) = free_total (contents f)"
proof -
  obtain s where s: "s < 1024" "blocks_for (length t) \<le> length (free_blocks (gat_of (contents f) s))"
    using t(1) by (auto simp: has_room_def)
  have mem: "blocks_for (length t) * MSG_BLOCK_SIZE \<le> length (t @ NUL # slack)" using blocks_for_within [of "length t"] t(2) by simp
  obtain s' bs f'' where e: "savefile_sections (length t) (t @ NUL # slack) f 0 [] = (s', gati_of bs, f'')" "s' \<le> s"
    "bs = take (blocks_for (length t)) (free_blocks (gat_of (contents f) s'))" "length bs = blocks_for (length t)"
    "saved_in (contents f) (t @ NUL # slack) s' bs (contents f'')"
    using savefile_sections_ok [OF f _ s mem, of 0 "[]"] by auto
  have "f' = f''" using r e(1) by (auto simp: savefile_def)
  moreover have "free_total (contents f'') + length bs = free_total (contents f)"
    by (rule saved_free [OF e(5)]) (use e(2,3) s(1) in \<open>auto dest: in_set_takeD\<close>)
  ultimately show ?thesis using e(4) by simp
qed

lemma free_total_new: "free_total (replicate n NUL) = 1024 * 2047"
proof -
  have "gat_of (replicate n NUL) s = replicate GAT_NUMBER_ELEMENTS 0" for s by (rule gat_of_zeros) auto
  then show ?thesis by (simp only: free_total_def free_blocks_zeros) simp
qed

section \<open>The two files\<close>

lemma dat_file_kept:
  assumes "stored env name c st st'" "dat_path env name' \<noteq> dat_path env name" "dat_file_is env name' st d"
  shows "dat_file_is env name' st' d"
  using assms by (auto simp: stored_def dat_file_is_def)

text \<open>The new file is there with the contents \<open>d\<close>, or not yet there, which is as good as a new one.\<close>

definition new_file :: "text_env \<Rightarrow> string \<Rightarrow> text_files \<Rightarrow> bytes \<Rightarrow> bool" where
  "new_file env name st d \<longleftrightarrow> dat_opens env (dat_path env name) \<and> length (tx_gat st) = GAT_NUMBER_ELEMENTS \<and>
     (dat_file_is env name st d \<or> tx_disk st (dat_path env name) = None \<and> d = replicate 80896 NUL)"

lemma new_file_opens: "new_file env name st d \<Longrightarrow> opens_as env name st d"
  unfolding new_file_def opens_as_def using open_dat_file [of env name st d] open_new_dat_file [of env name st] by blast

lemma new_file_kept:
  assumes "stored env name c st st'" "dat_path env name' \<noteq> dat_path env name" "new_file env name' st d"
  shows "new_file env name' st' d"
  using assms by (auto simp: stored_def new_file_def dat_file_is_def)

text \<open>The state of the packing: \<open>new\<close> are the posts done, \<open>old\<close> those to come, \<open>n\<close> is what the texts done take.\<close>

definition packing :: "base_env \<Rightarrow> string \<Rightarrow> string \<Rightarrow> base_state \<Rightarrow> (postrec \<times> string) list \<Rightarrow> (postrec \<times> string) list \<Rightarrow> nat \<Rightarrow> bool" where
  "packing env sfn nfn st new old n \<longleftrightarrow>
     file_sub st = Some True \<and> num_messages st = length new + length old
     \<and> subdat_fn st \<noteq> dat_path (be_text env) sfn \<and> subdat_fn st \<noteq> dat_path (be_text env) nfn
     \<and> (\<exists>c. tx_disk (texts st) (subdat_fn st) = Some c \<and> sub_rel c (map fst (new @ old)))
     \<and> (\<exists>d M. dat_file_is (be_text env) sfn (texts st) d \<and> store_inv d M
          \<and> (\<forall>m \<in> set old. messagerec.storage_type (post_msg (fst m)) = 2 \<and> M (key_of (fst m)) = Some (snd m)))
     \<and> (\<exists>d M. new_file (be_text env) nfn (texts st) d \<and> store_inv d M \<and> free_total d + n = 1024 * 2047
          \<and> distinct (map (\<lambda>m. key_of (fst m)) new)
          \<and> (\<forall>m \<in> set new. messagerec.storage_type (post_msg (fst m)) = 2 \<and> M (key_of (fst m)) = Some (snd m)))"

definition packable :: "base_env \<Rightarrow> string \<Rightarrow> bool" where
  "packable env t \<longleftrightarrow> cz_trim t \<noteq> [] \<and> NUL \<notin> set (cz_trim t) \<and> blocks_for (length (cz_trim t)) < 128"

lemma subs_simps [simp]:
  "file_sub (write_rec n p st) = file_sub st" "subdat_fn (write_rec n p st) = subdat_fn st" "num_messages (write_rec n p st) = num_messages st"
  by (simp_all add: write_rec_def set_sub_bytes_def set_disk_def)

lemma nat_1_int: "nat (1 + int i) = Suc i"
  by simp

lemma get_post_nth:
  assumes "file_sub st \<noteq> None" "tx_disk (texts st) (subdat_fn st) = Some c" "sub_rel c ps" "num_messages st = length ps" "i < length ps"
  shows "get_post env (int (Suc i)) st = (Some (ps ! i), st\<lparr>static_post := ps ! i\<rparr>)"
  using assms sub_rel_recs(1) [OF assms(3,5)] by (cases "file_sub st") (simp_all add: get_post_def sub_bytes_def Let_def nat_1_int)

lemma packing_step:
  assumes P: "packing env sfn nfn st new ((p, t) # old) n" and names: "dat_path (be_text env) nfn \<noteq> dat_path (be_text env) sfn"
    and t: "packable env t" and slack: "510 \<le> length (slack_memory (be_text env))" and room: "n < 1024 * 1921"
  shows "\<exists>k st'. packing env sfn nfn st' (new @ [(p\<lparr>post_msg := type2 k\<rparr>, cz_trim t)]) old (n + blocks_for (length (cz_trim t)))
    \<and> (\<forall>is. pack_posts env sfn nfn (Suc (length new) # is) st = pack_posts env sfn nfn is st')
    \<and> (\<forall>q. q \<noteq> dat_path (be_text env) sfn \<and> q \<noteq> dat_path (be_text env) nfn \<and> q \<noteq> subdat_fn st \<longrightarrow> tx_disk (texts st') q = tx_disk (texts st) q)
    \<and> subdat_fn st' = subdat_fn st
    \<and> posts_counted (status_opens (be_text env)) 1 (tx_status (texts st)) (tx_status (texts st'))"
proof -
  let ?te = "be_text env" and ?t = "cz_trim t"
  obtain c d M d2 M2 where c: "tx_disk (texts st) (subdat_fn st) = Some c" "sub_rel c (map fst (new @ (p, t) # old))"
    and d: "dat_file_is ?te sfn (texts st) d" "store_inv d M"
      "\<forall>m \<in> set ((p, t) # old). messagerec.storage_type (post_msg (fst m)) = 2 \<and> M (key_of (fst m)) = Some (snd m)"
    and d2: "new_file ?te nfn (texts st) d2" "store_inv d2 M2" "free_total d2 + n = 1024 * 2047" "distinct (map (\<lambda>m. key_of (fst m)) new)"
      "\<forall>m \<in> set new. messagerec.storage_type (post_msg (fst m)) = 2 \<and> M2 (key_of (fst m)) = Some (snd m)"
    and st: "file_sub st = Some True" "num_messages st = length new + length ((p, t) # old)" "subdat_fn st \<noteq> dat_path ?te sfn" "subdat_fn st \<noteq> dat_path ?te nfn"
    using P unfolding packing_def by blast
  have p: "messagerec.storage_type (post_msg p) = 2" "M (stored_as (post_msg p)) = Some t" using d(3) by simp_all
  let ?ps = "map fst (new @ (p, t) # old)"
  have get: "get_post env (int (Suc (length new))) st = (Some p, st\<lparr>static_post := p\<rparr>)"
    using get_post_nth [OF _ c, of "length new" env] st(1,2) by (simp add: nth_append)
  obtain f' :: wfile and tx1 where rd: "bbs_readfile ?te (post_msg p) sfn (texts st) = Some (Inr (True, ?t, tx1))"
    "stored ?te sfn (contents f') (texts st) tx1" "store_inv (contents f') M" "tx_status tx1 = RefreshStatusCache (status_opens ?te) (tx_status (texts st))"
    using bbs_readfile_same [OF dat_opens_as [OF d(1)] p(1) d(2) p(2)] by blast
  have d1: "dat_file_is ?te sfn tx1 (contents f')"
    using stored_dat_file(1) [OF rd(2,3) store_not_empty [OF rd(3) p(2)]] d(1) by (simp add: dat_file_is_def)
  have n1: "new_file ?te nfn tx1 d2" by (rule new_file_kept [OF rd(2) names d2(1)])
  have t': "?t \<noteq> []" "NUL \<notin> set ?t" "blocks_for (length ?t) < 128" using t by (simp_all add: packable_def)
  have hr: "has_room d2 (length ?t)" using free_total_room [of d2] d2(3) room t'(3) by simp
  have inv2: "store_inv (contents (opened d2)) M2" "has_room (contents (opened d2)) (length ?t)" using d2(2) hr by simp_all
  obtain k f2 where sv: "savefile ?t (slack_memory ?te) (post_msg p) (Some (opened d2)) = Inr ((post_msg p)\<lparr>stored_as := k\<rparr>, f2)"
    "M2 k = None" "store_inv (contents f2) (M2(k \<mapsto> ?t))"
    using savefile_store [OF inv2(1) t'(1,2) slack inv2(2), of "post_msg p"] by blast
  have pk: "(post_msg p)\<lparr>stored_as := k\<rparr> = type2 k" using p(1) by (simp add: type2_def)
  have free: "free_total (contents f2) + blocks_for (length ?t) = free_total d2"
    using savefile_free [of "opened d2", OF _ _ slack sv(1)] d2(2) hr by (simp add: store_inv_def)
  obtain tx2 where wr: "bbs_savefile ?te ?t (post_msg p) nfn tx1 = Inr (type2 k, tx2)" "stored ?te nfn (contents f2) tx1 tx2"
    "tx_status tx2 = posts_transaction (status_opens ?te) (RefreshStatusCache (status_opens ?te) (tx_status tx1))"
    using bbs_savefile_same [OF new_file_opens [OF n1] p(1) t'(1,3) hr] sv(1) unfolding pk by auto
  have d1': "dat_file_is ?te sfn tx2 (contents f')" by (rule dat_file_kept [OF wr(2) _ d1]) (use names in simp)
  have ne: "contents f2 \<noteq> []" using store_not_empty [OF sv(3), of k ?t] by simp
  have d2': "dat_file_is ?te nfn tx2 (contents f2)"
    by (rule stored_dat_file(1) [OF wr(2) sv(3) ne]) (use d2(1) in \<open>simp add: new_file_def\<close>)
  define p' where "p' = p\<lparr>post_msg := type2 k\<rparr>"
  define st' where "st' = write_rec (Suc (length new)) p' (st\<lparr>texts := tx2, static_post := p'\<rparr>)"
  have vp: "valid_postrec p'" using sub_rel_valid [OF c(2), of p] by (simp add: p'_def valid_postrec_def)
  have disk2: "tx_disk tx2 q = tx_disk (texts st) q" if "q \<noteq> dat_path ?te sfn" "q \<noteq> dat_path ?te nfn" for q
    using rd(2) wr(2) that by (simp add: stored_def)
  have c2: "tx_disk tx2 (subdat_fn st) = Some c" using disk2 [OF st(3,4)] c(1) by simp
  have st': "texts st' = tx2\<lparr>tx_disk := (tx_disk tx2)(subdat_fn st \<mapsto> overwrite c (Suc (length new) * 100) (enc_postrec p'))\<rparr>"
    "file_sub st' = Some True" "subdat_fn st' = subdat_fn st" "num_messages st' = num_messages st"
    using st(1) c2 by (simp_all add: st'_def write_rec_def set_sub_bytes_def set_disk_def sub_bytes_def)
  have "?ps[length new := p'] = map fst ((new @ [(p', ?t)]) @ old)" by (simp add: list_update_append)
  then have c': "sub_rel (overwrite c (Suc (length new) * 100) (enc_postrec p')) (map fst ((new @ [(p', ?t)]) @ old))"
    using sub_rel_write [OF c(2) vp, of "length new"] by simp
  have old': "dat_file_is ?te sfn (texts st') (contents f')" using d1' st(3) by (simp add: st'(1) dat_file_is_def)
  have new': "new_file ?te nfn (texts st') (contents f2)" using d2' st(4) by (simp add: st'(1) dat_file_is_def new_file_def)
  have dist: "distinct (map (\<lambda>m. key_of (fst m)) (new @ [(p', ?t)]))"
    using d2(4,5) sv(2) by (auto simp: p'_def type2_def)
  have all: "\<forall>m \<in> set (new @ [(p', ?t)]). messagerec.storage_type (post_msg (fst m)) = 2 \<and> (M2(k \<mapsto> ?t)) (key_of (fst m)) = Some (snd m)"
    using d2(5) sv(2) by (auto simp: p'_def type2_def)
  have "packing env sfn nfn st' (new @ [(p', ?t)]) old (n + blocks_for (length ?t))"
    unfolding packing_def
    using st st' c' old' rd(3) d(3) new' sv(3) free d2(3) dist all by (intro conjI) (simp_all, force+)
  moreover have "pack_posts env sfn nfn (Suc (length new) # is) st = pack_posts env sfn nfn is st'" for "is"
    using get rd(1) wr(1) st(1) by (simp add: st'_def p'_def write_post_def nat_1_int)
  moreover have "posts_counted (status_opens ?te) 1 (tx_status (texts st)) (tx_status (texts st'))"
    using posts_counted_trans [OF posts_counted_trans [OF posts_counted_refresh posts_counted_refresh] posts_counted_transaction]
    by (simp add: st'(1) wr(3) rd(4))
  ultimately show ?thesis using disk2 st'(1,3) unfolding p'_def by (intro exI conjI) (assumption, auto)
qed

section \<open>Packing an area\<close>

text \<open>What becomes of a post: a new address, and the text as it was read.\<close>

definition repacked :: "postrec \<times> string \<Rightarrow> postrec \<times> string \<Rightarrow> bool" where
  "repacked m m' \<longleftrightarrow> (\<exists>k. fst m' = (fst m)\<lparr>post_msg := type2 k\<rparr>) \<and> snd m' = cz_trim (snd m)"

definition blocks_of :: "(postrec \<times> string) list \<Rightarrow> nat" where
  "blocks_of ms = sum_list (map (\<lambda>m. blocks_for (length (cz_trim (snd m)))) ms)"

lemma pack_posts_keep:
  assumes P: "packing env sfn nfn st new old n" and names: "dat_path (be_text env) nfn \<noteq> dat_path (be_text env) sfn"
    and t: "\<forall>m \<in> set old. packable env (snd m)" and slack: "510 \<le> length (slack_memory (be_text env))"
    and room: "n + blocks_of old \<le> 1024 * 1921"
  shows "\<exists>st' new'. pack_posts env sfn nfn [length new + 1..<length new + length old + 1] st = Some (Inr st')
    \<and> packing env sfn nfn st' (new @ new') [] (n + blocks_of old) \<and> list_all2 repacked old new'
    \<and> (\<forall>q. q \<noteq> dat_path (be_text env) sfn \<and> q \<noteq> dat_path (be_text env) nfn \<and> q \<noteq> subdat_fn st \<longrightarrow> tx_disk (texts st') q = tx_disk (texts st) q)
    \<and> subdat_fn st' = subdat_fn st
    \<and> posts_counted (status_opens (be_text env)) (length old) (tx_status (texts st)) (tx_status (texts st'))"
  using P t room
proof (induction old arbitrary: st new n)
  case Nil
  then show ?case by (intro exI [of _ st] exI [of _ "[]"]) (simp add: blocks_of_def posts_counted_none)
next
  case (Cons m old)
  obtain p t where m: "m = (p, t)" by (cases m)
  have pt: "packable env t" using Cons.prems(2) by (simp add: m)
  then have "0 < blocks_for (length (cz_trim t))" by (intro blocks_for_pos) (simp add: packable_def)
  then have "n < 1024 * 1921" using Cons.prems(3) by (simp add: blocks_of_def m)
  from packing_step [OF Cons.prems(1) [unfolded m] names pt slack this] obtain k st1 where
    S: "packing env sfn nfn st1 (new @ [(p\<lparr>post_msg := type2 k\<rparr>, cz_trim t)]) old (n + blocks_for (length (cz_trim t)))"
    "\<And>is. pack_posts env sfn nfn (Suc (length new) # is) st = pack_posts env sfn nfn is st1"
    "\<forall>q. q \<noteq> dat_path (be_text env) sfn \<and> q \<noteq> dat_path (be_text env) nfn \<and> q \<noteq> subdat_fn st \<longrightarrow> tx_disk (texts st1) q = tx_disk (texts st) q"
    "subdat_fn st1 = subdat_fn st" "posts_counted (status_opens (be_text env)) 1 (tx_status (texts st)) (tx_status (texts st1))" by blast
  let ?m' = "(p\<lparr>post_msg := type2 k\<rparr>, cz_trim t)"
  have "n + blocks_for (length (cz_trim t)) + blocks_of old \<le> 1024 * 1921" using Cons.prems(3) by (simp add: blocks_of_def m)
  from Cons.IH [OF S(1) _ this] Cons.prems(2) obtain st' new' where
    R: "pack_posts env sfn nfn [length (new @ [?m']) + 1..<length (new @ [?m']) + length old + 1] st1 = Some (Inr st')"
    "packing env sfn nfn st' ((new @ [?m']) @ new') [] (n + blocks_for (length (cz_trim t)) + blocks_of old)" "list_all2 repacked old new'"
    "\<forall>q. q \<noteq> dat_path (be_text env) sfn \<and> q \<noteq> dat_path (be_text env) nfn \<and> q \<noteq> subdat_fn st1 \<longrightarrow> tx_disk (texts st') q = tx_disk (texts st1) q"
    "subdat_fn st' = subdat_fn st1" "posts_counted (status_opens (be_text env)) (length old) (tx_status (texts st1)) (tx_status (texts st'))" by auto
  have "[length new + 1..<length new + length (m # old) + 1] = Suc (length new) # [length (new @ [?m']) + 1..<length (new @ [?m']) + length old + 1]"
    by (simp add: upt_conv_Cons del: upt_Suc)
  then have run: "pack_posts env sfn nfn [length new + 1..<length new + length (m # old) + 1] st = Some (Inr st')"
    using S(2) R(1) by simp
  have rep: "list_all2 repacked (m # old) (?m' # new')" using R(3) by (auto simp: repacked_def m)
  have pk: "packing env sfn nfn st' (new @ (?m' # new')) [] (n + blocks_of (m # old))"
    using R(2) by (simp add: blocks_of_def m add.assoc)
  show ?case using run pk rep R(4,5) S(3,4) posts_counted_trans [OF S(5) R(6)] by (intro exI [of _ st'] exI [of _ "?m' # new'"]) simp
qed

definition sub_path :: "base_env \<Rightarrow> int \<Rightarrow> string" where
  "sub_path env si = be_datadir env @ sub_file_name env si @ ''.sub''"

text \<open>The files of area \<open>si\<close> hold the posts \<open>msgs\<close>, as in \<open>area_rel\<close> of \<open>Msg_Area_Spec\<close>.\<close>

definition area_files :: "base_env \<Rightarrow> int \<Rightarrow> text_files \<Rightarrow> (postrec \<times> string) list \<Rightarrow> bool" where
  "area_files env si tx msgs \<longleftrightarrow>
     (\<exists>c d M. tx_disk tx (sub_path env si) = Some c \<and> dat_file_is (be_text env) (sub_file_name env si) tx d \<and> area_rel c d M msgs)"

definition pack_ready :: "base_env \<Rightarrow> int \<Rightarrow> text_files \<Rightarrow> bool" where
  "pack_ready env si tx \<longleftrightarrow>
     0 \<le> si \<and> si < int (length (be_subs env)) \<and> subboardrec.storage_type (be_subs env ! nat si) = 2
     \<and> sub_opens env (sub_path env si) \<and> sub_file_name env si \<noteq> ''PACKTMP$''
     \<and> sub_path env si \<noteq> dat_path (be_text env) (sub_file_name env si) \<and> sub_path env si \<noteq> dat_path (be_text env) ''PACKTMP$''
     \<and> dat_opens (be_text env) (dat_path (be_text env) ''PACKTMP$'') \<and> tx_disk tx (dat_path (be_text env) ''PACKTMP$'') = None
     \<and> 510 \<le> length (slack_memory (be_text env))"

text \<open>C7 Packing a message area keeps every post: \<open>pack_sub\<close> returns, the posts stand in the same order with the same records
  except for the address of the text, and the same texts as they are read (\<open>cz_trim\<close>); the file they are in has nothing else
  in it, so all other blocks are free; the temporary file is gone, and no other file is touched but \<open>STATUS.DAT\<close>: if it is
  there, and can be opened, its counter of changed posts, a byte, is one higher for every post, and if it is not there it is
  not made. This holds for an area in order with at least one post, texts of at most 127 blocks that are not empty when read,
  and at most 1024 * 1921 blocks in all.
\<close>

theorem pack_sub_keeps:
  assumes ready: "pack_ready env si (texts st)" and files: "area_files env si (texts st) msgs" and ne: "msgs \<noteq> []"
    and t: "\<forall>m \<in> set msgs. packable env (snd m)" and room: "blocks_of msgs \<le> 1024 * 1921"
  shows "\<exists>st' msgs' d. pack_sub env si st = Some (Inr st') \<and> list_all2 repacked msgs msgs' \<and> area_files env si (texts st') msgs'
    \<and> tx_disk (texts st') (dat_path (be_text env) (sub_file_name env si)) = Some d \<and> free_total d + blocks_of msgs = 1024 * 2047
    \<and> tx_disk (texts st') (dat_path (be_text env) ''PACKTMP$'') = None
    \<and> (\<forall>q. q \<noteq> dat_path (be_text env) (sub_file_name env si) \<and> q \<noteq> dat_path (be_text env) ''PACKTMP$'' \<and> q \<noteq> sub_path env si
         \<longrightarrow> tx_disk (texts st') q = tx_disk (texts st) q)
    \<and> (\<forall>c. status_ready (status_opens (be_text env)) (tx_status (texts st)) c \<longrightarrow>
         status_file (tx_status (texts st')) = Some ((IncrementFileChangedFlag fileChangePosts ^^ length msgs) c))
    \<and> (status_file (tx_status (texts st)) = None \<and> \<not> status_open (tx_status (texts st)) \<longrightarrow> status_file (tx_status (texts st')) = None)"
proof -
  let ?te = "be_text env" and ?sfn = "sub_file_name env si" and ?nfn = "''PACKTMP$''" and ?fn = "sub_path env si"
  obtain c d M where c: "tx_disk (texts st) ?fn = Some c" and d: "dat_file_is ?te ?sfn (texts st) d" and rel: "area_rel c d M msgs"
    using files unfolding area_files_def by blast
  have r: "0 \<le> si" "si < int (length (be_subs env))" "subboardrec.storage_type (be_subs env ! nat si) = 2" "sub_opens env ?fn"
    "?sfn \<noteq> ?nfn" "?fn \<noteq> dat_path ?te ?sfn" "?fn \<noteq> dat_path ?te ?nfn" "dat_opens ?te (dat_path ?te ?nfn)"
    "tx_disk (texts st) (dat_path ?te ?nfn) = None" "510 \<le> length (slack_memory ?te)"
    using ready by (simp_all add: pack_ready_def)
  have names: "dat_path ?te ?nfn \<noteq> dat_path ?te ?sfn" using r(5) by (auto simp: dat_path_def)
  have sr: "sub_rel c (map fst msgs)" "store_inv d M" using rel by (simp_all add: area_rel_def)
  have num: "unat (owneruser (read_rec 0 old c)) = length msgs" for old using sub_rel_recs(2) [OF sr(1)] by simp
  define st1 where "st1 = close_sub (set_subchg False (st\<lparr>subdat_fn := ?fn, file_sub := Some False, read_area := si, num_messages := length msgs\<rparr>))"
  have scan: "iscan1 env si st = (True, st1)"
    using r(1,2,4) c num by (simp add: iscan1_def open_sub_def close_sub_def sub_bytes_def st1_def Let_def flip: sub_path_def)
  define st2 where "st2 = st1\<lparr>file_sub := Some True, num_messages := length msgs\<rparr>"
  have tx1: "texts st1 = (texts st)\<lparr>tx_status := (tx_status (texts st))\<lparr>subchg := False\<rparr>\<rparr>" by (simp add: st1_def close_sub_def set_subchg_def)
  have upd: "(tx_disk (texts st))(?fn \<mapsto> c) = tx_disk (texts st)" using fun_upd_triv [of "tx_disk (texts st)" ?fn] c by simp
  have opened: "open_sub env True st1 = (True, st2)"
    using r(4) c num
    by (simp add: open_sub_def close_sub_def sub_bytes_def set_sub_bytes_def set_disk_def set_subchg_def st1_def st2_def upd Let_def)
  have st2: "tx_disk (texts st2) = tx_disk (texts st)" "tx_gat (texts st2) = tx_gat (texts st)" "subdat_fn st2 = ?fn" "file_sub st2 = Some True" "num_messages st2 = length msgs"
    by (simp_all add: st2_def st1_def close_sub_def set_subchg_def)
  have tx2: "tx_status (texts st2) = (tx_status (texts st))\<lparr>subchg := False\<rparr>" by (simp add: st2_def tx1)
  obtain z where z: "new_file ?te ?nfn (texts st2) z" "store_inv z Map.empty" "free_total z + 0 = 1024 * 2047" "z = replicate 80896 NUL"
  proof
    show "new_file ?te ?nfn (texts st2) (replicate 80896 NUL)" using r(8,9) d by (simp add: new_file_def dat_file_is_def st2)
    show "store_inv (replicate 80896 NUL) Map.empty" by (intro store_inv_empty whole_GAT_end [of _ 0 150]) simp_all
    show "free_total (replicate 80896 NUL) + 0 = 1024 * 2047" using free_total_new [of 80896] by simp
  qed (rule refl)
  have d': "dat_file_is ?te ?sfn (texts st2) d" using d by (simp add: dat_file_is_def st2)
  have old: "\<exists>d M. dat_file_is ?te ?sfn (texts st2) d \<and> store_inv d M
      \<and> (\<forall>m \<in> set msgs. messagerec.storage_type (post_msg (fst m)) = 2 \<and> M (key_of (fst m)) = Some (snd m))"
    using d' rel unfolding area_rel_def by blast
  have new: "\<exists>d M. new_file ?te ?nfn (texts st2) d \<and> store_inv d M \<and> free_total d + 0 = 1024 * 2047"
    using z(1-3) by blast
  have "packing env ?sfn ?nfn st2 [] msgs 0"
    unfolding packing_def st2(1,3-5) using old new c sr(1) r(6,7) by simp
  from pack_posts_keep [OF this names t r(10)] room obtain s msgs' where
    run: "pack_posts env ?sfn ?nfn [1..<length msgs + 1] st2 = Some (Inr s)" and pk: "packing env ?sfn ?nfn s msgs' [] (blocks_of msgs)"
    and rep: "list_all2 repacked msgs msgs'" and subfn: "subdat_fn s = ?fn"
    and others: "\<And>q. q \<noteq> dat_path ?te ?sfn \<Longrightarrow> q \<noteq> dat_path ?te ?nfn \<Longrightarrow> q \<noteq> ?fn \<Longrightarrow> tx_disk (texts s) q = tx_disk (texts st) q"
    and count: "posts_counted (status_opens ?te) (length msgs) (tx_status (texts st2)) (tx_status (texts s))"
    by (auto simp: st2)
  obtain c' d' M' where c': "tx_disk (texts s) ?fn = Some c'" "sub_rel c' (map fst msgs')"
    and d': "new_file ?te ?nfn (texts s) d'" "store_inv d' M'" "free_total d' + blocks_of msgs = 1024 * 2047"
      "distinct (map (\<lambda>m. key_of (fst m)) msgs')" "\<forall>m \<in> set msgs'. messagerec.storage_type (post_msg (fst m)) = 2 \<and> M' (key_of (fst m)) = Some (snd m)"
    using pk unfolding packing_def subfn by auto
  have "0 < blocks_of msgs"
  proof -
    obtain m ms where "msgs = m # ms" using ne by (cases msgs) auto
    then show ?thesis using t blocks_for_pos [of "length (cz_trim (snd m))"] by (simp add: blocks_of_def packable_def)
  qed
  then have "d' \<noteq> z" using d'(3) z(3) by auto
  then have new: "dat_file_is ?te ?nfn (texts s) d'" using d'(1) unfolding new_file_def z(4) [symmetric] by blast
  define fs where "fs = ((tx_disk (texts s))(dat_path ?te ?sfn := None, dat_path ?te ?nfn := None))(dat_path ?te ?sfn \<mapsto> d')"
  define st' where "st' = close_sub (set_disk fs s)"
  have "snd (File_Rename (dat_path ?te ?nfn) (dat_path ?te ?sfn) (snd (File_Remove (dat_path ?te ?sfn) (tx_disk (texts s))))) = fs"
    using new names by (simp add: File_Rename_def File_Remove_def dat_file_is_def fs_def)
  then have packed: "pack_sub env si st = Some (Inr st')"
    using scan opened r(3) run unfolding pack_sub_def by (simp add: st2 Let_def st'_def del: upt_Suc)
  have tx: "texts st' = (texts s)\<lparr>tx_disk := fs\<rparr>" by (simp add: st'_def close_sub_def set_disk_def)
  have "dat_opens ?te (dat_path ?te ?sfn)" using d by (simp add: dat_file_is_def)
  then have "dat_file_is ?te ?sfn (texts st') d'" using new by (simp add: tx fs_def dat_file_is_def)
  moreover have "tx_disk (texts st') ?fn = Some c'" using c'(1) r(6,7) by (simp add: tx fs_def)
  moreover have "area_rel c' d' M' msgs'" using c'(2) d' by (simp add: area_rel_def)
  ultimately have "area_files env si (texts st') msgs'" unfolding area_files_def by blast
  moreover have "tx_disk (texts st') (dat_path ?te ?sfn) = Some d'" "tx_disk (texts st') (dat_path ?te ?nfn) = None"
    using names by (simp_all add: tx fs_def)
  moreover have "tx_disk (texts st') q = tx_disk (texts st) q" if "q \<noteq> dat_path ?te ?sfn" "q \<noteq> dat_path ?te ?nfn" "q \<noteq> ?fn" for q
    using others [OF that] that by (simp add: tx fs_def)
  moreover have "posts_counted (status_opens ?te) (length msgs) (tx_status (texts st)) (tx_status (texts st'))"
    using posts_counted_trans [OF posts_counted_none(2) count [unfolded tx2]] by (simp add: tx)
  ultimately show ?thesis using packed rep d'(3) unfolding posts_counted_def status_ready_def by blast
qed

section \<open>Finding a post again\<close>

definition readable :: "base_env \<Rightarrow> base_state \<Rightarrow> postrec list \<Rightarrow> bool" where
  "readable env st ps \<longleftrightarrow> sub_opens env (subdat_fn st) \<and> num_messages st = length ps
     \<and> (\<exists>c. tx_disk (texts st) (subdat_fn st) = Some c \<and> sub_rel c ps)"

lemma readable_same [simp]:
  "readable env (st\<lparr>static_post := p\<rparr>) ps = readable env st ps" "readable env (refresh_status env st) ps = readable env st ps"
  by (simp_all add: readable_def refresh_status_def)

text \<open>Also when the file has to be opened for it, and the number may be too large.\<close>

lemma get_post_readable:
  assumes r: "readable env st ps" and n: "1 \<le> mn" "ps \<noteq> []"
  shows "get_post env mn st = (Some (ps ! (min (nat mn) (length ps) - 1)), st\<lparr>static_post := ps ! (min (nat mn) (length ps) - 1)\<rparr>)"
proof -
  obtain c where c: "tx_disk (texts st) (subdat_fn st) = Some c" "sub_rel c ps" "sub_opens env (subdat_fn st)" "num_messages st = length ps"
    using r by (auto simp: readable_def)
  let ?i = "min (nat mn) (length ps) - 1"
  have i: "?i < length ps" "(if int (length ps) < mn then length ps else nat mn) = Suc ?i" using n by (cases ps; auto simp: min_def)+
  note q = sub_rel_recs(1) [OF c(2) i(1)]
  have "st\<lparr>file_sub := None, static_post := x\<rparr> = st\<lparr>static_post := x\<rparr>" if "file_sub st = None" for x
    using that by (metis (full_types) base_state.surjective base_state.update_convs(2,7))
  then show ?thesis
    using n(1) c(1,3,4) q unfolding get_post_def i(2) c(4)
    by (cases "file_sub st") (simp_all add: open_sub_def close_sub_def sub_bytes_def Let_def)
qed

lemma resynch_loop_stops:
  assumes "readable env st ps" "\<forall>j \<in> set js. 1 \<le> j \<and> j \<le> int (length ps) \<and> \<not> IsSamePost p (ps ! (nat j - 1)) \<and> \<not> passed (ps ! (nat j - 1))"
    "i < length ps" "IsSamePost p (ps ! i)"
  shows "\<exists>st'. resynch_loop env p passed d (js @ int (Suc i) # js') st = Inr (int (Suc i), st') \<and> readable env st' ps"
  using assms(1,2)
proof (induction js arbitrary: st)
  case Nil
  have "get_post env (int (Suc i)) st = (Some (ps ! i), st\<lparr>static_post := ps ! i\<rparr>)"
    using get_post_readable [OF Nil(1), of "int (Suc i)"] assms(3) by (cases ps) (auto simp: nat_1_int)
  then show ?case using assms(4) Nil(1) by simp
next
  case (Cons j js)
  have j: "1 \<le> j" "j \<le> int (length ps)" "\<not> IsSamePost p (ps ! (nat j - 1))" "\<not> passed (ps ! (nat j - 1))" using Cons.prems(2) by auto
  have "ps \<noteq> []" using assms(3) by auto
  then have "get_post env j st = (Some (ps ! (nat j - 1)), st\<lparr>static_post := ps ! (nat j - 1)\<rparr>)"
    using get_post_readable [OF Cons.prems(1) j(1)] j(2) by (simp add: min_def)
  then show ?case using j(3,4) Cons.IH [of "st\<lparr>static_post := ps ! (nat j - 1)\<rparr>"] Cons.prems by simp
qed

lemma same_qscan: "IsSamePost p q \<Longrightarrow> qscan p = qscan q" "IsSamePost p q = IsSamePost q p"
  by (auto simp: IsSamePost_def)

lemma upto_around:
  assumes "a \<le> int i + 1" "int i + 1 \<le> b"
  shows "[a..b] = [a..int i] @ int (Suc i) # [int i + 2..b]"
proof -
  have "[a..b] = [a..int i + 1 - 1] @ (int i + 1) # [int i + 1 + 1..b]" using assms by (intro upto_split3) auto
  then show ?thesis by (simp add: algebra_simps)
qed

text \<open>C16 A post that is still there is found again: wherever posts have been added or deleted, when the area has the posts
  \<open>ps\<close> with growing \<open>qscan\<close> now and the \<open>i\<close>-th of them is the post \<open>p\<close> that was being read, \<open>resynch\<close> returns its number,
  whatever number it had. The one exception is the last post after earlier ones were deleted: its old number, which is too
  large now, is kept, and reads the same post.
\<close>

theorem resynch_finds:
  assumes r: "readable env st ps" and s: "sorted_wrt (\<lambda>p q. qscan p < qscan q) ps"
    and i: "i < length ps" "IsSamePost (ps ! i) p" and m: "1 \<le> msgnum"
  shows "\<exists>st'. resynch env msgnum (Some p) st
      = Inr (if int (length ps) < msgnum \<and> Suc i = length ps then msgnum else int (Suc i), st') \<and> readable env st' ps"
proof -
  let ?n = "length ps" and ?st = "refresh_status env st"
  have ne: "ps \<noteq> []" using i by auto
  define k where "k = min (nat msgnum) ?n - 1"
  have k: "k < ?n" "int (Suc k) \<le> msgnum" "msgnum \<le> int ?n \<Longrightarrow> msgnum = int (Suc k)" "int ?n < msgnum \<Longrightarrow> Suc k = ?n"
    using ne m by (cases ps; auto simp: k_def min_def)+
  have g: "get_post env msgnum ?st = (Some (ps ! k), ?st\<lparr>static_post := ps ! k\<rparr>)"
    using get_post_readable [OF _ m ne, of env ?st] r by (simp add: k_def)
  have lt: "qscan (ps ! a) < qscan (ps ! b) \<longleftrightarrow> a < b" if "a < ?n" "b < ?n" for a b
  proof (cases a b rule: linorder_cases)
    case less
    then show ?thesis using s that by (simp add: sorted_wrt_iff_nth_less)
  next
    case greater
    then have "qscan (ps ! b) < qscan (ps ! a)" using s that by (simp add: sorted_wrt_iff_nth_less)
    then show ?thesis using greater by simp
  qed simp
  have num: "num_messages (?st\<lparr>static_post := ps ! k\<rparr>) = ?n" using r by (simp add: readable_def refresh_status_def)
  have p: "qscan p = qscan (ps ! i)" "IsSamePost p (ps ! i)" using same_qscan i(2) by metis+
  have other: "\<not> IsSamePost p (ps ! a)" if "a < ?n" "a \<noteq> i" for a
    using same_qscan(1) [of p "ps ! a"] lt [OF that(1) i(1)] lt [OF i(1) that(1)] that(2) p(1) by (metis less_irrefl nat_neq_iff)
  let ?run = "resynch env msgnum (Some p) st" and ?s = "?st\<lparr>static_post := ps ! k\<rparr>"
  have rs: "readable env ?s ps" using r by simp
  consider "k = i" | "i < k" | "k < i" by linarith
  then show ?thesis
  proof cases
    case 1
    then have "?run = Inr (msgnum, ?s)" using g i(2) by (simp add: resynch_def)
    then show ?thesis using 1 k rs by (cases "int ?n < msgnum") auto
  next
    case 2
    have q: "\<not> IsSamePost (ps ! k) p" "qscan p < qscan (ps ! k)" using other [OF k(1)] same_qscan(2) 2 lt [OF i(1) k(1)] p(1) by auto
    obtain w where w: "(if int ?n < msgnum then int ?n + 1 else msgnum) - 1 = w" by simp
    have top: "int i + 1 \<le> w" "w \<le> int ?n" using 2 k w by (auto split: if_splits)
    have parts: "rev [1..w] = rev [int i + 2..w] @ int (Suc i) # rev [1..int i]" using upto_around [of 1 i w] top by simp
    have "\<forall>j \<in> set (rev [int i + 2..w]). 1 \<le> j \<and> j \<le> int ?n \<and> \<not> IsSamePost p (ps ! (nat j - 1)) \<and> \<not> qscan (ps ! (nat j - 1)) \<le> qscan p"
    proof
      fix j assume "j \<in> set (rev [int i + 2..w])"
      then have j: "int i + 2 \<le> j" "j \<le> int ?n" using top(2) by simp_all
      then have a: "nat j - 1 < ?n" "i < nat j - 1" by linarith+
      then show "1 \<le> j \<and> j \<le> int ?n \<and> \<not> IsSamePost p (ps ! (nat j - 1)) \<and> \<not> qscan (ps ! (nat j - 1)) \<le> qscan p"
        using j other [OF a(1)] lt [OF i(1) a(1)] p(1) by auto
    qed
    from resynch_loop_stops [OF rs this i(1) p(2), of 0 "rev [1..int i]"] show ?thesis
      using g q 2 k num by (simp add: resynch_def w parts del: if_split)
  next
    case 3
    have q: "\<not> IsSamePost (ps ! k) p" "\<not> qscan p < qscan (ps ! k)" using other [OF k(1)] same_qscan(2) 3 lt [OF i(1) k(1)] p(1) by auto
    have msg: "msgnum = int (Suc k)" "\<not> int ?n < msgnum" using 3 k i(1) by linarith+
    have parts: "[2 + int k..int ?n] = [2 + int k..int i] @ int (Suc i) # [int i + 2..int ?n]"
      by (rule upto_around) (use 3 i(1) in simp_all)
    have "\<forall>j \<in> set [msgnum + 1..int i]. 1 \<le> j \<and> j \<le> int ?n \<and> \<not> IsSamePost p (ps ! (nat j - 1)) \<and> \<not> qscan p \<le> qscan (ps ! (nat j - 1))"
    proof
      fix j assume "j \<in> set [msgnum + 1..int i]"
      then have j: "int (Suc k) + 1 \<le> j" "j \<le> int i" using msg by simp_all
      then have a: "nat j - 1 < ?n" "nat j - 1 < i" using i(1) by linarith+
      then show "1 \<le> j \<and> j \<le> int ?n \<and> \<not> IsSamePost p (ps ! (nat j - 1)) \<and> \<not> qscan p \<le> qscan (ps ! (nat j - 1))"
        using j i(1) other [OF a(1)] lt [OF a(1) i(1)] p(1) by auto
    qed
    from resynch_loop_stops [OF rs this i(1) p(2), of ?n "[int i + 2..int ?n]"] show ?thesis
      using g q msg num by (simp add: resynch_def parts)
  qed
qed

section \<open>An area in the witnesses\<close>

text \<open>The records of a \<open>.sub\<close> file behind its header.\<close>

definition sub_of :: "postrec list \<Rightarrow> bytes" where
  "sub_of ps = enc_subfile_header (WWIVMessageAreaHeader 50 0 (word_of_nat (length ps))) @ concat (map enc_postrec ps)"

lemma sub_rel_sub_of:
  assumes ps: "\<And>p. p \<in> set ps \<Longrightarrow> valid_postrec p" and n: "length ps < 65536"
  shows "sub_rel (sub_of ps) ps"
proof -
  let ?h = "WWIVMessageAreaHeader 50 0 (word_of_nat (length ps))" and ?r = "dec_postrec (enc_subfile_header (WWIVMessageAreaHeader 50 0 (word_of_nat (length ps))))"
  have v: "valid_subfile_header ?h" by (simp add: valid_subfile_header_def WWIVMessageAreaHeader_def)
  have len: "length (enc_subfile_header ?h) = 100" using v by (rule header_codec.length_enc)
  have vr: "valid_postrec ?r" using len by (rule postrec_codec.valid_dec)
  have "sub_of ps = concat (map enc_postrec (?r # ps))" by (simp add: sub_of_def enc_dec_postrec [OF len])
  then have "posts (sub_of ps) = ?r # ps @ []" using postrec_codec.recs_concat_enc [of "?r # ps"] vr ps by auto
  moreover have "unat (header_count ?r) = length ps"
    using n by (simp add: header_count_def enc_dec_postrec [OF len] dec_enc_subfile_header [OF v])
      (simp add: WWIVMessageAreaHeader_def unat_of_nat)
  moreover have "100 dvd length (sub_of ps)"
    using postrec_codec.length_concat_enc [of ps] ps len by (auto simp: sub_of_def)
  ultimately show ?thesis unfolding sub_rel_def using n by blast
qed

definition demo_board :: subboardrec where
  "demo_board = \<lparr>sb_name = ''General'', sb_filename = ''GENERAL'', sb_key = CHR 0x00, readsl = 10, postsl = 10, anony = 0, sb_age = 0,
     maxmsgs = 50, sb_ar = 0, storage_type = 2, sb_type = 0\<rparr>"

definition demo_status :: status_mgr where
  "demo_status = \<lparr>status = replicate 151 NUL, status_file = Some (replicate 151 NUL), status_open = False, subchg = False, emchg = False, mailcheck = False\<rparr>"

definition demo_env :: base_env where
  "demo_env = \<lparr>be_text = \<lparr>msgsdir = ''msgs/'', dat_opens = (\<lambda>_. True), slack_memory = replicate 511 NUL, status_opens = True\<rparr>, be_datadir = ''data/'',
     be_subs = [demo_board], sub_opens = (\<lambda>_. True), left_over = zero_post\<rparr>"

definition demo_state :: "bytes \<Rightarrow> bytes \<Rightarrow> nat \<Rightarrow> base_state" where
  "demo_state c d n = \<lparr>texts = \<lparr>tx_disk = [''data/GENERAL.sub'' \<mapsto> c, ''msgs/GENERAL.dat'' \<mapsto> d], tx_gat = replicate GAT_NUMBER_ELEMENTS 0,
     tx_section = 0, tx_status = demo_status\<rparr>, file_sub = None, subdat_fn = ''data/GENERAL.sub'', num_messages = n, read_area = 0, static_post = zero_post\<rparr>"

lemma demo_names: "sub_file_name demo_env 0 = ''GENERAL''" "sub_path demo_env 0 = ''data/GENERAL.sub''"
  "dat_path (be_text demo_env) name = ''msgs/'' @ name @ ''.dat''"
  by (simp_all add: sub_file_name_def sub_path_def dat_path_def demo_env_def demo_board_def c_str_def NUL_def)

lemma demo_state_simps [simp]: "num_messages (demo_state c d n) = n" "file_sub (demo_state c d n) = None" "read_area (demo_state c d n) = 0"
  "subdat_fn (demo_state c d n) = ''data/GENERAL.sub''" "tx_gat (texts (demo_state c d n)) = replicate GAT_NUMBER_ELEMENTS 0"
  "tx_status (texts (demo_state c d n)) = demo_status" "tx_disk (texts (demo_state c d n)) = [''data/GENERAL.sub'' \<mapsto> c, ''msgs/GENERAL.dat'' \<mapsto> d]"
  by (simp_all add: demo_state_def)

lemma demo_env_simps [simp]: "be_subs demo_env = [demo_board]" "sub_opens demo_env q" "dat_opens (be_text demo_env) q"
  "slack_memory (be_text demo_env) = replicate 511 NUL" "status_opens (be_text demo_env)" "subboardrec.storage_type demo_board = 2"
  by (simp_all add: demo_env_def demo_board_def)

lemma demo_files: "area_rel c d M msgs \<Longrightarrow> d \<noteq> [] \<Longrightarrow> area_files demo_env 0 (texts (demo_state c d n)) msgs"
proof -
  assume rel: "area_rel c d M msgs" and d: "d \<noteq> []"
  then have "whole d" by (simp add: area_rel_def store_inv_def)
  then have "dat_file_is (be_text demo_env) ''GENERAL'' (texts (demo_state c d n)) d"
    using whole_start [OF _ d] by (simp add: dat_file_is_def demo_names)
  then show ?thesis using rel unfolding area_files_def demo_names by auto
qed

lemma demo_one: "\<exists>c d M p. area_rel c d M [(p, post_text demo_time demo_message)] \<and> d \<noteq> []"
proof -
  obtain c d M p where rel: "area_rel c d M [(p, post_text demo_time demo_message)]"
    using demo_posted by (auto simp: area_inv_def)
  then have "M (key_of p) = Some (post_text demo_time demo_message)" "store_inv d M" by (simp_all add: area_rel_def)
  then show ?thesis using rel store_not_empty by blast
qed

lemma demo_packable: "packable demo_env (post_text demo_time demo_message)"
proof -
  have "CZ \<notin> set (post_text demo_time demo_message)" "NUL \<notin> set (post_text demo_time demo_message)" "post_text demo_time demo_message \<noteq> []"
    unfolding demo_text by (simp_all add: CRLF_def CZ_def NUL_def)
  moreover from this(1) have "cz_trim (post_text demo_time demo_message) = post_text demo_time demo_message" by (rule cz_trim_id)
  moreover have "blocks_for (length (post_text demo_time demo_message)) < 128" unfolding demo_text by (simp add: CRLF_def blocks_for_def)
  ultimately show ?thesis by (simp add: packable_def)
qed

theorem pack_sub_keeps_witness:
  "\<exists>st st' p p'. area_files demo_env 0 (texts st) [(p, post_text demo_time demo_message)] \<and> pack_sub demo_env 0 st = Some (Inr st')
    \<and> area_files demo_env 0 (texts st') [(p', cz_trim (post_text demo_time demo_message))]
    \<and> status_file (tx_status (texts st')) = Some (IncrementFileChangedFlag fileChangePosts (replicate 151 NUL))"
proof -
  obtain c d M p where rel: "area_rel c d M [(p, post_text demo_time demo_message)]" "d \<noteq> []" using demo_one by blast
  have ready: "pack_ready demo_env 0 (texts (demo_state c d 1))" by (simp add: pack_ready_def demo_names)
  have room: "blocks_of [(p, post_text demo_time demo_message)] \<le> 1024 * 1921"
    using demo_packable by (simp add: blocks_of_def packable_def)
  have t: "\<forall>m \<in> set [(p, post_text demo_time demo_message)]. packable demo_env (snd m)" using demo_packable by simp
  from pack_sub_keeps [OF ready demo_files [OF rel] _ t room] obtain st' msgs' where
    "pack_sub demo_env 0 (demo_state c d 1) = Some (Inr st')" "list_all2 repacked [(p, post_text demo_time demo_message)] msgs'"
    "area_files demo_env 0 (texts st') msgs'"
    "\<forall>c. status_ready True demo_status c \<longrightarrow> status_file (tx_status (texts st')) = Some ((IncrementFileChangedFlag fileChangePosts ^^ 1) c)"
    by auto
  moreover have "status_ready True demo_status (replicate 151 NUL)" by (simp add: status_ready_def demo_status_def STATUS_SIZE_def)
  ultimately show ?thesis using demo_files [OF rel] by (fastforce simp: list_all2_Cons1 repacked_def)
qed

definition demo_post :: "u32 \<Rightarrow> postrec" where
  "demo_post q = empty_postrec\<lparr>qscan := q\<rparr>"

lemma demo_readable: "readable demo_env (demo_state (sub_of [demo_post 5, demo_post 7, demo_post 9]) [] 3) [demo_post 5, demo_post 7, demo_post 9]"
proof -
  have "sub_rel (sub_of [demo_post 5, demo_post 7, demo_post 9]) [demo_post 5, demo_post 7, demo_post 9]"
    by (rule sub_rel_sub_of) (auto simp: demo_post_def empty_postrec_def valid_postrec_def)
  then show ?thesis by (simp add: readable_def)
qed

text \<open>The caller was reading number 1, which is number 3 now.\<close>

theorem resynch_finds_witness:
  "\<exists>st'. resynch demo_env 1 (Some (demo_post 9)) (demo_state (sub_of [demo_post 5, demo_post 7, demo_post 9]) [] 3) = Inr (3, st')"
  using resynch_finds [OF demo_readable, of 2 "demo_post 9" 1]
  by (auto simp: IsSamePost_def demo_post_def empty_postrec_def)

end
