(* ===== verification/Bbs_Area.thy ===== *)
theory Bbs_Area
  imports Bbs_Pack
begin

text \<open>
  The message area as the interactive program has it open (\<open>at_area\<close>) refines the list of posts of
  \<open>Msg_Area_Spec\<close>, as it does in the \<open>sdk\<close>: saving a text and adding its record appends a post, deleting takes the
  n-th one out, and \<open>get_post\<close> with \<open>bbs_readfile\<close> reads the n-th one.
\<close>

section \<open>The area in use\<close>

definition at_area :: "base_env \<Rightarrow> int \<Rightarrow> base_state \<Rightarrow> (postrec \<times> string) list \<Rightarrow> bool" where
  "at_area env si st msgs \<longleftrightarrow> 0 \<le> si \<and> si < int (length (be_subs env)) \<and> read_area st = si \<and> subdat_fn st = sub_path env si
     \<and> file_sub st \<noteq> Some False \<and> sub_opens env (sub_path env si) \<and> sub_path env si \<noteq> dat_path (be_text env) (sub_file_name env si)
     \<and> num_messages st = length msgs \<and> area_files env si (texts st) msgs"

lemma at_area_files:
  assumes "at_area env si st msgs"
  obtains c d M where "tx_disk (texts st) (sub_path env si) = Some c" "dat_file_is (be_text env) (sub_file_name env si) (texts st) d"
    "area_rel c d M msgs"
  using assms by (auto simp: at_area_def area_files_def)

text \<open>The operations open the file for their own time, if it is not open already.\<close>

lemma sub_open:
  assumes b: "subdat_fn st = fn" "file_sub st \<noteq> Some False" "sub_opens env fn" "num_messages st = length ps"
    and c: "tx_disk (texts st) fn = Some c" "sub_rel c ps"
  shows "(if file_sub st = None then snd (open_sub env True st) else st) = st\<lparr>file_sub := Some True\<rparr>"
    "(if file_sub st = None then close_sub s else s) = s\<lparr>file_sub := (if file_sub st = None then None else file_sub s)\<rparr>"
proof -
  have n: "unat (owneruser (read_rec 0 (left_over env) c)) = length ps" using sub_rel_recs(2) [OF c(2)] .
  have upd: "(texts st)\<lparr>tx_disk := (tx_disk (texts st))(fn \<mapsto> c)\<rparr> = texts st"
    using fun_upd_triv [of "tx_disk (texts st)" fn] c(1) by simp
  show "(if file_sub st = None then snd (open_sub env True st) else st) = st\<lparr>file_sub := Some True\<rparr>"
  proof (cases "file_sub st")
    case None
    then show ?thesis using b c(1) n upd
      by (simp add: open_sub_def close_sub_def sub_bytes_def set_sub_bytes_def set_disk_def Let_def)
  next
    case (Some x)
    then have "st\<lparr>file_sub := Some True\<rparr> = st" using b(2) by (cases st) simp
    then show ?thesis using Some by simp
  qed
  show "(if file_sub st = None then close_sub s else s) = s\<lparr>file_sub := (if file_sub st = None then None else file_sub s)\<rparr>"
    by (simp add: close_sub_def)
qed

lemma at_area_replace:
  assumes a: "at_area env si st msgs" and s: "read_area s = read_area st" "subdat_fn s = subdat_fn st" "file_sub s \<noteq> Some False"
    and n: "num_messages s = length msgs'" and disk: "tx_disk (texts s) (sub_path env si) = Some c"
    and dat: "dat_file_is (be_text env) (sub_file_name env si) (texts s) d" and rel: "area_rel c d M msgs'"
  shows "at_area env si s msgs'"
  using assms unfolding at_area_def area_files_def by auto

section \<open>Records\<close>

lemma write_rec_open:
  assumes "file_sub st = Some True" "tx_disk (texts st) (subdat_fn st) = Some c"
  shows "texts (write_rec n p st) = (texts st)\<lparr>tx_disk := (tx_disk (texts st))(subdat_fn st \<mapsto> overwrite c (n * 100) (enc_postrec p))\<rparr>"
    "read_area (write_rec n p st) = read_area st"
  using assms by (simp_all add: write_rec_def set_sub_bytes_def set_disk_def sub_bytes_def)

lemma posts_header:
  assumes c: "posts c = h0 # rs" "100 dvd length c" and h: "valid_postrec h"
  shows "posts (overwrite c 0 (enc_postrec h)) = h # rs" "100 dvd length (overwrite c 0 (enc_postrec h))"
proof -
  have "posts (overwrite c (0 * 100) (enc_postrec h)) = take 0 (posts c) @ h # drop (Suc 0) (posts c)"
    by (rule postrec_codec.recs_overwrite [OF h c(2)]) simp
  then show "posts (overwrite c 0 (enc_postrec h)) = h # rs" by (simp add: c(1))
  show "100 dvd length (overwrite c 0 (enc_postrec h))"
    using postrec_codec.dvd_length_overwrite [OF h c(2), of 0] by simp
qed

lemma header_count_step:
  assumes h: "valid_postrec h" "unat (header_count h) = n" "n < 65536"
  shows "Suc n < 65536 \<Longrightarrow> unat (header_count (h\<lparr>owneruser := owneruser h + 1\<rparr>)) = Suc n \<and> unat (owneruser h + 1) = Suc n"
    "0 < n \<Longrightarrow> unat (header_count (h\<lparr>owneruser := owneruser h - 1\<rparr>)) = n - 1 \<and> unat (owneruser h - 1) = n - 1"
proof -
  have "word_of_nat (unat (owneruser h)) = owneruser h" by simp
  then have o: "owneruser h = word_of_nat n" by (simp only: owneruser_header [OF h])
  have u: "unat (word_of_nat m :: u16) = m" if "m < 65536" for m using that by (simp add: unat_of_nat)
  have set: "unat (header_count (h\<lparr>owneruser := word_of_nat m\<rparr>)) = m" if "m < 65536" for m
    using header_count_set [OF h(1) _ that] h(2,3) by simp
  have "owneruser h + 1 = word_of_nat (Suc n)" unfolding o by simp
  then show "unat (header_count (h\<lparr>owneruser := owneruser h + 1\<rparr>)) = Suc n \<and> unat (owneruser h + 1) = Suc n" if "Suc n < 65536"
    using set [OF that] u [OF that] by (simp only:)
  have "owneruser h - 1 = word_of_nat (n - 1)" if "0 < n" unfolding o using that by (simp add: of_nat_diff)
  then show "unat (header_count (h\<lparr>owneruser := owneruser h - 1\<rparr>)) = n - 1 \<and> unat (owneruser h - 1) = n - 1" if "0 < n"
    using set [of "n - 1"] u [of "n - 1"] h(3) that by (simp only:)
qed

lemma sub_rel_append:
  assumes rel: "sub_rel c ps" and p: "valid_postrec p" and room: "Suc (length ps) < 65536"
    and h_def: "h = read_rec 0 old c" and h1_def: "h1 = h\<lparr>owneruser := owneruser h + 1\<rparr>"
  shows "sub_rel (overwrite (overwrite c 0 (enc_postrec h1)) (Suc (length ps) * 100) (enc_postrec p)) (ps @ [p])"
    "unat (owneruser h1) = Suc (length ps)"
proof -
  have h: "valid_postrec h" "unat (header_count h) = length ps" unfolding h_def using sub_rel_recs(3,4) [OF rel] by simp_all
  have num: "length ps < 65536" using room by simp
  have h1: "valid_postrec h1" "unat (header_count h1) = Suc (length ps)" "unat (owneruser h1) = Suc (length ps)"
    using h header_count_step(1) [OF h num room] by (simp_all add: h1_def valid_postrec_def)
  show "unat (owneruser h1) = Suc (length ps)" by (rule h1(3))
  obtain h0 rest where c: "posts c = h0 # ps @ rest" "100 dvd length c" using rel unfolding sub_rel_def by blast
  let ?c1 = "overwrite c 0 (enc_postrec h1)"
  note p1 = posts_header(1) [OF c h1(1)] and d1 = posts_header(2) [OF c h1(1)]
  have len: "length ?c1 div 100 = Suc (length ps + length rest)" using arg_cong [OF p1, of length] by simp
  have "posts (overwrite ?c1 (Suc (length ps) * 100) (enc_postrec p)) = take (Suc (length ps)) (posts ?c1) @ p # drop (Suc (Suc (length ps))) (posts ?c1)"
    by (rule postrec_codec.recs_overwrite [OF p d1]) (simp add: len)
  then have "posts (overwrite ?c1 (Suc (length ps) * 100) (enc_postrec p)) = h1 # (ps @ [p]) @ drop 1 rest" by (simp add: p1)
  moreover have "100 dvd length (overwrite ?c1 (Suc (length ps) * 100) (enc_postrec p))"
    using postrec_codec.dvd_length_overwrite [OF p d1] .
  ultimately show "sub_rel (overwrite ?c1 (Suc (length ps) * 100) (enc_postrec p)) (ps @ [p])"
    unfolding sub_rel_def using h1(2) room by auto
qed

section \<open>Appending\<close>

lemma bbs_add_post_eq:
  assumes b: "subdat_fn st = fn" "file_sub st \<noteq> Some False" "sub_opens env fn" "num_messages st = length ps"
    and c: "tx_disk (texts st) fn = Some c" "sub_rel c ps" and p: "valid_postrec p" "Suc (length ps) < 65536"
  shows "\<exists>c'. sub_rel c' (ps @ [p]) \<and> tx_disk (texts (bbs_add_post env p st)) = (tx_disk (texts st))(fn \<mapsto> c')
    \<and> tx_gat (texts (bbs_add_post env p st)) = tx_gat (texts st)
    \<and> read_area (bbs_add_post env p st) = read_area st \<and> subdat_fn (bbs_add_post env p st) = subdat_fn st
    \<and> file_sub (bbs_add_post env p st) \<noteq> Some False \<and> num_messages (bbs_add_post env p st) = Suc (length ps)"
proof -
  note open_close = sub_open [OF b c]
  define h1 where "h1 = read_rec 0 (left_over env) c\<lparr>owneruser := owneruser (read_rec 0 (left_over env) c) + 1\<rparr>"
  note S = sub_rel_append [OF c(2) p refl h1_def]
  let ?c1 = "overwrite c 0 (enc_postrec h1)" let ?c2 = "overwrite ?c1 (Suc (length ps) * 100) (enc_postrec p)"
  define T where "T = (texts st)\<lparr>tx_status := RefreshStatusCache (status_opens (be_text env)) (tx_status (texts st))\<rparr>"
  have T: "tx_disk T = tx_disk (texts st)" "tx_gat T = tx_gat (texts st)" by (simp_all add: T_def)
  define s1 where "s1 = refresh_status env (st\<lparr>file_sub := Some True\<rparr>)\<lparr>num_messages := Suc (length ps)\<rparr>"
  have s1: "file_sub s1 = Some True" "subdat_fn s1 = fn" "texts s1 = T" "read_area s1 = read_area st" "num_messages s1 = Suc (length ps)"
    using b(1) by (simp_all add: s1_def refresh_status_def T_def)
  define s2 where "s2 = write_rec 0 h1 s1"
  have s2: "file_sub s2 = Some True" "subdat_fn s2 = fn" "texts s2 = T\<lparr>tx_disk := (tx_disk T)(fn \<mapsto> ?c1)\<rparr>"
    "read_area s2 = read_area st" "num_messages s2 = Suc (length ps)"
    using s1 c(1) T(1) write_rec_open [of s1 c 0 h1] by (simp_all add: s2_def)
  define s3 where "s3 = write_rec (Suc (length ps)) p s2"
  have s3: "file_sub s3 = Some True" "subdat_fn s3 = fn" "texts s3 = T\<lparr>tx_disk := (tx_disk T)(fn \<mapsto> ?c2)\<rparr>"
    "read_area s3 = read_area st" "num_messages s3 = Suc (length ps)"
    using s2 write_rec_open [of s2 ?c1 "Suc (length ps)" p] by (simp_all add: s3_def)
  have bytes: "sub_bytes (refresh_status env (st\<lparr>file_sub := Some True\<rparr>)) = c" using b(1) c(1) by (simp add: sub_bytes_def refresh_status_def)
  have run: "bbs_add_post env p st = set_subchg False s3\<lparr>file_sub := (if file_sub st = None then None else Some True)\<rparr>"
    unfolding bbs_add_post_def Let_def open_close using S(2) s3(1)
    by (simp add: bytes set_subchg_def s1_def [symmetric] s2_def [symmetric] s3_def [symmetric] flip: h1_def)
  show ?thesis using S(1) s3 T by (intro exI [of _ ?c2]) (simp add: run set_subchg_def b(1))
qed

lemma bbs_post_refines:
  assumes a: "at_area env si st msgs" and p: "valid_postrec p" "messagerec.storage_type (post_msg p) = 2"
    and t: "bbs_storable (be_text env) t" "bbs_room (be_text env) (sub_file_name env si) (texts st) t" and num: "Suc (length msgs) < 65536"
  shows "\<exists>m tx. bbs_savefile (be_text env) t (post_msg p) (sub_file_name env si) (texts st) = Inr (m, tx)
    \<and> at_area env si (bbs_add_post env (p\<lparr>post_msg := m\<rparr>) (st\<lparr>texts := tx\<rparr>)) (msgs @ [(p\<lparr>post_msg := m\<rparr>, t)])"
proof -
  let ?te = "be_text env" and ?sfn = "sub_file_name env si" and ?fn = "sub_path env si"
  obtain c d M where f: "tx_disk (texts st) ?fn = Some c" "dat_file_is ?te ?sfn (texts st) d" "area_rel c d M msgs"
    using a by (rule at_area_files)
  have ne: "?fn \<noteq> dat_path ?te ?sfn" using a by (simp add: at_area_def)
  have t': "t \<noteq> []" "NUL \<notin> set t" "510 \<le> length (slack_memory ?te)" "blocks_for (length t) < 128"
    using t(1) by (simp_all add: bbs_storable_def storable_text_def)
  have room: "has_room d (length t)" using t(2) f(2) by (simp add: bbs_room_def dat_file_is_def)
  have inv: "store_inv (contents (opened d)) M" "has_room (contents (opened d)) (length t)" using f(3) room by (simp_all add: area_rel_def)
  obtain k f' where sv: "savefile t (slack_memory ?te) (post_msg p) (Some (opened d)) = Inr ((post_msg p)\<lparr>stored_as := k\<rparr>, f')"
    "M k = None" "store_inv (contents f') (M(k \<mapsto> t))"
    using savefile_store [OF inv(1) t'(1-3) inv(2), of "post_msg p"] by blast
  have pk: "(post_msg p)\<lparr>stored_as := k\<rparr> = type2 k" using p(2) by (simp add: type2_def)
  obtain tx where wr: "bbs_savefile ?te t (post_msg p) ?sfn (texts st) = Inr (type2 k, tx)" "stored ?te ?sfn (contents f') (texts st) tx"
    using bbs_savefile_same [OF dat_opens_as [OF f(2)] p(2) t'(1,4) room] sv(1) unfolding pk by auto
  have dat: "dat_file_is ?te ?sfn tx (contents f')"
    by (rule stored_dat_file(1) [OF wr(2) sv(3)]) (use store_not_empty [OF sv(3), of k t] f(2) in \<open>auto simp: dat_file_is_def\<close>)
  define s where "s = st\<lparr>texts := tx\<rparr>"
  have c: "tx_disk (texts s) ?fn = Some c" using wr(2) ne f(1) by (simp add: s_def stored_def)
  have dat_s: "dat_file_is ?te ?sfn (texts s) (contents f')" using dat by (simp add: s_def)
  define p' where "p' = p\<lparr>post_msg := type2 k\<rparr>"
  have vp: "valid_postrec p'" using p(1) by (simp add: p'_def valid_postrec_def)
  have sub: "sub_rel c (map fst msgs)" using f(3) by (simp add: area_rel_def)
  have plain: "subdat_fn s = ?fn" "file_sub s \<noteq> Some False" "sub_opens env ?fn" "num_messages s = length (map fst msgs)"
    using a by (simp_all add: at_area_def s_def)
  obtain c' where A: "sub_rel c' (map fst msgs @ [p'])" "tx_disk (texts (bbs_add_post env p' s)) = (tx_disk (texts s))(?fn \<mapsto> c')"
    "tx_gat (texts (bbs_add_post env p' s)) = tx_gat (texts s)"
    "read_area (bbs_add_post env p' s) = read_area s" "subdat_fn (bbs_add_post env p' s) = subdat_fn s"
    "file_sub (bbs_add_post env p' s) \<noteq> Some False" "num_messages (bbs_add_post env p' s) = Suc (length (map fst msgs))"
    using bbs_add_post_eq [OF plain c sub vp] num by auto
  have rel: "area_rel c' (contents f') (M(k \<mapsto> t)) (msgs @ [(p', t)])"
    by (rule area_rel_append [OF f(3) A(1) sv(2,3)]) (simp add: p'_def)
  have "at_area env si (bbs_add_post env p' s) (msgs @ [(p', t)])"
    by (rule at_area_replace [OF a _ _ A(6) _ _ _ rel]) (use A dat_s ne in \<open>simp_all add: s_def dat_file_is_def\<close>)
  then show ?thesis using wr(1) unfolding p'_def s_def by blast
qed

text \<open>C9 Posting appends: for a text the store has room for, \<open>bbs_savefile\<close> puts it into the area's file and
  \<open>bbs_add_post\<close> with the address it returns adds the record, after which the area holds the old list of posts with
  the new one at its end and the count in memory is right. The file may be open already or not.
\<close>

theorem bbs_post_appends:
  assumes a: "at_area env si st msgs" and p: "valid_postrec p" "messagerec.storage_type (post_msg p) = 2"
    and t: "bbs_storable (be_text env) t" "bbs_room (be_text env) (sub_file_name env si) (texts st) t" and num: "Suc (length msgs) < 65536"
  shows "\<exists>m tx. bbs_savefile (be_text env) t (post_msg p) (sub_file_name env si) (texts st) = Inr (m, tx)
    \<and> at_area env si (bbs_add_post env (p\<lparr>post_msg := m\<rparr>) (st\<lparr>texts := tx\<rparr>)) (msgs @ [(p\<lparr>post_msg := m\<rparr>, t)])"
  using assms by (rule bbs_post_refines)

section \<open>Deleting\<close>

text \<open>However many pieces of 32000 bytes it takes, the bytes from \<open>cp\<close> to \<open>len\<close> end up 100 places further down.\<close>

lemma copy_down_eq:
  assumes "100 \<le> cp" "cp \<le> len" "len \<le> length c"
  shows "copy_down cp len c = Inr (take (cp - 100) c @ take (len - cp) (drop cp c) @ drop (len - 100) c)"
  using assms
proof (induction cp len c rule: copy_down.induct)
  case (1 cp len c)
  define nb where "nb = min (len - cp) 32000"
  define b where "b = read_at cp nb c"
  have b: "length b = nb" "b = take nb (drop cp c)" using 1(2-4) by (simp_all add: b_def nb_def read_at_def)
  define c1 where "c1 = (if nb = 0 then c else overwrite c (cp - 100) b)"
  have c1: "c1 = take (cp - 100) c @ b @ drop (cp - 100 + nb) c" using 1(2-4) b(1) by (auto simp: c1_def overwrite_def)
  have run: "copy_down cp len c = (if nb = 32000 then copy_down (cp + nb) len c1 else Inr c1)"
    using b(1) by (subst copy_down.simps) (simp add: nb_def b_def c1_def Let_def)
  show ?case
  proof (cases "nb = 32000")
    case True
    then have le: "cp + nb \<le> len" by (simp add: nb_def)
    have len: "length c1 = length c" using 1(2-4) le b(1) by (simp add: c1)
    have "copy_down (cp + nb) len c1 = Inr (take (cp + nb - 100) c1 @ take (len - (cp + nb)) (drop (cp + nb) c1) @ drop (len - 100) c1)"
      using 1(1) [of nb b c1] 1(2-4) True le len b(1) by (simp add: nb_def b_def c1_def)
    moreover have "take (cp + nb - 100) c1 = take (cp - 100) c @ b" using 1(2-4) le b(1) by (simp add: c1)
    moreover have "drop (cp + nb) c1 = drop (cp + nb) c" "drop (len - 100) c1 = drop (len - 100) c"
      using 1(2-4) le b(1) by (simp_all add: c1 add.commute)
    moreover have "b @ take (len - (cp + nb)) (drop (cp + nb) c) = take (len - cp) (drop cp c)"
      using le by (simp add: b(2) add.commute flip: take_add [of nb "len - (cp + nb)" "drop cp c", simplified])
    ultimately show ?thesis using run True by simp
  next
    case False
    then have "nb = len - cp" by (simp add: nb_def min_def split: if_splits)
    then show ?thesis using run False 1(2,3) by (simp add: c1 b(2))
  qed
qed

text \<open>In records: the \<open>k\<close>-th one is gone, and the last one there twice.\<close>

lemma copy_down_posts:
  assumes "k < n" "n \<le> length c div 100" "100 dvd length c"
  shows "\<exists>c'. copy_down ((k + 1) * 100) (n * 100) c = Inr c' \<and> 100 dvd length c' \<and> length c' = length c
    \<and> posts c' = take k (posts c) @ drop (Suc k) (take n (posts c)) @ drop (n - 1) (posts c)"
proof -
  let ?c = "take (k * 100) c @ take ((n - Suc k) * 100) (drop (Suc k * 100) c) @ drop ((n - 1) * 100) c"
  have n: "n * 100 \<le> length c" "k * 100 \<le> length c" using assms(1,2) by (simp_all add: less_eq_div_iff_mult_less_eq)
  have "copy_down ((k + 1) * 100) (n * 100) c = Inr ?c"
    using copy_down_eq [of "(k + 1) * 100" "n * 100" c] assms(1) n(1) by (simp add: algebra_simps)
  moreover have "posts ?c = take k (posts c) @ drop (Suc k) (take n (posts c)) @ drop (n - 1) (posts c)"
    using assms(1) n recs_drop [of 100 dec_postrec "Suc k" c] by (simp add: recs_append recs_take recs_drop drop_take)
  moreover have "length ?c = length c" using assms(1) n by simp
  ultimately show ?thesis using assms(3) by metis
qed

lemma posts_delete:
  assumes rel: "sub_rel c ps" and k: "k < length ps"
  shows "\<exists>c'. copy_down ((Suc k + 1) * 100) ((length ps + 1) * 100) c = Inr c'
    \<and> (\<forall>old. \<exists>h1. h1 = read_rec 0 old c'\<lparr>owneruser := owneruser (read_rec 0 old c') - 1\<rparr> \<and> unat (owneruser h1) = length ps - 1
        \<and> sub_rel (overwrite c' 0 (enc_postrec h1)) (take k ps @ drop (Suc k) ps))"
proof -
  obtain h0 rest where c: "posts c = h0 # ps @ rest" "unat (header_count h0) = length ps" "length ps < 65536" "100 dvd length c"
    using rel unfolding sub_rel_def by blast
  have len: "length c div 100 = Suc (length ps + length rest)" using arg_cong [OF c(1), of length] by simp
  obtain c' where cd: "copy_down ((Suc k + 1) * 100) ((length ps + 1) * 100) c = Inr c'" "100 dvd length c'" "length c' = length c"
    "posts c' = take (Suc k) (posts c) @ drop (Suc (Suc k)) (take (length ps + 1) (posts c)) @ drop (length ps + 1 - 1) (posts c)"
    using copy_down_posts [of "Suc k" "length ps + 1" c] k len c(4) by auto
  let ?qs = "take k ps @ drop (Suc k) ps"
  have p': "posts c' = h0 # ?qs @ drop (length ps) (h0 # ps @ rest)" using k by (simp add: cd(4) c(1))
  have h0: "read_rec 0 old c' = h0" for old using read_rec_nth [of 0 c' old] len by (simp add: cd(3) p')
  have v: "valid_postrec h0" using c(1) by (intro postrec_codec.valid_recs [of h0 c]) simp
  define h1 where "h1 = h0\<lparr>owneruser := owneruser h0 - 1\<rparr>"
  have h1: "unat (header_count h1) = length ps - 1" "unat (owneruser h1) = length ps - 1" "valid_postrec h1"
    using header_count_step(2) [OF v c(2,3) le_less_trans [OF le0 k]] v by (simp_all add: h1_def valid_postrec_def)
  have "sub_rel (overwrite c' 0 (enc_postrec h1)) ?qs"
    unfolding sub_rel_def using posts_header [OF p' cd(2) h1(3)] h1(1) k c(3) by auto
  then show ?thesis using cd(1) h1(2) by (intro exI [of _ c']) (simp add: h0 flip: h1_def)
qed

text \<open>What \<open>delete_post\<close> does to the state, once the text is removed.\<close>

lemma delete_post_eq:
  assumes s: "file_sub s = Some True" "subdat_fn s = fn" "num_messages s = length ps" "0 \<le> read_area s" "read_area s < int (length (be_subs env))"
    and c: "tx_disk (texts s) fn = Some c" "sub_rel c ps" and k: "k < length ps"
    and tx: "bbs_remove_link (be_text env) (post_msg (ps ! k)) (sub_file_name env (read_area s)) (texts s) = Inr tx" "tx_disk tx fn = Some c"
  shows "\<exists>s' c'. delete_post env (Suc k) s = Inr s' \<and> sub_rel c' (take k ps @ drop (Suc k) ps) \<and> texts s' = tx\<lparr>tx_disk := (tx_disk tx)(fn \<mapsto> c')\<rparr>
    \<and> read_area s' = read_area s \<and> subdat_fn s' = fn \<and> file_sub s' = Some True \<and> num_messages s' = length ps - 1"
proof -
  define s1 where "s1 = s\<lparr>static_post := ps ! k\<rparr>"
  have s1: "file_sub s1 = Some True" "subdat_fn s1 = fn" "texts s1 = texts s" "read_area s1 = read_area s" "num_messages s1 = length ps"
    using s by (simp_all add: s1_def)
  have get: "get_post env (int (Suc k)) s = (Some (ps ! k), s1)"
    using get_post_nth [of s c ps k env] c s k by (simp add: s1_def)
  obtain c' h1 where cd: "copy_down ((Suc k + 1) * 100) ((length ps + 1) * 100) c = Inr c'"
    "h1 = read_rec 0 (left_over env) c'\<lparr>owneruser := owneruser (read_rec 0 (left_over env) c') - 1\<rparr>" "unat (owneruser h1) = length ps - 1"
    "sub_rel (overwrite c' 0 (enc_postrec h1)) (take k ps @ drop (Suc k) ps)"
    using posts_delete [OF c(2) k] by auto
  define s2 where "s2 = set_sub_bytes c' (s1\<lparr>texts := tx\<rparr>)\<lparr>num_messages := length ps - 1\<rparr>"
  have s2: "file_sub s2 = Some True" "subdat_fn s2 = fn" "texts s2 = tx\<lparr>tx_disk := (tx_disk tx)(fn \<mapsto> c')\<rparr>" "read_area s2 = read_area s"
    "num_messages s2 = length ps - 1"
    using s1 by (simp_all add: s2_def set_sub_bytes_def set_disk_def)
  define s3 where "s3 = write_rec 0 h1 s2"
  have s3: "texts s3 = tx\<lparr>tx_disk := (tx_disk tx)(fn \<mapsto> overwrite c' 0 (enc_postrec h1))\<rparr>" "read_area s3 = read_area s"
    "file_sub s3 = Some True" "subdat_fn s3 = fn" "num_messages s3 = length ps - 1"
    using s2 write_rec_open [of s2 c' 0 h1] by (simp_all add: s3_def)
  have bytes: "sub_bytes (s1\<lparr>texts := tx\<rparr>) = c" "sub_bytes (set_sub_bytes c' (s1\<lparr>texts := tx\<rparr>)) = c'"
    using tx(2) s1(2) by (simp_all add: sub_bytes_def set_sub_bytes_def set_disk_def)
  have num: "unat (owneruser (read_rec 0 (left_over env) c') - 1) = length ps - 1" using cd(3) by (simp add: cd(2))
  have "delete_post env (Suc k) s = Inr s3"
    using get s1 s(4,5) tx(1) cd(1) num unfolding delete_post_def by (simp add: Let_def bytes s3_def s2_def flip: cd(2))
  then show ?thesis using s3 cd(4) by blast
qed

text \<open>C8 Deleting takes out exactly the chosen post: \<open>delete_message\<close> returns, the area holds the other posts in their
  order with their texts, the count in memory is right, and the room of the deleted text is free again. This holds for any
  number of posts behind it, which are moved in pieces of 32000 bytes.
\<close>

theorem bbs_delete_removes:
  assumes a: "at_area env si st msgs" and n: "1 \<le> mn" "mn \<le> int (length msgs)"
  shows "\<exists>st'. delete_message env mn st = Inr st' \<and> at_area env si st' (take (nat mn - 1) msgs @ drop (nat mn) msgs)
    \<and> bbs_room (be_text env) (sub_file_name env si) (texts st') (snd (msgs ! (nat mn - 1)))"
proof -
  let ?te = "be_text env" and ?sfn = "sub_file_name env si" and ?fn = "sub_path env si"
  obtain k where k: "nat mn = Suc k" "k < length msgs" using n by (cases "nat mn") auto
  let ?p = "fst (msgs ! k)" and ?t = "snd (msgs ! k)" and ?rest = "take k msgs @ drop (Suc k) msgs"
  obtain c d M where f: "tx_disk (texts st) ?fn = Some c" "dat_file_is ?te ?sfn (texts st) d" "area_rel c d M msgs"
    using a by (rule at_area_files)
  have sub: "sub_rel c (map fst msgs)" using f(3) by (simp add: area_rel_def)
  have b: "0 \<le> si" "si < int (length (be_subs env))" "read_area st = si" "subdat_fn st = ?fn" "file_sub st \<noteq> Some False"
    "sub_opens env ?fn" "num_messages st = length (map fst msgs)" "?fn \<noteq> dat_path ?te ?sfn"
    using a by (simp_all add: at_area_def)
  note open_close = sub_open [OF b(4-7) f(1) sub]
  define s where "s = refresh_status env (st\<lparr>file_sub := Some True\<rparr>)"
  have s: "file_sub s = Some True" "subdat_fn s = ?fn" "tx_disk (texts s) = tx_disk (texts st)" "read_area s = si"
    "num_messages s = length (map fst msgs)" "tx_gat (texts s) = tx_gat (texts st)"
    using b by (simp_all add: s_def refresh_status_def)
  have f2: "dat_file_is ?te ?sfn (texts s) d" using f(2) s(3,6) by (simp add: dat_file_is_def)
  have st: "M (key_of ?p) = Some ?t" "messagerec.storage_type (post_msg ?p) = 2" using f(3) nth_mem [OF k(2)] unfolding area_rel_def by simp_all
  have inv: "store_inv (contents (opened d)) M" using f(3) by (simp add: area_rel_def)
  obtain f' where rm: "remove_link (post_msg ?p) (Some (opened d)) = Inr f'" "store_inv (contents f') (M(key_of ?p := None))"
    "has_room (contents f') (length ?t)"
    using remove_link_store [OF inv st(1)] by auto
  obtain tx where tx: "bbs_remove_link ?te (post_msg ?p) ?sfn (texts s) = Inr tx" "stored ?te ?sfn (contents f') (texts s) tx" "contents f' \<noteq> []"
    using bbs_remove_link_same [OF dat_opens_as [OF f2] st(2)] rm(1) by auto
  have dat: "dat_file_is ?te ?sfn tx (contents f')"
    by (rule stored_dat_file(1) [OF tx(2) rm(2) tx(3)]) (use f(2) in \<open>simp add: dat_file_is_def\<close>)
  have c: "tx_disk tx ?fn = Some c" using tx(2) b(8) f(1) s(3) by (simp add: stored_def)
  obtain s' c' where del: "delete_post env (Suc k) s = Inr s'" "sub_rel c' (map fst ?rest)"
    "texts s' = tx\<lparr>tx_disk := (tx_disk tx)(?fn \<mapsto> c')\<rparr>" "read_area s' = si" "subdat_fn s' = ?fn" "file_sub s' = Some True"
    "num_messages s' = length msgs - 1"
    using delete_post_eq [OF s(1,2,5) _ _ _ sub _ _ c, where k = k and env = env] s(3,4) b(1,2) f(1) k(2) tx(1) by (auto simp: take_map drop_map)
  define st' where "st' = s'\<lparr>file_sub := (if file_sub st = None then None else Some True)\<rparr>"
  have run: "delete_message env mn st = Inr st'"
    unfolding delete_message_def Let_def open_close using del(1,6) n s(1,5) k(1) by (simp add: st'_def flip: s_def)
  have rel: "area_rel c' (contents f') (M(key_of ?p := None)) ?rest"
    by (rule area_rel_remove [OF f(3) k(2) del(2) rm(2)])
  have dat': "dat_file_is ?te ?sfn (texts st') (contents f')" using dat b(8) by (simp add: st'_def del(3) dat_file_is_def)
  have "at_area env si st' ?rest"
    by (rule at_area_replace [OF a _ _ _ _ _ dat' rel]) (use del b(3,4) k(2) in \<open>simp_all add: st'_def\<close>)
  moreover have "bbs_room ?te ?sfn (texts st') ?t" using dat' rm(3) by (auto simp: bbs_room_def dat_file_is_def)
  ultimately show ?thesis using run by (simp add: k(1))
qed

section \<open>Reading, and the witnesses\<close>

text \<open>C17 Reading: \<open>get_post\<close> gives the n-th record, the last one when the number is too large, and \<open>bbs_readfile\<close> with
  its address the text of that post as it is shown (\<open>cz_trim\<close>); the area still holds the same posts.
\<close>

theorem bbs_reads_nth:
  assumes a: "at_area env si st msgs" and n: "1 \<le> mn" "msgs \<noteq> []"
  shows "\<exists>st1 tx. get_post env mn st = (Some (fst (msgs ! (min (nat mn) (length msgs) - 1))), st1)
    \<and> bbs_readfile (be_text env) (post_msg (fst (msgs ! (min (nat mn) (length msgs) - 1)))) (sub_file_name env si) (texts st1)
        = Some (Inr (True, cz_trim (snd (msgs ! (min (nat mn) (length msgs) - 1))), tx))
    \<and> at_area env si (st1\<lparr>texts := tx\<rparr>) msgs"
proof -
  let ?te = "be_text env" and ?sfn = "sub_file_name env si" and ?i = "min (nat mn) (length msgs) - 1"
  let ?p = "fst (msgs ! ?i)" and ?t = "snd (msgs ! ?i)"
  have i: "?i < length msgs" using n by (cases msgs) (auto simp: min_def)
  obtain c d M where f: "tx_disk (texts st) (sub_path env si) = Some c" "dat_file_is ?te ?sfn (texts st) d" "area_rel c d M msgs"
    using a by (rule at_area_files)
  have "readable env st (map fst msgs)" using a f by (auto simp: readable_def at_area_def area_rel_def)
  then have get: "get_post env mn st = (Some ?p, st\<lparr>static_post := ?p\<rparr>)"
    using get_post_readable [of env st "map fst msgs" mn] n i by simp
  have p: "messagerec.storage_type (post_msg ?p) = 2" "M (key_of ?p) = Some ?t" "store_inv d M"
    using f(3) nth_mem [OF i] unfolding area_rel_def by simp_all
  obtain f' :: wfile and tx where rd: "bbs_readfile ?te (post_msg ?p) ?sfn (texts st) = Some (Inr (True, cz_trim ?t, tx))"
    "stored ?te ?sfn (contents f') (texts st) tx" "store_inv (contents f') M"
    using bbs_readfile_same [OF dat_opens_as [OF f(2)] p(1,3,2)] by blast
  have dat: "dat_file_is ?te ?sfn tx (contents f')"
    by (rule stored_dat_file(1) [OF rd(2,3) store_not_empty [OF rd(3) p(2)]]) (use f(2) in \<open>simp add: dat_file_is_def\<close>)
  have rel: "area_rel c (contents f') M msgs" using f(3) rd(3) by (simp add: area_rel_def)
  have "at_area env si (st\<lparr>static_post := ?p, texts := tx\<rparr>) msgs"
    by (rule at_area_replace [OF a _ _ _ _ _ _ rel]) (use a dat rd(2) f(1) in \<open>simp_all add: at_area_def stored_def\<close>)
  then show ?thesis using get rd(1) by auto
qed

lemma demo_at_area: "area_rel c d M msgs \<Longrightarrow> d \<noteq> [] \<Longrightarrow> at_area demo_env 0 (demo_state c d (length msgs)) msgs"
  using demo_files [of c d M msgs] by (simp add: at_area_def demo_names)

theorem bbs_post_appends_witness:
  "\<exists>st m tx. at_area demo_env 0 st [] \<and> bbs_savefile (be_text demo_env) (post_text demo_time demo_message) (type2 0) ''GENERAL'' (texts st) = Inr (m, tx)
    \<and> at_area demo_env 0 (bbs_add_post demo_env (empty_postrec\<lparr>post_msg := m\<rparr>) (st\<lparr>texts := tx\<rparr>))
        [(empty_postrec\<lparr>post_msg := m\<rparr>, post_text demo_time demo_message)]"
proof -
  let ?t = "post_text demo_time demo_message" and ?p = "empty_postrec\<lparr>post_msg := type2 0\<rparr>"
  obtain c d M where rel: "area_rel c d M []" "d = replicate 80896 NUL"
    using demo_inv by (auto simp: area_inv_def demo_area_def)
  have ne: "d \<noteq> []" unfolding rel(2) by simp
  have a: "at_area demo_env 0 (demo_state c d 0) []" using demo_at_area [OF rel(1) ne] by simp
  have room: "has_room d (length ?t)" using demo_room by (simp add: area_room_def demo_area_def rel(2))
  have len: "blocks_for (length ?t) < 128" unfolding demo_text by (simp add: CRLF_def blocks_for_def)
  have p: "valid_postrec ?p" "messagerec.storage_type (post_msg ?p) = 2" by (simp_all add: empty_postrec_def valid_postrec_def type2_def)
  have "bbs_storable (be_text demo_env) ?t" using demo_storable len by (simp add: bbs_storable_def)
  moreover have "bbs_room (be_text demo_env) (sub_file_name demo_env 0) (texts (demo_state c d 0)) ?t"
    using room by (simp add: bbs_room_def demo_names)
  ultimately obtain m tx where "bbs_savefile (be_text demo_env) ?t (post_msg ?p) (sub_file_name demo_env 0) (texts (demo_state c d 0)) = Inr (m, tx)"
    "at_area demo_env 0 (bbs_add_post demo_env (?p\<lparr>post_msg := m\<rparr>) (demo_state c d 0\<lparr>texts := tx\<rparr>)) ([] @ [(?p\<lparr>post_msg := m\<rparr>, ?t)])"
    using bbs_post_appends [OF a p, of ?t] by auto
  then show ?thesis using a by (simp add: demo_names) blast
qed

theorem bbs_delete_removes_witness:
  "\<exists>st p st'. at_area demo_env 0 st [(p, post_text demo_time demo_message)] \<and> delete_message demo_env 1 st = Inr st' \<and> at_area demo_env 0 st' []"
proof -
  obtain c d M p where rel: "area_rel c d M [(p, post_text demo_time demo_message)]" "d \<noteq> []" using demo_one by blast
  note a = demo_at_area [OF rel]
  show ?thesis using bbs_delete_removes [OF a, of 1] a by auto
qed

theorem bbs_reads_nth_witness:
  "\<exists>st p st1 tx. at_area demo_env 0 st [(p, post_text demo_time demo_message)] \<and> get_post demo_env 4 st = (Some p, st1)
    \<and> bbs_readfile (be_text demo_env) (post_msg p) ''GENERAL'' (texts st1) = Some (Inr (True, cz_trim (post_text demo_time demo_message), tx))"
proof -
  obtain c d M p where rel: "area_rel c d M [(p, post_text demo_time demo_message)]" "d \<noteq> []" using demo_one by blast
  note a = demo_at_area [OF rel]
  show ?thesis using bbs_reads_nth [OF a, of 4] a by (auto simp: demo_names)
qed

end
