(* ===== verification/Spec2Isabelle.thy ===== *)
theory Spec2Isabelle
  imports Msg_Api Core_CommandLine Core_Ini Core_Path Sdk_Callout Net_Config Net_Binkp_Run Net_Binkp_Silence Sdk_Names Sdk_Users
    Zm_File_Transfer Zm_Damage Bbs_Conf_File Bbs_Access_Lists Bbs_DirEdit_Follows Bbs_Area
begin

text \<open>
  WWIV is a bulletin board system. \<open>bbs\<close> is the interactive program, \<open>networkb\<close> and \<open>network\<close>
  exchange mail with other systems, \<open>init\<close> edits the configuration and \<open>wwivutil\<close> inspects the data
  files. All of them rest on \<open>core\<close> (strings, files, INI files, command line, MD5) and on \<open>sdk\<close> (the
  data files: message areas, networks, callout lists, contacts). The development models \<open>core\<close>, the
  message base, the user and the network files of \<open>sdk\<close>, the BinkP mailer \<open>networkb\<close>, and of \<open>bbs\<close> the
  transfer of files by ZMODEM, the message base and the bookkeeping of conferences, message areas and file areas.

  \<^bold>\<open>Conventions\<close> (\<open>Wwiv_Prelude\<close>). A byte is a \<open>char\<close>, a \<open>std::string\<close> a list of them, and a
  \<open>char*\<close> the prefix up to the first NUL (\<open>c_str\<close>). Integers with a width are words; \<open>int\<close> is used
  where the code cannot overflow. An exception, a null dereference or a read out of range is an
  \<open>Inl\<close> value of \<open>cpp_error\<close>. A loop that may not end is a \<open>partial_function (option)\<close> and \<open>None\<close> is
  the run that never returns; all other loops have a termination proof. The file system is a map
  from path names to contents (\<open>disk\<close>), passed along; what the operating system decides (whether
  \<open>mkdir\<close> succeeds, whether a file is locked, the clock) is a parameter. \<open>std::map\<close> is a sorted
  association list, with \<open>emplace\<close>, \<open>operator[]\<close> and \<open>erase\<close> as in C++.

  \<^bold>\<open>core\<close>.
  \<^item> \<open>Core_Strings\<close>: \<open>core/strings.cpp\<close>; comparison, number parsing with its overflow, replacement,
    splitting, trimming, justification, case.
  \<^item> \<open>Core_File\<close>: an open file (bytes and position) and \<open>core/datafile.h\<close>, the array of records, over
    any codec that satisfies the locale \<open>record_codec\<close>; every record of the \<open>sdk\<close> interprets it.
  \<^item> \<open>Core_Path\<close>: names, existence, copying, moving and directories; \<open>Core_TextFile\<close>: lines of text.
    The locale \<open>line_reader\<close> is the contract of the constructors that read a file line by line.
  \<^item> \<open>Core_Ini\<close>, \<open>Core_CommandLine\<close>: the two parsers; a printed document or argument list is read back.
  \<^item> \<open>Core_FindFile\<close>: \<open>core/wfndfile_unix.cpp\<close>, file name patterns with their DOS expansion.
  \<^item> \<open>Core_Md5\<close>: the streaming \<open>core/md5.cpp\<close>, shown to compute the MD5 of the concatenation however the
    data is cut, which the locale \<open>hash_stream\<close> states; the reference is RFC 1321 written out.

  \<^bold>\<open>Message base\<close> (\<open>sdk/msgapi\<close>). A message area is a \<open>.sub\<close> file of fixed-size records and a \<open>.dat\<close>
  file of 512-byte blocks, allocated through one table of 2048 links for each section.
  \<^item> \<open>Msg_Gat\<close>: \<open>load_gat\<close>, \<open>save_gat\<close>, \<open>readfile\<close>, \<open>savefile\<close>, \<open>remove_link\<close>.
  \<^item> \<open>Msg_Store\<close>: the \<open>.dat\<close> file refines a finite map from addresses to texts (locale \<open>text_store\<close>).
  \<^item> \<open>Msg_Area\<close>: records, titles, the reading, adding and deleting of messages; \<open>Msg_Area_Spec\<close>: the
    area refines a list of posts.
  \<^item> \<open>Msg_Api\<close>: creating and opening areas, and the properties of the whole: \<open>AddMessage\<close> appends,
    \<open>ReadMessage\<close> reads the n-th, \<open>DeleteMessage\<close> removes it and nothing else.

  \<^bold>\<open>Network files\<close> (\<open>sdk\<close>, \<open>networkb\<close>). \<open>Sdk_Callout\<close>: \<open>CALLOUT.NET\<close>; \<open>Sdk_Networks\<close>: \<open>NETWORKS.DAT\<close>;
  \<open>Sdk_Contact\<close>: \<open>CONTACT.NET\<close>; \<open>Net_Config\<close>: \<open>binkp.net\<close> and \<open>addresses.net\<close>; \<open>Net_Log\<close>: \<open>net.log\<close>.
  Each is read back as it was printed, or acts as the map or list it stands for; \<open>CONTACT.NET\<close> keeps the history of
  connections and failures of each node.

  \<^bold>\<open>Users\<close> (\<open>sdk\<close>). \<open>Sdk_Names\<close>: the sorted list of names, \<open>names.cpp\<close>, with its file; adding and
  removing keep it well formed. \<open>Sdk_Users\<close>: the user record and \<open>usermanager.cpp\<close>; a user that is
  written is read back and the others stay as they were.

  \<^bold>\<open>File transfer\<close> (\<open>bbs/prot\<close>). The protocols are state machines: \<open>ZModem\<close> is the record of
  \<open>zmodem.h\<close> with the bytes sent, the disk and the open file, and an operation (\<open>zop\<close>) yields the code the
  C function returns and the new state, or \<open>Inl UndefinedBehaviour\<close> where the code leaves its buffers.
  \<^item> \<open>Zm_Crc\<close>: the tables and macros of \<open>crctab.cpp\<close>; \<open>Zm_Poly\<close>: they divide polynomials bit by bit, and
    the division can be undone.
  \<^item> \<open>Zm_Wire\<close>: constants, states and the sending of headers and packets (\<open>zmutil.cpp\<close>, \<open>zmwwiv.cpp\<close>);
    \<open>Zm_Receive\<close>, \<open>Zm_Transmit\<close>: \<open>zmodemr.cpp\<close> and \<open>zmodemt.cpp\<close>, one definition for each action;
    \<open>Zm_Parser\<close>: \<open>zmodem.cpp\<close>, the parsers of characters and the tables of the states;
    \<open>Zm_Driver\<close>: the loop \<open>doIO\<close> over a list of events and the two programs.
  \<^item> \<open>Zm_Codec\<close>, \<open>Zm_Headers\<close>: what is sent is parsed as it was meant. The parsers of headers and of data
    share the locale \<open>escaped_input\<close>. \<open>Zm_Transfer\<close>: packets of a file; \<open>Zm_Sender\<close>, \<open>Zm_Receiver\<close>: each
    side, one message at a time.
  \<^item> \<open>Zm_Session\<close>: \<open>conversation\<close> is the step relation of two programs on a line; \<open>Zm_File_Transfer\<close>: a
    whole transfer puts the file on the other disk. \<open>Zm_Damage\<close>: damaged packets, and what is not checked.

  \<^bold>\<open>Message base of the interactive program\<close> (\<open>bbs\<close>). It works on the files of \<open>sdk/msgapi\<close> with code of its own.
  \<^item> \<open>Bbs_Status\<close>: \<open>status.cpp\<close>, the transaction on \<open>STATUS.DAT\<close> by which the programs on one system see that posts have
    changed; the file is kept apart from the disk of the areas.
  \<^item> \<open>Bbs_Message_File\<close>: \<open>message_file.cpp\<close>, with the table and the section as global state. \<open>Bbs_Message_Store\<close>: on
    a file in order its operations do what those of \<open>Msg_Gat\<close> do, so they satisfy \<open>text_store\<close> as well.
  \<^item> \<open>Bbs_Subacc\<close>: \<open>subacc.cpp\<close>; whether a file opens, and the terminal are parameters (\<open>base_env\<close>). \<open>Bbs_Pack\<close>: packing an area, and finding a post again; \<open>Bbs_Area\<close>: the area that is open refines the
    list of posts of \<open>Msg_Area_Spec\<close> under adding, reading and deleting.

  \<^bold>\<open>Conferences and areas\<close> (\<open>bbs\<close>). Message areas and file areas are known by their number: to the conferences, to
  the lists of what a user may enter, to the networks, and to the record of what each user has read.
  \<^item> \<open>Bbs_Conf\<close>: \<open>conf.cpp\<close> and \<open>arword.cpp\<close>; \<open>Bbs_Conf_Update\<close>: when areas are renumbered the conferences go on
    showing the same ones, which the datatype \<open>change\<close> and \<open>arrange\<close> state for all that follows;
    \<open>Bbs_Conf_File\<close>: the file of the conferences, and inserting and deleting one.
  \<^item> \<open>Bbs_Access\<close>: \<open>confutil.cpp\<close>, who may enter what; \<open>Bbs_Access_Lists\<close>: the list of areas made for a user, and
    when \<open>changedsl\<close> returns.
  \<^item> \<open>Bbs_QScan\<close>: the words of a scan record, and the loops that move its bits and numbers. \<open>Bbs_Subxtr\<close>: the file of
    the networks of message areas. \<open>Bbs_SubEdit\<close>: \<open>wqscn.cpp\<close> and the operations of \<open>subedit.cpp\<close> and
    \<open>diredit.cpp\<close>; \<open>Bbs_SubEdit_Follows\<close> and \<open>Bbs_DirEdit_Follows\<close>: lists, conferences and the records of all
    users follow a change, except the number of the current area in an exchange, and where the code is undefined.

  \<^bold>\<open>BinkP\<close> (\<open>networkb/binkp.cpp\<close>).
  \<^item> \<open>Net_Cram\<close>: CRAM-MD5, equal to HMAC-MD5.
  \<^item> \<open>Net_Frames\<close>: the connection and the frames. What the peer does is a script: \<open>Byte b\<close> arrives,
    \<open>Late\<close> is a time-out of the reading operation, the end of the script is a closed connection.
  \<^item> \<open>Net_Binkp\<close>: the session. \<open>bink\<close> is the record of the members of the class and of the disk,
    \<open>bink_env\<close> what it does not change (configuration, callout lists, clock, the factory of received
    files). An operation is a function from states to a result and a state, also when it throws.
    There is one definition for each state of \<open>BinkState\<close>, and \<open>run_loop\<close> is the loop of \<open>Run\<close>.
  \<^item> \<open>Net_Binkp_Frames\<close>: \<open>process_frames\<close> gets one unit of fuel more than the script has items. Every
    round consumes an item or is the last one, so more fuel changes nothing (\<open>frames_loop_fuel\<close>) and
    \<open>OutOfFuel\<close> is never reached. The scripts are finite and end with a closed connection, so this says little of a peer
    that stays: \<open>Net_Binkp_Silence\<close> bounds the time-outs a session waits for a peer that has fallen silent. A peer that never
    stops sending is not modelled; \<open>process_frames\<close> would go on with it.
  \<^item> \<open>Net_Binkp_Invariants\<close>: the locales \<open>session_invariant\<close> and \<open>transfer_invariant\<close>: what a property
    must be stable under for every operation of a session to keep it, proved once. \<open>Net_Binkp_Auth\<close>
    interprets the first (nothing but commands is sent before the login), \<open>Net_Binkp_Files\<close> the
    second (which files a session touches).
  \<^item> \<open>Net_Binkp_Wire\<close>, \<open>Net_Binkp_Transfer\<close>: packets are read as they were sent; a file goes from one
    disk to the other byte for byte. \<open>Net_Binkp_Login\<close>: complete logins, and what the order of the
    checks does not protect against. \<open>Net_Binkp_Finish\<close>: renaming the received files, starting the
    network programs, contacts and the log at the end of \<open>Run\<close>; \<open>Net_Binkp_Run\<close>: which files a whole run touches.

  \<^bold>\<open>How they interact\<close>. The session reads its configuration through \<open>Sdk_Networks\<close>, \<open>Sdk_Callout\<close>
  and \<open>Net_Config\<close>, authenticates through \<open>Net_Cram\<close> and \<open>Core_Md5\<close>, and records its outcome through
  \<open>Sdk_Contact\<close> and \<open>Net_Log\<close>; \<open>Net_Binkp_Finish.Run\<close> composes all of them. The message area runs on
  \<open>Core_File\<close> and \<open>Core_Strings\<close>, its API on \<open>Core_Path\<close>.

  \<^bold>\<open>Where the model is coarser than the code\<close>. A reading operation of 0 bytes on a connection where nothing arrives times
  out, where \<open>recv\<close> returns at once. \<open>WriteChunk\<close> makes a file for an empty name, \<open>.\<close> or \<open>..\<close>, where the code finds a directory
  and writes nothing. \<open>Names_Load\<close> joins the name of its file with \<open>SetName\<close>, which agrees with \<open>FilePath\<close> on a directory that
  is not empty. \<open>WriteUserNoCache\<close> takes the file of the users to open. The dialogue of \<open>insert_conf\<close> is an argument, and a
  new conference starts with \<open>maxnum\<close> 0, which the code leaves undefined. The scripts of a connection are finite.

  \<^bold>\<open>Not modelled\<close>. Log lines and help texts (output only); opening and accepting sockets, threads,
  file permissions and time stamps (system calls); the printing of floating-point numbers and of
  local time (parameters); \<open>bbs\<close> beyond the transfers, the message base, conferences and areas, \<open>init\<close>, \<open>initlib\<close> and
  \<open>wwivutil\<close>, which are dialogues and command dispatch; \<open>deps\<close> (third-party) and the C-sharp programs.
\<close>

end
